(* ===== verification/OC_Prelude.thy ===== *)
theory OC_Prelude
  imports Main "HOL-Library.Word"
begin

text \<open>
  What the components of the development share: the machine types of the Rust sources,
  \<^verbatim>\<open>Result\<close> as a sum type with its \<^verbatim>\<open>?\<close> operator, checked and saturating arithmetic,
  slices, and the little- and big-endian integer encodings.

  Conventions.  An unsigned integer of fixed width is a word of that width.  \<^verbatim>\<open>i64\<close> is a
  64-bit word read through \<^term>\<open>sint\<close>.  \<^verbatim>\<open>usize\<close> is a natural number, and every
  \<^verbatim>\<open>checked_add\<close> on it fails from \<open>2 ^ 64\<close> on (a 64-bit target).  An array
  \<^verbatim>\<open>[u8; N]\<close> is a byte list; where its length matters it is a hypothesis or part of a
  well-formedness predicate.
\<close>

named_theorems result_simps "equations that take a chain of fallible steps apart"
named_theorems checked_simps "readings of checked and saturating arithmetic as numbers"

type_synonym byte = "8 word"
type_synonym bytes = "8 word list"
type_synonym u16 = "16 word"
type_synonym u32 = "32 word"
type_synonym u64 = "64 word"
type_synonym i64 = "64 word"

section \<open>Results\<close>

definition bindR :: "'e + 'a \<Rightarrow> ('a \<Rightarrow> 'e + 'b) \<Rightarrow> 'e + 'b" where
  "bindR m f = (case m of Inl e \<Rightarrow> Inl e | Inr x \<Rightarrow> f x)"

definition ok_or :: "'e \<Rightarrow> 'a option \<Rightarrow> 'e + 'a" where
  "ok_or e v = (case v of None \<Rightarrow> Inl e | Some x \<Rightarrow> Inr x)"

definition ensure :: "bool \<Rightarrow> 'e \<Rightarrow> 'e + unit" where
  "ensure b e = (if b then Inr () else Inl e)"

text \<open>\<^verbatim>\<open>map_err(|_| e)\<close>.\<close>

definition map_err :: "'e \<Rightarrow> 'd + 'a \<Rightarrow> 'e + 'a" where
  "map_err e r = (case r of Inl _ \<Rightarrow> Inl e | Inr x \<Rightarrow> Inr x)"

definition is_ok :: "'e + 'a \<Rightarrow> bool" where
  "is_ok r = (case r of Inl _ \<Rightarrow> False | Inr _ \<Rightarrow> True)"

lemma bindR_Inl [simp]: "bindR (Inl e) f = Inl e"
  and bindR_Inr [simp]: "bindR (Inr x) f = f x"
  by (simp_all add: bindR_def)

lemma ok_or_None [simp]: "ok_or e None = Inl e"
  and ok_or_Some [simp]: "ok_or e (Some x) = Inr x"
  by (simp_all add: ok_or_def)

lemma map_err_simps [simp]: "map_err e (Inl d) = Inl e" "map_err e (Inr x) = Inr x"
  by (simp_all add: map_err_def)

lemma map_err_eq_Inr [result_simps]: "map_err e r = Inr x \<longleftrightarrow> r = Inr x"
  by (cases r) simp_all

lemma map_sum_Inr: "map_sum f id r = Inr x \<longleftrightarrow> r = Inr x"
  by (cases r) auto

lemma is_ok_Inl [simp]: "\<not> is_ok (Inl e)"
  and is_ok_Inr [simp]: "is_ok (Inr x)"
  by (simp_all add: is_ok_def)

lemma ensure_True [simp]: "ensure True e = Inr ()"
  and ensure_False [simp]: "ensure False e = Inl e"
  by (simp_all add: ensure_def)

lemma bindR_eq_Inr [result_simps]: "bindR m f = Inr y \<longleftrightarrow> (\<exists>x. m = Inr x \<and> f x = Inr y)"
  by (cases m) simp_all

lemma bind_unit_eq_Inr: "bindR (m :: 'e + unit) f = Inr y \<longleftrightarrow> m = Inr () \<and> f () = Inr y"
  by (cases m) simp_all

lemma bindR_eq_Inl [result_simps]:
  "bindR m f = Inl e \<longleftrightarrow> m = Inl e \<or> (\<exists>x. m = Inr x \<and> f x = Inl e)"
  by (cases m) simp_all

lemma ok_or_eq_Inr [result_simps]: "ok_or e v = Inr x \<longleftrightarrow> v = Some x"
  by (cases v) simp_all

lemma ok_or_eq_Inl [result_simps]: "ok_or e v = Inl d \<longleftrightarrow> v = None \<and> d = e"
  by (cases v) auto

lemma ensure_eq_Inr [result_simps]: "ensure b e = Inr u \<longleftrightarrow> b"
  by (simp add: ensure_def)

lemma ensure_eq_Inl [result_simps]: "ensure b e = Inl d \<longleftrightarrow> \<not> b \<and> d = e"
  by (auto simp add: ensure_def)

lemma bindR_cong [fundef_cong]:
  "m = m' \<Longrightarrow> (\<And>x. m' = Inr x \<Longrightarrow> f x = g x) \<Longrightarrow> bindR m f = bindR m' g"
  by (cases m') simp_all

lemma bindR_assoc: "bindR (bindR m f) g = bindR m (\<lambda>x. bindR (f x) g)"
  by (cases m) simp_all

text \<open>A loop over a list whose body may fail: the first failure ends it.\<close>

fun foldR :: "('x \<Rightarrow> 's \<Rightarrow> 'e + 's) \<Rightarrow> 'x list \<Rightarrow> 's \<Rightarrow> 'e + 's" where
  "foldR f [] s = Inr s"
| "foldR f (x # xs) s = bindR (f x s) (foldR f xs)"

lemma foldR_append: "foldR f (xs @ ys) s = bindR (foldR f xs s) (foldR f ys)"
proof (induction xs arbitrary: s)
  case (Cons x xs)
  have "foldR f (xs @ ys) = (\<lambda>t. bindR (foldR f xs t) (foldR f ys))"
    by (rule ext) (rule Cons.IH)
  then show ?case by (simp add: bindR_assoc)
qed simp

lemma foldR_cong [fundef_cong]:
  assumes "xs = ys" and "s = t" and "\<And>x s. x \<in> set ys \<Longrightarrow> f x s = g x s"
  shows "foldR f xs s = foldR g ys t"
  using assms by (induction ys arbitrary: xs s t) (auto simp: bindR_def split: sum.split)

lemma foldR_ensure: "foldR (\<lambda>x _. ensure (P x) (e x)) xs u = Inr v \<longleftrightarrow> (\<forall>x \<in> set xs. P x)"
  by (induction xs arbitrary: u) (auto simp: bindR_eq_Inr ensure_eq_Inr)

lemma foldR_invariant:
  assumes "foldR f xs s = Inr t" and "P s"
    and "\<And>x s s'. x \<in> set xs \<Longrightarrow> P s \<Longrightarrow> f x s = Inr s' \<Longrightarrow> P s'"
  shows "P t"
  using assms by (induction xs arbitrary: s) (auto simp: bindR_eq_Inr)

section \<open>Slices\<close>

text \<open>\<^verbatim>\<open>buf.get(i..j)\<close>.\<close>

definition get_range :: "'a list \<Rightarrow> nat \<Rightarrow> nat \<Rightarrow> 'a list option" where
  "get_range buf i j = (if i \<le> j \<and> j \<le> length buf then Some (take (j - i) (drop i buf)) else None)"

definition slice :: "'a list \<Rightarrow> nat \<Rightarrow> nat \<Rightarrow> 'a list" where
  "slice buf i j = take (j - i) (drop i buf)"

text \<open>\<^verbatim>\<open>xs.get(i)\<close>.\<close>

definition get_at :: "'a list \<Rightarrow> nat \<Rightarrow> 'a option" where
  "get_at xs i = (if i < length xs then Some (xs ! i) else None)"

lemma get_range_eq_Some:
  "get_range buf i j = Some v \<longleftrightarrow> i \<le> j \<and> j \<le> length buf \<and> v = slice buf i j"
  by (auto simp: get_range_def slice_def)

lemma get_range_eq_None: "get_range buf i j = None \<longleftrightarrow> j < i \<or> length buf < j"
  by (auto simp: get_range_def)

lemma get_range_length: "get_range buf i j = Some v \<Longrightarrow> length v = j - i"
  by (auto simp: get_range_def split: if_splits)

lemma get_at_eq_Some: "get_at xs i = Some v \<longleftrightarrow> i < length xs \<and> v = xs ! i"
  by (auto simp: get_at_def)

lemma slice_append_mid [simp]:
  "length a = i \<Longrightarrow> length a + length b = j \<Longrightarrow> slice (a @ b @ c) i j = b"
  by (auto simp: slice_def)

lemma slice_length: "j \<le> length buf \<Longrightarrow> length (slice buf i j) = j - i"
  by (simp add: slice_def)

lemma drop_eq_slice_append:
  "i \<le> j \<Longrightarrow> drop i buf = slice buf i j @ drop j buf"
  by (metis append_take_drop_id drop_drop le_add_diff_inverse2 slice_def)

text \<open>\<^verbatim>\<open>split_at_checked\<close> refuses a position beyond the end.\<close>

definition split_at_checked :: "'a list \<Rightarrow> nat \<Rightarrow> ('a list \<times> 'a list) option" where
  "split_at_checked xs k = (if k \<le> length xs then Some (take k xs, drop k xs) else None)"

lemma split_at_checked_eq_Some:
  "split_at_checked xs k = Some (a, b) \<longleftrightarrow> k \<le> length xs \<and> a = take k xs \<and> b = drop k xs"
  by (auto simp: split_at_checked_def)

lemma split_at_checked_append [simp]: "length a = k \<Longrightarrow> split_at_checked (a @ b) k = Some (a, b)"
  by (auto simp: split_at_checked_def)

section \<open>Checked and saturating arithmetic\<close>

abbreviation (input) usize_limit :: nat where
  "usize_limit \<equiv> 18446744073709551616"

definition checked_add_usize :: "nat \<Rightarrow> nat \<Rightarrow> nat option" where
  "checked_add_usize a b = (if a + b < usize_limit then Some (a + b) else None)"

definition saturating_add_usize :: "nat \<Rightarrow> nat \<Rightarrow> nat" where
  "saturating_add_usize a b = min (a + b) (usize_limit - 1)"

definition saturating_mul_usize :: "nat \<Rightarrow> nat \<Rightarrow> nat" where
  "saturating_mul_usize a b = min (a * b) (usize_limit - 1)"

definition checked_add :: "'a::len word \<Rightarrow> 'a word \<Rightarrow> 'a word option" where
  "checked_add a b = (if unat a + unat b < 2 ^ LENGTH('a) then Some (a + b) else None)"

definition checked_sub :: "'a::len word \<Rightarrow> 'a word \<Rightarrow> 'a word option" where
  "checked_sub a b = (if b \<le> a then Some (a - b) else None)"

definition checked_mul :: "'a::len word \<Rightarrow> 'a word \<Rightarrow> 'a word option" where
  "checked_mul a b = (if unat a * unat b < 2 ^ LENGTH('a) then Some (a * b) else None)"

definition saturating_add :: "'a::len word \<Rightarrow> 'a word \<Rightarrow> 'a word" where
  "saturating_add a b = (if unat a + unat b < 2 ^ LENGTH('a) then a + b else - 1)"

definition saturating_sub :: "'a::len word \<Rightarrow> 'a word \<Rightarrow> 'a word" where
  "saturating_sub a b = (if b \<le> a then a - b else 0)"

definition saturating_mul :: "'a::len word \<Rightarrow> 'a word \<Rightarrow> 'a word" where
  "saturating_mul a b = (if unat a * unat b < 2 ^ LENGTH('a) then a * b else - 1)"

lemma checked_add_eq_Some [checked_simps]:
  fixes a b c :: "'a::len word"
  shows "checked_add a b = Some c \<longleftrightarrow> unat c = unat a + unat b"
  by (auto simp: checked_add_def unat_word_ariths word_unat_eq_iff)
    (metis unsigned_less)+

lemma checked_add_eq_None [checked_simps]:
  fixes a b :: "'a::len word"
  shows "checked_add a b = None \<longleftrightarrow> 2 ^ LENGTH('a) \<le> unat a + unat b"
  by (auto simp: checked_add_def)

lemma checked_sub_eq_Some [checked_simps]:
  fixes a b c :: "'a::len word"
  shows "checked_sub a b = Some c \<longleftrightarrow> unat a = unat b + unat c"
  by (auto simp: checked_sub_def word_le_nat_alt unat_sub word_unat_eq_iff)

lemma checked_mul_eq_Some [checked_simps]:
  fixes a b c :: "'a::len word"
  shows "checked_mul a b = Some c \<longleftrightarrow> unat c = unat a * unat b"
  by (auto simp: checked_mul_def unat_word_ariths word_unat_eq_iff)
    (metis unsigned_less)+

lemma checked_mul_eq_None [checked_simps]:
  fixes a b :: "'a::len word"
  shows "checked_mul a b = None \<longleftrightarrow> 2 ^ LENGTH('a) \<le> unat a * unat b"
  by (auto simp: checked_mul_def)

lemma unat_saturating_add [checked_simps]:
  fixes a b :: "'a::len word"
  shows "unat (saturating_add a b) = min (unat a + unat b) (2 ^ LENGTH('a) - 1)"
  by (auto simp: saturating_add_def unat_word_ariths unsigned_minus_1_eq_mask mask_eq_exp_minus_1)

lemma unat_saturating_sub [checked_simps]:
  fixes a b :: "'a::len word"
  shows "unat (saturating_sub a b) = unat a - unat b"
  by (auto simp: saturating_sub_def word_le_nat_alt unat_sub)

lemma unat_saturating_mul [checked_simps]:
  fixes a b :: "'a::len word"
  shows "unat (saturating_mul a b) = min (unat a * unat b) (2 ^ LENGTH('a) - 1)"
  by (auto simp: saturating_mul_def unat_word_ariths unsigned_minus_1_eq_mask mask_eq_exp_minus_1)

lemma checked_add_u64_ok:
  "unat a + unat b < 18446744073709551616 \<Longrightarrow> \<exists>c::u64. checked_add a b = Some c \<and> unat c = unat a + unat b"
  by (simp add: checked_add_def unat_word_ariths)

lemma checked_mul_u64_ok:
  "unat a * unat b < 18446744073709551616 \<Longrightarrow> \<exists>c::u64. checked_mul a b = Some c \<and> unat c = unat a * unat b"
  by (simp add: checked_mul_def unat_word_ariths)

lemma unat_min [checked_simps]: "unat (min a b) = min (unat a) (unat (b :: 'a::len word))"
  by (simp add: min_def word_le_nat_alt)

text \<open>Signed 64-bit arithmetic: the exact result, clamped into the range of the type.\<close>

definition clamp_i64 :: "int \<Rightarrow> int" where
  "clamp_i64 x = max (- 9223372036854775808) (min 9223372036854775807 x)"

definition saturating_sub_i64 :: "i64 \<Rightarrow> i64 \<Rightarrow> i64" where
  "saturating_sub_i64 a b = word_of_int (clamp_i64 (sint a - sint b))"

definition saturating_add_i64 :: "i64 \<Rightarrow> i64 \<Rightarrow> i64" where
  "saturating_add_i64 a b = word_of_int (clamp_i64 (sint a + sint b))"

text \<open>\<^verbatim>\<open>u64::try_from\<close> on an \<^verbatim>\<open>i64\<close>: the same bits when the value is not negative.\<close>

definition u64_of_i64 :: "i64 \<Rightarrow> u64 option" where
  "u64_of_i64 a = (if 0 \<le> sint a then Some a else None)"

definition max_i64 :: "i64 \<Rightarrow> i64 \<Rightarrow> i64" where
  "max_i64 a b = (if sint a \<le> sint b then b else a)"

definition min_i64 :: "i64 \<Rightarrow> i64 \<Rightarrow> i64" where
  "min_i64 a b = (if sint a \<le> sint b then a else b)"

lemma sint_i64_range: "- 9223372036854775808 \<le> sint (a :: i64)" "sint (a :: i64) \<le> 9223372036854775807"
  using sint_ge [of a] sint_lt [of a] by simp_all

lemma unat_of_nonneg_i64: "0 \<le> sint (a :: i64) \<Longrightarrow> uint a = sint a"
  using sint_i64_range [of a] by (simp add: uint_sint take_bit_int_eq_self)

lemma sint_word_of_int_clamp: "sint (word_of_int (clamp_i64 x) :: i64) = clamp_i64 x"
  by (auto simp: clamp_i64_def signed_of_int intro!: signed_take_bit_int_eq_self)

lemma sint_saturating_sub_i64 [checked_simps]:
  "sint (saturating_sub_i64 a b) = clamp_i64 (sint a - sint b)"
  by (simp add: saturating_sub_i64_def sint_word_of_int_clamp)

lemma sint_saturating_add_i64 [checked_simps]:
  "sint (saturating_add_i64 a b) = clamp_i64 (sint a + sint b)"
  by (simp add: saturating_add_i64_def sint_word_of_int_clamp)

lemma sint_max_i64 [checked_simps]: "sint (max_i64 a b) = max (sint a) (sint b)"
  and sint_min_i64 [checked_simps]: "sint (min_i64 a b) = min (sint a) (sint b)"
  by (simp_all add: max_i64_def min_i64_def)

lemma clamp_i64_mono: "x \<le> y \<Longrightarrow> clamp_i64 x \<le> clamp_i64 y"
  by (auto simp: clamp_i64_def)

text \<open>Conversions between widths that can fail.\<close>

definition u32_of_usize :: "nat \<Rightarrow> u32 option" where
  "u32_of_usize n = (if n < 4294967296 then Some (word_of_nat n) else None)"

definition u16_of_usize :: "nat \<Rightarrow> u16 option" where
  "u16_of_usize n = (if n < 65536 then Some (word_of_nat n) else None)"

definition u32_of_u64 :: "u64 \<Rightarrow> u32 option" where
  "u32_of_u64 n = (if unat n < 4294967296 then Some (word_of_nat (unat n)) else None)"

definition u64_of_u32 :: "u32 \<Rightarrow> u64" where
  "u64_of_u32 w = word_of_nat (unat w)"

lemma unat_u64_of_u32 [simp]: "unat (u64_of_u32 w) = unat w"
  using unsigned_less [of w, where 'a = nat]
  by (simp add: u64_of_u32_def unsigned_ucast_eq take_bit_nat_eq_self)

text \<open>\<^verbatim>\<open>is_power_of_two\<close>.\<close>

definition is_power_of_two :: "'a::len word \<Rightarrow> bool" where
  "is_power_of_two w = list_ex (\<lambda>k. w = 2 ^ k) [0..<LENGTH('a)]"

lemma u32_of_usize_eq_Some [checked_simps]: "u32_of_usize n = Some w \<longleftrightarrow> unat w = n"
  by (auto simp: u32_of_usize_def unat_of_nat take_bit_nat_eq_self unsigned_less)
    (use unsigned_less [of w] in \<open>auto simp: word_unat_eq_iff unat_of_nat take_bit_nat_eq_self\<close>)

lemma u32_of_u64_eq_Some [checked_simps]: "u32_of_u64 n = Some w \<longleftrightarrow> unat w = unat n"
  using u32_of_usize_eq_Some [of "unat n" w] by (simp add: u32_of_u64_def u32_of_usize_def)

section \<open>Integers as bytes\<close>

text \<open>\<^verbatim>\<open>to_le_bytes\<close>, \<^verbatim>\<open>from_le_bytes\<close>, \<^verbatim>\<open>to_be_bytes\<close> for any number of bytes.\<close>

fun le_bytes :: "nat \<Rightarrow> nat \<Rightarrow> bytes" where
  "le_bytes 0 x = []"
| "le_bytes (Suc n) x = word_of_nat (x mod 256) # le_bytes n (x div 256)"

fun le_nat :: "bytes \<Rightarrow> nat" where
  "le_nat [] = 0"
| "le_nat (b # bs) = unat b + 256 * le_nat bs"

definition be_bytes :: "nat \<Rightarrow> nat \<Rightarrow> bytes" where
  "be_bytes n x = rev (le_bytes n x)"

lemma length_le_bytes [simp]: "length (le_bytes n x) = n"
  by (induction n arbitrary: x) simp_all

lemma length_be_bytes [simp]: "length (be_bytes n x) = n"
  by (simp add: be_bytes_def)

lemma unat_byte_of_mod: "unat (word_of_nat (x mod 256) :: byte) = x mod 256"
  by (simp add: unat_of_nat take_bit_eq_mod)

lemma le_nat_le_bytes: "le_nat (le_bytes n x) = x mod 256 ^ n"
proof (induction n arbitrary: x)
  case 0
  then show ?case by simp
next
  case (Suc n)
  have "x mod 256 + 256 * (x div 256 mod 256 ^ n) = x mod (256 * 256 ^ n)"
    by (simp add: mod_mult2_eq)
  then show ?case by (simp add: Suc unat_byte_of_mod)
qed

lemma le_nat_less: "le_nat bs < 256 ^ length bs"
proof (induction bs)
  case (Cons b bs)
  have "unat b < 256" using unsigned_less [of b] by simp
  with Cons show ?case by simp
qed simp

lemma le_bytes_le_nat: "length bs = n \<Longrightarrow> le_bytes n (le_nat bs) = bs"
proof (induction bs arbitrary: n)
  case (Cons b bs)
  have "unat b < 256" using unsigned_less [of b] by simp
  with Cons show ?case by (auto simp: div_add1_eq)
qed simp

abbreviation (input) le16 :: "u16 \<Rightarrow> bytes" where "le16 w \<equiv> le_bytes 2 (unat w)"
abbreviation (input) le32 :: "u32 \<Rightarrow> bytes" where "le32 w \<equiv> le_bytes 4 (unat w)"
abbreviation (input) le64 :: "u64 \<Rightarrow> bytes" where "le64 w \<equiv> le_bytes 8 (unat w)"

definition of_le :: "bytes \<Rightarrow> 'a::len word" where
  "of_le bs = word_of_nat (le_nat bs)"

lemma unat_mod_width:
  "unat (w :: u16) mod 65536 = unat w" "unat (v :: u32) mod 4294967296 = unat v"
  "unat (u :: u64) mod 18446744073709551616 = unat u"
  using unsigned_less [of w, where 'a = nat] unsigned_less [of v, where 'a = nat]
    unsigned_less [of u, where 'a = nat] by simp_all

lemma of_le16 [simp]: "of_le (le_bytes 2 (unat (w :: u16))) = w"
  and of_le32 [simp]: "of_le (le_bytes 4 (unat (v :: u32))) = v"
  and of_le64 [simp]: "of_le (le_bytes 8 (unat (u :: u64))) = u"
  by (simp_all add: of_le_def le_nat_le_bytes unat_mod_width)

lemma le_bytes_of_le16: "length bs = 2 \<Longrightarrow> le_bytes 2 (unat (of_le bs :: u16)) = bs"
  and le_bytes_of_le32: "length cs = 4 \<Longrightarrow> le_bytes 4 (unat (of_le cs :: u32)) = cs"
  and le_bytes_of_le64: "length ds = 8 \<Longrightarrow> le_bytes 8 (unat (of_le ds :: u64)) = ds"
  using le_nat_less [of bs] le_nat_less [of cs] le_nat_less [of ds]
  by (simp_all add: of_le_def unat_of_nat take_bit_nat_eq_self le_bytes_le_nat)

end
