(* ===== verification/OC_Policy.thy ===== *)
theory OC_Policy
  imports OC_Prelude
begin

text \<open>
  The access decision of \<^verbatim>\<open>oc-policy/src/lib.rs\<close>: the data an author signs (\<open>Policy\<close>), the
  facts a server signs (\<open>LeaseFacts\<close>), the facts the caller supplies (\<open>Context\<close>), the single
  decision point \<open>evaluate\<close>, and the composition of an author policy with a server policy
  (\<open>intersect\<close>).

  \<open>evaluate\<close> is one Rust function with early returns.  Each block of it that returns for one
  subject is a definition here, in the source's order, and \<open>evaluate\<close> chains them with
  \<^const>\<open>bindR\<close>, whose left summand is the early return.  A \<^verbatim>\<open>BTreeMap\<close> is a partial map, the
  \<^verbatim>\<open>BTreeSet\<close> of unknown tags a set whose first element is its minimum.  The numeric
  \<^verbatim>\<open>i64\<close> comparisons and saturations are kept at their width.
\<close>

unbundle bit_operations_syntax

section \<open>Data\<close>

definition digest_eq :: "bytes \<Rightarrow> bytes \<Rightarrow> bool" where
  "digest_eq a b = (fold (\<lambda>(x, y) diff. diff OR (x XOR y)) (zip a b) 0 = 0)"

type_synonym Timestamp = i64

datatype TimeSource = Wall | TpmClockSource u32 | ServerAsserted

datatype Action = View | Edit | Print | Clipboard | Export | Screenshot

datatype Rule = RuleAllow | RuleDeny

datatype Attestation = VendorCertificate | EnrolledEk

datatype Binding = Software | Hardware | HardwareAttested

text \<open>The derived order of \<open>Action\<close> and \<open>Binding\<close>: declaration order.\<close>

primrec action_index :: "Action \<Rightarrow> nat" where
  "action_index View = 0"
| "action_index Edit = 1"
| "action_index Print = 2"
| "action_index Clipboard = 3"
| "action_index Export = 4"
| "action_index Screenshot = 5"

primrec binding_index :: "Binding \<Rightarrow> nat" where
  "binding_index Software = 0"
| "binding_index Hardware = 1"
| "binding_index HardwareAttested = 2"

instantiation Action :: linorder
begin
definition less_eq_Action :: "Action \<Rightarrow> Action \<Rightarrow> bool" where
  "less_eq_Action a b = (action_index a \<le> action_index b)"
definition less_Action :: "Action \<Rightarrow> Action \<Rightarrow> bool" where
  "less_Action a b = (action_index a < action_index b)"
instance
proof
  fix a b :: Action
  show "a \<le> b \<Longrightarrow> b \<le> a \<Longrightarrow> a = b"
    by (cases a; cases b) (simp_all add: less_eq_Action_def)
qed (auto simp: less_eq_Action_def less_Action_def)
end

instantiation Binding :: linorder
begin
definition less_eq_Binding :: "Binding \<Rightarrow> Binding \<Rightarrow> bool" where
  "less_eq_Binding a b = (binding_index a \<le> binding_index b)"
definition less_Binding :: "Binding \<Rightarrow> Binding \<Rightarrow> bool" where
  "less_Binding a b = (binding_index a < binding_index b)"
instance
proof
  fix a b :: Binding
  show "a \<le> b \<Longrightarrow> b \<le> a \<Longrightarrow> a = b"
    by (cases a; cases b) (simp_all add: less_eq_Binding_def)
qed (auto simp: less_eq_Binding_def less_Binding_def)
end

lemmas binding_order = less_eq_Binding_def less_Binding_def

datatype Validity =
    Always
  | Window Timestamp Timestamp
  | FromFirstOpen i64

datatype Network =
    StrictOnline
  | Lease i64 i64

record Policy =
  pol_actions :: "Action \<rightharpoonup> Rule"
  pol_validity :: Validity
  pol_max_opens :: "u32 option"
  pol_network :: Network
  pol_min_binding :: Binding
  pol_action_binding :: "Action \<rightharpoonup> Binding"
  pol_watermark :: bool
  pol_unknown_actions :: "u16 set"

record TpmClock =
  reset_count :: u32
  clock_ms :: u64

datatype DeviceClock = Read TpmClock | Absent | Unreadable

primrec reading :: "DeviceClock \<Rightarrow> TpmClock option" where
  "reading (Read clock) = Some clock"
| "reading Absent = None"
| "reading Unreadable = None"

record DeviceFacts =
  dev_fingerprint :: bytes
  dev_binding :: Binding
  dev_tpm_clock :: DeviceClock

record LeaseFacts =
  lease_device_fingerprint :: bytes
  lease_policy_hash :: bytes
  lease_seq :: u64
  lease_epoch :: u64
  lease_issued_at :: Timestamp
  lease_expires_at :: Timestamp
  lease_opens_remaining :: "u32 option"
  lease_revoked :: bool
  lease_server_policy :: "Policy option"
  lease_attested :: "Attestation option"
  lease_tpm_clock :: "TpmClock option"

record Context =
  ctx_now :: Timestamp
  ctx_time_source :: TimeSource
  ctx_monotonic_floor :: Timestamp
  ctx_first_open_at :: "Timestamp option"
  ctx_opens_so_far :: u32
  ctx_opens_under_lease :: u32
  ctx_device :: DeviceFacts
  ctx_highest_seq_seen :: u64
  ctx_online :: bool
  ctx_policy_hash :: bytes

record Obligations =
  ob_watermark :: bool
  ob_block_screen_capture :: bool
  ob_suppress_crash_dumps :: bool

definition MAX_CLOCK_SKEW_SECONDS :: i64 where
  "MAX_CLOCK_SKEW_SECONDS = 300"

datatype DenyReason =
    ActionNotPermitted Action
  | ActionTightenedByServer Action
  | PolicyNotFullyUnderstood u16
  | ClockRollback
  | LeaseRollback u64 u64
  | TpmClockRollback TpmClock TpmClock
  | TpmClockMissing
  | TpmClockUnreadable
  | HardwareClockOutranWallClock u64 u64
  | NotYetValid
  | Expired
  | Revoked
  | OpenLimitReached
  | OfflineNotPermitted
  | NoLease
  | WrongDevice
  | PolicyHashMismatch
  | BindingTooWeak Binding Binding
  | LeaseIssuedInTheFuture Timestamp Timestamp
  | LeaseOutlivesPolicy i64 i64
  | OfflineTooLong i64 i64
  | FirstOpenNotRecorded

datatype Verdict = Allow Obligations | Deny DenyReason

primrec is_allowed :: "Verdict \<Rightarrow> bool" where
  "is_allowed (Allow obligations) = True"
| "is_allowed (Deny reason) = False"

section \<open>Policies\<close>

definition effective_binding :: "Binding \<Rightarrow> LeaseFacts option \<Rightarrow> Binding" where
  "effective_binding local lease =
     (let attested = (case lease of None \<Rightarrow> False | Some l \<Rightarrow> lease_attested l \<noteq> None)
      in case local of
           Software \<Rightarrow> Software
         | _ \<Rightarrow> if attested then HardwareAttested else Hardware)"

definition deny_all :: Policy where
  "deny_all =
     \<lparr>pol_actions = Map.empty, pol_validity = Always, pol_max_opens = None,
      pol_network = StrictOnline, pol_min_binding = Software,
      pol_action_binding = Map.empty, pol_watermark = False, pol_unknown_actions = {}\<rparr>"

definition binding_for :: "Policy \<Rightarrow> Action \<Rightarrow> Binding" where
  "binding_for p action =
     max (pol_min_binding p)
       (case pol_action_binding p action of None \<Rightarrow> Software | Some b \<Rightarrow> b)"

definition rule :: "Policy \<Rightarrow> Action \<Rightarrow> Rule" where
  "rule p action = (case pol_actions p action of None \<Rightarrow> RuleDeny | Some r \<Rightarrow> r)"

definition allow :: "Action \<Rightarrow> Policy \<Rightarrow> Policy" where
  "allow action p = p\<lparr>pol_actions := (pol_actions p)(action \<mapsto> RuleAllow)\<rparr>"

definition no_tightening :: Policy where
  "no_tightening =
     (fold allow [View, Edit, Print, Clipboard, Export, Screenshot] deny_all)
       \<lparr>pol_network := Lease 9223372036854775807 9223372036854775807\<rparr>"

section \<open>Composition with the server's policy\<close>

definition IMPOSSIBLE :: Validity where
  "IMPOSSIBLE = Window 9223372036854775807 9223372036854775808"

fun tighten_validity :: "Validity \<Rightarrow> Validity \<Rightarrow> Validity" where
  "tighten_validity Always other = other"
| "tighten_validity other Always = other"
| "tighten_validity (Window a_from a_to) (Window b_from b_to) =
     Window (max_i64 a_from b_from) (min_i64 a_to b_to)"
| "tighten_validity (FromFirstOpen a) (FromFirstOpen b) = FromFirstOpen (min_i64 a b)"
| "tighten_validity (Window _ _) (FromFirstOpen _) = IMPOSSIBLE"
| "tighten_validity (FromFirstOpen _) (Window _ _) = IMPOSSIBLE"

fun tighten_network :: "Network \<Rightarrow> Network \<Rightarrow> Network" where
  "tighten_network StrictOnline _ = StrictOnline"
| "tighten_network _ StrictOnline = StrictOnline"
| "tighten_network (Lease a ao) (Lease b bo) = Lease (min_i64 a b) (min_i64 ao bo)"

fun tighten_opens :: "u32 option \<Rightarrow> u32 option \<Rightarrow> u32 option" where
  "tighten_opens (Some a) (Some b) = Some (min a b)"
| "tighten_opens (Some a) None = Some a"
| "tighten_opens None b = b"

text \<open>
  \<^verbatim>\<open>result.actions.retain(..)\<close> keeps an author entry only when both sides say Allow;
  \<^verbatim>\<open>entry(..).or_insert(..)\<close> followed by the maximum joins the binding maps.
\<close>

definition retain_allowed :: "(Action \<rightharpoonup> Rule) \<Rightarrow> (Action \<rightharpoonup> Rule) \<Rightarrow> (Action \<rightharpoonup> Rule)" where
  "retain_allowed author server =
     (\<lambda>action. case author action of
        Some r \<Rightarrow>
          (if r = RuleAllow \<and>
              (case server action of None \<Rightarrow> RuleDeny | Some s \<Rightarrow> s) = RuleAllow
           then Some r else None)
      | None \<Rightarrow> None)"

definition join_bindings :: "(Action \<rightharpoonup> Binding) \<Rightarrow> (Action \<rightharpoonup> Binding) \<Rightarrow> (Action \<rightharpoonup> Binding)" where
  "join_bindings result server =
     (\<lambda>action. case server action of
        None \<Rightarrow> result action
      | Some b \<Rightarrow> Some (max (case result action of None \<Rightarrow> b | Some slot \<Rightarrow> slot) b))"

definition intersect :: "Policy \<Rightarrow> Policy \<Rightarrow> Policy" where
  "intersect author server =
     author
       \<lparr>pol_actions := retain_allowed (pol_actions author) (pol_actions server),
        pol_min_binding := max (pol_min_binding author) (pol_min_binding server),
        pol_action_binding := join_bindings (pol_action_binding author) (pol_action_binding server),
        pol_watermark := (pol_watermark author \<or> pol_watermark server),
        pol_max_opens := tighten_opens (pol_max_opens author) (pol_max_opens server),
        pol_network := tighten_network (pol_network author) (pol_network server),
        pol_validity := tighten_validity (pol_validity author) (pol_validity server),
        pol_unknown_actions := pol_unknown_actions author \<union> pol_unknown_actions server\<rparr>"

section \<open>The decision\<close>

definition composed_policy :: "Policy \<Rightarrow> LeaseFacts option \<Rightarrow> Policy" where
  "composed_policy author lease =
     (case lease of
        None \<Rightarrow> author
      | Some l \<Rightarrow> (case lease_server_policy l of
          None \<Rightarrow> author
        | Some server \<Rightarrow> intersect author server))"

definition check_understood :: "Policy \<Rightarrow> DenyReason + unit" where
  "check_understood policy =
     ensure (pol_unknown_actions policy = {})
       (PolicyNotFullyUnderstood (Min (pol_unknown_actions policy)))"

definition check_floor :: "Context \<Rightarrow> DenyReason + unit" where
  "check_floor ctx = ensure (\<not> sint (ctx_now ctx) < sint (ctx_monotonic_floor ctx)) ClockRollback"

definition check_binding :: "Policy \<Rightarrow> LeaseFacts option \<Rightarrow> Action \<Rightarrow> Context \<Rightarrow> DenyReason + unit" where
  "check_binding policy lease action ctx =
     (let required = binding_for policy action;
          actual = effective_binding (dev_binding (ctx_device ctx)) lease
      in ensure (\<not> actual < required) (BindingTooWeak required actual))"

definition check_lease_identity :: "LeaseFacts \<Rightarrow> Context \<Rightarrow> DenyReason + unit" where
  "check_lease_identity lease ctx =
     bindR (ensure (\<not> lease_revoked lease) Revoked) (\<lambda>_.
     bindR (ensure (digest_eq (lease_device_fingerprint lease) (dev_fingerprint (ctx_device ctx)))
              WrongDevice) (\<lambda>_.
     bindR (ensure (digest_eq (lease_policy_hash lease) (ctx_policy_hash ctx))
              PolicyHashMismatch) (\<lambda>_.
     ensure (\<not> lease_seq lease < ctx_highest_seq_seen ctx)
       (LeaseRollback (ctx_highest_seq_seen ctx) (lease_seq lease)))))"

definition check_tpm_clock :: "LeaseFacts \<Rightarrow> Context \<Rightarrow> DenyReason + unit" where
  "check_tpm_clock lease ctx =
     (case lease_tpm_clock lease of
        None \<Rightarrow> Inr ()
      | Some issued \<Rightarrow>
          (case dev_tpm_clock (ctx_device ctx) of
             Absent \<Rightarrow> Inl TpmClockMissing
           | Unreadable \<Rightarrow> Inl TpmClockUnreadable
           | Read presented \<Rightarrow>
               ensure (\<not> (clock_ms presented < clock_ms issued \<or>
                          reset_count presented < reset_count issued))
                 (TpmClockRollback issued presented)))"

definition check_issue_time :: "LeaseFacts \<Rightarrow> Context \<Rightarrow> DenyReason + unit" where
  "check_issue_time lease ctx =
     ensure (\<not> sint (saturating_sub_i64 (lease_issued_at lease) (ctx_now ctx)) >
               sint MAX_CLOCK_SKEW_SECONDS)
       (LeaseIssuedInTheFuture (lease_issued_at lease) (ctx_now ctx))"

definition check_network :: "Policy \<Rightarrow> LeaseFacts \<Rightarrow> Context \<Rightarrow> DenyReason + unit" where
  "check_network policy lease ctx =
     (case pol_network policy of
        StrictOnline \<Rightarrow> ensure (ctx_online ctx) OfflineNotPermitted
      | Lease seconds _ \<Rightarrow>
          (let granted = saturating_sub_i64 (lease_expires_at lease) (lease_issued_at lease)
           in ensure (\<not> (sint granted < 0 \<or> sint granted > sint seconds))
                (LeaseOutlivesPolicy seconds granted)))"

definition check_hardware_elapsed :: "LeaseFacts \<Rightarrow> Context \<Rightarrow> DenyReason + unit" where
  "check_hardware_elapsed lease ctx =
     (case (lease_tpm_clock lease, reading (dev_tpm_clock (ctx_device ctx))) of
        (Some issued, Some presented) \<Rightarrow>
          (let hardware_ms = saturating_sub (clock_ms presented) (clock_ms issued);
               wall_seconds = saturating_sub_i64 (ctx_now ctx) (lease_issued_at lease);
               wall_ms = saturating_mul (case u64_of_i64 wall_seconds of None \<Rightarrow> 0 | Some s \<Rightarrow> s) 1000;
               slack_ms = saturating_mul
                 (case u64_of_i64 MAX_CLOCK_SKEW_SECONDS of None \<Rightarrow> 0 | Some s \<Rightarrow> s) 1000
           in ensure (\<not> hardware_ms > saturating_add wall_ms slack_ms)
                (HardwareClockOutranWallClock hardware_ms wall_ms))
      | _ \<Rightarrow> Inr ())"

definition check_offline :: "Policy \<Rightarrow> LeaseFacts \<Rightarrow> Context \<Rightarrow> DenyReason + unit" where
  "check_offline policy lease ctx =
     (if ctx_online ctx then Inr ()
      else case pol_network policy of
          StrictOnline \<Rightarrow> Inr ()
        | Lease _ max_offline_seconds \<Rightarrow>
            (let elapsed = saturating_sub_i64 (ctx_now ctx) (lease_issued_at lease)
             in ensure (\<not> sint elapsed > sint max_offline_seconds)
                  (OfflineTooLong max_offline_seconds elapsed)))"

definition check_validity :: "Policy \<Rightarrow> Context \<Rightarrow> DenyReason + unit" where
  "check_validity policy ctx =
     (case pol_validity policy of
        Always \<Rightarrow> Inr ()
      | Window not_before not_after \<Rightarrow>
          bindR (ensure (\<not> sint (ctx_now ctx) < sint not_before) NotYetValid) (\<lambda>_.
          ensure (\<not> sint (ctx_now ctx) > sint not_after) Expired)
      | FromFirstOpen seconds \<Rightarrow>
          (case ctx_first_open_at ctx of
             Some first \<Rightarrow>
               ensure (\<not> sint (ctx_now ctx) > sint (saturating_add_i64 first seconds)) Expired
           | None \<Rightarrow> ensure (ctx_online ctx) FirstOpenNotRecorded))"

definition check_opens :: "Policy \<Rightarrow> LeaseFacts \<Rightarrow> Context \<Rightarrow> DenyReason + unit" where
  "check_opens policy lease ctx =
     bindR (case pol_max_opens policy of
              None \<Rightarrow> Inr ()
            | Some m \<Rightarrow> ensure (\<not> ctx_opens_so_far ctx \<ge> m) OpenLimitReached) (\<lambda>_.
     case lease_opens_remaining lease of
       None \<Rightarrow> Inr ()
     | Some budget \<Rightarrow> ensure (\<not> ctx_opens_under_lease ctx \<ge> budget) OpenLimitReached)"

definition check_rule :: "Policy \<Rightarrow> Policy \<Rightarrow> Action \<Rightarrow> DenyReason + unit" where
  "check_rule author policy action =
     ensure (rule policy action = RuleAllow)
       (if rule author action = RuleAllow then ActionTightenedByServer action
        else ActionNotPermitted action)"

definition obligations_of :: "Policy \<Rightarrow> Obligations" where
  "obligations_of policy =
     \<lparr>ob_watermark = pol_watermark policy,
      ob_block_screen_capture = (rule policy Screenshot \<noteq> RuleAllow),
      ob_suppress_crash_dumps = True\<rparr>"

definition evaluate_checks ::
    "Policy \<Rightarrow> LeaseFacts option \<Rightarrow> Action \<Rightarrow> Context \<Rightarrow> DenyReason + Obligations" where
  "evaluate_checks author maybe_lease action ctx =
     (let policy = composed_policy author maybe_lease in
      bindR (check_understood policy) (\<lambda>_.
      bindR (check_floor ctx) (\<lambda>_.
      bindR (check_binding policy maybe_lease action ctx) (\<lambda>_.
      bindR (ok_or NoLease maybe_lease) (\<lambda>lease.
      bindR (check_lease_identity lease ctx) (\<lambda>_.
      bindR (check_tpm_clock lease ctx) (\<lambda>_.
      bindR (check_issue_time lease ctx) (\<lambda>_.
      bindR (check_network policy lease ctx) (\<lambda>_.
      bindR (check_hardware_elapsed lease ctx) (\<lambda>_.
      bindR (ensure (\<not> sint (ctx_now ctx) > sint (lease_expires_at lease)) Expired) (\<lambda>_.
      bindR (check_offline policy lease ctx) (\<lambda>_.
      bindR (check_validity policy ctx) (\<lambda>_.
      bindR (check_opens policy lease ctx) (\<lambda>_.
      bindR (check_rule author policy action) (\<lambda>_.
      Inr (obligations_of policy))))))))))))))))"

definition evaluate :: "Policy \<Rightarrow> LeaseFacts option \<Rightarrow> Action \<Rightarrow> Context \<Rightarrow> Verdict" where
  "evaluate policy lease action ctx =
     (case evaluate_checks policy lease action ctx of
        Inl reason \<Rightarrow> Deny reason
      | Inr obligations \<Rightarrow> Allow obligations)"

section \<open>Digest comparison\<close>

lemma fold_or_xor_zero:
  "fold (\<lambda>(x, y) diff. diff OR (x XOR y)) ps (d :: byte) = 0
     \<longleftrightarrow> d = 0 \<and> (\<forall>(x, y) \<in> set ps. x = y)"
proof (induction ps arbitrary: d)
  case (Cons q ps)
  obtain x y where q: "q = (x, y)" by (cases q)
  have "d OR (x XOR y) = 0 \<longleftrightarrow> d = 0 \<and> x = y"
    by (auto simp: bit_eq_iff bit_or_iff bit_xor_iff)
  then show ?case by (auto simp: Cons.IH q)
qed simp

lemma digest_eq_iff: "length a = length b \<Longrightarrow> digest_eq a b \<longleftrightarrow> a = b"
proof -
  assume len: "length a = length b"
  have "(\<forall>(x, y) \<in> set (zip a b). x = y) \<longleftrightarrow> a = b"
    using len by (induction a b rule: list_induct2) auto
  then show ?thesis by (simp add: digest_eq_def fold_or_xor_zero)
qed

lemma digest_eq_refl [simp]: "digest_eq a a"
  by (simp add: digest_eq_iff)

section \<open>What a decision rests on\<close>

lemmas check_defs =
  check_understood_def check_floor_def check_binding_def check_lease_identity_def
  check_tpm_clock_def check_issue_time_def check_network_def check_hardware_elapsed_def
  check_offline_def check_validity_def check_opens_def check_rule_def

text \<open>Every check passes for a policy, a lease and a context.\<close>

definition checks_pass :: "Policy \<Rightarrow> LeaseFacts \<Rightarrow> Action \<Rightarrow> Context \<Rightarrow> bool" where
  "checks_pass policy lease action ctx \<longleftrightarrow>
     check_understood policy = Inr () \<and> check_floor ctx = Inr () \<and>
     check_binding policy (Some lease) action ctx = Inr () \<and>
     check_lease_identity lease ctx = Inr () \<and> check_tpm_clock lease ctx = Inr () \<and>
     check_issue_time lease ctx = Inr () \<and> check_network policy lease ctx = Inr () \<and>
     check_hardware_elapsed lease ctx = Inr () \<and>
     sint (ctx_now ctx) \<le> sint (lease_expires_at lease) \<and>
     check_offline policy lease ctx = Inr () \<and> check_validity policy ctx = Inr () \<and>
     check_opens policy lease ctx = Inr () \<and> rule policy action = RuleAllow"

lemma evaluate_Allow:
  "evaluate author ml action ctx = Allow ob \<longleftrightarrow>
     (\<exists>l. ml = Some l \<and> checks_pass (composed_policy author ml) l action ctx \<and>
          ob = obligations_of (composed_policy author ml))"
proof -
  have "evaluate author ml action ctx = Allow ob \<longleftrightarrow> evaluate_checks author ml action ctx = Inr ob"
    by (simp add: evaluate_def split: sum.split)
  also have "\<dots> \<longleftrightarrow> (\<exists>l. ml = Some l \<and> checks_pass (composed_policy author ml) l action ctx \<and>
      obligations_of (composed_policy author ml) = ob)"
    by (cases ml) (simp_all add: evaluate_checks_def checks_pass_def check_rule_def Let_def
        bind_unit_eq_Inr ensure_eq_Inr not_less conj_assoc)
  finally show ?thesis by blast
qed

lemma is_allowed_iff: "is_allowed v \<longleftrightarrow> (\<exists>ob. v = Allow ob)"
  by (cases v) auto

lemma effective_binding_server_policy [simp]:
  "effective_binding b (Some (l\<lparr>lease_server_policy := s\<rparr>)) = effective_binding b (Some l)"
  by (simp add: effective_binding_def)

text \<open>No check reads the server policy of the lease: it acts through the composition alone.\<close>

lemma check_lease_fields:
  fixes l s defines "l' \<equiv> l\<lparr>lease_server_policy := s\<rparr>"
  shows "check_binding p (Some l') action ctx = check_binding p (Some l) action ctx"
    and "check_lease_identity l' ctx = check_lease_identity l ctx"
    and "check_tpm_clock l' ctx = check_tpm_clock l ctx"
    and "check_issue_time l' ctx = check_issue_time l ctx"
    and "check_network p l' ctx = check_network p l ctx"
    and "check_hardware_elapsed l' ctx = check_hardware_elapsed l ctx"
    and "check_offline p l' ctx = check_offline p l ctx"
    and "check_opens p l' ctx = check_opens p l ctx"
  by (simp_all add: l'_def check_defs split: Network.split option.split DeviceClock.split)

lemma checks_pass_server_policy:
  "checks_pass p (l\<lparr>lease_server_policy := s\<rparr>) action ctx \<longleftrightarrow> checks_pass p l action ctx"
  by (simp add: checks_pass_def check_lease_fields)

text \<open>The reasons the remaining checks can give never speak about the action.\<close>

lemma check_rest_reasons:
  "check_tpm_clock l ctx = Inl r \<Longrightarrow>
     r = TpmClockMissing \<or> r = TpmClockUnreadable \<or> (\<exists>i p. r = TpmClockRollback i p)"
  "check_network p l ctx = Inl r \<Longrightarrow> r = OfflineNotPermitted \<or> (\<exists>s g. r = LeaseOutlivesPolicy s g)"
  "check_hardware_elapsed l ctx = Inl r \<Longrightarrow> \<exists>h w. r = HardwareClockOutranWallClock h w"
  "check_offline p l ctx = Inl r \<Longrightarrow> \<exists>m e. r = OfflineTooLong m e"
  "check_validity p ctx = Inl r \<Longrightarrow> r = NotYetValid \<or> r = Expired \<or> r = FirstOpenNotRecorded"
  "check_opens p l ctx = Inl r \<Longrightarrow> r = OpenLimitReached"
  by (auto simp: check_defs Let_def result_simps
      split: option.splits DeviceClock.splits Network.splits Validity.splits if_splits)

section \<open>The contract of a tightening\<close>

text \<open>
  What the decision relies on when it replaces the author's policy by a composed one: every
  subject of \<^const>\<open>evaluate\<close> may only become harder to pass.  The network rule is the one
  subject where this needs a side condition, stated in the client lemma.
\<close>

locale tightening =
  fixes compose :: "Policy \<Rightarrow> Policy \<Rightarrow> Policy"
  assumes unknown_grows:
      "pol_unknown_actions author \<subseteq> pol_unknown_actions (compose author server)"
    and binding_grows: "binding_for author action \<le> binding_for (compose author server) action"
    and rule_shrinks:
      "rule (compose author server) action = RuleAllow \<Longrightarrow> rule author action = RuleAllow"
    and watermark_grows: "pol_watermark author \<Longrightarrow> pol_watermark (compose author server)"
    and opens_shrink:
      "check_opens (compose author server) l ctx = Inr () \<Longrightarrow> check_opens author l ctx = Inr ()"
    and validity_shrinks:
      "check_validity (compose author server) ctx = Inr () \<Longrightarrow> check_validity author ctx = Inr ()"
    and offline_shrinks:
      "check_network (compose author server) l ctx = Inr () \<Longrightarrow>
       check_offline (compose author server) l ctx = Inr () \<Longrightarrow> check_offline author l ctx = Inr ()"
    and network_shrinks:
      "pol_network (compose author server) = StrictOnline \<longrightarrow> pol_network author = StrictOnline \<Longrightarrow>
       check_network (compose author server) l ctx = Inr () \<Longrightarrow> check_network author l ctx = Inr ()"
begin

lemma understood_shrinks:
  "check_understood (compose author server) = Inr () \<Longrightarrow> check_understood author = Inr ()"
  using unknown_grows [of author server] by (auto simp: check_understood_def result_simps)

lemma binding_shrinks:
  "check_binding (compose author server) ml action ctx = Inr () \<Longrightarrow>
   check_binding author ml action ctx = Inr ()"
  using binding_grows [of author action server]
  by (auto simp: check_binding_def Let_def result_simps)

lemma checks_pass_author:
  assumes "checks_pass (compose author server) l action ctx"
    and "check_network author l ctx = Inr ()"
  shows "checks_pass author l action ctx"
  using assms
  by (auto simp: checks_pass_def intro: understood_shrinks binding_shrinks offline_shrinks
      validity_shrinks opens_shrink rule_shrinks)

lemma obligations_grow:
  "(ob_watermark (obligations_of author) \<longrightarrow> ob_watermark (obligations_of (compose author server))) \<and>
   (ob_block_screen_capture (obligations_of author) \<longrightarrow>
    ob_block_screen_capture (obligations_of (compose author server)))"
  using watermark_grows rule_shrinks by (auto simp: obligations_of_def)

end

lemma intersect_fields [simp]:
  "pol_unknown_actions (intersect author server) = pol_unknown_actions author \<union> pol_unknown_actions server"
  "pol_network (intersect author server) = tighten_network (pol_network author) (pol_network server)"
  "pol_validity (intersect author server) = tighten_validity (pol_validity author) (pol_validity server)"
  "pol_max_opens (intersect author server) = tighten_opens (pol_max_opens author) (pol_max_opens server)"
  "pol_watermark (intersect author server) \<longleftrightarrow> pol_watermark author \<or> pol_watermark server"
  by (simp_all add: intersect_def)

lemma rule_intersect:
  "rule (intersect author server) action = RuleAllow \<longleftrightarrow>
     rule author action = RuleAllow \<and> rule server action = RuleAllow"
  by (auto simp: rule_def intersect_def retain_allowed_def split: option.splits if_splits)

lemma binding_for_intersect:
  "binding_for (intersect author server) action = max (binding_for author action) (binding_for server action)"
proof -
  have "Software \<le> b" for b by (cases b) (simp_all add: binding_order)
  then show ?thesis
    by (auto simp: binding_for_def intersect_def join_bindings_def max_def split: option.splits
        intro: order_antisym dest: order_trans)
qed

lemma check_validity_tighten:
  assumes "check_validity (p\<lparr>pol_validity := tighten_validity (pol_validity p) v\<rparr>) ctx = Inr ()"
  shows "check_validity p ctx = Inr ()"
proof (cases "pol_validity p"; cases v)
  fix a b assume *: "pol_validity p = FromFirstOpen a" "v = FromFirstOpen b"
  show ?thesis
  proof (cases "ctx_first_open_at ctx")
    case None
    with * assms show ?thesis by (simp add: check_validity_def result_simps)
  next
    case (Some f)
    have "clamp_i64 (sint f + min (sint a) (sint b)) \<le> clamp_i64 (sint f + sint a)"
      by (rule clamp_i64_mono) simp
    with Some * assms show ?thesis
      by (simp add: check_validity_def result_simps checked_simps)
  qed
qed (use assms in \<open>auto simp: check_validity_def IMPOSSIBLE_def result_simps checked_simps
      split: option.splits\<close>)

lemma check_opens_tighten:
  "check_opens (p\<lparr>pol_max_opens := tighten_opens (pol_max_opens p) m\<rparr>) l ctx = Inr () \<Longrightarrow>
   check_opens p l ctx = Inr ()"
  by (cases "pol_max_opens p"; cases m) (auto simp: check_opens_def result_simps min_le_iff_disj)

lemma check_validity_cong: "pol_validity p = pol_validity q \<Longrightarrow> check_validity p = check_validity q"
  by (simp add: check_validity_def fun_eq_iff)

lemma check_opens_cong: "pol_max_opens p = pol_max_opens q \<Longrightarrow> check_opens p = check_opens q"
  by (simp add: check_opens_def fun_eq_iff)

interpretation server_tightening: tightening intersect
proof unfold_locales
  fix author server action l ctx
  show "pol_unknown_actions author \<subseteq> pol_unknown_actions (intersect author server)"
    by (auto simp: intersect_def)
  show "binding_for author action \<le> binding_for (intersect author server) action"
    by (simp add: binding_for_intersect)
  show "rule author action = RuleAllow" if "rule (intersect author server) action = RuleAllow"
    using that by (simp add: rule_intersect)
  show "pol_watermark (intersect author server)" if "pol_watermark author"
    using that by (simp add: intersect_def)
  show "check_opens author l ctx = Inr ()" if "check_opens (intersect author server) l ctx = Inr ()"
    using that check_opens_tighten [of author "pol_max_opens server" l ctx]
      check_opens_cong [of "intersect author server"]
    by (simp add: intersect_def check_opens_def)
  show "check_validity author ctx = Inr ()" if "check_validity (intersect author server) ctx = Inr ()"
    using that check_validity_tighten [of author "pol_validity server" ctx]
    by (simp add: intersect_def check_validity_def)
  show "check_offline author l ctx = Inr ()"
    if "check_network (intersect author server) l ctx = Inr ()"
      "check_offline (intersect author server) l ctx = Inr ()"
    using that
    by (cases "pol_network author"; cases "pol_network server")
      (auto simp: intersect_def check_offline_def check_network_def result_simps checked_simps Let_def
        split: if_splits)
  show "check_network author l ctx = Inr ()"
    if "pol_network (intersect author server) = StrictOnline \<longrightarrow> pol_network author = StrictOnline"
      "check_network (intersect author server) l ctx = Inr ()"
    using that
    by (cases "pol_network author"; cases "pol_network server")
      (auto simp: intersect_def check_network_def result_simps checked_simps Let_def)
qed

section \<open>Properties\<close>

text \<open>The facts of \<^verbatim>\<open>oc-policy/examples/access-policy.rs\<close>, used as a concrete input.\<close>

definition demo_policy :: Policy where
  "demo_policy = (allow View deny_all)\<lparr>pol_network := Lease 600 600\<rparr>"

definition demo_lease :: LeaseFacts where
  "demo_lease =
     \<lparr>lease_device_fingerprint = replicate 32 1, lease_policy_hash = replicate 32 2,
      lease_seq = 1, lease_epoch = 0, lease_issued_at = 1000, lease_expires_at = 1600,
      lease_opens_remaining = None, lease_revoked = False, lease_server_policy = None,
      lease_attested = None, lease_tpm_clock = None\<rparr>"

definition demo_context :: Context where
  "demo_context =
     \<lparr>ctx_now = 1100, ctx_time_source = Wall, ctx_monotonic_floor = 1000,
      ctx_first_open_at = None, ctx_opens_so_far = 0, ctx_opens_under_lease = 0,
      ctx_device = \<lparr>dev_fingerprint = replicate 32 1, dev_binding = Software,
                    dev_tpm_clock = Absent\<rparr>,
      ctx_highest_seq_seen = 1, ctx_online = False, ctx_policy_hash = replicate 32 2\<rparr>"

lemmas demo_defs = demo_policy_def demo_lease_def demo_context_def deny_all_def allow_def

lemmas evaluate_eval =
  evaluate_def evaluate_checks_def composed_policy_def check_defs obligations_of_def rule_def
  binding_for_def effective_binding_def binding_order MAX_CLOCK_SKEW_SECONDS_def
  saturating_sub_i64_def clamp_i64_def Let_def

lemma demo_view_allowed:
  "evaluate demo_policy (Some demo_lease) View demo_context =
     Allow \<lparr>ob_watermark = False, ob_block_screen_capture = True, ob_suppress_crash_dumps = True\<rparr>"
  by (simp add: demo_defs evaluate_eval)

subsection \<open>What an allowed action implies\<close>

text \<open>
  C2.  An allowed action rests on a lease that is not revoked, was issued to this device for
  this policy, is not older than one already seen and has not expired; time has not moved back
  below the floor; the author's policy is fully understood and allows the action; and the
  device's effective binding reaches what the author requires for it.
\<close>

theorem evaluate_allow_sound:
  assumes "evaluate author (Some l) action ctx = Allow ob"
    and "length (lease_device_fingerprint l) = length (dev_fingerprint (ctx_device ctx))"
    and "length (lease_policy_hash l) = length (ctx_policy_hash ctx)"
  shows "\<not> lease_revoked l \<and>
     lease_device_fingerprint l = dev_fingerprint (ctx_device ctx) \<and>
     lease_policy_hash l = ctx_policy_hash ctx \<and>
     ctx_highest_seq_seen ctx \<le> lease_seq l \<and>
     sint (ctx_monotonic_floor ctx) \<le> sint (ctx_now ctx) \<and>
     sint (ctx_now ctx) \<le> sint (lease_expires_at l) \<and>
     pol_unknown_actions author = {} \<and>
     rule author action = RuleAllow \<and>
     binding_for author action \<le> effective_binding (dev_binding (ctx_device ctx)) (Some l)"
proof -
  define p where "p = composed_policy author (Some l)"
  from assms(1) have pass: "checks_pass p l action ctx"
    by (simp add: evaluate_Allow p_def)
  have p: "p = author \<or> (\<exists>s. p = intersect author s)"
    by (cases "lease_server_policy l") (auto simp: p_def composed_policy_def)
  from pass assms(2,3) have lease: "\<not> lease_revoked l"
    "lease_device_fingerprint l = dev_fingerprint (ctx_device ctx)"
    "lease_policy_hash l = ctx_policy_hash ctx" "ctx_highest_seq_seen ctx \<le> lease_seq l"
    by (simp_all add: checks_pass_def check_lease_identity_def bind_unit_eq_Inr ensure_eq_Inr digest_eq_iff not_less)
  from pass have time: "sint (ctx_monotonic_floor ctx) \<le> sint (ctx_now ctx)"
    "sint (ctx_now ctx) \<le> sint (lease_expires_at l)"
    by (simp_all add: checks_pass_def check_floor_def ensure_eq_Inr)
  from pass p have rules: "pol_unknown_actions author = {}" "rule author action = RuleAllow"
    by (auto simp: checks_pass_def check_understood_def ensure_eq_Inr rule_intersect)
  from pass p have "binding_for author action \<le> effective_binding (dev_binding (ctx_device ctx)) (Some l)"
    by (auto simp: checks_pass_def check_binding_def ensure_eq_Inr Let_def binding_for_intersect not_less)
  with lease time rules show ?thesis by simp
qed

theorem evaluate_allow_sound_witness:
  "ctx_highest_seq_seen demo_context \<le> lease_seq demo_lease \<and>
   rule demo_policy View = RuleAllow"
proof -
  have "length (lease_device_fingerprint demo_lease) = length (dev_fingerprint (ctx_device demo_context))"
    and "length (lease_policy_hash demo_lease) = length (ctx_policy_hash demo_context)"
    by (simp_all add: demo_defs)
  from evaluate_allow_sound [OF demo_view_allowed this] show ?thesis by simp
qed

text \<open>
  The default is denial: an action that the author's map does not carry with an explicit
  permission is denied for every lease, every server policy and every context, and without a
  lease every action is denied.
\<close>

theorem evaluate_default_deny:
  "pol_actions author action \<noteq> Some RuleAllow \<or> ml = None \<Longrightarrow>
   \<exists>reason. evaluate author ml action ctx = Deny reason"
proof -
  assume a: "pol_actions author action \<noteq> Some RuleAllow \<or> ml = None"
  have "\<not> (\<exists>ob. evaluate author ml action ctx = Allow ob)"
  proof
    assume "\<exists>ob. evaluate author ml action ctx = Allow ob"
    then obtain l where l: "ml = Some l" "rule (composed_policy author ml) action = RuleAllow"
      by (auto simp: evaluate_Allow checks_pass_def)
    then have "rule author action = RuleAllow"
      by (auto simp: composed_policy_def rule_intersect split: option.splits)
    with a l(1) show False by (auto simp: rule_def split: option.splits)
  qed
  then show ?thesis by (cases "evaluate author ml action ctx") auto
qed

theorem evaluate_default_deny_witness:
  "\<exists>reason. evaluate demo_policy (Some demo_lease) Print demo_context = Deny reason"
  by (rule evaluate_default_deny) (simp add: demo_defs)

text \<open>
  C32.  Offline use is bounded by the author's numbers: when an action is allowed without a
  connection, the author's network rule is a lease rule, the lease is no longer than the author's
  \<open>seconds\<close>, and no more than \<open>max_offline_seconds\<close> have passed since it was issued.
  A revocation therefore takes effect within that window.  The limit \<^verbatim>\<open>i64::MAX\<close> stands for
  no limit and is excluded.
\<close>

theorem evaluate_offline_window:
  assumes "evaluate author (Some l) action ctx = Allow ob" and "\<not> ctx_online ctx"
  shows "\<exists>seconds max_offline. pol_network author = Lease seconds max_offline \<and>
     (sint seconds < 9223372036854775807 \<longrightarrow>
        sint (lease_expires_at l) - sint (lease_issued_at l) \<le> sint seconds) \<and>
     (sint max_offline < 9223372036854775807 \<longrightarrow>
        sint (ctx_now ctx) - sint (lease_issued_at l) \<le> sint max_offline)"
proof -
  define p where "p = composed_policy author (Some l)"
  from assms(1) have "checks_pass p l action ctx" by (simp add: evaluate_Allow p_def)
  then have net: "check_network p l ctx = Inr ()" and off: "check_offline p l ctx = Inr ()"
    by (simp_all add: checks_pass_def)
  from net assms(2) obtain s m where p: "pol_network p = Lease s m"
    by (cases "pol_network p") (auto simp: check_network_def)
  have author: "\<exists>sa ma. pol_network author = Lease sa ma \<and> sint s \<le> sint sa \<and> sint m \<le> sint ma"
    using p by (cases "pol_network author")
      (auto simp: p_def composed_policy_def intersect_def checked_simps split: option.splits
        elim: tighten_network.elims)
  have clamp: "x \<le> b" if "clamp_i64 x \<le> c" "c \<le> b" "b < 9223372036854775807" for x b c
    using that by (auto simp: clamp_i64_def max_def min_def split: if_splits)
  from net off p assms(2) have
    "clamp_i64 (sint (lease_expires_at l) - sint (lease_issued_at l)) \<le> sint s"
    "clamp_i64 (sint (ctx_now ctx) - sint (lease_issued_at l)) \<le> sint m"
    by (simp_all add: check_network_def check_offline_def Let_def ensure_eq_Inr checked_simps)
  with author clamp show ?thesis by blast
qed

theorem evaluate_offline_window_witness:
  "\<exists>seconds max_offline. pol_network demo_policy = Lease seconds max_offline \<and>
     (sint seconds < 9223372036854775807 \<longrightarrow>
        sint (lease_expires_at demo_lease) - sint (lease_issued_at demo_lease) \<le> sint seconds) \<and>
     (sint max_offline < 9223372036854775807 \<longrightarrow>
        sint (ctx_now demo_context) - sint (lease_issued_at demo_lease) \<le> sint max_offline)"
  by (rule evaluate_offline_window [OF demo_view_allowed]) (simp add: demo_defs)

text \<open>
  A lease that carries a hardware clock reading is honoured only by a device that reads its
  own clock, with neither component below the reading at issuance, and whose hardware clock has
  not advanced further than the wall clock by more than the permitted skew (300 s).
\<close>

theorem evaluate_hardware_clock:
  assumes "evaluate author (Some l) action ctx = Allow ob" and "lease_tpm_clock l = Some issued"
  shows "\<exists>presented. dev_tpm_clock (ctx_device ctx) = Read presented \<and>
     clock_ms issued \<le> clock_ms presented \<and> reset_count issued \<le> reset_count presented \<and>
     unat (clock_ms presented) - unat (clock_ms issued)
       \<le> 1000 * nat (sint (ctx_now ctx) - sint (lease_issued_at l)) + 300000"
proof -
  from assms(1) have "check_tpm_clock l ctx = Inr ()" and hw: "check_hardware_elapsed l ctx = Inr ()"
    by (simp_all add: evaluate_Allow checks_pass_def)
  then obtain presented where r: "dev_tpm_clock (ctx_device ctx) = Read presented"
    and le: "clock_ms issued \<le> clock_ms presented" "reset_count issued \<le> reset_count presented"
    using assms(2) by (auto simp: check_tpm_clock_def result_simps not_less split: DeviceClock.splits)
  let ?w = "saturating_sub_i64 (ctx_now ctx) (lease_issued_at l)"
  define wall where "wall = (case u64_of_i64 ?w of None \<Rightarrow> 0 | Some s \<Rightarrow> s)"
  have "unat (clock_ms presented) - unat (clock_ms issued) \<le> 1000 * unat wall + 300000"
  proof -
    have "saturating_sub (clock_ms presented) (clock_ms issued)
        \<le> saturating_add (saturating_mul wall 1000) 300000"
      using hw assms(2) r
      by (simp add: check_hardware_elapsed_def ensure_eq_Inr wall_def Let_def not_less
          MAX_CLOCK_SKEW_SECONDS_def u64_of_i64_def saturating_mul_def [of 300])
    then show ?thesis by (auto simp: word_le_nat_alt checked_simps min_def split: if_splits)
  qed
  moreover have "unat wall \<le> nat (sint (ctx_now ctx) - sint (lease_issued_at l))"
  proof (cases "0 \<le> sint ?w")
    case True
    then have "int (unat wall) = sint ?w"
      by (simp add: wall_def u64_of_i64_def unat_of_nonneg_i64)
    with True have "int (unat wall) \<le> sint (ctx_now ctx) - sint (lease_issued_at l)"
      by (auto simp: checked_simps clamp_i64_def)
    then show ?thesis by (simp only: le_nat_iff)
  qed (simp add: wall_def u64_of_i64_def)
  ultimately show ?thesis using r le by (intro exI [of _ presented]) (simp; linarith)
qed

definition demo_clock_lease :: LeaseFacts where
  "demo_clock_lease = demo_lease\<lparr>lease_tpm_clock := Some \<lparr>reset_count = 1, clock_ms = 5000\<rparr>\<rparr>"

definition demo_clock_context :: Context where
  "demo_clock_context = demo_context\<lparr>ctx_device :=
     \<lparr>dev_fingerprint = replicate 32 1, dev_binding = Software,
      dev_tpm_clock = Read \<lparr>reset_count = 2, clock_ms = 6000\<rparr>\<rparr>\<rparr>"

theorem evaluate_hardware_clock_witness:
  "\<exists>presented. dev_tpm_clock (ctx_device demo_clock_context) = Read presented \<and>
     (5000 :: u64) \<le> clock_ms presented \<and> (1 :: u32) \<le> reset_count presented \<and>
     unat (clock_ms presented) - unat (5000 :: u64)
       \<le> 1000 * nat (sint (ctx_now demo_clock_context) - sint (lease_issued_at demo_clock_lease)) + 300000"
proof -
  have "evaluate demo_policy (Some demo_clock_lease) View demo_clock_context =
     Allow \<lparr>ob_watermark = False, ob_block_screen_capture = True, ob_suppress_crash_dumps = True\<rparr>"
    by (simp add: demo_clock_lease_def demo_clock_context_def demo_defs evaluate_eval
        saturating_mul_def saturating_sub_def saturating_add_def u64_of_i64_def)
  moreover have "lease_tpm_clock demo_clock_lease = Some \<lparr>reset_count = 1, clock_ms = 5000\<rparr>"
    by (simp add: demo_clock_lease_def)
  ultimately show ?thesis using evaluate_hardware_clock by fastforce
qed

subsection \<open>Server tightening\<close>

text \<open>
  C21.  A server policy can only narrow: what is allowed under the composition is allowed under
  the author's policy alone, with obligations at least as strong, provided the lease itself
  satisfies the author's network rule.  The proviso is implied unless the server switches the
  author's lease rule to strict online.
\<close>

theorem evaluate_server_only_narrows:
  assumes "evaluate author (Some l) action ctx = Allow ob"
    and "lease_server_policy l = Some server"
    and "pol_network server = StrictOnline \<longrightarrow>
           pol_network author = StrictOnline \<or> check_network author l ctx = Inr ()"
  shows "\<exists>ob'. evaluate author (Some (l\<lparr>lease_server_policy := None\<rparr>)) action ctx = Allow ob' \<and>
     (ob_watermark ob' \<longrightarrow> ob_watermark ob) \<and>
     (ob_block_screen_capture ob' \<longrightarrow> ob_block_screen_capture ob)"
proof -
  have comp: "composed_policy author (Some l) = intersect author server"
    using assms(2) by (simp add: composed_policy_def)
  from assms(1) have pass: "checks_pass (intersect author server) l action ctx"
    and ob: "ob = obligations_of (intersect author server)"
    by (simp_all add: evaluate_Allow comp)
  have "check_network author l ctx = Inr ()"
  proof (cases "pol_network server = StrictOnline \<and> pol_network author \<noteq> StrictOnline")
    case True
    with assms(3) show ?thesis by simp
  next
    case False
    then have "pol_network (intersect author server) = StrictOnline \<longrightarrow> pol_network author = StrictOnline"
      by (cases "pol_network author"; cases "pol_network server") (simp_all add: intersect_def)
    with pass show ?thesis
      by (auto simp: checks_pass_def intro: server_tightening.network_shrinks)
  qed
  with pass have "checks_pass author l action ctx"
    by (rule server_tightening.checks_pass_author)
  then have "evaluate author (Some (l\<lparr>lease_server_policy := None\<rparr>)) action ctx = Allow (obligations_of author)"
    by (simp add: evaluate_Allow composed_policy_def checks_pass_server_policy)
  with ob server_tightening.obligations_grow [of author server] show ?thesis by blast
qed

definition demo_server_lease :: "Policy \<Rightarrow> LeaseFacts" where
  "demo_server_lease server = demo_lease\<lparr>lease_server_policy := Some server\<rparr>"

theorem evaluate_server_only_narrows_witness:
  "\<exists>ob'. evaluate demo_policy
      (Some ((demo_server_lease demo_policy)\<lparr>lease_server_policy := None\<rparr>)) View demo_context = Allow ob' \<and>
     (ob_watermark ob' \<longrightarrow> False) \<and> (ob_block_screen_capture ob' \<longrightarrow> True)"
proof -
  have a: "evaluate demo_policy (Some (demo_server_lease demo_policy)) View demo_context =
     Allow \<lparr>ob_watermark = False, ob_block_screen_capture = True, ob_suppress_crash_dumps = True\<rparr>"
    by (simp add: demo_server_lease_def demo_defs evaluate_eval intersect_def retain_allowed_def
        join_bindings_def min_i64_def)
  have b: "lease_server_policy (demo_server_lease demo_policy) = Some demo_policy"
    and c: "pol_network demo_policy = StrictOnline \<longrightarrow> pol_network demo_policy = StrictOnline \<or>
      check_network demo_policy (demo_server_lease demo_policy) demo_context = Inr ()"
    by (simp_all add: demo_server_lease_def)
  from evaluate_server_only_narrows [OF a b c] show ?thesis by simp
qed

definition long_lease :: LeaseFacts where
  "long_lease = demo_lease\<lparr>lease_expires_at := 87400\<rparr>"

definition strict_server :: Policy where
  "strict_server = no_tightening\<lparr>pol_network := StrictOnline\<rparr>"

definition online_context :: Context where
  "online_context = demo_context\<lparr>ctx_online := True\<rparr>"

lemma intersect_network:
  "pol_network server = StrictOnline \<Longrightarrow> intersect (author\<lparr>pol_network := n\<rparr>) server = intersect author server"
  by (cases n; cases "pol_network author") (simp_all add: intersect_def)

lemma evaluate_strict_server:
  assumes "lease_server_policy l = Some server" and "pol_network server = StrictOnline"
  shows "evaluate (author\<lparr>pol_network := n\<rparr>) (Some l) action ctx = evaluate author (Some l) action ctx"
  using assms
  by (simp add: evaluate_def evaluate_checks_def composed_policy_def intersect_network check_rule_def rule_def Let_def)

text \<open>
  C33.  A server policy that asks for strict online use replaces the author's lease rule instead
  of adding to it.  For every author policy with a lease rule and every lease that carries such a
  server policy, the decision does not depend on the author's two numbers and is the one a
  strict-online author would get, so the length of the lease is never compared with the author's
  cap; without the server policy a lease longer than the cap is denied for every action and
  context.  The proviso of the narrowing, that the lease itself satisfies the author's network
  rule, therefore cannot be dropped.
\<close>

theorem strict_online_server_lifts_the_lease_cap:
  assumes "lease_server_policy l = Some server" and "pol_network server = StrictOnline"
    and "pol_network author = Lease cap offline"
    and "sint cap < sint (saturating_sub_i64 (lease_expires_at l) (lease_issued_at l))"
  shows "(\<forall>cap' offline'. evaluate (author\<lparr>pol_network := Lease cap' offline'\<rparr>) (Some l) action ctx =
       evaluate author (Some l) action ctx) \<and>
     evaluate (author\<lparr>pol_network := StrictOnline\<rparr>) (Some l) action ctx = evaluate author (Some l) action ctx \<and>
     \<not> is_allowed (evaluate author (Some (l\<lparr>lease_server_policy := None\<rparr>)) action ctx)"
proof -
  have "check_network author (l\<lparr>lease_server_policy := None\<rparr>) ctx \<noteq> Inr ()"
    using assms(3,4) by (simp add: check_network_def Let_def ensure_eq_Inr)
  then have "\<not> is_allowed (evaluate author (Some (l\<lparr>lease_server_policy := None\<rparr>)) action ctx)"
    by (auto simp: is_allowed_iff evaluate_Allow composed_policy_def checks_pass_def)
  with evaluate_strict_server [OF assms(1,2)] show ?thesis by blast
qed

theorem strict_online_server_lifts_the_lease_cap_witness:
  "is_allowed (evaluate demo_policy (Some (long_lease\<lparr>lease_server_policy := Some strict_server\<rparr>)) View online_context) \<and>
   is_allowed (evaluate (demo_policy\<lparr>pol_network := Lease 1 1\<rparr>)
     (Some (long_lease\<lparr>lease_server_policy := Some strict_server\<rparr>)) View online_context) \<and>
   \<not> is_allowed (evaluate demo_policy (Some (long_lease\<lparr>lease_server_policy := None\<rparr>)) View online_context)"
proof -
  let ?l = "long_lease\<lparr>lease_server_policy := Some strict_server\<rparr>"
  have "lease_server_policy ?l = Some strict_server" "pol_network strict_server = StrictOnline"
    "pol_network demo_policy = Lease 600 600"
    "sint (600 :: i64) < sint (saturating_sub_i64 (lease_expires_at ?l) (lease_issued_at ?l))"
    by (simp_all add: strict_server_def long_lease_def demo_defs evaluate_eval)
  from strict_online_server_lifts_the_lease_cap [OF this, of View online_context]
  have eq: "evaluate (demo_policy\<lparr>pol_network := Lease 1 1\<rparr>) (Some ?l) View online_context =
      evaluate demo_policy (Some ?l) View online_context"
    and no: "\<not> is_allowed (evaluate demo_policy (Some (long_lease\<lparr>lease_server_policy := None\<rparr>)) View online_context)"
    by simp_all
  have "is_allowed (evaluate demo_policy (Some ?l) View online_context)"
    by (simp add: long_lease_def strict_server_def online_context_def no_tightening_def demo_defs
        evaluate_eval intersect_def retain_allowed_def join_bindings_def)
  with eq no show ?thesis by simp
qed

text \<open>
  The two denials of an action name the party that denied it: "not permitted" means the
  author's policy does not allow it; "tightened by the server" means the author allows it and
  the server policy of the lease does not.
\<close>

theorem denial_names_the_denier:
  assumes "evaluate author ml action ctx = Deny reason"
  shows "(reason = ActionNotPermitted a \<longrightarrow> a = action \<and> rule author action = RuleDeny) \<and>
     (reason = ActionTightenedByServer a \<longrightarrow> a = action \<and> rule author action = RuleAllow \<and>
        (\<exists>l server. ml = Some l \<and> lease_server_policy l = Some server \<and> rule server action = RuleDeny))"
proof -
  have not_allow: "r \<noteq> RuleAllow \<longleftrightarrow> r = RuleDeny" for r by (cases r) simp_all
  from assms have chk: "evaluate_checks author ml action ctx = Inl reason"
    by (simp add: evaluate_def split: sum.splits)
  have only_rule: "\<exists>l. ml = Some l \<and> check_rule author (composed_policy author ml) action = Inl reason"
    if "reason = ActionNotPermitted a \<or> reason = ActionTightenedByServer a"
    using chk that
    by (auto simp: evaluate_checks_def Let_def bindR_eq_Inl ensure_eq_Inl ok_or_eq_Inl ok_or_eq_Inr
        check_understood_def check_floor_def check_binding_def check_lease_identity_def
        check_issue_time_def
        dest!: check_rest_reasons)
  show ?thesis
  proof (intro conjI impI)
    assume "reason = ActionNotPermitted a"
    with only_rule show "a = action" and "rule author action = RuleDeny"
      by (auto simp: check_rule_def ensure_eq_Inl not_allow split: if_splits)
  next
    assume r: "reason = ActionTightenedByServer a"
    with only_rule obtain l where l: "ml = Some l"
      and c: "check_rule author (composed_policy author ml) action = Inl (ActionTightenedByServer a)"
      by auto
    from c show "a = action" and "rule author action = RuleAllow"
      by (auto simp: check_rule_def ensure_eq_Inl split: if_splits)
    with c l show "\<exists>l server. ml = Some l \<and> lease_server_policy l = Some server \<and> rule server action = RuleDeny"
      by (cases "lease_server_policy l")
        (auto simp: check_rule_def ensure_eq_Inl composed_policy_def rule_intersect not_allow [symmetric]
          split: if_splits)
  qed
qed

theorem denial_names_the_denier_witness:
  "rule demo_policy Print = RuleDeny"
proof -
  have "evaluate demo_policy (Some demo_lease) Print demo_context = Deny (ActionNotPermitted Print)"
    by (simp add: demo_defs evaluate_eval)
  from denial_names_the_denier [OF this, of Print] show ?thesis by simp
qed

subsection \<open>Composition is a meet\<close>

text \<open>A policy in the form the constructors and the decoder produce: only permissions are stored.\<close>

definition normal_policy :: "Policy \<Rightarrow> bool" where
  "normal_policy p \<longleftrightarrow> (\<forall>a r. pol_actions p a = Some r \<longrightarrow> r = RuleAllow)"

lemma normal_policy_constructors:
  "normal_policy deny_all" "normal_policy p \<Longrightarrow> normal_policy (allow a p)"
  "normal_policy p \<Longrightarrow> normal_policy (intersect p q)"
  by (auto simp: normal_policy_def deny_all_def allow_def intersect_def retain_allowed_def
      split: option.splits if_splits)

lemma i64_eqI: "sint a = sint b \<Longrightarrow> a = (b :: i64)"
  by (rule signed_word_eqI) simp

lemma minmax_i64_ac:
  "min_i64 a b = min_i64 b a" "min_i64 (min_i64 a b) c = min_i64 a (min_i64 b c)" "min_i64 a a = a"
  "max_i64 a b = max_i64 b a" "max_i64 (max_i64 a b) c = max_i64 a (max_i64 b c)" "max_i64 a a = a"
  by (rule i64_eqI, simp add: checked_simps ac_simps)+

lemma minmax_i64_limits:
  "min_i64 a 9223372036854775808 = 9223372036854775808" "min_i64 9223372036854775808 a = 9223372036854775808"
  "max_i64 a 9223372036854775807 = 9223372036854775807" "max_i64 9223372036854775807 a = 9223372036854775807"
  "min_i64 a 9223372036854775807 = a"
  by (rule i64_eqI, use sint_i64_range [of a] in \<open>simp add: checked_simps\<close>)+

lemma tighten_validity_meet:
  "tighten_validity v w = tighten_validity w v"
  "tighten_validity (tighten_validity u v) w = tighten_validity u (tighten_validity v w)"
  "tighten_validity v v = v" "tighten_validity v Always = v"
proof -
  show "tighten_validity v w = tighten_validity w v"
    by (cases v; cases w) (simp_all add: minmax_i64_ac(1,4))
  show "tighten_validity (tighten_validity u v) w = tighten_validity u (tighten_validity v w)"
    by (cases u; cases v; cases w)
      (simp_all add: IMPOSSIBLE_def minmax_i64_ac(2,5) minmax_i64_limits)
qed (cases v; simp add: minmax_i64_ac)+

lemma tighten_network_meet:
  "tighten_network v w = tighten_network w v"
  "tighten_network (tighten_network u v) w = tighten_network u (tighten_network v w)"
  "tighten_network v v = v" "tighten_network v (Lease 9223372036854775807 9223372036854775807) = v"
proof -
  show "tighten_network v w = tighten_network w v"
    by (cases v; cases w) (simp_all add: minmax_i64_ac(1))
  show "tighten_network (tighten_network u v) w = tighten_network u (tighten_network v w)"
    by (cases u; cases v; cases w) (simp_all add: minmax_i64_ac(2))
qed (cases v; simp add: minmax_i64_ac minmax_i64_limits)+

lemma tighten_opens_meet:
  "tighten_opens v w = tighten_opens w v"
  "tighten_opens (tighten_opens u v) w = tighten_opens u (tighten_opens v w)"
  "tighten_opens v v = v" "tighten_opens v None = v"
proof -
  show "tighten_opens v w = tighten_opens w v"
    by (cases v; cases w) (simp_all add: min.commute)
  show "tighten_opens (tighten_opens u v) w = tighten_opens u (tighten_opens v w)"
    by (cases u; cases v; cases w) (simp_all add: min.assoc)
qed (cases v; simp)+

lemma join_bindings_meet:
  "join_bindings v w = join_bindings w v"
  "join_bindings (join_bindings u v) w = join_bindings u (join_bindings v w)"
  "join_bindings v v = v" "join_bindings v Map.empty = v"
  by (rule ext, auto simp: join_bindings_def max.commute max.assoc max.left_commute split: option.splits)+

lemma retain_allowed_meet:
  "(\<And>a r. v a = Some r \<Longrightarrow> r = RuleAllow) \<Longrightarrow> (\<And>a r. w a = Some r \<Longrightarrow> r = RuleAllow) \<Longrightarrow>
     retain_allowed v w = retain_allowed w v"
  "retain_allowed (retain_allowed u v) w = retain_allowed u (retain_allowed v w)"
  "(\<And>a r. v a = Some r \<Longrightarrow> r = RuleAllow) \<Longrightarrow> retain_allowed v v = v"
  "(\<And>a r. v a = Some r \<Longrightarrow> r = RuleAllow) \<Longrightarrow> retain_allowed v (\<lambda>_. Some RuleAllow) = v"
  by (rule ext, force simp: retain_allowed_def split: option.splits if_splits)+

lemma no_tightening_eq:
  "no_tightening = deny_all\<lparr>pol_actions := (\<lambda>_. Some RuleAllow),
     pol_network := Lease 9223372036854775807 9223372036854775807\<rparr>"
proof -
  have "(Map.empty(View \<mapsto> RuleAllow, Edit \<mapsto> RuleAllow, Print \<mapsto> RuleAllow, Clipboard \<mapsto> RuleAllow,
      Export \<mapsto> RuleAllow, Screenshot \<mapsto> RuleAllow)) a = Some RuleAllow" for a
    by (cases a) simp_all
  then show ?thesis by (simp add: no_tightening_def allow_def deny_all_def fun_eq_iff)
qed

lemmas meet_laws =
  tighten_validity_meet tighten_network_meet tighten_opens_meet join_bindings_meet retain_allowed_meet

text \<open>
  Composition is a meet on policies: commutative, associative and idempotent, with
  \<open>no_tightening\<close> as its neutral element.  The order in which an author's and several server
  policies are composed does not matter.
\<close>

theorem intersect_meet:
  assumes "normal_policy p" and "normal_policy q"
  shows "intersect p q = intersect q p \<and>
     intersect (intersect p q) r = intersect p (intersect q r) \<and>
     intersect p p = p \<and> intersect p no_tightening = p"
proof (intro conjI)
  have n: "\<And>a r. pol_actions p a = Some r \<Longrightarrow> r = RuleAllow"
    "\<And>a r. pol_actions q a = Some r \<Longrightarrow> r = RuleAllow"
    using assms by (auto simp: normal_policy_def)
  show "intersect p q = intersect q p"
    using retain_allowed_meet(1) [of "pol_actions p" "pol_actions q", OF n]
      tighten_validity_meet(1) [of "pol_validity p"] tighten_network_meet(1) [of "pol_network p"]
      tighten_opens_meet(1) [of "pol_max_opens p"] join_bindings_meet(1) [of "pol_action_binding p"]
    by (simp add: intersect_def max.commute Un_commute disj_commute)
  show "intersect (intersect p q) r = intersect p (intersect q r)"
    by (simp add: intersect_def meet_laws(2) tighten_network_meet(2) tighten_opens_meet(2)
        join_bindings_meet(2) retain_allowed_meet(2) max.assoc Un_assoc)
  show "intersect p p = p"
    by (simp add: intersect_def tighten_validity_meet(3) tighten_network_meet(3) tighten_opens_meet(3)
        join_bindings_meet(3) retain_allowed_meet(3) [OF n(1)])
  show "intersect p no_tightening = p"
  proof -
    have "retain_allowed (pol_actions p) (\<lambda>_. Some RuleAllow) = pol_actions p"
      by (rule retain_allowed_meet(4)) (rule n(1))
    moreover have "max (pol_min_binding p) Software = pol_min_binding p"
      by (cases "pol_min_binding p") (simp_all add: max_def binding_order)
    ultimately show ?thesis
      by (simp add: intersect_def no_tightening_eq deny_all_def tighten_validity_meet(4)
          tighten_network_meet(4) tighten_opens_meet(4) join_bindings_meet(4))
  qed
qed

theorem intersect_meet_witness:
  "intersect demo_policy deny_all = intersect deny_all demo_policy \<and>
   intersect (intersect demo_policy deny_all) strict_server =
     intersect demo_policy (intersect deny_all strict_server) \<and>
   intersect demo_policy demo_policy = demo_policy \<and> intersect demo_policy no_tightening = demo_policy"
  by (rule intersect_meet) (auto simp: normal_policy_def demo_defs split: if_splits)

end
