(* ===== verification/OC_Tlv.thy ===== *)
theory OC_Tlv
  imports OC_Prelude
begin

text \<open>
  The wire layer of \<^verbatim>\<open>oc-format\<close>: the error type of the crate (\<^verbatim>\<open>oc-format/src/lib.rs\<close>), the
  tag-length-value reader and writer (\<^verbatim>\<open>oc-format/src/tlv.rs\<close>) and the length-prefixed frame
  (\<^verbatim>\<open>oc-format/src/frame.rs\<close>).  The loop \<^verbatim>\<open>while let Some(field) = reader.next_field()?\<close>, in which
  every decoder of the crate is written, is \<open>tlv_loop\<close>: the body runs on each field before
  the next one is read, so the first error in stream order ends the loop.

  The lemmas give the loop two readings.  On bytes written field by field it is a fold of the
  body over those fields (\<open>tlv_loop_enc\<close>); and whenever it succeeds, the bytes were the
  encoding of an ascending list of fields and nothing else (\<open>tlv_loop_Inr\<close>).  The locale
  \<open>codec\<close> is the contract of an encoder and decoder pair.
\<close>

section \<open>Errors\<close>

datatype FormatError =
    BadMagic
  | HeaderTooLarge u32
  | Truncated nat nat
  | OffsetOverflow
  | BadChunkSize u32
  | ChunkCountMismatch u32 u32
  | ChunkOutOfRange u32 u32
  | BadFieldLength u16 nat
  | FieldsOutOfOrder u16 u16
  | UnknownCriticalField u16
  | MissingField u16
  | DegenerateKey u16
  | BadAddressByte u16 byte
  | BadNoteChar u16 u32
  | NotUtf8 u16
  | ReaderTooOld u16 u16
  | UnsupportedClass byte
  | UnsupportedContainerVersion u16 u16 u16
  | UnsupportedLeaseVersion u16
  | ContentDescTooLarge u32
  | BadContentMac
  | BadHeaderSignature

section \<open>Fields and the reader\<close>

definition CRIT_TAG_MAX :: u16 where "CRIT_TAG_MAX = 0x7FFF"

definition FIELD_PREFIX_LEN :: nat where "FIELD_PREFIX_LEN = 6"

record Field =
  fld_tag :: u16
  fld_value :: bytes
  fld_start :: nat
  fld_end :: nat

definition field_array :: "nat \<Rightarrow> Field \<Rightarrow> FormatError + bytes" where
  "field_array n f =
     (if length (fld_value f) = n then Inr (fld_value f)
      else Inl (BadFieldLength (fld_tag f) (length (fld_value f))))"

definition field_u8 :: "Field \<Rightarrow> FormatError + byte" where
  "field_u8 f =
     (case fld_value f of
        [b] \<Rightarrow> Inr b
      | _ \<Rightarrow> Inl (BadFieldLength (fld_tag f) (length (fld_value f))))"

definition field_u16 :: "Field \<Rightarrow> FormatError + u16" where
  "field_u16 f = map_sum id of_le (field_array 2 f)"

definition field_u32 :: "Field \<Rightarrow> FormatError + u32" where
  "field_u32 f = map_sum id of_le (field_array 4 f)"

definition field_u64 :: "Field \<Rightarrow> FormatError + u64" where
  "field_u64 f = map_sum id of_le (field_array 8 f)"

record TlvReader =
  rd_buf :: bytes
  rd_pos :: nat
  rd_last_tag :: "u16 option"

definition reader_new :: "bytes \<Rightarrow> TlvReader" where
  "reader_new buf = \<lparr>rd_buf = buf, rd_pos = 0, rd_last_tag = None\<rparr>"

definition is_exhausted :: "TlvReader \<Rightarrow> bool" where
  "is_exhausted r \<longleftrightarrow> length (rd_buf r) \<le> rd_pos r"

definition check_ascending :: "u16 option \<Rightarrow> u16 \<Rightarrow> FormatError + unit" where
  "check_ascending prior tag =
     (case prior of
        None \<Rightarrow> Inr ()
      | Some prev \<Rightarrow> ensure (\<not> tag \<le> prev) (FieldsOutOfOrder prev tag))"

definition next_field :: "TlvReader \<Rightarrow> FormatError + (Field option \<times> TlvReader)" where
  "next_field r =
     (let buf = rd_buf r in
      if rd_pos r \<ge> length buf then Inr (None, r)
      else
        bindR (ok_or OffsetOverflow (checked_add_usize (rd_pos r) FIELD_PREFIX_LEN)) (\<lambda>header_end.
        bindR (ok_or (Truncated header_end (length buf)) (get_range buf (rd_pos r) header_end)) (\<lambda>prefix.
        bindR (ok_or OffsetOverflow (map_option of_le (get_range prefix 0 2))) (\<lambda>tag.
        bindR (ok_or OffsetOverflow (map_option le_nat (get_range prefix 2 6))) (\<lambda>len.
        bindR (check_ascending (rd_last_tag r) tag) (\<lambda>_.
        bindR (ok_or OffsetOverflow (checked_add_usize header_end len)) (\<lambda>value_end.
        bindR (ok_or (Truncated value_end (length buf)) (get_range buf header_end value_end)) (\<lambda>value.
        Inr (Some \<lparr>fld_tag = tag, fld_value = value, fld_start = header_end, fld_end = value_end\<rparr>,
             r\<lparr>rd_last_tag := Some tag, rd_pos := value_end\<rparr>)))))))))"

section \<open>The writer\<close>

record TlvWriter =
  wr_buf :: bytes
  wr_last_tag :: "u16 option"

definition writer_new :: TlvWriter where
  "writer_new = \<lparr>wr_buf = [], wr_last_tag = None\<rparr>"

text \<open>
  \<^verbatim>\<open>reserve\<close> moves the bytes into a larger allocation; what it can change of the contents is
  nothing, and what it can report is the overflow of the needed length.
\<close>

definition reserve :: "TlvWriter \<Rightarrow> nat \<Rightarrow> FormatError + TlvWriter" where
  "reserve w extra =
     bindR (ok_or OffsetOverflow (checked_add_usize (length (wr_buf w)) extra)) (\<lambda>needed. Inr w)"

definition put :: "u16 \<Rightarrow> bytes \<Rightarrow> TlvWriter \<Rightarrow> FormatError + TlvWriter" where
  "put tag value w =
     bindR (check_ascending (wr_last_tag w) tag) (\<lambda>_.
     bindR (ok_or (BadFieldLength tag (length value)) (u32_of_usize (length value))) (\<lambda>len.
     bindR (reserve w (min (FIELD_PREFIX_LEN + length value) (usize_limit - 1))) (\<lambda>w.
     Inr (w\<lparr>wr_buf := wr_buf w @ le16 tag @ le32 len @ value, wr_last_tag := Some tag\<rparr>))))"

definition put_opt :: "u16 \<Rightarrow> bytes option \<Rightarrow> TlvWriter \<Rightarrow> FormatError + TlvWriter" where
  "put_opt tag value w = (case value of Some v \<Rightarrow> put tag v w | None \<Rightarrow> Inr w)"

definition finish :: "TlvWriter \<Rightarrow> bytes" where
  "finish w = wr_buf w"

datatype UnknownTag = Refuse | Ignore

definition unknown_tag_action :: "u16 \<Rightarrow> UnknownTag" where
  "unknown_tag_action tag = (if tag \<le> CRIT_TAG_MAX then Refuse else Ignore)"

section \<open>The decoding loop\<close>

lemma next_field_SomeD:
  assumes "next_field r = Inr (Some f, r')"
  shows "rd_buf r' = rd_buf r" and "rd_pos r + 6 \<le> rd_pos r'" and "rd_pos r < length (rd_buf r)"
    and "rd_pos r' \<le> length (rd_buf r)"
  using assms
  by (auto simp: next_field_def Let_def result_simps get_range_eq_Some checked_add_usize_def
      FIELD_PREFIX_LEN_def split: if_splits)

lemma next_field_decreases:
  "next_field r = Inr (Some f, r') \<Longrightarrow> length (rd_buf r') - rd_pos r' < length (rd_buf r) - rd_pos r"
  using next_field_SomeD [of r f r'] by simp

function tlv_loop :: "(Field \<Rightarrow> 's \<Rightarrow> FormatError + 's) \<Rightarrow> TlvReader \<Rightarrow> 's \<Rightarrow> FormatError + 's" where
  "tlv_loop body r s =
     (case next_field r of
        Inl e \<Rightarrow> Inl e
      | Inr (None, _) \<Rightarrow> Inr s
      | Inr (Some f, r') \<Rightarrow> bindR (body f s) (tlv_loop body r'))"
  by pat_completeness auto
termination
  by (relation "measure (\<lambda>(body, r, s). length (rd_buf r) - rd_pos r)")
    (auto intro: next_field_decreases)

declare tlv_loop.simps [simp del]

section \<open>Frames\<close>

definition frame_header :: "nat \<Rightarrow> nat \<Rightarrow> FormatError + bytes" where
  "frame_header len m =
     bindR (ensure (\<not> len > m) OffsetOverflow) (\<lambda>_.
     bindR (ok_or OffsetOverflow (u32_of_usize len)) (\<lambda>value. Inr (le32 value)))"

definition frame_body_len :: "bytes \<Rightarrow> nat \<Rightarrow> FormatError + nat" where
  "frame_body_len head m =
     (let len = le_nat head in bindR (ensure (\<not> len > m) OffsetOverflow) (\<lambda>_. Inr len))"

section \<open>Encoded fields\<close>

definition enc_field :: "u16 \<times> bytes \<Rightarrow> bytes" where
  "enc_field tv = le16 (fst tv) @ le_bytes 4 (length (snd tv)) @ snd tv"

definition enc_fields :: "(u16 \<times> bytes) list \<Rightarrow> bytes" where
  "enc_fields fs = concat (map enc_field fs)"

fun fields_at :: "nat \<Rightarrow> (u16 \<times> bytes) list \<Rightarrow> Field list" where
  "fields_at n [] = []"
| "fields_at n ((t, v) # fs) =
     \<lparr>fld_tag = t, fld_value = v, fld_start = n + 6, fld_end = n + 6 + length v\<rparr>
       # fields_at (n + 6 + length v) fs"

text \<open>Tags strictly ascending from an optional last tag on, and every length fits its prefix.\<close>

fun ascending :: "u16 option \<Rightarrow> (u16 \<times> bytes) list \<Rightarrow> bool" where
  "ascending prior [] = True"
| "ascending prior ((t, v) # fs) \<longleftrightarrow>
     (case prior of None \<Rightarrow> True | Some p \<Rightarrow> p < t) \<and> length v < 4294967296 \<and> ascending (Some t) fs"

lemma enc_fields_simps [simp]:
  "enc_fields [] = []" "enc_fields (tv # fs) = enc_field tv @ enc_fields fs"
  "enc_fields (fs @ gs) = enc_fields fs @ enc_fields gs"
  by (simp_all add: enc_fields_def)

lemma length_enc_field [simp]: "length (enc_field (t, v)) = 6 + length v"
  by (simp add: enc_field_def)

lemma check_ascending_eq_Inr:
  "check_ascending prior t = Inr u \<longleftrightarrow> (case prior of None \<Rightarrow> True | Some p \<Rightarrow> p < t)"
  by (auto simp: check_ascending_def result_simps not_le split: option.splits)

subsection \<open>Writing\<close>

lemma put_eq_Inr:
  "put t v w = Inr w' \<longleftrightarrow>
     ascending (wr_last_tag w) [(t, v)] \<and> length (wr_buf w) + (6 + length v) < usize_limit \<and>
     w' = \<lparr>wr_buf = wr_buf w @ enc_field (t, v), wr_last_tag = Some t\<rparr>"
proof (cases "length v < 4294967296")
  case True
  then have u: "u32_of_usize (length v) = Some (word_of_nat (length v))"
    by (simp add: u32_of_usize_def)
  have n: "unat (word_of_nat (length v) :: u32) = length v"
    using True by (simp add: unat_of_nat take_bit_nat_eq_self)
  have m: "min (FIELD_PREFIX_LEN + length v) 18446744073709551615 = 6 + length v"
    using True by (simp add: FIELD_PREFIX_LEN_def)
  show ?thesis
    using True
    by (cases w) (auto simp: put_def reserve_def u n m result_simps check_ascending_eq_Inr
        checked_add_usize_def enc_field_def)
next
  case False
  then show ?thesis by (simp add: put_def u32_of_usize_def bindR_eq_Inr)
qed

definition put_all :: "(u16 \<times> bytes) list \<Rightarrow> TlvWriter \<Rightarrow> FormatError + TlvWriter" where
  "put_all fs = foldR (\<lambda>tv. put (fst tv) (snd tv)) fs"

lemma put_all_simps [simp]:
  "put_all [] w = Inr w" "put_all ((t, v) # fs) w = bindR (put t v w) (put_all fs)"
  by (simp_all add: put_all_def)

lemma put_all_eq_Inr:
  "put_all fs w = Inr w' \<longleftrightarrow>
     ascending (wr_last_tag w) fs \<and> (fs = [] \<or> length (wr_buf w) + length (enc_fields fs) < usize_limit) \<and>
     wr_buf w' = wr_buf w @ enc_fields fs \<and>
     wr_last_tag w' = (if fs = [] then wr_last_tag w else Some (fst (last fs)))"
proof (induction fs arbitrary: w)
  case Nil
  then show ?case by (cases w; cases w') auto
next
  case (Cons tv fs)
  obtain t v where tv: "tv = (t, v)" by (cases tv)
  show ?case
    by (auto simp: tv bindR_eq_Inr put_eq_Inr Cons.IH split: if_splits)
qed

text \<open>A fresh writer takes any ascending list of fields that fits the address space.\<close>

lemma put_all_new:
  assumes "ascending None fs" and "length (enc_fields fs) < usize_limit"
  shows "\<exists>w. put_all fs writer_new = Inr w \<and> finish w = enc_fields fs"
  using assms
  by (intro exI [of _ "\<lparr>wr_buf = enc_fields fs, wr_last_tag = (if fs = [] then None else Some (fst (last fs)))\<rparr>"])
    (simp add: put_all_eq_Inr writer_new_def finish_def)

lemma put_all_newD:
  assumes "put_all fs writer_new = Inr w"
  shows "finish w = enc_fields fs" and "ascending None fs" and "length (enc_fields fs) < usize_limit"
  using assms by (auto simp: put_all_eq_Inr writer_new_def finish_def)

lemma put_all_append: "put_all (fs @ gs) w = bindR (put_all fs w) (put_all gs)"
  by (simp add: put_all_def foldR_append)

lemma put_all_one: "put_all [(t, v)] w = put t v w"
  by (cases "put t v w") simp_all

definition opt_field :: "u16 \<Rightarrow> bytes option \<Rightarrow> (u16 \<times> bytes) list" where
  "opt_field t v = (case v of Some x \<Rightarrow> [(t, x)] | None \<Rightarrow> [])"

lemma opt_field_simps [simp]: "opt_field t None = []" "opt_field t (Some x) = [(t, x)]"
  by (simp_all add: opt_field_def)

lemma put_opt_all: "put_opt t v w = put_all (opt_field t v) w"
  by (cases v) (simp_all add: put_opt_def put_all_one del: put_all_simps(2))

text \<open>Writing a fixed list of fields from a fresh writer, then finishing.\<close>

lemma put_all_new_bind:
  assumes "ascending None fs" and "length (enc_fields fs) < usize_limit"
  shows "bindR (put_all fs writer_new) (\<lambda>w. Inr (finish w)) = Inr (enc_fields fs)"
  using put_all_new [OF assms] by auto

lemma field_accessors [simp]:
  "field_array n \<lparr>fld_tag = t, fld_value = v, fld_start = a, fld_end = b\<rparr> =
     (if length v = n then Inr v else Inl (BadFieldLength t (length v)))"
  "field_u8 \<lparr>fld_tag = t, fld_value = [x], fld_start = a, fld_end = b\<rparr> = Inr x"
  "field_u16 \<lparr>fld_tag = t, fld_value = le16 w16, fld_start = a, fld_end = b\<rparr> = Inr w16"
  "field_u32 \<lparr>fld_tag = t, fld_value = le32 w32, fld_start = a, fld_end = b\<rparr> = Inr w32"
  "field_u64 \<lparr>fld_tag = t, fld_value = le64 w64, fld_start = a, fld_end = b\<rparr> = Inr w64"
  by (simp_all add: field_array_def field_u8_def field_u16_def field_u32_def field_u64_def)

lemma ascending_sorted:
  assumes "sorted_wrt (<) ts" and "\<And>t. length (g t) < 4294967296"
    and "case prior of None \<Rightarrow> True | Some p \<Rightarrow> \<forall>t \<in> set ts. p < t"
  shows "ascending prior (map (\<lambda>t. (t, g t)) ts)"
  using assms by (induction ts arbitrary: prior) (auto split: option.splits)

lemma length_enc_fields_bytes: "length (enc_fields (map (\<lambda>t. (h t, [g t])) ts)) = 7 * length ts"
  by (induction ts) simp_all

subsection \<open>Reading\<close>

lemma slice_take2: "slice (a @ b @ c @ d) (length a) (length a + n) = take n (b @ c @ d)"
  by (simp add: slice_def)

lemma next_field_enc:
  assumes buf: "rd_buf r = pre @ enc_field (t, v) @ post" and pos: "rd_pos r = length pre"
    and asc: "ascending (rd_last_tag r) [(t, v)]" and fits: "length (rd_buf r) < usize_limit"
  shows "next_field r =
    Inr (Some \<lparr>fld_tag = t, fld_value = v, fld_start = length pre + 6, fld_end = length pre + 6 + length v\<rparr>,
         r\<lparr>rd_last_tag := Some t, rd_pos := length pre + 6 + length v\<rparr>)"
proof -
  define head where "head = le16 t @ le_bytes 4 (length v)"
  have b: "rd_buf r = pre @ head @ v @ post" by (simp add: buf head_def enc_field_def)
  have h: "length head = 6" by (simp add: head_def)
  have p: "get_range (rd_buf r) (length pre) (length pre + 6) = Some head"
    using h by (simp add: get_range_def b)
  have v: "get_range (rd_buf r) (length pre + 6) (length pre + 6 + length v) = Some v"
    using h by (simp add: get_range_def b)
  have "le_nat (le_bytes 4 (length v)) = length v"
    using asc by (simp add: le_nat_le_bytes)
  moreover have "get_range head 0 2 = Some (le16 t)" "get_range head 2 6 = Some (le_bytes 4 (length v))"
    using h by (simp_all add: get_range_def head_def)
  moreover have "check_ascending (rd_last_tag r) t = Inr ()"
    using asc by (simp add: check_ascending_eq_Inr)
  moreover have "length (rd_buf r) = length pre + 6 + length v + length post"
    using h by (simp add: b)
  ultimately show ?thesis
    using fits by (simp add: next_field_def Let_def pos p v FIELD_PREFIX_LEN_def checked_add_usize_def)
qed

lemma tlv_loop_enc_gen:
  assumes "rd_buf r = pre @ enc_fields fs" and "rd_pos r = length pre"
    and "ascending (rd_last_tag r) fs" and "length (rd_buf r) < usize_limit"
  shows "tlv_loop body r s = foldR body (fields_at (length pre) fs) s"
  using assms
proof (induction fs arbitrary: r pre s)
  case Nil
  then show ?case by (subst tlv_loop.simps) (simp add: next_field_def)
next
  case (Cons tv fs)
  obtain t v where tv: "tv = (t, v)" by (cases tv)
  let ?n = "length pre + 6 + length v"
  let ?r = "r\<lparr>rd_last_tag := Some t, rd_pos := ?n\<rparr>"
  have nf: "next_field r = Inr (Some \<lparr>fld_tag = t, fld_value = v, fld_start = length pre + 6, fld_end = ?n\<rparr>, ?r)"
    using Cons.prems by (intro next_field_enc [where post = "enc_fields fs"]) (simp_all add: tv)
  have len: "length (pre @ enc_field (t, v)) = ?n" by simp
  have "tlv_loop body ?r u = foldR body (fields_at (length (pre @ enc_field (t, v))) fs) u" for u
    using Cons.prems by (intro Cons.IH) (simp_all add: tv)
  then have "tlv_loop body ?r = foldR body (fields_at ?n fs)"
    unfolding len by (intro ext)
  then show ?case by (subst tlv_loop.simps) (simp add: nf tv)
qed

lemma tlv_loop_enc:
  assumes "ascending None fs" and "length (enc_fields fs) < usize_limit"
  shows "tlv_loop body (reader_new (enc_fields fs)) s = foldR body (fields_at 0 fs) s"
  using tlv_loop_enc_gen [of "reader_new (enc_fields fs)" "[]" fs] assms by (simp add: reader_new_def)

text \<open>Reading back what was written: the law every round trip of the crate rests on.\<close>

lemma tlv_loop_put_all:
  assumes "put_all fs writer_new = Inr w"
  shows "tlv_loop body (reader_new (finish w)) s = foldR body (fields_at 0 fs) s"
proof -
  from assms have "finish w = enc_fields fs" "ascending None fs" "length (enc_fields fs) < usize_limit"
    by (auto simp: put_all_eq_Inr finish_def writer_new_def)
  then show ?thesis by (simp add: tlv_loop_enc)
qed

text \<open>Conversely, whatever one step of the reader accepts is the encoding of one field.\<close>

lemma next_field_Inr_Some:
  assumes nf: "next_field r = Inr (Some f, r')"
  shows "\<exists>t v. drop (rd_pos r) (rd_buf r) = enc_field (t, v) @ drop (rd_pos r') (rd_buf r) \<and>
     ascending (rd_last_tag r) [(t, v)] \<and> fields_at (rd_pos r) [(t, v)] = [f] \<and>
     r' = r\<lparr>rd_last_tag := Some t, rd_pos := rd_pos r + 6 + length v\<rparr>"
proof -
  let ?b = "rd_buf r" and ?p = "rd_pos r"
  define prefix where "prefix = slice ?b ?p (?p + 6)"
  define t :: u16 where "t = of_le (slice prefix 0 2)"
  define n where "n = le_nat (slice prefix 2 6)"
  define v where "v = slice ?b (?p + 6) (?p + 6 + n)"
  from nf have bounds: "?p + 6 \<le> length ?b" "?p + 6 + n \<le> length ?b"
    and asc: "case rd_last_tag r of None \<Rightarrow> True | Some p \<Rightarrow> p < t"
    and f: "f = \<lparr>fld_tag = t, fld_value = v, fld_start = ?p + 6, fld_end = ?p + 6 + n\<rparr>"
    and r': "r' = r\<lparr>rd_last_tag := Some t, rd_pos := ?p + 6 + n\<rparr>"
    by (auto simp: next_field_def Let_def result_simps get_range_eq_Some checked_add_usize_def
        FIELD_PREFIX_LEN_def check_ascending_eq_Inr prefix_def t_def n_def v_def
        split: if_splits option.splits)
  have lens: "length prefix = 6" "length v = n" "n < 4294967296"
    using bounds le_nat_less [of "slice prefix 2 6"]
    by (simp_all add: prefix_def v_def n_def slice_length)
  have "prefix = slice prefix 0 2 @ slice prefix 2 6"
    using lens(1) by (simp add: slice_def)
  moreover have "le_bytes 2 (unat t) = slice prefix 0 2" "le_bytes 4 n = slice prefix 2 6"
    using lens(1) by (simp_all add: t_def n_def le_bytes_of_le16 le_bytes_le_nat slice_length)
  ultimately have enc: "enc_field (t, v) = prefix @ v"
    by (simp add: enc_field_def lens)
  have "drop ?p ?b = prefix @ drop (?p + 6) ?b"
    by (simp add: prefix_def drop_eq_slice_append [symmetric])
  also have "drop (?p + 6) ?b = v @ drop (?p + 6 + n) ?b"
    by (simp add: v_def drop_eq_slice_append [symmetric])
  finally show ?thesis
    using asc f r' lens by (intro exI [of _ t] exI [of _ v]) (simp add: enc)
qed

lemma ascending_Cons: "ascending prior ((t, v) # fs) \<longleftrightarrow> ascending prior [(t, v)] \<and> ascending (Some t) fs"
  by auto

lemma tlv_loop_Inr_gen:
  assumes "tlv_loop body r s = Inr s'" and "rd_pos r \<le> length (rd_buf r)"
  shows "\<exists>fs. drop (rd_pos r) (rd_buf r) = enc_fields fs \<and> ascending (rd_last_tag r) fs \<and>
     foldR body (fields_at (rd_pos r) fs) s = Inr s' \<and>
     (\<forall>u. tlv_loop other r u = foldR other (fields_at (rd_pos r) fs) u)"
  using assms
proof (induction body r s rule: tlv_loop.induct)
  case (1 body r s)
  show ?case
  proof (cases "next_field r")
    case (Inl e)
    with "1.prems" show ?thesis by (simp add: tlv_loop.simps)
  next
    case (Inr p)
    obtain fo r' where p: "p = (fo, r')" by (cases p)
    show ?thesis
    proof (cases fo)
      case None
      with Inr p have "length (rd_buf r) \<le> rd_pos r"
        by (auto simp: next_field_def Let_def result_simps split: if_splits)
      moreover have "s' = s" using "1.prems" Inr p None by (simp add: tlv_loop.simps)
      moreover have "tlv_loop other r u = Inr u" for u
        by (subst tlv_loop.simps) (simp add: Inr p None)
      ultimately show ?thesis by (intro exI [of _ "[]"]) simp
    next
      case (Some f)
      with Inr p have nf: "next_field r = Inr (Some f, r')" by simp
      from next_field_Inr_Some [OF nf] obtain t v where
        d: "drop (rd_pos r) (rd_buf r) = enc_field (t, v) @ drop (rd_pos r') (rd_buf r)" and
        a: "ascending (rd_last_tag r) [(t, v)]" and
        f: "fields_at (rd_pos r) [(t, v)] = [f]" and
        r': "r' = r\<lparr>rd_last_tag := Some t, rd_pos := rd_pos r + 6 + length v\<rparr>" by blast
      from "1.prems"(1) nf obtain u where u: "body f s = Inr u" "tlv_loop body r' u = Inr s'"
        by (auto simp: tlv_loop.simps [of body r] bindR_eq_Inr)
      have "\<exists>fs. drop (rd_pos r') (rd_buf r') = enc_fields fs \<and> ascending (rd_last_tag r') fs \<and>
          foldR body (fields_at (rd_pos r') fs) u = Inr s' \<and>
          (\<forall>u. tlv_loop other r' u = foldR other (fields_at (rd_pos r') fs) u)"
        using "1.IH" [OF Inr _ _ u(1)] p Some u(2) next_field_SomeD [OF nf] by simp
      then obtain fs where "drop (rd_pos r') (rd_buf r) = enc_fields fs" "ascending (Some t) fs"
        "foldR body (fields_at (rd_pos r + 6 + length v) fs) u = Inr s'"
        and other: "tlv_loop other r' = foldR other (fields_at (rd_pos r + 6 + length v) fs)"
        by (auto simp: r' fun_eq_iff)
      moreover have "fields_at (rd_pos r) ((t, v) # fs) = f # fields_at (rd_pos r + 6 + length v) fs"
        using f by simp
      moreover have "ascending (rd_last_tag r) ((t, v) # fs)"
        using a \<open>ascending (Some t) fs\<close> by simp
      moreover have "tlv_loop other r x = bindR (other f x) (tlv_loop other r')" for x
        by (subst tlv_loop.simps) (simp add: nf)
      ultimately show ?thesis using d u(1) other
        by (intro exI [of _ "(t, v) # fs"]) (simp only: enc_fields_simps foldR.simps bindR_Inr simp_thms)
    qed
  qed
qed

lemma tlv_loop_Inr:
  assumes "tlv_loop body (reader_new buf) s = Inr s'"
  shows "\<exists>fs. buf = enc_fields fs \<and> ascending None fs \<and> foldR body (fields_at 0 fs) s = Inr s'"
  using tlv_loop_Inr_gen [OF assms] by (auto simp: reader_new_def)

text \<open>All fields of a buffer, in stream order.\<close>

definition read_fields :: "bytes \<Rightarrow> FormatError + (u16 \<times> bytes) list" where
  "read_fields buf = tlv_loop (\<lambda>f acc. Inr (acc @ [(fld_tag f, fld_value f)])) (reader_new buf) []"

lemma foldR_collect: "foldR (\<lambda>x acc. Inr (acc @ [g x])) xs acc = Inr (acc @ map g xs)"
  by (induction xs arbitrary: acc) simp_all

lemma map_fields_at [simp]: "map (\<lambda>f. (fld_tag f, fld_value f)) (fields_at n fs) = fs"
  by (induction n fs rule: fields_at.induct) simp_all

lemma fields_atD: "f \<in> set (fields_at n fs) \<Longrightarrow> (fld_tag f, fld_value f) \<in> set fs"
  by (induction n fs rule: fields_at.induct) auto

lemma ascending_distinct: "ascending prior fs \<Longrightarrow> distinct (map fst fs) \<and>
    (\<forall>p t v. prior = Some p \<longrightarrow> (t, v) \<in> set fs \<longrightarrow> p < t)"
  by (induction prior fs rule: ascending.induct) (fastforce split: option.splits)+

lemma tlv_loop_fields:
  assumes "tlv_loop body (reader_new buf) s = Inr s'"
  shows "\<exists>fs. read_fields buf = Inr fs \<and> buf = enc_fields fs \<and> ascending None fs \<and>
     foldR body (fields_at 0 fs) s = Inr s'"
proof -
  obtain fs where "buf = enc_fields fs" "ascending None fs" "foldR body (fields_at 0 fs) s = Inr s'" and
    "\<And>u. tlv_loop (\<lambda>f acc. Inr (acc @ [(fld_tag f, fld_value f)])) (reader_new buf) u =
      foldR (\<lambda>f acc. Inr (acc @ [(fld_tag f, fld_value f)])) (fields_at 0 fs) u"
    using tlv_loop_Inr_gen [OF assms, where other = "\<lambda>f acc. Inr (acc @ [(fld_tag f, fld_value f)])"]
    by (auto simp: reader_new_def)
  then show ?thesis by (auto simp: read_fields_def foldR_collect)
qed

lemma tlv_loop_read_fields:
  assumes "tlv_loop body (reader_new buf) s = Inr s'"
  shows "\<exists>fs. read_fields buf = Inr fs \<and> distinct (map fst fs) \<and> foldR body (fields_at 0 fs) s = Inr s'"
  using tlv_loop_fields [OF assms] ascending_distinct by blast

section \<open>The contract of a codec\<close>

text \<open>
  An encoder and a decoder for the well-formed values of a type.  Whoever signs or hashes an
  encoding relies on it determining the value.
\<close>

locale codec =
  fixes enc :: "'a \<Rightarrow> FormatError + bytes"
    and dec :: "bytes \<Rightarrow> FormatError + 'a"
    and wf :: "'a \<Rightarrow> bool"
  assumes dec_enc: "wf x \<Longrightarrow> enc x = Inr bs \<Longrightarrow> dec bs = Inr x"
begin

lemma enc_determines:
  assumes "wf x" and "wf y" and "enc x = Inr bs" and "enc y = Inr bs"
  shows "x = y"
  using dec_enc [OF assms(1,3)] dec_enc [OF assms(2,4)] by simp

end

text \<open>A codec whose encoder accepts every well-formed value.\<close>

locale total_codec = codec +
  assumes enc_total: "wf x \<Longrightarrow> \<exists>bs. enc x = Inr bs"
begin

lemma round_trip: "wf x \<Longrightarrow> bindR (enc x) dec = Inr x"
  using enc_total dec_enc by fastforce

end

section \<open>Lists under their indices\<close>

text \<open>The elements of a list are written under their indices as tags.\<close>

primrec indexed :: "nat \<Rightarrow> bytes list \<Rightarrow> (u16 \<times> bytes) list" where
  "indexed n [] = []"
| "indexed n (b # bs) = (word_of_nat n, b) # indexed (Suc n) bs"

lemma foldR_enumerate_put:
  assumes "foldR F (enumerate n xs) w = Inr w'"
    and "\<And>i x w w'. F (i, x) w = Inr w' \<Longrightarrow> \<exists>b. G x b \<and> put (word_of_nat i) b w = Inr w'"
  shows "\<exists>bs. list_all2 G xs bs \<and> put_all (indexed n bs) w = Inr w'"
  using assms(1)
proof (induction xs arbitrary: n w)
  case Nil
  then show ?case by simp
next
  case (Cons x xs)
  from Cons.prems obtain u where "F (n, x) w = Inr u" and rest: "foldR F (enumerate (Suc n) xs) u = Inr w'"
    by (auto simp: bindR_eq_Inr)
  then obtain b where b: "G x b" "put (word_of_nat n) b w = Inr u" using assms(2) by blast
  obtain bs where "list_all2 G xs bs" "put_all (indexed (Suc n) bs) u = Inr w'"
    using Cons.IH [OF rest] by blast
  with b show ?case by (intro exI [of _ "b # bs"]) simp
qed

section \<open>Properties\<close>

text \<open>
  C22.  The reader is the exact inverse of the writer: a buffer reads as a list of fields exactly
  when writing those fields produces that buffer.  Every accepted buffer is therefore in
  canonical form: strictly ascending tags, exact lengths, no trailing or skipped bytes.
\<close>

theorem tlv_reader_inverts_writer:
  assumes "length buf < usize_limit"
  shows "read_fields buf = Inr fs \<longleftrightarrow> (\<exists>w. put_all fs writer_new = Inr w \<and> finish w = buf)"
proof
  assume "read_fields buf = Inr fs"
  from tlv_loop_Inr [OF this [unfolded read_fields_def]]
  have "buf = enc_fields fs" and "ascending None fs"
    by (auto simp: foldR_collect)
  with assms show "\<exists>w. put_all fs writer_new = Inr w \<and> finish w = buf"
    by (intro exI [of _ "\<lparr>wr_buf = buf, wr_last_tag = (if fs = [] then None else Some (fst (last fs)))\<rparr>"])
      (simp add: put_all_eq_Inr writer_new_def finish_def)
next
  assume "\<exists>w. put_all fs writer_new = Inr w \<and> finish w = buf"
  then obtain w where w: "put_all fs writer_new = Inr w" "finish w = buf" by blast
  show "read_fields buf = Inr fs"
    by (simp add: read_fields_def w(2) [symmetric] tlv_loop_put_all [OF w(1)] foldR_collect)
qed

theorem tlv_reader_inverts_writer_witness:
  "read_fields [1, 0, 2, 0, 0, 0, 7, 8] = Inr [(1, [7, 8])] \<longleftrightarrow>
     (\<exists>w. put_all [(1, [7, 8])] writer_new = Inr w \<and> finish w = [1, 0, 2, 0, 0, 0, 7, 8])"
  by (rule tlv_reader_inverts_writer) simp

text \<open>
  A frame header round-trips: writing a body length and reading it back gives that length
  when it respects the limit and fits 32 bits, and otherwise the writer refuses; a reader never
  returns more than its limit, whatever the four bytes are.
\<close>

theorem frame_round_trip:
  "bindR (frame_header len m) (\<lambda>h. frame_body_len h m) =
     (if len \<le> m \<and> len < 4294967296 then Inr len else Inl OffsetOverflow) \<and>
   (frame_body_len head m = Inr n \<longleftrightarrow> n = le_nat head \<and> n \<le> m)"
proof -
  have "unat (word_of_nat len :: u32) = len" if "len < 4294967296"
    using that by (simp add: unat_of_nat take_bit_nat_eq_self)
  then show ?thesis
    by (auto simp: frame_header_def frame_body_len_def Let_def u32_of_usize_def le_nat_le_bytes
        result_simps ensure_def not_less)
qed

end
