(* ===== verification/OC_Layout.thy ===== *)
theory OC_Layout
  imports OC_Tlv
begin

text \<open>
  The container's outer layout, \<^verbatim>\<open>oc-format/src/lib.rs\<close>: the limits, the split of a file into
  magic, header, signature and the rest (\<open>Prologue\<close>), and the arithmetic that maps plaintext
  offsets to chunks and chunks to ciphertext ranges (\<open>Layout\<close>).  All arithmetic of \<open>Layout\<close>
  is on 32- and 64-bit words with the source's checked operations.
\<close>

section \<open>Limits\<close>

definition MAGIC :: bytes where
  "MAGIC = [0x43, 0x4C, 0x4F, 0x53, 0x45, 0x43, 0x52, 0x31]"

definition SIG_LEN :: nat where "SIG_LEN = 64"
definition NONCE_LEN :: u64 where "NONCE_LEN = 24"
definition TAG_LEN :: u64 where "TAG_LEN = 16"
definition MAX_HEADER_LEN :: u32 where "MAX_HEADER_LEN = 1048576"
definition MAX_KEY_SLOTS :: nat where "MAX_KEY_SLOTS = 1024"
definition MIN_CHUNK_SIZE :: u32 where "MIN_CHUNK_SIZE = 4096"
definition MAX_CHUNK_SIZE :: u32 where "MAX_CHUNK_SIZE = 1048576"

definition check_chunk_size :: "u32 \<Rightarrow> FormatError + u32" where
  "check_chunk_size sz =
     (if (MIN_CHUNK_SIZE \<le> sz \<and> sz \<le> MAX_CHUNK_SIZE) \<and> is_power_of_two sz
      then Inr sz else Inl (BadChunkSize sz))"

definition HEADER_LEN_OFFSET :: nat where "HEADER_LEN_OFFSET = 8"
definition HEADER_OFFSET :: nat where "HEADER_OFFSET = 12"

section \<open>Prologue\<close>

record Prologue =
  pro_header :: bytes
  pro_signature :: bytes
  pro_after_signature :: nat
  pro_declared_len :: u32

definition prologue_split :: "bytes \<Rightarrow> FormatError + Prologue" where
  "prologue_split buf =
     (let have_len = length buf in
      bindR (ok_or (Truncated HEADER_OFFSET have_len) (get_range buf 0 HEADER_LEN_OFFSET)) (\<lambda>magic.
      bindR (ensure (magic = MAGIC) BadMagic) (\<lambda>_.
      bindR (ok_or (Truncated HEADER_OFFSET have_len)
               (get_range buf HEADER_LEN_OFFSET HEADER_OFFSET)) (\<lambda>len_bytes.
      let declared_len = of_le len_bytes in
      bindR (ensure (\<not> declared_len > MAX_HEADER_LEN) (HeaderTooLarge declared_len)) (\<lambda>_.
      bindR (ok_or OffsetOverflow (checked_add_usize HEADER_OFFSET (unat declared_len))) (\<lambda>header_end.
      bindR (ok_or OffsetOverflow (checked_add_usize header_end SIG_LEN)) (\<lambda>sig_end.
      bindR (ok_or (Truncated sig_end have_len) (get_range buf HEADER_OFFSET header_end)) (\<lambda>header.
      bindR (ok_or (Truncated sig_end have_len) (get_range buf header_end sig_end)) (\<lambda>signature.
      Inr \<lparr>pro_header = header, pro_signature = signature, pro_after_signature = sig_end,
           pro_declared_len = declared_len\<rparr>)))))))))"

section \<open>Layout\<close>

record Layout =
  lay_chunk_size :: u32
  lay_chunk_count :: u32
  lay_total_len :: u64
  lay_payload_offset :: u64

definition required_chunks :: "u64 \<Rightarrow> u32 \<Rightarrow> FormatError + u32" where
  "required_chunks total_len chunk_size =
     (let size = u64_of_u32 chunk_size;
          full = total_len div size;
          remainder = total_len mod size;
          count = (if remainder = 0 then full else saturating_add full 1);
          count = max count 1
      in ok_or OffsetOverflow (u32_of_u64 count))"

definition layout_new :: "u32 \<Rightarrow> u32 \<Rightarrow> u64 \<Rightarrow> u64 \<Rightarrow> FormatError + Layout" where
  "layout_new chunk_size chunk_count total_len payload_offset =
     bindR (check_chunk_size chunk_size) (\<lambda>chunk_size.
     bindR (ensure (chunk_size \<noteq> 0) (BadChunkSize 0)) (\<lambda>_.
     bindR (required_chunks total_len chunk_size) (\<lambda>expected.
     bindR (ensure (\<not> expected \<noteq> chunk_count) (ChunkCountMismatch expected chunk_count)) (\<lambda>_.
     Inr \<lparr>lay_chunk_size = chunk_size, lay_chunk_count = chunk_count,
          lay_total_len = total_len, lay_payload_offset = payload_offset\<rparr>))))"

definition chunk_of :: "Layout \<Rightarrow> u64 \<Rightarrow> FormatError + u32" where
  "chunk_of l plaintext_offset =
     (let index = plaintext_offset div u64_of_u32 (lay_chunk_size l) in
      bindR (ok_or OffsetOverflow (u32_of_u64 index)) (\<lambda>index.
      bindR (ensure (\<not> index \<ge> lay_chunk_count l) (ChunkOutOfRange index (lay_chunk_count l))) (\<lambda>_.
      Inr index)))"

definition chunks_for :: "Layout \<Rightarrow> u64 \<Rightarrow> u64 \<Rightarrow> FormatError + (u32 \<times> u32) option" where
  "chunks_for l offset len =
     (if len = 0 \<or> offset \<ge> lay_total_len l then Inr None
      else
        bindR (ok_or OffsetOverflow
                 (Option.bind (checked_add offset len) (\<lambda>end. checked_sub end 1))) (\<lambda>last_byte.
        let last_byte = min last_byte (saturating_sub (lay_total_len l) 1) in
        bindR (chunk_of l offset) (\<lambda>first.
        bindR (chunk_of l last_byte) (\<lambda>last.
        bindR (ok_or OffsetOverflow (checked_add last 1)) (\<lambda>end.
        Inr (Some (first, end)))))))"

definition plaintext_len_of :: "Layout \<Rightarrow> u32 \<Rightarrow> FormatError + u64" where
  "plaintext_len_of l index =
     bindR (ensure (\<not> index \<ge> lay_chunk_count l) (ChunkOutOfRange index (lay_chunk_count l))) (\<lambda>_.
     let size = u64_of_u32 (lay_chunk_size l) in
     bindR (ok_or OffsetOverflow (checked_mul (u64_of_u32 index) size)) (\<lambda>start.
     Inr (min (saturating_sub (lay_total_len l) start) size)))"

definition ciphertext_span :: "Layout \<Rightarrow> u32 \<Rightarrow> FormatError + (u64 \<times> u64)" where
  "ciphertext_span l index =
     bindR (plaintext_len_of l index) (\<lambda>plaintext_len.
     bindR (ok_or OffsetOverflow
              (Option.bind (checked_add (u64_of_u32 (lay_chunk_size l)) NONCE_LEN)
                 (\<lambda>v. checked_add v TAG_LEN))) (\<lambda>framed_full.
     bindR (ok_or OffsetOverflow (checked_mul (u64_of_u32 index) framed_full)) (\<lambda>off.
     bindR (ok_or OffsetOverflow (checked_add (lay_payload_offset l) off)) (\<lambda>start.
     bindR (ok_or OffsetOverflow
              (Option.bind (Option.bind (checked_add start NONCE_LEN) (\<lambda>v. checked_add v plaintext_len))
                 (\<lambda>v. checked_add v TAG_LEN))) (\<lambda>end.
     Inr (start, end))))))"

section \<open>The prologue and its parts\<close>

lemmas prologue_consts =
  HEADER_LEN_OFFSET_def HEADER_OFFSET_def SIG_LEN_def MAX_HEADER_LEN_def

lemma length_MAGIC [simp]: "length MAGIC = 8"
  by (simp add: MAGIC_def)

lemma prologue_split_parts:
  assumes "length header \<le> 1048576" and "length signature = 64"
  shows "prologue_split (MAGIC @ le_bytes 4 (length header) @ header @ signature @ rest) =
     Inr \<lparr>pro_header = header, pro_signature = signature,
          pro_after_signature = 76 + length header, pro_declared_len = word_of_nat (length header)\<rparr>"
proof -
  let ?b = "MAGIC @ le_bytes 4 (length header) @ header @ signature @ rest"
  have n: "le_nat (le_bytes 4 (length header)) = length header"
    using assms(1) by (simp add: le_nat_le_bytes)
  have u: "unat (word_of_nat (length header) :: u32) = length header"
    using assms(1) by (simp add: unat_of_nat take_bit_nat_eq_self)
  have r: "get_range ?b 0 8 = Some MAGIC" "get_range ?b 8 12 = Some (le_bytes 4 (length header))"
    "get_range ?b 12 (12 + length header) = Some header"
    "get_range ?b (12 + length header) (76 + length header) = Some signature"
    using assms by (simp_all add: get_range_def)
  show ?thesis
    using assms n u r
    by (simp add: prologue_split_def Let_def prologue_consts checked_add_usize_def of_le_def
        word_less_nat_alt)
qed

lemma prologue_split_Inr:
  assumes "prologue_split buf = Inr p"
  shows "\<exists>rest. buf = MAGIC @ le_bytes 4 (length (pro_header p)) @ pro_header p @ pro_signature p @ rest"
    and "length (pro_header p) \<le> 1048576" and "length (pro_signature p) = 64"
    and "pro_after_signature p = 76 + length (pro_header p)"
proof -
  define n where "n = unat (of_le (slice buf 8 12) :: u32)"
  from assms have b: "8 \<le> length buf" "12 \<le> length buf" "76 + n \<le> length buf" "n \<le> 1048576"
    and mg: "slice buf 0 8 = MAGIC"
    and p: "pro_header p = slice buf 12 (12 + n)" "pro_signature p = slice buf (12 + n) (76 + n)"
      "pro_after_signature p = 76 + n"
    by (auto simp: prologue_split_def Let_def result_simps get_range_eq_Some prologue_consts
        checked_add_usize_def n_def word_less_nat_alt split: if_splits)
  have lens: "length (pro_header p) = n" "length (pro_signature p) = 64"
    using p b by (simp_all add: slice_length)
  then show "length (pro_header p) \<le> 1048576" and "length (pro_signature p) = 64"
    and "pro_after_signature p = 76 + length (pro_header p)"
    using b p by simp_all
  have "le_bytes 4 n = slice buf 8 12"
    using b by (simp add: n_def le_bytes_of_le32 slice_length)
  then have "buf = MAGIC @ le_bytes 4 n @ pro_header p @ pro_signature p @ drop (76 + n) buf"
    using drop_eq_slice_append [of 0 8 buf] drop_eq_slice_append [of 8 12 buf]
      drop_eq_slice_append [of 12 "12 + n" buf] drop_eq_slice_append [of "12 + n" "76 + n" buf]
    by (simp add: mg p)
  with lens show "\<exists>rest. buf = MAGIC @ le_bytes 4 (length (pro_header p)) @ pro_header p @ pro_signature p @ rest"
    by metis
qed

section \<open>Chunk arithmetic\<close>

text \<open>
  What \<open>layout_new\<close> guarantees of every layout it builds: a valid chunk size, and the least
  positive number of chunks that holds the plaintext.
\<close>

definition chunks_fit :: "nat \<Rightarrow> nat \<Rightarrow> nat \<Rightarrow> bool" where
  "chunks_fit t s n \<longleftrightarrow> 1 \<le> n \<and> t \<le> n * s \<and> (n = 1 \<or> (n - 1) * s < t)"

definition layout_ok :: "Layout \<Rightarrow> bool" where
  "layout_ok l \<longleftrightarrow> is_ok (check_chunk_size (lay_chunk_size l)) \<and>
     chunks_fit (unat (lay_total_len l)) (unat (lay_chunk_size l)) (unat (lay_chunk_count l))"

lemma check_chunk_size_bounds:
  assumes "is_ok (check_chunk_size s)"
  shows "4096 \<le> unat s" and "unat s \<le> 1048576"
  using assms
  by (auto simp: check_chunk_size_def MIN_CHUNK_SIZE_def MAX_CHUNK_SIZE_def word_le_nat_alt split: if_splits)

lemma chunks_fit_iff:
  assumes "0 < s"
  shows "chunks_fit t s n \<longleftrightarrow> n = max 1 (if t mod s = 0 then t div s else t div s + 1)"
proof -
  have eq: "t = k * s \<longleftrightarrow> t mod s = 0 \<and> t div s = k" for k
    using assms by (metis div_mult_mod_eq add.right_neutral mod_mult_self2_is_0 nonzero_mult_div_cancel_right
        less_numeral_extra(3))
  have le: "t \<le> k * s \<longleftrightarrow> t div s < k \<or> t mod s = 0 \<and> t div s = k" for k
    using assms eq [of k] by (auto simp: le_less div_less_iff_less_mult)
  have lt: "k * s < t \<longleftrightarrow> \<not> (t div s < k \<or> t mod s = 0 \<and> t div s = k)" for k
    by (simp only: le [symmetric] not_le)
  show ?thesis
    unfolding chunks_fit_def lt le by (auto simp: max_def)
qed

lemma required_chunks_eq_Inr:
  assumes "0 < unat s"
  shows "required_chunks t s = Inr c \<longleftrightarrow> chunks_fit (unat t) (unat s) (unat c)"
proof -
  define q where "q = unat t div unat s"
  have "q + 1 < 2 ^ 64" if "unat t mod unat s \<noteq> 0"
  proof -
    have "1 < unat s" using that assms by (cases "unat s = 1") auto
    then have "q \<le> unat t div 2" by (auto simp: q_def intro: div_le_mono2)
    then show ?thesis using unsigned_less [of t, where 'a = nat] by simp
  qed
  then have u: "unat (if t mod u64_of_u32 s = 0 then t div u64_of_u32 s
      else saturating_add (t div u64_of_u32 s) 1) = (if unat t mod unat s = 0 then q else q + 1)"
    by (cases "unat t mod unat s = 0")
      (simp_all add: word_unat_eq_iff unat_mod unat_div checked_simps q_def)
  have "required_chunks t s = Inr c \<longleftrightarrow>
      unat c = unat (max (if t mod u64_of_u32 s = 0 then t div u64_of_u32 s
        else saturating_add (t div u64_of_u32 s) 1) 1)"
    by (simp add: required_chunks_def Let_def result_simps checked_simps del: if_split)
  also have "\<dots> \<longleftrightarrow> unat c = max 1 (if unat t mod unat s = 0 then q else q + 1)"
    unfolding u [symmetric] by (simp add: max_def word_le_nat_alt del: if_split)
  finally show ?thesis by (simp only: chunks_fit_iff [OF assms] q_def)
qed

lemma layout_new_eq_Inr:
  "layout_new cs cc len po = Inr l \<longleftrightarrow>
     l = \<lparr>lay_chunk_size = cs, lay_chunk_count = cc, lay_total_len = len, lay_payload_offset = po\<rparr> \<and>
     layout_ok l"
proof (cases "is_ok (check_chunk_size cs)")
  case True
  then have c: "check_chunk_size cs = Inr cs" and pos: "0 < unat cs"
    using check_chunk_size_bounds [OF True] by (auto simp: check_chunk_size_def split: if_splits)
  have "layout_new cs cc len po = Inr l \<longleftrightarrow> required_chunks len cs = Inr cc \<and>
      l = \<lparr>lay_chunk_size = cs, lay_chunk_count = cc, lay_total_len = len, lay_payload_offset = po\<rparr>"
    using pos by (auto simp: layout_new_def c bindR_eq_Inr ensure_eq_Inr)
  then show ?thesis
    using True by (auto simp: layout_ok_def required_chunks_eq_Inr [OF pos])
next
  case False
  then obtain e where "check_chunk_size cs = Inl e" by (cases "check_chunk_size cs") auto
  with False show ?thesis by (auto simp: layout_new_def layout_ok_def)
qed

lemma layout_okD:
  assumes "layout_ok l"
  defines "s \<equiv> unat (lay_chunk_size l)" and "n \<equiv> unat (lay_chunk_count l)" and "t \<equiv> unat (lay_total_len l)"
  shows "4096 \<le> s" and "s \<le> 1048576" and "1 \<le> n" and "n < 4294967296" and "t \<le> n * s"
    and "n = 1 \<or> (n - 1) * s < t" and "n * s < 4503599627370497"
proof -
  show "4096 \<le> s" "s \<le> 1048576" "1 \<le> n" "t \<le> n * s" "n = 1 \<or> (n - 1) * s < t"
    using assms check_chunk_size_bounds [of "lay_chunk_size l"] by (simp_all add: layout_ok_def chunks_fit_def)
  show n: "n < 4294967296" using unsigned_less [of "lay_chunk_count l", where 'a = nat] by (simp add: n_def)
  then have "n * s \<le> 4294967295 * 1048576"
    using \<open>s \<le> 1048576\<close> by (intro mult_le_mono) simp_all
  then show "n * s < 4503599627370497" by simp
qed

lemma mult_index_less: "i < (n :: nat) \<Longrightarrow> i * s \<le> n * s - s"
  by (metis Suc_le_eq add_diff_cancel_left' diff_le_mono mult_Suc mult_le_mono1)

lemma plaintext_len_of_ok:
  assumes "layout_ok l" and "i < lay_chunk_count l"
  shows "\<exists>p. plaintext_len_of l i = Inr p \<and>
    unat p = min (unat (lay_total_len l) - unat i * unat (lay_chunk_size l)) (unat (lay_chunk_size l))"
proof -
  note d = layout_okD [OF assms(1)]
  have "unat i * unat (lay_chunk_size l) \<le> unat (lay_chunk_count l) * unat (lay_chunk_size l)"
    using assms(2) by (intro mult_le_mono1) (simp add: word_less_nat_alt)
  then have "unat i * unat (lay_chunk_size l) < 18446744073709551616" using d(7) by linarith
  then obtain st where st: "checked_mul (u64_of_u32 i) (u64_of_u32 (lay_chunk_size l)) = Some st"
      "unat st = unat i * unat (lay_chunk_size l)"
    using checked_mul_u64_ok [of "u64_of_u32 i" "u64_of_u32 (lay_chunk_size l)"] by auto
  from assms(2) show ?thesis
    by (simp add: plaintext_len_of_def Let_def st not_le unat_saturating_sub unat_min)
qed

lemma chunk_of_ok:
  assumes "layout_ok l" and "unat off < unat (lay_total_len l)"
  shows "\<exists>i. chunk_of l off = Inr i \<and> unat i = unat off div unat (lay_chunk_size l) \<and> i < lay_chunk_count l"
proof -
  note d = layout_okD [OF assms(1)]
  define k where "k = unat off div unat (lay_chunk_size l)"
  have "unat off < unat (lay_chunk_count l) * unat (lay_chunk_size l)" using assms(2) d(5) by linarith
  then have k: "k < unat (lay_chunk_count l)" using d(1) by (simp add: k_def div_less_iff_less_mult)
  then have "k < 4294967296" using d(4) by simp
  then obtain i where i: "u32_of_u64 (off div u64_of_u32 (lay_chunk_size l)) = Some i"
    by (simp add: u32_of_u64_def unat_div k_def)
  then have "unat i = k" by (simp add: checked_simps unat_div k_def)
  with i k show ?thesis by (simp add: chunk_of_def Let_def word_less_nat_alt k_def not_le ensure_def)
qed

lemma sum_chunk_lengths: "(\<Sum>i<n. min (t - i * s) s) = min t (n * (s :: nat))"
proof (induction n)
  case (Suc n)
  have "min t (Suc n * s) = min t (n * s) + min (t - n * s) s" by (auto simp: min_def)
  with Suc show ?case by simp
qed simp

lemma div_interval_image:
  assumes "0 < (s :: nat)" and "lo \<le> hi"
  shows "lo div s \<le> i \<and> i \<le> hi div s \<longleftrightarrow> (\<exists>x. lo \<le> x \<and> x \<le> hi \<and> x div s = i)"
proof
  assume i: "lo div s \<le> i \<and> i \<le> hi div s"
  have "i * s \<le> hi" using i assms(1) by (simp add: less_eq_div_iff_mult_less_eq)
  moreover have "lo < (i + 1) * s"
    using i assms(1) div_less_iff_less_mult [of s lo "i + 1"] by linarith
  ultimately show "\<exists>x. lo \<le> x \<and> x \<le> hi \<and> x div s = i"
    using assms by (intro exI [of _ "max lo (i * s)"]) (auto simp: max_def mult.commute [of s] intro!: div_nat_eqI)
next
  assume "\<exists>x. lo \<le> x \<and> x \<le> hi \<and> x div s = i"
  then show "lo div s \<le> i \<and> i \<le> hi div s" by (auto intro: div_le_mono)
qed

lemma unat_index: "i < unat (n :: u32) \<Longrightarrow> unat (word_of_nat i :: u32) = i"
  using unsigned_less [of n, where 'a = nat] by (simp add: unat_of_nat take_bit_nat_eq_self)

lemma chunk_size_4096 [simp]: "check_chunk_size 4096 = Inr 4096"
  by (simp add: check_chunk_size_def MIN_CHUNK_SIZE_def MAX_CHUNK_SIZE_def is_power_of_two_def
      upt_conv_Cons)

section \<open>Properties\<close>

text \<open>
  Splitting a file inverts assembling it: magic, declared length, header and signature are
  returned with the offset where the mutable part begins, whatever follows; and a file that
  splits is exactly such a concatenation, so no byte before that offset is outside the magic,
  the length, the header or the signature.
\<close>

theorem prologue_split_exact:
  "prologue_split buf = Inr p \<longleftrightarrow>
     length (pro_header p) \<le> 1048576 \<and> length (pro_signature p) = 64 \<and>
     pro_after_signature p = 76 + length (pro_header p) \<and>
     pro_declared_len p = word_of_nat (length (pro_header p)) \<and>
     (\<exists>rest. buf = MAGIC @ le_bytes 4 (length (pro_header p)) @ pro_header p @ pro_signature p @ rest)"
proof
  assume s: "prologue_split buf = Inr p"
  note parts = prologue_split_Inr [OF s]
  then obtain rest where
    "buf = MAGIC @ le_bytes 4 (length (pro_header p)) @ pro_header p @ pro_signature p @ rest" by blast
  with s parts prologue_split_parts [OF parts(2,3), of rest]
  have "pro_declared_len p = word_of_nat (length (pro_header p))" by (cases p) simp
  with parts show "length (pro_header p) \<le> 1048576 \<and> length (pro_signature p) = 64 \<and>
     pro_after_signature p = 76 + length (pro_header p) \<and>
     pro_declared_len p = word_of_nat (length (pro_header p)) \<and>
     (\<exists>rest. buf = MAGIC @ le_bytes 4 (length (pro_header p)) @ pro_header p @ pro_signature p @ rest)"
    by simp
next
  assume "length (pro_header p) \<le> 1048576 \<and> length (pro_signature p) = 64 \<and>
     pro_after_signature p = 76 + length (pro_header p) \<and>
     pro_declared_len p = word_of_nat (length (pro_header p)) \<and>
     (\<exists>rest. buf = MAGIC @ le_bytes 4 (length (pro_header p)) @ pro_header p @ pro_signature p @ rest)"
  then show "prologue_split buf = Inr p" by (cases p) (auto simp: prologue_split_parts)
qed

text \<open>
  The chunks of a layout partition the plaintext: every index below the chunk count has a
  length, and the lengths add up to the total length.
\<close>

theorem chunk_lengths_sum:
  assumes "layout_new cs cc len po = Inr l"
  shows "\<exists>p. (\<forall>i < unat cc. plaintext_len_of l (word_of_nat i) = Inr (p i)) \<and>
     (\<Sum>i < unat cc. unat (p i)) = unat len"
proof -
  from assms have ok: "layout_ok l" and f: "lay_chunk_count l = cc" "lay_total_len l = len" "lay_chunk_size l = cs"
    by (auto simp: layout_new_eq_Inr)
  have "\<exists>p. plaintext_len_of l (word_of_nat i) = Inr p \<and> unat p = min (unat len - i * unat cs) (unat cs)"
    if "i < unat cc" for i
    using plaintext_len_of_ok [OF ok, of "word_of_nat i"] that
    by (simp add: f unat_index word_less_nat_alt)
  then obtain p where p: "\<And>i. i < unat cc \<Longrightarrow> plaintext_len_of l (word_of_nat i) = Inr (p i) \<and>
      unat (p i) = min (unat len - i * unat cs) (unat cs)" by metis
  then have "(\<Sum>i < unat cc. unat (p i)) = (\<Sum>i < unat cc. min (unat len - i * unat cs) (unat cs))"
    by simp
  also have "\<dots> = unat len" using layout_okD(5) [OF ok] by (simp add: sum_chunk_lengths f)
  finally show ?thesis using p by blast
qed

theorem chunk_lengths_sum_witness:
  "\<exists>p. (\<forall>i < unat (2 :: u32).
       plaintext_len_of \<lparr>lay_chunk_size = 4096, lay_chunk_count = 2, lay_total_len = 5000,
         lay_payload_offset = 77\<rparr> (word_of_nat i) = Inr (p i)) \<and>
     (\<Sum>i < unat (2 :: u32). unat (p i)) = unat (5000 :: u64)"
proof (rule chunk_lengths_sum)
  show "layout_new 4096 2 5000 77 = Inr \<lparr>lay_chunk_size = 4096, lay_chunk_count = 2,
      lay_total_len = 5000, lay_payload_offset = 77\<rparr>"
    by (simp add: layout_new_eq_Inr layout_ok_def chunks_fit_def chunk_size_4096)
qed

text \<open>
  A read maps to exactly the chunks it touches: a non-empty read that starts inside the
  file and whose end does not overflow 64 bits yields the range of those chunk indices that
  hold a requested byte of the file, and never an error.
\<close>

theorem chunks_for_exact:
  assumes "layout_new cs cc total_len po = Inr l"
    and "0 < unat len" and "unat off < unat total_len" and "unat off + unat len < 18446744073709551616"
  shows "\<exists>a b. chunks_for l off len = Inr (Some (a, b)) \<and>
     (\<forall>i. unat a \<le> i \<and> i < unat b \<longleftrightarrow>
        (\<exists>x. unat off \<le> x \<and> x < unat off + unat len \<and> x < unat total_len \<and> x div unat cs = i))"
proof -
  from assms(1) have ok: "layout_ok l" and f: "lay_total_len l = total_len" "lay_chunk_size l = cs"
    by (auto simp: layout_new_eq_Inr)
  obtain e where e: "checked_add off len = Some e" "unat e = unat off + unat len"
    using assms(4) by (cases "checked_add off len") (auto simp: checked_simps)
  obtain z where z: "checked_sub e 1 = Some z" "unat z = unat off + unat len - 1"
    using e(2) assms(2)
    by (cases "checked_sub e 1") (auto simp: checked_simps checked_sub_def word_le_nat_alt unat_sub)
  define last_byte where "last_byte = min z (saturating_sub total_len 1)"
  have lb: "unat last_byte = min (unat off + unat len) (unat total_len) - 1"
    using z assms(2,3) by (auto simp: last_byte_def unat_min checked_simps)
  obtain a where a: "chunk_of l off = Inr a" "unat a = unat off div unat cs"
    using chunk_of_ok [OF ok, of off] assms(3) by (auto simp: f)
  have "unat last_byte < unat total_len" using lb assms(3) by linarith
  then obtain c where c: "chunk_of l last_byte = Inr c" "unat c = unat last_byte div unat cs" "c < lay_chunk_count l"
    using chunk_of_ok [OF ok, of last_byte] by (auto simp: f)
  obtain b where b: "checked_add c 1 = Some b" "unat b = unat c + 1"
    using c(3) unsigned_less [of "lay_chunk_count l", where 'a = nat]
    by (cases "checked_add c 1") (auto simp: checked_simps word_less_nat_alt)
  have "chunks_for l off len = Inr (Some (a, b))"
    using assms(2,3) e z a c b
    by (auto simp: chunks_for_def f Let_def last_byte_def [symmetric] word_le_nat_alt)
  moreover have "unat a \<le> i \<and> i < unat b \<longleftrightarrow>
      (\<exists>x. unat off \<le> x \<and> x < unat off + unat len \<and> x < unat total_len \<and> x div unat cs = i)" for i
  proof -
    have "unat off \<le> unat last_byte" using lb assms(2,3) by linarith
    then have "unat a \<le> i \<and> i \<le> unat c \<longleftrightarrow>
        (\<exists>x. unat off \<le> x \<and> x \<le> unat last_byte \<and> x div unat cs = i)"
      unfolding a(2) c(2) using layout_okD(1) [OF ok] by (intro div_interval_image) (simp_all add: f)
    moreover have "x \<le> unat last_byte \<longleftrightarrow> x < unat off + unat len \<and> x < unat total_len" for x
      using lb assms(2,3) by linarith
    ultimately show ?thesis by (simp add: b(2) less_Suc_eq_le)
  qed
  ultimately show ?thesis by blast
qed

theorem chunks_for_exact_witness:
  "\<exists>a b. chunks_for \<lparr>lay_chunk_size = 4096, lay_chunk_count = 2, lay_total_len = 5000,
       lay_payload_offset = 77\<rparr> 4090 12 = Inr (Some (a, b)) \<and>
     (\<forall>i. unat a \<le> i \<and> i < unat b \<longleftrightarrow>
        (\<exists>x. unat (4090 :: u64) \<le> x \<and> x < unat (4090 :: u64) + unat (12 :: u64) \<and>
             x < unat (5000 :: u64) \<and> x div unat (4096 :: u32) = i))"
proof (rule chunks_for_exact)
  show "layout_new 4096 2 5000 77 = Inr \<lparr>lay_chunk_size = 4096, lay_chunk_count = 2,
      lay_total_len = 5000, lay_payload_offset = 77\<rparr>"
    by (simp add: layout_new_eq_Inr layout_ok_def chunks_fit_def)
qed simp_all

lemma ciphertext_span_ok:
  assumes ok: "layout_ok l" and i: "i < lay_chunk_count l" and p: "plaintext_len_of l i = Inr p"
    and fits: "unat (lay_payload_offset l) + unat (lay_chunk_count l) * (unat (lay_chunk_size l) + 40)
      < 18446744073709551616"
  shows "\<exists>st en. ciphertext_span l i = Inr (st, en) \<and>
     unat st = unat (lay_payload_offset l) + unat i * (unat (lay_chunk_size l) + 40) \<and>
     unat en = unat st + 40 + unat p"
proof -
  let ?s = "unat (lay_chunk_size l)" and ?n = "unat (lay_chunk_count l)"
  note d = layout_okD [OF ok]
  have lp: "unat p \<le> ?s" using plaintext_len_of_ok [OF ok i] p by auto
  have "unat i + 1 \<le> ?n" using i by (simp add: word_less_nat_alt)
  then have "(unat i + 1) * (?s + 40) \<le> ?n * (?s + 40)" by (rule mult_le_mono1)
  with fits have le: "unat (lay_payload_offset l) + unat i * (?s + 40) + (?s + 40) < 18446744073709551616"
    by simp
  obtain f where f: "Option.bind (checked_add (u64_of_u32 (lay_chunk_size l)) NONCE_LEN)
      (\<lambda>v. checked_add v TAG_LEN) = Some f" "unat f = ?s + 40"
    using d(2) by (auto simp: checked_add_def NONCE_LEN_def TAG_LEN_def unat_word_ariths)
  obtain q where q: "checked_mul (u64_of_u32 i) f = Some q" "unat q = unat i * (?s + 40)"
    using checked_mul_u64_ok [of "u64_of_u32 i" f] le f(2) by auto
  obtain st where st: "checked_add (lay_payload_offset l) q = Some st"
      "unat st = unat (lay_payload_offset l) + unat i * (?s + 40)"
    using checked_add_u64_ok [of "lay_payload_offset l" q] le q(2) by auto
  obtain e1 where e1: "checked_add st NONCE_LEN = Some e1" "unat e1 = unat st + 24"
    using checked_add_u64_ok [of st NONCE_LEN] le st(2) by (auto simp: NONCE_LEN_def)
  obtain e2 where e2: "checked_add e1 p = Some e2" "unat e2 = unat st + 24 + unat p"
    using checked_add_u64_ok [of e1 p] le st(2) e1(2) lp by auto
  obtain en where en: "checked_add e2 TAG_LEN = Some en" "unat en = unat st + 40 + unat p"
    using checked_add_u64_ok [of e2 TAG_LEN] le st(2) e2(2) lp by (auto simp: TAG_LEN_def)
  show ?thesis using p f q st e1 e2 en by (simp add: ciphertext_span_def)
qed

text \<open>
  C36.  The ciphertext ranges tile the payload: while the payload fits 64-bit offsets, every
  chunk has a range of its plaintext length plus 40 bytes of nonce and tag, the first starts at
  the payload offset, and each range ends where the next begins.
\<close>

theorem ciphertext_spans_tile:
  assumes "layout_new cs cc total_len po = Inr l"
    and "unat po + unat cc * (unat cs + 40) < 18446744073709551616"
  shows "\<exists>st en. (\<forall>i < unat cc. ciphertext_span l (word_of_nat i) = Inr (st i, en i)) \<and>
     unat (st 0) = unat po \<and>
     (\<forall>i. Suc i < unat cc \<longrightarrow> en i = st (Suc i)) \<and>
     (\<forall>i < unat cc. \<exists>p. plaintext_len_of l (word_of_nat i) = Inr p \<and>
        unat (en i) = unat (st i) + 40 + unat p)"
proof -
  from assms(1) have ok: "layout_ok l"
    and f: "lay_chunk_count l = cc" "lay_total_len l = total_len" "lay_chunk_size l = cs" "lay_payload_offset l = po"
    by (auto simp: layout_new_eq_Inr)
  note d = layout_okD [OF ok, unfolded f]
  have "\<exists>s e p. ciphertext_span l (word_of_nat i) = Inr (s, e) \<and> plaintext_len_of l (word_of_nat i) = Inr p \<and>
      unat s = unat po + i * (unat cs + 40) \<and> unat e = unat s + 40 + unat p \<and>
      unat p = min (unat total_len - i * unat cs) (unat cs)" if "i < unat cc" for i
  proof -
    have i: "(word_of_nat i :: u32) < cc" "unat (word_of_nat i :: u32) = i"
      using that by (simp_all add: unat_index word_less_nat_alt)
    then obtain p where p: "plaintext_len_of l (word_of_nat i) = Inr p"
        "unat p = min (unat total_len - i * unat cs) (unat cs)"
      using plaintext_len_of_ok [OF ok, of "word_of_nat i"] by (auto simp: f)
    with ciphertext_span_ok [OF ok _ p(1)] i assms(2) show ?thesis by (auto simp: f)
  qed
  then obtain st en p where *: "\<And>i. i < unat cc \<Longrightarrow>
      ciphertext_span l (word_of_nat i) = Inr (st i, en i) \<and> plaintext_len_of l (word_of_nat i) = Inr (p i) \<and>
      unat (st i) = unat po + i * (unat cs + 40) \<and> unat (en i) = unat (st i) + 40 + unat (p i) \<and>
      unat (p i) = min (unat total_len - i * unat cs) (unat cs)" by metis
  have "en i = st (Suc i)" if "Suc i < unat cc" for i
  proof -
    have "(i + 1) * unat cs \<le> (unat cc - 1) * unat cs" using that by (intro mult_le_mono1) simp
    with d(6) that have "unat (p i) = unat cs" using * [of i] by simp
    with * [of i] * [of "Suc i"] that show ?thesis by (simp add: word_unat_eq_iff)
  qed
  moreover have "unat (st 0) = unat po" using * [of 0] d(3) by simp
  ultimately show ?thesis using * by (intro exI [of _ st] exI [of _ en]) blast
qed

theorem ciphertext_spans_tile_witness:
  "\<exists>st en. (\<forall>i < unat (2 :: u32). ciphertext_span \<lparr>lay_chunk_size = 4096, lay_chunk_count = 2,
        lay_total_len = 5000, lay_payload_offset = 77\<rparr> (word_of_nat i) = Inr (st i, en i)) \<and>
     unat (st 0) = unat (77 :: u64) \<and>
     (\<forall>i. Suc i < unat (2 :: u32) \<longrightarrow> en i = st (Suc i)) \<and>
     (\<forall>i < unat (2 :: u32). \<exists>p. plaintext_len_of \<lparr>lay_chunk_size = 4096, lay_chunk_count = 2,
        lay_total_len = 5000, lay_payload_offset = 77\<rparr> (word_of_nat i) = Inr p \<and>
        unat (en i) = unat (st i) + 40 + unat p)"
proof (rule ciphertext_spans_tile)
  show "layout_new 4096 2 5000 77 = Inr \<lparr>lay_chunk_size = 4096, lay_chunk_count = 2,
      lay_total_len = 5000, lay_payload_offset = 77\<rparr>"
    by (simp add: layout_new_eq_Inr layout_ok_def chunks_fit_def)
qed simp

end
