(* ===== verification/OC_Policy_Codec.thy ===== *)
theory OC_Policy_Codec
  imports OC_Policy OC_Tlv
begin

text \<open>
  The policy codec, \<^verbatim>\<open>oc-format/src/policy_codec.rs\<close>: the byte range of a header (and of a
  lease) that carries a policy.  The decoder starts from a policy that allows nothing, demands
  a watermark and permits one open, and only explicit fields relax it.  The \<^verbatim>\<open>BTreeMap\<close> of
  action entries that the encoder fills is the list of its entries in ascending tag order.
\<close>

section \<open>Codes\<close>

abbreviation (input) PTAG_ACTIONS :: u16 where "PTAG_ACTIONS \<equiv> 1"
abbreviation (input) PTAG_VALIDITY :: u16 where "PTAG_VALIDITY \<equiv> 2"
abbreviation (input) PTAG_NETWORK :: u16 where "PTAG_NETWORK \<equiv> 3"
abbreviation (input) PTAG_MIN_BINDING :: u16 where "PTAG_MIN_BINDING \<equiv> 4"
abbreviation (input) PTAG_MAX_OPENS :: u16 where "PTAG_MAX_OPENS \<equiv> 5"
abbreviation (input) PTAG_WATERMARK :: u16 where "PTAG_WATERMARK \<equiv> 6"
abbreviation (input) PTAG_ACTION_BINDING :: u16 where "PTAG_ACTION_BINDING \<equiv> 7"

abbreviation (input) RULE_ALLOW :: byte where "RULE_ALLOW \<equiv> 1"
abbreviation (input) RULE_DENY :: byte where "RULE_DENY \<equiv> 0"
abbreviation (input) VALIDITY_ALWAYS :: byte where "VALIDITY_ALWAYS \<equiv> 1"
abbreviation (input) VALIDITY_WINDOW :: byte where "VALIDITY_WINDOW \<equiv> 2"
abbreviation (input) VALIDITY_FROM_FIRST_OPEN :: byte where "VALIDITY_FROM_FIRST_OPEN \<equiv> 3"
abbreviation (input) NETWORK_STRICT_ONLINE :: byte where "NETWORK_STRICT_ONLINE \<equiv> 1"
abbreviation (input) NETWORK_LEASE :: byte where "NETWORK_LEASE \<equiv> 2"
abbreviation (input) BINDING_SOFTWARE :: byte where "BINDING_SOFTWARE \<equiv> 1"
abbreviation (input) BINDING_HARDWARE :: byte where "BINDING_HARDWARE \<equiv> 2"
abbreviation (input) BINDING_HARDWARE_ATTESTED :: byte where "BINDING_HARDWARE_ATTESTED \<equiv> 3"

definition OPENS_WHEN_THE_FIELD_IS_ABSENT :: u32 where "OPENS_WHEN_THE_FIELD_IS_ABSENT = 1"
definition FIRST_ACTION_BINDING_VERSION :: u16 where "FIRST_ACTION_BINDING_VERSION = 4"

definition ALL_ACTIONS :: "Action list" where
  "ALL_ACTIONS = [View, Edit, Print, Clipboard, Export, Screenshot]"

primrec action_to_tag :: "Action \<Rightarrow> u16" where
  "action_to_tag View = 1"
| "action_to_tag Edit = 2"
| "action_to_tag Print = 3"
| "action_to_tag Clipboard = 4"
| "action_to_tag Export = 5"
| "action_to_tag Screenshot = 6"

definition tag_to_action :: "u16 \<Rightarrow> Action option" where
  "tag_to_action tag =
     (if tag = 1 then Some View
      else if tag = 2 then Some Edit
      else if tag = 3 then Some Print
      else if tag = 4 then Some Clipboard
      else if tag = 5 then Some Export
      else if tag = 6 then Some Screenshot
      else None)"

section \<open>Encoding\<close>

fun encode_validity :: "Validity \<Rightarrow> bytes" where
  "encode_validity Always = [VALIDITY_ALWAYS]"
| "encode_validity (Window not_before not_after) = VALIDITY_WINDOW # le64 not_before @ le64 not_after"
| "encode_validity (FromFirstOpen seconds) = VALIDITY_FROM_FIRST_OPEN # le64 seconds"

fun encode_network :: "Network \<Rightarrow> bytes" where
  "encode_network StrictOnline = [NETWORK_STRICT_ONLINE]"
| "encode_network (Lease seconds max_offline_seconds) =
     NETWORK_LEASE # le64 seconds @ le64 max_offline_seconds"

primrec encode_binding :: "Binding \<Rightarrow> byte" where
  "encode_binding Software = BINDING_SOFTWARE"
| "encode_binding Hardware = BINDING_HARDWARE"
| "encode_binding HardwareAttested = BINDING_HARDWARE_ATTESTED"

text \<open>
  Unknown tags are inserted with Deny first, the six known actions after them, so a known tag
  always carries its own rule.
\<close>

definition actions_by_tag :: "Policy \<Rightarrow> (u16 \<times> byte) list" where
  "actions_by_tag policy =
     map (\<lambda>t. (t, case tag_to_action t of
                    Some action \<Rightarrow> (if rule policy action = RuleAllow then RULE_ALLOW else RULE_DENY)
                  | None \<Rightarrow> RULE_DENY))
       (sorted_list_of_set (pol_unknown_actions policy \<union> set (map action_to_tag ALL_ACTIONS)))"

definition encode_max_opens :: "u32 option \<Rightarrow> bytes" where
  "encode_max_opens m = (case m of Some n \<Rightarrow> le32 n | None \<Rightarrow> [])"

definition encode_action_binding :: "Policy \<Rightarrow> FormatError + TlvWriter" where
  "encode_action_binding policy =
     put_all
       (map (\<lambda>action. (action_to_tag action,
          [encode_binding (case pol_action_binding policy action of None \<Rightarrow> Software | Some b \<Rightarrow> b)]))
          ALL_ACTIONS)
       writer_new"

definition policy_encode :: "u16 \<Rightarrow> Policy \<Rightarrow> FormatError + bytes" where
  "policy_encode version policy =
     bindR (put_all (map (\<lambda>(t, r). (t, [r])) (actions_by_tag policy)) writer_new) (\<lambda>actions.
     bindR (put_all
       [(PTAG_ACTIONS, finish actions),
        (PTAG_VALIDITY, encode_validity (pol_validity policy)),
        (PTAG_NETWORK, encode_network (pol_network policy)),
        (PTAG_MIN_BINDING, [encode_binding (pol_min_binding policy)]),
        (PTAG_MAX_OPENS, encode_max_opens (pol_max_opens policy)),
        (PTAG_WATERMARK, [if pol_watermark policy then 1 else 0])] writer_new) (\<lambda>w.
     bindR
       (if version \<ge> FIRST_ACTION_BINDING_VERSION
        then bindR (encode_action_binding policy) (\<lambda>bindings.
               put PTAG_ACTION_BINDING (finish bindings) w)
        else Inr w) (\<lambda>w.
     Inr (finish w))))"

section \<open>Decoding\<close>

definition split_kind :: "u16 \<Rightarrow> bytes \<Rightarrow> FormatError + (byte \<times> bytes)" where
  "split_kind tag bs =
     (case bs of kind # rest \<Rightarrow> Inr (kind, rest) | [] \<Rightarrow> Inl (BadFieldLength tag 0))"

definition one_i64 :: "u16 \<Rightarrow> bytes \<Rightarrow> FormatError + i64" where
  "one_i64 tag bs = (if length bs = 8 then Inr (of_le bs) else Inl (BadFieldLength tag (length bs)))"

definition two_i64 :: "u16 \<Rightarrow> bytes \<Rightarrow> FormatError + (i64 \<times> i64)" where
  "two_i64 tag bs =
     (if length bs = 16 then Inr (of_le (take 8 bs), of_le (drop 8 bs))
      else Inl (BadFieldLength tag (length bs)))"

definition decode_binding :: "u16 \<Rightarrow> byte \<Rightarrow> FormatError + Binding" where
  "decode_binding tag v =
     (if v = BINDING_SOFTWARE then Inr Software
      else if v = BINDING_HARDWARE then Inr Hardware
      else if v = BINDING_HARDWARE_ATTESTED then Inr HardwareAttested
      else Inl (BadFieldLength tag 1))"

definition decode_max_opens :: "u16 \<Rightarrow> bytes \<Rightarrow> FormatError + u32 option" where
  "decode_max_opens tag bs =
     (if bs = [] then Inr None
      else if length bs = 4 then Inr (Some (of_le bs))
      else Inl (BadFieldLength tag (length bs)))"

definition decode_validity :: "u16 \<Rightarrow> bytes \<Rightarrow> FormatError + Validity" where
  "decode_validity tag bs =
     bindR (split_kind tag bs) (\<lambda>(kind, rest).
       if kind = VALIDITY_ALWAYS \<and> rest = [] then Inr Always
       else if kind = VALIDITY_WINDOW then
         bindR (two_i64 tag rest) (\<lambda>(before, after). Inr (Window before after))
       else if kind = VALIDITY_FROM_FIRST_OPEN then
         bindR (one_i64 tag rest) (\<lambda>seconds. Inr (FromFirstOpen seconds))
       else Inl (BadFieldLength tag (length bs)))"

definition decode_network :: "u16 \<Rightarrow> bytes \<Rightarrow> FormatError + Network" where
  "decode_network tag bs =
     bindR (split_kind tag bs) (\<lambda>(kind, rest).
       if kind = NETWORK_STRICT_ONLINE \<and> rest = [] then Inr StrictOnline
       else if kind = NETWORK_LEASE then
         bindR (two_i64 tag rest) (\<lambda>(seconds, max_offline_seconds).
           Inr (Lease seconds max_offline_seconds))
       else Inl (BadFieldLength tag (length bs)))"

definition actions_body :: "Field \<Rightarrow> Policy \<Rightarrow> FormatError + Policy" where
  "actions_body field policy =
     bindR (field_u8 field) (\<lambda>rule_byte.
     case tag_to_action (fld_tag field) of
       Some action \<Rightarrow>
         Inr (if rule_byte = RULE_ALLOW
              then policy\<lparr>pol_actions := (pol_actions policy)(action \<mapsto> RuleAllow)\<rparr> else policy)
     | None \<Rightarrow>
         Inr (policy\<lparr>pol_unknown_actions := insert (fld_tag field) (pol_unknown_actions policy)\<rparr>))"

definition decode_actions :: "bytes \<Rightarrow> Policy \<Rightarrow> FormatError + Policy" where
  "decode_actions bs policy = tlv_loop actions_body (reader_new bs) policy"

definition action_binding_body :: "Field \<Rightarrow> Policy \<Rightarrow> FormatError + Policy" where
  "action_binding_body field policy =
     bindR (field_u8 field) (\<lambda>v.
     bindR (decode_binding (fld_tag field) v) (\<lambda>binding.
     if binding = Software then Inr policy
     else case tag_to_action (fld_tag field) of
         Some action \<Rightarrow>
           Inr (policy\<lparr>pol_action_binding := (pol_action_binding policy)(action \<mapsto> binding)\<rparr>)
       | None \<Rightarrow> Inr policy))"

definition decode_action_binding :: "bytes \<Rightarrow> Policy \<Rightarrow> FormatError + Policy" where
  "decode_action_binding bs policy = tlv_loop action_binding_body (reader_new bs) policy"

record PolicyDecoder =
  pd_policy :: Policy
  pd_seen_actions :: bool
  pd_seen_validity :: bool
  pd_seen_network :: bool
  pd_seen_binding :: bool
  pd_seen_action_binding :: bool

definition policy_decode_start :: PolicyDecoder where
  "policy_decode_start =
     \<lparr>pd_policy = deny_all\<lparr>pol_watermark := True, pol_max_opens := Some OPENS_WHEN_THE_FIELD_IS_ABSENT\<rparr>,
      pd_seen_actions = False, pd_seen_validity = False, pd_seen_network = False,
      pd_seen_binding = False, pd_seen_action_binding = False\<rparr>"

definition policy_body :: "u16 \<Rightarrow> Field \<Rightarrow> PolicyDecoder \<Rightarrow> FormatError + PolicyDecoder" where
  "policy_body version field d =
     (let tag = fld_tag field; policy = pd_policy d in
      if tag = PTAG_ACTIONS then
        bindR (decode_actions (fld_value field) policy) (\<lambda>p.
        Inr (d\<lparr>pd_policy := p, pd_seen_actions := True\<rparr>))
      else if tag = PTAG_VALIDITY then
        bindR (decode_validity tag (fld_value field)) (\<lambda>v.
        Inr (d\<lparr>pd_policy := policy\<lparr>pol_validity := v\<rparr>, pd_seen_validity := True\<rparr>))
      else if tag = PTAG_NETWORK then
        bindR (decode_network tag (fld_value field)) (\<lambda>v.
        Inr (d\<lparr>pd_policy := policy\<lparr>pol_network := v\<rparr>, pd_seen_network := True\<rparr>))
      else if tag = PTAG_MIN_BINDING then
        bindR (field_u8 field) (\<lambda>b.
        bindR (decode_binding tag b) (\<lambda>v.
        Inr (d\<lparr>pd_policy := policy\<lparr>pol_min_binding := v\<rparr>, pd_seen_binding := True\<rparr>)))
      else if tag = PTAG_MAX_OPENS then
        bindR (decode_max_opens tag (fld_value field)) (\<lambda>v.
        Inr (d\<lparr>pd_policy := policy\<lparr>pol_max_opens := v\<rparr>\<rparr>))
      else if tag = PTAG_WATERMARK then
        bindR (field_u8 field) (\<lambda>b.
        Inr (d\<lparr>pd_policy := policy\<lparr>pol_watermark := (b \<noteq> 0)\<rparr>\<rparr>))
      else if tag = PTAG_ACTION_BINDING \<and> version \<ge> FIRST_ACTION_BINDING_VERSION then
        bindR (decode_action_binding (fld_value field) policy) (\<lambda>p.
        Inr (d\<lparr>pd_policy := p, pd_seen_action_binding := True\<rparr>))
      else Inl (UnknownCriticalField tag))"

definition policy_decode :: "u16 \<Rightarrow> bytes \<Rightarrow> FormatError + Policy" where
  "policy_decode version bs =
     bindR (tlv_loop (policy_body version) (reader_new bs) policy_decode_start) (\<lambda>d.
     bindR (ensure (pd_seen_actions d) (MissingField PTAG_ACTIONS)) (\<lambda>_.
     bindR (ensure (pd_seen_validity d) (MissingField PTAG_VALIDITY)) (\<lambda>_.
     bindR (ensure (pd_seen_network d) (MissingField PTAG_NETWORK)) (\<lambda>_.
     bindR (ensure (pd_seen_binding d) (MissingField PTAG_MIN_BINDING)) (\<lambda>_.
     bindR (ensure (\<not> (version \<ge> FIRST_ACTION_BINDING_VERSION \<and> \<not> pd_seen_action_binding d))
              (MissingField PTAG_ACTION_BINDING)) (\<lambda>_.
     Inr (pd_policy d)))))))"

section \<open>Round trip\<close>

text \<open>
  What survives encoding: the rule of every action (an explicit Deny and no entry are the same
  rule), the bindings above Software, the unknown tags that are none of the six known ones.
\<close>

definition canonical_policy :: "u16 \<Rightarrow> Policy \<Rightarrow> Policy" where
  "canonical_policy version p =
     p\<lparr>pol_actions := (\<lambda>a. if rule p a = RuleAllow then Some RuleAllow else None),
       pol_action_binding :=
         (\<lambda>a. if FIRST_ACTION_BINDING_VERSION \<le> version \<and> pol_action_binding p a \<noteq> Some Software
              then pol_action_binding p a else None),
       pol_unknown_actions := {t \<in> pol_unknown_actions p. tag_to_action t = None}\<rparr>"

definition policy_wf :: "u16 \<Rightarrow> Policy \<Rightarrow> bool" where
  "policy_wf version p \<longleftrightarrow>
     normal_policy p \<and> (\<forall>t \<in> pol_unknown_actions p. tag_to_action t = None) \<and>
     (\<forall>a. pol_action_binding p a \<noteq> Some Software) \<and>
     (version < FIRST_ACTION_BINDING_VERSION \<longrightarrow> pol_action_binding p = Map.empty)"

lemma canonical_policy_fields [simp]:
  "pol_validity (canonical_policy v p) = pol_validity p" "pol_network (canonical_policy v p) = pol_network p"
  "pol_max_opens (canonical_policy v p) = pol_max_opens p" "pol_watermark (canonical_policy v p) = pol_watermark p"
  "pol_min_binding (canonical_policy v p) = pol_min_binding p"
  by (simp_all add: canonical_policy_def)

lemma canonical_policy_wf: "policy_wf v p \<Longrightarrow> canonical_policy v p = p"
  by (cases p)
    (auto simp: canonical_policy_def policy_wf_def normal_policy_def rule_def fun_eq_iff not_le
      split: option.splits)

lemma tag_to_action_eq_Some: "tag_to_action t = Some a \<longleftrightarrow> t = action_to_tag a"
  by (cases a) (auto simp: tag_to_action_def)

lemma action_to_tag_eq [simp]: "action_to_tag a = action_to_tag b \<longleftrightarrow> a = b"
  by (cases a; cases b) simp_all

lemma tag_to_action_inverse [simp]: "tag_to_action (action_to_tag a) = Some a"
  by (simp add: tag_to_action_eq_Some)

lemma set_ALL_ACTIONS [simp]: "a \<in> set ALL_ACTIONS"
  by (cases a) (simp_all add: ALL_ACTIONS_def)

subsection \<open>Single values\<close>

lemma decode_encode_validity [simp]: "decode_validity t (encode_validity v) = Inr v"
  by (cases v) (simp_all add: decode_validity_def split_kind_def one_i64_def two_i64_def)

lemma decode_encode_network [simp]: "decode_network t (encode_network n) = Inr n"
  by (cases n) (simp_all add: decode_network_def split_kind_def two_i64_def)

lemma decode_encode_binding [simp]: "decode_binding t (encode_binding b) = Inr b"
  by (cases b) (simp_all add: decode_binding_def)

lemma decode_encode_max_opens [simp]: "decode_max_opens t (encode_max_opens m) = Inr m"
  by (cases m) (simp_all add: decode_max_opens_def encode_max_opens_def flip: length_0_conv)

lemma length_encoded_parts:
  "length (encode_validity v) \<le> 17" "length (encode_network n) \<le> 17" "length (encode_max_opens m) \<le> 4"
proof -
  show "length (encode_validity v) \<le> 17" by (cases v) simp_all
  show "length (encode_network n) \<le> 17" by (cases n) simp_all
  show "length (encode_max_opens m) \<le> 4" by (cases m) (simp_all add: encode_max_opens_def)
qed

subsection \<open>The nested streams\<close>

lemma actions_body_field:
  "fld_value f = [b] \<Longrightarrow> actions_body f p =
     Inr (case tag_to_action (fld_tag f) of
            Some a \<Rightarrow> (if b = RULE_ALLOW then p\<lparr>pol_actions := (pol_actions p)(a \<mapsto> RuleAllow)\<rparr> else p)
          | None \<Rightarrow> p\<lparr>pol_unknown_actions := insert (fld_tag f) (pol_unknown_actions p)\<rparr>)"
  by (simp add: actions_body_def field_u8_def split: option.split)

lemma action_binding_body_field:
  "fld_value f = [encode_binding b] \<Longrightarrow> fld_tag f = action_to_tag a \<Longrightarrow> action_binding_body f p =
     Inr (if b = Software then p else p\<lparr>pol_action_binding := (pol_action_binding p)(a \<mapsto> b)\<rparr>)"
  by (simp add: action_binding_body_def field_u8_def)

lemma actions_body_fold:
  "foldR actions_body (fields_at n (map (\<lambda>t. (t, [r t])) ts)) p =
     Inr (p\<lparr>pol_actions := (\<lambda>a. if action_to_tag a \<in> set ts \<and> r (action_to_tag a) = RULE_ALLOW
                               then Some RuleAllow else pol_actions p a),
            pol_unknown_actions := pol_unknown_actions p \<union> {t \<in> set ts. tag_to_action t = None}\<rparr>)"
proof (induction ts arbitrary: n p)
  case Nil
  then show ?case by simp
next
  case (Cons t ts)
  show ?case
  proof (cases "tag_to_action t")
    case None
    then have "action_to_tag a \<noteq> t" for a using tag_to_action_eq_Some [of t a] by auto
    then show ?thesis
      using None by (auto simp: actions_body_field Cons.IH fun_eq_iff intro!: Policy.equality)
  next
    case (Some a)
    then have "t = action_to_tag a" by (simp add: tag_to_action_eq_Some)
    then show ?thesis
      by (auto simp: actions_body_field Cons.IH fun_eq_iff intro!: Policy.equality)
  qed
qed

lemma action_binding_body_fold:
  "foldR action_binding_body
     (fields_at n (map (\<lambda>a. (action_to_tag a, [encode_binding (g a)])) as)) p =
     Inr (p\<lparr>pol_action_binding :=
            (\<lambda>a. if a \<in> set as \<and> g a \<noteq> Software then Some (g a) else pol_action_binding p a)\<rparr>)"
  by (induction as arbitrary: n p)
    (auto simp: action_binding_body_field fun_eq_iff intro!: Policy.equality)

subsection \<open>The whole policy\<close>

definition action_fields :: "Policy \<Rightarrow> (u16 \<times> bytes) list" where
  "action_fields p = map (\<lambda>(t, r). (t, [r])) (actions_by_tag p)"

definition binding_fields :: "Policy \<Rightarrow> (u16 \<times> bytes) list" where
  "binding_fields p =
     map (\<lambda>a. (action_to_tag a,
        [encode_binding (case pol_action_binding p a of None \<Rightarrow> Software | Some b \<Rightarrow> b)])) ALL_ACTIONS"

definition policy_fields :: "u16 \<Rightarrow> Policy \<Rightarrow> (u16 \<times> bytes) list" where
  "policy_fields version p =
     [(PTAG_ACTIONS, enc_fields (action_fields p)),
      (PTAG_VALIDITY, encode_validity (pol_validity p)),
      (PTAG_NETWORK, encode_network (pol_network p)),
      (PTAG_MIN_BINDING, [encode_binding (pol_min_binding p)]),
      (PTAG_MAX_OPENS, encode_max_opens (pol_max_opens p)),
      (PTAG_WATERMARK, [if pol_watermark p then 1 else 0])] @
     (if version \<ge> FIRST_ACTION_BINDING_VERSION
      then [(PTAG_ACTION_BINDING, enc_fields (binding_fields p))] else [])"

lemma card_u16: "card (S :: u16 set) \<le> 65536"
  using card_mono [of "UNIV :: u16 set" S] by (simp add: card_word)

lemma action_fields_ok:
  "ascending None (action_fields p)" "length (enc_fields (action_fields p)) \<le> 458752"
proof -
  define ts where "ts = sorted_list_of_set (pol_unknown_actions p \<union> set (map action_to_tag ALL_ACTIONS))"
  define g where "g t = (case tag_to_action t of
      Some action \<Rightarrow> (if rule p action = RuleAllow then RULE_ALLOW else RULE_DENY) | None \<Rightarrow> RULE_DENY)" for t
  have f: "action_fields p = map (\<lambda>t. (t, [g t])) ts"
    by (simp add: action_fields_def actions_by_tag_def ts_def g_def [abs_def])
  have "sorted_wrt (<) ts" by (simp add: ts_def strict_sorted_list_of_set)
  then show "ascending None (action_fields p)"
    unfolding f by (intro ascending_sorted) simp_all
  have "length ts \<le> 65536" unfolding ts_def length_sorted_list_of_set by (rule card_u16)
  then show "length (enc_fields (action_fields p)) \<le> 458752"
    by (simp add: f length_enc_fields_bytes)
qed

lemma binding_fields_ok:
  "ascending None (binding_fields p)" "length (enc_fields (binding_fields p)) = 42"
  by (simp_all add: binding_fields_def ALL_ACTIONS_def length_enc_fields_bytes)

lemma policy_fields_ok:
  "ascending None (policy_fields v p)" "length (enc_fields (policy_fields v p)) < 4294967296"
  using action_fields_ok(2) [of p] binding_fields_ok(2) [of p] length_encoded_parts(1) [of "pol_validity p"]
    length_encoded_parts(2) [of "pol_network p"] length_encoded_parts(3) [of "pol_max_opens p"]
  by (simp_all add: policy_fields_def)

lemma policy_encode_eq: "policy_encode v p = Inr (enc_fields (policy_fields v p))"
proof -
  obtain aw where a: "put_all (action_fields p) writer_new = Inr aw" "finish aw = enc_fields (action_fields p)"
    using put_all_new action_fields_ok [of p] by fastforce
  obtain bw where b: "put_all (binding_fields p) writer_new = Inr bw" "finish bw = enc_fields (binding_fields p)"
    using put_all_new binding_fields_ok [of p] by fastforce
  obtain w where w: "put_all (policy_fields v p) writer_new = Inr w" "finish w = enc_fields (policy_fields v p)"
    using put_all_new policy_fields_ok [of v p] by fastforce
  have "policy_encode v p = bindR (put_all (policy_fields v p) writer_new) (\<lambda>w. Inr (finish w))"
    by (simp add: policy_encode_def policy_fields_def action_fields_def [symmetric]
        encode_action_binding_def binding_fields_def [symmetric] a b bindR_assoc put_all_append put_all_one
        del: put_all_simps(2) append_Cons split: if_split)
  with w show ?thesis by simp
qed

lemma decode_actions_fields:
  "decode_actions (enc_fields (action_fields p)) q =
     Inr (q\<lparr>pol_actions := (\<lambda>a. if rule p a = RuleAllow then Some RuleAllow else pol_actions q a),
            pol_unknown_actions :=
              pol_unknown_actions q \<union> {t \<in> pol_unknown_actions p. tag_to_action t = None}\<rparr>)"
proof -
  define ts where "ts = sorted_list_of_set (pol_unknown_actions p \<union> set (map action_to_tag ALL_ACTIONS))"
  define g where "g t = (case tag_to_action t of
      Some action \<Rightarrow> (if rule p action = RuleAllow then RULE_ALLOW else RULE_DENY) | None \<Rightarrow> RULE_DENY)" for t
  have f: "action_fields p = map (\<lambda>t. (t, [g t])) ts"
    by (simp add: action_fields_def actions_by_tag_def ts_def g_def [abs_def])
  have ts: "set ts = pol_unknown_actions p \<union> range action_to_tag"
    by (auto simp: ts_def)
  have "decode_actions (enc_fields (action_fields p)) q = foldR actions_body (fields_at 0 (action_fields p)) q"
    using action_fields_ok [of p] by (simp add: decode_actions_def tlv_loop_enc)
  also have "\<dots> = Inr (q\<lparr>pol_actions := (\<lambda>a. if rule p a = RuleAllow then Some RuleAllow else pol_actions q a),
            pol_unknown_actions :=
              pol_unknown_actions q \<union> {t \<in> pol_unknown_actions p. tag_to_action t = None}\<rparr>)"
    unfolding f actions_body_fold ts by (auto simp: g_def fun_eq_iff intro!: Policy.equality)
  finally show ?thesis .
qed

lemma decode_action_binding_fields:
  "decode_action_binding (enc_fields (binding_fields p)) q =
     Inr (q\<lparr>pol_action_binding :=
       (\<lambda>a. if pol_action_binding p a = None \<or> pol_action_binding p a = Some Software
            then pol_action_binding q a else pol_action_binding p a)\<rparr>)"
proof -
  have "decode_action_binding (enc_fields (binding_fields p)) q =
      foldR action_binding_body (fields_at 0 (binding_fields p)) q"
    using binding_fields_ok [of p] by (simp add: decode_action_binding_def tlv_loop_enc)
  then show ?thesis
    unfolding binding_fields_def action_binding_body_fold
    by (auto simp: fun_eq_iff split: option.splits intro!: Policy.equality)
qed

lemma policy_decode_encode:
  "policy_decode v (enc_fields (policy_fields v p)) = Inr (canonical_policy v p)"
proof -
  have "tlv_loop (policy_body v) (reader_new (enc_fields (policy_fields v p))) policy_decode_start =
      foldR (policy_body v) (fields_at 0 (policy_fields v p)) policy_decode_start"
    using policy_fields_ok [of v p] by (intro tlv_loop_enc) simp_all
  also have "\<dots> = Inr \<lparr>pd_policy = canonical_policy v p, pd_seen_actions = True, pd_seen_validity = True,
      pd_seen_network = True, pd_seen_binding = True,
      pd_seen_action_binding = (v \<ge> FIRST_ACTION_BINDING_VERSION)\<rparr>"
    by (auto simp: policy_fields_def policy_body_def Let_def decode_actions_fields decode_action_binding_fields
        field_u8_def policy_decode_start_def deny_all_def canonical_policy_def fun_eq_iff
        intro!: Policy.equality)
  finally show ?thesis
    by (simp add: policy_decode_def)
qed

lemma policy_decode_encodeD: "policy_encode v p = Inr bs \<Longrightarrow> policy_decode v bs = Inr (canonical_policy v p)"
  by (simp add: policy_encode_eq flip: policy_decode_encode)

interpretation policy_codec: total_codec "policy_encode v" "policy_decode v" "policy_wf v" for v
  by unfold_locales (simp_all add: policy_decode_encodeD canonical_policy_wf policy_encode_eq)

section \<open>What a decoded policy rests on\<close>

abbreviation (input) same_settings :: "Policy \<Rightarrow> Policy \<Rightarrow> bool" where
  "same_settings p q \<equiv>
     pol_max_opens q = pol_max_opens p \<and> pol_watermark q = pol_watermark p"

abbreviation (input) same_rules :: "Policy \<Rightarrow> Policy \<Rightarrow> bool" where
  "same_rules p q \<equiv>
     pol_actions q = pol_actions p \<and> pol_unknown_actions q = pol_unknown_actions p"

lemma actions_fold_Inr:
  assumes "foldR actions_body (fields_at n es) p = Inr q"
  shows "pol_actions q = (\<lambda>a. if (action_to_tag a, [RULE_ALLOW]) \<in> set es then Some RuleAllow else pol_actions p a) \<and>
     pol_unknown_actions q = pol_unknown_actions p \<union> {t \<in> fst ` set es. tag_to_action t = None} \<and>
     same_settings p q"
  using assms
proof (induction n es arbitrary: p rule: fields_at.induct)
  case (2 n t v es)
  from "2.prems" obtain b where v: "v = [b]"
    by (auto simp: bindR_eq_Inr actions_body_def field_u8_def split: list.splits)
  show ?case
  proof (cases "tag_to_action t")
    case None
    then have "action_to_tag a \<noteq> t" for a using tag_to_action_eq_Some [of t a] by auto
    with None "2.prems" show ?thesis
      using "2.IH" [of "p\<lparr>pol_unknown_actions := insert t (pol_unknown_actions p)\<rparr>"]
      by (auto simp: actions_body_field v fun_eq_iff)
  next
    case (Some a)
    then have t: "t = action_to_tag a" by (simp add: tag_to_action_eq_Some)
    show ?thesis
      using "2.prems" t "2.IH" [of "if b = RULE_ALLOW then p\<lparr>pol_actions := (pol_actions p)(a \<mapsto> RuleAllow)\<rparr> else p"]
      by (auto simp: actions_body_field v fun_eq_iff split: if_splits)
  qed
qed simp

lemma decode_actions_Inr:
  assumes "decode_actions bs p = Inr q"
  shows "\<exists>es. read_fields bs = Inr es \<and>
     pol_actions q = (\<lambda>a. if (action_to_tag a, [RULE_ALLOW]) \<in> set es then Some RuleAllow else pol_actions p a) \<and>
     pol_unknown_actions q = pol_unknown_actions p \<union> {t \<in> fst ` set es. tag_to_action t = None} \<and>
     same_settings p q"
  using tlv_loop_read_fields [OF assms [unfolded decode_actions_def]] actions_fold_Inr by blast

lemma action_binding_body_keeps:
  assumes "action_binding_body f p = Inr q"
  shows "same_settings p q \<and> same_rules p q"
proof -
  obtain b where "(if b = Software then Inr p
     else case tag_to_action (fld_tag f) of
         Some a \<Rightarrow> Inr (p\<lparr>pol_action_binding := (pol_action_binding p)(a \<mapsto> b)\<rparr>) | None \<Rightarrow> Inr p) = (Inr q :: FormatError + Policy)"
    using assms unfolding action_binding_body_def bindR_eq_Inr by blast
  then show ?thesis by (auto split: if_splits option.splits)
qed

lemma decode_action_binding_Inr:
  assumes "decode_action_binding bs p = Inr q"
  shows "same_settings p q \<and> same_rules p q"
proof -
  obtain es where "foldR action_binding_body (fields_at 0 es) p = Inr q"
    using tlv_loop_read_fields [OF assms [unfolded decode_action_binding_def]] by blast
  then show ?thesis
    by (rule foldR_invariant [where P = "\<lambda>q. same_settings p q \<and> same_rules p q"])
      (simp_all add: action_binding_body_keeps)
qed

text \<open>One field of the policy stream: what it can change.\<close>

lemma policy_body_Inr:
  assumes "policy_body version f d = Inr d'"
  shows "fld_tag f \<in> {1, 2, 3, 4, 5, 6, 7} \<and>
     (fld_tag f = 1 \<longrightarrow> decode_actions (fld_value f) (pd_policy d) = Inr (pd_policy d')) \<and>
     (fld_tag f \<noteq> 1 \<longrightarrow> pol_actions (pd_policy d') = pol_actions (pd_policy d) \<and>
        pol_unknown_actions (pd_policy d') = pol_unknown_actions (pd_policy d)) \<and>
     (fld_tag f \<noteq> 5 \<longrightarrow> pol_max_opens (pd_policy d') = pol_max_opens (pd_policy d)) \<and>
     (fld_tag f \<noteq> 6 \<longrightarrow> pol_watermark (pd_policy d') = pol_watermark (pd_policy d)) \<and>
     (pd_seen_actions d' \<longleftrightarrow> pd_seen_actions d \<or> fld_tag f = 1) \<and>
     (pd_seen_validity d' \<longleftrightarrow> pd_seen_validity d \<or> fld_tag f = 2) \<and>
     (pd_seen_network d' \<longleftrightarrow> pd_seen_network d \<or> fld_tag f = 3) \<and>
     (pd_seen_binding d' \<longleftrightarrow> pd_seen_binding d \<or> fld_tag f = 4) \<and>
     (pd_seen_action_binding d' \<longleftrightarrow> pd_seen_action_binding d \<or> fld_tag f = 7)"
proof -
  consider "fld_tag f = 1" | "fld_tag f = 2" | "fld_tag f = 3" | "fld_tag f = 4" | "fld_tag f = 5"
    | "fld_tag f = 6" | "fld_tag f = 7 \<and> version \<ge> FIRST_ACTION_BINDING_VERSION"
    using assms unfolding policy_body_def Let_def by (meson sum.distinct(1))
  then show ?thesis
  proof cases
    case 1
    with assms obtain p where "decode_actions (fld_value f) (pd_policy d) = Inr p"
      "d' = d\<lparr>pd_policy := p, pd_seen_actions := True\<rparr>"
      by (auto simp: policy_body_def Let_def bindR_eq_Inr)
    then show ?thesis using 1 decode_actions_Inr by auto
  next
    case 7
    with assms obtain p where "decode_action_binding (fld_value f) (pd_policy d) = Inr p"
      "d' = d\<lparr>pd_policy := p, pd_seen_action_binding := True\<rparr>"
      by (auto simp: policy_body_def Let_def bindR_eq_Inr)
    then show ?thesis using 7 decode_action_binding_Inr by auto
  qed (use assms in \<open>auto simp: policy_body_def Let_def bindR_eq_Inr\<close>)
qed

text \<open>The effect of an ACTIONS field, given by its entries.\<close>

definition actions_effect :: "bytes \<Rightarrow> Policy \<Rightarrow> Policy \<Rightarrow> bool" where
  "actions_effect bs p q \<longleftrightarrow> (\<exists>es. read_fields bs = Inr es \<and>
     pol_actions q = (\<lambda>a. if (action_to_tag a, [RULE_ALLOW]) \<in> set es then Some RuleAllow else pol_actions p a) \<and>
     pol_unknown_actions q = pol_unknown_actions p \<union> {t \<in> fst ` set es. tag_to_action t = None})"

lemma actions_effect_same_rules:
  "same_rules q q' \<Longrightarrow> actions_effect bs p q \<Longrightarrow> actions_effect bs p q'"
  "same_rules p p' \<Longrightarrow> actions_effect bs p q \<Longrightarrow> actions_effect bs p' q"
  by (simp_all add: actions_effect_def cong: if_cong)

lemma decode_actions_effect: "decode_actions bs p = Inr q \<Longrightarrow> actions_effect bs p q"
  unfolding actions_effect_def by (drule decode_actions_Inr) blast

lemma policy_fold_Inr:
  assumes "foldR (policy_body version) (fields_at n fs) d = Inr d'" and "distinct (map fst fs)"
  shows "fst ` set fs \<subseteq> {1, 2, 3, 4, 5, 6, 7} \<and>
     (\<forall>bs. map_of fs 1 = Some bs \<longrightarrow> actions_effect bs (pd_policy d) (pd_policy d')) \<and>
     (map_of fs 1 = None \<longrightarrow> same_rules (pd_policy d) (pd_policy d')) \<and>
     (map_of fs 5 = None \<longrightarrow> pol_max_opens (pd_policy d') = pol_max_opens (pd_policy d)) \<and>
     (map_of fs 6 = None \<longrightarrow> pol_watermark (pd_policy d') = pol_watermark (pd_policy d)) \<and>
     (pd_seen_actions d' \<longleftrightarrow> pd_seen_actions d \<or> map_of fs 1 \<noteq> None) \<and>
     (pd_seen_validity d' \<longleftrightarrow> pd_seen_validity d \<or> map_of fs 2 \<noteq> None) \<and>
     (pd_seen_network d' \<longleftrightarrow> pd_seen_network d \<or> map_of fs 3 \<noteq> None) \<and>
     (pd_seen_binding d' \<longleftrightarrow> pd_seen_binding d \<or> map_of fs 4 \<noteq> None) \<and>
     (pd_seen_action_binding d' \<longleftrightarrow> pd_seen_action_binding d \<or> map_of fs 7 \<noteq> None)"
  using assms
proof (induction n fs arbitrary: d rule: fields_at.induct)
  case (2 n t v fs)
  let ?f = "\<lparr>fld_tag = t, fld_value = v, fld_start = n + 6, fld_end = n + 6 + length v\<rparr>"
  from "2.prems" obtain u where u: "policy_body version ?f d = Inr u"
    "foldR (policy_body version) (fields_at (n + 6 + length v) fs) u = Inr d'"
    by (auto simp: bindR_eq_Inr)
  have new: "map_of fs t = None" using "2.prems"(2) by (simp add: map_of_eq_None_iff)
  note ih = "2.IH" [OF u(2)] and step = policy_body_Inr [OF u(1)]
  show ?case
  proof (cases "t = 1")
    case True
    then have "actions_effect v (pd_policy d) (pd_policy u)"
      using step decode_actions_effect by simp
    moreover have "same_rules (pd_policy u) (pd_policy d')"
      using ih new True "2.prems"(2) by simp
    ultimately have "actions_effect v (pd_policy d) (pd_policy d')"
      by (auto intro: actions_effect_same_rules(1))
    then show ?thesis using ih step True "2.prems"(2) by simp
  next
    case False
    then have r: "same_rules (pd_policy d) (pd_policy u)" using step by simp
    then have "actions_effect bs (pd_policy u) (pd_policy d') \<Longrightarrow> actions_effect bs (pd_policy d) (pd_policy d')" for bs
      using actions_effect_same_rules(2) [of "pd_policy d" "pd_policy u"] by simp
    then show ?thesis using ih step r False "2.prems"(2) by auto
  qed
qed simp

lemma policy_decode_Inr:
  assumes "policy_decode version bs = Inr p"
  shows "\<exists>fs av entries. read_fields bs = Inr fs \<and> map_of fs PTAG_ACTIONS = Some av \<and>
     read_fields av = Inr entries \<and> fst ` set fs \<subseteq> {1, 2, 3, 4, 5, 6, 7} \<and>
     map_of fs PTAG_VALIDITY \<noteq> None \<and> map_of fs PTAG_NETWORK \<noteq> None \<and> map_of fs PTAG_MIN_BINDING \<noteq> None \<and>
     (FIRST_ACTION_BINDING_VERSION \<le> version \<longrightarrow> map_of fs PTAG_ACTION_BINDING \<noteq> None) \<and>
     (\<forall>a. rule p a = RuleAllow \<longleftrightarrow> (action_to_tag a, [RULE_ALLOW]) \<in> set entries) \<and>
     pol_unknown_actions p = {t \<in> fst ` set entries. tag_to_action t = None} \<and>
     (map_of fs PTAG_MAX_OPENS = None \<longrightarrow> pol_max_opens p = Some OPENS_WHEN_THE_FIELD_IS_ABSENT) \<and>
     (map_of fs PTAG_WATERMARK = None \<longrightarrow> pol_watermark p)"
proof -
  from assms obtain d where loop: "tlv_loop (policy_body version) (reader_new bs) policy_decode_start = Inr d"
    and seen: "pd_seen_actions d" "pd_seen_validity d" "pd_seen_network d" "pd_seen_binding d"
      "FIRST_ACTION_BINDING_VERSION \<le> version \<longrightarrow> pd_seen_action_binding d"
    and p: "p = pd_policy d"
    by (auto simp: policy_decode_def bindR_eq_Inr ensure_eq_Inr)
  obtain fs where fs: "read_fields bs = Inr fs" "distinct (map fst fs)"
    and fold: "foldR (policy_body version) (fields_at 0 fs) policy_decode_start = Inr d"
    using tlv_loop_read_fields [OF loop] by blast
  note facts = policy_fold_Inr [OF fold fs(2), unfolded policy_decode_start_def deny_all_def, simplified]
  obtain av where av: "map_of fs 1 = Some av" using facts seen(1) by auto
  with facts have "actions_effect av (pd_policy policy_decode_start) p"
    by (simp add: p policy_decode_start_def deny_all_def)
  then obtain es where es: "read_fields av = Inr es"
    "pol_actions p = (\<lambda>a. if (action_to_tag a, [RULE_ALLOW]) \<in> set es then Some RuleAllow else None)"
    "pol_unknown_actions p = {t \<in> fst ` set es. tag_to_action t = None}"
    by (auto simp: actions_effect_def policy_decode_start_def deny_all_def cong: if_cong)
  show ?thesis
    using facts seen
    by (intro exI [of _ fs] exI [of _ av] exI [of _ es]) (simp add: fs av es p [symmetric] rule_def)
qed

section \<open>Properties\<close>

text \<open>
  A policy survives the codec.  Every policy encodes, at every container version, and
  decoding gives its canonical form back; a well-formed policy (allow entries only, no known tag
  listed as unknown, no explicit Software binding, per-action bindings only where the version
  carries them) is returned unchanged, so its encoding, which the policy hash is taken over,
  determines it.
\<close>

theorem policy_round_trip:
  "(\<exists>bs. policy_encode v p = Inr bs \<and> policy_decode v bs = Inr (canonical_policy v p)) \<and>
   (policy_wf v p \<longrightarrow> bindR (policy_encode v p) (policy_decode v) = Inr p) \<and>
   (policy_wf v p \<and> policy_wf v q \<and> policy_encode v p = policy_encode v q \<longrightarrow> p = q)"
proof (intro conjI impI)
  show "\<exists>bs. policy_encode v p = Inr bs \<and> policy_decode v bs = Inr (canonical_policy v p)"
    by (simp add: policy_encode_eq policy_decode_encode)
  show "bindR (policy_encode v p) (policy_decode v) = Inr p" if "policy_wf v p"
    using that by (rule policy_codec.round_trip)
  show "p = q" if "policy_wf v p \<and> policy_wf v q \<and> policy_encode v p = policy_encode v q"
    using that policy_codec.enc_determines [of v p q] by (simp add: policy_encode_eq)
qed

lemma demo_policy_wf: "policy_wf v demo_policy"
  by (auto simp: policy_wf_def normal_policy_def demo_defs split: if_splits)

theorem policy_round_trip_witness:
  "policy_wf 5 demo_policy \<and> bindR (policy_encode 5 demo_policy) (policy_decode 5) = Inr demo_policy"
  using policy_round_trip [of 5 demo_policy demo_policy] demo_policy_wf [of 5] by simp

text \<open>
  C20.  A decoded policy permits only what its bytes grant in so many words.  Its stream holds
  known fields only, the four required ones among them (and the per-action bindings from
  version 4 on); an action is allowed exactly when its entry carries the allow byte; every
  action tag that this reader does not know is recorded as unknown; a missing open limit
  means one open and a missing watermark field means a watermark.
\<close>

theorem policy_decode_fail_closed:
  assumes "policy_decode version bs = Inr p"
  shows "\<exists>fs av entries. read_fields bs = Inr fs \<and> map_of fs PTAG_ACTIONS = Some av \<and>
     read_fields av = Inr entries \<and> fst ` set fs \<subseteq> {1, 2, 3, 4, 5, 6, 7} \<and>
     map_of fs PTAG_VALIDITY \<noteq> None \<and> map_of fs PTAG_NETWORK \<noteq> None \<and> map_of fs PTAG_MIN_BINDING \<noteq> None \<and>
     (FIRST_ACTION_BINDING_VERSION \<le> version \<longrightarrow> map_of fs PTAG_ACTION_BINDING \<noteq> None) \<and>
     (\<forall>a. rule p a = RuleAllow \<longleftrightarrow> (action_to_tag a, [RULE_ALLOW]) \<in> set entries) \<and>
     pol_unknown_actions p = {t \<in> fst ` set entries. tag_to_action t = None} \<and>
     (map_of fs PTAG_MAX_OPENS = None \<longrightarrow> pol_max_opens p = Some OPENS_WHEN_THE_FIELD_IS_ABSENT) \<and>
     (map_of fs PTAG_WATERMARK = None \<longrightarrow> pol_watermark p)"
  using assms by (rule policy_decode_Inr)

theorem policy_decode_fail_closed_witness:
  "\<exists>bs fs av entries. policy_decode 5 bs = Inr demo_policy \<and> read_fields bs = Inr fs \<and>
     map_of fs PTAG_ACTIONS = Some av \<and> read_fields av = Inr entries \<and>
     (action_to_tag View, [RULE_ALLOW]) \<in> set entries \<and> (action_to_tag Edit, [RULE_ALLOW]) \<notin> set entries"
proof -
  let ?bs = "enc_fields (policy_fields 5 demo_policy)"
  have "policy_decode 5 ?bs = Inr demo_policy"
    by (simp add: policy_decode_encode canonical_policy_wf demo_policy_wf)
  moreover have "rule demo_policy View = RuleAllow" "rule demo_policy Edit \<noteq> RuleAllow"
    by (simp_all add: demo_defs rule_def)
  moreover obtain fs av entries where "read_fields ?bs = Inr fs" "map_of fs 1 = Some av"
    "read_fields av = Inr entries" "\<forall>a. rule demo_policy a = RuleAllow \<longleftrightarrow> (action_to_tag a, [RULE_ALLOW]) \<in> set entries"
    using policy_decode_fail_closed [OF calculation(1)] by auto
  ultimately show ?thesis
    by (intro exI [of _ ?bs] exI [of _ fs] exI [of _ av] exI [of _ entries]) simp
qed

subsection \<open>Decisions across the codec\<close>

text \<open>Two policies that no evaluation can tell apart.\<close>

definition same_policy :: "Policy \<Rightarrow> Policy \<Rightarrow> bool" where
  "same_policy p q \<longleftrightarrow>
     pol_validity p = pol_validity q \<and> pol_network p = pol_network q \<and>
     pol_max_opens p = pol_max_opens q \<and> pol_watermark p = pol_watermark q \<and>
     pol_unknown_actions p = pol_unknown_actions q \<and> rule p = rule q \<and> binding_for p = binding_for q"

lemma same_policy_intersect:
  assumes "same_policy p q"
  shows "same_policy (intersect p s) (intersect q s)"
proof -
  have rule_eqI: "(r = RuleAllow \<longleftrightarrow> r' = RuleAllow) \<Longrightarrow> r = r'" for r r' :: Rule
    by (cases r; cases r') simp_all
  have "rule (intersect p s) = rule (intersect q s)"
    by (intro ext rule_eqI) (use assms in \<open>simp add: rule_intersect same_policy_def\<close>)
  moreover have "binding_for (intersect p s) = binding_for (intersect q s)"
    using assms by (simp add: fun_eq_iff binding_for_intersect same_policy_def)
  ultimately show ?thesis using assms by (simp add: same_policy_def)
qed

lemma evaluate_same_policy:
  assumes "same_policy p q"
  shows "evaluate p lease action ctx = evaluate q lease action ctx"
proof -
  have "same_policy (composed_policy p lease) (composed_policy q lease)"
    using assms by (simp add: composed_policy_def same_policy_intersect split: option.split)
  then obtain
    "check_understood (composed_policy p lease) = check_understood (composed_policy q lease)"
    "check_binding (composed_policy p lease) = check_binding (composed_policy q lease)"
    "check_network (composed_policy p lease) = check_network (composed_policy q lease)"
    "check_offline (composed_policy p lease) = check_offline (composed_policy q lease)"
    "check_validity (composed_policy p lease) = check_validity (composed_policy q lease)"
    "check_opens (composed_policy p lease) = check_opens (composed_policy q lease)"
    "check_rule p (composed_policy p lease) = check_rule q (composed_policy q lease)"
    "obligations_of (composed_policy p lease) = obligations_of (composed_policy q lease)"
    using assms by (simp add: same_policy_def fun_eq_iff check_defs obligations_of_def)
  then show ?thesis
    by (simp add: evaluate_def evaluate_checks_def Let_def)
qed

lemma same_policy_canonical:
  assumes "FIRST_ACTION_BINDING_VERSION \<le> version" and "\<forall>t \<in> pol_unknown_actions p. tag_to_action t = None"
  shows "same_policy (canonical_policy version p) p"
proof -
  have "r \<noteq> RuleAllow \<Longrightarrow> RuleDeny = r" for r by (cases r) simp_all
  then have "rule (canonical_policy version p) = rule p"
    by (auto simp: fun_eq_iff rule_def canonical_policy_def split: option.split)
  moreover have "binding_for (canonical_policy version p) = binding_for p"
    using assms(1) by (auto simp: fun_eq_iff binding_for_def canonical_policy_def split: option.split)
  moreover have "pol_unknown_actions (canonical_policy version p) = pol_unknown_actions p"
    using assms(2) by (auto simp: canonical_policy_def)
  ultimately show ?thesis by (simp add: same_policy_def)
qed

text \<open>
  C34.  Writing a policy into a container and reading it back changes no decision.  Let none of
  the tags a policy records as unknown be the tag of an action this reader knows; then, from the
  version on that carries per-action bindings, the decoded policy gives the same verdict as the
  original, with the same obligations or the same reason, for every lease, action and context.
  The decoded policy satisfies the condition again.
\<close>

theorem policy_codec_keeps_decisions:
  assumes "FIRST_ACTION_BINDING_VERSION \<le> version" and "\<forall>t \<in> pol_unknown_actions p. tag_to_action t = None"
    and "policy_encode version p = Inr bs"
  shows "\<exists>q. policy_decode version bs = Inr q \<and> (\<forall>t \<in> pol_unknown_actions q. tag_to_action t = None) \<and>
     (\<forall>lease action ctx. evaluate q lease action ctx = evaluate p lease action ctx)"
proof -
  have "\<forall>t \<in> pol_unknown_actions (canonical_policy version p). tag_to_action t = None"
    using assms(2) by (simp add: canonical_policy_def)
  with policy_decode_encodeD [OF assms(3)] evaluate_same_policy [OF same_policy_canonical [OF assms(1,2)]]
  show ?thesis by blast
qed

theorem policy_codec_keeps_decisions_witness:
  "\<exists>bs q. policy_encode 5 demo_policy = Inr bs \<and> policy_decode 5 bs = Inr q \<and>
     evaluate q (Some demo_lease) View demo_context = evaluate demo_policy (Some demo_lease) View demo_context"
proof -
  obtain bs where bs: "policy_encode 5 demo_policy = Inr bs" by (simp add: policy_encode_eq)
  have "FIRST_ACTION_BINDING_VERSION \<le> 5" "\<forall>t \<in> pol_unknown_actions demo_policy. tag_to_action t = None"
    by (simp_all add: FIRST_ACTION_BINDING_VERSION_def demo_defs)
  from policy_codec_keeps_decisions [OF this bs] bs show ?thesis by blast
qed

text \<open>
  A policy that speaks of an action this reader does not know permits nothing: when an
  entry of its ACTIONS field has an unknown tag, whatever rule it carries, evaluating the
  decoded policy denies every action under every lease and in every context.
\<close>

theorem unknown_action_denies:
  assumes "policy_decode version bs = Inr p" and "read_fields bs = Inr fs"
    and "map_of fs PTAG_ACTIONS = Some av" and "read_fields av = Inr entries"
    and "(t, r) \<in> set entries" and "tag_to_action t = None"
  shows "\<not> is_allowed (evaluate p lease action ctx)"
proof -
  have "pol_unknown_actions p = {t \<in> fst ` set entries. tag_to_action t = None}"
    using policy_decode_Inr [OF assms(1)] assms(2-4) by auto
  then have "t \<in> pol_unknown_actions p"
    using assms(5,6) by (auto intro: rev_image_eqI)
  then have "t \<in> pol_unknown_actions (composed_policy p lease)"
    by (auto simp: composed_policy_def split: option.split)
  then show ?thesis
    by (auto simp: is_allowed_iff evaluate_Allow checks_pass_def check_understood_def ensure_eq_Inr)
qed

text \<open>A policy with an action tag of a later version, allowed there.\<close>

definition future_policy :: Policy where
  "future_policy = demo_policy\<lparr>pol_unknown_actions := {9}\<rparr>"

theorem unknown_action_denies_witness:
  "\<exists>bs p fs av entries. policy_decode 5 bs = Inr p \<and> read_fields bs = Inr fs \<and>
     map_of fs PTAG_ACTIONS = Some av \<and> read_fields av = Inr entries \<and>
     9 \<in> fst ` set entries \<and> tag_to_action 9 = None \<and>
     \<not> is_allowed (evaluate p (Some demo_lease) View demo_context)"
proof -
  let ?bs = "enc_fields (policy_fields 5 future_policy)" and ?p = "canonical_policy 5 future_policy"
  have d: "policy_decode 5 ?bs = Inr ?p" by (rule policy_decode_encode)
  obtain fs av entries where e: "read_fields ?bs = Inr fs" "map_of fs PTAG_ACTIONS = Some av"
    "read_fields av = Inr entries" "pol_unknown_actions ?p = {t \<in> fst ` set entries. tag_to_action t = None}"
    using policy_decode_Inr [OF d] by (elim exE conjE) (rule that)
  have "9 \<in> pol_unknown_actions ?p"
    by (simp add: canonical_policy_def future_policy_def tag_to_action_def)
  then obtain r where r: "(9, r) \<in> set entries" "tag_to_action 9 = None"
    unfolding e(4) by force
  have "9 \<in> fst ` set entries" using r(1) by (auto intro: rev_image_eqI)
  moreover have "\<not> is_allowed (evaluate ?p (Some demo_lease) View demo_context)"
    by (rule unknown_action_denies [OF d e(1-3) r])
  ultimately show ?thesis using d e(1-3) r(2) by blast
qed

end
