(* ===== verification/OC_Crypto.thy ===== *)
theory OC_Crypto
  imports OC_Prelude "HOL-Library.Sublist"
begin

text \<open>
  The foundations of \<^verbatim>\<open>oc-crypto\<close>: its errors and algorithm registries, the domain labels and
  the digest comparisons (\<^verbatim>\<open>oc-crypto/src/lib.rs\<close>), transcripts (\<^verbatim>\<open>transcript.rs\<close>), message
  authentication (\<^verbatim>\<open>mac.rs\<close>) and signature verification (\<^verbatim>\<open>sign.rs\<close>).

  The primitives come from crates outside the repository; they are the fields of the record
  \<open>Crates\<close>, which every definition that calls them takes as its argument.  What a theorem
  needs of a primitive is a named hypothesis about that record.
\<close>

section \<open>Third-party primitives\<close>

text \<open>
  \<^verbatim>\<open>blake3::Hasher\<close> and \<^verbatim>\<open>sha2::Sha256\<close> hash the concatenation of their updates;
  \<^verbatim>\<open>Hmac<Sha256>\<close> refuses a key or returns a tag; \<^verbatim>\<open>subtle::ConstantTimeEq\<close> compares;
  \<^verbatim>\<open>VerifyingKey::from_bytes\<close> refuses some keys, and \<^verbatim>\<open>verify_strict\<close> takes the key, the message and
  the signature.  \<^verbatim>\<open>Hkdf<Sha256>\<close> takes a salt, the input keying material, the info and the length of
  the output, or a pseudorandom key in place of the first two.  \<^verbatim>\<open>XChaCha20Poly1305\<close> takes the key, the
  nonce, the associated data and the message, and works on the ciphertext with its tag appended.
  \<^verbatim>\<open>x25519-dalek\<close> gives the public key of a secret and the agreement of a secret with a public key;
  \<^verbatim>\<open>p256::PublicKey::from_sec1_bytes\<close> accepts the encodings of points.
\<close>

record Crates =
  blake3_hash :: "bytes \<Rightarrow> bytes"
  sha256_digest :: "bytes \<Rightarrow> bytes"
  hmac_sha256 :: "bytes \<Rightarrow> bytes \<Rightarrow> bytes option"
  ct_eq :: "bytes \<Rightarrow> bytes \<Rightarrow> bool"
  ed25519_key_ok :: "bytes \<Rightarrow> bool"
  ed25519_verify_strict :: "bytes \<Rightarrow> bytes \<Rightarrow> bytes \<Rightarrow> bool"
  hkdf_sha256 :: "bytes \<Rightarrow> bytes \<Rightarrow> bytes \<Rightarrow> nat \<Rightarrow> bytes option"
  hkdf_from_prk :: "bytes \<Rightarrow> bytes \<Rightarrow> nat \<Rightarrow> bytes option"
  xchacha_encrypt :: "bytes \<Rightarrow> bytes \<Rightarrow> bytes \<Rightarrow> bytes \<Rightarrow> bytes option"
  xchacha_decrypt :: "bytes \<Rightarrow> bytes \<Rightarrow> bytes \<Rightarrow> bytes \<Rightarrow> bytes option"
  x25519_base :: "bytes \<Rightarrow> bytes"
  x25519_dh :: "bytes \<Rightarrow> bytes \<Rightarrow> bytes"
  p256_point_ok :: "bytes \<Rightarrow> bool"

text \<open>Documented behaviour: comparison of arrays of one length, digests of fixed length.\<close>

definition ct_eq_sound :: "Crates \<Rightarrow> bool" where
  "ct_eq_sound c \<longleftrightarrow> (\<forall>a b. length a = length b \<longrightarrow> (ct_eq c a b \<longleftrightarrow> a = b))"

definition hmac_total :: "Crates \<Rightarrow> bool" where
  "hmac_total c \<longleftrightarrow> (\<forall>k m. \<exists>t. hmac_sha256 c k m = Some t \<and> length t = 32)"

definition digests_32 :: "Crates \<Rightarrow> bool" where
  "digests_32 c \<longleftrightarrow> (\<forall>m. length (blake3_hash c m) = 32) \<and> (\<forall>m. length (sha256_digest c m) = 32)"

text \<open>
  HKDF yields up to 255 blocks of 32 bytes; what authenticated encryption produces is the length of
  the message and a tag of 16 bytes and opens with the same key, nonce and associated data; two
  parties agree on the same secret.
\<close>

definition hkdf_total :: "Crates \<Rightarrow> bool" where
  "hkdf_total c \<longleftrightarrow> (\<forall>salt ikm info n. n \<le> 8160 \<longrightarrow> (\<exists>okm. hkdf_sha256 c salt ikm info n = Some okm \<and> length okm = n))"

definition aead_correct :: "Crates \<Rightarrow> bool" where
  "aead_correct c \<longleftrightarrow>
     (\<forall>k n a m ct. xchacha_encrypt c k n a m = Some ct \<longrightarrow>
        length ct = length m + 16 \<and> xchacha_decrypt c k n a ct = Some m)"

definition dh_commutes :: "Crates \<Rightarrow> bool" where
  "dh_commutes c \<longleftrightarrow> (\<forall>a b. x25519_dh c a (x25519_base c b) = x25519_dh c b (x25519_base c a))"

section \<open>Errors and algorithms\<close>

datatype CryptoError =
    Authentication
  | BadSignature
  | BadLength
  | TreeMismatch
  | IndexOutOfRange
  | BadKey
  | UnsupportedAlgorithm

datatype AeadAlg = XChaCha20Poly1305 | Aes256Gcm | Aes256GcmSiv
datatype SigAlg = Ed25519 | RsaPssSha256
datatype KemAlg = X25519HkdfSha256 | P256HkdfSha256 | RsaOaepSha256 | XWing | MlKem768P256
datatype TreeHashAlg = Blake3 | Sha256

primrec aead_u8 :: "AeadAlg \<Rightarrow> byte" where
  "aead_u8 XChaCha20Poly1305 = 1"
| "aead_u8 Aes256Gcm = 2"
| "aead_u8 Aes256GcmSiv = 3"

primrec sig_u8 :: "SigAlg \<Rightarrow> byte" where
  "sig_u8 Ed25519 = 1"
| "sig_u8 RsaPssSha256 = 2"

primrec kem_u8 :: "KemAlg \<Rightarrow> byte" where
  "kem_u8 X25519HkdfSha256 = 1"
| "kem_u8 P256HkdfSha256 = 2"
| "kem_u8 RsaOaepSha256 = 3"
| "kem_u8 XWing = 4"
| "kem_u8 MlKem768P256 = 5"

primrec tree_hash_u8 :: "TreeHashAlg \<Rightarrow> byte" where
  "tree_hash_u8 Blake3 = 1"
| "tree_hash_u8 Sha256 = 2"

primrec aead_ensure_supported :: "AeadAlg \<Rightarrow> CryptoError + unit" where
  "aead_ensure_supported XChaCha20Poly1305 = Inr ()"
| "aead_ensure_supported Aes256Gcm = Inl UnsupportedAlgorithm"
| "aead_ensure_supported Aes256GcmSiv = Inl UnsupportedAlgorithm"

definition aead_from_u8 :: "byte \<Rightarrow> CryptoError + AeadAlg" where
  "aead_from_u8 v =
     bindR (if v = 1 then Inr XChaCha20Poly1305
            else if v = 2 then Inr Aes256Gcm
            else if v = 3 then Inr Aes256GcmSiv
            else Inl UnsupportedAlgorithm) (\<lambda>alg.
     bindR (aead_ensure_supported alg) (\<lambda>_. Inr alg))"

primrec sig_ensure_supported :: "SigAlg \<Rightarrow> CryptoError + unit" where
  "sig_ensure_supported Ed25519 = Inr ()"
| "sig_ensure_supported RsaPssSha256 = Inr ()"

definition sig_from_u8 :: "byte \<Rightarrow> CryptoError + SigAlg" where
  "sig_from_u8 v =
     bindR (if v = 1 then Inr Ed25519
            else if v = 2 then Inr RsaPssSha256
            else Inl UnsupportedAlgorithm) (\<lambda>alg.
     bindR (sig_ensure_supported alg) (\<lambda>_. Inr alg))"

primrec supports_kem :: "KemAlg \<Rightarrow> bool" where
  "supports_kem X25519HkdfSha256 = True"
| "supports_kem P256HkdfSha256 = True"
| "supports_kem RsaOaepSha256 = False"
| "supports_kem XWing = True"
| "supports_kem MlKem768P256 = True"

definition kem_ensure_supported :: "KemAlg \<Rightarrow> CryptoError + unit" where
  "kem_ensure_supported k = (if supports_kem k then Inr () else Inl UnsupportedAlgorithm)"

definition kem_from_u8 :: "byte \<Rightarrow> CryptoError + KemAlg" where
  "kem_from_u8 v =
     (if v = 1 then Inr X25519HkdfSha256
      else if v = 2 then Inr P256HkdfSha256
      else if v = 3 then Inr RsaOaepSha256
      else if v = 4 then Inr XWing
      else if v = 5 then Inr MlKem768P256
      else Inl UnsupportedAlgorithm)"

primrec tree_hash_ensure_supported :: "TreeHashAlg \<Rightarrow> CryptoError + unit" where
  "tree_hash_ensure_supported Blake3 = Inr ()"
| "tree_hash_ensure_supported Sha256 = Inl UnsupportedAlgorithm"

definition tree_hash_from_u8 :: "byte \<Rightarrow> CryptoError + TreeHashAlg" where
  "tree_hash_from_u8 v =
     bindR (if v = 1 then Inr Blake3
            else if v = 2 then Inr Sha256
            else Inl UnsupportedAlgorithm) (\<lambda>alg.
     bindR (tree_hash_ensure_supported alg) (\<lambda>_. Inr alg))"

section \<open>Domain labels\<close>

type_synonym Label = bytes

definition ascii :: "string \<Rightarrow> bytes" where
  "ascii s = map (\<lambda>c. of_char c) s"

definition HEADER_SIG :: Label where "HEADER_SIG = ascii ''CC/v1/header-sig''"
definition REVOCATION :: Label where "REVOCATION = ascii ''CC/v1/revocation''"
definition GRANT :: Label where "GRANT = ascii ''CC/v1/grant''"
definition AGENT_GRANT :: Label where "AGENT_GRANT = ascii ''CC/v1/agent-grant''"
definition DELEGATION :: Label where "DELEGATION = ascii ''CC/v1/delegation''"
definition ACTION_GRANT :: Label where "ACTION_GRANT = ascii ''CC/v1/action-grant''"
definition ACTION_LEASE :: Label where "ACTION_LEASE = ascii ''CC/v1/action-lease''"
definition ACTION_DECISION :: Label where "ACTION_DECISION = ascii ''CC/v1/action-decision''"
definition LEASE :: Label where "LEASE = ascii ''CC/v1/lease''"
definition ACTIVATE_REQ :: Label where "ACTIVATE_REQ = ascii ''CC/v1/activate-req''"
definition AUDIT_ENTRY :: Label where "AUDIT_ENTRY = ascii ''CC/v1/audit-entry''"
definition AUDIT_HEAD :: Label where "AUDIT_HEAD = ascii ''CC/v1/audit-head''"
definition ATTEST_NONCE :: Label where "ATTEST_NONCE = ascii ''CC/v1/attest-nonce''"
definition CONTENT_MAC :: Label where "CONTENT_MAC = ascii ''CC/v1/content-mac''"
definition EDITOR_SIG :: Label where "EDITOR_SIG = ascii ''CC/v1/editor-sig''"
definition EDITOR_CERT :: Label where "EDITOR_CERT = ascii ''CC/v1/editor-cert''"
definition EDIT_SESSION :: Label where "EDIT_SESSION = ascii ''CC/v1/edit-session''"
definition EDITION_CLAIM :: Label where "EDITION_CLAIM = ascii ''CC/v1/edition-claim''"
definition FOOTER_IMPRINT :: Label where "FOOTER_IMPRINT = ascii ''CC/v1/footer-imprint''"
definition WITNESS_COSIGN :: Label where "WITNESS_COSIGN = ascii ''CC/v1/witness-cosign''"
definition DIRECTORY_ENTRY :: Label where "DIRECTORY_ENTRY = ascii ''CC/v1/directory-entry''"
definition DIRECTORY_HEAD :: Label where "DIRECTORY_HEAD = ascii ''CC/v1/directory-head''"
definition MARK_LAYOUT :: Label where "MARK_LAYOUT = ascii ''CC/v1/mark-layout''"
definition MARK_CHOICE :: Label where "MARK_CHOICE = ascii ''CC/v1/mark-choice''"
definition RECOVERY_MANIFEST :: Label where "RECOVERY_MANIFEST = ascii ''CC/v1/recovery-manifest''"
definition AUTHORITY_BINDING :: Label where "AUTHORITY_BINDING = ascii ''CC/v1/authority-binding''"
definition CONTROL_REQUEST :: Label where "CONTROL_REQUEST = ascii ''CC/v1/control-request''"
definition OPERATION_RECEIPT :: Label where "OPERATION_RECEIPT = ascii ''CC/v1/operation-receipt''"
definition REPLICA_PUSH :: Label where "REPLICA_PUSH = ascii ''CC/v1/replica-push''"
definition REPLICA_ACK :: Label where "REPLICA_ACK = ascii ''CC/v1/replica-ack''"
definition AUTHORITY_TRANSFER :: Label where "AUTHORITY_TRANSFER = ascii ''CC/v1/authority-transfer''"
definition CHUNK :: Label where "CHUNK = ascii ''CC/v1/chunk''"
definition LEAF :: Label where "LEAF = ascii ''CC/v1/leaf''"
definition NODE :: Label where "NODE = ascii ''CC/v1/node''"
definition KEK :: Label where "KEK = ascii ''CC/v1/kek''"
definition PAYLOAD :: Label where "PAYLOAD = ascii ''CC/v1/payload''"
definition NONCE_BASE :: Label where "NONCE_BASE = ascii ''CC/v1/nonce-base''"
definition PRIVATE_META :: Label where "PRIVATE_META = ascii ''CC/v1/private-meta''"
definition CLAIM_DEVICE :: Label where "CLAIM_DEVICE = ascii ''CC/v1/claim-device''"
definition SLOT_B_CLAIM :: Label where "SLOT_B_CLAIM = ascii ''CC/v1/slot-b-claim''"
definition SLOT_B_COMMIT :: Label where "SLOT_B_COMMIT = ascii ''CC/v1/slot-b-commit''"
definition SLOT_COMMIT :: Label where "SLOT_COMMIT = ascii ''CC/v1/slot-commit''"
definition A_TO_DEVICE :: Label where "A_TO_DEVICE = ascii ''CC/v1/a-to-device''"
definition B_TO_DEVICE :: Label where "B_TO_DEVICE = ascii ''CC/v1/b-to-device''"
definition CACHED_LEASE :: Label where "CACHED_LEASE = ascii ''CC/v1/cached-lease''"
definition SEAL_KEY :: Label where "SEAL_KEY = ascii ''CC/v1/seal-key''"
definition SEAL_NONCE :: Label where "SEAL_NONCE = ascii ''CC/v1/seal-nonce''"
definition WRAP_NONCE :: Label where "WRAP_NONCE = ascii ''CC/v1/wrap-nonce''"
definition FRAME_NONCE :: Label where "FRAME_NONCE = ascii ''CC/v1/frame-nonce''"
definition META_NONCE :: Label where "META_NONCE = ascii ''CC/v1/meta-nonce''"
definition CORE_HASH :: Label where "CORE_HASH = ascii ''CC/v1/core-hash''"
definition POLICY_HASH :: Label where "POLICY_HASH = ascii ''CC/v1/policy-hash''"
definition SLOT_SERVER :: Label where "SLOT_SERVER = ascii ''CC/v1/slot-server''"
definition SLOT_RECIPIENT :: Label where "SLOT_RECIPIENT = ascii ''CC/v1/slot-recipient''"
definition SLOT_AUTHOR_DEVICE :: Label where "SLOT_AUTHOR_DEVICE = ascii ''CC/v1/slot-author-device''"
definition CLAIM_CODE :: Label where "CLAIM_CODE = ascii ''CC/v1/claim-code''"
definition AUTHOR_ORDER :: Label where "AUTHOR_ORDER = ascii ''CC/v1/author-order''"
definition PROVE_ECHO :: Label where "PROVE_ECHO = ascii ''CC/v1/prove-echo''"
definition SESSION_MAC :: Label where "SESSION_MAC = ascii ''CC/v1/session-mac''"
definition ECHO_TRANSCRIPT :: Label where "ECHO_TRANSCRIPT = ascii ''CC/v1/echo-transcript''"
definition DEVICE_FPR :: Label where "DEVICE_FPR = ascii ''CC/v1/device-fpr''"
definition OPERATION_ID :: Label where "OPERATION_ID = ascii ''CC/v1/operation-id''"
definition SERVER_FRESH :: Label where "SERVER_FRESH = ascii ''CC/v1/server-fresh''"
definition PACKAGE_MANIFEST :: Label where "PACKAGE_MANIFEST = ascii ''CC/v1/package-manifest''"
definition ATTEST_QUALIFY :: Label where "ATTEST_QUALIFY = ascii ''CC/v1/attest-qualify''"

definition LABEL_ALL :: "Label list" where
  "LABEL_ALL =
     [HEADER_SIG, REVOCATION, GRANT, LEASE, ACTIVATE_REQ, AUDIT_ENTRY, AUDIT_HEAD,
      ATTEST_NONCE, CONTENT_MAC, EDITOR_SIG, CHUNK, LEAF, NODE, KEK, PAYLOAD, NONCE_BASE,
      PRIVATE_META, CLAIM_DEVICE, SLOT_B_CLAIM, SLOT_B_COMMIT, SLOT_COMMIT, A_TO_DEVICE,
      B_TO_DEVICE, CACHED_LEASE, SEAL_KEY, SEAL_NONCE, WRAP_NONCE, FRAME_NONCE, META_NONCE,
      CORE_HASH, POLICY_HASH, SLOT_SERVER, SLOT_RECIPIENT, SLOT_AUTHOR_DEVICE, CLAIM_CODE,
      AUTHOR_ORDER, PROVE_ECHO, SESSION_MAC, ECHO_TRANSCRIPT, DEVICE_FPR, OPERATION_ID,
      ATTEST_QUALIFY, EDITOR_CERT, EDIT_SESSION, EDITION_CLAIM, FOOTER_IMPRINT,
      WITNESS_COSIGN, DIRECTORY_ENTRY, DIRECTORY_HEAD, MARK_LAYOUT, MARK_CHOICE,
      RECOVERY_MANIFEST, AUTHORITY_BINDING, CONTROL_REQUEST, OPERATION_RECEIPT,
      REPLICA_PUSH, REPLICA_ACK, AUTHORITY_TRANSFER, SERVER_FRESH, PACKAGE_MANIFEST,
      AGENT_GRANT, DELEGATION, ACTION_GRANT, ACTION_LEASE, ACTION_DECISION]"

section \<open>Digests and comparisons\<close>

definition sha256 :: "Crates \<Rightarrow> bytes \<Rightarrow> bytes" where
  "sha256 c bs = sha256_digest c bs"

definition digest_eq_ct :: "Crates \<Rightarrow> bytes \<Rightarrow> bytes \<Rightarrow> bool" where
  "digest_eq_ct c a b = ct_eq c a b"

definition public_key_eq :: "Crates \<Rightarrow> bytes \<Rightarrow> bytes \<Rightarrow> bool" where
  "public_key_eq c a b = (if length a \<noteq> length b then False else ct_eq c a b)"

section \<open>Transcripts\<close>

record Transcript =
  tr_buf :: bytes

definition transcript_new :: "Label \<Rightarrow> Transcript" where
  "transcript_new l = \<lparr>tr_buf = l @ [0]\<rparr>"

definition tr_u8 :: "byte \<Rightarrow> Transcript \<Rightarrow> Transcript" where
  "tr_u8 v t = t\<lparr>tr_buf := tr_buf t @ [v]\<rparr>"

definition tr_u32le :: "u32 \<Rightarrow> Transcript \<Rightarrow> Transcript" where
  "tr_u32le v t = t\<lparr>tr_buf := tr_buf t @ le32 v\<rparr>"

definition tr_u32be :: "u32 \<Rightarrow> Transcript \<Rightarrow> Transcript" where
  "tr_u32be v t = t\<lparr>tr_buf := tr_buf t @ be_bytes 4 (unat v)\<rparr>"

definition tr_u64be :: "u64 \<Rightarrow> Transcript \<Rightarrow> Transcript" where
  "tr_u64be v t = t\<lparr>tr_buf := tr_buf t @ be_bytes 8 (unat v)\<rparr>"

definition tr_fixed :: "bytes \<Rightarrow> Transcript \<Rightarrow> Transcript" where
  "tr_fixed v t = t\<lparr>tr_buf := tr_buf t @ v\<rparr>"

definition tr_field :: "bytes \<Rightarrow> Transcript \<Rightarrow> Transcript" where
  "tr_field v t =
     (let len = (case u32_of_usize (length v) of Some n \<Rightarrow> n | None \<Rightarrow> 0xFFFFFFFF)
      in t\<lparr>tr_buf := tr_buf t @ le32 len @ v\<rparr>)"

definition tail_after_declared_length :: "bytes \<Rightarrow> Transcript \<Rightarrow> Transcript" where
  "tail_after_declared_length v t = t\<lparr>tr_buf := tr_buf t @ v\<rparr>"

section \<open>Message authentication and signatures\<close>

definition MAC_LEN :: nat where "MAC_LEN = 32"

definition mac_compute :: "Crates \<Rightarrow> bytes \<Rightarrow> Transcript \<Rightarrow> CryptoError + bytes" where
  "mac_compute c key transcript =
     bindR (ok_or BadLength (hmac_sha256 c key (tr_buf transcript))) (\<lambda>tag.
     if length tag = MAC_LEN then Inr tag else Inl BadLength)"

definition mac_verify :: "Crates \<Rightarrow> bytes \<Rightarrow> Transcript \<Rightarrow> bytes \<Rightarrow> CryptoError + unit" where
  "mac_verify c key transcript expected =
     bindR (mac_compute c key transcript) (\<lambda>actual.
     if ct_eq c actual expected then Inr () else Inl Authentication)"

definition sign_verify :: "Crates \<Rightarrow> bytes \<Rightarrow> Transcript \<Rightarrow> bytes \<Rightarrow> CryptoError + unit" where
  "sign_verify c public_key transcript signature =
     bindR (ensure (ed25519_key_ok c public_key) BadSignature) (\<lambda>_.
     ensure (ed25519_verify_strict c public_key (tr_buf transcript) signature) BadSignature)"

section \<open>Lemmas\<close>

lemma from_u8_round_trip [simp]:
  "sig_from_u8 (sig_u8 s) = Inr s" "kem_from_u8 (kem_u8 k) = Inr k"
  by (cases s; simp add: sig_from_u8_def) (cases k; simp add: kem_from_u8_def)

lemma aead_from_u8_eq: "aead_from_u8 v = Inr a \<longleftrightarrow> v = 1 \<and> a = XChaCha20Poly1305"
  by (auto simp: aead_from_u8_def)

lemma tree_hash_from_u8_eq: "tree_hash_from_u8 v = Inr h \<longleftrightarrow> v = 1 \<and> h = Blake3"
  by (auto simp: tree_hash_from_u8_def)

lemmas label_defs =
  HEADER_SIG_def REVOCATION_def GRANT_def AGENT_GRANT_def DELEGATION_def ACTION_GRANT_def
  ACTION_LEASE_def ACTION_DECISION_def LEASE_def ACTIVATE_REQ_def AUDIT_ENTRY_def AUDIT_HEAD_def
  ATTEST_NONCE_def CONTENT_MAC_def EDITOR_SIG_def EDITOR_CERT_def EDIT_SESSION_def
  EDITION_CLAIM_def FOOTER_IMPRINT_def WITNESS_COSIGN_def DIRECTORY_ENTRY_def DIRECTORY_HEAD_def
  MARK_LAYOUT_def MARK_CHOICE_def RECOVERY_MANIFEST_def AUTHORITY_BINDING_def
  CONTROL_REQUEST_def OPERATION_RECEIPT_def REPLICA_PUSH_def REPLICA_ACK_def
  AUTHORITY_TRANSFER_def CHUNK_def LEAF_def NODE_def KEK_def PAYLOAD_def NONCE_BASE_def
  PRIVATE_META_def CLAIM_DEVICE_def SLOT_B_CLAIM_def SLOT_B_COMMIT_def SLOT_COMMIT_def
  A_TO_DEVICE_def B_TO_DEVICE_def CACHED_LEASE_def SEAL_KEY_def SEAL_NONCE_def WRAP_NONCE_def
  FRAME_NONCE_def META_NONCE_def CORE_HASH_def POLICY_HASH_def SLOT_SERVER_def
  SLOT_RECIPIENT_def SLOT_AUTHOR_DEVICE_def CLAIM_CODE_def AUTHOR_ORDER_def PROVE_ECHO_def
  SESSION_MAC_def ECHO_TRANSCRIPT_def DEVICE_FPR_def OPERATION_ID_def SERVER_FRESH_def
  PACKAGE_MANIFEST_def ATTEST_QUALIFY_def

lemmas transcript_defs =
  transcript_new_def tr_u8_def tr_u32le_def tr_u32be_def tr_u64be_def tr_fixed_def tr_field_def
  tail_after_declared_length_def

subsection \<open>Labels\<close>

definition label_texts :: "string list" where
  "label_texts =
     [''CC/v1/header-sig'', ''CC/v1/revocation'', ''CC/v1/grant'', ''CC/v1/lease'',
      ''CC/v1/activate-req'', ''CC/v1/audit-entry'', ''CC/v1/audit-head'',
      ''CC/v1/attest-nonce'', ''CC/v1/content-mac'', ''CC/v1/editor-sig'', ''CC/v1/chunk'',
      ''CC/v1/leaf'', ''CC/v1/node'', ''CC/v1/kek'', ''CC/v1/payload'',
      ''CC/v1/nonce-base'', ''CC/v1/private-meta'', ''CC/v1/claim-device'',
      ''CC/v1/slot-b-claim'', ''CC/v1/slot-b-commit'', ''CC/v1/slot-commit'',
      ''CC/v1/a-to-device'', ''CC/v1/b-to-device'', ''CC/v1/cached-lease'',
      ''CC/v1/seal-key'', ''CC/v1/seal-nonce'', ''CC/v1/wrap-nonce'', ''CC/v1/frame-nonce'',
      ''CC/v1/meta-nonce'', ''CC/v1/core-hash'', ''CC/v1/policy-hash'',
      ''CC/v1/slot-server'', ''CC/v1/slot-recipient'', ''CC/v1/slot-author-device'',
      ''CC/v1/claim-code'', ''CC/v1/author-order'', ''CC/v1/prove-echo'',
      ''CC/v1/session-mac'', ''CC/v1/echo-transcript'', ''CC/v1/device-fpr'',
      ''CC/v1/operation-id'', ''CC/v1/attest-qualify'', ''CC/v1/editor-cert'',
      ''CC/v1/edit-session'', ''CC/v1/edition-claim'', ''CC/v1/footer-imprint'',
      ''CC/v1/witness-cosign'', ''CC/v1/directory-entry'', ''CC/v1/directory-head'',
      ''CC/v1/mark-layout'', ''CC/v1/mark-choice'', ''CC/v1/recovery-manifest'',
      ''CC/v1/authority-binding'', ''CC/v1/control-request'', ''CC/v1/operation-receipt'',
      ''CC/v1/replica-push'', ''CC/v1/replica-ack'', ''CC/v1/authority-transfer'',
      ''CC/v1/server-fresh'', ''CC/v1/package-manifest'', ''CC/v1/agent-grant'',
      ''CC/v1/delegation'', ''CC/v1/action-grant'', ''CC/v1/action-lease'',
      ''CC/v1/action-decision'']"

fun prefix_clash :: "string list \<Rightarrow> bool" where
  "prefix_clash [] = False"
| "prefix_clash (x # xs) \<longleftrightarrow> list_ex (\<lambda>y. prefix x y \<or> prefix y x) xs \<or> prefix_clash xs"

lemma LABEL_ALL_texts: "LABEL_ALL = map ascii label_texts"
  by (simp add: LABEL_ALL_def label_texts_def label_defs)

lemma no_prefix_clash: "\<not> prefix_clash label_texts"
  unfolding label_texts_def by code_simp

lemma of_char_byte_eq [simp]: "(of_char c :: byte) = of_char d \<longleftrightarrow> c = d"
proof -
  have "unat (of_char x :: byte) = of_char x" for x
    using nat_of_char_less_256 [of x]
      unat_of_nat [of "of_char x", where 'a = 8]
    by (simp add: of_nat_of_char take_bit_nat_eq_self)
  then show ?thesis by (metis of_char_eq_iff)
qed

lemma prefix_ascii [simp]: "prefix (ascii s) (ascii t) \<longleftrightarrow> prefix s t"
proof (induction s arbitrary: t)
  case (Cons c s)
  then show ?case by (cases t) (simp_all add: ascii_def)
qed (simp add: ascii_def)

lemma ascii_eq [simp]: "ascii s = ascii t \<longleftrightarrow> s = t"
  by (metis prefix_ascii prefix_order.order_antisym prefix_order.order_refl)

lemma prefix_clash_free:
  "\<not> prefix_clash xs \<Longrightarrow> distinct xs \<and> (\<forall>s \<in> set xs. \<forall>t \<in> set xs. prefix s t \<longrightarrow> s = t)"
  by (induction xs) (auto simp: list_ex_iff)

lemma labels_distinct: "distinct LABEL_ALL"
  unfolding LABEL_ALL_texts
  using prefix_clash_free [OF no_prefix_clash] by (simp add: distinct_map inj_on_def)

lemma labels_prefix_free: "l \<in> set LABEL_ALL \<Longrightarrow> m \<in> set LABEL_ALL \<Longrightarrow> prefix l m \<Longrightarrow> l = m"
  unfolding LABEL_ALL_texts
  using prefix_clash_free [OF no_prefix_clash] by auto

subsection \<open>Transcripts as sequences of writes\<close>

datatype TranscriptOp =
    OpU8 byte
  | OpU32le u32
  | OpU32be u32
  | OpU64be u64
  | OpFixed bytes
  | OpField bytes

primrec run_op :: "TranscriptOp \<Rightarrow> Transcript \<Rightarrow> Transcript" where
  "run_op (OpU8 v) = tr_u8 v"
| "run_op (OpU32le v) = tr_u32le v"
| "run_op (OpU32be v) = tr_u32be v"
| "run_op (OpU64be v) = tr_u64be v"
| "run_op (OpFixed v) = tr_fixed v"
| "run_op (OpField v) = tr_field v"

text \<open>Two writes at the same place of a protocol: same kind, and for a fixed array same length.\<close>

fun same_shape :: "TranscriptOp \<Rightarrow> TranscriptOp \<Rightarrow> bool" where
  "same_shape (OpU8 _) (OpU8 _) = True"
| "same_shape (OpU32le _) (OpU32le _) = True"
| "same_shape (OpU32be _) (OpU32be _) = True"
| "same_shape (OpU64be _) (OpU64be _) = True"
| "same_shape (OpFixed v) (OpFixed w) = (length v = length w)"
| "same_shape (OpField v) (OpField w) = (length v < 4294967296 \<and> length w < 4294967296)"
| "same_shape _ _ = False"

definition op_bytes :: "TranscriptOp \<Rightarrow> bytes" where
  "op_bytes op = tr_buf (run_op op \<lparr>tr_buf = []\<rparr>)"

lemma run_op_buf: "tr_buf (run_op op t) = tr_buf t @ op_bytes op"
  by (cases op) (simp_all add: op_bytes_def transcript_defs Let_def)

lemma fold_run_op_buf: "tr_buf (fold run_op ops t) = tr_buf t @ concat (map op_bytes ops)"
  by (induction ops arbitrary: t) (simp_all add: run_op_buf)

lemma be_bytes_word_eq [simp]:
  "be_bytes 4 (unat v) = be_bytes 4 (unat (w :: u32)) \<longleftrightarrow> v = w"
  "be_bytes 8 (unat x) = be_bytes 8 (unat (y :: u64)) \<longleftrightarrow> x = y"
  unfolding be_bytes_def rev_is_rev_conv by (metis of_le32) (metis of_le64)

lemma le32_eq [simp]: "le_bytes 4 (unat v) = le_bytes 4 (unat (w :: u32)) \<longleftrightarrow> v = w"
  by (metis of_le32)

lemma tr_field_bytes:
  "length v < 4294967296 \<Longrightarrow> op_bytes (OpField v) = le_bytes 4 (length v) @ v"
  by (simp add: op_bytes_def tr_field_def u32_of_usize_def Let_def unat_of_nat take_bit_nat_eq_self)

lemma le_bytes_4_eq:
  "m < 4294967296 \<Longrightarrow> n < 4294967296 \<Longrightarrow> le_bytes 4 m = le_bytes 4 n \<Longrightarrow> m = n"
  by (drule arg_cong [of _ _ le_nat]) (simp add: le_nat_le_bytes)

lemma op_bytes_self_delimiting:
  assumes "same_shape a b" and "op_bytes a @ u = op_bytes b @ v"
  shows "a = b \<and> u = v"
  using assms
proof (cases "(a, b)" rule: same_shape.cases)
  case (6 x y)
  then have *: "le_bytes 4 (length x) @ x @ u = le_bytes 4 (length y) @ y @ v"
    and "length x < 4294967296" "length y < 4294967296"
    using assms by (simp_all add: tr_field_bytes)
  moreover from * have "le_bytes 4 (length x) = le_bytes 4 (length y)" "x @ u = y @ v"
    by (simp_all add: append_eq_append_conv)
  ultimately have "length x = length y" by (blast intro: le_bytes_4_eq)
  with \<open>x @ u = y @ v\<close> show ?thesis using 6 by simp
qed (auto simp: op_bytes_def transcript_defs)

lemma ops_determined:
  assumes "list_all2 same_shape xs ys" and "concat (map op_bytes xs) = concat (map op_bytes ys)"
  shows "xs = ys"
  using assms by (induction rule: list_all2_induct) (auto dest: op_bytes_self_delimiting)

section \<open>A concrete instance of the primitives\<close>

text \<open>
  For evaluating examples: digests that keep the first 32 bytes, a MAC that ignores its key, a
  signature scheme in which the signature is 32 zero bytes followed by the public key, a derivation
  that repeats its input, an encryption that appends a tag of zeros and an agreement by addition.
\<close>

definition first_32 :: "bytes \<Rightarrow> bytes" where
  "first_32 m = take 32 (m @ replicate 32 0)"

definition demo_crates :: Crates where
  "demo_crates =
     \<lparr>blake3_hash = first_32, sha256_digest = first_32, hmac_sha256 = (\<lambda>k m. Some (first_32 m)),
      ct_eq = (=), ed25519_key_ok = (\<lambda>k. length k = 32),
      ed25519_verify_strict = (\<lambda>k m s. s = replicate 32 0 @ k),
      hkdf_sha256 = (\<lambda>salt ikm info n. if n \<le> 8160 then Some (take n (ikm @ replicate n 0)) else None),
      hkdf_from_prk = (\<lambda>prk info n. if n \<le> 8160 then Some (take n (prk @ replicate n 0)) else None),
      xchacha_encrypt = (\<lambda>k n a m. Some (m @ replicate 16 0)),
      xchacha_decrypt = (\<lambda>k n a ct.
        if 16 \<le> length ct \<and> drop (length ct - 16) ct = replicate 16 0 then Some (take (length ct - 16) ct) else None),
      x25519_base = (\<lambda>k. k), x25519_dh = map2 (+), p256_point_ok = (\<lambda>p. True)\<rparr>"

lemma demo_crates_laws: "ct_eq_sound demo_crates" "hmac_total demo_crates" "digests_32 demo_crates"
proof -
  have "length (first_32 m) = 32" for m by (auto simp: first_32_def min_def)
  then show "ct_eq_sound demo_crates" "hmac_total demo_crates" "digests_32 demo_crates"
    by (simp_all add: ct_eq_sound_def hmac_total_def digests_32_def demo_crates_def)
qed

lemma demo_crates_more_laws: "hkdf_total demo_crates" "aead_correct demo_crates" "dh_commutes demo_crates"
proof -
  have "map2 (+) a b = map2 (+) b (a :: bytes)" for a b
    by (induction a b rule: list_induct2') (simp_all add: add.commute)
  then show "dh_commutes demo_crates" unfolding dh_commutes_def demo_crates_def by simp
  show "hkdf_total demo_crates" "aead_correct demo_crates"
    by (auto simp: hkdf_total_def aead_correct_def demo_crates_def min_def)
qed

section \<open>Properties\<close>

text \<open>
  C27.  Transcripts of different domains never collide, whatever is written into them, and within
  one domain a transcript determines everything written into it.  The registered labels are
  distinct and none is a prefix of another; two transcripts with registered labels have equal bytes
  only when the labels are equal, and when moreover their writes follow the same layout (the same
  kinds of write in the same order, fixed values of the same length, fields below four gigabytes)
  only when all written values are equal.
\<close>

theorem transcript_unambiguous:
  assumes "l \<in> set LABEL_ALL" and "m \<in> set LABEL_ALL"
    and "tr_buf (fold run_op xs (transcript_new l)) = tr_buf (fold run_op ys (transcript_new m))"
  shows "l = m \<and> (list_all2 same_shape xs ys \<longrightarrow> xs = ys) \<and>
     distinct LABEL_ALL \<and> (\<forall>a \<in> set LABEL_ALL. \<forall>b \<in> set LABEL_ALL. prefix a b \<longrightarrow> a = b)"
proof -
  from assms(3) have eq: "l @ 0 # concat (map op_bytes xs) = m @ 0 # concat (map op_bytes ys)"
    by (simp add: fold_run_op_buf transcript_new_def)
  then have "prefix l m \<or> prefix m l"
    by (metis prefix_def prefix_same_cases)
  with assms(1,2) have "l = m" using labels_prefix_free by metis
  moreover from eq this have "concat (map op_bytes xs) = concat (map op_bytes ys)" by simp
  then have "xs = ys" if "list_all2 same_shape xs ys" using ops_determined that by blast
  ultimately show ?thesis using labels_distinct labels_prefix_free by blast
qed

theorem transcript_unambiguous_witness:
  "[OpFixed [1, 2], OpField [3]] = [OpFixed [1, 2], OpField [3]] \<and> distinct LABEL_ALL \<and>
     tr_buf (fold run_op [OpFixed [1, 2]] (transcript_new FOOTER_IMPRINT)) \<noteq>
       tr_buf (fold run_op [OpField [3], OpU8 4] (transcript_new AUTHOR_ORDER))"
proof -
  have known: "FOOTER_IMPRINT \<in> set LABEL_ALL" "AUTHOR_ORDER \<in> set LABEL_ALL" by (simp_all add: LABEL_ALL_def)
  have "FOOTER_IMPRINT \<noteq> AUTHOR_ORDER" by (simp add: FOOTER_IMPRINT_def AUTHOR_ORDER_def ascii_def)
  then have "tr_buf (fold run_op [OpFixed [1, 2]] (transcript_new FOOTER_IMPRINT)) \<noteq>
       tr_buf (fold run_op [OpField [3], OpU8 4] (transcript_new AUTHOR_ORDER))"
    using transcript_unambiguous [OF known] by blast
  with transcript_unambiguous [OF known(1) known(1) refl, of "[OpFixed [1, 2], OpField [3]]"] show ?thesis by simp
qed

end
