(* ===== verification/OC_Content.thy ===== *)
theory OC_Content
  imports OC_Tlv OC_Layout OC_Crypto
begin

text \<open>
  The two records that follow the header: the content description with its editor signature
  (\<^verbatim>\<open>oc-format/src/content.rs\<close>) and the footer (\<^verbatim>\<open>oc-format/src/footer.rs\<close>).  A description is
  authenticated by a MAC over the file identifier and its body, and the body is parsed only
  after the MAC has been checked.
\<close>

section \<open>Footer\<close>

definition MAX_FOOTER_LEN :: nat where "MAX_FOOTER_LEN = 32 * 1024"
definition MAX_TOKEN_LEN :: nat where "MAX_TOKEN_LEN = 16 * 1024"

abbreviation (input) FOOTER_TIMESTAMP :: u16 where "FOOTER_TIMESTAMP \<equiv> 1"

record Footer =
  ft_timestamp :: bytes

definition footer_encode :: "Footer \<Rightarrow> FormatError + bytes" where
  "footer_encode f =
     bindR (ensure (\<not> (ft_timestamp f = [] \<or> length (ft_timestamp f) > MAX_TOKEN_LEN))
       (BadFieldLength FOOTER_TIMESTAMP (length (ft_timestamp f)))) (\<lambda>_.
     bindR (put FOOTER_TIMESTAMP (ft_timestamp f) writer_new) (\<lambda>w.
     Inr (finish w)))"

definition footer_body :: "Field \<Rightarrow> bytes option \<Rightarrow> FormatError + bytes option" where
  "footer_body field timestamp =
     (if fld_tag field = FOOTER_TIMESTAMP then
        (if fld_value field = [] \<or> length (fld_value field) > MAX_TOKEN_LEN
         then Inl (BadFieldLength (fld_tag field) (length (fld_value field)))
         else Inr (Some (fld_value field)))
      else case unknown_tag_action (fld_tag field) of
          Refuse \<Rightarrow> Inl (UnknownCriticalField (fld_tag field))
        | Ignore \<Rightarrow> Inr timestamp)"

definition footer_decode :: "bytes \<Rightarrow> FormatError + Footer" where
  "footer_decode bs =
     bindR (ensure (\<not> length bs > MAX_FOOTER_LEN) (BadFieldLength 0 (length bs))) (\<lambda>_.
     bindR (tlv_loop footer_body (reader_new bs) None) (\<lambda>timestamp.
     bindR (ok_or (MissingField FOOTER_TIMESTAMP) timestamp) (\<lambda>t.
     Inr \<lparr>ft_timestamp = t\<rparr>)))"

definition imprint :: "Crates \<Rightarrow> bytes \<Rightarrow> bytes \<Rightarrow> u64 \<Rightarrow> u64 \<Rightarrow> bytes" where
  "imprint c core_hash tree_root total_len version_counter =
     (let t = transcript_new FOOTER_IMPRINT;
          t = tr_fixed core_hash t;
          t = tr_fixed tree_root t;
          t = tr_u64be total_len t;
          t = tr_u64be version_counter t
      in sha256 c (tr_buf t))"

section \<open>Editor signature\<close>

abbreviation (input) CD_TOTAL_LEN :: u16 where "CD_TOTAL_LEN \<equiv> 1"
abbreviation (input) CD_CHUNK_COUNT :: u16 where "CD_CHUNK_COUNT \<equiv> 2"
abbreviation (input) CD_TREE_ROOT :: u16 where "CD_TREE_ROOT \<equiv> 3"
abbreviation (input) CD_VERSION_COUNTER :: u16 where "CD_VERSION_COUNTER \<equiv> 4"
abbreviation (input) CD_FOOTER_OFFSET :: u16 where "CD_FOOTER_OFFSET \<equiv> 5"
abbreviation (input) CD_EDITOR :: u16 where "CD_EDITOR \<equiv> 6"

abbreviation (input) ED_SIG_ALG :: u16 where "ED_SIG_ALG \<equiv> 1"
abbreviation (input) ED_SESSION_HEAD :: u16 where "ED_SESSION_HEAD \<equiv> 2"
abbreviation (input) ED_JOURNAL_HEAD :: u16 where "ED_JOURNAL_HEAD \<equiv> 3"
abbreviation (input) ED_CERTIFIED_BY :: u16 where "ED_CERTIFIED_BY \<equiv> 4"
abbreviation (input) ED_SIGNATURE :: u16 where "ED_SIGNATURE \<equiv> 5"

definition FIRST_EDITING_VERSION :: u16 where "FIRST_EDITING_VERSION = 4"
definition MODULUS_LEN :: nat where "MODULUS_LEN = 256"
definition EDITOR_SIGNATURE_LEN :: nat where "EDITOR_SIGNATURE_LEN = MODULUS_LEN"
definition JOURNAL_HEAD_LEN :: nat where "JOURNAL_HEAD_LEN = 40"
definition MAX_CERTIFIED_BY_LEN :: nat where "MAX_CERTIFIED_BY_LEN = 8 * 1024"
definition MAX_CONTENT_DESC_LEN :: u32 where "MAX_CONTENT_DESC_LEN = 64 * 1024"
definition LEN_PREFIX :: nat where "LEN_PREFIX = 4"

record JournalHead =
  jh_size :: u64
  jh_root :: bytes

record EditorSignature =
  ed_sig_alg :: SigAlg
  ed_session_head :: bytes
  ed_journal_head :: "JournalHead option"
  ed_certified_by :: bytes
  ed_signature :: bytes

definition journal_head_bytes :: "JournalHead option \<Rightarrow> bytes" where
  "journal_head_bytes h = (case h of Some j \<Rightarrow> le64 (jh_size j) @ jh_root j | None \<Rightarrow> [])"

definition editor_encode :: "EditorSignature \<Rightarrow> FormatError + bytes" where
  "editor_encode e =
     bindR (ensure (\<not> length (ed_signature e) \<noteq> EDITOR_SIGNATURE_LEN)
       (BadFieldLength ED_SIGNATURE (length (ed_signature e)))) (\<lambda>_.
     bindR (ensure (\<not> length (ed_certified_by e) > MAX_CERTIFIED_BY_LEN)
       (BadFieldLength ED_CERTIFIED_BY (length (ed_certified_by e)))) (\<lambda>_.
     bindR (put_all
       [(ED_SIG_ALG, [sig_u8 (ed_sig_alg e)]),
        (ED_SESSION_HEAD, ed_session_head e),
        (ED_JOURNAL_HEAD, journal_head_bytes (ed_journal_head e)),
        (ED_CERTIFIED_BY, ed_certified_by e),
        (ED_SIGNATURE, ed_signature e)] writer_new) (\<lambda>w.
     Inr (finish w))))"

record EditorDecoder =
  edd_sig_alg :: "SigAlg option"
  edd_session_head :: "bytes option"
  edd_journal_head :: "JournalHead option option"
  edd_certified_by :: "bytes option"
  edd_signature :: "bytes option"

definition editor_decode_start :: EditorDecoder where
  "editor_decode_start =
     \<lparr>edd_sig_alg = None, edd_session_head = None, edd_journal_head = None,
      edd_certified_by = None, edd_signature = None\<rparr>"

definition decode_journal_head :: "Field \<Rightarrow> FormatError + JournalHead option" where
  "decode_journal_head field =
     (if length (fld_value field) = 0 then Inr None
      else if length (fld_value field) = JOURNAL_HEAD_LEN then
        bindR (field_array JOURNAL_HEAD_LEN field) (\<lambda>bs.
        Inr (Some \<lparr>jh_size = of_le (take 8 bs), jh_root = drop 8 bs\<rparr>))
      else Inl (BadFieldLength (fld_tag field) (length (fld_value field))))"

definition editor_body :: "Field \<Rightarrow> EditorDecoder \<Rightarrow> FormatError + EditorDecoder" where
  "editor_body field d =
     (let tag = fld_tag field in
      if tag = ED_SIG_ALG then
        bindR (field_u8 field) (\<lambda>b.
        bindR (map_err (BadFieldLength tag 1) (sig_from_u8 b)) (\<lambda>parsed.
        bindR (ensure (\<not> parsed \<noteq> RsaPssSha256) (BadFieldLength tag 1)) (\<lambda>_.
        Inr (d\<lparr>edd_sig_alg := Some parsed\<rparr>))))
      else if tag = ED_SESSION_HEAD then
        bindR (field_array 32 field) (\<lambda>v. Inr (d\<lparr>edd_session_head := Some v\<rparr>))
      else if tag = ED_JOURNAL_HEAD then
        bindR (decode_journal_head field) (\<lambda>v. Inr (d\<lparr>edd_journal_head := Some v\<rparr>))
      else if tag = ED_CERTIFIED_BY then
        bindR (ensure (\<not> length (fld_value field) > MAX_CERTIFIED_BY_LEN)
          (BadFieldLength tag (length (fld_value field)))) (\<lambda>_.
        Inr (d\<lparr>edd_certified_by := Some (fld_value field)\<rparr>))
      else if tag = ED_SIGNATURE then
        bindR (ensure (\<not> length (fld_value field) \<noteq> EDITOR_SIGNATURE_LEN)
          (BadFieldLength tag (length (fld_value field)))) (\<lambda>_.
        Inr (d\<lparr>edd_signature := Some (fld_value field)\<rparr>))
      else case unknown_tag_action tag of
          Refuse \<Rightarrow> Inl (UnknownCriticalField tag)
        | Ignore \<Rightarrow> Inr d)"

definition editor_decode :: "bytes \<Rightarrow> FormatError + EditorSignature" where
  "editor_decode value =
     bindR (tlv_loop editor_body (reader_new value) editor_decode_start) (\<lambda>d.
     bindR (ok_or (MissingField ED_SIG_ALG) (edd_sig_alg d)) (\<lambda>sig_alg.
     bindR (ok_or (MissingField ED_SESSION_HEAD) (edd_session_head d)) (\<lambda>session_head.
     bindR (ok_or (MissingField ED_JOURNAL_HEAD) (edd_journal_head d)) (\<lambda>journal_head.
     bindR (ok_or (MissingField ED_CERTIFIED_BY) (edd_certified_by d)) (\<lambda>certified_by.
     bindR (ok_or (MissingField ED_SIGNATURE) (edd_signature d)) (\<lambda>signature.
     Inr \<lparr>ed_sig_alg = sig_alg, ed_session_head = session_head, ed_journal_head = journal_head,
          ed_certified_by = certified_by, ed_signature = signature\<rparr>))))))"

section \<open>Content description\<close>

record ContentDesc =
  cd_total_len :: u64
  cd_chunk_count :: u32
  cd_tree_root :: bytes
  cd_version_counter :: u64
  cd_footer_offset :: "u64 option"
  cd_editor :: "EditorSignature option"

definition mac_transcript :: "bytes \<Rightarrow> bytes \<Rightarrow> Transcript" where
  "mac_transcript file_id body = tr_field body (tr_fixed file_id (transcript_new CONTENT_MAC))"

definition encode_body :: "u16 \<Rightarrow> ContentDesc \<Rightarrow> FormatError + bytes" where
  "encode_body version d =
     bindR (ensure (\<not> (cd_editor d \<noteq> None \<and> version < FIRST_EDITING_VERSION))
       (UnknownCriticalField CD_EDITOR)) (\<lambda>_.
     bindR (put_all
       [(CD_TOTAL_LEN, le64 (cd_total_len d)),
        (CD_CHUNK_COUNT, le32 (cd_chunk_count d)),
        (CD_TREE_ROOT, cd_tree_root d),
        (CD_VERSION_COUNTER, le64 (cd_version_counter d))] writer_new) (\<lambda>w.
     bindR (put_opt CD_FOOTER_OFFSET (map_option (\<lambda>n. le64 n) (cd_footer_offset d)) w) (\<lambda>w.
     bindR (case cd_editor d of
              Some editor \<Rightarrow> bindR (editor_encode editor) (\<lambda>bs. put CD_EDITOR bs w)
            | None \<Rightarrow> Inr w) (\<lambda>w.
     Inr (finish w)))))"

record ContentDecoder =
  cdd_total_len :: "u64 option"
  cdd_chunk_count :: "u32 option"
  cdd_tree_root :: "bytes option"
  cdd_version_counter :: "u64 option"
  cdd_footer_offset :: "u64 option"
  cdd_editor :: "EditorSignature option"

definition content_decode_start :: ContentDecoder where
  "content_decode_start =
     \<lparr>cdd_total_len = None, cdd_chunk_count = None, cdd_tree_root = None,
      cdd_version_counter = None, cdd_footer_offset = None, cdd_editor = None\<rparr>"

definition content_body :: "u16 \<Rightarrow> Field \<Rightarrow> ContentDecoder \<Rightarrow> FormatError + ContentDecoder" where
  "content_body version field d =
     (let tag = fld_tag field in
      if tag = CD_TOTAL_LEN then
        bindR (field_u64 field) (\<lambda>v. Inr (d\<lparr>cdd_total_len := Some v\<rparr>))
      else if tag = CD_CHUNK_COUNT then
        bindR (field_u32 field) (\<lambda>v. Inr (d\<lparr>cdd_chunk_count := Some v\<rparr>))
      else if tag = CD_TREE_ROOT then
        bindR (field_array 32 field) (\<lambda>v. Inr (d\<lparr>cdd_tree_root := Some v\<rparr>))
      else if tag = CD_VERSION_COUNTER then
        bindR (field_u64 field) (\<lambda>v. Inr (d\<lparr>cdd_version_counter := Some v\<rparr>))
      else if tag = CD_FOOTER_OFFSET then
        bindR (field_u64 field) (\<lambda>v. Inr (d\<lparr>cdd_footer_offset := Some v\<rparr>))
      else if tag = CD_EDITOR \<and> version \<ge> FIRST_EDITING_VERSION then
        bindR (editor_decode (fld_value field)) (\<lambda>v. Inr (d\<lparr>cdd_editor := Some v\<rparr>))
      else case unknown_tag_action tag of
          Refuse \<Rightarrow> Inl (UnknownCriticalField tag)
        | Ignore \<Rightarrow> Inr d)"

definition decode_body :: "u16 \<Rightarrow> bytes \<Rightarrow> FormatError + ContentDesc" where
  "decode_body version body =
     bindR (tlv_loop (content_body version) (reader_new body) content_decode_start) (\<lambda>d.
     bindR (ok_or (MissingField CD_TOTAL_LEN) (cdd_total_len d)) (\<lambda>total_len.
     bindR (ok_or (MissingField CD_CHUNK_COUNT) (cdd_chunk_count d)) (\<lambda>chunk_count.
     bindR (ok_or (MissingField CD_TREE_ROOT) (cdd_tree_root d)) (\<lambda>tree_root.
     bindR (ok_or (MissingField CD_VERSION_COUNTER) (cdd_version_counter d)) (\<lambda>version_counter.
     bindR (ensure (\<not> chunk_count = 0) (ChunkCountMismatch 1 0)) (\<lambda>_.
     Inr \<lparr>cd_total_len = total_len, cd_chunk_count = chunk_count, cd_tree_root = tree_root,
          cd_version_counter = version_counter, cd_footer_offset = cdd_footer_offset d,
          cd_editor = cdd_editor d\<rparr>))))))"

definition content_encode :: "Crates \<Rightarrow> bytes \<Rightarrow> bytes \<Rightarrow> u16 \<Rightarrow> ContentDesc \<Rightarrow> FormatError + bytes" where
  "content_encode c key file_id version d =
     bindR (ensure (\<not> cd_chunk_count d = 0) (ChunkCountMismatch 1 0)) (\<lambda>_.
     bindR (encode_body version d) (\<lambda>body.
     bindR (ok_or OffsetOverflow (u32_of_usize (length body))) (\<lambda>body_len.
     bindR (ensure (\<not> body_len > MAX_CONTENT_DESC_LEN) (ContentDescTooLarge body_len)) (\<lambda>_.
     bindR (map_err BadContentMac (mac_compute c key (mac_transcript file_id body))) (\<lambda>tag.
     Inr (le32 body_len @ body @ tag))))))"

definition decode_verified_with_body ::
    "Crates \<Rightarrow> bytes \<Rightarrow> bytes \<Rightarrow> u16 \<Rightarrow> bytes \<Rightarrow> FormatError + (ContentDesc \<times> bytes \<times> nat)" where
  "decode_verified_with_body c key file_id version bs =
     bindR (ok_or (Truncated LEN_PREFIX (length bs)) (map_option of_le (get_range bs 0 LEN_PREFIX)))
       (\<lambda>declared :: u32.
     bindR (ensure (\<not> declared > MAX_CONTENT_DESC_LEN) (ContentDescTooLarge declared)) (\<lambda>_.
     bindR (ok_or OffsetOverflow (checked_add_usize LEN_PREFIX (unat declared))) (\<lambda>body_end.
     bindR (ok_or OffsetOverflow (checked_add_usize body_end MAC_LEN)) (\<lambda>read.
     bindR (ok_or (Truncated read (length bs)) (get_range bs LEN_PREFIX body_end)) (\<lambda>body.
     bindR (ok_or (Truncated read (length bs)) (get_range bs body_end read)) (\<lambda>tag.
     bindR (map_err BadContentMac (mac_verify c key (mac_transcript file_id body) tag)) (\<lambda>_.
     bindR (decode_body version body) (\<lambda>desc.
     Inr (desc, body, read)))))))))"

definition decode_verified ::
    "Crates \<Rightarrow> bytes \<Rightarrow> bytes \<Rightarrow> u16 \<Rightarrow> bytes \<Rightarrow> FormatError + (ContentDesc \<times> nat)" where
  "decode_verified c key file_id version bs =
     map_sum id (\<lambda>(desc, _, read). (desc, read)) (decode_verified_with_body c key file_id version bs)"

definition body_bytes :: "u16 \<Rightarrow> ContentDesc \<Rightarrow> FormatError + bytes" where
  "body_bytes version d = encode_body version d"

definition check_against_chunk_size :: "u32 \<Rightarrow> ContentDesc \<Rightarrow> FormatError + unit" where
  "check_against_chunk_size chunk_size d =
     map_sum id (\<lambda>_. ()) (layout_new chunk_size (cd_chunk_count d) (cd_total_len d) 0)"

section \<open>Editor signatures round-trip\<close>

definition editor_wf :: "EditorSignature \<Rightarrow> bool" where
  "editor_wf e \<longleftrightarrow>
     ed_sig_alg e = RsaPssSha256 \<and> length (ed_session_head e) = 32 \<and>
     (\<forall>j. ed_journal_head e = Some j \<longrightarrow> length (jh_root j) = 32) \<and>
     length (ed_certified_by e) \<le> MAX_CERTIFIED_BY_LEN \<and> length (ed_signature e) = EDITOR_SIGNATURE_LEN"

definition editor_fields :: "EditorSignature \<Rightarrow> (u16 \<times> bytes) list" where
  "editor_fields e =
     [(ED_SIG_ALG, [sig_u8 (ed_sig_alg e)]),
      (ED_SESSION_HEAD, ed_session_head e),
      (ED_JOURNAL_HEAD, journal_head_bytes (ed_journal_head e)),
      (ED_CERTIFIED_BY, ed_certified_by e),
      (ED_SIGNATURE, ed_signature e)]"

lemmas editor_consts =
  EDITOR_SIGNATURE_LEN_def MODULUS_LEN_def MAX_CERTIFIED_BY_LEN_def JOURNAL_HEAD_LEN_def

lemma journal_head_round_trip:
  "(\<And>j. h = Some j \<Longrightarrow> length (jh_root j) = 32) \<Longrightarrow>
   decode_journal_head \<lparr>fld_tag = t, fld_value = journal_head_bytes h, fld_start = a, fld_end = b\<rparr> = Inr h"
  by (cases h) (simp_all add: journal_head_bytes_def decode_journal_head_def editor_consts)

lemma length_journal_head: "(\<And>j. h = Some j \<Longrightarrow> length (jh_root j) = 32) \<Longrightarrow> length (journal_head_bytes h) \<le> 40"
  by (cases h) (simp_all add: journal_head_bytes_def)

lemma editor_fields_ok:
  assumes "editor_wf e"
  shows "ascending None (editor_fields e)" and "length (enc_fields (editor_fields e)) \<le> 8551"
  using assms length_journal_head [of "ed_journal_head e"]
  by (auto simp: editor_wf_def editor_fields_def editor_consts)

lemma editor_encode_eq:
  assumes "editor_wf e"
  shows "editor_encode e = Inr (enc_fields (editor_fields e))"
  using put_all_new_bind [OF editor_fields_ok(1) [OF assms]] editor_fields_ok(2) [OF assms] assms
  by (simp add: editor_encode_def editor_fields_def editor_wf_def del: put_all_simps)

lemma editor_decode_eq:
  assumes "editor_wf e"
  shows "editor_decode (enc_fields (editor_fields e)) = Inr e"
proof -
  have "tlv_loop editor_body (reader_new (enc_fields (editor_fields e))) editor_decode_start =
      foldR editor_body (fields_at 0 (editor_fields e)) editor_decode_start"
    using editor_fields_ok [OF assms] by (intro tlv_loop_enc) simp_all
  moreover have "foldR editor_body (fields_at 0 (editor_fields e)) editor_decode_start =
      Inr \<lparr>edd_sig_alg = Some (ed_sig_alg e), edd_session_head = Some (ed_session_head e),
        edd_journal_head = Some (ed_journal_head e), edd_certified_by = Some (ed_certified_by e),
        edd_signature = Some (ed_signature e)\<rparr>"
    using assms
    by (simp add: editor_fields_def editor_body_def Let_def editor_wf_def journal_head_round_trip
        editor_decode_start_def from_u8_round_trip(1) [of RsaPssSha256, simplified])
  ultimately show ?thesis by (simp add: editor_decode_def)
qed

interpretation editor_codec: total_codec editor_encode editor_decode editor_wf
  by unfold_locales (auto simp: editor_encode_eq editor_decode_eq)

section \<open>Content descriptions round-trip\<close>

definition content_wf :: "u16 \<Rightarrow> ContentDesc \<Rightarrow> bool" where
  "content_wf version d \<longleftrightarrow>
     cd_chunk_count d \<noteq> 0 \<and> length (cd_tree_root d) = 32 \<and>
     (\<forall>e. cd_editor d = Some e \<longrightarrow> editor_wf e \<and> FIRST_EDITING_VERSION \<le> version)"

definition content_fields :: "ContentDesc \<Rightarrow> (u16 \<times> bytes) list" where
  "content_fields d =
     [(CD_TOTAL_LEN, le64 (cd_total_len d)),
      (CD_CHUNK_COUNT, le32 (cd_chunk_count d)),
      (CD_TREE_ROOT, cd_tree_root d),
      (CD_VERSION_COUNTER, le64 (cd_version_counter d))] @
     opt_field CD_FOOTER_OFFSET (map_option (\<lambda>n. le64 n) (cd_footer_offset d)) @
     opt_field CD_EDITOR (map_option (\<lambda>e. enc_fields (editor_fields e)) (cd_editor d))"

lemma content_fields_ok:
  assumes "content_wf v d"
  shows "ascending None (content_fields d)" and "length (enc_fields (content_fields d)) \<le> 8661"
  using assms editor_fields_ok(2)
  by (cases "cd_footer_offset d"; cases "cd_editor d"; force simp: content_fields_def content_wf_def)+

lemma encode_body_eq:
  assumes "content_wf v d"
  shows "encode_body v d = Inr (enc_fields (content_fields d))"
proof -
  have "encode_body v d = bindR (put_all (content_fields d) writer_new) (\<lambda>w. Inr (finish w))"
    using assms
    by (cases "cd_editor d")
      (auto simp: encode_body_def content_fields_def content_wf_def put_opt_all put_all_append bindR_assoc
        editor_encode_eq put_all_one not_less simp del: put_all_simps append_Cons)
  also have "\<dots> = Inr (enc_fields (content_fields d))"
    using content_fields_ok [OF assms] by (intro put_all_new_bind) simp_all
  finally show ?thesis .
qed

lemma decode_body_eq:
  assumes "content_wf v d"
  shows "decode_body v (enc_fields (content_fields d)) = Inr d"
proof -
  have loop: "tlv_loop (content_body v) (reader_new (enc_fields (content_fields d))) content_decode_start =
      foldR (content_body v) (fields_at 0 (content_fields d)) content_decode_start"
    using content_fields_ok [OF assms] by (intro tlv_loop_enc) simp_all
  show ?thesis
    using assms unfolding decode_body_def loop
    by (cases "cd_footer_offset d"; cases "cd_editor d")
      (simp_all add: content_fields_def content_body_def Let_def content_wf_def editor_decode_eq
        content_decode_start_def ContentDesc.equality)
qed

interpretation content_codec: total_codec "encode_body v" "decode_body v" "content_wf v" for v
  by unfold_locales (auto simp: encode_body_eq decode_body_eq)

section \<open>Framing and authentication\<close>

lemmas content_consts = LEN_PREFIX_def MAC_LEN_def MAX_CONTENT_DESC_LEN_def

lemma unat_declared:
  "n \<le> 65536 \<Longrightarrow> (of_le (le_bytes 4 n) :: u32) = word_of_nat n"
  "n \<le> 65536 \<Longrightarrow> unat (word_of_nat n :: u32) = n"
  by (simp_all add: of_le_def le_nat_le_bytes unat_of_nat take_bit_nat_eq_self)

text \<open>The decoder on framed bytes, as an equation: the MAC decides before the body is read.\<close>

lemma decode_verified_framed:
  assumes "ct_eq_sound c" and "length body \<le> 65536" and "length tag = 32"
  shows "decode_verified_with_body c key file_id version (le_bytes 4 (length body) @ body @ tag @ rest) =
     (if hmac_sha256 c key (tr_buf (mac_transcript file_id body)) = Some tag
      then bindR (decode_body version body) (\<lambda>desc. Inr (desc, body, length body + 36))
      else Inl BadContentMac)"
proof -
  let ?n = "length body" and ?w = "word_of_nat (length body) :: u32"
  have n: "unat ?w = ?n" "\<not> ?w > 0x10000"
    using assms(2) by (simp_all add: unat_declared word_less_nat_alt)
  have g: "get_range (le_bytes 4 ?n @ body @ tag @ rest) 4 (4 + ?n) = Some body"
    "get_range (le_bytes 4 ?n @ body @ tag @ rest) (4 + ?n) (36 + ?n) = Some tag"
    using assms(3) by (simp_all add: get_range_def)
  have m: "map_err BadContentMac (mac_verify c key t tag) =
      (if hmac_sha256 c key (tr_buf t) = Some tag then Inr () else Inl BadContentMac)" for t
    using assms(1,3)
    by (cases "hmac_sha256 c key (tr_buf t)")
      (auto simp: mac_verify_def mac_compute_def MAC_LEN_def ct_eq_sound_def)
  show ?thesis
    using assms(2) n g
    by (simp add: decode_verified_with_body_def content_consts checked_add_usize_def unat_declared m add.commute
        get_range_def [of _ 0])
qed

lemma decode_verified_frame:
  assumes "decode_verified_with_body c key file_id version bs = Inr (desc, body, read)"
  shows "\<exists>tag rest. bs = le_bytes 4 (length body) @ body @ tag @ rest \<and> length tag = 32 \<and> length body \<le> 65536"
proof -
  define n where "n = unat (of_le (take 4 bs) :: u32)"
  from assms have "4 \<le> length bs" "n \<le> 65536" and lens: "n + 36 \<le> length bs"
    and body: "body = slice bs 4 (4 + n)"
    by (auto simp: decode_verified_with_body_def result_simps content_consts get_range_eq_Some
        get_range_def [of _ 0] n_def checked_add_usize_def not_less word_le_nat_alt split: if_splits)
  define tag where "tag = slice bs (4 + n) (36 + n)"
  have "length body = n" "length tag = 32" using lens by (simp_all add: body tag_def slice_length)
  moreover have "take 4 bs = le_bytes 4 n"
    using le_bytes_of_le32 [of "take 4 bs"] \<open>4 \<le> length bs\<close> by (simp add: n_def)
  moreover have "bs = take 4 bs @ body @ tag @ drop (36 + n) bs"
    unfolding body tag_def
    using drop_eq_slice_append [of 4 "4 + n" bs] drop_eq_slice_append [of "4 + n" "36 + n" bs]
    by (metis append_take_drop_id le_add1 le_add2 add_le_mono1 numeral_le_iff semiring_norm(68,71,72) order_refl)
  ultimately show ?thesis using \<open>n \<le> 65536\<close> by metis
qed

lemma content_encode_eq:
  assumes "hmac_total c" and "content_wf v d"
  shows "\<exists>tag. length tag = 32 \<and>
     hmac_sha256 c key (tr_buf (mac_transcript file_id (enc_fields (content_fields d)))) = Some tag \<and>
     content_encode c key file_id v d =
       Inr (le_bytes 4 (length (enc_fields (content_fields d))) @ enc_fields (content_fields d) @ tag)"
proof -
  let ?body = "enc_fields (content_fields d)"
  have len: "length ?body \<le> 65536" using content_fields_ok(2) [OF assms(2)] by simp
  obtain tag where tag: "hmac_sha256 c key (tr_buf (mac_transcript file_id ?body)) = Some tag" "length tag = 32"
    using assms(1) unfolding hmac_total_def by blast
  have "\<not> (word_of_nat (length ?body) :: u32) > 0x10000" "unat (word_of_nat (length ?body) :: u32) = length ?body"
    using len by (simp_all add: unat_declared word_less_nat_alt)
  then have "content_encode c key file_id v d = Inr (le_bytes 4 (length ?body) @ ?body @ tag)"
    using assms(2) len tag
    by (simp add: content_encode_def encode_body_eq content_wf_def u32_of_usize_def content_consts mac_compute_def)
  with tag show ?thesis by blast
qed

lemma content_decode_with_body:
  assumes "hmac_total c" and "ct_eq_sound c" and "content_wf version d"
  shows "\<exists>bs. content_encode c key file_id version d = Inr bs \<and>
     (\<forall>rest. decode_verified_with_body c key file_id version (bs @ rest) = Inr (d, enc_fields (content_fields d), length bs))"
proof -
  let ?body = "enc_fields (content_fields d)"
  obtain tag where tag: "length tag = 32" "hmac_sha256 c key (tr_buf (mac_transcript file_id ?body)) = Some tag"
    and enc: "content_encode c key file_id version d = Inr (le_bytes 4 (length ?body) @ ?body @ tag)"
    using content_encode_eq [OF assms(1,3)] by blast
  have "decode_verified_with_body c key file_id version (le_bytes 4 (length ?body) @ ?body @ tag @ rest) =
      Inr (d, ?body, length ?body + 36)" for rest
    using decode_verified_framed [OF assms(2) _ tag(1)] content_fields_ok(2) [OF assms(3)] tag(2)
    by (simp add: decode_body_eq [OF assms(3)])
  then show ?thesis using enc tag(1) by simp
qed

lemma content_decode_encode:
  assumes "hmac_total c" and "ct_eq_sound c" and "content_wf version d"
  shows "\<exists>bs. content_encode c key file_id version d = Inr bs \<and>
     decode_verified c key file_id version (bs @ rest) = Inr (d, length bs)"
  using content_decode_with_body [OF assms, of key file_id] by (auto simp: decode_verified_def)

text \<open>The message of the footer's imprint.\<close>

definition imprint_message :: "bytes \<Rightarrow> bytes \<Rightarrow> u64 \<Rightarrow> u64 \<Rightarrow> bytes" where
  "imprint_message core_hash tree_root total_len version_counter =
     FOOTER_IMPRINT @ [0] @ core_hash @ tree_root @ be_bytes 8 (unat total_len) @ be_bytes 8 (unat version_counter)"

section \<open>Properties\<close>

definition demo_content :: ContentDesc where
  "demo_content =
     \<lparr>cd_total_len = 5000000, cd_chunk_count = 77, cd_tree_root = replicate 32 0xAB,
      cd_version_counter = 3, cd_footer_offset = Some 4096, cd_editor = None\<rparr>"

lemma demo_content_wf: "content_wf v demo_content"
  by (simp add: content_wf_def demo_content_def)

text \<open>
  A content description round-trips through its authenticated frame.  Every well-formed
  description encodes, and decoding the encoding under the same key, file identifier and
  version returns the description and the length of the frame, whatever bytes follow it.
\<close>

theorem content_round_trip:
  assumes "hmac_total c" and "ct_eq_sound c" and "content_wf version d"
  shows "\<exists>bs. content_encode c key file_id version d = Inr bs \<and>
     decode_verified c key file_id version (bs @ rest) = Inr (d, length bs)"
  using assms by (rule content_decode_encode)

theorem content_round_trip_witness:
  "\<exists>bs. content_encode demo_crates [] (replicate 16 1) 5 demo_content = Inr bs \<and>
     decode_verified demo_crates [] (replicate 16 1) 5 (bs @ [9, 9]) = Inr (demo_content, length bs)"
  by (rule content_round_trip [OF demo_crates_laws(2,1) demo_content_wf])

text \<open>
  The MAC is the gate.  On any frame of admissible size the decoder's answer is decided by
  the MAC alone before the body matters: with a wrong tag the answer is the same error for
  every body, so a forged body cannot be told from a damaged one; with the right tag the answer
  is that of the body parser.
\<close>

theorem content_mac_gate:
  assumes "ct_eq_sound c" and "length body \<le> 65536" and "length tag = 32"
  shows "decode_verified c key file_id version (le_bytes 4 (length body) @ body @ tag @ rest) =
     (if hmac_sha256 c key (tr_buf (mac_transcript file_id body)) = Some tag
      then bindR (decode_body version body) (\<lambda>desc. Inr (desc, length body + 36))
      else Inl BadContentMac)"
  unfolding decode_verified_def decode_verified_framed [OF assms]
  by (cases "decode_body version body") simp_all

theorem content_mac_gate_witness:
  "decode_verified demo_crates [] (replicate 16 1) 5 (le_bytes 4 (length [7 :: byte]) @ [7] @ replicate 32 0 @ []) =
     Inl BadContentMac"
proof -
  have "hmac_sha256 demo_crates [] (tr_buf (mac_transcript (replicate 16 1) [7])) \<noteq> Some (replicate 32 0)"
  proof -
    obtain m where "tr_buf (mac_transcript (replicate 16 1) [7]) = 67 # m"
      by (simp add: mac_transcript_def transcript_defs CONTENT_MAC_def ascii_def Let_def)
    then have "hd (first_32 (tr_buf (mac_transcript (replicate 16 1) [7]))) = 67"
      by (simp add: first_32_def take_Cons')
    moreover have "hd (replicate 32 (0 :: byte)) = 0" by (simp add: hd_replicate)
    ultimately show ?thesis by (auto simp: demo_crates_def)
  qed
  then show ?thesis
    using content_mac_gate [OF demo_crates_laws(1), of "[7]" "replicate 32 0" "[]" "replicate 16 1" 5 "[]"] by simp
qed

text \<open>
  C4.  Nothing unauthenticated is returned.  Whenever the decoder accepts, its input begins with
  a length, a body and a 32-byte tag which is the MAC of that file identifier and that body under
  the key; the returned description is what the body parses to, with at least one chunk; the
  body is at most 64 KiB; and the reported length covers exactly these bytes.  The same bytes are
  accepted for another file identifier only if that tag is also the MAC of the other message,
  and the two messages are different.
\<close>

theorem content_accepts_only_authentic:
  assumes "ct_eq_sound c" and "decode_verified c key file_id version bs = Inr (d, read)"
  shows "\<exists>body tag rest. bs = le_bytes 4 (length body) @ body @ tag @ rest \<and> length tag = 32 \<and>
     hmac_sha256 c key (tr_buf (mac_transcript file_id body)) = Some tag \<and>
     decode_body version body = Inr d \<and> cd_chunk_count d \<noteq> 0 \<and> length body \<le> 65536 \<and> read = length body + 36 \<and>
     (\<forall>other v d'. decode_verified c key other v bs = Inr d' \<longrightarrow> length other = length file_id \<longrightarrow>
        hmac_sha256 c key (tr_buf (mac_transcript other body)) = Some tag \<and>
        (other \<noteq> file_id \<longrightarrow> tr_buf (mac_transcript other body) \<noteq> tr_buf (mac_transcript file_id body)))"
proof -
  from assms(2) obtain body where dec: "decode_verified_with_body c key file_id version bs = Inr (d, body, read)"
    unfolding decode_verified_def by (cases "decode_verified_with_body c key file_id version bs") auto
  obtain tag rest where bs: "bs = le_bytes 4 (length body) @ body @ tag @ rest"
    and len: "length tag = 32" "length body \<le> 65536"
    using decode_verified_frame [OF dec] by blast
  note eq = decode_verified_framed [OF assms(1) len(2,1), of key _ _ rest, folded bs]
  have mac: "hmac_sha256 c key (tr_buf (mac_transcript file_id body)) = Some tag"
    and d: "decode_body version body = Inr d" and read: "read = length body + 36"
    using dec by (auto simp: eq bindR_eq_Inr split: if_splits)
  have "cd_chunk_count d \<noteq> 0"
    using d by (auto simp: decode_body_def bindR_eq_Inr ensure_eq_Inr)
  moreover have "hmac_sha256 c key (tr_buf (mac_transcript other body)) = Some tag"
    if "decode_verified c key other v bs = Inr d'" for other v d'
    using that by (auto simp: decode_verified_def eq split: if_splits)
  moreover have "tr_buf (mac_transcript other body) \<noteq> tr_buf (mac_transcript file_id body)"
    if "length other = length file_id" "other \<noteq> file_id" for other
    using that by (simp add: mac_transcript_def transcript_defs Let_def)
  ultimately show ?thesis using bs len mac d read by blast
qed

theorem content_accepts_only_authentic_witness:
  "\<exists>bs body. decode_verified demo_crates [] (replicate 16 1) 5 bs = Inr (demo_content, length body + 36) \<and>
     decode_body 5 body = Inr demo_content"
proof -
  obtain bs where bs: "decode_verified demo_crates [] (replicate 16 1) 5 bs = Inr (demo_content, length bs)"
    using content_decode_encode [OF demo_crates_laws(2,1) demo_content_wf, of "[]" "replicate 16 1" 5 "[]"] by auto
  obtain body where "decode_body 5 body = Inr demo_content" "length bs = length body + 36"
    using content_accepts_only_authentic [OF demo_crates_laws(1) bs] by blast
  then show ?thesis using bs by metis
qed

text \<open>
  A footer is written exactly when its timestamp token is not empty and within the limit, and
  what is written is read back.  Its imprint is the SHA-256 digest of a message that determines
  the four values it is taken over: core hash, tree root, length and version counter.
\<close>

theorem footer_and_imprint:
  "(ft_timestamp f \<noteq> [] \<and> length (ft_timestamp f) \<le> MAX_TOKEN_LEN \<longleftrightarrow> is_ok (footer_encode f)) \<and>
   (\<forall>bs. footer_encode f = Inr bs \<longrightarrow> footer_decode bs = Inr f) \<and>
   imprint c h r n v = sha256_digest c (imprint_message h r n v) \<and>
   (length h = length h' \<and> length r = length r' \<longrightarrow>
      (imprint_message h r n v = imprint_message h' r' n' v' \<longleftrightarrow> h = h' \<and> r = r' \<and> n = n' \<and> v = v'))"
proof (intro conjI allI impI)
  have ok: "footer_encode f = Inr (enc_fields [(1, ft_timestamp f)])"
    if "ft_timestamp f \<noteq> []" "length (ft_timestamp f) \<le> MAX_TOKEN_LEN"
    using that put_all_new_bind [of "[(1, ft_timestamp f)]"]
    by (simp add: footer_encode_def MAX_TOKEN_LEN_def put_all_one bindR_assoc del: put_all_simps(2))
  show "ft_timestamp f \<noteq> [] \<and> length (ft_timestamp f) \<le> MAX_TOKEN_LEN \<longleftrightarrow> is_ok (footer_encode f)"
    by (cases "ft_timestamp f \<noteq> [] \<and> length (ft_timestamp f) \<le> MAX_TOKEN_LEN")
      (simp_all add: ok, auto simp: footer_encode_def ensure_def)
  show "footer_decode bs = Inr f" if enc: "footer_encode f = Inr bs" for bs
  proof -
    have len: "ft_timestamp f \<noteq> []" "length (ft_timestamp f) \<le> MAX_TOKEN_LEN"
      using enc by (auto simp: footer_encode_def bindR_eq_Inr ensure_eq_Inr)
    have "tlv_loop footer_body (reader_new (enc_fields [(1, ft_timestamp f)])) None = Inr (Some (ft_timestamp f))"
      using len by (subst tlv_loop_enc) (simp_all add: footer_body_def MAX_TOKEN_LEN_def)
    then show ?thesis
      using len enc by (auto simp: ok footer_decode_def MAX_FOOTER_LEN_def MAX_TOKEN_LEN_def)
  qed
  show "imprint c h r n v = sha256_digest c (imprint_message h r n v)"
    by (simp add: imprint_def imprint_message_def sha256_def Let_def transcript_defs)
  show "imprint_message h r n v = imprint_message h' r' n' v' \<longleftrightarrow> h = h' \<and> r = r' \<and> n = n' \<and> v = v'"
    if "length h = length h' \<and> length r = length r'"
    using that by (auto simp: imprint_message_def)
qed

theorem footer_and_imprint_witness:
  "footer_decode (enc_fields [(1, [0x30, 0x03])]) = Inr \<lparr>ft_timestamp = [0x30, 0x03]\<rparr>"
proof -
  have "footer_encode \<lparr>ft_timestamp = [0x30, 0x03]\<rparr> = Inr (enc_fields [(1, [0x30, 0x03])])"
    by (simp add: footer_encode_def MAX_TOKEN_LEN_def put_eq_Inr bindR_eq_Inr writer_new_def finish_def
        enc_field_def)
  then show ?thesis
    using footer_and_imprint [of "\<lparr>ft_timestamp = [0x30, 0x03]\<rparr>"] by blast
qed

end
