(* ===== verification/OC_Text.thy ===== *)
theory OC_Text
  imports OC_Prelude
begin

text \<open>
  Text: UTF-8 as the standard library validates it (\<^verbatim>\<open>core::str::from_utf8\<close>), the characters
  refused in displayed text (\<^verbatim>\<open>oc-format/src/text.rs\<close>) and the legacy Cyrillic encodings with their
  guesser (\<^verbatim>\<open>oc-format/src/encoding.rs\<close>).  A \<^verbatim>\<open>char\<close> is its code point, a natural number; a
  \<^verbatim>\<open>String\<close> is its UTF-8 bytes where the code treats it as bytes, and its characters where it walks them.
\<close>

type_synonym codepoint = nat

section \<open>UTF-8\<close>

abbreviation (input) in_range :: "byte \<Rightarrow> nat \<Rightarrow> nat \<Rightarrow> bool" where
  "in_range b lo hi \<equiv> lo \<le> unat b \<and> unat b \<le> hi"

abbreviation (input) continuation :: "byte \<Rightarrow> bool" where
  "continuation b \<equiv> in_range b 0x80 0xBF"

text \<open>The well-formed byte sequences of the Unicode standard, one row per first byte.\<close>

fun utf8_valid :: "bytes \<Rightarrow> bool" where
  "utf8_valid [] = True"
| "utf8_valid (a # bs) =
     (if unat a < 0x80 then utf8_valid bs
      else if in_range a 0xC2 0xDF then
        (case bs of b # rest \<Rightarrow> continuation b \<and> utf8_valid rest | _ \<Rightarrow> False)
      else if in_range a 0xE0 0xEF then
        (case bs of
           b # c # rest \<Rightarrow>
             (if unat a = 0xE0 then in_range b 0xA0 0xBF
              else if unat a = 0xED then in_range b 0x80 0x9F
              else continuation b) \<and> continuation c \<and> utf8_valid rest
         | _ \<Rightarrow> False)
      else if in_range a 0xF0 0xF4 then
        (case bs of
           b # c # d # rest \<Rightarrow>
             (if unat a = 0xF0 then in_range b 0x90 0xBF
              else if unat a = 0xF4 then in_range b 0x80 0x8F
              else continuation b) \<and> continuation c \<and> continuation d \<and> utf8_valid rest
         | _ \<Rightarrow> False)
      else False)"

definition from_utf8 :: "bytes \<Rightarrow> bytes option" where
  "from_utf8 bs = (if utf8_valid bs then Some bs else None)"

lemma utf8_valid_ascii: "list_all (\<lambda>b. unat b < 0x80) bs \<Longrightarrow> utf8_valid bs"
  by (induction bs) simp_all

section \<open>Display safety\<close>

definition BIDI :: "codepoint list" where
  "BIDI = [0x061c, 0x200e, 0x200f, 0x202a, 0x202b, 0x202c, 0x202d, 0x202e, 0x2066, 0x2067, 0x2068, 0x2069]"

definition INVISIBLE :: "codepoint list" where
  "INVISIBLE = [0x00ad, 0x180e, 0x200b, 0x2060, 0xfeff]"

definition SEPARATORS :: "codepoint list" where
  "SEPARATORS = [0x2028, 0x2029]"

definition TAG_FIRST :: codepoint where "TAG_FIRST = 0xe0000"
definition TAG_LAST :: codepoint where "TAG_LAST = 0xe007f"

text \<open>\<^verbatim>\<open>char::is_control\<close>: the general category Cc.\<close>

definition is_control :: "codepoint \<Rightarrow> bool" where
  "is_control c \<longleftrightarrow> c \<le> 0x1f \<or> (0x7f \<le> c \<and> c \<le> 0x9f)"

definition is_display_unsafe :: "codepoint \<Rightarrow> bool" where
  "is_display_unsafe c \<longleftrightarrow>
     is_control c \<or> c \<in> set BIDI \<or> c \<in> set INVISIBLE \<or> c \<in> set SEPARATORS \<or>
     (TAG_FIRST \<le> c \<and> c \<le> TAG_LAST)"

section \<open>Legacy encodings\<close>

datatype Encoding = Cp1251 | Koi8R | Cp866

definition CP1251 :: "u16 list" where
  "CP1251 =
     [0x0402, 0x0403, 0x201A, 0x0453, 0x201E, 0x2026, 0x2020, 0x2021,
      0x20AC, 0x2030, 0x0409, 0x2039, 0x040A, 0x040C, 0x040B, 0x040F,
      0x0452, 0x2018, 0x2019, 0x201C, 0x201D, 0x2022, 0x2013, 0x2014,
      0x0098, 0x2122, 0x0459, 0x203A, 0x045A, 0x045C, 0x045B, 0x045F,
      0x00A0, 0x040E, 0x045E, 0x0408, 0x00A4, 0x0490, 0x00A6, 0x00A7,
      0x0401, 0x00A9, 0x0404, 0x00AB, 0x00AC, 0x00AD, 0x00AE, 0x0407,
      0x00B0, 0x00B1, 0x0406, 0x0456, 0x0491, 0x00B5, 0x00B6, 0x00B7,
      0x0451, 0x2116, 0x0454, 0x00BB, 0x0458, 0x0405, 0x0455, 0x0457,
      0x0410, 0x0411, 0x0412, 0x0413, 0x0414, 0x0415, 0x0416, 0x0417,
      0x0418, 0x0419, 0x041A, 0x041B, 0x041C, 0x041D, 0x041E, 0x041F,
      0x0420, 0x0421, 0x0422, 0x0423, 0x0424, 0x0425, 0x0426, 0x0427,
      0x0428, 0x0429, 0x042A, 0x042B, 0x042C, 0x042D, 0x042E, 0x042F,
      0x0430, 0x0431, 0x0432, 0x0433, 0x0434, 0x0435, 0x0436, 0x0437,
      0x0438, 0x0439, 0x043A, 0x043B, 0x043C, 0x043D, 0x043E, 0x043F,
      0x0440, 0x0441, 0x0442, 0x0443, 0x0444, 0x0445, 0x0446, 0x0447,
      0x0448, 0x0449, 0x044A, 0x044B, 0x044C, 0x044D, 0x044E, 0x044F]"

definition KOI8_R :: "u16 list" where
  "KOI8_R =
     [0x2500, 0x2502, 0x250C, 0x2510, 0x2514, 0x2518, 0x251C, 0x2524,
      0x252C, 0x2534, 0x253C, 0x2580, 0x2584, 0x2588, 0x258C, 0x2590,
      0x2591, 0x2592, 0x2593, 0x2320, 0x25A0, 0x2219, 0x221A, 0x2248,
      0x2264, 0x2265, 0x00A0, 0x2321, 0x00B0, 0x00B2, 0x00B7, 0x00F7,
      0x2550, 0x2551, 0x2552, 0x0451, 0x2553, 0x2554, 0x2555, 0x2556,
      0x2557, 0x2558, 0x2559, 0x255A, 0x255B, 0x255C, 0x255D, 0x255E,
      0x255F, 0x2560, 0x2561, 0x0401, 0x2562, 0x2563, 0x2564, 0x2565,
      0x2566, 0x2567, 0x2568, 0x2569, 0x256A, 0x256B, 0x256C, 0x00A9,
      0x044E, 0x0430, 0x0431, 0x0446, 0x0434, 0x0435, 0x0444, 0x0433,
      0x0445, 0x0438, 0x0439, 0x043A, 0x043B, 0x043C, 0x043D, 0x043E,
      0x043F, 0x044F, 0x0440, 0x0441, 0x0442, 0x0443, 0x0436, 0x0432,
      0x044C, 0x044B, 0x0437, 0x0448, 0x044D, 0x0449, 0x0447, 0x044A,
      0x042E, 0x0410, 0x0411, 0x0426, 0x0414, 0x0415, 0x0424, 0x0413,
      0x0425, 0x0418, 0x0419, 0x041A, 0x041B, 0x041C, 0x041D, 0x041E,
      0x041F, 0x042F, 0x0420, 0x0421, 0x0422, 0x0423, 0x0416, 0x0412,
      0x042C, 0x042B, 0x0417, 0x0428, 0x042D, 0x0429, 0x0427, 0x042A]"

definition CP866 :: "u16 list" where
  "CP866 =
     [0x0410, 0x0411, 0x0412, 0x0413, 0x0414, 0x0415, 0x0416, 0x0417,
      0x0418, 0x0419, 0x041A, 0x041B, 0x041C, 0x041D, 0x041E, 0x041F,
      0x0420, 0x0421, 0x0422, 0x0423, 0x0424, 0x0425, 0x0426, 0x0427,
      0x0428, 0x0429, 0x042A, 0x042B, 0x042C, 0x042D, 0x042E, 0x042F,
      0x0430, 0x0431, 0x0432, 0x0433, 0x0434, 0x0435, 0x0436, 0x0437,
      0x0438, 0x0439, 0x043A, 0x043B, 0x043C, 0x043D, 0x043E, 0x043F,
      0x2591, 0x2592, 0x2593, 0x2502, 0x2524, 0x2561, 0x2562, 0x2556,
      0x2555, 0x2563, 0x2551, 0x2557, 0x255D, 0x255C, 0x255B, 0x2510,
      0x2514, 0x2534, 0x252C, 0x251C, 0x2500, 0x253C, 0x255E, 0x255F,
      0x255A, 0x2554, 0x2569, 0x2566, 0x2560, 0x2550, 0x256C, 0x2567,
      0x2568, 0x2564, 0x2565, 0x2559, 0x2558, 0x2552, 0x2553, 0x256B,
      0x256A, 0x2518, 0x250C, 0x2588, 0x2584, 0x258C, 0x2590, 0x2580,
      0x0440, 0x0441, 0x0442, 0x0443, 0x0444, 0x0445, 0x0446, 0x0447,
      0x0448, 0x0449, 0x044A, 0x044B, 0x044C, 0x044D, 0x044E, 0x044F,
      0x0401, 0x0451, 0x0404, 0x0454, 0x0407, 0x0457, 0x040E, 0x045E,
      0x00B0, 0x2219, 0x00B7, 0x221A, 0x2116, 0x00A4, 0x25A0, 0x00A0]"

primrec encoding_name :: "Encoding \<Rightarrow> string" where
  "encoding_name Cp1251 = ''CP-1251''"
| "encoding_name Koi8R = ''KOI8-R''"
| "encoding_name Cp866 = ''CP-866''"

primrec encoding_table :: "Encoding \<Rightarrow> u16 list" where
  "encoding_table Cp1251 = CP1251"
| "encoding_table Koi8R = KOI8_R"
| "encoding_table Cp866 = CP866"

text \<open>\<^verbatim>\<open>char::from_u32\<close> refuses surrogates and values above the last code point.\<close>

definition char_from_u32 :: "nat \<Rightarrow> codepoint option" where
  "char_from_u32 n = (if (0xD800 \<le> n \<and> n \<le> 0xDFFF) \<or> n > 0x10FFFF then None else Some n)"

definition REPLACEMENT_CHARACTER :: codepoint where "REPLACEMENT_CHARACTER = 0xFFFD"

definition enc_char_of :: "Encoding \<Rightarrow> byte \<Rightarrow> codepoint" where
  "enc_char_of e b =
     (if b < 0x80 then unat b
      else
        let index = unat b - 0x80;
            code = (case get_at (encoding_table e) index of Some w \<Rightarrow> unat w | None \<Rightarrow> unat b)
        in case char_from_u32 code of Some ch \<Rightarrow> ch | None \<Rightarrow> REPLACEMENT_CHARACTER)"

definition enc_decode :: "Encoding \<Rightarrow> bytes \<Rightarrow> codepoint list" where
  "enc_decode e bs = map (enc_char_of e) bs"

definition ENCODING_ALL :: "Encoding list" where
  "ENCODING_ALL = [Cp1251, Koi8R, Cp866]"

definition CONFIDENT :: nat where "CONFIDENT = 3"

definition is_cyrillic_lowercase :: "codepoint \<Rightarrow> bool" where
  "is_cyrillic_lowercase c \<longleftrightarrow> (0x0430 \<le> c \<and> c \<le> 0x044F) \<or> c = 0x0451"

definition enc_score :: "bytes \<Rightarrow> Encoding \<Rightarrow> nat" where
  "enc_score bs candidate =
     length (filter (\<lambda>b. is_cyrillic_lowercase (enc_char_of candidate b)) (filter (\<lambda>b. b \<ge> 0x80) bs))"

definition guess_best :: "bytes \<Rightarrow> (Encoding \<times> nat) option" where
  "guess_best bs =
     fold (\<lambda>candidate best.
        let score = enc_score bs candidate in
        if (case best of None \<Rightarrow> True | Some (_, previous) \<Rightarrow> score > previous)
        then Some (candidate, score) else best) ENCODING_ALL None"

definition guess :: "bytes \<Rightarrow> Encoding option" where
  "guess bs =
     (let high = length (filter (\<lambda>b. b \<ge> 0x80) bs) in
      if high < 8 then None
      else case guess_best bs of
          None \<Rightarrow> None
        | Some (winner, score) \<Rightarrow>
            (if saturating_mul_usize score 4 \<ge> saturating_mul_usize high CONFIDENT
             then Some winner else None))"

section \<open>Lemmas\<close>

lemma tables_length: "length (encoding_table e) = 128"
  by (cases e) (simp_all add: CP1251_def KOI8_R_def CP866_def)

lemma tables_distinct: "distinct (map unat (encoding_table e))"
  by (cases e; simp add: CP1251_def KOI8_R_def CP866_def; code_simp)

lemma tables_range: "list_all (\<lambda>n. 0x80 \<le> n \<and> n < 0xD800) (map unat (encoding_table e))"
  by (cases e; simp add: CP1251_def KOI8_R_def CP866_def)

lemma enc_char_of_high:
  assumes "\<not> b < 0x80"
  shows "enc_char_of e b = map unat (encoding_table e) ! (unat b - 128)"
    and "unat b - 128 < length (map unat (encoding_table e))"
    and "0x80 \<le> enc_char_of e b"
proof -
  have "unat b < 256" using unsigned_less [of b, where 'a = nat] by simp
  then show i: "unat b - 128 < length (map unat (encoding_table e))" by (simp add: tables_length)
  then have r: "0x80 \<le> unat (encoding_table e ! (unat b - 128))" "unat (encoding_table e ! (unat b - 128)) < 0xD800"
    using tables_range [of e] by (auto simp: list_all_length)
  show c: "enc_char_of e b = map unat (encoding_table e) ! (unat b - 128)"
    using assms i r by (simp add: enc_char_of_def Let_def get_at_def char_from_u32_def)
  show "0x80 \<le> enc_char_of e b" using c i r by simp
qed

lemma inj_enc_char_of: "inj (enc_char_of e)"
proof (rule injI)
  fix a b :: byte
  assume eq: "enc_char_of e a = enc_char_of e b"
  have low: "enc_char_of e x = unat x \<and> unat x < 0x80" if "x < 0x80" for x
    using that by (simp add: enc_char_of_def word_less_nat_alt)
  consider "a < 0x80" "b < 0x80" | "a < 0x80" "\<not> b < 0x80" | "\<not> a < 0x80" "b < 0x80"
    | "\<not> a < 0x80" "\<not> b < 0x80" by blast
  then show "a = b"
  proof cases
    case 1
    then show ?thesis using eq low [of a] low [of b] by (simp add: word_unat_eq_iff)
  next
    case 2
    then show ?thesis using eq low [of a] enc_char_of_high(3) [of b e] by linarith
  next
    case 3
    then show ?thesis using eq low [of b] enc_char_of_high(3) [of a e] by linarith
  next
    case 4
    then have "unat a - 128 = unat b - 128"
      using eq enc_char_of_high [of a e] enc_char_of_high [of b e]
        nth_eq_iff_index_eq [OF tables_distinct [of e]] by metis
    moreover have "128 \<le> unat a" "128 \<le> unat b" using 4 by (simp_all add: word_less_nat_alt)
    ultimately show ?thesis by (simp add: word_unat_eq_iff)
  qed
qed

lemma guess_best_eq:
  "\<exists>w. guess_best bs = Some (w, enc_score bs w) \<and> (\<forall>e. enc_score bs e \<le> enc_score bs w)"
proof -
  have all: "(\<forall>e. P e) \<longleftrightarrow> P Cp1251 \<and> P Koi8R \<and> P Cp866" for P :: "Encoding \<Rightarrow> bool"
    by (metis Encoding.exhaust)
  show ?thesis
    by (auto simp: guess_best_def ENCODING_ALL_def Let_def all)
qed

section \<open>Properties\<close>

text \<open>
  Decoding legacy text loses nothing, and a guess is justified.  Each of the three encodings
  maps different byte strings to different texts of the same length and never produces the
  replacement character.  An encoding is guessed exactly when at least eight bytes are
  non-ASCII and the winner turns at least three quarters of them into lowercase Cyrillic
  letters; no other encoding would turn more of them into such letters.
\<close>

theorem legacy_text:
  assumes "length bs < 4611686018427387904"
  shows "(enc_decode e bs = enc_decode e cs \<longleftrightarrow> bs = cs) \<and> length (enc_decode e bs) = length bs \<and>
     REPLACEMENT_CHARACTER \<notin> set (enc_decode e bs) \<and>
     (let high = length (filter (\<lambda>b. b \<ge> 0x80) bs) in
      (\<forall>w. guess bs = Some w \<longrightarrow> 8 \<le> high \<and> 3 * high \<le> 4 * enc_score bs w \<and>
         (\<forall>e'. enc_score bs e' \<le> enc_score bs w)) \<and>
      (guess bs = None \<longleftrightarrow> high < 8 \<or> (\<forall>e'. 4 * enc_score bs e' < 3 * high)))"
proof -
  have len: "length (filter P bs) < 4611686018427387904" for P
    using assms length_filter_le [of P bs] by linarith
  have score: "enc_score bs x \<le> length (filter (\<lambda>b. b \<ge> 0x80) bs)" for x
    unfolding enc_score_def by (rule length_filter_le)
  have sat: "saturating_mul_usize (enc_score bs x) 4 = 4 * enc_score bs x" for x
    using score [of x] len [of "\<lambda>b. b \<ge> 0x80"] by (simp add: saturating_mul_usize_def)
  have sat': "saturating_mul_usize (length (filter (\<lambda>b. b \<ge> 0x80) bs)) CONFIDENT = 3 * length (filter (\<lambda>b. b \<ge> 0x80) bs)"
    using len [of "\<lambda>b. b \<ge> 0x80"] by (simp add: saturating_mul_usize_def CONFIDENT_def)
  obtain w where w: "guess_best bs = Some (w, enc_score bs w)" "\<And>e. enc_score bs e \<le> enc_score bs w"
    using guess_best_eq by blast
  have "enc_char_of e b \<noteq> REPLACEMENT_CHARACTER" for b
  proof (cases "b < 0x80")
    case True
    then show ?thesis by (auto simp: enc_char_of_def REPLACEMENT_CHARACTER_def word_less_nat_alt)
  next
    case False
    have "enc_char_of e b \<in> set (map unat (encoding_table e))"
      using enc_char_of_high(1,2) [OF False, of e] nth_mem by metis
    then show ?thesis using tables_range [of e] by (auto simp: list_all_iff REPLACEMENT_CHARACTER_def)
  qed
  then have "REPLACEMENT_CHARACTER \<notin> set (enc_decode e bs)"
    unfolding enc_decode_def set_map by (metis imageE)
  moreover have "enc_decode e bs = enc_decode e cs \<longleftrightarrow> bs = cs"
    unfolding enc_decode_def by (rule inj_map_eq_map [OF inj_enc_char_of])
  moreover define high where "high = length (filter (\<lambda>b. b \<ge> 0x80) bs)"
  have g: "guess bs = (if high < 8 \<or> 4 * enc_score bs w < 3 * high then None else Some w)"
    using w(1) by (auto simp: guess_def Let_def sat sat' high_def)
  have "(\<forall>e'. 4 * enc_score bs e' < 3 * high) \<longleftrightarrow> 4 * enc_score bs w < 3 * high"
    using w(2) by (meson le_less_trans mult_le_mono2)
  with g w(2) have "(\<forall>w. guess bs = Some w \<longrightarrow> 8 \<le> high \<and> 3 * high \<le> 4 * enc_score bs w \<and>
         (\<forall>e'. enc_score bs e' \<le> enc_score bs w)) \<and>
      (guess bs = None \<longleftrightarrow> high < 8 \<or> (\<forall>e'. 4 * enc_score bs e' < 3 * high))"
    by (simp add: not_less)
  ultimately show ?thesis
    unfolding high_def Let_def by (simp add: enc_decode_def)
qed

theorem legacy_text_witness:
  "enc_decode Cp1251 [0xEF, 0xF0, 0xE8] = [0x43F, 0x440, 0x438] \<and>
   enc_decode Cp1251 [0xEF, 0xF0, 0xE8] \<noteq> enc_decode Cp1251 [0xEF, 0xF0, 0xE9] \<and>
   guess [0xEF, 0xF0, 0xE8] = None"
  using legacy_text [of "[0xEF, 0xF0, 0xE8]" Cp1251 "[0xEF, 0xF0, 0xE9]"]
  by (simp add: enc_decode_def enc_char_of_def get_at_def CP1251_def char_from_u32_def)

end
