(* ===== verification/OC_Header.thy ===== *)
theory OC_Header
  imports OC_Policy_Codec OC_Layout OC_Crypto OC_Text
begin

text \<open>
  The container header, \<^verbatim>\<open>oc-format/src/header.rs\<close>: the suite, the authority, the key slots, the
  coauthors, the header itself, and the two hashes taken over its bytes.  A Rust range
  \<^verbatim>\<open>a..b\<close> is a pair.  A URL, a \<^verbatim>\<open>String\<close> in the source, is its UTF-8 bytes.
\<close>

section \<open>Tags and limits\<close>

abbreviation (input) TAG_CONTAINER_VERSION :: u16 where "TAG_CONTAINER_VERSION \<equiv> 1"
abbreviation (input) TAG_MIN_READER_VERSION :: u16 where "TAG_MIN_READER_VERSION \<equiv> 2"
abbreviation (input) TAG_FILE_ID :: u16 where "TAG_FILE_ID \<equiv> 3"
abbreviation (input) TAG_SUITE :: u16 where "TAG_SUITE \<equiv> 4"
abbreviation (input) TAG_AUTHOR_KEY :: u16 where "TAG_AUTHOR_KEY \<equiv> 5"
abbreviation (input) TAG_HEADER_SALT :: u16 where "TAG_HEADER_SALT \<equiv> 6"
abbreviation (input) TAG_CHUNK_SIZE :: u16 where "TAG_CHUNK_SIZE \<equiv> 7"
abbreviation (input) TAG_ORIGINAL_ROOT :: u16 where "TAG_ORIGINAL_ROOT \<equiv> 8"
abbreviation (input) TAG_POLICY :: u16 where "TAG_POLICY \<equiv> 9"
abbreviation (input) TAG_KEY_SLOTS :: u16 where "TAG_KEY_SLOTS \<equiv> 10"
abbreviation (input) TAG_AUTHORITY :: u16 where "TAG_AUTHORITY \<equiv> 11"
abbreviation (input) TAG_PRIVATE_META :: u16 where "TAG_PRIVATE_META \<equiv> 12"
abbreviation (input) TAG_PREV_HEADER_HASH :: u16 where "TAG_PREV_HEADER_HASH \<equiv> 13"
abbreviation (input) TAG_ORG_ID :: u16 where "TAG_ORG_ID \<equiv> 14"
abbreviation (input) TAG_CLASS :: u16 where "TAG_CLASS \<equiv> 15"
abbreviation (input) TAG_FOOTER_OFFSET :: u16 where "TAG_FOOTER_OFFSET \<equiv> 16"
abbreviation (input) TAG_WRAPPED_CEK :: u16 where "TAG_WRAPPED_CEK \<equiv> 17"
abbreviation (input) TAG_COAUTHORS :: u16 where "TAG_COAUTHORS \<equiv> 0x8001"

abbreviation (input) SUITE_SIG :: u16 where "SUITE_SIG \<equiv> 1"
abbreviation (input) SUITE_AEAD :: u16 where "SUITE_AEAD \<equiv> 2"
abbreviation (input) SUITE_TREE_HASH :: u16 where "SUITE_TREE_HASH \<equiv> 3"

abbreviation (input) AUTH_URLS :: u16 where "AUTH_URLS \<equiv> 1"
abbreviation (input) AUTH_SEALING_KID :: u16 where "AUTH_SEALING_KID \<equiv> 2"
abbreviation (input) AUTH_LEASE_VERIFY_KEY :: u16 where "AUTH_LEASE_VERIFY_KEY \<equiv> 3"

abbreviation (input) SLOT_KIND :: u16 where "SLOT_KIND \<equiv> 1"
abbreviation (input) SLOT_KEM :: u16 where "SLOT_KEM \<equiv> 2"
abbreviation (input) SLOT_ENC :: u16 where "SLOT_ENC \<equiv> 3"
abbreviation (input) SLOT_CT :: u16 where "SLOT_CT \<equiv> 4"
abbreviation (input) SLOT_COMMITMENT :: u16 where "SLOT_COMMITMENT \<equiv> 5"
abbreviation (input) SLOT_KEY_FPR :: u16 where "SLOT_KEY_FPR \<equiv> 6"
abbreviation (input) SLOT_NONCE :: u16 where "SLOT_NONCE \<equiv> 7"
abbreviation (input) SLOT_CLAIM_COMMIT :: u16 where "SLOT_CLAIM_COMMIT \<equiv> 8"

abbreviation (input) COAUTHORS_THRESHOLD :: u16 where "COAUTHORS_THRESHOLD \<equiv> 1"
abbreviation (input) COAUTHORS_KEYS :: u16 where "COAUTHORS_KEYS \<equiv> 2"

definition LOCAL_CLASS :: byte where "LOCAL_CLASS = 0"
definition FIRST_CONTAINER_VERSION :: u16 where "FIRST_CONTAINER_VERSION = 1"
definition CONTAINER_VERSION :: u16 where "CONTAINER_VERSION = 5"
definition SUPPORTED_READER_VERSION :: u16 where "SUPPORTED_READER_VERSION = 5"
definition MIN_READABLE_CONTAINER_VERSION :: u16 where "MIN_READABLE_CONTAINER_VERSION = 5"
definition MAX_READABLE_CONTAINER_VERSION :: u16 where "MAX_READABLE_CONTAINER_VERSION = 5"
definition WRAPPED_CEK_LEN :: nat where "WRAPPED_CEK_LEN = 24 + 32 + 16"
definition MAX_URL_LEN :: nat where "MAX_URL_LEN = 2048"
definition MAX_URLS :: nat where "MAX_URLS = 16"
definition MAX_COAUTHORS :: nat where "MAX_COAUTHORS = 16"
definition FIRST_COAUTHORS_VERSION :: u16 where "FIRST_COAUTHORS_VERSION = 4"
definition FIRST_HYBRID_VERSION :: u16 where "FIRST_HYBRID_VERSION = 4"
definition XWING_CIPHERTEXT_LEN :: nat where "XWING_CIPHERTEXT_LEN = 1120"
definition FIRST_HARDWARE_HYBRID_VERSION :: u16 where "FIRST_HARDWARE_HYBRID_VERSION = 5"
definition MLKEM_P256_CIPHERTEXT_LEN :: nat where "MLKEM_P256_CIPHERTEXT_LEN = 1153"
definition MLKEM_P256_PUBLIC_LEN :: nat where "MLKEM_P256_PUBLIC_LEN = 1249"
definition XWING_PUBLIC_LEN :: nat where "XWING_PUBLIC_LEN = 1216"
definition P256_PUBLIC_LEN :: nat where "P256_PUBLIC_LEN = 65"
definition X25519_PUBLIC_LEN :: nat where "X25519_PUBLIC_LEN = 32"

section \<open>Data\<close>

record Suite =
  su_sig :: SigAlg
  su_aead :: AeadAlg
  su_tree_hash :: TreeHashAlg

datatype SlotKind = Server | RecipientIdentity | RecipientClaim | AuthorDevice

primrec slot_kind_u16 :: "SlotKind \<Rightarrow> u16" where
  "slot_kind_u16 Server = 1"
| "slot_kind_u16 RecipientIdentity = 2"
| "slot_kind_u16 RecipientClaim = 3"
| "slot_kind_u16 AuthorDevice = 4"

definition slot_kind_from_u16 :: "u16 \<Rightarrow> SlotKind option" where
  "slot_kind_from_u16 v =
     (if v = 1 then Some Server
      else if v = 2 then Some RecipientIdentity
      else if v = 3 then Some RecipientClaim
      else if v = 4 then Some AuthorDevice
      else None)"

record KnownSlot =
  ks_kind :: SlotKind
  ks_kem :: KemAlg
  ks_enc :: bytes
  ks_nonce :: bytes
  ks_ct :: bytes
  ks_commitment :: bytes
  ks_key_fpr :: "bytes option"
  ks_claim_commit :: "bytes option"

datatype KeySlot = Known KnownSlot | Unknown u16 bytes

primrec kind_seals :: "SlotKind \<Rightarrow> bool" where
  "kind_seals Server = True"
| "kind_seals RecipientIdentity = True"
| "kind_seals AuthorDevice = True"
| "kind_seals RecipientClaim = False"

record Authority =
  au_urls :: "bytes list"
  au_sealing_kid :: bytes
  au_lease_verify_key :: bytes

record Coauthors =
  co_threshold :: byte
  co_keys :: "bytes list"

record Header =
  hd_container_version :: u16
  hd_min_reader_version :: u16
  hd_file_id :: bytes
  hd_suite :: Suite
  hd_author_key :: bytes
  hd_header_salt :: bytes
  hd_chunk_size :: u32
  hd_original_root :: bytes
  hd_policy :: Policy
  hd_key_slots :: "KeySlot list"
  hd_authority :: Authority
  hd_private_meta :: bytes
  hd_prev_header_hash :: "bytes option"
  hd_org_id :: bytes
  hd_class :: byte
  hd_footer_offset :: "u64 option"
  hd_wrapped_cek :: bytes
  hd_coauthors :: "Coauthors option"

record HeaderSpans =
  sp_policy_value :: "nat \<times> nat"
  sp_key_slots_record :: "nat \<times> nat"
  sp_wrapped_cek_record :: "nat \<times> nat"

record ParsedHeader =
  ph_header :: Header
  ph_spans :: HeaderSpans

section \<open>Strength\<close>

datatype Strength = Classical | PostQuantum | PostQuantumHardware

definition strength_of_kem :: "byte \<Rightarrow> Strength" where
  "strength_of_kem kem =
     (if kem = 5 then PostQuantumHardware else if kem = 4 then PostQuantum else Classical)"

primrec strength_to_u8 :: "Strength \<Rightarrow> byte" where
  "strength_to_u8 Classical = 0"
| "strength_to_u8 PostQuantum = 1"
| "strength_to_u8 PostQuantumHardware = 2"

definition strength_from_u8 :: "byte \<Rightarrow> Strength option" where
  "strength_from_u8 v =
     (if v = 0 then Some Classical
      else if v = 1 then Some PostQuantum
      else if v = 2 then Some PostQuantumHardware
      else None)"

instantiation Strength :: linorder
begin
definition less_eq_Strength :: "Strength \<Rightarrow> Strength \<Rightarrow> bool" where
  "less_eq_Strength a b = (strength_to_u8 a \<le> strength_to_u8 b)"
definition less_Strength :: "Strength \<Rightarrow> Strength \<Rightarrow> bool" where
  "less_Strength a b = (strength_to_u8 a < strength_to_u8 b)"
instance
proof
  fix a b :: Strength
  show "a \<le> b \<Longrightarrow> b \<le> a \<Longrightarrow> a = b"
    by (cases a; cases b) (simp_all add: less_eq_Strength_def word_le_nat_alt)
qed (auto simp: less_eq_Strength_def less_Strength_def)
end

fun author_strength :: "KeySlot \<Rightarrow> Strength option" where
  "author_strength (Known s) =
     (if ks_kind s = AuthorDevice then Some (strength_of_kem (kem_u8 (ks_kem s))) else None)"
| "author_strength (Unknown _ _) = None"

definition file_strength :: "Header \<Rightarrow> Strength" where
  "file_strength h =
     (case List.map_filter author_strength (hd_key_slots h) of
        [] \<Rightarrow> Classical
      | s # ss \<Rightarrow> fold max ss s)"

section \<open>Suite\<close>

definition unsupported :: "u16 \<Rightarrow> FormatError" where
  "unsupported tag = UnknownCriticalField tag"

definition encode_suite :: "Suite \<Rightarrow> FormatError + bytes" where
  "encode_suite s =
     bindR (map_err (unsupported SUITE_TREE_HASH) (tree_hash_ensure_supported (su_tree_hash s))) (\<lambda>_.
     bindR (put_all
       [(SUITE_SIG, [sig_u8 (su_sig s)]),
        (SUITE_AEAD, [aead_u8 (su_aead s)]),
        (SUITE_TREE_HASH, [tree_hash_u8 (su_tree_hash s)])] writer_new) (\<lambda>w.
     Inr (finish w)))"

record SuiteDecoder =
  sud_sig :: "SigAlg option"
  sud_aead :: "AeadAlg option"
  sud_tree_hash :: "TreeHashAlg option"

definition suite_decode_start :: SuiteDecoder where
  "suite_decode_start = \<lparr>sud_sig = None, sud_aead = None, sud_tree_hash = None\<rparr>"

definition suite_body :: "Field \<Rightarrow> SuiteDecoder \<Rightarrow> FormatError + SuiteDecoder" where
  "suite_body field d =
     (let tag = fld_tag field in
      if tag = SUITE_SIG then
        bindR (field_u8 field) (\<lambda>b.
        bindR (map_err (unsupported tag) (sig_from_u8 b)) (\<lambda>parsed.
        bindR (ensure (\<not> parsed \<noteq> Ed25519) (unsupported tag)) (\<lambda>_.
        Inr (d\<lparr>sud_sig := Some parsed\<rparr>))))
      else if tag = SUITE_AEAD then
        bindR (field_u8 field) (\<lambda>b.
        bindR (map_err (unsupported tag) (aead_from_u8 b)) (\<lambda>v.
        Inr (d\<lparr>sud_aead := Some v\<rparr>)))
      else if tag = SUITE_TREE_HASH then
        bindR (field_u8 field) (\<lambda>b.
        bindR (map_err (unsupported tag) (tree_hash_from_u8 b)) (\<lambda>v.
        Inr (d\<lparr>sud_tree_hash := Some v\<rparr>)))
      else case unknown_tag_action tag of
          Refuse \<Rightarrow> Inl (UnknownCriticalField tag)
        | Ignore \<Rightarrow> Inr d)"

definition decode_suite :: "bytes \<Rightarrow> FormatError + Suite" where
  "decode_suite bs =
     bindR (tlv_loop suite_body (reader_new bs) suite_decode_start) (\<lambda>d.
     bindR (ok_or (MissingField SUITE_SIG) (sud_sig d)) (\<lambda>sig.
     bindR (ok_or (MissingField SUITE_AEAD) (sud_aead d)) (\<lambda>aead.
     bindR (ok_or (MissingField SUITE_TREE_HASH) (sud_tree_hash d)) (\<lambda>tree_hash.
     Inr \<lparr>su_sig = sig, su_aead = aead, su_tree_hash = tree_hash\<rparr>))))"

section \<open>Authority\<close>

definition check_address_charset :: "bytes \<Rightarrow> FormatError + unit" where
  "check_address_charset url =
     foldR (\<lambda>b _. ensure (0x21 \<le> b \<and> b \<le> 0x7E) (BadAddressByte AUTH_URLS b)) url ()"

definition check_key_present :: "u16 \<Rightarrow> bytes \<Rightarrow> FormatError + unit" where
  "check_key_present tag key = ensure (\<not> list_all (\<lambda>b. b = 0) key) (DegenerateKey tag)"

definition encode_url :: "nat \<times> bytes \<Rightarrow> TlvWriter \<Rightarrow> FormatError + TlvWriter" where
  "encode_url iu urls =
     bindR (ensure (\<not> length (snd iu) > MAX_URL_LEN) (BadFieldLength AUTH_URLS (length (snd iu)))) (\<lambda>_.
     bindR (check_address_charset (snd iu)) (\<lambda>_.
     bindR (ok_or OffsetOverflow (u16_of_usize (fst iu))) (\<lambda>tag.
     put tag (snd iu) urls)))"

definition encode_authority :: "Authority \<Rightarrow> FormatError + bytes" where
  "encode_authority a =
     bindR (ensure (\<not> length (au_urls a) > MAX_URLS) (BadFieldLength AUTH_URLS (length (au_urls a)))) (\<lambda>_.
     bindR (foldR encode_url (enumerate 0 (au_urls a)) writer_new) (\<lambda>urls.
     bindR (check_key_present AUTH_LEASE_VERIFY_KEY (au_lease_verify_key a)) (\<lambda>_.
     bindR (check_key_present AUTH_SEALING_KID (au_sealing_kid a)) (\<lambda>_.
     bindR (put_all
       [(AUTH_URLS, finish urls),
        (AUTH_SEALING_KID, au_sealing_kid a),
        (AUTH_LEASE_VERIFY_KEY, au_lease_verify_key a)] writer_new) (\<lambda>w.
     Inr (finish w))))))"

record AuthorityDecoder =
  aud_authority :: Authority
  aud_seen_kid :: bool
  aud_seen_key :: bool

definition authority_decode_start :: AuthorityDecoder where
  "authority_decode_start =
     \<lparr>aud_authority = \<lparr>au_urls = [], au_sealing_kid = replicate 32 0, au_lease_verify_key = replicate 32 0\<rparr>,
      aud_seen_kid = False, aud_seen_key = False\<rparr>"

definition url_body :: "Field \<Rightarrow> bytes list \<Rightarrow> FormatError + bytes list" where
  "url_body url urls =
     bindR (ensure (\<not> length urls \<ge> MAX_URLS) (BadFieldLength AUTH_URLS (length urls))) (\<lambda>_.
     bindR (ensure (\<not> length (fld_value url) > MAX_URL_LEN)
       (BadFieldLength AUTH_URLS (length (fld_value url)))) (\<lambda>_.
     bindR (ok_or (BadFieldLength AUTH_URLS (length (fld_value url))) (from_utf8 (fld_value url))) (\<lambda>text.
     bindR (check_address_charset text) (\<lambda>_.
     Inr (urls @ [text])))))"

definition authority_body :: "Field \<Rightarrow> AuthorityDecoder \<Rightarrow> FormatError + AuthorityDecoder" where
  "authority_body field d =
     (let tag = fld_tag field; a = aud_authority d in
      if tag = AUTH_URLS then
        bindR (tlv_loop url_body (reader_new (fld_value field)) (au_urls a)) (\<lambda>urls.
        Inr (d\<lparr>aud_authority := a\<lparr>au_urls := urls\<rparr>\<rparr>))
      else if tag = AUTH_SEALING_KID then
        bindR (field_array 32 field) (\<lambda>v.
        Inr (d\<lparr>aud_authority := a\<lparr>au_sealing_kid := v\<rparr>, aud_seen_kid := True\<rparr>))
      else if tag = AUTH_LEASE_VERIFY_KEY then
        bindR (field_array 32 field) (\<lambda>v.
        Inr (d\<lparr>aud_authority := a\<lparr>au_lease_verify_key := v\<rparr>, aud_seen_key := True\<rparr>))
      else case unknown_tag_action tag of
          Refuse \<Rightarrow> Inl (UnknownCriticalField tag)
        | Ignore \<Rightarrow> Inr d)"

definition decode_authority :: "bytes \<Rightarrow> FormatError + Authority" where
  "decode_authority bs =
     bindR (tlv_loop authority_body (reader_new bs) authority_decode_start) (\<lambda>d.
     bindR (ensure (aud_seen_kid d) (MissingField AUTH_SEALING_KID)) (\<lambda>_.
     bindR (ensure (aud_seen_key d) (MissingField AUTH_LEASE_VERIFY_KEY)) (\<lambda>_.
     bindR (check_key_present AUTH_SEALING_KID (au_sealing_kid (aud_authority d))) (\<lambda>_.
     bindR (check_key_present AUTH_LEASE_VERIFY_KEY (au_lease_verify_key (aud_authority d))) (\<lambda>_.
     Inr (aud_authority d))))))"

section \<open>Key slots\<close>

text \<open>
  The Rust \<^verbatim>\<open>match\<close> on the version and the KEM: the first arm that applies gives the length, and
  the last arm, no length, takes what is left.
\<close>

fun expected_enc_len :: "u16 \<Rightarrow> KemAlg \<Rightarrow> nat option" where
  "expected_enc_len v X25519HkdfSha256 = Some X25519_PUBLIC_LEN"
| "expected_enc_len v P256HkdfSha256 = (if v \<ge> 2 then Some P256_PUBLIC_LEN else None)"
| "expected_enc_len v XWing = (if v \<ge> FIRST_HYBRID_VERSION then Some XWING_CIPHERTEXT_LEN else None)"
| "expected_enc_len v MlKem768P256 =
     (if v \<ge> FIRST_HARDWARE_HYBRID_VERSION then Some MLKEM_P256_CIPHERTEXT_LEN else None)"
| "expected_enc_len v RsaOaepSha256 = None"

fun expected_key_fpr_len :: "u16 \<Rightarrow> KemAlg \<Rightarrow> nat option" where
  "expected_key_fpr_len v X25519HkdfSha256 = Some X25519_PUBLIC_LEN"
| "expected_key_fpr_len v P256HkdfSha256 = (if v \<ge> 2 then Some P256_PUBLIC_LEN else None)"
| "expected_key_fpr_len v XWing = (if v \<ge> FIRST_HYBRID_VERSION then Some XWING_PUBLIC_LEN else None)"
| "expected_key_fpr_len v MlKem768P256 =
     (if v \<ge> FIRST_HARDWARE_HYBRID_VERSION then Some MLKEM_P256_PUBLIC_LEN else None)"
| "expected_key_fpr_len v RsaOaepSha256 = None"

definition check_slot_shape ::
    "SlotKind \<Rightarrow> KemAlg \<Rightarrow> bool \<Rightarrow> nat \<Rightarrow> bool \<Rightarrow> bytes \<Rightarrow> bytes \<Rightarrow> FormatError + unit" where
  "check_slot_shape kind kem has_claim_commit ct_len has_key_fpr enc nonce =
     (let seals = kind_seals kind in
      bindR (ensure (\<not> seals = has_claim_commit)
        (BadFieldLength SLOT_CLAIM_COMMIT (of_bool has_claim_commit))) (\<lambda>_.
      bindR (ensure (\<not> seals \<noteq> (ct_len > 0)) (BadFieldLength SLOT_CT ct_len)) (\<lambda>_.
      bindR (ensure (\<not> (\<not> seals \<and> has_key_fpr)) (BadFieldLength SLOT_KEY_FPR (of_bool has_key_fpr))) (\<lambda>_.
      if \<not> seals then
        bindR (ensure (\<not> kem \<noteq> X25519HkdfSha256) (BadFieldLength SLOT_KEM (unat (kem_u8 kem)))) (\<lambda>_.
        bindR (ensure (\<not> list_ex (\<lambda>b. b \<noteq> 0) enc) (BadFieldLength SLOT_ENC (length enc))) (\<lambda>_.
        bindR (ensure (\<not> list_ex (\<lambda>b. b \<noteq> 0) nonce) (BadFieldLength SLOT_NONCE (length nonce))) (\<lambda>_.
        Inr ())))
      else Inr ()))))"

definition encode_known_slot :: "u16 \<Rightarrow> KnownSlot \<Rightarrow> FormatError + bytes" where
  "encode_known_slot version s =
     bindR (ok_or (BadFieldLength SLOT_ENC (length (ks_enc s))) (expected_enc_len version (ks_kem s))) (\<lambda>enc_len.
     bindR (ensure (\<not> length (ks_enc s) \<noteq> enc_len) (BadFieldLength SLOT_ENC (length (ks_enc s)))) (\<lambda>_.
     bindR (case ks_key_fpr s of
              Some fpr \<Rightarrow>
                bindR (ok_or (BadFieldLength SLOT_KEY_FPR (length fpr))
                  (expected_key_fpr_len version (ks_kem s))) (\<lambda>fpr_len.
                ensure (\<not> length fpr \<noteq> fpr_len) (BadFieldLength SLOT_KEY_FPR (length fpr)))
            | None \<Rightarrow> Inr ()) (\<lambda>_.
     bindR (check_slot_shape (ks_kind s) (ks_kem s) (ks_claim_commit s \<noteq> None) (length (ks_ct s))
              (ks_key_fpr s \<noteq> None) (ks_enc s) (ks_nonce s)) (\<lambda>_.
     bindR (put_all
       [(SLOT_KIND, le16 (slot_kind_u16 (ks_kind s))),
        (SLOT_KEM, [kem_u8 (ks_kem s)]),
        (SLOT_ENC, ks_enc s),
        (SLOT_CT, ks_ct s),
        (SLOT_COMMITMENT, ks_commitment s)] writer_new) (\<lambda>w.
     bindR (put_opt SLOT_KEY_FPR (ks_key_fpr s) w) (\<lambda>w.
     bindR (put SLOT_NONCE (ks_nonce s) w) (\<lambda>w.
     bindR (put_opt SLOT_CLAIM_COMMIT (ks_claim_commit s) w) (\<lambda>w.
     Inr (finish w)))))))))"

definition encode_slot :: "u16 \<Rightarrow> KeySlot \<Rightarrow> FormatError + bytes" where
  "encode_slot version slot =
     (case slot of Known known \<Rightarrow> encode_known_slot version known | Unknown _ raw \<Rightarrow> Inr raw)"

definition encode_slots :: "u16 \<Rightarrow> KeySlot list \<Rightarrow> FormatError + bytes" where
  "encode_slots version slots =
     bindR (foldR (\<lambda>is w.
       bindR (ok_or OffsetOverflow (u16_of_usize (fst is))) (\<lambda>tag.
       bindR (encode_slot version (snd is)) (\<lambda>body.
       put tag body w))) (enumerate 0 slots) writer_new) (\<lambda>w.
     Inr (finish w))"

record SlotDecoder =
  sld_kind_raw :: "u16 option"
  sld_kem :: "byte option"
  sld_enc :: "bytes option"
  sld_ct :: "bytes option"
  sld_commitment :: "bytes option"
  sld_key_fpr :: "bytes option"
  sld_nonce :: "bytes option"
  sld_claim_commit :: "bytes option"
  sld_unusable :: bool

definition slot_decode_start :: SlotDecoder where
  "slot_decode_start =
     \<lparr>sld_kind_raw = None, sld_kem = None, sld_enc = None, sld_ct = None, sld_commitment = None,
      sld_key_fpr = None, sld_nonce = None, sld_claim_commit = None, sld_unusable = False\<rparr>"

definition slot_body :: "Field \<Rightarrow> SlotDecoder \<Rightarrow> FormatError + SlotDecoder" where
  "slot_body field d =
     (let tag = fld_tag field; v = fld_value field in
      if tag = SLOT_KIND then bindR (field_u16 field) (\<lambda>k. Inr (d\<lparr>sld_kind_raw := Some k\<rparr>))
      else if tag = SLOT_KEM then bindR (field_u8 field) (\<lambda>k. Inr (d\<lparr>sld_kem := Some k\<rparr>))
      else if tag = SLOT_ENC then Inr (d\<lparr>sld_enc := Some v\<rparr>)
      else if tag = SLOT_CT then Inr (d\<lparr>sld_ct := Some v\<rparr>)
      else if tag = SLOT_COMMITMENT then Inr (d\<lparr>sld_commitment := Some v\<rparr>)
      else if tag = SLOT_KEY_FPR then Inr (d\<lparr>sld_key_fpr := Some v\<rparr>)
      else if tag = SLOT_NONCE then Inr (d\<lparr>sld_nonce := Some v\<rparr>)
      else if tag = SLOT_CLAIM_COMMIT then Inr (d\<lparr>sld_claim_commit := Some v\<rparr>)
      else case unknown_tag_action tag of
          Refuse \<Rightarrow> Inr (d\<lparr>sld_unusable := True\<rparr>)
        | Ignore \<Rightarrow> Inr d)"

definition exact :: "u16 \<Rightarrow> bytes option \<Rightarrow> FormatError + bytes" where
  "exact tag value = ok_or (MissingField tag) value"

definition to_array :: "nat \<Rightarrow> u16 \<Rightarrow> bytes \<Rightarrow> FormatError + bytes" where
  "to_array n tag value = (if length value = n then Inr value else Inl (BadFieldLength tag (length value)))"

text \<open>The part of \<^verbatim>\<open>decode_slot\<close> after kind, KEM and the length of \<^verbatim>\<open>enc\<close> are known.\<close>

definition decode_known_slot ::
    "u16 \<Rightarrow> bytes \<Rightarrow> u16 \<Rightarrow> SlotKind \<Rightarrow> KemAlg \<Rightarrow> nat \<Rightarrow> SlotDecoder \<Rightarrow> FormatError + KeySlot" where
  "decode_known_slot version bs kind_raw kind kem enc_len d =
     bindR (ok_or (MissingField SLOT_CT) (sld_ct d)) (\<lambda>ct.
     bindR (exact SLOT_ENC (sld_enc d)) (\<lambda>enc.
     bindR (ensure (\<not> length enc \<noteq> enc_len) (BadFieldLength SLOT_ENC (length enc))) (\<lambda>_.
     bindR (exact SLOT_NONCE (sld_nonce d)) (\<lambda>nonce.
     if (case sld_key_fpr d of Some _ \<Rightarrow> expected_key_fpr_len version kem = None | None \<Rightarrow> False)
     then Inr (Unknown kind_raw bs)
     else
       bindR (case sld_key_fpr d of
                Some value \<Rightarrow>
                  ensure (Some (length value) = expected_key_fpr_len version kem)
                    (BadFieldLength SLOT_KEY_FPR (length value))
              | None \<Rightarrow> Inr ()) (\<lambda>_.
       bindR (check_slot_shape kind kem (sld_claim_commit d \<noteq> None) (length ct)
                (sld_key_fpr d \<noteq> None) enc nonce) (\<lambda>_.
       bindR (to_array 24 SLOT_NONCE nonce) (\<lambda>nonce.
       bindR (exact SLOT_COMMITMENT (sld_commitment d)) (\<lambda>commitment.
       bindR (to_array 32 SLOT_COMMITMENT commitment) (\<lambda>commitment.
       bindR (case sld_claim_commit d of
                Some value \<Rightarrow> map_sum id Some (to_array 32 SLOT_CLAIM_COMMIT value)
              | None \<Rightarrow> Inr None) (\<lambda>claim_commit.
       Inr (Known \<lparr>ks_kind = kind, ks_kem = kem, ks_enc = enc, ks_nonce = nonce, ks_ct = ct,
         ks_commitment = commitment, ks_key_fpr = sld_key_fpr d, ks_claim_commit = claim_commit\<rparr>)))))))))))"

definition decode_slot :: "u16 \<Rightarrow> bytes \<Rightarrow> FormatError + KeySlot" where
  "decode_slot version bs =
     bindR (tlv_loop slot_body (reader_new bs) slot_decode_start) (\<lambda>d.
     bindR (ok_or (MissingField SLOT_KIND) (sld_kind_raw d)) (\<lambda>kind_raw.
     if sld_unusable d then Inr (Unknown kind_raw bs)
     else case slot_kind_from_u16 kind_raw of
         None \<Rightarrow> Inr (Unknown kind_raw bs)
       | Some kind \<Rightarrow>
           bindR (ok_or (MissingField SLOT_KEM) (sld_kem d)) (\<lambda>kem_raw.
           case kem_from_u8 kem_raw of
             Inl _ \<Rightarrow> Inr (Unknown kind_raw bs)
           | Inr kem \<Rightarrow>
               (case expected_enc_len version kem of
                  None \<Rightarrow> Inr (Unknown kind_raw bs)
                | Some enc_len \<Rightarrow> decode_known_slot version bs kind_raw kind kem enc_len d))))"

definition slots_body :: "u16 \<Rightarrow> Field \<Rightarrow> KeySlot list \<Rightarrow> FormatError + KeySlot list" where
  "slots_body version field slots =
     bindR (ensure (\<not> length slots \<ge> MAX_KEY_SLOTS) (BadFieldLength TAG_KEY_SLOTS (length slots))) (\<lambda>_.
     bindR (decode_slot version (fld_value field)) (\<lambda>slot.
     Inr (slots @ [slot])))"

definition decode_slots :: "u16 \<Rightarrow> bytes \<Rightarrow> FormatError + KeySlot list" where
  "decode_slots version bs = tlv_loop (slots_body version) (reader_new bs) []"

section \<open>Coauthors\<close>

definition version_so_far :: "u16 option \<Rightarrow> u16" where
  "version_so_far v = (case v of Some n \<Rightarrow> n | None \<Rightarrow> 0)"

definition check_coauthors :: "Coauthors \<Rightarrow> FormatError + unit" where
  "check_coauthors co =
     (if co_threshold co = 0 then
        (if co_keys co = [] then Inr () else Inl (BadFieldLength TAG_COAUTHORS (length (co_keys co))))
      else
        bindR (ensure (\<not> (co_keys co = [] \<or> length (co_keys co) > MAX_COAUTHORS))
          (BadFieldLength TAG_COAUTHORS (length (co_keys co)))) (\<lambda>_.
        bindR (ensure (\<not> unat (co_threshold co) > length (co_keys co))
          (BadFieldLength TAG_COAUTHORS (unat (co_threshold co)))) (\<lambda>_.
        foldR (\<lambda>(i, key) _.
          ensure (\<not> list_ex (\<lambda>other. other = key) (drop (i + 1) (co_keys co))) (DegenerateKey TAG_COAUTHORS))
          (enumerate 0 (co_keys co)) ())))"

definition encode_coauthors :: "Coauthors \<Rightarrow> FormatError + bytes" where
  "encode_coauthors co =
     bindR (check_coauthors co) (\<lambda>_.
     bindR (put COAUTHORS_THRESHOLD [co_threshold co] writer_new) (\<lambda>w.
     bindR (if co_threshold co \<noteq> 0 then put COAUTHORS_KEYS (concat (co_keys co)) w else Inr w) (\<lambda>w.
     Inr (finish w))))"

text \<open>\<^verbatim>\<open>chunks_exact(32)\<close>.\<close>

fun chunks_exact_32 :: "bytes \<Rightarrow> bytes list" where
  "chunks_exact_32 bs = (if length bs < 32 then [] else take 32 bs # chunks_exact_32 (drop 32 bs))"

declare chunks_exact_32.simps [simp del]

record CoauthorsDecoder =
  cod_threshold :: "byte option"
  cod_keys :: "bytes list"

definition coauthors_body :: "Field \<Rightarrow> CoauthorsDecoder \<Rightarrow> FormatError + CoauthorsDecoder" where
  "coauthors_body field d =
     (if fld_tag field = COAUTHORS_THRESHOLD then
        bindR (field_u8 field) (\<lambda>v. Inr (d\<lparr>cod_threshold := Some v\<rparr>))
      else if fld_tag field = COAUTHORS_KEYS then
        bindR (ensure (\<not> (fld_value field = [] \<or> length (fld_value field) mod 32 \<noteq> 0))
          (BadFieldLength COAUTHORS_KEYS (length (fld_value field)))) (\<lambda>_.
        Inr (d\<lparr>cod_keys := cod_keys d @ chunks_exact_32 (fld_value field)\<rparr>))
      else Inl (UnknownCriticalField (fld_tag field)))"

definition decode_coauthors :: "bytes \<Rightarrow> FormatError + Coauthors" where
  "decode_coauthors bs =
     bindR (tlv_loop coauthors_body (reader_new bs) \<lparr>cod_threshold = None, cod_keys = []\<rparr>) (\<lambda>d.
     bindR (ok_or (MissingField COAUTHORS_THRESHOLD) (cod_threshold d)) (\<lambda>threshold.
     let co = \<lparr>co_threshold = threshold, co_keys = cod_keys d\<rparr> in
     bindR (check_coauthors co) (\<lambda>_. Inr co)))"

section \<open>The header\<close>

record HeaderDecoder =
  hdd_container_version :: "u16 option"
  hdd_min_reader_version :: "u16 option"
  hdd_file_id :: "bytes option"
  hdd_suite :: "Suite option"
  hdd_author_key :: "bytes option"
  hdd_header_salt :: "bytes option"
  hdd_chunk_size :: "u32 option"
  hdd_original_root :: "bytes option"
  hdd_policy :: "Policy option"
  hdd_policy_value :: "(nat \<times> nat) option"
  hdd_key_slots :: "KeySlot list option"
  hdd_key_slots_record :: "(nat \<times> nat) option"
  hdd_authority :: "Authority option"
  hdd_private_meta :: "bytes option"
  hdd_prev_header_hash :: "bytes option"
  hdd_org_id :: "bytes option"
  hdd_class :: "byte option"
  hdd_footer_offset :: "u64 option"
  hdd_wrapped_cek :: "bytes option"
  hdd_wrapped_cek_record :: "(nat \<times> nat) option"
  hdd_coauthors :: "Coauthors option"

definition header_decode_start :: HeaderDecoder where
  "header_decode_start =
     \<lparr>hdd_container_version = None, hdd_min_reader_version = None, hdd_file_id = None, hdd_suite = None,
      hdd_author_key = None, hdd_header_salt = None, hdd_chunk_size = None, hdd_original_root = None,
      hdd_policy = None, hdd_policy_value = None, hdd_key_slots = None, hdd_key_slots_record = None,
      hdd_authority = None, hdd_private_meta = None, hdd_prev_header_hash = None, hdd_org_id = None,
      hdd_class = None, hdd_footer_offset = None, hdd_wrapped_cek = None, hdd_wrapped_cek_record = None,
      hdd_coauthors = None\<rparr>"

definition header_match :: "Field \<Rightarrow> nat \<times> nat \<Rightarrow> HeaderDecoder \<Rightarrow> FormatError + HeaderDecoder" where
  "header_match field rec d =
     (let tag = fld_tag field; v = fld_value field in
      if tag = TAG_CONTAINER_VERSION then
        bindR (field_u16 field) (\<lambda>x. Inr (d\<lparr>hdd_container_version := Some x\<rparr>))
      else if tag = TAG_MIN_READER_VERSION then
        bindR (field_u16 field) (\<lambda>x. Inr (d\<lparr>hdd_min_reader_version := Some x\<rparr>))
      else if tag = TAG_FILE_ID then
        bindR (field_array 16 field) (\<lambda>x. Inr (d\<lparr>hdd_file_id := Some x\<rparr>))
      else if tag = TAG_SUITE then
        bindR (decode_suite v) (\<lambda>x. Inr (d\<lparr>hdd_suite := Some x\<rparr>))
      else if tag = TAG_AUTHOR_KEY then
        bindR (field_array 32 field) (\<lambda>x. Inr (d\<lparr>hdd_author_key := Some x\<rparr>))
      else if tag = TAG_HEADER_SALT then
        bindR (field_array 32 field) (\<lambda>x. Inr (d\<lparr>hdd_header_salt := Some x\<rparr>))
      else if tag = TAG_CHUNK_SIZE then
        bindR (field_u32 field) (\<lambda>n.
        bindR (check_chunk_size n) (\<lambda>x. Inr (d\<lparr>hdd_chunk_size := Some x\<rparr>)))
      else if tag = TAG_ORIGINAL_ROOT then
        bindR (field_array 32 field) (\<lambda>x. Inr (d\<lparr>hdd_original_root := Some x\<rparr>))
      else if tag = TAG_POLICY then
        bindR (ok_or (MissingField TAG_CONTAINER_VERSION) (hdd_container_version d)) (\<lambda>version.
        bindR (policy_decode version v) (\<lambda>x.
        Inr (d\<lparr>hdd_policy := Some x, hdd_policy_value := Some (fld_start field, fld_end field)\<rparr>)))
      else if tag = TAG_KEY_SLOTS then
        bindR (ok_or (MissingField TAG_CONTAINER_VERSION) (hdd_container_version d)) (\<lambda>version.
        bindR (decode_slots version v) (\<lambda>x.
        Inr (d\<lparr>hdd_key_slots := Some x, hdd_key_slots_record := Some rec\<rparr>)))
      else if tag = TAG_AUTHORITY then
        bindR (decode_authority v) (\<lambda>x. Inr (d\<lparr>hdd_authority := Some x\<rparr>))
      else if tag = TAG_PRIVATE_META then Inr (d\<lparr>hdd_private_meta := Some v\<rparr>)
      else if tag = TAG_PREV_HEADER_HASH then
        bindR (field_array 32 field) (\<lambda>x. Inr (d\<lparr>hdd_prev_header_hash := Some x\<rparr>))
      else if tag = TAG_ORG_ID then Inr (d\<lparr>hdd_org_id := Some v\<rparr>)
      else if tag = TAG_CLASS then
        bindR (field_u8 field) (\<lambda>x.
        bindR (ensure (\<not> x \<noteq> LOCAL_CLASS) (UnsupportedClass x)) (\<lambda>_.
        Inr (d\<lparr>hdd_class := Some x\<rparr>)))
      else if tag = TAG_FOOTER_OFFSET then
        bindR (field_u64 field) (\<lambda>x. Inr (d\<lparr>hdd_footer_offset := Some x\<rparr>))
      else if tag = TAG_WRAPPED_CEK then
        bindR (field_array WRAPPED_CEK_LEN field) (\<lambda>x.
        Inr (d\<lparr>hdd_wrapped_cek := Some x, hdd_wrapped_cek_record := Some rec\<rparr>))
      else if tag = TAG_COAUTHORS \<and> version_so_far (hdd_container_version d) \<ge> FIRST_COAUTHORS_VERSION then
        bindR (decode_coauthors v) (\<lambda>x. Inr (d\<lparr>hdd_coauthors := Some x\<rparr>))
      else case unknown_tag_action tag of
          Refuse \<Rightarrow> Inl (UnknownCriticalField tag)
        | Ignore \<Rightarrow> Inr d)"

definition header_body :: "Field \<Rightarrow> HeaderDecoder \<Rightarrow> FormatError + HeaderDecoder" where
  "header_body field d =
     bindR (ok_or OffsetOverflow
       (if FIELD_PREFIX_LEN \<le> fld_start field then Some (fld_start field - FIELD_PREFIX_LEN) else None)) (\<lambda>record_start.
     header_match field (record_start, fld_end field) d)"

definition header_finish :: "HeaderDecoder \<Rightarrow> FormatError + ParsedHeader" where
  "header_finish d =
     bindR (ok_or (MissingField TAG_CONTAINER_VERSION) (hdd_container_version d)) (\<lambda>container_version.
     bindR (ok_or (MissingField TAG_MIN_READER_VERSION) (hdd_min_reader_version d)) (\<lambda>min_reader_version.
     bindR (ok_or (MissingField TAG_FILE_ID) (hdd_file_id d)) (\<lambda>file_id.
     bindR (ok_or (MissingField TAG_SUITE) (hdd_suite d)) (\<lambda>suite.
     bindR (ok_or (MissingField TAG_AUTHOR_KEY) (hdd_author_key d)) (\<lambda>author_key.
     bindR (ok_or (MissingField TAG_HEADER_SALT) (hdd_header_salt d)) (\<lambda>header_salt.
     bindR (ok_or (MissingField TAG_CHUNK_SIZE) (hdd_chunk_size d)) (\<lambda>chunk_size.
     bindR (ok_or (MissingField TAG_ORIGINAL_ROOT) (hdd_original_root d)) (\<lambda>original_root.
     bindR (ok_or (MissingField TAG_POLICY) (hdd_policy d)) (\<lambda>policy.
     bindR (ok_or (MissingField TAG_KEY_SLOTS) (hdd_key_slots d)) (\<lambda>key_slots.
     bindR (ok_or (MissingField TAG_AUTHORITY) (hdd_authority d)) (\<lambda>authority.
     bindR (ok_or (MissingField TAG_PRIVATE_META) (hdd_private_meta d)) (\<lambda>private_meta.
     bindR (ok_or (MissingField TAG_ORG_ID) (hdd_org_id d)) (\<lambda>org_id.
     bindR (ok_or (MissingField TAG_CLASS) (hdd_class d)) (\<lambda>class_byte.
     bindR (ok_or (MissingField TAG_WRAPPED_CEK) (hdd_wrapped_cek d)) (\<lambda>wrapped_cek.
     bindR (ok_or (MissingField TAG_POLICY) (hdd_policy_value d)) (\<lambda>policy_value.
     bindR (ok_or (MissingField TAG_KEY_SLOTS) (hdd_key_slots_record d)) (\<lambda>key_slots_record.
     bindR (ok_or (MissingField TAG_WRAPPED_CEK) (hdd_wrapped_cek_record d)) (\<lambda>wrapped_cek_record.
     Inr \<lparr>ph_header =
        \<lparr>hd_container_version = container_version, hd_min_reader_version = min_reader_version,
         hd_file_id = file_id, hd_suite = suite, hd_author_key = author_key, hd_header_salt = header_salt,
         hd_chunk_size = chunk_size, hd_original_root = original_root, hd_policy = policy,
         hd_key_slots = key_slots, hd_authority = authority, hd_private_meta = private_meta,
         hd_prev_header_hash = hdd_prev_header_hash d, hd_org_id = org_id, hd_class = class_byte,
         hd_footer_offset = hdd_footer_offset d, hd_wrapped_cek = wrapped_cek,
         hd_coauthors = hdd_coauthors d\<rparr>,
       ph_spans =
        \<lparr>sp_policy_value = policy_value, sp_key_slots_record = key_slots_record,
         sp_wrapped_cek_record = wrapped_cek_record\<rparr>\<rparr>))))))))))))))))))"

definition header_decode :: "bytes \<Rightarrow> FormatError + ParsedHeader" where
  "header_decode bs = bindR (tlv_loop header_body (reader_new bs) header_decode_start) header_finish"

definition header_encode :: "Header \<Rightarrow> FormatError + bytes" where
  "header_encode h =
     bindR (check_chunk_size (hd_chunk_size h)) (\<lambda>_.
     bindR (ensure (\<not> length (hd_key_slots h) > MAX_KEY_SLOTS)
       (BadFieldLength TAG_KEY_SLOTS (length (hd_key_slots h)))) (\<lambda>_.
     bindR (put_all
       [(TAG_CONTAINER_VERSION, le16 (hd_container_version h)),
        (TAG_MIN_READER_VERSION, le16 (hd_min_reader_version h)),
        (TAG_FILE_ID, hd_file_id h)] writer_new) (\<lambda>w.
     bindR (encode_suite (hd_suite h)) (\<lambda>suite.
     bindR (put_all
       [(TAG_SUITE, suite),
        (TAG_AUTHOR_KEY, hd_author_key h),
        (TAG_HEADER_SALT, hd_header_salt h),
        (TAG_CHUNK_SIZE, le32 (hd_chunk_size h)),
        (TAG_ORIGINAL_ROOT, hd_original_root h)] w) (\<lambda>w.
     bindR (policy_encode (hd_container_version h) (hd_policy h)) (\<lambda>policy.
     bindR (put TAG_POLICY policy w) (\<lambda>w.
     bindR (encode_slots (hd_container_version h) (hd_key_slots h)) (\<lambda>key_slots.
     bindR (put TAG_KEY_SLOTS key_slots w) (\<lambda>w.
     bindR (encode_authority (hd_authority h)) (\<lambda>authority.
     bindR (put_all [(TAG_AUTHORITY, authority), (TAG_PRIVATE_META, hd_private_meta h)] w) (\<lambda>w.
     bindR (put_opt TAG_PREV_HEADER_HASH (hd_prev_header_hash h) w) (\<lambda>w.
     bindR (put_all [(TAG_ORG_ID, hd_org_id h), (TAG_CLASS, [hd_class h])] w) (\<lambda>w.
     bindR (put_opt TAG_FOOTER_OFFSET (map_option (\<lambda>n. le64 n) (hd_footer_offset h)) w) (\<lambda>w.
     bindR (put TAG_WRAPPED_CEK (hd_wrapped_cek h) w) (\<lambda>w.
     bindR (if hd_container_version h \<ge> FIRST_COAUTHORS_VERSION
            then case hd_coauthors h of
                Some coauthors \<Rightarrow> bindR (encode_coauthors coauthors) (\<lambda>bs. put TAG_COAUTHORS bs w)
              | None \<Rightarrow> Inr w
            else Inr w) (\<lambda>w.
     Inr (finish w)))))))))))))))))"

section \<open>The two hashes\<close>

definition core_hash :: "Crates \<Rightarrow> bytes \<Rightarrow> HeaderSpans \<Rightarrow> FormatError + bytes" where
  "core_hash c header_bytes spans =
     (let start = CORE_HASH @ [0];
          cut = sort_key fst [sp_key_slots_record spans, sp_wrapped_cek_record spans]
      in bindR (foldR (\<lambda>range (hashed, cursor).
            bindR (ensure (\<not> (fst range < cursor \<or> snd range > length header_bytes)) OffsetOverflow) (\<lambda>_.
            bindR (ok_or OffsetOverflow (get_range header_bytes cursor (fst range))) (\<lambda>piece.
            Inr (hashed @ piece, snd range)))) cut (start, 0)) (\<lambda>(hashed, cursor).
         bindR (ok_or OffsetOverflow (get_range header_bytes cursor (length header_bytes))) (\<lambda>rest.
         Inr (sha256_digest c (hashed @ rest)))))"

definition policy_hash :: "Crates \<Rightarrow> bytes \<Rightarrow> HeaderSpans \<Rightarrow> FormatError + bytes" where
  "policy_hash c header_bytes spans =
     bindR (ok_or OffsetOverflow
       (get_range header_bytes (fst (sp_policy_value spans)) (snd (sp_policy_value spans)))) (\<lambda>bs.
     Inr (sha256_digest c (POLICY_HASH @ [0] @ bs)))"

section \<open>Suite and coauthors round-trip\<close>

definition suite_wf :: "Suite \<Rightarrow> bool" where
  "suite_wf s \<longleftrightarrow> su_sig s = Ed25519 \<and> su_aead s = XChaCha20Poly1305 \<and> su_tree_hash s = Blake3"

lemma suite_decode_encode:
  assumes "suite_wf s"
  shows "encode_suite s = Inr (enc_fields [(1, [1]), (2, [1]), (3, [1])])"
    and "decode_suite (enc_fields [(1, [1]), (2, [1]), (3, [1])]) = Inr s"
proof -
  have "ascending None [(1, [1]), (2, [1]), (3, [1])]" by simp
  from put_all_new_bind [OF this] assms
  show "encode_suite s = Inr (enc_fields [(1, [1]), (2, [1]), (3, [1])])"
    by (simp add: encode_suite_def suite_wf_def del: put_all_simps(2))
  show "decode_suite (enc_fields [(1, [1]), (2, [1]), (3, [1])]) = Inr s"
    unfolding decode_suite_def
    by (subst tlv_loop_enc) (use assms in \<open>simp_all add: suite_body_def suite_decode_start_def Let_def suite_wf_def
      sig_from_u8_def aead_from_u8_def tree_hash_from_u8_def\<close>)
qed

interpretation suite_codec: total_codec encode_suite decode_suite suite_wf
  by unfold_locales (use suite_decode_encode in auto)

lemma chunks_exact_32_concat: "\<forall>k \<in> set ks. length k = 32 \<Longrightarrow> chunks_exact_32 (concat ks) = ks"
  by (induction ks) (subst chunks_exact_32.simps, simp)+

lemma chunks_exact_32_length: "k \<in> set (chunks_exact_32 bs) \<Longrightarrow> length k = 32"
  by (induction bs rule: chunks_exact_32.induct)
    (subst (asm) (2) chunks_exact_32.simps, auto split: if_splits)

lemma length_concat_keys: "\<forall>k \<in> set ks. length k = 32 \<Longrightarrow> length (concat ks) = 32 * length ks"
  by (induction ks) simp_all

lemma no_later_equal: "(\<forall>(i, k) \<in> set (enumerate 0 ks). \<not> list_ex (\<lambda>other. other = k) (drop (i + 1) ks)) \<longleftrightarrow> distinct ks"
proof -
  have "(\<forall>(i, k) \<in> set (enumerate 0 ks). \<not> list_ex (\<lambda>other. other = k) (drop (i + 1) ks)) \<longleftrightarrow>
      (\<forall>i < length ks. ks ! i \<notin> set (drop (Suc i) ks))"
    by (fastforce simp: list_ex_iff in_set_enumerate_eq)
  also have "\<dots> \<longleftrightarrow> distinct ks"
    by (induction ks) (auto simp: nth_Cons split: nat.splits simp flip: All_less_Suc2)
  finally show ?thesis .
qed

text \<open>What a coauthors record must be: empty, or a threshold within 1 to 16 distinct keys.\<close>

definition coauthors_ok :: "Coauthors \<Rightarrow> bool" where
  "coauthors_ok co \<longleftrightarrow>
     (co_threshold co = 0 \<and> co_keys co = []) \<or>
     (1 \<le> unat (co_threshold co) \<and> unat (co_threshold co) \<le> length (co_keys co) \<and>
      length (co_keys co) \<le> MAX_COAUTHORS \<and> distinct (co_keys co))"

lemma check_coauthors_ok: "check_coauthors co = Inr () \<longleftrightarrow> coauthors_ok co"
proof (cases "co_threshold co = 0")
  case True
  then show ?thesis by (auto simp: check_coauthors_def coauthors_ok_def)
next
  case False
  then have "1 \<le> unat (co_threshold co)"
    by (metis One_nat_def Suc_leI gr0I unat_eq_zero)
  with False show ?thesis
    using no_later_equal [of "co_keys co"]
    by (auto simp: check_coauthors_def coauthors_ok_def bind_unit_eq_Inr ensure_eq_Inr foldR_ensure case_prod_unfold not_less)
qed

lemma coauthors_decode_encode:
  assumes "encode_coauthors co = Inr bs" and "\<forall>k \<in> set (co_keys co). length k = 32"
  shows "decode_coauthors bs = Inr co"
proof -
  let ?fs = "(COAUTHORS_THRESHOLD, [co_threshold co]) #
     (if co_threshold co \<noteq> 0 then [(COAUTHORS_KEYS, concat (co_keys co))] else [])"
  from assms(1) have ok: "check_coauthors co = Inr ()" by (auto simp: encode_coauthors_def bindR_eq_Inr)
  have "\<exists>w. put_all ?fs writer_new = Inr w \<and> bs = finish w"
    using assms(1) by (auto simp: encode_coauthors_def bindR_eq_Inr split: if_splits)
  then obtain w where w: "put_all ?fs writer_new = Inr w" "bs = finish w" by blast
  have "co_threshold co \<noteq> 0 \<Longrightarrow> co_keys co \<noteq> []" "co_threshold co = 0 \<Longrightarrow> co_keys co = []"
    using ok by (auto simp: check_coauthors_ok coauthors_ok_def)
  moreover have "co_keys co \<noteq> [] \<Longrightarrow> concat (co_keys co) \<noteq> []"
    using assms(2) by (cases "co_keys co") auto
  ultimately have "foldR coauthors_body (fields_at 0 ?fs) \<lparr>cod_threshold = None, cod_keys = []\<rparr> =
      Inr \<lparr>cod_threshold = Some (co_threshold co), cod_keys = co_keys co\<rparr>"
    using assms(2) by (auto simp: coauthors_body_def chunks_exact_32_concat length_concat_keys)
  then show ?thesis
    using ok by (cases co) (simp add: decode_coauthors_def w(2) tlv_loop_put_all [OF w(1)] Let_def
        del: foldR.simps fields_at.simps)
qed

interpretation coauthors_codec: codec encode_coauthors decode_coauthors "\<lambda>co. \<forall>k \<in> set (co_keys co). length k = 32"
  by unfold_locales (rule coauthors_decode_encode)

section \<open>Authority round-trips\<close>

definition authority_wf :: "Authority \<Rightarrow> bool" where
  "authority_wf a \<longleftrightarrow> length (au_sealing_kid a) = 32 \<and> length (au_lease_verify_key a) = 32"

lemma check_address_charset_ok:
  "check_address_charset url = Inr u \<longleftrightarrow> (\<forall>b \<in> set url. 0x21 \<le> b \<and> b \<le> 0x7E)"
  unfolding check_address_charset_def by (rule foldR_ensure)

lemma address_is_utf8:
  assumes "\<forall>b \<in> set url. 0x21 \<le> b \<and> b \<le> (0x7E :: byte)"
  shows "from_utf8 url = Some url"
proof -
  have "list_all (\<lambda>b. unat b < 0x80) url"
    using assms by (auto simp: list_all_iff word_le_nat_alt)
  then show ?thesis by (simp add: from_utf8_def utf8_valid_ascii)
qed

lemma url_body_fold:
  assumes "\<forall>u \<in> set us. length u \<le> MAX_URL_LEN \<and> check_address_charset u = Inr ()"
    and "length acc + length us \<le> MAX_URLS"
  shows "foldR url_body (fields_at k (indexed n us)) acc = Inr (acc @ us)"
  using assms
proof (induction us arbitrary: k n acc)
  case (Cons u us)
  then have "from_utf8 u = Some u" by (simp add: address_is_utf8 check_address_charset_ok)
  with Cons show ?case by (simp add: url_body_def)
qed simp

lemma encode_url_Inr:
  "encode_url (i, u) w = Inr w' \<Longrightarrow>
     \<exists>b. (u = b \<and> length b \<le> MAX_URL_LEN \<and> check_address_charset b = Inr ()) \<and> put (word_of_nat i) b w = Inr w'"
  by (auto simp: encode_url_def bindR_eq_Inr ensure_eq_Inr ok_or_eq_Inr u16_of_usize_def split: if_splits)

lemma authority_decode_encode:
  assumes wf: "authority_wf a" and enc: "encode_authority a = Inr bs"
  shows "decode_authority bs = Inr a"
proof -
  from enc obtain uw where uw: "foldR encode_url (enumerate 0 (au_urls a)) writer_new = Inr uw"
    and n: "length (au_urls a) \<le> MAX_URLS"
    and keys: "check_key_present 3 (au_lease_verify_key a) = Inr ()" "check_key_present 2 (au_sealing_kid a) = Inr ()"
    and w: "bindR (put_all [(1, finish uw), (2, au_sealing_kid a), (3, au_lease_verify_key a)] writer_new)
      (\<lambda>w. Inr (finish w)) = Inr bs"
    by (auto simp: encode_authority_def bindR_eq_Inr ensure_eq_Inr)
  obtain us where us: "list_all2 (\<lambda>u b. u = b \<and> length b \<le> MAX_URL_LEN \<and> check_address_charset b = Inr ()) (au_urls a) us"
    and put: "put_all (indexed 0 us) writer_new = Inr uw"
    using foldR_enumerate_put [where G = "\<lambda>u b. u = b \<and> length b \<le> MAX_URL_LEN \<and> check_address_charset b = Inr ()",
        OF uw encode_url_Inr] by blast
  have "us = au_urls a" and ok: "\<forall>u \<in> set us. length u \<le> MAX_URL_LEN \<and> check_address_charset u = Inr ()"
    using us by (induction rule: list_all2_induct) simp_all
  obtain w' where w': "put_all [(1, finish uw), (2, au_sealing_kid a), (3, au_lease_verify_key a)] writer_new = Inr w'"
    "bs = finish w'" using w by (auto simp: bindR_eq_Inr)
  have "tlv_loop url_body (reader_new (finish uw)) [] = Inr (au_urls a)"
    using url_body_fold [OF ok, of "[]"] n by (simp add: tlv_loop_put_all [OF put] \<open>us = au_urls a\<close>)
  then show ?thesis
    using wf keys
    by (simp add: decode_authority_def w'(2) tlv_loop_put_all [OF w'(1)] authority_body_def Let_def
        authority_decode_start_def authority_wf_def)
qed

interpretation authority_codec: codec encode_authority decode_authority authority_wf
  by unfold_locales (rule authority_decode_encode)

section \<open>Key slots round-trip\<close>

definition known_slot_wf :: "KnownSlot \<Rightarrow> bool" where
  "known_slot_wf s \<longleftrightarrow>
     length (ks_nonce s) = 24 \<and> length (ks_commitment s) = 32 \<and>
     (\<forall>v. ks_claim_commit s = Some v \<longrightarrow> length v = 32)"

text \<open>An unknown slot is one that this reader would itself set aside as unknown.\<close>

definition slot_wf :: "u16 \<Rightarrow> KeySlot \<Rightarrow> bool" where
  "slot_wf version slot =
     (case slot of
        Known s \<Rightarrow> known_slot_wf s
      | Unknown kind raw \<Rightarrow> decode_slot version raw = Inr (Unknown kind raw))"

definition known_slot_fields :: "KnownSlot \<Rightarrow> (u16 \<times> bytes) list" where
  "known_slot_fields s =
     [(SLOT_KIND, le16 (slot_kind_u16 (ks_kind s))),
      (SLOT_KEM, [kem_u8 (ks_kem s)]),
      (SLOT_ENC, ks_enc s),
      (SLOT_CT, ks_ct s),
      (SLOT_COMMITMENT, ks_commitment s)] @
     opt_field SLOT_KEY_FPR (ks_key_fpr s) @ [(SLOT_NONCE, ks_nonce s)] @
     opt_field SLOT_CLAIM_COMMIT (ks_claim_commit s)"

lemma slot_kind_round_trip [simp]: "slot_kind_from_u16 (slot_kind_u16 k) = Some k"
  by (cases k) (simp_all add: slot_kind_from_u16_def)

text \<open>What a known slot that can be written satisfies.\<close>

definition known_slot_ok :: "u16 \<Rightarrow> KnownSlot \<Rightarrow> bool" where
  "known_slot_ok version s \<longleftrightarrow>
     expected_enc_len version (ks_kem s) = Some (length (ks_enc s)) \<and>
     (\<forall>fpr. ks_key_fpr s = Some fpr \<longrightarrow> expected_key_fpr_len version (ks_kem s) = Some (length fpr)) \<and>
     check_slot_shape (ks_kind s) (ks_kem s) (ks_claim_commit s \<noteq> None) (length (ks_ct s))
       (ks_key_fpr s \<noteq> None) (ks_enc s) (ks_nonce s) = Inr ()"

lemma encode_known_slot_Inr:
  "encode_known_slot version s = Inr bs \<longleftrightarrow>
     known_slot_ok version s \<and> bindR (put_all (known_slot_fields s) writer_new) (\<lambda>w. Inr (finish w)) = Inr bs"
  by (cases "ks_key_fpr s")
    (auto simp: encode_known_slot_def known_slot_ok_def known_slot_fields_def put_opt_all put_all_append
      bindR_assoc bindR_eq_Inr ensure_eq_Inr ok_or_eq_Inr put_all_one simp del: put_all_simps(2) append_Cons)

lemma slot_loop_known:
  "foldR slot_body (fields_at 0 (known_slot_fields s)) slot_decode_start =
     Inr \<lparr>sld_kind_raw = Some (slot_kind_u16 (ks_kind s)), sld_kem = Some (kem_u8 (ks_kem s)),
       sld_enc = Some (ks_enc s), sld_ct = Some (ks_ct s), sld_commitment = Some (ks_commitment s),
       sld_key_fpr = ks_key_fpr s, sld_nonce = Some (ks_nonce s), sld_claim_commit = ks_claim_commit s,
       sld_unusable = False\<rparr>"
  by (cases "ks_key_fpr s"; cases "ks_claim_commit s")
    (simp_all add: known_slot_fields_def slot_body_def slot_decode_start_def Let_def)

lemma known_slot_decode_encode:
  assumes "encode_known_slot version s = Inr bs" and "known_slot_wf s"
  shows "decode_slot version bs = Inr (Known s)"
proof -
  obtain w where w: "put_all (known_slot_fields s) writer_new = Inr w" "bs = finish w"
    and ok: "known_slot_ok version s"
    using assms(1) by (auto simp: encode_known_slot_Inr bindR_eq_Inr)
  have "tlv_loop slot_body (reader_new bs) slot_decode_start =
      foldR slot_body (fields_at 0 (known_slot_fields s)) slot_decode_start"
    by (simp add: w(2) tlv_loop_put_all [OF w(1)])
  then show ?thesis
    using ok assms(2)
    by (cases "ks_key_fpr s"; cases "ks_claim_commit s")
      (simp_all add: decode_slot_def slot_loop_known decode_known_slot_def known_slot_ok_def known_slot_wf_def
        exact_def to_array_def)
qed

lemma slot_decode_encode:
  "encode_slot version slot = Inr bs \<Longrightarrow> slot_wf version slot \<Longrightarrow> decode_slot version bs = Inr slot"
  by (cases slot) (auto simp: encode_slot_def slot_wf_def known_slot_decode_encode)

interpretation slot_codec: codec "encode_slot v" "decode_slot v" "slot_wf v" for v
  by unfold_locales (rule slot_decode_encode)

lemma slots_body_fold:
  assumes "list_all2 (\<lambda>slot b. decode_slot version b = Inr slot) slots bs"
    and "length acc + length slots \<le> MAX_KEY_SLOTS"
  shows "foldR (slots_body version) (fields_at k (indexed n bs)) acc = Inr (acc @ slots)"
  using assms
  by (induction arbitrary: k n acc rule: list_all2_induct) (simp_all add: slots_body_def)

lemma slots_decode_encode:
  assumes "encode_slots version slots = Inr bs" and "\<forall>slot \<in> set slots. slot_wf version slot"
    and "length slots \<le> MAX_KEY_SLOTS"
  shows "decode_slots version bs = Inr slots"
proof -
  let ?F = "\<lambda>is w. bindR (ok_or OffsetOverflow (u16_of_usize (fst is))) (\<lambda>tag.
       bindR (encode_slot version (snd is)) (\<lambda>body. put tag body w))"
  from assms(1) obtain w where w: "foldR ?F (enumerate 0 slots) writer_new = Inr w" "bs = finish w"
    by (auto simp: encode_slots_def bindR_eq_Inr)
  have step: "?F (i, x) w = Inr w' \<Longrightarrow> \<exists>b. encode_slot version x = Inr b \<and> put (word_of_nat i) b w = Inr w'"
    for i x w w'
    by (auto simp: bindR_eq_Inr ok_or_eq_Inr u16_of_usize_def split: if_splits)
  obtain bodies where b: "list_all2 (\<lambda>x b. encode_slot version x = Inr b) slots bodies"
    "put_all (indexed 0 bodies) writer_new = Inr w"
    using foldR_enumerate_put [where G = "\<lambda>x b. encode_slot version x = Inr b", OF w(1) step] by blast
  have "list_all2 (\<lambda>slot b. decode_slot version b = Inr slot) slots bodies"
    using b(1) assms(2) slot_decode_encode by (auto simp: list_all2_conv_all_nth)
  from slots_body_fold [OF this, of "[]"] assms(3) show ?thesis
    by (simp add: decode_slots_def w(2) tlv_loop_put_all [OF b(2)])
qed

section \<open>The header round-trips\<close>

definition header_wf :: "Header \<Rightarrow> bool" where
  "header_wf h \<longleftrightarrow>
     length (hd_file_id h) = 16 \<and> length (hd_author_key h) = 32 \<and> length (hd_header_salt h) = 32 \<and>
     length (hd_original_root h) = 32 \<and> length (hd_wrapped_cek h) = WRAPPED_CEK_LEN \<and>
     (\<forall>v. hd_prev_header_hash h = Some v \<longrightarrow> length v = 32) \<and>
     suite_wf (hd_suite h) \<and> policy_wf (hd_container_version h) (hd_policy h) \<and>
     (\<forall>slot \<in> set (hd_key_slots h). slot_wf (hd_container_version h) slot) \<and>
     authority_wf (hd_authority h) \<and> hd_class h = LOCAL_CLASS \<and>
     (\<forall>co. hd_coauthors h = Some co \<longrightarrow>
        FIRST_COAUTHORS_VERSION \<le> hd_container_version h \<and> (\<forall>k \<in> set (co_keys co). length k = 32))"

text \<open>The fields of a header, given the bytes of its nested streams.\<close>

definition header_fields ::
    "Header \<Rightarrow> bytes \<Rightarrow> bytes \<Rightarrow> bytes \<Rightarrow> bytes \<Rightarrow> bytes option \<Rightarrow> (u16 \<times> bytes) list" where
  "header_fields h suite policy slots authority coauthors =
     [(TAG_CONTAINER_VERSION, le16 (hd_container_version h)),
      (TAG_MIN_READER_VERSION, le16 (hd_min_reader_version h)),
      (TAG_FILE_ID, hd_file_id h)] @
     [(TAG_SUITE, suite),
      (TAG_AUTHOR_KEY, hd_author_key h),
      (TAG_HEADER_SALT, hd_header_salt h),
      (TAG_CHUNK_SIZE, le32 (hd_chunk_size h)),
      (TAG_ORIGINAL_ROOT, hd_original_root h)] @
     [(TAG_POLICY, policy)] @ [(TAG_KEY_SLOTS, slots)] @
     [(TAG_AUTHORITY, authority), (TAG_PRIVATE_META, hd_private_meta h)] @
     opt_field TAG_PREV_HEADER_HASH (hd_prev_header_hash h) @
     [(TAG_ORG_ID, hd_org_id h), (TAG_CLASS, [hd_class h])] @
     opt_field TAG_FOOTER_OFFSET (map_option (\<lambda>n. le64 n) (hd_footer_offset h)) @
     [(TAG_WRAPPED_CEK, hd_wrapped_cek h)] @
     opt_field TAG_COAUTHORS coauthors"

lemma header_encode_Inr:
  assumes "header_encode h = Inr bs"
  shows "\<exists>suite policy slots authority coauthors w.
     check_chunk_size (hd_chunk_size h) = Inr (hd_chunk_size h) \<and> length (hd_key_slots h) \<le> MAX_KEY_SLOTS \<and>
     encode_suite (hd_suite h) = Inr suite \<and>
     policy_encode (hd_container_version h) (hd_policy h) = Inr policy \<and>
     encode_slots (hd_container_version h) (hd_key_slots h) = Inr slots \<and>
     encode_authority (hd_authority h) = Inr authority \<and>
     (if FIRST_COAUTHORS_VERSION \<le> hd_container_version h
      then (case hd_coauthors h of None \<Rightarrow> coauthors = None
            | Some co \<Rightarrow> \<exists>b. coauthors = Some b \<and> encode_coauthors co = Inr b)
      else coauthors = None) \<and>
     put_all (header_fields h suite policy slots authority coauthors) writer_new = Inr w \<and> bs = finish w"
proof -
  from assms obtain suite policy slots authority w where
    parts: "length (hd_key_slots h) \<le> MAX_KEY_SLOTS" "encode_suite (hd_suite h) = Inr suite"
      "policy_encode (hd_container_version h) (hd_policy h) = Inr policy"
      "encode_slots (hd_container_version h) (hd_key_slots h) = Inr slots"
      "encode_authority (hd_authority h) = Inr authority"
    and w: "put_all (header_fields h suite policy slots authority None) writer_new = Inr w"
    and last: "bindR (if hd_container_version h \<ge> FIRST_COAUTHORS_VERSION
            then case hd_coauthors h of
                Some coauthors \<Rightarrow> bindR (encode_coauthors coauthors) (\<lambda>bs. put TAG_COAUTHORS bs w)
              | None \<Rightarrow> Inr w
            else Inr w) (\<lambda>w. Inr (finish w)) = Inr bs"
    unfolding header_encode_def header_fields_def put_opt_all bindR_eq_Inr
    by (auto simp: put_all_append put_all_one bindR_eq_Inr ensure_eq_Inr simp del: put_all_simps(2) append_Cons)
  have "check_chunk_size (hd_chunk_size h) = Inr (hd_chunk_size h)"
    using assms by (auto simp: header_encode_def bindR_eq_Inr check_chunk_size_def split: if_splits)
  moreover have "header_fields h suite policy slots authority (Some b) =
      header_fields h suite policy slots authority None @ [(TAG_COAUTHORS, b)]" for b
    by (simp add: header_fields_def)
  ultimately show ?thesis
    using parts w last
    by (cases "hd_container_version h \<ge> FIRST_COAUTHORS_VERSION"; cases "hd_coauthors h")
      (auto simp: bindR_eq_Inr put_all_append put_all_one simp del: put_all_simps(2) append_Cons)
qed

lemma header_body_at:
  "header_body \<lparr>fld_tag = t, fld_value = v, fld_start = n + 6, fld_end = e\<rparr> d =
     header_match \<lparr>fld_tag = t, fld_value = v, fld_start = n + 6, fld_end = e\<rparr> (n, e) d"
  by (simp add: header_body_def FIELD_PREFIX_LEN_def)

lemma fields_at_append: "fields_at n (fs @ gs) = fields_at n fs @ fields_at (n + length (enc_fields fs)) gs"
  by (induction n fs rule: fields_at.induct) (simp_all add: add.assoc)

lemma header_decode_fields:
  assumes "header_wf h" and "check_chunk_size (hd_chunk_size h) = Inr (hd_chunk_size h)"
    and "decode_suite suite = Inr (hd_suite h)"
    and "policy_decode (hd_container_version h) policy = Inr (hd_policy h)"
    and "decode_slots (hd_container_version h) slots = Inr (hd_key_slots h)"
    and "decode_authority authority = Inr (hd_authority h)"
    and "case hd_coauthors h of None \<Rightarrow> coauthors = None
         | Some co \<Rightarrow> \<exists>b. coauthors = Some b \<and> decode_coauthors b = Inr co"
  shows "\<exists>d. foldR header_body (fields_at 0 (header_fields h suite policy slots authority coauthors))
       header_decode_start = Inr d \<and> (\<exists>spans. header_finish d = Inr \<lparr>ph_header = h, ph_spans = spans\<rparr>)"
  using assms
  by (cases "hd_prev_header_hash h"; cases "hd_footer_offset h"; cases "hd_coauthors h")
    (auto simp: header_fields_def header_body_def FIELD_PREFIX_LEN_def header_match_def Let_def
      header_wf_def header_decode_start_def header_finish_def version_so_far_def LOCAL_CLASS_def)

lemma header_decode_encode:
  assumes "header_wf h" and "header_encode h = Inr bs"
  shows "map_sum id ph_header (header_decode bs) = Inr h"
proof -
  obtain suite policy slots authority coauthors w where
    parts: "check_chunk_size (hd_chunk_size h) = Inr (hd_chunk_size h)" "length (hd_key_slots h) \<le> MAX_KEY_SLOTS"
      "encode_suite (hd_suite h) = Inr suite" "policy_encode (hd_container_version h) (hd_policy h) = Inr policy"
      "encode_slots (hd_container_version h) (hd_key_slots h) = Inr slots"
      "encode_authority (hd_authority h) = Inr authority"
    and co: "if FIRST_COAUTHORS_VERSION \<le> hd_container_version h
      then (case hd_coauthors h of None \<Rightarrow> coauthors = None
            | Some co \<Rightarrow> \<exists>b. coauthors = Some b \<and> encode_coauthors co = Inr b)
      else coauthors = None"
    and w: "put_all (header_fields h suite policy slots authority coauthors) writer_new = Inr w" "bs = finish w"
    using header_encode_Inr [OF assms(2)] by blast
  note wf = assms(1) [unfolded header_wf_def]
  have "decode_suite suite = Inr (hd_suite h)"
    using suite_codec.dec_enc parts(3) wf by blast
  moreover have "policy_decode (hd_container_version h) policy = Inr (hd_policy h)"
    using policy_codec.dec_enc parts(4) wf by blast
  moreover have "decode_slots (hd_container_version h) slots = Inr (hd_key_slots h)"
    using slots_decode_encode parts(2,5) wf by blast
  moreover have "decode_authority authority = Inr (hd_authority h)"
    using authority_codec.dec_enc parts(6) wf by blast
  moreover have "case hd_coauthors h of None \<Rightarrow> coauthors = None
         | Some co \<Rightarrow> \<exists>b. coauthors = Some b \<and> decode_coauthors b = Inr co"
    using co wf by (auto simp: coauthors_decode_encode split: option.splits if_splits)
  ultimately obtain d spans where
    "foldR header_body (fields_at 0 (header_fields h suite policy slots authority coauthors)) header_decode_start = Inr d"
    "header_finish d = Inr \<lparr>ph_header = h, ph_spans = spans\<rparr>"
    using header_decode_fields [OF assms(1) parts(1)] by blast
  then show ?thesis
    by (simp add: header_decode_def w(2) tlv_loop_put_all [OF w(1)])
qed

interpretation header_codec: codec header_encode "\<lambda>bs. map_sum id ph_header (header_decode bs)" header_wf
  by unfold_locales (rule header_decode_encode)

section \<open>Spans\<close>

lemma header_body_spans:
  assumes "header_body f d = Inr d'"
  shows "hdd_policy_value d' = (if fld_tag f = TAG_POLICY then Some (fld_start f, fld_end f) else hdd_policy_value d)"
    and "hdd_key_slots_record d' =
      (if fld_tag f = TAG_KEY_SLOTS then Some (fld_start f - 6, fld_end f) else hdd_key_slots_record d)"
    and "hdd_wrapped_cek_record d' =
      (if fld_tag f = TAG_WRAPPED_CEK then Some (fld_start f - 6, fld_end f) else hdd_wrapped_cek_record d)"
  using assms
  by (auto simp: header_body_def header_match_def Let_def bindR_eq_Inr ok_or_eq_Inr FIELD_PREFIX_LEN_def
      split: if_splits UnknownTag.splits)

text \<open>Where the field with a given tag starts, counting its prefix, and ends.\<close>

fun record_at :: "u16 \<Rightarrow> nat \<Rightarrow> (u16 \<times> bytes) list \<Rightarrow> (nat \<times> nat) option" where
  "record_at t n [] = None"
| "record_at t n ((u, v) # fs) = (if u = t then Some (n, n + 6 + length v) else record_at t (n + 6 + length v) fs)"

lemma record_at_None: "record_at t n fs = None \<longleftrightarrow> t \<notin> fst ` set fs"
  by (induction t n fs rule: record_at.induct) auto

lemma header_fold_spans:
  assumes "foldR header_body (fields_at n fs) d = Inr d'" and "distinct (map fst fs)"
  shows "hdd_policy_value d' =
       (case record_at TAG_POLICY n fs of Some r \<Rightarrow> Some (fst r + 6, snd r) | None \<Rightarrow> hdd_policy_value d) \<and>
     hdd_key_slots_record d' =
       (case record_at TAG_KEY_SLOTS n fs of Some r \<Rightarrow> Some r | None \<Rightarrow> hdd_key_slots_record d) \<and>
     hdd_wrapped_cek_record d' =
       (case record_at TAG_WRAPPED_CEK n fs of Some r \<Rightarrow> Some r | None \<Rightarrow> hdd_wrapped_cek_record d)"
  using assms
proof (induction n fs arbitrary: d rule: fields_at.induct)
  case (2 n t v fs)
  from "2.prems" obtain u where
    u: "header_body \<lparr>fld_tag = t, fld_value = v, fld_start = n + 6, fld_end = n + 6 + length v\<rparr> d = Inr u"
      "foldR header_body (fields_at (n + 6 + length v) fs) u = Inr d'"
    by (auto simp: bindR_eq_Inr)
  moreover have "record_at t m fs = None" for m using "2.prems"(2) by (simp add: record_at_None)
  ultimately show ?case
    using "2.IH" [OF u(2)] header_body_spans [OF u(1)] "2.prems"(2) by (auto split: option.splits)
qed simp

text \<open>Splitting a list of fields at the field with a given tag.\<close>

lemma record_at_split:
  assumes "record_at t n fs = Some r"
  shows "\<exists>pre v post. fs = pre @ (t, v) # post \<and>
     r = (n + length (enc_fields pre), n + length (enc_fields pre) + 6 + length v) \<and> t \<notin> fst ` set pre"
  using assms
proof (induction t n fs rule: record_at.induct)
  case (2 t n u v fs)
  show ?case
  proof (cases "u = t")
    case True
    then show ?thesis using "2.prems" by (intro exI [of _ "[]"] exI [of _ v] exI [of _ fs]) auto
  next
    case False
    then obtain pre v' post where "fs = pre @ (t, v') # post" "t \<notin> fst ` set pre"
      "r = (n + 6 + length v + length (enc_fields pre), n + 6 + length v + length (enc_fields pre) + 6 + length v')"
      using 2 by auto
    then show ?thesis using False by (intro exI [of _ "(u, v) # pre"] exI [of _ v'] exI [of _ post]) auto
  qed
qed simp

lemma header_decode_spans:
  assumes "header_decode bs = Inr ph"
  shows "\<exists>fs d. read_fields bs = Inr fs \<and> bs = enc_fields fs \<and> ascending None fs \<and>
     foldR header_body (fields_at 0 fs) header_decode_start = Inr d \<and> header_finish d = Inr ph \<and>
     (\<exists>r. record_at TAG_POLICY 0 fs = Some r \<and> sp_policy_value (ph_spans ph) = (fst r + 6, snd r)) \<and>
     record_at TAG_KEY_SLOTS 0 fs = Some (sp_key_slots_record (ph_spans ph)) \<and>
     record_at TAG_WRAPPED_CEK 0 fs = Some (sp_wrapped_cek_record (ph_spans ph))"
proof -
  from assms obtain d where loop: "tlv_loop header_body (reader_new bs) header_decode_start = Inr d"
    and fin: "header_finish d = Inr ph"
    by (auto simp: header_decode_def bindR_eq_Inr)
  obtain fs where fs: "read_fields bs = Inr fs" "bs = enc_fields fs" "ascending None fs"
    and fold: "foldR header_body (fields_at 0 fs) header_decode_start = Inr d"
    using tlv_loop_fields [OF loop] by blast
  have "distinct (map fst fs)" using ascending_distinct [OF fs(3)] by blast
  from header_fold_spans [OF fold this]
  have "hdd_policy_value d = map_option (\<lambda>r. (fst r + 6, snd r)) (record_at TAG_POLICY 0 fs)"
    "hdd_key_slots_record d = record_at TAG_KEY_SLOTS 0 fs"
    "hdd_wrapped_cek_record d = record_at TAG_WRAPPED_CEK 0 fs"
    by (auto simp: header_decode_start_def split: option.splits)
  with fin fs fold show ?thesis
    by (intro exI [of _ fs] exI [of _ d]) (auto simp: header_finish_def bindR_eq_Inr ok_or_eq_Inr)
qed

section \<open>What the hashes cover\<close>

definition core_fields :: "(u16 \<times> bytes) list \<Rightarrow> (u16 \<times> bytes) list" where
  "core_fields fs = filter (\<lambda>(t, v). t \<noteq> TAG_KEY_SLOTS \<and> t \<noteq> TAG_WRAPPED_CEK) fs"

lemma core_fields_other: "TAG_KEY_SLOTS \<notin> fst ` set fs \<Longrightarrow> TAG_WRAPPED_CEK \<notin> fst ` set fs \<Longrightarrow> core_fields fs = fs"
  unfolding core_fields_def by (rule filter_True) (auto intro: rev_image_eqI)

lemma core_fields_append: "core_fields (fs @ gs) = core_fields fs @ core_fields gs"
  by (simp add: core_fields_def)

lemma core_fields_Cons: "core_fields ((t, v) # gs) =
    (if t = TAG_KEY_SLOTS \<or> t = TAG_WRAPPED_CEK then core_fields gs else (t, v) # core_fields gs)"
  by (simp add: core_fields_def)

lemma ascending_append_less:
  "ascending prior (fs @ (t, v) # gs) \<Longrightarrow> (\<forall>x \<in> fst ` set fs. x < t) \<and> (\<forall>x \<in> fst ` set gs. t < x)"
proof (induction prior fs rule: ascending.induct)
  case (1 prior)
  then show ?case using ascending_distinct [of "Some t" gs] by auto
next
  case (2 prior u w fs)
  then have "ascending (Some u) (fs @ (t, v) # gs)" by simp
  moreover from this have "u < t" using ascending_distinct [of "Some u" "fs @ (t, v) # gs"] by auto
  ultimately show ?case using "2.IH" by auto
qed

lemma core_split:
  assumes asc: "ascending None fs" and "record_at TAG_KEY_SLOTS 0 fs = Some ks" and "record_at TAG_WRAPPED_CEK 0 fs = Some wc"
  shows "\<exists>a k b w d. fs = a @ (TAG_KEY_SLOTS, k) # b @ (TAG_WRAPPED_CEK, w) # d \<and>
     ks = (length (enc_fields a), length (enc_fields a) + 6 + length k) \<and>
     wc = (snd ks + length (enc_fields b), snd ks + length (enc_fields b) + 6 + length w) \<and>
     core_fields fs = a @ b @ d"
proof -
  obtain a k r where fs: "fs = a @ (10, k) # r" and ks: "ks = (length (enc_fields a), length (enc_fields a) + 6 + length k)"
    using record_at_split [OF assms(2)] by auto
  note lt = ascending_append_less [of None a 10 k r] and asc' = asc [unfolded fs]
  obtain pre w d where fs': "fs = pre @ (17, w) # d" and wc: "wc = (length (enc_fields pre), length (enc_fields pre) + 6 + length w)"
    using record_at_split [OF assms(3)] by auto
  note lt' = ascending_append_less [of None pre 17 w d, OF asc [unfolded fs']]
  have "17 \<notin> fst ` set a" using lt [OF asc'] by fastforce
  then have "(17, w) \<notin> set a" by (auto intro: rev_image_eqI)
  moreover have "(17, w) \<in> set (a @ (10, k) # r)" unfolding fs [symmetric] fs' by simp
  ultimately have "(17, w) \<in> set r" by simp
  then obtain b d' where r: "r = b @ (17, w) # d'" by (meson split_list)
  note lt'' = ascending_append_less [of None "a @ (10, k) # b" 17 w d']
  have *: "fs = (a @ (10, k) # b) @ (17, w) # d'" by (simp add: fs r)
  note up = lt'' [OF asc [unfolded *]]
  have "pre = a @ (10, k) # b \<and> d = d'"
    using fs' * lt' up by (metis (no_types, lifting) append_Cons_eq_iff fst_conv image_eqI order_less_irrefl)
  moreover have "core_fields fs = a @ b @ d'"
  proof -
    have "10 \<notin> fst ` set a" "10 \<notin> fst ` set r" "17 \<notin> fst ` set b" "17 \<notin> fst ` set d'"
      using lt [OF asc'] up by fastforce+
    moreover have "10 \<notin> fst ` set b" "10 \<notin> fst ` set d'"
      using \<open>10 \<notin> fst ` set r\<close> by (auto simp: r)
    ultimately show ?thesis
      using \<open>17 \<notin> fst ` set a\<close> by (simp add: fs r core_fields_append core_fields_Cons core_fields_other)
  qed
  ultimately show ?thesis
    using fs r ks wc by (intro exI [of _ a] exI [of _ k] exI [of _ b] exI [of _ w] exI [of _ d]) (auto simp: add.assoc)
qed

text \<open>
  The core hash is taken over the encoding of all fields but the key slots and the wrapped key;
  the policy hash over the value of the policy field.
\<close>

lemma core_hash_eq:
  assumes "header_decode bs = Inr ph" and "read_fields bs = Inr fs"
  shows "core_hash c bs (ph_spans ph) = Inr (sha256_digest c (CORE_HASH @ [0] @ enc_fields (core_fields fs)))"
proof -
  obtain gs where "read_fields bs = Inr gs" and bs: "bs = enc_fields gs" and asc: "ascending None gs"
    and rec: "record_at TAG_KEY_SLOTS 0 gs = Some (sp_key_slots_record (ph_spans ph))"
      "record_at TAG_WRAPPED_CEK 0 gs = Some (sp_wrapped_cek_record (ph_spans ph))"
    using header_decode_spans [OF assms(1)] by blast
  with assms(2) have fs: "gs = fs" by simp
  obtain a k b w d where split: "gs = a @ (10, k) # b @ (17, w) # d"
    and ks: "sp_key_slots_record (ph_spans ph) = (length (enc_fields a), length (enc_fields a) + 6 + length k)"
    and wc: "sp_wrapped_cek_record (ph_spans ph) =
       (length (enc_fields a) + 6 + length k + length (enc_fields b),
        length (enc_fields a) + 6 + length k + length (enc_fields b) + 6 + length w)"
    and core: "core_fields gs = a @ b @ d"
    using core_split [OF asc rec] by auto
  define A B D where "A = enc_fields a" and "B = enc_fields b" and "D = enc_fields d"
  define K W where "K = enc_field (10, k)" and "W = enc_field (17, w)"
  have bs': "bs = A @ K @ B @ W @ D" by (simp add: bs split A_def B_def D_def K_def W_def)
  have len: "length K = 6 + length k" "length W = 6 + length w" by (simp_all add: K_def W_def)
  have "get_range bs 0 (length A) = Some A"
    "get_range bs (length A + 6 + length k) (length A + 6 + length k + length B) = Some B"
    "get_range bs (length A + 6 + length k + length B + 6 + length w) (length bs) = Some D"
    using len by (simp_all add: get_range_def bs')
  then show ?thesis
    using len by (simp add: core_hash_def Let_def ks wc core fs [symmetric] A_def [symmetric] B_def [symmetric]
        bs' [symmetric] D_def [symmetric] sort_key_def)
      (simp add: bs')
qed

end
