(* ===== verification/OC_Header_Valid.thy ===== *)
theory OC_Header_Valid
  imports OC_Header
begin

text \<open>
  What decoding a header guarantees.  Every nested decoder of \<^verbatim>\<open>oc-format/src/header.rs\<close> returns
  only values that satisfy the limits of the format, so a decoded header is well formed; its
  two hashes cover exactly the fields they are meant to cover.
\<close>

section \<open>Decoded policies\<close>

lemma action_binding_fold_wf:
  assumes "foldR action_binding_body fs p = Inr q" and "\<forall>a. pol_action_binding p a \<noteq> Some Software"
  shows "\<forall>a. pol_action_binding q a \<noteq> Some Software"
  using assms
proof (rule foldR_invariant)
  fix f p q
  assume p: "\<forall>a. pol_action_binding p a \<noteq> Some Software" and "action_binding_body f p = Inr q"
  then obtain b where "(if b = Software then Inr p
     else case tag_to_action (fld_tag f) of
         Some a \<Rightarrow> Inr (p\<lparr>pol_action_binding := (pol_action_binding p)(a \<mapsto> b)\<rparr>) | None \<Rightarrow> Inr p) = (Inr q :: FormatError + Policy)"
    unfolding action_binding_body_def bindR_eq_Inr by blast
  then show "\<forall>a. pol_action_binding q a \<noteq> Some Software"
    using p by (auto split: if_splits option.splits)
qed

lemma actions_fold_bindings:
  assumes "foldR actions_body fs p = Inr q"
  shows "pol_action_binding q = pol_action_binding p"
  using assms
  by (rule foldR_invariant [where P = "\<lambda>q. pol_action_binding q = pol_action_binding p"])
    (auto simp: actions_body_def bindR_eq_Inr split: option.splits)

definition binding_inv :: "u16 \<Rightarrow> PolicyDecoder \<Rightarrow> bool" where
  "binding_inv version d \<longleftrightarrow>
     (\<forall>a. pol_action_binding (pd_policy d) a \<noteq> Some Software) \<and>
     (version < FIRST_ACTION_BINDING_VERSION \<longrightarrow> pol_action_binding (pd_policy d) = Map.empty)"

lemma policy_body_binding_inv:
  assumes "policy_body version f d = Inr d'" and "binding_inv version d"
  shows "binding_inv version d'"
proof -
  consider "fld_tag f = 1" | "fld_tag f = 7" "version \<ge> FIRST_ACTION_BINDING_VERSION"
    | "pol_action_binding (pd_policy d') = pol_action_binding (pd_policy d)"
    using assms(1) unfolding policy_body_def Let_def by (auto simp: bindR_eq_Inr split: if_splits)
  then show ?thesis
  proof cases
    case 1
    then obtain p where dec: "decode_actions (fld_value f) (pd_policy d) = Inr p" and d': "pd_policy d' = p"
      using assms(1) by (auto simp: policy_body_def Let_def bindR_eq_Inr)
    have "pol_action_binding p = pol_action_binding (pd_policy d)"
      using tlv_loop_read_fields [OF dec [unfolded decode_actions_def]] actions_fold_bindings by blast
    then show ?thesis using assms(2) d' by (simp add: binding_inv_def)
  next
    case 2
    then obtain p where dec: "decode_action_binding (fld_value f) (pd_policy d) = Inr p" and d': "pd_policy d' = p"
      using assms(1) by (auto simp: policy_body_def Let_def bindR_eq_Inr)
    have "\<forall>a. pol_action_binding p a \<noteq> Some Software"
      using tlv_loop_read_fields [OF dec [unfolded decode_action_binding_def]] action_binding_fold_wf assms(2)
      unfolding binding_inv_def by blast
    then show ?thesis using 2 d' by (auto simp: binding_inv_def)
  next
    case 3
    then show ?thesis using assms(2) by (simp add: binding_inv_def)
  qed
qed

lemma policy_decode_wf:
  assumes "policy_decode version bs = Inr p"
  shows "policy_wf version p"
proof -
  from assms obtain d where loop: "tlv_loop (policy_body version) (reader_new bs) policy_decode_start = Inr d"
    and p: "p = pd_policy d"
    by (auto simp: policy_decode_def bindR_eq_Inr ensure_eq_Inr)
  obtain fs where fs: "distinct (map fst fs)"
    and fold: "foldR (policy_body version) (fields_at 0 fs) policy_decode_start = Inr d"
    using tlv_loop_read_fields [OF loop] by blast
  have "binding_inv version policy_decode_start"
    by (simp add: binding_inv_def policy_decode_start_def deny_all_def)
  then have b: "binding_inv version d"
    using foldR_invariant [OF fold, of "binding_inv version"] policy_body_binding_inv by blast
  have start: "pol_actions (pd_policy policy_decode_start) = Map.empty"
    "pol_unknown_actions (pd_policy policy_decode_start) = {}"
    by (simp_all add: policy_decode_start_def deny_all_def)
  have "normal_policy p \<and> (\<forall>t \<in> pol_unknown_actions p. tag_to_action t = None)"
  proof (cases "map_of fs 1")
    case None
    then show ?thesis using policy_fold_Inr [OF fold fs] start by (simp add: p normal_policy_def)
  next
    case (Some av)
    then have "actions_effect av (pd_policy policy_decode_start) p"
      using policy_fold_Inr [OF fold fs] by (simp add: p)
    then show ?thesis unfolding actions_effect_def normal_policy_def start by (auto split: if_splits)
  qed
  with b show ?thesis by (auto simp: policy_wf_def binding_inv_def p)
qed

section \<open>Decoded parts of the header\<close>

lemma decode_suite_wf: "decode_suite bs = Inr s \<Longrightarrow> suite_wf s"
proof -
  assume dec: "decode_suite bs = Inr s"
  define ok where "ok d \<longleftrightarrow> (\<forall>x. sud_sig d = Some x \<longrightarrow> x = Ed25519) \<and>
    (\<forall>x. sud_aead d = Some x \<longrightarrow> x = XChaCha20Poly1305) \<and> (\<forall>x. sud_tree_hash d = Some x \<longrightarrow> x = Blake3)" for d :: SuiteDecoder
  obtain d where loop: "tlv_loop suite_body (reader_new bs) suite_decode_start = Inr d"
    and d: "sud_sig d = Some (su_sig s)" "sud_aead d = Some (su_aead s)" "sud_tree_hash d = Some (su_tree_hash s)"
    using dec by (auto simp: decode_suite_def bindR_eq_Inr ok_or_eq_Inr)
  obtain fs where fold: "foldR suite_body fs suite_decode_start = Inr d"
    using tlv_loop_read_fields [OF loop] by blast
  have "ok d"
    by (rule foldR_invariant [OF fold])
      (auto simp: ok_def suite_decode_start_def suite_body_def Let_def bindR_eq_Inr map_err_eq_Inr ensure_eq_Inr
        aead_from_u8_eq tree_hash_from_u8_eq split: if_splits UnknownTag.splits)
  with d show ?thesis by (simp add: ok_def suite_wf_def)
qed

text \<open>What a decoded authority satisfies.\<close>

definition authority_ok :: "Authority \<Rightarrow> bool" where
  "authority_ok a \<longleftrightarrow>
     authority_wf a \<and> length (au_urls a) \<le> MAX_URLS \<and>
     (\<forall>u \<in> set (au_urls a). length u \<le> MAX_URL_LEN \<and> (\<forall>b \<in> set u. 0x21 \<le> b \<and> b \<le> 0x7E)) \<and>
     (\<exists>b \<in> set (au_sealing_kid a). b \<noteq> 0) \<and> (\<exists>b \<in> set (au_lease_verify_key a). b \<noteq> 0)"

definition urls_ok :: "bytes list \<Rightarrow> bool" where
  "urls_ok us \<longleftrightarrow> length us \<le> MAX_URLS \<and>
     (\<forall>u \<in> set us. length u \<le> MAX_URL_LEN \<and> (\<forall>b \<in> set u. 0x21 \<le> b \<and> b \<le> 0x7E))"

lemma url_loop_ok:
  assumes "tlv_loop url_body (reader_new bs) us = Inr us'" and "urls_ok us"
  shows "urls_ok us'"
proof -
  obtain fs where "foldR url_body fs us = Inr us'"
    using tlv_loop_read_fields [OF assms(1)] by blast
  then show ?thesis
    using assms(2)
    by (rule foldR_invariant)
      (auto simp: urls_ok_def url_body_def bindR_eq_Inr ensure_eq_Inr ok_or_eq_Inr from_utf8_def
        check_address_charset_ok split: if_splits)
qed

lemma decode_authority_ok: "decode_authority bs = Inr a \<Longrightarrow> authority_ok a"
proof -
  assume dec: "decode_authority bs = Inr a"
  define ok where "ok d \<longleftrightarrow> authority_wf (aud_authority d) \<and> urls_ok (au_urls (aud_authority d))" for d :: AuthorityDecoder
  obtain d where loop: "tlv_loop authority_body (reader_new bs) authority_decode_start = Inr d" and d: "a = aud_authority d"
    and keys: "check_key_present 2 (au_sealing_kid a) = Inr ()" "check_key_present 3 (au_lease_verify_key a) = Inr ()"
    using dec by (auto simp: decode_authority_def bindR_eq_Inr ensure_eq_Inr)
  obtain fs where fold: "foldR authority_body fs authority_decode_start = Inr d"
    using tlv_loop_read_fields [OF loop] by blast
  have "ok d"
    by (rule foldR_invariant [OF fold])
      (auto simp: ok_def authority_decode_start_def authority_body_def Let_def bindR_eq_Inr authority_wf_def
        field_array_def urls_ok_def [of "[]"] intro: url_loop_ok split: if_splits UnknownTag.splits)
  with d keys show ?thesis
    by (auto simp: ok_def authority_ok_def urls_ok_def check_key_present_def ensure_eq_Inr list_all_iff)
qed

text \<open>
  A decoded slot: one that this reader understands has the shape its kind and KEM demand; any
  other is kept byte for byte.
\<close>

definition slot_lengths :: "u16 \<Rightarrow> KnownSlot \<Rightarrow> bool" where
  "slot_lengths version s \<longleftrightarrow>
     (case ks_kem s of
        X25519HkdfSha256 \<Rightarrow> length (ks_enc s) = 32 \<and> (\<forall>f. ks_key_fpr s = Some f \<longrightarrow> length f = 32)
      | P256HkdfSha256 \<Rightarrow> 2 \<le> version \<and> length (ks_enc s) = 65 \<and> (\<forall>f. ks_key_fpr s = Some f \<longrightarrow> length f = 65)
      | XWing \<Rightarrow> 4 \<le> version \<and> length (ks_enc s) = 1120 \<and> (\<forall>f. ks_key_fpr s = Some f \<longrightarrow> length f = 1216)
      | MlKem768P256 \<Rightarrow> 5 \<le> version \<and> length (ks_enc s) = 1153 \<and> (\<forall>f. ks_key_fpr s = Some f \<longrightarrow> length f = 1249)
      | RsaOaepSha256 \<Rightarrow> False)"

definition slot_shape :: "KnownSlot \<Rightarrow> bool" where
  "slot_shape s \<longleftrightarrow>
     (if ks_kind s = RecipientClaim
      then ks_claim_commit s \<noteq> None \<and> ks_ct s = [] \<and> ks_key_fpr s = None \<and> ks_kem s = X25519HkdfSha256 \<and>
        ks_enc s = replicate 32 0 \<and> ks_nonce s = replicate 24 0
      else ks_claim_commit s = None \<and> ks_ct s \<noteq> [])"

definition slot_ok :: "u16 \<Rightarrow> KeySlot \<Rightarrow> bool" where
  "slot_ok version slot =
     (case slot of
        Known s \<Rightarrow> known_slot_wf s \<and> slot_lengths version s \<and> slot_shape s
      | Unknown kind raw \<Rightarrow> decode_slot version raw = Inr (Unknown kind raw))"

lemma known_slot_shape:
  assumes "known_slot_wf s" and "known_slot_ok version s"
  shows "slot_lengths version s" and "slot_shape s"
proof -
  show len: "slot_lengths version s"
    using assms(2)
    by (cases "ks_kem s")
      (auto simp: known_slot_ok_def slot_lengths_def X25519_PUBLIC_LEN_def P256_PUBLIC_LEN_def XWING_CIPHERTEXT_LEN_def
        XWING_PUBLIC_LEN_def MLKEM_P256_CIPHERTEXT_LEN_def MLKEM_P256_PUBLIC_LEN_def FIRST_HYBRID_VERSION_def
        FIRST_HARDWARE_HYBRID_VERSION_def split: if_splits)
  have zero: "bs = replicate n 0" if "length bs = n" "\<forall>b \<in> set bs. b = 0" for bs :: bytes and n
    using that by (simp add: replicate_eqI)
  show "slot_shape s"
  proof (cases "ks_kind s = RecipientClaim")
    case True
    then have claim: "ks_claim_commit s \<noteq> None \<and> ks_ct s = [] \<and> ks_key_fpr s = None \<and> ks_kem s = X25519HkdfSha256 \<and>
        (\<forall>b \<in> set (ks_enc s). b = 0) \<and> (\<forall>b \<in> set (ks_nonce s). b = 0)"
      using assms(2) by (auto simp: known_slot_ok_def check_slot_shape_def bindR_eq_Inr ensure_eq_Inr list_ex_iff)
    with len assms(1) have "length (ks_enc s) = 32" "length (ks_nonce s) = 24" by (simp_all add: slot_lengths_def known_slot_wf_def)
    with True claim show ?thesis by (simp add: slot_shape_def zero)
  next
    case False
    then have "kind_seals (ks_kind s)" by (cases "ks_kind s") simp_all
    with False assms(2) show ?thesis
      by (auto simp: known_slot_ok_def check_slot_shape_def bindR_eq_Inr ensure_eq_Inr slot_shape_def)
  qed
qed

text \<open>
  Where a slot comes from: an understood one has the values of the fields of its record, any other
  is the record itself.
\<close>

definition slot_read :: "bytes \<Rightarrow> KeySlot \<Rightarrow> bool" where
  "slot_read raw slot \<longleftrightarrow>
     (\<exists>gs. raw = enc_fields gs \<and> ascending None gs \<and>
       (case slot of
          Known s \<Rightarrow>
            map_of gs SLOT_KIND = Some (le16 (slot_kind_u16 (ks_kind s))) \<and> map_of gs SLOT_KEM = Some [kem_u8 (ks_kem s)] \<and>
            map_of gs SLOT_ENC = Some (ks_enc s) \<and> map_of gs SLOT_CT = Some (ks_ct s) \<and>
            map_of gs SLOT_COMMITMENT = Some (ks_commitment s) \<and> map_of gs SLOT_KEY_FPR = ks_key_fpr s \<and>
            map_of gs SLOT_NONCE = Some (ks_nonce s) \<and> map_of gs SLOT_CLAIM_COMMIT = ks_claim_commit s
        | Unknown k bs \<Rightarrow> bs = raw \<and> map_of gs SLOT_KIND = Some (le16 k)))"

definition slot_fields_are :: "(u16 \<times> bytes) list \<Rightarrow> SlotDecoder \<Rightarrow> bool" where
  "slot_fields_are gs d \<longleftrightarrow>
     map_of gs SLOT_KIND = map_option (\<lambda>k. le16 k) (sld_kind_raw d) \<and> map_of gs SLOT_KEM = map_option (\<lambda>b. [b]) (sld_kem d) \<and>
     map_of gs SLOT_ENC = sld_enc d \<and> map_of gs SLOT_CT = sld_ct d \<and> map_of gs SLOT_COMMITMENT = sld_commitment d \<and>
     map_of gs SLOT_KEY_FPR = sld_key_fpr d \<and> map_of gs SLOT_NONCE = sld_nonce d \<and>
     map_of gs SLOT_CLAIM_COMMIT = sld_claim_commit d"

lemma slot_body_fields:
  assumes "slot_body f d = Inr d'" and "slot_fields_are gs d" and "fld_tag f \<notin> fst ` set gs"
  shows "slot_fields_are (gs @ [(fld_tag f, fld_value f)]) d'"
proof -
  have none: "map_of gs (fld_tag f) = None" using assms(3) by (simp add: map_of_eq_None_iff)
  have add: "map_of (gs @ [(fld_tag f, fld_value f)]) u = (if u = fld_tag f then Some (fld_value f) else map_of gs u)" for u
    using none by (auto simp: map_add_def split: option.splits)
  show ?thesis
    using assms(1,2) unfolding slot_fields_are_def add slot_body_def Let_def
    by (auto simp: bindR_eq_Inr field_u16_def field_array_def field_u8_def le_bytes_of_le16
        split: if_split_asm list.split_asm UnknownTag.split_asm)
qed

lemma slot_fold_fields:
  assumes "foldR slot_body (fields_at n gs) d = Inr d'" and "slot_fields_are hs d" and "distinct (map fst (hs @ gs))"
  shows "slot_fields_are (hs @ gs) d'"
  using assms
proof (induction n gs arbitrary: d hs rule: fields_at.induct)
  case (2 n t v gs)
  let ?f = "\<lparr>fld_tag = t, fld_value = v, fld_start = n + 6, fld_end = n + 6 + length v\<rparr>"
  from "2.prems"(1) obtain u where u: "slot_body ?f d = Inr u" "foldR slot_body (fields_at (n + 6 + length v) gs) u = Inr d'"
    by (auto simp: bindR_eq_Inr)
  have "slot_fields_are (hs @ [(t, v)]) u" using slot_body_fields [OF u(1) "2.prems"(2)] "2.prems"(3) by simp
  from "2.IH" [OF u(2) this] "2.prems"(3) show ?case by simp
qed simp

lemma decode_known_slot_cases:
  assumes "decode_known_slot version bs kind_raw kind kem enc_len d = Inr slot"
    and "expected_enc_len version kem = Some enc_len"
  shows "slot = Unknown kind_raw bs \<or> (\<exists>s. slot = Known s \<and> known_slot_wf s \<and> known_slot_ok version s)"
  using assms
  by (cases "sld_key_fpr d"; cases "sld_claim_commit d")
    (auto simp: decode_known_slot_def bindR_eq_Inr ok_or_eq_Inr ensure_eq_Inr exact_def to_array_def known_slot_wf_def
      known_slot_ok_def split: if_splits)

lemma decode_slot_cases:
  assumes "decode_slot version bs = Inr slot"
  shows "(\<exists>k. slot = Unknown k bs) \<or> (\<exists>s. slot = Known s \<and> known_slot_wf s \<and> known_slot_ok version s)"
proof -
  obtain d k where d: "(if sld_unusable d then Inr (Unknown k bs)
     else case slot_kind_from_u16 k of
         None \<Rightarrow> Inr (Unknown k bs)
       | Some kind \<Rightarrow>
           bindR (ok_or (MissingField SLOT_KEM) (sld_kem d)) (\<lambda>kem_raw.
           case kem_from_u8 kem_raw of
             Inl _ \<Rightarrow> Inr (Unknown k bs)
           | Inr kem \<Rightarrow>
               (case expected_enc_len version kem of
                  None \<Rightarrow> Inr (Unknown k bs)
                | Some enc_len \<Rightarrow> decode_known_slot version bs k kind kem enc_len d))) = Inr slot"
    using assms unfolding decode_slot_def bindR_eq_Inr [of "tlv_loop _ _ _"] bindR_eq_Inr [of "ok_or (MissingField SLOT_KIND) _"]
    by blast
  show ?thesis
  proof (cases "slot = Unknown k bs")
    case False
    then obtain kind kr where "(case kem_from_u8 kr of
             Inl _ \<Rightarrow> Inr (Unknown k bs)
           | Inr kem \<Rightarrow>
               (case expected_enc_len version kem of
                  None \<Rightarrow> Inr (Unknown k bs)
                | Some enc_len \<Rightarrow> decode_known_slot version bs k kind kem enc_len d)) = Inr slot"
      using d by (auto simp: bindR_eq_Inr split: if_split_asm option.split_asm)
    then obtain kem n where "decode_known_slot version bs k kind kem n d = Inr slot" "expected_enc_len version kem = Some n"
      using False by (cases "kem_from_u8 kr") (auto split: option.split_asm)
    from decode_known_slot_cases [OF this] show ?thesis by blast
  qed blast
qed

lemma decode_slot_ok: "decode_slot version bs = Inr slot \<Longrightarrow> slot_ok version slot"
  using decode_slot_cases [of version bs slot] by (auto simp: slot_ok_def known_slot_shape)

lemma decode_known_slot_values:
  assumes "decode_known_slot version bs k kind kem n d = Inr (Known s)"
  shows "ks_kind s = kind \<and> ks_kem s = kem \<and> sld_enc d = Some (ks_enc s) \<and> sld_ct d = Some (ks_ct s) \<and>
     sld_commitment d = Some (ks_commitment s) \<and> sld_key_fpr d = ks_key_fpr s \<and> sld_nonce d = Some (ks_nonce s) \<and>
     sld_claim_commit d = ks_claim_commit s"
  using assms
  by (auto simp: decode_known_slot_def bindR_eq_Inr ok_or_eq_Inr ensure_eq_Inr exact_def to_array_def
      split: if_split_asm option.split_asm)

lemma decode_known_slot_kind: "decode_known_slot version bs k kind kem n d = Inr (Unknown j b) \<Longrightarrow> j = k"
  by (auto simp: decode_known_slot_def bindR_eq_Inr split: if_split_asm)

lemma case_sum_eq_Inr:
  "(case x of Inl a \<Rightarrow> f a | Inr b \<Rightarrow> g b) = Inr y \<longleftrightarrow> (\<exists>a. x = Inl a \<and> f a = Inr y) \<or> (\<exists>b. x = Inr b \<and> g b = Inr y)"
  by (cases x) auto

lemma decode_slot_read:
  assumes "decode_slot version raw = Inr slot"
  shows "slot_read raw slot"
proof -
  obtain d k where loop: "tlv_loop slot_body (reader_new raw) slot_decode_start = Inr d" and k: "sld_kind_raw d = Some k"
    using assms by (auto simp: decode_slot_def bindR_eq_Inr ok_or_eq_Inr)
  obtain gs where gs: "raw = enc_fields gs" "ascending None gs" "foldR slot_body (fields_at 0 gs) slot_decode_start = Inr d"
    using tlv_loop_fields [OF loop] by blast
  have "slot_fields_are ([] @ gs) d"
    using gs(3) ascending_distinct [OF gs(2)]
    by (intro slot_fold_fields) (auto simp: slot_fields_are_def slot_decode_start_def)
  then have are: "slot_fields_are gs d" by simp
  show ?thesis
  proof (cases slot)
    case (Unknown j b)
    with assms decode_slot_cases [OF assms] have "b = raw" by auto
    moreover have "j = k"
    proof (rule ccontr)
      assume "j \<noteq> k"
      then obtain kind kem n where "decode_known_slot version raw k kind kem n d = Inr (Unknown j b)"
        using assms [unfolded decode_slot_def loop bindR_Inr k ok_or_Some] Unknown
        by (auto simp: bindR_eq_Inr case_sum_eq_Inr split: if_split_asm option.split_asm)
      with decode_known_slot_kind \<open>j \<noteq> k\<close> show False by blast
    qed
    ultimately show ?thesis using Unknown gs are k by (auto simp: slot_read_def slot_fields_are_def)
  next
    case (Known s)
    then obtain kind kr kem n where "slot_kind_from_u16 k = Some kind" "sld_kem d = Some kr" "kem_from_u8 kr = Inr kem"
      "decode_known_slot version raw k kind kem n d = Inr (Known s)"
      using assms [unfolded decode_slot_def loop bindR_Inr k ok_or_Some]
      by (auto simp: bindR_eq_Inr ok_or_eq_Inr case_sum_eq_Inr split: if_split_asm option.split_asm)
    moreover from this have "slot_kind_u16 kind = k" "kem_u8 kem = kr"
      by (auto simp: slot_kind_from_u16_def kem_from_u8_def split: if_split_asm)
    ultimately show ?thesis
      using decode_known_slot_values [of version raw k kind kem n d s] Known gs are k
      by (auto simp: slot_read_def slot_fields_are_def)
  qed
qed

definition slots_ok :: "u16 \<Rightarrow> KeySlot list \<Rightarrow> bool" where
  "slots_ok version slots \<longleftrightarrow> length slots \<le> 1024 \<and> (\<forall>slot \<in> set slots. slot_ok version slot)"

lemma decode_slots_ok:
  assumes "decode_slots version bs = Inr slots"
  shows "slots_ok version slots"
proof -
  obtain fs where "foldR (slots_body version) fs [] = Inr slots"
    using tlv_loop_read_fields [OF assms [unfolded decode_slots_def]] by blast
  then show ?thesis
    by (rule foldR_invariant)
      (auto simp: slots_ok_def slots_body_def MAX_KEY_SLOTS_def bindR_eq_Inr ensure_eq_Inr dest: decode_slot_ok)
qed

lemma decode_slots_read:
  assumes "decode_slots version v = Inr slots"
  shows "\<exists>items. v = enc_fields items \<and> ascending None items \<and> list_all2 (\<lambda>item slot. slot_read (snd item) slot) items slots"
proof -
  obtain items where items: "v = enc_fields items" "ascending None items" "foldR (slots_body version) (fields_at 0 items) [] = Inr slots"
    using tlv_loop_fields [OF assms [unfolded decode_slots_def]] by blast
  have "\<exists>new. slots' = acc @ new \<and> list_all2 (\<lambda>item slot. slot_read (snd item) slot) items new"
    if "foldR (slots_body version) (fields_at n items) acc = Inr slots'" for n acc slots'
    using that
  proof (induction n items arbitrary: acc rule: fields_at.induct)
    case (2 n t x items)
    obtain u where u: "slots_body version \<lparr>fld_tag = t, fld_value = x, fld_start = n + 6, fld_end = n + 6 + length x\<rparr> acc = Inr u"
      "foldR (slots_body version) (fields_at (n + 6 + length x) items) u = Inr slots'"
      using "2.prems" by (auto simp: bindR_eq_Inr)
    then obtain slot where "decode_slot version x = Inr slot"
      "foldR (slots_body version) (fields_at (n + 6 + length x) items) (acc @ [slot]) = Inr slots'"
      by (auto simp: slots_body_def [of version "\<lparr>fld_tag = t, fld_value = x, fld_start = n + 6, fld_end = n + 6 + length x\<rparr>"]
          bindR_eq_Inr)
    with "2.IH" decode_slot_read show ?case by fastforce
  qed simp
  from this [OF items(3)] items(1,2) show ?thesis by auto
qed

lemma decode_coauthors_ok:
  assumes "decode_coauthors bs = Inr co"
  shows "coauthors_ok co \<and> (\<forall>k \<in> set (co_keys co). length k = 32)"
proof -
  obtain d where loop: "tlv_loop coauthors_body (reader_new bs) \<lparr>cod_threshold = None, cod_keys = []\<rparr> = Inr d"
    and "check_coauthors co = Inr ()" and co: "co_keys co = cod_keys d"
    using assms by (auto simp: decode_coauthors_def bindR_eq_Inr ok_or_eq_Inr Let_def)
  obtain fs where "foldR coauthors_body fs \<lparr>cod_threshold = None, cod_keys = []\<rparr> = Inr d"
    using tlv_loop_read_fields [OF loop] by blast
  then have "\<forall>k \<in> set (cod_keys d). length k = 32"
    by (rule foldR_invariant)
      (auto simp: coauthors_body_def bindR_eq_Inr split: if_splits dest: chunks_exact_32_length)
  then show ?thesis using \<open>check_coauthors co = Inr ()\<close> co by (simp add: check_coauthors_ok)
qed

lemma check_chunk_size_exact:
  assumes "check_chunk_size sz = Inr x"
  shows "4096 \<le> unat sz \<and> unat sz \<le> 1048576 \<and> (\<exists>k. unat sz = 2 ^ k)"
proof -
  obtain k where "k < 32" "sz = 2 ^ k"
    using assms by (auto simp: check_chunk_size_def is_power_of_two_def list_ex_iff split: if_splits)
  then have "unat sz = unat (of_nat (2 ^ k) :: u32)" by simp
  also have "\<dots> = 2 ^ k mod 2 ^ 32" unfolding unat_of_nat by simp
  also have "\<dots> = 2 ^ k" using power_strict_increasing [OF \<open>k < 32\<close>, of "2 :: nat"] by simp
  finally have "unat sz = 2 ^ k" .
  with assms check_chunk_size_bounds [of sz] show ?thesis by auto
qed

section \<open>Decoded headers\<close>

definition header_ok :: "Header \<Rightarrow> bool" where
  "header_ok h \<longleftrightarrow>
     header_wf h \<and> 4096 \<le> unat (hd_chunk_size h) \<and> unat (hd_chunk_size h) \<le> 1048576 \<and>
     (\<exists>k. unat (hd_chunk_size h) = 2 ^ k) \<and> authority_ok (hd_authority h) \<and> slots_ok (hd_container_version h) (hd_key_slots h) \<and>
     (\<forall>co. hd_coauthors h = Some co \<longrightarrow> coauthors_ok co)"

text \<open>What holds of the decoder's variables after any number of fields.\<close>

definition decoder_inv :: "HeaderDecoder \<Rightarrow> bool" where
  "decoder_inv d \<longleftrightarrow>
     (\<forall>x. hdd_file_id d = Some x \<longrightarrow> length x = 16) \<and>
     (\<forall>x. hdd_suite d = Some x \<longrightarrow> suite_wf x) \<and>
     (\<forall>x. hdd_author_key d = Some x \<longrightarrow> length x = 32) \<and>
     (\<forall>x. hdd_header_salt d = Some x \<longrightarrow> length x = 32) \<and>
     (\<forall>x. hdd_chunk_size d = Some x \<longrightarrow> check_chunk_size x = Inr x) \<and>
     (\<forall>x. hdd_original_root d = Some x \<longrightarrow> length x = 32) \<and>
     (\<forall>x. hdd_policy d = Some x \<longrightarrow> (\<exists>v. hdd_container_version d = Some v \<and> policy_wf v x)) \<and>
     (\<forall>x. hdd_key_slots d = Some x \<longrightarrow> (\<exists>v. hdd_container_version d = Some v \<and> slots_ok v x)) \<and>
     (\<forall>x. hdd_authority d = Some x \<longrightarrow> authority_ok x) \<and>
     (\<forall>x. hdd_prev_header_hash d = Some x \<longrightarrow> length x = 32) \<and>
     (\<forall>x. hdd_class d = Some x \<longrightarrow> x = LOCAL_CLASS) \<and>
     (\<forall>x. hdd_wrapped_cek d = Some x \<longrightarrow> length x = WRAPPED_CEK_LEN) \<and>
     (\<forall>x. hdd_coauthors d = Some x \<longrightarrow> coauthors_ok x \<and> (\<forall>k \<in> set (co_keys x). length k = 32) \<and>
        (\<exists>v. hdd_container_version d = Some v \<and> FIRST_COAUTHORS_VERSION \<le> v))"

lemma version_so_far_ge: "FIRST_COAUTHORS_VERSION \<le> version_so_far v \<Longrightarrow> \<exists>n. v = Some n \<and> FIRST_COAUTHORS_VERSION \<le> n"
  by (cases v) (simp_all add: version_so_far_def FIRST_COAUTHORS_VERSION_def)

lemma header_body_version:
  "header_body f d = Inr d' \<Longrightarrow> fld_tag f \<noteq> 1 \<Longrightarrow> hdd_container_version d' = hdd_container_version d"
  by (auto simp: header_body_def header_match_def Let_def bindR_eq_Inr split: if_splits UnknownTag.splits)

lemma header_body_changes:
  assumes "header_body f d = Inr d'"
  shows "hdd_file_id d' = hdd_file_id d \<or> (\<exists>x. hdd_file_id d' = Some x \<and> length x = 16)"
    and "hdd_suite d' = hdd_suite d \<or> (\<exists>v x. hdd_suite d' = Some x \<and> decode_suite v = Inr x)"
    and "hdd_author_key d' = hdd_author_key d \<or> (\<exists>x. hdd_author_key d' = Some x \<and> length x = 32)"
    and "hdd_header_salt d' = hdd_header_salt d \<or> (\<exists>x. hdd_header_salt d' = Some x \<and> length x = 32)"
    and "hdd_chunk_size d' = hdd_chunk_size d \<or> (\<exists>n x. hdd_chunk_size d' = Some x \<and> check_chunk_size n = Inr x)"
    and "hdd_original_root d' = hdd_original_root d \<or> (\<exists>x. hdd_original_root d' = Some x \<and> length x = 32)"
    and "hdd_policy d' = hdd_policy d \<or>
      (\<exists>n v x. hdd_policy d' = Some x \<and> hdd_container_version d = Some n \<and> policy_decode n v = Inr x)"
    and "hdd_key_slots d' = hdd_key_slots d \<or>
      (\<exists>n v x. hdd_key_slots d' = Some x \<and> hdd_container_version d = Some n \<and> decode_slots n v = Inr x)"
    and "hdd_authority d' = hdd_authority d \<or> (\<exists>v x. hdd_authority d' = Some x \<and> decode_authority v = Inr x)"
    and "hdd_prev_header_hash d' = hdd_prev_header_hash d \<or> (\<exists>x. hdd_prev_header_hash d' = Some x \<and> length x = 32)"
    and "hdd_class d' = hdd_class d \<or> hdd_class d' = Some LOCAL_CLASS"
    and "hdd_wrapped_cek d' = hdd_wrapped_cek d \<or> (\<exists>x. hdd_wrapped_cek d' = Some x \<and> length x = WRAPPED_CEK_LEN)"
    and "hdd_coauthors d' = hdd_coauthors d \<or>
      (\<exists>v x. hdd_coauthors d' = Some x \<and> FIRST_COAUTHORS_VERSION \<le> version_so_far (hdd_container_version d) \<and>
        decode_coauthors v = Inr x)"
  using assms unfolding header_body_def header_match_def Let_def
  by (auto simp: bindR_eq_Inr field_array_def ok_or_eq_Inr ensure_eq_Inr split: if_split_asm UnknownTag.splits)

lemma header_body_inv:
  assumes "header_body f d = Inr d'" and inv: "decoder_inv d"
    and first: "fld_tag f = 1 \<longrightarrow> hdd_container_version d = None"
  shows "decoder_inv d'"
proof -
  note changes = header_body_changes [OF assms(1)]
  have v: "hdd_container_version d = Some n \<Longrightarrow> hdd_container_version d' = Some n" for n
    using header_body_version [OF assms(1)] first by (cases "fld_tag f = 1") auto
  note inv' = inv [unfolded decoder_inv_def]
  have chunk: "check_chunk_size n = Inr x \<Longrightarrow> check_chunk_size x = Inr x" for n x
    by (auto simp: check_chunk_size_def split: if_splits)
  show ?thesis
    unfolding decoder_inv_def
  proof (intro conjI)
    show "\<forall>x. hdd_policy d' = Some x \<longrightarrow> (\<exists>v. hdd_container_version d' = Some v \<and> policy_wf v x)"
      using changes(7) inv' v policy_decode_wf by (metis option.inject)
    show "\<forall>x. hdd_key_slots d' = Some x \<longrightarrow> (\<exists>v. hdd_container_version d' = Some v \<and> slots_ok v x)"
      using changes(8) inv' v decode_slots_ok by (metis option.inject)
    show "\<forall>x. hdd_coauthors d' = Some x \<longrightarrow> coauthors_ok x \<and> (\<forall>k \<in> set (co_keys x). length k = 32) \<and>
        (\<exists>v. hdd_container_version d' = Some v \<and> FIRST_COAUTHORS_VERSION \<le> v)"
      using changes(13) inv' v decode_coauthors_ok version_so_far_ge by (metis option.inject)
    show "\<forall>x. hdd_suite d' = Some x \<longrightarrow> suite_wf x"
      using changes(2) inv' decode_suite_wf by (metis option.inject)
    show "\<forall>x. hdd_chunk_size d' = Some x \<longrightarrow> check_chunk_size x = Inr x"
      using changes(5) inv' chunk by (metis option.inject)
    show "\<forall>x. hdd_authority d' = Some x \<longrightarrow> authority_ok x"
      using changes(9) inv' decode_authority_ok by (metis option.inject)
  qed (use changes inv' in \<open>metis option.inject\<close>)+
qed

lemma header_fold_inv:
  assumes "foldR header_body (fields_at n fs) d = Inr d'" and "ascending prior fs" and "decoder_inv d"
    and "hdd_container_version d \<noteq> None \<longrightarrow> (\<exists>p. prior = Some p \<and> 1 \<le> p)"
  shows "decoder_inv d'"
  using assms
proof (induction n fs arbitrary: d prior rule: fields_at.induct)
  case (2 n t v fs)
  let ?f = "\<lparr>fld_tag = t, fld_value = v, fld_start = n + 6, fld_end = n + 6 + length v\<rparr>"
  from "2.prems"(1) obtain u where u: "header_body ?f d = Inr u"
    "foldR header_body (fields_at (n + 6 + length v) fs) u = Inr d'"
    by (auto simp: bindR_eq_Inr)
  have first: "fld_tag ?f = 1 \<longrightarrow> hdd_container_version d = None"
    using "2.prems"(2,4) by auto
  have "hdd_container_version u \<noteq> None \<longrightarrow> 1 \<le> t"
  proof (cases "t = 1")
    case False
    then have "hdd_container_version u = hdd_container_version d" using header_body_version [OF u(1)] by simp
    then show ?thesis using "2.prems"(2,4) by auto
  qed simp
  then show ?case
    using "2.IH" [OF u(2), of "Some t"] "2.prems"(2) header_body_inv [OF u(1) "2.prems"(3) first] by simp
qed simp

lemma header_decode_ok:
  assumes "header_decode bs = Inr ph"
  shows "header_ok (ph_header ph)"
proof -
  obtain fs d where "ascending None fs" "foldR header_body (fields_at 0 fs) header_decode_start = Inr d"
    and fin: "header_finish d = Inr ph"
    using header_decode_spans [OF assms] by blast
  moreover have "decoder_inv header_decode_start" "hdd_container_version header_decode_start = None"
    by (simp_all add: decoder_inv_def header_decode_start_def)
  ultimately have inv: "decoder_inv d" using header_fold_inv by blast
  have slots: "slots_ok v sl \<Longrightarrow> \<forall>slot \<in> set sl. slot_wf v slot" for v sl
    by (auto simp: slots_ok_def slot_ok_def slot_wf_def split: KeySlot.splits)
  have auth: "authority_ok a \<Longrightarrow> authority_wf a" for a by (simp add: authority_ok_def)
  show ?thesis
    using fin inv slots auth check_chunk_size_exact
    by (auto simp: header_finish_def bindR_eq_Inr ok_or_eq_Inr header_ok_def header_wf_def decoder_inv_def)
qed

section \<open>Encodings determine their fields\<close>

lemma enc_field_determined:
  assumes "length v < 4294967296" and "length w < 4294967296"
    and "enc_field (t, v) @ x = enc_field (u, w) @ y"
  shows "t = u \<and> v = w \<and> x = y"
proof -
  have "le_bytes 2 (unat t) = le_bytes 2 (unat u)" "le_bytes 4 (length v) = le_bytes 4 (length w)" "v @ x = w @ y"
    using assms(3) by (auto simp: enc_field_def append_eq_append_conv)
  moreover have "t = u" using calculation(1) by (metis of_le16)
  moreover have "length v = length w" using calculation(2) assms(1,2) by (blast intro: le_bytes_4_eq)
  ultimately show ?thesis by simp
qed

lemma enc_fields_determined:
  assumes "\<forall>(t, v) \<in> set fs. length v < 4294967296" and "\<forall>(t, v) \<in> set gs. length v < 4294967296"
    and "enc_fields fs = enc_fields gs"
  shows "fs = gs"
  using assms
proof (induction fs arbitrary: gs)
  case Nil
  then show ?case by (cases gs) (auto simp: enc_field_def simp flip: length_0_conv)
next
  case (Cons f fs)
  obtain t v where f: "f = (t, v)" by (cases f)
  then obtain u w hs where gs: "gs = (u, w) # hs"
    using Cons.prems(3) by (cases gs) (auto simp: enc_field_def simp flip: length_0_conv)
  with Cons.prems f have "t = u \<and> v = w \<and> enc_fields fs = enc_fields hs"
    by (intro enc_field_determined) auto
  with Cons f gs show ?case by auto
qed

lemma ascending_lengths: "ascending prior fs \<Longrightarrow> \<forall>(t, v) \<in> set fs. length v < 4294967296"
  by (induction prior fs rule: ascending.induct) auto

lemma read_fields_lengths:
  assumes "header_decode bs = Inr ph" and "read_fields bs = Inr fs"
  shows "\<forall>(t, v) \<in> set (core_fields fs). length v < 4294967296"
  using header_decode_spans [OF assms(1)] assms(2) ascending_lengths by (fastforce simp: core_fields_def)

lemma policy_hash_eq:
  assumes "header_decode bs = Inr ph"
  shows "\<exists>fs v. read_fields bs = Inr fs \<and> map_of fs TAG_POLICY = Some v \<and>
     policy_hash c bs (ph_spans ph) = Inr (sha256_digest c (POLICY_HASH @ [0] @ v))"
proof -
  obtain fs r where fs: "read_fields bs = Inr fs" "bs = enc_fields fs"
    and r: "record_at TAG_POLICY 0 fs = Some r" "sp_policy_value (ph_spans ph) = (fst r + 6, snd r)"
    using header_decode_spans [OF assms] by blast
  obtain pre v post where split: "fs = pre @ (9, v) # post" "9 \<notin> fst ` set pre"
    "r = (length (enc_fields pre), length (enc_fields pre) + 6 + length v)"
    using record_at_split [OF r(1)] by auto
  have "map_of fs 9 = Some v"
    using split by (auto simp: map_add_def map_of_eq_None_iff split: option.splits dest: map_of_SomeD intro: rev_image_eqI)
  moreover have "get_range bs (length (enc_fields pre) + 6) (length (enc_fields pre) + 6 + length v) = Some v"
    by (simp add: get_range_def fs(2) split enc_field_def)
  ultimately show ?thesis
    using fs(1) by (simp add: policy_hash_def r(2) split(3))
qed

text \<open>
  The policy and the key slots are decoded by the container version read before them, each from the
  value of its own field.
\<close>

lemma header_body_policy:
  assumes "header_body f d = Inr d'"
  shows "(if fld_tag f = TAG_POLICY
     then \<exists>n p. hdd_policy d' = Some p \<and> hdd_container_version d = Some n \<and> policy_decode n (fld_value f) = Inr p
     else hdd_policy d' = hdd_policy d)"
  using assms
  by (auto simp: header_body_def header_match_def Let_def bindR_eq_Inr ok_or_eq_Inr split: if_splits UnknownTag.splits)

lemma header_body_slots:
  assumes "header_body f d = Inr d'"
  shows "(if fld_tag f = TAG_KEY_SLOTS
     then \<exists>n p. hdd_key_slots d' = Some p \<and> hdd_container_version d = Some n \<and> decode_slots n (fld_value f) = Inr p
     else hdd_key_slots d' = hdd_key_slots d)"
  using assms
  by (auto simp: header_body_def header_match_def Let_def bindR_eq_Inr ok_or_eq_Inr split: if_splits UnknownTag.splits)

lemma header_fold_versioned:
  assumes step: "\<And>f d d'. header_body f d = Inr d' \<Longrightarrow>
      (if fld_tag f = tag then \<exists>n p. get d' = Some p \<and> hdd_container_version d = Some n \<and> dec n (fld_value f) = Inr p
       else get d' = get d)"
    and "foldR header_body (fields_at n fs) d = Inr d'" and "ascending prior fs"
    and "hdd_container_version d \<noteq> None \<longrightarrow> (\<exists>p. prior = Some p \<and> 1 \<le> p)"
    and "\<And>p. get d = Some p \<Longrightarrow> \<exists>k. hdd_container_version d = Some k \<and> dec k v = Inr p"
    and "\<And>x. (tag, x) \<in> set fs \<Longrightarrow> x = v"
  shows "\<forall>p. get d' = Some p \<longrightarrow> (\<exists>k. hdd_container_version d' = Some k \<and> dec k v = Inr p)"
  using assms(2-)
proof (induction n fs arbitrary: d prior rule: fields_at.induct)
  case (2 n t x fs)
  let ?f = "\<lparr>fld_tag = t, fld_value = x, fld_start = n + 6, fld_end = n + 6 + length x\<rparr>"
  from "2.prems"(1) obtain u where u: "header_body ?f d = Inr u"
    "foldR header_body (fields_at (n + 6 + length x) fs) u = Inr d'"
    by (auto simp: bindR_eq_Inr)
  have first: "t = 1 \<Longrightarrow> hdd_container_version d = None" using "2.prems"(2,3) by auto
  have keep: "hdd_container_version d = Some k \<Longrightarrow> hdd_container_version u = Some k" for k
    using first header_body_version [OF u(1)] by (cases "t = 1") auto
  have ver: "hdd_container_version u \<noteq> None \<longrightarrow> 1 \<le> t"
    using header_body_version [OF u(1)] "2.prems"(2,3) by (cases "t = 1") auto
  have pol: "\<exists>k. hdd_container_version u = Some k \<and> dec k v = Inr p" if "get u = Some p" for p
  proof (cases "t = tag")
    case True
    then have "x = v" using "2.prems"(5) [of x] by simp
    with step [OF u(1)] True that keep show ?thesis by auto
  next
    case False
    with step [OF u(1)] that "2.prems"(4) [of p] keep show ?thesis by auto
  qed
  show ?case
    by (rule "2.IH" [OF u(2), of "Some t"]) (use "2.prems"(2,5) ver pol in auto)
qed simp

lemma field_value_unique:
  "ascending None fs \<Longrightarrow> map_of fs t = Some v \<Longrightarrow> (t, x) \<in> set fs \<Longrightarrow> x = v"
  using ascending_distinct by (metis map_of_is_SomeI option.inject)

lemma header_decode_versioned:
  assumes "header_decode bs = Inr ph" and "read_fields bs = Inr fs"
  shows "map_of fs TAG_POLICY = Some v \<Longrightarrow> policy_decode (hd_container_version (ph_header ph)) v = Inr (hd_policy (ph_header ph))"
    and "map_of fs TAG_KEY_SLOTS = Some w \<Longrightarrow> decode_slots (hd_container_version (ph_header ph)) w = Inr (hd_key_slots (ph_header ph))"
proof -
  obtain d where asc: "ascending None fs" and fold: "foldR header_body (fields_at 0 fs) header_decode_start = Inr d"
    and fin: "header_finish d = Inr ph"
    using header_decode_spans [OF assms(1)] assms(2) by auto
  assume "map_of fs TAG_POLICY = Some v"
  then have "\<forall>p. hdd_policy d = Some p \<longrightarrow> (\<exists>k. hdd_container_version d = Some k \<and> policy_decode k v = Inr p)"
    by (intro header_fold_versioned [OF header_body_policy fold asc])
      (simp_all add: header_decode_start_def field_value_unique [OF asc])
  with fin show "policy_decode (hd_container_version (ph_header ph)) v = Inr (hd_policy (ph_header ph))"
    by (auto simp: header_finish_def bindR_eq_Inr ok_or_eq_Inr)
next
  obtain d where asc: "ascending None fs" and fold: "foldR header_body (fields_at 0 fs) header_decode_start = Inr d"
    and fin: "header_finish d = Inr ph"
    using header_decode_spans [OF assms(1)] assms(2) by auto
  assume "map_of fs TAG_KEY_SLOTS = Some w"
  then have "\<forall>p. hdd_key_slots d = Some p \<longrightarrow> (\<exists>k. hdd_container_version d = Some k \<and> decode_slots k w = Inr p)"
    by (intro header_fold_versioned [OF header_body_slots fold asc])
      (simp_all add: header_decode_start_def field_value_unique [OF asc])
  with fin show "decode_slots (hd_container_version (ph_header ph)) w = Inr (hd_key_slots (ph_header ph))"
    by (auto simp: header_finish_def bindR_eq_Inr ok_or_eq_Inr)
qed

lemma record_at_value:
  assumes "record_at t n fs = Some r"
  shows "\<exists>v. map_of fs t = Some v"
  using record_at_None [of t n fs] assms by (metis not_Some_eq option.discI map_of_eq_None_iff)

section \<open>A concrete header\<close>

definition demo_header :: Header where
  "demo_header =
     \<lparr>hd_container_version = 5, hd_min_reader_version = 5, hd_file_id = replicate 16 7,
      hd_suite = \<lparr>su_sig = Ed25519, su_aead = XChaCha20Poly1305, su_tree_hash = Blake3\<rparr>,
      hd_author_key = replicate 32 1, hd_header_salt = replicate 32 2, hd_chunk_size = 4096,
      hd_original_root = replicate 32 3, hd_policy = demo_policy, hd_key_slots = [],
      hd_authority = \<lparr>au_urls = [], au_sealing_kid = replicate 32 4, au_lease_verify_key = replicate 32 5\<rparr>,
      hd_private_meta = [], hd_prev_header_hash = None, hd_org_id = [], hd_class = 0,
      hd_footer_offset = None, hd_wrapped_cek = replicate 72 6, hd_coauthors = None\<rparr>"

lemma demo_header_wf: "header_wf demo_header"
  by (simp add: header_wf_def demo_header_def WRAPPED_CEK_LEN_def suite_wf_def demo_policy_wf authority_wf_def
      LOCAL_CLASS_def)

definition coauthors_written :: "Header \<Rightarrow> bytes option \<Rightarrow> bool" where
  "coauthors_written h coauthors \<longleftrightarrow>
     (case hd_coauthors h of
        None \<Rightarrow> coauthors = None
      | Some co \<Rightarrow> FIRST_COAUTHORS_VERSION \<le> hd_container_version h \<and>
          (\<exists>b. coauthors = Some b \<and> encode_coauthors co = Inr b))"

lemma header_encode_eq:
  assumes "check_chunk_size (hd_chunk_size h) = Inr (hd_chunk_size h)" and "length (hd_key_slots h) \<le> MAX_KEY_SLOTS"
    and "encode_suite (hd_suite h) = Inr suite"
    and "policy_encode (hd_container_version h) (hd_policy h) = Inr policy"
    and "encode_slots (hd_container_version h) (hd_key_slots h) = Inr slots"
    and "encode_authority (hd_authority h) = Inr authority" and "coauthors_written h coauthors"
    and "ascending None (header_fields h suite policy slots authority coauthors)"
    and "length (enc_fields (header_fields h suite policy slots authority coauthors)) < usize_limit"
  shows "header_encode h = Inr (enc_fields (header_fields h suite policy slots authority coauthors))"
proof -
  have "header_encode h = bindR (put_all (header_fields h suite policy slots authority coauthors) writer_new)
      (\<lambda>w. Inr (finish w))"
    using assms(1-7)
    by (cases "hd_coauthors h")
      (auto simp: header_encode_def header_fields_def coauthors_written_def put_opt_all put_all_append put_all_one bindR_assoc
        simp del: put_all_simps(2) append_Cons cong: if_cong)
  with put_all_new_bind [OF assms(8,9)] show ?thesis by simp
qed

lemma coauthors_encode:
  assumes "coauthors_ok co" and "\<forall>k \<in> set (co_keys co). length k = 32"
  shows "\<exists>out. encode_coauthors co = Inr out \<and> length out \<le> 525"
proof -
  have "length (concat (co_keys co)) \<le> 512"
    using assms by (auto simp: coauthors_ok_def MAX_COAUTHORS_def length_concat_keys)
  then show ?thesis
    using assms(1) by (auto simp: encode_coauthors_def check_coauthors_ok bindR_eq_Inr put_eq_Inr writer_new_def finish_def)
qed

lemma demo_header_with_encodes: "\<exists>bs. header_encode (demo_header\<lparr>hd_policy := p\<rparr>) = Inr bs \<and> length bs \<le> 1048576"
proof -
  let ?h = "demo_header\<lparr>hd_policy := p\<rparr>"
  let ?policy = "enc_fields (policy_fields 5 p)"
  let ?suite = "enc_fields [(1, [1]), (2, [1]), (3, [1])] :: bytes"
  let ?authority = "enc_fields [(1, []), (2, replicate 32 4), (3, replicate 32 5)] :: bytes"
  have policy: "length ?policy \<le> 500000"
    using action_fields_ok(2) [of p] binding_fields_ok(2) [of p]
      length_encoded_parts(1) [of "pol_validity p"] length_encoded_parts(2) [of "pol_network p"]
      length_encoded_parts(3) [of "pol_max_opens p"]
    by (simp add: policy_fields_def)
  have "encode_authority (hd_authority ?h) = Inr ?authority"
    using put_all_new_bind [of "[(1, []), (2, replicate 32 4), (3, replicate 32 5)]"]
    by (simp add: encode_authority_def demo_header_def check_key_present_def finish_def writer_new_def list_all_iff
        del: put_all_simps(2))
  moreover have "encode_suite (hd_suite ?h) = Inr ?suite"
    by (rule suite_decode_encode(1)) (simp add: demo_header_def suite_wf_def)
  moreover have "encode_slots 5 [] = Inr []" by (simp add: encode_slots_def finish_def writer_new_def)
  ultimately have "header_encode ?h = Inr (enc_fields (header_fields ?h ?suite ?policy [] ?authority None))"
    using policy
    by (intro header_encode_eq)
      (simp_all add: demo_header_def policy_encode_eq header_fields_def coauthors_written_def)
  moreover have "length (enc_fields (header_fields ?h ?suite ?policy [] ?authority None)) \<le> 1048576"
    using policy by (simp add: demo_header_def header_fields_def)
  ultimately show ?thesis by blast
qed

lemma demo_header_encodes: "\<exists>bs. header_encode demo_header = Inr bs \<and> length bs \<le> 1048576"
  using demo_header_with_encodes [of demo_policy] by (simp add: demo_header_def)

lemma demo_header_with_decodes:
  assumes "policy_wf 5 p"
  shows "\<exists>bs ph. header_decode bs = Inr ph \<and> ph_header ph = demo_header\<lparr>hd_policy := p\<rparr>"
proof -
  have "header_wf (demo_header\<lparr>hd_policy := p\<rparr>)" using demo_header_wf assms by (simp add: header_wf_def demo_header_def)
  moreover obtain bs where bs: "header_encode (demo_header\<lparr>hd_policy := p\<rparr>) = Inr bs" using demo_header_with_encodes by blast
  ultimately show ?thesis using header_codec.dec_enc [OF _ bs] by (cases "header_decode bs") auto
qed

lemma demo_header_decodes:
  "\<exists>bs ph. header_encode demo_header = Inr bs \<and> header_decode bs = Inr ph \<and> ph_header ph = demo_header \<and>
     length bs \<le> 1048576"
proof -
  obtain bs where bs: "header_encode demo_header = Inr bs" "length bs \<le> 1048576" using demo_header_encodes by blast
  from header_codec.dec_enc [OF demo_header_wf bs(1)] bs show ?thesis
    by (cases "header_decode bs") auto
qed

text \<open>The messages that are hashed, as functions of a header's fields.\<close>

definition core_message :: "(u16 \<times> bytes) list \<Rightarrow> bytes" where
  "core_message fs = CORE_HASH @ [0] @ enc_fields (core_fields fs)"

definition policy_message :: "(u16 \<times> bytes) list \<Rightarrow> bytes" where
  "policy_message fs = POLICY_HASH @ [0] @ the (map_of fs TAG_POLICY)"

section \<open>Properties\<close>

text \<open>
  C29.  A header round-trips.  Decoding the encoding of a well-formed header returns that header,
  and two well-formed headers with the same encoding are equal, so signing the bytes is signing
  the header.
\<close>

theorem header_round_trip:
  assumes "header_wf h" and "header_encode h = Inr bs"
  shows "(\<exists>spans. header_decode bs = Inr \<lparr>ph_header = h, ph_spans = spans\<rparr>) \<and>
     (\<forall>h'. header_wf h' \<and> header_encode h' = Inr bs \<longrightarrow> h' = h)"
proof -
  have "map_sum id ph_header (header_decode bs) = Inr h"
    using assms by (rule header_codec.dec_enc)
  then have "\<exists>spans. header_decode bs = Inr \<lparr>ph_header = h, ph_spans = spans\<rparr>"
  proof (cases "header_decode bs")
    case (Inr ph)
    then show ?thesis
      using \<open>map_sum id ph_header (header_decode bs) = Inr h\<close> by (cases ph) simp
  qed simp
  then show ?thesis using header_codec.enc_determines assms by blast
qed

theorem header_round_trip_witness:
  "\<exists>bs spans. header_encode demo_header = Inr bs \<and> header_decode bs = Inr \<lparr>ph_header = demo_header, ph_spans = spans\<rparr>"
  using demo_header_encodes header_round_trip [OF demo_header_wf] by blast

text \<open>
  C30.  Only valid headers are decoded.  Whatever bytes are decoded, the header is well formed
  and within the limits: the algorithms are the supported ones, the chunk size is a power of two
  between 4 KiB and 1 MiB, identifiers, keys and hashes have their lengths, the authority's keys
  are not zero and its addresses are printable ASCII, at most 1024 key slots are present, each
  understood slot has the lengths its KEM and the container version demand and the shape of its
  kind (a claim has a commitment and is otherwise empty, every other kind has a ciphertext and no
  commitment), and coauthors are distinct with a reachable threshold.  The slots are, one for one
  and in order, the records of the header's key slots field: an understood slot has the values of
  its record's fields, every other slot is its record byte for byte.  Such a header encodes, if at
  all, to bytes that decode to it again.
\<close>

theorem header_decode_valid:
  assumes "header_decode bs = Inr ph"
  shows "header_ok (ph_header ph) \<and>
     (\<exists>fs items. bs = enc_fields fs \<and> ascending None fs \<and> map_of fs TAG_KEY_SLOTS = Some (enc_fields items) \<and>
        ascending None items \<and> list_all2 (\<lambda>item slot. slot_read (snd item) slot) items (hd_key_slots (ph_header ph))) \<and>
     (\<forall>out. header_encode (ph_header ph) = Inr out \<longrightarrow>
        (\<exists>ph'. header_decode out = Inr ph' \<and> ph_header ph' = ph_header ph))"
proof -
  have ok: "header_ok (ph_header ph)" using assms by (rule header_decode_ok)
  then have wf: "header_wf (ph_header ph)" by (simp add: header_ok_def)
  obtain fs where fs: "read_fields bs = Inr fs" "bs = enc_fields fs" "ascending None fs"
    and "record_at TAG_KEY_SLOTS 0 fs = Some (sp_key_slots_record (ph_spans ph))"
    using header_decode_spans [OF assms] by blast
  then obtain w where w: "map_of fs TAG_KEY_SLOTS = Some w" using record_at_value by blast
  from decode_slots_read [OF header_decode_versioned(2) [OF assms fs(1) w]]
  obtain items where "w = enc_fields items" "ascending None items"
    "list_all2 (\<lambda>item slot. slot_read (snd item) slot) items (hd_key_slots (ph_header ph))" by blast
  moreover have "\<exists>ph'. header_decode out = Inr ph' \<and> ph_header ph' = ph_header ph"
    if "header_encode (ph_header ph) = Inr out" for out
    using header_codec.dec_enc [OF wf that] by (cases "header_decode out") auto
  ultimately show ?thesis using ok fs w by blast
qed

theorem header_decode_valid_witness:
  "\<exists>bs ph. header_decode bs = Inr ph \<and> ph_header ph = demo_header \<and> header_ok demo_header"
  using demo_header_decodes header_decode_valid by metis

text \<open>
  C31.  The core hash covers every field of a header except the key slots and the wrapped
  content key, and nothing else.  It is the SHA-256 digest of a label and the encoding of the
  remaining fields, known and unknown, and two decoded headers give the same hashed message
  exactly when those fields are equal.  Adding a recipient or rewrapping the key therefore
  leaves the core hash unchanged, and any other change alters the hashed message.
\<close>

theorem core_hash_covers:
  assumes "header_decode bs = Inr ph" and "read_fields bs = Inr fs"
    and "header_decode bs' = Inr ph'" and "read_fields bs' = Inr fs'"
  shows "core_hash c bs (ph_spans ph) = Inr (sha256_digest c (core_message fs)) \<and>
     core_hash c bs' (ph_spans ph') = Inr (sha256_digest c (core_message fs')) \<and>
     (core_message fs = core_message fs' \<longleftrightarrow> core_fields fs = core_fields fs')"
proof -
  have "core_fields fs = core_fields fs'" if "enc_fields (core_fields fs) = enc_fields (core_fields fs')"
    using enc_fields_determined [OF read_fields_lengths [OF assms(1,2)] read_fields_lengths [OF assms(3,4)] that] .
  then show ?thesis
    using core_hash_eq [OF assms(1,2)] core_hash_eq [OF assms(3,4)] by (auto simp: core_message_def)
qed

theorem core_hash_covers_witness:
  "\<exists>bs ph fs. header_decode bs = Inr ph \<and> ph_header ph = demo_header \<and> read_fields bs = Inr fs \<and>
     core_hash demo_crates bs (ph_spans ph) = Inr (first_32 (core_message fs))"
proof -
  obtain bs ph where ph: "header_decode bs = Inr ph" "ph_header ph = demo_header" using demo_header_decodes by blast
  obtain fs where fs: "read_fields bs = Inr fs" using header_decode_spans [OF ph(1)] by blast
  from core_hash_covers [OF ph(1) fs ph(1) fs, of demo_crates] ph fs show ?thesis
    by (auto simp: demo_crates_def)
qed

text \<open>
  The policy hash is bound to the policy that is enforced: it is the digest of a label and
  exactly the bytes that the header's policy was decoded from, and two headers of one version
  whose hashed messages are equal carry the same policy.
\<close>

theorem policy_hash_binds_policy:
  assumes "header_decode bs = Inr ph" and "read_fields bs = Inr fs"
    and "header_decode bs' = Inr ph'" and "read_fields bs' = Inr fs'"
  shows "policy_hash c bs (ph_spans ph) = Inr (sha256_digest c (policy_message fs)) \<and>
     policy_hash c bs' (ph_spans ph') = Inr (sha256_digest c (policy_message fs')) \<and>
     policy_decode (hd_container_version (ph_header ph)) (the (map_of fs TAG_POLICY)) = Inr (hd_policy (ph_header ph)) \<and>
     (policy_message fs = policy_message fs' \<and>
        hd_container_version (ph_header ph) = hd_container_version (ph_header ph') \<longrightarrow>
      hd_policy (ph_header ph) = hd_policy (ph_header ph'))"
proof -
  obtain v where v: "map_of fs TAG_POLICY = Some v"
    "policy_hash c bs (ph_spans ph) = Inr (sha256_digest c (POLICY_HASH @ [0] @ v))"
    using policy_hash_eq [OF assms(1)] assms(2) by auto
  obtain v' where v': "map_of fs' TAG_POLICY = Some v'"
    "policy_hash c bs' (ph_spans ph') = Inr (sha256_digest c (POLICY_HASH @ [0] @ v'))"
    using policy_hash_eq [OF assms(3)] assms(4) by auto
  show ?thesis
    using v v' header_decode_versioned(1) [OF assms(1,2) v(1)] header_decode_versioned(1) [OF assms(3,4) v'(1)]
    by (auto simp: policy_message_def)
qed

theorem policy_hash_binds_policy_witness:
  "\<exists>bs ph fs. header_decode bs = Inr ph \<and> read_fields bs = Inr fs \<and>
     policy_hash demo_crates bs (ph_spans ph) = Inr (first_32 (policy_message fs)) \<and>
     policy_decode 5 (the (map_of fs TAG_POLICY)) = Inr demo_policy"
proof -
  obtain bs ph where ph: "header_decode bs = Inr ph" "ph_header ph = demo_header" using demo_header_decodes by blast
  obtain fs where fs: "read_fields bs = Inr fs" using header_decode_spans [OF ph(1)] by blast
  have "sha256_digest demo_crates = first_32" "hd_container_version demo_header = 5" "hd_policy demo_header = demo_policy"
    by (simp_all add: demo_crates_def demo_header_def)
  with policy_hash_binds_policy [OF ph(1) fs ph(1) fs, of demo_crates] ph fs show ?thesis by metis
qed

text \<open>
  Coauthors.  A record is accepted exactly when it is empty with threshold zero, or has one to
  sixteen distinct keys and a threshold between one and their number; an accepted record of
  32-byte keys is written and read back unchanged, and whatever is read satisfies the rule.
\<close>

theorem coauthors_exact:
  "(check_coauthors co = Inr () \<longleftrightarrow>
      (co_threshold co = 0 \<and> co_keys co = []) \<or>
      (1 \<le> unat (co_threshold co) \<and> unat (co_threshold co) \<le> length (co_keys co) \<and>
       length (co_keys co) \<le> 16 \<and> distinct (co_keys co))) \<and>
   (check_coauthors co = Inr () \<and> (\<forall>k \<in> set (co_keys co). length k = 32) \<longrightarrow>
      bindR (encode_coauthors co) decode_coauthors = Inr co) \<and>
   (decode_coauthors bs = Inr co \<longrightarrow> check_coauthors co = Inr () \<and> (\<forall>k \<in> set (co_keys co). length k = 32))"
proof (intro conjI impI)
  show "check_coauthors co = Inr () \<longleftrightarrow>
      (co_threshold co = 0 \<and> co_keys co = []) \<or>
      (1 \<le> unat (co_threshold co) \<and> unat (co_threshold co) \<le> length (co_keys co) \<and>
       length (co_keys co) \<le> 16 \<and> distinct (co_keys co))"
    by (simp add: check_coauthors_ok coauthors_ok_def MAX_COAUTHORS_def)
  assume *: "check_coauthors co = Inr () \<and> (\<forall>k \<in> set (co_keys co). length k = 32)"
  then have "\<exists>out. encode_coauthors co = Inr out"
    using coauthors_encode [of co] by (auto simp: check_coauthors_ok)
  then show "bindR (encode_coauthors co) decode_coauthors = Inr co"
    using * coauthors_codec.dec_enc by auto
next
  assume "decode_coauthors bs = Inr co"
  from decode_coauthors_ok [OF this]
  show "check_coauthors co = Inr ()" "\<forall>k \<in> set (co_keys co). length k = 32"
    by (simp_all add: check_coauthors_ok)
qed

theorem coauthors_exact_witness:
  "let co = \<lparr>co_threshold = 1, co_keys = [replicate 32 1, replicate 32 2]\<rparr>
   in bindR (encode_coauthors co) decode_coauthors = Inr co"
proof -
  let ?co = "\<lparr>co_threshold = 1, co_keys = [replicate 32 1, replicate 32 2]\<rparr>"
  have "replicate 32 1 \<noteq> (replicate 32 2 :: bytes)" by simp
  with coauthors_exact [of ?co "[]"] show ?thesis by simp
qed

text \<open>
  The strength of a file is that of its strongest author device slot, classical when there is
  none; slots of other kinds and slots this reader does not understand do not count.
\<close>

theorem file_strength_max:
  "file_strength h =
     Max (insert Classical {strength_of_kem (kem_u8 (ks_kem s)) | s. Known s \<in> set (hd_key_slots h) \<and> ks_kind s = AuthorDevice})"
proof -
  let ?S = "{strength_of_kem (kem_u8 (ks_kem s)) | s. Known s \<in> set (hd_key_slots h) \<and> ks_kind s = AuthorDevice}"
  have low: "Classical \<le> x" for x by (cases x) (simp_all add: less_eq_Strength_def)
  have "x \<in> set (List.map_filter author_strength slots) \<longleftrightarrow>
      (\<exists>s. x = strength_of_kem (kem_u8 (ks_kem s)) \<and> Known s \<in> set slots \<and> ks_kind s = AuthorDevice)" for x slots
  proof (induction slots)
    case (Cons a slots)
    then show ?case by (cases a) (auto simp: map_filter_simps)
  qed simp
  then have set: "set (List.map_filter author_strength (hd_key_slots h)) = ?S" by blast
  show ?thesis
  proof (cases "List.map_filter author_strength (hd_key_slots h)")
    case Nil
    then show ?thesis unfolding set [symmetric] by (simp add: file_strength_def)
  next
    case (Cons s ss)
    then have "file_strength h = Max (set (s # ss))"
      by (simp add: file_strength_def Max.set_eq_fold del: list.set)
    moreover have "Max (insert Classical (set (s # ss))) = Max (set (s # ss))"
      using low by (simp add: max_absorb2)
    ultimately show ?thesis unfolding set [symmetric] Cons by simp
  qed
qed

end
