(* ===== verification/OC_Verify.thy ===== *)
theory OC_Verify
  imports OC_Header_Valid
begin

text \<open>
  The verified entry point of the format, \<^verbatim>\<open>oc-format/src/verify.rs\<close>: a header is handed out
  only with a signature, by the author key it names, over exactly the bytes it was parsed from,
  and only in a version this reader supports.
\<close>

section \<open>Verification\<close>

datatype SignerTrust = Pinned | TrustUnknown | Conflict

text \<open>A \<^verbatim>\<open>TrustStore\<close> is its lookup method: organisation and author key to an answer.\<close>

type_synonym TrustStore = "bytes \<Rightarrow> bytes \<Rightarrow> SignerTrust"

definition EmptyTrustStore :: TrustStore where
  "EmptyTrustStore org_id author_key = TrustUnknown"

record VerifiedHeader =
  vh_parsed :: ParsedHeader
  vh_header_bytes :: bytes
  vh_content_desc_offset :: nat
  vh_trust :: SignerTrust

definition suite_id :: "Suite \<Rightarrow> byte" where
  "suite_id suite = sig_u8 (su_sig suite)"

definition header_signing_transcript :: "bytes \<Rightarrow> Suite \<Rightarrow> FormatError + Transcript" where
  "header_signing_transcript header_bytes suite =
     bindR (ok_or OffsetOverflow (u32_of_usize (length header_bytes))) (\<lambda>declared.
     bindR (ensure (\<not> declared > MAX_HEADER_LEN) (HeaderTooLarge declared)) (\<lambda>_.
     Inr (tail_after_declared_length header_bytes
       (tr_u32le declared (tr_fixed MAGIC (tr_u8 (suite_id suite) (transcript_new HEADER_SIG)))))))"

definition verify_and_parse :: "Crates \<Rightarrow> bytes \<Rightarrow> TrustStore \<Rightarrow> FormatError + VerifiedHeader" where
  "verify_and_parse c buf trust_store =
     bindR (prologue_split buf) (\<lambda>prologue.
     bindR (header_decode (pro_header prologue)) (\<lambda>parsed.
     bindR (header_signing_transcript (pro_header prologue) (hd_suite (ph_header parsed))) (\<lambda>transcript.
     bindR (map_err BadHeaderSignature
       (sign_verify c (hd_author_key (ph_header parsed)) transcript (pro_signature prologue))) (\<lambda>_.
     let min_reader_version = hd_min_reader_version (ph_header parsed) in
     bindR (ensure (\<not> min_reader_version > SUPPORTED_READER_VERSION)
       (ReaderTooOld min_reader_version SUPPORTED_READER_VERSION)) (\<lambda>_.
     let container_version = hd_container_version (ph_header parsed) in
     bindR (ensure (MIN_READABLE_CONTAINER_VERSION \<le> container_version \<and>
                    container_version \<le> MAX_READABLE_CONTAINER_VERSION)
       (UnsupportedContainerVersion container_version MIN_READABLE_CONTAINER_VERSION
          MAX_READABLE_CONTAINER_VERSION)) (\<lambda>_.
     let trust = trust_store (hd_org_id (ph_header parsed)) (hd_author_key (ph_header parsed)) in
     Inr \<lparr>vh_parsed = parsed, vh_header_bytes = pro_header prologue,
          vh_content_desc_offset = pro_after_signature prologue, vh_trust = trust\<rparr>))))))"

section \<open>Lemmas\<close>

lemma header_signing_transcript_Inr:
  "header_signing_transcript hb suite = Inr t \<longleftrightarrow>
     length hb \<le> 1048576 \<and>
     tr_buf t = HEADER_SIG @ [0] @ [suite_id suite] @ MAGIC @ le_bytes 4 (length hb) @ hb"
proof (cases "length hb < 4294967296")
  case True
  then have "unat (word_of_nat (length hb) :: u32) = length hb"
    by (simp add: unat_of_nat take_bit_nat_eq_self)
  with True show ?thesis
    by (cases t) (auto simp: header_signing_transcript_def u32_of_usize_def bindR_eq_Inr ensure_eq_Inr MAX_HEADER_LEN_def
        transcript_defs word_less_nat_alt)
next
  case False
  then show ?thesis by (simp add: header_signing_transcript_def u32_of_usize_def)
qed

lemma sign_verify_Inr:
  "sign_verify c k t s = Inr u \<longleftrightarrow> ed25519_key_ok c k \<and> ed25519_verify_strict c k (tr_buf t) s"
  by (auto simp: sign_verify_def bindR_eq_Inr ensure_eq_Inr)

definition signed_message :: "bytes \<Rightarrow> Suite \<Rightarrow> bytes" where
  "signed_message hb suite = HEADER_SIG @ [0] @ [suite_id suite] @ MAGIC @ le_bytes 4 (length hb) @ hb"

lemma verify_and_parse_Inr:
  "verify_and_parse c buf store = Inr vh \<longleftrightarrow>
     (\<exists>pro ph. prologue_split buf = Inr pro \<and> header_decode (pro_header pro) = Inr ph \<and>
        length (pro_header pro) \<le> 1048576 \<and> ed25519_key_ok c (hd_author_key (ph_header ph)) \<and>
        ed25519_verify_strict c (hd_author_key (ph_header ph))
          (signed_message (pro_header pro) (hd_suite (ph_header ph))) (pro_signature pro) \<and>
        hd_min_reader_version (ph_header ph) \<le> 5 \<and> hd_container_version (ph_header ph) = 5 \<and>
        vh = \<lparr>vh_parsed = ph, vh_header_bytes = pro_header pro, vh_content_desc_offset = pro_after_signature pro,
              vh_trust = store (hd_org_id (ph_header ph)) (hd_author_key (ph_header ph))\<rparr>)"
proof -
  have t: "(\<exists>t. header_signing_transcript hb suite = Inr t \<and> K \<and> V (tr_buf t) s \<and> R) \<longleftrightarrow>
      length hb \<le> 1048576 \<and> K \<and> V (signed_message hb suite) s \<and> R" for hb suite K V R and s :: bytes
  proof -
    have "(\<exists>t. tr_buf t = m \<and> K \<and> V (tr_buf t) s \<and> R) \<longleftrightarrow> K \<and> V m s \<and> R" for m
      by (metis Transcript.select_convs(1))
    then show ?thesis by (auto simp: header_signing_transcript_Inr signed_message_def)
  qed
  have v: "(5 :: u16) \<le> x \<and> x \<le> 5 \<longleftrightarrow> x = 5" for x by auto
  show ?thesis
    unfolding verify_and_parse_def Let_def
    by (simp add: bindR_eq_Inr bind_unit_eq_Inr ensure_eq_Inr map_err_eq_Inr sign_verify_Inr
        MIN_READABLE_CONTAINER_VERSION_def MAX_READABLE_CONTAINER_VERSION_def SUPPORTED_READER_VERSION_def v t not_less
        conj_assoc eq_commute [of vh])
qed

lemma demo_signature:
  "ed25519_key_ok demo_crates (replicate 32 1)"
  "ed25519_verify_strict demo_crates (replicate 32 1) m (replicate 32 0 @ replicate 32 1)"
  by (simp_all add: demo_crates_def)

lemma signed_container_opens:
  assumes "header_wf h" and "header_encode h = Inr hb" and "length hb \<le> 1048576" and "length sig = 64"
    and "hd_container_version h = CONTAINER_VERSION" and "hd_min_reader_version h \<le> SUPPORTED_READER_VERSION"
    and "ed25519_key_ok c (hd_author_key h)"
    and "ed25519_verify_strict c (hd_author_key h) (signed_message hb (hd_suite h)) sig"
  shows "\<exists>vh. verify_and_parse c (MAGIC @ le_bytes 4 (length hb) @ hb @ sig @ rest) store = Inr vh \<and>
     ph_header (vh_parsed vh) = h \<and> vh_header_bytes vh = hb \<and> vh_content_desc_offset vh = 76 + length hb \<and>
     vh_trust vh = store (hd_org_id h) (hd_author_key h)"
proof -
  have "map_sum id ph_header (header_decode hb) = Inr h" by (rule header_codec.dec_enc [OF assms(1,2)])
  then obtain ph where ph: "header_decode hb = Inr ph" "ph_header ph = h"
    by (cases "header_decode hb") auto
  show ?thesis
    unfolding verify_and_parse_Inr prologue_split_parts [OF assms(3,4)]
    using assms ph by (auto simp: CONTAINER_VERSION_def SUPPORTED_READER_VERSION_def)
qed

lemma demo_container_opens:
  "\<exists>buf vh. verify_and_parse demo_crates buf EmptyTrustStore = Inr vh \<and> ph_header (vh_parsed vh) = demo_header"
proof -
  obtain hb where hb: "header_encode demo_header = Inr hb" "length hb \<le> 1048576"
    using demo_header_encodes by blast
  have "hd_container_version demo_header = CONTAINER_VERSION" "hd_min_reader_version demo_header \<le> SUPPORTED_READER_VERSION"
    "hd_author_key demo_header = replicate 32 1"
    by (simp_all add: demo_header_def CONTAINER_VERSION_def SUPPORTED_READER_VERSION_def)
  then show ?thesis
    using signed_container_opens [OF demo_header_wf hb, of "replicate 32 0 @ replicate 32 1" demo_crates "[]" EmptyTrustStore]
      demo_signature by auto
qed

section \<open>Properties\<close>

text \<open>
  C3.  A header is handed out only when it is signed.  If the entry point accepts a file, the file
  is magic, length, header, signature and the rest; the returned header is what those header
  bytes decode to, it is valid and of version 5; and the signature verifies under the author key
  named in the header over a message that is a fixed label and the suite followed by the file's
  own bytes up to the signature.  No byte before the signature is outside the signed message.
\<close>

theorem verify_and_parse_sound:
  assumes "verify_and_parse c buf store = Inr vh"
  shows "\<exists>sig rest. length sig = 64 \<and>
     buf = MAGIC @ le_bytes 4 (length (vh_header_bytes vh)) @ vh_header_bytes vh @ sig @ rest \<and>
     vh_content_desc_offset vh = length buf - length rest \<and>
     header_decode (vh_header_bytes vh) = Inr (vh_parsed vh) \<and> header_ok (ph_header (vh_parsed vh)) \<and>
     hd_container_version (ph_header (vh_parsed vh)) = 5 \<and> hd_min_reader_version (ph_header (vh_parsed vh)) \<le> 5 \<and>
     ed25519_verify_strict c (hd_author_key (ph_header (vh_parsed vh)))
       (HEADER_SIG @ [0, 1] @ take (12 + length (vh_header_bytes vh)) buf) sig \<and>
     vh_trust vh = store (hd_org_id (ph_header (vh_parsed vh))) (hd_author_key (ph_header (vh_parsed vh)))"
proof -
  obtain pro ph where pro: "prologue_split buf = Inr pro" and ph: "header_decode (pro_header pro) = Inr ph"
    and sig: "ed25519_verify_strict c (hd_author_key (ph_header ph))
          (signed_message (pro_header pro) (hd_suite (ph_header ph))) (pro_signature pro)"
    and ver: "hd_min_reader_version (ph_header ph) \<le> 5" "hd_container_version (ph_header ph) = 5"
    and vh: "vh = \<lparr>vh_parsed = ph, vh_header_bytes = pro_header pro, vh_content_desc_offset = pro_after_signature pro,
              vh_trust = store (hd_org_id (ph_header ph)) (hd_author_key (ph_header ph))\<rparr>"
    using assms unfolding verify_and_parse_Inr by blast
  obtain rest where buf: "buf = MAGIC @ le_bytes 4 (length (pro_header pro)) @ pro_header pro @ pro_signature pro @ rest"
    using prologue_split_Inr(1) [OF pro] by blast
  have ok: "header_ok (ph_header ph)" by (rule header_decode_ok [OF ph])
  then have "suite_id (hd_suite (ph_header ph)) = 1"
    by (simp add: header_ok_def header_wf_def suite_wf_def suite_id_def)
  then have "signed_message (pro_header pro) (hd_suite (ph_header ph)) =
      HEADER_SIG @ [0, 1] @ take (12 + length (pro_header pro)) buf"
    by (simp add: signed_message_def buf)
  then show ?thesis
    using ph sig ver ok prologue_split_Inr(3,4) [OF pro]
    by (intro exI [of _ "pro_signature pro"] exI [of _ rest]) (simp add: vh buf)
qed

theorem verify_and_parse_sound_witness:
  "\<exists>buf vh sig. verify_and_parse demo_crates buf EmptyTrustStore = Inr vh \<and> ph_header (vh_parsed vh) = demo_header \<and>
     ed25519_verify_strict demo_crates (hd_author_key demo_header)
       (HEADER_SIG @ [0, 1] @ take (12 + length (vh_header_bytes vh)) buf) sig"
proof -
  obtain buf vh where vh: "verify_and_parse demo_crates buf EmptyTrustStore = Inr vh" "ph_header (vh_parsed vh) = demo_header"
    using demo_container_opens by blast
  from verify_and_parse_sound [OF vh(1)] vh show ?thesis by metis
qed

text \<open>
  A properly signed container opens: for a well-formed header of the current version whose
  encoding fits the limit and is signed by its author, the entry point returns that header, the
  offset where the mutable part begins and the store's opinion of the signer, whatever follows.
\<close>

theorem verify_and_parse_complete:
  assumes "header_wf h" and "header_encode h = Inr hb" and "length hb \<le> 1048576" and "length sig = 64"
    and "hd_container_version h = CONTAINER_VERSION" and "hd_min_reader_version h \<le> SUPPORTED_READER_VERSION"
    and "ed25519_key_ok c (hd_author_key h)"
    and "ed25519_verify_strict c (hd_author_key h) (signed_message hb (hd_suite h)) sig"
  shows "\<exists>vh. verify_and_parse c (MAGIC @ le_bytes 4 (length hb) @ hb @ sig @ rest) store = Inr vh \<and>
     ph_header (vh_parsed vh) = h \<and> vh_header_bytes vh = hb \<and> vh_content_desc_offset vh = 76 + length hb \<and>
     vh_trust vh = store (hd_org_id h) (hd_author_key h)"
  using assms by (rule signed_container_opens)

theorem verify_and_parse_complete_witness:
  "\<exists>hb vh. header_encode demo_header = Inr hb \<and>
     verify_and_parse demo_crates (MAGIC @ le_bytes 4 (length hb) @ hb @ (replicate 32 0 @ replicate 32 1) @ [8]) EmptyTrustStore = Inr vh \<and>
     ph_header (vh_parsed vh) = demo_header"
proof -
  obtain hb where hb: "header_encode demo_header = Inr hb" "length hb \<le> 1048576"
    using demo_header_encodes by blast
  have "hd_container_version demo_header = CONTAINER_VERSION" "hd_min_reader_version demo_header \<le> SUPPORTED_READER_VERSION"
    "hd_author_key demo_header = replicate 32 1"
    by (simp_all add: demo_header_def CONTAINER_VERSION_def SUPPORTED_READER_VERSION_def)
  then show ?thesis
    using verify_and_parse_complete [OF demo_header_wf hb, of "replicate 32 0 @ replicate 32 1" demo_crates "[8]" EmptyTrustStore]
      demo_signature hb by auto
qed

text \<open>
  The signature is judged before the header's own claims about versions: when a header decodes
  but its signature does not verify, the error is the signature's, never a version error that an
  unauthenticated byte could provoke; the version errors are reported only for signed headers.
\<close>

theorem signature_before_versions:
  assumes "prologue_split buf = Inr pro" and "header_decode (pro_header pro) = Inr ph"
  shows "verify_and_parse c buf store =
     (let h = ph_header ph in
      if \<not> (ed25519_key_ok c (hd_author_key h) \<and>
            ed25519_verify_strict c (hd_author_key h) (signed_message (pro_header pro) (hd_suite h)) (pro_signature pro))
      then Inl BadHeaderSignature
      else if hd_min_reader_version h > 5 then Inl (ReaderTooOld (hd_min_reader_version h) 5)
      else if hd_container_version h \<noteq> 5 then Inl (UnsupportedContainerVersion (hd_container_version h) 5 5)
      else Inr \<lparr>vh_parsed = ph, vh_header_bytes = pro_header pro, vh_content_desc_offset = pro_after_signature pro,
                vh_trust = store (hd_org_id h) (hd_author_key h)\<rparr>)"
proof -
  have "length (pro_header pro) \<le> 1048576" using prologue_split_Inr(2) [OF assms(1)] .
  then have t: "header_signing_transcript (pro_header pro) (hd_suite (ph_header ph)) =
      Inr \<lparr>tr_buf = signed_message (pro_header pro) (hd_suite (ph_header ph))\<rparr>"
    by (simp add: header_signing_transcript_Inr signed_message_def)
  have s: "map_err BadHeaderSignature (sign_verify c k x sg) =
      (if ed25519_key_ok c k \<and> ed25519_verify_strict c k (tr_buf x) sg then Inr () else Inl BadHeaderSignature)" for k x sg
    by (simp add: sign_verify_def ensure_def)
  have v: "(5 :: u16) \<le> x \<and> x \<le> 5 \<longleftrightarrow> x = 5" for x by auto
  show ?thesis
    by (simp add: verify_and_parse_def assms t s v Let_def ensure_def MIN_READABLE_CONTAINER_VERSION_def
        MAX_READABLE_CONTAINER_VERSION_def SUPPORTED_READER_VERSION_def)
qed

theorem signature_before_versions_witness:
  "\<exists>buf pro ph. prologue_split buf = Inr pro \<and> header_decode (pro_header pro) = Inr ph \<and> ph_header ph = demo_header \<and>
     verify_and_parse demo_crates buf EmptyTrustStore = Inl BadHeaderSignature"
proof -
  obtain hb ph where hb: "header_encode demo_header = Inr hb" "header_decode hb = Inr ph" "ph_header ph = demo_header"
    "length hb \<le> 1048576" using demo_header_decodes by blast
  let ?buf = "MAGIC @ le_bytes 4 (length hb) @ hb @ replicate 64 9 @ []"
  have pro: "prologue_split ?buf = Inr \<lparr>pro_header = hb, pro_signature = replicate 64 9,
      pro_after_signature = 76 + length hb, pro_declared_len = word_of_nat (length hb)\<rparr>"
    using hb(4) by (intro prologue_split_parts) simp_all
  have "hd (replicate 64 (9 :: byte)) \<noteq> hd (replicate 32 0 @ replicate 32 1)" by simp
  then have "replicate 64 9 \<noteq> replicate 32 0 @ replicate 32 (1 :: byte)" by metis
  then have "\<not> ed25519_verify_strict demo_crates (hd_author_key demo_header) m (replicate 64 9)" for m
    by (simp add: demo_crates_def demo_header_def)
  then have "verify_and_parse demo_crates ?buf EmptyTrustStore = Inl BadHeaderSignature"
    using signature_before_versions [OF pro, of ph demo_crates EmptyTrustStore] hb by (simp add: Let_def)
  moreover have "header_decode (pro_header \<lparr>pro_header = hb, pro_signature = replicate 64 9,
      pro_after_signature = 76 + length hb, pro_declared_len = word_of_nat (length hb)\<rparr>) = Inr ph"
    using hb(2) by simp
  ultimately show ?thesis using pro hb(3) by blast
qed

end
