(* ===== verification/OC_Merkle.thy ===== *)
theory OC_Merkle
  imports OC_Crypto
begin

text \<open>
  The integrity tree, \<^verbatim>\<open>oc-crypto/src/merkle.rs\<close>.  Levels are built bottom-up by pairing
  neighbours; the odd node at the end of a level is promoted unchanged.  A level is a list of
  digests, a tree the list of its levels from the leaves to the apex.

  The root commits to the number of leaves, so index and count fix the shape of a proof.  The
  lemmas relate proofs to the tree without any assumption about the hash: where a forged proof
  is accepted, two different messages that were hashed, one by the builder and one by the
  verifier, have the same digest.
\<close>

section \<open>Hashing\<close>

datatype Leaf = Leaf (leaf_digest: bytes)

definition IMPLEMENTED_TREE_HASH :: TreeHashAlg where "IMPLEMENTED_TREE_HASH = Blake3"

definition leaf_of :: "Crates \<Rightarrow> u32 \<Rightarrow> bytes \<Rightarrow> bytes \<Rightarrow> bytes \<Rightarrow> Leaf" where
  "leaf_of c index nonce tag ct =
     Leaf (blake3_hash c ([0] @ LEAF @ be_bytes 4 (unat index) @ be_bytes 8 (length ct) @ nonce @ tag @ ct))"

definition node_of :: "Crates \<Rightarrow> bytes \<Rightarrow> bytes \<Rightarrow> bytes" where
  "node_of c left right = blake3_hash c ([1] @ NODE @ left @ right)"

definition root_of :: "Crates \<Rightarrow> u32 \<Rightarrow> bytes \<Rightarrow> bytes" where
  "root_of c leaf_count apex = blake3_hash c ([2] @ NODE @ be_bytes 4 (unat leaf_count) @ apex)"

section \<open>The tree\<close>

definition is_promoted :: "nat \<Rightarrow> nat \<Rightarrow> bool" where
  "is_promoted len index \<longleftrightarrow> len mod 2 = 1 \<and> saturating_add_usize index 1 = len"

definition parent_of :: "Crates \<Rightarrow> bytes list \<Rightarrow> nat \<Rightarrow> CryptoError + bytes" where
  "parent_of c level index =
     (if is_promoted (length level) index then ok_or IndexOutOfRange (get_at level index)
      else
        let left_index = index - index mod 2;
            right_index = saturating_add_usize left_index 1
        in bindR (ok_or IndexOutOfRange (get_at level left_index)) (\<lambda>left.
           bindR (ok_or IndexOutOfRange (get_at level right_index)) (\<lambda>right.
           Inr (node_of c left right))))"

record MerkleTree =
  levels :: "bytes list list"

text \<open>One pass over \<^verbatim>\<open>chunks(2)\<close>.\<close>

fun pair_up :: "Crates \<Rightarrow> bytes list \<Rightarrow> bytes list" where
  "pair_up c (left # right # rest) = node_of c left right # pair_up c rest"
| "pair_up c [left] = [left]"
| "pair_up c [] = []"

lemma length_pair_up [simp]: "length (pair_up c xs) = (length xs + 1) div 2"
  by (induction c xs rule: pair_up.induct) simp_all

function build_levels :: "Crates \<Rightarrow> bytes list \<Rightarrow> bytes list list" where
  "build_levels c current =
     (if length current > 1 then current # build_levels c (pair_up c current) else [current])"
  by pat_completeness auto
termination
  by (relation "measure (\<lambda>(c, current). length current)") auto

declare build_levels.simps [simp del]

definition build :: "Crates \<Rightarrow> Leaf list \<Rightarrow> CryptoError + MerkleTree" where
  "build c leaves =
     bindR (ensure (leaves \<noteq> []) BadLength) (\<lambda>_.
     bindR (ok_or BadLength (u32_of_usize (length leaves))) (\<lambda>_.
     Inr \<lparr>levels = build_levels c (map leaf_digest leaves)\<rparr>))"

definition apex :: "MerkleTree \<Rightarrow> bytes" where
  "apex t =
     (case levels t of
        [] \<Rightarrow> replicate 32 0
      | ls \<Rightarrow> (case last ls of [] \<Rightarrow> replicate 32 0 | first # _ \<Rightarrow> first))"

definition leaf_count :: "MerkleTree \<Rightarrow> u32" where
  "leaf_count t =
     (let count = (case levels t of [] \<Rightarrow> 0 | bottom # _ \<Rightarrow> length bottom)
      in case u32_of_usize count of Some n \<Rightarrow> n | None \<Rightarrow> 0xFFFFFFFF)"

definition root :: "Crates \<Rightarrow> MerkleTree \<Rightarrow> bytes" where
  "root c t = root_of c (leaf_count t) (apex t)"

section \<open>Updating a leaf\<close>

text \<open>
  The method mutates the tree in place and may return early, so the result is the tree as it
  was left and the answer.
\<close>

function update_path ::
    "Crates \<Rightarrow> bytes list list \<Rightarrow> nat \<Rightarrow> nat \<Rightarrow> bytes list list \<times> (CryptoError + unit)" where
  "update_path c ls depth position =
     (case get_at ls depth of
        None \<Rightarrow> (ls, Inl IndexOutOfRange)
      | Some level \<Rightarrow>
          if length level \<le> 1 then (ls, Inr ())
          else case parent_of c level position of
              Inl e \<Rightarrow> (ls, Inl e)
            | Inr parent \<Rightarrow>
                let parent_position = position div 2; above = depth + 1 in
                case get_at ls above of
                  None \<Rightarrow> (ls, Inl TreeMismatch)
                | Some upper \<Rightarrow>
                    if parent_position < length upper
                    then update_path c (ls[above := upper[parent_position := parent]]) above parent_position
                    else (ls, Inl TreeMismatch))"
  by pat_completeness auto
termination
  by (relation "measure (\<lambda>(c, ls, depth, position). length ls - depth)")
    (auto simp: get_at_def split: if_splits)

declare update_path.simps [simp del]

definition update_leaf :: "Crates \<Rightarrow> MerkleTree \<Rightarrow> u32 \<Rightarrow> Leaf \<Rightarrow> MerkleTree \<times> (CryptoError + bytes)" where
  "update_leaf c t index leaf =
     (if index \<ge> leaf_count t then (t, Inl IndexOutOfRange)
      else
        let position = unat index in
        case levels t of
          [] \<Rightarrow> (t, Inl IndexOutOfRange)
        | bottom # upper \<Rightarrow>
            if \<not> position < length bottom then (t, Inl IndexOutOfRange)
            else
              let (ls, r) = update_path c (bottom[position := leaf_digest leaf] # upper) 0 position;
                  t' = t\<lparr>levels := ls\<rparr>
              in (t', case r of Inl e \<Rightarrow> Inl e | Inr _ \<Rightarrow> Inr (root c t')))"

section \<open>Inclusion proofs\<close>

fun proof_path :: "bytes list list \<Rightarrow> nat \<Rightarrow> CryptoError + bytes list" where
  "proof_path [] position = Inr []"
| "proof_path (level # ls) position =
     (if length level \<le> 1 then Inr []
      else if is_promoted (length level) position then proof_path ls (position div 2)
      else
        let sibling = (if position mod 2 = 0 then saturating_add_usize position 1 else position - 1)
        in bindR (ok_or TreeMismatch (get_at level sibling)) (\<lambda>s.
           bindR (proof_path ls (position div 2)) (\<lambda>path. Inr (s # path))))"

definition merkle_proof :: "MerkleTree \<Rightarrow> u32 \<Rightarrow> CryptoError + bytes list" where
  "merkle_proof t index =
     (if index \<ge> leaf_count t then Inl IndexOutOfRange else proof_path (levels t) (unat index))"

text \<open>The verifier's loop: the accumulator and the number of siblings used, or a missing sibling.\<close>

function verify_path ::
    "Crates \<Rightarrow> bytes list \<Rightarrow> nat \<Rightarrow> nat \<Rightarrow> bytes \<Rightarrow> nat \<Rightarrow> (bytes \<times> nat) option" where
  "verify_path c p len position accumulator used =
     (if len > 1 then
        if \<not> is_promoted len position then
          case get_at p used of
            None \<Rightarrow> None
          | Some sibling \<Rightarrow>
              verify_path c p ((len + 1) div 2) (position div 2)
                (if position mod 2 = 0 then node_of c accumulator sibling else node_of c sibling accumulator)
                (saturating_add_usize used 1)
        else verify_path c p ((len + 1) div 2) (position div 2) accumulator used
      else Some (accumulator, used))"
  by pat_completeness auto
termination
  by (relation "measure (\<lambda>(c, p, len, position, accumulator, used). len)") auto

declare verify_path.simps [simp del]

definition verify_proof :: "Crates \<Rightarrow> bytes \<Rightarrow> u32 \<Rightarrow> u32 \<Rightarrow> Leaf \<Rightarrow> bytes list \<Rightarrow> bool" where
  "verify_proof c expected index count leaf p =
     (if count = 0 \<or> index \<ge> count then False
      else case verify_path c p (unat count) (unat index) (leaf_digest leaf) 0 of
          None \<Rightarrow> False
        | Some (accumulator, used) \<Rightarrow>
            (if used \<noteq> length p then False
             else digest_eq_ct c (root_of c count accumulator) expected))"

section \<open>Consistency proofs\<close>

text \<open>
  The doubling loop of \<^verbatim>\<open>split_point\<close> starts at one, and its argument is a \<^verbatim>\<open>usize\<close>; these two facts
  are the first two conditions of the loop.
\<close>

function split_loop :: "nat \<Rightarrow> nat \<Rightarrow> nat" where
  "split_loop k n =
     (if 0 < k \<and> n < usize_limit \<and> saturating_mul_usize k 2 < n
      then split_loop (saturating_mul_usize k 2) n else k)"
  by pat_completeness auto
termination
  by (relation "measure (\<lambda>(k, n). n - k)") (auto simp: saturating_mul_usize_def)

declare split_loop.simps [simp del]

definition split_point :: "nat \<Rightarrow> nat" where
  "split_point n = split_loop 1 n"

lemma split_loop_less: "0 < k \<Longrightarrow> k < n \<Longrightarrow> 0 < split_loop k n \<and> split_loop k n < n"
  by (induction k n rule: split_loop.induct)
    (subst (1 2) split_loop.simps, auto simp: saturating_mul_usize_def)

lemma split_point_less: "1 < n \<Longrightarrow> 0 < split_point n \<and> split_point n < n"
  using split_loop_less [of 1 n] by (simp add: split_point_def)

lemma split_at_point:
  assumes "split_at_checked xs (split_point (length xs)) = Some (l, r)" and "xs \<noteq> []" and "length xs \<noteq> 1"
  shows "length l = split_point (length xs)" and "length l < length xs" and "length r < length xs"
    and "l \<noteq> []" and "r \<noteq> []" and "xs = l @ r"
proof -
  have "1 < length xs" using assms(2,3) by (cases xs) auto
  from split_point_less [OF this] assms(1)
  show "length l = split_point (length xs)" "length l < length xs" "length r < length xs" "l \<noteq> []" "r \<noteq> []" "xs = l @ r"
    by (auto simp: split_at_checked_def split: if_splits)
qed

function mth :: "Crates \<Rightarrow> bytes list \<Rightarrow> bytes option" where
  "mth c leaves =
     (if leaves = [] then None
      else if length leaves = 1 then Some (hd leaves)
      else case split_at_checked leaves (split_point (length leaves)) of
          None \<Rightarrow> None
        | Some (left, right) \<Rightarrow>
            (case mth c left of
               None \<Rightarrow> None
             | Some l \<Rightarrow>
                 (case mth c right of None \<Rightarrow> None | Some r \<Rightarrow> Some (node_of c l r))))"
  by pat_completeness auto
termination
  by (relation "measure (\<lambda>(c, leaves). length leaves)") (auto dest: split_at_point)

declare mth.simps [simp del]

lemma split_at_shorter:
  assumes "split_at_checked xs (split_point (length xs)) = Some (l, r)" and "\<not> length xs \<le> Suc 0"
  shows "length l < length xs \<and> length r < length xs"
proof -
  have "xs \<noteq> []" "length xs \<noteq> 1" using assms(2) by auto
  then show ?thesis using split_at_point(2,3) [OF assms(1)] by blast
qed

text \<open>
  \<^verbatim>\<open>subproof\<close> pushes onto its output; here it returns what it pushes.  Its caller passes
  \<open>1 \<le> m \<le> n\<close>, which every recursive call keeps, so a slice of length one always meets the
  first condition; the condition on the length below only makes the function total.
\<close>

function subproof :: "Crates \<Rightarrow> nat \<Rightarrow> bytes list \<Rightarrow> bool \<Rightarrow> bytes list option" where
  "subproof c m leaves complete =
     (if m = length leaves then
        (if \<not> complete then map_option (\<lambda>h. [h]) (mth c leaves) else Some [])
      else
        let k = split_point (length leaves) in
        case split_at_checked leaves k of
          None \<Rightarrow> None
        | Some (left, right) \<Rightarrow>
            if length leaves \<le> 1 then None
            else if m \<le> k then
              (case subproof c m left complete of
                 None \<Rightarrow> None
               | Some out \<Rightarrow> map_option (\<lambda>h. out @ [h]) (mth c right))
            else
              (case subproof c (m - k) right False of
                 None \<Rightarrow> None
               | Some out \<Rightarrow> map_option (\<lambda>h. out @ [h]) (mth c left)))"
  by pat_completeness auto
termination
  by (relation "measure (\<lambda>(c, m, leaves, complete). length leaves)") (auto dest: split_at_shorter)

declare subproof.simps [simp del]

definition is_power_of_two_usize :: "nat \<Rightarrow> bool" where
  "is_power_of_two_usize m = list_ex (\<lambda>k. m = 2 ^ k) [0..<64]"

definition consistency :: "Crates \<Rightarrow> MerkleTree \<Rightarrow> u32 \<Rightarrow> CryptoError + bytes list" where
  "consistency c t old_count =
     (case levels t of
        [] \<Rightarrow> Inl TreeMismatch
      | leaves # _ \<Rightarrow>
          let m = unat old_count in
          if m = 0 \<or> m > length leaves then Inl IndexOutOfRange
          else if m = length leaves then Inr []
          else
            bindR (if is_power_of_two_usize m
                   then bindR (ok_or IndexOutOfRange (get_range leaves 0 m)) (\<lambda>front.
                        bindR (ok_or TreeMismatch (mth c front)) (\<lambda>h. Inr [h]))
                   else Inr []) (\<lambda>path.
            bindR (ok_or TreeMismatch (subproof c m leaves True)) (\<lambda>out.
            Inr (path @ out))))"

fun skip_odd :: "nat \<Rightarrow> nat \<Rightarrow> nat \<times> nat" where
  "skip_odd fnode snode =
     (if fnode mod 2 = 1 then skip_odd (fnode div 2) (snode div 2) else (fnode, snode))"

fun skip_even :: "nat \<Rightarrow> nat \<Rightarrow> nat \<times> nat" where
  "skip_even fnode snode =
     (if fnode mod 2 = 0 \<and> fnode \<noteq> 0 then skip_even (fnode div 2) (snode div 2) else (fnode, snode))"

declare skip_odd.simps [simp del] and skip_even.simps [simp del]

fun consistency_loop ::
    "Crates \<Rightarrow> bytes list \<Rightarrow> nat \<Rightarrow> nat \<Rightarrow> bytes \<Rightarrow> bytes \<Rightarrow> (nat \<times> nat \<times> bytes \<times> bytes) option" where
  "consistency_loop c [] fnode snode old_acc new_acc = Some (fnode, snode, old_acc, new_acc)"
| "consistency_loop c (sibling # rest) fnode snode old_acc new_acc =
     (if snode = 0 then None
      else if fnode mod 2 = 1 \<or> fnode = snode then
        let (fnode, snode) = skip_even fnode snode
        in consistency_loop c rest (fnode div 2) (snode div 2) (node_of c sibling old_acc) (node_of c sibling new_acc)
      else consistency_loop c rest (fnode div 2) (snode div 2) old_acc (node_of c new_acc sibling))"

definition verify_consistency :: "Crates \<Rightarrow> u32 \<Rightarrow> bytes \<Rightarrow> u32 \<Rightarrow> bytes \<Rightarrow> bytes list \<Rightarrow> bool" where
  "verify_consistency c old_count old_root new_count new_root p =
     (if old_count = 0 \<or> old_count > new_count then False
      else if old_count = new_count then p = [] \<and> digest_eq_ct c old_root new_root
      else case p of
          [] \<Rightarrow> False
        | first # rest \<Rightarrow>
            (case (checked_sub old_count 1, checked_sub new_count 1) of
               (Some fnode, Some snode) \<Rightarrow>
                 (let (fnode, snode) = skip_odd (unat fnode) (unat snode) in
                  case consistency_loop c rest fnode snode first first of
                    None \<Rightarrow> False
                  | Some (fnode, snode, old_acc, new_acc) \<Rightarrow>
                      (let old_ok = digest_eq_ct c (root_of c old_count old_acc) old_root;
                           new_ok = digest_eq_ct c (root_of c new_count new_acc) new_root
                       in snode = 0 \<and> old_ok \<and> new_ok))
             | _ \<Rightarrow> False))"

section \<open>Levels\<close>

text \<open>The apex above a level, and the invariant of a tree that \<open>build\<close> made.\<close>

function apex_of :: "Crates \<Rightarrow> bytes list \<Rightarrow> bytes" where
  "apex_of c xs = (if length xs > 1 then apex_of c (pair_up c xs) else hd xs)"
  by pat_completeness auto
termination
  by (relation "measure (\<lambda>(c, xs). length xs)") auto

declare apex_of.simps [simp del]

lemma is_promoted_small: "i < 4294967296 \<Longrightarrow> is_promoted n i \<longleftrightarrow> n mod 2 = 1 \<and> i + 1 = n"
  by (auto simp: is_promoted_def saturating_add_usize_def)

lemma saturating_add_usize_small: "i < 4294967296 \<Longrightarrow> saturating_add_usize i 1 = i + 1"
  by (simp add: saturating_add_usize_def)

lemma level_steps:
  "length xs > 1 \<Longrightarrow> build_levels c xs = xs # build_levels c (pair_up c xs)"
  "\<not> length xs > 1 \<Longrightarrow> build_levels c xs = [xs]"
  "length xs > 1 \<Longrightarrow> apex_of c xs = apex_of c (pair_up c xs)"
  "\<not> length xs > 1 \<Longrightarrow> apex_of c xs = hd xs"
  by (simp_all add: build_levels.simps [of c xs] apex_of.simps [of c xs])

lemma last_build_levels: "xs \<noteq> [] \<Longrightarrow> \<exists>a. last (build_levels c xs) = [a] \<and> a = apex_of c xs"
proof (induction c xs rule: build_levels.induct)
  case (1 c xs)
  show ?case
  proof (cases "length xs > 1")
    case True
    then have "pair_up c xs \<noteq> []" by (auto simp flip: length_0_conv)
    moreover have "build_levels c (pair_up c xs) \<noteq> []" by (subst build_levels.simps) simp
    ultimately show ?thesis
      using 1 True by (simp add: level_steps(1,3) [OF True])
  next
    case False
    then obtain a where "xs = [a]" using "1.prems" by (cases xs) auto
    then show ?thesis by (simp add: build_levels.simps apex_of.simps)
  qed
qed

lemma hd_build_levels: "\<exists>ls. build_levels c xs = xs # ls"
  by (subst build_levels.simps) simp

lemma build_Inr:
  "build c leaves = Inr t \<longleftrightarrow>
     leaves \<noteq> [] \<and> length leaves < 4294967296 \<and> t = \<lparr>levels = build_levels c (map leaf_digest leaves)\<rparr>"
  by (auto simp: build_def bindR_eq_Inr ensure_eq_Inr u32_of_usize_def)

lemma built_tree:
  assumes "build c leaves = Inr t"
  shows "unat (leaf_count t) = length leaves" and "apex t = apex_of c (map leaf_digest leaves)"
    and "levels t = build_levels c (map leaf_digest leaves)"
proof -
  let ?xs = "map leaf_digest leaves"
  have len: "leaves \<noteq> []" "length leaves < 4294967296" and lv: "levels t = build_levels c ?xs"
    using assms by (simp_all add: build_Inr)
  obtain ls where ls: "build_levels c ?xs = ?xs # ls" using hd_build_levels by blast
  show "levels t = build_levels c ?xs" by (rule lv)
  show "unat (leaf_count t) = length leaves"
    using len ls by (simp add: leaf_count_def lv u32_of_usize_def unat_of_nat take_bit_nat_eq_self)
  show "apex t = apex_of c ?xs"
    using last_build_levels [of ?xs c] len ls by (auto simp: apex_def lv)
qed

lemma nth_pair_up:
  assumes "i < length xs"
  shows "pair_up c xs ! (i div 2) =
     (if length xs mod 2 = 1 \<and> i + 1 = length xs then xs ! i
      else node_of c (xs ! (i - i mod 2)) (xs ! (i - i mod 2 + 1)))"
  using assms
proof (induction c xs arbitrary: i rule: pair_up.induct)
  case (1 c l r xs)
  show ?case
  proof (cases "i < 2")
    case True
    then have "i = 0 \<or> i = 1" by auto
    then show ?thesis by auto
  next
    case False
    then obtain j where j: "i = j + 2" by (metis add.commute le_Suc_ex not_less)
    then have "j < length xs" using "1.prems" by simp
    have d: "i div 2 = Suc (j div 2)" and m: "i mod 2 = j mod 2" using j by simp_all
    have "j mod 2 \<le> j" by simp
    then have "i - i mod 2 = Suc (Suc (j - j mod 2))" using j m by linarith
    then show ?thesis
      using "1.IH" [OF \<open>j < length xs\<close>] unfolding d by (auto simp: j nth_Cons' intro!: arg_cong [of _ _ "(!) xs"])
  qed
next
  case (2 c l)
  then show ?case by simp
qed simp

lemma half_less: "i < n \<Longrightarrow> i div 2 < (n + 1) div (2 :: nat)"
  by linarith

section \<open>Completeness of inclusion proofs\<close>

lemma verify_path_steps:
  "len > 1 \<Longrightarrow> \<not> is_promoted len i \<Longrightarrow> get_at p u = Some sib \<Longrightarrow>
     verify_path c p len i a u = verify_path c p ((len + 1) div 2) (i div 2)
       (if i mod 2 = 0 then node_of c a sib else node_of c sib a) (saturating_add_usize u 1)"
  "len > 1 \<Longrightarrow> is_promoted len i \<Longrightarrow>
     verify_path c p len i a u = verify_path c p ((len + 1) div 2) (i div 2) a u"
  "\<not> len > 1 \<Longrightarrow> verify_path c p len i a u = Some (a, u)"
  by (simp_all add: verify_path.simps [of c p len])

text \<open>The sibling of a position that is not promoted.\<close>

definition sibling :: "nat \<Rightarrow> nat" where
  "sibling i = (if i mod 2 = 0 then i + 1 else i - 1)"

lemma sibling_less:
  assumes "i < n" and "\<not> (n mod 2 = 1 \<and> i + 1 = n)"
  shows "sibling i < n"
proof (cases "i mod 2 = 0")
  case True
  have "i + 1 \<noteq> n"
  proof
    assume "i + 1 = n"
    moreover from this True have "n mod 2 = 1" by presburger
    ultimately show False using assms(2) by simp
  qed
  then show ?thesis using assms(1) True by (simp add: sibling_def)
qed (use assms(1) in \<open>simp add: sibling_def\<close>)

lemma parent_of_siblings:
  assumes "i < length xs" and "\<not> (length xs mod 2 = 1 \<and> i + 1 = length xs)"
  shows "pair_up c xs ! (i div 2) =
     (if i mod 2 = 0 then node_of c (xs ! i) (xs ! sibling i) else node_of c (xs ! sibling i) (xs ! i))"
  using nth_pair_up [OF assms(1), of c] assms(2)
  by (cases "i mod 2 = 0") (auto simp: sibling_def odd_pos)

lemma proof_path_verifies:
  assumes "i < length xs" and "length xs < 4294967296"
  shows "\<exists>p. proof_path (build_levels c xs) i = Inr p \<and> length p < length xs \<and>
     (\<forall>pre. length pre + length xs < usize_limit \<longrightarrow>
      verify_path c (pre @ p) (length xs) i (xs ! i) (length pre) = Some (apex_of c xs, length (pre @ p)))"
  using assms
proof (induction c xs arbitrary: i rule: build_levels.induct)
  case (1 c xs)
  show ?case
  proof (cases "length xs > 1")
    case False
    then obtain x where "xs = [x]" "i = 0" using "1.prems" by (cases xs) auto
    then show ?thesis by (simp add: level_steps verify_path_steps)
  next
    case True
    let ?ys = "pair_up c xs"
    have half: "i div 2 < length ?ys" "length ?ys < 4294967296" "length ?ys < length xs"
      using "1.prems" True by simp_all
    then obtain q where q: "proof_path (build_levels c ?ys) (i div 2) = Inr q" "length q < length ?ys"
      and ver: "\<And>pre. length pre + length ?ys < usize_limit \<Longrightarrow>
        verify_path c (pre @ q) (length ?ys) (i div 2) (?ys ! (i div 2)) (length pre) = Some (apex_of c ?ys, length (pre @ q))"
      using "1.IH" [OF True] by blast
    note prom = is_promoted_small [of i "length xs"] and lt = "1.prems"
    show ?thesis
    proof (cases "length xs mod 2 = 1 \<and> i + 1 = length xs")
      case P: True
      then have "?ys ! (i div 2) = xs ! i" using nth_pair_up [OF lt(1), of c] by simp
      moreover have "is_promoted (length xs) i" using prom lt P by simp
      ultimately show ?thesis
        using q ver half True
        by (intro exI [of _ q]) (simp add: level_steps(1,3) verify_path_steps(2))
    next
      case P: False
      then have np: "\<not> is_promoted (length xs) i" using prom lt by simp
      have sib: "sibling i < length xs" by (rule sibling_less [OF lt(1) P])
      let ?p = "xs ! sibling i # q"
      have "(if i mod 2 = 0 then saturating_add_usize i 1 else i - 1) = sibling i"
        using lt by (simp add: sibling_def saturating_add_usize_def)
      then have "proof_path (build_levels c xs) i = Inr ?p"
        using True np sib q(1) by (simp add: level_steps(1) get_at_def)
      moreover have "verify_path c (pre @ ?p) (length xs) i (xs ! i) (length pre) = Some (apex_of c xs, length (pre @ ?p))"
        if "length pre + length xs < usize_limit" for pre
      proof -
        have "verify_path c (pre @ ?p) (length xs) i (xs ! i) (length pre) =
            verify_path c ((pre @ [xs ! sibling i]) @ q) (length ?ys) (i div 2) (?ys ! (i div 2)) (length (pre @ [xs ! sibling i]))"
          using True np that parent_of_siblings [OF lt(1) P, of c]
          by (subst verify_path_steps(1)) (simp_all add: get_at_def saturating_add_usize_def)
        then show ?thesis
          using ver [of "pre @ [xs ! sibling i]"] that half by (simp add: level_steps(3) [OF True])
      qed
      ultimately show ?thesis using q(2) half by (intro exI [of _ ?p]) auto
    qed
  qed
qed

section \<open>Soundness of inclusion proofs\<close>

text \<open>The messages that are hashed while a tree is built and while a proof is verified.\<close>

definition node_message :: "bytes \<Rightarrow> bytes \<Rightarrow> bytes" where
  "node_message l r = [1] @ NODE @ l @ r"

definition root_message :: "u32 \<Rightarrow> bytes \<Rightarrow> bytes" where
  "root_message n a = [2] @ NODE @ be_bytes 4 (unat n) @ a"

fun level_messages :: "bytes list \<Rightarrow> bytes list" where
  "level_messages (l # r # rest) = node_message l r # level_messages rest"
| "level_messages _ = []"

function tree_messages :: "Crates \<Rightarrow> bytes list \<Rightarrow> bytes list" where
  "tree_messages c xs =
     (if length xs > 1 then level_messages xs @ tree_messages c (pair_up c xs) else [])"
  by pat_completeness auto
termination
  by (relation "measure (\<lambda>(c, xs). length xs)") auto

function path_messages :: "Crates \<Rightarrow> bytes list \<Rightarrow> nat \<Rightarrow> nat \<Rightarrow> bytes \<Rightarrow> nat \<Rightarrow> bytes list" where
  "path_messages c p len position a used =
     (if len > 1 then
        if \<not> is_promoted len position then
          case get_at p used of
            None \<Rightarrow> []
          | Some s \<Rightarrow>
              (if position mod 2 = 0 then node_message a s else node_message s a) #
              path_messages c p ((len + 1) div 2) (position div 2)
                (if position mod 2 = 0 then node_of c a s else node_of c s a) (saturating_add_usize used 1)
        else path_messages c p ((len + 1) div 2) (position div 2) a used
      else [])"
  by pat_completeness auto
termination
  by (relation "measure (\<lambda>(c, p, len, position, a, used). len)") auto

declare tree_messages.simps [simp del] and path_messages.simps [simp del]

text \<open>Two different messages, one of each list, with the same digest.\<close>

definition collision :: "Crates \<Rightarrow> bytes list \<Rightarrow> bytes list \<Rightarrow> bool" where
  "collision c ms ns \<longleftrightarrow> (\<exists>m \<in> set ms. \<exists>n \<in> set ns. m \<noteq> n \<and> blake3_hash c m = blake3_hash c n)"

lemma collision_mono: "collision c ms ns \<Longrightarrow> set ms \<subseteq> set ms' \<Longrightarrow> set ns \<subseteq> set ns' \<Longrightarrow> collision c ms' ns'"
  by (auto simp: collision_def)

lemma node_of_message: "node_of c l r = blake3_hash c (node_message l r)"
  by (simp add: node_of_def node_message_def)

lemma root_of_message: "root_of c n a = blake3_hash c (root_message n a)"
  by (simp add: root_of_def root_message_def)

lemma node_message_eq: "length l = length l' \<Longrightarrow> node_message l r = node_message l' r' \<longleftrightarrow> l = l' \<and> r = r'"
  by (simp add: node_message_def)

lemma root_message_eq: "root_message n a = root_message n' a' \<longleftrightarrow> n = n' \<and> a = a'"
  by (auto simp: root_message_def append_eq_append_conv)

lemma level_message_at:
  "i < length xs \<Longrightarrow> \<not> (length xs mod 2 = 1 \<and> i + 1 = length xs) \<Longrightarrow>
   (if i mod 2 = 0 then node_message (xs ! i) (xs ! sibling i) else node_message (xs ! sibling i) (xs ! i))
     \<in> set (level_messages xs)"
proof (induction xs arbitrary: i rule: level_messages.induct)
  case (1 l r xs)
  show ?case
  proof (cases "i < 2")
    case True
    then have "i = 0 \<or> i = 1" by auto
    then show ?thesis by (auto simp: sibling_def)
  next
    case False
    then obtain j where j: "i = j + 2" by (metis add.commute le_Suc_ex not_less)
    have "sibling i = sibling j + 2" using j by (auto simp: sibling_def odd_pos)
    then show ?thesis using "1.IH" [of j] "1.prems" j by auto
  qed
qed (auto simp: sibling_def split: if_splits)

lemma length_node_of: "digests_32 c \<Longrightarrow> length (node_of c l r) = 32"
  by (simp add: node_of_def digests_32_def)

lemma pair_up_32: "digests_32 c \<Longrightarrow> \<forall>x \<in> set xs. length x = 32 \<Longrightarrow> \<forall>x \<in> set (pair_up c xs). length x = 32"
  by (induction c xs rule: pair_up.induct) (simp_all add: length_node_of)

lemma verify_path_sound:
  assumes "verify_path c p (length xs) i a u = Some (apex_of c xs, u')"
    and "i < length xs" and "length xs < 4294967296" and "digests_32 c"
    and "\<forall>x \<in> set xs. length x = 32" and "\<forall>x \<in> set p. length x = 32" and "length a = 32"
  shows "a = xs ! i \<or> collision c (tree_messages c xs) (path_messages c p (length xs) i a u)"
  using assms
proof (induction c xs arbitrary: i a u rule: build_levels.induct)
  case (1 c xs)
  note pr = "1.prems"
  show ?case
  proof (cases "length xs > 1")
    case False
    then obtain x where "xs = [x]" "i = 0" using pr(2) by (cases xs) auto
    then show ?thesis using pr(1) by (simp add: verify_path_steps level_steps)
  next
    case True
    let ?ys = "pair_up c xs" and ?q = "\<lambda>b v. path_messages c p (length (pair_up c xs)) (i div 2) b v"
    have half: "i div 2 < length ?ys" "length ?ys < 4294967296" using pr(2,3) True by simp_all
    have ys32: "\<forall>x \<in> set ?ys. length x = 32" by (rule pair_up_32 [OF pr(4,5)])
    have tm: "tree_messages c xs = level_messages xs @ tree_messages c ?ys"
      using True by (simp add: tree_messages.simps [of c xs])
    have IH: "b = ?ys ! (i div 2) \<or> collision c (tree_messages c ?ys) (?q b v)"
      if "verify_path c p (length ?ys) (i div 2) b v = Some (apex_of c ?ys, u')" "length b = 32" for b v
      using "1.IH" [OF True that(1) half pr(4) ys32 pr(6) that(2)] .
    show ?thesis
    proof (cases "length xs mod 2 = 1 \<and> i + 1 = length xs")
      case P: True
      then have pm: "is_promoted (length xs) i" using is_promoted_small pr by simp
      have "verify_path c p (length ?ys) (i div 2) a u = Some (apex_of c ?ys, u')"
        using pr(1) True pm by (simp add: verify_path_steps(2) level_steps(3))
      moreover have "path_messages c p (length xs) i a u = ?q a u"
        using True pm by (simp add: path_messages.simps [of c p "length xs"])
      moreover have "?ys ! (i div 2) = xs ! i" using nth_pair_up [OF pr(2), of c] P by simp
      ultimately show ?thesis using IH [of a u] pr(7) tm by (auto intro: collision_mono)
    next
      case P: False
      then have pm: "\<not> is_promoted (length xs) i" using is_promoted_small pr by simp
      obtain s where s: "get_at p u = Some s"
        using pr(1) True pm by (subst (asm) verify_path.simps) (auto split: option.splits)
      then have s32: "length s = 32" using pr(6) by (auto simp: get_at_eq_Some)
      let ?m = "if i mod 2 = 0 then node_message a s else node_message s a"
      let ?t = "if i mod 2 = 0 then node_message (xs ! i) (xs ! sibling i) else node_message (xs ! sibling i) (xs ! i)"
      let ?b = "if i mod 2 = 0 then node_of c a s else node_of c s a"
      have pms: "path_messages c p (length xs) i a u = ?m # ?q ?b (saturating_add_usize u 1)"
        using True pm s by (simp add: path_messages.simps [of c p "length xs"])
      have "verify_path c p (length ?ys) (i div 2) ?b (saturating_add_usize u 1) = Some (apex_of c ?ys, u')"
        using pr(1) True pm s by (simp add: verify_path_steps(1) level_steps(3) cong: if_cong)
      moreover have "length ?b = 32" using pr(4) by (simp add: length_node_of)
      ultimately consider "?b = ?ys ! (i div 2)" | "collision c (tree_messages c ?ys) (?q ?b (saturating_add_usize u 1))"
        using IH by blast
      then show ?thesis
      proof cases
        case 1
        have "?b = blake3_hash c ?m" "?ys ! (i div 2) = blake3_hash c ?t"
          using parent_of_siblings [OF pr(2) P, of c] by (auto simp: node_of_message)
        with 1 have eq: "blake3_hash c ?t = blake3_hash c ?m" by simp
        have t: "?t \<in> set (tree_messages c xs)" using level_message_at [OF pr(2) P] tm by simp
        have "sibling i < length xs" by (rule sibling_less [OF pr(2) P])
        then have l32: "length (xs ! sibling i) = 32" "length (xs ! i) = 32" using pr(2,5) by simp_all
        show ?thesis
        proof (cases "?t = ?m")
          case True
          then show ?thesis using l32 s32 pr(7) by (auto simp: node_message_eq split: if_splits)
        next
          case False
          with eq t show ?thesis unfolding collision_def pms by (intro disjI2 bexI [of _ ?t] bexI [of _ ?m]) auto
        qed
      next
        case 2
        then show ?thesis using tm pms by (auto intro: collision_mono)
      qed
    qed
  qed
qed

section \<open>Updating equals rebuilding\<close>

lemma parent_of_eq:
  assumes "i < length xs" and "length xs < 4294967296"
  shows "parent_of c xs i = Inr (pair_up c xs ! (i div 2))"
proof (cases "length xs mod 2 = 1 \<and> i + 1 = length xs")
  case True
  then show ?thesis
    using assms nth_pair_up [OF assms(1), of c] is_promoted_small [of i "length xs"]
    by (simp add: parent_of_def get_at_def)
next
  case False
  then have "sibling i < length xs" by (rule sibling_less [OF assms(1)])
  then have r: "i - i mod 2 + 1 < length xs" "i - i mod 2 < length xs"
    using assms(1) by (auto simp: sibling_def odd_pos split: if_splits)
  show ?thesis
    using assms r nth_pair_up [OF assms(1), of c] is_promoted_small [of i "length xs"] False
    by (auto simp: parent_of_def get_at_def Let_def saturating_add_usize_def)
qed

lemma pair_up_update:
  assumes "i < length xs"
  shows "pair_up c (xs[i := v]) = (pair_up c xs)[i div 2 := pair_up c (xs[i := v]) ! (i div 2)]"
proof (rule nth_equalityI)
  fix k assume "k < length (pair_up c (xs[i := v]))"
  then have k: "2 * k < length xs" by simp
  show "pair_up c (xs[i := v]) ! k = (pair_up c xs)[i div 2 := pair_up c (xs[i := v]) ! (i div 2)] ! k"
  proof (cases "k = i div 2")
    case True
    then show ?thesis using k assms by simp
  next
    case False
    then have "2 * k \<noteq> i" "2 * k + 1 \<noteq> i" by auto
    then show ?thesis
      using nth_pair_up [of "2 * k" xs c] nth_pair_up [of "2 * k" "xs[i := v]" c] k False by auto
  qed
qed simp

text \<open>The levels above the bottom.\<close>

definition upper_levels :: "Crates \<Rightarrow> bytes list \<Rightarrow> bytes list list" where
  "upper_levels c xs = tl (build_levels c xs)"

lemma build_levels_upper: "build_levels c xs = xs # upper_levels c xs"
  using hd_build_levels [of c xs] by (auto simp: upper_levels_def)

lemma upper_levels_step: "length xs > 1 \<Longrightarrow> upper_levels c xs = pair_up c xs # upper_levels c (pair_up c xs)"
  using build_levels_upper [of c "pair_up c xs"] by (simp add: upper_levels_def level_steps)

lemma update_path_rebuilds:
  assumes "i < length xs" and "length xs < 4294967296"
  shows "update_path c (pre @ xs[i := v] # upper_levels c xs) (length pre) i = (pre @ build_levels c (xs[i := v]), Inr ())"
  using assms
proof (induction c xs arbitrary: i v pre rule: build_levels.induct)
  case (1 c xs)
  let ?xs = "xs[i := v]" and ?ls = "pre @ xs[i := v] # upper_levels c xs"
  have at: "get_at ?ls (length pre) = Some ?xs" by (simp add: get_at_def)
  show ?case
  proof (cases "length xs > 1")
    case False
    then have "upper_levels c xs = []" by (simp add: upper_levels_def level_steps)
    moreover have "build_levels c ?xs = [?xs]" using False by (simp add: level_steps)
    ultimately show ?thesis using at False by (subst update_path.simps) simp
  next
    case True
    let ?ys = "pair_up c xs" and ?v = "pair_up c (xs[i := v]) ! (i div 2)"
    have half: "i div 2 < length ?ys" "length ?ys < 4294967296" using "1.prems" True by simp_all
    have up: "upper_levels c xs = ?ys # upper_levels c ?ys" by (rule upper_levels_step [OF True])
    have par: "parent_of c ?xs i = Inr ?v" using "1.prems" by (simp add: parent_of_eq)
    have above: "get_at ?ls (length pre + 1) = Some ?ys" by (simp add: get_at_def up nth_append)
    have new: "?ls[length pre + 1 := ?ys[i div 2 := ?v]] = (pre @ [?xs]) @ ?ys[i div 2 := ?v] # upper_levels c ?ys"
      by (simp add: up list_update_append)
    have "update_path c ?ls (length pre) i =
        update_path c ((pre @ [?xs]) @ ?ys[i div 2 := ?v] # upper_levels c ?ys) (length (pre @ [?xs])) (i div 2)"
      using at par above half True new by (subst update_path.simps) (simp add: Let_def)
    also have "\<dots> = ((pre @ [?xs]) @ build_levels c (?ys[i div 2 := ?v]), Inr ())"
      by (rule "1.IH" [OF True half])
    also have "?ys[i div 2 := ?v] = pair_up c ?xs"
      using pair_up_update [OF "1.prems"(1), of c v] by simp
    finally show ?thesis using True by (simp add: level_steps(1) [of ?xs])
  qed
qed

lemma update_leaf_rebuilds:
  assumes "build c leaves = Inr t" and "unat index < length leaves"
  shows "\<exists>t'. build c (leaves[unat index := leaf]) = Inr t' \<and> update_leaf c t index leaf = (t', Inr (root c t'))"
proof -
  let ?xs = "map leaf_digest leaves" and ?i = "unat index"
  have len: "leaves \<noteq> []" "length leaves < 4294967296" and t: "t = \<lparr>levels = build_levels c ?xs\<rparr>"
    using assms(1) by (simp_all add: build_Inr)
  have "\<not> index \<ge> leaf_count t"
    using built_tree(1) [OF assms(1)] assms(2) by (simp add: word_le_nat_alt)
  moreover have "update_path c (?xs[?i := leaf_digest leaf] # upper_levels c ?xs) 0 ?i =
      (build_levels c (?xs[?i := leaf_digest leaf]), Inr ())"
    using update_path_rebuilds [of ?i ?xs c "[]"] assms(2) len by simp
  ultimately have "update_leaf c t index leaf =
      (\<lparr>levels = build_levels c (?xs[?i := leaf_digest leaf])\<rparr>,
       Inr (root c \<lparr>levels = build_levels c (?xs[?i := leaf_digest leaf])\<rparr>))"
    using assms(2) by (simp add: update_leaf_def t build_levels_upper [of c ?xs] Let_def)
  then show ?thesis using len by (simp add: build_Inr map_update)
qed

section \<open>The apex is the recursive tree hash\<close>

text \<open>
  The recursive hash splits at the largest power of two below the length; pairing a level
  commutes with such a split, since its left part has even length.
\<close>

lemma split_loop_power:
  assumes "0 < k" and "k < n" and "n < usize_limit"
  shows "\<exists>e. split_loop k n = k * 2 ^ e \<and> n \<le> 2 * split_loop k n"
  using assms
proof (induction k n rule: split_loop.induct)
  case (1 k n)
  show ?case
  proof (cases "k * 2 < n")
    case True
    then have m: "saturating_mul_usize k 2 = k * 2" using "1.prems" by (simp add: saturating_mul_usize_def)
    with 1 True obtain e where "split_loop (k * 2) n = k * 2 * 2 ^ e" "n \<le> 2 * split_loop (k * 2) n" by auto
    moreover have "split_loop k n = split_loop (k * 2) n"
      using True "1.prems" m by (subst split_loop.simps) simp
    ultimately show ?thesis by (intro exI [of _ "Suc e"]) simp
  next
    case False
    then have "\<not> saturating_mul_usize k 2 < n"
      using "1.prems" by (simp add: saturating_mul_usize_def min_def)
    then have "split_loop k n = k" by (subst split_loop.simps) simp
    with False show ?thesis by (intro exI [of _ 0]) simp
  qed
qed

lemma split_point_power:
  assumes "1 < n" and "n < usize_limit"
  shows "\<exists>e. split_point n = 2 ^ e \<and> 2 ^ e < n \<and> n \<le> 2 * 2 ^ e"
  using split_loop_power [of 1 n] split_point_less [OF assms(1)] assms
  unfolding split_point_def by auto

lemma pair_up_append: "even (length xs) \<Longrightarrow> pair_up c (xs @ ys) = pair_up c xs @ pair_up c ys"
  by (induction c xs rule: pair_up.induct) simp_all

text \<open>The apex of a level of \<open>2 ^ e < n \<le> 2 ^ (e + 1)\<close> nodes joins the apexes of its two parts.\<close>

lemma apex_of_split:
  assumes "2 ^ e < length xs" and "length xs \<le> 2 * 2 ^ e"
  shows "apex_of c xs = node_of c (apex_of c (take (2 ^ e) xs)) (apex_of c (drop (2 ^ e) xs))"
  using assms
proof (induction e arbitrary: xs)
  case 0
  then have "length xs = 2" by simp
  then obtain a b where "xs = [a, b]" by (auto simp: numeral_2_eq_2 length_Suc_conv)
  then show ?case by (simp add: level_steps)
next
  case (Suc e)
  let ?l = "take (2 ^ Suc e) xs" and ?r = "drop (2 ^ Suc e) xs"
  have len: "length ?l = 2 * 2 ^ e" "length ?r \<ge> 1" "length xs > 1" using Suc.prems by (simp_all add: min_def)
  have pos: "(1 :: nat) \<le> 2 ^ e" by simp
  have ys: "pair_up c xs = pair_up c ?l @ pair_up c ?r"
    using pair_up_append [of ?l c ?r] len(1) by simp
  have lens: "length (pair_up c ?l) = 2 ^ e" using len(1) by simp
  have "2 ^ e < length (pair_up c xs)" "length (pair_up c xs) \<le> 2 * 2 ^ e"
    using Suc.prems by simp_all
  from Suc.IH [OF this]
  have "apex_of c (pair_up c xs) = node_of c (apex_of c (pair_up c ?l)) (apex_of c (pair_up c ?r))"
    using lens by (simp add: ys)
  moreover have "apex_of c xs = apex_of c (pair_up c xs)" by (rule level_steps(3) [OF len(3)])
  moreover have "apex_of c ?l = apex_of c (pair_up c ?l)"
    using len(1) pos by (intro level_steps(3)) linarith
  moreover have "apex_of c ?r = apex_of c (pair_up c ?r)"
  proof (cases "length ?r > 1")
    case False
    then have "length ?r = 1" using len(2) by linarith
    then obtain x where "?r = [x]" by (metis length_Suc_conv length_0_conv One_nat_def)
    then show ?thesis by simp
  qed (rule level_steps(3))
  ultimately show ?case by simp
qed

lemma mth_apex:
  assumes "xs \<noteq> []" and "length xs < usize_limit"
  shows "mth c xs = Some (apex_of c xs)"
  using assms
proof (induction "length xs" arbitrary: xs rule: less_induct)
  case less
  show ?case
  proof (cases "length xs = 1")
    case True
    then show ?thesis using less.prems by (subst mth.simps) (simp add: level_steps)
  next
    case False
    then have n: "1 < length xs" using less.prems(1) by (cases xs) auto
    obtain e where e: "split_point (length xs) = 2 ^ e" "2 ^ e < length xs" "length xs \<le> 2 * 2 ^ e"
      using split_point_power [OF n less.prems(2)] by blast
    let ?l = "take (2 ^ e) xs" and ?r = "drop (2 ^ e) xs"
    have "mth c ?l = Some (apex_of c ?l)" "mth c ?r = Some (apex_of c ?r)"
      using e(2) less.prems by (intro less.hyps; simp)+
    then have "mth c xs = Some (node_of c (apex_of c ?l) (apex_of c ?r))"
      using False less.prems(1) e(1,2) by (subst mth.simps) (simp add: split_at_checked_def)
    then show ?thesis using apex_of_split [OF e(2,3), of c] by simp
  qed
qed

section \<open>Properties\<close>

definition demo_leaves :: "Leaf list" where
  "demo_leaves = [Leaf (replicate 32 1), Leaf (replicate 32 2), Leaf (replicate 32 3)]"

lemma demo_build: "\<exists>t. build c demo_leaves = Inr t"
  by (simp add: build_Inr demo_leaves_def)

text \<open>
  Inclusion proofs are complete: for every leaf of a built tree a proof is produced, and it
  verifies against the tree's root under the leaf's index and the tree's leaf count.
\<close>

theorem merkle_proof_complete:
  assumes "ct_eq_sound c" and "build c leaves = Inr t" and "unat index < length leaves"
  shows "\<exists>p. merkle_proof t index = Inr p \<and>
     verify_proof c (root c t) index (leaf_count t) (leaves ! unat index) p"
proof -
  let ?xs = "map leaf_digest leaves"
  note tree = built_tree [OF assms(2)]
  have len: "length leaves < 4294967296" using assms(2) by (simp add: build_Inr)
  obtain p where p: "proof_path (build_levels c ?xs) (unat index) = Inr p"
    and v: "verify_path c p (length ?xs) (unat index) (?xs ! unat index) 0 = Some (apex_of c ?xs, length p)"
  proof -
    obtain p where "proof_path (build_levels c ?xs) (unat index) = Inr p"
      "\<forall>pre. length pre + length ?xs < usize_limit \<longrightarrow>
        verify_path c (pre @ p) (length ?xs) (unat index) (?xs ! unat index) (length pre) =
          Some (apex_of c ?xs, length (pre @ p))"
      using proof_path_verifies [of "unat index" ?xs c] assms(3) len by auto
    with len show thesis by (intro that [of p]) (auto dest: spec [of _ "[]"])
  qed
  have "\<not> index \<ge> leaf_count t" "leaf_count t \<noteq> 0"
    using tree(1) assms(3) by (auto simp: word_le_nat_alt)
  moreover have "digest_eq_ct c (root_of c (leaf_count t) (apex_of c ?xs)) (root c t)"
    using assms(1) by (simp add: digest_eq_ct_def ct_eq_sound_def root_def tree(2))
  ultimately show ?thesis
    using p v tree assms(3) by (intro exI [of _ p]) (simp add: merkle_proof_def verify_proof_def)
qed

theorem merkle_proof_complete_witness:
  "\<exists>t p. build demo_crates demo_leaves = Inr t \<and> merkle_proof t 2 = Inr p \<and>
     verify_proof demo_crates (root demo_crates t) 2 (leaf_count t) (Leaf (replicate 32 3)) p"
proof -
  obtain t where t: "build demo_crates demo_leaves = Inr t" using demo_build by blast
  have "unat (2 :: u32) < length demo_leaves" "demo_leaves ! unat (2 :: u32) = Leaf (replicate 32 3)"
    by (simp_all add: demo_leaves_def)
  with merkle_proof_complete [OF demo_crates_laws(1) t, of 2] t show ?thesis by auto
qed

lemma inclusion_sound:
  assumes "ct_eq_sound c" and "digests_32 c" and "build c leaves = Inr t"
    and "verify_proof c (root c t) index count leaf p"
    and "\<forall>l \<in> set leaves. length (leaf_digest l) = 32" and "length (leaf_digest leaf) = 32"
    and "\<forall>s \<in> set p. length s = 32"
  shows "(count = leaf_count t \<and> unat index < length leaves \<and> leaf = leaves ! unat index) \<or>
     (\<exists>a u. verify_path c p (unat count) (unat index) (leaf_digest leaf) 0 = Some (a, u) \<and>
        collision c (root_message (leaf_count t) (apex t) # tree_messages c (map leaf_digest leaves))
          (root_message count a # path_messages c p (unat count) (unat index) (leaf_digest leaf) 0))"
proof -
  let ?xs = "map leaf_digest leaves"
  note tree = built_tree [OF assms(3)]
  have len: "length leaves < 4294967296" using assms(3) by (simp add: build_Inr)
  obtain a where a: "verify_path c p (unat count) (unat index) (leaf_digest leaf) 0 = Some (a, length p)"
    and eq: "digest_eq_ct c (root_of c count a) (root c t)" and lt: "\<not> index \<ge> count"
    using assms(4) by (auto simp: verify_proof_def split: if_splits option.splits)
  let ?m = "root_message (leaf_count t) (apex t)" and ?n = "root_message count a"
  have h: "blake3_hash c ?n = blake3_hash c ?m"
    using eq assms(1,2) by (simp add: digest_eq_ct_def ct_eq_sound_def root_def root_of_message digests_32_def)
  show ?thesis
  proof (cases "?n = ?m")
    case False
    then have "collision c (?m # tree_messages c ?xs) (?n # path_messages c p (unat count) (unat index) (leaf_digest leaf) 0)"
      using h unfolding collision_def by (intro bexI [of _ ?m] bexI [of _ ?n]) auto
    then show ?thesis using a by blast
  next
    case True
    then have cnt: "count = leaf_count t" and ap: "a = apex_of c ?xs" by (simp_all add: root_message_eq tree(2))
    then have i: "unat index < length leaves" using lt tree(1) by (simp add: word_le_nat_alt)
    have "leaf_digest leaf = ?xs ! unat index \<or>
        collision c (tree_messages c ?xs) (path_messages c p (length ?xs) (unat index) (leaf_digest leaf) 0)"
      using a cnt ap tree(1) i len assms(2,5,6,7) by (intro verify_path_sound) auto
    then show ?thesis
    proof
      assume "leaf_digest leaf = ?xs ! unat index"
      then have "leaf = leaves ! unat index" using i by (simp add: Leaf.expand)
      then show ?thesis using cnt i by blast
    next
      assume "collision c (tree_messages c ?xs) (path_messages c p (length ?xs) (unat index) (leaf_digest leaf) 0)"
      then have "collision c (?m # tree_messages c ?xs) (?n # path_messages c p (unat count) (unat index) (leaf_digest leaf) 0)"
        using cnt tree(1) by (auto intro: collision_mono)
      then show ?thesis using a by blast
    qed
  qed
qed

text \<open>
  C9.  Inclusion proofs are sound without any assumption on the hash function: if a proof for some
  leaf, index and leaf count verifies against the root of a built tree, then either the count is
  that of the tree and the leaf is the one at that index, or two different messages, one hashed
  while building the tree and one hashed while verifying the proof, have the same BLAKE3 digest.
  In particular a proof cannot be moved to another index or another count.
\<close>

theorem merkle_proof_sound:
  assumes "ct_eq_sound c" and "digests_32 c" and "build c leaves = Inr t"
    and "verify_proof c (root c t) index count leaf p"
    and "\<forall>l \<in> set leaves. length (leaf_digest l) = 32" and "length (leaf_digest leaf) = 32"
    and "\<forall>s \<in> set p. length s = 32"
  shows "(count = leaf_count t \<and> unat index < length leaves \<and> leaf = leaves ! unat index) \<or>
     (\<exists>a u. verify_path c p (unat count) (unat index) (leaf_digest leaf) 0 = Some (a, u) \<and>
        collision c (root_message (leaf_count t) (apex t) # tree_messages c (map leaf_digest leaves))
          (root_message count a # path_messages c p (unat count) (unat index) (leaf_digest leaf) 0))"
  using assms by (rule inclusion_sound)

theorem merkle_proof_sound_witness:
  "let leaf = Leaf (replicate 32 7); t = \<lparr>levels = [[replicate 32 7]]\<rparr>
   in build demo_crates [leaf] = Inr t \<and> verify_proof demo_crates (root demo_crates t) 0 1 leaf [] \<and>
     (((1 :: u32) = leaf_count t \<and> unat (0 :: u32) < length [leaf] \<and> leaf = [leaf] ! unat (0 :: u32)) \<or>
     (\<exists>a u. verify_path demo_crates [] (unat (1 :: u32)) (unat (0 :: u32)) (leaf_digest leaf) 0 = Some (a, u) \<and>
        collision demo_crates (root_message (leaf_count t) (apex t) # tree_messages demo_crates (map leaf_digest [leaf]))
          (root_message 1 a # path_messages demo_crates [] (unat (1 :: u32)) (unat (0 :: u32)) (leaf_digest leaf) 0)))"
proof -
  let ?leaf = "Leaf (replicate 32 7)" and ?t = "\<lparr>levels = [[replicate 32 7]]\<rparr>"
  have b: "build demo_crates [?leaf] = Inr ?t" by (simp add: build_Inr level_steps)
  have v: "verify_proof demo_crates (root demo_crates ?t) 0 1 ?leaf []"
    by (simp add: verify_proof_def verify_path_steps digest_eq_ct_def root_def leaf_count_def apex_def u32_of_usize_def)
      (simp add: demo_crates_def)
  show ?thesis
    unfolding Let_def
    using merkle_proof_sound [OF demo_crates_laws(1,3) b v] b v by simp
qed

text \<open>
  C35.  Updating a leaf in place is rebuilding the tree: the new tree and the returned root are those
  of a tree built from the changed leaves; an index out of range leaves the tree as it was and
  is an error.
\<close>

theorem update_leaf_is_rebuild:
  assumes "build c leaves = Inr t"
  shows "(unat index < length leaves \<longrightarrow>
       (\<exists>t'. build c (leaves[unat index := leaf]) = Inr t' \<and> update_leaf c t index leaf = (t', Inr (root c t')))) \<and>
     (unat index \<ge> length leaves \<longrightarrow> update_leaf c t index leaf = (t, Inl IndexOutOfRange))"
proof -
  have "leaf_count t \<le> index" if "unat index \<ge> length leaves"
    using that built_tree(1) [OF assms] by (simp add: word_le_nat_alt)
  then show ?thesis
    using update_leaf_rebuilds [OF assms] by (auto simp: update_leaf_def)
qed

theorem update_leaf_is_rebuild_witness:
  "\<exists>t t'. build demo_crates demo_leaves = Inr t \<and>
     build demo_crates [Leaf (replicate 32 1), Leaf (replicate 32 9), Leaf (replicate 32 3)] = Inr t' \<and>
     update_leaf demo_crates t 1 (Leaf (replicate 32 9)) = (t', Inr (root demo_crates t'))"
proof -
  obtain t where t: "build demo_crates demo_leaves = Inr t" using demo_build by blast
  have "unat (1 :: u32) < length demo_leaves"
    "demo_leaves[unat (1 :: u32) := Leaf (replicate 32 9)] = [Leaf (replicate 32 1), Leaf (replicate 32 9), Leaf (replicate 32 3)]"
    by (simp_all add: demo_leaves_def)
  with update_leaf_is_rebuild [OF t, of 1 "Leaf (replicate 32 9)"] t show ?thesis by auto
qed

text \<open>
  The level-by-level tree and the recursive tree hash, which the consistency proofs use, agree:
  the apex of a built tree is the recursive hash of its leaves, split at the largest power of
  two below their number.
\<close>

theorem apex_is_recursive_hash:
  assumes "build c leaves = Inr t"
  shows "mth c (map leaf_digest leaves) = Some (apex t) \<and>
     (\<forall>n. 1 < n \<and> n < usize_limit \<longrightarrow> (\<exists>e. split_point n = 2 ^ e \<and> 2 ^ e < n \<and> n \<le> 2 * 2 ^ e))"
  using mth_apex [of "map leaf_digest leaves" c] built_tree(2) [OF assms] split_point_power assms
  by (auto simp: build_Inr)

theorem apex_is_recursive_hash_witness:
  "\<exists>t. build demo_crates demo_leaves = Inr t \<and> mth demo_crates (map leaf_digest demo_leaves) = Some (apex t)"
  using demo_build apex_is_recursive_hash by blast

end
