(* ===== verification/OC_Document.thy ===== *)
theory OC_Document
  imports OC_Tlv OC_Crypto
begin

text \<open>
  What the documents of \<^verbatim>\<open>oc-protocol\<close> share: the rule for unknown fields and the record of
  skipped ones (\<^verbatim>\<open>oc-protocol/src/unknown.rs\<close>), the small value parsers that every module repeats,
  length-prefixed streams, and the envelope of a signed document, whose signature is checked
  over the raw body before the body is parsed.

  The locales state what the documents promise.  \<open>field_store\<close> is a loop that stores every
  known field it accepts without loss; \<open>field_decoder\<close> adds the rule for the others: whatever it
  accepts is, up to unknown optional fields, the encoding of what it stored, and for a
  \<open>strict_decoder\<close>, which knows no others, it is that encoding.  \<open>signed_document\<close> is an envelope over a codec: what
  it accepts was signed, bit for bit, under the label of its kind; \<open>signed_record\<close> is the same for
  records that keep their signature.
\<close>

section \<open>Unknown fields\<close>

definition refuse_if_critical :: "u16 \<Rightarrow> FormatError + unit" where
  "refuse_if_critical tag =
     (case unknown_tag_action tag of
        Refuse \<Rightarrow> Inl (UnknownCriticalField tag)
      | Ignore \<Rightarrow> Inr ())"

record Skipped =
  sk_spans :: "(nat \<times> nat) list"

definition skipped_default :: Skipped where
  "skipped_default = \<lparr>sk_spans = []\<rparr>"

definition skipped_see :: "Field \<Rightarrow> Skipped \<Rightarrow> FormatError + Skipped" where
  "skipped_see field s =
     bindR (refuse_if_critical (fld_tag field)) (\<lambda>_.
     bindR (ok_or OffsetOverflow
       (if FIELD_PREFIX_LEN \<le> fld_start field then Some (fld_start field - FIELD_PREFIX_LEN) else None)) (\<lambda>start.
     Inr (s\<lparr>sk_spans := sk_spans s @ [(start, fld_end field)]\<rparr>)))"

text \<open>One kept piece per span, then the tail; a range outside the body contributes nothing.\<close>

fun strip_from :: "bytes \<Rightarrow> nat \<Rightarrow> (nat \<times> nat) list \<Rightarrow> bytes" where
  "strip_from body start [] = (case get_range body start (length body) of Some tail \<Rightarrow> tail | None \<Rightarrow> [])"
| "strip_from body start (span # spans) =
     (case get_range body start (fst span) of Some keep \<Rightarrow> keep | None \<Rightarrow> []) @
     strip_from body (snd span) spans"

definition skipped_strip :: "Skipped \<Rightarrow> bytes \<Rightarrow> bytes" where
  "skipped_strip s body =
     (if sk_spans s = [] then body else strip_from body 0 (sk_spans s))"

section \<open>Values\<close>

definition exact_len :: "nat \<Rightarrow> u16 \<Rightarrow> bytes \<Rightarrow> FormatError + bytes" where
  "exact_len n tag value =
     (if length value = n then Inr value else Inl (BadFieldLength tag (length value)))"

definition one_byte :: "u16 \<Rightarrow> bytes \<Rightarrow> FormatError + byte" where
  "one_byte tag value =
     (case value of [b] \<Rightarrow> Inr b | _ \<Rightarrow> Inl (BadFieldLength tag (length value)))"

definition u16_le :: "u16 \<Rightarrow> bytes \<Rightarrow> FormatError + u16" where
  "u16_le tag value = map_sum id of_le (exact_len 2 tag value)"

definition u32_le :: "u16 \<Rightarrow> bytes \<Rightarrow> FormatError + u32" where
  "u32_le tag value = map_sum id of_le (exact_len 4 tag value)"

definition u64_le :: "u16 \<Rightarrow> bytes \<Rightarrow> FormatError + u64" where
  "u64_le tag value = map_sum id of_le (exact_len 8 tag value)"

text \<open>A byte that must be 0 or 1.\<close>

definition flag_byte :: "u16 \<Rightarrow> byte \<Rightarrow> FormatError + bool" where
  "flag_byte tag b =
     (if b = 0 then Inr False else if b = 1 then Inr True else Inl (BadFieldLength tag 1))"

definition flag_value :: "u16 \<Rightarrow> bytes \<Rightarrow> FormatError + bool" where
  "flag_value tag value =
     (if value = [0] then Inr False else if value = [1] then Inr True
      else Inl (BadFieldLength tag (length value)))"

abbreviation (input) bool_byte :: "bool \<Rightarrow> byte" where
  "bool_byte b \<equiv> (if b then 1 else 0)"

lemma value_parsers [simp]:
  "exact_len n t v = Inr x \<longleftrightarrow> length v = n \<and> x = v"
  "one_byte t [b] = Inr b"
  "u16_le t (le16 w16) = Inr w16"
  "u32_le t (le32 w32) = Inr w32"
  "u64_le t (le64 w64) = Inr w64"
  "flag_byte t (bool_byte y) = Inr y"
  "flag_value t [bool_byte y] = Inr y"
  by (auto simp: exact_len_def one_byte_def u16_le_def u32_le_def u64_le_def flag_byte_def flag_value_def)

lemma value_parsers_Inr:
  "one_byte t v = Inr b \<longleftrightarrow> v = [b]"
  "u16_le t v = Inr w16 \<longleftrightarrow> v = le16 w16"
  "u32_le t v = Inr w32 \<longleftrightarrow> v = le32 w32"
  "u64_le t v = Inr w64 \<longleftrightarrow> v = le64 w64"
  "flag_byte t b = Inr y \<longleftrightarrow> b = bool_byte y"
  "flag_value t v = Inr y \<longleftrightarrow> v = [bool_byte y]"
  by (auto simp: one_byte_def u16_le_def u32_le_def u64_le_def exact_len_def flag_byte_def flag_value_def
      le_bytes_of_le16 le_bytes_of_le32 le_bytes_of_le64 split: list.splits if_splits)

lemma refuse_if_critical_Inr: "refuse_if_critical t = Inr u \<longleftrightarrow> CRIT_TAG_MAX < t"
  by (auto simp: refuse_if_critical_def unknown_tag_action_def)

lemma refuse_if_critical_optional: "CRIT_TAG_MAX < t \<Longrightarrow> refuse_if_critical t = Inr ()"
  by (simp add: refuse_if_critical_Inr)

text \<open>Converting every element and collecting the results, up to the first error.\<close>

primrec mapR :: "('a \<Rightarrow> 'e + 'b) \<Rightarrow> 'a list \<Rightarrow> 'e + 'b list" where
  "mapR f [] = Inr []"
| "mapR f (x # xs) = bindR (f x) (\<lambda>y. bindR (mapR f xs) (\<lambda>ys. Inr (y # ys)))"

lemma mapR_Inr: "mapR f xs = Inr ys \<longleftrightarrow> list_all2 (\<lambda>x y. f x = Inr y) xs ys"
  by (induction xs arbitrary: ys) (auto simp: bindR_eq_Inr list_all2_Cons1)

lemma mapR_inverse:
  assumes "mapR f xs = Inr ys" and "\<And>x y. x \<in> set xs \<Longrightarrow> f x = Inr y \<Longrightarrow> g y = Inr x"
  shows "mapR g ys = Inr xs"
  using assms unfolding mapR_Inr by (induction rule: list_all2_induct) auto

lemma mapR_length: "mapR f xs = Inr ys \<Longrightarrow> length ys = length xs"
  by (simp add: mapR_Inr list_all2_lengthD)

section \<open>Loops over tags and values\<close>

text \<open>Most decoders look at a field's tag and value only.\<close>

definition tlv_values :: "(u16 \<Rightarrow> bytes \<Rightarrow> 's \<Rightarrow> FormatError + 's) \<Rightarrow> bytes \<Rightarrow> 's \<Rightarrow> FormatError + 's" where
  "tlv_values step bs s = tlv_loop (\<lambda>f. step (fld_tag f) (fld_value f)) (reader_new bs) s"

definition run_fields :: "(u16 \<Rightarrow> bytes \<Rightarrow> 's \<Rightarrow> FormatError + 's) \<Rightarrow> (u16 \<times> bytes) list \<Rightarrow> 's \<Rightarrow> FormatError + 's" where
  "run_fields step fs s = foldR (\<lambda>tv. step (fst tv) (snd tv)) fs s"

lemma run_fields_simps [simp]:
  "run_fields step [] s = Inr s"
  "run_fields step ((t, v) # fs) s = bindR (step t v s) (run_fields step fs)"
  by (simp_all add: run_fields_def fun_eq_iff [symmetric] bindR_def split: sum.split)

lemma run_fields_append: "run_fields step (fs @ gs) s = bindR (run_fields step fs s) (run_fields step gs)"
  unfolding run_fields_def foldR_append by (rule arg_cong) (simp add: fun_eq_iff run_fields_def)

lemma foldR_fields_at:
  "foldR (\<lambda>f. step (fld_tag f) (fld_value f)) (fields_at n fs) s = run_fields step fs s"
proof (induction n fs arbitrary: s rule: fields_at.induct)
  case (2 n t v fs)
  then have "foldR (\<lambda>f. step (fld_tag f) (fld_value f)) (fields_at (n + 6 + length v) fs) = run_fields step fs"
    by (simp add: fun_eq_iff)
  then show ?case by simp
qed simp

lemma tlv_values_enc:
  assumes "ascending None fs" and "length (enc_fields fs) < usize_limit"
  shows "tlv_values step (enc_fields fs) s = run_fields step fs s"
  unfolding tlv_values_def tlv_loop_enc [OF assms] by (rule foldR_fields_at)

lemma tlv_values_Inr:
  assumes "tlv_values step bs s = Inr s'"
  shows "\<exists>fs. bs = enc_fields fs \<and> ascending None fs \<and> run_fields step fs s = Inr s'"
  using tlv_loop_Inr [OF assms [unfolded tlv_values_def]] by (auto simp: foldR_fields_at)

text \<open>
  Tags are 16-bit and ascend, lengths are 32-bit: an ascending list of fields always fits the
  address space, so writing it can fail for no other reason than its order or its lengths.
\<close>

lemma ascending_length: "ascending p fs \<Longrightarrow> length fs \<le> 65536"
proof -
  assume "ascending p fs"
  then have "distinct (map fst fs)" using ascending_distinct by blast
  then have "length fs = card (set (map fst fs))" by (metis distinct_card length_map)
  also have "\<dots> \<le> card (UNIV :: u16 set)" by (intro card_mono) simp_all
  finally show ?thesis by (simp add: card_word)
qed

lemma enc_fields_fit: "ascending p fs \<Longrightarrow> length (enc_fields fs) < usize_limit"
proof -
  assume a: "ascending p fs"
  have "length (enc_fields fs) \<le> length fs * 4294967301" using a
    by (induction p fs rule: ascending.induct) simp_all
  also have "\<dots> \<le> 65536 * 4294967301" using ascending_length [OF a] by (intro mult_right_mono) simp_all
  finally show ?thesis by simp
qed

definition write_fields :: "(u16 \<times> bytes) list \<Rightarrow> FormatError + bytes" where
  "write_fields fs = bindR (put_all fs writer_new) (\<lambda>w. Inr (finish w))"

lemma write_fields_eq_Inr: "write_fields fs = Inr bs \<longleftrightarrow> ascending None fs \<and> bs = enc_fields fs"
  using put_all_new [of fs] enc_fields_fit [of None fs]
  by (auto simp: write_fields_def bindR_eq_Inr dest: put_all_newD)

lemma write_fields_ok [simp]: "ascending None fs \<Longrightarrow> write_fields fs = Inr (enc_fields fs)"
  by (simp add: write_fields_eq_Inr)

lemma tlv_values_read [simp]:
  "ascending None fs \<Longrightarrow> tlv_values step (enc_fields fs) s = run_fields step fs s"
  by (intro tlv_values_enc) (simp_all add: enc_fields_fit)

text \<open>An optional field is one step that stores the optional value.\<close>

lemma run_opt_field:
  assumes "\<And>x. v = Some x \<Longrightarrow> step t (enc x) s = Inr (upd (Some x) s)" and "upd None s = s"
  shows "run_fields step (opt_field t (map_option enc v)) s = Inr (upd v s)"
  using assms by (cases v) simp_all

lemma run_fields_invariant:
  assumes "run_fields step fs s = Inr s'" and "P s"
    and "\<And>t v s s'. P s \<Longrightarrow> step t v s = Inr s' \<Longrightarrow> P s'"
  shows "P s'"
  using foldR_invariant [OF assms(1) [unfolded run_fields_def], of P] assms(2,3) by blast

lemma tlv_values_invariant:
  assumes "tlv_values step bs s = Inr s'" and "P s"
    and "\<And>t v s s'. P s \<Longrightarrow> step t v s = Inr s' \<Longrightarrow> P s'"
  shows "P s'"
  using tlv_values_Inr [OF assms(1)] run_fields_invariant [of step _ s s' P] assms(2,3) by blast

subsection \<open>Lists of encoded elements\<close>

lemma foldR_write_indexed:
  assumes "foldR (\<lambda>(index, x) w. bindR (ok_or OffsetOverflow (u16_of_usize index)) (\<lambda>tag.
      bindR (enc x) (\<lambda>body. put tag body w))) (enumerate 0 xs) writer_new = Inr w"
  shows "\<exists>items. list_all2 (\<lambda>x b. enc x = Inr b) xs items \<and> ascending None (indexed 0 items) \<and>
     finish w = enc_fields (indexed 0 items)"
proof -
  let ?F = "\<lambda>(index, x) w. bindR (ok_or OffsetOverflow (u16_of_usize index)) (\<lambda>tag.
    bindR (enc x) (\<lambda>body. put tag body w))"
  have step: "\<And>i x v v'. ?F (i, x) v = Inr v' \<Longrightarrow> \<exists>b. enc x = Inr b \<and> put (word_of_nat i) b v = Inr v'"
    by (auto simp: bindR_eq_Inr ok_or_eq_Inr u16_of_usize_def split: if_splits)
  from foldR_enumerate_put [where G = "\<lambda>x b. enc x = Inr b", OF assms step] obtain items where
    items: "list_all2 (\<lambda>x b. enc x = Inr b) xs items" "put_all (indexed 0 items) writer_new = Inr w" by blast
  then have "write_fields (indexed 0 items) = Inr (finish w)" by (simp add: write_fields_def)
  with items(1) show ?thesis by (auto simp: write_fields_eq_Inr)
qed

lemma run_collect:
  assumes "list_all2 (\<lambda>x b. dec b = Inr x) xs items" and "length out + length xs \<le> limit"
    and "\<And>t b out x. dec b = Inr x \<Longrightarrow> length out < limit \<Longrightarrow> step t b out = Inr (out @ [x])"
  shows "run_fields step (indexed n items) out = Inr (out @ xs)"
  using assms(1,2) by (induction arbitrary: n out rule: list_all2_induct) (auto simp: assms(3))

subsection \<open>Decoders that store what they read\<close>

text \<open>The fields with tags from a given ascending list.\<close>

lemma ascending_filter: "ascending p fs \<Longrightarrow> ascending p (filter P fs)"
proof (induction fs arbitrary: p)
  case (Cons tv fs)
  obtain t v where tv: "tv = (t, v)" by (cases tv)
  have weaken: "ascending (Some t) gs \<Longrightarrow> (case p of None \<Rightarrow> True | Some q \<Rightarrow> q < t) \<Longrightarrow> ascending p gs" for gs
    by (cases gs) (auto split: option.splits)
  show ?case using Cons.prems Cons.IH [of "Some t"] weaken by (auto simp: tv)
qed simp

lemma ascending_lower: "ascending (Some p) fs \<Longrightarrow> (t, v) \<in> set fs \<Longrightarrow> p < t"
  using ascending_distinct by blast

lemma ascending_map_of:
  assumes "ascending p fs"
  shows "map_of fs t = Some v \<longleftrightarrow> (t, v) \<in> set fs"
  using assms ascending_distinct by (simp add: map_of_eq_Some_iff)

lemma opt_fields_of_ascending:
  assumes "ascending p fs" and "sorted_wrt (<) ts"
  shows "concat (map (\<lambda>t. opt_field t (map_of fs t)) ts) = filter (\<lambda>tv. fst tv \<in> set ts) fs"
  using assms
proof (induction ts arbitrary: p fs)
  case (Cons t ts)
  have d: "distinct (map fst fs)" using Cons.prems ascending_distinct by blast
  have above: "\<And>u. u \<in> set ts \<Longrightarrow> t < u" using Cons.prems by simp
  have rest: "concat (map (\<lambda>t. opt_field t (map_of fs t)) ts) = filter (\<lambda>tv. fst tv \<in> set ts) fs"
    using Cons by simp
  show ?case
  proof (cases "map_of fs t")
    case None
    then have "t \<notin> fst ` set fs" by (simp add: map_of_eq_None_iff)
    then have "filter (\<lambda>tv. fst tv \<in> set (t # ts)) fs = filter (\<lambda>tv. fst tv \<in> set ts) fs"
      by (intro filter_cong) auto
    with None rest show ?thesis by simp
  next
    case (Some v)
    then have "(t, v) \<in> set fs" using map_of_SomeD by metis
    then obtain xs ys where fs: "fs = xs @ (t, v) # ys" by (meson split_list)
    have asc: "ascending p (xs @ (t, v) # ys)" using Cons.prems fs by simp
    have "\<forall>tv \<in> set xs. fst tv < t" using asc
    proof (induction xs arbitrary: p)
      case (Cons a xs)
      then show ?case using ascending_lower [of "fst a" "xs @ (t, v) # ys" t v] by (cases a) auto
    qed simp
    then have "filter (\<lambda>tv. fst tv \<in> set (t # ts)) xs = []" "filter (\<lambda>tv. fst tv \<in> set ts) xs = []"
      using above by (fastforce simp: filter_empty_conv)+
    moreover have "t \<notin> set ts" using above by auto
    moreover have "filter (\<lambda>tv. fst tv \<in> set (t # ts)) ys = filter (\<lambda>tv. fst tv \<in> set ts) ys"
      using d by (intro filter_cong) (auto simp: fs)
    ultimately show ?thesis using rest Some by (simp add: fs)
  qed
qed simp

text \<open>
  A body carries a list of fields when these are its fields with known tags, in its order, and
  every other field is one that a reader may skip.
\<close>

definition carries :: "u16 list \<Rightarrow> (u16 \<times> bytes) list \<Rightarrow> bytes \<Rightarrow> bool" where
  "carries known fs0 body \<longleftrightarrow>
     (\<exists>fs. body = enc_fields fs \<and> ascending None fs \<and> filter (\<lambda>tv. fst tv \<in> set known) fs = fs0 \<and>
        (\<forall>(t, v) \<in> set fs. t \<in> set known \<or> CRIT_TAG_MAX < t))"

lemma carries_self: "ascending None fs \<Longrightarrow> \<forall>(t, v) \<in> set fs. t \<in> set known \<Longrightarrow> carries known fs (enc_fields fs)"
  unfolding carries_def by (intro exI [of _ fs]) (auto simp: filter_id_conv)

text \<open>
  \<open>get t s\<close> is the encoded value the decoder state \<open>s\<close> holds for tag \<open>t\<close>.  A step on a known tag
  stores exactly the bytes it was given and touches nothing else; a step on any other tag changes
  nothing that is stored for the known ones.
\<close>

locale field_store =
  fixes step :: "u16 \<Rightarrow> bytes \<Rightarrow> 's \<Rightarrow> FormatError + 's"
    and start :: 's
    and known :: "u16 list"
    and get :: "u16 \<Rightarrow> 's \<Rightarrow> bytes option"
  assumes known_sorted: "sorted_wrt (<) known"
    and start_empty: "get u start = None"
    and step_stores: "step t v s = Inr s' \<Longrightarrow> get u s' = (if u = t \<and> t \<in> set known then Some v else get u s)"
begin

lemma run_get:
  assumes "run_fields step fs s = Inr s'" and "distinct (map fst fs)" and "u \<in> set known"
  shows "get u s' = (case map_of fs u of Some v \<Rightarrow> Some v | None \<Rightarrow> get u s)"
  using assms
proof (induction fs arbitrary: s)
  case (Cons tv fs)
  obtain t v where tv: "tv = (t, v)" by (cases tv)
  from Cons.prems(1) obtain s1 where s1: "step t v s = Inr s1" "run_fields step fs s1 = Inr s'"
    by (auto simp: tv bindR_eq_Inr)
  have "u = t \<Longrightarrow> map_of fs u = None" using Cons.prems(2) by (simp add: tv map_of_eq_None_iff)
  then show ?case
    using Cons.IH [OF s1(2) _ Cons.prems(3)] Cons.prems(2,3) step_stores [OF s1(1), of u]
    by (auto simp: tv split: option.splits)
qed simp

text \<open>Whatever is accepted: its known fields are those the final state holds, in order.\<close>

lemma accepted_known:
  assumes "tlv_values step bs start = Inr s"
  shows "\<exists>fs. bs = enc_fields fs \<and> ascending None fs \<and> run_fields step fs start = Inr s \<and>
     filter (\<lambda>tv. fst tv \<in> set known) fs = concat (map (\<lambda>t. opt_field t (get t s)) known) \<and>
     (\<forall>t \<in> set known. map_of fs t = get t s)"
proof -
  obtain fs where fs: "bs = enc_fields fs" "ascending None fs" "run_fields step fs start = Inr s"
    using tlv_values_Inr [OF assms] by blast
  have g: "get t s = map_of fs t" if "t \<in> set known" for t
    using run_get [OF fs(3) _ that] start_empty [of t] ascending_distinct [OF fs(2)]
    by (simp split: option.splits)
  then have "concat (map (\<lambda>t. opt_field t (get t s)) known) = concat (map (\<lambda>t. opt_field t (map_of fs t)) known)"
    by (intro arg_cong [of _ _ concat] map_cong) simp_all
  then show ?thesis
    using fs g opt_fields_of_ascending [OF fs(2) known_sorted] by auto
qed

end

text \<open>A strict decoder has no other tags: it accepts one encoding of what it stores.\<close>

locale strict_decoder = field_store +
  assumes step_strict: "step t v s = Inr s' \<Longrightarrow> t \<in> set known"
begin

lemma run_strict:
  "run_fields step fs s = Inr s' \<Longrightarrow> filter (\<lambda>tv. fst tv \<in> set known) fs = fs"
proof (induction fs arbitrary: s)
  case (Cons tv fs)
  obtain t v where tv: "tv = (t, v)" by (cases tv)
  from Cons.prems obtain s1 where "step t v s = Inr s1" "run_fields step fs s1 = Inr s'"
    by (auto simp: tv bindR_eq_Inr)
  then show ?case using Cons.IH [of s1] step_strict [of t v s s1] by (simp add: tv)
qed simp

lemma accepts_strictly:
  assumes "concat (map (\<lambda>t. opt_field t (get t s)) known) = fs0"
    and "run_fields step fs0 start = Inr s \<longleftrightarrow> P" and "P \<Longrightarrow> ascending None fs0"
  shows "tlv_values step bs start = Inr s \<longleftrightarrow> P \<and> bs = enc_fields fs0"
proof
  assume "tlv_values step bs start = Inr s"
  from accepted_known [OF this] obtain fs where fs: "bs = enc_fields fs"
    "run_fields step fs start = Inr s" "filter (\<lambda>tv. fst tv \<in> set known) fs = fs0"
    using assms(1) by auto
  then show "P \<and> bs = enc_fields fs0" using run_strict [OF fs(2)] assms(2) by auto
qed (use assms(2,3) in simp)

end

text \<open>
  The usual decoder skips unknown optional tags.  A few tags, \<open>lossy\<close>, are read into values that
  several byte strings stand for (an embedded policy); any other tag is refused when critical.
\<close>

locale field_decoder = field_store step start known get
  for step :: "u16 \<Rightarrow> bytes \<Rightarrow> 's \<Rightarrow> FormatError + 's"
    and start :: 's
    and known :: "u16 list"
    and lossy :: "u16 list"
    and get :: "u16 \<Rightarrow> 's \<Rightarrow> bytes option" +
  assumes step_tags: "step t v s = Inr s' \<Longrightarrow> t \<in> set known \<or> t \<in> set lossy \<or> CRIT_TAG_MAX < t"
    and step_optional: "t \<notin> set known \<Longrightarrow> t \<notin> set lossy \<Longrightarrow> CRIT_TAG_MAX < t \<Longrightarrow> step t v s = Inr s"
begin

text \<open>Unknown optional fields do not matter.\<close>

lemma run_strip:
  assumes "\<forall>(t, v) \<in> set fs. t \<in> set known \<or> t \<in> set lossy \<or> CRIT_TAG_MAX < t"
  shows "run_fields step fs s = run_fields step (filter (\<lambda>tv. fst tv \<in> set known \<or> fst tv \<in> set lossy) fs) s"
  using assms
proof (induction fs arbitrary: s)
  case (Cons tv fs)
  obtain t v where tv: "tv = (t, v)" by (cases tv)
  have "run_fields step fs = run_fields step (filter (\<lambda>tv. fst tv \<in> set known \<or> fst tv \<in> set lossy) fs)"
    using Cons by (intro ext) simp
  then show ?case using Cons.prems step_optional [of t v s] by (auto simp: tv)
qed simp

lemma run_tags:
  assumes "run_fields step fs s = Inr s'" and "(t, v) \<in> set fs"
  shows "t \<in> set known \<or> t \<in> set lossy \<or> CRIT_TAG_MAX < t"
  using assms
proof (induction fs arbitrary: s)
  case (Cons tv fs)
  obtain t' v' where tv: "tv = (t', v')" by (cases tv)
  from Cons.prems(1) obtain s1 where "step t' v' s = Inr s1" "run_fields step fs s1 = Inr s'"
    by (auto simp: tv bindR_eq_Inr)
  then show ?case using Cons.IH [of s1] Cons.prems(2) step_tags [of t' v' s s1] by (auto simp: tv)
qed simp

lemma accepted_fields:
  assumes "tlv_values step bs start = Inr s"
  shows "\<exists>fs. bs = enc_fields fs \<and> ascending None fs \<and> run_fields step fs start = Inr s \<and>
     filter (\<lambda>tv. fst tv \<in> set known) fs = concat (map (\<lambda>t. opt_field t (get t s)) known) \<and>
     (\<forall>t \<in> set known. map_of fs t = get t s) \<and>
     (\<forall>(t, v) \<in> set fs. t \<in> set known \<or> t \<in> set lossy \<or> CRIT_TAG_MAX < t)"
  using accepted_known [OF assms] run_tags by fast

lemma accepts_exactly:
  assumes "lossy = []" and "concat (map (\<lambda>t. opt_field t (get t s)) known) = fs0"
    and "run_fields step fs0 start = Inr s \<longleftrightarrow> P"
  shows "tlv_values step bs start = Inr s \<longleftrightarrow> P \<and> carries known fs0 bs"
proof
  assume "tlv_values step bs start = Inr s"
  from accepted_fields [OF this] obtain fs where fs: "bs = enc_fields fs" "ascending None fs"
    "run_fields step fs start = Inr s" "filter (\<lambda>tv. fst tv \<in> set known) fs = fs0"
    "\<forall>(t, v) \<in> set fs. t \<in> set known \<or> CRIT_TAG_MAX < t"
    using assms(1,2) by auto
  moreover have "run_fields step fs0 start = Inr s" using run_strip [of fs start] fs(3-5) assms(1) by auto
  ultimately show "P \<and> carries known fs0 bs" using assms(3) unfolding carries_def by blast
next
  assume "P \<and> carries known fs0 bs"
  then obtain fs where fs: P "bs = enc_fields fs" "ascending None fs" "filter (\<lambda>tv. fst tv \<in> set known) fs = fs0"
    "\<forall>(t, v) \<in> set fs. t \<in> set known \<or> CRIT_TAG_MAX < t"
    unfolding carries_def by blast
  then show "tlv_values step bs start = Inr s" using run_strip [of fs start] assms(1,3) by auto
qed

end

section \<open>Streams of length-prefixed items\<close>

definition enc_stream :: "bytes list \<Rightarrow> bytes" where
  "enc_stream items = concat (map (\<lambda>item. le_bytes 4 (length item) @ item) items)"

lemma enc_stream_simps [simp]:
  "enc_stream [] = []" "enc_stream (x # xs) = le_bytes 4 (length x) @ x @ enc_stream xs"
  "enc_stream (xs @ ys) = enc_stream xs @ enc_stream ys"
  by (simp_all add: enc_stream_def)

lemma enc_stream_eq_Nil [simp]: "enc_stream xs = [] \<longleftrightarrow> xs = []"
  by (cases xs) (simp_all, metis append_is_Nil_conv length_le_bytes list.size(3) zero_neq_numeral)

lemma Nil_eq_enc_stream [simp]: "[] = enc_stream xs \<longleftrightarrow> xs = []"
  by (metis enc_stream_eq_Nil)

text \<open>
  The reader of one item: the four length bytes and what they announce.  The three loops of the
  crate that read such streams differ in their limits and errors only.
\<close>

definition next_item :: "bytes \<Rightarrow> (bytes \<times> bytes) option" where
  "next_item rest =
     (case split_at_checked rest 4 of
        None \<Rightarrow> None
      | Some (head, tail) \<Rightarrow> split_at_checked tail (le_nat head))"

lemma next_item_enc [simp]:
  "length x < 4294967296 \<Longrightarrow> next_item (le_bytes 4 (length x) @ x @ rest) = Some (x, rest)"
  by (simp add: next_item_def le_nat_le_bytes)

lemma next_itemD:
  assumes "next_item bs = Some (x, rest)"
  shows "bs = le_bytes 4 (length x) @ x @ rest" and "length x < 4294967296" and "length rest < length bs"
proof -
  from assms obtain head tail where s: "split_at_checked bs 4 = Some (head, tail)"
    "split_at_checked tail (le_nat head) = Some (x, rest)"
    by (auto simp: next_item_def split: option.splits)
  then have h: "length head = 4" "bs = head @ tail" "tail = x @ rest" "length x = le_nat head"
    by (auto simp: split_at_checked_def simp del: drop_drop split: if_splits)
  moreover have "le_bytes 4 (le_nat head) = head" using h(1) by (rule le_bytes_le_nat)
  ultimately show "bs = le_bytes 4 (length x) @ x @ rest" "length x < 4294967296" "length rest < length bs"
    using le_nat_less [of head] by simp_all
qed

text \<open>
  A loop that collects the items of a stream up to a limit: it stops at the end, takes one item at
  a time, and refuses a torn item or one too many.
\<close>

locale stream_reader =
  fixes loop :: "bytes \<Rightarrow> bytes list \<Rightarrow> 'e + bytes list"
    and limit :: nat
  assumes at_end: "loop [] out = Inr out"
    and takes: "next_item rest = Some (x, tail) \<Longrightarrow> length out < limit \<Longrightarrow> loop rest out = loop tail (out @ [x])"
    and refuses: "rest \<noteq> [] \<Longrightarrow> limit \<le> length out \<or> next_item rest = None \<Longrightarrow> loop rest out \<noteq> Inr xs"
begin

lemma reads_enc:
  "\<forall>item \<in> set items. length item < 4294967296 \<Longrightarrow> length out + length items \<le> limit \<Longrightarrow>
   loop (enc_stream items) out = Inr (out @ items)"
proof (induction items arbitrary: out)
  case (Cons x items)
  have "next_item (enc_stream (x # items)) = Some (x, enc_stream items)" using Cons.prems(1) by simp
  then have "loop (enc_stream (x # items)) out = loop (enc_stream items) (out @ [x])"
    using takes Cons.prems(2) by simp
  also have "\<dots> = Inr ((out @ [x]) @ items)" using Cons.prems by (intro Cons.IH) simp_all
  finally show ?case by simp
next
  case Nil
  show ?case using at_end by simp
qed

lemma reads_Inr:
  assumes "loop rest out = Inr xs"
  shows "\<exists>items. rest = enc_stream items \<and> (\<forall>item \<in> set items. length item < 4294967296) \<and>
     xs = out @ items \<and> (items = [] \<or> length xs \<le> limit)"
  using assms
proof (induction rest arbitrary: out rule: measure_induct_rule [of length])
  case (less rest)
  show ?case
  proof (cases "rest = []")
    case True
    with less.prems at_end show ?thesis by (intro exI [of _ "[]"]) simp
  next
    case False
    then obtain x tail where item: "next_item rest = Some (x, tail)" and room: "length out < limit"
      using refuses less.prems by (metis not_less option.exhaust surj_pair)
    note d = next_itemD [OF item]
    have "loop tail (out @ [x]) = Inr xs" using less.prems takes [OF item room] by simp
    from less.IH [OF d(3) this] obtain items where
      "tail = enc_stream items" "\<forall>item \<in> set items. length item < 4294967296" "xs = (out @ [x]) @ items"
      "items = [] \<or> length xs \<le> limit" by blast
    with d(1,2) room show ?thesis by (intro exI [of _ "x # items"]) auto
  qed
qed

lemma reads_iff:
  "loop bs [] = Inr items \<longleftrightarrow>
     bs = enc_stream items \<and> (\<forall>item \<in> set items. length item < 4294967296) \<and> length items \<le> limit"
  using reads_Inr [of bs "[]" items] reads_enc [of items "[]"] by auto

end

section \<open>Signed documents\<close>

definition SIGNATURE_LEN :: nat where "SIGNATURE_LEN = 64"

definition split_signature :: "bytes \<Rightarrow> FormatError + (bytes \<times> bytes)" where
  "split_signature bs = ok_or BadHeaderSignature (split_at_checked bs SIGNATURE_LEN)"

definition body_transcript :: "Label \<Rightarrow> bytes \<Rightarrow> Transcript" where
  "body_transcript label body = tr_field body (transcript_new label)"

definition verify_signed ::
    "Crates \<Rightarrow> (bytes \<Rightarrow> Transcript) \<Rightarrow> (bytes \<Rightarrow> FormatError + 'a) \<Rightarrow> bytes \<Rightarrow> bytes \<Rightarrow> FormatError + 'a" where
  "verify_signed c transcript decode bs key =
     bindR (split_signature bs) (\<lambda>(signature, body).
     bindR (map_err BadHeaderSignature (sign_verify c key (transcript body) signature)) (\<lambda>_.
     decode body))"

lemma split_signature_eq_Inr:
  "split_signature bs = Inr (signature, body) \<longleftrightarrow> bs = signature @ body \<and> length signature = 64"
  by (auto simp: split_signature_def SIGNATURE_LEN_def split_at_checked_def ok_or_eq_Inr split: if_splits)

lemma split_signature_append [simp]:
  "length signature = 64 \<Longrightarrow> split_signature (signature @ body) = Inr (signature, body)"
  by (simp add: split_signature_eq_Inr)

lemma sign_verify_eq_Inr:
  "sign_verify c key t s = Inr u \<longleftrightarrow> ed25519_key_ok c key \<and> ed25519_verify_strict c key (tr_buf t) s"
  by (auto simp: sign_verify_def bindR_eq_Inr ensure_eq_Inr)

text \<open>The message a body is signed under.\<close>

lemma body_transcript_buf:
  "length body < 4294967296 \<Longrightarrow> tr_buf (body_transcript label body) = label @ [0] @ le_bytes 4 (length body) @ body"
  using tr_field_bytes [of body]
  by (simp add: body_transcript_def run_op_buf [of "OpField body", simplified] transcript_new_def)

lemma body_transcript_inj:
  assumes "l \<in> set LABEL_ALL" and "m \<in> set LABEL_ALL"
    and "length a < 4294967296" and "length b < 4294967296"
    and "tr_buf (body_transcript l a) = tr_buf (body_transcript m b)"
  shows "l = m \<and> a = b"
proof -
  from assms(5) have eq: "l @ 0 # le_bytes 4 (length a) @ a = m @ 0 # le_bytes 4 (length b) @ b"
    by (simp add: body_transcript_buf assms(3,4))
  then have "prefix l m \<or> prefix m l" by (metis prefix_def prefix_same_cases)
  with assms(1,2) have "l = m" using labels_prefix_free by metis
  with eq show ?thesis by (simp add: append_eq_append_conv)
qed

definition signed_by :: "Crates \<Rightarrow> Label \<Rightarrow> bytes \<Rightarrow> bytes \<Rightarrow> bytes \<Rightarrow> bool" where
  "signed_by c label key body signature \<longleftrightarrow>
     ed25519_key_ok c key \<and> ed25519_verify_strict c key (tr_buf (body_transcript label body)) signature"

lemma verify_signed_eq_Inr:
  "verify_signed c (body_transcript label) decode bs key = Inr x \<longleftrightarrow>
     (\<exists>signature body. bs = signature @ body \<and> length signature = 64 \<and>
        signed_by c label key body signature \<and> decode body = Inr x)"
  by (auto simp: verify_signed_def signed_by_def bindR_eq_Inr split_signature_eq_Inr map_err_eq_Inr sign_verify_eq_Inr)

text \<open>Before the signature is accepted, the body has no influence on the answer.\<close>

lemma verify_signed_unsigned:
  assumes "length signature = 64" and "\<not> signed_by c label key body signature"
  shows "verify_signed c (body_transcript label) decode (signature @ body) key = Inl BadHeaderSignature"
  using assms
  by (cases "ed25519_key_ok c key") (auto simp: verify_signed_def signed_by_def sign_verify_def)

text \<open>
  The contract of a signed document: a codec for its body, a registered label, and an opening
  function that checks the signature over the raw body under that label before it decodes.
\<close>

locale signed_document = codec enc dec wf
  for enc :: "'a \<Rightarrow> FormatError + bytes" and dec :: "bytes \<Rightarrow> FormatError + 'a" and wf :: "'a \<Rightarrow> bool" +
  fixes label :: Label
    and open_doc :: "Crates \<Rightarrow> bytes \<Rightarrow> bytes \<Rightarrow> FormatError + 'a"
  assumes label_registered: "label \<in> set LABEL_ALL"
    and open_doc_eq: "open_doc c bs key = verify_signed c (body_transcript label) dec bs key"
begin

lemma accepted_iff:
  "open_doc c bs key = Inr x \<longleftrightarrow>
     (\<exists>signature body. bs = signature @ body \<and> length signature = 64 \<and>
        signed_by c label key body signature \<and> dec body = Inr x)"
  unfolding open_doc_eq by (rule verify_signed_eq_Inr)

lemma unsigned_refused:
  "length signature = 64 \<Longrightarrow> \<not> signed_by c label key body signature \<Longrightarrow>
   open_doc c (signature @ body) key = Inl BadHeaderSignature"
  unfolding open_doc_eq by (rule verify_signed_unsigned)

lemma short_refused: "length bs < 64 \<Longrightarrow> open_doc c bs key = Inl BadHeaderSignature"
  by (simp add: open_doc_eq verify_signed_def split_signature_def SIGNATURE_LEN_def split_at_checked_def)

lemma issued_opens:
  assumes "wf x" and "enc x = Inr body" and "length signature = 64" and "signed_by c label key body signature"
  shows "open_doc c (signature @ body) key = Inr x"
  using assms dec_enc accepted_iff by blast

end

text \<open>
  Several documents keep their signature in a field of the record, which the decoder of the body
  leaves blank, and check the record against the key once it is decoded.
\<close>

definition open_record ::
    "Crates \<Rightarrow> (bytes \<Rightarrow> Transcript) \<Rightarrow> (bytes \<Rightarrow> FormatError + 'a) \<Rightarrow> ('a \<Rightarrow> FormatError + unit) \<Rightarrow>
     (bytes \<Rightarrow> 'a \<Rightarrow> 'a) \<Rightarrow> bytes \<Rightarrow> bytes \<Rightarrow> FormatError + 'a" where
  "open_record c transcript decode accept set_signature bs key =
     bindR (split_signature bs) (\<lambda>(signature, body).
     bindR (map_err BadHeaderSignature (sign_verify c key (transcript body) signature)) (\<lambda>_.
     bindR (decode body) (\<lambda>x.
     bindR (accept x) (\<lambda>_.
     Inr (set_signature signature x)))))"

locale signed_record =
  fixes enc :: "Crates \<Rightarrow> 'a \<Rightarrow> FormatError + bytes"
    and dec :: "Crates \<Rightarrow> bytes \<Rightarrow> FormatError + 'a"
    and wf :: "'a \<Rightarrow> bool"
    and label :: Label
    and accept :: "Crates \<Rightarrow> bytes \<Rightarrow> 'a \<Rightarrow> FormatError + unit"
    and get_signature :: "'a \<Rightarrow> bytes"
    and set_signature :: "bytes \<Rightarrow> 'a \<Rightarrow> 'a"
    and open_doc :: "Crates \<Rightarrow> bytes \<Rightarrow> bytes \<Rightarrow> FormatError + 'a"
  assumes label_registered: "label \<in> set LABEL_ALL"
    and dec_enc: "wf x \<Longrightarrow> enc c x = Inr body \<Longrightarrow> dec c body = Inr (set_signature (replicate 64 0) x)"
    and accept_blank: "accept c key (set_signature s x) = accept c key x"
    and set_get: "set_signature (get_signature x) x = x"
    and get_set: "get_signature (set_signature s x) = s"
    and set_set: "set_signature s (set_signature t x) = set_signature s x"
    and open_doc_eq:
      "open_doc c bs key = open_record c (body_transcript label) (dec c) (accept c key) set_signature bs key"
begin

lemma accepted_iff:
  "open_doc c bs key = Inr x \<longleftrightarrow>
     (\<exists>signature body y. bs = signature @ body \<and> length signature = 64 \<and>
        signed_by c label key body signature \<and> dec c body = Inr y \<and> accept c key y = Inr () \<and>
        x = set_signature signature y)"
  by (auto simp: open_doc_eq open_record_def signed_by_def bindR_eq_Inr split_signature_eq_Inr map_err_eq_Inr
      sign_verify_eq_Inr)

lemma acceptedD:
  assumes "open_doc c bs key = Inr x"
  shows "\<exists>body y. bs = get_signature x @ body \<and> length (get_signature x) = 64 \<and>
     signed_by c label key body (get_signature x) \<and> dec c body = Inr y \<and> accept c key x = Inr () \<and>
     x = set_signature (get_signature x) y"
  using assms unfolding accepted_iff by (auto simp: get_set accept_blank)

lemma unsigned_refused:
  "length signature = 64 \<Longrightarrow> \<not> signed_by c label key body signature \<Longrightarrow>
   open_doc c (signature @ body) key = Inl BadHeaderSignature"
  by (cases "ed25519_key_ok c key") (auto simp: open_doc_eq open_record_def signed_by_def sign_verify_def)

lemma issued_opens:
  assumes "wf x" and "enc c x = Inr body" and "length (get_signature x) = 64"
    and "signed_by c label key body (get_signature x)" and "accept c key x = Inr ()"
  shows "open_doc c (get_signature x @ body) key = Inr x"
  unfolding accepted_iff
  using assms dec_enc [OF assms(1,2)]
  by (intro exI [of _ "get_signature x"] exI [of _ body] exI [of _ "set_signature (replicate 64 0) x"])
    (simp add: accept_blank set_set set_get)

end

text \<open>
  A signature over a document of one kind is a signature over a message that no document of
  another kind, and no other body of the same kind, has.
\<close>

lemma signed_message_exclusive:
  assumes "l \<in> set LABEL_ALL" and "m \<in> set LABEL_ALL" and "(l, a) \<noteq> (m, b)"
    and "length a < 4294967296" and "length b < 4294967296"
  shows "tr_buf (body_transcript l a) \<noteq> tr_buf (body_transcript m b)"
  using body_transcript_inj [OF assms(1,2,4,5)] assms(3) by auto

text \<open>With the concrete primitives, the signature of key \<open>k\<close> is 32 zero bytes and \<open>k\<close>.\<close>

lemma demo_signed: "length k = 32 \<Longrightarrow> signed_by demo_crates label k body (replicate 32 0 @ k)"
  by (simp add: signed_by_def demo_crates_def)

end
