(* ===== verification/OC_Lease.thy ===== *)
theory OC_Lease
  imports OC_Document OC_Header
begin

text \<open>
  Leases and revocations: \<^verbatim>\<open>oc-protocol/src/lease.rs\<close> and \<^verbatim>\<open>oc-protocol/src/revocation.rs\<close>.  Both are
  TLV bodies behind a signature of the authority.  A lease carries its version, and the version
  decides which optional records it may have.
\<close>

section \<open>Leases\<close>

definition LEASE_VERSION :: u16 where "LEASE_VERSION = 1"
definition LEASE_VERSION_WITH_SERVER_POLICY :: u16 where "LEASE_VERSION_WITH_SERVER_POLICY = 2"
definition LEASE_VERSION_WITH_ATTESTATION :: u16 where "LEASE_VERSION_WITH_ATTESTATION = 3"

abbreviation (input) LT_VERSION :: u16 where "LT_VERSION \<equiv> 1"
abbreviation (input) LT_FILE_ID :: u16 where "LT_FILE_ID \<equiv> 2"
abbreviation (input) LT_DEVICE_FPR :: u16 where "LT_DEVICE_FPR \<equiv> 3"
abbreviation (input) LT_POLICY_HASH :: u16 where "LT_POLICY_HASH \<equiv> 4"
abbreviation (input) LT_SEQ :: u16 where "LT_SEQ \<equiv> 5"
abbreviation (input) LT_EPOCH :: u16 where "LT_EPOCH \<equiv> 6"
abbreviation (input) LT_ISSUED_AT :: u16 where "LT_ISSUED_AT \<equiv> 7"
abbreviation (input) LT_EXPIRES_AT :: u16 where "LT_EXPIRES_AT \<equiv> 8"
abbreviation (input) LT_STATUS :: u16 where "LT_STATUS \<equiv> 9"
abbreviation (input) LT_OPENS_REMAINING :: u16 where "LT_OPENS_REMAINING \<equiv> 10"
abbreviation (input) LT_TPM_CLOCK :: u16 where "LT_TPM_CLOCK \<equiv> 11"
abbreviation (input) LT_SERVER_POLICY :: u16 where "LT_SERVER_POLICY \<equiv> 12"
abbreviation (input) LT_ATTESTED :: u16 where "LT_ATTESTED \<equiv> 13"

abbreviation (input) STATUS_ACTIVE :: byte where "STATUS_ACTIVE \<equiv> 1"
abbreviation (input) STATUS_REVOKED :: byte where "STATUS_REVOKED \<equiv> 2"

definition BASIS_VENDOR_CERTIFICATE :: byte where "BASIS_VENDOR_CERTIFICATE = 1"
definition BASIS_ENROLLED_EK :: byte where "BASIS_ENROLLED_EK = 2"

record Lease =
  ls_file_id :: bytes
  ls_facts :: LeaseFacts

definition lease_transcript :: "bytes \<Rightarrow> Transcript" where
  "lease_transcript body = body_transcript LEASE body"

definition lease_version :: "LeaseFacts \<Rightarrow> u16" where
  "lease_version facts =
     (if lease_attested facts \<noteq> None then LEASE_VERSION_WITH_ATTESTATION
      else if lease_server_policy facts \<noteq> None then LEASE_VERSION_WITH_SERVER_POLICY
      else LEASE_VERSION)"

definition encode_opens :: "u32 option \<Rightarrow> bytes" where
  "encode_opens n = (case n of Some k \<Rightarrow> le32 k | None \<Rightarrow> [])"

definition encode_clock :: "TpmClock \<Rightarrow> bytes" where
  "encode_clock clock = le32 (reset_count clock) @ le64 (clock_ms clock)"

primrec attestation_basis :: "Attestation \<Rightarrow> byte" where
  "attestation_basis VendorCertificate = BASIS_VENDOR_CERTIFICATE"
| "attestation_basis EnrolledEk = BASIS_ENROLLED_EK"

definition lease_encode :: "Lease \<Rightarrow> FormatError + bytes" where
  "lease_encode lease =
     (let facts = ls_facts lease in
      bindR (put_all
        [(LT_VERSION, le16 (lease_version facts)),
         (LT_FILE_ID, ls_file_id lease),
         (LT_DEVICE_FPR, lease_device_fingerprint facts),
         (LT_POLICY_HASH, lease_policy_hash facts),
         (LT_SEQ, le64 (lease_seq facts)),
         (LT_EPOCH, le64 (lease_epoch facts)),
         (LT_ISSUED_AT, le64 (lease_issued_at facts)),
         (LT_EXPIRES_AT, le64 (lease_expires_at facts)),
         (LT_STATUS, [if lease_revoked facts then STATUS_REVOKED else STATUS_ACTIVE]),
         (LT_OPENS_REMAINING, encode_opens (lease_opens_remaining facts))] writer_new) (\<lambda>w.
      bindR (put_opt LT_TPM_CLOCK (map_option encode_clock (lease_tpm_clock facts)) w) (\<lambda>w.
      bindR (case lease_server_policy facts of
               Some policy \<Rightarrow> bindR (policy_encode CONTAINER_VERSION policy) (\<lambda>bs. put LT_SERVER_POLICY bs w)
             | None \<Rightarrow> Inr w) (\<lambda>w.
      bindR (put_opt LT_ATTESTED (map_option (\<lambda>a. [attestation_basis a]) (lease_attested facts)) w) (\<lambda>w.
      Inr (finish w))))))"

definition decode_clock :: "bytes \<Rightarrow> FormatError + TpmClock" where
  "decode_clock value =
     bindR (ok_or (BadFieldLength LT_TPM_CLOCK (length value)) (get_range value 0 4)) (\<lambda>reset.
     bindR (ok_or (BadFieldLength LT_TPM_CLOCK (length value)) (get_range value 4 12)) (\<lambda>ms.
     bindR (ensure (\<not> length value \<noteq> 12) (BadFieldLength LT_TPM_CLOCK (length value))) (\<lambda>_.
     Inr \<lparr>reset_count = of_le reset, clock_ms = of_le ms\<rparr>)))"

definition decode_status :: "u16 \<Rightarrow> bytes \<Rightarrow> FormatError + bool" where
  "decode_status tag value =
     bindR (one_byte tag value) (\<lambda>b.
     if b = STATUS_ACTIVE then Inr False
     else if b = STATUS_REVOKED then Inr True
     else Inl (BadFieldLength LT_STATUS 1))"

definition decode_attested :: "u16 \<Rightarrow> bytes \<Rightarrow> FormatError + Attestation" where
  "decode_attested tag value =
     bindR (one_byte tag value) (\<lambda>b.
     if b = BASIS_VENDOR_CERTIFICATE then Inr VendorCertificate
     else if b = BASIS_ENROLLED_EK then Inr EnrolledEk
     else Inl (BadFieldLength LT_ATTESTED 1))"

record LeaseDecoder =
  ld_version :: "u16 option"
  ld_file_id :: "bytes option"
  ld_device_fpr :: "bytes option"
  ld_policy_hash :: "bytes option"
  ld_seq :: "u64 option"
  ld_epoch :: "u64 option"
  ld_issued_at :: "i64 option"
  ld_expires_at :: "i64 option"
  ld_status :: "bool option"
  ld_opens_remaining :: "u32 option option"
  ld_tpm_clock :: "TpmClock option"
  ld_server_policy :: "Policy option"
  ld_attested :: "Attestation option"

definition lease_decode_start :: LeaseDecoder where
  "lease_decode_start =
     \<lparr>ld_version = None, ld_file_id = None, ld_device_fpr = None, ld_policy_hash = None,
      ld_seq = None, ld_epoch = None, ld_issued_at = None, ld_expires_at = None,
      ld_status = None, ld_opens_remaining = None, ld_tpm_clock = None,
      ld_server_policy = None, ld_attested = None\<rparr>"

definition lease_step :: "u16 \<Rightarrow> bytes \<Rightarrow> LeaseDecoder \<Rightarrow> FormatError + LeaseDecoder" where
  "lease_step tag value d =
     (if tag = LT_VERSION then bindR (u16_le tag value) (\<lambda>x. Inr (d\<lparr>ld_version := Some x\<rparr>))
      else if tag = LT_FILE_ID then bindR (exact_len 16 tag value) (\<lambda>x. Inr (d\<lparr>ld_file_id := Some x\<rparr>))
      else if tag = LT_DEVICE_FPR then bindR (exact_len 32 tag value) (\<lambda>x. Inr (d\<lparr>ld_device_fpr := Some x\<rparr>))
      else if tag = LT_POLICY_HASH then bindR (exact_len 32 tag value) (\<lambda>x. Inr (d\<lparr>ld_policy_hash := Some x\<rparr>))
      else if tag = LT_SEQ then bindR (u64_le 0 value) (\<lambda>x. Inr (d\<lparr>ld_seq := Some x\<rparr>))
      else if tag = LT_EPOCH then bindR (u64_le 0 value) (\<lambda>x. Inr (d\<lparr>ld_epoch := Some x\<rparr>))
      else if tag = LT_ISSUED_AT then bindR (u64_le 0 value) (\<lambda>x. Inr (d\<lparr>ld_issued_at := Some x\<rparr>))
      else if tag = LT_EXPIRES_AT then bindR (u64_le 0 value) (\<lambda>x. Inr (d\<lparr>ld_expires_at := Some x\<rparr>))
      else if tag = LT_STATUS then bindR (decode_status tag value) (\<lambda>x. Inr (d\<lparr>ld_status := Some x\<rparr>))
      else if tag = LT_OPENS_REMAINING then
        (if value = [] then Inr (d\<lparr>ld_opens_remaining := Some None\<rparr>)
         else bindR (u32_le 0 value) (\<lambda>x. Inr (d\<lparr>ld_opens_remaining := Some (Some x)\<rparr>)))
      else if tag = LT_TPM_CLOCK then bindR (decode_clock value) (\<lambda>x. Inr (d\<lparr>ld_tpm_clock := Some x\<rparr>))
      else if tag = LT_SERVER_POLICY then
        bindR (policy_decode SUPPORTED_READER_VERSION value) (\<lambda>x. Inr (d\<lparr>ld_server_policy := Some x\<rparr>))
      else if tag = LT_ATTESTED then bindR (decode_attested tag value) (\<lambda>x. Inr (d\<lparr>ld_attested := Some x\<rparr>))
      else bindR (refuse_if_critical tag) (\<lambda>_. Inr d))"

definition check_lease_version :: "u16 \<Rightarrow> bool \<Rightarrow> bool \<Rightarrow> FormatError + unit" where
  "check_lease_version version has_policy has_attested =
     (if version = LEASE_VERSION \<and> \<not> has_policy \<and> \<not> has_attested \<or>
         version = LEASE_VERSION_WITH_SERVER_POLICY \<and> has_policy \<and> \<not> has_attested \<or>
         version = LEASE_VERSION_WITH_ATTESTATION \<and> has_attested then Inr ()
      else if (version = LEASE_VERSION \<or> version = LEASE_VERSION_WITH_SERVER_POLICY) \<and> has_attested
        then Inl (UnknownCriticalField LT_ATTESTED)
      else if version = LEASE_VERSION_WITH_ATTESTATION \<and> \<not> has_attested then Inl (MissingField LT_ATTESTED)
      else if version = LEASE_VERSION \<and> has_policy \<and> \<not> has_attested
        then Inl (UnknownCriticalField LT_SERVER_POLICY)
      else if version = LEASE_VERSION_WITH_SERVER_POLICY \<and> \<not> has_policy \<and> \<not> has_attested
        then Inl (MissingField LT_SERVER_POLICY)
      else Inl (UnsupportedLeaseVersion version))"

definition lease_finish :: "LeaseDecoder \<Rightarrow> FormatError + Lease" where
  "lease_finish d =
     bindR (ok_or (MissingField LT_VERSION) (ld_version d)) (\<lambda>version.
     bindR (check_lease_version version (ld_server_policy d \<noteq> None) (ld_attested d \<noteq> None)) (\<lambda>_.
     bindR (ok_or (MissingField LT_FILE_ID) (ld_file_id d)) (\<lambda>file_id.
     bindR (ok_or (MissingField LT_DEVICE_FPR) (ld_device_fpr d)) (\<lambda>device_fpr.
     bindR (ok_or (MissingField LT_POLICY_HASH) (ld_policy_hash d)) (\<lambda>policy_hash.
     bindR (ok_or (MissingField LT_SEQ) (ld_seq d)) (\<lambda>seq.
     bindR (ok_or (MissingField LT_EPOCH) (ld_epoch d)) (\<lambda>epoch.
     bindR (ok_or (MissingField LT_ISSUED_AT) (ld_issued_at d)) (\<lambda>issued_at.
     bindR (ok_or (MissingField LT_EXPIRES_AT) (ld_expires_at d)) (\<lambda>expires_at.
     bindR (ok_or (MissingField LT_OPENS_REMAINING) (ld_opens_remaining d)) (\<lambda>opens_remaining.
     bindR (ok_or (MissingField LT_STATUS) (ld_status d)) (\<lambda>revoked.
     Inr \<lparr>ls_file_id = file_id,
          ls_facts =
            \<lparr>lease_device_fingerprint = device_fpr, lease_policy_hash = policy_hash, lease_seq = seq,
             lease_epoch = epoch, lease_issued_at = issued_at, lease_expires_at = expires_at,
             lease_opens_remaining = opens_remaining, lease_revoked = revoked,
             lease_server_policy = ld_server_policy d, lease_attested = ld_attested d,
             lease_tpm_clock = ld_tpm_clock d\<rparr>\<rparr>)))))))))))"

definition lease_decode :: "bytes \<Rightarrow> FormatError + Lease" where
  "lease_decode body = bindR (tlv_values lease_step body lease_decode_start) lease_finish"

definition lease_verify :: "Crates \<Rightarrow> bytes \<Rightarrow> bytes \<Rightarrow> bytes \<Rightarrow> CryptoError + unit" where
  "lease_verify c body signature lease_verify_key =
     sign_verify c lease_verify_key (lease_transcript body) signature"

definition lease_verify_signed :: "Crates \<Rightarrow> bytes \<Rightarrow> bytes \<Rightarrow> FormatError + Lease" where
  "lease_verify_signed c bs lease_verify_key =
     bindR (split_signature bs) (\<lambda>(signature, body).
     bindR (map_err BadHeaderSignature (lease_verify c body signature lease_verify_key)) (\<lambda>_.
     lease_decode body))"

section \<open>Revocations\<close>

definition REVOCATION_VERSION :: u16 where "REVOCATION_VERSION = 1"

abbreviation (input) RT_VERSION :: u16 where "RT_VERSION \<equiv> 1"
abbreviation (input) RT_FILE_ID :: u16 where "RT_FILE_ID \<equiv> 2"
abbreviation (input) RT_EPOCH :: u16 where "RT_EPOCH \<equiv> 3"
abbreviation (input) RT_AT :: u16 where "RT_AT \<equiv> 4"

record Revocation =
  rv_file_id :: bytes
  rv_epoch :: u64
  rv_at :: i64

definition revocation_transcript :: "bytes \<Rightarrow> Transcript" where
  "revocation_transcript body = body_transcript REVOCATION body"

definition revocation_encode :: "Revocation \<Rightarrow> FormatError + bytes" where
  "revocation_encode r =
     bindR (put_all
       [(RT_VERSION, le16 REVOCATION_VERSION),
        (RT_FILE_ID, rv_file_id r),
        (RT_EPOCH, le64 (rv_epoch r)),
        (RT_AT, le64 (rv_at r))] writer_new) (\<lambda>w. Inr (finish w))"

record RevocationDecoder =
  rd_version :: "u16 option"
  rd_file_id :: "bytes option"
  rd_epoch :: "u64 option"
  rd_at :: "i64 option"

definition revocation_decode_start :: RevocationDecoder where
  "revocation_decode_start = \<lparr>rd_version = None, rd_file_id = None, rd_epoch = None, rd_at = None\<rparr>"

definition revocation_step :: "u16 \<Rightarrow> bytes \<Rightarrow> RevocationDecoder \<Rightarrow> FormatError + RevocationDecoder" where
  "revocation_step tag value d =
     (if tag = RT_VERSION then bindR (u16_le tag value) (\<lambda>x. Inr (d\<lparr>rd_version := Some x\<rparr>))
      else if tag = RT_FILE_ID then bindR (exact_len 16 tag value) (\<lambda>x. Inr (d\<lparr>rd_file_id := Some x\<rparr>))
      else if tag = RT_EPOCH then bindR (u64_le tag value) (\<lambda>x. Inr (d\<lparr>rd_epoch := Some x\<rparr>))
      else if tag = RT_AT then bindR (u64_le tag value) (\<lambda>x. Inr (d\<lparr>rd_at := Some x\<rparr>))
      else bindR (refuse_if_critical tag) (\<lambda>_. Inr d))"

definition revocation_decode :: "bytes \<Rightarrow> FormatError + Revocation" where
  "revocation_decode body =
     bindR (tlv_values revocation_step body revocation_decode_start) (\<lambda>d.
     bindR (ok_or (MissingField RT_VERSION) (rd_version d)) (\<lambda>version.
     bindR (ensure (\<not> version \<noteq> REVOCATION_VERSION) (UnknownCriticalField RT_VERSION)) (\<lambda>_.
     bindR (ok_or (MissingField RT_FILE_ID) (rd_file_id d)) (\<lambda>file_id.
     bindR (ok_or (MissingField RT_EPOCH) (rd_epoch d)) (\<lambda>epoch.
     bindR (ok_or (MissingField RT_AT) (rd_at d)) (\<lambda>at.
     Inr \<lparr>rv_file_id = file_id, rv_epoch = epoch, rv_at = at\<rparr>))))))"

definition revocation_verify :: "Crates \<Rightarrow> bytes \<Rightarrow> bytes \<Rightarrow> bytes \<Rightarrow> CryptoError + unit" where
  "revocation_verify c body signature lease_verify_key =
     sign_verify c lease_verify_key (revocation_transcript body) signature"

definition revocation_verify_signed :: "Crates \<Rightarrow> bytes \<Rightarrow> bytes \<Rightarrow> FormatError + Revocation" where
  "revocation_verify_signed c bs lease_verify_key =
     bindR (split_signature bs) (\<lambda>(signature, body).
     bindR (map_err BadHeaderSignature (revocation_verify c body signature lease_verify_key)) (\<lambda>_.
     revocation_decode body))"

section \<open>Leases round-trip\<close>

definition lease_wf :: "Lease \<Rightarrow> bool" where
  "lease_wf l \<longleftrightarrow>
     length (ls_file_id l) = 16 \<and> length (lease_device_fingerprint (ls_facts l)) = 32 \<and>
     length (lease_policy_hash (ls_facts l)) = 32 \<and>
     (\<forall>p. lease_server_policy (ls_facts l) = Some p \<longrightarrow> policy_wf CONTAINER_VERSION p)"

definition lease_fields :: "Lease \<Rightarrow> (u16 \<times> bytes) list" where
  "lease_fields l =
     (let facts = ls_facts l in
      [(LT_VERSION, le16 (lease_version facts)),
       (LT_FILE_ID, ls_file_id l),
       (LT_DEVICE_FPR, lease_device_fingerprint facts),
       (LT_POLICY_HASH, lease_policy_hash facts),
       (LT_SEQ, le64 (lease_seq facts)),
       (LT_EPOCH, le64 (lease_epoch facts)),
       (LT_ISSUED_AT, le64 (lease_issued_at facts)),
       (LT_EXPIRES_AT, le64 (lease_expires_at facts)),
       (LT_STATUS, [if lease_revoked facts then STATUS_REVOKED else STATUS_ACTIVE]),
       (LT_OPENS_REMAINING, encode_opens (lease_opens_remaining facts))] @
      opt_field LT_TPM_CLOCK (map_option encode_clock (lease_tpm_clock facts)) @
      opt_field LT_SERVER_POLICY
        (map_option (\<lambda>p. enc_fields (policy_fields CONTAINER_VERSION p)) (lease_server_policy facts)) @
      opt_field LT_ATTESTED (map_option (\<lambda>a. [attestation_basis a]) (lease_attested facts)))"

lemma encode_opens_le: "length (encode_opens n) \<le> 4"
  by (cases n) (simp_all add: encode_opens_def)

lemma decode_encode_clock [simp]: "decode_clock (encode_clock k) = Inr k"
  by (simp add: decode_clock_def encode_clock_def get_range_def)

lemma decode_encode_attested [simp]: "decode_attested t [attestation_basis a] = Inr a"
  by (cases a) (simp_all add: decode_attested_def BASIS_VENDOR_CERTIFICATE_def BASIS_ENROLLED_EK_def)

lemma length_encode_clock [simp]: "length (encode_clock k) = 12"
  by (simp add: encode_clock_def)

lemma lease_encode_fields: "lease_encode l = write_fields (lease_fields l)"
  by (cases "lease_server_policy (ls_facts l)")
    (simp_all add: lease_encode_def lease_fields_def write_fields_def Let_def put_opt_all put_all_append bindR_assoc
      policy_encode_eq put_all_one del: put_all_simps append_Cons)

lemma lease_fields_ok: "lease_wf l \<Longrightarrow> ascending None (lease_fields l)"
  using encode_opens_le [of "lease_opens_remaining (ls_facts l)"] policy_fields_ok(2)
  by (auto simp: lease_fields_def lease_wf_def Let_def opt_field_def split: option.splits)

lemma check_own_version:
  "check_lease_version (lease_version facts) (lease_server_policy facts \<noteq> None) (lease_attested facts \<noteq> None) = Inr ()"
  by (simp add: check_lease_version_def lease_version_def LEASE_VERSION_def LEASE_VERSION_WITH_SERVER_POLICY_def
      LEASE_VERSION_WITH_ATTESTATION_def)

lemma decode_status_byte [simp]: "decode_status t [if r then STATUS_REVOKED else STATUS_ACTIVE] = Inr r"
  by (simp add: decode_status_def)

lemma lease_step_opens [simp]:
  "lease_step LT_OPENS_REMAINING (encode_opens n) d = Inr (d\<lparr>ld_opens_remaining := Some n\<rparr>)"
proof (cases n)
  case (Some k)
  have "le_bytes 4 (unat k) \<noteq> []" by (metis length_le_bytes list.size(3) zero_neq_numeral)
  with Some show ?thesis by (simp add: lease_step_def encode_opens_def)
qed (simp add: lease_step_def encode_opens_def)

lemma lease_opt_steps [simp]:
  "ld_tpm_clock d = None \<Longrightarrow>
     run_fields lease_step (opt_field LT_TPM_CLOCK (map_option encode_clock k)) d = Inr (d\<lparr>ld_tpm_clock := k\<rparr>)"
  "ld_attested d = None \<Longrightarrow>
     run_fields lease_step (opt_field LT_ATTESTED (map_option (\<lambda>a. [attestation_basis a]) a)) d =
       Inr (d\<lparr>ld_attested := a\<rparr>)"
  by (intro run_opt_field [where upd = "\<lambda>x d. d\<lparr>ld_tpm_clock := x\<rparr>"], simp_all add: lease_step_def)
    (intro run_opt_field [where upd = "\<lambda>x d. d\<lparr>ld_attested := x\<rparr>"], simp_all add: lease_step_def)

lemma lease_step_policy:
  assumes "\<And>p. pol = Some p \<Longrightarrow> policy_wf CONTAINER_VERSION p" and "ld_server_policy d = None"
  shows "run_fields lease_step
      (opt_field LT_SERVER_POLICY (map_option (\<lambda>p. enc_fields (policy_fields CONTAINER_VERSION p)) pol)) d =
    Inr (d\<lparr>ld_server_policy := pol\<rparr>)"
proof -
  have "policy_decode SUPPORTED_READER_VERSION (enc_fields (policy_fields CONTAINER_VERSION p)) = Inr p"
    if "pol = Some p" for p
    using assms(1) [OF that] policy_decode_encode [of CONTAINER_VERSION p]
    by (simp add: canonical_policy_wf SUPPORTED_READER_VERSION_def CONTAINER_VERSION_def)
  then show ?thesis
    using assms(2) by (intro run_opt_field [where upd = "\<lambda>x d. d\<lparr>ld_server_policy := x\<rparr>"]) (simp_all add: lease_step_def)
qed

text \<open>The decoder state that stands for a lease.\<close>

definition lease_state :: "Lease \<Rightarrow> LeaseDecoder" where
  "lease_state l =
     \<lparr>ld_version = Some (lease_version (ls_facts l)), ld_file_id = Some (ls_file_id l),
      ld_device_fpr = Some (lease_device_fingerprint (ls_facts l)),
      ld_policy_hash = Some (lease_policy_hash (ls_facts l)), ld_seq = Some (lease_seq (ls_facts l)),
      ld_epoch = Some (lease_epoch (ls_facts l)), ld_issued_at = Some (lease_issued_at (ls_facts l)),
      ld_expires_at = Some (lease_expires_at (ls_facts l)), ld_status = Some (lease_revoked (ls_facts l)),
      ld_opens_remaining = Some (lease_opens_remaining (ls_facts l)),
      ld_tpm_clock = lease_tpm_clock (ls_facts l), ld_server_policy = lease_server_policy (ls_facts l),
      ld_attested = lease_attested (ls_facts l)\<rparr>"

lemma lease_run:
  assumes "lease_wf l"
  shows "run_fields lease_step (lease_fields l) lease_decode_start = Inr (lease_state l)"
proof -
  have steps:
    "lease_step LT_VERSION (le16 w) d = Inr (d\<lparr>ld_version := Some w\<rparr>)"
    "length v = 16 \<Longrightarrow> lease_step LT_FILE_ID v d = Inr (d\<lparr>ld_file_id := Some v\<rparr>)"
    "length v = 32 \<Longrightarrow> lease_step LT_DEVICE_FPR v d = Inr (d\<lparr>ld_device_fpr := Some v\<rparr>)"
    "length v = 32 \<Longrightarrow> lease_step LT_POLICY_HASH v d = Inr (d\<lparr>ld_policy_hash := Some v\<rparr>)"
    "lease_step LT_SEQ (le64 n) d = Inr (d\<lparr>ld_seq := Some n\<rparr>)"
    "lease_step LT_EPOCH (le64 n) d = Inr (d\<lparr>ld_epoch := Some n\<rparr>)"
    "lease_step LT_ISSUED_AT (le64 n) d = Inr (d\<lparr>ld_issued_at := Some n\<rparr>)"
    "lease_step LT_EXPIRES_AT (le64 n) d = Inr (d\<lparr>ld_expires_at := Some n\<rparr>)"
    "lease_step LT_STATUS [if r then STATUS_REVOKED else STATUS_ACTIVE] d = Inr (d\<lparr>ld_status := Some r\<rparr>)"
    for w v n r d
    by (simp_all add: lease_step_def exact_len_def del: if_split)
  show ?thesis
    using assms
    by (simp add: lease_fields_def Let_def lease_wf_def steps run_fields_append lease_step_policy
        lease_decode_start_def lease_state_def del: if_split)
qed

lemma check_lease_version_Inr:
  "check_lease_version v p a = Inr u \<longleftrightarrow>
     v = (if a then LEASE_VERSION_WITH_ATTESTATION else if p then LEASE_VERSION_WITH_SERVER_POLICY else LEASE_VERSION)"
  by (auto simp: check_lease_version_def LEASE_VERSION_def LEASE_VERSION_WITH_SERVER_POLICY_def
      LEASE_VERSION_WITH_ATTESTATION_def)

lemma lease_finish_Inr: "lease_finish d = Inr l \<longleftrightarrow> d = lease_state l"
proof
  assume "lease_finish d = Inr l"
  then show "d = lease_state l"
    by (cases d) (clarsimp simp: lease_finish_def bindR_eq_Inr ok_or_eq_Inr check_lease_version_Inr lease_state_def
        lease_version_def, auto)
next
  assume "d = lease_state l"
  then show "lease_finish d = Inr l"
    using check_own_version [of "ls_facts l"] by (simp add: lease_finish_def lease_state_def)
qed

lemma lease_decode_Inr:
  "lease_decode body = Inr l \<longleftrightarrow> tlv_values lease_step body lease_decode_start = Inr (lease_state l)"
  by (auto simp: lease_decode_def bindR_eq_Inr lease_finish_Inr)

lemma lease_decode_fields: "lease_wf l \<Longrightarrow> lease_decode (enc_fields (lease_fields l)) = Inr l"
  by (simp add: lease_decode_Inr lease_fields_ok lease_run)

interpretation lease_codec: total_codec lease_encode lease_decode lease_wf
  by unfold_locales (auto simp: lease_encode_fields lease_fields_ok lease_decode_fields)

interpretation lease_doc: signed_document lease_encode lease_decode lease_wf LEASE lease_verify_signed
  by unfold_locales
    (simp_all add: LABEL_ALL_def lease_verify_signed_def verify_signed_def lease_verify_def lease_transcript_def)

section \<open>Accepted leases\<close>

definition lease_decoder_ok :: "LeaseDecoder \<Rightarrow> bool" where
  "lease_decoder_ok d \<longleftrightarrow>
     (\<forall>x. ld_file_id d = Some x \<longrightarrow> length x = 16) \<and> (\<forall>x. ld_device_fpr d = Some x \<longrightarrow> length x = 32) \<and>
     (\<forall>x. ld_policy_hash d = Some x \<longrightarrow> length x = 32)"

lemma lease_step_ok: "lease_decoder_ok d \<Longrightarrow> lease_step t v d = Inr d' \<Longrightarrow> lease_decoder_ok d'"
  by (auto simp: lease_step_def lease_decoder_ok_def bindR_eq_Inr split: if_splits)

lemma lease_decodeD:
  assumes "lease_decode body = Inr l"
  shows "length (ls_file_id l) = 16" and "length (lease_device_fingerprint (ls_facts l)) = 32"
    and "length (lease_policy_hash (ls_facts l)) = 32"
proof -
  have "lease_decoder_ok (lease_state l)"
    by (rule tlv_values_invariant [OF assms [unfolded lease_decode_Inr] _ lease_step_ok])
      (simp_all add: lease_decoder_ok_def lease_decode_start_def)
  then show "length (ls_file_id l) = 16" "length (lease_device_fingerprint (ls_facts l)) = 32"
    "length (lease_policy_hash (ls_facts l)) = 32"
    by (simp_all add: lease_decoder_ok_def lease_state_def)
qed

section \<open>Revocations round-trip\<close>

definition revocation_wf :: "Revocation \<Rightarrow> bool" where
  "revocation_wf r \<longleftrightarrow> length (rv_file_id r) = 16"

definition revocation_fields :: "Revocation \<Rightarrow> (u16 \<times> bytes) list" where
  "revocation_fields r =
     [(RT_VERSION, le16 REVOCATION_VERSION), (RT_FILE_ID, rv_file_id r), (RT_EPOCH, le64 (rv_epoch r)),
      (RT_AT, le64 (rv_at r))]"

lemma revocation_encode_fields: "revocation_encode r = write_fields (revocation_fields r)"
  by (simp add: revocation_encode_def revocation_fields_def write_fields_def del: put_all_simps)

lemma revocation_fields_ok: "revocation_wf r \<Longrightarrow> ascending None (revocation_fields r)"
  by (simp add: revocation_fields_def revocation_wf_def)

lemma revocation_decode_fields: "revocation_wf r \<Longrightarrow> revocation_decode (enc_fields (revocation_fields r)) = Inr r"
  unfolding revocation_decode_def tlv_values_read [OF revocation_fields_ok]
  by (simp add: revocation_fields_def revocation_step_def revocation_decode_start_def revocation_wf_def exact_len_def)

interpretation revocation_codec: total_codec revocation_encode revocation_decode revocation_wf
  by unfold_locales (auto simp: revocation_encode_fields revocation_fields_ok revocation_decode_fields)

interpretation revocation_doc:
  signed_document revocation_encode revocation_decode revocation_wf REVOCATION revocation_verify_signed
  by unfold_locales
    (simp_all add: LABEL_ALL_def revocation_verify_signed_def verify_signed_def revocation_verify_def
      revocation_transcript_def)

definition revocation_tags :: "u16 list" where
  "revocation_tags = [RT_VERSION, RT_FILE_ID, RT_EPOCH, RT_AT]"

definition revocation_get :: "u16 \<Rightarrow> RevocationDecoder \<Rightarrow> bytes option" where
  "revocation_get tag d =
     (if tag = RT_VERSION then map_option (\<lambda>w. le16 w) (rd_version d)
      else if tag = RT_FILE_ID then rd_file_id d
      else if tag = RT_EPOCH then map_option (\<lambda>w. le64 w) (rd_epoch d)
      else if tag = RT_AT then map_option (\<lambda>w. le64 w) (rd_at d)
      else None)"

interpretation revocation_reader:
  field_decoder revocation_step revocation_decode_start revocation_tags "[]" revocation_get
proof
  fix t v s s' u
  assume step: "revocation_step t v s = Inr s'"
  show "revocation_get u s' = (if u = t \<and> t \<in> set revocation_tags then Some v else revocation_get u s)"
    using step by (auto simp: revocation_step_def revocation_tags_def revocation_get_def bindR_eq_Inr
        value_parsers_Inr split: if_splits)
  show "t \<in> set revocation_tags \<or> t \<in> set [] \<or> CRIT_TAG_MAX < t"
    using step by (auto simp: revocation_step_def revocation_tags_def bindR_eq_Inr refuse_if_critical_Inr
        split: if_splits)
qed (simp_all add: revocation_tags_def revocation_decode_start_def revocation_get_def revocation_step_def
    refuse_if_critical_optional)

definition lease_tags :: "u16 list" where
  "lease_tags = [LT_VERSION, LT_FILE_ID, LT_DEVICE_FPR, LT_POLICY_HASH, LT_SEQ, LT_EPOCH, LT_ISSUED_AT,
     LT_EXPIRES_AT, LT_STATUS, LT_OPENS_REMAINING, LT_TPM_CLOCK, LT_ATTESTED]"

definition lease_get :: "u16 \<Rightarrow> LeaseDecoder \<Rightarrow> bytes option" where
  "lease_get tag d =
     (if tag = LT_VERSION then map_option (\<lambda>w. le16 w) (ld_version d)
      else if tag = LT_FILE_ID then ld_file_id d
      else if tag = LT_DEVICE_FPR then ld_device_fpr d
      else if tag = LT_POLICY_HASH then ld_policy_hash d
      else if tag = LT_SEQ then map_option (\<lambda>w. le64 w) (ld_seq d)
      else if tag = LT_EPOCH then map_option (\<lambda>w. le64 w) (ld_epoch d)
      else if tag = LT_ISSUED_AT then map_option (\<lambda>w. le64 w) (ld_issued_at d)
      else if tag = LT_EXPIRES_AT then map_option (\<lambda>w. le64 w) (ld_expires_at d)
      else if tag = LT_STATUS then map_option (\<lambda>r. [if r then STATUS_REVOKED else STATUS_ACTIVE]) (ld_status d)
      else if tag = LT_OPENS_REMAINING then map_option encode_opens (ld_opens_remaining d)
      else if tag = LT_TPM_CLOCK then map_option encode_clock (ld_tpm_clock d)
      else if tag = LT_ATTESTED then map_option (\<lambda>a. [attestation_basis a]) (ld_attested d)
      else None)"

lemma lease_values_Inr:
  "decode_status t v = Inr r \<Longrightarrow> v = [if r then STATUS_REVOKED else STATUS_ACTIVE]"
  "decode_attested t v = Inr a \<Longrightarrow> v = [attestation_basis a]"
  "decode_clock v = Inr k \<Longrightarrow> encode_clock k = v"
  by (auto simp: decode_status_def decode_attested_def decode_clock_def encode_clock_def bindR_eq_Inr
      value_parsers_Inr ok_or_eq_Inr ensure_eq_Inr get_range_def le_bytes_of_le32 le_bytes_of_le64 split: if_splits)

lemma lease_get_upd:
  "lease_get u (d\<lparr>ld_version := a\<rparr>) = (if u = LT_VERSION then map_option (\<lambda>w. le16 w) a else lease_get u d)"
  "lease_get u (d\<lparr>ld_file_id := b\<rparr>) = (if u = LT_FILE_ID then b else lease_get u d)"
  "lease_get u (d\<lparr>ld_device_fpr := b\<rparr>) = (if u = LT_DEVICE_FPR then b else lease_get u d)"
  "lease_get u (d\<lparr>ld_policy_hash := b\<rparr>) = (if u = LT_POLICY_HASH then b else lease_get u d)"
  "lease_get u (d\<lparr>ld_seq := n\<rparr>) = (if u = LT_SEQ then map_option (\<lambda>w. le64 w) n else lease_get u d)"
  "lease_get u (d\<lparr>ld_epoch := n\<rparr>) = (if u = LT_EPOCH then map_option (\<lambda>w. le64 w) n else lease_get u d)"
  "lease_get u (d\<lparr>ld_issued_at := n\<rparr>) = (if u = LT_ISSUED_AT then map_option (\<lambda>w. le64 w) n else lease_get u d)"
  "lease_get u (d\<lparr>ld_expires_at := n\<rparr>) = (if u = LT_EXPIRES_AT then map_option (\<lambda>w. le64 w) n else lease_get u d)"
  "lease_get u (d\<lparr>ld_status := r\<rparr>) =
     (if u = LT_STATUS then map_option (\<lambda>r. [if r then STATUS_REVOKED else STATUS_ACTIVE]) r else lease_get u d)"
  "lease_get u (d\<lparr>ld_opens_remaining := o1\<rparr>) =
     (if u = LT_OPENS_REMAINING then map_option encode_opens o1 else lease_get u d)"
  "lease_get u (d\<lparr>ld_tpm_clock := k\<rparr>) = (if u = LT_TPM_CLOCK then map_option encode_clock k else lease_get u d)"
  "lease_get u (d\<lparr>ld_attested := at\<rparr>) =
     (if u = LT_ATTESTED then map_option (\<lambda>a. [attestation_basis a]) at else lease_get u d)"
  "lease_get u (d\<lparr>ld_server_policy := p\<rparr>) = lease_get u d"
  by (simp_all add: lease_get_def)

lemma encode_opens_simps: "encode_opens None = []" "encode_opens (Some n) = le32 n"
  by (simp_all add: encode_opens_def)

interpretation lease_reader:
  field_decoder lease_step lease_decode_start lease_tags "[LT_SERVER_POLICY]" lease_get
proof
  fix t v s s' u
  assume step: "lease_step t v s = Inr s'"
  show "lease_get u s' = (if u = t \<and> t \<in> set lease_tags then Some v else lease_get u s)"
    using step by (auto simp: lease_step_def lease_tags_def lease_get_upd bindR_eq_Inr value_parsers_Inr
        encode_opens_simps lease_values_Inr(3) dest: lease_values_Inr(1,2) split: if_splits)
  show "t \<in> set lease_tags \<or> t \<in> set [LT_SERVER_POLICY] \<or> CRIT_TAG_MAX < t"
    using step by (auto simp: lease_step_def lease_tags_def bindR_eq_Inr refuse_if_critical_Inr
        split: if_splits)
qed (simp_all add: lease_tags_def lease_decode_start_def lease_get_def lease_step_def refuse_if_critical_optional)

text \<open>
  A tag that is read by a decoder of its own: the value stored is what that decoder makes of the
  one field with the tag.
\<close>

lemma run_decoded_field:
  assumes step: "\<And>t v s s'. step t v s = Inr s' \<Longrightarrow>
      (if t = tag then \<exists>x. dec v = Inr x \<and> get s' = Some x else get s' = get s)"
    and "run_fields step fs s = Inr s'" and "distinct (map fst fs)"
  shows "case map_of fs tag of None \<Rightarrow> get s' = get s | Some v \<Rightarrow> \<exists>x. dec v = Inr x \<and> get s' = Some x"
  using assms(2,3)
proof (induction fs arbitrary: s)
  case (Cons tv fs)
  obtain t v where tv: "tv = (t, v)" by (cases tv)
  from Cons.prems(1) obtain s1 where s1: "step t v s = Inr s1" "run_fields step fs s1 = Inr s'"
    by (auto simp: tv bindR_eq_Inr)
  have "t = tag \<Longrightarrow> map_of fs tag = None" using Cons.prems(2) by (simp add: tv map_of_eq_None_iff)
  then show ?case
    using Cons.IH [OF s1(2)] Cons.prems(2) step [OF s1(1)] by (cases "t = tag") (simp_all add: tv cong: option.case_cong)
qed simp

lemma lease_step_server_policy:
  "lease_step t v s = Inr s' \<Longrightarrow>
    (if t = LT_SERVER_POLICY then \<exists>x. policy_decode SUPPORTED_READER_VERSION v = Inr x \<and> ld_server_policy s' = Some x
     else ld_server_policy s' = ld_server_policy s)"
  by (auto simp: lease_step_def bindR_eq_Inr split: if_splits)

section \<open>Properties\<close>

text \<open>
  C19.  A lease is honoured only when it is signed.  Accepting a lease means that its bytes are a
  signature and a body, that the signature verifies under the authority's key over a message
  made of the lease label and exactly that body, and that every value of the lease is the value
  of one field of the body: its file, device, policy hash, numbers and times, its status byte and
  its open limit, which are never defaulted, the clock reading and the basis of the attestation,
  each there exactly when its field is, and the server's policy, which is there exactly when its
  field is and is what the policy decoder reads from it.  The version is the one the optional
  records demand.
  Conversely a well-formed lease that is encoded and signed is accepted as it was written.
\<close>

theorem lease_authentic:
  assumes "lease_verify_signed c bs key = Inr l"
  shows "\<exists>signature fs. bs = signature @ enc_fields fs \<and> length signature = 64 \<and>
     signed_by c LEASE key (enc_fields fs) signature \<and>
     map_of fs LT_VERSION = Some (le16 (lease_version (ls_facts l))) \<and>
     map_of fs LT_FILE_ID = Some (ls_file_id l) \<and> length (ls_file_id l) = 16 \<and>
     map_of fs LT_DEVICE_FPR = Some (lease_device_fingerprint (ls_facts l)) \<and>
     map_of fs LT_POLICY_HASH = Some (lease_policy_hash (ls_facts l)) \<and>
     map_of fs LT_SEQ = Some (le64 (lease_seq (ls_facts l))) \<and>
     map_of fs LT_EPOCH = Some (le64 (lease_epoch (ls_facts l))) \<and>
     map_of fs LT_ISSUED_AT = Some (le64 (lease_issued_at (ls_facts l))) \<and>
     map_of fs LT_EXPIRES_AT = Some (le64 (lease_expires_at (ls_facts l))) \<and>
     map_of fs LT_STATUS = Some [if lease_revoked (ls_facts l) then STATUS_REVOKED else STATUS_ACTIVE] \<and>
     map_of fs LT_OPENS_REMAINING = Some (encode_opens (lease_opens_remaining (ls_facts l))) \<and>
     map_of fs LT_TPM_CLOCK = map_option encode_clock (lease_tpm_clock (ls_facts l)) \<and>
     map_of fs LT_ATTESTED = map_option (\<lambda>a. [case a of VendorCertificate \<Rightarrow> 1 | EnrolledEk \<Rightarrow> 2]) (lease_attested (ls_facts l)) \<and>
     (case map_of fs LT_SERVER_POLICY of
        None \<Rightarrow> lease_server_policy (ls_facts l) = None
      | Some v \<Rightarrow> \<exists>p. policy_decode SUPPORTED_READER_VERSION v = Inr p \<and> lease_server_policy (ls_facts l) = Some p) \<and>
     (\<forall>m body signature. lease_wf m \<longrightarrow> lease_encode m = Inr body \<longrightarrow> length signature = 64 \<longrightarrow>
        signed_by c LEASE key body signature \<longrightarrow> lease_verify_signed c (signature @ body) key = Inr m)"
proof -
  obtain signature body where s: "bs = signature @ body" "length signature = 64"
    "signed_by c LEASE key body signature" "lease_decode body = Inr l"
    using assms lease_doc.accepted_iff by blast
  obtain fs where fs: "body = enc_fields fs" "\<forall>t \<in> set lease_tags. map_of fs t = lease_get t (lease_state l)"
    and run: "run_fields lease_step fs lease_decode_start = Inr (lease_state l)" "ascending None fs"
    using lease_reader.accepted_fields [OF s(4) [unfolded lease_decode_Inr]] by blast
  have "distinct (map fst fs)" using ascending_distinct [OF run(2)] by blast
  from run_decoded_field [where get = ld_server_policy, OF lease_step_server_policy run(1) this]
  have policy: "case map_of fs LT_SERVER_POLICY of None \<Rightarrow> lease_server_policy (ls_facts l) = None
      | Some v \<Rightarrow> \<exists>p. policy_decode SUPPORTED_READER_VERSION v = Inr p \<and> lease_server_policy (ls_facts l) = Some p"
    by (simp add: lease_state_def lease_decode_start_def cong: option.case_cong)
  have basis: "attestation_basis = (\<lambda>a. case a of VendorCertificate \<Rightarrow> 1 | EnrolledEk \<Rightarrow> 2)"
    by (simp add: fun_eq_iff attestation_basis_def BASIS_VENDOR_CERTIFICATE_def BASIS_ENROLLED_EK_def split: Attestation.split)
  have m: "map_of fs t = lease_get t (lease_state l)" if "t \<in> set lease_tags" for t using fs(2) that by blast
  have "\<forall>m body signature. lease_wf m \<longrightarrow> lease_encode m = Inr body \<longrightarrow> length signature = 64 \<longrightarrow>
      signed_by c LEASE key body signature \<longrightarrow> lease_verify_signed c (signature @ body) key = Inr m"
    using lease_doc.issued_opens by blast
  then show ?thesis
    using s(1-3) lease_decodeD(1) [OF s(4)] policy
    by (intro exI [of _ signature] exI [of _ fs]) (simp add: fs(1) m basis lease_tags_def lease_get_def lease_state_def del: if_split)
qed

definition demo_signed_lease :: Lease where
  "demo_signed_lease = \<lparr>ls_file_id = replicate 16 0x11, ls_facts = demo_lease\<rparr>"

lemma demo_signed_lease_wf: "lease_wf demo_signed_lease"
  by (simp add: lease_wf_def demo_signed_lease_def demo_defs)

theorem lease_authentic_witness:
  "\<exists>fs. lease_verify_signed demo_crates (replicate 32 0 @ replicate 32 7 @ enc_fields fs) (replicate 32 7) =
       Inr demo_signed_lease \<and>
     map_of fs LT_SEQ = Some (le64 (lease_seq demo_lease))"
proof -
  let ?body = "enc_fields (lease_fields demo_signed_lease)"
  have ok: "lease_verify_signed demo_crates ((replicate 32 0 @ replicate 32 7) @ ?body) (replicate 32 7) =
      Inr demo_signed_lease"
    by (rule lease_doc.issued_opens)
      (simp_all add: demo_signed_lease_wf lease_encode_fields lease_fields_ok demo_signed)
  obtain signature fs where fs: "(replicate 32 0 @ replicate 32 7) @ ?body = signature @ enc_fields fs"
    "length signature = 64" "map_of fs LT_SEQ = Some (le64 (lease_seq (ls_facts demo_signed_lease)))"
    using lease_authentic [OF ok] by (elim exE conjE) metis
  have "?body = enc_fields fs"
    using fs(1,2) append_eq_append_conv [of "replicate 32 0 @ replicate 32 7" signature] by fastforce
  with ok fs(3) show ?thesis by (intro exI [of _ fs]) (simp add: demo_signed_lease_def)
qed

lemma revocation_decode_iff:
  "revocation_decode body = Inr r \<longleftrightarrow> revocation_wf r \<and> carries revocation_tags (revocation_fields r) body"
proof -
  define d where "d = \<lparr>rd_version = Some REVOCATION_VERSION, rd_file_id = Some (rv_file_id r),
    rd_epoch = Some (rv_epoch r), rd_at = Some (rv_at r)\<rparr>"
  have "revocation_decode body = Inr r \<longleftrightarrow> tlv_values revocation_step body revocation_decode_start = Inr d"
  proof
    assume "revocation_decode body = Inr r"
    then obtain e where "tlv_values revocation_step body revocation_decode_start = Inr e"
      "rd_version e = Some REVOCATION_VERSION" "rd_file_id e = Some (rv_file_id r)" "rd_epoch e = Some (rv_epoch r)"
      "rd_at e = Some (rv_at r)"
      by (auto simp: revocation_decode_def bindR_eq_Inr ok_or_eq_Inr ensure_eq_Inr)
    then show "tlv_values revocation_step body revocation_decode_start = Inr d" by (cases e) (simp add: d_def)
  qed (simp add: revocation_decode_def d_def)
  also have "\<dots> \<longleftrightarrow> revocation_wf r \<and> carries revocation_tags (revocation_fields r) body"
    by (rule revocation_reader.accepts_exactly)
      (auto simp: d_def revocation_tags_def revocation_get_def revocation_fields_def revocation_step_def
        revocation_decode_start_def revocation_wf_def exact_len_def)
  finally show ?thesis .
qed

text \<open>
  A revocation is exactly what was signed.  It is accepted only when the signature verifies
  over the body under the revocation label; the body's fields with known tags are then exactly
  the version, the file, the epoch and the time of the revocation, in this order and with these
  bytes, and every other field is optional.  Without such a signature the answer is the same
  error whatever the body holds.
\<close>

theorem revocation_exact:
  assumes "length signature = 64"
  shows "(revocation_verify_signed c (signature @ body) key = Inr r \<longleftrightarrow>
       signed_by c REVOCATION key body signature \<and> revocation_wf r \<and>
       carries revocation_tags (revocation_fields r) body) \<and>
     (\<not> signed_by c REVOCATION key body signature \<longrightarrow>
       revocation_verify_signed c (signature @ body) key = Inl BadHeaderSignature)"
  using assms
  by (auto simp: revocation_doc.accepted_iff revocation_decode_iff [symmetric] revocation_doc.unsigned_refused)

definition demo_revocation :: Revocation where
  "demo_revocation = \<lparr>rv_file_id = replicate 16 0x5A, rv_epoch = 3, rv_at = 1755561600\<rparr>"

theorem revocation_exact_witness:
  "revocation_verify_signed demo_crates
     ((replicate 32 0 @ replicate 32 7) @ enc_fields (revocation_fields demo_revocation)) (replicate 32 7) =
     Inr demo_revocation"
proof -
  have "revocation_wf demo_revocation" by (simp add: revocation_wf_def demo_revocation_def)
  moreover have "carries revocation_tags (revocation_fields demo_revocation) (enc_fields (revocation_fields demo_revocation))"
    using revocation_fields_ok [OF calculation]
    by (rule carries_self) (simp add: revocation_fields_def revocation_tags_def)
  ultimately show ?thesis
    using revocation_exact [of "replicate 32 0 @ replicate 32 7" demo_crates] by (simp add: demo_signed)
qed

end
