(* ===== verification/OC_Access.thy ===== *)
theory OC_Access
  imports OC_Document OC_Text
begin

text \<open>
  Access requests: \<^verbatim>\<open>oc-protocol/src/access.rs\<close>.  A recipient's device asks, the request waits in a
  queue, and the author answers with a signed decision that carries the recipient's key share
  when it approves.
\<close>

section \<open>Notes\<close>

text \<open>\<^verbatim>\<open>str::chars\<close> on valid UTF-8.\<close>

fun utf8_chars :: "bytes \<Rightarrow> codepoint list" where
  "utf8_chars [] = []"
| "utf8_chars (a # bs) =
     (if unat a < 0x80 then unat a # utf8_chars bs
      else if unat a < 0xE0 then
        (case bs of b # rest \<Rightarrow> ((unat a - 0xC0) * 64 + (unat b - 0x80)) # utf8_chars rest | _ \<Rightarrow> [])
      else if unat a < 0xF0 then
        (case bs of
           b # c # rest \<Rightarrow>
             ((unat a - 0xE0) * 4096 + (unat b - 0x80) * 64 + (unat c - 0x80)) # utf8_chars rest
         | _ \<Rightarrow> [])
      else
        (case bs of
           b # c # d # rest \<Rightarrow>
             ((unat a - 0xF0) * 262144 + (unat b - 0x80) * 4096 + (unat c - 0x80) * 64 + (unat d - 0x80))
               # utf8_chars rest
         | _ \<Rightarrow> []))"

definition MAX_NOTE :: nat where "MAX_NOTE = 256"

definition note_char_is_safe :: "codepoint \<Rightarrow> bool" where
  "note_char_is_safe c \<longleftrightarrow> \<not> is_display_unsafe c"

definition check_note :: "bytes \<Rightarrow> u16 \<Rightarrow> FormatError + unit" where
  "check_note note tag =
     (if length note > MAX_NOTE then Inl (BadFieldLength tag (length note))
      else case find (\<lambda>c. \<not> note_char_is_safe c) (utf8_chars note) of
          Some bad \<Rightarrow> Inl (BadNoteChar tag (word_of_nat bad))
        | None \<Rightarrow> Inr ())"

definition note_value :: "u16 \<Rightarrow> bytes \<Rightarrow> FormatError + bytes" where
  "note_value tag value =
     bindR (ok_or (NotUtf8 tag) (from_utf8 value)) (\<lambda>text.
     bindR (check_note text tag) (\<lambda>_. Inr text))"

section \<open>Asking\<close>

definition HEIR_SEQ :: u64 where "HEIR_SEQ = - 1"
definition MAX_PENDING_PER_FILE :: nat where "MAX_PENDING_PER_FILE = 16"

abbreviation (input) AT_FILE_ID :: u16 where "AT_FILE_ID \<equiv> 1"
abbreviation (input) AT_DEVICE_FPR :: u16 where "AT_DEVICE_FPR \<equiv> 2"
abbreviation (input) AT_DEVICE_PUBLIC :: u16 where "AT_DEVICE_PUBLIC \<equiv> 3"
abbreviation (input) AT_DEVICE_KEM :: u16 where "AT_DEVICE_KEM \<equiv> 4"
abbreviation (input) AT_NOTE :: u16 where "AT_NOTE \<equiv> 5"
abbreviation (input) AT_SEQ :: u16 where "AT_SEQ \<equiv> 6"
abbreviation (input) AT_AT :: u16 where "AT_AT \<equiv> 7"
abbreviation (input) AT_APPROVE :: u16 where "AT_APPROVE \<equiv> 8"
abbreviation (input) AT_ENC :: u16 where "AT_ENC \<equiv> 9"
abbreviation (input) AT_NONCE :: u16 where "AT_NONCE \<equiv> 10"
abbreviation (input) AT_CT :: u16 where "AT_CT \<equiv> 11"
abbreviation (input) AT_AUTHOR_KEY :: u16 where "AT_AUTHOR_KEY \<equiv> 12"
abbreviation (input) AT_SIGNATURE :: u16 where "AT_SIGNATURE \<equiv> 13"

record AskAccess =
  aa_file_id :: bytes
  aa_device_fpr :: bytes
  aa_device_public :: bytes
  aa_device_kem :: byte
  aa_note :: bytes

record Pending =
  pe_seq :: u64
  pe_file_id :: bytes
  pe_device_fpr :: bytes
  pe_device_public :: bytes
  pe_device_kem :: byte
  pe_note :: bytes
  pe_at :: i64

definition encode_ask :: "AskAccess \<Rightarrow> FormatError + bytes" where
  "encode_ask ask =
     bindR (check_note (aa_note ask) AT_NOTE) (\<lambda>_.
     write_fields
       [(AT_FILE_ID, aa_file_id ask),
        (AT_DEVICE_FPR, aa_device_fpr ask),
        (AT_DEVICE_PUBLIC, aa_device_public ask),
        (AT_DEVICE_KEM, [aa_device_kem ask]),
        (AT_NOTE, aa_note ask)])"

record AskDecoder =
  ak_file_id :: "bytes option"
  ak_fpr :: "bytes option"
  ak_public :: "bytes option"
  ak_kem :: "byte option"
  ak_note :: "bytes option"

definition ask_decode_start :: AskDecoder where
  "ask_decode_start = \<lparr>ak_file_id = None, ak_fpr = None, ak_public = None, ak_kem = None, ak_note = None\<rparr>"

definition ask_step :: "u16 \<Rightarrow> bytes \<Rightarrow> AskDecoder \<Rightarrow> FormatError + AskDecoder" where
  "ask_step tag value d =
     (if tag = AT_FILE_ID then bindR (exact_len 16 tag value) (\<lambda>x. Inr (d\<lparr>ak_file_id := Some x\<rparr>))
      else if tag = AT_DEVICE_FPR then bindR (exact_len 32 tag value) (\<lambda>x. Inr (d\<lparr>ak_fpr := Some x\<rparr>))
      else if tag = AT_DEVICE_PUBLIC then Inr (d\<lparr>ak_public := Some value\<rparr>)
      else if tag = AT_DEVICE_KEM then bindR (one_byte tag value) (\<lambda>x. Inr (d\<lparr>ak_kem := Some x\<rparr>))
      else if tag = AT_NOTE then bindR (note_value AT_NOTE value) (\<lambda>x. Inr (d\<lparr>ak_note := Some x\<rparr>))
      else bindR (refuse_if_critical tag) (\<lambda>_. Inr d))"

definition ask_finish :: "AskDecoder \<Rightarrow> FormatError + AskAccess" where
  "ask_finish d =
     bindR (ok_or (MissingField AT_FILE_ID) (ak_file_id d)) (\<lambda>file_id.
     bindR (ok_or (MissingField AT_DEVICE_FPR) (ak_fpr d)) (\<lambda>fpr.
     bindR (ok_or (MissingField AT_DEVICE_PUBLIC) (ak_public d)) (\<lambda>public.
     bindR (ok_or (MissingField AT_DEVICE_KEM) (ak_kem d)) (\<lambda>kem.
     bindR (ok_or (MissingField AT_NOTE) (ak_note d)) (\<lambda>note.
     Inr \<lparr>aa_file_id = file_id, aa_device_fpr = fpr, aa_device_public = public, aa_device_kem = kem,
          aa_note = note\<rparr>)))))"

definition decode_ask :: "bytes \<Rightarrow> FormatError + AskAccess" where
  "decode_ask bs = bindR (tlv_values ask_step bs ask_decode_start) ask_finish"

section \<open>The queue\<close>

definition encode_pending :: "Pending \<Rightarrow> FormatError + bytes" where
  "encode_pending p =
     bindR (check_note (pe_note p) AT_NOTE) (\<lambda>_.
     write_fields
       [(AT_FILE_ID, pe_file_id p),
        (AT_DEVICE_FPR, pe_device_fpr p),
        (AT_DEVICE_PUBLIC, pe_device_public p),
        (AT_DEVICE_KEM, [pe_device_kem p]),
        (AT_NOTE, pe_note p),
        (AT_SEQ, le64 (pe_seq p)),
        (AT_AT, le64 (pe_at p))])"

record PendingDecoder =
  pk_file_id :: "bytes option"
  pk_fpr :: "bytes option"
  pk_public :: "bytes option"
  pk_kem :: "byte option"
  pk_note :: "bytes option"
  pk_seq :: "u64 option"
  pk_at :: "i64 option"

definition pending_decode_start :: PendingDecoder where
  "pending_decode_start =
     \<lparr>pk_file_id = None, pk_fpr = None, pk_public = None, pk_kem = None, pk_note = None,
      pk_seq = None, pk_at = None\<rparr>"

definition pending_step :: "u16 \<Rightarrow> bytes \<Rightarrow> PendingDecoder \<Rightarrow> FormatError + PendingDecoder" where
  "pending_step tag value d =
     (if tag = AT_FILE_ID then bindR (exact_len 16 tag value) (\<lambda>x. Inr (d\<lparr>pk_file_id := Some x\<rparr>))
      else if tag = AT_DEVICE_FPR then bindR (exact_len 32 tag value) (\<lambda>x. Inr (d\<lparr>pk_fpr := Some x\<rparr>))
      else if tag = AT_DEVICE_PUBLIC then Inr (d\<lparr>pk_public := Some value\<rparr>)
      else if tag = AT_DEVICE_KEM then bindR (one_byte tag value) (\<lambda>x. Inr (d\<lparr>pk_kem := Some x\<rparr>))
      else if tag = AT_NOTE then bindR (note_value AT_NOTE value) (\<lambda>x. Inr (d\<lparr>pk_note := Some x\<rparr>))
      else if tag = AT_SEQ then bindR (u64_le tag value) (\<lambda>x. Inr (d\<lparr>pk_seq := Some x\<rparr>))
      else if tag = AT_AT then bindR (u64_le tag value) (\<lambda>x. Inr (d\<lparr>pk_at := Some x\<rparr>))
      else bindR (refuse_if_critical tag) (\<lambda>_. Inr d))"

definition pending_finish :: "PendingDecoder \<Rightarrow> FormatError + Pending" where
  "pending_finish d =
     bindR (ok_or (MissingField AT_SEQ) (pk_seq d)) (\<lambda>seq.
     bindR (ok_or (MissingField AT_FILE_ID) (pk_file_id d)) (\<lambda>file_id.
     bindR (ok_or (MissingField AT_DEVICE_FPR) (pk_fpr d)) (\<lambda>fpr.
     bindR (ok_or (MissingField AT_DEVICE_PUBLIC) (pk_public d)) (\<lambda>public.
     bindR (ok_or (MissingField AT_DEVICE_KEM) (pk_kem d)) (\<lambda>kem.
     bindR (ok_or (MissingField AT_NOTE) (pk_note d)) (\<lambda>note.
     bindR (ok_or (MissingField AT_AT) (pk_at d)) (\<lambda>at.
     Inr \<lparr>pe_seq = seq, pe_file_id = file_id, pe_device_fpr = fpr, pe_device_public = public,
          pe_device_kem = kem, pe_note = note, pe_at = at\<rparr>)))))))"

definition decode_pending :: "bytes \<Rightarrow> FormatError + Pending" where
  "decode_pending bs = bindR (tlv_values pending_step bs pending_decode_start) pending_finish"

datatype QueueError = Torn string | Record FormatError | TooMany

text \<open>
  The loop of the two queue splitters: a length, a record, and the check of the number of records
  after each one.  Its messages are parameters because each queue words them in its own way.
\<close>

function queue_loop ::
    "(bytes \<Rightarrow> FormatError + 'a) \<Rightarrow> string \<Rightarrow> string \<Rightarrow> nat \<Rightarrow> bytes \<Rightarrow> 'a list \<Rightarrow> QueueError + 'a list" where
  "queue_loop decode torn short limit rest out =
     (if rest = [] then Inr out
      else case get_range rest 0 4 of
          None \<Rightarrow> Inl (Torn torn)
        | Some head \<Rightarrow>
            (let len = le_nat head in
             case get_range (drop 4 rest) 0 len of
               None \<Rightarrow> Inl (Torn short)
             | Some body \<Rightarrow>
                 (case decode body of
                    Inl e \<Rightarrow> Inl (Record e)
                  | Inr x \<Rightarrow>
                      (let out' = out @ [x];
                           rest' = (case get_range rest (saturating_add_usize 4 len) (length rest) of
                                      Some r \<Rightarrow> r | None \<Rightarrow> [])
                       in if length out' > limit then Inl TooMany
                          else queue_loop decode torn short limit rest' out'))))"
  by pat_completeness auto
termination
  by (relation "measure (\<lambda>(decode, torn, short, limit, rest, out). length rest)")
    (auto simp: get_range_def saturating_add_usize_def split: if_splits option.splits)

declare queue_loop.simps [simp del]

definition split_queue :: "bytes \<Rightarrow> QueueError + Pending list" where
  "split_queue rest =
     queue_loop decode_pending ''torn at the record length'' ''record shorter than its length''
       MAX_PENDING_PER_FILE rest []"

section \<open>Decisions\<close>

record Blob =
  bl_enc :: bytes
  bl_nonce :: bytes
  bl_ct :: bytes

record Decision =
  de_seq :: u64
  de_file_id :: bytes
  de_device_fpr :: bytes
  de_approve :: bool
  de_share_b :: "Blob option"
  de_author_key :: bytes
  de_signature :: bytes

definition blob_fields :: "Blob option \<Rightarrow> (u16 \<times> bytes) list" where
  "blob_fields share =
     (case share of
        Some blob \<Rightarrow> [(AT_ENC, bl_enc blob), (AT_NONCE, bl_nonce blob), (AT_CT, bl_ct blob)]
      | None \<Rightarrow> [])"

definition decision_body :: "Decision \<Rightarrow> FormatError + bytes" where
  "decision_body d =
     write_fields
       ([(AT_FILE_ID, de_file_id d),
         (AT_DEVICE_FPR, de_device_fpr d),
         (AT_SEQ, le64 (de_seq d)),
         (AT_APPROVE, [bool_byte (de_approve d)])] @
        blob_fields (de_share_b d) @
        [(AT_AUTHOR_KEY, de_author_key d)])"

definition decision_transcript :: "bytes \<Rightarrow> Transcript" where
  "decision_transcript body = body_transcript GRANT body"

definition encode_decision :: "Decision \<Rightarrow> FormatError + bytes" where
  "encode_decision d =
     bindR (decision_body d) (\<lambda>out.
     bindR (write_fields [(AT_SIGNATURE, de_signature d)]) (\<lambda>sig.
     Inr (out @ sig)))"

record DecisionDecoder =
  dk_seq :: "u64 option"
  dk_file_id :: "bytes option"
  dk_fpr :: "bytes option"
  dk_approve :: "bool option"
  dk_enc :: "bytes option"
  dk_nonce :: "bytes option"
  dk_ct :: "bytes option"
  dk_author_key :: "bytes option"
  dk_signature :: "bytes option"

definition decision_decode_start :: DecisionDecoder where
  "decision_decode_start =
     \<lparr>dk_seq = None, dk_file_id = None, dk_fpr = None, dk_approve = None, dk_enc = None,
      dk_nonce = None, dk_ct = None, dk_author_key = None, dk_signature = None\<rparr>"

definition decision_step :: "u16 \<Rightarrow> bytes \<Rightarrow> DecisionDecoder \<Rightarrow> FormatError + DecisionDecoder" where
  "decision_step tag value d =
     (if tag = AT_SEQ then bindR (u64_le tag value) (\<lambda>x. Inr (d\<lparr>dk_seq := Some x\<rparr>))
      else if tag = AT_FILE_ID then bindR (exact_len 16 tag value) (\<lambda>x. Inr (d\<lparr>dk_file_id := Some x\<rparr>))
      else if tag = AT_DEVICE_FPR then bindR (exact_len 32 tag value) (\<lambda>x. Inr (d\<lparr>dk_fpr := Some x\<rparr>))
      else if tag = AT_APPROVE then
        bindR (one_byte tag value) (\<lambda>b.
        bindR (flag_byte AT_APPROVE b) (\<lambda>x. Inr (d\<lparr>dk_approve := Some x\<rparr>)))
      else if tag = AT_ENC then Inr (d\<lparr>dk_enc := Some value\<rparr>)
      else if tag = AT_NONCE then bindR (exact_len 24 tag value) (\<lambda>x. Inr (d\<lparr>dk_nonce := Some x\<rparr>))
      else if tag = AT_CT then Inr (d\<lparr>dk_ct := Some value\<rparr>)
      else if tag = AT_AUTHOR_KEY then bindR (exact_len 32 tag value) (\<lambda>x. Inr (d\<lparr>dk_author_key := Some x\<rparr>))
      else if tag = AT_SIGNATURE then bindR (exact_len 64 tag value) (\<lambda>x. Inr (d\<lparr>dk_signature := Some x\<rparr>))
      else Inl (UnknownCriticalField tag))"

definition decision_share ::
    "bool \<Rightarrow> bytes option \<Rightarrow> bytes option \<Rightarrow> bytes option \<Rightarrow> FormatError + Blob option" where
  "decision_share approve enc nonce ct =
     (if approve then
        (case (enc, nonce, ct) of
           (Some e, Some n, Some k) \<Rightarrow> Inr (Some \<lparr>bl_enc = e, bl_nonce = n, bl_ct = k\<rparr>)
         | _ \<Rightarrow> Inl (MissingField AT_CT))
      else
        (case (enc, nonce, ct) of
           (None, None, None) \<Rightarrow> Inr None
         | _ \<Rightarrow> Inl (BadFieldLength AT_CT 0)))"

definition decision_finish :: "DecisionDecoder \<Rightarrow> FormatError + Decision" where
  "decision_finish d =
     bindR (ok_or (MissingField AT_APPROVE) (dk_approve d)) (\<lambda>approve.
     bindR (decision_share approve (dk_enc d) (dk_nonce d) (dk_ct d)) (\<lambda>share_b.
     bindR (ok_or (MissingField AT_SEQ) (dk_seq d)) (\<lambda>seq.
     bindR (ok_or (MissingField AT_FILE_ID) (dk_file_id d)) (\<lambda>file_id.
     bindR (ok_or (MissingField AT_DEVICE_FPR) (dk_fpr d)) (\<lambda>fpr.
     bindR (ok_or (MissingField AT_AUTHOR_KEY) (dk_author_key d)) (\<lambda>author_key.
     bindR (ok_or (MissingField AT_SIGNATURE) (dk_signature d)) (\<lambda>signature.
     Inr \<lparr>de_seq = seq, de_file_id = file_id, de_device_fpr = fpr, de_approve = approve,
          de_share_b = share_b, de_author_key = author_key, de_signature = signature\<rparr>)))))))"

definition decode_decision :: "bytes \<Rightarrow> FormatError + Decision" where
  "decode_decision bs = bindR (tlv_values decision_step bs decision_decode_start) decision_finish"

section \<open>Requests and queue records are read as they were written\<close>

lemma note_value_Inr:
  "note_value tag v = Inr x \<longleftrightarrow> x = v \<and> utf8_valid v \<and> check_note v tag = Inr ()"
  by (auto simp: note_value_def bindR_eq_Inr ok_or_eq_Inr from_utf8_def)

lemma check_note_Inr:
  "check_note v tag = Inr u \<longleftrightarrow> length v \<le> MAX_NOTE \<and> (\<forall>ch \<in> set (utf8_chars v). \<not> is_display_unsafe ch)"
  by (auto simp: check_note_def note_char_is_safe_def find_None_iff find_Some_iff split: option.splits)

text \<open>A note that may be shown to the author.\<close>

definition note_ok :: "bytes \<Rightarrow> bool" where
  "note_ok note \<longleftrightarrow> utf8_valid note \<and> length note \<le> MAX_NOTE \<and> (\<forall>ch \<in> set (utf8_chars note). \<not> is_display_unsafe ch)"

lemma note_value_ok: "note_value tag v = Inr x \<longleftrightarrow> x = v \<and> note_ok v"
  by (auto simp: note_value_Inr check_note_Inr note_ok_def)

lemma check_note_ok: "note_ok v \<Longrightarrow> check_note v tag = Inr ()"
  by (simp add: check_note_Inr note_ok_def)

definition pending_wf :: "Pending \<Rightarrow> bool" where
  "pending_wf p \<longleftrightarrow>
     length (pe_file_id p) = 16 \<and> length (pe_device_fpr p) = 32 \<and> length (pe_device_public p) < 4294967296 \<and>
     note_ok (pe_note p)"

definition pending_fields :: "Pending \<Rightarrow> (u16 \<times> bytes) list" where
  "pending_fields p =
     [(AT_FILE_ID, pe_file_id p), (AT_DEVICE_FPR, pe_device_fpr p), (AT_DEVICE_PUBLIC, pe_device_public p),
      (AT_DEVICE_KEM, [pe_device_kem p]), (AT_NOTE, pe_note p), (AT_SEQ, le64 (pe_seq p)), (AT_AT, le64 (pe_at p))]"

definition pending_tags :: "u16 list" where
  "pending_tags = [AT_FILE_ID, AT_DEVICE_FPR, AT_DEVICE_PUBLIC, AT_DEVICE_KEM, AT_NOTE, AT_SEQ, AT_AT]"

definition pending_get :: "u16 \<Rightarrow> PendingDecoder \<Rightarrow> bytes option" where
  "pending_get tag d =
     (if tag = AT_FILE_ID then pk_file_id d
      else if tag = AT_DEVICE_FPR then pk_fpr d
      else if tag = AT_DEVICE_PUBLIC then pk_public d
      else if tag = AT_DEVICE_KEM then map_option (\<lambda>b. [b]) (pk_kem d)
      else if tag = AT_NOTE then pk_note d
      else if tag = AT_SEQ then map_option (\<lambda>w. le64 w) (pk_seq d)
      else if tag = AT_AT then map_option (\<lambda>w. le64 w) (pk_at d)
      else None)"

definition pending_state :: "Pending \<Rightarrow> PendingDecoder" where
  "pending_state p =
     \<lparr>pk_file_id = Some (pe_file_id p), pk_fpr = Some (pe_device_fpr p), pk_public = Some (pe_device_public p),
      pk_kem = Some (pe_device_kem p), pk_note = Some (pe_note p), pk_seq = Some (pe_seq p), pk_at = Some (pe_at p)\<rparr>"

lemma pending_fields_ok: "pending_wf p \<Longrightarrow> ascending None (pending_fields p)"
  by (simp add: pending_fields_def pending_wf_def note_ok_def MAX_NOTE_def)

lemma encode_pending_fields: "pending_wf p \<Longrightarrow> encode_pending p = Inr (enc_fields (pending_fields p))"
  using pending_fields_ok [of p]
  by (simp add: encode_pending_def pending_wf_def check_note_ok pending_fields_def [symmetric] del: enc_fields_simps)

interpretation pending_reader: field_decoder pending_step pending_decode_start pending_tags "[]" pending_get
proof
  fix t v s s' u
  assume step: "pending_step t v s = Inr s'"
  show "pending_get u s' = (if u = t \<and> t \<in> set pending_tags then Some v else pending_get u s)"
    using step by (auto simp: pending_step_def pending_tags_def pending_get_def bindR_eq_Inr
        value_parsers_Inr note_value_Inr split: if_splits)
  show "t \<in> set pending_tags \<or> t \<in> set [] \<or> CRIT_TAG_MAX < t"
    using step by (auto simp: pending_step_def pending_tags_def bindR_eq_Inr refuse_if_critical_Inr
        split: if_splits)
qed (simp_all add: pending_tags_def pending_decode_start_def pending_get_def pending_step_def
    refuse_if_critical_optional)

lemma pending_finish_Inr: "pending_finish d = Inr p \<longleftrightarrow> d = pending_state p"
  by (cases d, cases p) (auto simp: pending_finish_def pending_state_def bindR_eq_Inr ok_or_eq_Inr)

lemma decode_pending_iff:
  "decode_pending body = Inr p \<longleftrightarrow>
     (length (pe_file_id p) = 16 \<and> length (pe_device_fpr p) = 32 \<and> note_ok (pe_note p)) \<and>
     carries pending_tags (pending_fields p) body"
proof -
  have "decode_pending body = Inr p \<longleftrightarrow> tlv_values pending_step body pending_decode_start = Inr (pending_state p)"
    by (auto simp: decode_pending_def bindR_eq_Inr pending_finish_Inr)
  also have "\<dots> \<longleftrightarrow> (length (pe_file_id p) = 16 \<and> length (pe_device_fpr p) = 32 \<and> note_ok (pe_note p)) \<and>
     carries pending_tags (pending_fields p) body"
    by (rule pending_reader.accepts_exactly)
      (auto simp: pending_tags_def pending_get_def pending_state_def pending_fields_def pending_step_def
        pending_decode_start_def bindR_eq_Inr note_value_ok exact_len_def)
  finally show ?thesis .
qed

lemma decode_pending_fields: "pending_wf p \<Longrightarrow> decode_pending (enc_fields (pending_fields p)) = Inr p"
  using carries_self [OF pending_fields_ok, of p pending_tags]
  by (simp add: decode_pending_iff pending_wf_def pending_fields_def pending_tags_def del: enc_fields_simps)

interpretation pending_codec: total_codec encode_pending decode_pending pending_wf
  by unfold_locales (auto simp: encode_pending_fields decode_pending_fields)

text \<open>A request is a queue record without its number and time, read by the same rules.\<close>

definition ask_wf :: "AskAccess \<Rightarrow> bool" where
  "ask_wf a \<longleftrightarrow>
     length (aa_file_id a) = 16 \<and> length (aa_device_fpr a) = 32 \<and> length (aa_device_public a) < 4294967296 \<and>
     note_ok (aa_note a)"

lemma decode_encode_ask:
  assumes "ask_wf a"
  shows "\<exists>bs. encode_ask a = Inr bs \<and> decode_ask bs = Inr a"
  using assms
  by (simp add: ask_wf_def encode_ask_def check_note_ok decode_ask_def note_ok_def [of "aa_note a"] MAX_NOTE_def
      ask_step_def ask_decode_start_def ask_finish_def exact_len_def note_value_Inr [THEN iffD2] check_note_Inr del: enc_fields_simps)

interpretation ask_codec: total_codec encode_ask decode_ask ask_wf
  using decode_encode_ask by unfold_locales fastforce+

section \<open>Queues\<close>

lemma queue_loop_item:
  assumes "next_item rest = Some (body, tail)"
  shows "queue_loop decode torn short limit rest out =
     (case decode body of
        Inl e \<Rightarrow> Inl (Record e)
      | Inr x \<Rightarrow> if length out < limit then queue_loop decode torn short limit tail (out @ [x]) else Inl TooMany)"
proof -
  note d = next_itemD [OF assms]
  have "rest \<noteq> []" using d(3) by auto
  moreover have "get_range rest 0 4 = Some (le_bytes 4 (length body))" by (subst d(1)) (simp add: get_range_def)
  moreover have "get_range (drop 4 rest) 0 (length body) = Some body" by (subst d(1)) (simp add: get_range_def)
  moreover have "saturating_add_usize 4 (length body) = 4 + length body"
    using d(2) by (simp add: saturating_add_usize_def)
  moreover have "get_range rest (4 + length body) (length rest) = Some tail"
    by (subst (1 2) d(1)) (simp add: get_range_def)
  ultimately show ?thesis
    using d(2) by (subst queue_loop.simps) (auto simp: le_nat_le_bytes Let_def split: sum.splits)
qed

lemma queue_loop_torn:
  assumes "rest \<noteq> []" and "next_item rest = None"
  shows "\<exists>what. queue_loop decode torn short limit rest out = Inl (Torn what)"
  using assms
  by (subst queue_loop.simps)
    (auto simp: next_item_def split_at_checked_def get_range_def Let_def split: if_splits option.splits)

lemma queue_loop_Nil [simp]: "queue_loop decode torn short limit [] out = Inr out"
  by (subst queue_loop.simps) simp

lemma queue_loop_Inr:
  "queue_loop decode torn short limit rest out = Inr xs \<longleftrightarrow>
     (\<exists>items ys. rest = enc_stream items \<and> (\<forall>item \<in> set items. length item < 4294967296) \<and>
        xs = out @ ys \<and> map decode items = map Inr ys \<and> (ys = [] \<or> length xs \<le> limit))"
proof (induction rest arbitrary: out rule: measure_induct_rule [of length])
  case (less rest)
  consider (empty) "rest = []" | (torn) "rest \<noteq> []" "next_item rest = None"
    | (item) body tail where "next_item rest = Some (body, tail)" by fastforce
  then show ?case
  proof cases
    case empty
    then show ?thesis by auto
  next
    case torn
    have "rest \<noteq> enc_stream items" if "\<forall>item \<in> set items. length item < 4294967296" for items
      using torn that by (cases items) auto
    moreover obtain what where "queue_loop decode torn short limit rest out = Inl (Torn what)"
      using queue_loop_torn [OF torn] by blast
    ultimately show ?thesis by auto
  next
    case item
    note d = next_itemD [OF item]
    have cons: "rest = enc_stream items \<and> (\<forall>item \<in> set items. length item < 4294967296) \<longleftrightarrow>
        (\<exists>rest'. items = body # rest' \<and> tail = enc_stream rest' \<and> (\<forall>item \<in> set rest'. length item < 4294967296))" for items
    proof (cases items)
      case (Cons i rest')
      show ?thesis
      proof (cases "length i < 4294967296 \<and> rest = enc_stream (i # rest')")
        case True
        then have "next_item rest = Some (i, enc_stream rest')" by simp
        with item d True Cons show ?thesis by auto
      qed (use d(1,2) Cons in auto)
    qed (use d(3) in auto)
    have "(\<exists>items ys. rest = enc_stream items \<and> (\<forall>item \<in> set items. length item < 4294967296) \<and>
          xs = out @ ys \<and> map decode items = map Inr ys \<and> (ys = [] \<or> length xs \<le> limit)) \<longleftrightarrow>
        (\<exists>items ys. (\<exists>rest'. items = body # rest' \<and> tail = enc_stream rest' \<and>
            (\<forall>item \<in> set rest'. length item < 4294967296)) \<and>
          xs = out @ ys \<and> map decode items = map Inr ys \<and> (ys = [] \<or> length xs \<le> limit))"
      unfolding cons [symmetric] by blast
    also have "\<dots> \<longleftrightarrow> (\<exists>x rest' ys. decode body = Inr x \<and> tail = enc_stream rest' \<and>
          (\<forall>item \<in> set rest'. length item < 4294967296) \<and> map decode rest' = map Inr ys \<and>
          xs = out @ x # ys \<and> length xs \<le> limit)"
      by (fastforce simp: Cons_eq_map_conv)
    also have "\<dots> \<longleftrightarrow> (\<exists>x. decode body = Inr x \<and> length out < limit \<and>
          queue_loop decode torn short limit tail (out @ [x]) = Inr xs)"
      unfolding less.IH [OF d(3)] by fastforce
    finally show ?thesis unfolding queue_loop_item [OF item] by (auto split: sum.splits)
  qed
qed

section \<open>Decisions have one encoding\<close>

definition decision_wf :: "Decision \<Rightarrow> bool" where
  "decision_wf d \<longleftrightarrow>
     length (de_file_id d) = 16 \<and> length (de_device_fpr d) = 32 \<and> length (de_author_key d) = 32 \<and>
     length (de_signature d) = 64 \<and> (de_approve d \<longleftrightarrow> de_share_b d \<noteq> None) \<and>
     (\<forall>b. de_share_b d = Some b \<longrightarrow>
        length (bl_enc b) < 4294967296 \<and> length (bl_nonce b) = 24 \<and> length (bl_ct b) < 4294967296)"

definition decision_tags :: "u16 list" where
  "decision_tags = [AT_FILE_ID, AT_DEVICE_FPR, AT_SEQ, AT_APPROVE, AT_ENC, AT_NONCE, AT_CT, AT_AUTHOR_KEY, AT_SIGNATURE]"

definition decision_get :: "u16 \<Rightarrow> DecisionDecoder \<Rightarrow> bytes option" where
  "decision_get tag d =
     (if tag = AT_FILE_ID then dk_file_id d
      else if tag = AT_DEVICE_FPR then dk_fpr d
      else if tag = AT_SEQ then map_option (\<lambda>w. le64 w) (dk_seq d)
      else if tag = AT_APPROVE then map_option (\<lambda>b. [bool_byte b]) (dk_approve d)
      else if tag = AT_ENC then dk_enc d
      else if tag = AT_NONCE then dk_nonce d
      else if tag = AT_CT then dk_ct d
      else if tag = AT_AUTHOR_KEY then dk_author_key d
      else if tag = AT_SIGNATURE then dk_signature d
      else None)"

definition decision_fields :: "Decision \<Rightarrow> (u16 \<times> bytes) list" where
  "decision_fields d =
     [(AT_FILE_ID, de_file_id d), (AT_DEVICE_FPR, de_device_fpr d), (AT_SEQ, le64 (de_seq d)),
      (AT_APPROVE, [bool_byte (de_approve d)])] @ blob_fields (de_share_b d) @
     [(AT_AUTHOR_KEY, de_author_key d), (AT_SIGNATURE, de_signature d)]"

definition decision_state :: "Decision \<Rightarrow> DecisionDecoder" where
  "decision_state d =
     \<lparr>dk_seq = Some (de_seq d), dk_file_id = Some (de_file_id d), dk_fpr = Some (de_device_fpr d),
      dk_approve = Some (de_approve d), dk_enc = map_option bl_enc (de_share_b d),
      dk_nonce = map_option bl_nonce (de_share_b d), dk_ct = map_option bl_ct (de_share_b d),
      dk_author_key = Some (de_author_key d), dk_signature = Some (de_signature d)\<rparr>"

lemma encode_decision_fields:
  assumes "decision_wf d"
  shows "encode_decision d = Inr (enc_fields (decision_fields d))" and "ascending None (decision_fields d)"
  using assms
  by (cases "de_share_b d";
      simp add: encode_decision_def decision_body_def decision_fields_def blob_fields_def decision_wf_def)+

lemma decision_get_upd:
  "decision_get u (d\<lparr>dk_file_id := b\<rparr>) = (if u = AT_FILE_ID then b else decision_get u d)"
  "decision_get u (d\<lparr>dk_fpr := b\<rparr>) = (if u = AT_DEVICE_FPR then b else decision_get u d)"
  "decision_get u (d\<lparr>dk_seq := n\<rparr>) = (if u = AT_SEQ then map_option (\<lambda>w. le64 w) n else decision_get u d)"
  "decision_get u (d\<lparr>dk_approve := y\<rparr>) =
     (if u = AT_APPROVE then map_option (\<lambda>b. [bool_byte b]) y else decision_get u d)"
  "decision_get u (d\<lparr>dk_enc := b\<rparr>) = (if u = AT_ENC then b else decision_get u d)"
  "decision_get u (d\<lparr>dk_nonce := b\<rparr>) = (if u = AT_NONCE then b else decision_get u d)"
  "decision_get u (d\<lparr>dk_ct := b\<rparr>) = (if u = AT_CT then b else decision_get u d)"
  "decision_get u (d\<lparr>dk_author_key := b\<rparr>) = (if u = AT_AUTHOR_KEY then b else decision_get u d)"
  "decision_get u (d\<lparr>dk_signature := b\<rparr>) = (if u = AT_SIGNATURE then b else decision_get u d)"
  by (simp_all add: decision_get_def)

interpretation decision_reader: strict_decoder decision_step decision_decode_start decision_tags decision_get
proof
  fix t v s s' u
  assume step: "decision_step t v s = Inr s'"
  show "decision_get u s' = (if u = t \<and> t \<in> set decision_tags then Some v else decision_get u s)"
    using step by (auto simp: decision_step_def decision_tags_def decision_get_upd bindR_eq_Inr
        value_parsers_Inr simp del: if_split split: if_splits)
  show "t \<in> set decision_tags"
    using step by (auto simp: decision_step_def decision_tags_def split: if_splits)
qed (simp_all add: decision_tags_def decision_decode_start_def decision_get_def)

lemma decision_share_Inr:
  "decision_share approve enc nonce ct = Inr share \<longleftrightarrow>
     (approve \<longleftrightarrow> share \<noteq> None) \<and> enc = map_option bl_enc share \<and> nonce = map_option bl_nonce share \<and>
     ct = map_option bl_ct share"
  by (cases share) (auto simp: decision_share_def split: option.splits)

lemma decision_finish_Inr:
  "decision_finish s = Inr d \<longleftrightarrow> (de_approve d \<longleftrightarrow> de_share_b d \<noteq> None) \<and> s = decision_state d"
  by (cases s, cases d) (auto simp: decision_finish_def decision_state_def bindR_eq_Inr ok_or_eq_Inr decision_share_Inr)

lemma decision_run:
  "run_fields decision_step (decision_fields d) decision_decode_start = Inr (decision_state d) \<longleftrightarrow>
     length (de_file_id d) = 16 \<and> length (de_device_fpr d) = 32 \<and> length (de_author_key d) = 32 \<and>
     length (de_signature d) = 64 \<and> (\<forall>b. de_share_b d = Some b \<longrightarrow> length (bl_nonce b) = 24)"
  by (cases "de_share_b d")
    (auto simp: decision_fields_def blob_fields_def decision_step_def decision_decode_start_def decision_state_def
      bindR_eq_Inr exact_len_def simp del: if_split split: if_splits)

lemma decode_decision_iff:
  "decode_decision bs = Inr d \<longleftrightarrow> decision_wf d \<and> bs = enc_fields (decision_fields d)"
proof -
  have get: "concat (map (\<lambda>t. opt_field t (decision_get t (decision_state d))) decision_tags) = decision_fields d"
    by (cases "de_share_b d")
      (simp_all add: decision_tags_def decision_get_def decision_state_def decision_fields_def blob_fields_def)
  have "decode_decision bs = Inr d \<longleftrightarrow>
      (de_approve d \<longleftrightarrow> de_share_b d \<noteq> None) \<and>
      tlv_values decision_step bs decision_decode_start = Inr (decision_state d)"
    by (auto simp: decode_decision_def bindR_eq_Inr decision_finish_Inr)
  also have "\<dots> \<longleftrightarrow> decision_wf d \<and> bs = enc_fields (decision_fields d)"
  proof
    assume a: "(de_approve d \<longleftrightarrow> de_share_b d \<noteq> None) \<and>
      tlv_values decision_step bs decision_decode_start = Inr (decision_state d)"
    obtain fs where fs: "bs = enc_fields fs" "ascending None fs"
      "run_fields decision_step fs decision_decode_start = Inr (decision_state d)"
      "filter (\<lambda>tv. fst tv \<in> set decision_tags) fs = decision_fields d"
      using decision_reader.accepted_known [OF conjunct2 [OF a]] unfolding get by blast
    moreover have "fs = decision_fields d" using decision_reader.run_strict [OF fs(3)] fs(4) by simp
    ultimately have fs: "bs = enc_fields (decision_fields d)" "ascending None (decision_fields d)"
      "run_fields decision_step (decision_fields d) decision_decode_start = Inr (decision_state d)" by simp_all
    then have "ascending None (decision_fields d)" by simp
    then have "\<forall>b. de_share_b d = Some b \<longrightarrow> length (bl_enc b) < 4294967296 \<and> length (bl_ct b) < 4294967296"
      by (auto simp: decision_fields_def blob_fields_def)
    with fs a show "decision_wf d \<and> bs = enc_fields (decision_fields d)"
      using decision_run [of d] by (auto simp: decision_wf_def)
  next
    assume "decision_wf d \<and> bs = enc_fields (decision_fields d)"
    then show "(de_approve d \<longleftrightarrow> de_share_b d \<noteq> None) \<and>
        tlv_values decision_step bs decision_decode_start = Inr (decision_state d)"
      using encode_decision_fields(2) [of d] decision_run [of d] by (simp add: decision_wf_def del: enc_fields_simps)
  qed
  finally show ?thesis .
qed

section \<open>Properties\<close>

text \<open>
  A decision has exactly one encoding.  The decoder accepts a byte string as a decision
  precisely when that decision is well formed and encodes to these very bytes: no optional or
  reordered field can be added to a signed decision, an approval always carries the recipient's
  key share, and a refusal never does.
\<close>

theorem decision_exact:
  "decode_decision bs = Inr d \<longleftrightarrow> decision_wf d \<and> encode_decision d = Inr bs"
  using encode_decision_fields(1) [of d] decode_decision_iff [of bs d] by auto

text \<open>
  A queue of requests is read whole or not at all.  The reply is accepted with a list of
  requests exactly when it is the concatenation of their length-prefixed records and each record
  decodes to the request at its place; then there are at most sixteen of them, so a server cannot
  make the reader keep more than the limit.
\<close>

theorem queue_exact:
  "split_queue rest = Inr ps \<longleftrightarrow>
     (\<exists>items. rest = enc_stream items \<and> (\<forall>item \<in> set items. length item < 4294967296) \<and>
        map decode_pending items = map Inr ps \<and> length ps \<le> 16)"
  by (auto simp: split_queue_def queue_loop_Inr MAX_PENDING_PER_FILE_def)

definition demo_pending :: Pending where
  "demo_pending =
     \<lparr>pe_seq = 7, pe_file_id = replicate 16 0x11, pe_device_fpr = replicate 32 0x22,
      pe_device_public = replicate 32 0x33, pe_device_kem = 1, pe_note = [0x50, 0x65, 0x74, 0x72],
      pe_at = 1755561600\<rparr>"

lemma demo_pending_wf: "pending_wf demo_pending"
  by (simp add: pending_wf_def demo_pending_def note_ok_def MAX_NOTE_def is_display_unsafe_def BIDI_def
      INVISIBLE_def SEPARATORS_def TAG_FIRST_def TAG_LAST_def is_control_def)

theorem queue_exact_witness:
  "split_queue (enc_stream [enc_fields (pending_fields demo_pending), enc_fields (pending_fields demo_pending)]) =
     Inr [demo_pending, demo_pending]"
proof -
  have "length (enc_fields (pending_fields demo_pending)) = 143"
    by (simp add: pending_fields_def demo_pending_def)
  then show ?thesis
    unfolding queue_exact
    by (intro exI [of _ "[enc_fields (pending_fields demo_pending), enc_fields (pending_fields demo_pending)]"])
      (simp add: decode_pending_fields [OF demo_pending_wf] del: enc_stream_simps)
qed

end
