(* ===== verification/OC_Action.thy ===== *)
theory OC_Action
  imports OC_Document OC_Text
begin

text \<open>
  The rules for actions an agent may perform outside a document, the first half of
  \<^verbatim>\<open>oc-protocol/src/action.rs\<close>: kinds, limiters, arguments, the shape of names and paths, the
  check that arguments lie within a rule and the check that a delegated rule is narrower than
  its parent.  The lemmas read the path checks as statements about path components; the
  properties say that a permitted path stays inside its prefix and that delegation never widens
  what is permitted.
\<close>

section \<open>Kinds, limiters and arguments\<close>

definition ACTION_LEASE_SECONDS :: i64 where "ACTION_LEASE_SECONDS = 30"
definition MAX_ACTION_RULES :: nat where "MAX_ACTION_RULES = 32"
definition MAX_ACTION_NAME :: nat where "MAX_ACTION_NAME = 128"
definition MAX_ACTION_PATH :: nat where "MAX_ACTION_PATH = 512"
definition MAX_BODY_LEN :: u32 where "MAX_BODY_LEN = 1024 * 1024"

datatype ActionKind = GitPush | TreeRemove | TreeRename | HttpRequest

fun kind_as_u16 :: "ActionKind \<Rightarrow> u16" where
  "kind_as_u16 GitPush = 1"
| "kind_as_u16 TreeRemove = 2"
| "kind_as_u16 TreeRename = 3"
| "kind_as_u16 HttpRequest = 4"

definition kind_from_u16 :: "u16 \<Rightarrow> u16 \<Rightarrow> FormatError + ActionKind" where
  "kind_from_u16 value tag =
     (if value = 1 then Inr GitPush
      else if value = 2 then Inr TreeRemove
      else if value = 3 then Inr TreeRename
      else if value = 4 then Inr HttpRequest
      else Inl (BadFieldLength tag 2))"

datatype Method = Get | Head | Post | Put | Patch | Delete

fun method_as_u8 :: "Method \<Rightarrow> byte" where
  "method_as_u8 Get = 1"
| "method_as_u8 Head = 2"
| "method_as_u8 Post = 3"
| "method_as_u8 Put = 4"
| "method_as_u8 Patch = 5"
| "method_as_u8 Delete = 6"

definition method_from_u8 :: "byte \<Rightarrow> u16 \<Rightarrow> FormatError + Method" where
  "method_from_u8 value tag =
     (if value = 1 then Inr Get
      else if value = 2 then Inr Head
      else if value = 3 then Inr Post
      else if value = 4 then Inr Put
      else if value = 5 then Inr Patch
      else if value = 6 then Inr Delete
      else Inl (BadFieldLength tag 1))"

text \<open>The derived order of \<^verbatim>\<open>Method\<close> is that of its discriminants.\<close>

instantiation Method :: linorder
begin
definition less_eq_Method :: "Method \<Rightarrow> Method \<Rightarrow> bool" where
  "less_eq_Method a b = (method_as_u8 a \<le> method_as_u8 b)"
definition less_Method :: "Method \<Rightarrow> Method \<Rightarrow> bool" where
  "less_Method a b = (method_as_u8 a < method_as_u8 b)"
instance
proof
  fix a b :: Method
  show "a \<le> b \<Longrightarrow> b \<le> a \<Longrightarrow> a = b"
    by (cases a; cases b) (simp_all add: less_eq_Method_def word_le_nat_alt)
qed (auto simp: less_eq_Method_def less_Method_def)
end

text \<open>\<open>CGitPush remote branch\<close>, \<open>CHttpRequest host methods path_prefix secret_ref\<close> and so on.\<close>

datatype Constraint =
    CGitPush bytes bytes
  | CTreeRemove bytes
  | CTreeRename bytes bytes
  | CHttpRequest bytes "Method list" bytes "bytes option"

fun constraint_kind :: "Constraint \<Rightarrow> ActionKind" where
  "constraint_kind (CGitPush _ _) = GitPush"
| "constraint_kind (CTreeRemove _) = TreeRemove"
| "constraint_kind (CTreeRename _ _) = TreeRename"
| "constraint_kind (CHttpRequest _ _ _ _) = HttpRequest"

record ActionRule =
  ar_kind :: ActionKind
  ar_constraint :: Constraint
  ar_max_uses :: u32
  ar_confirm :: bool
  ar_delegable :: bool

text \<open>\<open>AHttpRequest host method path body_digest body_len\<close>.\<close>

datatype Args =
    AGitPush bytes bytes
  | ATreeRemove bytes
  | ATreeRename bytes bytes
  | AHttpRequest bytes Method bytes bytes u32

fun args_kind :: "Args \<Rightarrow> ActionKind" where
  "args_kind (AGitPush _ _) = GitPush"
| "args_kind (ATreeRemove _) = TreeRemove"
| "args_kind (ATreeRename _ _) = TreeRename"
| "args_kind (AHttpRequest _ _ _ _ _) = HttpRequest"

abbreviation (input) FT_REMOTE :: u16 where "FT_REMOTE \<equiv> 1"
abbreviation (input) FT_BRANCH :: u16 where "FT_BRANCH \<equiv> 2"
abbreviation (input) FT_PATH :: u16 where "FT_PATH \<equiv> 3"
abbreviation (input) FT_FROM :: u16 where "FT_FROM \<equiv> 4"
abbreviation (input) FT_TO :: u16 where "FT_TO \<equiv> 5"
abbreviation (input) FT_HOST :: u16 where "FT_HOST \<equiv> 6"
abbreviation (input) FT_METHODS :: u16 where "FT_METHODS \<equiv> 7"
abbreviation (input) FT_PATH_PREFIX :: u16 where "FT_PATH_PREFIX \<equiv> 8"
abbreviation (input) FT_SECRET_REF :: u16 where "FT_SECRET_REF \<equiv> 9"
abbreviation (input) FT_BODY_DIGEST :: u16 where "FT_BODY_DIGEST \<equiv> 10"
abbreviation (input) FT_BODY_LEN :: u16 where "FT_BODY_LEN \<equiv> 11"

section \<open>Shapes of names and paths\<close>

text \<open>Characters, as bytes: hyphen, full stop, slash, underscore, tilde and percent sign.\<close>

abbreviation (input) HYPHEN :: byte where "HYPHEN \<equiv> 0x2D"
abbreviation (input) DOT :: byte where "DOT \<equiv> 0x2E"
abbreviation (input) SLASH :: byte where "SLASH \<equiv> 0x2F"
abbreviation (input) UNDERSCORE :: byte where "UNDERSCORE \<equiv> 0x5F"
abbreviation (input) TILDE :: byte where "TILDE \<equiv> 0x7E"
abbreviation (input) PERCENT :: byte where "PERCENT \<equiv> 0x25"

definition is_ascii_lowercase :: "byte \<Rightarrow> bool" where "is_ascii_lowercase b \<longleftrightarrow> 0x61 \<le> b \<and> b \<le> 0x7A"
definition is_ascii_uppercase :: "byte \<Rightarrow> bool" where "is_ascii_uppercase b \<longleftrightarrow> 0x41 \<le> b \<and> b \<le> 0x5A"
definition is_ascii_digit :: "byte \<Rightarrow> bool" where "is_ascii_digit b \<longleftrightarrow> 0x30 \<le> b \<and> b \<le> 0x39"

definition is_ascii_alphanumeric :: "byte \<Rightarrow> bool" where
  "is_ascii_alphanumeric b \<longleftrightarrow> is_ascii_lowercase b \<or> is_ascii_uppercase b \<or> is_ascii_digit b"

text \<open>\<^verbatim>\<open>str::split\<close> on an ASCII character: one part more than there are separators.\<close>

fun split_on :: "'a \<Rightarrow> 'a list \<Rightarrow> 'a list list" where
  "split_on c [] = [[]]"
| "split_on c (x # xs) =
     (if x = c then [] # split_on c xs
      else (x # hd (split_on c xs)) # tl (split_on c xs))"

text \<open>The first byte that does not pass a test is reported.\<close>

definition check_bytes :: "(byte \<Rightarrow> bool) \<Rightarrow> bytes \<Rightarrow> u16 \<Rightarrow> FormatError + unit" where
  "check_bytes ok text tag =
     (case find (\<lambda>b. \<not> ok b) text of Some b \<Rightarrow> Inl (BadAddressByte tag b) | None \<Rightarrow> Inr ())"

definition check_len :: "nat \<Rightarrow> bytes \<Rightarrow> u16 \<Rightarrow> FormatError + unit" where
  "check_len limit text tag =
     ensure (\<not> (text = [] \<or> length text > limit)) (BadFieldLength tag (length text))"

definition starts_with :: "'a \<Rightarrow> 'a list \<Rightarrow> bool" where
  "starts_with c text \<longleftrightarrow> text \<noteq> [] \<and> hd text = c"

definition ends_with :: "'a \<Rightarrow> 'a list \<Rightarrow> bool" where
  "ends_with c text \<longleftrightarrow> text \<noteq> [] \<and> last text = c"

definition name_char_ok :: "byte \<Rightarrow> bool" where
  "name_char_ok c \<longleftrightarrow> is_ascii_alphanumeric c \<or> c \<in> {HYPHEN, UNDERSCORE, DOT}"

definition check_name :: "bytes \<Rightarrow> u16 \<Rightarrow> FormatError + unit" where
  "check_name text tag =
     bindR (check_len MAX_ACTION_NAME text tag) (\<lambda>_.
     bindR (check_bytes name_char_ok text tag) (\<lambda>_.
     ensure (\<not> starts_with HYPHEN text) (BadAddressByte tag HYPHEN)))"

definition check_host :: "bytes \<Rightarrow> u16 \<Rightarrow> FormatError + unit" where
  "check_host text tag =
     bindR (check_len MAX_ACTION_NAME text tag) (\<lambda>_.
     bindR (check_bytes (\<lambda>b. is_ascii_lowercase b \<or> is_ascii_digit b \<or> b = HYPHEN \<or> b = DOT) text tag) (\<lambda>_.
     foldR (\<lambda>label _.
         ensure (\<not> (label = [] \<or> starts_with HYPHEN label \<or> ends_with HYPHEN label)) (BadAddressByte tag DOT))
       (split_on DOT text) ()))"

definition check_secret_ref :: "bytes \<Rightarrow> u16 \<Rightarrow> FormatError + unit" where
  "check_secret_ref text tag =
     bindR (check_len MAX_ACTION_NAME text tag) (\<lambda>_.
     check_bytes (\<lambda>b. is_ascii_uppercase b \<or> is_ascii_digit b \<or> b = UNDERSCORE) text tag)"

definition components :: "bytes \<Rightarrow> bytes list" where
  "components path = filter (\<lambda>part. part \<noteq> []) (split_on SLASH path)"

definition check_path_parts :: "bytes \<Rightarrow> u16 \<Rightarrow> FormatError + unit" where
  "check_path_parts text tag =
     foldR (\<lambda>part _. ensure (\<not> (part = [] \<or> part = [DOT] \<or> part = [DOT, DOT])) (BadAddressByte tag DOT))
       (split_on SLASH text) ()"

definition check_tree_path :: "bytes \<Rightarrow> u16 \<Rightarrow> FormatError + unit" where
  "check_tree_path text tag =
     bindR (check_len MAX_ACTION_PATH text tag) (\<lambda>_.
     bindR (check_bytes (\<lambda>b. name_char_ok b \<or> b = SLASH) text tag) (\<lambda>_.
     bindR (ensure (\<not> starts_with SLASH text) (BadAddressByte tag SLASH)) (\<lambda>_.
     check_path_parts text tag)))"

definition check_http_path :: "bytes \<Rightarrow> u16 \<Rightarrow> FormatError + unit" where
  "check_http_path text tag =
     bindR (check_len MAX_ACTION_PATH text tag) (\<lambda>_.
     bindR (check_bytes (\<lambda>b. name_char_ok b \<or> b \<in> {SLASH, TILDE, PERCENT}) text tag) (\<lambda>_.
     bindR (ok_or (BadAddressByte tag SLASH) (if starts_with SLASH text then Some (tl text) else None)) (\<lambda>rest.
     if rest = [] then Inr () else check_path_parts rest tag)))"

text \<open>The walk along the components of the path and of its prefix.\<close>

fun parts_under :: "bytes list \<Rightarrow> bytes list \<Rightarrow> bool" where
  "parts_under [] got = True"
| "parts_under (want # wants) [] = False"
| "parts_under (want # wants) (part # got) = (if part = want then parts_under wants got else False)"

definition path_under :: "bytes \<Rightarrow> bytes \<Rightarrow> bool" where
  "path_under pre path = parts_under (components pre) (components path)"

section \<open>Arguments within a rule\<close>

datatype ActionRefusal =
    WrongKind
  | NotEqual string
  | OutsidePrefix string
  | BadPath string
  | MethodNotAllowed
  | BodyTooLarge u32
  | ConfirmNotDelegable
  | NotDelegable
  | MoreUses
  | WiderLimiter string
  | SecretRefChanged

definition under_tree_prefix :: "bytes \<Rightarrow> bytes \<Rightarrow> string \<Rightarrow> ActionRefusal + unit" where
  "under_tree_prefix pre path limiter =
     (if \<not> is_ok (check_tree_path path FT_PATH) \<or> \<not> is_ok (check_tree_path pre FT_PATH) then Inl (BadPath limiter)
      else if path_under pre path then Inr () else Inl (OutsidePrefix limiter))"

definition args_within :: "ActionRule \<Rightarrow> Args \<Rightarrow> ActionRefusal + unit" where
  "args_within rule args =
     (if ar_kind rule \<noteq> args_kind args \<or> constraint_kind (ar_constraint rule) \<noteq> args_kind args then Inl WrongKind
      else case (ar_constraint rule, args) of
          (CGitPush remote branch, AGitPush want_remote want_branch) \<Rightarrow>
            bindR (ensure (\<not> remote \<noteq> want_remote) (NotEqual ''remote'')) (\<lambda>_.
            ensure (\<not> branch \<noteq> want_branch) (NotEqual ''branch''))
        | (CTreeRemove pre, ATreeRemove path) \<Rightarrow> under_tree_prefix pre path ''prefix''
        | (CTreeRename from_prefix to_prefix, ATreeRename from_path to_path) \<Rightarrow>
            bindR (under_tree_prefix from_prefix from_path ''from_prefix'') (\<lambda>_.
            under_tree_prefix to_prefix to_path ''to_prefix'')
        | (CHttpRequest host methods path_prefix _, AHttpRequest want_host method path _ body_len) \<Rightarrow>
            bindR (ensure (\<not> host \<noteq> want_host) (NotEqual ''host'')) (\<lambda>_.
            bindR (ensure (method \<in> set methods) MethodNotAllowed) (\<lambda>_.
            bindR (ensure (\<not> (\<not> is_ok (check_http_path path FT_PATH_PREFIX) \<or>
                \<not> is_ok (check_http_path path_prefix FT_PATH_PREFIX))) (BadPath ''path_prefix'')) (\<lambda>_.
            bindR (ensure (path_under path_prefix path) (OutsidePrefix ''path_prefix'')) (\<lambda>_.
            ensure (\<not> body_len > MAX_BODY_LEN) (BodyTooLarge body_len)))))
        | _ \<Rightarrow> Inl WrongKind)"

section \<open>Narrower rules\<close>

definition uses_within :: "u32 \<Rightarrow> u32 \<Rightarrow> bool" where
  "uses_within child parent = (if parent = 0 then True else child \<noteq> 0 \<and> child \<le> parent)"

definition narrower_prefix :: "bytes \<Rightarrow> bytes \<Rightarrow> string \<Rightarrow> ActionRefusal + unit" where
  "narrower_prefix parent child limiter =
     (if path_under parent child then Inr () else Inl (WiderLimiter limiter))"

definition secret_kept :: "bytes option \<Rightarrow> bytes option \<Rightarrow> ActionRefusal + unit" where
  "secret_kept secret_ref parent_secret =
     (case (secret_ref, parent_secret) of
        (None, _) \<Rightarrow> Inr ()
      | (Some mine, Some theirs) \<Rightarrow> if mine = theirs then Inr () else Inl SecretRefChanged
      | _ \<Rightarrow> Inl SecretRefChanged)"

definition narrower :: "ActionRule \<Rightarrow> ActionRule \<Rightarrow> ActionRefusal + unit" where
  "narrower child parent =
     bindR (ensure (\<not> ar_kind child \<noteq> ar_kind parent) WrongKind) (\<lambda>_.
     bindR (ensure (\<not> ar_confirm parent) ConfirmNotDelegable) (\<lambda>_.
     bindR (ensure (ar_delegable parent) NotDelegable) (\<lambda>_.
     bindR (ensure (uses_within (ar_max_uses child) (ar_max_uses parent)) MoreUses) (\<lambda>_.
     case (ar_constraint child, ar_constraint parent) of
       (CGitPush remote branch, CGitPush parent_remote parent_branch) \<Rightarrow>
         bindR (ensure (\<not> remote \<noteq> parent_remote) (WiderLimiter ''remote'')) (\<lambda>_.
         ensure (\<not> branch \<noteq> parent_branch) (WiderLimiter ''branch''))
     | (CTreeRemove pre, CTreeRemove parent_prefix) \<Rightarrow> narrower_prefix parent_prefix pre ''prefix''
     | (CTreeRename from_prefix to_prefix, CTreeRename parent_from parent_to) \<Rightarrow>
         bindR (narrower_prefix parent_from from_prefix ''from_prefix'') (\<lambda>_.
         narrower_prefix parent_to to_prefix ''to_prefix'')
     | (CHttpRequest host methods path_prefix secret_ref,
        CHttpRequest parent_host parent_methods parent_prefix parent_secret) \<Rightarrow>
         bindR (ensure (\<not> host \<noteq> parent_host) (WiderLimiter ''host'')) (\<lambda>_.
         bindR (ensure (list_all (\<lambda>m. m \<in> set parent_methods) methods) (WiderLimiter ''methods'')) (\<lambda>_.
         bindR (narrower_prefix parent_prefix path_prefix ''path_prefix'') (\<lambda>_.
         secret_kept secret_ref parent_secret)))
     | _ \<Rightarrow> Inl WrongKind))))"

section \<open>Shapes of limiters and arguments\<close>

text \<open>The pairs \<^verbatim>\<open>windows(2)\<close> of a list are its elements with their successors.\<close>

definition check_methods :: "Method list \<Rightarrow> u16 \<Rightarrow> FormatError + unit" where
  "check_methods methods tag =
     bindR (ensure (methods \<noteq> []) (BadFieldLength tag 0)) (\<lambda>_.
     foldR (\<lambda>(a, b) _.
         ensure (\<not> a \<ge> b) (FieldsOutOfOrder (ucast (method_as_u8 a)) (ucast (method_as_u8 b))))
       (zip methods (tl methods)) ())"

definition check_constraint_shape :: "Constraint \<Rightarrow> FormatError + unit" where
  "check_constraint_shape limit =
     (case limit of
        CGitPush remote branch \<Rightarrow>
          bindR (check_name remote FT_REMOTE) (\<lambda>_. check_tree_path branch FT_BRANCH)
      | CTreeRemove pre \<Rightarrow> check_tree_path pre FT_PATH
      | CTreeRename from_prefix to_prefix \<Rightarrow>
          bindR (check_tree_path from_prefix FT_FROM) (\<lambda>_. check_tree_path to_prefix FT_TO)
      | CHttpRequest host methods path_prefix secret_ref \<Rightarrow>
          bindR (check_host host FT_HOST) (\<lambda>_.
          bindR (check_methods methods FT_METHODS) (\<lambda>_.
          bindR (check_http_path path_prefix FT_PATH_PREFIX) (\<lambda>_.
          case secret_ref of
            Some reference \<Rightarrow> check_secret_ref reference FT_SECRET_REF
          | None \<Rightarrow> Inr ()))))"

definition check_rule_shape :: "ActionRule \<Rightarrow> FormatError + unit" where
  "check_rule_shape rule =
     bindR (ensure (\<not> ar_kind rule \<noteq> constraint_kind (ar_constraint rule)) (BadFieldLength 1 2)) (\<lambda>_.
     check_constraint_shape (ar_constraint rule))"

definition check_args_shape :: "Args \<Rightarrow> FormatError + unit" where
  "check_args_shape args =
     (case args of
        AGitPush remote branch \<Rightarrow>
          bindR (check_name remote FT_REMOTE) (\<lambda>_. check_tree_path branch FT_BRANCH)
      | ATreeRemove path \<Rightarrow> check_tree_path path FT_PATH
      | ATreeRename from_path to_path \<Rightarrow>
          bindR (check_tree_path from_path FT_FROM) (\<lambda>_. check_tree_path to_path FT_TO)
      | AHttpRequest host _ path _ body_len \<Rightarrow>
          bindR (check_host host FT_HOST) (\<lambda>_.
          bindR (check_http_path path FT_PATH_PREFIX) (\<lambda>_.
          ensure (\<not> body_len > MAX_BODY_LEN) (BadFieldLength FT_BODY_LEN (unat body_len)))))"

section \<open>What the shape checks mean\<close>

lemma check_bytes_Inr: "check_bytes ok text tag = Inr u \<longleftrightarrow> (\<forall>b \<in> set text. ok b)"
  by (auto simp: check_bytes_def find_None_iff find_Some_iff split: option.splits)

lemma check_len_Inr: "check_len limit text tag = Inr u \<longleftrightarrow> text \<noteq> [] \<and> length text \<le> limit"
  by (auto simp: check_len_def ensure_eq_Inr)

lemma is_ok_iff: "is_ok r \<longleftrightarrow> (\<exists>x. r = Inr x)"
  by (cases r) simp_all

lemma split_on_not_Nil [simp]: "split_on c xs \<noteq> []"
  by (cases xs) simp_all

text \<open>A part that a path may have: not empty and neither of the two relative directories.\<close>

definition plain_part :: "bytes \<Rightarrow> bool" where
  "plain_part part \<longleftrightarrow> part \<noteq> [] \<and> part \<noteq> [DOT] \<and> part \<noteq> [DOT, DOT]"

definition tree_path_ok :: "bytes \<Rightarrow> bool" where
  "tree_path_ok path \<longleftrightarrow>
     path \<noteq> [] \<and> length path \<le> MAX_ACTION_PATH \<and> (\<forall>b \<in> set path. name_char_ok b \<or> b = SLASH) \<and>
     (\<forall>part \<in> set (split_on SLASH path). plain_part part)"

definition http_path_ok :: "bytes \<Rightarrow> bool" where
  "http_path_ok path \<longleftrightarrow>
     path \<noteq> [] \<and> hd path = SLASH \<and> length path \<le> MAX_ACTION_PATH \<and>
     (\<forall>b \<in> set path. name_char_ok b \<or> b \<in> {SLASH, TILDE, PERCENT}) \<and>
     (tl path = [] \<or> (\<forall>part \<in> set (split_on SLASH (tl path)). plain_part part))"

lemma check_path_parts_Inr:
  "check_path_parts text tag = Inr u \<longleftrightarrow> (\<forall>part \<in> set (split_on SLASH text). plain_part part)"
  by (auto simp: check_path_parts_def foldR_ensure plain_part_def)

text \<open>A leading slash would give an empty first part, so its own check only chooses the error.\<close>

lemma check_tree_path_Inr: "check_tree_path path tag = Inr u \<longleftrightarrow> tree_path_ok path"
  by (cases path)
    (auto simp: check_tree_path_def tree_path_ok_def bindR_eq_Inr ensure_eq_Inr check_bytes_Inr check_len_Inr
      check_path_parts_Inr starts_with_def plain_part_def)

lemma check_http_path_Inr: "check_http_path path tag = Inr u \<longleftrightarrow> http_path_ok path"
  by (auto simp: check_http_path_def http_path_ok_def bindR_eq_Inr ok_or_eq_Inr check_bytes_Inr check_len_Inr
      check_path_parts_Inr starts_with_def split: if_splits)

lemmas shape_simps = check_tree_path_Inr check_http_path_Inr is_ok_iff

lemma parts_under_prefix: "parts_under wants got \<longleftrightarrow> prefix wants got"
  by (induction wants got rule: parts_under.induct) auto

lemma path_under_prefix: "path_under pre path \<longleftrightarrow> prefix (components pre) (components path)"
  by (simp add: path_under_def parts_under_prefix)

lemma path_under_refl [simp]: "path_under p p"
  by (simp add: path_under_prefix)

lemma path_under_trans: "path_under a b \<Longrightarrow> path_under b c \<Longrightarrow> path_under a c"
  unfolding path_under_prefix by (rule prefix_order.trans)

lemma under_tree_prefix_Inr:
  "under_tree_prefix pre path limiter = Inr u \<longleftrightarrow> tree_path_ok path \<and> tree_path_ok pre \<and> path_under pre path"
  by (auto simp: under_tree_prefix_def shape_simps)

lemma narrower_prefix_Inr: "narrower_prefix parent child limiter = Inr u \<longleftrightarrow> path_under parent child"
  by (auto simp: narrower_prefix_def)

lemmas within_simps = bindR_eq_Inr ensure_eq_Inr under_tree_prefix_Inr narrower_prefix_Inr shape_simps

section \<open>Where a path leads\<close>

text \<open>
  The reference meaning of a path: the place a walk from the root ends at, with the empty part
  and the full stop staying and two full stops going up.
\<close>

fun walk :: "bytes list \<Rightarrow> bytes list \<Rightarrow> bytes list" where
  "walk place [] = place"
| "walk place (part # parts) =
     walk (if part = [] \<or> part = [DOT] then place
           else if part = [DOT, DOT] then butlast place
           else place @ [part]) parts"

definition leads_to :: "bytes \<Rightarrow> bytes list" where
  "leads_to path = walk [] (split_on SLASH path)"

lemma walk_plain:
  "\<forall>part \<in> set parts. part = [] \<or> plain_part part \<Longrightarrow> walk place parts = place @ filter (\<lambda>part. part \<noteq> []) parts"
  by (induction parts arbitrary: place) (auto simp: plain_part_def)

lemma leads_to_components:
  assumes "tree_path_ok path \<or> http_path_ok path"
  shows "leads_to path = components path"
proof -
  have "\<forall>part \<in> set (split_on SLASH path). part = [] \<or> plain_part part"
    using assms by (cases path) (auto simp: tree_path_ok_def http_path_ok_def)
  then show ?thesis by (simp add: leads_to_def components_def walk_plain)
qed

lemma under_leads_inside:
  assumes "path_under pre path"
    and "tree_path_ok path \<and> tree_path_ok pre \<or> http_path_ok path \<and> http_path_ok pre"
  shows "prefix (leads_to pre) (leads_to path)"
  using assms leads_to_components [of pre] leads_to_components [of path] by (auto simp: path_under_prefix)

text \<open>How often an action may be performed under a counter: zero means without limit.\<close>

definition use_allowed :: "u32 \<Rightarrow> nat \<Rightarrow> bool" where
  "use_allowed max_uses n \<longleftrightarrow> max_uses = 0 \<or> n \<le> unat max_uses"

lemma uses_within_iff: "uses_within child parent \<longleftrightarrow> (\<forall>n. use_allowed child n \<longrightarrow> use_allowed parent n)"
proof
  assume "\<forall>n. use_allowed child n \<longrightarrow> use_allowed parent n"
  from this [rule_format, of "unat child"] this [rule_format, of "Suc (unat parent)"]
  show "uses_within child parent"
    by (auto simp: uses_within_def use_allowed_def word_le_nat_alt unat_eq_0)
qed (auto simp: uses_within_def use_allowed_def word_le_nat_alt split: if_splits)

lemma narrowerD:
  assumes "narrower child parent = Inr u"
  shows "ar_kind child = ar_kind parent" and "\<not> ar_confirm parent" and "ar_delegable parent"
    and "uses_within (ar_max_uses child) (ar_max_uses parent)"
  using assms by (auto simp: narrower_def bindR_eq_Inr ensure_eq_Inr)

text \<open>The limiters: what the child's admit, the parent's admit.\<close>

lemma narrower_args:
  assumes "narrower child parent = Inr u" and "check_rule_shape parent = Inr v" and "args_within child args = Inr w"
  shows "args_within parent args = Inr w"
  using assms narrowerD(1) [OF assms(1)] path_under_trans
  by (cases args)
    (auto simp: narrower_def args_within_def check_rule_shape_def check_constraint_shape_def within_simps list_all_iff
      split: Constraint.splits if_splits)

section \<open>Properties\<close>

text \<open>
  C11.  A permitted action stays inside its rule.  When arguments are within a rule, a push goes
  to the named remote and branch; a removed path, both paths of a rename and the path of a request
  lead to the place their prefix leads to or to a place below it, when their components are
  followed one by one as they are written, a dot staying in place and two dots going up (percent
  escapes are components as they stand, they are not decoded); and a request goes to the named
  host with a listed method and a body of at most one mebibyte.
\<close>

theorem args_within_confined:
  assumes "args_within rule args = Inr ()"
  shows "(case args of
     AGitPush remote branch \<Rightarrow> ar_constraint rule = CGitPush remote branch
   | ATreeRemove path \<Rightarrow>
       (\<exists>pre. ar_constraint rule = CTreeRemove pre \<and> prefix (leads_to pre) (leads_to path))
   | ATreeRename from_path to_path \<Rightarrow>
       (\<exists>from_prefix to_prefix. ar_constraint rule = CTreeRename from_prefix to_prefix \<and>
          prefix (leads_to from_prefix) (leads_to from_path) \<and> prefix (leads_to to_prefix) (leads_to to_path))
   | AHttpRequest host method path digest body_len \<Rightarrow>
       (\<exists>methods path_prefix secret_ref. ar_constraint rule = CHttpRequest host methods path_prefix secret_ref \<and>
          method \<in> set methods \<and> prefix (leads_to path_prefix) (leads_to path) \<and> unat body_len \<le> 1048576))"
  using assms
  by (cases "ar_constraint rule"; cases args)
    (auto simp: args_within_def within_simps under_leads_inside MAX_BODY_LEN_def word_le_nat_alt not_less
      split: if_splits)

text \<open>The rule of the examples: remove below \<open>src\<close>, four times, by delegates too.\<close>

definition demo_rule :: ActionRule where
  "demo_rule = \<lparr>ar_kind = TreeRemove, ar_constraint = CTreeRemove [0x73, 0x72, 0x63], ar_max_uses = 4,
     ar_confirm = False, ar_delegable = True\<rparr>"

definition demo_child :: ActionRule where
  "demo_child = \<lparr>ar_kind = TreeRemove, ar_constraint = CTreeRemove [0x73, 0x72, 0x63, SLASH, 0x61], ar_max_uses = 2,
     ar_confirm = False, ar_delegable = False\<rparr>"

lemmas action_eval = demo_rule_def demo_child_def args_within_def narrower_def under_tree_prefix_def
  narrower_prefix_def check_rule_shape_def check_constraint_shape_def check_tree_path_Inr tree_path_ok_def is_ok_iff
  path_under_def components_def MAX_ACTION_PATH_def name_char_ok_def is_ascii_alphanumeric_def
  is_ascii_lowercase_def plain_part_def uses_within_def word_le_nat_alt

theorem args_within_confined_witness:
  "args_within demo_rule (ATreeRemove [0x73, 0x72, 0x63, SLASH, 0x78]) = Inr () \<and>
   prefix (leads_to [0x73, 0x72, 0x63]) (leads_to [0x73, 0x72, 0x63, SLASH, 0x78])"
proof -
  have "args_within demo_rule (ATreeRemove [0x73, 0x72, 0x63, SLASH, 0x78]) = Inr ()" by (simp add: action_eval)
  with args_within_confined [OF this] show ?thesis by (simp add: demo_rule_def)
qed

text \<open>
  Delegation only narrows.  When a rule passes as narrower than a well-formed parent rule,
  the parent allows delegation and needs no confirmation, every argument the child permits the
  parent permits, and every number of uses the child's counter allows the parent's counter
  allows.
\<close>

theorem narrower_attenuates:
  assumes "narrower child parent = Inr ()" and "check_rule_shape parent = Inr ()"
  shows "ar_delegable parent \<and> \<not> ar_confirm parent \<and>
     (\<forall>args. args_within child args = Inr () \<longrightarrow> args_within parent args = Inr ()) \<and>
     (\<forall>n. use_allowed (ar_max_uses child) n \<longrightarrow> use_allowed (ar_max_uses parent) n)"
  using narrowerD [OF assms(1)] narrower_args [OF assms] uses_within_iff by blast

theorem narrower_attenuates_witness:
  "narrower demo_child demo_rule = Inr () \<and>
   args_within demo_rule (ATreeRemove [0x73, 0x72, 0x63, SLASH, 0x61, SLASH, 0x62]) = Inr ()"
proof -
  have "narrower demo_child demo_rule = Inr ()" "check_rule_shape demo_rule = Inr ()"
    "args_within demo_child (ATreeRemove [0x73, 0x72, 0x63, SLASH, 0x61, SLASH, 0x62]) = Inr ()"
    by (simp_all add: action_eval)
  then show ?thesis using narrower_attenuates [of demo_child demo_rule] by blast
qed

end
