(* ===== verification/OC_Action_Wire.thy ===== *)
theory OC_Action_Wire
  imports OC_Action OC_Access
begin

text \<open>
  The documents of the second half of \<^verbatim>\<open>oc-protocol/src/action.rs\<close>: rules and grants, requests,
  action leases, queued requests and decisions, as bytes.  Grants, leases and decisions are signed
  documents; a request and a queued request are not.
\<close>

section \<open>Limiters and arguments\<close>

text \<open>\<^verbatim>\<open>text\<close>: the value of a field as a string.\<close>

definition text_value :: "u16 \<Rightarrow> bytes \<Rightarrow> FormatError + bytes" where
  "text_value tag value = ok_or (NotUtf8 tag) (from_utf8 value)"

definition encode_methods :: "Method list \<Rightarrow> bytes" where
  "encode_methods methods = map method_as_u8 methods"

definition decode_methods :: "bytes \<Rightarrow> u16 \<Rightarrow> FormatError + Method list" where
  "decode_methods bs tag =
     bindR (foldR (\<lambda>b out. bindR (method_from_u8 b tag) (\<lambda>m. Inr (out @ [m]))) bs []) (\<lambda>methods.
     bindR (check_methods methods tag) (\<lambda>_.
     Inr methods))"

definition encode_constraint :: "Constraint \<Rightarrow> FormatError + bytes" where
  "encode_constraint limit =
     (case limit of
        CGitPush remote branch \<Rightarrow>
          bindR (check_name remote FT_REMOTE) (\<lambda>_.
          bindR (check_tree_path branch FT_BRANCH) (\<lambda>_.
          write_fields [(FT_REMOTE, remote), (FT_BRANCH, branch)]))
      | CTreeRemove pre \<Rightarrow>
          bindR (check_tree_path pre FT_PATH) (\<lambda>_.
          write_fields [(FT_PATH, pre)])
      | CTreeRename from_prefix to_prefix \<Rightarrow>
          bindR (check_tree_path from_prefix FT_FROM) (\<lambda>_.
          bindR (check_tree_path to_prefix FT_TO) (\<lambda>_.
          write_fields [(FT_FROM, from_prefix), (FT_TO, to_prefix)]))
      | CHttpRequest host methods path_prefix secret_ref \<Rightarrow>
          bindR (check_host host FT_HOST) (\<lambda>_.
          bindR (check_methods methods FT_METHODS) (\<lambda>_.
          bindR (check_http_path path_prefix FT_PATH_PREFIX) (\<lambda>_.
          bindR (case secret_ref of Some reference \<Rightarrow> check_secret_ref reference FT_SECRET_REF | None \<Rightarrow> Inr ()) (\<lambda>_.
          write_fields
            ([(FT_HOST, host), (FT_METHODS, encode_methods methods), (FT_PATH_PREFIX, path_prefix)] @
             opt_field FT_SECRET_REF secret_ref))))))"

record ConstraintDecoder =
  cd_remote :: "bytes option"
  cd_branch :: "bytes option"
  cd_path :: "bytes option"
  cd_from :: "bytes option"
  cd_to :: "bytes option"
  cd_host :: "bytes option"
  cd_methods :: "Method list option"
  cd_path_prefix :: "bytes option"
  cd_secret_ref :: "bytes option"

definition constraint_decode_start :: ConstraintDecoder where
  "constraint_decode_start =
     \<lparr>cd_remote = None, cd_branch = None, cd_path = None, cd_from = None, cd_to = None, cd_host = None,
      cd_methods = None, cd_path_prefix = None, cd_secret_ref = None\<rparr>"

definition constraint_step ::
    "ActionKind \<Rightarrow> u16 \<Rightarrow> bytes \<Rightarrow> ConstraintDecoder \<Rightarrow> FormatError + ConstraintDecoder" where
  "constraint_step kind tag value d =
     (if kind = GitPush \<and> tag = FT_REMOTE then bindR (text_value FT_REMOTE value) (\<lambda>x. Inr (d\<lparr>cd_remote := Some x\<rparr>))
      else if kind = GitPush \<and> tag = FT_BRANCH then bindR (text_value FT_BRANCH value) (\<lambda>x. Inr (d\<lparr>cd_branch := Some x\<rparr>))
      else if kind = TreeRemove \<and> tag = FT_PATH then bindR (text_value FT_PATH value) (\<lambda>x. Inr (d\<lparr>cd_path := Some x\<rparr>))
      else if kind = TreeRename \<and> tag = FT_FROM then bindR (text_value FT_FROM value) (\<lambda>x. Inr (d\<lparr>cd_from := Some x\<rparr>))
      else if kind = TreeRename \<and> tag = FT_TO then bindR (text_value FT_TO value) (\<lambda>x. Inr (d\<lparr>cd_to := Some x\<rparr>))
      else if kind = HttpRequest \<and> tag = FT_HOST then bindR (text_value FT_HOST value) (\<lambda>x. Inr (d\<lparr>cd_host := Some x\<rparr>))
      else if kind = HttpRequest \<and> tag = FT_METHODS then
        bindR (decode_methods value FT_METHODS) (\<lambda>x. Inr (d\<lparr>cd_methods := Some x\<rparr>))
      else if kind = HttpRequest \<and> tag = FT_PATH_PREFIX then
        bindR (text_value FT_PATH_PREFIX value) (\<lambda>x. Inr (d\<lparr>cd_path_prefix := Some x\<rparr>))
      else if kind = HttpRequest \<and> tag = FT_SECRET_REF then
        bindR (text_value FT_SECRET_REF value) (\<lambda>x. Inr (d\<lparr>cd_secret_ref := Some x\<rparr>))
      else bindR (refuse_if_critical tag) (\<lambda>_. Inr d))"

definition constraint_finish :: "ActionKind \<Rightarrow> ConstraintDecoder \<Rightarrow> FormatError + Constraint" where
  "constraint_finish kind d =
     (case kind of
        GitPush \<Rightarrow>
          bindR (ok_or (MissingField FT_REMOTE) (cd_remote d)) (\<lambda>remote.
          bindR (ok_or (MissingField FT_BRANCH) (cd_branch d)) (\<lambda>branch.
          Inr (CGitPush remote branch)))
      | TreeRemove \<Rightarrow>
          bindR (ok_or (MissingField FT_PATH) (cd_path d)) (\<lambda>path.
          Inr (CTreeRemove path))
      | TreeRename \<Rightarrow>
          bindR (ok_or (MissingField FT_FROM) (cd_from d)) (\<lambda>from_prefix.
          bindR (ok_or (MissingField FT_TO) (cd_to d)) (\<lambda>to_prefix.
          Inr (CTreeRename from_prefix to_prefix)))
      | HttpRequest \<Rightarrow>
          bindR (ok_or (MissingField FT_HOST) (cd_host d)) (\<lambda>host.
          bindR (ok_or (MissingField FT_METHODS) (cd_methods d)) (\<lambda>methods.
          bindR (ok_or (MissingField FT_PATH_PREFIX) (cd_path_prefix d)) (\<lambda>path_prefix.
          Inr (CHttpRequest host methods path_prefix (cd_secret_ref d))))))"

definition decode_constraint :: "bytes \<Rightarrow> ActionKind \<Rightarrow> FormatError + Constraint" where
  "decode_constraint bs kind =
     bindR (tlv_values (constraint_step kind) bs constraint_decode_start) (\<lambda>d.
     bindR (constraint_finish kind d) (\<lambda>limit.
     bindR (check_constraint_shape limit) (\<lambda>_.
     Inr limit)))"

definition encode_args :: "Args \<Rightarrow> FormatError + bytes" where
  "encode_args args =
     bindR (check_args_shape args) (\<lambda>_.
     write_fields
       (case args of
          AGitPush remote branch \<Rightarrow> [(FT_REMOTE, remote), (FT_BRANCH, branch)]
        | ATreeRemove path \<Rightarrow> [(FT_PATH, path)]
        | ATreeRename from_path to_path \<Rightarrow> [(FT_FROM, from_path), (FT_TO, to_path)]
        | AHttpRequest host method path body_digest body_len \<Rightarrow>
            [(FT_HOST, host), (FT_METHODS, [method_as_u8 method]), (FT_PATH_PREFIX, path),
             (FT_BODY_DIGEST, body_digest), (FT_BODY_LEN, le32 body_len)]))"

record ArgsDecoder =
  gd_remote :: "bytes option"
  gd_branch :: "bytes option"
  gd_path :: "bytes option"
  gd_from :: "bytes option"
  gd_to :: "bytes option"
  gd_host :: "bytes option"
  gd_method :: "Method option"
  gd_http_path :: "bytes option"
  gd_digest :: "bytes option"
  gd_len :: "u32 option"

definition args_decode_start :: ArgsDecoder where
  "args_decode_start =
     \<lparr>gd_remote = None, gd_branch = None, gd_path = None, gd_from = None, gd_to = None, gd_host = None,
      gd_method = None, gd_http_path = None, gd_digest = None, gd_len = None\<rparr>"

definition args_step :: "ActionKind \<Rightarrow> u16 \<Rightarrow> bytes \<Rightarrow> ArgsDecoder \<Rightarrow> FormatError + ArgsDecoder" where
  "args_step kind tag value d =
     (if kind = GitPush \<and> tag = FT_REMOTE then bindR (text_value FT_REMOTE value) (\<lambda>x. Inr (d\<lparr>gd_remote := Some x\<rparr>))
      else if kind = GitPush \<and> tag = FT_BRANCH then bindR (text_value FT_BRANCH value) (\<lambda>x. Inr (d\<lparr>gd_branch := Some x\<rparr>))
      else if kind = TreeRemove \<and> tag = FT_PATH then bindR (text_value FT_PATH value) (\<lambda>x. Inr (d\<lparr>gd_path := Some x\<rparr>))
      else if kind = TreeRename \<and> tag = FT_FROM then bindR (text_value FT_FROM value) (\<lambda>x. Inr (d\<lparr>gd_from := Some x\<rparr>))
      else if kind = TreeRename \<and> tag = FT_TO then bindR (text_value FT_TO value) (\<lambda>x. Inr (d\<lparr>gd_to := Some x\<rparr>))
      else if kind = HttpRequest \<and> tag = FT_HOST then bindR (text_value FT_HOST value) (\<lambda>x. Inr (d\<lparr>gd_host := Some x\<rparr>))
      else if kind = HttpRequest \<and> tag = FT_METHODS then
        bindR (one_byte tag value) (\<lambda>b.
        bindR (method_from_u8 b FT_METHODS) (\<lambda>x. Inr (d\<lparr>gd_method := Some x\<rparr>)))
      else if kind = HttpRequest \<and> tag = FT_PATH_PREFIX then
        bindR (text_value FT_PATH_PREFIX value) (\<lambda>x. Inr (d\<lparr>gd_http_path := Some x\<rparr>))
      else if kind = HttpRequest \<and> tag = FT_BODY_DIGEST then
        bindR (exact_len 32 tag value) (\<lambda>x. Inr (d\<lparr>gd_digest := Some x\<rparr>))
      else if kind = HttpRequest \<and> tag = FT_BODY_LEN then
        bindR (u32_le tag value) (\<lambda>x. Inr (d\<lparr>gd_len := Some x\<rparr>))
      else bindR (refuse_if_critical tag) (\<lambda>_. Inr d))"

definition args_finish :: "ActionKind \<Rightarrow> ArgsDecoder \<Rightarrow> FormatError + Args" where
  "args_finish kind d =
     (case kind of
        GitPush \<Rightarrow>
          bindR (ok_or (MissingField FT_REMOTE) (gd_remote d)) (\<lambda>remote.
          bindR (ok_or (MissingField FT_BRANCH) (gd_branch d)) (\<lambda>branch.
          Inr (AGitPush remote branch)))
      | TreeRemove \<Rightarrow>
          bindR (ok_or (MissingField FT_PATH) (gd_path d)) (\<lambda>path.
          Inr (ATreeRemove path))
      | TreeRename \<Rightarrow>
          bindR (ok_or (MissingField FT_FROM) (gd_from d)) (\<lambda>from_path.
          bindR (ok_or (MissingField FT_TO) (gd_to d)) (\<lambda>to_path.
          Inr (ATreeRename from_path to_path)))
      | HttpRequest \<Rightarrow>
          bindR (ok_or (MissingField FT_HOST) (gd_host d)) (\<lambda>host.
          bindR (ok_or (MissingField FT_METHODS) (gd_method d)) (\<lambda>method.
          bindR (ok_or (MissingField FT_PATH_PREFIX) (gd_http_path d)) (\<lambda>path.
          bindR (ok_or (MissingField FT_BODY_DIGEST) (gd_digest d)) (\<lambda>body_digest.
          bindR (ok_or (MissingField FT_BODY_LEN) (gd_len d)) (\<lambda>body_len.
          Inr (AHttpRequest host method path body_digest body_len)))))))"

definition decode_args :: "bytes \<Rightarrow> ActionKind \<Rightarrow> FormatError + Args" where
  "decode_args bs kind =
     bindR (tlv_values (args_step kind) bs args_decode_start) (\<lambda>d.
     bindR (args_finish kind d) (\<lambda>args.
     bindR (check_args_shape args) (\<lambda>_.
     Inr args)))"

section \<open>Rules\<close>

abbreviation (input) RU_KIND :: u16 where "RU_KIND \<equiv> 1"
abbreviation (input) RU_CONSTRAINT :: u16 where "RU_CONSTRAINT \<equiv> 2"
abbreviation (input) RU_MAX_USES :: u16 where "RU_MAX_USES \<equiv> 3"
abbreviation (input) RU_CONFIRM :: u16 where "RU_CONFIRM \<equiv> 4"
abbreviation (input) RU_DELEGABLE :: u16 where "RU_DELEGABLE \<equiv> 5"

definition encode_rule :: "ActionRule \<Rightarrow> FormatError + bytes" where
  "encode_rule rule =
     bindR (check_rule_shape rule) (\<lambda>_.
     bindR (encode_constraint (ar_constraint rule)) (\<lambda>limit.
     write_fields
       [(RU_KIND, le16 (kind_as_u16 (ar_kind rule))),
        (RU_CONSTRAINT, limit),
        (RU_MAX_USES, le32 (ar_max_uses rule)),
        (RU_CONFIRM, [bool_byte (ar_confirm rule)]),
        (RU_DELEGABLE, [bool_byte (ar_delegable rule)])]))"

record RuleDecoder =
  rk_kind :: "ActionKind option"
  rk_raw_limit :: "bytes option"
  rk_max_uses :: "u32 option"
  rk_confirm :: "bool option"
  rk_delegable :: "bool option"

definition rule_decode_start :: RuleDecoder where
  "rule_decode_start =
     \<lparr>rk_kind = None, rk_raw_limit = None, rk_max_uses = None, rk_confirm = None, rk_delegable = None\<rparr>"

definition rule_step :: "u16 \<Rightarrow> bytes \<Rightarrow> RuleDecoder \<Rightarrow> FormatError + RuleDecoder" where
  "rule_step tag value d =
     (if tag = RU_KIND then
        bindR (u16_le tag value) (\<lambda>w.
        bindR (kind_from_u16 w RU_KIND) (\<lambda>x. Inr (d\<lparr>rk_kind := Some x\<rparr>)))
      else if tag = RU_CONSTRAINT then Inr (d\<lparr>rk_raw_limit := Some value\<rparr>)
      else if tag = RU_MAX_USES then bindR (u32_le tag value) (\<lambda>x. Inr (d\<lparr>rk_max_uses := Some x\<rparr>))
      else if tag = RU_CONFIRM then
        bindR (one_byte tag value) (\<lambda>b.
        bindR (flag_byte RU_CONFIRM b) (\<lambda>x. Inr (d\<lparr>rk_confirm := Some x\<rparr>)))
      else if tag = RU_DELEGABLE then
        bindR (one_byte tag value) (\<lambda>b.
        bindR (flag_byte RU_DELEGABLE b) (\<lambda>x. Inr (d\<lparr>rk_delegable := Some x\<rparr>)))
      else bindR (refuse_if_critical tag) (\<lambda>_. Inr d))"

definition rule_finish :: "RuleDecoder \<Rightarrow> FormatError + ActionRule" where
  "rule_finish d =
     bindR (ok_or (MissingField RU_KIND) (rk_kind d)) (\<lambda>kind.
     bindR (ok_or (MissingField RU_CONSTRAINT) (rk_raw_limit d)) (\<lambda>raw_limit.
     bindR (decode_constraint raw_limit kind) (\<lambda>limit.
     bindR (ok_or (MissingField RU_MAX_USES) (rk_max_uses d)) (\<lambda>max_uses.
     bindR (ok_or (MissingField RU_CONFIRM) (rk_confirm d)) (\<lambda>confirm.
     bindR (ok_or (MissingField RU_DELEGABLE) (rk_delegable d)) (\<lambda>delegable.
     let rule = \<lparr>ar_kind = kind, ar_constraint = limit, ar_max_uses = max_uses, ar_confirm = confirm,
                 ar_delegable = delegable\<rparr> in
     bindR (check_rule_shape rule) (\<lambda>_.
     Inr rule)))))))"

definition decode_rule :: "bytes \<Rightarrow> FormatError + ActionRule" where
  "decode_rule bs = bindR (tlv_values rule_step bs rule_decode_start) rule_finish"

abbreviation (input) GT_GRANT_ID :: u16 where "GT_GRANT_ID \<equiv> 1"
abbreviation (input) GT_RULES :: u16 where "GT_RULES \<equiv> 2"
abbreviation (input) GT_ISSUED_AT :: u16 where "GT_ISSUED_AT \<equiv> 3"
abbreviation (input) GT_EXPIRES_AT :: u16 where "GT_EXPIRES_AT \<equiv> 4"
abbreviation (input) GT_AUTHOR_KEY :: u16 where "GT_AUTHOR_KEY \<equiv> 5"

definition encode_rules :: "ActionRule list \<Rightarrow> FormatError + bytes" where
  "encode_rules rules =
     bindR (ensure (\<not> length rules > MAX_ACTION_RULES) (BadFieldLength GT_RULES (length rules))) (\<lambda>_.
     bindR (foldR (\<lambda>(index, rule) w.
         bindR (ok_or OffsetOverflow (u16_of_usize index)) (\<lambda>tag.
         bindR (encode_rule rule) (\<lambda>body.
         put tag body w))) (enumerate 0 rules) writer_new) (\<lambda>w.
     Inr (finish w)))"

definition rules_step :: "u16 \<Rightarrow> bytes \<Rightarrow> ActionRule list \<Rightarrow> FormatError + ActionRule list" where
  "rules_step tag value out =
     bindR (ensure (\<not> length out \<ge> MAX_ACTION_RULES) (BadFieldLength GT_RULES (length out))) (\<lambda>_.
     bindR (decode_rule value) (\<lambda>rule.
     Inr (out @ [rule])))"

definition decode_rules :: "bytes \<Rightarrow> FormatError + ActionRule list" where
  "decode_rules bs = tlv_values rules_step bs []"

section \<open>Grants\<close>

record ActionGrant =
  ag_grant_id :: bytes
  ag_rules :: "ActionRule list"
  ag_issued_at :: i64
  ag_expires_at :: i64
  ag_author_key :: bytes
  ag_signature :: bytes

definition check_grant_shape :: "ActionGrant \<Rightarrow> FormatError + unit" where
  "check_grant_shape grant =
     bindR (ensure (\<not> length (ag_rules grant) > MAX_ACTION_RULES) (BadFieldLength GT_RULES (length (ag_rules grant)))) (\<lambda>_.
     bindR (foldR (\<lambda>rule _. check_rule_shape rule) (ag_rules grant) ()) (\<lambda>_.
     ensure (\<not> sint (ag_expires_at grant) < sint (ag_issued_at grant)) (BadFieldLength GT_EXPIRES_AT 8)))"

definition grant_body :: "ActionGrant \<Rightarrow> FormatError + bytes" where
  "grant_body grant =
     bindR (check_grant_shape grant) (\<lambda>_.
     bindR (encode_rules (ag_rules grant)) (\<lambda>rules.
     write_fields
       [(GT_GRANT_ID, ag_grant_id grant),
        (GT_RULES, rules),
        (GT_ISSUED_AT, le64 (ag_issued_at grant)),
        (GT_EXPIRES_AT, le64 (ag_expires_at grant)),
        (GT_AUTHOR_KEY, ag_author_key grant)]))"

definition grant_transcript :: "bytes \<Rightarrow> Transcript" where
  "grant_transcript body = body_transcript ACTION_GRANT body"

definition encode_grant :: "ActionGrant \<Rightarrow> FormatError + bytes" where
  "encode_grant grant = bindR (grant_body grant) (\<lambda>body. Inr (ag_signature grant @ body))"

record GrantDecoder =
  gk_grant_id :: "bytes option"
  gk_rules :: "ActionRule list option"
  gk_issued_at :: "i64 option"
  gk_expires_at :: "i64 option"
  gk_author_key :: "bytes option"

definition grant_decode_start :: GrantDecoder where
  "grant_decode_start =
     \<lparr>gk_grant_id = None, gk_rules = None, gk_issued_at = None, gk_expires_at = None, gk_author_key = None\<rparr>"

definition grant_step :: "u16 \<Rightarrow> bytes \<Rightarrow> GrantDecoder \<Rightarrow> FormatError + GrantDecoder" where
  "grant_step tag value d =
     (if tag = GT_GRANT_ID then bindR (exact_len 16 tag value) (\<lambda>x. Inr (d\<lparr>gk_grant_id := Some x\<rparr>))
      else if tag = GT_RULES then bindR (decode_rules value) (\<lambda>x. Inr (d\<lparr>gk_rules := Some x\<rparr>))
      else if tag = GT_ISSUED_AT then bindR (u64_le tag value) (\<lambda>x. Inr (d\<lparr>gk_issued_at := Some x\<rparr>))
      else if tag = GT_EXPIRES_AT then bindR (u64_le tag value) (\<lambda>x. Inr (d\<lparr>gk_expires_at := Some x\<rparr>))
      else if tag = GT_AUTHOR_KEY then bindR (exact_len 32 tag value) (\<lambda>x. Inr (d\<lparr>gk_author_key := Some x\<rparr>))
      else bindR (refuse_if_critical tag) (\<lambda>_. Inr d))"

definition grant_finish :: "GrantDecoder \<Rightarrow> FormatError + ActionGrant" where
  "grant_finish d =
     bindR (ok_or (MissingField GT_GRANT_ID) (gk_grant_id d)) (\<lambda>grant_id.
     bindR (ok_or (MissingField GT_RULES) (gk_rules d)) (\<lambda>rules.
     bindR (ok_or (MissingField GT_ISSUED_AT) (gk_issued_at d)) (\<lambda>issued_at.
     bindR (ok_or (MissingField GT_EXPIRES_AT) (gk_expires_at d)) (\<lambda>expires_at.
     bindR (ok_or (MissingField GT_AUTHOR_KEY) (gk_author_key d)) (\<lambda>author_key.
     let grant = \<lparr>ag_grant_id = grant_id, ag_rules = rules, ag_issued_at = issued_at, ag_expires_at = expires_at,
                  ag_author_key = author_key, ag_signature = replicate SIGNATURE_LEN 0\<rparr> in
     bindR (check_grant_shape grant) (\<lambda>_.
     Inr grant))))))"

definition decode_grant_body :: "bytes \<Rightarrow> FormatError + ActionGrant" where
  "decode_grant_body body = bindR (tlv_values grant_step body grant_decode_start) grant_finish"

definition decode_grant :: "Crates \<Rightarrow> bytes \<Rightarrow> bytes \<Rightarrow> FormatError + ActionGrant" where
  "decode_grant c bs author_key =
     bindR (split_signature bs) (\<lambda>(signature, body).
     bindR (map_err BadHeaderSignature (sign_verify c author_key (grant_transcript body) signature)) (\<lambda>_.
     bindR (decode_grant_body body) (\<lambda>grant.
     bindR (ensure (digest_eq_ct c (ag_author_key grant) author_key) (BadFieldLength GT_AUTHOR_KEY 32)) (\<lambda>_.
     Inr (grant\<lparr>ag_signature := signature\<rparr>)))))"

definition peek_grant :: "bytes \<Rightarrow> FormatError + ActionGrant" where
  "peek_grant bs =
     bindR (split_signature bs) (\<lambda>(signature, body).
     bindR (decode_grant_body body) (\<lambda>grant.
     Inr (grant\<lparr>ag_signature := signature\<rparr>)))"

section \<open>Requests\<close>

abbreviation (input) QT_GRANT_ID :: u16 where "QT_GRANT_ID \<equiv> 1"
abbreviation (input) QT_DOOR_FPR :: u16 where "QT_DOOR_FPR \<equiv> 2"
abbreviation (input) QT_KIND :: u16 where "QT_KIND \<equiv> 3"
abbreviation (input) QT_ARGS :: u16 where "QT_ARGS \<equiv> 4"
abbreviation (input) QT_NONCE :: u16 where "QT_NONCE \<equiv> 5"
abbreviation (input) QT_NOTE :: u16 where "QT_NOTE \<equiv> 6"

record ActionRequest =
  rq_grant_id :: bytes
  rq_door_fpr :: bytes
  rq_kind :: ActionKind
  rq_args :: Args
  rq_nonce :: bytes
  rq_note :: bytes

definition check_request_shape :: "ActionRequest \<Rightarrow> FormatError + unit" where
  "check_request_shape ask =
     bindR (ensure (\<not> rq_kind ask \<noteq> args_kind (rq_args ask)) (BadFieldLength QT_KIND 2)) (\<lambda>_.
     bindR (check_note (rq_note ask) QT_NOTE) (\<lambda>_.
     check_args_shape (rq_args ask)))"

definition encode_request :: "ActionRequest \<Rightarrow> FormatError + bytes" where
  "encode_request ask =
     bindR (check_request_shape ask) (\<lambda>_.
     bindR (encode_args (rq_args ask)) (\<lambda>args.
     write_fields
       [(QT_GRANT_ID, rq_grant_id ask),
        (QT_DOOR_FPR, rq_door_fpr ask),
        (QT_KIND, le16 (kind_as_u16 (rq_kind ask))),
        (QT_ARGS, args),
        (QT_NONCE, rq_nonce ask),
        (QT_NOTE, rq_note ask)]))"

record RequestDecoder =
  qk_grant_id :: "bytes option"
  qk_door_fpr :: "bytes option"
  qk_kind :: "ActionKind option"
  qk_raw_args :: "bytes option"
  qk_nonce :: "bytes option"
  qk_note :: "bytes option"

definition request_decode_start :: RequestDecoder where
  "request_decode_start =
     \<lparr>qk_grant_id = None, qk_door_fpr = None, qk_kind = None, qk_raw_args = None, qk_nonce = None, qk_note = None\<rparr>"

definition request_step :: "u16 \<Rightarrow> bytes \<Rightarrow> RequestDecoder \<Rightarrow> FormatError + RequestDecoder" where
  "request_step tag value d =
     (if tag = QT_GRANT_ID then bindR (exact_len 16 tag value) (\<lambda>x. Inr (d\<lparr>qk_grant_id := Some x\<rparr>))
      else if tag = QT_DOOR_FPR then bindR (exact_len 32 tag value) (\<lambda>x. Inr (d\<lparr>qk_door_fpr := Some x\<rparr>))
      else if tag = QT_KIND then
        bindR (u16_le tag value) (\<lambda>w.
        bindR (kind_from_u16 w QT_KIND) (\<lambda>x. Inr (d\<lparr>qk_kind := Some x\<rparr>)))
      else if tag = QT_ARGS then Inr (d\<lparr>qk_raw_args := Some value\<rparr>)
      else if tag = QT_NONCE then bindR (exact_len 16 tag value) (\<lambda>x. Inr (d\<lparr>qk_nonce := Some x\<rparr>))
      else if tag = QT_NOTE then
        bindR (text_value QT_NOTE value) (\<lambda>x.
        bindR (check_note x QT_NOTE) (\<lambda>_. Inr (d\<lparr>qk_note := Some x\<rparr>)))
      else bindR (refuse_if_critical tag) (\<lambda>_. Inr d))"

definition request_finish :: "RequestDecoder \<Rightarrow> FormatError + ActionRequest" where
  "request_finish d =
     bindR (ok_or (MissingField QT_KIND) (qk_kind d)) (\<lambda>kind.
     bindR (ok_or (MissingField QT_ARGS) (qk_raw_args d)) (\<lambda>raw_args.
     bindR (ok_or (MissingField QT_GRANT_ID) (qk_grant_id d)) (\<lambda>grant_id.
     bindR (ok_or (MissingField QT_DOOR_FPR) (qk_door_fpr d)) (\<lambda>door_fpr.
     bindR (decode_args raw_args kind) (\<lambda>args.
     bindR (ok_or (MissingField QT_NONCE) (qk_nonce d)) (\<lambda>nonce.
     bindR (ok_or (MissingField QT_NOTE) (qk_note d)) (\<lambda>note.
     let ask = \<lparr>rq_grant_id = grant_id, rq_door_fpr = door_fpr, rq_kind = kind, rq_args = args,
                rq_nonce = nonce, rq_note = note\<rparr> in
     bindR (check_request_shape ask) (\<lambda>_.
     Inr ask))))))))"

definition decode_request :: "bytes \<Rightarrow> FormatError + ActionRequest" where
  "decode_request bs = bindR (tlv_values request_step bs request_decode_start) request_finish"

section \<open>Action leases\<close>

abbreviation (input) AL_GRANT_ID :: u16 where "AL_GRANT_ID \<equiv> 1"
abbreviation (input) AL_DOOR_FPR :: u16 where "AL_DOOR_FPR \<equiv> 2"
abbreviation (input) AL_KIND :: u16 where "AL_KIND \<equiv> 3"
abbreviation (input) AL_ARGS :: u16 where "AL_ARGS \<equiv> 4"
abbreviation (input) AL_NONCE :: u16 where "AL_NONCE \<equiv> 5"
abbreviation (input) AL_ISSUED_AT :: u16 where "AL_ISSUED_AT \<equiv> 6"
abbreviation (input) AL_EXPIRES_AT :: u16 where "AL_EXPIRES_AT \<equiv> 7"
abbreviation (input) AL_SEQ :: u16 where "AL_SEQ \<equiv> 8"

record ActionLease =
  al_grant_id :: bytes
  al_door_fpr :: bytes
  al_kind :: ActionKind
  al_args :: Args
  al_nonce :: bytes
  al_issued_at :: i64
  al_expires_at :: i64
  al_seq :: u64
  al_signature :: bytes

definition check_lease_shape :: "ActionLease \<Rightarrow> FormatError + unit" where
  "check_lease_shape lease =
     bindR (ensure (\<not> al_kind lease \<noteq> args_kind (al_args lease)) (BadFieldLength AL_KIND 2)) (\<lambda>_.
     bindR (ensure (\<not> sint (al_expires_at lease) < sint (al_issued_at lease)) (BadFieldLength AL_EXPIRES_AT 8)) (\<lambda>_.
     bindR (ensure (\<not> sint (al_expires_at lease) > sint (saturating_add_i64 (al_issued_at lease) ACTION_LEASE_SECONDS))
         (BadFieldLength AL_EXPIRES_AT 8)) (\<lambda>_.
     check_args_shape (al_args lease))))"

definition action_lease_body :: "ActionLease \<Rightarrow> FormatError + bytes" where
  "action_lease_body lease =
     bindR (check_lease_shape lease) (\<lambda>_.
     bindR (encode_args (al_args lease)) (\<lambda>args.
     write_fields
       [(AL_GRANT_ID, al_grant_id lease),
        (AL_DOOR_FPR, al_door_fpr lease),
        (AL_KIND, le16 (kind_as_u16 (al_kind lease))),
        (AL_ARGS, args),
        (AL_NONCE, al_nonce lease),
        (AL_ISSUED_AT, le64 (al_issued_at lease)),
        (AL_EXPIRES_AT, le64 (al_expires_at lease)),
        (AL_SEQ, le64 (al_seq lease))]))"

definition action_lease_transcript :: "bytes \<Rightarrow> Transcript" where
  "action_lease_transcript body = body_transcript ACTION_LEASE body"

definition encode_action_lease :: "ActionLease \<Rightarrow> FormatError + bytes" where
  "encode_action_lease lease = bindR (action_lease_body lease) (\<lambda>body. Inr (al_signature lease @ body))"

record ActionLeaseDecoder =
  lk_grant_id :: "bytes option"
  lk_door_fpr :: "bytes option"
  lk_kind :: "ActionKind option"
  lk_raw_args :: "bytes option"
  lk_nonce :: "bytes option"
  lk_issued_at :: "i64 option"
  lk_expires_at :: "i64 option"
  lk_seq :: "u64 option"

definition action_lease_decode_start :: ActionLeaseDecoder where
  "action_lease_decode_start =
     \<lparr>lk_grant_id = None, lk_door_fpr = None, lk_kind = None, lk_raw_args = None, lk_nonce = None,
      lk_issued_at = None, lk_expires_at = None, lk_seq = None\<rparr>"

definition action_lease_step :: "u16 \<Rightarrow> bytes \<Rightarrow> ActionLeaseDecoder \<Rightarrow> FormatError + ActionLeaseDecoder" where
  "action_lease_step tag value d =
     (if tag = AL_GRANT_ID then bindR (exact_len 16 tag value) (\<lambda>x. Inr (d\<lparr>lk_grant_id := Some x\<rparr>))
      else if tag = AL_DOOR_FPR then bindR (exact_len 32 tag value) (\<lambda>x. Inr (d\<lparr>lk_door_fpr := Some x\<rparr>))
      else if tag = AL_KIND then
        bindR (u16_le tag value) (\<lambda>w.
        bindR (kind_from_u16 w AL_KIND) (\<lambda>x. Inr (d\<lparr>lk_kind := Some x\<rparr>)))
      else if tag = AL_ARGS then Inr (d\<lparr>lk_raw_args := Some value\<rparr>)
      else if tag = AL_NONCE then bindR (exact_len 16 tag value) (\<lambda>x. Inr (d\<lparr>lk_nonce := Some x\<rparr>))
      else if tag = AL_ISSUED_AT then bindR (u64_le tag value) (\<lambda>x. Inr (d\<lparr>lk_issued_at := Some x\<rparr>))
      else if tag = AL_EXPIRES_AT then bindR (u64_le tag value) (\<lambda>x. Inr (d\<lparr>lk_expires_at := Some x\<rparr>))
      else if tag = AL_SEQ then bindR (u64_le tag value) (\<lambda>x. Inr (d\<lparr>lk_seq := Some x\<rparr>))
      else bindR (refuse_if_critical tag) (\<lambda>_. Inr d))"

definition action_lease_finish :: "ActionLeaseDecoder \<Rightarrow> FormatError + ActionLease" where
  "action_lease_finish d =
     bindR (ok_or (MissingField AL_KIND) (lk_kind d)) (\<lambda>kind.
     bindR (ok_or (MissingField AL_ARGS) (lk_raw_args d)) (\<lambda>raw_args.
     bindR (ok_or (MissingField AL_GRANT_ID) (lk_grant_id d)) (\<lambda>grant_id.
     bindR (ok_or (MissingField AL_DOOR_FPR) (lk_door_fpr d)) (\<lambda>door_fpr.
     bindR (decode_args raw_args kind) (\<lambda>args.
     bindR (ok_or (MissingField AL_NONCE) (lk_nonce d)) (\<lambda>nonce.
     bindR (ok_or (MissingField AL_ISSUED_AT) (lk_issued_at d)) (\<lambda>issued_at.
     bindR (ok_or (MissingField AL_EXPIRES_AT) (lk_expires_at d)) (\<lambda>expires_at.
     bindR (ok_or (MissingField AL_SEQ) (lk_seq d)) (\<lambda>seq.
     let lease = \<lparr>al_grant_id = grant_id, al_door_fpr = door_fpr, al_kind = kind, al_args = args,
                  al_nonce = nonce, al_issued_at = issued_at, al_expires_at = expires_at, al_seq = seq,
                  al_signature = replicate SIGNATURE_LEN 0\<rparr> in
     bindR (check_lease_shape lease) (\<lambda>_.
     Inr lease))))))))))"

definition decode_action_lease_body :: "bytes \<Rightarrow> FormatError + ActionLease" where
  "decode_action_lease_body body =
     bindR (tlv_values action_lease_step body action_lease_decode_start) action_lease_finish"

definition decode_action_lease :: "Crates \<Rightarrow> bytes \<Rightarrow> bytes \<Rightarrow> FormatError + ActionLease" where
  "decode_action_lease c bs lease_verify_key =
     bindR (split_signature bs) (\<lambda>(signature, body).
     bindR (map_err BadHeaderSignature (sign_verify c lease_verify_key (action_lease_transcript body) signature)) (\<lambda>_.
     bindR (decode_action_lease_body body) (\<lambda>lease.
     Inr (lease\<lparr>al_signature := signature\<rparr>))))"

section \<open>Queued requests\<close>

definition MAX_PENDING_ACTION_WINDOW :: nat where "MAX_PENDING_ACTION_WINDOW = 16"

abbreviation (input) PT_SEQ :: u16 where "PT_SEQ \<equiv> 1"
abbreviation (input) PT_GRANT_ID :: u16 where "PT_GRANT_ID \<equiv> 2"
abbreviation (input) PT_DOOR_FPR :: u16 where "PT_DOOR_FPR \<equiv> 3"
abbreviation (input) PT_KIND :: u16 where "PT_KIND \<equiv> 4"
abbreviation (input) PT_ARGS :: u16 where "PT_ARGS \<equiv> 5"
abbreviation (input) PT_NONCE :: u16 where "PT_NONCE \<equiv> 6"
abbreviation (input) PT_NOTE :: u16 where "PT_NOTE \<equiv> 7"
abbreviation (input) PT_AT :: u16 where "PT_AT \<equiv> 8"

record PendingAction =
  pa_seq :: u64
  pa_grant_id :: bytes
  pa_door_fpr :: bytes
  pa_kind :: ActionKind
  pa_args :: Args
  pa_nonce :: bytes
  pa_note :: bytes
  pa_at :: i64

definition limiter_key :: "ActionRule \<Rightarrow> FormatError + bytes" where
  "limiter_key rule =
     bindR (encode_constraint (ar_constraint rule)) (\<lambda>limit.
     Inr (le16 (kind_as_u16 (ar_kind rule)) @ limit))"

definition check_pending_shape :: "PendingAction \<Rightarrow> FormatError + unit" where
  "check_pending_shape p =
     bindR (ensure (\<not> pa_kind p \<noteq> args_kind (pa_args p)) (BadFieldLength PT_KIND 2)) (\<lambda>_.
     bindR (check_note (pa_note p) PT_NOTE) (\<lambda>_.
     check_args_shape (pa_args p)))"

definition encode_pending_action :: "PendingAction \<Rightarrow> FormatError + bytes" where
  "encode_pending_action p =
     bindR (check_pending_shape p) (\<lambda>_.
     bindR (encode_args (pa_args p)) (\<lambda>args.
     write_fields
       [(PT_SEQ, le64 (pa_seq p)),
        (PT_GRANT_ID, pa_grant_id p),
        (PT_DOOR_FPR, pa_door_fpr p),
        (PT_KIND, le16 (kind_as_u16 (pa_kind p))),
        (PT_ARGS, args),
        (PT_NONCE, pa_nonce p),
        (PT_NOTE, pa_note p),
        (PT_AT, le64 (pa_at p))]))"

record PendingActionDecoder =
  wk_seq :: "u64 option"
  wk_grant_id :: "bytes option"
  wk_door_fpr :: "bytes option"
  wk_kind :: "ActionKind option"
  wk_raw_args :: "bytes option"
  wk_nonce :: "bytes option"
  wk_note :: "bytes option"
  wk_at :: "i64 option"

definition pending_action_decode_start :: PendingActionDecoder where
  "pending_action_decode_start =
     \<lparr>wk_seq = None, wk_grant_id = None, wk_door_fpr = None, wk_kind = None, wk_raw_args = None,
      wk_nonce = None, wk_note = None, wk_at = None\<rparr>"

definition pending_action_step :: "u16 \<Rightarrow> bytes \<Rightarrow> PendingActionDecoder \<Rightarrow> FormatError + PendingActionDecoder" where
  "pending_action_step tag value d =
     (if tag = PT_SEQ then bindR (u64_le tag value) (\<lambda>x. Inr (d\<lparr>wk_seq := Some x\<rparr>))
      else if tag = PT_GRANT_ID then bindR (exact_len 16 tag value) (\<lambda>x. Inr (d\<lparr>wk_grant_id := Some x\<rparr>))
      else if tag = PT_DOOR_FPR then bindR (exact_len 32 tag value) (\<lambda>x. Inr (d\<lparr>wk_door_fpr := Some x\<rparr>))
      else if tag = PT_KIND then
        bindR (u16_le tag value) (\<lambda>w.
        bindR (kind_from_u16 w PT_KIND) (\<lambda>x. Inr (d\<lparr>wk_kind := Some x\<rparr>)))
      else if tag = PT_ARGS then Inr (d\<lparr>wk_raw_args := Some value\<rparr>)
      else if tag = PT_NONCE then bindR (exact_len 16 tag value) (\<lambda>x. Inr (d\<lparr>wk_nonce := Some x\<rparr>))
      else if tag = PT_NOTE then
        bindR (text_value PT_NOTE value) (\<lambda>x.
        bindR (check_note x PT_NOTE) (\<lambda>_. Inr (d\<lparr>wk_note := Some x\<rparr>)))
      else if tag = PT_AT then bindR (u64_le tag value) (\<lambda>x. Inr (d\<lparr>wk_at := Some x\<rparr>))
      else bindR (refuse_if_critical tag) (\<lambda>_. Inr d))"

definition pending_action_finish :: "PendingActionDecoder \<Rightarrow> FormatError + PendingAction" where
  "pending_action_finish d =
     bindR (ok_or (MissingField PT_KIND) (wk_kind d)) (\<lambda>kind.
     bindR (ok_or (MissingField PT_ARGS) (wk_raw_args d)) (\<lambda>raw_args.
     bindR (ok_or (MissingField PT_SEQ) (wk_seq d)) (\<lambda>seq.
     bindR (ok_or (MissingField PT_GRANT_ID) (wk_grant_id d)) (\<lambda>grant_id.
     bindR (ok_or (MissingField PT_DOOR_FPR) (wk_door_fpr d)) (\<lambda>door_fpr.
     bindR (decode_args raw_args kind) (\<lambda>args.
     bindR (ok_or (MissingField PT_NONCE) (wk_nonce d)) (\<lambda>nonce.
     bindR (ok_or (MissingField PT_NOTE) (wk_note d)) (\<lambda>note.
     bindR (ok_or (MissingField PT_AT) (wk_at d)) (\<lambda>at.
     let p = \<lparr>pa_seq = seq, pa_grant_id = grant_id, pa_door_fpr = door_fpr, pa_kind = kind,
              pa_args = args, pa_nonce = nonce, pa_note = note, pa_at = at\<rparr> in
     bindR (check_pending_shape p) (\<lambda>_.
     Inr p))))))))))"

definition decode_pending_action :: "bytes \<Rightarrow> FormatError + PendingAction" where
  "decode_pending_action bs =
     bindR (tlv_values pending_action_step bs pending_action_decode_start) pending_action_finish"

definition split_action_queue :: "bytes \<Rightarrow> QueueError + PendingAction list" where
  "split_action_queue rest =
     queue_loop decode_pending_action ''action queue torn at the record length''
       ''action record shorter than its length'' MAX_PENDING_ACTION_WINDOW rest []"

section \<open>Decisions on actions\<close>

abbreviation (input) DT_GRANT_ID :: u16 where "DT_GRANT_ID \<equiv> 1"
abbreviation (input) DT_DOOR_FPR :: u16 where "DT_DOOR_FPR \<equiv> 2"
abbreviation (input) DT_SEQ :: u16 where "DT_SEQ \<equiv> 3"
abbreviation (input) DT_APPROVE :: u16 where "DT_APPROVE \<equiv> 4"
abbreviation (input) DT_NOTE :: u16 where "DT_NOTE \<equiv> 5"
abbreviation (input) DT_AUTHOR_KEY :: u16 where "DT_AUTHOR_KEY \<equiv> 6"

record ActionDecision =
  ad_seq :: u64
  ad_grant_id :: bytes
  ad_door_fpr :: bytes
  ad_approve :: bool
  ad_note :: bytes
  ad_author_key :: bytes
  ad_signature :: bytes

definition action_decision_body :: "ActionDecision \<Rightarrow> FormatError + bytes" where
  "action_decision_body d =
     bindR (check_note (ad_note d) DT_NOTE) (\<lambda>_.
     write_fields
       [(DT_GRANT_ID, ad_grant_id d),
        (DT_DOOR_FPR, ad_door_fpr d),
        (DT_SEQ, le64 (ad_seq d)),
        (DT_APPROVE, [bool_byte (ad_approve d)]),
        (DT_NOTE, ad_note d),
        (DT_AUTHOR_KEY, ad_author_key d)])"

definition action_decision_transcript :: "bytes \<Rightarrow> Transcript" where
  "action_decision_transcript body = body_transcript ACTION_DECISION body"

definition encode_action_decision :: "ActionDecision \<Rightarrow> FormatError + bytes" where
  "encode_action_decision d = bindR (action_decision_body d) (\<lambda>body. Inr (ad_signature d @ body))"

record ActionDecisionDecoder =
  nk_grant_id :: "bytes option"
  nk_door_fpr :: "bytes option"
  nk_seq :: "u64 option"
  nk_approve :: "bool option"
  nk_note :: "bytes option"
  nk_author_key :: "bytes option"

definition action_decision_decode_start :: ActionDecisionDecoder where
  "action_decision_decode_start =
     \<lparr>nk_grant_id = None, nk_door_fpr = None, nk_seq = None, nk_approve = None, nk_note = None,
      nk_author_key = None\<rparr>"

definition action_decision_step ::
    "u16 \<Rightarrow> bytes \<Rightarrow> ActionDecisionDecoder \<Rightarrow> FormatError + ActionDecisionDecoder" where
  "action_decision_step tag value d =
     (if tag = DT_GRANT_ID then bindR (exact_len 16 tag value) (\<lambda>x. Inr (d\<lparr>nk_grant_id := Some x\<rparr>))
      else if tag = DT_DOOR_FPR then bindR (exact_len 32 tag value) (\<lambda>x. Inr (d\<lparr>nk_door_fpr := Some x\<rparr>))
      else if tag = DT_SEQ then bindR (u64_le tag value) (\<lambda>x. Inr (d\<lparr>nk_seq := Some x\<rparr>))
      else if tag = DT_APPROVE then bindR (flag_value DT_APPROVE value) (\<lambda>x. Inr (d\<lparr>nk_approve := Some x\<rparr>))
      else if tag = DT_NOTE then
        bindR (text_value DT_NOTE value) (\<lambda>x.
        bindR (check_note x DT_NOTE) (\<lambda>_. Inr (d\<lparr>nk_note := Some x\<rparr>)))
      else if tag = DT_AUTHOR_KEY then bindR (exact_len 32 tag value) (\<lambda>x. Inr (d\<lparr>nk_author_key := Some x\<rparr>))
      else bindR (refuse_if_critical tag) (\<lambda>_. Inr d))"

definition action_decision_finish :: "ActionDecisionDecoder \<Rightarrow> FormatError + ActionDecision" where
  "action_decision_finish d =
     bindR (ok_or (MissingField DT_SEQ) (nk_seq d)) (\<lambda>seq.
     bindR (ok_or (MissingField DT_GRANT_ID) (nk_grant_id d)) (\<lambda>grant_id.
     bindR (ok_or (MissingField DT_DOOR_FPR) (nk_door_fpr d)) (\<lambda>door_fpr.
     bindR (ok_or (MissingField DT_APPROVE) (nk_approve d)) (\<lambda>approve.
     bindR (ok_or (MissingField DT_NOTE) (nk_note d)) (\<lambda>note.
     bindR (ok_or (MissingField DT_AUTHOR_KEY) (nk_author_key d)) (\<lambda>author_key.
     Inr \<lparr>ad_seq = seq, ad_grant_id = grant_id, ad_door_fpr = door_fpr, ad_approve = approve,
          ad_note = note, ad_author_key = author_key, ad_signature = replicate SIGNATURE_LEN 0\<rparr>))))))"

definition decode_action_decision_body :: "bytes \<Rightarrow> FormatError + ActionDecision" where
  "decode_action_decision_body body =
     bindR (tlv_values action_decision_step body action_decision_decode_start) action_decision_finish"

definition decode_action_decision :: "Crates \<Rightarrow> bytes \<Rightarrow> bytes \<Rightarrow> FormatError + ActionDecision" where
  "decode_action_decision c bs author_key =
     bindR (split_signature bs) (\<lambda>(signature, body).
     bindR (map_err BadHeaderSignature (sign_verify c author_key (action_decision_transcript body) signature)) (\<lambda>_.
     bindR (decode_action_decision_body body) (\<lambda>decision.
     bindR (ensure (digest_eq_ct c (ad_author_key decision) author_key) (BadFieldLength DT_AUTHOR_KEY 32)) (\<lambda>_.
     Inr (decision\<lparr>ad_signature := signature\<rparr>)))))"

definition peek_decision :: "bytes \<Rightarrow> FormatError + ActionDecision" where
  "peek_decision bs =
     bindR (split_signature bs) (\<lambda>(signature, body).
     bindR (decode_action_decision_body body) (\<lambda>decision.
     Inr (decision\<lparr>ad_signature := signature\<rparr>)))"

section \<open>Small codecs\<close>

lemma kind_codec [simp]: "kind_from_u16 (kind_as_u16 k) tag = Inr k"
  by (cases k) (simp_all add: kind_from_u16_def)

lemma kind_from_u16_Inr: "kind_from_u16 w tag = Inr k \<longleftrightarrow> w = kind_as_u16 k"
  by (cases k) (auto simp: kind_from_u16_def split: if_splits)

lemma method_codec [simp]: "method_from_u8 (method_as_u8 m) tag = Inr m"
  by (cases m) (simp_all add: method_from_u8_def)

lemma text_value_Inr: "text_value tag v = Inr x \<longleftrightarrow> x = v \<and> utf8_valid v"
  by (auto simp: text_value_def ok_or_eq_Inr from_utf8_def)

lemma collect_methods:
  "foldR (\<lambda>b out. bindR (method_from_u8 b tag) (\<lambda>m. Inr (out @ [m]))) (map method_as_u8 ms) out = Inr (out @ ms)"
  by (induction ms arbitrary: out) simp_all

lemma decode_encode_methods:
  "check_methods ms tag = Inr () \<Longrightarrow> decode_methods (encode_methods ms) tag = Inr ms"
  using collect_methods [of tag ms "[]"] by (simp add: decode_methods_def encode_methods_def)

text \<open>Every byte the shape checks admit is ASCII, so the checked strings are valid UTF-8.\<close>

lemma name_char_ascii: "name_char_ok b \<Longrightarrow> unat b < 0x80"
  by (auto simp: name_char_ok_def is_ascii_alphanumeric_def is_ascii_lowercase_def is_ascii_uppercase_def
      is_ascii_digit_def word_le_nat_alt)

lemma shape_utf8:
  "check_name v t = Inr u \<Longrightarrow> utf8_valid v"
  "tree_path_ok v \<Longrightarrow> utf8_valid v"
  "http_path_ok v \<Longrightarrow> utf8_valid v"
  "check_host v t = Inr u \<Longrightarrow> utf8_valid v"
  "check_secret_ref v t = Inr u \<Longrightarrow> utf8_valid v"
proof -
  have ascii: "\<forall>b \<in> set v. unat b < 0x80 \<Longrightarrow> utf8_valid v" for v
    by (intro utf8_valid_ascii) (simp add: list_all_iff)
  show "check_name v t = Inr u \<Longrightarrow> utf8_valid v"
    by (rule ascii) (auto simp: check_name_def bindR_eq_Inr check_bytes_Inr name_char_ascii)
  show "tree_path_ok v \<Longrightarrow> utf8_valid v" "http_path_ok v \<Longrightarrow> utf8_valid v"
    by (rule ascii, fastforce simp: tree_path_ok_def http_path_ok_def dest: name_char_ascii)+
  show "check_host v t = Inr u \<Longrightarrow> utf8_valid v" "check_secret_ref v t = Inr u \<Longrightarrow> utf8_valid v"
    by (rule ascii, fastforce simp: check_host_def check_secret_ref_def bindR_eq_Inr check_bytes_Inr
        is_ascii_lowercase_def is_ascii_uppercase_def is_ascii_digit_def word_le_nat_alt)+
qed

section \<open>Limiters, arguments and rules round-trip\<close>

lemma decode_constraintD:
  "decode_constraint bs kind = Inr limit \<Longrightarrow> constraint_kind limit = kind \<and> check_constraint_shape limit = Inr ()"
  by (cases kind) (auto simp: decode_constraint_def constraint_finish_def bindR_eq_Inr)

lemma decode_argsD:
  "decode_args bs kind = Inr args \<Longrightarrow> args_kind args = kind \<and> check_args_shape args = Inr ()"
  by (cases kind) (auto simp: decode_args_def args_finish_def bindR_eq_Inr)

lemma decode_encode_constraint:
  assumes "encode_constraint limit = Inr bs"
  shows "decode_constraint bs (constraint_kind limit) = Inr limit"
  using assms
  by (cases limit)
    (auto simp: encode_constraint_def decode_constraint_def bindR_eq_Inr write_fields_eq_Inr constraint_step_def
      constraint_decode_start_def constraint_finish_def check_constraint_shape_def text_value_Inr [THEN iffD2]
      shape_utf8 check_tree_path_Inr check_http_path_Inr decode_encode_methods simp del: enc_fields_simps
      split: option.splits)

definition args_wf :: "Args \<Rightarrow> bool" where
  "args_wf args \<longleftrightarrow> (case args of AHttpRequest h m p d n \<Rightarrow> length d = 32 | _ \<Rightarrow> True)"

lemma decode_encode_args:
  assumes "encode_args args = Inr bs" and "args_wf args"
  shows "decode_args bs (args_kind args) = Inr args"
  using assms
  by (cases args)
    (auto simp: args_wf_def encode_args_def decode_args_def bindR_eq_Inr write_fields_eq_Inr args_step_def exact_len_def
      args_decode_start_def args_finish_def check_args_shape_def text_value_Inr [THEN iffD2]
      shape_utf8 check_tree_path_Inr check_http_path_Inr simp del: enc_fields_simps)

interpretation constraint_codec:
  codec encode_constraint "\<lambda>bs. decode_constraint bs kind" "\<lambda>limit. constraint_kind limit = kind" for kind
  by unfold_locales (use decode_encode_constraint in blast)

interpretation args_codec:
  codec encode_args "\<lambda>bs. decode_args bs kind" "\<lambda>args. args_kind args = kind \<and> args_wf args" for kind
  by unfold_locales (use decode_encode_args in blast)

lemma decode_ruleD: "decode_rule bs = Inr r \<Longrightarrow> check_rule_shape r = Inr ()"
  by (auto simp: decode_rule_def rule_finish_def bindR_eq_Inr Let_def)

lemma decode_encode_rule:
  assumes "encode_rule r = Inr bs"
  shows "decode_rule bs = Inr r"
proof -
  obtain limit where shape: "check_rule_shape r = Inr ()" and limit: "encode_constraint (ar_constraint r) = Inr limit"
    and bs: "write_fields [(RU_KIND, le16 (kind_as_u16 (ar_kind r))), (RU_CONSTRAINT, limit),
      (RU_MAX_USES, le32 (ar_max_uses r)), (RU_CONFIRM, [bool_byte (ar_confirm r)]),
      (RU_DELEGABLE, [bool_byte (ar_delegable r)])] = Inr bs"
    using assms by (auto simp: encode_rule_def bindR_eq_Inr)
  have "decode_constraint limit (ar_kind r) = Inr (ar_constraint r)"
    using decode_encode_constraint [OF limit] shape by (auto simp: check_rule_shape_def bindR_eq_Inr ensure_eq_Inr)
  then show ?thesis
    using bs shape
    by (cases r) (auto simp: write_fields_eq_Inr decode_rule_def rule_step_def rule_decode_start_def rule_finish_def Let_def
        simp del: enc_fields_simps if_split)
qed

interpretation rule_codec: codec encode_rule decode_rule "\<lambda>_. True"
  by unfold_locales (rule decode_encode_rule)

lemma decode_encode_rules:
  assumes "encode_rules rs = Inr bs"
  shows "decode_rules bs = Inr rs"
proof -
  from assms obtain w where w: "bs = finish w" "length rs \<le> MAX_ACTION_RULES"
    and fold: "foldR (\<lambda>(index, rule) w. bindR (ok_or OffsetOverflow (u16_of_usize index)) (\<lambda>tag.
      bindR (encode_rule rule) (\<lambda>body. put tag body w))) (enumerate 0 rs) writer_new = Inr w"
    by (auto simp: encode_rules_def bindR_eq_Inr ensure_eq_Inr)
  obtain items where items: "list_all2 (\<lambda>r b. encode_rule r = Inr b) rs items" "ascending None (indexed 0 items)"
    "finish w = enc_fields (indexed 0 items)"
    using foldR_write_indexed [OF fold] by blast
  have "list_all2 (\<lambda>r b. decode_rule b = Inr r) rs items"
    using items(1) by (rule list_all2_mono) (rule decode_encode_rule)
  then have "run_fields rules_step (indexed 0 items) [] = Inr ([] @ rs)"
    by (rule run_collect [where limit = MAX_ACTION_RULES]) (use w(2) in \<open>simp_all add: rules_step_def\<close>)
  then show ?thesis using w(1) items(2,3) by (simp add: decode_rules_def)
qed

interpretation rules_codec: codec encode_rules decode_rules "\<lambda>_. True"
  by unfold_locales (rule decode_encode_rules)

lemma decode_rulesD:
  assumes "decode_rules bs = Inr rs"
  shows "length rs \<le> MAX_ACTION_RULES \<and> (\<forall>r \<in> set rs. check_rule_shape r = Inr ())"
  using assms unfolding decode_rules_def
  by (rule tlv_values_invariant) (auto simp: rules_step_def bindR_eq_Inr ensure_eq_Inr dest: decode_ruleD)

section \<open>Grants round-trip\<close>

lemma SIGNATURE_LEN_64 [simp]: "SIGNATURE_LEN = 64"
  by (simp add: SIGNATURE_LEN_def)

definition grant_wf :: "ActionGrant \<Rightarrow> bool" where
  "grant_wf g \<longleftrightarrow> length (ag_grant_id g) = 16 \<and> length (ag_author_key g) = 32"

lemma check_grant_shape_signature [simp]: "check_grant_shape (g\<lparr>ag_signature := s\<rparr>) = check_grant_shape g"
  by (simp add: check_grant_shape_def)

lemma foldR_check: "foldR (\<lambda>x _. f x) xs () = Inr () \<longleftrightarrow> (\<forall>x \<in> set xs. f x = Inr ())"
  by (induction xs) (auto simp: bindR_eq_Inr)

lemma check_grant_shape_Inr:
  "check_grant_shape g = Inr () \<longleftrightarrow>
     length (ag_rules g) \<le> MAX_ACTION_RULES \<and> (\<forall>r \<in> set (ag_rules g). check_rule_shape r = Inr ()) \<and>
     sint (ag_issued_at g) \<le> sint (ag_expires_at g)"
  by (auto simp: check_grant_shape_def bindR_eq_Inr ensure_eq_Inr foldR_check)

lemma decode_grant_bodyD:
  assumes "decode_grant_body body = Inr g"
  shows "check_grant_shape g = Inr ()" and "length (ag_author_key g) = 32"
proof -
  obtain d where d: "tlv_values grant_step body grant_decode_start = Inr d" "grant_finish d = Inr g"
    using assms by (auto simp: decode_grant_body_def bindR_eq_Inr)
  have "\<forall>k. gk_author_key d = Some k \<longrightarrow> length k = 32"
    using d(1) by (rule tlv_values_invariant)
      (auto simp: grant_decode_start_def grant_step_def bindR_eq_Inr split: if_splits)
  with d(2) show "check_grant_shape g = Inr ()" "length (ag_author_key g) = 32"
    by (auto simp: grant_finish_def bindR_eq_Inr ok_or_eq_Inr Let_def)
qed

lemma decode_encode_grant:
  assumes "grant_wf g" and "grant_body g = Inr body"
  shows "decode_grant_body body = Inr (g\<lparr>ag_signature := replicate 64 0\<rparr>)"
proof -
  obtain rules where "check_grant_shape g = Inr ()" "encode_rules (ag_rules g) = Inr rules"
    "write_fields [(GT_GRANT_ID, ag_grant_id g), (GT_RULES, rules), (GT_ISSUED_AT, le64 (ag_issued_at g)),
      (GT_EXPIRES_AT, le64 (ag_expires_at g)), (GT_AUTHOR_KEY, ag_author_key g)] = Inr body"
    using assms(2) by (auto simp: grant_body_def bindR_eq_Inr)
  moreover have "check_grant_shape (g\<lparr>ag_signature := replicate 64 0\<rparr>) = Inr ()" using calculation(1) by simp
  ultimately show ?thesis
    using assms(1) decode_encode_rules [of "ag_rules g" rules]
    by (cases g)
      (auto simp: grant_wf_def write_fields_eq_Inr decode_grant_body_def grant_step_def grant_decode_start_def
        grant_finish_def exact_len_def Let_def simp del: enc_fields_simps check_grant_shape_signature)
qed

text \<open>The author's key inside the document must be the key that verified it.\<close>

interpretation grant_doc: signed_record "\<lambda>_. grant_body" "\<lambda>_. decode_grant_body" grant_wf ACTION_GRANT
  "\<lambda>c key g. ensure (digest_eq_ct c (ag_author_key g) key) (BadFieldLength GT_AUTHOR_KEY 32)"
  ag_signature "\<lambda>s g. g\<lparr>ag_signature := s\<rparr>" decode_grant
  by unfold_locales
    (simp_all add: LABEL_ALL_def decode_encode_grant decode_grant_def open_record_def grant_transcript_def)

section \<open>Accepted action leases\<close>

definition action_lease_wf :: "ActionLease \<Rightarrow> bool" where
  "action_lease_wf l \<longleftrightarrow>
     length (al_grant_id l) = 16 \<and> length (al_door_fpr l) = 32 \<and> length (al_nonce l) = 16 \<and> args_wf (al_args l)"

definition action_lease_tags :: "u16 list" where
  "action_lease_tags = [AL_GRANT_ID, AL_DOOR_FPR, AL_KIND, AL_ARGS, AL_NONCE, AL_ISSUED_AT, AL_EXPIRES_AT, AL_SEQ]"

definition action_lease_fields :: "bytes \<Rightarrow> ActionLease \<Rightarrow> (u16 \<times> bytes) list" where
  "action_lease_fields raw_args l =
     [(AL_GRANT_ID, al_grant_id l), (AL_DOOR_FPR, al_door_fpr l), (AL_KIND, le16 (kind_as_u16 (al_kind l))),
      (AL_ARGS, raw_args), (AL_NONCE, al_nonce l), (AL_ISSUED_AT, le64 (al_issued_at l)),
      (AL_EXPIRES_AT, le64 (al_expires_at l)), (AL_SEQ, le64 (al_seq l))]"

definition action_lease_get :: "u16 \<Rightarrow> ActionLeaseDecoder \<Rightarrow> bytes option" where
  "action_lease_get tag d =
     (if tag = AL_GRANT_ID then lk_grant_id d
      else if tag = AL_DOOR_FPR then lk_door_fpr d
      else if tag = AL_KIND then map_option (\<lambda>k. le16 (kind_as_u16 k)) (lk_kind d)
      else if tag = AL_ARGS then lk_raw_args d
      else if tag = AL_NONCE then lk_nonce d
      else if tag = AL_ISSUED_AT then map_option (\<lambda>w. le64 w) (lk_issued_at d)
      else if tag = AL_EXPIRES_AT then map_option (\<lambda>w. le64 w) (lk_expires_at d)
      else if tag = AL_SEQ then map_option (\<lambda>w. le64 w) (lk_seq d)
      else None)"

definition action_lease_state :: "bytes \<Rightarrow> ActionLease \<Rightarrow> ActionLeaseDecoder" where
  "action_lease_state raw_args l =
     \<lparr>lk_grant_id = Some (al_grant_id l), lk_door_fpr = Some (al_door_fpr l), lk_kind = Some (al_kind l),
      lk_raw_args = Some raw_args, lk_nonce = Some (al_nonce l), lk_issued_at = Some (al_issued_at l),
      lk_expires_at = Some (al_expires_at l), lk_seq = Some (al_seq l)\<rparr>"

lemma action_lease_get_upd:
  "action_lease_get u (d\<lparr>lk_grant_id := b\<rparr>) = (if u = AL_GRANT_ID then b else action_lease_get u d)"
  "action_lease_get u (d\<lparr>lk_door_fpr := b\<rparr>) = (if u = AL_DOOR_FPR then b else action_lease_get u d)"
  "action_lease_get u (d\<lparr>lk_kind := k\<rparr>) =
     (if u = AL_KIND then map_option (\<lambda>k. le16 (kind_as_u16 k)) k else action_lease_get u d)"
  "action_lease_get u (d\<lparr>lk_raw_args := b\<rparr>) = (if u = AL_ARGS then b else action_lease_get u d)"
  "action_lease_get u (d\<lparr>lk_nonce := b\<rparr>) = (if u = AL_NONCE then b else action_lease_get u d)"
  "action_lease_get u (d\<lparr>lk_issued_at := n\<rparr>) =
     (if u = AL_ISSUED_AT then map_option (\<lambda>w. le64 w) n else action_lease_get u d)"
  "action_lease_get u (d\<lparr>lk_expires_at := n\<rparr>) =
     (if u = AL_EXPIRES_AT then map_option (\<lambda>w. le64 w) n else action_lease_get u d)"
  "action_lease_get u (d\<lparr>lk_seq := n\<rparr>) = (if u = AL_SEQ then map_option (\<lambda>w. le64 w) n else action_lease_get u d)"
  by (simp_all add: action_lease_get_def)

interpretation action_lease_reader:
  field_decoder action_lease_step action_lease_decode_start action_lease_tags "[]" action_lease_get
proof
  fix t v s s' u
  assume step: "action_lease_step t v s = Inr s'"
  show "action_lease_get u s' = (if u = t \<and> t \<in> set action_lease_tags then Some v else action_lease_get u s)"
    using step by (auto simp: action_lease_step_def action_lease_tags_def action_lease_get_upd bindR_eq_Inr
        value_parsers_Inr kind_from_u16_Inr split: if_splits)
  show "t \<in> set action_lease_tags \<or> t \<in> set [] \<or> CRIT_TAG_MAX < t"
    using step by (auto simp: action_lease_step_def action_lease_tags_def bindR_eq_Inr refuse_if_critical_Inr
        split: if_splits)
qed (simp_all add: action_lease_tags_def action_lease_decode_start_def action_lease_get_def action_lease_step_def
    refuse_if_critical_optional)

lemma action_lease_finish_Inr:
  "action_lease_finish d = Inr l \<longleftrightarrow>
     (\<exists>raw. d = action_lease_state raw l \<and> decode_args raw (al_kind l) = Inr (al_args l)) \<and>
     check_lease_shape l = Inr () \<and> al_signature l = replicate 64 0"
  by (cases d, cases l)
    (auto simp: action_lease_finish_def action_lease_state_def bindR_eq_Inr ok_or_eq_Inr Let_def)

lemma decode_action_lease_body_iff:
  "decode_action_lease_body body = Inr l \<longleftrightarrow>
     length (al_grant_id l) = 16 \<and> length (al_door_fpr l) = 32 \<and> length (al_nonce l) = 16 \<and>
     check_lease_shape l = Inr () \<and> al_signature l = replicate 64 0 \<and>
     (\<exists>raw. decode_args raw (al_kind l) = Inr (al_args l) \<and>
        carries action_lease_tags (action_lease_fields raw l) body)"
proof -
  have "tlv_values action_lease_step body action_lease_decode_start = Inr (action_lease_state raw l) \<longleftrightarrow>
      (length (al_grant_id l) = 16 \<and> length (al_door_fpr l) = 32 \<and> length (al_nonce l) = 16) \<and>
      carries action_lease_tags (action_lease_fields raw l) body" for raw
    by (rule action_lease_reader.accepts_exactly)
      (auto simp: action_lease_tags_def action_lease_get_def action_lease_state_def action_lease_fields_def
        action_lease_step_def action_lease_decode_start_def exact_len_def bindR_eq_Inr)
  then show ?thesis
    by (auto simp: decode_action_lease_body_def bindR_eq_Inr action_lease_finish_Inr)
qed

lemma check_lease_shape_Inr:
  "check_lease_shape l = Inr () \<longleftrightarrow>
     al_kind l = args_kind (al_args l) \<and> sint (al_issued_at l) \<le> sint (al_expires_at l) \<and>
     sint (al_expires_at l) \<le> sint (al_issued_at l) + 30 \<and> check_args_shape (al_args l) = Inr ()"
  using sint_i64_range [of "al_expires_at l"] sint_i64_range [of "al_issued_at l"]
  by (auto simp: check_lease_shape_def bindR_eq_Inr ensure_eq_Inr checked_simps clamp_i64_def ACTION_LEASE_SECONDS_def)

lemma decode_encode_action_lease:
  assumes "action_lease_wf l" and "action_lease_body l = Inr body"
  shows "decode_action_lease_body body = Inr (l\<lparr>al_signature := replicate 64 0\<rparr>)"
proof -
  obtain args where "check_lease_shape l = Inr ()" and args: "encode_args (al_args l) = Inr args"
    and w: "write_fields (action_lease_fields args l) = Inr body"
    using assms(2) by (auto simp: action_lease_body_def bindR_eq_Inr action_lease_fields_def)
  moreover have "carries action_lease_tags (action_lease_fields args l) body"
    using w carries_self [of "action_lease_fields args l" action_lease_tags]
    by (auto simp: write_fields_eq_Inr action_lease_fields_def action_lease_tags_def)
  moreover have "action_lease_fields args (l\<lparr>al_signature := s\<rparr>) = action_lease_fields args l" for s
    by (simp add: action_lease_fields_def)
  ultimately show ?thesis
    using assms(1) decode_encode_args [OF args]
    by (auto simp: decode_action_lease_body_iff action_lease_wf_def check_lease_shape_Inr)
qed

interpretation action_lease_doc: signed_record "\<lambda>_. action_lease_body"
  "\<lambda>_. decode_action_lease_body" action_lease_wf ACTION_LEASE
  "\<lambda>c key l. Inr ()" al_signature "\<lambda>s l. l\<lparr>al_signature := s\<rparr>" decode_action_lease
  by unfold_locales
    (simp_all add: LABEL_ALL_def decode_encode_action_lease decode_action_lease_def open_record_def
      action_lease_transcript_def)

section \<open>Requests and queued requests round-trip\<close>

definition request_wf :: "ActionRequest \<Rightarrow> bool" where
  "request_wf q \<longleftrightarrow>
     length (rq_grant_id q) = 16 \<and> length (rq_door_fpr q) = 32 \<and> length (rq_nonce q) = 16 \<and>
     args_wf (rq_args q) \<and> utf8_valid (rq_note q)"

lemma decode_encode_request:
  assumes "request_wf q" and "encode_request q = Inr bs"
  shows "decode_request bs = Inr q"
proof -
  obtain args where shape: "check_request_shape q = Inr ()" and args: "encode_args (rq_args q) = Inr args"
    and bs: "ascending None [(QT_GRANT_ID, rq_grant_id q), (QT_DOOR_FPR, rq_door_fpr q),
        (QT_KIND, le16 (kind_as_u16 (rq_kind q))), (QT_ARGS, args), (QT_NONCE, rq_nonce q), (QT_NOTE, rq_note q)]"
      "bs = enc_fields [(QT_GRANT_ID, rq_grant_id q), (QT_DOOR_FPR, rq_door_fpr q),
        (QT_KIND, le16 (kind_as_u16 (rq_kind q))), (QT_ARGS, args), (QT_NONCE, rq_nonce q), (QT_NOTE, rq_note q)]"
    using assms(2) by (auto simp: encode_request_def bindR_eq_Inr write_fields_eq_Inr simp del: enc_fields_simps ascending.simps)
  have "decode_args args (rq_kind q) = Inr (rq_args q)" "check_note (rq_note q) QT_NOTE = Inr ()"
    using decode_encode_args [OF args] assms(1) shape
    by (auto simp: request_wf_def check_request_shape_def bindR_eq_Inr ensure_eq_Inr)
  moreover have "text_value QT_NOTE (rq_note q) = Inr (rq_note q)"
    using assms(1) by (simp add: request_wf_def text_value_Inr)
  ultimately show ?thesis
    using assms(1) shape bs(1)
    by (cases q) (simp add: bs(2) decode_request_def request_step_def request_decode_start_def
        request_finish_def request_wf_def exact_len_def Let_def del: enc_fields_simps)
qed

interpretation request_codec: codec encode_request decode_request request_wf
  by unfold_locales (rule decode_encode_request)

definition pending_action_wf :: "PendingAction \<Rightarrow> bool" where
  "pending_action_wf p \<longleftrightarrow>
     length (pa_grant_id p) = 16 \<and> length (pa_door_fpr p) = 32 \<and> length (pa_nonce p) = 16 \<and>
     args_wf (pa_args p) \<and> utf8_valid (pa_note p)"

lemma decode_encode_pending_action:
  assumes "pending_action_wf p" and "encode_pending_action p = Inr bs"
  shows "decode_pending_action bs = Inr p"
proof -
  let ?fs = "\<lambda>args. [(PT_SEQ, le64 (pa_seq p)), (PT_GRANT_ID, pa_grant_id p), (PT_DOOR_FPR, pa_door_fpr p),
    (PT_KIND, le16 (kind_as_u16 (pa_kind p))), (PT_ARGS, args), (PT_NONCE, pa_nonce p), (PT_NOTE, pa_note p),
    (PT_AT, le64 (pa_at p))]"
  obtain args where shape: "check_pending_shape p = Inr ()" and args: "encode_args (pa_args p) = Inr args"
    and bs: "ascending None (?fs args)" "bs = enc_fields (?fs args)"
    using assms(2) by (auto simp: encode_pending_action_def bindR_eq_Inr write_fields_eq_Inr simp del: enc_fields_simps ascending.simps)
  have "decode_args args (pa_kind p) = Inr (pa_args p)" "check_note (pa_note p) PT_NOTE = Inr ()"
    using decode_encode_args [OF args] assms(1) shape
    by (auto simp: pending_action_wf_def check_pending_shape_def bindR_eq_Inr ensure_eq_Inr)
  moreover have "text_value PT_NOTE (pa_note p) = Inr (pa_note p)"
    using assms(1) by (simp add: pending_action_wf_def text_value_Inr)
  ultimately show ?thesis
    using assms(1) shape bs(1)
    by (cases p) (simp add: bs(2) decode_pending_action_def pending_action_step_def
        pending_action_decode_start_def pending_action_finish_def pending_action_wf_def exact_len_def Let_def
        del: enc_fields_simps)
qed

interpretation pending_action_codec: codec encode_pending_action decode_pending_action pending_action_wf
  by unfold_locales (rule decode_encode_pending_action)

lemma decode_pending_actionD:
  "decode_pending_action bs = Inr p \<Longrightarrow> pa_kind p = args_kind (pa_args p) \<and> check_args_shape (pa_args p) = Inr ()"
  by (auto simp: decode_pending_action_def pending_action_finish_def check_pending_shape_def bindR_eq_Inr
      ensure_eq_Inr Let_def)

section \<open>Accepted decisions on actions\<close>

definition action_decision_wf :: "ActionDecision \<Rightarrow> bool" where
  "action_decision_wf d \<longleftrightarrow>
     length (ad_grant_id d) = 16 \<and> length (ad_door_fpr d) = 32 \<and> length (ad_author_key d) = 32 \<and>
     note_ok (ad_note d)"

definition action_decision_tags :: "u16 list" where
  "action_decision_tags = [DT_GRANT_ID, DT_DOOR_FPR, DT_SEQ, DT_APPROVE, DT_NOTE, DT_AUTHOR_KEY]"

definition action_decision_fields :: "ActionDecision \<Rightarrow> (u16 \<times> bytes) list" where
  "action_decision_fields d =
     [(DT_GRANT_ID, ad_grant_id d), (DT_DOOR_FPR, ad_door_fpr d), (DT_SEQ, le64 (ad_seq d)),
      (DT_APPROVE, [bool_byte (ad_approve d)]), (DT_NOTE, ad_note d), (DT_AUTHOR_KEY, ad_author_key d)]"

definition action_decision_get :: "u16 \<Rightarrow> ActionDecisionDecoder \<Rightarrow> bytes option" where
  "action_decision_get tag d =
     (if tag = DT_GRANT_ID then nk_grant_id d
      else if tag = DT_DOOR_FPR then nk_door_fpr d
      else if tag = DT_SEQ then map_option (\<lambda>w. le64 w) (nk_seq d)
      else if tag = DT_APPROVE then map_option (\<lambda>b. [bool_byte b]) (nk_approve d)
      else if tag = DT_NOTE then nk_note d
      else if tag = DT_AUTHOR_KEY then nk_author_key d
      else None)"

definition action_decision_state :: "ActionDecision \<Rightarrow> ActionDecisionDecoder" where
  "action_decision_state d =
     \<lparr>nk_grant_id = Some (ad_grant_id d), nk_door_fpr = Some (ad_door_fpr d), nk_seq = Some (ad_seq d),
      nk_approve = Some (ad_approve d), nk_note = Some (ad_note d), nk_author_key = Some (ad_author_key d)\<rparr>"

lemma action_decision_get_upd:
  "action_decision_get u (d\<lparr>nk_grant_id := b\<rparr>) = (if u = DT_GRANT_ID then b else action_decision_get u d)"
  "action_decision_get u (d\<lparr>nk_door_fpr := b\<rparr>) = (if u = DT_DOOR_FPR then b else action_decision_get u d)"
  "action_decision_get u (d\<lparr>nk_seq := n\<rparr>) = (if u = DT_SEQ then map_option (\<lambda>w. le64 w) n else action_decision_get u d)"
  "action_decision_get u (d\<lparr>nk_approve := y\<rparr>) =
     (if u = DT_APPROVE then map_option (\<lambda>b. [bool_byte b]) y else action_decision_get u d)"
  "action_decision_get u (d\<lparr>nk_note := b\<rparr>) = (if u = DT_NOTE then b else action_decision_get u d)"
  "action_decision_get u (d\<lparr>nk_author_key := b\<rparr>) = (if u = DT_AUTHOR_KEY then b else action_decision_get u d)"
  by (simp_all add: action_decision_get_def)

interpretation action_decision_reader:
  field_decoder action_decision_step action_decision_decode_start action_decision_tags "[]" action_decision_get
proof
  fix t v s s' u
  assume step: "action_decision_step t v s = Inr s'"
  show "action_decision_get u s' =
      (if u = t \<and> t \<in> set action_decision_tags then Some v else action_decision_get u s)"
    using step by (auto simp: action_decision_step_def action_decision_tags_def action_decision_get_upd bindR_eq_Inr
        value_parsers_Inr text_value_Inr simp del: if_split split: if_splits)
  show "t \<in> set action_decision_tags \<or> t \<in> set [] \<or> CRIT_TAG_MAX < t"
    using step by (auto simp: action_decision_step_def action_decision_tags_def bindR_eq_Inr refuse_if_critical_Inr
        split: if_splits)
qed (simp_all add: action_decision_tags_def action_decision_decode_start_def action_decision_get_def
    action_decision_step_def refuse_if_critical_optional)

lemma action_decision_finish_Inr:
  "action_decision_finish s = Inr d \<longleftrightarrow> s = action_decision_state d \<and> ad_signature d = replicate 64 0"
  by (cases s, cases d) (auto simp: action_decision_finish_def action_decision_state_def bindR_eq_Inr ok_or_eq_Inr)

lemma decode_action_decision_body_iff:
  "decode_action_decision_body body = Inr d \<longleftrightarrow>
     action_decision_wf d \<and> ad_signature d = replicate 64 0 \<and>
     carries action_decision_tags (action_decision_fields d) body"
proof -
  have "run_fields action_decision_step (action_decision_fields d) action_decision_decode_start =
      Inr (action_decision_state d) \<longleftrightarrow> action_decision_wf d"
    by (auto simp: action_decision_state_def action_decision_fields_def action_decision_step_def
        action_decision_decode_start_def action_decision_wf_def exact_len_def bindR_eq_Inr text_value_Inr
        check_note_Inr note_ok_def simp del: if_split split: if_splits)
  then have "tlv_values action_decision_step body action_decision_decode_start = Inr (action_decision_state d) \<longleftrightarrow>
      action_decision_wf d \<and> carries action_decision_tags (action_decision_fields d) body"
    by (intro action_decision_reader.accepts_exactly)
      (auto simp: action_decision_tags_def action_decision_get_def action_decision_state_def
        action_decision_fields_def)
  then show ?thesis by (auto simp: decode_action_decision_body_def bindR_eq_Inr action_decision_finish_Inr)
qed

lemma decode_encode_action_decision:
  assumes "action_decision_wf d" and "action_decision_body d = Inr body"
  shows "decode_action_decision_body body = Inr (d\<lparr>ad_signature := replicate 64 0\<rparr>)"
proof -
  have "write_fields (action_decision_fields d) = Inr body"
    using assms(2) by (auto simp: action_decision_body_def action_decision_fields_def bindR_eq_Inr)
  then have "carries action_decision_tags (action_decision_fields d) body"
    using carries_self [of "action_decision_fields d" action_decision_tags]
    by (auto simp: write_fields_eq_Inr action_decision_fields_def action_decision_tags_def)
  then show ?thesis
    using assms(1) by (simp add: decode_action_decision_body_iff action_decision_wf_def action_decision_fields_def)
qed

interpretation action_decision_doc: signed_record "\<lambda>_. action_decision_body" "\<lambda>_. decode_action_decision_body"
  action_decision_wf ACTION_DECISION
  "\<lambda>c key d. ensure (digest_eq_ct c (ad_author_key d) key) (BadFieldLength DT_AUTHOR_KEY 32)"
  ad_signature "\<lambda>s d. d\<lparr>ad_signature := s\<rparr>" decode_action_decision
  by unfold_locales
    (simp_all add: LABEL_ALL_def decode_encode_action_decision decode_action_decision_def open_record_def
      action_decision_transcript_def)

section \<open>Properties\<close>

text \<open>
  An action lease authorises one short, fully described action.  When it is accepted, the
  authority signed exactly its body under the label of action leases; the body carries the grant,
  the door, the kind, the nonce, both times and the number the lease shows, byte for byte, and the
  arguments decode from the argument field of that body; the kind is the kind of the arguments,
  the arguments have a safe shape, and the lease ends no earlier than it begins and at most thirty
  seconds later.
\<close>

theorem action_lease_authentic:
  assumes "decode_action_lease c bs key = Inr l"
  shows "\<exists>body raw. bs = al_signature l @ body \<and> signed_by c ACTION_LEASE key body (al_signature l) \<and>
     carries action_lease_tags (action_lease_fields raw l) body \<and>
     decode_args raw (al_kind l) = Inr (al_args l) \<and>
     al_kind l = args_kind (al_args l) \<and> check_args_shape (al_args l) = Inr () \<and>
     sint (al_issued_at l) \<le> sint (al_expires_at l) \<and> sint (al_expires_at l) \<le> sint (al_issued_at l) + 30"
proof -
  obtain body y where b: "bs = al_signature l @ body" "signed_by c ACTION_LEASE key body (al_signature l)"
    "decode_action_lease_body body = Inr y" "l = y\<lparr>al_signature := al_signature l\<rparr>"
    using action_lease_doc.acceptedD [OF assms] by blast
  have same: "al_kind l = al_kind y" "al_args l = al_args y" "al_issued_at l = al_issued_at y"
    "al_expires_at l = al_expires_at y" "action_lease_fields raw l = action_lease_fields raw y" for raw
    by (subst b(4), simp add: action_lease_fields_def)+
  show ?thesis
    using b(1-3) by (auto simp: decode_action_lease_body_iff check_lease_shape_Inr same)
qed

definition demo_action_lease :: ActionLease where
  "demo_action_lease =
     \<lparr>al_grant_id = replicate 16 1, al_door_fpr = replicate 32 2, al_kind = TreeRemove,
      al_args = ATreeRemove [0x73, 0x72, 0x63, SLASH, 0x78], al_nonce = replicate 16 3,
      al_issued_at = 1755561600, al_expires_at = 1755561630, al_seq = 9,
      al_signature = replicate 32 0 @ replicate 32 7\<rparr>"

lemma demo_action_lease_body:
  "\<exists>body. action_lease_body demo_action_lease = Inr body"
proof -
  have "check_args_shape (al_args demo_action_lease) = Inr ()"
    by (simp add: demo_action_lease_def check_args_shape_def action_eval)
  moreover have "check_lease_shape demo_action_lease = Inr ()"
    using calculation unfolding check_lease_shape_Inr by (simp add: demo_action_lease_def)
  ultimately show ?thesis
    by (simp add: action_lease_body_def encode_args_def demo_action_lease_def)
qed

theorem action_lease_authentic_witness:
  "\<exists>body raw. decode_action_lease demo_crates (al_signature demo_action_lease @ body) (replicate 32 7) =
       Inr demo_action_lease \<and>
     decode_args raw TreeRemove = Inr (ATreeRemove [0x73, 0x72, 0x63, SLASH, 0x78])"
proof -
  obtain body where body: "action_lease_body demo_action_lease = Inr body" using demo_action_lease_body by blast
  have ok: "decode_action_lease demo_crates (al_signature demo_action_lease @ body) (replicate 32 7) =
      Inr demo_action_lease"
    using body
    by (intro action_lease_doc.issued_opens)
      (simp_all add: action_lease_wf_def args_wf_def demo_action_lease_def signed_by_def demo_crates_def)
  moreover obtain raw where "decode_args raw (al_kind demo_action_lease) = Inr (al_args demo_action_lease)"
    using action_lease_authentic [OF ok] by blast
  ultimately show ?thesis by (auto simp: demo_action_lease_def)
qed

text \<open>
  A grant of actions speaks for its author only.  An accepted grant was signed, as these very
  bytes, by the key it was opened with, which is the author's key named inside it; it has at most
  thirty-two rules, each with limiters of its own kind and of safe shape, and does not end before
  it begins.  A grant that is written and signed with the author's key is accepted as written.
\<close>

theorem action_grant_authentic:
  assumes "ct_eq_sound c" and "length key = 32"
  shows "(decode_grant c bs key = Inr g \<longrightarrow>
       (\<exists>body. bs = ag_signature g @ body \<and> signed_by c ACTION_GRANT key body (ag_signature g)) \<and>
       ag_author_key g = key \<and> length (ag_rules g) \<le> 32 \<and>
       (\<forall>r \<in> set (ag_rules g). check_rule_shape r = Inr ()) \<and> sint (ag_issued_at g) \<le> sint (ag_expires_at g)) \<and>
     (grant_wf g \<and> ag_author_key g = key \<and> length (ag_signature g) = 64 \<longrightarrow>
       (\<forall>body. grant_body g = Inr body \<longrightarrow> signed_by c ACTION_GRANT key body (ag_signature g) \<longrightarrow>
          bindR (encode_grant g) (\<lambda>bs. decode_grant c bs key) = Inr g))"
proof (intro conjI impI allI; (elim conjE)?)
  assume "decode_grant c bs key = Inr g"
  then obtain body y where b: "bs = ag_signature g @ body" "signed_by c ACTION_GRANT key body (ag_signature g)"
    "decode_grant_body body = Inr y" "digest_eq_ct c (ag_author_key g) key" "g = y\<lparr>ag_signature := ag_signature g\<rparr>"
    using grant_doc.acceptedD by (fastforce simp: ensure_eq_Inr)
  have same: "check_grant_shape g = check_grant_shape y" "ag_author_key g = ag_author_key y"
    by (subst b(5), simp)+
  note y = decode_grant_bodyD [OF b(3)]
  show "\<exists>body. bs = ag_signature g @ body \<and> signed_by c ACTION_GRANT key body (ag_signature g)" using b(1,2) by blast
  show "ag_author_key g = key" using assms b(4) y(2) same(2) by (auto simp: ct_eq_sound_def digest_eq_ct_def)
  show "length (ag_rules g) \<le> 32" "\<forall>r \<in> set (ag_rules g). check_rule_shape r = Inr ()"
    "sint (ag_issued_at g) \<le> sint (ag_expires_at g)"
    using y(1) unfolding same(1) [symmetric] check_grant_shape_Inr MAX_ACTION_RULES_def by blast+
next
  fix body
  assume "grant_wf g" "ag_author_key g = key" "length (ag_signature g) = 64" "grant_body g = Inr body"
    "signed_by c ACTION_GRANT key body (ag_signature g)"
  then show "bindR (encode_grant g) (\<lambda>bs. decode_grant c bs key) = Inr g"
    using grant_doc.issued_opens [of g body c key] assms
    by (simp add: encode_grant_def digest_eq_ct_def ct_eq_sound_def)
qed

definition demo_grant :: ActionGrant where
  "demo_grant =
     \<lparr>ag_grant_id = replicate 16 1, ag_rules = [], ag_issued_at = 10, ag_expires_at = 20,
      ag_author_key = replicate 32 7, ag_signature = replicate 32 0 @ replicate 32 7\<rparr>"

theorem action_grant_authentic_witness:
  "bindR (encode_grant demo_grant) (\<lambda>bs. decode_grant demo_crates bs (replicate 32 7)) = Inr demo_grant"
proof -
  have "\<exists>body. grant_body demo_grant = Inr body"
    by (simp add: grant_body_def check_grant_shape_def encode_rules_def demo_grant_def MAX_ACTION_RULES_def
        finish_def writer_new_def)
  then obtain body where "grant_body demo_grant = Inr body" by blast
  then show ?thesis
    using action_grant_authentic [OF demo_crates_laws(1), of "replicate 32 7" "[]" demo_grant]
    by (simp add: grant_wf_def demo_grant_def signed_by_def demo_crates_def)
qed

text \<open>
  Counters of uses are never shared by accident.  The key under which the uses of a rule are
  counted determines the kind and every limiter of the rule: two well-shaped rules have the same
  key only when they have the same kind and the same limiters.
\<close>

theorem limiter_key_injective:
  assumes "check_rule_shape a = Inr ()" and "check_rule_shape b = Inr ()"
    and "limiter_key a = Inr k" and "limiter_key b = Inr k"
  shows "ar_kind a = ar_kind b \<and> ar_constraint a = ar_constraint b"
proof -
  obtain x y where x: "encode_constraint (ar_constraint a) = Inr x" "k = le16 (kind_as_u16 (ar_kind a)) @ x"
    and y: "encode_constraint (ar_constraint b) = Inr y" "k = le16 (kind_as_u16 (ar_kind b)) @ y"
    using assms(3,4) by (auto simp: limiter_key_def bindR_eq_Inr)
  have "(le16 (kind_as_u16 (ar_kind a)) :: bytes) = le16 (kind_as_u16 (ar_kind b))" and "x = y"
    using x(2) y(2) by (simp_all add: append_eq_append_conv)
  then have "ar_kind a = ar_kind b"
    using kind_codec value_parsers(3) by (metis sum.inject(2))
  moreover have "constraint_kind (ar_constraint a) = ar_kind a" "constraint_kind (ar_constraint b) = ar_kind b"
    using assms(1,2) by (auto simp: check_rule_shape_def bindR_eq_Inr ensure_eq_Inr)
  ultimately show ?thesis
    using constraint_codec.enc_determines [of "ar_constraint a" "ar_kind a" "ar_constraint b" x] x(1) y(1) \<open>x = y\<close>
    by simp
qed

theorem limiter_key_injective_witness:
  "\<exists>k. limiter_key demo_rule = Inr k \<and> limiter_key demo_child \<noteq> Inr k"
proof -
  have "check_rule_shape demo_rule = Inr ()" "check_rule_shape demo_child = Inr ()" by (simp_all add: action_eval)
  moreover have "check_tree_path [0x73, 0x72, 0x63] FT_PATH = Inr ()" by (simp add: action_eval)
  then obtain k where "limiter_key demo_rule = Inr k"
    by (auto simp: limiter_key_def encode_constraint_def demo_rule_def)
  moreover have "ar_constraint demo_child \<noteq> ar_constraint demo_rule" by (simp add: demo_rule_def demo_child_def)
  ultimately show ?thesis using limiter_key_injective [of demo_child demo_rule k] by blast
qed

end
