(* ===== verification/OC_Kdf.thy ===== *)
theory OC_Kdf
  imports OC_Crypto
begin

text \<open>
  Key derivation, \<^verbatim>\<open>oc-crypto/src/kdf.rs\<close>: every key, identifier and commitment of the system as a
  function of its inputs.  Each derivation has a label of its own and inputs of fixed or prefixed
  length; the lemmas say that the input determines what it was made of, so that two derivations
  with different inputs never hash the same message.
\<close>

section \<open>Primitives\<close>

definition SECRET_LEN :: nat where "SECRET_LEN = 32"

text \<open>
  \<^verbatim>\<open>hkdf_sha256::<N>\<close> returns the zero array when the library refuses; \<^verbatim>\<open>expand_multi_info\<close> takes the
  concatenation of its parts.
\<close>

definition kdf_hkdf_sha256 :: "Crates \<Rightarrow> nat \<Rightarrow> bytes \<Rightarrow> bytes \<Rightarrow> bytes list \<Rightarrow> bytes" where
  "kdf_hkdf_sha256 c n salt ikm info =
     (case hkdf_sha256 c salt ikm (concat info) n of Some okm \<Rightarrow> okm | None \<Rightarrow> replicate n 0)"

definition u32_of_len :: "bytes \<Rightarrow> CryptoError + u32" where
  "u32_of_len bs = ok_or BadLength (if length bs < 4294967296 then Some (word_of_nat (length bs)) else None)"

definition hedged_input :: "bytes \<Rightarrow> bytes \<Rightarrow> CryptoError + bytes" where
  "hedged_input plaintext aad =
     bindR (u32_of_len plaintext) (\<lambda>pt_len.
     bindR (u32_of_len aad) (\<lambda>aad_len.
     Inr (be_bytes 4 (unat pt_len) @ plaintext @ be_bytes 4 (unat aad_len) @ aad)))"

definition hedged_nonce :: "Crates \<Rightarrow> nat \<Rightarrow> Label \<Rightarrow> bytes \<Rightarrow> bytes \<Rightarrow> bytes \<Rightarrow> CryptoError + bytes" where
  "hedged_nonce c n label seed plaintext aad =
     bindR (hedged_input plaintext aad) (\<lambda>ikm.
     ok_or BadLength (hkdf_sha256 c seed ikm label n))"

definition kdf_hmac_sha256 :: "Crates \<Rightarrow> bytes \<Rightarrow> bytes list \<Rightarrow> bytes" where
  "kdf_hmac_sha256 c key message =
     (case hmac_sha256 c key (concat message) of Some tag \<Rightarrow> tag | None \<Rightarrow> replicate 32 0)"

section \<open>Sessions and devices\<close>

definition prove_echo :: "Crates \<Rightarrow> bytes \<Rightarrow> bytes \<Rightarrow> bytes" where
  "prove_echo c challenge fpr = kdf_hmac_sha256 c challenge [PROVE_ECHO, fpr]"

definition handshake_transcript :: "Crates \<Rightarrow> bytes \<Rightarrow> bytes \<Rightarrow> bytes" where
  "handshake_transcript c hello_framed challenge_framed =
     sha256_digest c (tr_buf (tr_field challenge_framed (tr_field hello_framed (transcript_new ECHO_TRANSCRIPT))))"

definition echo_transcript :: "Crates \<Rightarrow> bytes \<Rightarrow> bytes \<Rightarrow> bytes \<Rightarrow> bytes" where
  "echo_transcript c challenge fpr handshake = kdf_hmac_sha256 c challenge [ECHO_TRANSCRIPT, fpr, handshake]"

definition derive_session_mac_key :: "Crates \<Rightarrow> bytes \<Rightarrow> bytes \<Rightarrow> bytes" where
  "derive_session_mac_key c challenge fpr = kdf_hkdf_sha256 c SECRET_LEN [] challenge [SESSION_MAC, fpr]"

definition XWING_PUBLIC_KEY_LEN :: nat where "XWING_PUBLIC_KEY_LEN = 1216"
definition MLKEM_P256_PUBLIC_KEY_LEN :: nat where "MLKEM_P256_PUBLIC_KEY_LEN = 1249"

primrec public_key_len :: "KemAlg \<Rightarrow> nat option" where
  "public_key_len X25519HkdfSha256 = Some 32"
| "public_key_len P256HkdfSha256 = Some 65"
| "public_key_len XWing = Some XWING_PUBLIC_KEY_LEN"
| "public_key_len MlKem768P256 = Some MLKEM_P256_PUBLIC_KEY_LEN"
| "public_key_len RsaOaepSha256 = None"

definition device_fpr :: "Crates \<Rightarrow> KemAlg \<Rightarrow> bytes \<Rightarrow> CryptoError + bytes" where
  "device_fpr c kem public =
     bindR (kem_ensure_supported kem) (\<lambda>_.
     bindR (ok_or UnsupportedAlgorithm (public_key_len kem)) (\<lambda>expected.
     bindR (ensure (\<not> length public \<noteq> expected) BadLength) (\<lambda>_.
     if kem = X25519HkdfSha256 then (if length public = 32 then Inr public else Inl BadLength)
     else Inr (sha256_digest c (DEVICE_FPR @ [0] @ [kem_u8 kem] @ public)))))"

definition request_mac :: "Crates \<Rightarrow> bytes \<Rightarrow> bytes \<Rightarrow> bytes" where
  "request_mac c key framed = kdf_hmac_sha256 c key [framed]"

definition operation_id :: "Crates \<Rightarrow> bytes \<Rightarrow> byte \<Rightarrow> bytes \<Rightarrow> bytes" where
  "operation_id c seed kind body = sha256_digest c (OPERATION_ID @ [0] @ seed @ [kind] @ body)"

definition FRESH_ATTEST_NONCE :: byte where "FRESH_ATTEST_NONCE = 1"
definition FRESH_PROOF_SECRET :: byte where "FRESH_PROOF_SECRET = 2"
definition FRESH_CREDENTIAL_SECRET :: byte where "FRESH_CREDENTIAL_SECRET = 3"
definition FRESH_CREDENTIAL_SEED :: byte where "FRESH_CREDENTIAL_SEED = 4"
definition FRESH_CREDENTIAL_OAEP :: byte where "FRESH_CREDENTIAL_OAEP = 5"

definition server_fresh :: "Crates \<Rightarrow> bytes \<Rightarrow> byte \<Rightarrow> i64 \<Rightarrow> bytes \<Rightarrow> nat \<Rightarrow> CryptoError + bytes" where
  "server_fresh c seed kind now fpr n =
     (let prk = sha256_digest c (SERVER_FRESH @ [0] @ seed @ [kind] @ be_bytes 8 (unat now) @ fpr) in
      ok_or BadLength (hkdf_from_prk c prk SERVER_FRESH n))"

definition attest_qualify :: "Crates \<Rightarrow> bytes \<Rightarrow> bytes \<Rightarrow> bytes" where
  "attest_qualify c challenge fpr = sha256_digest c (ATTEST_QUALIFY @ [0] @ challenge @ fpr)"

section \<open>Keys of a file\<close>

definition derive_kek :: "Crates \<Rightarrow> bytes \<Rightarrow> bytes \<Rightarrow> bytes \<Rightarrow> bytes \<Rightarrow> bytes" where
  "derive_kek c file_id org_id a b = kdf_hkdf_sha256 c SECRET_LEN file_id (a @ b) [KEK, org_id, file_id]"

definition derive_payload_key :: "Crates \<Rightarrow> bytes \<Rightarrow> bytes \<Rightarrow> bytes \<Rightarrow> u32 \<Rightarrow> AeadAlg \<Rightarrow> bytes" where
  "derive_payload_key c cek header_salt file_id chunk_size aead =
     kdf_hkdf_sha256 c SECRET_LEN header_salt cek [PAYLOAD, file_id, be_bytes 4 (unat chunk_size), [aead_u8 aead]]"

definition derive_private_meta_key :: "Crates \<Rightarrow> bytes \<Rightarrow> bytes \<Rightarrow> bytes \<Rightarrow> bytes" where
  "derive_private_meta_key c cek header_salt file_id =
     kdf_hkdf_sha256 c SECRET_LEN header_salt cek [PRIVATE_META, file_id]"

definition derive_content_mac_key :: "Crates \<Rightarrow> bytes \<Rightarrow> bytes \<Rightarrow> bytes \<Rightarrow> bytes" where
  "derive_content_mac_key c cek header_salt file_id =
     kdf_hkdf_sha256 c SECRET_LEN header_salt cek [CONTENT_MAC, file_id]"

definition derive_witness_key :: "Crates \<Rightarrow> bytes \<Rightarrow> bytes" where
  "derive_witness_key c device = kdf_hkdf_sha256 c SECRET_LEN [] device [CACHED_LEASE]"

definition mark_choice :: "Crates \<Rightarrow> bytes \<Rightarrow> bytes \<Rightarrow> u64 \<Rightarrow> u32 \<Rightarrow> u32 \<Rightarrow> CryptoError + u32" where
  "mark_choice c key layout token point variants =
     (if variants = 0 then Inl BadLength
      else
        bindR (mac_compute c key (tr_u32be point (tr_u64be token (tr_fixed layout (transcript_new MARK_CHOICE))))) (\<lambda>tag.
        bindR (ok_or BadLength (get_range tag 0 8)) (\<lambda>head.
        let value = le_nat (rev head) mod unat variants in
        if value < 4294967296 then Inr (word_of_nat value) else Inl BadLength)))"

definition claim_secret_from_code :: "Crates \<Rightarrow> bytes \<Rightarrow> bytes" where
  "claim_secret_from_code c canonical = blake3_hash c (CLAIM_CODE @ [0] @ canonical)"

definition device_secret_from_claim :: "Crates \<Rightarrow> bytes \<Rightarrow> bytes \<Rightarrow> bytes" where
  "device_secret_from_claim c file_id claim = kdf_hkdf_sha256 c SECRET_LEN file_id claim [CLAIM_DEVICE]"

definition secret_b_from_claim :: "Crates \<Rightarrow> bytes \<Rightarrow> bytes \<Rightarrow> bytes \<times> bytes" where
  "secret_b_from_claim c file_id claim =
     (let share = kdf_hkdf_sha256 c SECRET_LEN file_id claim [SLOT_B_CLAIM];
          commitment = kdf_hkdf_sha256 c SECRET_LEN file_id claim [SLOT_B_COMMIT]
      in (share, commitment))"

definition slot_commitment :: "Crates \<Rightarrow> bytes \<Rightarrow> bytes \<Rightarrow> bytes" where
  "slot_commitment c kek core_hash = kdf_hmac_sha256 c kek [SLOT_COMMIT, core_hash]"

definition verify_commitment :: "Crates \<Rightarrow> bytes \<Rightarrow> bytes \<Rightarrow> CryptoError + unit" where
  "verify_commitment c expected actual =
     (if ct_eq c expected actual then Inr () else Inl Authentication)"

section \<open>Lemmas\<close>

lemma device_fpr_x25519 [simp]:
  "device_fpr c X25519HkdfSha256 public = (if length public = 32 then Inr public else Inl BadLength)"
  by (simp add: device_fpr_def kem_ensure_supported_def)

lemma device_fpr_length:
  assumes "digests_32 c" and "device_fpr c kem public = Inr fpr"
  shows "length fpr = 32"
  using assms by (auto simp: device_fpr_def digests_32_def bindR_eq_Inr split: if_splits)

lemma be_bytes_4_eq: "be_bytes 4 m = be_bytes 4 n \<Longrightarrow> m < 4294967296 \<Longrightarrow> n < 4294967296 \<Longrightarrow> m = n"
  by (metis be_bytes_def le_bytes_4_eq rev_rev_ident)

lemma hedged_input_Inr:
  "hedged_input p a = Inr x \<longleftrightarrow>
     length p < 4294967296 \<and> length a < 4294967296 \<and> x = be_bytes 4 (length p) @ p @ be_bytes 4 (length a) @ a"
  by (auto simp: hedged_input_def u32_of_len_def bindR_eq_Inr ok_or_eq_Inr unat_of_nat take_bit_nat_eq_self
      split: if_splits)

text \<open>The material a nonce is hedged with determines the plaintext and the associated data.\<close>

lemma hedged_nonce_length: "hkdf_total c \<Longrightarrow> hedged_nonce c n lab seed p aad = Inr nonce \<Longrightarrow> n \<le> 8160 \<Longrightarrow> length nonce = n"
  unfolding hedged_nonce_def bindR_eq_Inr ok_or_eq_Inr hkdf_total_def by (metis option.inject)

lemma hedged_input_inj:
  assumes "hedged_input p a = Inr x" and "hedged_input q b = Inr x"
  shows "p = q \<and> a = b"
proof -
  have x: "be_bytes 4 (length p) @ p @ be_bytes 4 (length a) @ a = be_bytes 4 (length q) @ q @ be_bytes 4 (length b) @ b"
    and l: "length p < 4294967296" "length q < 4294967296"
    using assms by (auto simp: hedged_input_Inr)
  then have "be_bytes 4 (length p) = be_bytes 4 (length q)" and
    rest: "p @ be_bytes 4 (length a) @ a = q @ be_bytes 4 (length b) @ b"
    by (simp_all add: append_eq_append_conv)
  then have "length p = length q" using l be_bytes_4_eq by blast
  with rest show ?thesis by (simp add: append_eq_append_conv)
qed

lemma mark_choice_less: "mark_choice c key layout token point variants = Inr v \<Longrightarrow> v < variants"
  by (auto simp: mark_choice_def bindR_eq_Inr Let_def word_less_nat_alt unat_of_nat unat_gt_0 take_bit_nat_eq_self
      split: if_splits)

end
