(* ===== verification/OC_Agent.thy ===== *)
theory OC_Agent
  imports OC_Action_Wire OC_Kdf OC_Policy_Codec OC_Header "HOL-Library.List_Lexorder"
begin

text \<open>
  Grants to agents and chains of delegation: \<^verbatim>\<open>oc-protocol/src/agent.rs\<close>.  An author grants files to
  a door; the door may pass part of them on by a signed link, the next holder a part of that, and
  so on.  \<open>verify_grant_chain_with_actions\<close> walks such a chain.  The step relation \<open>hands_over\<close> says
  what one link may do, and \<open>chain\<close> what a sequence of links signed by their predecessors is; the
  code is shown to accept exactly these chains, and every chain to narrow.
\<close>

section \<open>Grants and links\<close>

definition MAX_GRANT_FILES :: nat where "MAX_GRANT_FILES = 256"
definition MAX_GRANT_DEPTH :: byte where "MAX_GRANT_DEPTH = 4"
definition DOOR_KEM_X25519 :: byte where "DOOR_KEM_X25519 = 1"

abbreviation (input) GA_GRANT_ID :: u16 where "GA_GRANT_ID \<equiv> 1"
abbreviation (input) GA_DOOR_FPR :: u16 where "GA_DOOR_FPR \<equiv> 2"
abbreviation (input) GA_DOOR_KEM :: u16 where "GA_DOOR_KEM \<equiv> 3"
abbreviation (input) GA_DOOR_PUBLIC :: u16 where "GA_DOOR_PUBLIC \<equiv> 4"
abbreviation (input) GA_DOOR_VERIFY :: u16 where "GA_DOOR_VERIFY \<equiv> 5"
abbreviation (input) GA_ENTRIES :: u16 where "GA_ENTRIES \<equiv> 6"
abbreviation (input) GA_ISSUED_AT :: u16 where "GA_ISSUED_AT \<equiv> 7"
abbreviation (input) GA_EXPIRES_AT :: u16 where "GA_EXPIRES_AT \<equiv> 8"
abbreviation (input) GA_TIGHTENING :: u16 where "GA_TIGHTENING \<equiv> 9"
abbreviation (input) GA_MAX_DEPTH :: u16 where "GA_MAX_DEPTH \<equiv> 10"
abbreviation (input) GA_AUTHOR_KEY :: u16 where "GA_AUTHOR_KEY \<equiv> 11"

abbreviation (input) LK_GRANT_ID :: u16 where "LK_GRANT_ID \<equiv> 1"
abbreviation (input) LK_PARENT_FPR :: u16 where "LK_PARENT_FPR \<equiv> 2"
abbreviation (input) LK_CHILD_FPR :: u16 where "LK_CHILD_FPR \<equiv> 3"
abbreviation (input) LK_CHILD_KEM :: u16 where "LK_CHILD_KEM \<equiv> 4"
abbreviation (input) LK_CHILD_PUBLIC :: u16 where "LK_CHILD_PUBLIC \<equiv> 5"
abbreviation (input) LK_CHILD_VERIFY :: u16 where "LK_CHILD_VERIFY \<equiv> 6"
abbreviation (input) LK_ENTRIES :: u16 where "LK_ENTRIES \<equiv> 7"
abbreviation (input) LK_EXPIRES_AT :: u16 where "LK_EXPIRES_AT \<equiv> 8"
abbreviation (input) LK_TIGHTENING :: u16 where "LK_TIGHTENING \<equiv> 9"
abbreviation (input) LK_DEPTH :: u16 where "LK_DEPTH \<equiv> 10"
abbreviation (input) LK_ACTIONS :: u16 where "LK_ACTIONS \<equiv> 0x8001"

abbreviation (input) EN_FILE_ID :: u16 where "EN_FILE_ID \<equiv> 1"
abbreviation (input) EN_ENC :: u16 where "EN_ENC \<equiv> 2"
abbreviation (input) EN_NONCE :: u16 where "EN_NONCE \<equiv> 3"
abbreviation (input) EN_CT :: u16 where "EN_CT \<equiv> 4"

record Entry =
  en_file_id :: bytes
  en_share_b :: Blob

record AgentGrant =
  gr_grant_id :: bytes
  gr_door_fpr :: bytes
  gr_door_kem :: byte
  gr_door_public :: bytes
  gr_door_verify :: bytes
  gr_entries :: "Entry list"
  gr_issued_at :: i64
  gr_expires_at :: i64
  gr_tightening :: "Policy option"
  gr_max_depth :: byte
  gr_author_key :: bytes
  gr_signature :: bytes

record Delegation =
  dl_grant_id :: bytes
  dl_parent_fpr :: bytes
  dl_child_fpr :: bytes
  dl_child_kem :: byte
  dl_child_public :: bytes
  dl_child_verify :: bytes
  dl_entries :: "Entry list"
  dl_expires_at :: i64
  dl_tightening :: "Policy option"
  dl_depth :: byte
  dl_actions :: "ActionRule list"
  dl_signature :: bytes

section \<open>Shapes\<close>

definition check_holder_name :: "Crates \<Rightarrow> bytes \<Rightarrow> byte \<Rightarrow> bytes \<Rightarrow> u16 \<Rightarrow> u16 \<Rightarrow> FormatError + unit" where
  "check_holder_name c fpr kem public kem_tag fpr_tag =
     bindR (ensure (\<not> kem \<noteq> DOOR_KEM_X25519) (BadFieldLength kem_tag 1)) (\<lambda>_.
     bindR (map_err (BadFieldLength kem_tag 1) (kem_from_u8 kem)) (\<lambda>alg.
     bindR (map_err (BadFieldLength fpr_tag (length public)) (device_fpr c alg public)) (\<lambda>named.
     ensure (digest_eq_ct c fpr named) (BadFieldLength fpr_tag 32))))"

text \<open>\<^verbatim>\<open>[u8; 16]\<close> is ordered lexicographically.\<close>

definition check_entries :: "Entry list \<Rightarrow> u16 \<Rightarrow> FormatError + unit" where
  "check_entries entries list_tag =
     bindR (ensure (\<not> length entries > MAX_GRANT_FILES) (BadFieldLength list_tag (length entries))) (\<lambda>_.
     foldR (\<lambda>(index, a, b) _.
         ensure (\<not> en_file_id a \<ge> en_file_id b)
           (let previous = (case u16_of_usize index of Some w \<Rightarrow> w | None \<Rightarrow> - 1) in
            FieldsOutOfOrder previous (saturating_add previous 1)))
       (enumerate 0 (zip entries (tl entries))) ())"

definition check_agent_grant_shape :: "Crates \<Rightarrow> AgentGrant \<Rightarrow> FormatError + unit" where
  "check_agent_grant_shape c grant =
     bindR (check_holder_name c (gr_door_fpr grant) (gr_door_kem grant) (gr_door_public grant) GA_DOOR_KEM GA_DOOR_FPR) (\<lambda>_.
     bindR (check_entries (gr_entries grant) GA_ENTRIES) (\<lambda>_.
     bindR (ensure (\<not> gr_max_depth grant > MAX_GRANT_DEPTH) (BadFieldLength GA_MAX_DEPTH (unat (gr_max_depth grant)))) (\<lambda>_.
     ensure (\<not> sint (gr_expires_at grant) < sint (gr_issued_at grant)) (BadFieldLength GA_EXPIRES_AT 8))))"

definition check_delegation_shape :: "Crates \<Rightarrow> Delegation \<Rightarrow> FormatError + unit" where
  "check_delegation_shape c link =
     bindR (check_holder_name c (dl_child_fpr link) (dl_child_kem link) (dl_child_public link) LK_CHILD_KEM LK_CHILD_FPR) (\<lambda>_.
     bindR (check_entries (dl_entries link) LK_ENTRIES) (\<lambda>_.
     bindR (ensure (\<not> dl_depth link > MAX_GRANT_DEPTH) (BadFieldLength LK_DEPTH (unat (dl_depth link)))) (\<lambda>_.
     bindR (ensure (\<not> length (dl_actions link) > MAX_ACTION_RULES) (BadFieldLength LK_ACTIONS (length (dl_actions link)))) (\<lambda>_.
     foldR (\<lambda>rule _. check_rule_shape rule) (dl_actions link) ()))))"

section \<open>Bytes\<close>

definition encode_entry :: "Entry \<Rightarrow> FormatError + bytes" where
  "encode_entry entry =
     write_fields
       [(EN_FILE_ID, en_file_id entry), (EN_ENC, bl_enc (en_share_b entry)),
        (EN_NONCE, bl_nonce (en_share_b entry)), (EN_CT, bl_ct (en_share_b entry))]"

definition encode_entries :: "Entry list \<Rightarrow> FormatError + bytes" where
  "encode_entries entries =
     bindR (foldR (\<lambda>(index, entry) w.
         bindR (ok_or OffsetOverflow (u16_of_usize index)) (\<lambda>tag.
         bindR (encode_entry entry) (\<lambda>body.
         put tag body w))) (enumerate 0 entries) writer_new) (\<lambda>w.
     Inr (finish w))"

record EntryDecoder =
  ek_file_id :: "bytes option"
  ek_enc :: "bytes option"
  ek_nonce :: "bytes option"
  ek_ct :: "bytes option"

definition entry_decode_start :: EntryDecoder where
  "entry_decode_start = \<lparr>ek_file_id = None, ek_enc = None, ek_nonce = None, ek_ct = None\<rparr>"

definition entry_step :: "u16 \<Rightarrow> bytes \<Rightarrow> EntryDecoder \<Rightarrow> FormatError + EntryDecoder" where
  "entry_step tag value d =
     (if tag = EN_FILE_ID then bindR (exact_len 16 tag value) (\<lambda>x. Inr (d\<lparr>ek_file_id := Some x\<rparr>))
      else if tag = EN_ENC then Inr (d\<lparr>ek_enc := Some value\<rparr>)
      else if tag = EN_NONCE then bindR (exact_len 24 tag value) (\<lambda>x. Inr (d\<lparr>ek_nonce := Some x\<rparr>))
      else if tag = EN_CT then Inr (d\<lparr>ek_ct := Some value\<rparr>)
      else bindR (refuse_if_critical tag) (\<lambda>_. Inr d))"

definition entry_finish :: "EntryDecoder \<Rightarrow> FormatError + Entry" where
  "entry_finish d =
     bindR (ok_or (MissingField EN_FILE_ID) (ek_file_id d)) (\<lambda>file_id.
     bindR (ok_or (MissingField EN_ENC) (ek_enc d)) (\<lambda>enc.
     bindR (ok_or (MissingField EN_NONCE) (ek_nonce d)) (\<lambda>nonce.
     bindR (ok_or (MissingField EN_CT) (ek_ct d)) (\<lambda>ct.
     Inr \<lparr>en_file_id = file_id, en_share_b = \<lparr>bl_enc = enc, bl_nonce = nonce, bl_ct = ct\<rparr>\<rparr>))))"

definition decode_entry :: "bytes \<Rightarrow> FormatError + Entry" where
  "decode_entry bs = bindR (tlv_values entry_step bs entry_decode_start) entry_finish"

definition entries_step :: "u16 \<Rightarrow> u16 \<Rightarrow> bytes \<Rightarrow> Entry list \<Rightarrow> FormatError + Entry list" where
  "entries_step list_tag tag value out =
     bindR (ensure (\<not> length out \<ge> MAX_GRANT_FILES) (BadFieldLength list_tag (length out))) (\<lambda>_.
     bindR (decode_entry value) (\<lambda>entry.
     Inr (out @ [entry])))"

definition decode_entries :: "bytes \<Rightarrow> u16 \<Rightarrow> FormatError + Entry list" where
  "decode_entries bs list_tag =
     bindR (tlv_values (entries_step list_tag) bs []) (\<lambda>out.
     bindR (check_entries out list_tag) (\<lambda>_.
     Inr out))"

definition encode_tightening :: "Policy \<Rightarrow> FormatError + bytes" where
  "encode_tightening policy = policy_encode CONTAINER_VERSION policy"

definition decode_tightening :: "bytes \<Rightarrow> FormatError + Policy" where
  "decode_tightening bs = policy_decode SUPPORTED_READER_VERSION bs"

text \<open>An optional policy is one field or none.\<close>

definition tightening_field :: "u16 \<Rightarrow> Policy option \<Rightarrow> FormatError + (u16 \<times> bytes) list" where
  "tightening_field tag tight =
     (case tight of
        Some policy \<Rightarrow> bindR (encode_tightening policy) (\<lambda>bs. Inr [(tag, bs)])
      | None \<Rightarrow> Inr [])"

definition agent_grant_body :: "Crates \<Rightarrow> AgentGrant \<Rightarrow> FormatError + bytes" where
  "agent_grant_body c grant =
     bindR (check_agent_grant_shape c grant) (\<lambda>_.
     bindR (encode_entries (gr_entries grant)) (\<lambda>entries.
     bindR (tightening_field GA_TIGHTENING (gr_tightening grant)) (\<lambda>tight.
     write_fields
       ([(GA_GRANT_ID, gr_grant_id grant),
         (GA_DOOR_FPR, gr_door_fpr grant),
         (GA_DOOR_KEM, [gr_door_kem grant]),
         (GA_DOOR_PUBLIC, gr_door_public grant),
         (GA_DOOR_VERIFY, gr_door_verify grant),
         (GA_ENTRIES, entries),
         (GA_ISSUED_AT, le64 (gr_issued_at grant)),
         (GA_EXPIRES_AT, le64 (gr_expires_at grant))] @
        tight @
        [(GA_MAX_DEPTH, [gr_max_depth grant]),
         (GA_AUTHOR_KEY, gr_author_key grant)]))))"

definition agent_grant_transcript :: "bytes \<Rightarrow> Transcript" where
  "agent_grant_transcript body = body_transcript AGENT_GRANT body"

definition encode_agent_grant :: "Crates \<Rightarrow> AgentGrant \<Rightarrow> FormatError + bytes" where
  "encode_agent_grant c grant = bindR (agent_grant_body c grant) (\<lambda>body. Inr (gr_signature grant @ body))"

record AgentGrantDecoder =
  hk_grant_id :: "bytes option"
  hk_door_fpr :: "bytes option"
  hk_door_kem :: "byte option"
  hk_door_public :: "bytes option"
  hk_door_verify :: "bytes option"
  hk_entries :: "Entry list option"
  hk_issued_at :: "i64 option"
  hk_expires_at :: "i64 option"
  hk_tightening :: "Policy option"
  hk_max_depth :: "byte option"
  hk_author_key :: "bytes option"

definition agent_grant_decode_start :: AgentGrantDecoder where
  "agent_grant_decode_start =
     \<lparr>hk_grant_id = None, hk_door_fpr = None, hk_door_kem = None, hk_door_public = None, hk_door_verify = None,
      hk_entries = None, hk_issued_at = None, hk_expires_at = None, hk_tightening = None, hk_max_depth = None,
      hk_author_key = None\<rparr>"

definition agent_grant_step :: "u16 \<Rightarrow> bytes \<Rightarrow> AgentGrantDecoder \<Rightarrow> FormatError + AgentGrantDecoder" where
  "agent_grant_step tag value d =
     (if tag = GA_GRANT_ID then bindR (exact_len 16 tag value) (\<lambda>x. Inr (d\<lparr>hk_grant_id := Some x\<rparr>))
      else if tag = GA_DOOR_FPR then bindR (exact_len 32 tag value) (\<lambda>x. Inr (d\<lparr>hk_door_fpr := Some x\<rparr>))
      else if tag = GA_DOOR_KEM then bindR (one_byte tag value) (\<lambda>x. Inr (d\<lparr>hk_door_kem := Some x\<rparr>))
      else if tag = GA_DOOR_PUBLIC then Inr (d\<lparr>hk_door_public := Some value\<rparr>)
      else if tag = GA_DOOR_VERIFY then bindR (exact_len 32 tag value) (\<lambda>x. Inr (d\<lparr>hk_door_verify := Some x\<rparr>))
      else if tag = GA_ENTRIES then bindR (decode_entries value GA_ENTRIES) (\<lambda>x. Inr (d\<lparr>hk_entries := Some x\<rparr>))
      else if tag = GA_ISSUED_AT then bindR (u64_le tag value) (\<lambda>x. Inr (d\<lparr>hk_issued_at := Some x\<rparr>))
      else if tag = GA_EXPIRES_AT then bindR (u64_le tag value) (\<lambda>x. Inr (d\<lparr>hk_expires_at := Some x\<rparr>))
      else if tag = GA_TIGHTENING then bindR (decode_tightening value) (\<lambda>x. Inr (d\<lparr>hk_tightening := Some x\<rparr>))
      else if tag = GA_MAX_DEPTH then bindR (one_byte tag value) (\<lambda>x. Inr (d\<lparr>hk_max_depth := Some x\<rparr>))
      else if tag = GA_AUTHOR_KEY then bindR (exact_len 32 tag value) (\<lambda>x. Inr (d\<lparr>hk_author_key := Some x\<rparr>))
      else bindR (refuse_if_critical tag) (\<lambda>_. Inr d))"

definition agent_grant_finish :: "Crates \<Rightarrow> AgentGrantDecoder \<Rightarrow> FormatError + AgentGrant" where
  "agent_grant_finish c d =
     bindR (ok_or (MissingField GA_GRANT_ID) (hk_grant_id d)) (\<lambda>grant_id.
     bindR (ok_or (MissingField GA_DOOR_FPR) (hk_door_fpr d)) (\<lambda>door_fpr.
     bindR (ok_or (MissingField GA_DOOR_KEM) (hk_door_kem d)) (\<lambda>door_kem.
     bindR (ok_or (MissingField GA_DOOR_PUBLIC) (hk_door_public d)) (\<lambda>door_public.
     bindR (ok_or (MissingField GA_DOOR_VERIFY) (hk_door_verify d)) (\<lambda>door_verify.
     bindR (ok_or (MissingField GA_ENTRIES) (hk_entries d)) (\<lambda>entries.
     bindR (ok_or (MissingField GA_ISSUED_AT) (hk_issued_at d)) (\<lambda>issued_at.
     bindR (ok_or (MissingField GA_EXPIRES_AT) (hk_expires_at d)) (\<lambda>expires_at.
     bindR (ok_or (MissingField GA_MAX_DEPTH) (hk_max_depth d)) (\<lambda>max_depth.
     bindR (ok_or (MissingField GA_AUTHOR_KEY) (hk_author_key d)) (\<lambda>author_key.
     let grant = \<lparr>gr_grant_id = grant_id, gr_door_fpr = door_fpr, gr_door_kem = door_kem,
                  gr_door_public = door_public, gr_door_verify = door_verify, gr_entries = entries,
                  gr_issued_at = issued_at, gr_expires_at = expires_at, gr_tightening = hk_tightening d,
                  gr_max_depth = max_depth, gr_author_key = author_key,
                  gr_signature = replicate SIGNATURE_LEN 0\<rparr> in
     bindR (check_agent_grant_shape c grant) (\<lambda>_.
     Inr grant)))))))))))"

definition decode_agent_grant_body :: "Crates \<Rightarrow> bytes \<Rightarrow> FormatError + AgentGrant" where
  "decode_agent_grant_body c body =
     bindR (tlv_values agent_grant_step body agent_grant_decode_start) (agent_grant_finish c)"

definition decode_agent_grant :: "Crates \<Rightarrow> bytes \<Rightarrow> bytes \<Rightarrow> FormatError + AgentGrant" where
  "decode_agent_grant c bs author_key =
     bindR (split_signature bs) (\<lambda>(signature, body).
     bindR (map_err BadHeaderSignature (sign_verify c author_key (agent_grant_transcript body) signature)) (\<lambda>_.
     bindR (decode_agent_grant_body c body) (\<lambda>grant.
     bindR (ensure (digest_eq_ct c (gr_author_key grant) author_key) (BadFieldLength GA_AUTHOR_KEY 32)) (\<lambda>_.
     Inr (grant\<lparr>gr_signature := signature\<rparr>)))))"

definition peek_agent_grant :: "Crates \<Rightarrow> bytes \<Rightarrow> FormatError + AgentGrant" where
  "peek_agent_grant c bs =
     bindR (split_signature bs) (\<lambda>(signature, body).
     bindR (decode_agent_grant_body c body) (\<lambda>grant.
     Inr (grant\<lparr>gr_signature := signature\<rparr>)))"

definition delegation_body :: "Crates \<Rightarrow> Delegation \<Rightarrow> FormatError + bytes" where
  "delegation_body c link =
     bindR (check_delegation_shape c link) (\<lambda>_.
     bindR (encode_entries (dl_entries link)) (\<lambda>entries.
     bindR (tightening_field LK_TIGHTENING (dl_tightening link)) (\<lambda>tight.
     bindR (if dl_actions link \<noteq> [] then bindR (encode_rules (dl_actions link)) (\<lambda>bs. Inr [(LK_ACTIONS, bs)])
            else Inr []) (\<lambda>actions.
     write_fields
       ([(LK_GRANT_ID, dl_grant_id link),
         (LK_PARENT_FPR, dl_parent_fpr link),
         (LK_CHILD_FPR, dl_child_fpr link),
         (LK_CHILD_KEM, [dl_child_kem link]),
         (LK_CHILD_PUBLIC, dl_child_public link),
         (LK_CHILD_VERIFY, dl_child_verify link),
         (LK_ENTRIES, entries),
         (LK_EXPIRES_AT, le64 (dl_expires_at link))] @
        tight @
        [(LK_DEPTH, [dl_depth link])] @
        actions)))))"

definition delegation_transcript :: "bytes \<Rightarrow> Transcript" where
  "delegation_transcript body = body_transcript DELEGATION body"

definition encode_delegation :: "Crates \<Rightarrow> Delegation \<Rightarrow> FormatError + bytes" where
  "encode_delegation c link = bindR (delegation_body c link) (\<lambda>body. Inr (dl_signature link @ body))"

record DelegationDecoder =
  jk_grant_id :: "bytes option"
  jk_parent_fpr :: "bytes option"
  jk_child_fpr :: "bytes option"
  jk_child_kem :: "byte option"
  jk_child_public :: "bytes option"
  jk_child_verify :: "bytes option"
  jk_entries :: "Entry list option"
  jk_expires_at :: "i64 option"
  jk_tightening :: "Policy option"
  jk_depth :: "byte option"
  jk_actions :: "ActionRule list"

definition delegation_decode_start :: DelegationDecoder where
  "delegation_decode_start =
     \<lparr>jk_grant_id = None, jk_parent_fpr = None, jk_child_fpr = None, jk_child_kem = None, jk_child_public = None,
      jk_child_verify = None, jk_entries = None, jk_expires_at = None, jk_tightening = None, jk_depth = None,
      jk_actions = []\<rparr>"

definition delegation_step :: "u16 \<Rightarrow> bytes \<Rightarrow> DelegationDecoder \<Rightarrow> FormatError + DelegationDecoder" where
  "delegation_step tag value d =
     (if tag = LK_GRANT_ID then bindR (exact_len 16 tag value) (\<lambda>x. Inr (d\<lparr>jk_grant_id := Some x\<rparr>))
      else if tag = LK_PARENT_FPR then bindR (exact_len 32 tag value) (\<lambda>x. Inr (d\<lparr>jk_parent_fpr := Some x\<rparr>))
      else if tag = LK_CHILD_FPR then bindR (exact_len 32 tag value) (\<lambda>x. Inr (d\<lparr>jk_child_fpr := Some x\<rparr>))
      else if tag = LK_CHILD_KEM then bindR (one_byte tag value) (\<lambda>x. Inr (d\<lparr>jk_child_kem := Some x\<rparr>))
      else if tag = LK_CHILD_PUBLIC then Inr (d\<lparr>jk_child_public := Some value\<rparr>)
      else if tag = LK_CHILD_VERIFY then bindR (exact_len 32 tag value) (\<lambda>x. Inr (d\<lparr>jk_child_verify := Some x\<rparr>))
      else if tag = LK_ENTRIES then bindR (decode_entries value LK_ENTRIES) (\<lambda>x. Inr (d\<lparr>jk_entries := Some x\<rparr>))
      else if tag = LK_EXPIRES_AT then bindR (u64_le tag value) (\<lambda>x. Inr (d\<lparr>jk_expires_at := Some x\<rparr>))
      else if tag = LK_TIGHTENING then bindR (decode_tightening value) (\<lambda>x. Inr (d\<lparr>jk_tightening := Some x\<rparr>))
      else if tag = LK_DEPTH then bindR (one_byte tag value) (\<lambda>x. Inr (d\<lparr>jk_depth := Some x\<rparr>))
      else if tag = LK_ACTIONS then bindR (decode_rules value) (\<lambda>x. Inr (d\<lparr>jk_actions := x\<rparr>))
      else bindR (refuse_if_critical tag) (\<lambda>_. Inr d))"

definition delegation_finish :: "Crates \<Rightarrow> DelegationDecoder \<Rightarrow> FormatError + Delegation" where
  "delegation_finish c d =
     bindR (ok_or (MissingField LK_GRANT_ID) (jk_grant_id d)) (\<lambda>grant_id.
     bindR (ok_or (MissingField LK_PARENT_FPR) (jk_parent_fpr d)) (\<lambda>parent_fpr.
     bindR (ok_or (MissingField LK_CHILD_FPR) (jk_child_fpr d)) (\<lambda>child_fpr.
     bindR (ok_or (MissingField LK_CHILD_KEM) (jk_child_kem d)) (\<lambda>child_kem.
     bindR (ok_or (MissingField LK_CHILD_PUBLIC) (jk_child_public d)) (\<lambda>child_public.
     bindR (ok_or (MissingField LK_CHILD_VERIFY) (jk_child_verify d)) (\<lambda>child_verify.
     bindR (ok_or (MissingField LK_ENTRIES) (jk_entries d)) (\<lambda>entries.
     bindR (ok_or (MissingField LK_EXPIRES_AT) (jk_expires_at d)) (\<lambda>expires_at.
     bindR (ok_or (MissingField LK_DEPTH) (jk_depth d)) (\<lambda>depth.
     let link = \<lparr>dl_grant_id = grant_id, dl_parent_fpr = parent_fpr, dl_child_fpr = child_fpr,
                 dl_child_kem = child_kem, dl_child_public = child_public, dl_child_verify = child_verify,
                 dl_entries = entries, dl_expires_at = expires_at, dl_tightening = jk_tightening d,
                 dl_depth = depth, dl_actions = jk_actions d, dl_signature = replicate SIGNATURE_LEN 0\<rparr> in
     bindR (check_delegation_shape c link) (\<lambda>_.
     Inr link))))))))))"

definition decode_delegation_body :: "Crates \<Rightarrow> bytes \<Rightarrow> FormatError + Delegation" where
  "decode_delegation_body c body =
     bindR (tlv_values delegation_step body delegation_decode_start) (delegation_finish c)"

definition decode_delegation :: "Crates \<Rightarrow> bytes \<Rightarrow> bytes \<Rightarrow> FormatError + Delegation" where
  "decode_delegation c bs parent_verify =
     bindR (split_signature bs) (\<lambda>(signature, body).
     bindR (map_err BadHeaderSignature (sign_verify c parent_verify (delegation_transcript body) signature)) (\<lambda>_.
     bindR (decode_delegation_body c body) (\<lambda>link.
     Inr (link\<lparr>dl_signature := signature\<rparr>))))"

definition peek_delegation :: "Crates \<Rightarrow> bytes \<Rightarrow> FormatError + Delegation" where
  "peek_delegation c bs =
     bindR (split_signature bs) (\<lambda>(signature, body).
     bindR (decode_delegation_body c body) (\<lambda>link.
     Inr (link\<lparr>dl_signature := signature\<rparr>)))"

section \<open>Chains\<close>

record ChainFacts =
  cf_grant_id :: bytes
  cf_holder_fpr :: bytes
  cf_holder_verify :: bytes
  cf_files :: "bytes list"
  cf_expires_at :: i64
  cf_tightening :: "Policy list"
  cf_depth_left :: byte
  cf_actions :: "ActionRule list"

datatype ChainRefusal =
    BadGrant
  | BadLink nat
  | NotASubset nat
  | OutlivesParent nat
  | DepthExhausted nat
  | WrongParent nat
  | Expired
  | NotYetValid
  | BadActionGrant
  | ActionsWrongGrant
  | ActionsOutliveGrant
  | ActionNotGranted nat
  | ActionWidens nat ActionRefusal

text \<open>The loop over the parents of one kind: the first that accepts ends it, the first reason is kept.\<close>

fun try_parents :: "ActionRule \<Rightarrow> ActionRule list \<Rightarrow> ActionRefusal option \<Rightarrow> ActionRefusal option + unit" where
  "try_parents child [] first_reason = Inl first_reason"
| "try_parents child (parent # parents) first_reason =
     (case narrower child parent of
        Inr _ \<Rightarrow> Inr ()
      | Inl why \<Rightarrow> try_parents child parents (if first_reason = None then Some why else first_reason))"

definition narrow_action :: "ActionRule list \<Rightarrow> nat \<Rightarrow> ActionRule \<Rightarrow> ChainRefusal + unit" where
  "narrow_action parents index child =
     (let same_kind = filter (\<lambda>p. ar_kind p = ar_kind child) parents in
      if same_kind = [] then Inl (ActionNotGranted index)
      else case try_parents child same_kind None of
          Inr _ \<Rightarrow> Inr ()
        | Inl first_reason \<Rightarrow>
            Inl (ActionWidens index (case first_reason of Some why \<Rightarrow> why | None \<Rightarrow> WrongKind)))"

definition narrow_actions :: "ActionRule list \<Rightarrow> ActionRule list \<Rightarrow> nat \<Rightarrow> ChainRefusal + ActionRule list" where
  "narrow_actions parents children index =
     bindR (foldR (\<lambda>child _. narrow_action parents index child) children ()) (\<lambda>_.
     Inr children)"

definition root_actions :: "Crates \<Rightarrow> bytes \<Rightarrow> AgentGrant \<Rightarrow> bytes option \<Rightarrow> i64 \<Rightarrow> ChainRefusal + ActionRule list" where
  "root_actions c author_key grant actions now =
     (case actions of
        None \<Rightarrow> Inr []
      | Some bs \<Rightarrow>
          bindR (map_err BadActionGrant (decode_grant c bs author_key)) (\<lambda>signed.
          bindR (ensure (\<not> ag_grant_id signed \<noteq> gr_grant_id grant) ActionsWrongGrant) (\<lambda>_.
          bindR (ensure (\<not> sint (ag_expires_at signed) > sint (gr_expires_at grant)) ActionsOutliveGrant) (\<lambda>_.
          bindR (ensure (\<not> sint now < sint (ag_issued_at signed)) NotYetValid) (\<lambda>_.
          bindR (ensure (\<not> sint now > sint (ag_expires_at signed)) Expired) (\<lambda>_.
          Inr (ag_rules signed)))))))"

definition chain_start :: "AgentGrant \<Rightarrow> ActionRule list \<Rightarrow> ChainFacts" where
  "chain_start grant actions =
     \<lparr>cf_grant_id = gr_grant_id grant, cf_holder_fpr = gr_door_fpr grant, cf_holder_verify = gr_door_verify grant,
      cf_files = map en_file_id (gr_entries grant), cf_expires_at = gr_expires_at grant,
      cf_tightening = (case gr_tightening grant of Some p \<Rightarrow> [p] | None \<Rightarrow> []),
      cf_depth_left = gr_max_depth grant, cf_actions = actions\<rparr>"

definition chain_step :: "Crates \<Rightarrow> bool \<Rightarrow> i64 \<Rightarrow> nat \<times> bytes \<Rightarrow> ChainFacts \<Rightarrow> ChainRefusal + ChainFacts" where
  "chain_step c with_actions now ir facts =
     (case ir of (index, raw) \<Rightarrow>
     bindR (map_err (BadLink index) (decode_delegation c raw (cf_holder_verify facts))) (\<lambda>link.
     bindR (ensure (\<not> (dl_grant_id link \<noteq> cf_grant_id facts \<or>
         \<not> digest_eq_ct c (dl_parent_fpr link) (cf_holder_fpr facts))) (WrongParent index)) (\<lambda>_.
     bindR (ensure (\<not> (cf_depth_left facts = 0 \<or> dl_depth link \<ge> cf_depth_left facts)) (DepthExhausted index)) (\<lambda>_.
     bindR (ensure (list_all (\<lambda>entry. en_file_id entry \<in> set (cf_files facts)) (dl_entries link)) (NotASubset index)) (\<lambda>_.
     bindR (ensure (\<not> sint (dl_expires_at link) > sint (cf_expires_at facts)) (OutlivesParent index)) (\<lambda>_.
     bindR (ensure (\<not> sint now > sint (dl_expires_at link)) Expired) (\<lambda>_.
     bindR (if with_actions then narrow_actions (cf_actions facts) (dl_actions link) index else Inr []) (\<lambda>actions.
     Inr (facts\<lparr>cf_actions := actions, cf_holder_fpr := dl_child_fpr link, cf_holder_verify := dl_child_verify link,
            cf_files := map en_file_id (dl_entries link), cf_expires_at := dl_expires_at link,
            cf_depth_left := dl_depth link,
            cf_tightening := cf_tightening facts @ (case dl_tightening link of Some p \<Rightarrow> [p] | None \<Rightarrow> [])\<rparr>)))))))))"

definition verify_grant_chain_with_actions ::
    "Crates \<Rightarrow> bytes \<Rightarrow> bytes \<Rightarrow> bytes list \<Rightarrow> bytes option \<Rightarrow> i64 \<Rightarrow> ChainRefusal + ChainFacts" where
  "verify_grant_chain_with_actions c author_key grant links actions now =
     bindR (map_err BadGrant (decode_agent_grant c grant author_key)) (\<lambda>grant.
     bindR (ensure (\<not> sint now < sint (gr_issued_at grant)) NotYetValid) (\<lambda>_.
     bindR (ensure (\<not> sint now > sint (gr_expires_at grant)) Expired) (\<lambda>_.
     bindR (root_actions c author_key grant actions now) (\<lambda>rules.
     foldR (chain_step c (actions \<noteq> None) now) (enumerate 0 links) (chain_start grant rules)))))"

definition verify_grant_chain :: "Crates \<Rightarrow> bytes \<Rightarrow> bytes \<Rightarrow> bytes list \<Rightarrow> i64 \<Rightarrow> ChainRefusal + ChainFacts" where
  "verify_grant_chain c author_key grant links now = verify_grant_chain_with_actions c author_key grant links None now"

section \<open>Chains as a relation\<close>

text \<open>
  What one link may do to the facts of a chain.  The signature of the link is not part of this:
  it is the premise of the step below.
\<close>

definition hands_over :: "Crates \<Rightarrow> bool \<Rightarrow> i64 \<Rightarrow> ChainFacts \<Rightarrow> Delegation \<Rightarrow> ChainFacts \<Rightarrow> bool" where
  "hands_over c with_actions now f link f' \<longleftrightarrow>
     dl_grant_id link = cf_grant_id f \<and> digest_eq_ct c (dl_parent_fpr link) (cf_holder_fpr f) \<and>
     dl_depth link < cf_depth_left f \<and>
     (\<forall>entry \<in> set (dl_entries link). en_file_id entry \<in> set (cf_files f)) \<and>
     sint (dl_expires_at link) \<le> sint (cf_expires_at f) \<and> sint now \<le> sint (dl_expires_at link) \<and>
     (with_actions \<longrightarrow> (\<forall>r \<in> set (dl_actions link). \<exists>p \<in> set (cf_actions f). narrower r p = Inr ())) \<and>
     f' = \<lparr>cf_grant_id = cf_grant_id f, cf_holder_fpr = dl_child_fpr link, cf_holder_verify = dl_child_verify link,
           cf_files = map en_file_id (dl_entries link), cf_expires_at = dl_expires_at link,
           cf_tightening = cf_tightening f @ (case dl_tightening link of Some p \<Rightarrow> [p] | None \<Rightarrow> []),
           cf_depth_left = dl_depth link, cf_actions = (if with_actions then dl_actions link else [])\<rparr>"

inductive chain :: "Crates \<Rightarrow> bool \<Rightarrow> i64 \<Rightarrow> ChainFacts \<Rightarrow> bytes list \<Rightarrow> ChainFacts \<Rightarrow> bool"
  for c :: Crates and with_actions :: bool and now :: i64 where
  chain_end: "chain c with_actions now f [] f"
| chain_link:
    "length signature = 64 \<Longrightarrow> signed_by c DELEGATION (cf_holder_verify f) body signature \<Longrightarrow>
     decode_delegation_body c body = Inr link \<Longrightarrow> hands_over c with_actions now f link f' \<Longrightarrow>
     chain c with_actions now f' raws f'' \<Longrightarrow> chain c with_actions now f ((signature @ body) # raws) f''"

inductive_simps chain_Nil [simp]: "chain c with_actions now f [] f'"
inductive_simps chain_Cons: "chain c with_actions now f (raw # raws) f'"

lemma try_parents_Inr:
  "try_parents child parents first_reason = Inr u \<longleftrightarrow> (\<exists>p \<in> set parents. narrower child p = Inr ())"
  by (induction parents arbitrary: first_reason) (auto split: sum.splits)

lemma narrow_action_Inr:
  "narrow_action parents index child = Inr u \<longleftrightarrow> (\<exists>p \<in> set parents. narrower child p = Inr ())"
proof -
  define same_kind where "same_kind = filter (\<lambda>p. ar_kind p = ar_kind child) parents"
  have "(\<exists>p \<in> set parents. narrower child p = Inr ()) \<longleftrightarrow> (\<exists>p \<in> set same_kind. narrower child p = Inr ())"
    unfolding same_kind_def using narrowerD(1) [of child] by fastforce
  also have "\<dots> \<longleftrightarrow> (case try_parents child same_kind None of Inr _ \<Rightarrow> True | Inl _ \<Rightarrow> False)"
    using try_parents_Inr [of child same_kind None] by (auto split: sum.splits)
  also have "\<dots> \<longleftrightarrow> narrow_action parents index child = Inr u"
    by (cases "same_kind = []") (simp_all add: narrow_action_def flip: same_kind_def split: sum.splits)
  finally show ?thesis by (rule sym)
qed

lemma narrow_actions_Inr:
  "narrow_actions parents children index = Inr rs \<longleftrightarrow>
     rs = children \<and> (\<forall>r \<in> set children. \<exists>p \<in> set parents. narrower r p = Inr ())"
  by (auto simp: narrow_actions_def bindR_eq_Inr foldR_check narrow_action_Inr)

lemma decode_delegation_Inr:
  "decode_delegation c raw key = Inr link \<longleftrightarrow>
     (\<exists>signature body l. raw = signature @ body \<and> length signature = 64 \<and> signed_by c DELEGATION key body signature \<and>
        decode_delegation_body c body = Inr l \<and> link = l\<lparr>dl_signature := signature\<rparr>)"
  by (auto simp: decode_delegation_def delegation_transcript_def bindR_eq_Inr split_signature_eq_Inr map_err_eq_Inr
      sign_verify_eq_Inr signed_by_def)

lemma hands_over_signature [simp]:
  "hands_over c with_actions now f (link\<lparr>dl_signature := s\<rparr>) f' = hands_over c with_actions now f link f'"
  by (simp add: hands_over_def)

lemma chain_step_Inr:
  "chain_step c with_actions now (index, raw) f = Inr f' \<longleftrightarrow>
     (\<exists>link. decode_delegation c raw (cf_holder_verify f) = Inr link \<and> hands_over c with_actions now f link f')"
proof -
  have depth: "\<not> (cf_depth_left f = 0 \<or> d \<ge> cf_depth_left f) \<longleftrightarrow> d < cf_depth_left f" for d
    by (auto simp: not_le)
  show ?thesis
    unfolding chain_step_def hands_over_def
    by (cases f)
      (auto simp: bindR_eq_Inr ensure_eq_Inr map_err_eq_Inr narrow_actions_Inr list_all_iff depth not_less)
qed

lemma foldR_chain_step:
  "foldR (chain_step c with_actions now) (enumerate n raws) f = Inr f' \<longleftrightarrow> chain c with_actions now f raws f'"
proof (induction raws arbitrary: n f)
  case (Cons raw raws)
  then show ?case
    by (fastforce simp: bindR_eq_Inr chain_step_Inr decode_delegation_Inr chain_Cons)
qed auto

section \<open>Chains narrow\<close>

text \<open>A rule covers another when it permits every argument and every number of uses the other does.\<close>

definition covers :: "ActionRule \<Rightarrow> ActionRule \<Rightarrow> bool" where
  "covers p r \<longleftrightarrow>
     (\<forall>args. args_within r args = Inr () \<longrightarrow> args_within p args = Inr ()) \<and>
     (\<forall>n. use_allowed (ar_max_uses r) n \<longrightarrow> use_allowed (ar_max_uses p) n)"

lemma covers_refl [simp]: "covers r r"
  by (simp add: covers_def)

lemma covers_trans: "covers p q \<Longrightarrow> covers q r \<Longrightarrow> covers p r"
  by (simp add: covers_def)

lemma narrower_covers:
  assumes "narrower r p = Inr ()" and "check_rule_shape p = Inr ()"
  shows "covers p r \<and> ar_delegable p \<and> \<not> ar_confirm p"
  using narrowerD [OF assms(1)] narrower_args [OF assms] uses_within_iff unfolding covers_def by blast

definition rules_ok :: "ChainFacts \<Rightarrow> bool" where
  "rules_ok f \<longleftrightarrow> (\<forall>r \<in> set (cf_actions f). check_rule_shape r = Inr ())"

lemma decode_delegation_bodyD:
  assumes "decode_delegation_body c body = Inr link"
  shows "\<forall>r \<in> set (dl_actions link). check_rule_shape r = Inr ()"
  using assms by (auto simp: decode_delegation_body_def delegation_finish_def check_delegation_shape_def
      bindR_eq_Inr foldR_check Let_def)

lemma chain_rules_ok: "chain c with_actions now f raws f' \<Longrightarrow> rules_ok f \<Longrightarrow> rules_ok f'"
  by (induction rule: chain.induct) (auto simp: rules_ok_def hands_over_def dest: decode_delegation_bodyD)

lemma chain_narrows:
  assumes "chain c with_actions now f raws f'"
  shows "cf_grant_id f' = cf_grant_id f" and "set (cf_files f') \<subseteq> set (cf_files f)"
    and "sint (cf_expires_at f') \<le> sint (cf_expires_at f)"
    and "unat (cf_depth_left f') + length raws \<le> unat (cf_depth_left f)"
    and "\<exists>more. cf_tightening f' = cf_tightening f @ more"
    and "raws \<noteq> [] \<Longrightarrow> sint now \<le> sint (cf_expires_at f')"
    and "\<not> with_actions \<Longrightarrow> cf_actions f = [] \<Longrightarrow> cf_actions f' = []"
proof -
  show "raws \<noteq> [] \<Longrightarrow> sint now \<le> sint (cf_expires_at f')" using assms
  proof (induction rule: chain.induct)
    case (chain_link signature f body link f' raws f'')
    then show ?case by (cases raws) (auto simp: hands_over_def)
  qed simp
qed (use assms in \<open>induction rule: chain.induct;
    fastforce simp: hands_over_def word_less_nat_alt\<close>)+

lemma chain_covers:
  assumes "chain c with_actions now f raws f'" and "rules_ok f" and "r \<in> set (cf_actions f')"
  shows "\<exists>p \<in> set (cf_actions f). covers p r \<and> (raws \<noteq> [] \<longrightarrow> ar_delegable p \<and> \<not> ar_confirm p)"
  using assms
proof (induction rule: chain.induct)
  case (chain_link signature f body link f' raws f'')
  have "rules_ok f'"
    using chain_link.hyps(3,4) decode_delegation_bodyD by (auto simp: rules_ok_def hands_over_def)
  then obtain q where q: "q \<in> set (cf_actions f')" "covers q r" using chain_link by blast
  then obtain p where p: "p \<in> set (cf_actions f)" "narrower q p = Inr ()"
    using chain_link.hyps(4) by (auto simp: hands_over_def split: if_splits)
  moreover have "check_rule_shape p = Inr ()" using chain_link.prems(1) p(1) by (simp add: rules_ok_def)
  ultimately show ?case using q(2) narrower_covers covers_trans by blast
qed (use covers_refl in blast)

section \<open>Grants and links round-trip\<close>

lemma check_entries_Inr:
  "check_entries es t = Inr u \<longleftrightarrow> length es \<le> MAX_GRANT_FILES \<and> sorted_wrt (<) (map en_file_id es)"
proof -
  have "foldR (\<lambda>(index, a, b) _. ensure (\<not> en_file_id a \<ge> en_file_id b) (e index)) (enumerate 0 (zip es (tl es))) () = Inr v \<longleftrightarrow>
      (\<forall>(a, b) \<in> set (zip es (tl es)). en_file_id a < en_file_id b)" for e :: "nat \<Rightarrow> FormatError" and v
  proof -
    have "set (zip es (tl es)) = snd ` set (enumerate 0 (zip es (tl es)))" by (metis list.set_map map_snd_enumerate)
    then show ?thesis unfolding case_prod_unfold foldR_ensure not_le by simp
  qed
  moreover have "(\<forall>(a, b) \<in> set (zip es (tl es)). en_file_id a < en_file_id b) \<longleftrightarrow> sorted_wrt (<) (map en_file_id es)"
  proof (induction es)
    case (Cons e es)
    then show ?case by (cases es) (auto intro: less_trans)
  qed simp
  ultimately show ?thesis by (auto simp: check_entries_def bindR_eq_Inr ensure_eq_Inr Let_def)
qed

definition entry_wf :: "Entry \<Rightarrow> bool" where
  "entry_wf e \<longleftrightarrow> length (en_file_id e) = 16 \<and> length (bl_nonce (en_share_b e)) = 24"

lemma decode_encode_entry: "entry_wf e \<Longrightarrow> encode_entry e = Inr bs \<Longrightarrow> decode_entry bs = Inr e"
  by (cases e, cases "en_share_b e")
    (auto simp: entry_wf_def encode_entry_def write_fields_eq_Inr decode_entry_def entry_step_def entry_decode_start_def
      entry_finish_def exact_len_def simp del: enc_fields_simps)

lemma decode_encode_entries:
  assumes "\<forall>e \<in> set es. entry_wf e" and "encode_entries es = Inr bs" and "check_entries es t = Inr ()"
  shows "decode_entries bs t = Inr es"
proof -
  from assms(2) obtain w where w: "bs = finish w"
    and fold: "foldR (\<lambda>(index, entry) w. bindR (ok_or OffsetOverflow (u16_of_usize index)) (\<lambda>tag.
      bindR (encode_entry entry) (\<lambda>body. put tag body w))) (enumerate 0 es) writer_new = Inr w"
    by (auto simp: encode_entries_def bindR_eq_Inr)
  obtain items where items: "list_all2 (\<lambda>e b. encode_entry e = Inr b) es items" "ascending None (indexed 0 items)"
    "finish w = enc_fields (indexed 0 items)"
    using foldR_write_indexed [OF fold] by blast
  have "list_all2 (\<lambda>e b. decode_entry b = Inr e) es items"
    using items(1) assms(1) decode_encode_entry by (fastforce simp: list_all2_conv_all_nth)
  then have "run_fields (entries_step t) (indexed 0 items) [] = Inr ([] @ es)"
    by (rule run_collect [where limit = MAX_GRANT_FILES])
      (use assms(3) in \<open>simp_all add: entries_step_def check_entries_Inr\<close>)
  then show ?thesis using w items(2,3) assms(3) by (simp add: decode_entries_def)
qed

definition tightening_wf :: "Policy option \<Rightarrow> bool" where
  "tightening_wf t \<longleftrightarrow> (\<forall>p. t = Some p \<longrightarrow> policy_wf CONTAINER_VERSION p)"

lemma tightening_round_trip:
  assumes "tightening_wf t" and "tightening_field tag t = Inr fs"
  shows "fs = opt_field tag (map_option (\<lambda>p. enc_fields (policy_fields CONTAINER_VERSION p)) t)"
    and "\<And>p. t = Some p \<Longrightarrow> decode_tightening (enc_fields (policy_fields CONTAINER_VERSION p)) = Inr p"
  using assms
  by (auto simp: tightening_wf_def tightening_field_def encode_tightening_def decode_tightening_def policy_encode_eq
      bindR_eq_Inr SUPPORTED_READER_VERSION_def CONTAINER_VERSION_def policy_decode_encode canonical_policy_wf
      split: option.splits)

definition agent_grant_wf :: "AgentGrant \<Rightarrow> bool" where
  "agent_grant_wf g \<longleftrightarrow>
     length (gr_grant_id g) = 16 \<and> length (gr_door_fpr g) = 32 \<and> length (gr_door_verify g) = 32 \<and>
     length (gr_author_key g) = 32 \<and> (\<forall>e \<in> set (gr_entries g). entry_wf e) \<and> tightening_wf (gr_tightening g)"

lemma check_agent_grant_shape_signature [simp]:
  "check_agent_grant_shape c (g\<lparr>gr_signature := s\<rparr>) = check_agent_grant_shape c g"
  by (simp add: check_agent_grant_shape_def)

definition agent_grant_state :: "AgentGrant \<Rightarrow> AgentGrantDecoder" where
  "agent_grant_state g =
     \<lparr>hk_grant_id = Some (gr_grant_id g), hk_door_fpr = Some (gr_door_fpr g), hk_door_kem = Some (gr_door_kem g),
      hk_door_public = Some (gr_door_public g), hk_door_verify = Some (gr_door_verify g),
      hk_entries = Some (gr_entries g), hk_issued_at = Some (gr_issued_at g), hk_expires_at = Some (gr_expires_at g),
      hk_tightening = gr_tightening g, hk_max_depth = Some (gr_max_depth g), hk_author_key = Some (gr_author_key g)\<rparr>"

lemma decode_encode_agent_grant:
  assumes wf: "agent_grant_wf g" and enc: "agent_grant_body c g = Inr body"
  shows "decode_agent_grant_body c body = Inr (g\<lparr>gr_signature := replicate 64 0\<rparr>)"
proof -
  let ?t = "opt_field GA_TIGHTENING (map_option (\<lambda>p. enc_fields (policy_fields CONTAINER_VERSION p)) (gr_tightening g))"
  from enc obtain es tf where shape: "check_agent_grant_shape c g = Inr ()" and es: "encode_entries (gr_entries g) = Inr es"
    and tf: "tightening_field GA_TIGHTENING (gr_tightening g) = Inr tf"
    and w: "write_fields ([(GA_GRANT_ID, gr_grant_id g), (GA_DOOR_FPR, gr_door_fpr g), (GA_DOOR_KEM, [gr_door_kem g]),
      (GA_DOOR_PUBLIC, gr_door_public g), (GA_DOOR_VERIFY, gr_door_verify g), (GA_ENTRIES, es),
      (GA_ISSUED_AT, le64 (gr_issued_at g)), (GA_EXPIRES_AT, le64 (gr_expires_at g))] @ tf @
      [(GA_MAX_DEPTH, [gr_max_depth g]), (GA_AUTHOR_KEY, gr_author_key g)]) = Inr body"
    by (auto simp: agent_grant_body_def bindR_eq_Inr)
  have tw: "tightening_wf (gr_tightening g)" using wf by (simp add: agent_grant_wf_def)
  have entries: "decode_entries es GA_ENTRIES = Inr (gr_entries g)"
    using wf shape es by (intro decode_encode_entries) (auto simp: agent_grant_wf_def check_agent_grant_shape_def bindR_eq_Inr)
  have tight: "run_fields agent_grant_step ?t d = Inr (d\<lparr>hk_tightening := gr_tightening g\<rparr>)" if "hk_tightening d = None" for d
    using that tightening_round_trip(2) [OF tw tf]
    by (intro run_opt_field [where upd = "\<lambda>x d. d\<lparr>hk_tightening := x\<rparr>"]) (simp_all add: agent_grant_step_def)
  have "tlv_values agent_grant_step body agent_grant_decode_start = Inr (agent_grant_state g)"
    using w wf tightening_round_trip(1) [OF tw tf] entries tight
    by (auto simp: write_fields_eq_Inr run_fields_append agent_grant_step_def agent_grant_decode_start_def
        agent_grant_state_def agent_grant_wf_def exact_len_def simp del: enc_fields_simps)
  moreover have "check_agent_grant_shape c (g\<lparr>gr_signature := replicate 64 0\<rparr>) = Inr ()" using shape by simp
  ultimately show ?thesis
    by (cases g) (simp add: decode_agent_grant_body_def agent_grant_finish_def agent_grant_state_def Let_def
        del: check_agent_grant_shape_signature)
qed

interpretation agent_grant_doc: signed_record agent_grant_body decode_agent_grant_body agent_grant_wf AGENT_GRANT
  "\<lambda>c key g. ensure (digest_eq_ct c (gr_author_key g) key) (BadFieldLength GA_AUTHOR_KEY 32)"
  gr_signature "\<lambda>s g. g\<lparr>gr_signature := s\<rparr>" decode_agent_grant
  by unfold_locales
    (simp_all add: LABEL_ALL_def decode_encode_agent_grant decode_agent_grant_def open_record_def
      agent_grant_transcript_def)

definition delegation_wf :: "Delegation \<Rightarrow> bool" where
  "delegation_wf l \<longleftrightarrow>
     length (dl_grant_id l) = 16 \<and> length (dl_parent_fpr l) = 32 \<and> length (dl_child_fpr l) = 32 \<and>
     length (dl_child_verify l) = 32 \<and> (\<forall>e \<in> set (dl_entries l). entry_wf e) \<and> tightening_wf (dl_tightening l)"

lemma check_delegation_shape_signature [simp]:
  "check_delegation_shape c (l\<lparr>dl_signature := s\<rparr>) = check_delegation_shape c l"
  by (simp add: check_delegation_shape_def)

definition delegation_state :: "Delegation \<Rightarrow> DelegationDecoder" where
  "delegation_state l =
     \<lparr>jk_grant_id = Some (dl_grant_id l), jk_parent_fpr = Some (dl_parent_fpr l), jk_child_fpr = Some (dl_child_fpr l),
      jk_child_kem = Some (dl_child_kem l), jk_child_public = Some (dl_child_public l),
      jk_child_verify = Some (dl_child_verify l), jk_entries = Some (dl_entries l),
      jk_expires_at = Some (dl_expires_at l), jk_tightening = dl_tightening l, jk_depth = Some (dl_depth l),
      jk_actions = dl_actions l\<rparr>"

lemma decode_encode_delegation:
  assumes wf: "delegation_wf l" and enc: "delegation_body c l = Inr body"
  shows "decode_delegation_body c body = Inr (l\<lparr>dl_signature := replicate 64 0\<rparr>)"
proof -
  let ?t = "opt_field LK_TIGHTENING (map_option (\<lambda>p. enc_fields (policy_fields CONTAINER_VERSION p)) (dl_tightening l))"
  from enc obtain es tf af where shape: "check_delegation_shape c l = Inr ()" and es: "encode_entries (dl_entries l) = Inr es"
    and tf: "tightening_field LK_TIGHTENING (dl_tightening l) = Inr tf"
    and af: "(if dl_actions l \<noteq> [] then bindR (encode_rules (dl_actions l)) (\<lambda>bs. Inr [(LK_ACTIONS, bs)]) else Inr []) = Inr af"
    and w: "write_fields ([(LK_GRANT_ID, dl_grant_id l), (LK_PARENT_FPR, dl_parent_fpr l), (LK_CHILD_FPR, dl_child_fpr l),
      (LK_CHILD_KEM, [dl_child_kem l]), (LK_CHILD_PUBLIC, dl_child_public l), (LK_CHILD_VERIFY, dl_child_verify l),
      (LK_ENTRIES, es), (LK_EXPIRES_AT, le64 (dl_expires_at l))] @ tf @ [(LK_DEPTH, [dl_depth l])] @ af) = Inr body"
    by (auto simp: delegation_body_def bindR_eq_Inr)
  have tw: "tightening_wf (dl_tightening l)" using wf by (simp add: delegation_wf_def)
  have entries: "decode_entries es LK_ENTRIES = Inr (dl_entries l)"
    using wf shape es by (intro decode_encode_entries) (auto simp: delegation_wf_def check_delegation_shape_def bindR_eq_Inr)
  have tight: "run_fields delegation_step ?t d = Inr (d\<lparr>jk_tightening := dl_tightening l\<rparr>)" if "jk_tightening d = None" for d
    using that tightening_round_trip(2) [OF tw tf]
    by (intro run_opt_field [where upd = "\<lambda>x d. d\<lparr>jk_tightening := x\<rparr>"]) (simp_all add: delegation_step_def)
  have acts: "run_fields delegation_step af d = Inr (d\<lparr>jk_actions := dl_actions l\<rparr>)" if "jk_actions d = []" for d
    using af that
    by (auto simp: bindR_eq_Inr delegation_step_def decode_encode_rules split: if_splits)
  have "tlv_values delegation_step body delegation_decode_start = Inr (delegation_state l)"
    using w wf tightening_round_trip(1) [OF tw tf] entries tight acts
    by (auto simp: write_fields_eq_Inr run_fields_append delegation_step_def delegation_decode_start_def
        delegation_state_def delegation_wf_def exact_len_def simp del: enc_fields_simps)
  moreover have "check_delegation_shape c (l\<lparr>dl_signature := replicate 64 0\<rparr>) = Inr ()" using shape by simp
  ultimately show ?thesis
    by (cases l) (simp add: decode_delegation_body_def delegation_finish_def delegation_state_def Let_def
        del: check_delegation_shape_signature)
qed

interpretation delegation_doc: signed_record delegation_body decode_delegation_body delegation_wf DELEGATION
  "\<lambda>c key l. Inr ()" dl_signature "\<lambda>s l. l\<lparr>dl_signature := s\<rparr>" decode_delegation
  by unfold_locales
    (simp_all add: LABEL_ALL_def decode_encode_delegation decode_delegation_def open_record_def delegation_transcript_def)

lemma root_actions_Inr:
  "root_actions c key g actions now = Inr rules \<longleftrightarrow>
     (case actions of
        None \<Rightarrow> rules = []
      | Some bs \<Rightarrow> \<exists>a. decode_grant c bs key = Inr a \<and> ag_grant_id a = gr_grant_id g \<and>
          sint (ag_expires_at a) \<le> sint (gr_expires_at g) \<and> sint (ag_issued_at a) \<le> sint now \<and>
          sint now \<le> sint (ag_expires_at a) \<and> rules = ag_rules a)"
  by (auto simp: root_actions_def bindR_eq_Inr map_err_eq_Inr ensure_eq_Inr not_less split: option.splits)

lemma root_rules_ok:
  assumes "root_actions c key g actions now = Inr rules"
  shows "\<forall>r \<in> set rules. check_rule_shape r = Inr ()"
proof (cases actions)
  case (Some bs)
  with assms obtain a where a: "decode_grant c bs key = Inr a" "rules = ag_rules a"
    by (auto simp: root_actions_Inr)
  obtain body y where "decode_grant_body body = Inr y" "a = y\<lparr>ag_signature := ag_signature a\<rparr>"
    using grant_doc.acceptedD [OF a(1)] by blast
  then have "check_grant_shape a = Inr ()" using decode_grant_bodyD(1) check_grant_shape_signature by metis
  then show ?thesis using a(2) by (simp add: check_grant_shape_Inr)
qed (use assms in \<open>simp add: root_actions_Inr\<close>)

lemma agent_grant_depth:
  assumes "decode_agent_grant c bs key = Inr g"
  shows "unat (gr_max_depth g) \<le> 4"
proof -
  obtain body y where "decode_agent_grant_body c body = Inr y" "g = y\<lparr>gr_signature := gr_signature g\<rparr>"
    using agent_grant_doc.acceptedD [OF assms] by blast
  moreover from this(1) have "check_agent_grant_shape c y = Inr ()"
    by (auto simp: decode_agent_grant_body_def agent_grant_finish_def bindR_eq_Inr Let_def)
  ultimately have "check_agent_grant_shape c g = Inr ()" by (metis check_agent_grant_shape_signature)
  then show ?thesis
    by (auto simp: check_agent_grant_shape_def bindR_eq_Inr ensure_eq_Inr MAX_GRANT_DEPTH_def not_less word_le_nat_alt)
qed

lemma verify_grant_chain_Inr:
  "verify_grant_chain_with_actions c key grant links actions now = Inr facts \<longleftrightarrow>
     (\<exists>g rules. decode_agent_grant c grant key = Inr g \<and> sint (gr_issued_at g) \<le> sint now \<and>
        sint now \<le> sint (gr_expires_at g) \<and> root_actions c key g actions now = Inr rules \<and>
        chain c (actions \<noteq> None) now (chain_start g rules) links facts)"
  by (auto simp: verify_grant_chain_with_actions_def bindR_eq_Inr map_err_eq_Inr ensure_eq_Inr foldR_chain_step not_less)

section \<open>Properties\<close>

text \<open>
  C28.  The chain check accepts exactly the chains of authority.  It succeeds precisely when the
  author's grant opens and is in its time, the optional grant of actions opens, belongs to that
  grant and is in its time, and every link is signed by the holder before it over exactly its
  bytes, names that holder as its parent and hands over no more than the holder has; the facts it
  returns are those at the end of that chain.
\<close>

theorem chain_check_exact:
  "verify_grant_chain_with_actions c key grant links actions now = Inr facts \<longleftrightarrow>
     (\<exists>g rules. decode_agent_grant c grant key = Inr g \<and> sint (gr_issued_at g) \<le> sint now \<and>
        sint now \<le> sint (gr_expires_at g) \<and>
        (case actions of
           None \<Rightarrow> rules = []
         | Some bs \<Rightarrow> \<exists>a. decode_grant c bs key = Inr a \<and> ag_grant_id a = gr_grant_id g \<and>
             sint (ag_expires_at a) \<le> sint (gr_expires_at g) \<and> sint (ag_issued_at a) \<le> sint now \<and>
             sint now \<le> sint (ag_expires_at a) \<and> rules = ag_rules a) \<and>
        chain c (actions \<noteq> None) now (chain_start g rules) links facts)"
  by (simp only: verify_grant_chain_Inr root_actions_Inr)

text \<open>
  C10.  Delegation only narrows, along the whole chain.  The holder at the end of an accepted chain
  may open only files of the author's grant, no longer than that grant lasts and not beyond the
  present time; the chain has at most four links, one for each level of depth the author allowed;
  every tightening policy of the grant still binds; and every action rule the holder has is
  covered by a rule the author signed for that same grant, which is delegable and needs no
  confirmation when there is any link.
\<close>

theorem chain_attenuates:
  assumes "verify_grant_chain_with_actions c key grant links actions now = Inr facts"
  shows "\<exists>g. decode_agent_grant c grant key = Inr g \<and> cf_grant_id facts = gr_grant_id g \<and>
     set (cf_files facts) \<subseteq> en_file_id ` set (gr_entries g) \<and>
     sint (gr_issued_at g) \<le> sint now \<and> sint now \<le> sint (cf_expires_at facts) \<and>
     sint (cf_expires_at facts) \<le> sint (gr_expires_at g) \<and>
     length links + unat (cf_depth_left facts) \<le> unat (gr_max_depth g) \<and> unat (gr_max_depth g) \<le> 4 \<and>
     (\<forall>p. gr_tightening g = Some p \<longrightarrow> p \<in> set (cf_tightening facts)) \<and>
     (\<forall>r \<in> set (cf_actions facts). \<exists>bs a p. actions = Some bs \<and> decode_grant c bs key = Inr a \<and>
        ag_grant_id a = gr_grant_id g \<and> p \<in> set (ag_rules a) \<and> covers p r \<and>
        (links \<noteq> [] \<longrightarrow> ar_delegable p \<and> \<not> ar_confirm p))"
proof -
  obtain g rules where g: "decode_agent_grant c grant key = Inr g" "sint (gr_issued_at g) \<le> sint now"
    "sint now \<le> sint (gr_expires_at g)" "root_actions c key g actions now = Inr rules"
    "chain c (actions \<noteq> None) now (chain_start g rules) links facts"
    using assms unfolding verify_grant_chain_Inr by blast
  note n = chain_narrows [OF g(5)]
  have start: "cf_actions (chain_start g rules) = rules" "cf_expires_at (chain_start g rules) = gr_expires_at g"
    "cf_grant_id (chain_start g rules) = gr_grant_id g" "cf_depth_left (chain_start g rules) = gr_max_depth g"
    "cf_files (chain_start g rules) = map en_file_id (gr_entries g)"
    "\<And>p. gr_tightening g = Some p \<Longrightarrow> cf_tightening (chain_start g rules) = [p]"
    by (simp_all add: chain_start_def)
  have time: "sint now \<le> sint (cf_expires_at facts)"
    using n(6) g(3,5) start(2) by (cases links) auto
  have "\<exists>bs a p. actions = Some bs \<and> decode_grant c bs key = Inr a \<and> ag_grant_id a = gr_grant_id g \<and>
      p \<in> set (ag_rules a) \<and> covers p r \<and> (links \<noteq> [] \<longrightarrow> ar_delegable p \<and> \<not> ar_confirm p)"
    if r: "r \<in> set (cf_actions facts)" for r
  proof -
    have "rules_ok (chain_start g rules)" using root_rules_ok [OF g(4)] by (simp add: rules_ok_def start(1))
    from chain_covers [OF g(5) this r] obtain p where p: "p \<in> set rules" "covers p r"
      "links \<noteq> [] \<longrightarrow> ar_delegable p \<and> \<not> ar_confirm p" by (auto simp: start(1))
    then show ?thesis using g(4) by (auto simp: root_actions_Inr split: option.splits)
  qed
  moreover have "\<forall>p. gr_tightening g = Some p \<longrightarrow> p \<in> set (cf_tightening facts)" using n(5) start(6) by auto
  ultimately show ?thesis
    using g(1,2) n(1-4) time agent_grant_depth [OF g(1)] by (intro exI [of _ g]) (auto simp: start)
qed

text \<open>An author's grant of one file, the link by which the door passes it on, and the grant of actions.\<close>

definition demo_entry :: Entry where
  "demo_entry = \<lparr>en_file_id = replicate 16 1, en_share_b = \<lparr>bl_enc = [], bl_nonce = replicate 24 0, bl_ct = []\<rparr>\<rparr>"

definition demo_agent_grant :: AgentGrant where
  "demo_agent_grant =
     \<lparr>gr_grant_id = replicate 16 1, gr_door_fpr = replicate 32 8, gr_door_kem = 1, gr_door_public = replicate 32 8,
      gr_door_verify = replicate 32 9, gr_entries = [demo_entry], gr_issued_at = 10, gr_expires_at = 20,
      gr_tightening = None, gr_max_depth = 1, gr_author_key = replicate 32 7,
      gr_signature = replicate 32 0 @ replicate 32 7\<rparr>"

definition demo_delegation :: Delegation where
  "demo_delegation =
     \<lparr>dl_grant_id = replicate 16 1, dl_parent_fpr = replicate 32 8, dl_child_fpr = replicate 32 5, dl_child_kem = 1,
      dl_child_public = replicate 32 5, dl_child_verify = replicate 32 6, dl_entries = [demo_entry],
      dl_expires_at = 18, dl_tightening = None, dl_depth = 0, dl_actions = [demo_child],
      dl_signature = replicate 32 0 @ replicate 32 9\<rparr>"

definition demo_action_grant :: ActionGrant where
  "demo_action_grant = demo_grant\<lparr>ag_rules := [demo_rule]\<rparr>"

lemma put_first: "length b < 4294967296 \<Longrightarrow> put 0 b writer_new = Inr \<lparr>wr_buf = enc_field (0, b), wr_last_tag = Some 0\<rparr>"
  by (simp add: put_eq_Inr writer_new_def)

lemma demo_rules_encode:
  "\<exists>bs. encode_rules [demo_rule] = Inr bs \<and> length bs < 4294967296"
  "\<exists>bs. encode_rules [demo_child] = Inr bs \<and> length bs < 4294967296"
proof -
  have one: "\<exists>bs. encode_rules [r] = Inr bs \<and> length bs < 4294967296"
    if "encode_rule r = Inr b" "length b < 4000000000" for r b
    using that by (simp add: encode_rules_def MAX_ACTION_RULES_def u16_of_usize_def put_first finish_def)
  have paths: "check_tree_path [0x73, 0x72, 0x63] 3 = Inr ()" "check_tree_path [0x73, 0x72, 0x63, SLASH, 0x61] 3 = Inr ()"
    by (simp_all add: action_eval)
  have "\<exists>b. encode_rule demo_rule = Inr b \<and> length b < 4000000000" "\<exists>b. encode_rule demo_child = Inr b \<and> length b < 4000000000"
    by (simp_all add: encode_rule_def encode_constraint_def check_rule_shape_def check_constraint_shape_def
        demo_rule_def demo_child_def paths)
  with one show "\<exists>bs. encode_rules [demo_rule] = Inr bs \<and> length bs < 4294967296"
    "\<exists>bs. encode_rules [demo_child] = Inr bs \<and> length bs < 4294967296" by blast+
qed

lemma demo_entries_encode: "\<exists>bs. encode_entries [demo_entry] = Inr bs \<and> length bs < 4294967296"
  by (simp add: encode_entries_def encode_entry_def demo_entry_def u16_of_usize_def put_first finish_def)

lemma demo_bodies:
  "\<exists>body. agent_grant_body demo_crates demo_agent_grant = Inr body"
  "\<exists>body. delegation_body demo_crates demo_delegation = Inr body"
  "\<exists>body. grant_body demo_action_grant = Inr body"
proof -
  have holder: "check_holder_name demo_crates (replicate 32 n) 1 (replicate 32 n) t u = Inr ()" for n t u
    by (simp add: check_holder_name_def DOOR_KEM_X25519_def kem_from_u8_def digest_eq_ct_def demo_crates_def)
  have entries: "check_entries [demo_entry] t = Inr ()" for t
    by (simp add: check_entries_Inr MAX_GRANT_FILES_def)
  have rules: "check_rule_shape demo_rule = Inr ()" "check_rule_shape demo_child = Inr ()"
    by (simp_all add: action_eval)
  show "\<exists>body. agent_grant_body demo_crates demo_agent_grant = Inr body"
    using demo_entries_encode
    by (auto simp: agent_grant_body_def check_agent_grant_shape_def demo_agent_grant_def holder entries
        MAX_GRANT_DEPTH_def tightening_field_def)
  show "\<exists>body. delegation_body demo_crates demo_delegation = Inr body"
    using demo_entries_encode demo_rules_encode(2)
    by (auto simp: delegation_body_def check_delegation_shape_def demo_delegation_def holder entries
        MAX_GRANT_DEPTH_def MAX_ACTION_RULES_def tightening_field_def rules)
  show "\<exists>body. grant_body demo_action_grant = Inr body"
    using demo_rules_encode(1)
    by (auto simp: grant_body_def check_grant_shape_def demo_action_grant_def demo_grant_def rules MAX_ACTION_RULES_def)
qed

theorem chain_attenuates_witness:
  "\<exists>grant link acts facts. verify_grant_chain_with_actions demo_crates (replicate 32 7) grant [link] (Some acts) 15 = Inr facts \<and>
     cf_files facts = [replicate 16 1] \<and> cf_actions facts = [demo_child] \<and> sint (cf_expires_at facts) \<le> 20"
proof -
  obtain gb lb ab where b: "agent_grant_body demo_crates demo_agent_grant = Inr gb"
    "delegation_body demo_crates demo_delegation = Inr lb" "grant_body demo_action_grant = Inr ab"
    using demo_bodies by blast
  have g: "decode_agent_grant demo_crates (gr_signature demo_agent_grant @ gb) (replicate 32 7) = Inr demo_agent_grant"
    using b(1) by (intro agent_grant_doc.issued_opens)
      (simp_all add: agent_grant_wf_def entry_wf_def tightening_wf_def demo_agent_grant_def demo_entry_def signed_by_def
        digest_eq_ct_def demo_crates_def)
  have a: "decode_grant demo_crates (ag_signature demo_action_grant @ ab) (replicate 32 7) = Inr demo_action_grant"
    using b(3) by (intro grant_doc.issued_opens)
      (simp_all add: grant_wf_def demo_action_grant_def demo_grant_def signed_by_def digest_eq_ct_def demo_crates_def)
  have l: "decode_delegation_body demo_crates lb = Inr (demo_delegation\<lparr>dl_signature := replicate 64 0\<rparr>)"
    using b(2) by (intro decode_encode_delegation)
      (simp_all add: delegation_wf_def entry_wf_def tightening_wf_def demo_delegation_def demo_entry_def)
  define facts where "facts = \<lparr>cf_grant_id = replicate 16 1, cf_holder_fpr = replicate 32 5,
    cf_holder_verify = replicate 32 6, cf_files = [replicate 16 1], cf_expires_at = 18, cf_tightening = [],
    cf_depth_left = 0, cf_actions = [demo_child]\<rparr>"
  have "narrower demo_child demo_rule = Inr ()" by (simp add: action_eval)
  then have "hands_over demo_crates True 15 (chain_start demo_agent_grant [demo_rule]) demo_delegation facts"
    by (simp add: hands_over_def chain_start_def demo_agent_grant_def demo_delegation_def demo_entry_def facts_def
        digest_eq_ct_def demo_crates_def)
  then have step: "hands_over demo_crates True 15 (chain_start demo_agent_grant [demo_rule])
      (demo_delegation\<lparr>dl_signature := replicate 64 0\<rparr>) facts" by simp
  have signature: "length (dl_signature demo_delegation) = 64"
    "signed_by demo_crates DELEGATION (cf_holder_verify (chain_start demo_agent_grant [demo_rule])) lb (dl_signature demo_delegation)"
    by (simp_all add: demo_delegation_def chain_start_def demo_agent_grant_def signed_by_def demo_crates_def)
  have "chain demo_crates True 15 (chain_start demo_agent_grant [demo_rule]) [dl_signature demo_delegation @ lb] facts"
    by (rule chain_link [OF signature l step chain_end])
  then have ok: "verify_grant_chain_with_actions demo_crates (replicate 32 7) (gr_signature demo_agent_grant @ gb)
      [dl_signature demo_delegation @ lb] (Some (ag_signature demo_action_grant @ ab)) 15 = Inr facts"
    unfolding verify_grant_chain_Inr using g a
    by (intro exI [of _ demo_agent_grant] exI [of _ "[demo_rule]"])
      (simp add: root_actions_Inr demo_agent_grant_def demo_action_grant_def demo_grant_def)
  have "sint (cf_expires_at facts) \<le> sint (gr_expires_at demo_agent_grant)" using chain_attenuates [OF ok] g by auto
  then have "cf_files facts = [replicate 16 1] \<and> cf_actions facts = [demo_child] \<and> sint (cf_expires_at facts) \<le> 20"
    by (simp add: facts_def demo_agent_grant_def)
  with ok show ?thesis by blast
qed

end
