(* ===== verification/OC_Aead.thy ===== *)
theory OC_Aead
  imports OC_Kdf OC_Merkle
begin

text \<open>
  Encryption of the content: buffers for secrets (\<^verbatim>\<open>oc-crypto/src/secret.rs\<close>), sealing and opening of
  chunks and metadata (\<^verbatim>\<open>aead.rs\<close>), the wrapping of the content key (\<^verbatim>\<open>wrap.rs\<close>) and the loop that
  seals a whole stream (\<^verbatim>\<open>stream.rs\<close>).  The cipher and the hash are parameters.  A function that works
  on a buffer of the caller takes the buffer and returns it beside its result.
\<close>

section \<open>Secret buffers\<close>

record SecretBuf =
  sb_bytes :: bytes
  sb_len :: nat

definition sb_with_capacity :: "nat \<Rightarrow> SecretBuf" where
  "sb_with_capacity n = \<lparr>sb_bytes = replicate n 0, sb_len = 0\<rparr>"

definition sb_capacity :: "SecretBuf \<Rightarrow> nat" where
  "sb_capacity b = length (sb_bytes b)"

definition sb_as_slice :: "SecretBuf \<Rightarrow> bytes" where
  "sb_as_slice b = (case get_range (sb_bytes b) 0 (sb_len b) of Some s \<Rightarrow> s | None \<Rightarrow> [])"

text \<open>The memory is zeroed and its whole capacity stays usable.\<close>

definition sb_wipe :: "SecretBuf \<Rightarrow> SecretBuf" where
  "sb_wipe b = b\<lparr>sb_bytes := replicate (sb_capacity b) 0, sb_len := 0\<rparr>"

definition sb_declare_len :: "nat \<Rightarrow> SecretBuf \<Rightarrow> CryptoError + SecretBuf" where
  "sb_declare_len n b = (if n > sb_capacity b then Inl BadLength else Inr (b\<lparr>sb_len := n\<rparr>))"

text \<open>\<^verbatim>\<open>as_declared_mut\<close> hands out the declared part; the caller's writes replace it.\<close>

definition sb_write_declared :: "bytes \<Rightarrow> SecretBuf \<Rightarrow> SecretBuf" where
  "sb_write_declared v b = b\<lparr>sb_bytes := take (sb_len b) v @ drop (sb_len b) (sb_bytes b)\<rparr>"

definition sb_fill_from :: "bytes \<Rightarrow> SecretBuf \<Rightarrow> CryptoError + SecretBuf" where
  "sb_fill_from src b =
     (let b = sb_wipe b in
      bindR (ok_or BadLength (get_range (sb_bytes b) 0 (length src))) (\<lambda>_.
      Inr (b\<lparr>sb_bytes := src @ drop (length src) (sb_bytes b), sb_len := length src\<rparr>)))"

section \<open>Chunks and metadata\<close>

definition AEAD_NONCE_LEN :: nat where "AEAD_NONCE_LEN = 24"
definition AEAD_TAG_LEN :: nat where "AEAD_TAG_LEN = 16"
definition CHUNK_AAD_LEN :: nat where "CHUNK_AAD_LEN = 32"
definition META_AAD_LEN :: nat where "META_AAD_LEN = length PRIVATE_META + 16"

text \<open>An array of a fixed length, filled from a sequence that may be shorter or longer.\<close>

definition array_from :: "nat \<Rightarrow> bytes \<Rightarrow> bytes" where
  "array_from n src = take n src @ replicate (n - length src) 0"

definition chunk_aad :: "bytes \<Rightarrow> u32 \<Rightarrow> AeadAlg \<Rightarrow> bytes" where
  "chunk_aad file_id index alg =
     array_from CHUNK_AAD_LEN (CHUNK @ file_id @ be_bytes 4 (unat index) @ [aead_u8 alg])"

definition metadata_aad :: "bytes \<Rightarrow> bytes" where
  "metadata_aad file_id = array_from META_AAD_LEN (PRIVATE_META @ file_id)"

definition seal_with :: "Crates \<Rightarrow> bytes \<Rightarrow> AeadAlg \<Rightarrow> bytes \<Rightarrow> bytes \<Rightarrow> bytes \<Rightarrow> CryptoError + bytes" where
  "seal_with c key alg nonce plaintext aad =
     (if alg = XChaCha20Poly1305 then ok_or BadLength (xchacha_encrypt c key nonce aad plaintext)
      else Inl UnsupportedAlgorithm)"

text \<open>\<^verbatim>\<open>decrypt_inout_detached\<close> opens the buffer with its tag apart and leaves the plaintext in it.\<close>

definition open_in_place ::
    "Crates \<Rightarrow> bytes \<Rightarrow> AeadAlg \<Rightarrow> bytes \<Rightarrow> bytes \<Rightarrow> bytes \<Rightarrow> bytes \<Rightarrow> CryptoError + bytes" where
  "open_in_place c key alg nonce buffer tag aad =
     (if alg = XChaCha20Poly1305 then ok_or Authentication (xchacha_decrypt c key nonce aad (buffer @ tag))
      else Inl UnsupportedAlgorithm)"

definition aead_open_with :: "Crates \<Rightarrow> bytes \<Rightarrow> AeadAlg \<Rightarrow> bytes \<Rightarrow> bytes \<Rightarrow> bytes \<Rightarrow> CryptoError + bytes" where
  "aead_open_with c key alg nonce ct_and_tag aad =
     (if alg = XChaCha20Poly1305 then ok_or Authentication (xchacha_decrypt c key nonce aad ct_and_tag)
      else Inl UnsupportedAlgorithm)"

text \<open>\<^verbatim>\<open>split_last_chunk::<N>\<close>.\<close>

definition split_last_chunk :: "nat \<Rightarrow> bytes \<Rightarrow> (bytes \<times> bytes) option" where
  "split_last_chunk n bs = (if n \<le> length bs then Some (take (length bs - n) bs, drop (length bs - n) bs) else None)"

definition seal_chunk_with_aad ::
    "Crates \<Rightarrow> bytes \<Rightarrow> AeadAlg \<Rightarrow> u32 \<Rightarrow> bytes \<Rightarrow> bytes \<Rightarrow> bytes \<Rightarrow> CryptoError + (Leaf \<times> bytes)" where
  "seal_chunk_with_aad c key alg index nonce plaintext aad =
     bindR (seal_with c key alg nonce plaintext aad) (\<lambda>sealed.
     bindR (ok_or BadLength (split_last_chunk AEAD_TAG_LEN sealed)) (\<lambda>(ct, tag).
     Inr (leaf_of c index nonce tag ct, sealed)))"

definition seal_chunk_hedged ::
    "Crates \<Rightarrow> bytes \<Rightarrow> AeadAlg \<Rightarrow> bytes \<Rightarrow> u32 \<Rightarrow> bytes \<Rightarrow> bytes \<Rightarrow> CryptoError + (bytes \<times> Leaf \<times> bytes)" where
  "seal_chunk_hedged c key alg file_id index nonce_seed plaintext =
     (let aad = chunk_aad file_id index alg in
      bindR (hedged_nonce c AEAD_NONCE_LEN FRAME_NONCE nonce_seed plaintext aad) (\<lambda>nonce.
      bindR (seal_chunk_with_aad c key alg index nonce plaintext aad) (\<lambda>(leaf, out).
      Inr (nonce, leaf, out))))"

definition seal_chunk ::
    "Crates \<Rightarrow> bytes \<Rightarrow> AeadAlg \<Rightarrow> bytes \<Rightarrow> u32 \<Rightarrow> bytes \<Rightarrow> bytes \<Rightarrow> CryptoError + (Leaf \<times> bytes)" where
  "seal_chunk c key alg file_id index nonce plaintext =
     seal_chunk_with_aad c key alg index nonce plaintext (chunk_aad file_id index alg)"

definition open_chunk_inner ::
    "Crates \<Rightarrow> bytes \<Rightarrow> AeadAlg \<Rightarrow> bytes \<Rightarrow> u32 \<Rightarrow> bytes \<Rightarrow> bytes \<Rightarrow> SecretBuf \<Rightarrow> (CryptoError + Leaf) \<times> SecretBuf" where
  "open_chunk_inner c key alg file_id index nonce ct_and_tag out =
     (case split_last_chunk AEAD_TAG_LEN ct_and_tag of
        None \<Rightarrow> (Inl BadLength, out)
      | Some (ct, tag) \<Rightarrow>
          (let aad = chunk_aad file_id index alg; out = sb_wipe out in
           case get_range (sb_bytes out) 0 (length ct) of
             None \<Rightarrow> (Inl BadLength, out)
           | Some _ \<Rightarrow>
               (let out = out\<lparr>sb_bytes := ct @ drop (length ct) (sb_bytes out)\<rparr> in
                case sb_declare_len (length ct) out of
                  Inl e \<Rightarrow> (Inl e, out)
                | Inr out \<Rightarrow>
                    (case open_in_place c key alg nonce (sb_as_slice out) tag aad of
                       Inl e \<Rightarrow> (Inl e, out)
                     | Inr plaintext \<Rightarrow>
                         (Inr (leaf_of c index nonce tag ct), sb_write_declared plaintext out)))))"

definition open_chunk ::
    "Crates \<Rightarrow> bytes \<Rightarrow> AeadAlg \<Rightarrow> bytes \<Rightarrow> u32 \<Rightarrow> bytes \<Rightarrow> bytes \<Rightarrow> SecretBuf \<Rightarrow> (CryptoError + Leaf) \<times> SecretBuf" where
  "open_chunk c key alg file_id index nonce ct_and_tag out =
     (case open_chunk_inner c key alg file_id index nonce ct_and_tag (sb_wipe out) of
        (Inr leaf, out) \<Rightarrow> (Inr leaf, out)
      | (Inl err, out) \<Rightarrow> (Inl err, sb_wipe out))"

definition seal_metadata_hedged :: "Crates \<Rightarrow> bytes \<Rightarrow> bytes \<Rightarrow> bytes \<Rightarrow> bytes \<Rightarrow> CryptoError + (bytes \<times> bytes)" where
  "seal_metadata_hedged c key file_id nonce_seed plaintext =
     (let aad = metadata_aad file_id in
      bindR (hedged_nonce c AEAD_NONCE_LEN META_NONCE nonce_seed plaintext aad) (\<lambda>nonce.
      bindR (seal_with c key XChaCha20Poly1305 nonce plaintext aad) (\<lambda>ct.
      Inr (nonce, ct))))"

definition seal_metadata :: "Crates \<Rightarrow> bytes \<Rightarrow> bytes \<Rightarrow> bytes \<Rightarrow> bytes \<Rightarrow> CryptoError + bytes" where
  "seal_metadata c key file_id nonce plaintext =
     seal_with c key XChaCha20Poly1305 nonce plaintext (metadata_aad file_id)"

definition open_metadata :: "Crates \<Rightarrow> bytes \<Rightarrow> bytes \<Rightarrow> bytes \<Rightarrow> bytes \<Rightarrow> CryptoError + bytes" where
  "open_metadata c key file_id nonce ct_and_tag =
     aead_open_with c key XChaCha20Poly1305 nonce ct_and_tag (metadata_aad file_id)"

section \<open>Wrapping the content key\<close>

definition WRAP_NONCE_LEN :: nat where "WRAP_NONCE_LEN = 24"
definition WRAP_CEK_LEN :: nat where "WRAP_CEK_LEN = WRAP_NONCE_LEN + SECRET_LEN + 16"

text \<open>The random generator is a parameter: a state and the bytes it yields.\<close>

definition wrap_cek ::
    "Crates \<Rightarrow> (nat \<Rightarrow> 'g \<Rightarrow> bytes \<times> 'g) \<Rightarrow> bytes \<Rightarrow> bytes \<Rightarrow> bytes \<Rightarrow> 'g \<Rightarrow>
     (CryptoError + (bytes \<times> bytes)) \<times> 'g" where
  "wrap_cek c fill_bytes kek cek core_hash rng =
     (case fill_bytes WRAP_NONCE_LEN rng of (nonce_seed, rng) \<Rightarrow>
     (bindR (hedged_nonce c WRAP_NONCE_LEN WRAP_NONCE nonce_seed cek core_hash) (\<lambda>nonce.
      bindR (ok_or Authentication (xchacha_encrypt c kek nonce core_hash cek)) (\<lambda>sealed.
      bindR (ensure (\<not> WRAP_CEK_LEN - WRAP_NONCE_LEN \<noteq> length sealed) BadLength) (\<lambda>_.
      Inr (nonce @ sealed, slot_commitment c kek core_hash)))), rng))"

definition unwrap_cek :: "Crates \<Rightarrow> bytes \<Rightarrow> bytes \<Rightarrow> bytes \<Rightarrow> bytes \<Rightarrow> CryptoError + bytes" where
  "unwrap_cek c kek wrapped commitment core_hash =
     bindR (verify_commitment c (slot_commitment c kek core_hash) commitment) (\<lambda>_.
     let nonce = take WRAP_NONCE_LEN wrapped; sealed = drop WRAP_NONCE_LEN wrapped in
     bindR (ensure (length nonce = WRAP_NONCE_LEN) BadLength) (\<lambda>_.
     bindR (ok_or Authentication (xchacha_decrypt c kek nonce core_hash sealed)) (\<lambda>opened.
     if length opened = SECRET_LEN then Inr opened else Inl BadLength)))"

section \<open>Sealing a stream\<close>

record Sealed =
  se_total_len :: u64
  se_chunk_count :: u32
  se_tree_root :: bytes

datatype 'e StreamError = Crypto CryptoError | Host 'e | TooLarge

text \<open>
  A source is asked for at most so many bytes and gives some, or fails; giving none ends the
  input.  \<open>fill\<close> reads until the buffer is full or the input ends.
\<close>

function fill ::
    "('s \<Rightarrow> nat \<Rightarrow> ('e + bytes) \<times> 's) \<Rightarrow> nat \<Rightarrow> bytes \<Rightarrow> 's \<Rightarrow> ('e StreamError + bytes) \<times> 's" where
  "fill source room filled s =
     (if length filled < room then
        (case source s (room - length filled) of
           (Inl e, s') \<Rightarrow> (Inl (Host e), s')
         | (Inr got, s') \<Rightarrow> if got = [] then (Inr filled, s') else fill source room (filled @ got) s')
      else (Inr filled, s))"
  by pat_completeness auto
termination
  by (relation "measure (\<lambda>(source, room, filled, s). room - length filled)") (auto intro!: diff_less_mono2)

declare fill.simps [simp del]

record ('s, 'g, 'k) StreamState =
  ss_source :: 's
  ss_rng :: 'g
  ss_sink :: 'k

text \<open>One turn of the loop after the buffer was filled with \<open>piece\<close>: the chunk and its leaf.\<close>

definition seal_piece ::
    "Crates \<Rightarrow> (nat \<Rightarrow> 'g \<Rightarrow> bytes \<times> 'g) \<Rightarrow> ('k \<Rightarrow> bytes \<Rightarrow> ('e + unit) \<times> 'k) \<Rightarrow> bytes \<Rightarrow> AeadAlg \<Rightarrow> bytes \<Rightarrow>
     u32 \<Rightarrow> bytes \<Rightarrow> ('s, 'g, 'k) StreamState \<Rightarrow> ('e StreamError + Leaf) \<times> ('s, 'g, 'k) StreamState" where
  "seal_piece c fill_bytes sink key alg file_id index piece st =
     (case fill_bytes AEAD_NONCE_LEN (ss_rng st) of (nonce_seed, rng) \<Rightarrow>
      let st = st\<lparr>ss_rng := rng\<rparr> in
      case seal_chunk_hedged c key alg file_id index nonce_seed piece of
        Inl e \<Rightarrow> (Inl (Crypto e), st)
      | Inr (nonce, leaf, framed) \<Rightarrow>
          (case sink (ss_sink st) nonce of
             (Inl e, k) \<Rightarrow> (Inl (Host e), st\<lparr>ss_sink := k\<rparr>)
           | (Inr _, k) \<Rightarrow>
               (case sink k framed of
                  (Inl e, k) \<Rightarrow> (Inl (Host e), st\<lparr>ss_sink := k\<rparr>)
                | (Inr _, k) \<Rightarrow> (Inr leaf, st\<lparr>ss_sink := k\<rparr>))))"

function seal_loop ::
    "Crates \<Rightarrow> (nat \<Rightarrow> 'g \<Rightarrow> bytes \<times> 'g) \<Rightarrow> ('s \<Rightarrow> nat \<Rightarrow> ('e + bytes) \<times> 's) \<Rightarrow> ('k \<Rightarrow> bytes \<Rightarrow> ('e + unit) \<times> 'k) \<Rightarrow>
     bytes \<Rightarrow> AeadAlg \<Rightarrow> bytes \<Rightarrow> nat \<Rightarrow> Leaf list \<Rightarrow> u64 \<Rightarrow> u32 \<Rightarrow> ('s, 'g, 'k) StreamState \<Rightarrow>
     ('e StreamError + Leaf list \<times> u64 \<times> u32) \<times> ('s, 'g, 'k) StreamState" where
  "seal_loop c fill_bytes source sink key alg file_id room leaves total_len index st =
     (case fill source room [] (ss_source st) of
        (Inl e, s) \<Rightarrow> (Inl e, st\<lparr>ss_source := s\<rparr>)
      | (Inr piece, s) \<Rightarrow>
          (let st = st\<lparr>ss_source := s\<rparr> in
           if length piece > room then (Inl (Crypto BadLength), st)
           else if piece = [] \<and> index > 0 then (Inr (leaves, total_len, index), st)
           else
             (case seal_piece c fill_bytes sink key alg file_id index piece st of
                (Inl e, st) \<Rightarrow> (Inl e, st)
              | (Inr leaf, st) \<Rightarrow>
                  (case checked_add total_len (word_of_nat (length piece)) of
                     None \<Rightarrow> (Inl TooLarge, st)
                   | Some total_len \<Rightarrow>
                       (case checked_add index 1 of
                          None \<Rightarrow> (Inl TooLarge, st)
                        | Some index \<Rightarrow>
                            if length piece < room then (Inr (leaves @ [leaf], total_len, index), st)
                            else seal_loop c fill_bytes source sink key alg file_id room (leaves @ [leaf]) total_len index st)))))"
  by pat_completeness auto
termination
  by (relation "measure (\<lambda>(c, fill_bytes, source, sink, key, alg, file_id, room, leaves, total_len, index, st).
      4294967296 - unat index)")
    (auto simp: checked_add_def unat_word_ariths split: if_splits)

declare seal_loop.simps [simp del]

definition seal_chunks ::
    "Crates \<Rightarrow> (nat \<Rightarrow> 'g \<Rightarrow> bytes \<times> 'g) \<Rightarrow> ('s \<Rightarrow> nat \<Rightarrow> ('e + bytes) \<times> 's) \<Rightarrow> ('k \<Rightarrow> bytes \<Rightarrow> ('e + unit) \<times> 'k) \<Rightarrow>
     bytes \<Rightarrow> AeadAlg \<Rightarrow> bytes \<Rightarrow> u32 \<Rightarrow> ('s, 'g, 'k) StreamState \<Rightarrow>
     ('e StreamError + Sealed) \<times> ('s, 'g, 'k) StreamState" where
  "seal_chunks c fill_bytes source sink key alg file_id chunk_size st =
     (if unat chunk_size = 0 then (Inl (Crypto BadLength), st)
      else
        (case seal_loop c fill_bytes source sink key alg file_id (unat chunk_size) [] 0 0 st of
           (Inl e, st) \<Rightarrow> (Inl e, st)
         | (Inr (leaves, total_len, index), st) \<Rightarrow>
             (case build c leaves of
                Inl e \<Rightarrow> (Inl (Crypto e), st)
              | Inr tree \<Rightarrow>
                  (Inr \<lparr>se_total_len = total_len, se_chunk_count = index, se_tree_root = root c tree\<rparr>, st))))"

section \<open>Buffers and associated data\<close>

lemma sb_wipe_simps [simp]:
  "sb_bytes (sb_wipe b) = replicate (sb_capacity b) 0" "sb_len (sb_wipe b) = 0" "sb_capacity (sb_wipe b) = sb_capacity b"
  "sb_wipe (sb_wipe b) = sb_wipe b"
  by (simp_all add: sb_wipe_def sb_capacity_def)

lemma array_from_exact: "length src = n \<Longrightarrow> array_from n src = src"
  by (simp add: array_from_def)

lemma chunk_aad_exact:
  "length file_id = 16 \<Longrightarrow> chunk_aad file_id index alg = CHUNK @ file_id @ be_bytes 4 (unat index) @ [aead_u8 alg]"
  unfolding chunk_aad_def by (rule array_from_exact) (simp add: CHUNK_AAD_LEN_def CHUNK_def ascii_def)

lemma metadata_aad_exact: "length file_id = 16 \<Longrightarrow> metadata_aad file_id = PRIVATE_META @ file_id"
  unfolding metadata_aad_def by (rule array_from_exact) (simp add: META_AAD_LEN_def)

lemma aead_u8_inj: "aead_u8 a = aead_u8 b \<longleftrightarrow> a = b"
  by (cases a; cases b) simp_all

lemma chunk_aad_inj:
  assumes "length f = 16" and "length g = 16" and "chunk_aad f i a = chunk_aad g j b"
  shows "f = g \<and> i = j \<and> a = b"
proof -
  from assms have "f = g" and "be_bytes 4 (unat i) = be_bytes 4 (unat j)" and "a = b"
    by (simp_all add: chunk_aad_exact append_eq_append_conv aead_u8_inj)
  moreover have "unat i < 4294967296" "unat j < 4294967296" using unsigned_less [of i] unsigned_less [of j] by simp_all
  ultimately show ?thesis using be_bytes_4_eq [of "unat i" "unat j"] by (simp add: word_unat_eq_iff)
qed

lemma split_last_chunk_eq: "split_last_chunk n bs = Some (ct, tag) \<longleftrightarrow> bs = ct @ tag \<and> length tag = n"
  by (auto simp: split_last_chunk_def)

section \<open>One chunk\<close>

lemma seal_chunk_hedged_Inr:
  "seal_chunk_hedged c key alg fid i seed p = Inr (nonce, leaf, out) \<longleftrightarrow>
     alg = XChaCha20Poly1305 \<and>
     hedged_nonce c AEAD_NONCE_LEN FRAME_NONCE seed p (chunk_aad fid i alg) = Inr nonce \<and>
     xchacha_encrypt c key nonce (chunk_aad fid i alg) p = Some out \<and>
     (\<exists>ct tag. out = ct @ tag \<and> length tag = 16 \<and> leaf = leaf_of c i nonce tag ct)"
  by (auto simp: seal_chunk_hedged_def seal_chunk_with_aad_def seal_with_def bindR_eq_Inr ok_or_eq_Inr
      split_last_chunk_eq AEAD_TAG_LEN_def Let_def split: if_splits)

lemma open_chunk_inner_capacity:
  "open_chunk_inner c key alg fid i nonce ct_and_tag buf = (Inl e, out) \<Longrightarrow> sb_capacity out = sb_capacity buf"
  by (auto simp: open_chunk_inner_def sb_declare_len_def sb_wipe_def sb_capacity_def get_range_def Let_def
      split: prod.splits sum.splits option.splits if_splits)

lemma slot_commitment_length: "hmac_total c \<Longrightarrow> length (slot_commitment c kek h) = 32"
  unfolding slot_commitment_def kdf_hmac_sha256_def hmac_total_def by (metis option.simps(5))

lemma open_sealed:
  assumes "aead_correct c" and "xchacha_encrypt c key nonce (chunk_aad fid i XChaCha20Poly1305) p = Some (ct @ tag)"
    and "length tag = 16" and "length p \<le> sb_capacity buf"
  shows "\<exists>out. open_chunk c key XChaCha20Poly1305 fid i nonce (ct @ tag) buf = (Inr (leaf_of c i nonce tag ct), out) \<and>
     sb_as_slice out = p"
proof -
  have a: "length (ct @ tag) = length p + 16" "xchacha_decrypt c key nonce (chunk_aad fid i XChaCha20Poly1305) (ct @ tag) = Some p"
    using assms(1,2) unfolding aead_correct_def by blast+
  then have len: "length ct = length p" using assms(3) by simp
  have split: "split_last_chunk AEAD_TAG_LEN (ct @ tag) = Some (ct, tag)"
    using assms(3) by (simp add: split_last_chunk_eq AEAD_TAG_LEN_def)
  have "length ct \<le> sb_capacity buf" using len assms(4) by simp
  then show ?thesis
    using a(2) len
    by (simp add: open_chunk_def open_chunk_inner_def split Let_def get_range_def sb_declare_len_def
        sb_as_slice_def sb_write_declared_def open_in_place_def sb_capacity_def sb_wipe_def)
qed

section \<open>Streams\<close>

text \<open>
  What a reader promises: \<open>left s\<close> is the input that is still to come; asked for at least one byte,
  the reader gives a piece of it of at most that length, and none only at the end.
\<close>

definition honest_source :: "('s \<Rightarrow> nat \<Rightarrow> ('e + bytes) \<times> 's) \<Rightarrow> ('s \<Rightarrow> bytes) \<Rightarrow> bool" where
  "honest_source source left \<longleftrightarrow>
     (\<forall>s n. 0 < n \<longrightarrow> (\<exists>d s'. source s n = (Inr d, s') \<and> left s = d @ left s' \<and> length d \<le> n \<and> (d = [] \<longrightarrow> left s = [])))"

lemma fill_honest:
  assumes "honest_source source left" and "length filled \<le> room"
  shows "\<exists>s'. fill source room filled s = (Inr (filled @ take (room - length filled) (left s)), s') \<and>
     left s' = drop (room - length filled) (left s)"
  using assms(2)
proof (induction "room - length filled" arbitrary: filled s rule: less_induct)
  case less
  show ?case
  proof (cases "length filled < room")
    case True
    then obtain d s' where d: "source s (room - length filled) = (Inr d, s')" "left s = d @ left s'"
      "length d \<le> room - length filled" "d = [] \<longrightarrow> left s = []"
      using assms(1) unfolding honest_source_def by (meson zero_less_diff)
    show ?thesis
    proof (cases "d = []")
      case True
      with d \<open>length filled < room\<close> show ?thesis by (subst fill.simps) simp
    next
      case False
      then have "room - length (filled @ d) < room - length filled" using d(3) True by (simp add: diff_less_mono2)
      moreover have "length (filled @ d) \<le> room" using d(3) True by simp
      ultimately obtain s'' where "fill source room (filled @ d) s' =
          (Inr ((filled @ d) @ take (room - length (filled @ d)) (left s')), s'')"
        "left s'' = drop (room - length (filled @ d)) (left s')"
        using less.hyps by blast
      with d False True show ?thesis by (subst fill.simps) simp
    qed
  next
    case False
    with less.prems show ?thesis by (subst fill.simps) simp
  qed
qed

text \<open>The pieces a stream is cut into: all of them full but the last, and one empty piece for an empty stream.\<close>

function pieces :: "nat \<Rightarrow> bytes \<Rightarrow> bytes list" where
  "pieces n pt =
     (if n = 0 \<or> length pt < n then [pt]
      else take n pt # (if drop n pt = [] then [] else pieces n (drop n pt)))"
  by pat_completeness auto
termination by (relation "measure (\<lambda>(n, pt). length pt)") auto

declare pieces.simps [simp del]

definition sealed_chunk :: "Crates \<Rightarrow> bytes \<Rightarrow> AeadAlg \<Rightarrow> bytes \<Rightarrow> u32 \<Rightarrow> bytes \<Rightarrow> bytes \<times> Leaf \<times> bytes \<Rightarrow> bool" where
  "sealed_chunk c key alg fid i p nlo \<longleftrightarrow> (\<exists>seed. seal_chunk_hedged c key alg fid i seed p = Inr nlo)"

definition log_sink :: "bytes \<Rightarrow> bytes \<Rightarrow> ('e + unit) \<times> bytes" where
  "log_sink k bs = (Inr (), k @ bs)"

definition aead_total :: "Crates \<Rightarrow> bool" where
  "aead_total c \<longleftrightarrow> (\<forall>k n a m. length m < 4294967296 \<longrightarrow> (\<exists>ct. xchacha_encrypt c k n a m = Some ct))"

text \<open>A ciphertext is its plaintext and a tag of sixteen bytes.\<close>

definition decrypt_strips_tag :: "Crates \<Rightarrow> bool" where
  "decrypt_strips_tag c \<longleftrightarrow> (\<forall>k n a ct p. xchacha_decrypt c k n a ct = Some p \<longrightarrow> length ct = length p + 16)"

definition frame_of :: "bytes \<times> Leaf \<times> bytes \<Rightarrow> bytes" where
  "frame_of nlo = (case nlo of (nonce, leaf, out) \<Rightarrow> nonce @ out)"

abbreviation leaf_part :: "bytes \<times> Leaf \<times> bytes \<Rightarrow> Leaf" where
  "leaf_part nlo \<equiv> fst (snd nlo)"

lemma seal_chunk_hedged_total:
  assumes "aead_correct c" and "aead_total c" and "hkdf_total c" and "length fid = 16" and "length p < 4294967296"
  shows "\<exists>nonce leaf out. seal_chunk_hedged c key XChaCha20Poly1305 fid i seed p = Inr (nonce, leaf, out) \<and>
     length nonce = 24 \<and> length out = length p + 16"
proof -
  have "length (chunk_aad fid i XChaCha20Poly1305) = 32"
    using assms(4) by (simp add: chunk_aad_exact CHUNK_def ascii_def)
  then obtain ikm where ikm: "hedged_input p (chunk_aad fid i XChaCha20Poly1305) = Inr ikm"
    using assms(5) by (simp add: hedged_input_Inr)
  have "\<exists>okm. hkdf_sha256 c seed ikm FRAME_NONCE 24 = Some okm \<and> length okm = 24"
    using assms(3) by (auto simp: hkdf_total_def)
  then obtain nonce where nonce: "hkdf_sha256 c seed ikm FRAME_NONCE 24 = Some nonce" "length nonce = 24" by blast
  obtain out where out: "xchacha_encrypt c key nonce (chunk_aad fid i XChaCha20Poly1305) p = Some out"
    using assms(2,5) unfolding aead_total_def by blast
  then have len: "length out = length p + 16" using assms(1) unfolding aead_correct_def by blast
  obtain ct tag where "out = ct @ tag" "length tag = 16"
    using len by (metis add_diff_cancel_left' append_take_drop_id length_drop)
  then show ?thesis
    unfolding seal_chunk_hedged_Inr using ikm nonce out len
    by (auto simp: hedged_nonce_def AEAD_NONCE_LEN_def)
qed

definition rest_pieces :: "nat \<Rightarrow> u32 \<Rightarrow> bytes \<Rightarrow> bytes list" where
  "rest_pieces n index pt = (if pt = [] \<and> index > 0 then [] else pieces n pt)"

text \<open>One turn of the loop: a chunk with the next piece of the input, and on while the piece was full.\<close>

lemma seal_loop_turn:
  fixes left :: "'s \<Rightarrow> bytes" and st :: "('s, 'g, bytes) StreamState"
  assumes "aead_correct c" and "aead_total c" and "hkdf_total c" and "length fid = 16"
    and "0 < room" and "room < 4294967296" and "honest_source source left"
    and "\<not> (left (ss_source st) = [] \<and> index > 0)"
    and "unat index + 1 < 4294967296"
    and "unat tot + length (take room (left (ss_source st))) < 18446744073709551616"
  defines "pc \<equiv> take room (left (ss_source st))"
  shows "\<exists>nlo st1. sealed_chunk c key XChaCha20Poly1305 fid index pc nlo \<and> length (fst nlo) = 24 \<and>
     left (ss_source st1) = drop room (left (ss_source st)) \<and> ss_sink st1 = ss_sink st @ frame_of nlo \<and>
     seal_loop c fill_bytes source log_sink key XChaCha20Poly1305 fid room leaves tot index st =
       (if length pc < room then (Inr (leaves @ [leaf_part nlo], tot + word_of_nat (length pc), index + 1), st1)
        else seal_loop c fill_bytes source log_sink key XChaCha20Poly1305 fid room (leaves @ [leaf_part nlo])
          (tot + word_of_nat (length pc)) (index + 1) st1)"
proof -
  let ?pt = "left (ss_source st)" and ?alg = XChaCha20Poly1305
  have pc: "length pc \<le> room" "length pc < 4294967296" "pc = [] \<longleftrightarrow> ?pt = []" "length pc \<le> length ?pt"
    using assms(5,6) by (auto simp: pc_def)
  obtain s' where fill: "fill source room [] (ss_source st) = (Inr pc, s')" "left s' = drop room ?pt"
    using fill_honest [OF assms(7), of "[]" room "ss_source st"] by (auto simp: pc_def)
  obtain seed rng where rng: "fill_bytes AEAD_NONCE_LEN (ss_rng st) = (seed, rng)" by (meson surj_pair)
  obtain nonce leaf out where sealed: "seal_chunk_hedged c key ?alg fid index seed pc = Inr (nonce, leaf, out)"
    "length nonce = 24" using seal_chunk_hedged_total [OF assms(1-4) pc(2)] by blast
  define st1 where "st1 = st\<lparr>ss_source := s', ss_rng := rng, ss_sink := ss_sink st @ nonce @ out\<rparr>"
  have piece: "seal_piece c fill_bytes log_sink key ?alg fid index pc (st\<lparr>ss_source := s'\<rparr>) = (Inr leaf, st1)"
    by (simp add: seal_piece_def rng sealed(1) log_sink_def st1_def Let_def)
  have add: "checked_add tot (word_of_nat (length pc)) = Some (tot + word_of_nat (length pc))"
    using assms(10) by (auto simp: pc_def checked_add_def unat_of_nat take_bit_nat_eq_self)
  have inc: "checked_add index 1 = Some (index + 1)" using assms(9) by (simp add: checked_add_def)
  have "seal_loop c fill_bytes source log_sink key ?alg fid room leaves tot index st =
      (if length pc < room then (Inr (leaves @ [leaf], tot + word_of_nat (length pc), index + 1), st1)
       else seal_loop c fill_bytes source log_sink key ?alg fid room (leaves @ [leaf])
         (tot + word_of_nat (length pc)) (index + 1) st1)"
    using assms(5,8) pc(1,3) by (subst seal_loop.simps) (auto simp: fill piece add inc Let_def)
  with sealed fill(2) show ?thesis
    by (intro exI [of _ "(nonce, leaf, out)"] exI [of _ st1]) (auto simp: sealed_chunk_def frame_of_def st1_def)
qed

lemma rest_pieces_step:
  assumes "0 < room" and "\<not> (pt = [] \<and> index > 0)"
  shows "rest_pieces room index pt = (if length pt < room then [pt] else take room pt # rest_pieces room 1 (drop room pt))"
  using assms by (simp add: rest_pieces_def pieces.simps [of room pt])

lemma rest_pieces_pos: "index > 0 \<Longrightarrow> rest_pieces room index pt = rest_pieces room 1 pt"
  by (simp add: rest_pieces_def)

definition seals_pieces ::
    "Crates \<Rightarrow> bytes \<Rightarrow> bytes \<Rightarrow> u32 \<Rightarrow> bytes list \<Rightarrow> (bytes \<times> Leaf \<times> bytes) list \<Rightarrow> bool" where
  "seals_pieces c key fid index ps ss \<longleftrightarrow> length ss = length ps \<and>
     (\<forall>j < length ss. sealed_chunk c key XChaCha20Poly1305 fid (index + word_of_nat j) (ps ! j) (ss ! j) \<and>
        length (fst (ss ! j)) = 24)"

lemma seals_pieces_simps [simp]:
  "seals_pieces c key fid i [] [] = True"
  "seals_pieces c key fid i (p # ps) (s # ss) \<longleftrightarrow>
     sealed_chunk c key XChaCha20Poly1305 fid i p s \<and> length (fst s) = 24 \<and> seals_pieces c key fid (i + 1) ps ss"
  by (auto simp: seals_pieces_def All_less_Suc2 add_ac)

text \<open>The loop seals the pieces of the input one after the other, under consecutive numbers.\<close>

lemma seal_loop_honest:
  assumes "aead_correct c" and "aead_total c" and "hkdf_total c" and "length fid = 16"
    and "0 < room" and "room < 4294967296" and "honest_source source left"
    and "unat index + length (rest_pieces room index (left (ss_source st))) < 4294967296"
    and "unat tot + length (left (ss_source st)) < 18446744073709551616"
  shows "\<exists>ss st'. seal_loop c fill_bytes source log_sink key XChaCha20Poly1305 fid room leaves tot index st =
       (Inr (leaves @ map leaf_part ss, tot + word_of_nat (length (left (ss_source st))),
          index + word_of_nat (length ss)), st') \<and>
     seals_pieces c key fid index (rest_pieces room index (left (ss_source st))) ss \<and>
     ss_sink st' = ss_sink st @ concat (map frame_of ss)"
  using assms(8,9)
proof (induction "length (left (ss_source st))" arbitrary: leaves tot index st rule: less_induct)
  case less
  let ?pt = "left (ss_source st)" and ?loop = "seal_loop c fill_bytes source log_sink key XChaCha20Poly1305 fid room"
  show ?case
  proof (cases "?pt = [] \<and> index > 0")
    case True
    moreover obtain s' where "fill source room [] (ss_source st) = (Inr (take room ?pt), s')"
      using fill_honest [OF assms(7), of "[]" room "ss_source st"] by auto
    ultimately show ?thesis
      by (intro exI [of _ "[]"] exI [of _ "st\<lparr>ss_source := s'\<rparr>"], subst seal_loop.simps)
        (simp add: rest_pieces_def Let_def)
  next
    case False
    note rp = rest_pieces_step [OF assms(5) False]
    have inc: "unat index + 1 < 4294967296" "unat (index + 1) = unat index + 1"
      using less.prems(1) by (auto simp: rp unat_word_ariths split: if_splits)
    have tot: "unat tot + length (take room ?pt) < 18446744073709551616"
      "unat (tot + word_of_nat (length (take room ?pt))) = unat tot + length (take room ?pt)"
      using less.prems(2) by (auto simp: unat_word_ariths unat_of_nat take_bit_nat_eq_self)
    obtain nlo st1 where now: "sealed_chunk c key XChaCha20Poly1305 fid index (take room ?pt) nlo" "length (fst nlo) = 24"
      and src: "left (ss_source st1) = drop room ?pt" and sink: "ss_sink st1 = ss_sink st @ frame_of nlo"
      and step: "?loop leaves tot index st =
        (if length (take room ?pt) < room
         then (Inr (leaves @ [leaf_part nlo], tot + word_of_nat (length (take room ?pt)), index + 1), st1)
         else ?loop (leaves @ [leaf_part nlo]) (tot + word_of_nat (length (take room ?pt))) (index + 1) st1)"
      using seal_loop_turn [OF assms(1-7) False inc(1) tot(1)] by blast
    show ?thesis
    proof (cases "length ?pt < room")
      case True
      then show ?thesis using now sink step
        by (intro exI [of _ "[nlo]"] exI [of _ st1]) (simp add: rp)
    next
      case long: False
      have pos: "index + 1 > 0" using inc(2) by (metis Suc_eq_plus1 nat.distinct(1) unat_0 word_gt_0)
      note r1 = rest_pieces_pos [OF pos]
      have shorter: "length (left (ss_source st1)) < length ?pt" using long assms(5) by (simp add: src)
      have bound: "unat (index + 1) + length (rest_pieces room (index + 1) (left (ss_source st1))) < 4294967296"
        "unat (tot + word_of_nat (length (take room ?pt))) + length (left (ss_source st1)) < 18446744073709551616"
        using less.prems long tot(2) inc(2) by (auto simp: rp src r1)
      obtain ss st' where ih: "?loop (leaves @ [leaf_part nlo]) (tot + word_of_nat (length (take room ?pt))) (index + 1) st1 =
          (Inr ((leaves @ [leaf_part nlo]) @ map leaf_part ss,
            (tot + word_of_nat (length (take room ?pt))) + word_of_nat (length (drop room ?pt)),
            (index + 1) + word_of_nat (length ss)), st')"
        "seals_pieces c key fid (index + 1) (rest_pieces room 1 (drop room ?pt)) ss"
        "ss_sink st' = ss_sink st1 @ concat (map frame_of ss)"
        using less.hyps [OF shorter bound, of "leaves @ [leaf_part nlo]"] unfolding src r1 by blast
      have sum: "word_of_nat (length (take room ?pt)) + word_of_nat (length (drop room ?pt)) = (word_of_nat (length ?pt) :: u64)"
        using long by (simp flip: of_nat_add)
      have "?loop leaves tot index st = (Inr (leaves @ map leaf_part (nlo # ss), tot + word_of_nat (length ?pt),
          index + word_of_nat (length (nlo # ss))), st')"
        using step long ih(1) sum by (simp add: add.assoc)
      then show ?thesis using now sink long ih(2,3) by (intro exI [of _ "nlo # ss"] exI [of _ st']) (simp add: rp)
    qed
  qed
qed

lemma concat_pieces: "0 < n \<Longrightarrow> concat (pieces n pt) = pt"
proof (induction n pt rule: pieces.induct)
  case (1 n pt)
  then show ?case by (subst pieces.simps) auto
qed

lemma pieces_bounded: "0 < n \<Longrightarrow> p \<in> set (pieces n pt) \<Longrightarrow> length p \<le> n"
proof (induction n pt rule: pieces.induct)
  case (1 n pt)
  then show ?case by (subst (asm) (2) pieces.simps) (auto split: if_splits)
qed

lemma pieces_not_Nil [simp]: "pieces n pt \<noteq> []"
  by (subst pieces.simps) simp

lemma sealed_chunk_opens:
  assumes "aead_correct c" and "sealed_chunk c key alg fid i p nlo" and "length p \<le> sb_capacity buf"
  shows "\<exists>out. open_chunk c key alg fid i (fst nlo) (snd (snd nlo)) buf = (Inr (leaf_part nlo), out) \<and> sb_as_slice out = p"
proof -
  obtain nonce leaf o1 where nlo: "nlo = (nonce, leaf, o1)" by (cases nlo)
  then obtain seed where "seal_chunk_hedged c key alg fid i seed p = Inr (nonce, leaf, o1)"
    using assms(2) by (auto simp: sealed_chunk_def)
  then obtain ct tag where "alg = XChaCha20Poly1305" "xchacha_encrypt c key nonce (chunk_aad fid i alg) p = Some (ct @ tag)"
    "length tag = 16" "o1 = ct @ tag" "leaf = leaf_of c i nonce tag ct"
    by (auto simp: seal_chunk_hedged_Inr)
  with open_sealed [OF assms(1)] assms(3) nlo show ?thesis by auto
qed

lemma list_source_honest: "honest_source (\<lambda>s n. (Inr (take n s), drop n s)) (\<lambda>s. s)"
  by (auto simp: honest_source_def)

lemma demo_aead_total: "aead_total demo_crates"
  by (simp add: aead_total_def demo_crates_def)

lemma demo_decrypt_strips_tag: "decrypt_strips_tag demo_crates"
  by (simp add: decrypt_strips_tag_def demo_crates_def)

lemma wrap_cek_cases:
  assumes "aead_correct c" and "aead_total c" and "hkdf_total c" and "ct_eq_sound c" and "hmac_total c"
    and "length cek = SECRET_LEN" and "length core_hash = 32"
  shows "\<exists>wrapped. fst (wrap_cek c fill_bytes kek cek core_hash rng) = Inr (wrapped, slot_commitment c kek core_hash) \<and>
     length wrapped = WRAP_CEK_LEN \<and>
     unwrap_cek c kek wrapped (slot_commitment c kek core_hash) core_hash = Inr cek \<and>
     (\<forall>kek' commitment w h. length commitment = 32 \<longrightarrow> commitment \<noteq> slot_commitment c kek' h \<longrightarrow> unwrap_cek c kek' w commitment h = Inl Authentication)"
proof -
  let ?seed = "fst (fill_bytes WRAP_NONCE_LEN rng)"
  have cek: "length cek = 32" using assms(6) by (simp add: SECRET_LEN_def)
  then obtain ikm where ikm: "hedged_input cek core_hash = Inr ikm" using assms(7) by (simp add: hedged_input_Inr)
  have "\<exists>nonce. hkdf_sha256 c ?seed ikm WRAP_NONCE 24 = Some nonce \<and> length nonce = 24"
    using assms(3) by (auto simp: hkdf_total_def)
  then obtain nonce where nonce: "hedged_nonce c WRAP_NONCE_LEN WRAP_NONCE ?seed cek core_hash = Inr nonce" "length nonce = 24"
    using ikm by (auto simp: hedged_nonce_def WRAP_NONCE_LEN_def)
  obtain sealed where sealed: "xchacha_encrypt c kek nonce core_hash cek = Some sealed"
    using assms(2) cek unfolding aead_total_def by (metis numeral_less_iff semiring_norm(76) semiring_norm(78) semiring_norm(80))
  then have "length sealed = 48" "xchacha_decrypt c kek nonce core_hash sealed = Some cek"
    using assms(1) cek unfolding aead_correct_def by force+
  with nonce sealed cek assms(4) slot_commitment_length [OF assms(5)] show ?thesis
    by (intro exI [of _ "nonce @ sealed"])
      (simp add: wrap_cek_def split_beta unwrap_cek_def Let_def WRAP_CEK_LEN_def WRAP_NONCE_LEN_def SECRET_LEN_def
        verify_commitment_def ct_eq_sound_def)
qed

section \<open>Properties\<close>

text \<open>
  C23.  A stream sealed chunk by chunk opens again chunk by chunk.  Let the source be honest (it gives
  its input in order and stops only at the end, in pieces of any size), the chunk size positive,
  the number of chunks below \<open>2 ^ 32\<close> and the input below \<open>2 ^ 64\<close> bytes.  Then \<open>seal_chunks\<close>
  succeeds; it writes one frame (nonce and ciphertext) per piece and nothing else; the pieces are
  the input, cut at the chunk size; the reported length, count and tree root are those of the
  pieces and of their leaves; and every frame, opened under its position with any buffer of the
  chunk size, gives its piece back and the leaf that is in the tree.
\<close>

theorem sealed_stream_opens:
  assumes "aead_correct c" and "aead_total c" and "hkdf_total c" and "length fid = 16"
    and "chunk_size \<noteq> 0" and "honest_source source left"
    and "length (pieces (unat chunk_size) (left (ss_source st))) < 4294967296"
    and "length (left (ss_source st)) < 18446744073709551616"
  shows "\<exists>ss sealed tree st'.
     seal_chunks c fill_bytes source log_sink key XChaCha20Poly1305 fid chunk_size st = (Inr sealed, st') \<and>
     ss_sink st' = ss_sink st @ concat (map frame_of ss) \<and>
     concat (pieces (unat chunk_size) (left (ss_source st))) = left (ss_source st) \<and>
     length ss = length (pieces (unat chunk_size) (left (ss_source st))) \<and>
     unat (se_total_len sealed) = length (left (ss_source st)) \<and> unat (se_chunk_count sealed) = length ss \<and>
     build c (map leaf_part ss) = Inr tree \<and> se_tree_root sealed = root c tree \<and>
     (\<forall>j buf. j < length ss \<longrightarrow> unat chunk_size \<le> sb_capacity buf \<longrightarrow>
        (\<exists>out. open_chunk c key XChaCha20Poly1305 fid (word_of_nat j) (fst (ss ! j)) (snd (snd (ss ! j))) buf =
            (Inr (leaf_part (ss ! j)), out) \<and>
          sb_as_slice out = pieces (unat chunk_size) (left (ss_source st)) ! j))"
proof -
  let ?pt = "left (ss_source st)"
  let ?ps = "pieces (unat chunk_size) ?pt"
  have room: "0 < unat chunk_size" "unat chunk_size < 4294967296"
    using assms(5) unsigned_less [of chunk_size] by (simp_all add: unat_gt_0)
  have rp: "rest_pieces (unat chunk_size) 0 ?pt = ?ps" by (simp add: rest_pieces_def)
  obtain ss st' where loop: "seal_loop c fill_bytes source log_sink key XChaCha20Poly1305 fid (unat chunk_size) [] 0 0 st =
      (Inr (map leaf_part ss, word_of_nat (length ?pt), word_of_nat (length ss)), st')"
    and ss: "seals_pieces c key fid 0 ?ps ss" and sink: "ss_sink st' = ss_sink st @ concat (map frame_of ss)"
    using seal_loop_honest [OF assms(1-4) room assms(6), of 0 st 0 fill_bytes key "[]"] assms(7,8)
    by (auto simp: rp)
  have len: "length ss = length ?ps" using ss by (simp add: seals_pieces_def)
  then have "map leaf_part ss \<noteq> []" using pieces_not_Nil by force
  then obtain tree where tree: "build c (map leaf_part ss) = Inr tree" using assms(7) len by (auto simp: build_Inr)
  have opens: "\<exists>out. open_chunk c key XChaCha20Poly1305 fid (word_of_nat j) (fst (ss ! j)) (snd (snd (ss ! j))) buf =
      (Inr (leaf_part (ss ! j)), out) \<and> sb_as_slice out = ?ps ! j"
    if "j < length ss" "unat chunk_size \<le> sb_capacity buf" for j and buf :: SecretBuf
  proof (rule sealed_chunk_opens [OF assms(1)])
    show "sealed_chunk c key XChaCha20Poly1305 fid (word_of_nat j) (?ps ! j) (ss ! j)"
      using ss that(1) by (simp add: seals_pieces_def)
    have "length (?ps ! j) \<le> unat chunk_size" using pieces_bounded [OF room(1) nth_mem] that(1) len by simp
    then show "length (?ps ! j) \<le> sb_capacity buf" using that(2) by simp
  qed
  have "seal_chunks c fill_bytes source log_sink key XChaCha20Poly1305 fid chunk_size st =
      (Inr \<lparr>se_total_len = word_of_nat (length ?pt), se_chunk_count = word_of_nat (length ss), se_tree_root = root c tree\<rparr>, st')"
    using room(1) by (simp add: seal_chunks_def loop tree)
  with sink tree opens len concat_pieces [OF room(1)] assms(7,8) show ?thesis
    by (intro exI [of _ ss] exI conjI) (auto simp: unat_of_nat take_bit_nat_eq_self)
qed

theorem sealed_stream_opens_witness:
  "\<exists>ss sealed tree st'.
     seal_chunks demo_crates (\<lambda>n g. (replicate n g, g + 1)) (\<lambda>s n. (Inr (take n s) :: unit + bytes, drop n s)) log_sink
       [7] XChaCha20Poly1305 (replicate 16 1) 2 \<lparr>ss_source = [1, 2, 3], ss_rng = 5, ss_sink = []\<rparr> = (Inr sealed, st') \<and>
     ss_sink st' = concat (map frame_of ss) \<and> length ss = 2 \<and> unat (se_total_len sealed) = 3 \<and>
     unat (se_chunk_count sealed) = 2 \<and> build demo_crates (map leaf_part ss) = Inr tree \<and>
     se_tree_root sealed = root demo_crates tree"
proof -
  have p: "pieces 2 [1, 2, 3 :: byte] = [[1, 2], [3]]"
    by (subst pieces.simps, simp, subst pieces.simps, simp)
  have "\<exists>ss sealed tree st'.
     seal_chunks demo_crates (\<lambda>n g. (replicate n g, g + 1)) (\<lambda>s n. (Inr (take n s) :: unit + bytes, drop n s)) log_sink
       [7] XChaCha20Poly1305 (replicate 16 1) 2 \<lparr>ss_source = [1, 2, 3], ss_rng = 5, ss_sink = []\<rparr> = (Inr sealed, st') \<and>
     ss_sink st' = concat (map frame_of ss) \<and> length ss = length [[1, 2], [3 :: byte]] \<and>
     unat (se_total_len sealed) = length [1, 2, 3 :: byte] \<and> unat (se_chunk_count sealed) = length ss \<and>
     build demo_crates (map leaf_part ss) = Inr tree \<and> se_tree_root sealed = root demo_crates tree"
    using sealed_stream_opens [OF demo_crates_more_laws(2) demo_aead_total demo_crates_more_laws(1), of "replicate 16 1" 2,
        OF _ _ list_source_honest, of "\<lparr>ss_source = [1, 2, 3], ss_rng = 5, ss_sink = []\<rparr>"
        "\<lambda>n g. (replicate n g, g + 1)" "[7]"]
    by (simp add: p) blast
  then show ?thesis by (elim exE conjE, intro exI conjI) (assumption | simp)+
qed

text \<open>
  What opening a chunk leaves in the caller's buffer.  On success the buffer shows the plaintext
  that the cipher authenticated under this file, this position and this algorithm, and nothing
  beyond it; on any error, whatever the buffer held before, it is all zeros and shows nothing,
  so that no unauthenticated plaintext can be read from it.
\<close>

theorem open_chunk_leaves:
  assumes "decrypt_strips_tag c"
  shows "case open_chunk c key alg fid i nonce ct_and_tag buf of
     (Inl e, out) \<Rightarrow> sb_bytes out = replicate (sb_capacity buf) 0 \<and> sb_as_slice out = []
   | (Inr leaf, out) \<Rightarrow>
       alg = XChaCha20Poly1305 \<and>
       xchacha_decrypt c key nonce (chunk_aad fid i alg) ct_and_tag = Some (sb_as_slice out) \<and>
       length ct_and_tag = length (sb_as_slice out) + 16 \<and> sb_capacity out = sb_capacity buf \<and>
       drop (sb_len out) (sb_bytes out) = replicate (sb_capacity buf - sb_len out) 0"
proof (cases "\<exists>leaf out. open_chunk c key alg fid i nonce ct_and_tag buf = (Inr leaf, out)")
  case True
  then obtain leaf out where o: "open_chunk c key alg fid i nonce ct_and_tag buf = (Inr leaf, out)" by blast
  then obtain ct tag p where f: "ct_and_tag = ct @ tag" "length tag = 16" "alg = XChaCha20Poly1305"
    "length ct \<le> sb_capacity buf" "xchacha_decrypt c key nonce (chunk_aad fid i alg) (ct @ tag) = Some p"
    "out = \<lparr>sb_bytes = take (length ct) p @ replicate (sb_capacity buf - length ct) 0, sb_len = length ct\<rparr>"
    by (auto simp: open_chunk_def open_chunk_inner_def open_in_place_def split_last_chunk_eq AEAD_TAG_LEN_def
        get_range_def sb_declare_len_def sb_as_slice_def sb_write_declared_def sb_wipe_def sb_capacity_def Let_def ok_or_def
        split: prod.splits sum.splits option.splits if_splits)
  then have "length ct = length p" using assms unfolding decrypt_strips_tag_def by fastforce
  then show ?thesis using f o by (simp add: sb_as_slice_def get_range_def sb_capacity_def)
next
  case False
  then show ?thesis
    by (auto simp: open_chunk_def sb_as_slice_def get_range_def dest: open_chunk_inner_capacity split: prod.splits sum.splits)
qed

theorem open_chunk_leaves_witness:
  "(case open_chunk demo_crates [7] XChaCha20Poly1305 (replicate 16 1) 0 [] (5 # replicate 16 0) (sb_with_capacity 4) of
     (Inl e, out) \<Rightarrow> False
   | (Inr leaf, out) \<Rightarrow> sb_as_slice out = [5] \<and> drop (sb_len out) (sb_bytes out) = replicate (4 - sb_len out) 0) \<and>
   snd (open_chunk demo_crates [7] XChaCha20Poly1305 (replicate 16 1) 0 [] (5 # replicate 16 9) (sb_with_capacity 4)) =
     sb_with_capacity 4"
  using open_chunk_leaves [OF demo_decrypt_strips_tag, where key = "[7]" and alg = XChaCha20Poly1305 and fid = "replicate 16 1" and i = 0
      and nonce = "[]" and ct_and_tag = "5 # replicate 16 0" and buf = "sb_with_capacity 4"]
  by (simp add: open_chunk_def open_chunk_inner_def split_last_chunk_def AEAD_TAG_LEN_def Let_def get_range_def
      sb_declare_len_def sb_as_slice_def sb_write_declared_def open_in_place_def sb_capacity_def sb_wipe_def
      sb_with_capacity_def demo_crates_def)

text \<open>
  Wrapping the content key.  A key of thirty-two bytes is always wrapped, into seventy-two bytes
  and the commitment to the wrapping key; the same wrapping key and header core give the content
  key back; and whatever is presented, an unwrapping whose commitment is not the one of the
  presented wrapping key under this core hash is refused before anything is decrypted.
\<close>

theorem wrapped_key_unwraps:
  assumes "aead_correct c" and "aead_total c" and "hkdf_total c" and "ct_eq_sound c" and "hmac_total c"
    and "length cek = SECRET_LEN" and "length core_hash = 32"
  shows "\<exists>wrapped. fst (wrap_cek c fill_bytes kek cek core_hash rng) = Inr (wrapped, slot_commitment c kek core_hash) \<and>
     length wrapped = WRAP_CEK_LEN \<and>
     unwrap_cek c kek wrapped (slot_commitment c kek core_hash) core_hash = Inr cek \<and>
     (\<forall>kek' commitment w h. length commitment = 32 \<longrightarrow> commitment \<noteq> slot_commitment c kek' h \<longrightarrow> unwrap_cek c kek' w commitment h = Inl Authentication)"
  using assms by (rule wrap_cek_cases)

theorem wrapped_key_unwraps_witness:
  "\<exists>wrapped. fst (wrap_cek demo_crates (\<lambda>n g. (replicate n g, g + 1)) [7] (replicate 32 3) (replicate 32 4) 5) =
       Inr (wrapped, slot_commitment demo_crates [7] (replicate 32 4)) \<and>
     unwrap_cek demo_crates [7] wrapped (slot_commitment demo_crates [7] (replicate 32 4)) (replicate 32 4) = Inr (replicate 32 3) \<and>
     unwrap_cek demo_crates [7] wrapped (replicate 32 9) (replicate 32 4) = Inl Authentication"
proof -
  have "slot_commitment demo_crates [7] (replicate 32 4) \<noteq> replicate 32 9"
    by code_simp
  then show ?thesis
    using wrapped_key_unwraps [OF demo_crates_more_laws(2) demo_aead_total demo_crates_more_laws(1) demo_crates_laws(1,2),
        of "replicate 32 3" "replicate 32 4" "\<lambda>n g. (replicate n g, g + 1)" "[7]" 5]
    by (fastforce simp: SECRET_LEN_def)
qed

end
