(* ===== verification/OC_Seal.thy ===== *)
theory OC_Seal
  imports OC_Aead
begin

text \<open>
  Sealing to a public key: \<^verbatim>\<open>oc-crypto/src/seal.rs\<close> with the key agreements of \<^verbatim>\<open>agreement.rs\<close> and
  the hybrid mechanisms of \<^verbatim>\<open>xwing.rs\<close> and \<^verbatim>\<open>mlkem_p256.rs\<close>.  The locale \<open>key_agreement\<close> is the
  contract of the trait \<^verbatim>\<open>KeyAgreement\<close>, the locale \<open>key_encapsulation\<close> the one of the hybrid
  mechanisms; both are discharged for the code's own functions, and what is sealed to a public key
  opens with the secret behind it.
\<close>

section \<open>Third-party primitives\<close>

text \<open>
  \<^verbatim>\<open>sha3\<close> gives SHAKE-256 output of a length and SHA3-256; \<^verbatim>\<open>ml_kem\<close> the encapsulation key of a
  seed, whether bytes are a key, encapsulation with given randomness (ciphertext and secret) and
  decapsulation with a seed; \<^verbatim>\<open>p256\<close> which bytes are a scalar, the uncompressed public point of a
  scalar, and the agreement of a scalar with a point.
\<close>

record Kems =
  shake256 :: "bytes \<Rightarrow> nat \<Rightarrow> bytes"
  sha3_256 :: "bytes \<Rightarrow> bytes"
  mlkem_public :: "bytes \<Rightarrow> bytes"
  mlkem_key_ok :: "bytes \<Rightarrow> bool"
  mlkem_encapsulate :: "bytes \<Rightarrow> bytes \<Rightarrow> bytes \<times> bytes"
  mlkem_decapsulate :: "bytes \<Rightarrow> bytes \<Rightarrow> bytes"
  p256_scalar_ok :: "bytes \<Rightarrow> bool"
  p256_public_of :: "bytes \<Rightarrow> bytes"
  p256_dh :: "bytes \<Rightarrow> bytes \<Rightarrow> bytes"

section \<open>Contexts\<close>

definition SEAL_PUBLIC_KEY_LEN :: nat where "SEAL_PUBLIC_KEY_LEN = 32"
definition SEAL_NONCE_LEN :: nat where "SEAL_NONCE_LEN = 24"
definition SEAL_TAG_LEN :: nat where "SEAL_TAG_LEN = 16"
definition SHARED_LEN :: nat where "SHARED_LEN = 32"

definition slot_info :: "Label \<Rightarrow> KemAlg \<Rightarrow> bytes \<Rightarrow> bytes" where
  "slot_info purpose kem file_id = purpose @ [kem_u8 kem] @ file_id"

definition a_to_device_info :: "KemAlg \<Rightarrow> bytes \<Rightarrow> bytes \<Rightarrow> u64 \<Rightarrow> bytes" where
  "a_to_device_info kem file_id fpr seq = A_TO_DEVICE @ [kem_u8 kem] @ file_id @ fpr @ be_bytes 8 (unat seq)"

definition b_to_device_info :: "KemAlg \<Rightarrow> bytes \<Rightarrow> bytes \<Rightarrow> bytes" where
  "b_to_device_info kem file_id fpr = B_TO_DEVICE @ [kem_u8 kem] @ file_id @ fpr"

definition challenge_info :: "bytes \<Rightarrow> bytes" where
  "challenge_info fpr = ATTEST_NONCE @ fpr"

record SealedBlob =
  blob_enc :: bytes
  blob_nonce :: bytes
  blob_ct :: bytes

section \<open>Public keys\<close>

text \<open>\<^verbatim>\<open>Iterator::cmp\<close> of two byte sequences, when it says less.\<close>

fun lex_less :: "bytes \<Rightarrow> bytes \<Rightarrow> bool" where
  "lex_less [] [] = False"
| "lex_less [] (y # ys) = True"
| "lex_less (x # xs) [] = False"
| "lex_less (x # xs) (y # ys) = (x < y \<or> x = y \<and> lex_less xs ys)"

definition field_modulus :: bytes where
  "field_modulus = 0xed # replicate 30 0xff @ [0x7f]"

definition canonical_x25519_public :: "bytes \<Rightarrow> bool" where
  "canonical_x25519_public public = lex_less (rev public) (rev field_modulus)"

definition validate_dh_public :: "Crates \<Rightarrow> bytes \<Rightarrow> nat \<Rightarrow> CryptoError + unit" where
  "validate_dh_public c public expected_len =
     (if expected_len = SEAL_PUBLIC_KEY_LEN then
        bindR (ensure (length public = 32) BadLength) (\<lambda>_. ensure (canonical_x25519_public public) BadKey)
      else if expected_len = 65 then
        bindR (ensure (\<not> (length public \<noteq> 65 \<or> hd public \<noteq> 4)) BadLength) (\<lambda>_. ensure (p256_point_ok c public) BadKey)
      else Inl BadLength)"

definition x25519_public :: "Crates \<Rightarrow> bytes \<Rightarrow> bytes" where
  "x25519_public c secret = x25519_base c secret"

section \<open>Key agreements\<close>

text \<open>The trait \<^verbatim>\<open>KeyAgreement\<close> as a record of its methods.\<close>

record KeyAgreement =
  ka_public_key :: bytes
  ka_agree :: "bytes \<Rightarrow> CryptoError + bytes"

definition X25519Agreement :: "Crates \<Rightarrow> bytes \<Rightarrow> KeyAgreement" where
  "X25519Agreement c secret =
     \<lparr>ka_public_key = x25519_base c secret,
      ka_agree = (\<lambda>peer. if length peer = 32 then Inr (x25519_dh c secret peer) else Inl BadLength)\<rparr>"

definition P256Agreement :: "Crates \<Rightarrow> Kems \<Rightarrow> bytes \<Rightarrow> KeyAgreement" where
  "P256Agreement c k secret =
     \<lparr>ka_public_key = p256_public_of k secret,
      ka_agree = (\<lambda>peer.
        bindR (ensure (p256_point_ok c peer) BadKey) (\<lambda>_.
        let shared = p256_dh k secret peer in
        if length shared = 32 then Inr shared else Inl BadLength))\<rparr>"

definition p256_from_be_bytes :: "Kems \<Rightarrow> bytes \<Rightarrow> CryptoError + bytes" where
  "p256_from_be_bytes k bs = (if p256_scalar_ok k bs then Inr bs else Inl BadKey)"

definition shared_ct_eq :: "Crates \<Rightarrow> bytes \<Rightarrow> bytes \<Rightarrow> bool" where
  "shared_ct_eq c a b = ct_eq c a b"

section \<open>The blob\<close>

definition expand_info :: "bytes \<Rightarrow> bytes \<Rightarrow> bytes" where
  "expand_info label info = label @ info"

text \<open>\<^verbatim>\<open>Hkdf::new(None, ikm)\<close> takes a salt of as many zeros as the hash is long.\<close>

definition derive_key :: "Crates \<Rightarrow> bytes \<Rightarrow> bytes \<Rightarrow> bytes \<Rightarrow> bytes \<Rightarrow> CryptoError + bytes" where
  "derive_key c shared eph_public recipient_public info =
     (if ct_eq c shared (replicate SHARED_LEN 0) then Inl BadKey
      else ok_or BadLength
        (hkdf_sha256 c (replicate 32 0) (shared @ eph_public @ recipient_public) (expand_info SEAL_KEY info) SHARED_LEN))"

definition seal_core ::
    "Crates \<Rightarrow> bytes \<Rightarrow> bytes \<Rightarrow> bytes \<Rightarrow> bytes \<Rightarrow> bytes \<Rightarrow> bytes \<Rightarrow> bytes \<Rightarrow> CryptoError + SealedBlob" where
  "seal_core c shared eph_public recipient_public info aad plaintext nonce =
     bindR (derive_key c shared eph_public recipient_public info) (\<lambda>key.
     bindR (ok_or BadLength (xchacha_encrypt c key nonce aad plaintext)) (\<lambda>ct.
     Inr \<lparr>blob_enc = eph_public, blob_nonce = nonce, blob_ct = ct\<rparr>))"

definition open_core :: "Crates \<Rightarrow> bytes \<Rightarrow> SealedBlob \<Rightarrow> bytes \<Rightarrow> CryptoError + bytes" where
  "open_core c key blob aad = ok_or Authentication (xchacha_decrypt c key (blob_nonce blob) aad (blob_ct blob))"

text \<open>The random generator is a parameter: it yields bytes and its next state.\<close>

definition seal ::
    "Crates \<Rightarrow> (nat \<Rightarrow> 'g \<Rightarrow> bytes \<times> 'g) \<Rightarrow> bytes \<Rightarrow> bytes \<Rightarrow> bytes \<Rightarrow> bytes \<Rightarrow> 'g \<Rightarrow> (CryptoError + SealedBlob) \<times> 'g" where
  "seal c fill_bytes recipient_public info aad plaintext rng =
     (if \<not> canonical_x25519_public recipient_public then (Inl BadKey, rng)
      else
        (case fill_bytes SHARED_LEN rng of (eph_sk, rng) \<Rightarrow>
         case fill_bytes SEAL_NONCE_LEN rng of (nonce_seed, rng) \<Rightarrow>
           (bindR (hedged_nonce c SEAL_NONCE_LEN SEAL_NONCE nonce_seed plaintext aad) (\<lambda>nonce.
            seal_core c (x25519_dh c eph_sk recipient_public) (x25519_base c eph_sk) recipient_public info aad plaintext nonce),
            rng)))"

definition open_blob :: "Crates \<Rightarrow> bytes \<Rightarrow> SealedBlob \<Rightarrow> bytes \<Rightarrow> bytes \<Rightarrow> CryptoError + bytes" where
  "open_blob c secret blob info aad =
     (if length (blob_ct blob) < SEAL_TAG_LEN then Inl BadLength
      else if length (blob_enc blob) \<noteq> SEAL_PUBLIC_KEY_LEN then Inl BadLength
      else
        bindR (validate_dh_public c (blob_enc blob) SEAL_PUBLIC_KEY_LEN) (\<lambda>_.
        bindR (derive_key c (x25519_dh c secret (blob_enc blob)) (blob_enc blob) (x25519_base c secret) info) (\<lambda>key.
        open_core c key blob aad)))"

definition open_with :: "Crates \<Rightarrow> KeyAgreement \<Rightarrow> SealedBlob \<Rightarrow> bytes \<Rightarrow> bytes \<Rightarrow> CryptoError + bytes" where
  "open_with c agreement blob info aad =
     (if length (blob_ct blob) < SEAL_TAG_LEN then Inl BadLength
      else
        (let own_pk = ka_public_key agreement in
         bindR (validate_dh_public c own_pk (length own_pk)) (\<lambda>_.
         bindR (validate_dh_public c (blob_enc blob) (length own_pk)) (\<lambda>_.
         bindR (ka_agree agreement (blob_enc blob)) (\<lambda>shared.
         bindR (derive_key c shared (blob_enc blob) own_pk info) (\<lambda>key.
         open_core c key blob aad))))))"

text \<open>\<^verbatim>\<open>SecretKey::generate_from_rng\<close> is the parameter \<open>generate\<close>.\<close>

definition seal_p256 ::
    "Crates \<Rightarrow> Kems \<Rightarrow> (nat \<Rightarrow> 'g \<Rightarrow> bytes \<times> 'g) \<Rightarrow> ('g \<Rightarrow> bytes \<times> 'g) \<Rightarrow> bytes \<Rightarrow> bytes \<Rightarrow> bytes \<Rightarrow> bytes \<Rightarrow> 'g \<Rightarrow>
     (CryptoError + SealedBlob) \<times> 'g" where
  "seal_p256 c k fill_bytes generate recipient_public info aad plaintext rng =
     (case validate_dh_public c recipient_public 65 of
        Inl e \<Rightarrow> (Inl e, rng)
      | Inr _ \<Rightarrow>
          (case generate rng of (eph, rng) \<Rightarrow>
           case fill_bytes SEAL_NONCE_LEN rng of (nonce_seed, rng) \<Rightarrow>
             (bindR (hedged_nonce c SEAL_NONCE_LEN SEAL_NONCE nonce_seed plaintext aad) (\<lambda>nonce.
              bindR (ka_agree (P256Agreement c k eph) recipient_public) (\<lambda>shared.
              seal_core c shared (ka_public_key (P256Agreement c k eph)) recipient_public info aad plaintext nonce)),
              rng)))"

section \<open>X-Wing\<close>

definition XWING_SECRET_LEN :: nat where "XWING_SECRET_LEN = 32"
definition XWING_CT_LEN :: nat where "XWING_CT_LEN = 1120"
definition XWING_ENCAPS_SEED_LEN :: nat where "XWING_ENCAPS_SEED_LEN = 64"
definition ML_KEM_PUBLIC_LEN :: nat where "ML_KEM_PUBLIC_LEN = 1184"
definition ML_KEM_CIPHERTEXT_LEN :: nat where "ML_KEM_CIPHERTEXT_LEN = 1088"
definition XWING_EXPANDED_LEN :: nat where "XWING_EXPANDED_LEN = 96"
definition XWING_LABEL :: bytes where "XWING_LABEL = [0x5c, 0x2e, 0x2f, 0x2f, 0x5e, 0x5c]"

definition combiner :: "Kems \<Rightarrow> bytes \<Rightarrow> bytes \<Rightarrow> bytes \<Rightarrow> bytes \<Rightarrow> bytes" where
  "combiner k ss_m ss_x ct_x pk_x = sha3_256 k (ss_m @ ss_x @ ct_x @ pk_x @ XWING_LABEL)"

text \<open>The ML-KEM decapsulation key is represented by the seed it is made from.\<close>

record Expanded =
  ex_ml_kem :: bytes
  ex_x25519 :: bytes
  ex_ml_kem_public :: bytes
  ex_x25519_public :: bytes

text \<open>A conversion of a slice to an array of \<open>n\<close> bytes.\<close>

definition try_array :: "nat \<Rightarrow> bytes \<Rightarrow> CryptoError + bytes" where
  "try_array n bs = (if length bs = n then Inr bs else Inl BadLength)"

definition expand_secret :: "Crates \<Rightarrow> Kems \<Rightarrow> bytes \<Rightarrow> CryptoError + Expanded" where
  "expand_secret c k secret =
     (let expanded = shake256 k secret XWING_EXPANDED_LEN in
      bindR (ok_or BadLength (get_range expanded 0 64)) (\<lambda>seed_bytes.
      bindR (try_array 64 seed_bytes) (\<lambda>seed.
      bindR (ok_or BadLength (get_range expanded 64 XWING_EXPANDED_LEN)) (\<lambda>x_bytes.
      bindR (try_array 32 x_bytes) (\<lambda>x25519.
      bindR (try_array ML_KEM_PUBLIC_LEN (mlkem_public k seed)) (\<lambda>public.
      Inr \<lparr>ex_ml_kem = seed, ex_x25519 = x25519, ex_ml_kem_public = public, ex_x25519_public = x25519_base c x25519\<rparr>))))))"

definition xwing_public_key :: "Crates \<Rightarrow> Kems \<Rightarrow> bytes \<Rightarrow> CryptoError + bytes" where
  "xwing_public_key c k secret =
     bindR (expand_secret c k secret) (\<lambda>e. Inr (ex_ml_kem_public e @ ex_x25519_public e))"

definition xwing_encapsulate_derand :: "Crates \<Rightarrow> Kems \<Rightarrow> bytes \<Rightarrow> bytes \<Rightarrow> CryptoError + (bytes \<times> bytes)" where
  "xwing_encapsulate_derand c k public_key seed =
     bindR (ensure (\<not> length public_key \<noteq> XWING_PUBLIC_KEY_LEN) BadLength) (\<lambda>_.
     bindR (ok_or BadLength (get_range public_key 0 ML_KEM_PUBLIC_LEN)) (\<lambda>pk_m.
     bindR (ok_or BadLength (get_range public_key ML_KEM_PUBLIC_LEN XWING_PUBLIC_KEY_LEN)) (\<lambda>pk_x.
     bindR (try_array 32 pk_x) (\<lambda>pk_x.
     bindR (ok_or BadLength (get_range seed 32 XWING_ENCAPS_SEED_LEN)) (\<lambda>ek_x.
     bindR (try_array 32 ek_x) (\<lambda>ek_x.
     let ct_x = x25519_base c ek_x; ss_x = x25519_dh c ek_x pk_x in
     bindR (ok_or BadLength (get_range seed 0 32)) (\<lambda>m_bytes.
     bindR (try_array 32 m_bytes) (\<lambda>m.
     bindR (ensure (mlkem_key_ok k pk_m) BadKey) (\<lambda>_.
     let (ct_m, ss_m) = mlkem_encapsulate k pk_m m in
     Inr (combiner k ss_m ss_x ct_x pk_x, ct_m @ ct_x))))))))))"

definition xwing_decapsulate :: "Crates \<Rightarrow> Kems \<Rightarrow> bytes \<Rightarrow> bytes \<Rightarrow> CryptoError + bytes" where
  "xwing_decapsulate c k secret ciphertext =
     bindR (ensure (\<not> length ciphertext \<noteq> XWING_CT_LEN) BadLength) (\<lambda>_.
     bindR (expand_secret c k secret) (\<lambda>e.
     bindR (ok_or BadLength (get_range ciphertext 0 ML_KEM_CIPHERTEXT_LEN)) (\<lambda>ct_m.
     bindR (try_array ML_KEM_CIPHERTEXT_LEN ct_m) (\<lambda>ct_m.
     bindR (ok_or BadLength (get_range ciphertext ML_KEM_CIPHERTEXT_LEN XWING_CT_LEN)) (\<lambda>ct_x.
     bindR (try_array 32 ct_x) (\<lambda>ct_x.
     Inr (combiner k (mlkem_decapsulate k (ex_ml_kem e) ct_m) (x25519_dh c (ex_x25519 e) ct_x) ct_x (ex_x25519_public e))))))))"

text \<open>\<^verbatim>\<open>encapsulate\<close> draws the seed from the generator.\<close>

definition xwing_encapsulate ::
    "Crates \<Rightarrow> Kems \<Rightarrow> (nat \<Rightarrow> 'g \<Rightarrow> bytes \<times> 'g) \<Rightarrow> bytes \<Rightarrow> 'g \<Rightarrow> (CryptoError + (bytes \<times> bytes)) \<times> 'g" where
  "xwing_encapsulate c k fill_bytes public_key rng =
     (case fill_bytes XWING_ENCAPS_SEED_LEN rng of (seed, rng) \<Rightarrow> (xwing_encapsulate_derand c k public_key seed, rng))"

definition seal_xwing ::
    "Crates \<Rightarrow> Kems \<Rightarrow> (nat \<Rightarrow> 'g \<Rightarrow> bytes \<times> 'g) \<Rightarrow> bytes \<Rightarrow> bytes \<Rightarrow> bytes \<Rightarrow> bytes \<Rightarrow> 'g \<Rightarrow>
     (CryptoError + SealedBlob) \<times> 'g" where
  "seal_xwing c k fill_bytes recipient_public info aad plaintext rng =
     (if length recipient_public \<noteq> XWING_PUBLIC_KEY_LEN then (Inl BadLength, rng)
      else
        (case bindR (ok_or BadLength (split_last_chunk SEAL_PUBLIC_KEY_LEN recipient_public)) (\<lambda>(_, classical).
              validate_dh_public c classical SEAL_PUBLIC_KEY_LEN) of
           Inl e \<Rightarrow> (Inl e, rng)
         | Inr _ \<Rightarrow>
             (case xwing_encapsulate c k fill_bytes recipient_public rng of
                (Inl e, rng) \<Rightarrow> (Inl e, rng)
              | (Inr (shared, ciphertext), rng) \<Rightarrow>
                  (case fill_bytes SEAL_NONCE_LEN rng of (nonce_seed, rng) \<Rightarrow>
                     (bindR (hedged_nonce c SEAL_NONCE_LEN SEAL_NONCE nonce_seed plaintext aad) (\<lambda>nonce.
                      seal_core c shared ciphertext recipient_public info aad plaintext nonce), rng)))))"

definition open_xwing :: "Crates \<Rightarrow> Kems \<Rightarrow> bytes \<Rightarrow> SealedBlob \<Rightarrow> bytes \<Rightarrow> bytes \<Rightarrow> CryptoError + bytes" where
  "open_xwing c k secret blob info aad =
     (if length (blob_ct blob) < SEAL_TAG_LEN then Inl BadLength
      else
        bindR (xwing_decapsulate c k secret (blob_enc blob)) (\<lambda>shared.
        bindR (xwing_public_key c k secret) (\<lambda>own_public.
        bindR (derive_key c shared (blob_enc blob) own_public info) (\<lambda>key.
        open_core c key blob aad))))"

section \<open>ML-KEM with P-256\<close>

definition MLP_CIPHERTEXT_LEN :: nat where "MLP_CIPHERTEXT_LEN = 1153"
definition ML_KEM_SEED_LEN :: nat where "ML_KEM_SEED_LEN = 64"
definition MLP_ENCAPS_SEED_LEN :: nat where "MLP_ENCAPS_SEED_LEN = 160"
definition P256_POINT_LEN :: nat where "P256_POINT_LEN = 65"
definition SCALAR_LEN :: nat where "SCALAR_LEN = 32"
definition SCALAR_TRIES_LEN :: nat where "SCALAR_TRIES_LEN = 128"
definition MLP_EXPANDED_LEN :: nat where "MLP_EXPANDED_LEN = ML_KEM_SEED_LEN + SCALAR_TRIES_LEN"
definition MLP_LABEL :: bytes where "MLP_LABEL = ascii ''MLKEM768-P256''"

definition mlp_combine :: "Kems \<Rightarrow> bytes \<Rightarrow> bytes \<Rightarrow> bytes \<Rightarrow> bytes \<Rightarrow> bytes" where
  "mlp_combine k ss_pq ss_t ct_t pk_t = sha3_256 k (ss_pq @ ss_t @ ct_t @ pk_t @ MLP_LABEL)"

text \<open>\<^verbatim>\<open>chunks_exact\<close> leaves a short rest out.\<close>

function scalar_from :: "Kems \<Rightarrow> bytes \<Rightarrow> CryptoError + bytes" where
  "scalar_from k bs =
     (if length bs < SCALAR_LEN then Inl BadKey
      else
        (case p256_from_be_bytes k (take SCALAR_LEN bs) of
           Inr pair \<Rightarrow> Inr pair
         | Inl _ \<Rightarrow> scalar_from k (drop SCALAR_LEN bs)))"
  by pat_completeness auto
termination by (relation "measure (\<lambda>(k, bs). length bs)") (auto simp: SCALAR_LEN_def)

declare scalar_from.simps [simp del]

definition public_key_from_parts :: "Kems \<Rightarrow> bytes \<Rightarrow> bytes \<Rightarrow> CryptoError + bytes" where
  "public_key_from_parts k ml_kem_seed p256_public =
     bindR (ensure (\<not> length p256_public \<noteq> P256_POINT_LEN) BadLength) (\<lambda>_.
     bindR (try_array ML_KEM_SEED_LEN ml_kem_seed) (\<lambda>seed.
     Inr (mlkem_public k seed @ p256_public)))"

record Keypair =
  kp_ml_kem_seed :: bytes
  kp_classical :: bytes
  kp_public_key :: bytes

definition keypair_from_seed :: "Kems \<Rightarrow> bytes \<Rightarrow> CryptoError + Keypair" where
  "keypair_from_seed k seed =
     (let expanded = shake256 k seed MLP_EXPANDED_LEN in
      bindR (ok_or BadLength (get_range expanded 0 ML_KEM_SEED_LEN)) (\<lambda>pq_seed.
      bindR (try_array ML_KEM_SEED_LEN pq_seed) (\<lambda>pq_seed.
      bindR (ok_or BadLength (get_range expanded ML_KEM_SEED_LEN MLP_EXPANDED_LEN)) (\<lambda>rest.
      bindR (scalar_from k rest) (\<lambda>classical.
      bindR (public_key_from_parts k pq_seed (p256_public_of k classical)) (\<lambda>public_key.
      Inr \<lparr>kp_ml_kem_seed = pq_seed, kp_classical = classical, kp_public_key = public_key\<rparr>))))))"

definition ml_kem_seed_from_stored :: "Kems \<Rightarrow> bytes \<Rightarrow> bytes" where
  "ml_kem_seed_from_stored k stored = shake256 k stored ML_KEM_SEED_LEN"

definition mlp_encapsulate_derand :: "Crates \<Rightarrow> Kems \<Rightarrow> bytes \<Rightarrow> bytes \<Rightarrow> CryptoError + (bytes \<times> bytes)" where
  "mlp_encapsulate_derand c k public_key seed =
     bindR (ensure (\<not> length public_key \<noteq> MLKEM_P256_PUBLIC_KEY_LEN) BadLength) (\<lambda>_.
     bindR (ok_or BadLength (get_range public_key 0 ML_KEM_PUBLIC_LEN)) (\<lambda>pk_pq.
     bindR (ok_or BadLength (get_range public_key ML_KEM_PUBLIC_LEN MLKEM_P256_PUBLIC_KEY_LEN)) (\<lambda>pk_t.
     bindR (ensure (mlkem_key_ok k pk_pq) BadKey) (\<lambda>_.
     bindR (ok_or BadLength (get_range seed 0 SCALAR_LEN)) (\<lambda>m_bytes.
     bindR (try_array SCALAR_LEN m_bytes) (\<lambda>m.
     let (ct_pq, ss_pq) = mlkem_encapsulate k pk_pq m in
     bindR (ok_or BadLength (get_range seed SCALAR_LEN MLP_ENCAPS_SEED_LEN)) (\<lambda>rest.
     bindR (scalar_from k rest) (\<lambda>ephemeral.
     let ct_t = p256_public_of k ephemeral in
     bindR (ka_agree (P256Agreement c k ephemeral) pk_t) (\<lambda>ss_t.
     Inr (mlp_combine k ss_pq ss_t ct_t pk_t, ct_pq @ ct_t))))))))))"

definition mlp_encapsulate ::
    "Crates \<Rightarrow> Kems \<Rightarrow> (nat \<Rightarrow> 'g \<Rightarrow> bytes \<times> 'g) \<Rightarrow> bytes \<Rightarrow> 'g \<Rightarrow> (CryptoError + (bytes \<times> bytes)) \<times> 'g" where
  "mlp_encapsulate c k fill_bytes public_key rng =
     (case fill_bytes MLP_ENCAPS_SEED_LEN rng of (seed, rng) \<Rightarrow> (mlp_encapsulate_derand c k public_key seed, rng))"

definition decapsulate_with :: "Kems \<Rightarrow> bytes \<Rightarrow> KeyAgreement \<Rightarrow> bytes \<Rightarrow> CryptoError + bytes" where
  "decapsulate_with k ml_kem_seed classical ciphertext =
     bindR (ensure (\<not> length ciphertext \<noteq> MLP_CIPHERTEXT_LEN) BadLength) (\<lambda>_.
     bindR (try_array ML_KEM_SEED_LEN ml_kem_seed) (\<lambda>seed.
     bindR (ok_or BadLength (get_range ciphertext 0 ML_KEM_CIPHERTEXT_LEN)) (\<lambda>ct_pq.
     bindR (try_array ML_KEM_CIPHERTEXT_LEN ct_pq) (\<lambda>ct_pq.
     bindR (ok_or BadLength (get_range ciphertext ML_KEM_CIPHERTEXT_LEN MLP_CIPHERTEXT_LEN)) (\<lambda>ct_t.
     bindR (ka_agree classical ct_t) (\<lambda>ss_t.
     Inr (mlp_combine k (mlkem_decapsulate k seed ct_pq) ss_t ct_t (ka_public_key classical))))))))"

definition seal_mlkem_p256 ::
    "Crates \<Rightarrow> Kems \<Rightarrow> (nat \<Rightarrow> 'g \<Rightarrow> bytes \<times> 'g) \<Rightarrow> bytes \<Rightarrow> bytes \<Rightarrow> bytes \<Rightarrow> bytes \<Rightarrow> 'g \<Rightarrow>
     (CryptoError + SealedBlob) \<times> 'g" where
  "seal_mlkem_p256 c k fill_bytes recipient_public info aad plaintext rng =
     (case mlp_encapsulate c k fill_bytes recipient_public rng of
        (Inl e, rng) \<Rightarrow> (Inl e, rng)
      | (Inr (shared, ciphertext), rng) \<Rightarrow>
          (case fill_bytes SEAL_NONCE_LEN rng of (nonce_seed, rng) \<Rightarrow>
             (bindR (hedged_nonce c SEAL_NONCE_LEN SEAL_NONCE nonce_seed plaintext aad) (\<lambda>nonce.
              seal_core c shared ciphertext recipient_public info aad plaintext nonce), rng)))"

definition open_mlkem_p256 ::
    "Crates \<Rightarrow> Kems \<Rightarrow> bytes \<Rightarrow> KeyAgreement \<Rightarrow> SealedBlob \<Rightarrow> bytes \<Rightarrow> bytes \<Rightarrow> CryptoError + bytes" where
  "open_mlkem_p256 c k ml_kem_seed classical blob info aad =
     (if length (blob_ct blob) < SEAL_TAG_LEN then Inl BadLength
      else
        bindR (decapsulate_with k ml_kem_seed classical (blob_enc blob)) (\<lambda>shared.
        bindR (public_key_from_parts k ml_kem_seed (ka_public_key classical)) (\<lambda>own_public.
        bindR (derive_key c shared (blob_enc blob) own_public info) (\<lambda>key.
        open_core c key blob aad))))"

section \<open>Canonical keys\<close>

lemma le_nat_snoc: "le_nat (bs @ [b]) = le_nat bs + 256 ^ length bs * unat b"
  by (induction bs) (simp_all add: algebra_simps)

lemma lex_less_rev_value: "length xs = length ys \<Longrightarrow> lex_less (rev xs) (rev ys) \<longleftrightarrow> le_nat xs < le_nat ys"
proof (induction xs arbitrary: ys rule: rev_induct)
  case Nil
  then show ?case by simp
next
  case (snoc x xs)
  then obtain y zs where ys: "ys = zs @ [y]" and len: "length xs = length zs"
    by (metis length_append_singleton length_0_conv nat.distinct(1) old.nat.inject rev_exhaust)
  let ?m = "256 ^ length zs :: nat"
  have less: "le_nat xs < ?m" "le_nat zs < ?m" using le_nat_less [of xs] le_nat_less [of zs] len by simp_all
  have "le_nat xs + ?m * unat x < le_nat zs + ?m * unat y \<longleftrightarrow> unat x < unat y \<or> unat x = unat y \<and> le_nat xs < le_nat zs"
  proof (cases "unat x = unat y")
    case False
    then consider "unat x + 1 \<le> unat y" | "unat y + 1 \<le> unat x" by linarith
    then show ?thesis
    proof cases
      case 1
      then have "?m * (unat x + 1) \<le> ?m * unat y" by (rule mult_le_mono2)
      with less 1 show ?thesis by (simp add: algebra_simps)
    next
      case 2
      then have "?m * (unat y + 1) \<le> ?m * unat x" by (rule mult_le_mono2)
      with less 2 show ?thesis by (simp add: algebra_simps)
    qed
  qed simp
  then show ?case
    using snoc.IH [OF len] len by (simp add: ys le_nat_snoc word_less_nat_alt word_unat_eq_iff)
qed

lemma field_modulus_value: "length field_modulus = 32" "le_nat field_modulus = 2 ^ 255 - 19"
proof -
  have "le_nat (replicate n 0xff) + 1 = 256 ^ n" for n by (induction n) simp_all
  from this [of 30] have "le_nat (replicate 30 0xff) = 256 ^ 30 - 1" by simp
  then show "length field_modulus = 32" "le_nat field_modulus = 2 ^ 255 - 19"
    by (simp_all add: field_modulus_def le_nat_snoc)
qed

section \<open>What the mechanisms promise\<close>

definition x25519_laws :: "Crates \<Rightarrow> bool" where
  "x25519_laws c \<longleftrightarrow> dh_commutes c \<and> (\<forall>s. length (x25519_base c s) = 32 \<and> le_nat (x25519_base c s) < 2 ^ 255 - 19)"

definition p256_laws :: "Crates \<Rightarrow> Kems \<Rightarrow> bool" where
  "p256_laws c k \<longleftrightarrow>
     (\<forall>s. p256_scalar_ok k s \<longrightarrow> length (p256_public_of k s) = 65 \<and> hd (p256_public_of k s) = 4 \<and> p256_point_ok c (p256_public_of k s)) \<and>
     (\<forall>s t. p256_scalar_ok k s \<longrightarrow> p256_scalar_ok k t \<longrightarrow>
        p256_dh k s (p256_public_of k t) = p256_dh k t (p256_public_of k s) \<and> length (p256_dh k s (p256_public_of k t)) = 32)"

definition mlkem_laws :: "Kems \<Rightarrow> bool" where
  "mlkem_laws k \<longleftrightarrow>
     (\<forall>m n. length (shake256 k m n) = n) \<and>
     (\<forall>s. length (mlkem_public k s) = 1184 \<and> mlkem_key_ok k (mlkem_public k s)) \<and>
     (\<forall>s m ct ss. mlkem_encapsulate k (mlkem_public k s) m = (ct, ss) \<longrightarrow> length ct = 1088 \<and> mlkem_decapsulate k s ct = ss)"

lemma canonical_value: "length p = 32 \<Longrightarrow> canonical_x25519_public p \<longleftrightarrow> le_nat p < 2 ^ 255 - 19"
  unfolding canonical_x25519_public_def by (subst lex_less_rev_value) (simp_all add: field_modulus_value)

lemma seal_core_opens:
  assumes "aead_correct c" and "seal_core c shared enc pk info aad p nonce = Inr blob"
  shows "blob_enc blob = enc \<and> \<not> length (blob_ct blob) < SEAL_TAG_LEN \<and>
     (\<exists>key. derive_key c shared enc pk info = Inr key \<and> open_core c key blob aad = Inr p)"
proof -
  from assms(2) obtain key ct where k: "derive_key c shared enc pk info = Inr key"
    "xchacha_encrypt c key nonce aad p = Some ct" "blob = \<lparr>blob_enc = enc, blob_nonce = nonce, blob_ct = ct\<rparr>"
    by (auto simp: seal_core_def bindR_eq_Inr ok_or_eq_Inr)
  then have "length ct = length p + 16" "xchacha_decrypt c key nonce aad ct = Some p"
    using assms(1) unfolding aead_correct_def by blast+
  with k show ?thesis by (simp add: open_core_def SEAL_TAG_LEN_def)
qed

text \<open>
  The trait \<^verbatim>\<open>KeyAgreement\<close>: under the laws of its primitives, an implementation shows a valid
  public key of a fixed length and both sides compute the same secret.
\<close>

locale key_agreement =
  fixes laws :: "Crates \<Rightarrow> Kems \<Rightarrow> bool" and usable :: "Kems \<Rightarrow> bytes \<Rightarrow> bool"
    and agreement :: "Crates \<Rightarrow> Kems \<Rightarrow> bytes \<Rightarrow> KeyAgreement" and key_len :: nat
  assumes public_length: "laws c k \<Longrightarrow> usable k s \<Longrightarrow> length (ka_public_key (agreement c k s)) = key_len"
    and public_valid: "laws c k \<Longrightarrow> usable k s \<Longrightarrow> validate_dh_public c (ka_public_key (agreement c k s)) key_len = Inr ()"
    and both_sides: "laws c k \<Longrightarrow> usable k s \<Longrightarrow> usable k t \<Longrightarrow>
      ka_agree (agreement c k s) (ka_public_key (agreement c k t)) = ka_agree (agreement c k t) (ka_public_key (agreement c k s))"
begin

lemma open_with_opens:
  assumes "laws c k" and "aead_correct c" and "usable k s" and "usable k e"
    and "ka_agree (agreement c k e) (ka_public_key (agreement c k s)) = Inr shared"
    and "seal_core c shared (ka_public_key (agreement c k e)) (ka_public_key (agreement c k s)) info aad p nonce = Inr blob"
  shows "open_with c (agreement c k s) blob info aad = Inr p"
  using seal_core_opens [OF assms(2,6)] assms(5) both_sides [OF assms(1,3,4)]
    public_valid [OF assms(1,3)] public_valid [OF assms(1,4)] public_length [OF assms(1,3)]
  by (auto simp: open_with_def Let_def)

end

text \<open>
  A key encapsulation: what was encapsulated to the public key of a secret is decapsulated with
  that secret, so a blob sealed under it opens.
\<close>

locale key_encapsulation =
  fixes laws :: "Crates \<Rightarrow> Kems \<Rightarrow> bool" and public :: "Crates \<Rightarrow> Kems \<Rightarrow> bytes \<Rightarrow> CryptoError + bytes"
    and encaps :: "Crates \<Rightarrow> Kems \<Rightarrow> bytes \<Rightarrow> bytes \<Rightarrow> CryptoError + (bytes \<times> bytes)"
    and decaps :: "Crates \<Rightarrow> Kems \<Rightarrow> bytes \<Rightarrow> bytes \<Rightarrow> CryptoError + bytes"
  assumes decaps_encaps: "laws c k \<Longrightarrow> public c k s = Inr pk \<Longrightarrow> encaps c k pk seed = Inr (shared, ct) \<Longrightarrow>
      decaps c k s ct = Inr shared"
begin

lemma encapsulated_opens:
  assumes "laws c k" and "aead_correct c" and "public c k s = Inr pk" and "encaps c k pk seed = Inr (shared, ct)"
    and "seal_core c shared ct pk info aad p nonce = Inr blob"
  shows "\<not> length (blob_ct blob) < SEAL_TAG_LEN \<and> decaps c k s (blob_enc blob) = Inr shared \<and>
     bindR (derive_key c shared (blob_enc blob) pk info) (\<lambda>key. open_core c key blob aad) = Inr p"
  using seal_core_opens [OF assms(2,5)] decaps_encaps [OF assms(1,3,4)] by auto

end

interpretation x25519: key_agreement "\<lambda>c k. x25519_laws c" "\<lambda>k s. True" "\<lambda>c k. X25519Agreement c" SEAL_PUBLIC_KEY_LEN
  by unfold_locales
    (auto simp: x25519_laws_def X25519Agreement_def validate_dh_public_def SEAL_PUBLIC_KEY_LEN_def canonical_value
      dh_commutes_def ensure_def)

interpretation p256: key_agreement p256_laws p256_scalar_ok P256Agreement 65
  by unfold_locales
    (auto simp: p256_laws_def P256Agreement_def validate_dh_public_def SEAL_PUBLIC_KEY_LEN_def ensure_def Let_def)

lemma try_array_eq: "try_array n bs = Inr x \<longleftrightarrow> length bs = n \<and> x = bs"
  by (auto simp: try_array_def)

lemma get_range_append:
  "length a = i \<Longrightarrow> get_range (a @ b) 0 i = Some a"
  "length a = i \<Longrightarrow> length b = j - i \<Longrightarrow> i \<le> j \<Longrightarrow> get_range (a @ b) i j = Some b"
  by (auto simp: get_range_def)

lemma expand_secret_Inr:
  assumes "x25519_laws c" and "mlkem_laws k"
  shows "\<exists>seed x. expand_secret c k secret = Inr \<lparr>ex_ml_kem = seed, ex_x25519 = x, ex_ml_kem_public = mlkem_public k seed,
     ex_x25519_public = x25519_base c x\<rparr>"
  using assms
  by (auto simp: expand_secret_def Let_def get_range_def try_array_def mlkem_laws_def XWING_EXPANDED_LEN_def ML_KEM_PUBLIC_LEN_def)

lemma xwing_decapsulates:
  assumes "x25519_laws c" and "mlkem_laws k" and "xwing_public_key c k s = Inr pk"
    and "xwing_encapsulate_derand c k pk seed = Inr (shared, ct)"
  shows "xwing_decapsulate c k s ct = Inr shared"
proof -
  obtain m x where e: "expand_secret c k s = Inr \<lparr>ex_ml_kem = m, ex_x25519 = x, ex_ml_kem_public = mlkem_public k m,
      ex_x25519_public = x25519_base c x\<rparr>" using expand_secret_Inr [OF assms(1,2)] by blast
  have len: "length (mlkem_public k m) = 1184" "length (x25519_base c y) = 32" for y
    using assms(1,2) by (simp_all add: x25519_laws_def mlkem_laws_def)
  have pk: "pk = mlkem_public k m @ x25519_base c x" using assms(3) by (simp add: xwing_public_key_def e)
  obtain r y where ct: "ct = fst (mlkem_encapsulate k (mlkem_public k m) r) @ x25519_base c y"
    and sh: "shared = combiner k (snd (mlkem_encapsulate k (mlkem_public k m) r)) (x25519_dh c y (x25519_base c x))
      (x25519_base c y) (x25519_base c x)"
    using assms(4) len
    by (auto simp: xwing_encapsulate_derand_def pk bindR_eq_Inr ok_or_eq_Inr try_array_eq Let_def split_beta
        get_range_append XWING_PUBLIC_KEY_LEN_def ML_KEM_PUBLIC_LEN_def)
  have m: "length (fst (mlkem_encapsulate k (mlkem_public k m) r)) = 1088"
    "mlkem_decapsulate k m (fst (mlkem_encapsulate k (mlkem_public k m) r)) = snd (mlkem_encapsulate k (mlkem_public k m) r)"
    using assms(2) unfolding mlkem_laws_def by (metis prod.collapse)+
  have "x25519_dh c x (x25519_base c y) = x25519_dh c y (x25519_base c x)"
    using assms(1) unfolding x25519_laws_def dh_commutes_def by blast
  then show ?thesis
    using len(2) m by (simp add: xwing_decapsulate_def ct sh e get_range_append try_array_def
        ML_KEM_CIPHERTEXT_LEN_def XWING_CT_LEN_def ensure_def)
qed

lemma scalar_from_ok: "scalar_from k bs = Inr s \<Longrightarrow> p256_scalar_ok k s"
proof (induction k bs rule: scalar_from.induct)
  case (1 k bs)
  then show ?case
    by (subst (asm) (2) scalar_from.simps) (auto simp: p256_from_be_bytes_def split: if_splits sum.splits)
qed

definition mlp_public :: "Crates \<Rightarrow> Kems \<Rightarrow> bytes \<Rightarrow> CryptoError + bytes" where
  "mlp_public c k s = bindR (keypair_from_seed k s) (\<lambda>kp. Inr (kp_public_key kp))"

definition mlp_decapsulate :: "Crates \<Rightarrow> Kems \<Rightarrow> bytes \<Rightarrow> bytes \<Rightarrow> CryptoError + bytes" where
  "mlp_decapsulate c k s ct =
     bindR (keypair_from_seed k s) (\<lambda>kp. decapsulate_with k (kp_ml_kem_seed kp) (P256Agreement c k (kp_classical kp)) ct)"

lemma keypair_from_seed_Inr:
  "keypair_from_seed k s = Inr kp \<Longrightarrow>
     length (kp_ml_kem_seed kp) = 64 \<and> p256_scalar_ok k (kp_classical kp) \<and>
     length (p256_public_of k (kp_classical kp)) = 65 \<and>
     kp_public_key kp = mlkem_public k (kp_ml_kem_seed kp) @ p256_public_of k (kp_classical kp)"
  by (auto simp: keypair_from_seed_def public_key_from_parts_def bindR_eq_Inr ok_or_eq_Inr try_array_eq Let_def
      ML_KEM_SEED_LEN_def P256_POINT_LEN_def ensure_eq_Inr dest: scalar_from_ok)

lemma mlp_decapsulates:
  assumes "p256_laws c k" and "mlkem_laws k" and "keypair_from_seed k s = Inr kp"
    and "mlp_encapsulate_derand c k (kp_public_key kp) seed = Inr (shared, ct)"
  shows "decapsulate_with k (kp_ml_kem_seed kp) (P256Agreement c k (kp_classical kp)) ct = Inr shared"
proof -
  let ?m = "kp_ml_kem_seed kp" and ?x = "kp_classical kp"
  note kp = keypair_from_seed_Inr [OF assms(3)]
  have len: "length (mlkem_public k ?m) = 1184" using assms(2) by (simp add: mlkem_laws_def)
  have pk: "kp_public_key kp = mlkem_public k ?m @ p256_public_of k ?x" using kp by simp
  obtain r y ss where y: "p256_scalar_ok k y" and ct: "ct = fst (mlkem_encapsulate k (mlkem_public k ?m) r) @ p256_public_of k y"
    and ss: "ka_agree (P256Agreement c k y) (p256_public_of k ?x) = Inr ss"
    and sh: "shared = mlp_combine k (snd (mlkem_encapsulate k (mlkem_public k ?m) r)) ss (p256_public_of k y) (p256_public_of k ?x)"
    using assms(4) len kp
    by (auto simp: mlp_encapsulate_derand_def pk bindR_eq_Inr ok_or_eq_Inr try_array_eq Let_def split_beta
        get_range_append MLKEM_P256_PUBLIC_KEY_LEN_def ML_KEM_PUBLIC_LEN_def dest: scalar_from_ok)
  have m: "length (fst (mlkem_encapsulate k (mlkem_public k ?m) r)) = 1088"
    "mlkem_decapsulate k ?m (fst (mlkem_encapsulate k (mlkem_public k ?m) r)) = snd (mlkem_encapsulate k (mlkem_public k ?m) r)"
    using assms(2) unfolding mlkem_laws_def by (metis prod.collapse)+
  have "ka_agree (P256Agreement c k ?x) (p256_public_of k y) = Inr ss" "length (p256_public_of k y) = 65"
    using p256.both_sides [OF assms(1) y, of ?x] p256.public_length [OF assms(1) y] ss kp by (simp_all add: P256Agreement_def)
  then show ?thesis
    using kp m by (simp add: decapsulate_with_def ct sh get_range_append try_array_def ML_KEM_SEED_LEN_def
        ML_KEM_CIPHERTEXT_LEN_def MLP_CIPHERTEXT_LEN_def ensure_def P256Agreement_def)
qed

interpretation xwing: key_encapsulation "\<lambda>c k. x25519_laws c \<and> mlkem_laws k" xwing_public_key
  xwing_encapsulate_derand xwing_decapsulate
  by unfold_locales (blast intro: xwing_decapsulates)

interpretation mlp: key_encapsulation "\<lambda>c k. p256_laws c k \<and> mlkem_laws k" mlp_public mlp_encapsulate_derand mlp_decapsulate
  by unfold_locales (auto simp: mlp_public_def mlp_decapsulate_def bindR_eq_Inr mlp_decapsulates)

lemma seal_Inr:
  "fst (seal c fill_bytes pk info aad p g) = Inr blob \<Longrightarrow>
     \<exists>eph nonce. seal_core c (x25519_dh c eph pk) (x25519_base c eph) pk info aad p nonce = Inr blob"
  by (auto simp: seal_def bindR_eq_Inr split_beta split: if_splits)

lemma seal_p256_Inr:
  "fst (seal_p256 c k fill_bytes generate pk info aad p g) = Inr blob \<Longrightarrow>
     \<exists>h nonce shared. ka_agree (P256Agreement c k (fst (generate h))) pk = Inr shared \<and>
       seal_core c shared (ka_public_key (P256Agreement c k (fst (generate h)))) pk info aad p nonce = Inr blob"
  by (auto simp: seal_p256_def bindR_eq_Inr split_beta split: sum.splits)

lemma seal_xwing_Inr:
  "fst (seal_xwing c k fill_bytes pk info aad p g) = Inr blob \<Longrightarrow>
     \<exists>seed nonce shared ct. xwing_encapsulate_derand c k pk seed = Inr (shared, ct) \<and>
       seal_core c shared ct pk info aad p nonce = Inr blob"
  by (auto simp: seal_xwing_def xwing_encapsulate_def bindR_eq_Inr split_beta split: sum.splits if_splits prod.splits) blast

lemma seal_mlkem_p256_Inr:
  "fst (seal_mlkem_p256 c k fill_bytes pk info aad p g) = Inr blob \<Longrightarrow>
     \<exists>seed nonce shared ct. mlp_encapsulate_derand c k pk seed = Inr (shared, ct) \<and>
       seal_core c shared ct pk info aad p nonce = Inr blob"
  by (auto simp: seal_mlkem_p256_def mlp_encapsulate_def bindR_eq_Inr split_beta split: sum.splits prod.splits) blast

lemma x25519_opens:
  assumes "aead_correct c" and "x25519_laws c" and "fst (seal c fill_bytes (x25519_public c secret) info aad p g) = Inr blob"
  shows "open_blob c secret blob info aad = Inr p \<and> open_with c (X25519Agreement c secret) blob info aad = Inr p"
proof -
  obtain eph nonce where core: "seal_core c (x25519_dh c eph (x25519_base c secret)) (x25519_base c eph) (x25519_base c secret)
      info aad p nonce = Inr blob" using seal_Inr [OF assms(3)] by (auto simp: x25519_public_def)
  have law: "length (x25519_base c s) = 32" "validate_dh_public c (x25519_base c s) 32 = Inr ()" for s
    using x25519.public_length [OF assms(2)] x25519.public_valid [OF assms(2)]
    by (simp_all add: X25519Agreement_def SEAL_PUBLIC_KEY_LEN_def)
  have dh: "x25519_dh c secret (x25519_base c eph) = x25519_dh c eph (x25519_base c secret)"
    using assms(2) unfolding x25519_laws_def dh_commutes_def by blast
  have "open_with c (X25519Agreement c secret) blob info aad = Inr p"
    using x25519.open_with_opens [OF assms(2,1), where s = secret and e = eph] core law(1) by (simp add: X25519Agreement_def)
  moreover have "open_blob c secret blob info aad = Inr p"
    using seal_core_opens [OF assms(1) core] law by (auto simp: open_blob_def SEAL_PUBLIC_KEY_LEN_def dh)
  ultimately show ?thesis by simp
qed

lemma p256_opens:
  assumes "aead_correct c" and "p256_laws c k" and "\<forall>h. p256_scalar_ok k (fst (generate h))" and "p256_scalar_ok k secret"
    and "fst (seal_p256 c k fill_bytes generate (p256_public_of k secret) info aad p g) = Inr blob"
  shows "open_with c (P256Agreement c k secret) blob info aad = Inr p"
proof -
  obtain h nonce shared where "ka_agree (P256Agreement c k (fst (generate h))) (p256_public_of k secret) = Inr shared"
    "seal_core c shared (ka_public_key (P256Agreement c k (fst (generate h)))) (p256_public_of k secret) info aad p nonce = Inr blob"
    using seal_p256_Inr [OF assms(5)] by blast
  moreover have "ka_public_key (P256Agreement c k secret) = p256_public_of k secret" by (simp add: P256Agreement_def)
  ultimately show ?thesis
    using p256.open_with_opens [OF assms(2,1,4), where e = "fst (generate h)"] assms(3) by simp
qed

lemma mlp_opens:
  assumes "aead_correct c" and "p256_laws c k" and "mlkem_laws k" and "keypair_from_seed k s = Inr kp"
    and "fst (seal_mlkem_p256 c k fill_bytes (kp_public_key kp) info aad p g) = Inr blob"
  shows "open_mlkem_p256 c k (kp_ml_kem_seed kp) (P256Agreement c k (kp_classical kp)) blob info aad = Inr p"
proof -
  obtain seed nonce shared ct where e: "mlp_encapsulate_derand c k (kp_public_key kp) seed = Inr (shared, ct)"
    "seal_core c shared ct (kp_public_key kp) info aad p nonce = Inr blob" using seal_mlkem_p256_Inr [OF assms(5)] by blast
  have pk: "mlp_public c k s = Inr (kp_public_key kp)" by (simp add: mlp_public_def assms(4))
  have own: "public_key_from_parts k (kp_ml_kem_seed kp) (ka_public_key (P256Agreement c k (kp_classical kp))) = Inr (kp_public_key kp)"
    using keypair_from_seed_Inr [OF assms(4)]
    by (simp add: public_key_from_parts_def P256Agreement_def ensure_def try_array_def P256_POINT_LEN_def ML_KEM_SEED_LEN_def)
  show ?thesis
    using mlp.encapsulated_opens [OF conjI [OF assms(2,3)] assms(1) pk e]
    by (simp add: open_mlkem_p256_def mlp_decapsulate_def assms(4) own)
qed

lemma xwing_opens:
  assumes "aead_correct c" and "x25519_laws c" and "mlkem_laws k" and "xwing_public_key c k s = Inr pk"
    and "fst (seal_xwing c k fill_bytes pk info aad p g) = Inr blob"
  shows "open_xwing c k s blob info aad = Inr p"
proof -
  obtain seed nonce shared ct where e: "xwing_encapsulate_derand c k pk seed = Inr (shared, ct)"
    "seal_core c shared ct pk info aad p nonce = Inr blob" using seal_xwing_Inr [OF assms(5)] by blast
  then show ?thesis
    using xwing.encapsulated_opens [OF conjI [OF assms(2,3)] assms(1,4) e] by (simp add: open_xwing_def assms(4))
qed

section \<open>An instance of the primitives\<close>

definition pad :: "nat \<Rightarrow> bytes \<Rightarrow> bytes" where
  "pad n bs = take n (bs @ replicate n 0)"

definition demo_seal_crates :: Crates where
  "demo_seal_crates = demo_crates\<lparr>x25519_base := (\<lambda>s. pad 31 s @ [0]), x25519_dh := (\<lambda>s p. map2 (+) (pad 31 s @ [0]) p)\<rparr>"

definition demo_kems :: Kems where
  "demo_kems = \<lparr>shake256 = (\<lambda>m n. pad n m), sha3_256 = pad 32, mlkem_public = pad 1184, mlkem_key_ok = (\<lambda>_. True),
     mlkem_encapsulate = (\<lambda>pk m. (pad 1088 m, pad 32 m)), mlkem_decapsulate = (\<lambda>s ct. take 32 ct),
     p256_scalar_ok = (\<lambda>s. length s = 32), p256_public_of = (\<lambda>s. 4 # s @ replicate 32 0),
     p256_dh = (\<lambda>s p. map2 (+) s (take 32 (tl p)))\<rparr>"

lemma length_pad [simp]: "length (pad n bs) = n"
  by (simp add: pad_def)

lemma map2_add_comm: "map2 (+) a b = map2 (+) b (a :: bytes)"
  by (induction a b rule: list_induct2') (simp_all add: add.commute)

lemma take_pad: "m \<le> n \<Longrightarrow> take m (pad n bs) = pad m bs"
  by (cases "length bs \<le> m") (simp_all add: pad_def min_def)

lemma demo_seal_laws: "x25519_laws demo_seal_crates" "p256_laws demo_seal_crates demo_kems" "mlkem_laws demo_kems"
  "aead_correct demo_seal_crates"
proof -
  have "le_nat (pad 31 s @ [0]) < 256 ^ 31" for s using le_nat_less [of "pad 31 s"] by (simp add: le_nat_snoc)
  then have "le_nat (pad 31 s @ [0]) < 2 ^ 255 - 19" for s by (rule order.strict_trans2) simp
  then show "x25519_laws demo_seal_crates"
    by (simp add: x25519_laws_def dh_commutes_def demo_seal_crates_def map2_add_comm)
  show "p256_laws demo_seal_crates demo_kems"
    by (simp add: p256_laws_def demo_seal_crates_def demo_crates_def demo_kems_def map2_add_comm)
  show "mlkem_laws demo_kems" by (simp add: mlkem_laws_def demo_kems_def take_pad)
  show "aead_correct demo_seal_crates"
    using demo_crates_more_laws(2) by (simp add: aead_correct_def demo_seal_crates_def)
qed

lemma seal_cases:
  assumes "aead_total c" and "hkdf_total c" and "ct_eq_sound c" and "length pk = 32"
    and "length (x25519_dh c (fst (fill_bytes SHARED_LEN g)) pk) = 32"
    and "length plaintext < 4294967296" and "length aad < 4294967296"
  shows "let eph = fst (fill_bytes SHARED_LEN g) in
     (if le_nat pk \<ge> 2 ^ 255 - 19 then seal c fill_bytes pk info aad plaintext g = (Inl BadKey, g)
      else if x25519_dh c eph pk = replicate 32 0 then fst (seal c fill_bytes pk info aad plaintext g) = Inl BadKey
      else \<exists>blob. fst (seal c fill_bytes pk info aad plaintext g) = Inr blob \<and> blob_enc blob = x25519_base c eph)"
proof -
  obtain eph g1 where g1: "fill_bytes SHARED_LEN g = (eph, g1)" by (meson surj_pair)
  obtain seed g2 where g2: "fill_bytes SEAL_NONCE_LEN g1 = (seed, g2)" by (meson surj_pair)
  have hk: "\<exists>okm. hkdf_sha256 c salt ikm lab n = Some okm" if "n \<le> 8160" for salt ikm lab n
    using assms(2) that unfolding hkdf_total_def by blast
  obtain ikm where "hedged_input plaintext aad = Inr ikm" using assms(6,7) by (simp add: hedged_input_Inr)
  then obtain nonce where nonce: "hedged_nonce c SEAL_NONCE_LEN SEAL_NONCE seed plaintext aad = Inr nonce"
    using hk [of SEAL_NONCE_LEN seed ikm SEAL_NONCE] by (auto simp: hedged_nonce_def SEAL_NONCE_LEN_def)
  have zero: "ct_eq c (x25519_dh c eph pk) (replicate SHARED_LEN 0) \<longleftrightarrow> x25519_dh c eph pk = replicate 32 0"
    using assms(3,5) by (simp add: ct_eq_sound_def g1) (simp add: SHARED_LEN_def)
  obtain key where key: "hkdf_sha256 c (replicate 32 0) (x25519_dh c eph pk @ x25519_base c eph @ pk)
      (expand_info SEAL_KEY info) SHARED_LEN = Some key" using hk [of SHARED_LEN] by (fastforce simp: SHARED_LEN_def)
  obtain ct where ct: "xchacha_encrypt c key nonce aad plaintext = Some ct" using assms(1,6) unfolding aead_total_def by blast
  show ?thesis
    using zero key ct
    by (auto simp: seal_def g1 g2 nonce canonical_value [OF assms(4)] seal_core_def derive_key_def Let_def)
qed

lemma demo_seal_totals: "aead_total demo_seal_crates" "hkdf_total demo_seal_crates" "ct_eq_sound demo_seal_crates"
  using demo_aead_total demo_crates_more_laws(1) demo_crates_laws(1)
  by (simp_all add: aead_total_def hkdf_total_def ct_eq_sound_def demo_seal_crates_def)

section \<open>Properties\<close>

text \<open>
  C24.  What is sealed to a public key opens with the secret behind it, to the same plaintext, for
  each of the four mechanisms: X25519 (with the secret itself or through the trait), P-256,
  X-Wing and ML-KEM with P-256, with the same info and associated data, whatever the generator
  yields.  The laws are those of the primitives: the agreements commute, their public keys are
  canonical points of fixed length, ML-KEM decapsulates what it encapsulated and the cipher
  decrypts what it encrypted.
\<close>

theorem sealed_blob_opens:
  assumes "aead_correct c" and "x25519_laws c" and "p256_laws c k" and "mlkem_laws k"
  shows "(\<forall>secret info aad p g blob. fst (seal c fill_bytes (x25519_public c secret) info aad p g) = Inr blob \<longrightarrow>
      open_blob c secret blob info aad = Inr p \<and> open_with c (X25519Agreement c secret) blob info aad = Inr p) \<and>
    (\<forall>generate secret info aad p g blob. (\<forall>h. p256_scalar_ok k (fst (generate h))) \<longrightarrow> p256_scalar_ok k secret \<longrightarrow>
      fst (seal_p256 c k fill_bytes generate (p256_public_of k secret) info aad p g) = Inr blob \<longrightarrow>
      open_with c (P256Agreement c k secret) blob info aad = Inr p) \<and>
    (\<forall>secret pk info aad p g blob. xwing_public_key c k secret = Inr pk \<longrightarrow>
      fst (seal_xwing c k fill_bytes pk info aad p g) = Inr blob \<longrightarrow> open_xwing c k secret blob info aad = Inr p) \<and>
    (\<forall>seed kp info aad p g blob. keypair_from_seed k seed = Inr kp \<longrightarrow>
      fst (seal_mlkem_p256 c k fill_bytes (kp_public_key kp) info aad p g) = Inr blob \<longrightarrow>
      open_mlkem_p256 c k (kp_ml_kem_seed kp) (P256Agreement c k (kp_classical kp)) blob info aad = Inr p)"
proof (intro conjI)
  show "\<forall>secret info aad p g blob. fst (seal c fill_bytes (x25519_public c secret) info aad p g) = Inr blob \<longrightarrow>
      open_blob c secret blob info aad = Inr p \<and> open_with c (X25519Agreement c secret) blob info aad = Inr p"
    by (intro allI impI) (rule x25519_opens [OF assms(1,2)])
  show "\<forall>secret pk info aad p g blob. xwing_public_key c k secret = Inr pk \<longrightarrow>
      fst (seal_xwing c k fill_bytes pk info aad p g) = Inr blob \<longrightarrow> open_xwing c k secret blob info aad = Inr p"
    by (intro allI impI) (rule xwing_opens [OF assms(1,2,4)])
  show "\<forall>seed kp info aad p g blob. keypair_from_seed k seed = Inr kp \<longrightarrow>
      fst (seal_mlkem_p256 c k fill_bytes (kp_public_key kp) info aad p g) = Inr blob \<longrightarrow>
      open_mlkem_p256 c k (kp_ml_kem_seed kp) (P256Agreement c k (kp_classical kp)) blob info aad = Inr p"
    by (intro allI impI) (rule mlp_opens [OF assms(1,3,4)])
  show "\<forall>generate secret info aad p g blob. (\<forall>h. p256_scalar_ok k (fst (generate h))) \<longrightarrow> p256_scalar_ok k secret \<longrightarrow>
      fst (seal_p256 c k fill_bytes generate (p256_public_of k secret) info aad p g) = Inr blob \<longrightarrow>
      open_with c (P256Agreement c k secret) blob info aad = Inr p"
    by (intro allI impI) (rule p256_opens [OF assms(1,3)])
qed

theorem sealed_blob_opens_witness:
  "\<exists>blob. fst (seal demo_seal_crates (\<lambda>n g. (replicate n g, g + 1)) (x25519_public demo_seal_crates [7, 8]) [] [1] [2, 3] 5) = Inr blob \<and>
     open_blob demo_seal_crates [7, 8] blob [] [1] = Inr [2, 3]"
proof -
  let ?pk = "x25519_public demo_seal_crates [7, 8]" and ?f = "\<lambda>n g. (replicate n g, g + 1)"
  have pk: "length ?pk = 32" "le_nat ?pk < 2 ^ 255 - 19"
    using demo_seal_laws(1) by (simp_all add: x25519_laws_def x25519_public_def)
  have dh: "x25519_dh demo_seal_crates (replicate 32 5) ?pk = 12 # 13 # replicate 29 5 @ [0]" by code_simp
  have nz: "12 # 13 # replicate 29 5 @ [0] \<noteq> (replicate 32 0 :: bytes)" by code_simp
  obtain blob where "fst (seal demo_seal_crates ?f ?pk [] [1] [2, 3] 5) = Inr blob"
    using seal_cases [OF demo_seal_totals pk(1), of ?f 5 "[2, 3]" "[1]" "[]"] pk(2) dh nz
    by (auto simp: SHARED_LEN_def Let_def)
  moreover from this have "open_blob demo_seal_crates [7, 8] blob [] [1] = Inr [2, 3]"
    by (rule sealed_blob_opens [OF demo_seal_laws(4,1,2,3), of ?f, THEN conjunct1, rule_format, THEN conjunct1])
  ultimately show ?thesis by blast
qed

text \<open>
  Weak public keys are refused.  For a recipient key of thirty-two bytes, \<open>seal\<close> refuses with
  \<open>BadKey\<close> exactly when the key read as a little-endian number is not below the field prime
  \<open>2^255 - 19\<close>, or when the agreement with the fresh secret is all zeros; otherwise it seals.  In
  the first case no randomness is drawn.
\<close>

theorem seal_refuses_weak_keys:
  assumes "aead_total c" and "hkdf_total c" and "ct_eq_sound c" and "length pk = 32"
    and "length (x25519_dh c (fst (fill_bytes SHARED_LEN g)) pk) = 32"
    and "length plaintext < 4294967296" and "length aad < 4294967296"
  shows "let eph = fst (fill_bytes SHARED_LEN g) in
     (if le_nat pk \<ge> 2 ^ 255 - 19 then seal c fill_bytes pk info aad plaintext g = (Inl BadKey, g)
      else if x25519_dh c eph pk = replicate 32 0 then fst (seal c fill_bytes pk info aad plaintext g) = Inl BadKey
      else \<exists>blob. fst (seal c fill_bytes pk info aad plaintext g) = Inr blob \<and> blob_enc blob = x25519_base c eph)"
  using assms by (rule seal_cases)

theorem seal_refuses_weak_keys_witness:
  "seal demo_seal_crates (\<lambda>n g. (replicate n g, g + 1)) (replicate 32 0xff) [] [] [] 5 = (Inl BadKey, 5)"
proof -
  have "\<not> canonical_x25519_public (replicate 32 0xff)" by code_simp
  then have "le_nat (replicate 32 0xff) \<ge> 2 ^ 255 - 19" by (simp add: canonical_value)
  then show ?thesis
    using seal_refuses_weak_keys [OF demo_seal_totals, of "replicate 32 0xff" "\<lambda>n g. (replicate n g, g + 1)" 5 "[]" "[]" "[]"]
    by (simp add: Let_def demo_seal_crates_def)
qed

end
