(* ===== verification/OC_Rule.thy ===== *)
theory OC_Rule
  imports OC_Agent
begin

text \<open>
  Attribute rules: \<^verbatim>\<open>oc-protocol/src/attribute_rule.rs\<close>.  A r is a list of clauses over the
  attributes of a reader, an optional longest lease and a list of tightenings, each a policy that
  applies unless a clause holds.  The clauses have one encoding; a r is accepted only within its
  limits, and what was written is read back.
\<close>

section \<open>Rules\<close>

definition MAX_NAME_BYTES :: nat where "MAX_NAME_BYTES = 64"
definition MAX_VALUES :: nat where "MAX_VALUES = 64"
definition MAX_CLAUSES :: nat where "MAX_CLAUSES = 16"
definition MAX_TIGHTENINGS :: nat where "MAX_TIGHTENINGS = 8"

abbreviation (input) RU_MAX_LEASE :: u16 where "RU_MAX_LEASE \<equiv> 1"
abbreviation (input) RU_CLAUSES :: u16 where "RU_CLAUSES \<equiv> 2"
abbreviation (input) RU_TIGHTENINGS :: u16 where "RU_TIGHTENINGS \<equiv> 3"

datatype Mode = AnyOf | AllOf | AtLeast

primrec mode_u8 :: "Mode \<Rightarrow> byte" where
  "mode_u8 AnyOf = 1"
| "mode_u8 AllOf = 2"
| "mode_u8 AtLeast = 3"

definition mode_from_u8 :: "byte \<Rightarrow> Mode option" where
  "mode_from_u8 b = (if b = 1 then Some AnyOf else if b = 2 then Some AllOf else if b = 3 then Some AtLeast else None)"

record Clause =
  cl_attribute :: bytes
  cl_mode :: Mode
  cl_values :: "bytes list"

record Tightening =
  tg_unless :: Clause
  tg_profile :: Policy

record AttributeRule =
  ru_clauses :: "Clause list"
  ru_max_lease_seconds :: "i64 option"
  ru_tightenings :: "Tightening list"

definition rule_default :: AttributeRule where
  "rule_default = \<lparr>ru_clauses = [], ru_max_lease_seconds = None, ru_tightenings = []\<rparr>"

definition rule_is_empty :: "AttributeRule \<Rightarrow> bool" where
  "rule_is_empty r \<longleftrightarrow> ru_clauses r = [] \<and> ru_max_lease_seconds r = None \<and> ru_tightenings r = []"

definition identifier_byte :: "byte \<Rightarrow> bool" where
  "identifier_byte b \<longleftrightarrow> is_ascii_alphanumeric b \<or> b \<in> {0x5f, 0x2e, 0x3a, 0x2f, 0x2d}"

definition is_identifier :: "bytes \<Rightarrow> bool" where
  "is_identifier text \<longleftrightarrow> text \<noteq> [] \<and> length text \<le> MAX_NAME_BYTES \<and> list_all identifier_byte text"

section \<open>Clauses as text\<close>

text \<open>\<^verbatim>\<open>str::split_once\<close>: what stands before and after the first occurrence of a pattern.\<close>

fun split_once :: "bytes \<Rightarrow> bytes \<Rightarrow> (bytes \<times> bytes) option" where
  "split_once pat [] = (if pat = [] then Some ([], []) else None)"
| "split_once pat (b # bs) =
     (if take (length pat) (b # bs) = pat then Some ([], drop (length pat) (b # bs))
      else map_option (\<lambda>(before, after). (b # before, after)) (split_once pat bs))"

text \<open>\<^verbatim>\<open>str::split\<close> at a character: always at least one part.\<close>

fun split_on :: "byte \<Rightarrow> bytes \<Rightarrow> bytes list" where
  "split_on c [] = [[]]"
| "split_on c (b # bs) = (if b = c then [] # split_on c bs else (case split_on c bs of p # ps \<Rightarrow> (b # p) # ps | [] \<Rightarrow> [[b]]))"

datatype ClauseError = NotNameEqualsValue | MixedSeparators

abbreviation (input) EQUALS :: byte where "EQUALS \<equiv> 0x3d"
abbreviation (input) GREATER :: byte where "GREATER \<equiv> 0x3e"
abbreviation (input) BAR :: byte where "BAR \<equiv> 0x7c"
abbreviation (input) AMPERSAND :: byte where "AMPERSAND \<equiv> 0x26"

definition parse_clause :: "bytes \<Rightarrow> ClauseError + Clause" where
  "parse_clause text =
     (case split_once [GREATER, EQUALS] text of
        Some (attribute, v) \<Rightarrow> Inr \<lparr>cl_attribute = attribute, cl_mode = AtLeast, cl_values = [v]\<rparr>
      | None \<Rightarrow>
          bindR (ok_or NotNameEqualsValue (split_once [EQUALS] text)) (\<lambda>(attribute, values).
          if BAR \<in> set values \<and> AMPERSAND \<in> set values then Inl MixedSeparators
          else
            (let (mode, split) = (if AMPERSAND \<in> set values then (AllOf, AMPERSAND) else (AnyOf, BAR)) in
             Inr \<lparr>cl_attribute = attribute, cl_mode = mode, cl_values = split_on split values\<rparr>)))"

section \<open>Limits\<close>

definition check_clause :: "Clause \<Rightarrow> u16 \<Rightarrow> FormatError + unit" where
  "check_clause clause at =
     bindR (ensure (\<not> (\<not> is_identifier (cl_attribute clause) \<or> \<not> list_all is_identifier (cl_values clause)))
       (UnknownCriticalField at)) (\<lambda>_.
     bindR (ensure (\<not> (cl_values clause = [] \<or> length (cl_values clause) > MAX_VALUES))
       (BadFieldLength at (length (cl_values clause)))) (\<lambda>_.
     ensure (\<not> (cl_mode clause = AtLeast \<and> length (cl_values clause) \<noteq> 1))
       (BadFieldLength at (length (cl_values clause)))))"

definition check_attribute_rule :: "AttributeRule \<Rightarrow> FormatError + unit" where
  "check_attribute_rule r =
     bindR (ensure (\<not> length (ru_clauses r) > MAX_CLAUSES) (BadFieldLength RU_CLAUSES (length (ru_clauses r)))) (\<lambda>_.
     bindR (ensure (\<not> length (ru_tightenings r) > MAX_TIGHTENINGS)
       (BadFieldLength RU_TIGHTENINGS (length (ru_tightenings r)))) (\<lambda>_.
     bindR (ensure (\<not> (case ru_max_lease_seconds r of Some seconds \<Rightarrow> sint seconds \<le> 0 | None \<Rightarrow> False))
       (UnknownCriticalField RU_MAX_LEASE)) (\<lambda>_.
     bindR (foldR (\<lambda>clause _. check_clause clause RU_CLAUSES) (ru_clauses r) ()) (\<lambda>_.
     foldR (\<lambda>t _. check_clause (tg_unless t) RU_TIGHTENINGS) (ru_tightenings r) ()))))"

section \<open>Bytes\<close>

definition rule_stream :: "u16 \<Rightarrow> bytes list \<Rightarrow> FormatError + bytes" where
  "rule_stream at items =
     foldR (\<lambda>item out.
       bindR (ok_or (BadFieldLength at (length item)) (u32_of_usize (length item))) (\<lambda>len.
       Inr (out @ le32 len @ item))) items []"

function unstream_loop :: "u16 \<Rightarrow> nat \<Rightarrow> bytes \<Rightarrow> bytes list \<Rightarrow> FormatError + bytes list" where
  "unstream_loop at limit rest out =
     (if rest = [] then Inr out
      else if length out \<ge> limit then Inl (BadFieldLength at (saturating_add_usize (length out) 1))
      else
        (case split_at_checked rest 4 of
           None \<Rightarrow> Inl (BadFieldLength at (length rest))
         | Some (head, tail) \<Rightarrow>
             (case split_at_checked tail (le_nat head) of
                None \<Rightarrow> Inl (BadFieldLength at (length tail))
              | Some (item, after) \<Rightarrow> unstream_loop at limit after (out @ [item]))))"
  by pat_completeness auto
termination
  by (relation "measure (\<lambda>(at, limit, rest, out). length rest)")
    (auto simp: split_at_checked_def split: if_splits)

declare unstream_loop.simps [simp del]

definition unstream :: "u16 \<Rightarrow> bytes \<Rightarrow> nat \<Rightarrow> FormatError + bytes list" where
  "unstream at bs limit = unstream_loop at limit bs []"

definition encode_clause :: "Clause \<Rightarrow> FormatError + bytes" where
  "encode_clause clause =
     bindR (rule_stream RU_CLAUSES (cl_attribute clause # cl_values clause)) (\<lambda>parts.
     Inr (mode_u8 (cl_mode clause) # parts))"

definition rule_text :: "bytes \<Rightarrow> FormatError + bytes" where
  "rule_text bs = ok_or (UnknownCriticalField RU_CLAUSES) (from_utf8 bs)"

definition decode_clause :: "bytes \<Rightarrow> FormatError + Clause" where
  "decode_clause item =
     (case item of
        [] \<Rightarrow> Inl (BadFieldLength RU_CLAUSES 0)
      | m # rest \<Rightarrow>
          bindR (ok_or (UnknownCriticalField RU_CLAUSES) (mode_from_u8 m)) (\<lambda>mode.
          bindR (unstream RU_CLAUSES rest (saturating_add_usize MAX_VALUES 1)) (\<lambda>parts.
          case parts of
            [] \<Rightarrow> Inl (BadFieldLength RU_CLAUSES 0)
          | attribute # values \<Rightarrow>
              bindR (rule_text attribute) (\<lambda>attribute.
              bindR (mapR rule_text values) (\<lambda>values.
              Inr \<lparr>cl_attribute = attribute, cl_mode = mode, cl_values = values\<rparr>)))))"

definition encode_rule_tightening :: "Tightening \<Rightarrow> FormatError + bytes" where
  "encode_rule_tightening t =
     bindR (policy_encode CONTAINER_VERSION (tg_profile t)) (\<lambda>profile.
     bindR (encode_clause (tg_unless t)) (\<lambda>unless.
     rule_stream RU_TIGHTENINGS [unless, profile]))"

definition decode_rule_tightening :: "bytes \<Rightarrow> FormatError + Tightening" where
  "decode_rule_tightening item =
     bindR (unstream RU_TIGHTENINGS item 2) (\<lambda>parts.
     case parts of
       [unless, profile] \<Rightarrow>
         bindR (decode_clause unless) (\<lambda>unless.
         bindR (policy_decode SUPPORTED_READER_VERSION profile) (\<lambda>profile.
         Inr \<lparr>tg_unless = unless, tg_profile = profile\<rparr>))
     | _ \<Rightarrow> Inl (BadFieldLength RU_TIGHTENINGS (length parts)))"

definition encode_attribute_rule :: "AttributeRule \<Rightarrow> FormatError + bytes" where
  "encode_attribute_rule r =
     bindR (check_attribute_rule r) (\<lambda>_.
     bindR (mapR encode_clause (ru_clauses r)) (\<lambda>clauses.
     bindR (rule_stream RU_CLAUSES clauses) (\<lambda>clauses.
     bindR (if ru_tightenings r \<noteq> [] then
              bindR (mapR encode_rule_tightening (ru_tightenings r)) (\<lambda>items.
              bindR (rule_stream RU_TIGHTENINGS items) (\<lambda>bs.
              Inr [(RU_TIGHTENINGS, bs)]))
            else Inr []) (\<lambda>tightenings.
     write_fields
       (opt_field RU_MAX_LEASE (map_option (\<lambda>w. le64 w) (ru_max_lease_seconds r)) @
        [(RU_CLAUSES, clauses)] @
        tightenings)))))"

record AttributeRuleDecoder =
  ar_rule :: AttributeRule
  ar_clauses_seen :: bool

definition attribute_rule_start :: AttributeRuleDecoder where
  "attribute_rule_start = \<lparr>ar_rule = rule_default, ar_clauses_seen = False\<rparr>"

definition attribute_rule_step :: "u16 \<Rightarrow> bytes \<Rightarrow> AttributeRuleDecoder \<Rightarrow> FormatError + AttributeRuleDecoder" where
  "attribute_rule_step tag value d =
     (if tag = RU_MAX_LEASE then
        bindR (u64_le tag value) (\<lambda>w. Inr (d\<lparr>ar_rule := (ar_rule d)\<lparr>ru_max_lease_seconds := Some w\<rparr>\<rparr>))
      else if tag = RU_CLAUSES then
        bindR (unstream RU_CLAUSES value MAX_CLAUSES) (\<lambda>items.
        bindR (mapR decode_clause items) (\<lambda>clauses.
        Inr (d\<lparr>ar_clauses_seen := True, ar_rule := (ar_rule d)\<lparr>ru_clauses := ru_clauses (ar_rule d) @ clauses\<rparr>\<rparr>)))
      else if tag = RU_TIGHTENINGS then
        bindR (unstream RU_TIGHTENINGS value MAX_TIGHTENINGS) (\<lambda>items.
        bindR (ensure (\<not> items = []) (BadFieldLength RU_TIGHTENINGS 0)) (\<lambda>_.
        bindR (mapR decode_rule_tightening items) (\<lambda>ts.
        Inr (d\<lparr>ar_rule := (ar_rule d)\<lparr>ru_tightenings := ru_tightenings (ar_rule d) @ ts\<rparr>\<rparr>))))
      else bindR (refuse_if_critical tag) (\<lambda>_. Inr d))"

definition decode_attribute_rule :: "bytes \<Rightarrow> FormatError + AttributeRule" where
  "decode_attribute_rule bs =
     bindR (tlv_values attribute_rule_step bs attribute_rule_start) (\<lambda>d.
     bindR (ensure (ar_clauses_seen d) (MissingField RU_CLAUSES)) (\<lambda>_.
     bindR (check_attribute_rule (ar_rule d)) (\<lambda>_.
     Inr (ar_rule d))))"

section \<open>Streams and clauses\<close>

lemma unstream_loop_item:
  "unstream_loop at limit rest out =
     (if rest = [] then Inr out
      else if length out \<ge> limit then Inl (BadFieldLength at (saturating_add_usize (length out) 1))
      else case next_item rest of
          Some (item, after) \<Rightarrow> unstream_loop at limit after (out @ [item])
        | None \<Rightarrow> unstream_loop at limit rest out)"
  by (subst (1 2) unstream_loop.simps) (auto simp: next_item_def split: option.splits)

interpretation unstream_reader: stream_reader "unstream_loop at limit" limit for at limit
proof
  fix rest and out xs :: "bytes list"
  assume "rest \<noteq> []" and "limit \<le> length out \<or> next_item rest = None"
  then show "unstream_loop at limit rest out \<noteq> Inr xs"
    by (subst unstream_loop.simps) (auto simp: next_item_def split: option.splits)
next
  fix rest x tail and out :: "bytes list"
  assume item: "next_item rest = Some (x, tail)" and room: "length out < limit"
  then have "rest \<noteq> []" using next_itemD(3) by fastforce
  with item room show "unstream_loop at limit rest out = unstream_loop at limit tail (out @ [x])"
    by (subst unstream_loop_item) simp
qed (simp add: unstream_loop.simps)

lemma unstream_Inr:
  "unstream at bs limit = Inr items \<longleftrightarrow>
     bs = enc_stream items \<and> (\<forall>item \<in> set items. length item < 4294967296) \<and> length items \<le> limit"
  unfolding unstream_def by (rule unstream_reader.reads_iff)

lemma rule_stream_Inr:
  "rule_stream at items = Inr bs \<longleftrightarrow> (\<forall>item \<in> set items. length item < 4294967296) \<and> bs = enc_stream items"
proof -
  have "foldR (\<lambda>item out. bindR (ok_or (BadFieldLength at (length item)) (u32_of_usize (length item)))
      (\<lambda>len. Inr (out @ le32 len @ item))) items out = Inr bs \<longleftrightarrow>
      (\<forall>item \<in> set items. length item < 4294967296) \<and> bs = out @ enc_stream items" for out
    by (induction items arbitrary: out)
      (auto simp: bindR_eq_Inr ok_or_eq_Inr u32_of_usize_def unat_of_nat take_bit_nat_eq_self)
  then show ?thesis by (simp add: rule_stream_def)
qed

lemma case_list_Inr: "(case xs of [] \<Rightarrow> Inl e | y # ys \<Rightarrow> f y ys) = Inr c \<longleftrightarrow> (\<exists>y ys. xs = y # ys \<and> f y ys = Inr c)"
  by (cases xs) auto

lemma mode_from_u8_eq: "mode_from_u8 b = Some m \<longleftrightarrow> b = mode_u8 m"
  by (cases m) (auto simp: mode_from_u8_def)

lemma mapR_rule_text: "mapR rule_text vs = Inr xs \<longleftrightarrow> xs = vs \<and> list_all utf8_valid vs"
  by (induction vs arbitrary: xs) (auto simp: bindR_eq_Inr rule_text_def ok_or_eq_Inr from_utf8_def)

text \<open>A clause has one encoding, and exactly the clauses with text in them are read.\<close>

lemma decode_clause_iff:
  "decode_clause item = Inr c \<longleftrightarrow>
     encode_clause c = Inr item \<and> length (cl_values c) \<le> MAX_VALUES \<and> utf8_valid (cl_attribute c) \<and>
     list_all utf8_valid (cl_values c)"
proof -
  have "decode_clause item = Inr c \<longleftrightarrow>
      (\<exists>m rest. item = m # rest \<and> m = mode_u8 (cl_mode c) \<and>
        unstream RU_CLAUSES rest (MAX_VALUES + 1) = Inr (cl_attribute c # cl_values c) \<and>
        utf8_valid (cl_attribute c) \<and> list_all utf8_valid (cl_values c))"
    by (cases c, auto simp: decode_clause_def case_list_Inr bindR_eq_Inr ok_or_eq_Inr mode_from_u8_eq mapR_rule_text rule_text_def from_utf8_def
        saturating_add_usize_def MAX_VALUES_def split: if_splits) blast
  also have "\<dots> \<longleftrightarrow> encode_clause c = Inr item \<and> length (cl_values c) \<le> MAX_VALUES \<and> utf8_valid (cl_attribute c) \<and>
      list_all utf8_valid (cl_values c)"
    by (auto simp: unstream_Inr encode_clause_def bindR_eq_Inr rule_stream_Inr)
  finally show ?thesis .
qed

section \<open>Rules are read as they were written\<close>

lemma check_clause_Inr:
  "check_clause c at = Inr u \<longleftrightarrow>
     is_identifier (cl_attribute c) \<and> list_all is_identifier (cl_values c) \<and> cl_values c \<noteq> [] \<and>
     length (cl_values c) \<le> MAX_VALUES \<and> (cl_mode c = AtLeast \<longrightarrow> length (cl_values c) = 1)"
  by (auto simp: check_clause_def bindR_eq_Inr ensure_eq_Inr)

lemma check_attribute_rule_Inr:
  "check_attribute_rule r = Inr u \<longleftrightarrow>
     length (ru_clauses r) \<le> MAX_CLAUSES \<and> length (ru_tightenings r) \<le> MAX_TIGHTENINGS \<and>
     (\<forall>s. ru_max_lease_seconds r = Some s \<longrightarrow> 0 < sint s) \<and>
     (\<forall>c \<in> set (ru_clauses r). check_clause c RU_CLAUSES = Inr ()) \<and>
     (\<forall>t \<in> set (ru_tightenings r). check_clause (tg_unless t) RU_TIGHTENINGS = Inr ())"
  by (auto simp: check_attribute_rule_def bindR_eq_Inr ensure_eq_Inr foldR_check split: option.splits)

lemma identifier_utf8: "is_identifier v \<Longrightarrow> utf8_valid v"
proof (rule utf8_valid_ascii)
  have "identifier_byte b \<Longrightarrow> unat b < 0x80" for b
    by (auto simp: identifier_byte_def is_ascii_alphanumeric_def is_ascii_lowercase_def is_ascii_uppercase_def
        is_ascii_digit_def word_le_nat_alt)
  then show "is_identifier v \<Longrightarrow> list_all (\<lambda>b. unat b < 0x80) v" by (auto simp: is_identifier_def list_all_iff)
qed

lemma decode_encode_clause:
  assumes "check_clause c at = Inr ()" and "encode_clause c = Inr item"
  shows "decode_clause item = Inr c"
  using assms by (auto simp: decode_clause_iff check_clause_Inr list_all_iff identifier_utf8)

definition attribute_rule_wf :: "AttributeRule \<Rightarrow> bool" where
  "attribute_rule_wf r \<longleftrightarrow> (\<forall>t \<in> set (ru_tightenings r). policy_wf CONTAINER_VERSION (tg_profile t))"

lemma decode_encode_rule_tightening:
  assumes "check_clause (tg_unless t) at = Inr ()" and "policy_wf CONTAINER_VERSION (tg_profile t)"
    and "encode_rule_tightening t = Inr item"
  shows "decode_rule_tightening item = Inr t"
proof -
  obtain profile unless where e: "policy_encode CONTAINER_VERSION (tg_profile t) = Inr profile"
    "encode_clause (tg_unless t) = Inr unless" "rule_stream RU_TIGHTENINGS [unless, profile] = Inr item"
    using assms(3) by (auto simp: encode_rule_tightening_def bindR_eq_Inr)
  have "policy_decode SUPPORTED_READER_VERSION profile = Inr (tg_profile t)"
    using policy_codec.dec_enc [OF assms(2) e(1)] by (simp add: SUPPORTED_READER_VERSION_def CONTAINER_VERSION_def)
  moreover have "unstream RU_TIGHTENINGS item 2 = Inr [unless, profile]" using e(3) by (simp add: unstream_Inr rule_stream_Inr)
  ultimately show ?thesis
    using decode_encode_clause [OF assms(1) e(2)] by (simp add: decode_rule_tightening_def)
qed

lemma decode_encode_attribute_rule:
  assumes "attribute_rule_wf r" and "encode_attribute_rule r = Inr bs"
  shows "decode_attribute_rule bs = Inr r"
proof -
  obtain items clauses fs where ok: "check_attribute_rule r = Inr ()"
    and items: "mapR encode_clause (ru_clauses r) = Inr items" "rule_stream RU_CLAUSES items = Inr clauses"
    and fs: "(if ru_tightenings r \<noteq> [] then
         bindR (mapR encode_rule_tightening (ru_tightenings r)) (\<lambda>items.
         bindR (rule_stream RU_TIGHTENINGS items) (\<lambda>bs. Inr [(RU_TIGHTENINGS, bs)]))
       else Inr []) = Inr fs"
    and w: "write_fields (opt_field RU_MAX_LEASE (map_option (\<lambda>w. le64 w) (ru_max_lease_seconds r)) @
         [(RU_CLAUSES, clauses)] @ fs) = Inr bs"
    using assms(2) by (auto simp: encode_attribute_rule_def bindR_eq_Inr)
  note chk = ok [unfolded check_attribute_rule_Inr]
  have c: "unstream RU_CLAUSES clauses MAX_CLAUSES = Inr items"
    using items(2) chk mapR_length [OF items(1)] by (simp add: unstream_Inr rule_stream_Inr)
  have c': "mapR decode_clause items = Inr (ru_clauses r)"
    by (rule mapR_inverse [OF items(1)]) (use chk decode_encode_clause in blast)
  have t: "run_fields attribute_rule_step fs d =
      Inr (d\<lparr>ar_rule := (ar_rule d)\<lparr>ru_tightenings := ru_tightenings (ar_rule d) @ ru_tightenings r\<rparr>\<rparr>)" for d
  proof (cases "ru_tightenings r = []")
    case False
    then obtain ts v where ts: "mapR encode_rule_tightening (ru_tightenings r) = Inr ts" "rule_stream RU_TIGHTENINGS ts = Inr v"
      "fs = [(RU_TIGHTENINGS, v)]" using fs by (auto simp: bindR_eq_Inr)
    have "mapR decode_rule_tightening ts = Inr (ru_tightenings r)"
      by (rule mapR_inverse [OF ts(1)]) (use chk assms(1) decode_encode_rule_tightening in \<open>unfold attribute_rule_wf_def, blast\<close>)
    moreover have "unstream RU_TIGHTENINGS v MAX_TIGHTENINGS = Inr ts" "ts \<noteq> []"
      using ts(2) chk mapR_length [OF ts(1)] False by (auto simp: unstream_Inr rule_stream_Inr)
    ultimately show ?thesis by (simp add: ts(3) attribute_rule_step_def)
  qed (use fs in simp)
  have asc: "ascending None (opt_field RU_MAX_LEASE (map_option (\<lambda>w. le64 w) (ru_max_lease_seconds r)) @
      [(RU_CLAUSES, clauses)] @ fs)"
    and bs: "bs = enc_fields (opt_field RU_MAX_LEASE (map_option (\<lambda>w. le64 w) (ru_max_lease_seconds r)) @
      [(RU_CLAUSES, clauses)] @ fs)" using w by (simp_all add: write_fields_eq_Inr)
  have "tlv_values attribute_rule_step bs attribute_rule_start = Inr \<lparr>ar_rule = r, ar_clauses_seen = True\<rparr>"
    unfolding bs tlv_values_read [OF asc]
    by (cases "ru_max_lease_seconds r")
      (simp_all add: t attribute_rule_step_def c c' attribute_rule_start_def rule_default_def)
  with ok show ?thesis by (simp add: decode_attribute_rule_def)
qed

interpretation attribute_rule_codec: codec encode_attribute_rule decode_attribute_rule attribute_rule_wf
  by unfold_locales (rule decode_encode_attribute_rule)

text \<open>A decoded rule is within its limits.\<close>

lemma decoded_rule_checked: "decode_attribute_rule bs = Inr r \<Longrightarrow> check_attribute_rule r = Inr ()"
  by (auto simp: decode_attribute_rule_def bindR_eq_Inr)

section \<open>The text of a clause\<close>

lemma split_once_first:
  assumes "pat \<noteq> []" and "hd pat \<notin> set a"
  shows "split_once pat (a @ pat @ b) = Some (a, b)"
  using assms(2)
proof (induction a)
  case Nil
  from assms(1) obtain p ps where "pat = p # ps" by (cases pat) auto
  then show ?case by simp
next
  case (Cons x a)
  then have "take (length pat) (x # a @ pat @ b) \<noteq> pat" using assms(1) by (cases pat) auto
  with Cons show ?case by simp
qed

lemma split_once_absent: "pat \<noteq> [] \<Longrightarrow> hd pat \<notin> set bs \<Longrightarrow> split_once pat bs = None"
  by (induction bs) (auto simp: neq_Nil_conv)

definition join_with :: "byte \<Rightarrow> bytes list \<Rightarrow> bytes" where
  "join_with c ps = (case ps of [] \<Rightarrow> [] | p # qs \<Rightarrow> p @ concat (map ((#) c) qs))"

lemma split_on_join:
  assumes "ps \<noteq> []" and "\<forall>p \<in> set ps. c \<notin> set p"
  shows "split_on c (join_with c ps) = ps"
proof -
  have one: "c \<notin> set q \<Longrightarrow> split_on c (q @ c # bs) = q # split_on c bs" "c \<notin> set q \<Longrightarrow> split_on c q = [q]" for q bs
    by (induction q) auto
  have "\<forall>p \<in> set (p # qs). c \<notin> set p \<Longrightarrow> split_on c (p @ concat (map ((#) c) qs)) = p # qs" for p qs
    by (induction qs arbitrary: p) (simp_all add: one)
  with assms show ?thesis by (cases ps) (simp_all add: join_with_def)
qed

definition clause_text :: "Clause \<Rightarrow> bytes" where
  "clause_text c = cl_attribute c @
     (case cl_mode c of
        AtLeast \<Rightarrow> [GREATER, EQUALS] @ join_with BAR (cl_values c)
      | AllOf \<Rightarrow> [EQUALS] @ join_with AMPERSAND (cl_values c)
      | AnyOf \<Rightarrow> [EQUALS] @ join_with BAR (cl_values c))"

lemma identifier_free: "is_identifier v \<Longrightarrow> b \<in> {EQUALS, GREATER, BAR, AMPERSAND} \<Longrightarrow> b \<notin> set v"
  by (auto simp: is_identifier_def list_all_iff identifier_byte_def is_ascii_alphanumeric_def is_ascii_lowercase_def
      is_ascii_uppercase_def is_ascii_digit_def word_le_nat_alt)

lemma set_join_with: "set (join_with c ps) \<subseteq> insert c (\<Union> (set ` set ps))"
  by (cases ps) (auto simp: join_with_def)

text \<open>
  The text form of an admissible clause is parsed to that clause; a single value joined by
  \<^verbatim>\<open>&\<close> cannot be told from one joined by \<^verbatim>\<open>|\<close>, so it is left out.
\<close>

lemma parse_clause_text:
  assumes "check_clause c at = Inr ()" and "cl_mode c = AllOf \<longrightarrow> length (cl_values c) > 1"
  shows "parse_clause (clause_text c) = Inr c"
proof -
  have ok: "is_identifier (cl_attribute c)" "\<forall>v \<in> set (cl_values c). is_identifier v" "cl_values c \<noteq> []"
    "cl_mode c = AtLeast \<longrightarrow> length (cl_values c) = 1" using assms(1) by (auto simp: check_clause_Inr list_all_iff)
  have free: "b \<in> {EQUALS, GREATER, BAR, AMPERSAND} \<Longrightarrow> b \<notin> set (cl_attribute c)"
    "b \<in> {EQUALS, GREATER, BAR, AMPERSAND} \<Longrightarrow> v \<in> set (cl_values c) \<Longrightarrow> b \<notin> set v" for b v
    using identifier_free ok by blast+
  have join: "b \<noteq> s \<Longrightarrow> b \<in> {EQUALS, GREATER, BAR, AMPERSAND} \<Longrightarrow> b \<notin> set (join_with s (cl_values c))" for b s
    using set_join_with [of s "cl_values c"] free(2) by blast
  have split: "s \<in> {BAR, AMPERSAND} \<Longrightarrow> split_on s (join_with s (cl_values c)) = cl_values c" for s
    using ok(3) free(2) by (intro split_on_join) auto
  have no: "split_once [GREATER, EQUALS] (cl_attribute c @ [EQUALS] @ join_with s (cl_values c)) = None"
    if "s \<in> {BAR, AMPERSAND}" for s
    using free(1) [of GREATER] join [of GREATER s] that by (intro split_once_absent) auto
  have eq: "split_once [EQUALS] (cl_attribute c @ [EQUALS] @ bs) = Some (cl_attribute c, bs)" for bs
    using free(1) by (intro split_once_first) auto
  show ?thesis
  proof (cases "cl_mode c")
    case AtLeast
    then obtain v where v: "cl_values c = [v]" using ok(4) by (auto simp: length_Suc_conv)
    have "split_once [GREATER, EQUALS] (cl_attribute c @ [GREATER, EQUALS] @ v) = Some (cl_attribute c, v)"
      using free(1) by (intro split_once_first) auto
    then show ?thesis using AtLeast v by (cases c) (simp add: parse_clause_def clause_text_def join_with_def)
  next
    case AnyOf
    have "AMPERSAND \<notin> set (join_with BAR (cl_values c))" by (rule join) simp_all
    with AnyOf no [of BAR] eq split [of BAR] show ?thesis by (cases c) (simp add: parse_clause_def clause_text_def)
  next
    case AllOf
    then obtain v w vs where v: "cl_values c = v # w # vs" using assms(2) by (cases "cl_values c"; cases "tl (cl_values c)") auto
    then have "AMPERSAND \<in> set (join_with AMPERSAND (cl_values c))" by (simp add: join_with_def)
    moreover have "BAR \<notin> set (join_with AMPERSAND (cl_values c))" by (rule join) simp_all
    ultimately show ?thesis using AllOf no [of AMPERSAND] eq split [of AMPERSAND]
      by (cases c) (simp add: parse_clause_def clause_text_def)
  qed
qed

end
