(* ===== verification/OC_Order.thy ===== *)
theory OC_Order
  imports OC_Rule OC_Access
begin

text \<open>
  Orders of an author: \<^verbatim>\<open>oc-protocol/src/order.rs\<close>.  An order is a signed record of one of thirteen
  kinds; every kind admits some of the optional fields and requires others (\<open>check_order\<close>, the
  function \<^verbatim>\<open>check\<close>), and the same check guards the writer and the reader.
\<close>

section \<open>Orders\<close>

definition ORDER_VERSION :: u16 where "ORDER_VERSION = 1"
definition MAX_HEIRS :: nat where "MAX_HEIRS = 16"
definition MAX_KEYS :: nat where "MAX_KEYS = 16"
definition MAX_DEVICE_NAMES :: nat where "MAX_DEVICE_NAMES = 4"

abbreviation (input) OR_VERSION :: u16 where "OR_VERSION \<equiv> 1"
abbreviation (input) OR_FILE_ID :: u16 where "OR_FILE_ID \<equiv> 2"
abbreviation (input) OR_KIND :: u16 where "OR_KIND \<equiv> 3"
abbreviation (input) OR_AT :: u16 where "OR_AT \<equiv> 4"
abbreviation (input) OR_MAX_DEVICES :: u16 where "OR_MAX_DEVICES \<equiv> 5"
abbreviation (input) OR_MAX_GRANTS :: u16 where "OR_MAX_GRANTS \<equiv> 6"
abbreviation (input) OR_KEYS :: u16 where "OR_KEYS \<equiv> 7"
abbreviation (input) OR_THRESHOLD :: u16 where "OR_THRESHOLD \<equiv> 8"
abbreviation (input) OR_DEVICE_FPR :: u16 where "OR_DEVICE_FPR \<equiv> 9"
abbreviation (input) OR_APPROVE :: u16 where "OR_APPROVE \<equiv> 10"
abbreviation (input) OR_SILENCE_SECONDS :: u16 where "OR_SILENCE_SECONDS \<equiv> 11"
abbreviation (input) OR_HEIR_MODE :: u16 where "OR_HEIR_MODE \<equiv> 12"
abbreviation (input) OR_BEQUEST :: u16 where "OR_BEQUEST \<equiv> 13"
abbreviation (input) OR_SIGNER_KEY :: u16 where "OR_SIGNER_KEY \<equiv> 14"
abbreviation (input) OR_PROPOSAL_TTL :: u16 where "OR_PROPOSAL_TTL \<equiv> 15"
abbreviation (input) OR_FROZEN :: u16 where "OR_FROZEN \<equiv> 16"
abbreviation (input) OR_OLD_DEVICES :: u16 where "OR_OLD_DEVICES \<equiv> 17"
abbreviation (input) OR_NEW_DEVICES :: u16 where "OR_NEW_DEVICES \<equiv> 18"
abbreviation (input) OR_RULE :: u16 where "OR_RULE \<equiv> 19"
abbreviation (input) OR_AUTHORITY_KEY :: u16 where "OR_AUTHORITY_KEY \<equiv> 20"
abbreviation (input) OR_GRANT_ID :: u16 where "OR_GRANT_ID \<equiv> 21"

datatype Kind =
    Register
  | Revoke
  | SetLimits
  | SetCoauthors
  | SetApprovers
  | ApproveDevice
  | Alive
  | SetHeir
  | Freeze
  | ReplaceDevice
  | SetRule
  | WatchAuthor
  | RevokeGrant

primrec kind_u8 :: "Kind \<Rightarrow> byte" where
  "kind_u8 Register = 1"
| "kind_u8 Revoke = 2"
| "kind_u8 SetLimits = 3"
| "kind_u8 SetCoauthors = 4"
| "kind_u8 SetApprovers = 5"
| "kind_u8 ApproveDevice = 6"
| "kind_u8 Alive = 7"
| "kind_u8 SetHeir = 8"
| "kind_u8 Freeze = 9"
| "kind_u8 ReplaceDevice = 10"
| "kind_u8 SetRule = 11"
| "kind_u8 WatchAuthor = 12"
| "kind_u8 RevokeGrant = 13"

definition kind_from_byte :: "byte \<Rightarrow> Kind option" where
  "kind_from_byte b =
     (if b = 1 then Some Register
      else if b = 2 then Some Revoke
      else if b = 3 then Some SetLimits
      else if b = 4 then Some SetCoauthors
      else if b = 5 then Some SetApprovers
      else if b = 6 then Some ApproveDevice
      else if b = 7 then Some Alive
      else if b = 8 then Some SetHeir
      else if b = 9 then Some Freeze
      else if b = 10 then Some ReplaceDevice
      else if b = 11 then Some SetRule
      else if b = 12 then Some WatchAuthor
      else if b = 13 then Some RevokeGrant
      else None)"

datatype HeirMode = Off | Open | Close

primrec heir_mode_u8 :: "HeirMode \<Rightarrow> byte" where
  "heir_mode_u8 Off = 0"
| "heir_mode_u8 Open = 1"
| "heir_mode_u8 Close = 2"

definition heir_mode_from_byte :: "byte \<Rightarrow> HeirMode option" where
  "heir_mode_from_byte b = (if b = 0 then Some Off else if b = 1 then Some Open else if b = 2 then Some Close else None)"

record Order =
  od_file_id :: bytes
  od_kind :: Kind
  od_at :: i64
  od_max_devices :: "u32 option"
  od_max_grants :: "u32 option"
  od_keys :: "bytes list option"
  od_threshold :: "byte option"
  od_device_fpr :: "bytes option"
  od_approve :: "bool option"
  od_silence_seconds :: "u64 option"
  od_heir_mode :: "HeirMode option"
  od_bequests :: "bytes list option"
  od_signer_key :: "bytes option"
  od_proposal_ttl :: "u64 option"
  od_frozen :: "bool option"
  od_old_devices :: "bytes list option"
  od_new_devices :: "bytes list option"
  od_rule :: "AttributeRule option"
  od_authority_key :: "bytes option"
  od_grant_id :: "bytes option"

definition order_new :: "bytes \<Rightarrow> Kind \<Rightarrow> i64 \<Rightarrow> Order" where
  "order_new file_id kind at =
     \<lparr>od_file_id = file_id, od_kind = kind, od_at = at,
      od_max_devices = None, od_max_grants = None, od_keys = None, od_threshold = None, od_device_fpr = None, od_approve = None, od_silence_seconds = None, od_heir_mode = None, od_bequests = None, od_signer_key = None, od_proposal_ttl = None, od_frozen = None, od_old_devices = None, od_new_devices = None, od_rule = None, od_authority_key = None, od_grant_id = None\<rparr>"

section \<open>What a kind admits\<close>

definition required :: "bool \<Rightarrow> bool \<Rightarrow> u16 \<Rightarrow> FormatError + unit" where
  "required present wanted tag =
     (if \<not> present \<and> wanted then Inl (MissingField tag)
      else if present \<and> \<not> wanted then Inl (UnknownCriticalField tag)
      else Inr ())"

definition only_if :: "bool \<Rightarrow> bool \<Rightarrow> u16 \<Rightarrow> FormatError + unit" where
  "only_if present allowed tag = (if present \<and> \<not> allowed then Inl (UnknownCriticalField tag) else Inr ())"

abbreviation (input) zero_id :: bytes where "zero_id \<equiv> replicate 16 0"

definition check_names :: "bytes list \<Rightarrow> u16 \<Rightarrow> FormatError + unit" where
  "check_names names tag =
     bindR (ensure (\<not> (names = [] \<or> length names > MAX_DEVICE_NAMES)) (BadFieldLength tag (length names))) (\<lambda>_.
     foldR (\<lambda>(at, name) _.
         ensure (\<not> (name = replicate 32 0 \<or> name \<in> set (drop (at + 1) names))) (UnknownCriticalField tag))
       (enumerate 0 names) ())"

definition check_roster :: "bytes list \<Rightarrow> byte \<Rightarrow> FormatError + unit" where
  "check_roster keys threshold =
     bindR (ensure (\<not> length keys > MAX_KEYS) (BadFieldLength OR_KEYS (length keys))) (\<lambda>_.
     bindR (foldR (\<lambda>(at, key) _. ensure (\<not> key \<in> set (drop (at + 1) keys)) (UnknownCriticalField OR_KEYS))
       (enumerate 0 keys) ()) (\<lambda>_.
     let wanted = unat threshold;
         ok = (if keys = [] then wanted = 0 else wanted \<ge> 1 \<and> wanted \<le> length keys)
     in ensure ok (UnknownCriticalField OR_THRESHOLD)))"

definition check_bequests :: "bytes list \<Rightarrow> bytes \<Rightarrow> FormatError + unit" where
  "check_bequests all file_id =
     bindR (ensure (\<not> (all = [] \<or> length all > MAX_HEIRS)) (BadFieldLength OR_BEQUEST (length all))) (\<lambda>_.
     bindR (foldR (\<lambda>bs seen.
         bindR (decode_decision bs) (\<lambda>decision.
         let fits = de_file_id decision = file_id \<and> de_seq decision = HEIR_SEQ \<and> de_approve decision \<and>
                    de_share_b decision \<noteq> None in
         bindR (ensure fits (UnknownCriticalField OR_BEQUEST)) (\<lambda>_.
         bindR (ensure (\<not> de_device_fpr decision \<in> set seen) (UnknownCriticalField OR_BEQUEST)) (\<lambda>_.
         Inr (seen @ [de_device_fpr decision]))))) all []) (\<lambda>_.
     Inr ()))"

definition check_order :: "Order \<Rightarrow> FormatError + unit" where
  "check_order odr =
     (let kind = od_kind odr; register = (kind = Register); set_limits = (kind = SetLimits);
          roster = (kind = SetCoauthors \<or> kind = SetApprovers); vote = (kind = ApproveDevice);
          freeze = (kind = Freeze); watch = (kind = WatchAuthor); revoke_grant = (kind = RevokeGrant);
          replace = (kind = ReplaceDevice); set_rule = (kind = SetRule) in
     bindR (only_if (od_max_devices odr \<noteq> None) (register \<or> set_limits) OR_MAX_DEVICES) (\<lambda>_.
     bindR (only_if (od_max_grants odr \<noteq> None) (register \<or> set_limits) OR_MAX_GRANTS) (\<lambda>_.
     bindR (ensure (\<not> (set_limits \<and> od_max_devices odr = None \<and> od_max_grants odr = None)) (MissingField OR_MAX_DEVICES)) (\<lambda>_.
     bindR (required (od_keys odr \<noteq> None) roster OR_KEYS) (\<lambda>_.
     bindR (required (od_threshold odr \<noteq> None) roster OR_THRESHOLD) (\<lambda>_.
     bindR (case (od_keys odr, od_threshold odr) of
              (Some keys, Some threshold) \<Rightarrow> check_roster keys threshold
            | _ \<Rightarrow> Inr ()) (\<lambda>_.
     bindR (required (od_device_fpr odr \<noteq> None) vote OR_DEVICE_FPR) (\<lambda>_.
     bindR (required (od_approve odr \<noteq> None) vote OR_APPROVE) (\<lambda>_.
     bindR (required (od_heir_mode odr \<noteq> None) (kind = SetHeir) OR_HEIR_MODE) (\<lambda>_.
     bindR (required (od_silence_seconds odr \<noteq> None)
       (od_heir_mode odr = Some Open \<or> od_heir_mode odr = Some Close) OR_SILENCE_SECONDS) (\<lambda>_.
     bindR (required (od_bequests odr \<noteq> None) (od_heir_mode odr = Some Open) OR_BEQUEST) (\<lambda>_.
     bindR (only_if (od_proposal_ttl odr \<noteq> None) (kind = SetCoauthors) OR_PROPOSAL_TTL) (\<lambda>_.
     bindR (ensure (\<not> od_proposal_ttl odr = Some 0) (BadFieldLength OR_PROPOSAL_TTL 0)) (\<lambda>_.
     bindR (required (od_frozen odr \<noteq> None) freeze OR_FROZEN) (\<lambda>_.
     bindR (ensure (\<not> (freeze \<and> od_file_id odr \<noteq> zero_id)) (UnknownCriticalField OR_FILE_ID)) (\<lambda>_.
     bindR (required (od_authority_key odr \<noteq> None) watch OR_AUTHORITY_KEY) (\<lambda>_.
     bindR (ensure (\<not> (watch \<and> od_file_id odr \<noteq> zero_id)) (UnknownCriticalField OR_FILE_ID)) (\<lambda>_.
     bindR (required (od_grant_id odr \<noteq> None) revoke_grant OR_GRANT_ID) (\<lambda>_.
     bindR (ensure (\<not> (revoke_grant \<and> od_file_id odr \<noteq> zero_id)) (UnknownCriticalField OR_FILE_ID)) (\<lambda>_.
     bindR (required (od_signer_key odr \<noteq> None)
       (kind = Alive \<and> od_file_id odr = zero_id \<or> vote \<or> freeze \<or> watch \<or> revoke_grant) OR_SIGNER_KEY) (\<lambda>_.
     bindR (case od_bequests odr of Some all \<Rightarrow> check_bequests all (od_file_id odr) | None \<Rightarrow> Inr ()) (\<lambda>_.
     bindR (required (od_old_devices odr \<noteq> None) replace OR_OLD_DEVICES) (\<lambda>_.
     bindR (required (od_new_devices odr \<noteq> None) replace OR_NEW_DEVICES) (\<lambda>_.
     bindR (ensure (\<not> (replace \<and> od_file_id odr = zero_id)) (MissingField OR_FILE_ID)) (\<lambda>_.
     bindR (case (od_old_devices odr, od_new_devices odr) of
              (Some old, Some new) \<Rightarrow>
                bindR (check_names old OR_OLD_DEVICES) (\<lambda>_.
                bindR (check_names new OR_NEW_DEVICES) (\<lambda>_.
                ensure (\<not> list_ex (\<lambda>name. name \<in> set new) old) (UnknownCriticalField OR_NEW_DEVICES)))
            | _ \<Rightarrow> Inr ()) (\<lambda>_.
     bindR (required (od_rule odr \<noteq> None) set_rule OR_RULE) (\<lambda>_.
     ensure (\<not> (set_rule \<and> od_file_id odr = zero_id)) (MissingField OR_FILE_ID))))))))))))))))))))))))))))"

section \<open>Bytes\<close>

definition order_transcript :: "bytes \<Rightarrow> Transcript" where
  "order_transcript body = body_transcript AUTHOR_ORDER body"

text \<open>An optional field whose value is encoded by a function that may fail.\<close>

definition encode_opt :: "('a \<Rightarrow> FormatError + bytes) \<Rightarrow> 'a option \<Rightarrow> FormatError + bytes option" where
  "encode_opt f x = (case x of None \<Rightarrow> Inr None | Some y \<Rightarrow> bindR (f y) (\<lambda>bs. Inr (Some bs)))"

definition order_fields :: "bytes option \<Rightarrow> bytes option \<Rightarrow> Order \<Rightarrow> (u16 \<times> bytes) list" where
  "order_fields bequest rule_bytes odr =
     [(OR_VERSION, le16 ORDER_VERSION), (OR_FILE_ID, od_file_id odr), (OR_KIND, [kind_u8 (od_kind odr)]), (OR_AT, le64 (od_at odr))] @
     opt_field OR_MAX_DEVICES (map_option (\<lambda>w. le32 w) (od_max_devices odr)) @
     opt_field OR_MAX_GRANTS (map_option (\<lambda>w. le32 w) (od_max_grants odr)) @
     opt_field OR_KEYS (map_option concat (od_keys odr)) @
     opt_field OR_THRESHOLD (map_option (\<lambda>b. [b]) (od_threshold odr)) @
     opt_field OR_DEVICE_FPR (od_device_fpr odr) @
     opt_field OR_APPROVE (map_option (\<lambda>b. [bool_byte b]) (od_approve odr)) @
     opt_field OR_SILENCE_SECONDS (map_option (\<lambda>w. le64 w) (od_silence_seconds odr)) @
     opt_field OR_HEIR_MODE (map_option (\<lambda>m. [heir_mode_u8 m]) (od_heir_mode odr)) @
     opt_field OR_BEQUEST (bequest) @
     opt_field OR_SIGNER_KEY (od_signer_key odr) @
     opt_field OR_PROPOSAL_TTL (map_option (\<lambda>w. le64 w) (od_proposal_ttl odr)) @
     opt_field OR_FROZEN (map_option (\<lambda>b. [bool_byte b]) (od_frozen odr)) @
     opt_field OR_OLD_DEVICES (map_option concat (od_old_devices odr)) @
     opt_field OR_NEW_DEVICES (map_option concat (od_new_devices odr)) @
     opt_field OR_RULE (rule_bytes) @
     opt_field OR_AUTHORITY_KEY (od_authority_key odr) @
     opt_field OR_GRANT_ID (od_grant_id odr)"

definition encode_order :: "Order \<Rightarrow> FormatError + bytes" where
  "encode_order odr =
     bindR (check_order odr) (\<lambda>_.
     bindR (encode_opt (rule_stream OR_BEQUEST) (od_bequests odr)) (\<lambda>bequest.
     bindR (encode_opt encode_attribute_rule (od_rule odr)) (\<lambda>rule_bytes.
     write_fields (order_fields bequest rule_bytes odr))))"

text \<open>\<^verbatim>\<open>chunks(32)\<close>; the callers have checked the length.\<close>

function chunks_32 :: "bytes \<Rightarrow> bytes list" where
  "chunks_32 bs = (if bs = [] then [] else take 32 bs # chunks_32 (drop 32 bs))"
  by pat_completeness auto
termination by (relation "measure length") auto

declare chunks_32.simps [simp del]

definition split_names :: "u16 \<Rightarrow> bytes \<Rightarrow> FormatError + bytes list" where
  "split_names tag value =
     bindR (ensure (\<not> (value = [] \<or> length value mod 32 \<noteq> 0 \<or> length value > MAX_DEVICE_NAMES * 32))
       (BadFieldLength tag (length value))) (\<lambda>_.
     mapR (exact_len 32 tag) (chunks_32 value))"

definition split_keys :: "bytes \<Rightarrow> FormatError + bytes list" where
  "split_keys value =
     bindR (ensure (\<not> (length value mod 32 \<noteq> 0 \<or> length value > MAX_KEYS * 32))
       (BadFieldLength OR_KEYS (length value))) (\<lambda>_.
     mapR (exact_len 32 OR_KEYS) (chunks_32 value))"

function split_bequests_loop :: "bytes \<Rightarrow> bytes list \<Rightarrow> FormatError + bytes list" where
  "split_bequests_loop rest out =
     (if rest = [] then Inr out
      else if length out \<ge> MAX_HEIRS then Inl (BadFieldLength OR_BEQUEST (saturating_add_usize (length out) 1))
      else
        (case get_range rest 0 4 of
           None \<Rightarrow> Inl (BadFieldLength OR_BEQUEST (length rest))
         | Some head \<Rightarrow>
             (let len = le_nat head; end' = saturating_add_usize 4 len in
              case get_range rest 4 end' of
                None \<Rightarrow> Inl (BadFieldLength OR_BEQUEST len)
              | Some item \<Rightarrow>
                  (case get_range rest end' (length rest) of
                     None \<Rightarrow> Inl (BadFieldLength OR_BEQUEST len)
                   | Some rest' \<Rightarrow> split_bequests_loop rest' (out @ [item])))))"
  by pat_completeness auto
termination
  by (relation "measure (\<lambda>(rest, out). length rest)")
    (auto simp: get_range_def saturating_add_usize_def Let_def split: if_splits)

declare split_bequests_loop.simps [simp del]

definition split_bequests :: "bytes \<Rightarrow> FormatError + bytes list" where
  "split_bequests rest = split_bequests_loop rest []"

record OrderDecoder =
  ok_version :: "u16 option"
  ok_file_id :: "bytes option"
  ok_kind :: "Kind option"
  ok_at :: "i64 option"
  ok_max_devices :: "u32 option"
  ok_max_grants :: "u32 option"
  ok_keys :: "bytes list option"
  ok_threshold :: "byte option"
  ok_device_fpr :: "bytes option"
  ok_approve :: "bool option"
  ok_silence_seconds :: "u64 option"
  ok_heir_mode :: "HeirMode option"
  ok_bequests :: "bytes list option"
  ok_signer_key :: "bytes option"
  ok_proposal_ttl :: "u64 option"
  ok_frozen :: "bool option"
  ok_old_devices :: "bytes list option"
  ok_new_devices :: "bytes list option"
  ok_rule :: "AttributeRule option"
  ok_authority_key :: "bytes option"
  ok_grant_id :: "bytes option"

definition order_decode_start :: OrderDecoder where
  "order_decode_start =
     \<lparr>ok_version = None, ok_file_id = None, ok_kind = None, ok_at = None,
      ok_max_devices = None, ok_max_grants = None, ok_keys = None, ok_threshold = None, ok_device_fpr = None, ok_approve = None, ok_silence_seconds = None, ok_heir_mode = None, ok_bequests = None, ok_signer_key = None, ok_proposal_ttl = None, ok_frozen = None, ok_old_devices = None, ok_new_devices = None, ok_rule = None, ok_authority_key = None, ok_grant_id = None\<rparr>"

definition order_step :: "u16 \<Rightarrow> bytes \<Rightarrow> OrderDecoder \<Rightarrow> FormatError + OrderDecoder" where
  "order_step tag value d =
     (if tag = OR_VERSION then bindR (u16_le tag value) (\<lambda>x. Inr (d\<lparr>ok_version := Some x\<rparr>))
      else if tag = OR_FILE_ID then bindR (exact_len 16 tag value) (\<lambda>x. Inr (d\<lparr>ok_file_id := Some x\<rparr>))
      else if tag = OR_KIND then
        bindR (bindR (one_byte OR_KIND value) (\<lambda>b. ok_or (UnknownCriticalField OR_KIND) (kind_from_byte b)))
          (\<lambda>x. Inr (d\<lparr>ok_kind := Some x\<rparr>))
      else if tag = OR_AT then bindR (u64_le tag value) (\<lambda>x. Inr (d\<lparr>ok_at := Some x\<rparr>))
      else if tag = OR_MAX_DEVICES then bindR (u32_le tag value) (\<lambda>x. Inr (d\<lparr>ok_max_devices := Some x\<rparr>))
      else if tag = OR_MAX_GRANTS then bindR (u32_le tag value) (\<lambda>x. Inr (d\<lparr>ok_max_grants := Some x\<rparr>))
      else if tag = OR_KEYS then bindR (split_keys value) (\<lambda>x. Inr (d\<lparr>ok_keys := Some x\<rparr>))
      else if tag = OR_THRESHOLD then bindR (one_byte OR_THRESHOLD value) (\<lambda>x. Inr (d\<lparr>ok_threshold := Some x\<rparr>))
      else if tag = OR_DEVICE_FPR then bindR (exact_len 32 tag value) (\<lambda>x. Inr (d\<lparr>ok_device_fpr := Some x\<rparr>))
      else if tag = OR_APPROVE then bindR (flag_value OR_APPROVE value) (\<lambda>x. Inr (d\<lparr>ok_approve := Some x\<rparr>))
      else if tag = OR_SILENCE_SECONDS then bindR (u64_le tag value) (\<lambda>x. Inr (d\<lparr>ok_silence_seconds := Some x\<rparr>))
      else if tag = OR_HEIR_MODE then bindR (bindR (one_byte OR_HEIR_MODE value) (\<lambda>b. ok_or (UnknownCriticalField OR_HEIR_MODE) (heir_mode_from_byte b))) (\<lambda>x. Inr (d\<lparr>ok_heir_mode := Some x\<rparr>))
      else if tag = OR_BEQUEST then bindR (split_bequests value) (\<lambda>x. Inr (d\<lparr>ok_bequests := Some x\<rparr>))
      else if tag = OR_SIGNER_KEY then bindR (exact_len 32 tag value) (\<lambda>x. Inr (d\<lparr>ok_signer_key := Some x\<rparr>))
      else if tag = OR_PROPOSAL_TTL then bindR (u64_le tag value) (\<lambda>x. Inr (d\<lparr>ok_proposal_ttl := Some x\<rparr>))
      else if tag = OR_FROZEN then bindR (flag_value OR_FROZEN value) (\<lambda>x. Inr (d\<lparr>ok_frozen := Some x\<rparr>))
      else if tag = OR_OLD_DEVICES then bindR (split_names OR_OLD_DEVICES value) (\<lambda>x. Inr (d\<lparr>ok_old_devices := Some x\<rparr>))
      else if tag = OR_NEW_DEVICES then bindR (split_names OR_NEW_DEVICES value) (\<lambda>x. Inr (d\<lparr>ok_new_devices := Some x\<rparr>))
      else if tag = OR_RULE then bindR (decode_attribute_rule value) (\<lambda>x. Inr (d\<lparr>ok_rule := Some x\<rparr>))
      else if tag = OR_AUTHORITY_KEY then bindR (exact_len 32 tag value) (\<lambda>x. Inr (d\<lparr>ok_authority_key := Some x\<rparr>))
      else if tag = OR_GRANT_ID then bindR (exact_len 16 tag value) (\<lambda>x. Inr (d\<lparr>ok_grant_id := Some x\<rparr>))
      else bindR (refuse_if_critical tag) (\<lambda>_. Inr d))"

definition order_finish :: "OrderDecoder \<Rightarrow> FormatError + Order" where
  "order_finish d =
     bindR (ok_or (MissingField OR_VERSION) (ok_version d)) (\<lambda>version.
     bindR (ensure (\<not> version \<noteq> ORDER_VERSION) (UnknownCriticalField OR_VERSION)) (\<lambda>_.
     bindR (ok_or (MissingField OR_FILE_ID) (ok_file_id d)) (\<lambda>file_id.
     bindR (ok_or (MissingField OR_KIND) (ok_kind d)) (\<lambda>kind.
     bindR (ok_or (MissingField OR_AT) (ok_at d)) (\<lambda>at.
     let odr = \<lparr>od_file_id = file_id, od_kind = kind, od_at = at,
              od_max_devices = ok_max_devices d, od_max_grants = ok_max_grants d, od_keys = ok_keys d, od_threshold = ok_threshold d, od_device_fpr = ok_device_fpr d, od_approve = ok_approve d, od_silence_seconds = ok_silence_seconds d, od_heir_mode = ok_heir_mode d, od_bequests = ok_bequests d, od_signer_key = ok_signer_key d, od_proposal_ttl = ok_proposal_ttl d, od_frozen = ok_frozen d, od_old_devices = ok_old_devices d, od_new_devices = ok_new_devices d, od_rule = ok_rule d, od_authority_key = ok_authority_key d, od_grant_id = ok_grant_id d\<rparr> in
     bindR (check_order odr) (\<lambda>_.
     Inr odr))))))"

definition decode_order :: "bytes \<Rightarrow> FormatError + Order" where
  "decode_order body = bindR (tlv_values order_step body order_decode_start) order_finish"

definition order_peek :: "bytes \<Rightarrow> FormatError + Order" where
  "order_peek bs = bindR (split_signature bs) (\<lambda>(_, body). decode_order body)"

definition intent_digest :: "Crates \<Rightarrow> Order \<Rightarrow> FormatError + bytes" where
  "intent_digest c odr =
     bindR (encode_order (odr\<lparr>od_at := 0, od_signer_key := None\<rparr>)) (\<lambda>bs. Inr (sha256_digest c bs))"

definition peek_kind :: "bytes \<Rightarrow> FormatError + byte" where
  "peek_kind body = bindR (decode_order body) (\<lambda>odr. Inr (kind_u8 (od_kind odr)))"

definition order_verify :: "Crates \<Rightarrow> bytes \<Rightarrow> bytes \<Rightarrow> bytes \<Rightarrow> CryptoError + unit" where
  "order_verify c body signature author_key = sign_verify c author_key (order_transcript body) signature"

definition order_verify_signed :: "Crates \<Rightarrow> bytes \<Rightarrow> bytes \<Rightarrow> FormatError + Order" where
  "order_verify_signed c bs author_key =
     bindR (split_signature bs) (\<lambda>(signature, body).
     bindR (map_err BadHeaderSignature (order_verify c body signature author_key)) (\<lambda>_.
     decode_order body))"

section \<open>Values\<close>

lemma kind_from_byte_eq: "kind_from_byte b = Some k \<longleftrightarrow> b = kind_u8 k"
  by (cases k) (auto simp: kind_from_byte_def)

lemma heir_mode_from_byte_eq: "heir_mode_from_byte b = Some m \<longleftrightarrow> b = heir_mode_u8 m"
  by (cases m) (auto simp: heir_mode_from_byte_def)

lemma chunks_32_concat: "\<forall>k \<in> set ks. length k = 32 \<Longrightarrow> chunks_32 (concat ks) = ks"
proof (induction ks)
  case (Cons k ks)
  then have "k \<noteq> []" by auto
  with Cons show ?case by (subst chunks_32.simps) simp
qed (simp add: chunks_32.simps)

lemma concat_32: "\<forall>k \<in> set ks. length k = 32 \<Longrightarrow> length (concat ks) = 32 * length ks"
  by (induction ks) simp_all

lemma mapR_exact_32: "\<forall>k \<in> set ks. length k = 32 \<Longrightarrow> mapR (exact_len 32 t) ks = Inr ks"
  by (induction ks) (simp_all add: exact_len_def)

lemma split_keys_concat:
  "\<forall>k \<in> set ks. length k = 32 \<Longrightarrow> length ks \<le> MAX_KEYS \<Longrightarrow> split_keys (concat ks) = Inr ks"
  by (simp add: split_keys_def chunks_32_concat concat_32 mapR_exact_32)

lemma split_names_concat:
  assumes "\<forall>k \<in> set ks. length k = 32" and "ks \<noteq> []" and "length ks \<le> MAX_DEVICE_NAMES"
  shows "split_names t (concat ks) = Inr ks"
proof -
  have len: "length (concat ks) = 32 * length ks" by (rule concat_32 [OF assms(1)])
  with assms(2) have "concat ks \<noteq> []" by (metis length_0_conv list.size(3) mult_eq_0_iff zero_neq_numeral)
  with assms len show ?thesis
    by (simp add: split_names_def chunks_32_concat mapR_exact_32 del: concat_eq_Nil_conv)
qed

lemma next_item_ranges:
  "next_item rest = Some (x, tail) \<Longrightarrow>
     get_range rest 0 4 = Some (le_bytes 4 (length x)) \<and> get_range rest 4 (4 + length x) = Some x \<and>
     get_range rest (4 + length x) (length rest) = Some tail"
proof -
  assume "next_item rest = Some (x, tail)"
  from next_itemD(1) [OF this] have r: "rest = le_bytes 4 (length x) @ x @ tail" .
  show ?thesis unfolding r by (simp add: get_range_def)
qed

lemma next_item_None:
  "rest \<noteq> [] \<Longrightarrow> next_item rest = None \<Longrightarrow>
     get_range rest 0 4 = None \<or> (\<exists>h. get_range rest 0 4 = Some h \<and> get_range rest 4 (4 + le_nat h) = None)"
  by (auto simp: next_item_def split_at_checked_def get_range_def split: if_splits)

interpretation bequest_reader: stream_reader split_bequests_loop MAX_HEIRS
proof
  fix rest and out xs :: "bytes list"
  assume "rest \<noteq> []" and "MAX_HEIRS \<le> length out \<or> next_item rest = None"
  moreover have "le_nat h < 4294967296" if "get_range rest 0 4 = Some h" for h
    using le_nat_less [of h] get_range_length [OF that] by simp
  ultimately show "split_bequests_loop rest out \<noteq> Inr xs"
    using next_item_None [of rest]
    by (subst split_bequests_loop.simps) (auto simp: Let_def saturating_add_usize_def split: option.splits)
next
  fix rest x tail and out :: "bytes list"
  assume item: "next_item rest = Some (x, tail)" and room: "length out < MAX_HEIRS"
  note d = next_itemD [OF item]
  have "rest \<noteq> []" using d(3) by auto
  moreover have "le_nat (le_bytes 4 (length x)) = length x" using d(2) by (simp add: le_nat_le_bytes)
  ultimately show "split_bequests_loop rest out = split_bequests_loop tail (out @ [x])"
    using next_item_ranges [OF item] room d(2)
    by (subst split_bequests_loop.simps) (simp add: Let_def saturating_add_usize_def)
qed (simp add: split_bequests_loop.simps)

lemma split_bequests_Inr:
  "split_bequests bs = Inr items \<longleftrightarrow>
     bs = enc_stream items \<and> (\<forall>item \<in> set items. length item < 4294967296) \<and> length items \<le> MAX_HEIRS"
  unfolding split_bequests_def by (rule bequest_reader.reads_iff)

section \<open>What the check admits\<close>

lemma required_Inr: "required present wanted tag = Inr u \<longleftrightarrow> present = wanted"
  by (auto simp: required_def)

lemma only_if_Inr: "only_if present allowed tag = Inr u \<longleftrightarrow> (present \<longrightarrow> allowed)"
  by (auto simp: only_if_def)

lemma later_distinct:
  "(\<forall>(at, x) \<in> set (enumerate 0 xs). P x \<and> x \<notin> set (drop (at + 1) xs)) \<longleftrightarrow> (\<forall>x \<in> set xs. P x) \<and> distinct xs"
proof -
  have "(\<forall>(at, x) \<in> set (enumerate k xs). P x \<and> x \<notin> set (drop (at + 1 - k) xs)) \<longleftrightarrow> (\<forall>x \<in> set xs. P x) \<and> distinct xs" for k
  proof (induction xs arbitrary: k)
    case (Cons y ys)
    have "drop (at + 1 - k) (y # ys) = drop (at + 1 - Suc k) ys" if "(at, x) \<in> set (enumerate (Suc k) ys)" for at x
      using that by (auto simp: in_set_enumerate_eq Suc_diff_le drop_Cons split: nat.splits)
    then show ?case using Cons.IH [of "Suc k"] by (fastforce simp: drop_Cons)
  qed simp
  from this [of 0] show ?thesis by simp
qed

lemma check_names_Inr:
  "check_names names tag = Inr u \<longleftrightarrow>
     names \<noteq> [] \<and> length names \<le> MAX_DEVICE_NAMES \<and> (\<forall>n \<in> set names. n \<noteq> replicate 32 0) \<and> distinct names"
  using later_distinct [where P = "\<lambda>n. n \<noteq> replicate 32 0" and xs = names]
  by (auto simp: check_names_def bindR_eq_Inr ensure_eq_Inr foldR_ensure case_prod_unfold)

lemma check_roster_Inr:
  "check_roster keys threshold = Inr u \<longleftrightarrow>
     length keys \<le> MAX_KEYS \<and> distinct keys \<and>
     (if keys = [] then threshold = 0 else 1 \<le> unat threshold \<and> unat threshold \<le> length keys)"
  using later_distinct [where P = "\<lambda>_. True" and xs = keys]
  by (auto simp: check_roster_def bindR_eq_Inr ensure_eq_Inr foldR_ensure case_prod_unfold Let_def unat_eq_0)

text \<open>Bequests: one decision each for different devices, for this file, marked for the heirs.\<close>

definition bequest_ok :: "bytes \<Rightarrow> bytes \<Rightarrow> Decision \<Rightarrow> bool" where
  "bequest_ok file_id bs d \<longleftrightarrow>
     decode_decision bs = Inr d \<and> de_file_id d = file_id \<and> de_seq d = HEIR_SEQ \<and> de_approve d \<and> de_share_b d \<noteq> None"

lemma check_bequests_Inr:
  "check_bequests all file_id = Inr u \<longleftrightarrow>
     all \<noteq> [] \<and> length all \<le> MAX_HEIRS \<and>
     (\<exists>ds. list_all2 (bequest_ok file_id) all ds \<and> distinct (map de_device_fpr ds))"
proof -
  have "foldR (\<lambda>bs seen.
         bindR (decode_decision bs) (\<lambda>decision.
         let fits = de_file_id decision = file_id \<and> de_seq decision = HEIR_SEQ \<and> de_approve decision \<and>
                    de_share_b decision \<noteq> None in
         bindR (ensure fits (UnknownCriticalField OR_BEQUEST)) (\<lambda>_.
         bindR (ensure (\<not> de_device_fpr decision \<in> set seen) (UnknownCriticalField OR_BEQUEST)) (\<lambda>_.
         Inr (seen @ [de_device_fpr decision]))))) all seen = Inr seen' \<longleftrightarrow>
      (\<exists>ds. list_all2 (bequest_ok file_id) all ds \<and> distinct (map de_device_fpr ds) \<and>
         set seen \<inter> de_device_fpr ` set ds = {} \<and> seen' = seen @ map de_device_fpr ds)" for seen seen'
    by (induction all arbitrary: seen)
      (fastforce simp: bindR_eq_Inr ensure_eq_Inr Let_def bequest_ok_def list_all2_Cons1)+
  then show ?thesis by (auto simp: check_bequests_def bindR_eq_Inr ensure_eq_Inr)
qed

text \<open>The optional fields, by tag.\<close>

definition present_fields :: "Order \<Rightarrow> (u16 \<times> bool) list" where
  "present_fields odr =
       [(OR_MAX_DEVICES, od_max_devices odr \<noteq> None), (OR_MAX_GRANTS, od_max_grants odr \<noteq> None),
        (OR_KEYS, od_keys odr \<noteq> None), (OR_THRESHOLD, od_threshold odr \<noteq> None),
        (OR_DEVICE_FPR, od_device_fpr odr \<noteq> None), (OR_APPROVE, od_approve odr \<noteq> None),
        (OR_SILENCE_SECONDS, od_silence_seconds odr \<noteq> None), (OR_HEIR_MODE, od_heir_mode odr \<noteq> None),
        (OR_BEQUEST, od_bequests odr \<noteq> None), (OR_SIGNER_KEY, od_signer_key odr \<noteq> None),
        (OR_PROPOSAL_TTL, od_proposal_ttl odr \<noteq> None), (OR_FROZEN, od_frozen odr \<noteq> None),
        (OR_OLD_DEVICES, od_old_devices odr \<noteq> None), (OR_NEW_DEVICES, od_new_devices odr \<noteq> None),
        (OR_RULE, od_rule odr \<noteq> None), (OR_AUTHORITY_KEY, od_authority_key odr \<noteq> None),
        (OR_GRANT_ID, od_grant_id odr \<noteq> None)]"

text \<open>
  The table of kinds: the fields a kind must have, those it may have, and whether it is about a
  file (\<open>Some True\<close>), about no file (\<open>Some False\<close>) or about either.
\<close>

fun kind_fields :: "Kind \<Rightarrow> HeirMode option \<Rightarrow> bool \<Rightarrow> u16 set \<times> u16 set \<times> bool option" where
  "kind_fields Register m z = ({}, {OR_MAX_DEVICES, OR_MAX_GRANTS}, None)"
| "kind_fields Revoke m z = ({}, {}, None)"
| "kind_fields SetLimits m z = ({}, {OR_MAX_DEVICES, OR_MAX_GRANTS}, None)"
| "kind_fields SetCoauthors m z = ({OR_KEYS, OR_THRESHOLD}, {OR_PROPOSAL_TTL}, None)"
| "kind_fields SetApprovers m z = ({OR_KEYS, OR_THRESHOLD}, {}, None)"
| "kind_fields ApproveDevice m z = ({OR_DEVICE_FPR, OR_APPROVE, OR_SIGNER_KEY}, {}, None)"
| "kind_fields Alive m z = ((if z then {OR_SIGNER_KEY} else {}), {}, None)"
| "kind_fields SetHeir m z =
     ({OR_HEIR_MODE} \<union> (if m = Some Open \<or> m = Some Close then {OR_SILENCE_SECONDS} else {}) \<union>
        (if m = Some Open then {OR_BEQUEST} else {}), {}, None)"
| "kind_fields Freeze m z = ({OR_FROZEN, OR_SIGNER_KEY}, {}, Some False)"
| "kind_fields ReplaceDevice m z = ({OR_OLD_DEVICES, OR_NEW_DEVICES}, {}, Some True)"
| "kind_fields SetRule m z = ({OR_RULE}, {}, Some True)"
| "kind_fields WatchAuthor m z = ({OR_AUTHORITY_KEY, OR_SIGNER_KEY}, {}, Some False)"
| "kind_fields RevokeGrant m z = ({OR_GRANT_ID, OR_SIGNER_KEY}, {}, Some False)"

text \<open>
  The contents of the lists an order carries: who may sign, with a threshold they can reach; the
  names of devices; and one bequest for each of several different heirs.
\<close>

definition roster_ok :: "bytes list \<Rightarrow> byte \<Rightarrow> bool" where
  "roster_ok keys threshold \<longleftrightarrow>
     length keys \<le> 16 \<and> distinct keys \<and> (keys = [] \<longrightarrow> threshold = 0) \<and>
     (keys \<noteq> [] \<longrightarrow> 1 \<le> unat threshold \<and> unat threshold \<le> length keys)"

definition names_ok :: "bytes list \<Rightarrow> bool" where
  "names_ok names \<longleftrightarrow> names \<noteq> [] \<and> length names \<le> 4 \<and> distinct names \<and> replicate 32 0 \<notin> set names"

definition bequests_ok :: "bytes \<Rightarrow> bytes list \<Rightarrow> bool" where
  "bequests_ok file_id all \<longleftrightarrow>
     all \<noteq> [] \<and> length all \<le> 16 \<and>
     (\<exists>ds. list_all2 (bequest_ok file_id) all ds \<and> distinct (map de_device_fpr ds))"

definition order_admissible :: "Order \<Rightarrow> bool" where
  "order_admissible odr \<longleftrightarrow>
     (case kind_fields (od_kind odr) (od_heir_mode odr) (od_file_id odr = zero_id) of
        (must, may, about) \<Rightarrow>
          (\<forall>(t, present) \<in> set (present_fields odr). (t \<in> must \<longrightarrow> present) \<and> (present \<longrightarrow> t \<in> must \<union> may)) \<and>
          (about = Some True \<longrightarrow> od_file_id odr \<noteq> zero_id) \<and> (about = Some False \<longrightarrow> od_file_id odr = zero_id)) \<and>
     (od_kind odr = SetLimits \<longrightarrow> (\<exists>(t, present) \<in> set (present_fields odr). present)) \<and>
     od_proposal_ttl odr \<noteq> Some 0 \<and>
     (\<forall>keys threshold. od_keys odr = Some keys \<and> od_threshold odr = Some threshold \<longrightarrow> roster_ok keys threshold) \<and>
     (\<forall>all. od_bequests odr = Some all \<longrightarrow> bequests_ok (od_file_id odr) all) \<and>
     (\<forall>old new. od_old_devices odr = Some old \<and> od_new_devices odr = Some new \<longrightarrow>
        names_ok old \<and> names_ok new \<and> set old \<inter> set new = {})"

lemma check_contents:
  "check_roster keys threshold = Inr () \<longleftrightarrow> roster_ok keys threshold"
  "check_names names tag = Inr () \<longleftrightarrow> names_ok names"
  "check_bequests all file_id = Inr () \<longleftrightarrow> bequests_ok file_id all"
  by (auto simp: MAX_KEYS_def MAX_HEIRS_def MAX_DEVICE_NAMES_def check_roster_Inr roster_ok_def check_names_Inr names_ok_def check_bequests_Inr bequests_ok_def)

lemma case_option_check: "(case x of Some y \<Rightarrow> f y | None \<Rightarrow> Inr ()) = Inr () \<longleftrightarrow> (\<forall>y. x = Some y \<longrightarrow> f y = Inr ())"
  by (cases x) auto

lemma case_pair_check:
  "(case (x, y) of (Some a, Some b) \<Rightarrow> f a b | _ \<Rightarrow> Inr ()) = Inr () \<longleftrightarrow> (\<forall>a b. x = Some a \<and> y = Some b \<longrightarrow> f a b = Inr ())"
  by (cases x; cases y) auto

lemma check_order_Inr:
  "check_order odr = Inr () \<longleftrightarrow>
     ((od_max_devices odr \<noteq> None \<longrightarrow> od_kind odr = Register \<or> od_kind odr = SetLimits) \<and>
      (od_max_grants odr \<noteq> None \<longrightarrow> od_kind odr = Register \<or> od_kind odr = SetLimits) \<and>
      \<not> (od_kind odr = SetLimits \<and> od_max_devices odr = None \<and> od_max_grants odr = None) \<and>
      ((od_keys odr \<noteq> None) = (od_kind odr = SetCoauthors \<or> od_kind odr = SetApprovers)) \<and>
      ((od_threshold odr \<noteq> None) = (od_kind odr = SetCoauthors \<or> od_kind odr = SetApprovers)) \<and>
      (\<forall>keys threshold. od_keys odr = Some keys \<and> od_threshold odr = Some threshold \<longrightarrow> roster_ok keys threshold) \<and>
      ((od_device_fpr odr \<noteq> None) = (od_kind odr = ApproveDevice)) \<and>
      ((od_approve odr \<noteq> None) = (od_kind odr = ApproveDevice)) \<and>
      ((od_heir_mode odr \<noteq> None) = (od_kind odr = SetHeir)) \<and>
      ((od_silence_seconds odr \<noteq> None) = (od_heir_mode odr = Some Open \<or> od_heir_mode odr = Some Close)) \<and>
      ((od_bequests odr \<noteq> None) = (od_heir_mode odr = Some Open)) \<and>
      (od_proposal_ttl odr \<noteq> None \<longrightarrow> od_kind odr = SetCoauthors) \<and> od_proposal_ttl odr \<noteq> Some 0 \<and>
      ((od_frozen odr \<noteq> None) = (od_kind odr = Freeze)) \<and> \<not> (od_kind odr = Freeze \<and> od_file_id odr \<noteq> zero_id) \<and>
      ((od_authority_key odr \<noteq> None) = (od_kind odr = WatchAuthor)) \<and> \<not> (od_kind odr = WatchAuthor \<and> od_file_id odr \<noteq> zero_id) \<and>
      ((od_grant_id odr \<noteq> None) = (od_kind odr = RevokeGrant)) \<and> \<not> (od_kind odr = RevokeGrant \<and> od_file_id odr \<noteq> zero_id) \<and>
      ((od_signer_key odr \<noteq> None) = (od_kind odr = Alive \<and> od_file_id odr = zero_id \<or> od_kind odr = ApproveDevice \<or>
         od_kind odr = Freeze \<or> od_kind odr = WatchAuthor \<or> od_kind odr = RevokeGrant)) \<and>
      (\<forall>all. od_bequests odr = Some all \<longrightarrow> bequests_ok (od_file_id odr) all) \<and>
      ((od_old_devices odr \<noteq> None) = (od_kind odr = ReplaceDevice)) \<and> ((od_new_devices odr \<noteq> None) = (od_kind odr = ReplaceDevice)) \<and>
      \<not> (od_kind odr = ReplaceDevice \<and> od_file_id odr = zero_id) \<and>
      (\<forall>old new. od_old_devices odr = Some old \<and> od_new_devices odr = Some new \<longrightarrow>
        names_ok old \<and> names_ok new \<and> set old \<inter> set new = {}) \<and>
      ((od_rule odr \<noteq> None) = (od_kind odr = SetRule)) \<and> \<not> (od_kind odr = SetRule \<and> od_file_id odr = zero_id))"
  unfolding check_order_def Let_def bind_unit_eq_Inr only_if_Inr required_Inr ensure_eq_Inr case_pair_check case_option_check
    check_contents
  by (simp add: list_ex_iff disjoint_iff Ball_def)

lemma check_order_admissible: "check_order odr = Inr () \<longleftrightarrow> order_admissible odr"
  unfolding check_order_Inr by (cases "od_kind odr") (auto simp: order_admissible_def present_fields_def)

section \<open>Orders are read as they were written\<close>

text \<open>Each optional field, when it is reached for the first time, is stored as it was written.\<close>

lemma run_max_devices:
  "ok_max_devices s = None \<Longrightarrow>
   run_fields order_step (opt_field OR_MAX_DEVICES (map_option (\<lambda>w. le32 w) v)) s = Inr (s\<lparr>ok_max_devices := v\<rparr>)"
  by (cases v; cases s) (auto simp: order_step_def exact_len_def heir_mode_from_byte_eq [THEN iffD2])

lemma run_max_grants:
  "ok_max_grants s = None \<Longrightarrow>
   run_fields order_step (opt_field OR_MAX_GRANTS (map_option (\<lambda>w. le32 w) v)) s = Inr (s\<lparr>ok_max_grants := v\<rparr>)"
  by (cases v; cases s) (auto simp: order_step_def exact_len_def heir_mode_from_byte_eq [THEN iffD2])

lemma run_keys:
  "ok_keys s = None \<Longrightarrow> \<forall>x. v = Some x \<longrightarrow> split_keys (concat x) = Inr x \<Longrightarrow>
   run_fields order_step (opt_field OR_KEYS (map_option concat v)) s = Inr (s\<lparr>ok_keys := v\<rparr>)"
  by (cases v; cases s) (auto simp: order_step_def exact_len_def heir_mode_from_byte_eq [THEN iffD2])

lemma run_threshold:
  "ok_threshold s = None \<Longrightarrow>
   run_fields order_step (opt_field OR_THRESHOLD (map_option (\<lambda>b. [b]) v)) s = Inr (s\<lparr>ok_threshold := v\<rparr>)"
  by (cases v; cases s) (auto simp: order_step_def exact_len_def heir_mode_from_byte_eq [THEN iffD2])

lemma run_device_fpr:
  "ok_device_fpr s = None \<Longrightarrow> \<forall>x. v = Some x \<longrightarrow> length x = 32 \<Longrightarrow>
   run_fields order_step (opt_field OR_DEVICE_FPR (v)) s = Inr (s\<lparr>ok_device_fpr := v\<rparr>)"
  by (cases v; cases s) (auto simp: order_step_def exact_len_def heir_mode_from_byte_eq [THEN iffD2])

lemma run_approve:
  "ok_approve s = None \<Longrightarrow>
   run_fields order_step (opt_field OR_APPROVE (map_option (\<lambda>b. [bool_byte b]) v)) s = Inr (s\<lparr>ok_approve := v\<rparr>)"
  by (cases v; cases s) (auto simp: order_step_def exact_len_def heir_mode_from_byte_eq [THEN iffD2])

lemma run_silence_seconds:
  "ok_silence_seconds s = None \<Longrightarrow>
   run_fields order_step (opt_field OR_SILENCE_SECONDS (map_option (\<lambda>w. le64 w) v)) s = Inr (s\<lparr>ok_silence_seconds := v\<rparr>)"
  by (cases v; cases s) (auto simp: order_step_def exact_len_def heir_mode_from_byte_eq [THEN iffD2])

lemma run_heir_mode:
  "ok_heir_mode s = None \<Longrightarrow>
   run_fields order_step (opt_field OR_HEIR_MODE (map_option (\<lambda>m. [heir_mode_u8 m]) v)) s = Inr (s\<lparr>ok_heir_mode := v\<rparr>)"
  by (cases v; cases s) (auto simp: order_step_def exact_len_def heir_mode_from_byte_eq [THEN iffD2])

lemma run_bequests:
  "ok_bequests s = None \<Longrightarrow> \<forall>x. v = Some x \<longrightarrow> split_bequests (enc_stream x) = Inr x \<Longrightarrow>
   run_fields order_step (opt_field OR_BEQUEST (map_option enc_stream v)) s = Inr (s\<lparr>ok_bequests := v\<rparr>)"
  by (cases v; cases s) (auto simp: order_step_def exact_len_def heir_mode_from_byte_eq [THEN iffD2])

lemma run_signer_key:
  "ok_signer_key s = None \<Longrightarrow> \<forall>x. v = Some x \<longrightarrow> length x = 32 \<Longrightarrow>
   run_fields order_step (opt_field OR_SIGNER_KEY (v)) s = Inr (s\<lparr>ok_signer_key := v\<rparr>)"
  by (cases v; cases s) (auto simp: order_step_def exact_len_def heir_mode_from_byte_eq [THEN iffD2])

lemma run_proposal_ttl:
  "ok_proposal_ttl s = None \<Longrightarrow>
   run_fields order_step (opt_field OR_PROPOSAL_TTL (map_option (\<lambda>w. le64 w) v)) s = Inr (s\<lparr>ok_proposal_ttl := v\<rparr>)"
  by (cases v; cases s) (auto simp: order_step_def exact_len_def heir_mode_from_byte_eq [THEN iffD2])

lemma run_frozen:
  "ok_frozen s = None \<Longrightarrow>
   run_fields order_step (opt_field OR_FROZEN (map_option (\<lambda>b. [bool_byte b]) v)) s = Inr (s\<lparr>ok_frozen := v\<rparr>)"
  by (cases v; cases s) (auto simp: order_step_def exact_len_def heir_mode_from_byte_eq [THEN iffD2])

lemma run_old_devices:
  "ok_old_devices s = None \<Longrightarrow> \<forall>x. v = Some x \<longrightarrow> split_names OR_OLD_DEVICES (concat x) = Inr x \<Longrightarrow>
   run_fields order_step (opt_field OR_OLD_DEVICES (map_option concat v)) s = Inr (s\<lparr>ok_old_devices := v\<rparr>)"
  by (cases v; cases s) (auto simp: order_step_def exact_len_def heir_mode_from_byte_eq [THEN iffD2])

lemma run_new_devices:
  "ok_new_devices s = None \<Longrightarrow> \<forall>x. v = Some x \<longrightarrow> split_names OR_NEW_DEVICES (concat x) = Inr x \<Longrightarrow>
   run_fields order_step (opt_field OR_NEW_DEVICES (map_option concat v)) s = Inr (s\<lparr>ok_new_devices := v\<rparr>)"
  by (cases v; cases s) (auto simp: order_step_def exact_len_def heir_mode_from_byte_eq [THEN iffD2])

lemma run_rule:
  "ok_rule s = None \<Longrightarrow> case v of None \<Rightarrow> rb = None | Some x \<Rightarrow> \<exists>bs. rb = Some bs \<and> decode_attribute_rule bs = Inr x \<Longrightarrow>
   run_fields order_step (opt_field OR_RULE (rb)) s = Inr (s\<lparr>ok_rule := v\<rparr>)"
  by (cases v; cases s) (auto simp: order_step_def exact_len_def heir_mode_from_byte_eq [THEN iffD2])

lemma run_authority_key:
  "ok_authority_key s = None \<Longrightarrow> \<forall>x. v = Some x \<longrightarrow> length x = 32 \<Longrightarrow>
   run_fields order_step (opt_field OR_AUTHORITY_KEY (v)) s = Inr (s\<lparr>ok_authority_key := v\<rparr>)"
  by (cases v; cases s) (auto simp: order_step_def exact_len_def heir_mode_from_byte_eq [THEN iffD2])

lemma run_grant_id:
  "ok_grant_id s = None \<Longrightarrow> \<forall>x. v = Some x \<longrightarrow> length x = 16 \<Longrightarrow>
   run_fields order_step (opt_field OR_GRANT_ID (v)) s = Inr (s\<lparr>ok_grant_id := v\<rparr>)"
  by (cases v; cases s) (auto simp: order_step_def exact_len_def heir_mode_from_byte_eq [THEN iffD2])

lemmas run_order_fields = run_max_devices run_max_grants run_keys run_threshold run_device_fpr run_approve run_silence_seconds run_heir_mode run_bequests run_signer_key run_proposal_ttl run_frozen run_old_devices run_new_devices run_authority_key run_grant_id

definition order_wf :: "Order \<Rightarrow> bool" where
  "order_wf odr \<longleftrightarrow>
     length (od_file_id odr) = 16 \<and>
     (\<forall>x. od_device_fpr odr = Some x \<longrightarrow> length x = 32) \<and> (\<forall>x. od_signer_key odr = Some x \<longrightarrow> length x = 32) \<and>
     (\<forall>x. od_authority_key odr = Some x \<longrightarrow> length x = 32) \<and> (\<forall>x. od_grant_id odr = Some x \<longrightarrow> length x = 16) \<and>
     (\<forall>ks. od_keys odr = Some ks \<longrightarrow> (\<forall>k \<in> set ks. length k = 32)) \<and>
     (\<forall>ks. od_old_devices odr = Some ks \<longrightarrow> (\<forall>k \<in> set ks. length k = 32)) \<and>
     (\<forall>ks. od_new_devices odr = Some ks \<longrightarrow> (\<forall>k \<in> set ks. length k = 32)) \<and>
     (\<forall>r. od_rule odr = Some r \<longrightarrow> attribute_rule_wf r)"

definition order_state :: "Order \<Rightarrow> OrderDecoder" where
  "order_state odr =
     \<lparr>ok_version = Some ORDER_VERSION, ok_file_id = Some (od_file_id odr), ok_kind = Some (od_kind odr), ok_at = Some (od_at odr),
      ok_max_devices = od_max_devices odr, ok_max_grants = od_max_grants odr, ok_keys = od_keys odr, ok_threshold = od_threshold odr, ok_device_fpr = od_device_fpr odr, ok_approve = od_approve odr, ok_silence_seconds = od_silence_seconds odr, ok_heir_mode = od_heir_mode odr, ok_bequests = od_bequests odr, ok_signer_key = od_signer_key odr, ok_proposal_ttl = od_proposal_ttl odr, ok_frozen = od_frozen odr, ok_old_devices = od_old_devices odr, ok_new_devices = od_new_devices odr, ok_rule = od_rule odr, ok_authority_key = od_authority_key odr, ok_grant_id = od_grant_id odr\<rparr>"

lemma order_finish_state: "check_order odr = Inr () \<Longrightarrow> order_finish (order_state odr) = Inr odr"
  by (cases odr) (simp add: order_finish_def order_state_def)

lemma encode_opt_Inr:
  "encode_opt f x = Inr y \<longleftrightarrow> (case x of None \<Rightarrow> y = None | Some a \<Rightarrow> \<exists>bs. f a = Inr bs \<and> y = Some bs)"
  by (auto simp: encode_opt_def bindR_eq_Inr split: option.splits)

lemma checked_lists:
  assumes "order_wf odr" and "check_order odr = Inr ()"
  shows "\<forall>x. od_keys odr = Some x \<longrightarrow> split_keys (concat x) = Inr x"
    and "\<forall>x. od_old_devices odr = Some x \<longrightarrow> split_names t (concat x) = Inr x"
    and "\<forall>x. od_new_devices odr = Some x \<longrightarrow> split_names t (concat x) = Inr x"
proof -
  note ok = assms(2) [unfolded check_order_Inr]
  have k: "od_threshold odr \<noteq> None" if "od_keys odr \<noteq> None" using ok that by simp
  have n: "od_old_devices odr \<noteq> None \<longleftrightarrow> od_new_devices odr \<noteq> None" using ok by simp
  have r: "\<forall>keys threshold. od_keys odr = Some keys \<and> od_threshold odr = Some threshold \<longrightarrow> roster_ok keys threshold"
    "\<forall>old new. od_old_devices odr = Some old \<and> od_new_devices odr = Some new \<longrightarrow>
        names_ok old \<and> names_ok new \<and> set old \<inter> set new = {}"
    using ok by simp_all
  have len: "\<forall>ks. od_keys odr = Some ks \<longrightarrow> (\<forall>k \<in> set ks. length k = 32)"
    "\<forall>ks. od_old_devices odr = Some ks \<longrightarrow> (\<forall>k \<in> set ks. length k = 32)"
    "\<forall>ks. od_new_devices odr = Some ks \<longrightarrow> (\<forall>k \<in> set ks. length k = 32)" using assms(1) by (simp_all add: order_wf_def)
  show "\<forall>x. od_keys odr = Some x \<longrightarrow> split_keys (concat x) = Inr x"
    using r(1) k len(1) by (auto simp: roster_ok_def MAX_KEYS_def intro!: split_keys_concat)
  show "\<forall>x. od_old_devices odr = Some x \<longrightarrow> split_names t (concat x) = Inr x"
    "\<forall>x. od_new_devices odr = Some x \<longrightarrow> split_names t (concat x) = Inr x"
    using r(2) n len(2,3) by (auto simp: names_ok_def MAX_DEVICE_NAMES_def intro!: split_names_concat)
qed

lemma decode_encode_order:
  assumes "order_wf odr" and "encode_order odr = Inr body"
  shows "decode_order body = Inr odr"
proof -
  obtain bq rb where ok: "check_order odr = Inr ()"
    and bq: "encode_opt (rule_stream OR_BEQUEST) (od_bequests odr) = Inr bq"
    and rb: "encode_opt encode_attribute_rule (od_rule odr) = Inr rb"
    and w: "write_fields (order_fields bq rb odr) = Inr body"
    using assms(2) by (auto simp: encode_order_def bindR_eq_Inr)
  have bq': "bq = map_option enc_stream (od_bequests odr)"
    "\<forall>x. od_bequests odr = Some x \<longrightarrow> split_bequests (enc_stream x) = Inr x"
    using bq ok by (auto simp: encode_opt_Inr rule_stream_Inr split_bequests_Inr check_order_admissible order_admissible_def
        bequests_ok_def MAX_HEIRS_def split: option.splits)
  have rb': "case od_rule odr of None \<Rightarrow> rb = None | Some x \<Rightarrow> \<exists>bs. rb = Some bs \<and> decode_attribute_rule bs = Inr x"
    using rb assms(1) by (auto simp: encode_opt_Inr order_wf_def attribute_rule_codec.dec_enc split: option.splits)
  have asc: "ascending None (order_fields bq rb odr)" and body: "body = enc_fields (order_fields bq rb odr)"
    using w by (simp_all add: write_fields_eq_Inr)
  have wf: "length (od_file_id odr) = 16" "\<forall>x. od_device_fpr odr = Some x \<longrightarrow> length x = 32"
    "\<forall>x. od_signer_key odr = Some x \<longrightarrow> length x = 32" "\<forall>x. od_authority_key odr = Some x \<longrightarrow> length x = 32"
    "\<forall>x. od_grant_id odr = Some x \<longrightarrow> length x = 16" using assms(1) by (simp_all add: order_wf_def)
  have head: "run_fields order_step [(OR_VERSION, le16 ORDER_VERSION), (OR_FILE_ID, od_file_id odr),
      (OR_KIND, [kind_u8 (od_kind odr)]), (OR_AT, le64 (od_at odr))] order_decode_start =
      Inr (order_decode_start\<lparr>ok_version := Some ORDER_VERSION, ok_file_id := Some (od_file_id odr),
        ok_kind := Some (od_kind odr), ok_at := Some (od_at odr)\<rparr>)"
    using wf(1) by (simp add: order_step_def exact_len_def kind_from_byte_eq [THEN iffD2])
  have "tlv_values order_step body order_decode_start = Inr (order_state odr)"
    unfolding body tlv_values_read [OF asc] unfolding order_fields_def run_fields_append head bq'(1)
    by (simp add: run_order_fields run_rule [OF _ rb'] checked_lists [OF assms(1) ok] bq'(2) wf order_decode_start_def order_state_def)
  with ok show ?thesis by (simp add: decode_order_def order_finish_state)
qed

interpretation order_document: signed_document encode_order decode_order order_wf AUTHOR_ORDER order_verify_signed
proof
  show "AUTHOR_ORDER \<in> set LABEL_ALL" by (simp add: LABEL_ALL_def)
qed (simp_all add: decode_encode_order order_verify_signed_def verify_signed_def order_verify_def order_transcript_def)

lemma decode_order_checked: "decode_order body = Inr odr \<Longrightarrow> order_admissible odr"
  by (auto simp: decode_order_def order_finish_def bindR_eq_Inr Let_def simp flip: check_order_admissible)

lemma order_wf_intent: "order_wf odr \<Longrightarrow> order_wf (odr\<lparr>od_at := 0, od_signer_key := None\<rparr>)"
  by (simp add: order_wf_def)

definition demo_order :: Order where
  "demo_order = (order_new (replicate 16 1) SetLimits 7)\<lparr>od_max_devices := Some 3\<rparr>"

lemma demo_order_wf: "order_wf demo_order"
  by (simp add: demo_order_def order_new_def order_wf_def)

lemma demo_order_body: "\<exists>body. encode_order demo_order = Inr body"
proof -
  have "check_order demo_order = Inr ()"
    by (simp add: check_order_admissible order_admissible_def present_fields_def demo_order_def order_new_def)
  then show ?thesis
    by (simp add: encode_order_def encode_opt_def demo_order_def order_new_def order_fields_def)
qed

section \<open>Properties\<close>

text \<open>
  C26.  An order is executed only when it is signed and of an admissible shape.  What
  \<open>order_verify_signed\<close> accepts is a signature of sixty-four bytes and a body, the signature
  verifies under the author's key over the label of orders and exactly that body, and the order is
  admissible for its kind: every optional field its kind demands is there and no other but those it
  allows, orders about the account name no file, orders about a file name one, a roster is empty
  with threshold zero or has at most sixteen distinct keys and a threshold between one and their
  number, bequests are at most sixteen approving decisions for this file and for different heirs,
  and a replacement names old and new devices, at most four distinct ones each, none of them the
  zero name and none both old and new.  A signature that does not verify is
  refused whatever the body is, and a well-formed order that was encoded and signed is read back.
\<close>

theorem order_authentic:
  assumes "order_verify_signed c bs key = Inr odr"
  shows "(\<exists>signature body. bs = signature @ body \<and> length signature = 64 \<and> signed_by c AUTHOR_ORDER key body signature \<and>
       decode_order body = Inr odr) \<and>
     order_admissible odr \<and>
     (\<forall>signature body. length signature = 64 \<longrightarrow> \<not> signed_by c AUTHOR_ORDER key body signature \<longrightarrow>
        order_verify_signed c (signature @ body) key = Inl BadHeaderSignature) \<and>
     (\<forall>p signature body. order_wf p \<longrightarrow> encode_order p = Inr body \<longrightarrow> length signature = 64 \<longrightarrow>
        signed_by c AUTHOR_ORDER key body signature \<longrightarrow> order_verify_signed c (signature @ body) key = Inr p)"
proof -
  obtain signature body where s: "bs = signature @ body" "length signature = 64"
    "signed_by c AUTHOR_ORDER key body signature" "decode_order body = Inr odr"
    using assms order_document.accepted_iff by blast
  moreover have "order_admissible odr" using decode_order_checked [OF s(4)] .
  ultimately show ?thesis using order_document.unsigned_refused order_document.issued_opens by blast
qed

theorem order_authentic_witness:
  "\<exists>body. order_verify_signed demo_crates ((replicate 32 0 @ replicate 32 7) @ body) (replicate 32 7) = Inr demo_order \<and>
     order_admissible demo_order"
proof -
  obtain body where body: "encode_order demo_order = Inr body" using demo_order_body by blast
  have "order_verify_signed demo_crates ((replicate 32 0 @ replicate 32 7) @ body) (replicate 32 7) = Inr demo_order"
    by (rule order_document.issued_opens [OF demo_order_wf body]) (simp_all add: demo_signed)
  with order_authentic [OF this] show ?thesis by blast
qed

text \<open>
  The digest of an order's intent identifies what the order asks for.  When the digests of two
  well-formed orders are equal, the orders agree in everything but the time of issue and the
  signer's key, unless the two encodings are a collision of the hash; and orders that agree so have
  the same digest.  For the kinds that demand a signer's key there is no digest.
\<close>

theorem intent_digest_identifies:
  assumes "order_wf p" and "order_wf q" and "intent_digest c p = Inr d" and "intent_digest c q = Inr e"
  shows "(d = e \<longrightarrow>
       p\<lparr>od_at := 0, od_signer_key := None\<rparr> = q\<lparr>od_at := 0, od_signer_key := None\<rparr> \<or>
       (\<exists>a b. a \<noteq> b \<and> sha256_digest c a = sha256_digest c b)) \<and>
     (p\<lparr>od_at := 0, od_signer_key := None\<rparr> = q\<lparr>od_at := 0, od_signer_key := None\<rparr> \<longrightarrow> d = e) \<and>
     od_kind p \<notin> {ApproveDevice, Freeze, WatchAuthor, RevokeGrant}"
proof -
  let ?p = "p\<lparr>od_at := 0, od_signer_key := None\<rparr>" and ?q = "q\<lparr>od_at := 0, od_signer_key := None\<rparr>"
  obtain a b where enc: "encode_order ?p = Inr a" "encode_order ?q = Inr b" and de: "d = sha256_digest c a" "e = sha256_digest c b"
    using assms(3,4) by (auto simp: intent_digest_def bindR_eq_Inr)
  have "?p = ?q" if "a = b"
    using order_document.enc_determines [OF order_wf_intent [OF assms(1)] order_wf_intent [OF assms(2)]] enc that by blast
  moreover have "check_order ?p = Inr ()" using enc(1) by (auto simp: encode_order_def bindR_eq_Inr)
  then have "od_kind p \<notin> {ApproveDevice, Freeze, WatchAuthor, RevokeGrant}" by (simp add: check_order_Inr)
  moreover have "d = e" if "?p = ?q" using enc de that by simp
  ultimately show ?thesis using de by blast
qed

theorem intent_digest_identifies_witness:
  "\<exists>d. intent_digest demo_crates (demo_order\<lparr>od_at := 0\<rparr>) = Inr d \<and> intent_digest demo_crates demo_order = Inr d"
proof -
  have wf: "order_wf (demo_order\<lparr>od_at := 0\<rparr>)" using demo_order_wf by (simp add: order_wf_def)
  have same: "demo_order\<lparr>od_at := 0, od_signer_key := None\<rparr> = demo_order\<lparr>od_at := 0\<rparr>" by (simp add: demo_order_def order_new_def)
  have "check_order (demo_order\<lparr>od_at := 0\<rparr>) = Inr ()"
    by (simp add: check_order_admissible order_admissible_def present_fields_def demo_order_def order_new_def)
  then have "\<exists>body. encode_order (demo_order\<lparr>od_at := 0\<rparr>) = Inr body"
    by (simp add: encode_order_def encode_opt_def demo_order_def order_new_def order_fields_def)
  then obtain d e where d: "intent_digest demo_crates (demo_order\<lparr>od_at := 0\<rparr>) = Inr d" "intent_digest demo_crates demo_order = Inr e"
    by (auto simp: intent_digest_def demo_order_def order_new_def)
  then have "d = e"
    using intent_digest_identifies [OF wf demo_order_wf d] by (simp add: same)
  with d show ?thesis by blast
qed

end
