(* ===== verification/OC_Engine.thy ===== *)
theory OC_Engine
  imports OC_Seal OC_Header_Valid OC_Content
begin

text \<open>
  Packing a file (\<^verbatim>\<open>oc-engine/src/lib.rs\<close>).  \<open>plan_pack\<close> draws the identifier, the salt, the content
  key and its two shares; the caller then seals the chunks under the planned payload key;
  \<open>assemble\<close> writes the header with its key slots and the authenticated content description.
  The locale \<open>slot_sealer\<close> is the contract of the four functions that seal a key slot.
\<close>

section \<open>Generators\<close>

text \<open>
  A computation that draws from a generator returns its result and the next state of the
  generator; \<open>bindG\<close> is the operator \<^verbatim>\<open>?\<close> on such computations.
\<close>

definition bindG :: "('g \<Rightarrow> ('e + 'a) \<times> 'g) \<Rightarrow> ('a \<Rightarrow> 'g \<Rightarrow> ('e + 'b) \<times> 'g) \<Rightarrow> 'g \<Rightarrow> ('e + 'b) \<times> 'g" where
  "bindG m f rng = (case m rng of (Inl e, rng) \<Rightarrow> (Inl e, rng) | (Inr x, rng) \<Rightarrow> f x rng)"

definition pureG :: "'e + 'a \<Rightarrow> 'g \<Rightarrow> ('e + 'a) \<times> 'g" where
  "pureG r rng = (r, rng)"

definition errG :: "('d \<Rightarrow> 'e) \<Rightarrow> ('g \<Rightarrow> ('d + 'a) \<times> 'g) \<Rightarrow> 'g \<Rightarrow> ('e + 'a) \<times> 'g" where
  "errG f m rng = map_prod (map_sum f id) id (m rng)"

section \<open>Data\<close>

abbreviation (input) META_TAG_NAME :: u16 where "META_TAG_NAME \<equiv> 1"
abbreviation (input) META_TAG_SIZE :: u16 where "META_TAG_SIZE \<equiv> 2"

definition META_NONCE_LEN :: nat where "META_NONCE_LEN = 24"

datatype EngineError =
    EngineFormat FormatError
  | EngineCrypto CryptoError
  | CoreHashMismatch
  | PlanMismatch
  | MissingAuthorHybridKey

definition engine_suite :: Suite where
  "engine_suite = \<lparr>su_sig = Ed25519, su_aead = XChaCha20Poly1305, su_tree_hash = Blake3\<rparr>"

datatype Recipient =
    NoRecipient
  | Identity bytes
  | Hybrid bytes
  | HardwareHybrid bytes
  | Claim bytes

datatype RecipientPlan =
    PlanNone
  | PlanIdentity bytes
  | PlanHybrid bytes
  | PlanHardwareHybrid bytes
  | PlanClaim bytes

fun plan_matches :: "Crates \<Rightarrow> bytes \<Rightarrow> RecipientPlan \<Rightarrow> Recipient \<Rightarrow> bool" where
  "plan_matches c file_id PlanNone NoRecipient = True"
| "plan_matches c file_id (PlanIdentity planned) (Identity public_key) = public_key_eq c planned public_key"
| "plan_matches c file_id (PlanHybrid planned) (Hybrid public_key) = public_key_eq c planned public_key"
| "plan_matches c file_id (PlanHardwareHybrid planned) (HardwareHybrid public_key) = public_key_eq c planned public_key"
| "plan_matches c file_id (PlanClaim planned) (Claim secret) =
     (case secret_b_from_claim c file_id secret of (_, commitment) \<Rightarrow> digest_eq_ct c planned commitment)"
| "plan_matches c file_id _ _ = False"

record PublicKeys =
  pk_author :: bytes
  pk_authority_sealing :: bytes
  pk_authority_lease_verify :: bytes
  pk_device :: bytes
  pk_device_hardware_hybrid :: "bytes option"
  pk_device_hybrid :: "bytes option"
  pk_device_tpm :: "bytes option"

record PackRequest =
  pr_original_name :: bytes
  pr_policy :: Policy
  pr_chunk_size :: u32
  pr_org_id :: bytes
  pr_authority_urls :: "bytes list"
  pr_recipient :: Recipient
  pr_coauthors :: "Coauthors option"

record Plan =
  pl_file_id :: bytes
  pl_payload_key :: bytes
  pl_chunk_size :: u32
  pl_aead :: AeadAlg

record SealedInfo =
  si_total_len :: u64
  si_chunk_count :: u32
  si_tree_root :: bytes

record Assembled =
  as_header :: bytes
  as_content_desc :: bytes

record Session =
  sn_file_id :: bytes
  sn_header_salt :: bytes
  sn_chunk_size :: u32
  sn_cek :: bytes
  sn_secret_a :: bytes
  sn_secret_b :: bytes
  sn_plan :: RecipientPlan

section \<open>Planning\<close>

text \<open>The share of the recipient and the slot that carries it are chosen together.\<close>

definition plan_share ::
    "Crates \<Rightarrow> (nat \<Rightarrow> 'g \<Rightarrow> bytes \<times> 'g) \<Rightarrow> bytes \<Rightarrow> Recipient \<Rightarrow> 'g \<Rightarrow> (bytes \<times> RecipientPlan) \<times> 'g" where
  "plan_share c fill_bytes file_id recipient rng =
     (case recipient of
        NoRecipient \<Rightarrow> (case fill_bytes SECRET_LEN rng of (b, rng) \<Rightarrow> ((b, PlanNone), rng))
      | Identity public_key \<Rightarrow> (case fill_bytes SECRET_LEN rng of (b, rng) \<Rightarrow> ((b, PlanIdentity public_key), rng))
      | Hybrid public_key \<Rightarrow> (case fill_bytes SECRET_LEN rng of (b, rng) \<Rightarrow> ((b, PlanHybrid public_key), rng))
      | HardwareHybrid public_key \<Rightarrow>
          (case fill_bytes SECRET_LEN rng of (b, rng) \<Rightarrow> ((b, PlanHardwareHybrid public_key), rng))
      | Claim secret \<Rightarrow> (case secret_b_from_claim c file_id secret of (share, commit) \<Rightarrow> ((share, PlanClaim commit), rng)))"

definition plan_pack ::
    "Crates \<Rightarrow> (nat \<Rightarrow> 'g \<Rightarrow> bytes \<times> 'g) \<Rightarrow> PackRequest \<Rightarrow> 'g \<Rightarrow> (Session \<times> Plan) \<times> 'g" where
  "plan_pack c fill_bytes request rng =
     (case fill_bytes 16 rng of (file_id, rng) \<Rightarrow>
      case fill_bytes 32 rng of (header_salt, rng) \<Rightarrow>
      case fill_bytes SECRET_LEN rng of (cek, rng) \<Rightarrow>
      case fill_bytes SECRET_LEN rng of (secret_a, rng) \<Rightarrow>
      case plan_share c fill_bytes file_id (pr_recipient request) rng of ((secret_b, plan), rng) \<Rightarrow>
        let payload_key = derive_payload_key c cek header_salt file_id (pr_chunk_size request) (su_aead engine_suite) in
        ((\<lparr>sn_file_id = file_id, sn_header_salt = header_salt, sn_chunk_size = pr_chunk_size request, sn_cek = cek,
           sn_secret_a = secret_a, sn_secret_b = secret_b, sn_plan = plan\<rparr>,
          \<lparr>pl_file_id = file_id, pl_payload_key = payload_key, pl_chunk_size = pr_chunk_size request,
           pl_aead = su_aead engine_suite\<rparr>),
         rng))"

section \<open>Slots\<close>

definition both_shares :: "bytes \<Rightarrow> bytes \<Rightarrow> bytes" where
  "both_shares a b = a @ b"

definition seal_slot_p256 ::
    "Crates \<Rightarrow> Kems \<Rightarrow> (nat \<Rightarrow> 'g \<Rightarrow> bytes \<times> 'g) \<Rightarrow> ('g \<Rightarrow> bytes \<times> 'g) \<Rightarrow>
     SlotKind \<Rightarrow> bytes \<Rightarrow> Label \<Rightarrow> bytes \<Rightarrow> bytes \<Rightarrow> bytes \<Rightarrow> bytes \<Rightarrow> 'g \<Rightarrow> (EngineError + KeySlot) \<times> 'g" where
  "seal_slot_p256 c k fill_bytes generate kind recipient_public purpose file_id pol_hash plaintext commitment =
     (let kem = P256HkdfSha256; info = slot_info purpose kem file_id in
      bindG (errG EngineCrypto (seal_p256 c k fill_bytes generate recipient_public info pol_hash plaintext)) (\<lambda>blob.
      pureG (Inr (Known
        \<lparr>ks_kind = kind, ks_kem = kem, ks_enc = blob_enc blob, ks_nonce = blob_nonce blob, ks_ct = blob_ct blob,
         ks_commitment = commitment, ks_key_fpr = Some recipient_public, ks_claim_commit = None\<rparr>))))"

definition seal_slot_xwing ::
    "Crates \<Rightarrow> Kems \<Rightarrow> (nat \<Rightarrow> 'g \<Rightarrow> bytes \<times> 'g) \<Rightarrow>
     SlotKind \<Rightarrow> bytes \<Rightarrow> Label \<Rightarrow> bytes \<Rightarrow> bytes \<Rightarrow> bytes \<Rightarrow> bytes \<Rightarrow> 'g \<Rightarrow> (EngineError + KeySlot) \<times> 'g" where
  "seal_slot_xwing c k fill_bytes kind recipient_public purpose file_id pol_hash plaintext commitment =
     (let kem = XWing; info = slot_info purpose kem file_id in
      bindG (errG EngineCrypto (seal_xwing c k fill_bytes recipient_public info pol_hash plaintext)) (\<lambda>blob.
      pureG (Inr (Known
        \<lparr>ks_kind = kind, ks_kem = kem, ks_enc = blob_enc blob, ks_nonce = blob_nonce blob, ks_ct = blob_ct blob,
         ks_commitment = commitment, ks_key_fpr = Some recipient_public, ks_claim_commit = None\<rparr>))))"

definition seal_slot_mlkem_p256 ::
    "Crates \<Rightarrow> Kems \<Rightarrow> (nat \<Rightarrow> 'g \<Rightarrow> bytes \<times> 'g) \<Rightarrow>
     SlotKind \<Rightarrow> bytes \<Rightarrow> Label \<Rightarrow> bytes \<Rightarrow> bytes \<Rightarrow> bytes \<Rightarrow> bytes \<Rightarrow> 'g \<Rightarrow> (EngineError + KeySlot) \<times> 'g" where
  "seal_slot_mlkem_p256 c k fill_bytes kind recipient_public purpose file_id pol_hash plaintext commitment =
     (let kem = MlKem768P256; info = slot_info purpose kem file_id in
      bindG (errG EngineCrypto (seal_mlkem_p256 c k fill_bytes recipient_public info pol_hash plaintext)) (\<lambda>blob.
      pureG (Inr (Known
        \<lparr>ks_kind = kind, ks_kem = kem, ks_enc = blob_enc blob, ks_nonce = blob_nonce blob, ks_ct = blob_ct blob,
         ks_commitment = commitment, ks_key_fpr = Some recipient_public, ks_claim_commit = None\<rparr>))))"

definition DEFAULT_SEALING_KEM :: KemAlg where "DEFAULT_SEALING_KEM = X25519HkdfSha256"

definition seal_slot ::
    "Crates \<Rightarrow> (nat \<Rightarrow> 'g \<Rightarrow> bytes \<times> 'g) \<Rightarrow>
     SlotKind \<Rightarrow> bytes \<Rightarrow> Label \<Rightarrow> bytes \<Rightarrow> bytes \<Rightarrow> bytes \<Rightarrow> bytes \<Rightarrow> 'g \<Rightarrow> (EngineError + KeySlot) \<times> 'g" where
  "seal_slot c fill_bytes kind recipient_public purpose file_id pol_hash plaintext commitment =
     (let kem = DEFAULT_SEALING_KEM; info = slot_info purpose kem file_id in
      bindG (errG EngineCrypto (seal c fill_bytes recipient_public info pol_hash plaintext)) (\<lambda>blob.
      pureG (Inr (Known
        \<lparr>ks_kind = kind, ks_kem = kem, ks_enc = blob_enc blob, ks_nonce = blob_nonce blob, ks_ct = blob_ct blob,
         ks_commitment = commitment, ks_key_fpr = Some recipient_public, ks_claim_commit = None\<rparr>))))"

definition claim_slot :: "bytes \<Rightarrow> bytes \<Rightarrow> KeySlot" where
  "claim_slot claim_commit commitment =
     Known \<lparr>ks_kind = RecipientClaim, ks_kem = DEFAULT_SEALING_KEM, ks_enc = replicate 32 0, ks_nonce = replicate 24 0,
       ks_ct = [], ks_commitment = commitment, ks_key_fpr = None, ks_claim_commit = Some claim_commit\<rparr>"

section \<open>Private metadata\<close>

definition seal_private_meta ::
    "Crates \<Rightarrow> (nat \<Rightarrow> 'g \<Rightarrow> bytes \<times> 'g) \<Rightarrow> bytes \<Rightarrow> bytes \<Rightarrow> bytes \<Rightarrow> PackRequest \<Rightarrow> u64 \<Rightarrow> 'g \<Rightarrow>
     (EngineError + bytes) \<times> 'g" where
  "seal_private_meta c fill_bytes cek header_salt file_id request total_len rng =
     (case map_sum EngineFormat id
         (put_all [(META_TAG_NAME, pr_original_name request), (META_TAG_SIZE, le64 total_len)] writer_new) of
        Inl e \<Rightarrow> (Inl e, rng)
      | Inr meta \<Rightarrow>
          (let key = derive_private_meta_key c cek header_salt file_id; body = finish meta in
           case fill_bytes META_NONCE_LEN rng of (nonce_seed, rng) \<Rightarrow>
             (bindR (map_sum EngineCrypto id (seal_metadata_hedged c key file_id nonce_seed body)) (\<lambda>(nonce, ct).
              Inr (nonce @ ct)), rng)))"

section \<open>Assembly\<close>

definition skeleton_header :: "PackRequest \<Rightarrow> PublicKeys \<Rightarrow> bytes \<Rightarrow> bytes \<Rightarrow> bytes \<Rightarrow> bytes \<Rightarrow> Header" where
  "skeleton_header request keys file_id header_salt tree_root private_meta =
     \<lparr>hd_container_version = CONTAINER_VERSION, hd_min_reader_version = SUPPORTED_READER_VERSION,
      hd_file_id = file_id, hd_suite = engine_suite, hd_author_key = pk_author keys,
      hd_header_salt = header_salt, hd_chunk_size = pr_chunk_size request, hd_original_root = tree_root,
      hd_policy = pr_policy request, hd_key_slots = [],
      hd_authority = \<lparr>au_urls = pr_authority_urls request, au_sealing_kid = pk_authority_sealing keys,
        au_lease_verify_key = pk_authority_lease_verify keys\<rparr>,
      hd_private_meta = private_meta, hd_prev_header_hash = None, hd_org_id = pr_org_id request, hd_class = 0,
      hd_footer_offset = None, hd_wrapped_cek = replicate WRAPPED_CEK_LEN 0, hd_coauthors = pr_coauthors request\<rparr>"

definition recipient_slots ::
    "Crates \<Rightarrow> Kems \<Rightarrow> (nat \<Rightarrow> 'g \<Rightarrow> bytes \<times> 'g) \<Rightarrow> RecipientPlan \<Rightarrow> bytes \<Rightarrow> bytes \<Rightarrow> bytes \<Rightarrow> bytes \<Rightarrow> 'g \<Rightarrow>
     (EngineError + KeySlot list) \<times> 'g" where
  "recipient_slots c k fill_bytes plan file_id pol_hash secret_b commitment =
     (case plan of
        PlanNone \<Rightarrow> pureG (Inr [])
      | PlanIdentity public_key \<Rightarrow>
          bindG (seal_slot c fill_bytes RecipientIdentity public_key SLOT_RECIPIENT file_id pol_hash secret_b commitment)
            (\<lambda>slot. pureG (Inr [slot]))
      | PlanHardwareHybrid public_key \<Rightarrow>
          bindG (seal_slot_mlkem_p256 c k fill_bytes RecipientIdentity public_key SLOT_RECIPIENT file_id pol_hash
              secret_b commitment)
            (\<lambda>slot. pureG (Inr [slot]))
      | PlanHybrid public_key \<Rightarrow>
          bindG (seal_slot_xwing c k fill_bytes RecipientIdentity public_key SLOT_RECIPIENT file_id pol_hash
              secret_b commitment)
            (\<lambda>slot. pureG (Inr [slot]))
      | PlanClaim claim_commit \<Rightarrow> pureG (Inr [claim_slot claim_commit commitment]))"

fun is_hybrid :: "RecipientPlan \<Rightarrow> bool" where
  "is_hybrid (PlanHybrid _) = True"
| "is_hybrid _ = False"

fun is_hardware :: "RecipientPlan \<Rightarrow> bool" where
  "is_hardware (PlanHardwareHybrid _) = True"
| "is_hardware _ = False"

definition author_slot ::
    "Crates \<Rightarrow> Kems \<Rightarrow> (nat \<Rightarrow> 'g \<Rightarrow> bytes \<times> 'g) \<Rightarrow> ('g \<Rightarrow> bytes \<times> 'g) \<Rightarrow> bool \<Rightarrow> bool \<Rightarrow> PublicKeys \<Rightarrow>
     bytes \<Rightarrow> bytes \<Rightarrow> bytes \<Rightarrow> bytes \<Rightarrow> bytes \<Rightarrow> 'g \<Rightarrow> (EngineError + KeySlot) \<times> 'g" where
  "author_slot c k fill_bytes generate hardware_recipient hybrid_recipient keys file_id pol_hash secret_a secret_b commitment =
     (case (hardware_recipient, pk_device_hardware_hybrid keys) of
        (True, Some public) \<Rightarrow>
          seal_slot_mlkem_p256 c k fill_bytes AuthorDevice public SLOT_AUTHOR_DEVICE file_id pol_hash
            (both_shares secret_a secret_b) commitment
      | (True, None) \<Rightarrow> pureG (Inl MissingAuthorHybridKey)
      | (False, _) \<Rightarrow>
          (case (hybrid_recipient, pk_device_hybrid keys, pk_device_tpm keys) of
             (True, Some hybrid_public, _) \<Rightarrow>
               seal_slot_xwing c k fill_bytes AuthorDevice hybrid_public SLOT_AUTHOR_DEVICE file_id pol_hash
                 (both_shares secret_a secret_b) commitment
           | (True, None, _) \<Rightarrow> pureG (Inl MissingAuthorHybridKey)
           | (False, _, Some tpm_public) \<Rightarrow>
               seal_slot_p256 c k fill_bytes generate AuthorDevice tpm_public SLOT_AUTHOR_DEVICE file_id pol_hash
                 (both_shares secret_a secret_b) commitment
           | (False, _, None) \<Rightarrow>
               seal_slot c fill_bytes AuthorDevice (pk_device keys) SLOT_AUTHOR_DEVICE file_id pol_hash
                 (both_shares secret_a secret_b) commitment))"

text \<open>The end of \<^verbatim>\<open>assemble\<close>: the header with its slots is encoded, its core hash compared, and the content described.\<close>

definition assemble_finish ::
    "Crates \<Rightarrow> Session \<Rightarrow> SealedInfo \<Rightarrow> Header \<Rightarrow> bytes \<Rightarrow> 'g \<Rightarrow> (EngineError + Assembled) \<times> 'g" where
  "assemble_finish c session sealed header core =
     (let file_id = sn_file_id session; header_salt = sn_header_salt session; cek = sn_cek session in
      bindG (pureG (map_sum EngineFormat id (header_encode header))) (\<lambda>final_bytes.
      bindG (pureG (map_sum EngineFormat id (header_decode final_bytes))) (\<lambda>final_parsed.
      bindG (pureG (map_sum EngineFormat id (core_hash c final_bytes (ph_spans final_parsed)))) (\<lambda>recomputed.
      bindG (pureG (ensure (digest_eq_ct c recomputed core) CoreHashMismatch)) (\<lambda>_.
      let mac_key = derive_content_mac_key c cek header_salt file_id in
      bindG (pureG (map_sum EngineFormat id (content_encode c mac_key file_id (hd_container_version header)
          \<lparr>cd_total_len = si_total_len sealed, cd_chunk_count = si_chunk_count sealed, cd_tree_root = si_tree_root sealed,
           cd_version_counter = 0, cd_footer_offset = None, cd_editor = None\<rparr>))) (\<lambda>content_desc.
      pureG (Inr \<lparr>as_header = final_bytes, as_content_desc = content_desc\<rparr>)))))))"

definition assemble ::
    "Crates \<Rightarrow> Kems \<Rightarrow> (nat \<Rightarrow> 'g \<Rightarrow> bytes \<times> 'g) \<Rightarrow> ('g \<Rightarrow> bytes \<times> 'g) \<Rightarrow>
     Session \<Rightarrow> PackRequest \<Rightarrow> PublicKeys \<Rightarrow> SealedInfo \<Rightarrow> 'g \<Rightarrow> (EngineError + Assembled) \<times> 'g" where
  "assemble c k fill_bytes generate session request keys sealed =
     (let file_id = sn_file_id session; header_salt = sn_header_salt session; cek = sn_cek session;
          secret_a = sn_secret_a session; secret_b = sn_secret_b session; plan = sn_plan session in
      if pr_chunk_size request \<noteq> sn_chunk_size session \<or> \<not> plan_matches c file_id plan (pr_recipient request)
      then pureG (Inl PlanMismatch)
      else
        bindG (seal_private_meta c fill_bytes cek header_salt file_id request (si_total_len sealed)) (\<lambda>private_meta.
        let header = skeleton_header request keys file_id header_salt (si_tree_root sealed) private_meta in
        bindG (pureG (map_sum EngineFormat id (header_encode header))) (\<lambda>skeleton.
        bindG (pureG (map_sum EngineFormat id (header_decode skeleton))) (\<lambda>parsed.
        bindG (pureG (map_sum EngineFormat id (core_hash c skeleton (ph_spans parsed)))) (\<lambda>core.
        bindG (pureG (map_sum EngineFormat id (policy_hash c skeleton (ph_spans parsed)))) (\<lambda>policy.
        let kek = derive_kek c file_id (pr_org_id request) secret_a secret_b in
        bindG (errG EngineCrypto (wrap_cek c fill_bytes kek cek core)) (\<lambda>(wrapped_cek, commitment).
        let header = header\<lparr>hd_wrapped_cek := wrapped_cek\<rparr> in
        bindG (seal_slot c fill_bytes Server (pk_authority_sealing keys) SLOT_SERVER file_id policy secret_a commitment) (\<lambda>server.
        bindG (recipient_slots c k fill_bytes plan file_id policy secret_b commitment) (\<lambda>recipients.
        bindG (author_slot c k fill_bytes generate (is_hardware plan) (is_hybrid plan) keys file_id policy
            secret_a secret_b commitment) (\<lambda>author.
        assemble_finish c session sealed (header\<lparr>hd_key_slots := server # recipients @ [author]\<rparr>) core))))))))))"

section \<open>Computations that draw\<close>

lemma bindG_Inr: "bindG m f g = (Inr y, g') \<longleftrightarrow> (\<exists>x h. m g = (Inr x, h) \<and> f x h = (Inr y, g'))"
  by (auto simp: bindG_def split: prod.splits sum.splits)

lemma pureG_eq: "pureG r g = (x, h) \<longleftrightarrow> r = x \<and> h = g"
  by (auto simp: pureG_def)

lemma errG_Inr: "errG f m g = (Inr x, h) \<longleftrightarrow> m g = (Inr x, h)"
  by (cases "m g"; cases "fst (m g)") (auto simp: errG_def)

lemmas runG = bindG_Inr pureG_eq errG_Inr map_sum_Inr

section \<open>Slots open\<close>

text \<open>The secrets behind the keys that slots are sealed to, and how each opens a slot.\<close>

datatype SlotSecret = X25519Secret bytes | P256Secret bytes | XWingSecret bytes | MlKemP256Secret bytes

primrec secret_kem :: "SlotSecret \<Rightarrow> KemAlg" where
  "secret_kem (X25519Secret _) = X25519HkdfSha256"
| "secret_kem (P256Secret _) = P256HkdfSha256"
| "secret_kem (XWingSecret _) = XWing"
| "secret_kem (MlKemP256Secret _) = MlKem768P256"

primrec secret_public :: "Crates \<Rightarrow> Kems \<Rightarrow> SlotSecret \<Rightarrow> CryptoError + bytes" where
  "secret_public c k (X25519Secret s) = Inr (x25519_public c s)"
| "secret_public c k (P256Secret s) = bindR (p256_from_be_bytes k s) (\<lambda>s. Inr (p256_public_of k s))"
| "secret_public c k (XWingSecret s) = xwing_public_key c k s"
| "secret_public c k (MlKemP256Secret s) = mlp_public c k s"

definition slot_blob :: "KnownSlot \<Rightarrow> SealedBlob" where
  "slot_blob s = \<lparr>blob_enc = ks_enc s, blob_nonce = ks_nonce s, blob_ct = ks_ct s\<rparr>"

primrec secret_open :: "Crates \<Rightarrow> Kems \<Rightarrow> SlotSecret \<Rightarrow> SealedBlob \<Rightarrow> bytes \<Rightarrow> bytes \<Rightarrow> CryptoError + bytes" where
  "secret_open c k (X25519Secret s) blob info aad = open_blob c s blob info aad"
| "secret_open c k (P256Secret s) blob info aad = open_with c (P256Agreement c k s) blob info aad"
| "secret_open c k (XWingSecret s) blob info aad = open_xwing c k s blob info aad"
| "secret_open c k (MlKemP256Secret s) blob info aad =
     bindR (keypair_from_seed k s) (\<lambda>kp.
     open_mlkem_p256 c k (kp_ml_kem_seed kp) (P256Agreement c k (kp_classical kp)) blob info aad)"

text \<open>
  A slot yields a share: every secret whose public key the slot names opens it, under the
  purpose, the file and the policy hash, to that share.
\<close>

definition slot_yields :: "Crates \<Rightarrow> Kems \<Rightarrow> KnownSlot \<Rightarrow> Label \<Rightarrow> bytes \<Rightarrow> bytes \<Rightarrow> bytes \<Rightarrow> bool" where
  "slot_yields c k slot purpose file_id pol_hash share \<longleftrightarrow>
     (\<forall>s. secret_kem s = ks_kem slot \<longrightarrow> map_sum id Some (secret_public c k s) = Inr (ks_key_fpr slot) \<longrightarrow>
        secret_open c k s (slot_blob slot) (slot_info purpose (ks_kem slot) file_id) pol_hash = Inr share)"

definition slot_laws :: "Crates \<Rightarrow> Kems \<Rightarrow> ('g \<Rightarrow> bytes \<times> 'g) \<Rightarrow> bool" where
  "slot_laws c k generate \<longleftrightarrow>
     aead_correct c \<and> hkdf_total c \<and> x25519_laws c \<and> p256_laws c k \<and> mlkem_laws k \<and> (\<forall>h. p256_scalar_ok k (fst (generate h)))"

definition slot_for :: "SlotKind \<Rightarrow> KemAlg \<Rightarrow> bytes \<Rightarrow> bytes \<Rightarrow> KnownSlot \<Rightarrow> bool" where
  "slot_for kind kem key commitment s \<longleftrightarrow>
     known_slot_wf s \<and> ks_kind s = kind \<and> ks_kem s = kem \<and> ks_commitment s = commitment \<and>
     ks_key_fpr s = Some key \<and> ks_claim_commit s = None"

definition mechanism_of ::
    "KemAlg \<Rightarrow> Crates \<Rightarrow> Kems \<Rightarrow> (nat \<Rightarrow> 'g \<Rightarrow> bytes \<times> 'g) \<Rightarrow> ('g \<Rightarrow> bytes \<times> 'g) \<Rightarrow> bytes \<Rightarrow> bytes \<Rightarrow> bytes \<Rightarrow> bytes \<Rightarrow> 'g \<Rightarrow>
     (CryptoError + SealedBlob) \<times> 'g" where
  "mechanism_of kem c k fill_bytes generate =
     (case kem of X25519HkdfSha256 \<Rightarrow> seal c fill_bytes | P256HkdfSha256 \<Rightarrow> seal_p256 c k fill_bytes generate
      | XWing \<Rightarrow> seal_xwing c k fill_bytes | MlKem768P256 \<Rightarrow> seal_mlkem_p256 c k fill_bytes
      | RsaOaepSha256 \<Rightarrow> \<lambda>_ _ _ _ g. (Inl UnsupportedAlgorithm, g))"

definition slot_of :: "SlotKind \<Rightarrow> KemAlg \<Rightarrow> bytes \<Rightarrow> bytes \<Rightarrow> SealedBlob \<Rightarrow> KnownSlot" where
  "slot_of kind kem key commitment blob =
     \<lparr>ks_kind = kind, ks_kem = kem, ks_enc = blob_enc blob, ks_nonce = blob_nonce blob, ks_ct = blob_ct blob,
      ks_commitment = commitment, ks_key_fpr = Some key, ks_claim_commit = None\<rparr>"

text \<open>A slot within the limits of the header.\<close>

definition slot_fits :: "KeySlot \<Rightarrow> bool" where
  "slot_fits slot \<longleftrightarrow> (\<exists>s. slot = Known s \<and> known_slot_wf s \<and> known_slot_ok CONTAINER_VERSION s \<and> length (ks_ct s) \<le> 80)"

text \<open>A key that every short plaintext can be sealed to.\<close>

definition seals_to ::
    "Crates \<Rightarrow> Kems \<Rightarrow> (nat \<Rightarrow> 'g \<Rightarrow> bytes \<times> 'g) \<Rightarrow> ('g \<Rightarrow> bytes \<times> 'g) \<Rightarrow> KemAlg \<Rightarrow> bytes \<Rightarrow> bool" where
  "seals_to c k fill_bytes generate kem key \<longleftrightarrow>
     expected_key_fpr_len CONTAINER_VERSION kem = Some (length key) \<and>
     (\<forall>info aad p g. length p \<le> 64 \<longrightarrow> length aad = 32 \<longrightarrow>
        (\<exists>blob g'. mechanism_of kem c k fill_bytes generate key info aad p g = (Inr blob, g') \<and>
           expected_enc_len CONTAINER_VERSION kem = Some (length (blob_enc blob))))"

text \<open>What every function that seals a slot promises.\<close>

locale slot_sealer =
  fixes kem :: KemAlg
    and sealer :: "Crates \<Rightarrow> Kems \<Rightarrow> (nat \<Rightarrow> 'g \<Rightarrow> bytes \<times> 'g) \<Rightarrow> ('g \<Rightarrow> bytes \<times> 'g) \<Rightarrow> SlotKind \<Rightarrow> bytes \<Rightarrow> Label \<Rightarrow>
      bytes \<Rightarrow> bytes \<Rightarrow> bytes \<Rightarrow> bytes \<Rightarrow> 'g \<Rightarrow> (EngineError + KeySlot) \<times> 'g"
  assumes sealer_def: "sealer c k fill_bytes generate kind pk purpose fid ph p commitment =
      bindG (errG EngineCrypto (mechanism_of kem c k fill_bytes generate pk (slot_info purpose kem fid) ph p)) (\<lambda>blob.
      pureG (Inr (Known (slot_of kind kem pk commitment blob))))"
    and blob_lengths: "slot_laws c k generate \<Longrightarrow> fst (mechanism_of kem c k fill_bytes generate pk info ph p g) = Inr blob \<Longrightarrow>
      length (blob_nonce blob) = 24 \<and> length (blob_ct blob) = length p + 16"
    and opens: "slot_laws c k generate \<Longrightarrow> fst (mechanism_of kem c k fill_bytes generate pk info ph p g) = Inr blob \<Longrightarrow>
      secret_kem s = kem \<Longrightarrow> secret_public c k s = Inr pk \<Longrightarrow> secret_open c k s blob info ph = Inr p"
begin

lemma sealed:
  assumes "slot_laws c k generate" and "length commitment = 32"
    and "sealer c k fill_bytes generate kind pk purpose fid ph p commitment g = (Inr slot, g')"
  shows "\<exists>s. slot = Known s \<and> slot_for kind kem pk commitment s \<and> slot_yields c k s purpose fid ph p"
proof -
  obtain blob where "mechanism_of kem c k fill_bytes generate pk (slot_info purpose kem fid) ph p g = (Inr blob, g')"
    and slot: "slot = Known (slot_of kind kem pk commitment blob)"
    using assms(3) by (auto simp: sealer_def runG)
  then have fst: "fst (mechanism_of kem c k fill_bytes generate pk (slot_info purpose kem fid) ph p g) = Inr blob" by simp
  have same: "\<lparr>blob_enc = blob_enc blob, blob_nonce = blob_nonce blob, blob_ct = blob_ct blob\<rparr> = blob" by simp
  have "secret_open c k s blob (slot_info purpose kem fid) ph = Inr p"
    if "secret_kem s = kem" "map_sum id Some (secret_public c k s) = Inr (Some pk)" for s
    using opens [OF assms(1) fst that(1)] that(2) by (cases "secret_public c k s") auto
  then show ?thesis
    using blob_lengths [OF assms(1) fst] assms(2)
    by (simp add: slot slot_of_def slot_for_def slot_yields_def known_slot_wf_def slot_blob_def same)
qed

lemma seals:
  assumes "slot_laws c k generate" and "length commitment = 32" and "kind_seals kind" and "seals_to c k fill_bytes generate kem pk"
    and "length p \<le> 64" and "length ph = 32"
  shows "\<exists>slot g'. sealer c k fill_bytes generate kind pk purpose fid ph p commitment g = (Inr slot, g') \<and> slot_fits slot"
proof -
  obtain blob g' where blob: "mechanism_of kem c k fill_bytes generate pk (slot_info purpose kem fid) ph p g = (Inr blob, g')"
    "expected_enc_len CONTAINER_VERSION kem = Some (length (blob_enc blob))"
    using assms(4-6) unfolding seals_to_def by blast
  then have "length (blob_nonce blob) = 24 \<and> length (blob_ct blob) = length p + 16"
    using blob_lengths [OF assms(1)] by (metis fst_conv)
  moreover from this have "blob_ct blob \<noteq> []" by auto
  ultimately have "slot_fits (Known (slot_of kind kem pk commitment blob))"
    using assms(2-5) blob(2)
    by (simp add: slot_fits_def slot_of_def known_slot_wf_def known_slot_ok_def check_slot_shape_def seals_to_def)
  with blob(1) show ?thesis by (auto simp: sealer_def runG)
qed

end

lemma hedged_nonce_total:
  assumes "hkdf_total c" and "length p < 4294967296" and "length aad < 4294967296" and "n \<le> 8160"
  shows "\<exists>nonce. hedged_nonce c n lab seed p aad = Inr nonce \<and> length nonce = n"
proof -
  obtain ikm where "hedged_input p aad = Inr ikm" using assms(2,3) by (simp add: hedged_input_Inr)
  moreover obtain okm where "hkdf_sha256 c seed ikm lab n = Some okm" "length okm = n"
    using assms(1,4) unfolding hkdf_total_def by blast
  ultimately show ?thesis by (simp add: hedged_nonce_def)
qed

lemma seal_core_lengths:
  "aead_correct c \<Longrightarrow> seal_core c shared enc pk info aad p nonce = Inr blob \<Longrightarrow>
     blob_nonce blob = nonce \<and> length (blob_ct blob) = length p + 16"
  by (auto simp: seal_core_def bindR_eq_Inr ok_or_eq_Inr aead_correct_def)

lemma mechanism_lengths:
  assumes "slot_laws c k generate" and "fst (mechanism_of kem c k fill_bytes generate pk info aad p g) = Inr blob"
  shows "length (blob_nonce blob) = 24 \<and> length (blob_ct blob) = length p + 16"
proof -
  obtain seed nonce shared enc where "hedged_nonce c SEAL_NONCE_LEN SEAL_NONCE seed p aad = Inr nonce"
    "seal_core c shared enc pk info aad p nonce = Inr blob"
    using assms(2)
    by (cases kem; auto simp: mechanism_of_def seal_def seal_p256_def seal_xwing_def seal_mlkem_p256_def bindR_eq_Inr
        split: if_splits prod.splits sum.splits)
  then show ?thesis
    using assms(1) hedged_nonce_length seal_core_lengths by (fastforce simp: slot_laws_def SEAL_NONCE_LEN_def)
qed

lemma mechanism_opens:
  assumes "slot_laws c k generate" and "fst (mechanism_of kem c k fill_bytes generate pk info aad p g) = Inr blob"
    and "secret_kem s = kem" and "secret_public c k s = Inr pk"
  shows "secret_open c k s blob info aad = Inr p"
proof (cases s)
  case (X25519Secret x)
  then show ?thesis
    using assms by (auto simp: mechanism_of_def slot_laws_def intro!: x25519_opens [THEN conjunct1])
next
  case (P256Secret x)
  then show ?thesis
    using assms
    by (auto simp: mechanism_of_def slot_laws_def p256_from_be_bytes_def bindR_eq_Inr split: if_splits intro!: p256_opens)
next
  case (XWingSecret x)
  then show ?thesis using assms by (auto simp: mechanism_of_def slot_laws_def intro!: xwing_opens)
next
  case (MlKemP256Secret x)
  then show ?thesis
    using assms by (auto simp: mechanism_of_def slot_laws_def mlp_public_def bindR_eq_Inr intro!: mlp_opens)
qed

interpretation slot_x25519: slot_sealer X25519HkdfSha256 "\<lambda>c k fill_bytes generate. seal_slot c fill_bytes"
  by unfold_locales
    ((simp add: seal_slot_def DEFAULT_SEALING_KEM_def Let_def mechanism_of_def slot_of_def; fail) | rule mechanism_lengths mechanism_opens, assumption+)+

interpretation slot_p256: slot_sealer P256HkdfSha256 seal_slot_p256
  by unfold_locales
    ((simp add: seal_slot_p256_def Let_def mechanism_of_def slot_of_def; fail) | rule mechanism_lengths mechanism_opens, assumption+)+

interpretation slot_xwing: slot_sealer XWing "\<lambda>c k fill_bytes generate. seal_slot_xwing c k fill_bytes"
  by unfold_locales
    ((simp add: seal_slot_xwing_def Let_def mechanism_of_def slot_of_def; fail) | rule mechanism_lengths mechanism_opens, assumption+)+

interpretation slot_mlkem: slot_sealer MlKem768P256 "\<lambda>c k fill_bytes generate. seal_slot_mlkem_p256 c k fill_bytes"
  by unfold_locales
    ((simp add: seal_slot_mlkem_p256_def Let_def mechanism_of_def slot_of_def; fail) | rule mechanism_lengths mechanism_opens, assumption+)+

section \<open>Hashes of an encoded header\<close>

lemma header_encode_fields:
  assumes "header_encode h = Inr bs"
  shows "\<exists>suite policy slots authority coauthors.
     encode_suite (hd_suite h) = Inr suite \<and> policy_encode (hd_container_version h) (hd_policy h) = Inr policy \<and>
     encode_authority (hd_authority h) = Inr authority \<and>
     (if FIRST_COAUTHORS_VERSION \<le> hd_container_version h
      then (case hd_coauthors h of None \<Rightarrow> coauthors = None
            | Some co \<Rightarrow> \<exists>b. coauthors = Some b \<and> encode_coauthors co = Inr b)
      else coauthors = None) \<and>
     read_fields bs = Inr (header_fields h suite policy slots authority coauthors)"
proof -
  have "read_fields (finish w) = Inr fs" if "put_all fs writer_new = Inr w" for fs w
    by (simp add: read_fields_def tlv_loop_put_all [OF that] foldR_collect)
  then show ?thesis using header_encode_Inr [OF assms] by blast
qed

lemma core_fields_slots:
  "core_fields (header_fields (h\<lparr>hd_wrapped_cek := w, hd_key_slots := ss\<rparr>) suite policy slots authority coauthors) =
     core_fields (header_fields h suite policy slots' authority coauthors)"
  by (cases "hd_prev_header_hash h"; cases "hd_footer_offset h"; cases coauthors)
    (simp_all add: header_fields_def core_fields_def)

text \<open>Filling in the slots and the wrapped key changes neither hash.\<close>

lemma hashes_stable:
  assumes "header_encode h = Inr bs" and "header_decode bs = Inr ph"
    and "header_encode (h\<lparr>hd_wrapped_cek := w, hd_key_slots := ss\<rparr>) = Inr bs'" and "header_decode bs' = Inr ph'"
  shows "core_hash c bs' (ph_spans ph') = core_hash c bs (ph_spans ph)"
    and "policy_hash c bs' (ph_spans ph') = policy_hash c bs (ph_spans ph)"
proof -
  obtain suite policy slots authority co where h: "encode_suite (hd_suite h) = Inr suite"
    "policy_encode (hd_container_version h) (hd_policy h) = Inr policy" "encode_authority (hd_authority h) = Inr authority"
    "if FIRST_COAUTHORS_VERSION \<le> hd_container_version h
      then (case hd_coauthors h of None \<Rightarrow> co = None | Some x \<Rightarrow> \<exists>b. co = Some b \<and> encode_coauthors x = Inr b) else co = None"
    and fs: "read_fields bs = Inr (header_fields h suite policy slots authority co)"
    using header_encode_fields [OF assms(1)] by blast
  let ?h = "h\<lparr>hd_wrapped_cek := w, hd_key_slots := ss\<rparr>"
  obtain slots' where fs': "read_fields bs' = Inr (header_fields ?h suite policy slots' authority co)"
    using header_encode_fields [OF assms(3)] h by (auto split: if_splits option.splits)
  show "core_hash c bs' (ph_spans ph') = core_hash c bs (ph_spans ph)"
    unfolding core_hash_eq [OF assms(2) fs] core_hash_eq [OF assms(4) fs'] by (simp add: core_fields_slots [where slots' = slots])
  have "map_of (header_fields h suite policy slots authority co) TAG_POLICY = Some policy"
    "map_of (header_fields ?h suite policy slots' authority co) TAG_POLICY = Some policy"
    by (simp_all add: header_fields_def)
  then show "policy_hash c bs' (ph_spans ph') = policy_hash c bs (ph_spans ph)"
    using policy_hash_eq [OF assms(2), of c] policy_hash_eq [OF assms(4), of c] fs fs' by auto
qed

section \<open>The assembled file\<close>

lemma recipient_slots_sealed:
  fixes fill_bytes :: "nat \<Rightarrow> 'g \<Rightarrow> bytes \<times> 'g" and generate :: "'g \<Rightarrow> bytes \<times> 'g"
  assumes "slot_laws c k generate" and "length commitment = 32"
    and "recipient_slots c k fill_bytes plan fid ph b commitment g = (Inr slots, g')"
  shows "case plan of
     PlanNone \<Rightarrow> slots = []
   | PlanIdentity pk \<Rightarrow> \<exists>s. slots = [Known s] \<and> slot_for RecipientIdentity X25519HkdfSha256 pk commitment s \<and>
       slot_yields c k s SLOT_RECIPIENT fid ph b
   | PlanHybrid pk \<Rightarrow> \<exists>s. slots = [Known s] \<and> slot_for RecipientIdentity XWing pk commitment s \<and>
       slot_yields c k s SLOT_RECIPIENT fid ph b
   | PlanHardwareHybrid pk \<Rightarrow> \<exists>s. slots = [Known s] \<and> slot_for RecipientIdentity MlKem768P256 pk commitment s \<and>
       slot_yields c k s SLOT_RECIPIENT fid ph b
   | PlanClaim commit \<Rightarrow> slots = [claim_slot commit commitment]"
  using assms(3) slot_x25519.sealed [OF assms(1,2), of fill_bytes]
    slot_xwing.sealed [OF assms(1,2), of fill_bytes] slot_mlkem.sealed [OF assms(1,2), of fill_bytes]
  by (cases plan) (fastforce simp: recipient_slots_def runG)+

text \<open>The mechanism and the key that the author's own slot takes.\<close>

definition author_key_for :: "RecipientPlan \<Rightarrow> PublicKeys \<Rightarrow> (KemAlg \<times> bytes) option" where
  "author_key_for plan keys =
     (if is_hardware plan then map_option (Pair MlKem768P256) (pk_device_hardware_hybrid keys)
      else if is_hybrid plan then map_option (Pair XWing) (pk_device_hybrid keys)
      else case pk_device_tpm keys of Some tpm \<Rightarrow> Some (P256HkdfSha256, tpm) | None \<Rightarrow> Some (X25519HkdfSha256, pk_device keys))"

lemma author_slot_sealed:
  assumes "slot_laws c k generate" and "length commitment = 32"
    and "author_slot c k fill_bytes generate (is_hardware plan) (is_hybrid plan) keys fid ph a b commitment g = (Inr slot, g')"
  shows "\<exists>s kem key. author_key_for plan keys = Some (kem, key) \<and> slot = Known s \<and>
     slot_for AuthorDevice kem key commitment s \<and> slot_yields c k s SLOT_AUTHOR_DEVICE fid ph (a @ b)"
  using assms(3) slot_x25519.sealed [OF assms(1,2), of fill_bytes] slot_p256.sealed [OF assms(1,2), of fill_bytes]
    slot_xwing.sealed [OF assms(1,2), of fill_bytes] slot_mlkem.sealed [OF assms(1,2), of fill_bytes]
  by (fastforce simp: author_slot_def author_key_for_def both_shares_def runG split: bool.splits option.splits)

lemma sealing_not_missing:
  "fst (bindG (errG EngineCrypto m) (\<lambda>blob. pureG (Inr (f blob))) g) \<noteq> Inl MissingAuthorHybridKey"
  by (cases "m g"; cases "fst (m g)") (auto simp: bindG_def errG_def pureG_def)

lemma author_slot_missing:
  "fst (author_slot c k fill_bytes generate (is_hardware plan) (is_hybrid plan) keys fid ph a b commitment g) =
     Inl MissingAuthorHybridKey \<longleftrightarrow> author_key_for plan keys = None"
  using sealing_not_missing
  by (cases "is_hardware plan"; cases "is_hybrid plan"; cases "pk_device_hardware_hybrid keys"; cases "pk_device_hybrid keys";
      cases "pk_device_tpm keys")
    (simp_all add: author_slot_def author_key_for_def seal_slot_def seal_slot_p256_def seal_slot_xwing_def
      seal_slot_mlkem_p256_def Let_def pureG_def [of "Inl MissingAuthorHybridKey"])

definition initial_desc :: "SealedInfo \<Rightarrow> ContentDesc" where
  "initial_desc sealed =
     \<lparr>cd_total_len = si_total_len sealed, cd_chunk_count = si_chunk_count sealed, cd_tree_root = si_tree_root sealed,
      cd_version_counter = 0, cd_footer_offset = None, cd_editor = None\<rparr>"

text \<open>The steps of a successful assembly.\<close>

lemma assemble_Inr:
  assumes "assemble c k fill_bytes generate session request keys sealed g = (Inr out, g')"
  shows "\<exists>meta g1 skeleton parsed core pol wrapped commitment g2 server g3 recipients g4 author ph.
     pr_chunk_size request = sn_chunk_size session \<and>
     plan_matches c (sn_file_id session) (sn_plan session) (pr_recipient request) \<and>
     seal_private_meta c fill_bytes (sn_cek session) (sn_header_salt session) (sn_file_id session) request
       (si_total_len sealed) g = (Inr meta, g1) \<and>
     header_encode (skeleton_header request keys (sn_file_id session) (sn_header_salt session) (si_tree_root sealed) meta) =
       Inr skeleton \<and>
     header_decode skeleton = Inr parsed \<and> core_hash c skeleton (ph_spans parsed) = Inr core \<and>
     policy_hash c skeleton (ph_spans parsed) = Inr pol \<and>
     wrap_cek c fill_bytes (derive_kek c (sn_file_id session) (pr_org_id request) (sn_secret_a session) (sn_secret_b session))
       (sn_cek session) core g1 = (Inr (wrapped, commitment), g2) \<and>
     seal_slot c fill_bytes Server (pk_authority_sealing keys) SLOT_SERVER (sn_file_id session) pol
       (sn_secret_a session) commitment g2 = (Inr server, g3) \<and>
     recipient_slots c k fill_bytes (sn_plan session) (sn_file_id session) pol (sn_secret_b session) commitment g3 =
       (Inr recipients, g4) \<and>
     author_slot c k fill_bytes generate (is_hardware (sn_plan session)) (is_hybrid (sn_plan session)) keys
       (sn_file_id session) pol (sn_secret_a session) (sn_secret_b session) commitment g4 = (Inr author, g') \<and>
     header_encode ((skeleton_header request keys (sn_file_id session) (sn_header_salt session) (si_tree_root sealed) meta)
       \<lparr>hd_wrapped_cek := wrapped, hd_key_slots := server # recipients @ [author]\<rparr>) = Inr (as_header out) \<and>
     header_decode (as_header out) = Inr ph \<and>
     content_encode c (derive_content_mac_key c (sn_cek session) (sn_header_salt session) (sn_file_id session))
       (sn_file_id session) CONTAINER_VERSION (initial_desc sealed) = Inr (as_content_desc out)"
  using assms unfolding assemble_def assemble_finish_def Let_def
  by (auto simp: runG initial_desc_def skeleton_header_def split: if_splits prod.splits)

lemma wrap_unwraps:
  assumes "aead_correct c" and "ct_eq_sound c" and "hkdf_total c" and "hmac_total c"
    and "length cek = SECRET_LEN" and "wrap_cek c fill_bytes kek cek h g = (Inr (wrapped, commitment), g')"
  shows "length wrapped = WRAPPED_CEK_LEN \<and> length commitment = 32 \<and> unwrap_cek c kek wrapped commitment h = Inr cek"
proof -
  obtain nonce sealed seed where n: "hedged_nonce c WRAP_NONCE_LEN WRAP_NONCE seed cek h = Inr nonce"
    and e: "xchacha_encrypt c kek nonce h cek = Some sealed" "wrapped = nonce @ sealed" "commitment = slot_commitment c kek h"
    "length sealed = WRAP_CEK_LEN - WRAP_NONCE_LEN"
    using assms(6) by (auto simp: wrap_cek_def bindR_eq_Inr ok_or_eq_Inr ensure_eq_Inr split: prod.splits)
  have "length nonce = 24" using hedged_nonce_length [OF assms(3) n] by (simp add: WRAP_NONCE_LEN_def)
  moreover have "xchacha_decrypt c kek nonce h sealed = Some cek" using assms(1) e(1) unfolding aead_correct_def by blast
  ultimately show ?thesis
    using e assms(2,5) slot_commitment_length [OF assms(4)]
    by (simp add: unwrap_cek_def verify_commitment_def ct_eq_sound_def Let_def WRAP_CEK_LEN_def WRAP_NONCE_LEN_def
        SECRET_LEN_def WRAPPED_CEK_LEN_def)
qed

lemma private_meta_opens:
  assumes "aead_correct c" and "hkdf_total c"
    and "seal_private_meta c fill_bytes cek salt fid request len g = (Inr meta, g')"
  shows "open_metadata c (derive_private_meta_key c cek salt fid) fid (take META_NONCE_LEN meta) (drop META_NONCE_LEN meta) =
     Inr (enc_fields [(META_TAG_NAME, pr_original_name request), (META_TAG_SIZE, le64 len)])"
proof -
  obtain w seed nonce ct where w: "put_all [(META_TAG_NAME, pr_original_name request), (META_TAG_SIZE, le64 len)] writer_new = Inr w"
    and sealed: "seal_metadata_hedged c (derive_private_meta_key c cek salt fid) fid seed (finish w) = Inr (nonce, ct)" "meta = nonce @ ct"
    using assms(3) by (auto simp: seal_private_meta_def bindR_eq_Inr Let_def map_sum_Inr split: sum.splits prod.splits)
  have body: "finish w = enc_fields [(META_TAG_NAME, pr_original_name request), (META_TAG_SIZE, le64 len)]"
    using w by (auto simp: put_all_eq_Inr finish_def writer_new_def simp del: put_all_simps(2))
  from sealed(1) have n: "hedged_nonce c AEAD_NONCE_LEN META_NONCE seed (finish w) (metadata_aad fid) = Inr nonce"
    and e: "xchacha_encrypt c (derive_private_meta_key c cek salt fid) nonce (metadata_aad fid) (finish w) = Some ct"
    by (auto simp: seal_metadata_hedged_def seal_with_def bindR_eq_Inr ok_or_eq_Inr Let_def)
  have "length nonce = META_NONCE_LEN"
    using hedged_nonce_length [OF assms(2) n] by (simp add: AEAD_NONCE_LEN_def META_NONCE_LEN_def)
  moreover have "xchacha_decrypt c (derive_private_meta_key c cek salt fid) nonce (metadata_aad fid) ct = Some (finish w)"
    using assms(1) e unfolding aead_correct_def by blast
  ultimately show ?thesis by (simp add: sealed(2) open_metadata_def aead_open_with_def body)
qed

text \<open>What the slots of a recipient hold.\<close>

definition recipient_opens ::
    "Crates \<Rightarrow> Kems \<Rightarrow> Recipient \<Rightarrow> KeySlot list \<Rightarrow> bytes \<Rightarrow> bytes \<Rightarrow> bytes \<Rightarrow> bytes \<Rightarrow> bool" where
  "recipient_opens c k recipient slots commitment file_id pol_hash b \<longleftrightarrow>
     (let sealed = \<lambda>kem key. \<exists>s. slots = [Known s] \<and> slot_for RecipientIdentity kem key commitment s \<and>
            slot_yields c k s SLOT_RECIPIENT file_id pol_hash b in
      case recipient of
        NoRecipient \<Rightarrow> slots = []
      | Identity key \<Rightarrow> sealed X25519HkdfSha256 key
      | Hybrid key \<Rightarrow> sealed XWing key
      | HardwareHybrid key \<Rightarrow> sealed MlKem768P256 key
      | Claim secret \<Rightarrow> (b, slots) = (fst (secret_b_from_claim c file_id secret),
            [claim_slot (snd (secret_b_from_claim c file_id secret)) commitment]))"

definition plan_for :: "Crates \<Rightarrow> bytes \<Rightarrow> Recipient \<Rightarrow> RecipientPlan" where
  "plan_for c file_id recipient =
     (case recipient of NoRecipient \<Rightarrow> PlanNone | Identity key \<Rightarrow> PlanIdentity key | Hybrid key \<Rightarrow> PlanHybrid key
      | HardwareHybrid key \<Rightarrow> PlanHardwareHybrid key | Claim secret \<Rightarrow> PlanClaim (snd (secret_b_from_claim c file_id secret)))"

lemma plan_share_eq:
  assumes "plan_share c fill_bytes fid recipient g = ((b, plan), g')"
  shows "plan = plan_for c fid recipient \<and> (\<forall>secret. recipient = Claim secret \<longrightarrow> b = fst (secret_b_from_claim c fid secret))"
  using assms by (cases recipient) (auto simp: plan_share_def plan_for_def split: prod.splits)

lemma plan_pack_eq:
  assumes "plan_pack c fill_bytes request g = ((session, pl), g')" and "\<forall>n h. length (fst (fill_bytes n h)) = n"
  shows "length (sn_file_id session) = 16 \<and> length (sn_header_salt session) = 32 \<and> length (sn_cek session) = SECRET_LEN \<and>
     sn_chunk_size session = pr_chunk_size request \<and>
     sn_plan session = plan_for c (sn_file_id session) (pr_recipient request) \<and>
     (\<forall>secret. pr_recipient request = Claim secret \<longrightarrow> sn_secret_b session = fst (secret_b_from_claim c (sn_file_id session) secret)) \<and>
     pl = \<lparr>pl_file_id = sn_file_id session,
       pl_payload_key = derive_payload_key c (sn_cek session) (sn_header_salt session) (sn_file_id session)
         (pr_chunk_size request) (su_aead engine_suite),
       pl_chunk_size = pr_chunk_size request, pl_aead = su_aead engine_suite\<rparr>"
proof -
  have len: "length x = n" if "fill_bytes n h = (x, h')" for n h x h' using assms(2) that by (metis fst_conv)
  show ?thesis
    using assms(1) by (auto simp: plan_pack_def Let_def split: prod.splits dest: len dest!: plan_share_eq)
qed

text \<open>What the types of a request, of the keys and of the sealed content say, and that the policy is in normal form.\<close>

definition pack_wf :: "PackRequest \<Rightarrow> PublicKeys \<Rightarrow> SealedInfo \<Rightarrow> bool" where
  "pack_wf request keys sealed \<longleftrightarrow>
     policy_wf CONTAINER_VERSION (pr_policy request) \<and> length (pk_author keys) = 32 \<and>
     length (pk_authority_sealing keys) = 32 \<and> length (pk_authority_lease_verify keys) = 32 \<and>
     length (si_tree_root sealed) = 32 \<and> (\<forall>co. pr_coauthors request = Some co \<longrightarrow> (\<forall>x \<in> set (co_keys co). length x = 32))"

lemma assembled_header_wf:
  assumes "pack_wf request keys sealed" and "length fid = 16" and "length salt = 32" and "length wrapped = WRAPPED_CEK_LEN"
    and "\<forall>slot \<in> set slots. \<exists>s. slot = Known s \<and> known_slot_wf s"
  shows "header_wf ((skeleton_header request keys fid salt (si_tree_root sealed) meta)
     \<lparr>hd_wrapped_cek := wrapped, hd_key_slots := slots\<rparr>)"
  using assms
  by (auto simp: header_wf_def skeleton_header_def pack_wf_def engine_suite_def suite_wf_def authority_wf_def LOCAL_CLASS_def
      slot_wf_def CONTAINER_VERSION_def FIRST_COAUTHORS_VERSION_def)

lemma claim_slot_wf: "length commitment = 32 \<Longrightarrow> length commit = 32 \<Longrightarrow> \<exists>s. claim_slot commit commitment = Known s \<and> known_slot_wf s"
  by (simp add: claim_slot_def known_slot_wf_def)

lemma kdf_length: "hkdf_total c \<Longrightarrow> n \<le> 8160 \<Longrightarrow> length (kdf_hkdf_sha256 c n salt ikm info) = n"
  by (auto simp: kdf_hkdf_sha256_def hkdf_total_def split: option.splits) (metis option.inject)

lemma claim_commit_length: "hkdf_total c \<Longrightarrow> length (snd (secret_b_from_claim c fid secret)) = 32"
  by (simp add: secret_b_from_claim_def SECRET_LEN_def kdf_length)

lemma recipient_slots_open:
  fixes fill_bytes :: "nat \<Rightarrow> 'g \<Rightarrow> bytes \<times> 'g" and generate :: "'g \<Rightarrow> bytes \<times> 'g"
  assumes "slot_laws c k generate" and "length commitment = 32"
    and "recipient_slots c k fill_bytes (plan_for c fid recipient) fid ph b commitment g = (Inr slots, g')"
    and "\<forall>secret. recipient = Claim secret \<longrightarrow> b = fst (secret_b_from_claim c fid secret)"
  shows "recipient_opens c k recipient slots commitment fid ph b \<and> (\<forall>slot \<in> set slots. \<exists>s. slot = Known s \<and> known_slot_wf s)"
  using recipient_slots_sealed [OF assms(1-3)] assms(1,2,4) claim_slot_wf claim_commit_length
  by (cases recipient) (fastforce simp: recipient_opens_def plan_for_def slot_for_def slot_laws_def)+

text \<open>The parts of an assembled file, and what each slot holds.\<close>

lemma assembled_parts:
  assumes "slot_laws c k generate" and "ct_eq_sound c" and "hmac_total c" and "\<forall>n h. length (fst (fill_bytes n h)) = n"
    and "plan_pack c fill_bytes planned g = ((session, pl), g1)"
    and "assemble c k fill_bytes generate session request keys sealed g2 = (Inr out, g3)"
  shows "\<exists>meta h1 skeleton parsed core pol wrapped commitment server recipients author kem key ph.
     pr_chunk_size request = sn_chunk_size session \<and>
     seal_private_meta c fill_bytes (sn_cek session) (sn_header_salt session) (pl_file_id pl) request (si_total_len sealed) g2 =
       (Inr meta, h1) \<and>
     header_encode (skeleton_header request keys (pl_file_id pl) (sn_header_salt session) (si_tree_root sealed) meta) = Inr skeleton \<and>
     header_decode skeleton = Inr parsed \<and> core_hash c skeleton (ph_spans parsed) = Inr core \<and>
     policy_hash c skeleton (ph_spans parsed) = Inr pol \<and> length wrapped = WRAPPED_CEK_LEN \<and>
     unwrap_cek c (derive_kek c (pl_file_id pl) (pr_org_id request) (sn_secret_a session) (sn_secret_b session))
       wrapped commitment core = Inr (sn_cek session) \<and>
     slot_for Server X25519HkdfSha256 (pk_authority_sealing keys) commitment server \<and>
     slot_yields c k server SLOT_SERVER (pl_file_id pl) pol (sn_secret_a session) \<and>
     recipient_opens c k (pr_recipient planned) recipients commitment (pl_file_id pl) pol (sn_secret_b session) \<and>
     (\<forall>slot \<in> set recipients. \<exists>s. slot = Known s \<and> known_slot_wf s) \<and>
     author_key_for (plan_for c (pl_file_id pl) (pr_recipient planned)) keys = Some (kem, key) \<and>
     slot_for AuthorDevice kem key commitment author \<and>
     slot_yields c k author SLOT_AUTHOR_DEVICE (pl_file_id pl) pol (sn_secret_a session @ sn_secret_b session) \<and>
     header_encode ((skeleton_header request keys (pl_file_id pl) (sn_header_salt session) (si_tree_root sealed) meta)
       \<lparr>hd_wrapped_cek := wrapped, hd_key_slots := Known server # recipients @ [Known author]\<rparr>) = Inr (as_header out) \<and>
     header_decode (as_header out) = Inr ph \<and>
     content_encode c (derive_content_mac_key c (sn_cek session) (sn_header_salt session) (pl_file_id pl))
       (pl_file_id pl) CONTAINER_VERSION (initial_desc sealed) = Inr (as_content_desc out)"
proof -
  have aead: "aead_correct c" and hkdf: "hkdf_total c" using assms(1) by (simp_all add: slot_laws_def)
  note plan = plan_pack_eq [OF assms(5,4)]
  then have fid: "sn_file_id session = pl_file_id pl" by simp
  obtain meta h1 skeleton parsed core pol wrapped commitment h2 server' h3 recipients h4 author' ph where
    steps: "pr_chunk_size request = sn_chunk_size session"
      "seal_private_meta c fill_bytes (sn_cek session) (sn_header_salt session) (pl_file_id pl) request (si_total_len sealed) g2 =
        (Inr meta, h1)"
      "header_encode (skeleton_header request keys (pl_file_id pl) (sn_header_salt session) (si_tree_root sealed) meta) = Inr skeleton"
      "header_decode skeleton = Inr parsed" "core_hash c skeleton (ph_spans parsed) = Inr core"
      "policy_hash c skeleton (ph_spans parsed) = Inr pol"
    and wrap: "wrap_cek c fill_bytes (derive_kek c (pl_file_id pl) (pr_org_id request) (sn_secret_a session) (sn_secret_b session))
       (sn_cek session) core h1 = (Inr (wrapped, commitment), h2)"
    and server': "seal_slot c fill_bytes Server (pk_authority_sealing keys) SLOT_SERVER (pl_file_id pl) pol
       (sn_secret_a session) commitment h2 = (Inr server', h3)"
    and rec: "recipient_slots c k fill_bytes (sn_plan session) (pl_file_id pl) pol (sn_secret_b session) commitment h3 =
       (Inr recipients, h4)"
    and author': "author_slot c k fill_bytes generate (is_hardware (sn_plan session)) (is_hybrid (sn_plan session)) keys
       (pl_file_id pl) pol (sn_secret_a session) (sn_secret_b session) commitment h4 = (Inr author', g3)"
    and final: "header_encode ((skeleton_header request keys (pl_file_id pl) (sn_header_salt session) (si_tree_root sealed) meta)
       \<lparr>hd_wrapped_cek := wrapped, hd_key_slots := server' # recipients @ [author']\<rparr>) = Inr (as_header out)"
      "header_decode (as_header out) = Inr ph"
      "content_encode c (derive_content_mac_key c (sn_cek session) (sn_header_salt session) (pl_file_id pl)) (pl_file_id pl)
         CONTAINER_VERSION (initial_desc sealed) = Inr (as_content_desc out)"
    using assemble_Inr [OF assms(6)] unfolding fid by blast
  have w: "length wrapped = WRAPPED_CEK_LEN" "length commitment = 32"
    "unwrap_cek c (derive_kek c (pl_file_id pl) (pr_org_id request) (sn_secret_a session) (sn_secret_b session))
       wrapped commitment core = Inr (sn_cek session)"
    using wrap_unwraps [OF aead assms(2) hkdf assms(3) _ wrap] plan by blast+
  note slots = slot_x25519.sealed [OF assms(1) w(2) server'] author_slot_sealed [OF assms(1) w(2) author']
    recipient_slots_open [OF assms(1) w(2), where recipient = "pr_recipient planned"]
  from slots(1,2) slots(3) [where slots = recipients and fill_bytes = fill_bytes] rec plan steps w final show ?thesis
    by (elim exE conjE) (intro exI conjI; (assumption | simp))
qed

lemma initial_desc_decodes:
  assumes "hmac_total c" and "ct_eq_sound c" and "pack_wf request keys sealed"
    and "content_encode c key fid CONTAINER_VERSION (initial_desc sealed) = Inr bs"
  shows "decode_verified c key fid CONTAINER_VERSION bs = Inr (initial_desc sealed, length bs)"
proof -
  have "content_wf CONTAINER_VERSION (initial_desc sealed)"
    using assms(3,4) by (auto simp: content_encode_def content_wf_def initial_desc_def pack_wf_def bindR_eq_Inr ensure_eq_Inr)
  from content_decode_encode [OF assms(1,2) this, where key = key and file_id = fid and rest = "[]"] assms(4)
  show ?thesis by auto
qed

section \<open>Assembly succeeds\<close>

lemma foldR_enumerate_put_ok:
  assumes "list_all2 G xs bs" and "\<And>i x b w. G x b \<Longrightarrow> i < 65536 \<Longrightarrow> F (i, x) w = put (word_of_nat i) b w"
    and "n + length xs \<le> 65536"
  shows "foldR F (enumerate n xs) w = put_all (indexed n bs) w"
  using assms(1,3)
  by (induction xs bs arbitrary: n w rule: list_all2_induct) (auto simp: assms(2) intro!: arg_cong [where f = "bindR _"])

lemma indexed_ascending:
  assumes "n + length bs \<le> 65536" and "\<forall>b \<in> set bs. length b < 4294967296" and "\<And>t. prior = Some t \<Longrightarrow> unat t < n"
  shows "ascending prior (indexed n bs)"
  using assms
proof (induction bs arbitrary: n prior)
  case (Cons b bs)
  have "unat (word_of_nat n :: u16) = n" using Cons.prems(1) by (simp add: unat_of_nat take_bit_nat_eq_self)
  then show ?case
    using Cons.IH [of "Suc n" "Some (word_of_nat n)"] Cons.prems by (cases prior) (auto simp: word_less_nat_alt)
qed simp

lemma length_indexed: "\<forall>b \<in> set bs. length b \<le> m \<Longrightarrow> length (enc_fields (indexed n bs)) \<le> length bs * (6 + m)"
  by (induction bs arbitrary: n) (force simp: add_mono)+

text \<open>The request stays within the limits that the header checks.\<close>

definition pack_fits :: "PackRequest \<Rightarrow> PublicKeys \<Rightarrow> SealedInfo \<Rightarrow> bool" where
  "pack_fits request keys sealed \<longleftrightarrow>
     (\<forall>co. pr_coauthors request = Some co \<longrightarrow> coauthors_ok co) \<and> check_chunk_size (pr_chunk_size request) = Inr (pr_chunk_size request) \<and>
     urls_ok (pr_authority_urls request) \<and> (\<exists>b \<in> set (pk_authority_sealing keys). b \<noteq> 0) \<and>
     (\<exists>b \<in> set (pk_authority_lease_verify keys). b \<noteq> 0) \<and>
     length (pr_original_name request) \<le> 1048576 \<and> length (pr_org_id request) \<le> 1048576 \<and> si_chunk_count sealed \<noteq> 0"

lemma authority_encodes:
  assumes "urls_ok (au_urls a)" and "authority_wf a"
    and "\<exists>b \<in> set (au_sealing_kid a). b \<noteq> 0" and "\<exists>b \<in> set (au_lease_verify_key a). b \<noteq> 0"
  shows "\<exists>bs. encode_authority a = Inr bs \<and> length bs \<le> 65536"
proof -
  let ?us = "enc_fields (indexed 0 (au_urls a))"
  have n: "length (au_urls a) \<le> 16" and u: "\<forall>u \<in> set (au_urls a). length u \<le> 2048"
    using assms(1) by (auto simp: urls_ok_def MAX_URLS_def MAX_URL_LEN_def)
  have "length ?us \<le> length (au_urls a) * 2054" using length_indexed [OF u] by simp
  also have "\<dots> \<le> 32864" using n by linarith
  finally have us: "length ?us \<le> 32864" .
  have "list_all2 (\<lambda>u b. u = b \<and> length b \<le> MAX_URL_LEN \<and> check_address_charset b = Inr ()) (au_urls a) (au_urls a)"
    using assms(1) by (auto simp: list_all2_same urls_ok_def check_address_charset_ok)
  then have "foldR encode_url (enumerate 0 (au_urls a)) writer_new = put_all (indexed 0 (au_urls a)) writer_new"
    by (rule foldR_enumerate_put_ok) (use n in \<open>auto simp: encode_url_def u16_of_usize_def\<close>)
  moreover obtain w where "put_all (indexed 0 (au_urls a)) writer_new = Inr w" "finish w = ?us"
    using put_all_new [of "indexed 0 (au_urls a)"] indexed_ascending [of 0 "au_urls a" None] n u us
    by fastforce
  moreover have "bindR (put_all [(1, ?us), (2, au_sealing_kid a), (3, au_lease_verify_key a)] writer_new) (\<lambda>w. Inr (finish w)) =
      Inr (enc_fields [(1, ?us), (2, au_sealing_kid a), (3, au_lease_verify_key a)])"
    by (rule put_all_new_bind) (use us assms(2) in \<open>simp_all add: authority_wf_def\<close>)
  ultimately show ?thesis
    using n us assms(2-4)
    by (auto simp: encode_authority_def MAX_URLS_def check_key_present_def list_all_iff authority_wf_def simp del: put_all_simps(2))
qed

lemma slot_encodes:
  assumes "slot_fits slot"
  shows "\<exists>bs. encode_slot CONTAINER_VERSION slot = Inr bs \<and> length bs \<le> 65536"
proof -
  obtain s where s: "slot = Known s" "known_slot_wf s" "known_slot_ok CONTAINER_VERSION s" "length (ks_ct s) \<le> 80"
    using assms by (auto simp: slot_fits_def)
  have "length (ks_enc s) \<le> 1153" "\<forall>v. ks_key_fpr s = Some v \<longrightarrow> length v \<le> 1249"
    using s(3) by (cases "ks_kem s"; auto simp: known_slot_ok_def X25519_PUBLIC_LEN_def P256_PUBLIC_LEN_def XWING_CIPHERTEXT_LEN_def
        MLKEM_P256_CIPHERTEXT_LEN_def XWING_PUBLIC_LEN_def MLKEM_P256_PUBLIC_LEN_def split: if_splits)+
  then have "ascending None (known_slot_fields s)" "length (enc_fields (known_slot_fields s)) \<le> 65536"
    using s(2,4) by (cases "ks_key_fpr s"; cases "ks_claim_commit s"; simp add: known_slot_fields_def known_slot_wf_def)+
  then show ?thesis
    using put_all_new_bind [of "known_slot_fields s"] s(3)
    by (auto simp: s(1) encode_slot_def encode_known_slot_Inr)
qed

lemma slots_encode:
  assumes "\<forall>slot \<in> set slots. slot_fits slot" and "length slots \<le> MAX_KEY_SLOTS"
  shows "\<exists>bs. encode_slots CONTAINER_VERSION slots = Inr bs \<and> length bs \<le> 67116000"
proof -
  have n: "length slots \<le> 1024" using assms(2) by (simp add: MAX_KEY_SLOTS_def)
  obtain bodies where b: "list_all2 (\<lambda>slot b. encode_slot CONTAINER_VERSION slot = Inr b \<and> length b \<le> 65536) slots bodies"
    using assms(1) slot_encodes by (induction slots) (auto simp: list_all2_Cons1, blast)
  have l: "length bodies = length slots" using b by (simp add: list_all2_lengthD)
  have lens: "\<forall>x \<in> set bodies. length x \<le> 65536" using b by (induction rule: list_all2_induct) auto
  have "length (enc_fields (indexed 0 bodies)) \<le> length bodies * 65542" using length_indexed [OF lens] by simp
  also have "\<dots> \<le> 67116000" using l n by linarith
  finally have len: "length (enc_fields (indexed 0 bodies)) \<le> 67116000" .
  have "encode_slots CONTAINER_VERSION slots = bindR (put_all (indexed 0 bodies) writer_new) (\<lambda>w. Inr (finish w))"
    unfolding encode_slots_def
    by (subst foldR_enumerate_put_ok [OF b]) (use n in \<open>auto simp: u16_of_usize_def\<close>)
  also have "\<dots> = Inr (enc_fields (indexed 0 bodies))"
    using indexed_ascending [of 0 bodies None] lens l n len by (intro put_all_new_bind) fastforce+
  finally show ?thesis using len by blast
qed

lemma header_encodes:
  assumes "pack_wf request keys sealed" and "pack_fits request keys sealed" and "length fid = 16" and "length salt = 32"
    and "length meta \<le> 2000000" and "length wrapped = WRAPPED_CEK_LEN" and "\<forall>slot \<in> set slots. slot_fits slot" and "length slots \<le> MAX_KEY_SLOTS"
  shows "\<exists>bs ph. header_encode ((skeleton_header request keys fid salt (si_tree_root sealed) meta)
     \<lparr>hd_wrapped_cek := wrapped, hd_key_slots := slots\<rparr>) = Inr bs \<and> header_decode bs = Inr ph"
proof -
  let ?h = "(skeleton_header request keys fid salt (si_tree_root sealed) meta)\<lparr>hd_wrapped_cek := wrapped, hd_key_slots := slots\<rparr>"
  let ?policy = "enc_fields (policy_fields CONTAINER_VERSION (pr_policy request))"
  let ?suite = "enc_fields [(1, [1]), (2, [1]), (3, [1])] :: bytes"
  have "authority_wf (hd_authority ?h)" using assms(1) by (simp add: pack_wf_def authority_wf_def skeleton_header_def)
  then obtain au where au: "encode_authority (hd_authority ?h) = Inr au" "length au \<le> 65536"
    using authority_encodes [of "hd_authority ?h"] assms(2) by (auto simp: pack_fits_def skeleton_header_def)
  obtain ss where ss: "encode_slots CONTAINER_VERSION slots = Inr ss" "length ss \<le> 67116000" using slots_encode [OF assms(7,8)] by blast
  have suite: "encode_suite (hd_suite ?h) = Inr ?suite"
    by (rule suite_decode_encode(1)) (simp add: skeleton_header_def engine_suite_def suite_wf_def)
  have policy: "length ?policy < 4294967296" by (rule policy_fields_ok(2))
  have "\<exists>co. coauthors_written ?h co \<and> (\<forall>b. co = Some b \<longrightarrow> length b \<le> 525)"
  proof (cases "pr_coauthors request")
    case (Some who)
    then obtain out where "encode_coauthors who = Inr out" "length out \<le> 525"
      using coauthors_encode [of who] assms(1,2) by (auto simp: pack_fits_def pack_wf_def)
    then show ?thesis
      by (intro exI [of _ "Some out"])
        (simp add: Some coauthors_written_def skeleton_header_def CONTAINER_VERSION_def FIRST_COAUTHORS_VERSION_def)
  qed (simp add: coauthors_written_def skeleton_header_def)
  then obtain co where co: "coauthors_written ?h co" "\<forall>b. co = Some b \<longrightarrow> length b \<le> 525" by blast
  have "header_encode ?h = Inr (enc_fields (header_fields ?h ?suite ?policy ss au co))"
    using assms(1-6,8) au ss suite policy co
    by (intro header_encode_eq)
      (cases co; simp add: skeleton_header_def pack_fits_def pack_wf_def policy_encode_eq header_fields_def WRAPPED_CEK_LEN_def)+
  moreover have "header_wf ?h"
    using assembled_header_wf [OF assms(1,3,4,6), of slots meta] assms(7) by (auto simp: slot_fits_def)
  ultimately show ?thesis
    using header_codec.dec_enc [of ?h] by (cases "header_decode (enc_fields (header_fields ?h ?suite ?policy ss au co))") auto
qed

lemma bindG_step: "m g = (Inr x, h) \<Longrightarrow> bindG m f g = f x h"
  by (simp add: bindG_def)

lemma header_hashes:
  assumes "header_decode bs = Inr ph" and "digests_32 c"
  shows "\<exists>core pol. core_hash c bs (ph_spans ph) = Inr core \<and> policy_hash c bs (ph_spans ph) = Inr pol \<and>
     length core = 32 \<and> length pol = 32"
  using header_decode_spans [OF assms(1)] core_hash_eq [OF assms(1), of _ c] policy_hash_eq [OF assms(1), of c] assms(2)
  by (auto simp: digests_32_def)

lemma private_meta_seals:
  assumes "hkdf_total c" and "aead_correct c" and "aead_total c" and "length fid = 16" and "length (pr_original_name request) \<le> 1048576"
  shows "\<exists>meta g'. seal_private_meta c fill_bytes cek salt fid request len g = (Inr meta, g') \<and> length meta \<le> 2000000"
proof -
  let ?fs = "[(META_TAG_NAME, pr_original_name request), (META_TAG_SIZE, le64 len)]"
  let ?key = "derive_private_meta_key c cek salt fid"
  obtain seed g' where seed: "fill_bytes META_NONCE_LEN g = (seed, g')" by (meson surj_pair)
  obtain w where w: "put_all ?fs writer_new = Inr w" "finish w = enc_fields ?fs"
    using put_all_new [of ?fs] assms(5) by fastforce
  have len: "length (enc_fields ?fs) \<le> 1048600" using assms(5) by simp
  have "length (metadata_aad fid) < 4294967296" using assms(4) by (simp add: metadata_aad_exact PRIVATE_META_def ascii_def)
  then obtain nonce where nonce: "hedged_nonce c AEAD_NONCE_LEN META_NONCE seed (enc_fields ?fs) (metadata_aad fid) = Inr nonce"
    "length nonce = 24"
    using hedged_nonce_total [OF assms(1), of "enc_fields ?fs" "metadata_aad fid" 24 META_NONCE seed] len
    by (auto simp: AEAD_NONCE_LEN_def simp del: enc_fields_simps)
  have "length (enc_fields ?fs) < 4294967296" using len by linarith
  then obtain ct where ct: "xchacha_encrypt c ?key nonce (metadata_aad fid) (enc_fields ?fs) = Some ct"
    using assms(3) unfolding aead_total_def by blast
  have "length ct = length (enc_fields ?fs) + 16" using assms(2) ct unfolding aead_correct_def by blast
  then show ?thesis
    using w len nonce ct by (simp add: seal_private_meta_def seed seal_metadata_hedged_def seal_with_def Let_def del: put_all_simps(2) enc_fields_simps)
qed

definition recipient_key :: "Recipient \<Rightarrow> (KemAlg \<times> bytes) option" where
  "recipient_key recipient =
     (case recipient of Identity key \<Rightarrow> Some (X25519HkdfSha256, key) | Hybrid key \<Rightarrow> Some (XWing, key)
      | HardwareHybrid key \<Rightarrow> Some (MlKem768P256, key) | _ \<Rightarrow> None)"

lemma recipient_slots_seal:
  fixes fill_bytes :: "nat \<Rightarrow> 'g \<Rightarrow> bytes \<times> 'g" and generate :: "'g \<Rightarrow> bytes \<times> 'g"
  assumes "slot_laws c k generate" and "length commitment = 32" and "length b \<le> 64" and "length ph = 32"
    and "\<forall>kem key. recipient_key recipient = Some (kem, key) \<longrightarrow> seals_to c k fill_bytes generate kem key"
  shows "\<exists>slots g'. recipient_slots c k fill_bytes (plan_for c fid recipient) fid ph b commitment g = (Inr slots, g') \<and>
     (\<forall>slot \<in> set slots. slot_fits slot) \<and> length slots \<le> 1"
proof (cases recipient)
  case (Claim secret)
  have "length (snd (secret_b_from_claim c fid secret)) = 32" using claim_commit_length assms(1) by (simp add: slot_laws_def)
  then have "slot_fits (claim_slot (snd (secret_b_from_claim c fid secret)) commitment)"
    using assms(2)
    by (simp add: slot_fits_def claim_slot_def known_slot_wf_def known_slot_ok_def check_slot_shape_def DEFAULT_SEALING_KEM_def
        X25519_PUBLIC_LEN_def list_ex_iff)
  then show ?thesis by (simp add: Claim recipient_slots_def plan_for_def pureG_def)
next
  case NoRecipient
  then show ?thesis by (simp add: recipient_slots_def plan_for_def pureG_def)
next
  case (Identity key)
  then show ?thesis
    using slot_x25519.seals [OF assms(1,2) _ _ assms(3,4), where kind = RecipientIdentity and fill_bytes = fill_bytes and pk = key
        and purpose = SLOT_RECIPIENT and fid = fid and g = g] assms(5)
    by (auto simp: recipient_slots_def plan_for_def recipient_key_def bindG_def pureG_def)
next
  case (Hybrid key)
  then show ?thesis
    using slot_xwing.seals [OF assms(1,2) _ _ assms(3,4), where kind = RecipientIdentity and fill_bytes = fill_bytes and pk = key
        and purpose = SLOT_RECIPIENT and fid = fid and g = g] assms(5)
    by (auto simp: recipient_slots_def plan_for_def recipient_key_def bindG_def pureG_def)
next
  case (HardwareHybrid key)
  then show ?thesis
    using slot_mlkem.seals [OF assms(1,2) _ _ assms(3,4), where kind = RecipientIdentity and fill_bytes = fill_bytes and pk = key
        and purpose = SLOT_RECIPIENT and fid = fid and g = g] assms(5)
    by (auto simp: recipient_slots_def plan_for_def recipient_key_def bindG_def pureG_def)
qed

lemma author_slot_seals:
  fixes fill_bytes :: "nat \<Rightarrow> 'g \<Rightarrow> bytes \<times> 'g" and generate :: "'g \<Rightarrow> bytes \<times> 'g"
  assumes "slot_laws c k generate" and "length commitment = 32" and "length a + length b \<le> 64" and "length ph = 32"
    and "author_key_for plan keys = Some (kem, key)" and "seals_to c k fill_bytes generate kem key"
  shows "\<exists>slot g'. author_slot c k fill_bytes generate (is_hardware plan) (is_hybrid plan) keys fid ph a b commitment g =
     (Inr slot, g') \<and> slot_fits slot"
proof -
  have p: "length (a @ b) \<le> 64" using assms(3) by simp
  note s = slot_x25519.seals [OF assms(1,2) _ _ p assms(4), of AuthorDevice fill_bytes]
    slot_p256.seals [OF assms(1,2) _ _ p assms(4), of AuthorDevice fill_bytes]
    slot_xwing.seals [OF assms(1,2) _ _ p assms(4), of AuthorDevice fill_bytes]
    slot_mlkem.seals [OF assms(1,2) _ _ p assms(4), of AuthorDevice fill_bytes]
  from assms(5,6) s show ?thesis
    by (auto simp: author_slot_def author_key_for_def both_shares_def split: if_splits option.splits)
qed

lemma plan_matches_own: "ct_eq_sound c \<Longrightarrow> plan_matches c fid (plan_for c fid recipient) recipient"
  by (cases recipient) (auto simp: plan_for_def public_key_eq_def digest_eq_ct_def ct_eq_sound_def split: prod.splits)

lemma plan_shares_length:
  assumes "plan_pack c fill_bytes request g = ((session, pl), g')" and "\<forall>n h. length (fst (fill_bytes n h)) = n" and "hkdf_total c"
  shows "length (sn_secret_a session) = 32 \<and> length (sn_secret_b session) = 32"
proof -
  have len: "length x = n" if "fill_bytes n h = (x, h')" for n h x h' using assms(2) that by (metis fst_conv)
  have claim: "length (fst (secret_b_from_claim c fid secret)) = 32" for fid secret
    using assms(3) by (simp add: secret_b_from_claim_def SECRET_LEN_def kdf_length)
  show ?thesis
    using assms(1) claim
    by (auto simp: plan_pack_def plan_share_def Let_def SECRET_LEN_def split: prod.splits Recipient.splits dest: len)
      (metis fst_conv)+
qed

text \<open>The steps before the author's slot.\<close>

lemma assemble_upto_author:
  fixes fill_bytes :: "nat \<Rightarrow> 'g \<Rightarrow> bytes \<times> 'g" and generate :: "'g \<Rightarrow> bytes \<times> 'g"
  assumes "slot_laws c k generate" and "ct_eq_sound c" and "hmac_total c" and "digests_32 c" and "aead_total c"
    and "\<forall>n h. length (fst (fill_bytes n h)) = n" and "pack_wf request keys sealed" and "pack_fits request keys sealed"
    and "plan_pack c fill_bytes request g = ((session, pl), g1)"
    and "seals_to c k fill_bytes generate X25519HkdfSha256 (pk_authority_sealing keys)"
    and "\<forall>kem key. recipient_key (pr_recipient request) = Some (kem, key) \<longrightarrow> seals_to c k fill_bytes generate kem key"
  shows "\<exists>meta skeleton parsed core pol wrapped commitment server recipients g3.
     length meta \<le> 2000000 \<and> length pol = 32 \<and> length commitment = 32 \<and> length wrapped = WRAPPED_CEK_LEN \<and>
     header_encode (skeleton_header request keys (sn_file_id session) (sn_header_salt session) (si_tree_root sealed) meta) = Inr skeleton \<and>
     header_decode skeleton = Inr parsed \<and> core_hash c skeleton (ph_spans parsed) = Inr core \<and>
     slot_fits server \<and> (\<forall>slot \<in> set recipients. slot_fits slot) \<and> length recipients \<le> 1 \<and>
     assemble c k fill_bytes generate session request keys sealed g2 =
       bindG (author_slot c k fill_bytes generate (is_hardware (sn_plan session)) (is_hybrid (sn_plan session)) keys
          (sn_file_id session) pol (sn_secret_a session) (sn_secret_b session) commitment) (\<lambda>author.
       assemble_finish c session sealed
         ((skeleton_header request keys (sn_file_id session) (sn_header_salt session) (si_tree_root sealed) meta)
            \<lparr>hd_wrapped_cek := wrapped, hd_key_slots := server # recipients @ [author]\<rparr>) core) g3"
proof -
  have laws: "aead_correct c" "hkdf_total c" using assms(1) by (simp_all add: slot_laws_def)
  note plan = plan_pack_eq [OF assms(9,6)] and shares = plan_shares_length [OF assms(9,6) laws(2)]
  obtain meta h1 where meta: "seal_private_meta c fill_bytes (sn_cek session) (sn_header_salt session) (sn_file_id session) request
      (si_total_len sealed) g2 = (Inr meta, h1)" "length meta \<le> 2000000"
    using private_meta_seals [OF laws(2,1) assms(5)] plan assms(8) by (meson pack_fits_def)
  let ?h = "skeleton_header request keys (sn_file_id session) (sn_header_salt session) (si_tree_root sealed) meta"
  have "?h\<lparr>hd_wrapped_cek := replicate WRAPPED_CEK_LEN 0, hd_key_slots := []\<rparr> = ?h" by (simp add: skeleton_header_def)
  then obtain skeleton parsed where skel: "header_encode ?h = Inr skeleton" "header_decode skeleton = Inr parsed"
    using header_encodes [OF assms(7,8) _ _ meta(2), of "sn_file_id session" "sn_header_salt session" "replicate WRAPPED_CEK_LEN 0" "[]"] plan
    by auto
  obtain core pol where hashes: "core_hash c skeleton (ph_spans parsed) = Inr core" "policy_hash c skeleton (ph_spans parsed) = Inr pol"
    "length core = 32" "length pol = 32"
    using header_hashes [OF skel(2) assms(4)] by blast
  let ?kek = "derive_kek c (sn_file_id session) (pr_org_id request) (sn_secret_a session) (sn_secret_b session)"
  obtain wrapped h2 where wrap: "wrap_cek c fill_bytes ?kek (sn_cek session) core h1 = (Inr (wrapped, slot_commitment c ?kek core), h2)"
    using wrap_cek_cases [OF laws(1) assms(5) laws(2) assms(2,3) _ hashes(3)] plan by (metis prod.collapse)
  from wrap_unwraps [OF laws(1) assms(2) laws(2) assms(3) _ wrap] plan
  have w: "length wrapped = WRAPPED_CEK_LEN" "length (slot_commitment c ?kek core) = 32" by blast+
  have small: "length (sn_secret_a session) \<le> 64" "length (sn_secret_b session) \<le> 64" using shares by simp_all
  obtain server h3 where server: "seal_slot c fill_bytes Server (pk_authority_sealing keys) SLOT_SERVER (sn_file_id session) pol
      (sn_secret_a session) (slot_commitment c ?kek core) h2 = (Inr server, h3)" "slot_fits server"
    using slot_x25519.seals [OF assms(1) w(2) kind_seals.simps(1) [THEN iffD2, OF TrueI] assms(10) small(1) hashes(4)] by blast
  obtain recipients h4 where rec: "recipient_slots c k fill_bytes (sn_plan session) (sn_file_id session) pol
      (sn_secret_b session) (slot_commitment c ?kek core) h3 = (Inr recipients, h4)" "\<forall>slot \<in> set recipients. slot_fits slot" "length recipients \<le> 1"
    using recipient_slots_seal [OF assms(1) w(2) small(2) hashes(4) assms(11)] plan by metis
  have guard: "\<not> (pr_chunk_size request \<noteq> sn_chunk_size session \<or> \<not> plan_matches c (sn_file_id session) (sn_plan session) (pr_recipient request))"
    using plan plan_matches_own [OF assms(2)] by simp
  show ?thesis
    by (rule exI [of _ meta], rule exI [of _ skeleton], rule exI [of _ parsed], rule exI [of _ core], rule exI [of _ pol],
        rule exI [of _ wrapped], rule exI [of _ "slot_commitment c ?kek core"], rule exI [of _ server], rule exI [of _ recipients],
        rule exI [of _ h4])
      (use guard meta skel hashes w server rec in
        \<open>simp add: assemble_def Let_def bindG_def pureG_def errG_def wrap\<close>)
qed

lemma assemble_finish_ok:
  assumes "ct_eq_sound c" and "hmac_total c" and "pack_wf request keys sealed" and "pack_fits request keys sealed"
    and "length (sn_file_id session) = 16" and "length (sn_header_salt session) = 32" and "length meta \<le> 2000000"
    and "length wrapped = WRAPPED_CEK_LEN"
    and "header_encode (skeleton_header request keys (sn_file_id session) (sn_header_salt session) (si_tree_root sealed) meta) = Inr skeleton"
    and "header_decode skeleton = Inr parsed" and "core_hash c skeleton (ph_spans parsed) = Inr core"
    and "\<forall>slot \<in> set slots. slot_fits slot" and "length slots \<le> MAX_KEY_SLOTS"
  shows "\<exists>out. assemble_finish c session sealed
     ((skeleton_header request keys (sn_file_id session) (sn_header_salt session) (si_tree_root sealed) meta)
        \<lparr>hd_wrapped_cek := wrapped, hd_key_slots := slots\<rparr>) core g = (Inr out, g)"
proof -
  let ?h = "skeleton_header request keys (sn_file_id session) (sn_header_salt session) (si_tree_root sealed) meta"
  obtain bs ph where final: "header_encode (?h\<lparr>hd_wrapped_cek := wrapped, hd_key_slots := slots\<rparr>) = Inr bs" "header_decode bs = Inr ph"
    using header_encodes [OF assms(3-8,12,13)] by blast
  have "content_wf CONTAINER_VERSION (initial_desc sealed)"
    using assms(3,4) by (simp add: content_wf_def initial_desc_def pack_wf_def pack_fits_def)
  then obtain desc where desc: "content_encode c (derive_content_mac_key c (sn_cek session) (sn_header_salt session) (sn_file_id session))
      (sn_file_id session) CONTAINER_VERSION (initial_desc sealed) = Inr desc"
    using content_encode_eq [OF assms(2)] by blast
  have "hd_container_version ?h = CONTAINER_VERSION" by (simp add: skeleton_header_def)
  then show ?thesis
    using hashes_stable(1) [OF assms(9,10) final, of c] assms(1,11)
    by (simp add: assemble_finish_def bindG_def pureG_def final desc [unfolded initial_desc_def] digest_eq_ct_def ct_eq_sound_def Let_def)
qed

lemma assemble_outcome:
  fixes fill_bytes :: "nat \<Rightarrow> 'g \<Rightarrow> bytes \<times> 'g" and generate :: "'g \<Rightarrow> bytes \<times> 'g"
  assumes "slot_laws c k generate" and "ct_eq_sound c" and "hmac_total c" and "digests_32 c" and "aead_total c"
    and "\<forall>n h. length (fst (fill_bytes n h)) = n" and "pack_wf request keys sealed" and "pack_fits request keys sealed"
    and "plan_pack c fill_bytes request g = ((session, pl), g1)"
    and "seals_to c k fill_bytes generate X25519HkdfSha256 (pk_authority_sealing keys)"
    and "\<forall>kem key. recipient_key (pr_recipient request) = Some (kem, key) \<longrightarrow> seals_to c k fill_bytes generate kem key"
  shows "case author_key_for (plan_for c (pl_file_id pl) (pr_recipient request)) keys of
     None \<Rightarrow> fst (assemble c k fill_bytes generate session request keys sealed g2) = Inl MissingAuthorHybridKey
   | Some (kem, key) \<Rightarrow> seals_to c k fill_bytes generate kem key \<longrightarrow>
       (\<exists>out g3. assemble c k fill_bytes generate session request keys sealed g2 = (Inr out, g3))"
proof -
  note plan = plan_pack_eq [OF assms(9,6)]
  obtain meta skeleton parsed core pol wrapped commitment server recipients g3 where
    lens: "length meta \<le> 2000000" "length pol = 32" "length commitment = 32" "length wrapped = WRAPPED_CEK_LEN"
    and skel: "header_encode (skeleton_header request keys (sn_file_id session) (sn_header_salt session) (si_tree_root sealed) meta) =
      Inr skeleton" "header_decode skeleton = Inr parsed" "core_hash c skeleton (ph_spans parsed) = Inr core"
    and fits: "slot_fits server" "\<forall>slot \<in> set recipients. slot_fits slot" "length recipients \<le> 1"
    and asm: "assemble c k fill_bytes generate session request keys sealed g2 =
       bindG (author_slot c k fill_bytes generate (is_hardware (sn_plan session)) (is_hybrid (sn_plan session)) keys
          (sn_file_id session) pol (sn_secret_a session) (sn_secret_b session) commitment) (\<lambda>author.
       assemble_finish c session sealed
         ((skeleton_header request keys (sn_file_id session) (sn_header_salt session) (si_tree_root sealed) meta)
            \<lparr>hd_wrapped_cek := wrapped, hd_key_slots := server # recipients @ [author]\<rparr>) core) g3"
    using assemble_upto_author [OF assms, of g2] by (elim exE conjE) (rule that, assumption+)
  show ?thesis
  proof (cases "author_key_for (plan_for c (pl_file_id pl) (pr_recipient request)) keys")
    case None
    then have "fst (author_slot c k fill_bytes generate (is_hardware (sn_plan session)) (is_hybrid (sn_plan session)) keys
          (sn_file_id session) pol (sn_secret_a session) (sn_secret_b session) commitment g3) = Inl MissingAuthorHybridKey"
      using plan by (simp add: author_slot_missing)
    then show ?thesis
      by (cases "author_slot c k fill_bytes generate (is_hardware (sn_plan session)) (is_hybrid (sn_plan session)) keys
          (sn_file_id session) pol (sn_secret_a session) (sn_secret_b session) commitment g3") (simp add: None asm bindG_def)
  next
    case (Some kk)
    obtain kem key where kk: "kk = (kem, key)" by (cases kk)
    have "\<exists>out g3. assemble c k fill_bytes generate session request keys sealed g2 = (Inr out, g3)"
      if seals: "seals_to c k fill_bytes generate kem key"
    proof -
      have key: "author_key_for (sn_plan session) keys = Some (kem, key)" using Some kk plan by simp
      have "length (sn_secret_a session) + length (sn_secret_b session) \<le> 64"
        using plan_shares_length [OF assms(9,6)] assms(1) by (simp add: slot_laws_def)
      then obtain author g4 where author: "author_slot c k fill_bytes generate (is_hardware (sn_plan session)) (is_hybrid (sn_plan session)) keys
          (sn_file_id session) pol (sn_secret_a session) (sn_secret_b session) commitment g3 = (Inr author, g4)" "slot_fits author"
        using author_slot_seals [OF assms(1) lens(3) _ lens(2) key seals] by blast
      have all: "\<forall>slot \<in> set (server # recipients @ [author]). slot_fits slot" "length (server # recipients @ [author]) \<le> MAX_KEY_SLOTS"
        using fits author(2) by (auto simp: MAX_KEY_SLOTS_def)
      from assemble_finish_ok [OF assms(2,3,7,8) plan [THEN conjunct1] plan [THEN conjunct2, THEN conjunct1] lens(1,4) skel all, of g4]
      show ?thesis by (auto simp: asm author(1) bindG_def)
    qed
    then show ?thesis by (simp add: Some kk)
  qed
qed

section \<open>An instance\<close>

definition demo_pack_crates :: Crates where
  "demo_pack_crates = demo_seal_crates\<lparr>x25519_dh := (\<lambda>s p. replicate 32 1)\<rparr>"

definition demo_fill :: "nat \<Rightarrow> byte \<Rightarrow> bytes \<times> byte" where
  "demo_fill n g = (replicate n g, g + 1)"

definition demo_generate :: "byte \<Rightarrow> bytes \<times> byte" where
  "demo_generate g = (replicate 32 g, g + 1)"

definition demo_keys :: PublicKeys where
  "demo_keys =
     \<lparr>pk_author = replicate 32 1, pk_authority_sealing = x25519_public demo_pack_crates [7], pk_authority_lease_verify = replicate 32 5,
      pk_device = x25519_public demo_pack_crates [4], pk_device_hardware_hybrid = None, pk_device_hybrid = None, pk_device_tpm = None\<rparr>"

definition demo_request :: PackRequest where
  "demo_request =
     \<lparr>pr_original_name = [97], pr_policy = demo_policy, pr_chunk_size = 4096, pr_org_id = [], pr_authority_urls = [],
      pr_recipient = Identity (x25519_public demo_pack_crates [9]), pr_coauthors = None\<rparr>"

definition demo_sealed :: SealedInfo where
  "demo_sealed = \<lparr>si_total_len = 5, si_chunk_count = 1, si_tree_root = replicate 32 3\<rparr>"

lemma demo_pack_laws:
  "slot_laws demo_pack_crates demo_kems demo_generate" "ct_eq_sound demo_pack_crates" "hmac_total demo_pack_crates"
  "digests_32 demo_pack_crates" "aead_total demo_pack_crates" "\<forall>n h. length (fst (demo_fill n h)) = n"
proof -
  have "x25519_laws demo_pack_crates" "p256_laws demo_pack_crates demo_kems"
    using demo_seal_laws(1,2) by (simp_all add: x25519_laws_def dh_commutes_def p256_laws_def demo_pack_crates_def)
  moreover have "aead_correct demo_pack_crates" "hkdf_total demo_pack_crates"
    using demo_seal_laws(4) demo_seal_totals(2) by (simp_all add: aead_correct_def hkdf_total_def demo_pack_crates_def)
  ultimately show "slot_laws demo_pack_crates demo_kems demo_generate"
    using demo_seal_laws(3) by (simp add: slot_laws_def demo_generate_def demo_kems_def)
  show "ct_eq_sound demo_pack_crates" "aead_total demo_pack_crates"
    using demo_seal_totals by (simp_all add: ct_eq_sound_def aead_total_def demo_pack_crates_def)
  show "hmac_total demo_pack_crates" "digests_32 demo_pack_crates"
    using demo_crates_laws by (simp_all add: hmac_total_def digests_32_def demo_pack_crates_def demo_seal_crates_def)
  show "\<forall>n h. length (fst (demo_fill n h)) = n" by (simp add: demo_fill_def)
qed

lemma demo_seals_to: "seals_to demo_pack_crates demo_kems demo_fill demo_generate X25519HkdfSha256 (x25519_public demo_pack_crates s)"
proof -
  have laws: "aead_total demo_pack_crates" "hkdf_total demo_pack_crates" "ct_eq_sound demo_pack_crates"
    using demo_pack_laws by (simp_all add: slot_laws_def)
  have pk: "length (x25519_base demo_pack_crates t) = 32" "le_nat (x25519_base demo_pack_crates t) < 2 ^ 255 - 19" for t
    using demo_pack_laws(1) by (simp_all add: slot_laws_def x25519_laws_def)
  have nz: "replicate 32 1 \<noteq> (replicate 32 0 :: bytes)" by (simp add: replicate_eq_replicate)
  have dh: "x25519_dh demo_pack_crates t p = replicate 32 1" for t p by (simp add: demo_pack_crates_def)
  have "\<exists>blob g'. seal demo_pack_crates demo_fill (x25519_public demo_pack_crates s) info aad p g = (Inr blob, g') \<and>
      length (blob_enc blob) = 32" if "length p \<le> 64" "length aad = 32" for info aad p g
  proof -
    have small: "length p < 4294967296" "length aad < 4294967296" using that by linarith+
    have "\<not> 2 ^ 255 - 19 \<le> le_nat (x25519_public demo_pack_crates s)" using pk(2) by (simp add: x25519_public_def not_le)
    then obtain blob where "fst (seal demo_pack_crates demo_fill (x25519_public demo_pack_crates s) info aad p g) = Inr blob"
      "blob_enc blob = x25519_base demo_pack_crates (fst (demo_fill SHARED_LEN g))"
      using seal_cases [OF laws, of "x25519_public demo_pack_crates s" demo_fill g p aad info] pk(1) nz small
      by (auto simp: Let_def dh x25519_public_def)
    then show ?thesis using pk(1) by (metis prod.collapse)
  qed
  then show ?thesis using pk(1) by (simp add: seals_to_def mechanism_of_def x25519_public_def X25519_PUBLIC_LEN_def)
qed

text \<open>A hybrid recipient: the classical half of the key is an agreement key as before.\<close>

definition demo_hybrid_key :: bytes where
  "demo_hybrid_key = replicate 1184 1 @ x25519_public demo_pack_crates [9]"

definition demo_hybrid_kems :: Kems where
  "demo_hybrid_kems = demo_kems\<lparr>sha3_256 := (\<lambda>_. replicate 32 1)\<rparr>"

lemma demo_hybrid_laws: "slot_laws demo_pack_crates demo_hybrid_kems demo_generate"
  using demo_pack_laws(1) by (simp add: slot_laws_def p256_laws_def mlkem_laws_def demo_hybrid_kems_def)

lemma demo_seals_classical:
  "seals_to demo_pack_crates demo_hybrid_kems demo_fill demo_generate X25519HkdfSha256 (x25519_public demo_pack_crates s)"
  using demo_seals_to [of s] by (simp add: seals_to_def mechanism_of_def)

lemma demo_seals_hybrid: "seals_to demo_pack_crates demo_hybrid_kems demo_fill demo_generate XWing demo_hybrid_key"
proof -
  have hk: "hkdf_total demo_pack_crates" using demo_pack_laws(1) by (simp add: slot_laws_def)
  have pk: "length (x25519_base demo_pack_crates t) = 32" "le_nat (x25519_base demo_pack_crates t) < 2 ^ 255 - 19" for t
    using demo_pack_laws(1) by (simp_all add: slot_laws_def x25519_laws_def)
  have len: "length demo_hybrid_key = 1216" by (simp add: demo_hybrid_key_def x25519_public_def pk)
  have "\<exists>blob g'. seal_xwing demo_pack_crates demo_hybrid_kems demo_fill demo_hybrid_key info aad p g = (Inr blob, g') \<and>
      length (blob_enc blob) = 1120" if small: "length p \<le> 64" "length aad = 32" for info aad p g
  proof -
    let ?shared = "replicate 32 1 :: bytes"
    obtain ct where enc: "xwing_encapsulate demo_pack_crates demo_hybrid_kems demo_fill demo_hybrid_key g = (Inr (?shared, ct), g + 1)"
      "length ct = 1120"
      by (simp add: xwing_encapsulate_def xwing_encapsulate_derand_def demo_fill_def len get_range_def try_array_def demo_hybrid_kems_def demo_kems_def combiner_def
          XWING_PUBLIC_KEY_LEN_def ML_KEM_PUBLIC_LEN_def XWING_ENCAPS_SEED_LEN_def pk Let_def)
    have valid: "split_last_chunk SEAL_PUBLIC_KEY_LEN demo_hybrid_key = Some (replicate 1184 1, x25519_public demo_pack_crates [9])"
      "validate_dh_public demo_pack_crates (x25519_public demo_pack_crates [9]) SEAL_PUBLIC_KEY_LEN = Inr ()"
      using pk by (simp_all add: split_last_chunk_def demo_hybrid_key_def SEAL_PUBLIC_KEY_LEN_def validate_dh_public_def
          x25519_public_def canonical_value)
    obtain nonce where nonce: "hedged_nonce demo_pack_crates SEAL_NONCE_LEN SEAL_NONCE (replicate SEAL_NONCE_LEN (g + 1)) p aad = Inr nonce"
      using hedged_nonce_total [OF hk, of p aad SEAL_NONCE_LEN SEAL_NONCE] small by (fastforce simp: SEAL_NONCE_LEN_def)
    obtain key where key: "hkdf_sha256 demo_pack_crates (replicate 32 0) (?shared @ ct @ demo_hybrid_key) (expand_info SEAL_KEY info) SHARED_LEN =
        Some key"
      using hk [unfolded hkdf_total_def, rule_format, of SHARED_LEN "replicate 32 0"] by (auto simp: SHARED_LEN_def)
    have "?shared \<noteq> replicate 32 0" by (simp add: replicate_eq_replicate)
    then have strong: "\<not> ct_eq demo_pack_crates ?shared (replicate SHARED_LEN 0)"
      using demo_pack_laws(2) by (simp add: ct_eq_sound_def SHARED_LEN_def)
    have "length p < 4294967296" using small by simp
    then obtain body where "xchacha_encrypt demo_pack_crates key nonce aad p = Some body"
      using demo_pack_laws(5) unfolding aead_total_def by blast
    with key enc valid nonce strong show ?thesis
      by (simp add: seal_xwing_def len XWING_PUBLIC_KEY_LEN_def demo_fill_def seal_core_def derive_key_def)
  qed
  then show ?thesis
    by (simp add: seals_to_def mechanism_of_def len XWING_PUBLIC_LEN_def XWING_CIPHERTEXT_LEN_def FIRST_HYBRID_VERSION_def
        CONTAINER_VERSION_def)
qed

definition with_coauthors :: "PackRequest \<Rightarrow> PackRequest" where
  "with_coauthors request = request\<lparr>pr_coauthors := Some \<lparr>co_threshold = 1, co_keys = [replicate 32 1, replicate 32 2]\<rparr>\<rparr>"

lemma demo_pack_ok: "pack_wf demo_request demo_keys demo_sealed" "pack_fits demo_request demo_keys demo_sealed"
proof -
  have "length (x25519_base demo_pack_crates t) = 32" for t
    using demo_pack_laws(1) by (simp add: slot_laws_def x25519_laws_def)
  then show "pack_wf demo_request demo_keys demo_sealed"
    by (simp add: pack_wf_def demo_request_def demo_keys_def demo_sealed_def demo_policy_wf x25519_public_def)
  have "7 \<in> set (x25519_base demo_pack_crates [7])" "check_chunk_size 4096 = Inr 4096" by code_simp+
  then show "pack_fits demo_request demo_keys demo_sealed"
    by (auto simp: pack_fits_def demo_request_def demo_keys_def demo_sealed_def x25519_public_def urls_ok_def MAX_URLS_def
        intro: bexI [of _ 7])
qed

lemma demo_author_key: "author_key_for (plan_for c fid (pr_recipient demo_request)) demo_keys = Some (X25519HkdfSha256, x25519_public demo_pack_crates [4])"
  by (simp add: author_key_for_def plan_for_def demo_request_def demo_keys_def)

lemma demo_recipient_key: "recipient_key (pr_recipient demo_request) = Some (X25519HkdfSha256, x25519_public demo_pack_crates [9])"
  by (simp add: recipient_key_def demo_request_def)

lemma demo_assembles:
  assumes "plan_pack demo_pack_crates demo_fill demo_request g = ((session, pl), g1)"
  shows "\<exists>out g3. assemble demo_pack_crates demo_kems demo_fill demo_generate session demo_request demo_keys demo_sealed g2 = (Inr out, g3)"
proof -
  have "seals_to demo_pack_crates demo_kems demo_fill demo_generate X25519HkdfSha256 (pk_authority_sealing demo_keys)"
    using demo_seals_to by (simp add: demo_keys_def)
  from assemble_outcome [OF demo_pack_laws demo_pack_ok assms this, of g2] show ?thesis
    by (auto simp: demo_author_key demo_recipient_key demo_seals_to)
qed

section \<open>Properties\<close>

text \<open>
  C1.  A packed file opens.  Let a session be planned and then assembled.  The header that results
  decodes to what was requested (policy, organisation, chunk size, tree root, keys, authority) and
  its slots are the server's, the recipient's if there is one, and the author's.  The server's slot
  yields a share \<open>a\<close> to every secret behind the authority's sealing key; the recipient's slot yields
  \<open>b\<close> to the recipient, or \<open>b\<close> is derived from the claim code whose commitment the slot carries; the
  author's slot yields both.  The shares together derive the key that unwraps the content key under
  the recomputed core hash and the commitment of the slot; the content key derives the payload key
  that the plan gave for the chunks, authenticates the content description and opens the private
  metadata (name and size).
\<close>

theorem packed_file_opens:
  assumes "slot_laws c k generate" and "ct_eq_sound c" and "hmac_total c" and "\<forall>n h. length (fst (fill_bytes n h)) = n"
    and "pack_wf request keys sealed"
    and "plan_pack c fill_bytes planned g = ((session, pl), g1)"
    and "assemble c k fill_bytes generate session request keys sealed g2 = (Inr out, g3)"
  shows "\<exists>ph core pol a b cek commitment server recipients author kem key.
     header_decode (as_header out) = Inr ph \<and>
     core_hash c (as_header out) (ph_spans ph) = Inr core \<and> policy_hash c (as_header out) (ph_spans ph) = Inr pol \<and>
     ph_header ph = (skeleton_header request keys (pl_file_id pl) (hd_header_salt (ph_header ph)) (si_tree_root sealed)
         (hd_private_meta (ph_header ph)))
       \<lparr>hd_wrapped_cek := hd_wrapped_cek (ph_header ph), hd_key_slots := Known server # recipients @ [Known author]\<rparr> \<and>
     slot_for Server X25519HkdfSha256 (pk_authority_sealing keys) commitment server \<and>
     slot_yields c k server SLOT_SERVER (pl_file_id pl) pol a \<and>
     recipient_opens c k (pr_recipient planned) recipients commitment (pl_file_id pl) pol b \<and>
     author_key_for (plan_for c (pl_file_id pl) (pr_recipient planned)) keys = Some (kem, key) \<and>
     slot_for AuthorDevice kem key commitment author \<and>
     slot_yields c k author SLOT_AUTHOR_DEVICE (pl_file_id pl) pol (a @ b) \<and>
     unwrap_cek c (derive_kek c (pl_file_id pl) (pr_org_id request) a b) (hd_wrapped_cek (ph_header ph)) commitment core = Inr cek \<and>
     pl_payload_key pl = derive_payload_key c cek (hd_header_salt (ph_header ph)) (pl_file_id pl)
       (hd_chunk_size (ph_header ph)) (su_aead (hd_suite (ph_header ph))) \<and>
     decode_verified c (derive_content_mac_key c cek (hd_header_salt (ph_header ph)) (pl_file_id pl)) (pl_file_id pl)
       (hd_container_version (ph_header ph)) (as_content_desc out) = Inr (initial_desc sealed, length (as_content_desc out)) \<and>
     open_metadata c (derive_private_meta_key c cek (hd_header_salt (ph_header ph)) (pl_file_id pl)) (pl_file_id pl)
       (take META_NONCE_LEN (hd_private_meta (ph_header ph))) (drop META_NONCE_LEN (hd_private_meta (ph_header ph))) =
       Inr (enc_fields [(META_TAG_NAME, pr_original_name request), (META_TAG_SIZE, le64 (si_total_len sealed))])"
proof -
  obtain meta h1 skeleton parsed core pol wrapped commitment server recipients author kem key ph where
    chunk: "pr_chunk_size request = sn_chunk_size session"
    and meta: "seal_private_meta c fill_bytes (sn_cek session) (sn_header_salt session) (pl_file_id pl) request
        (si_total_len sealed) g2 = (Inr meta, h1)"
    and skel: "header_encode (skeleton_header request keys (pl_file_id pl) (sn_header_salt session) (si_tree_root sealed) meta) =
        Inr skeleton" "header_decode skeleton = Inr parsed"
      "core_hash c skeleton (ph_spans parsed) = Inr core" "policy_hash c skeleton (ph_spans parsed) = Inr pol"
    and wrapped: "length wrapped = WRAPPED_CEK_LEN"
    and parts: "unwrap_cek c (derive_kek c (pl_file_id pl) (pr_org_id request) (sn_secret_a session) (sn_secret_b session))
        wrapped commitment core = Inr (sn_cek session)"
      "slot_for Server X25519HkdfSha256 (pk_authority_sealing keys) commitment server"
      "slot_yields c k server SLOT_SERVER (pl_file_id pl) pol (sn_secret_a session)"
      "recipient_opens c k (pr_recipient planned) recipients commitment (pl_file_id pl) pol (sn_secret_b session)"
      "\<forall>slot \<in> set recipients. \<exists>s. slot = Known s \<and> known_slot_wf s"
      "author_key_for (plan_for c (pl_file_id pl) (pr_recipient planned)) keys = Some (kem, key)"
      "slot_for AuthorDevice kem key commitment author"
      "slot_yields c k author SLOT_AUTHOR_DEVICE (pl_file_id pl) pol (sn_secret_a session @ sn_secret_b session)"
    and final: "header_encode ((skeleton_header request keys (pl_file_id pl) (sn_header_salt session) (si_tree_root sealed) meta)
       \<lparr>hd_wrapped_cek := wrapped, hd_key_slots := Known server # recipients @ [Known author]\<rparr>) = Inr (as_header out)"
      "header_decode (as_header out) = Inr ph"
    and desc: "content_encode c (derive_content_mac_key c (sn_cek session) (sn_header_salt session) (pl_file_id pl))
       (pl_file_id pl) CONTAINER_VERSION (initial_desc sealed) = Inr (as_content_desc out)"
    using assembled_parts [OF assms(1-4,6,7)] by blast
  note plan = plan_pack_eq [OF assms(6,4)]
  have "header_wf ((skeleton_header request keys (pl_file_id pl) (sn_header_salt session) (si_tree_root sealed) meta)
       \<lparr>hd_wrapped_cek := wrapped, hd_key_slots := Known server # recipients @ [Known author]\<rparr>)"
    using assembled_header_wf [OF assms(5) _ _ wrapped] plan parts(2,5,7) by (auto simp: slot_for_def)
  from header_codec.dec_enc [OF this final(1)] final(2)
  have h: "ph_header ph = (skeleton_header request keys (pl_file_id pl) (sn_header_salt session) (si_tree_root sealed) meta)
       \<lparr>hd_wrapped_cek := wrapped, hd_key_slots := Known server # recipients @ [Known author]\<rparr>" by simp
  have hashes: "core_hash c (as_header out) (ph_spans ph) = Inr core" "policy_hash c (as_header out) (ph_spans ph) = Inr pol"
    using hashes_stable [OF skel(1,2) final] skel(3,4) by simp_all
  note decoded = initial_desc_decodes [OF assms(3,2,5) desc]
    and opened = private_meta_opens [OF _ _ meta] and laws = assms(1) [unfolded slot_laws_def]
  show ?thesis
    by (rule exI [of _ ph], rule exI [of _ core], rule exI [of _ pol], rule exI [of _ "sn_secret_a session"],
        rule exI [of _ "sn_secret_b session"], rule exI [of _ "sn_cek session"], rule exI [of _ commitment],
        rule exI [of _ server], rule exI [of _ recipients], rule exI [of _ author], rule exI [of _ kem], rule exI [of _ key])
      (use final(2) hashes h parts decoded opened plan chunk laws in \<open>simp add: skeleton_header_def\<close>)
qed

theorem packed_file_opens_witness:
  "\<exists>session pl g1 out g2 ph a b cek commitment core pol server author recipients.
     plan_pack demo_pack_crates demo_fill demo_request 5 = ((session, pl), g1) \<and>
     assemble demo_pack_crates demo_kems demo_fill demo_generate session demo_request demo_keys demo_sealed g1 = (Inr out, g2) \<and>
     header_decode (as_header out) = Inr ph \<and> hd_policy (ph_header ph) = demo_policy \<and>
     hd_key_slots (ph_header ph) = Known server # recipients @ [Known author] \<and>
     slot_yields demo_pack_crates demo_kems server SLOT_SERVER (pl_file_id pl) pol a \<and>
     slot_yields demo_pack_crates demo_kems author SLOT_AUTHOR_DEVICE (pl_file_id pl) pol (a @ b) \<and>
     unwrap_cek demo_pack_crates (derive_kek demo_pack_crates (pl_file_id pl) [] a b) (hd_wrapped_cek (ph_header ph)) commitment core =
       Inr cek"
proof -
  obtain session pl g1 where plan: "plan_pack demo_pack_crates demo_fill demo_request 5 = ((session, pl), g1)"
    by (cases "plan_pack demo_pack_crates demo_fill demo_request 5") auto
  obtain out g2 where asm: "assemble demo_pack_crates demo_kems demo_fill demo_generate session demo_request demo_keys demo_sealed g1 = (Inr out, g2)"
    using demo_assembles [OF plan] by blast
  have "hd_policy ((skeleton_header demo_request demo_keys f s r m)\<lparr>hd_wrapped_cek := w, hd_key_slots := ss\<rparr>) = demo_policy \<and>
      hd_key_slots ((skeleton_header demo_request demo_keys f s r m)\<lparr>hd_wrapped_cek := w, hd_key_slots := ss\<rparr>) = ss \<and>
      pr_org_id demo_request = []" for f s r m w ss
    by (simp add: skeleton_header_def demo_request_def)
  with packed_file_opens [OF demo_pack_laws(1-3,6) demo_pack_ok(1) plan asm] plan asm show ?thesis by metis
qed

text \<open>
  C25.  Assembly succeeds, or says why the author's slot is missing.  Let a well-formed request be
  within the header's limits (a chunk size the header admits, printable addresses of bounded
  length and number, a name and an organisation of at most a mebibyte, co-authors, if there are
  any, distinct with a threshold they can reach, and at least one sealed chunk), let it be
  planned as it is assembled, and let its keys be ones that can be sealed to.  Then \<open>assemble\<close>
  returns a header and a content description; in particular the check of the core hash never
  fails.  When the recipient is hybrid and the author's device has no key of that kind, the answer
  is \<open>MissingAuthorHybridKey\<close>: no classical slot is written in its place.
\<close>

theorem assemble_decided:
  fixes fill_bytes :: "nat \<Rightarrow> 'g \<Rightarrow> bytes \<times> 'g" and generate :: "'g \<Rightarrow> bytes \<times> 'g"
  assumes "slot_laws c k generate" and "ct_eq_sound c" and "hmac_total c" and "digests_32 c" and "aead_total c"
    and "\<forall>n h. length (fst (fill_bytes n h)) = n" and "pack_wf request keys sealed" and "pack_fits request keys sealed"
    and "plan_pack c fill_bytes request g = ((session, pl), g1)"
    and "seals_to c k fill_bytes generate X25519HkdfSha256 (pk_authority_sealing keys)"
    and "\<forall>kem key. recipient_key (pr_recipient request) = Some (kem, key) \<longrightarrow> seals_to c k fill_bytes generate kem key"
  shows "case author_key_for (plan_for c (pl_file_id pl) (pr_recipient request)) keys of
     None \<Rightarrow> fst (assemble c k fill_bytes generate session request keys sealed g2) = Inl MissingAuthorHybridKey
   | Some (kem, key) \<Rightarrow> seals_to c k fill_bytes generate kem key \<longrightarrow>
       (\<exists>out g3. assemble c k fill_bytes generate session request keys sealed g2 = (Inr out, g3))"
  using assms by (rule assemble_outcome)

theorem assemble_decided_witness:
  "\<exists>session pl g1 out g2 session' pl' g1'.
     plan_pack demo_pack_crates demo_fill (with_coauthors demo_request) 5 = ((session, pl), g1) \<and>
     assemble demo_pack_crates demo_hybrid_kems demo_fill demo_generate session (with_coauthors demo_request) demo_keys demo_sealed g1 = (Inr out, g2) \<and>
     plan_pack demo_pack_crates demo_fill (demo_request\<lparr>pr_recipient := Hybrid demo_hybrid_key\<rparr>) 5 = ((session', pl'), g1') \<and>
     fst (assemble demo_pack_crates demo_hybrid_kems demo_fill demo_generate session' (demo_request\<lparr>pr_recipient := Hybrid demo_hybrid_key\<rparr>)
       demo_keys demo_sealed g1') = Inl MissingAuthorHybridKey"
proof -
  let ?co = "with_coauthors demo_request" and ?hy = "demo_request\<lparr>pr_recipient := Hybrid demo_hybrid_key\<rparr>"
  have ok: "pack_wf ?co demo_keys demo_sealed" "pack_fits ?co demo_keys demo_sealed" "pack_wf ?hy demo_keys demo_sealed"
    "pack_fits ?hy demo_keys demo_sealed"
    using demo_pack_ok by (simp_all add: pack_wf_def pack_fits_def with_coauthors_def coauthors_ok_def MAX_COAUTHORS_def)
  obtain session pl g1 session' pl' g1' where plan: "plan_pack demo_pack_crates demo_fill ?co 5 = ((session, pl), g1)"
    "plan_pack demo_pack_crates demo_fill ?hy 5 = ((session', pl'), g1')"
    by (cases "plan_pack demo_pack_crates demo_fill ?co 5"; cases "plan_pack demo_pack_crates demo_fill ?hy 5") auto
  have au: "seals_to demo_pack_crates demo_hybrid_kems demo_fill demo_generate X25519HkdfSha256 (pk_authority_sealing demo_keys)"
    using demo_seals_classical by (simp add: demo_keys_def)
  have keys: "pr_recipient ?co = pr_recipient demo_request" "recipient_key (pr_recipient ?hy) = Some (XWing, demo_hybrid_key)"
    "author_key_for (plan_for demo_pack_crates fid (pr_recipient ?hy)) demo_keys = None" for fid
    by (simp_all add: with_coauthors_def recipient_key_def plan_for_def author_key_for_def demo_keys_def)
  have "\<exists>out g2. assemble demo_pack_crates demo_hybrid_kems demo_fill demo_generate session ?co demo_keys demo_sealed g1 = (Inr out, g2)"
    using assemble_decided [OF demo_hybrid_laws demo_pack_laws(2-6) ok(1,2) plan(1) au, of g1]
    by (simp add: keys(1) demo_author_key demo_recipient_key demo_seals_classical)
  moreover have "fst (assemble demo_pack_crates demo_hybrid_kems demo_fill demo_generate session' ?hy demo_keys demo_sealed g1') = Inl MissingAuthorHybridKey"
    using assemble_decided [OF demo_hybrid_laws demo_pack_laws(2-6) ok(3,4) plan(2) au, of g1'] demo_seals_hybrid
    unfolding keys(2,3) by simp
  ultimately show ?thesis using plan by blast
qed

text \<open>
  A plan is kept.  Assembly is refused with \<open>PlanMismatch\<close>, before anything is drawn from the
  generator, whenever the chunk size or the recipient differs from what was planned: another
  mechanism, another key of the same mechanism, or a claim code with another commitment.
\<close>

theorem assemble_keeps_plan:
  assumes "ct_eq_sound c" and "hkdf_total c" and "plan_pack c fill_bytes planned g = ((session, pl), g1)"
    and "\<forall>n h. length (fst (fill_bytes n h)) = n"
    and "pr_chunk_size request \<noteq> pr_chunk_size planned \<or>
      plan_for c (pl_file_id pl) (pr_recipient request) \<noteq> plan_for c (pl_file_id pl) (pr_recipient planned)"
  shows "assemble c k fill_bytes generate session request keys sealed g2 = (Inl PlanMismatch, g2)"
proof -
  note plan = plan_pack_eq [OF assms(3,4)]
  have "plan_matches c fid (plan_for c fid r) r' \<longleftrightarrow> plan_for c fid r = plan_for c fid r'" for fid r r'
    using assms(1) claim_commit_length [OF assms(2)]
    by (cases r; cases r') (auto simp: plan_for_def public_key_eq_def digest_eq_ct_def ct_eq_sound_def split_beta)
  then show ?thesis using plan assms(5) by (auto simp: assemble_def pureG_def Let_def)
qed

theorem assemble_keeps_plan_witness:
  "\<exists>session pl g1. plan_pack demo_pack_crates demo_fill demo_request 5 = ((session, pl), g1) \<and>
     assemble demo_pack_crates demo_kems demo_fill demo_generate session (demo_request\<lparr>pr_recipient := NoRecipient\<rparr>) demo_keys
       demo_sealed 9 = (Inl PlanMismatch, 9)"
proof -
  obtain session pl g1 where plan: "plan_pack demo_pack_crates demo_fill demo_request 5 = ((session, pl), g1)"
    by (cases "plan_pack demo_pack_crates demo_fill demo_request 5") auto
  have "hkdf_total demo_pack_crates" using demo_pack_laws(1) by (simp add: slot_laws_def)
  from assemble_keeps_plan [OF demo_pack_laws(2) this plan demo_pack_laws(6), of "demo_request\<lparr>pr_recipient := NoRecipient\<rparr>"
      demo_kems demo_generate demo_keys demo_sealed 9] plan
  show ?thesis by (simp add: plan_for_def demo_request_def)
qed

end
