(* ===== verification/OC_Rsa.thy ===== *)
theory OC_Rsa
  imports OC_Seal OC_Content
begin

text \<open>
  RSA and TPM formats and the signers (\<^verbatim>\<open>oc-crypto/src/rsa.rs\<close>, \<^verbatim>\<open>tpm.rs\<close> and the signing half of
  \<^verbatim>\<open>sign.rs\<close>).  The big integers of the crate \<^verbatim>\<open>crypto-bigint\<close> are natural numbers; its modular
  power is the parameter \<open>mont_pow\<close> (base, exponent, modulus).  Verification is shown to accept
  exactly the encodings of RFC 8017: \<open>pss_encode\<close> and \<open>pkcs1_encode\<close> are that document's encoders,
  \<open>oaep_decode\<close> its decoder.
\<close>

unbundle bit_operations_syntax

section \<open>Helpers of the language\<close>

definition be_nat :: "bytes \<Rightarrow> nat" where
  "be_nat bs = le_nat (rev bs)"

text \<open>The loop that xors the second sequence into the first, as far as both go.\<close>

fun xor_into :: "bytes \<Rightarrow> bytes \<Rightarrow> bytes" where
  "xor_into (d # ds) (s # ss) = (d XOR s) # xor_into ds ss"
| "xor_into ds _ = ds"

section \<open>Constants\<close>

definition RSA_BITS :: nat where "RSA_BITS = 2048"
definition HLEN :: nat where "HLEN = 32"
definition SLEN :: nat where "SLEN = 32"
definition DB_LEN :: nat where "DB_LEN = 223"
definition PS_LEN :: nat where "PS_LEN = 190"
definition EXPONENT :: bytes where "EXPONENT = [1, 0, 1]"
definition ATTESTATION_MODULUS_LENS :: "nat list" where "ATTESTATION_MODULUS_LENS = [256, 384, 512]"

definition SHA256_DIGEST_INFO :: bytes where
  "SHA256_DIGEST_INFO =
     [0x30, 0x31] @ [0x30, 0x0d] @ [0x06, 0x09] @ [0x60, 0x86, 0x48, 0x01, 0x65] @ [0x03, 0x04, 0x02, 0x01] @ [0x05, 0x00] @ [0x04, 0x20]"

section \<open>Mask generation\<close>

text \<open>One block per thirty-two bytes of output, the last one cut; the counter wraps.\<close>

function mgf1_from :: "Crates \<Rightarrow> bytes \<Rightarrow> u32 \<Rightarrow> nat \<Rightarrow> bytes" where
  "mgf1_from c seed counter n =
     (if n = 0 then []
      else array_from (min HLEN n) (sha256_digest c (seed @ be_bytes 4 (unat counter))) @
           mgf1_from c seed (counter + 1) (n - HLEN))"
  by pat_completeness auto
termination by (relation "measure (\<lambda>(_, _, _, n). n)") (auto simp: HLEN_def)

declare mgf1_from.simps [simp del]

definition mgf1 :: "Crates \<Rightarrow> bytes \<Rightarrow> nat \<Rightarrow> bytes" where
  "mgf1 c seed n = mgf1_from c seed 0 n"

section \<open>Signatures\<close>

definition verify_pss_sha256 ::
    "Crates \<Rightarrow> (nat \<Rightarrow> nat \<Rightarrow> nat \<Rightarrow> nat) \<Rightarrow> bytes \<Rightarrow> bytes \<Rightarrow> bytes \<Rightarrow> CryptoError + unit" where
  "verify_pss_sha256 c mont_pow modulus message signature =
     bindR (ensure (\<not> length signature \<noteq> MODULUS_LEN) BadLength) (\<lambda>_.
     let n = be_nat modulus; s = be_nat signature in
     bindR (ensure (\<not> s \<ge> n) BadSignature) (\<lambda>_.
     bindR (ensure (odd n) BadLength) (\<lambda>_.
     let em = be_bytes (RSA_BITS div 8) (mont_pow s (be_nat EXPONENT) n) in
     bindR (ensure (\<not> length em \<noteq> MODULUS_LEN) BadLength) (\<lambda>_.
     bindR (ensure (\<not> (em = [] \<or> last em \<noteq> 0xbc)) BadSignature) (\<lambda>_.
     bindR (ok_or BadLength (split_at_checked em DB_LEN)) (\<lambda>(masked_db, rest).
     bindR (ok_or BadLength (get_range rest 0 HLEN)) (\<lambda>h.
     bindR (ok_or BadLength (case masked_db of [] \<Rightarrow> None | b # _ \<Rightarrow> Some b)) (\<lambda>first.
     bindR (ensure (\<not> first AND 0x80 \<noteq> 0) BadSignature) (\<lambda>_.
     let db = xor_into (mgf1 c h DB_LEN) masked_db;
         db = (case db of [] \<Rightarrow> [] | head # t \<Rightarrow> (head AND 0x7f) # t) in
     bindR (ok_or BadLength (split_at_checked db PS_LEN)) (\<lambda>(padding, tail).
     bindR (ensure (\<not> list_ex (\<lambda>byte. byte \<noteq> 0) padding) BadSignature) (\<lambda>_.
     bindR (ok_or BadLength (case tail of [] \<Rightarrow> None | b # bs \<Rightarrow> Some (b, bs))) (\<lambda>(separator, salt).
     bindR (ensure (\<not> (separator \<noteq> 0x01 \<or> length salt \<noteq> SLEN)) BadSignature) (\<lambda>_.
     let computed = sha256_digest c (replicate 8 0 @ sha256_digest c message @ salt) in
     if digest_eq_ct c computed h then Inr () else Inl BadSignature)))))))))))))"

definition public_op :: "(nat \<Rightarrow> nat \<Rightarrow> nat \<Rightarrow> nat) \<Rightarrow> bytes \<Rightarrow> bytes \<Rightarrow> CryptoError + bytes" where
  "public_op mont_pow modulus input =
     (let k = length modulus in
      bindR (ensure (\<not> (k \<notin> set ATTESTATION_MODULUS_LENS \<or> length input \<noteq> k)) BadLength) (\<lambda>_.
      bindR (ensure (case modulus of [] \<Rightarrow> False | byte # _ \<Rightarrow> byte AND 0x80 \<noteq> 0) BadLength) (\<lambda>_.
      let n = be_nat modulus; x = be_nat input in
      bindR (ensure (\<not> x \<ge> n) BadSignature) (\<lambda>_.
      bindR (ensure (odd n) BadLength) (\<lambda>_.
      let out = be_bytes k (mont_pow x (be_nat EXPONENT) n) in
      bindR (ensure (\<not> length out \<noteq> k) BadLength) (\<lambda>_. Inr out))))))"

text \<open>\<open>width\<close> is the number of bytes of the fixed-size integer, \<^verbatim>\<open>Uint::<LIMBS>::BYTES\<close>.\<close>

definition oaep_public_op :: "(nat \<Rightarrow> nat \<Rightarrow> nat \<Rightarrow> nat) \<Rightarrow> nat \<Rightarrow> bytes \<Rightarrow> bytes \<Rightarrow> CryptoError + bytes" where
  "oaep_public_op mont_pow width modulus input =
     bindR (ensure (\<not> (length modulus \<noteq> width \<or> length input \<noteq> width)) BadLength) (\<lambda>_.
     bindR (ensure (case modulus of [] \<Rightarrow> False | byte # _ \<Rightarrow> byte AND 0x80 \<noteq> 0) BadLength) (\<lambda>_.
     let n = be_nat modulus; x = be_nat input in
     bindR (ensure (\<not> x \<ge> n) BadSignature) (\<lambda>_.
     bindR (ensure (odd n) BadLength) (\<lambda>_.
     Inr (be_bytes width (mont_pow x 65537 n))))))"

definition verify_pkcs1v15_sha256 ::
    "Crates \<Rightarrow> (nat \<Rightarrow> nat \<Rightarrow> nat \<Rightarrow> nat) \<Rightarrow> bytes \<Rightarrow> bytes \<Rightarrow> bytes \<Rightarrow> CryptoError + unit" where
  "verify_pkcs1v15_sha256 c mont_pow modulus message signature =
     (let k = length modulus in
      bindR (ensure (\<not> length signature \<noteq> k) BadLength) (\<lambda>_.
      bindR (public_op mont_pow modulus signature) (\<lambda>recovered.
      let t_len = length SHA256_DIGEST_INFO + HLEN in
      bindR (ensure (t_len \<le> k) BadLength) (\<lambda>_.
      let pad_end = k - t_len;
          head = replicate pad_end 0xff;
          head = head[0 := 0x00];
          head = head[1 := 0x01];
          head = head[pad_end - 1 := 0x00];
          expected = head @ SHA256_DIGEST_INFO @ sha256_digest c message in
      bindR (ensure (\<not> pad_end < 11) BadLength) (\<lambda>_.
      if ct_eq c recovered expected then Inr () else Inl BadSignature)))))"

section \<open>Encryption\<close>

definition encrypt_oaep_sha256 ::
    "Crates \<Rightarrow> (nat \<Rightarrow> nat \<Rightarrow> nat \<Rightarrow> nat) \<Rightarrow> bytes \<Rightarrow> bytes \<Rightarrow> bytes \<Rightarrow> bytes \<Rightarrow> CryptoError + bytes" where
  "encrypt_oaep_sha256 c mont_pow modulus label message seed =
     (let k = length modulus in
      bindR (ensure (k \<in> set ATTESTATION_MODULUS_LENS) BadLength) (\<lambda>_.
      bindR (ensure (HLEN * 2 + 2 \<le> k) BadLength) (\<lambda>_.
      let room = k - (HLEN * 2 + 2) in
      bindR (ensure (\<not> length message > room) BadLength) (\<lambda>_.
      let db_len = k - HLEN - 1; rest_len = db_len - HLEN in
      bindR (ensure (length message + 1 \<le> rest_len) BadLength) (\<lambda>_.
      let marker_at = rest_len - (length message + 1);
          db = sha256_digest c label @ replicate marker_at 0 @ [0x01] @ message;
          db = xor_into db (mgf1 c seed db_len);
          masked_seed = xor_into seed (mgf1 c db HLEN);
          em = [0] @ masked_seed @ db in
      if k = 256 then oaep_public_op mont_pow 256 modulus em
      else if k = 384 then oaep_public_op mont_pow 384 modulus em
      else if k = 512 then oaep_public_op mont_pow 512 modulus em
      else Inl BadLength)))))"

section \<open>TPM key derivation\<close>

definition TPM_SEED_LEN :: nat where "TPM_SEED_LEN = 32"
definition STORAGE_KEY_LEN :: nat where "STORAGE_KEY_LEN = 16"
definition IDENTITY_LABEL :: bytes where "IDENTITY_LABEL = ascii ''IDENTITY'' @ [0]"
definition TPM_STORAGE :: bytes where "TPM_STORAGE = ascii ''STORAGE'' @ [0]"
definition TPM_INTEGRITY :: bytes where "TPM_INTEGRITY = ascii ''INTEGRITY'' @ [0]"

text \<open>A block that cannot be computed leaves the zeros of the output buffer.\<close>

definition kdfa_block :: "Crates \<Rightarrow> bytes \<Rightarrow> bytes \<Rightarrow> bytes \<Rightarrow> bytes \<Rightarrow> nat \<Rightarrow> u32 \<Rightarrow> nat \<Rightarrow> bytes" where
  "kdfa_block c key label context_u context_v bits counter chunk =
     (case hmac_sha256 c key (be_bytes 4 (unat counter) @ label @ context_u @ context_v @ be_bytes 4 bits) of
        None \<Rightarrow> replicate chunk 0
      | Some block \<Rightarrow> (case get_range block 0 chunk of Some head \<Rightarrow> head | None \<Rightarrow> replicate chunk 0))"

function kdfa_from :: "Crates \<Rightarrow> bytes \<Rightarrow> bytes \<Rightarrow> bytes \<Rightarrow> bytes \<Rightarrow> nat \<Rightarrow> u32 \<Rightarrow> nat \<Rightarrow> bytes" where
  "kdfa_from c key label context_u context_v bits counter n =
     (if n = 0 then []
      else kdfa_block c key label context_u context_v bits counter (min 32 n) @
           kdfa_from c key label context_u context_v bits (counter + 1) (n - 32))"
  by pat_completeness auto
termination by (relation "measure (\<lambda>(_, _, _, _, _, _, _, n). n)") auto

declare kdfa_from.simps [simp del]

definition kdfa :: "Crates \<Rightarrow> bytes \<Rightarrow> bytes \<Rightarrow> bytes \<Rightarrow> bytes \<Rightarrow> nat \<Rightarrow> bytes" where
  "kdfa c key label context_u context_v n =
     kdfa_from c key label context_u context_v (min (n * 8) 4294967295) 1 n"

definition storage_key :: "Crates \<Rightarrow> bytes \<Rightarrow> bytes \<Rightarrow> bytes" where
  "storage_key c seed object_name = kdfa c seed TPM_STORAGE object_name [] STORAGE_KEY_LEN"

definition integrity_tag :: "Crates \<Rightarrow> bytes \<Rightarrow> bytes \<Rightarrow> bytes \<Rightarrow> bytes" where
  "integrity_tag c seed enc_identity object_name =
     (let hmac_key = kdfa c seed TPM_INTEGRITY [] [] 32 in
      case hmac_sha256 c hmac_key (enc_identity @ object_name) of Some tag \<Rightarrow> tag | None \<Rightarrow> replicate 32 0)"

section \<open>Signers\<close>

text \<open>The trait \<^verbatim>\<open>Signer\<close>; the Ed25519 one over the key functions of the crate \<^verbatim>\<open>ed25519-dalek\<close>.\<close>

record Signer =
  sg_alg :: SigAlg
  sg_public_key :: bytes
  sg_sign :: "Transcript \<Rightarrow> CryptoError + bytes"

definition Ed25519Signer :: "(bytes \<Rightarrow> bytes) \<Rightarrow> (bytes \<Rightarrow> bytes \<Rightarrow> bytes option) \<Rightarrow> bytes \<Rightarrow> Signer" where
  "Ed25519Signer ed_public ed_sign seed =
     \<lparr>sg_alg = Ed25519, sg_public_key = ed_public seed,
      sg_sign = (\<lambda>transcript. ok_or BadSignature (ed_sign seed (tr_buf transcript)))\<rparr>"

definition ed25519_generate ::
    "(bytes \<Rightarrow> bytes) \<Rightarrow> (bytes \<Rightarrow> bytes \<Rightarrow> bytes option) \<Rightarrow> (nat \<Rightarrow> 'g \<Rightarrow> bytes \<times> 'g) \<Rightarrow> 'g \<Rightarrow> Signer \<times> 'g" where
  "ed25519_generate ed_public ed_sign fill_bytes rng =
     (case fill_bytes 32 rng of (seed, rng) \<Rightarrow> (Ed25519Signer ed_public ed_sign seed, rng))"

section \<open>Lemmas on masks\<close>

lemma length_array_from [simp]: "length (array_from n src) = n"
  by (simp add: array_from_def)

lemma length_mgf1_from: "length (mgf1_from c seed counter n) = n"
  by (induction c seed counter n rule: mgf1_from.induct) (subst mgf1_from.simps, auto simp: HLEN_def)

lemma length_mgf1 [simp]: "length (mgf1 c seed n) = n"
  by (simp add: mgf1_def length_mgf1_from)

lemma length_xor_into [simp]: "length (xor_into a b) = length a"
  by (induction a b rule: xor_into.induct) auto

lemma xor_into_involution [simp]: "xor_into (xor_into a b) b = a"
  by (induction a b rule: xor_into.induct) (auto simp: xor.assoc)

lemma xor_into_commute: "length a = length b \<Longrightarrow> xor_into a b = xor_into b a"
  by (induction a b rule: list_induct2) (auto simp: xor.commute)

lemma xor_into_eq: "length a = length b \<Longrightarrow> length b = length d \<Longrightarrow> xor_into a b = d \<longleftrightarrow> b = xor_into d a"
  by (metis xor_into_commute xor_into_involution)

text \<open>The top bit of the first byte is cleared on both sides.\<close>

lemma masked_top_bit:
  fixes m g :: byte
  shows "m AND 0x80 = 0 \<and> (g XOR m) AND 0x7f = 0 \<longleftrightarrow> m = g AND 0x7f"
proof
  assume a: "m AND 0x80 = 0 \<and> (g XOR m) AND 0x7f = 0"
  have full: "(0xff :: byte) = - 1" by simp
  have "m = m AND 0xff" unfolding full by simp
  also have "\<dots> = (m AND 0x80) OR (m AND 0x7f)" by (simp flip: bit.conj_disj_distrib)
  finally have "m = (m AND 0x80) OR (m AND 0x7f)" .
  with a have "m = m AND 0x7f" by simp
  moreover have "(g AND 0x7f) XOR (m AND 0x7f) = 0" using a by (simp add: bit.conj_xor_distrib2)
  then have "((g AND 0x7f) XOR (m AND 0x7f)) XOR (m AND 0x7f) = 0 XOR (m AND 0x7f)" by simp
  then have "g AND 0x7f = m AND 0x7f" by (simp add: xor.assoc)
  ultimately show "m = g AND 0x7f" by simp
next
  assume "m = g AND 0x7f"
  then show "m AND 0x80 = 0 \<and> (g XOR m) AND 0x7f = 0"
    by (simp add: bit.conj_xor_distrib2 and.assoc)
qed

section \<open>The encodings of RFC 8017\<close>

definition pss_encode :: "Crates \<Rightarrow> bytes \<Rightarrow> bytes \<Rightarrow> bytes" where
  "pss_encode c message salt =
     (let h = sha256_digest c (replicate 8 0 @ sha256_digest c message @ salt);
          masked = xor_into (replicate PS_LEN 0 @ [1] @ salt) (mgf1 c h DB_LEN)
      in (hd masked AND 0x7f) # tl masked @ h @ [0xbc])"

definition pkcs1_encode :: "Crates \<Rightarrow> nat \<Rightarrow> bytes \<Rightarrow> bytes" where
  "pkcs1_encode c k message =
     [0, 1] @ replicate (k - 54) 0xff @ [0] @ SHA256_DIGEST_INFO @ sha256_digest c message"

definition oaep_decode :: "Crates \<Rightarrow> bytes \<Rightarrow> bytes \<Rightarrow> bytes option" where
  "oaep_decode c label em =
     (case em of
        [] \<Rightarrow> None
      | y # rest \<Rightarrow>
          (let masked_seed = take HLEN rest; masked_db = drop HLEN rest;
               seed = xor_into masked_seed (mgf1 c masked_db HLEN);
               db = xor_into masked_db (mgf1 c seed (length masked_db));
               tail = dropWhile (\<lambda>b. b = 0) (drop HLEN db)
           in if y = 0 \<and> take HLEN db = sha256_digest c label \<and> tail \<noteq> [] \<and> hd tail = 1 then Some (tl tail) else None))"

lemma pss_db:
  assumes "length m = 223" and "length g = 223"
  shows "hd m AND 0x80 = 0 \<and> (hd (xor_into g m) AND 0x7f) # tl (xor_into g m) = replicate 190 0 @ [1] @ salt \<longleftrightarrow>
     length salt = 32 \<and> m = (hd (xor_into (replicate 190 0 @ [1] @ salt) g) AND 0x7f) # tl (xor_into (replicate 190 0 @ [1] @ salt) g)"
proof -
  obtain m0 ms where m: "m = m0 # ms" using assms(1) by (cases m) auto
  obtain g0 gs where g: "g = g0 # gs" using assms(2) by (cases g) auto
  have len: "length ms = 222" "length gs = 222" using assms m g by simp_all
  have rep: "replicate 190 (0 :: byte) = 0 # replicate 189 0" by (simp add: numeral_eq_Suc)
  have "xor_into gs ms = replicate 189 0 @ [1] @ salt \<longleftrightarrow> length salt = 32 \<and> ms = xor_into (replicate 189 0 @ [1] @ salt) gs"
  proof (cases "length salt = 32")
    case True
    then show ?thesis using xor_into_eq [of gs ms "replicate 189 0 @ [1] @ salt"] len by simp
  next
    case False
    then show ?thesis using len by (auto dest: arg_cong [where f = length])
  qed
  then show ?thesis using masked_top_bit [of m0 g0] unfolding m g rep by auto
qed

lemma split_256: "length xs = 256 \<Longrightarrow> \<exists>m h b. xs = m @ h @ [b] \<and> length m = 223 \<and> length h = 32"
  by (rule exI [of _ "take 223 xs"], rule exI [of _ "take 32 (drop 223 xs)"], rule exI [of _ "xs ! 255"])
    (auto simp: list_eq_iff_nth_eq nth_append less_Suc_eq_le intro!: arg_cong [where f = "(!) xs"])

lemma first_byte: "length m = 223 \<Longrightarrow> (case m of [] \<Rightarrow> None | b # _ \<Rightarrow> Some b) = Some (hd m)"
  by (cases m) auto

lemma clear_first: "length db = 223 \<Longrightarrow> (case db of [] \<Rightarrow> [] | h # t \<Rightarrow> (h AND 0x7f) # t) = ((hd db AND 0x7f) # tl db :: bytes)"
  by (cases db) auto

lemma padding_split:
  assumes "length db = 223"
  shows "(\<exists>padding tail. split_at_checked db 190 = Some (padding, tail) \<and> \<not> list_ex (\<lambda>b. b \<noteq> 0) padding \<and>
       (\<exists>separator. (case tail of [] \<Rightarrow> None | b # bs \<Rightarrow> Some (b, bs)) = Some (separator, salt) \<and> separator = 1 \<and> length salt = 32)) \<longleftrightarrow>
     db = replicate 190 0 @ [1] @ (salt :: bytes)"
proof -
  have "\<not> list_ex (\<lambda>b. b \<noteq> 0) (take 190 db) \<longleftrightarrow> take 190 db = replicate 190 0"
    using assms by (auto simp: list_ex_iff intro!: replicate_eqI)
  moreover have "db = replicate 190 0 @ [1] @ salt \<longleftrightarrow> take 190 db = replicate 190 0 \<and> drop 190 db = 1 # salt"
    by (metis append_Cons append_Nil append_eq_conv_conj length_replicate)
  ultimately show ?thesis
    using assms by (auto simp: split_at_checked_def split: list.splits dest: arg_cong [where f = length])
qed

lemma verify_pss_eq:
  assumes "ct_eq_sound c" and "digests_32 c"
  shows "verify_pss_sha256 c mont_pow modulus message signature = Inr () \<longleftrightarrow>
     length signature = 256 \<and> be_nat signature < be_nat modulus \<and> odd (be_nat modulus) \<and>
     (\<exists>salt. length salt = 32 \<and>
        be_bytes 256 (mont_pow (be_nat signature) 65537 (be_nat modulus)) = pss_encode c message salt)"
proof -
  let ?em = "be_bytes 256 (mont_pow (be_nat signature) 65537 (be_nat modulus))"
  obtain m h b where em: "?em = m @ h @ [b]" and len: "length m = 223" "length h = 32" using split_256 [of ?em] by auto
  let ?H = "\<lambda>salt. sha256_digest c (replicate 8 0 @ sha256_digest c message @ salt)"
  let ?db = "(hd (xor_into (mgf1 c h 223) m) AND 0x7f) # tl (xor_into (mgf1 c h 223) m)"
  have e: "be_nat EXPONENT = 65537" by (simp add: be_nat_def EXPONENT_def)
  have ct: "digest_eq_ct c (?H salt) h \<longleftrightarrow> ?H salt = h" for salt
    using assms len(2) by (simp add: digest_eq_ct_def ct_eq_sound_def digests_32_def)
  have db: "length ?db = 223" by simp
  have enc: "m @ h @ [b] = pss_encode c message salt \<longleftrightarrow> b = 0xbc \<and> ?H salt = h \<and>
      m = (hd (xor_into (replicate 190 0 @ [1] @ salt) (mgf1 c h 223)) AND 0x7f) # tl (xor_into (replicate 190 0 @ [1] @ salt) (mgf1 c h 223))"
    if "length salt = 32" for salt
  proof -
    let ?x = "xor_into (replicate 190 0 @ [1] @ salt) (mgf1 c (?H salt) 223)"
    have "pss_encode c message salt = ((hd ?x AND 0x7f) # tl ?x) @ ?H salt @ [0xbc]"
      by (simp add: pss_encode_def Let_def PS_LEN_def DB_LEN_def)
    moreover have "length ((hd ?x AND 0x7f) # tl ?x) = length m" "length (?H salt) = length h"
      using that len assms(2) by (simp_all add: digests_32_def)
    ultimately show ?thesis by (auto simp del: append_Cons)
  qed
  have "verify_pss_sha256 c mont_pow modulus message signature = Inr () \<longleftrightarrow>
      length signature = 256 \<and> be_nat signature < be_nat modulus \<and> odd (be_nat modulus) \<and> b = 0xbc \<and> hd m AND 0x80 = 0 \<and>
      (\<exists>salt. (\<exists>padding tail. split_at_checked ?db 190 = Some (padding, tail) \<and> \<not> list_ex (\<lambda>b. b \<noteq> 0) padding \<and>
       (\<exists>separator. (case tail of [] \<Rightarrow> None | b # bs \<Rightarrow> Some (b, bs)) = Some (separator, salt) \<and> separator = 1 \<and> length salt = 32)) \<and>
       ?H salt = h)"
    unfolding verify_pss_sha256_def Let_def e RSA_BITS_def MODULUS_LEN_def DB_LEN_def HLEN_def PS_LEN_def SLEN_def
    using len
    by (simp add: em clear_first first_byte bindR_eq_Inr ensure_eq_Inr ok_or_eq_Inr ct split_at_checked_def [of _ 223] get_range_def
        cong: conj_cong) (auto simp: ct split: if_splits)
  also have "\<dots> \<longleftrightarrow> length signature = 256 \<and> be_nat signature < be_nat modulus \<and> odd (be_nat modulus) \<and>
      (\<exists>salt. length salt = 32 \<and> ?em = pss_encode c message salt)"
    unfolding padding_split [OF db] using enc pss_db [OF len(1), of "mgf1 c h 223"] by (simp add: em) blast
  finally show ?thesis .
qed

lemma be_nat_Cons: "be_nat (b # bs) = unat b * 256 ^ length bs + be_nat bs"
  by (simp add: be_nat_def le_nat_snoc)

lemma be_nat_less: "be_nat bs < 256 ^ length bs"
  using le_nat_less [of "rev bs"] by (simp add: be_nat_def)

lemma top_bit_clear: "x AND 0x80 = 0 \<longleftrightarrow> unat (x :: byte) < 128"
proof -
  have "x AND 0x80 = 0 \<longleftrightarrow> \<not> bit x 7" using bit_iff_and_push_bit_not_eq_0 [of x 7] by (simp add: push_bit_of_1)
  also have "bit x 7 \<longleftrightarrow> bit (unat x) 7" by (simp add: bit_unsigned_iff)
  also have "\<dots> \<longleftrightarrow> odd (unat x div 128)" by (simp add: bit_iff_odd)
  also have "unat x div 128 = (if unat x < 128 then 0 else 1)"
    using unsigned_less [of x] by (auto intro!: div_nat_eqI)
  finally show ?thesis by simp
qed

text \<open>A number whose first bit is clear is below one of the same length whose first bit is set.\<close>

lemma be_nat_top_bit:
  assumes "b AND 0x80 \<noteq> 0" and "length xs = length ys" and "y AND 0x80 = 0"
  shows "be_nat (y # ys) < be_nat (b # xs)"
proof -
  have "be_nat (y # ys) < Suc (unat y) * 256 ^ length ys" using be_nat_less [of ys] by (simp add: be_nat_Cons)
  also have "\<dots> \<le> unat b * 256 ^ length ys" using assms(1,3) by (intro mult_right_mono) (auto simp: top_bit_clear)
  also have "\<dots> \<le> be_nat (b # xs)" by (simp add: be_nat_Cons assms(2))
  finally show ?thesis .
qed

lemma pkcs1_head:
  "3 \<le> n \<Longrightarrow> (replicate n x)[0 := a, 1 := b, n - 1 := z] = [a, b] @ replicate (n - 3) x @ [z]"
  by (rule nth_equalityI) (auto simp: nth_list_update nth_append nth_Cons less_Suc_eq_0_disj split: nat.splits)

lemma public_op_Inr:
  "public_op mont_pow modulus input = Inr out \<longleftrightarrow>
     length modulus \<in> set ATTESTATION_MODULUS_LENS \<and> length input = length modulus \<and> hd modulus AND 0x80 \<noteq> 0 \<and>
     be_nat input < be_nat modulus \<and> odd (be_nat modulus) \<and>
     out = be_bytes (length modulus) (mont_pow (be_nat input) 65537 (be_nat modulus))"
proof -
  have "be_nat EXPONENT = 65537" by (simp add: be_nat_def EXPONENT_def)
  then show ?thesis
    by (cases modulus) (auto simp: public_op_def Let_def bindR_eq_Inr ensure_eq_Inr ATTESTATION_MODULUS_LENS_def)
qed

lemma verify_pkcs1_eq:
  assumes "ct_eq_sound c" and "digests_32 c"
  shows "verify_pkcs1v15_sha256 c mont_pow modulus message signature = Inr () \<longleftrightarrow>
     public_op mont_pow modulus signature = Inr (pkcs1_encode c (length modulus) message)"
proof (cases "public_op mont_pow modulus signature")
  case (Inr out)
  let ?k = "length modulus"
  have k: "?k \<in> {256, 384, 512}" "length signature = ?k" "length out = ?k"
    using Inr by (auto simp: public_op_Inr ATTESTATION_MODULUS_LENS_def)
  have "length SHA256_DIGEST_INFO = 19" by (simp add: SHA256_DIGEST_INFO_def)
  moreover have "length (pkcs1_encode c ?k message) = ?k"
    using k assms(2) calculation by (auto simp: pkcs1_encode_def digests_32_def)
  moreover have "((replicate (?k - 51) 255)[0 := 0, 1 := 1, ?k - 51 - 1 := 0]) @ SHA256_DIGEST_INFO @ sha256_digest c message =
      pkcs1_encode c ?k message"
    using k by (subst pkcs1_head) (auto simp: pkcs1_encode_def)
  ultimately show ?thesis
    using k assms(1) Inr
    by (auto simp: verify_pkcs1v15_sha256_def Let_def HLEN_def ct_eq_sound_def bindR_eq_Inr ensure_eq_Inr split: if_splits)
qed (auto simp: verify_pkcs1v15_sha256_def Let_def bindR_eq_Inr)

lemma oaep_decode_encoded:
  assumes "digests_32 c" and "length seed = 32" and "length db = 32 + length rest" and "db = sha256_digest c label @ rest"
    and "rest = replicate n 0 @ [1] @ message"
  shows "let masked = xor_into db (mgf1 c seed (length db)) in
     oaep_decode c label ([0] @ xor_into seed (mgf1 c masked 32) @ masked) = Some message"
proof -
  have "length (sha256_digest c label) = 32" using assms(1) by (simp add: digests_32_def)
  moreover have "dropWhile (\<lambda>b. b = 0) (replicate n 0 @ [1] @ message) = 1 # message" by (induction n) simp_all
  ultimately show ?thesis
    using assms(2-5) by (simp add: oaep_decode_def Let_def HLEN_def)
qed

lemma encrypt_oaep_eq:
  assumes "digests_32 c" and "length seed = 32" and "length modulus \<in> {256, 384, 512}"
    and "length message \<le> length modulus - 66" and "hd modulus AND 0x80 \<noteq> 0" and "odd (be_nat modulus)"
  shows "\<exists>em. encrypt_oaep_sha256 c mont_pow modulus label message seed =
       Inr (be_bytes (length modulus) (mont_pow (be_nat em) 65537 (be_nat modulus))) \<and>
     length em = length modulus \<and> be_nat em < be_nat modulus \<and> oaep_decode c label em = Some message"
proof -
  let ?k = "length modulus"
  let ?rest = "replicate (?k - 65 - (length message + 1)) 0 @ [1] @ message"
  let ?db = "sha256_digest c label @ ?rest"
  let ?masked = "xor_into ?db (mgf1 c seed (?k - 33))"
  let ?em = "[0] @ xor_into seed (mgf1 c ?masked 32) @ ?masked"
  have k: "?k \<ge> 256" using assms(3) by auto
  have sha: "length (sha256_digest c label) = 32" using assms(1) by (simp add: digests_32_def)
  have len: "length ?db = ?k - 33" using k assms(4) sha by simp
  then have em: "length ?em = ?k" using k assms(2) by simp
  obtain b bs where m: "modulus = b # bs" using k by (cases modulus) auto
  have less: "be_nat ?em < be_nat modulus"
    unfolding append_Cons append_Nil m by (rule be_nat_top_bit) (use assms(5) em m in simp_all)
  have dec: "oaep_decode c label ?em = Some message"
    using oaep_decode_encoded [OF assms(1,2) _ refl refl, where n = "?k - 65 - (length message + 1)" and message = message and label = label] len sha
    by (simp add: Let_def)
  have "encrypt_oaep_sha256 c mont_pow modulus label message seed = oaep_public_op mont_pow ?k modulus ?em"
    using assms(3,4) by (auto simp: encrypt_oaep_sha256_def Let_def ATTESTATION_MODULUS_LENS_def HLEN_def ensure_def)
  also have "\<dots> = Inr (be_bytes ?k (mont_pow (be_nat ?em) 65537 (be_nat modulus)))"
    using em less assms(5,6) by (simp add: oaep_public_op_def Let_def ensure_def m)
  finally show ?thesis using em less dec by blast
qed

section \<open>Properties\<close>

text \<open>
  C8.  The verification of an editor's signature accepts exactly the encodings of RSASSA-PSS.  For an
  array of 256 bytes as modulus and whatever the modular power computes, \<open>verify_pss_sha256\<close> accepts
  exactly when the signature is 256 bytes, read as a number below the odd modulus, and its power
  with exponent 65537 is, byte for byte, the EMSA-PSS encoding of the message under some salt of
  32 bytes.  No other padding, salt length, trailer or mask passes.
\<close>

theorem pss_exact:
  assumes "ct_eq_sound c" and "digests_32 c"
  shows "verify_pss_sha256 c mont_pow modulus message signature = Inr () \<longleftrightarrow>
     length signature = 256 \<and> be_nat signature < be_nat modulus \<and> odd (be_nat modulus) \<and>
     (\<exists>salt. length salt = 32 \<and>
        be_bytes 256 (mont_pow (be_nat signature) 65537 (be_nat modulus)) = pss_encode c message salt)"
  using assms by (rule verify_pss_eq)

definition demo_modulus :: bytes where
  "demo_modulus = 0x80 # replicate 254 0 @ [1]"

lemma demo_modulus_ok: "length demo_modulus = 256" "hd demo_modulus AND 0x80 \<noteq> 0" "odd (be_nat demo_modulus)"
proof -
  have "be_nat (replicate n 0 @ [1]) = 1" for n
    by (induction n) (simp_all add: be_nat_Cons, simp add: be_nat_def)
  then show "odd (be_nat demo_modulus)" by (simp add: demo_modulus_def be_nat_Cons)
qed (simp_all add: demo_modulus_def)

lemma demo_pss_block:
  "length (pss_encode demo_crates m (replicate 32 9)) = 256"
  "be_nat (pss_encode demo_crates m (replicate 32 9)) < be_nat demo_modulus"
  "be_bytes 256 (be_nat (pss_encode demo_crates m (replicate 32 9))) = pss_encode demo_crates m (replicate 32 9)"
proof -
  let ?s = "pss_encode demo_crates m (replicate 32 9)"
  let ?h = "sha256_digest demo_crates (replicate 8 0 @ sha256_digest demo_crates m @ replicate 32 9)"
  let ?x = "xor_into (replicate 190 0 @ [1] @ replicate 32 9) (mgf1 demo_crates ?h 223)"
  have s: "?s = (hd ?x AND 0x7f) # tl ?x @ ?h @ [0xbc]" by (simp add: pss_encode_def Let_def PS_LEN_def DB_LEN_def)
  have h: "length ?h = 32" using demo_crates_laws(3) by (simp add: digests_32_def)
  show len: "length ?s = 256" using h by (simp add: s)
  show "be_nat ?s < be_nat demo_modulus"
    unfolding s demo_modulus_def by (rule be_nat_top_bit) (use h in \<open>simp_all add: and.assoc\<close>)
  show "be_bytes 256 (be_nat ?s) = ?s"
    using len le_bytes_le_nat [of "rev ?s" 256] by (simp add: be_nat_def be_bytes_def)
qed

lemma demo_pss_verifies:
  "verify_pss_sha256 demo_crates (\<lambda>s e n. s) demo_modulus m (pss_encode demo_crates m (replicate 32 9)) = Inr ()"
  unfolding verify_pss_eq [OF demo_crates_laws(1,3)] using demo_pss_block [of m] demo_modulus_ok(3)
  by (intro conjI exI [of _ "replicate 32 9"]) simp_all

theorem pss_exact_witness:
  "verify_pss_sha256 demo_crates (\<lambda>s e n. s) demo_modulus [1, 2, 3] (pss_encode demo_crates [1, 2, 3] (replicate 32 9)) = Inr ()"
  unfolding pss_exact [OF demo_crates_laws(1,3)] using demo_pss_block [of "[1, 2, 3]"] demo_modulus_ok(3)
  by (intro conjI exI [of _ "replicate 32 9"]) simp_all

text \<open>
  The other two RSA operations.  A PKCS 1.5 signature is accepted exactly when the public
  operation succeeds (a modulus of 2048, 3072 or 4096 bits, odd, with its top bit set, the
  signature as long and below it) and gives byte for byte the encoding of the message's digest.
  A message that fits is always encrypted under such a modulus: the padded block is below the
  modulus, so the operation never refuses, and that block decodes under OAEP to the message for
  the same label.
\<close>

theorem pkcs1_and_oaep_exact:
  assumes "ct_eq_sound c" and "digests_32 c"
  shows "(verify_pkcs1v15_sha256 c mont_pow modulus message signature = Inr () \<longleftrightarrow>
      length modulus \<in> {256, 384, 512} \<and> length signature = length modulus \<and> hd modulus AND 0x80 \<noteq> 0 \<and>
      be_nat signature < be_nat modulus \<and> odd (be_nat modulus) \<and>
      be_bytes (length modulus) (mont_pow (be_nat signature) 65537 (be_nat modulus)) = pkcs1_encode c (length modulus) message) \<and>
    (length seed = 32 \<and> length modulus \<in> {256, 384, 512} \<and> length message \<le> length modulus - 66 \<and>
      hd modulus AND 0x80 \<noteq> 0 \<and> odd (be_nat modulus) \<longrightarrow>
      (\<exists>em. encrypt_oaep_sha256 c mont_pow modulus label message seed =
           Inr (be_bytes (length modulus) (mont_pow (be_nat em) 65537 (be_nat modulus))) \<and>
         length em = length modulus \<and> be_nat em < be_nat modulus \<and> oaep_decode c label em = Some message))"
  using encrypt_oaep_eq [OF assms(2), of seed modulus message mont_pow label]
  by (auto simp: verify_pkcs1_eq [OF assms] public_op_Inr ATTESTATION_MODULUS_LENS_def)

theorem pkcs1_and_oaep_exact_witness:
  "\<exists>em. encrypt_oaep_sha256 demo_crates (\<lambda>s e n. s) demo_modulus [7] [1, 2, 3] (replicate 32 5) = Inr (be_bytes 256 (be_nat em)) \<and>
     oaep_decode demo_crates [7] em = Some [1, 2, 3]"
  using pkcs1_and_oaep_exact [OF demo_crates_laws(1,3), of "\<lambda>s e n. s" demo_modulus "[1, 2, 3]" "[]" "replicate 32 5" "[7]"]
    demo_modulus_ok by auto

text \<open>
  The derived TPM keys have their lengths: a storage key of sixteen bytes, an integrity tag of
  thirty-two, both from a single block of the derivation.
\<close>

lemma length_kdfa_from: "hmac_total c \<Longrightarrow> length (kdfa_from c key label u v bits counter n) = n"
proof (induction c key label u v bits counter n rule: kdfa_from.induct)
  case (1 c key label u v bits counter n)
  have "length (kdfa_block c key label u v bits counter m) = m" for m
    by (auto simp: kdfa_block_def get_range_def split: option.splits)
  then show ?case using 1 by (subst kdfa_from.simps) auto
qed

theorem tpm_keys_one_block:
  assumes "hmac_total c"
  shows "storage_key c seed name = take 16 (the (hmac_sha256 c seed (be_bytes 4 1 @ TPM_STORAGE @ name @ be_bytes 4 128))) \<and>
     length (storage_key c seed name) = 16 \<and> length (integrity_tag c seed identity name) = 32"
proof -
  obtain t where t: "hmac_sha256 c seed (be_bytes 4 1 @ TPM_STORAGE @ name @ be_bytes 4 128) = Some t" "length t = 32"
    using assms unfolding hmac_total_def by blast
  have "storage_key c seed name = take 16 t"
    using t by (simp add: storage_key_def kdfa_def STORAGE_KEY_LEN_def kdfa_block_def get_range_def, subst kdfa_from.simps,
        simp add: kdfa_block_def get_range_def, subst kdfa_from.simps, simp)
  moreover have "length (integrity_tag c seed identity name) = 32"
    using assms unfolding integrity_tag_def hmac_total_def Let_def by (metis option.simps(5))
  ultimately show ?thesis using t by simp
qed

end
