(* ===== verification/OC_Edit.thy ===== *)
theory OC_Edit
  imports OC_Rsa OC_Header_Valid OC_Document
begin

text \<open>
  Editing (\<^verbatim>\<open>oc-format/src/edit.rs\<close> and \<^verbatim>\<open>oc-engine/src/edit.rs\<close>): certificates of editors' keys, the
  message an editor signs, the check of an edition, claims of editions, and the two halves of
  writing one, \<open>edit_prepare\<close> before the signature and \<open>edit_finish\<close> after it.
\<close>

section \<open>Data\<close>

abbreviation (input) CERT_T_VERSION :: u16 where "CERT_T_VERSION \<equiv> 1"
abbreviation (input) CERT_T_FILE_ID :: u16 where "CERT_T_FILE_ID \<equiv> 2"
abbreviation (input) CERT_T_DEVICE :: u16 where "CERT_T_DEVICE \<equiv> 3"
abbreviation (input) CERT_T_EDITOR_KEY :: u16 where "CERT_T_EDITOR_KEY \<equiv> 4"
abbreviation (input) CERT_T_NOT_AFTER :: u16 where "CERT_T_NOT_AFTER \<equiv> 5"
abbreviation (input) CERT_T_ISSUER :: u16 where "CERT_T_ISSUER \<equiv> 6"
abbreviation (input) CERT_T_SIGNATURE :: u16 where "CERT_T_SIGNATURE \<equiv> 7"

definition CERT_VERSION :: byte where "CERT_VERSION = 1"

record EditorCert =
  ec_file_id :: bytes
  ec_device :: bytes
  ec_editor_key :: bytes
  ec_not_after :: i64
  ec_issuer :: bytes
  ec_signature :: bytes

datatype EditError =
    EditFormat FormatError
  | EditorOnUnedited
  | UnsignedEdit u64
  | VersionTooOld u16 u64
  | EditNotAllowed
  | ForeignIssuer
  | BadCertificate
  | CertificateForOtherFile
  | CertificateExpired i64
  | BadEditorSignature
  | CounterExhausted

section \<open>Certificates\<close>

definition cert_signed_body :: "EditorCert \<Rightarrow> FormatError + bytes" where
  "cert_signed_body cert =
     bindR (put_all
       [(CERT_T_VERSION, [CERT_VERSION]),
        (CERT_T_FILE_ID, ec_file_id cert),
        (CERT_T_DEVICE, ec_device cert),
        (CERT_T_EDITOR_KEY, ec_editor_key cert),
        (CERT_T_NOT_AFTER, le64 (ec_not_after cert)),
        (CERT_T_ISSUER, ec_issuer cert)] writer_new) (\<lambda>w.
     Inr (finish w))"

definition cert_transcript :: "bytes \<Rightarrow> Transcript" where
  "cert_transcript signed_body = tr_field signed_body (transcript_new EDITOR_CERT)"

definition cert_encode :: "EditorCert \<Rightarrow> FormatError + bytes" where
  "cert_encode cert =
     bindR (cert_signed_body cert) (\<lambda>body.
     bindR (put CERT_T_SIGNATURE (ec_signature cert) writer_new) (\<lambda>w.
     Inr (body @ finish w)))"

definition cert_issue :: "Signer \<Rightarrow> bytes \<Rightarrow> bytes \<Rightarrow> bytes \<Rightarrow> i64 \<Rightarrow> FormatError + bytes" where
  "cert_issue signer file_id device editor_key not_after =
     (let cert = \<lparr>ec_file_id = file_id, ec_device = device, ec_editor_key = editor_key, ec_not_after = not_after,
                  ec_issuer = sg_public_key signer, ec_signature = replicate 64 0\<rparr> in
      bindR (cert_signed_body cert) (\<lambda>body.
      bindR (map_err BadHeaderSignature (sg_sign signer (cert_transcript body))) (\<lambda>signature.
      cert_encode (cert\<lparr>ec_signature := signature\<rparr>))))"

record CertDecoder =
  cdr_version :: "byte option"
  cdr_file_id :: "bytes option"
  cdr_device :: "bytes option"
  cdr_editor_key :: "bytes option"
  cdr_not_after :: "i64 option"
  cdr_issuer :: "bytes option"
  cdr_signature :: "bytes option"
  cdr_signed :: bytes

definition cert_decode_start :: CertDecoder where
  "cert_decode_start =
     \<lparr>cdr_version = None, cdr_file_id = None, cdr_device = None, cdr_editor_key = None, cdr_not_after = None,
      cdr_issuer = None, cdr_signature = None, cdr_signed = []\<rparr>"

definition cert_match :: "Field \<Rightarrow> CertDecoder \<Rightarrow> FormatError + CertDecoder" where
  "cert_match field d =
     (let tag = fld_tag field in
      if tag = CERT_T_VERSION then bindR (field_u8 field) (\<lambda>v. Inr (d\<lparr>cdr_version := Some v\<rparr>))
      else if tag = CERT_T_FILE_ID then bindR (field_array 16 field) (\<lambda>v. Inr (d\<lparr>cdr_file_id := Some v\<rparr>))
      else if tag = CERT_T_DEVICE then bindR (field_array 32 field) (\<lambda>v. Inr (d\<lparr>cdr_device := Some v\<rparr>))
      else if tag = CERT_T_EDITOR_KEY then bindR (field_array MODULUS_LEN field) (\<lambda>v. Inr (d\<lparr>cdr_editor_key := Some v\<rparr>))
      else if tag = CERT_T_NOT_AFTER then bindR (field_array 8 field) (\<lambda>v. Inr (d\<lparr>cdr_not_after := Some (of_le v)\<rparr>))
      else if tag = CERT_T_ISSUER then bindR (field_array 32 field) (\<lambda>v. Inr (d\<lparr>cdr_issuer := Some v\<rparr>))
      else case unknown_tag_action tag of
          Refuse \<Rightarrow> Inl (UnknownCriticalField tag)
        | Ignore \<Rightarrow> Inr d)"

definition cert_body :: "bytes \<Rightarrow> Field \<Rightarrow> CertDecoder \<Rightarrow> FormatError + CertDecoder" where
  "cert_body bs field d =
     bindR (ok_or OffsetOverflow
       (if FIELD_PREFIX_LEN \<le> fld_start field then Some (fld_start field - FIELD_PREFIX_LEN) else None)) (\<lambda>start.
     bindR (ok_or OffsetOverflow (get_range bs start (fld_end field))) (\<lambda>rec.
     if fld_tag field = CERT_T_SIGNATURE then
       bindR (field_array 64 field) (\<lambda>v. Inr (d\<lparr>cdr_signature := Some v\<rparr>))
     else cert_match field (d\<lparr>cdr_signed := cdr_signed d @ rec\<rparr>)))"

definition cert_finish :: "CertDecoder \<Rightarrow> FormatError + (EditorCert \<times> bytes)" where
  "cert_finish d =
     bindR (ok_or (MissingField CERT_T_VERSION) (cdr_version d)) (\<lambda>version.
     bindR (ensure (\<not> version \<noteq> CERT_VERSION) (BadFieldLength CERT_T_VERSION (unat version))) (\<lambda>_.
     bindR (ok_or (MissingField CERT_T_FILE_ID) (cdr_file_id d)) (\<lambda>file_id.
     bindR (ok_or (MissingField CERT_T_DEVICE) (cdr_device d)) (\<lambda>device.
     bindR (ok_or (MissingField CERT_T_EDITOR_KEY) (cdr_editor_key d)) (\<lambda>editor_key.
     bindR (ok_or (MissingField CERT_T_NOT_AFTER) (cdr_not_after d)) (\<lambda>not_after.
     bindR (ok_or (MissingField CERT_T_ISSUER) (cdr_issuer d)) (\<lambda>issuer.
     bindR (ok_or (MissingField CERT_T_SIGNATURE) (cdr_signature d)) (\<lambda>signature.
     Inr (\<lparr>ec_file_id = file_id, ec_device = device, ec_editor_key = editor_key, ec_not_after = not_after,
           ec_issuer = issuer, ec_signature = signature\<rparr>, cdr_signed d)))))))))"

definition cert_decode :: "bytes \<Rightarrow> FormatError + (EditorCert \<times> bytes)" where
  "cert_decode bs = bindR (tlv_loop (cert_body bs) (reader_new bs) cert_decode_start) cert_finish"

definition cert_verify_for :: "Crates \<Rightarrow> bytes \<Rightarrow> Header \<Rightarrow> i64 option \<Rightarrow> EditError + EditorCert" where
  "cert_verify_for c bs header now =
     bindR (map_sum EditFormat id (cert_decode bs)) (\<lambda>(cert, signed).
     bindR (ensure (ec_issuer cert = hd_author_key header \<or>
         (case hd_coauthors header of Some co \<Rightarrow> ec_issuer cert \<in> set (co_keys co) | None \<Rightarrow> False)) ForeignIssuer) (\<lambda>_.
     bindR (map_err BadCertificate (sign_verify c (ec_issuer cert) (cert_transcript signed) (ec_signature cert))) (\<lambda>_.
     bindR (ensure (\<not> ec_file_id cert \<noteq> hd_file_id header) CertificateForOtherFile) (\<lambda>_.
     bindR (ensure (\<not> (case now of Some now \<Rightarrow> sint now > sint (ec_not_after cert) | None \<Rightarrow> False))
         (CertificateExpired (ec_not_after cert))) (\<lambda>_.
     Inr cert)))))"

section \<open>The message of an editor\<close>

text \<open>A reader loop that passes over fields until the first with a given tag.\<close>

function tlv_find :: "u16 \<Rightarrow> TlvReader \<Rightarrow> FormatError + Field option" where
  "tlv_find t r =
     (case next_field r of
        Inl e \<Rightarrow> Inl e
      | Inr (None, _) \<Rightarrow> Inr None
      | Inr (Some f, r') \<Rightarrow> if fld_tag f \<noteq> t then tlv_find t r' else Inr (Some f))"
  by pat_completeness auto
termination
  by (relation "measure (\<lambda>(t, r). length (rd_buf r) - rd_pos r)") (auto intro: next_field_decreases)

declare tlv_find.simps [simp del]

definition body_without_signature :: "bytes \<Rightarrow> FormatError + bytes" where
  "body_without_signature body =
     bindR (tlv_find CD_EDITOR (reader_new body)) (\<lambda>found.
     case found of
       None \<Rightarrow> Inl (MissingField CD_EDITOR)
     | Some field \<Rightarrow>
         bindR (tlv_find ED_SIGNATURE (reader_new (fld_value field))) (\<lambda>found.
         case found of
           None \<Rightarrow> Inl (MissingField ED_SIGNATURE)
         | Some sub \<Rightarrow>
             (let base = fld_start field in
              bindR (ok_or OffsetOverflow (Option.bind (checked_add_usize base (fld_start sub))
                (\<lambda>v. if FIELD_PREFIX_LEN \<le> v then Some (v - FIELD_PREFIX_LEN) else None))) (\<lambda>cut_start.
              bindR (ok_or OffsetOverflow (checked_add_usize base (fld_end sub))) (\<lambda>cut_end.
              bindR (ok_or OffsetOverflow (get_range body 0 cut_start)) (\<lambda>front.
              bindR (ok_or OffsetOverflow (get_range body cut_end (length body))) (\<lambda>back.
              Inr (front @ back))))))))"

definition editor_transcript :: "bytes \<Rightarrow> bytes \<Rightarrow> FormatError + Transcript" where
  "editor_transcript core body =
     bindR (body_without_signature body) (\<lambda>cut.
     Inr (tr_field cut (tr_fixed core (transcript_new EDITOR_SIG))))"

definition edition_digest :: "Crates \<Rightarrow> Transcript \<Rightarrow> bytes" where
  "edition_digest c transcript = sha256_digest c (tr_buf transcript)"

definition session_start :: "Crates \<Rightarrow> bytes \<Rightarrow> u64 \<Rightarrow> bytes \<Rightarrow> bytes" where
  "session_start c file_id base_counter base_root =
     sha256_digest c (tr_buf (tr_fixed base_root (tr_u64be base_counter (tr_fixed file_id (transcript_new EDIT_SESSION)))))"

definition session_step :: "Crates \<Rightarrow> bytes \<Rightarrow> u64 \<Rightarrow> bytes \<Rightarrow> u64 \<Rightarrow> bytes" where
  "session_step c prev save tree_root total_len =
     sha256_digest c (tr_buf (tr_u64be total_len (tr_fixed tree_root (tr_u64be save (tr_fixed prev (transcript_new EDIT_SESSION))))))"

section \<open>Editions\<close>

record VerifiedEdition =
  ve_counter :: u64
  ve_digest :: bytes
  ve_cert :: EditorCert
  ve_session_head :: bytes

definition verify_edition ::
    "Crates \<Rightarrow> (nat \<Rightarrow> nat \<Rightarrow> nat \<Rightarrow> nat) \<Rightarrow> Header \<Rightarrow> bytes \<Rightarrow> ContentDesc \<Rightarrow> bytes \<Rightarrow> i64 option \<Rightarrow>
     EditError + VerifiedEdition option" where
  "verify_edition c mont_pow header core desc body now =
     (case cd_editor desc of
        None \<Rightarrow>
          (if cd_version_counter desc = 0 then Inr None
           else if hd_container_version header < FIRST_EDITING_VERSION
           then Inl (VersionTooOld (hd_container_version header) (cd_version_counter desc))
           else Inl (UnsignedEdit (cd_version_counter desc)))
      | Some editor \<Rightarrow>
          bindR (ensure (\<not> cd_version_counter desc = 0) EditorOnUnedited) (\<lambda>_.
          bindR (ensure (\<not> hd_container_version header < FIRST_EDITING_VERSION)
            (VersionTooOld (hd_container_version header) (cd_version_counter desc))) (\<lambda>_.
          bindR (ensure (pol_actions (hd_policy header) Edit \<noteq> None) EditNotAllowed) (\<lambda>_.
          bindR (cert_verify_for c (ed_certified_by editor) header now) (\<lambda>cert.
          bindR (map_sum EditFormat id (editor_transcript core body)) (\<lambda>transcript.
          bindR (map_err BadEditorSignature
            (verify_pss_sha256 c mont_pow (ec_editor_key cert) (tr_buf transcript) (ed_signature editor))) (\<lambda>_.
          Inr (Some \<lparr>ve_counter = cd_version_counter desc, ve_digest = edition_digest c transcript, ve_cert = cert,
            ve_session_head = ed_session_head editor\<rparr>))))))))"

definition unsigned_editor :: "bytes \<Rightarrow> JournalHead option \<Rightarrow> bytes \<Rightarrow> EditorSignature" where
  "unsigned_editor session_head journal_head certified_by =
     \<lparr>ed_sig_alg = RsaPssSha256, ed_session_head = session_head, ed_journal_head = journal_head,
      ed_certified_by = certified_by, ed_signature = replicate MODULUS_LEN 0\<rparr>"

definition next_counter :: "u64 \<Rightarrow> EditError + u64" where
  "next_counter base = ok_or CounterExhausted (checked_add base 1)"

section \<open>Claims of editions\<close>

abbreviation (input) CLAIM_T_FILE_ID :: u16 where "CLAIM_T_FILE_ID \<equiv> 1"
abbreviation (input) CLAIM_T_COUNTER :: u16 where "CLAIM_T_COUNTER \<equiv> 2"
abbreviation (input) CLAIM_T_BASE_DIGEST :: u16 where "CLAIM_T_BASE_DIGEST \<equiv> 3"
abbreviation (input) CLAIM_T_DIGEST :: u16 where "CLAIM_T_DIGEST \<equiv> 4"
abbreviation (input) CLAIM_T_SESSION_HEAD :: u16 where "CLAIM_T_SESSION_HEAD \<equiv> 5"
abbreviation (input) CLAIM_T_CERTIFIED_BY :: u16 where "CLAIM_T_CERTIFIED_BY \<equiv> 6"
abbreviation (input) CLAIM_T_AT :: u16 where "CLAIM_T_AT \<equiv> 7"
abbreviation (input) CLAIM_T_SIGNATURE :: u16 where "CLAIM_T_SIGNATURE \<equiv> 8"

record EditionClaimDoc =
  cl_file_id :: bytes
  cl_counter :: u64
  cl_base_digest :: bytes
  cl_digest :: bytes
  cl_session_head :: bytes
  cl_certified_by :: bytes
  cl_at :: i64

definition claim_body :: "EditionClaimDoc \<Rightarrow> FormatError + bytes" where
  "claim_body doc =
     bindR (put_all
       [(CLAIM_T_FILE_ID, cl_file_id doc),
        (CLAIM_T_COUNTER, le64 (cl_counter doc)),
        (CLAIM_T_BASE_DIGEST, cl_base_digest doc),
        (CLAIM_T_DIGEST, cl_digest doc),
        (CLAIM_T_SESSION_HEAD, cl_session_head doc),
        (CLAIM_T_CERTIFIED_BY, cl_certified_by doc),
        (CLAIM_T_AT, le64 (cl_at doc))] writer_new) (\<lambda>w.
     Inr (finish w))"

definition claim_transcript :: "EditionClaimDoc \<Rightarrow> FormatError + Transcript" where
  "claim_transcript doc = bindR (claim_body doc) (\<lambda>body. Inr (tr_field body (transcript_new EDITION_CLAIM)))"

definition claim_encode :: "EditionClaimDoc \<Rightarrow> bytes \<Rightarrow> FormatError + bytes" where
  "claim_encode doc signature =
     bindR (claim_body doc) (\<lambda>out.
     bindR (put CLAIM_T_SIGNATURE signature writer_new) (\<lambda>w.
     Inr (out @ finish w)))"

record ClaimDecoder =
  cld_file_id :: "bytes option"
  cld_counter :: "u64 option"
  cld_base_digest :: "bytes option"
  cld_digest :: "bytes option"
  cld_session_head :: "bytes option"
  cld_certified_by :: "bytes option"
  cld_at :: "i64 option"
  cld_signature :: "bytes option"

definition claim_decode_start :: ClaimDecoder where
  "claim_decode_start =
     \<lparr>cld_file_id = None, cld_counter = None, cld_base_digest = None, cld_digest = None, cld_session_head = None,
      cld_certified_by = None, cld_at = None, cld_signature = None\<rparr>"

definition claim_step :: "Field \<Rightarrow> ClaimDecoder \<Rightarrow> FormatError + ClaimDecoder" where
  "claim_step field d =
     (let tag = fld_tag field in
      if tag = CLAIM_T_FILE_ID then bindR (field_array 16 field) (\<lambda>v. Inr (d\<lparr>cld_file_id := Some v\<rparr>))
      else if tag = CLAIM_T_COUNTER then bindR (field_u64 field) (\<lambda>v. Inr (d\<lparr>cld_counter := Some v\<rparr>))
      else if tag = CLAIM_T_BASE_DIGEST then bindR (field_array 32 field) (\<lambda>v. Inr (d\<lparr>cld_base_digest := Some v\<rparr>))
      else if tag = CLAIM_T_DIGEST then bindR (field_array 32 field) (\<lambda>v. Inr (d\<lparr>cld_digest := Some v\<rparr>))
      else if tag = CLAIM_T_SESSION_HEAD then bindR (field_array 32 field) (\<lambda>v. Inr (d\<lparr>cld_session_head := Some v\<rparr>))
      else if tag = CLAIM_T_CERTIFIED_BY then
        bindR (ensure (\<not> length (fld_value field) > MAX_CERTIFIED_BY_LEN)
          (BadFieldLength tag (length (fld_value field)))) (\<lambda>_.
        Inr (d\<lparr>cld_certified_by := Some (fld_value field)\<rparr>))
      else if tag = CLAIM_T_AT then bindR (field_array 8 field) (\<lambda>v. Inr (d\<lparr>cld_at := Some (of_le v)\<rparr>))
      else if tag = CLAIM_T_SIGNATURE then bindR (field_array MODULUS_LEN field) (\<lambda>v. Inr (d\<lparr>cld_signature := Some v\<rparr>))
      else case unknown_tag_action tag of
          Refuse \<Rightarrow> Inl (UnknownCriticalField tag)
        | Ignore \<Rightarrow> Inr d)"

definition claim_finish :: "ClaimDecoder \<Rightarrow> FormatError + (EditionClaimDoc \<times> bytes)" where
  "claim_finish d =
     bindR (ok_or (MissingField CLAIM_T_FILE_ID) (cld_file_id d)) (\<lambda>file_id.
     bindR (ok_or (MissingField CLAIM_T_COUNTER) (cld_counter d)) (\<lambda>counter.
     bindR (ok_or (MissingField CLAIM_T_BASE_DIGEST) (cld_base_digest d)) (\<lambda>base_digest.
     bindR (ok_or (MissingField CLAIM_T_DIGEST) (cld_digest d)) (\<lambda>digest.
     bindR (ok_or (MissingField CLAIM_T_SESSION_HEAD) (cld_session_head d)) (\<lambda>session_head.
     bindR (ok_or (MissingField CLAIM_T_CERTIFIED_BY) (cld_certified_by d)) (\<lambda>certified_by.
     bindR (ok_or (MissingField CLAIM_T_AT) (cld_at d)) (\<lambda>at.
     bindR (ok_or (MissingField CLAIM_T_SIGNATURE) (cld_signature d)) (\<lambda>signature.
     Inr (\<lparr>cl_file_id = file_id, cl_counter = counter, cl_base_digest = base_digest, cl_digest = digest,
           cl_session_head = session_head, cl_certified_by = certified_by, cl_at = at\<rparr>, signature)))))))))"

definition claim_verify ::
    "Crates \<Rightarrow> (nat \<Rightarrow> nat \<Rightarrow> nat \<Rightarrow> nat) \<Rightarrow> bytes \<Rightarrow> bytes \<Rightarrow> bytes list \<Rightarrow> i64 \<Rightarrow>
     EditError + (EditionClaimDoc \<times> EditorCert)" where
  "claim_verify c mont_pow bs author coauthors now =
     bindR (map_sum EditFormat id (bindR (tlv_loop claim_step (reader_new bs) claim_decode_start) claim_finish)) (\<lambda>(doc, signature).
     bindR (ensure (\<not> cl_counter doc = 0) (UnsignedEdit 0)) (\<lambda>_.
     bindR (map_sum EditFormat id (cert_decode (cl_certified_by doc))) (\<lambda>(cert, signed).
     bindR (ensure (\<not> (ec_issuer cert \<noteq> author \<and> ec_issuer cert \<notin> set coauthors)) ForeignIssuer) (\<lambda>_.
     bindR (map_err BadCertificate (sign_verify c (ec_issuer cert) (cert_transcript signed) (ec_signature cert))) (\<lambda>_.
     bindR (ensure (\<not> ec_file_id cert \<noteq> cl_file_id doc) CertificateForOtherFile) (\<lambda>_.
     bindR (ensure (\<not> sint now > sint (ec_not_after cert)) (CertificateExpired (ec_not_after cert))) (\<lambda>_.
     bindR (map_sum EditFormat id (claim_transcript doc)) (\<lambda>transcript.
     bindR (map_err BadEditorSignature (verify_pss_sha256 c mont_pow (ec_editor_key cert) (tr_buf transcript) signature)) (\<lambda>_.
     Inr (doc, cert))))))))))"

section \<open>Writing an edition\<close>

datatype Piece = Keep bytes | Seal bytes bytes

record EditPlan =
  ep_file_id :: bytes
  ep_aead :: AeadAlg
  ep_chunk_size :: u32
  ep_container_version :: u16
  ep_core_hash :: bytes
  ep_base_counter :: u64
  ep_base_root :: bytes
  ep_certified_by :: bytes
  ep_journal_head :: "JournalHead option"
  ep_pieces :: "Piece list"

record Unsigned =
  un_desc :: ContentDesc
  un_transcript :: Transcript
  un_digest :: bytes
  un_payload :: bytes

datatype EditWriteError =
    WriteFormat FormatError
  | WriteCrypto CryptoError
  | WriteEdit EditError
  | BadFrame u32
  | BadLayout u32

text \<open>\<^verbatim>\<open>split_first_chunk::<N>\<close>.\<close>

definition split_first_chunk :: "nat \<Rightarrow> bytes \<Rightarrow> (bytes \<times> bytes) option" where
  "split_first_chunk n bs = (if n \<le> length bs then Some (take n bs, drop n bs) else None)"

text \<open>One piece: the leaf it contributes, the bytes of its frame and the length of its plaintext.\<close>

definition edit_piece :: "Crates \<Rightarrow> bytes \<Rightarrow> EditPlan \<Rightarrow> u32 \<Rightarrow> Piece \<Rightarrow> EditWriteError + (Leaf \<times> bytes \<times> nat)" where
  "edit_piece c key plan index piece =
     (case piece of
        Keep frame \<Rightarrow>
          bindR (ok_or (BadFrame index) (split_first_chunk AEAD_NONCE_LEN frame)) (\<lambda>(nonce, rest).
          bindR (ok_or (BadFrame index) (split_last_chunk AEAD_TAG_LEN rest)) (\<lambda>(ct, tag).
          Inr (leaf_of c index nonce tag ct, frame, length ct)))
      | Seal plaintext seed \<Rightarrow>
          bindR (map_sum WriteCrypto id (seal_chunk_hedged c key (ep_aead plan) (ep_file_id plan) index seed plaintext))
            (\<lambda>(nonce, leaf, framed). Inr (leaf, nonce @ framed, length plaintext)))"

text \<open>The loop over the pieces with their positions; \<open>total_len\<close> is the running length.\<close>

fun edit_loop ::
    "Crates \<Rightarrow> bytes \<Rightarrow> EditPlan \<Rightarrow> nat \<Rightarrow> nat \<Rightarrow> Piece list \<Rightarrow> Leaf list \<Rightarrow> bytes \<Rightarrow> u64 \<Rightarrow>
     EditWriteError + (Leaf list \<times> bytes \<times> u64)" where
  "edit_loop c key plan count position [] leaves payload total_len = Inr (leaves, payload, total_len)"
| "edit_loop c key plan count position (piece # rest) leaves payload total_len =
     bindR (ok_or (WriteFormat OffsetOverflow) (u32_of_usize position)) (\<lambda>index.
     bindR (edit_piece c key plan index piece) (\<lambda>(leaf, frame, len).
     let is_last = (position + 1 = count); chunk = unat (ep_chunk_size plan) in
     bindR (ensure (\<not> (\<not> is_last \<and> len \<noteq> chunk \<or> len > chunk)) (BadLayout index)) (\<lambda>_.
     bindR (ok_or (WriteFormat OffsetOverflow) (checked_add total_len (word_of_nat len))) (\<lambda>total_len.
     edit_loop c key plan count (position + 1) rest (leaves @ [leaf]) (payload @ frame) total_len))))"

definition edit_prepare :: "Crates \<Rightarrow> bytes \<Rightarrow> EditPlan \<Rightarrow> EditWriteError + Unsigned" where
  "edit_prepare c key plan =
     (let count = length (ep_pieces plan) in
      bindR (ensure (\<not> count = 0) (BadLayout 0)) (\<lambda>_.
      bindR (edit_loop c key plan count 0 (ep_pieces plan) [] [] 0) (\<lambda>(leaves, payload, total_len).
      bindR (map_sum WriteCrypto id (build c leaves)) (\<lambda>tree.
      let tree_root = root c tree in
      bindR (map_sum WriteEdit id (next_counter (ep_base_counter plan))) (\<lambda>counter.
      let head = session_step c (session_start c (ep_file_id plan) (ep_base_counter plan) (ep_base_root plan)) 1 tree_root total_len in
      bindR (ok_or (WriteFormat OffsetOverflow) (u32_of_usize count)) (\<lambda>chunk_count.
      let desc = \<lparr>cd_total_len = total_len, cd_chunk_count = chunk_count, cd_tree_root = tree_root,
            cd_version_counter = counter, cd_footer_offset = None,
            cd_editor = Some (unsigned_editor head (ep_journal_head plan) (ep_certified_by plan))\<rparr> in
      bindR (map_sum WriteFormat id (check_against_chunk_size (ep_chunk_size plan) desc)) (\<lambda>_.
      bindR (map_sum WriteFormat id (body_bytes (ep_container_version plan) desc)) (\<lambda>body.
      bindR (map_sum WriteFormat id (editor_transcript (ep_core_hash plan) body)) (\<lambda>transcript.
      Inr \<lparr>un_desc = desc, un_transcript = transcript, un_digest = edition_digest c transcript,
           un_payload = payload\<rparr>)))))))))"

definition edit_finish ::
    "Crates \<Rightarrow> Unsigned \<Rightarrow> bytes \<Rightarrow> bytes \<Rightarrow> bytes \<Rightarrow> u16 \<Rightarrow> EditWriteError + (ContentDesc \<times> bytes \<times> bytes)" where
  "edit_finish c draft signature mac_key file_id container_version =
     (let desc = un_desc draft;
          desc = desc\<lparr>cd_editor := map_option (\<lambda>editor. editor\<lparr>ed_signature := signature\<rparr>) (cd_editor desc)\<rparr> in
      bindR (map_sum WriteFormat id (content_encode c mac_key file_id container_version desc)) (\<lambda>area.
      Inr (desc, area, un_payload draft)))"

section \<open>Finding a field\<close>

lemma tlv_find_at:
  assumes "rd_buf r = front @ enc_fields pre @ enc_field (t, v) @ post" and "rd_pos r = length front"
    and "ascending (rd_last_tag r) (pre @ [(t, v)])" and "length (rd_buf r) < usize_limit"
  shows "tlv_find t r = Inr (Some \<lparr>fld_tag = t, fld_value = v, fld_start = length front + length (enc_fields pre) + 6,
     fld_end = length front + length (enc_fields pre) + 6 + length v\<rparr>)"
  using assms
proof (induction pre arbitrary: front r)
  case Nil
  then show ?case using next_field_enc [of r front t v post] by (subst tlv_find.simps) simp
next
  case (Cons p pre)
  obtain u w where p: "p = (u, w)" by (cases p)
  have "u \<noteq> t" using Cons.prems(3) ascending_distinct [OF Cons.prems(3)] by (auto simp: p)
  have nf: "next_field r = Inr (Some \<lparr>fld_tag = u, fld_value = w, fld_start = length front + 6, fld_end = length front + 6 + length w\<rparr>,
         r\<lparr>rd_last_tag := Some u, rd_pos := length front + 6 + length w\<rparr>)"
    using Cons.prems by (intro next_field_enc [of r front u w "enc_fields pre @ enc_field (t, v) @ post"]) (auto simp: p)
  have "tlv_find t (r\<lparr>rd_last_tag := Some u, rd_pos := length front + 6 + length w\<rparr>) =
      Inr (Some \<lparr>fld_tag = t, fld_value = v, fld_start = length (front @ enc_field p) + length (enc_fields pre) + 6,
        fld_end = length (front @ enc_field p) + length (enc_fields pre) + 6 + length v\<rparr>)"
    using Cons.prems by (intro Cons.IH) (auto simp: p)
  with \<open>u \<noteq> t\<close> show ?case by (subst tlv_find.simps) (simp add: nf p add.assoc)
qed

lemma tlv_find_enc:
  assumes "ascending None (pre @ (t, v) # post)" and "length (enc_fields (pre @ (t, v) # post)) < usize_limit"
  shows "tlv_find t (reader_new (enc_fields (pre @ (t, v) # post))) =
     Inr (Some \<lparr>fld_tag = t, fld_value = v, fld_start = length (enc_fields pre) + 6, fld_end = length (enc_fields pre) + 6 + length v\<rparr>)"
proof -
  have "ascending prior (xs @ ys) \<Longrightarrow> ascending prior xs" for prior and xs ys :: "(u16 \<times> bytes) list"
    by (induction prior xs rule: ascending.induct) auto
  from this [of None "pre @ [(t, v)]" post] assms show ?thesis
    using tlv_find_at [of "reader_new (enc_fields (pre @ (t, v) # post))" "[]" pre t v "enc_fields post"]
    by (simp add: reader_new_def)
qed

text \<open>The message of an editor: the body as it stands, less the record of the signature.\<close>

lemma body_cut:
  assumes "ascending None (pre @ (CD_EDITOR, ev) # post)" and "ev = enc_fields (gp @ (ED_SIGNATURE, sg) # gq)"
    and "ascending None (gp @ (ED_SIGNATURE, sg) # gq)"
    and "length (enc_fields (pre @ (CD_EDITOR, ev) # post)) < usize_limit"
  shows "body_without_signature (enc_fields (pre @ (CD_EDITOR, ev) # post)) =
     Inr (enc_fields pre @ le16 CD_EDITOR @ le_bytes 4 (length ev) @ enc_fields gp @ enc_fields gq @ enc_fields post)"
proof -
  define body where "body = enc_fields (pre @ (CD_EDITOR, ev) # post)"
  define front where "front = enc_fields pre @ le16 CD_EDITOR @ le_bytes 4 (length ev) @ enc_fields gp"
  define rear where "rear = enc_fields gq @ enc_fields post"
  have split: "body = front @ enc_field (ED_SIGNATURE, sg) @ rear"
    by (simp add: body_def front_def rear_def enc_field_def [of "(CD_EDITOR, ev)"]) (simp add: assms(2))
  have len: "length front = length (enc_fields pre) + 6 + length (enc_fields gp)" by (simp add: front_def)
  have small: "length body < usize_limit" "length (enc_fields (gp @ (ED_SIGNATURE, sg) # gq)) < usize_limit"
    using assms(4) by (simp_all add: assms(2) body_def)
  note outer = tlv_find_enc [OF assms(1,4), folded body_def] and inner = tlv_find_enc [OF assms(3) small(2), folded assms(2)]
  have "get_range body 0 (length front) = Some front" "get_range body (length front + 6 + length sg) (length body) = Some rear"
    unfolding split by (simp_all add: get_range_def)
  moreover have "length front + 6 + length sg < usize_limit" using small(1) by (simp add: split)
  ultimately have "body_without_signature body = Inr (front @ rear)"
    by (simp add: body_without_signature_def outer inner checked_add_usize_def FIELD_PREFIX_LEN_def Let_def len ac_simps)
  then show ?thesis by (simp add: body_def front_def rear_def)
qed

section \<open>The message determines the description\<close>

lemma foldR_commute:
  assumes "\<And>x s. x \<in> set xs \<Longrightarrow> F x (u s) = map_sum id u (F x s)"
  shows "foldR F xs (u s) = map_sum id u (foldR F xs s)"
  using assms
proof (induction xs arbitrary: s)
  case (Cons x xs)
  then show ?case by (cases "F x s") simp_all
qed simp

lemma editor_body_commutes:
  "fld_tag f \<noteq> ED_SIGNATURE \<Longrightarrow>
     editor_body f (d\<lparr>edd_signature := x\<rparr>) = map_sum id (\<lambda>d. d\<lparr>edd_signature := x\<rparr>) (editor_body f d)"
  by (auto simp: editor_body_def Let_def bindR_def ensure_def split: sum.splits UnknownTag.splits)

lemma content_body_commutes:
  "fld_tag f \<noteq> CD_EDITOR \<Longrightarrow>
     content_body v f (d\<lparr>cdd_editor := x\<rparr>) = map_sum id (\<lambda>d. d\<lparr>cdd_editor := x\<rparr>) (content_body v f d)"
  by (auto simp: content_body_def Let_def bindR_def split: sum.splits UnknownTag.splits)

lemma fold_split:
  assumes "foldR F (fields_at 0 (pre @ (t, v) # post)) s = Inr d"
  obtains s1 s2 f where "foldR F (fields_at 0 pre) s = Inr s1" and "fld_tag f = t" and "fld_value f = v" and "F f s1 = Inr s2"
    and "foldR F (fields_at (length (enc_fields pre) + 6 + length v) post) s2 = Inr d"
    and "f = \<lparr>fld_tag = t, fld_value = v, fld_start = length (enc_fields pre) + 6, fld_end = length (enc_fields pre) + 6 + length v\<rparr>"
  using assms by (auto simp: fields_at_append foldR_append bindR_eq_Inr)

lemma fields_at_tags: "f \<in> set (fields_at n fs) \<Longrightarrow> fld_tag f \<in> fst ` set fs"
  using fields_atD by (force intro: rev_image_eqI)

lemma editor_decode_parts:
  assumes "editor_decode (enc_fields (gp @ (ED_SIGNATURE, sg) # gq)) = Inr e"
    and "ascending None (gp @ (ED_SIGNATURE, sg) # gq)" and "length (enc_fields (gp @ (ED_SIGNATURE, sg) # gq)) < usize_limit"
  shows "\<exists>d1 d. foldR editor_body (fields_at 0 gp) editor_decode_start = Inr d1 \<and>
     foldR editor_body (fields_at (length (enc_fields gp) + 262) gq) (d1\<lparr>edd_signature := Some sg\<rparr>) = Inr d \<and>
     ed_sig_alg e = the (edd_sig_alg d) \<and> ed_session_head e = the (edd_session_head d) \<and>
     ed_journal_head e = the (edd_journal_head d) \<and> ed_certified_by e = the (edd_certified_by d)"
proof -
  obtain d where d: "foldR editor_body (fields_at 0 (gp @ (ED_SIGNATURE, sg) # gq)) editor_decode_start = Inr d"
    and fin: "ed_sig_alg e = the (edd_sig_alg d)" "ed_session_head e = the (edd_session_head d)"
      "ed_journal_head e = the (edd_journal_head d)" "ed_certified_by e = the (edd_certified_by d)"
    using assms(1) unfolding editor_decode_def tlv_loop_enc [OF assms(2,3)] by (auto simp: bindR_eq_Inr ok_or_eq_Inr)
  from d show ?thesis
  proof (rule fold_split)
    fix s1 s2 f
    assume run: "foldR editor_body (fields_at 0 gp) editor_decode_start = Inr s1" "editor_body f s1 = Inr s2"
      "foldR editor_body (fields_at (length (enc_fields gp) + 6 + length sg) gq) s2 = Inr d"
      and f: "fld_tag f = ED_SIGNATURE" "fld_value f = sg"
    have "length sg = 256" "s2 = s1\<lparr>edd_signature := Some sg\<rparr>"
      using run(2) f by (auto simp: editor_body_def Let_def bindR_eq_Inr ensure_eq_Inr editor_consts)
    with run fin show ?thesis by (auto simp: add.commute)
  qed
qed

text \<open>An editor record is determined by its fields but the signature.\<close>

lemma editor_decode_modulo_signature:
  assumes "editor_decode (enc_fields (gp @ (ED_SIGNATURE, sg) # gq)) = Inr e"
    and "editor_decode (enc_fields (gp @ (ED_SIGNATURE, sg') # gq)) = Inr e'"
    and "ascending None (gp @ (ED_SIGNATURE, sg) # gq)" and "ascending None (gp @ (ED_SIGNATURE, sg') # gq)"
    and "length (enc_fields (gp @ (ED_SIGNATURE, sg) # gq)) < usize_limit"
    and "length (enc_fields (gp @ (ED_SIGNATURE, sg') # gq)) < usize_limit"
  shows "e' = e\<lparr>ed_signature := ed_signature e'\<rparr>"
proof -
  obtain d1 d where a: "foldR editor_body (fields_at 0 gp) editor_decode_start = Inr d1"
    "foldR editor_body (fields_at (length (enc_fields gp) + 262) gq) (d1\<lparr>edd_signature := Some sg\<rparr>) = Inr d"
    "ed_sig_alg e = the (edd_sig_alg d)" "ed_session_head e = the (edd_session_head d)"
    "ed_journal_head e = the (edd_journal_head d)" "ed_certified_by e = the (edd_certified_by d)"
    using editor_decode_parts [OF assms(1,3,5)] by blast
  obtain d' where b: "foldR editor_body (fields_at (length (enc_fields gp) + 262) gq) (d1\<lparr>edd_signature := Some sg'\<rparr>) = Inr d'"
    "ed_sig_alg e' = the (edd_sig_alg d')" "ed_session_head e' = the (edd_session_head d')"
    "ed_journal_head e' = the (edd_journal_head d')" "ed_certified_by e' = the (edd_certified_by d')"
    using editor_decode_parts [OF assms(2,4,6)] a(1) by auto
  have tags: "fld_tag f \<noteq> ED_SIGNATURE" if "f \<in> set (fields_at n gq)" for f n
    using fields_at_tags [OF that] ascending_append_less [OF assms(3)] by fastforce
  have com: "foldR editor_body (fields_at n gq) (d1\<lparr>edd_signature := x\<rparr>) =
      map_sum id (\<lambda>d. d\<lparr>edd_signature := x\<rparr>) (foldR editor_body (fields_at n gq) d1)" for n x
    by (rule foldR_commute [where u = "\<lambda>d. d\<lparr>edd_signature := x\<rparr>"]) (rule editor_body_commutes, erule tags)
  have "\<exists>d0. d = d0\<lparr>edd_signature := Some sg\<rparr> \<and> d' = d0\<lparr>edd_signature := Some sg'\<rparr>"
    using a(2) b(1) unfolding com by (cases "foldR editor_body (fields_at (length (enc_fields gp) + 262) gq) d1") auto
  with a b show ?thesis by (cases e; cases e') auto
qed

text \<open>The editor record inside a description, and the signature inside the record.\<close>

lemma editor_decode_signature:
  assumes "editor_decode ev = Inr e"
  shows "\<exists>gp gq. ev = enc_fields (gp @ (ED_SIGNATURE, ed_signature e) # gq) \<and>
     ascending None (gp @ (ED_SIGNATURE, ed_signature e) # gq) \<and> length (ed_signature e) = 256"
proof -
  obtain d where loop: "tlv_loop editor_body (reader_new ev) editor_decode_start = Inr d" and s: "edd_signature d = Some (ed_signature e)"
    using assms by (auto simp: editor_decode_def bindR_eq_Inr ok_or_eq_Inr)
  obtain gs where gs: "ev = enc_fields gs" "ascending None gs" "foldR editor_body (fields_at 0 gs) editor_decode_start = Inr d"
    using tlv_loop_fields [OF loop] by blast
  have step: "edd_signature s' = (if fld_tag f = ED_SIGNATURE then Some (fld_value f) else edd_signature s) \<and>
      (fld_tag f = ED_SIGNATURE \<longrightarrow> length (fld_value f) = 256)" if "editor_body f s = Inr s'" for f s s'
    using that by (auto simp: editor_body_def Let_def bindR_eq_Inr ensure_eq_Inr editor_consts split: if_splits UnknownTag.splits)
  have "edd_signature d' = Some x \<Longrightarrow> edd_signature s = Some x \<or> (ED_SIGNATURE, x) \<in> set fs \<and> length x = 256"
    if "foldR editor_body (fields_at n fs) s = Inr d'" for n fs s d' x
    using that
  proof (induction n fs arbitrary: s rule: fields_at.induct)
    case (2 n t v fs)
    then obtain s1 where s1: "editor_body \<lparr>fld_tag = t, fld_value = v, fld_start = n + 6, fld_end = n + 6 + length v\<rparr> s = Inr s1"
      "foldR editor_body (fields_at (n + 6 + length v) fs) s1 = Inr d'" by (auto simp: bindR_eq_Inr)
    from step [OF s1(1)] "2.IH" [OF "2.prems"(1) s1(2)] show ?case by (auto split: if_splits)
  qed simp
  from this [OF gs(3) s] have "(ED_SIGNATURE, ed_signature e) \<in> set gs" "length (ed_signature e) = 256"
    by (auto simp: editor_decode_start_def)
  with gs(1,2) show ?thesis by (metis split_list)
qed

lemma content_editor_step:
  assumes "content_body v f s = Inr s'"
  shows "cdd_editor s' = (if fld_tag f = CD_EDITOR \<and> FIRST_EDITING_VERSION \<le> v then cdd_editor s' else cdd_editor s) \<and>
     (fld_tag f = CD_EDITOR \<longrightarrow> FIRST_EDITING_VERSION \<le> v \<and> (\<exists>e. editor_decode (fld_value f) = Inr e \<and> s' = s\<lparr>cdd_editor := Some e\<rparr>))"
  using assms
  by (auto simp: content_body_def Let_def bindR_eq_Inr unknown_tag_action_def CRIT_TAG_MAX_def split: if_splits UnknownTag.splits)

text \<open>The parts of a description that carries an editor's signature.\<close>

lemma decode_body_editor:
  assumes "decode_body v body = Inr d" and "cd_editor d = Some e" and "length body < usize_limit"
  shows "\<exists>pre post gp gq. body = enc_fields (pre @ (CD_EDITOR, enc_fields (gp @ (ED_SIGNATURE, ed_signature e) # gq)) # post) \<and>
     ascending None (pre @ (CD_EDITOR, enc_fields (gp @ (ED_SIGNATURE, ed_signature e) # gq)) # post) \<and>
     ascending None (gp @ (ED_SIGNATURE, ed_signature e) # gq) \<and> length (ed_signature e) = 256 \<and>
     editor_decode (enc_fields (gp @ (ED_SIGNATURE, ed_signature e) # gq)) = Inr e"
proof -
  obtain s where loop: "tlv_loop (content_body v) (reader_new body) content_decode_start = Inr s" and s: "cdd_editor s = Some e"
    using assms(1,2) by (auto simp: decode_body_def bindR_eq_Inr ok_or_eq_Inr)
  obtain fs where fs: "body = enc_fields fs" "ascending None fs" "foldR (content_body v) (fields_at 0 fs) content_decode_start = Inr s"
    using tlv_loop_fields [OF loop] by blast
  have "cdd_editor d' = Some x \<Longrightarrow> cdd_editor s = Some x \<or> (\<exists>ev. (CD_EDITOR, ev) \<in> set fs \<and> editor_decode ev = Inr x)"
    if "foldR (content_body v) (fields_at n fs) s = Inr d'" for n fs s d' x
    using that
  proof (induction n fs arbitrary: s rule: fields_at.induct)
    case (2 n t w fs)
    then obtain s1 where s1: "content_body v \<lparr>fld_tag = t, fld_value = w, fld_start = n + 6, fld_end = n + 6 + length w\<rparr> s = Inr s1"
      "foldR (content_body v) (fields_at (n + 6 + length w) fs) s1 = Inr d'" by (auto simp: bindR_eq_Inr)
    from content_editor_step [OF s1(1)] "2.IH" [OF "2.prems"(1) s1(2)] show ?case by (auto split: if_splits)
  qed simp
  from this [OF fs(3) s] obtain ev where ev: "(CD_EDITOR, ev) \<in> set fs" "editor_decode ev = Inr e"
    by (auto simp: content_decode_start_def)
  obtain pre post where "fs = pre @ (CD_EDITOR, ev) # post" using ev(1) by (metis split_list)
  with fs(1,2) ev(2) editor_decode_signature [OF ev(2)] show ?thesis by blast
qed

lemma decode_body_parts:
  assumes "decode_body v (enc_fields (pre @ (CD_EDITOR, ev) # post)) = Inr d"
    and "ascending None (pre @ (CD_EDITOR, ev) # post)" and "length (enc_fields (pre @ (CD_EDITOR, ev) # post)) < usize_limit"
    and "editor_decode ev = Inr e"
  shows "\<exists>d1 s. foldR (content_body v) (fields_at 0 pre) content_decode_start = Inr d1 \<and>
     foldR (content_body v) (fields_at (length (enc_fields pre) + 6 + length ev) post) (d1\<lparr>cdd_editor := Some e\<rparr>) = Inr s \<and>
     d = \<lparr>cd_total_len = the (cdd_total_len s), cd_chunk_count = the (cdd_chunk_count s), cd_tree_root = the (cdd_tree_root s),
       cd_version_counter = the (cdd_version_counter s), cd_footer_offset = cdd_footer_offset s, cd_editor = cdd_editor s\<rparr>"
proof -
  obtain s where s: "foldR (content_body v) (fields_at 0 (pre @ (CD_EDITOR, ev) # post)) content_decode_start = Inr s"
    and d: "d = \<lparr>cd_total_len = the (cdd_total_len s), cd_chunk_count = the (cdd_chunk_count s), cd_tree_root = the (cdd_tree_root s),
       cd_version_counter = the (cdd_version_counter s), cd_footer_offset = cdd_footer_offset s, cd_editor = cdd_editor s\<rparr>"
    using assms(1) unfolding decode_body_def tlv_loop_enc [OF assms(2,3)] by (auto simp: bindR_eq_Inr ok_or_eq_Inr)
  from s show ?thesis
  proof (rule fold_split)
    fix s1 s2 f
    assume run: "foldR (content_body v) (fields_at 0 pre) content_decode_start = Inr s1" "content_body v f s1 = Inr s2"
      "foldR (content_body v) (fields_at (length (enc_fields pre) + 6 + length ev) post) s2 = Inr s"
      and f: "fld_tag f = CD_EDITOR" "fld_value f = ev"
    then have "s2 = s1\<lparr>cdd_editor := Some e\<rparr>" using content_editor_step [OF run(2)] assms(4) by auto
    with run d show ?thesis by auto
  qed
qed

lemma ascending_weaken: "ascending prior fs \<Longrightarrow> ascending None fs"
  by (cases fs) auto

lemma cut_prefix_determined:
  assumes "ascending None (a @ [(t, x)])" and "ascending None (b @ [(t, y)])"
    and "enc_fields a @ le16 t @ r = enc_fields b @ le16 t @ r'"
  shows "a = b \<and> r = r'"
  using assms
proof (induction a arbitrary: b)
  case Nil
  then show ?case
  proof (cases b)
    case (Cons q b')
    obtain u w where q: "q = (u, w)" by (cases q)
    have "u < t" using Nil.prems(2) ascending_append_less [of None b t y "[]"] by (simp add: Cons q)
    moreover have "le16 t = le16 u" using Nil.prems(3) by (auto simp: Cons q enc_field_def append_eq_append_conv)
    ultimately show ?thesis by (metis of_le16 less_irrefl)
  qed simp
next
  case (Cons p a)
  obtain u w where p: "p = (u, w)" by (cases p)
  have less: "u < t" "\<forall>z \<in> fst ` set a. z < t" using ascending_append_less [OF Cons.prems(1)] by (simp_all add: p)
  show ?case
  proof (cases b)
    case Nil
    then have "le16 t = le16 u" using Cons.prems(3) by (auto simp: p enc_field_def append_eq_append_conv)
    then show ?thesis using less(1) by (metis of_le16 less_irrefl)
  next
    case (Cons q b')
    obtain u' w' where q: "q = (u', w')" by (cases q)
    have *: "(u, w) = (u', w') \<and> enc_fields a @ le16 t @ r = enc_fields b' @ le16 t @ r'"
      using enc_field_determined [of w w' u "enc_fields a @ le16 t @ r" u' "enc_fields b' @ le16 t @ r'"] Cons.prems
      by (simp add: p q Cons)
    have "ascending (Some u) (a @ [(t, x)])" "ascending (Some u') (b' @ [(t, y)])" using Cons.prems by (simp_all add: p q Cons)
    then have "ascending None (a @ [(t, x)])" "ascending None (b' @ [(t, y)])" by (simp_all add: ascending_weaken)
    from Cons.IH [OF this] * show ?thesis by (simp add: p q Cons)
  qed
qed


lemma ascending_prefix: "ascending prior (xs @ ys) \<Longrightarrow> ascending prior xs"
  by (induction prior xs rule: ascending.induct) auto

lemma tag_split_determined:
  assumes "ascending None (gp @ (t, x) # gq)" and "ascending None (gp' @ (t, x') # gq')" and "gp @ gq = gp' @ gq'"
  shows "gp = gp' \<and> gq = gq'"
proof -
  have "filter (\<lambda>p. fst p < t) (gp @ gq) = gp" if "ascending None (gp @ (t, x) # gq)" for gp gq x
  proof -
    have "filter (\<lambda>p. fst p < t) gp = gp" "filter (\<lambda>p. fst p < t) gq = []"
      using ascending_append_less [OF that] by (auto simp: filter_id_conv filter_empty_conv)
    then show ?thesis by simp
  qed
  from this [OF assms(1)] this [OF assms(2)] assms(3) show ?thesis by simp
qed

text \<open>Equal messages have equal parts around signatures of one length.\<close>

lemma cut_determined:
  assumes "ascending None (pre @ (CD_EDITOR, ev) # post)" and "ev = enc_fields (gp @ (ED_SIGNATURE, sg) # gq)"
    and "ascending None (gp @ (ED_SIGNATURE, sg) # gq)" and "length (enc_fields (pre @ (CD_EDITOR, ev) # post)) < usize_limit"
    and "ascending None (pre' @ (CD_EDITOR, ev') # post')" and "ev' = enc_fields (gp' @ (ED_SIGNATURE, sg') # gq')"
    and "ascending None (gp' @ (ED_SIGNATURE, sg') # gq')" and "length (enc_fields (pre' @ (CD_EDITOR, ev') # post')) < usize_limit"
    and "length sg = length sg'"
    and "body_without_signature (enc_fields (pre @ (CD_EDITOR, ev) # post)) =
      body_without_signature (enc_fields (pre' @ (CD_EDITOR, ev') # post'))"
  shows "pre = pre' \<and> post = post' \<and> gp = gp' \<and> gq = gq' \<and> length ev = length ev'"
proof -
  have "enc_fields pre @ le16 CD_EDITOR @ le_bytes 4 (length ev) @ enc_fields gp @ enc_fields gq @ enc_fields post =
      enc_fields pre' @ le16 CD_EDITOR @ le_bytes 4 (length ev') @ enc_fields gp' @ enc_fields gq' @ enc_fields post'"
    using assms(10) body_cut [OF assms(1-4)] body_cut [OF assms(5-8)] by simp
  from cut_prefix_determined [OF ascending_prefix [of None "pre @ [(CD_EDITOR, ev)]" post, simplified]
      ascending_prefix [of None "pre' @ [(CD_EDITOR, ev')]" post', simplified] this] assms(1,5)
  have pre: "pre = pre'" and rest: "le_bytes 4 (length ev) @ enc_fields gp @ enc_fields gq @ enc_fields post =
      le_bytes 4 (length ev') @ enc_fields gp' @ enc_fields gq' @ enc_fields post'" by simp_all
  have small: "length ev < 4294967296" "length ev' < 4294967296"
    using ascending_lengths [OF assms(1)] ascending_lengths [OF assms(5)] by simp_all
  have len: "length ev = length ev'" using rest le_bytes_4_eq [OF small] by (simp add: append_eq_append_conv)
  then have "length (enc_fields (gp @ gq)) = length (enc_fields (gp' @ gq'))"
    using assms(9) by (simp add: assms(2,6))
  moreover have "enc_fields (gp @ gq) @ enc_fields post = enc_fields (gp' @ gq') @ enc_fields post'"
    using rest len by simp
  ultimately have "enc_fields (gp @ gq) = enc_fields (gp' @ gq')" "enc_fields post = enc_fields post'"
    by (meson append_eq_append_conv)+
  then have "gp @ gq = gp' @ gq'" "post = post'"
    using ascending_lengths [OF assms(1)] ascending_lengths [OF assms(5)] ascending_lengths [OF assms(3)] ascending_lengths [OF assms(7)]
    by (auto intro!: enc_fields_determined)
  with tag_split_determined [OF assms(3,7)] pre len show ?thesis by simp
qed

lemma message_determines_desc:
  assumes "decode_body v b = Inr d" and "cd_editor d = Some e" and "length b < usize_limit"
    and "decode_body v b' = Inr d'" and "cd_editor d' = Some e'" and "length b' < usize_limit"
    and "body_without_signature b = body_without_signature b'"
  shows "d' = d\<lparr>cd_editor := Some (e\<lparr>ed_signature := ed_signature e'\<rparr>)\<rparr>"
proof -
  obtain pre post gp gq where a: "b = enc_fields (pre @ (CD_EDITOR, enc_fields (gp @ (ED_SIGNATURE, ed_signature e) # gq)) # post)"
     "ascending None (pre @ (CD_EDITOR, enc_fields (gp @ (ED_SIGNATURE, ed_signature e) # gq)) # post)"
     "ascending None (gp @ (ED_SIGNATURE, ed_signature e) # gq)" "length (ed_signature e) = 256"
     "editor_decode (enc_fields (gp @ (ED_SIGNATURE, ed_signature e) # gq)) = Inr e"
    using decode_body_editor [OF assms(1-3)] by blast
  obtain pre' post' gp' gq' where a': "b' = enc_fields (pre' @ (CD_EDITOR, enc_fields (gp' @ (ED_SIGNATURE, ed_signature e') # gq')) # post')"
     "ascending None (pre' @ (CD_EDITOR, enc_fields (gp' @ (ED_SIGNATURE, ed_signature e') # gq')) # post')"
     "ascending None (gp' @ (ED_SIGNATURE, ed_signature e') # gq')" "length (ed_signature e') = 256"
     "editor_decode (enc_fields (gp' @ (ED_SIGNATURE, ed_signature e') # gq')) = Inr e'"
    using decode_body_editor [OF assms(4-6)] by blast
  note small = assms(3) [unfolded a(1)] assms(6) [unfolded a'(1)]
  have same: "pre' = pre" "post' = post" "gp' = gp" "gq' = gq"
    using cut_determined [OF a(2) refl a(3) small(1) a'(2) refl a'(3) small(2)] assms(7) a(1,4) a'(1,4) by simp_all
  note a' = a' [unfolded same] and small = small [unfolded same]
  have e': "e' = e\<lparr>ed_signature := ed_signature e'\<rparr>"
    using editor_decode_modulo_signature [OF a(5) a'(5) a(3) a'(3)] small by simp
  define n where "n = length (enc_fields pre) + 6 + length (enc_fields (gp @ (ED_SIGNATURE, ed_signature e) # gq))"
  obtain d1 s where run: "foldR (content_body v) (fields_at 0 pre) content_decode_start = Inr d1"
      "foldR (content_body v) (fields_at n post) (d1\<lparr>cdd_editor := Some e\<rparr>) = Inr s"
    and d: "d = \<lparr>cd_total_len = the (cdd_total_len s), cd_chunk_count = the (cdd_chunk_count s), cd_tree_root = the (cdd_tree_root s),
       cd_version_counter = the (cdd_version_counter s), cd_footer_offset = cdd_footer_offset s, cd_editor = cdd_editor s\<rparr>"
    using decode_body_parts [OF assms(1) [unfolded a(1)] a(2) small(1) a(5)] unfolding n_def by blast
  obtain s' where run': "foldR (content_body v) (fields_at n post) (d1\<lparr>cdd_editor := Some e'\<rparr>) = Inr s'"
    and d': "d' = \<lparr>cd_total_len = the (cdd_total_len s'), cd_chunk_count = the (cdd_chunk_count s'), cd_tree_root = the (cdd_tree_root s'),
       cd_version_counter = the (cdd_version_counter s'), cd_footer_offset = cdd_footer_offset s', cd_editor = cdd_editor s'\<rparr>"
    using decode_body_parts [OF assms(4) [unfolded a'(1)] a'(2) small(2) a'(5)] run(1) a(4) a'(4) unfolding n_def by auto
  have tags: "fld_tag f \<noteq> CD_EDITOR" if "f \<in> set (fields_at n post)" for f
    using fields_at_tags [OF that] ascending_append_less [OF a(2)] by fastforce
  have com: "foldR (content_body v) (fields_at n post) (d1\<lparr>cdd_editor := x\<rparr>) =
      map_sum id (\<lambda>d. d\<lparr>cdd_editor := x\<rparr>) (foldR (content_body v) (fields_at n post) d1)" for x
    by (rule foldR_commute [where u = "\<lambda>d. d\<lparr>cdd_editor := x\<rparr>"]) (rule content_body_commutes, erule tags)
  have "\<exists>s0. s = s0\<lparr>cdd_editor := Some e\<rparr> \<and> s' = s0\<lparr>cdd_editor := Some e'\<rparr>"
    using run(2) run' unfolding com by (cases "foldR (content_body v) (fields_at n post) d1") auto
  then show ?thesis using e' by (auto simp: d d')
qed


section \<open>What a certificate says\<close>

definition cert_item :: "u16 \<times> bytes \<Rightarrow> CertDecoder \<Rightarrow> FormatError + CertDecoder" where
  "cert_item tv d =
     (let field = \<lparr>fld_tag = fst tv, fld_value = snd tv, fld_start = 0, fld_end = 0\<rparr> in
      if fst tv = CERT_T_SIGNATURE then bindR (field_array 64 field) (\<lambda>v. Inr (d\<lparr>cdr_signature := Some v\<rparr>))
      else cert_match field (d\<lparr>cdr_signed := cdr_signed d @ enc_field tv\<rparr>))"

lemma cert_match_span: "cert_match (f\<lparr>fld_start := a, fld_end := b\<rparr>) d = cert_match f d"
  by (simp add: cert_match_def Let_def field_u8_def field_array_def cong: list.case_cong)

lemma cert_body_item:
  assumes "bs = front @ enc_field (t, v) @ rear"
  shows "cert_body bs \<lparr>fld_tag = t, fld_value = v, fld_start = length front + 6, fld_end = length front + 6 + length v\<rparr> d =
    cert_item (t, v) d"
proof -
  have "get_range bs (length front) (length front + 6 + length v) = Some (enc_field (t, v))"
    by (simp add: get_range_def assms)
  then show ?thesis
    using cert_match_span [where f = "\<lparr>fld_tag = t, fld_value = v, fld_start = 0, fld_end = 0\<rparr>"
      and a = "length front + 6" and b = "length front + 6 + length v"]
    by (simp add: cert_body_def cert_item_def Let_def FIELD_PREFIX_LEN_def field_array_def)
qed

lemma cert_fold_items:
  "bs = front @ enc_fields fs @ rear \<Longrightarrow> foldR (cert_body bs) (fields_at (length front) fs) d = foldR cert_item fs d"
proof (induction fs arbitrary: front d)
  case (Cons p fs)
  obtain t v where p: "p = (t, v)" by (cases p)
  have "foldR (cert_body bs) (fields_at (length (front @ enc_field p)) fs) = foldR cert_item fs"
    using Cons.prems by (intro ext Cons.IH) simp
  with cert_body_item [of bs front t v "enc_fields fs @ rear"] Cons.prems show ?case by (simp add: p add.assoc)
qed simp

definition cert_fields :: "EditorCert \<Rightarrow> (u16 \<times> bytes) list" where
  "cert_fields cert =
     [(CERT_T_VERSION, [CERT_VERSION]), (CERT_T_FILE_ID, ec_file_id cert), (CERT_T_DEVICE, ec_device cert),
      (CERT_T_EDITOR_KEY, ec_editor_key cert), (CERT_T_NOT_AFTER, le64 (ec_not_after cert)), (CERT_T_ISSUER, ec_issuer cert)]"

definition cert_wf :: "EditorCert \<Rightarrow> bool" where
  "cert_wf cert \<longleftrightarrow> length (ec_file_id cert) = 16 \<and> length (ec_device cert) = 32 \<and>
     length (ec_editor_key cert) = MODULUS_LEN \<and> length (ec_issuer cert) = 32 \<and> length (ec_signature cert) = 64"

lemma cert_item_at:
  assumes "cert_item (t, v) s = Inr s'"
  shows "s' = (if t = CERT_T_SIGNATURE then s\<lparr>cdr_signature := Some v\<rparr>
      else (s\<lparr>cdr_signed := cdr_signed s @ enc_field (t, v)\<rparr>)
       \<lparr>cdr_version := if t = CERT_T_VERSION then Some (hd v) else cdr_version s,
        cdr_file_id := if t = CERT_T_FILE_ID then Some v else cdr_file_id s,
        cdr_device := if t = CERT_T_DEVICE then Some v else cdr_device s,
        cdr_editor_key := if t = CERT_T_EDITOR_KEY then Some v else cdr_editor_key s,
        cdr_not_after := if t = CERT_T_NOT_AFTER then Some (of_le v) else cdr_not_after s,
        cdr_issuer := if t = CERT_T_ISSUER then Some v else cdr_issuer s\<rparr>)"
    and "t = CERT_T_VERSION \<Longrightarrow> length v = 1" and "t = CERT_T_FILE_ID \<Longrightarrow> length v = 16" and "t = CERT_T_DEVICE \<Longrightarrow> length v = 32"
    and "t = CERT_T_EDITOR_KEY \<Longrightarrow> length v = 256" and "t = CERT_T_NOT_AFTER \<Longrightarrow> length v = 8" and "t = CERT_T_ISSUER \<Longrightarrow> length v = 32"
    and "t = CERT_T_SIGNATURE \<Longrightarrow> length v = 64"
  using assms
  by (simp_all add: cert_item_def cert_match_def Let_def field_u8_def field_array_def bindR_eq_Inr ensure_eq_Inr MODULUS_LEN_def
      unknown_tag_action_def CRIT_TAG_MAX_def split: if_splits list.splits)


text \<open>What a fold over fields with distinct tags leaves in a variable that one tag sets.\<close>

lemma fold_field:
  assumes "foldR F fs s = Inr d" and "distinct (map fst fs)"
    and "\<And>t v s s'. F (t, v) s = Inr s' \<Longrightarrow> g s' = (if t = k then Some (h v) else g s)"
  shows "g d = (case map_of fs k of Some v \<Rightarrow> Some (h v) | None \<Rightarrow> g s)"
  using assms(1,2)
proof (induction fs arbitrary: s)
  case (Cons p fs)
  obtain t v where p: "p = (t, v)" by (cases p)
  obtain s1 where s1: "F (t, v) s = Inr s1" "foldR F fs s1 = Inr d" using Cons.prems by (auto simp: p bindR_eq_Inr)
  have "map_of fs t = None" "distinct (map fst fs)" using Cons.prems by (auto simp: p map_of_eq_None_iff)
  with Cons.IH [OF s1(2)] assms(3) [OF s1(1)] show ?case by (auto simp: p split: option.splits)
qed simp

lemma cert_fold_at:
  assumes "foldR cert_item fs cert_decode_start = Inr d" and "distinct (map fst fs)"
  shows "cdr_version d = map_option hd (map_of fs CERT_T_VERSION)"
    and "cdr_file_id d = map_of fs CERT_T_FILE_ID" and "cdr_device d = map_of fs CERT_T_DEVICE"
    and "cdr_editor_key d = map_of fs CERT_T_EDITOR_KEY" and "cdr_not_after d = map_option of_le (map_of fs CERT_T_NOT_AFTER)"
    and "cdr_issuer d = map_of fs CERT_T_ISSUER" and "cdr_signature d = map_of fs CERT_T_SIGNATURE"
    and "cdr_signed d = enc_fields (filter (\<lambda>p. fst p \<noteq> CERT_T_SIGNATURE) fs)"
proof -
  note at = cert_item_at(1) and start = cert_decode_start_def
  show "cdr_version d = map_option hd (map_of fs CERT_T_VERSION)"
    using fold_field [OF assms, of cdr_version CERT_T_VERSION hd] at by (force simp: start split: option.splits)
  show "cdr_file_id d = map_of fs CERT_T_FILE_ID"
    using fold_field [OF assms, of cdr_file_id CERT_T_FILE_ID id] at by (force simp: start split: option.splits)
  show "cdr_device d = map_of fs CERT_T_DEVICE"
    using fold_field [OF assms, of cdr_device CERT_T_DEVICE id] at by (force simp: start split: option.splits)
  show "cdr_editor_key d = map_of fs CERT_T_EDITOR_KEY"
    using fold_field [OF assms, of cdr_editor_key CERT_T_EDITOR_KEY id] at by (force simp: start split: option.splits)
  show "cdr_not_after d = map_option of_le (map_of fs CERT_T_NOT_AFTER)"
    using fold_field [OF assms, of cdr_not_after CERT_T_NOT_AFTER of_le] at by (force simp: start split: option.splits)
  show "cdr_issuer d = map_of fs CERT_T_ISSUER"
    using fold_field [OF assms, of cdr_issuer CERT_T_ISSUER id] at by (force simp: start split: option.splits)
  show "cdr_signature d = map_of fs CERT_T_SIGNATURE"
    using fold_field [OF assms, of cdr_signature CERT_T_SIGNATURE id] at by (force simp: start split: option.splits)
  have "foldR cert_item fs s = Inr d \<Longrightarrow> cdr_signed d = cdr_signed s @ enc_fields (filter (\<lambda>p. fst p \<noteq> CERT_T_SIGNATURE) fs)" for s
    by (induction fs arbitrary: s) (auto simp: bindR_eq_Inr dest!: at)
  then show "cdr_signed d = enc_fields (filter (\<lambda>p. fst p \<noteq> CERT_T_SIGNATURE) fs)" using assms(1) by (simp add: start)
qed

lemma cert_fold_lengths:
  assumes "foldR cert_item fs s = Inr d" and "(t, v) \<in> set fs"
  shows "\<exists>a b. cert_item (t, v) a = Inr b"
  using assms by (induction fs arbitrary: s) (auto simp: bindR_eq_Inr)


lemma cert_item_of_fold: "foldR cert_item fs s = Inr d \<Longrightarrow> map_of fs t = Some v \<Longrightarrow> \<exists>a b. cert_item (t, v) a = Inr b"
  using cert_fold_lengths by (metis map_of_SomeD)

lemma cert_decode_says:
  assumes "cert_decode bs = Inr (cert, covered)"
  shows "\<exists>fs. bs = enc_fields fs \<and> ascending None fs \<and> covered = enc_fields (filter (\<lambda>p. fst p \<noteq> CERT_T_SIGNATURE) fs) \<and>
     cert_wf cert \<and> (\<forall>(t, v) \<in> set (cert_fields cert). map_of fs t = Some v) \<and> map_of fs CERT_T_SIGNATURE = Some (ec_signature cert)"
proof -
  obtain d where loop: "tlv_loop (cert_body bs) (reader_new bs) cert_decode_start = Inr d" and fin: "cert_finish d = Inr (cert, covered)"
    using assms by (auto simp: cert_decode_def bindR_eq_Inr)
  obtain fs where fs: "bs = enc_fields fs" "ascending None fs" "foldR (cert_body bs) (fields_at 0 fs) cert_decode_start = Inr d"
    using tlv_loop_fields [OF loop] by blast
  have run: "foldR cert_item fs cert_decode_start = Inr d" and dist: "distinct (map fst fs)"
    using fs cert_fold_items [of bs "[]" fs "[]"] ascending_distinct [OF fs(2)] by simp_all
  note at = cert_fold_at [OF run dist] and len = cert_item_at(2-) [rotated] and step = cert_item_of_fold [OF run]
  obtain v1 v5 where v1: "map_of fs CERT_T_VERSION = Some v1" "hd v1 = CERT_VERSION"
    and v5: "map_of fs CERT_T_NOT_AFTER = Some v5" "of_le v5 = ec_not_after cert"
    and rest: "map_of fs CERT_T_FILE_ID = Some (ec_file_id cert)" "map_of fs CERT_T_DEVICE = Some (ec_device cert)"
      "map_of fs CERT_T_EDITOR_KEY = Some (ec_editor_key cert)" "map_of fs CERT_T_ISSUER = Some (ec_issuer cert)"
      "map_of fs CERT_T_SIGNATURE = Some (ec_signature cert)"
    and covered: "covered = enc_fields (filter (\<lambda>p. fst p \<noteq> CERT_T_SIGNATURE) fs)"
    using fin unfolding cert_finish_def at by (auto simp: bindR_eq_Inr ok_or_eq_Inr ensure_eq_Inr)
  have "length v1 = 1" using step [OF v1(1)] cert_item_at(2) by blast
  moreover have "length v5 = 8" using step [OF v5(1)] cert_item_at(6) by blast
  ultimately have "v1 = [CERT_VERSION]" "v5 = le64 (ec_not_after cert)"
    using v1(2) v5(2) le_bytes_of_le64 [of v5] by (auto simp: length_Suc_conv)
  moreover have "cert_wf cert"
    using step [OF rest(1)] step [OF rest(2)] step [OF rest(3)] step [OF rest(4)] step [OF rest(5)]
      cert_item_at(3,4,5,7,8) [OF _ refl] unfolding cert_wf_def MODULUS_LEN_def by blast
  ultimately show ?thesis using fs(1,2) covered v1 v5 rest by (auto simp: cert_fields_def)
qed

text \<open>The covered bytes of a certificate determine everything it says.\<close>

lemma cert_binds:
  assumes "cert_decode bs = Inr (cert, covered)" and "cert_decode bs' = Inr (cert', covered)"
  shows "cert' = cert\<lparr>ec_signature := ec_signature cert'\<rparr>"
proof -
  let ?rest = "filter (\<lambda>p. fst p \<noteq> CERT_T_SIGNATURE) :: (u16 \<times> bytes) list \<Rightarrow> _"
  obtain fs where a: "ascending None fs" "covered = enc_fields (?rest fs)" "\<forall>(t, v) \<in> set (cert_fields cert). map_of fs t = Some v"
    using cert_decode_says [OF assms(1)] by blast
  obtain fs' where b: "ascending None fs'" "covered = enc_fields (?rest fs')" "\<forall>(t, v) \<in> set (cert_fields cert'). map_of fs' t = Some v"
    using cert_decode_says [OF assms(2)] by blast
  have "?rest fs = ?rest fs'"
    using a(2) b(2) ascending_lengths [OF a(1)] ascending_lengths [OF b(1)] by (intro enc_fields_determined) auto
  moreover have "map_of (?rest gs) t = map_of gs t" if "t \<noteq> CERT_T_SIGNATURE" for t :: u16 and gs
    using that by (induction gs) auto
  ultimately have "map_of fs t = map_of fs' t" if "t \<noteq> CERT_T_SIGNATURE" for t using that by metis
  then have eq: "ec_file_id cert = ec_file_id cert'" "ec_device cert = ec_device cert'" "ec_editor_key cert = ec_editor_key cert'"
    "le64 (ec_not_after cert) = le64 (ec_not_after cert')" "ec_issuer cert = ec_issuer cert'"
    using a(3) b(3) by (simp_all add: cert_fields_def)
  moreover have "ec_not_after cert = ec_not_after cert'" using eq(4) by (metis of_le64)
  ultimately show ?thesis by (cases cert; cases cert') simp
qed

lemma cert_fields_ok:
  assumes "cert_wf cert"
  shows "ascending None (cert_fields cert @ [(CERT_T_SIGNATURE, ec_signature cert)])"
    and "length (enc_fields (cert_fields cert @ [(CERT_T_SIGNATURE, ec_signature cert)])) = 451"
  using assms by (simp_all add: cert_fields_def cert_wf_def MODULUS_LEN_def)

lemma cert_encode_eq:
  assumes "cert_wf cert"
  shows "cert_signed_body cert = Inr (enc_fields (cert_fields cert))"
    and "cert_encode cert = Inr (enc_fields (cert_fields cert @ [(CERT_T_SIGNATURE, ec_signature cert)]))"
proof -
  have "ascending None (cert_fields cert)" "length (enc_fields (cert_fields cert)) < usize_limit"
    using cert_fields_ok [OF assms] ascending_prefix by (auto simp del: ascending.simps)
  then show *: "cert_signed_body cert = Inr (enc_fields (cert_fields cert))"
    using put_all_new_bind by (simp add: cert_signed_body_def cert_fields_def del: put_all_simps)
  have "ascending None [(CERT_T_SIGNATURE, ec_signature cert)]" using assms by (simp add: cert_wf_def)
  then show "cert_encode cert = Inr (enc_fields (cert_fields cert @ [(CERT_T_SIGNATURE, ec_signature cert)]))"
    using put_all_new_bind [of "[(CERT_T_SIGNATURE, ec_signature cert)]"] assms
    by (auto simp: cert_encode_def * put_all_one cert_wf_def bindR_eq_Inr simp del: put_all_simps)
qed

lemma cert_decode_eq:
  assumes "cert_wf cert"
  shows "cert_decode (enc_fields (cert_fields cert @ [(CERT_T_SIGNATURE, ec_signature cert)])) = Inr (cert, enc_fields (cert_fields cert))"
proof -
  let ?fs = "cert_fields cert @ [(CERT_T_SIGNATURE, ec_signature cert)]"
  have "tlv_loop (cert_body (enc_fields ?fs)) (reader_new (enc_fields ?fs)) cert_decode_start = foldR cert_item ?fs cert_decode_start"
    using cert_fields_ok [OF assms] cert_fold_items [of "enc_fields ?fs" "[]" ?fs "[]"] tlv_loop_enc [of ?fs "cert_body (enc_fields ?fs)"]
    by (simp del: enc_fields_simps)
  with assms show ?thesis
    by (simp add: cert_decode_def cert_fields_def cert_item_def cert_match_def cert_wf_def Let_def field_u8_def field_array_def
        cert_decode_start_def cert_finish_def)
qed


section \<open>Properties\<close>

text \<open>
  The abstract meaning of an accepted certificate: its records, written in order, give file, device,
  key, term and issuer; the issuer is the author or a co-author of the file and signed all records but
  the signature, unknown ones included; the certificate is for this file and is not past its term.
\<close>

definition certified :: "Crates \<Rightarrow> bytes \<Rightarrow> Header \<Rightarrow> i64 option \<Rightarrow> EditorCert \<Rightarrow> bool" where
  "certified c bs header now cert \<longleftrightarrow>
     (\<exists>fs. bs = enc_fields fs \<and> ascending None fs \<and> cert_wf cert \<and>
        (\<forall>(t, v) \<in> set (cert_fields cert). map_of fs t = Some v) \<and> map_of fs CERT_T_SIGNATURE = Some (ec_signature cert) \<and>
        ed25519_key_ok c (ec_issuer cert) \<and>
        ed25519_verify_strict c (ec_issuer cert)
          (tr_buf (cert_transcript (enc_fields (filter (\<lambda>p. fst p \<noteq> CERT_T_SIGNATURE) fs)))) (ec_signature cert)) \<and>
     (ec_issuer cert = hd_author_key header \<or> (\<exists>co. hd_coauthors header = Some co \<and> ec_issuer cert \<in> set (co_keys co))) \<and>
     ec_file_id cert = hd_file_id header \<and> (\<forall>n. now = Some n \<longrightarrow> sint n \<le> sint (ec_not_after cert))"

lemma cert_verify_sound: "cert_verify_for c bs header now = Inr cert \<Longrightarrow> certified c bs header now cert"
proof -
  assume ok: "cert_verify_for c bs header now = Inr cert"
  then obtain covered where dec: "cert_decode bs = Inr (cert, covered)"
    and sig: "ed25519_key_ok c (ec_issuer cert)" "ed25519_verify_strict c (ec_issuer cert) (tr_buf (cert_transcript covered)) (ec_signature cert)"
    and rest: "ec_issuer cert = hd_author_key header \<or> (\<exists>co. hd_coauthors header = Some co \<and> ec_issuer cert \<in> set (co_keys co))"
      "ec_file_id cert = hd_file_id header" "\<forall>n. now = Some n \<longrightarrow> sint n \<le> sint (ec_not_after cert)"
    unfolding cert_verify_for_def
    by (cases "cert_decode bs") (auto simp: result_simps sign_verify_def split: option.splits)
  show ?thesis using cert_decode_says [OF dec] sig rest unfolding certified_def by blast
qed

text \<open>The bytes an editor signs.\<close>

definition editor_message :: "bytes \<Rightarrow> bytes \<Rightarrow> bytes" where
  "editor_message core body = EDITOR_SIG @ [0] @ core @ le_bytes 4 (length body) @ body"

text \<open>A body less the record of the editor's signature, the rest as it stands.\<close>

definition signature_cut :: "bytes \<Rightarrow> bytes \<Rightarrow> bytes \<Rightarrow> bool" where
  "signature_cut sg body rest \<longleftrightarrow>
     (\<exists>pre post gp gq. let ev = enc_fields (gp @ (ED_SIGNATURE, sg) # gq) in
        body = enc_fields (pre @ (CD_EDITOR, ev) # post) \<and>
        rest = enc_fields pre @ le16 CD_EDITOR @ le_bytes 4 (length ev) @ enc_fields gp @ enc_fields gq @ enc_fields post)"

lemma editor_transcript_message:
  assumes "decode_body v body = Inr d" and "cd_editor d = Some e" and "length body < 4294967296" and "editor_transcript core body = Inr t"
  shows "\<exists>cut. body_without_signature body = Inr cut \<and> length cut + 262 = length body \<and> tr_buf t = editor_message core cut \<and>
     signature_cut (ed_signature e) body cut"
proof -
  obtain pre post gp gq where a: "body = enc_fields (pre @ (CD_EDITOR, enc_fields (gp @ (ED_SIGNATURE, ed_signature e) # gq)) # post)"
     "ascending None (pre @ (CD_EDITOR, enc_fields (gp @ (ED_SIGNATURE, ed_signature e) # gq)) # post)"
     "ascending None (gp @ (ED_SIGNATURE, ed_signature e) # gq)" "length (ed_signature e) = 256"
    using decode_body_editor [OF assms(1,2)] assms(3) by auto
  let ?ev = "enc_fields (gp @ (ED_SIGNATURE, ed_signature e) # gq)"
  define rest where "rest = enc_fields pre @ le16 CD_EDITOR @ le_bytes 4 (length ?ev) @ enc_fields gp @ enc_fields gq @ enc_fields post"
  have "length (enc_fields (pre @ (CD_EDITOR, ?ev) # post)) < usize_limit"
    using assms(3) unfolding a(1) by linarith
  from body_cut [OF a(2) refl a(3) this] have cut: "body_without_signature body = Inr rest" "length rest + 262 = length body"
    by (simp_all add: a rest_def)
  moreover have "signature_cut (ed_signature e) body rest"
    unfolding signature_cut_def Let_def rest_def using a(1) by blast
  moreover have "tr_buf (tr_field rest x) = tr_buf x @ le_bytes 4 (length rest) @ rest" for x
    using cut(2) assms(3) by (simp add: tr_field_def u32_of_usize_def unat_of_nat take_bit_nat_eq_self)
  ultimately show ?thesis
    using assms(4) by (auto simp: editor_transcript_def bindR_eq_Inr editor_message_def tr_fixed_def transcript_new_def)
qed

lemma decoded_policy_allows:
  assumes "header_decode bs = Inr ph" and "pol_actions (hd_policy (ph_header ph)) a \<noteq> None"
  shows "rule (hd_policy (ph_header ph)) a = RuleAllow"
proof -
  have "normal_policy (hd_policy (ph_header ph))"
    using header_decode_ok [OF assms(1)] by (simp add: header_ok_def header_wf_def policy_wf_def)
  with assms(2) show ?thesis by (auto simp: normal_policy_def rule_def)
qed

text \<open>
  C5.  An accepted edition is the work of an editor whom the author certified.  Let the header be
  one that was decoded from bytes.  When \<open>verify_edition\<close> returns an edition, the file's counter is
  at least one and is the edition's, its format knows editors (version 4 on), its policy allows
  editing (a decoded policy holds no entry that denies), the certificate inside the record is
  signed by the author or a co-author for this very file and still in force at the given time, and
  the signature of the edition is an RSASSA-PSS encoding, under the certified key, of the core hash
  followed by the body of the description as it stands, less the signature's own record (its tag,
  its length and its value) inside the editor's record, whose length prefix stays.
\<close>

theorem edition_accepted_authentic:
  assumes "ct_eq_sound c" and "digests_32 c" and "header_decode hbs = Inr ph" and "header = ph_header ph"
    and "decode_verified_with_body c mac_key (hd_file_id header) (hd_container_version header) area = Inr (desc, body, read)"
    and "verify_edition c mont_pow header core desc body now = Inr (Some edition)"
  shows "\<exists>editor cut salt. cd_editor desc = Some editor \<and> ve_counter edition = cd_version_counter desc \<and>
     0 < unat (cd_version_counter desc) \<and> 4 \<le> unat (hd_container_version header) \<and>
     rule (hd_policy header) Edit = RuleAllow \<and> certified c (ed_certified_by editor) header now (ve_cert edition) \<and>
     signature_cut (ed_signature editor) body cut \<and> length salt = 32 \<and>
     be_bytes 256 (mont_pow (be_nat (ed_signature editor)) 65537 (be_nat (ec_editor_key (ve_cert edition)))) =
       pss_encode c (editor_message core cut) salt \<and>
     ve_digest edition = sha256_digest c (editor_message core cut)"
proof -
  obtain editor where ed: "cd_editor desc = Some editor" using assms(6) by (cases "cd_editor desc") (auto simp: verify_edition_def split: if_splits)
  obtain cert t where ok: "cd_version_counter desc \<noteq> 0" "\<not> hd_container_version header < FIRST_EDITING_VERSION"
      "pol_actions (hd_policy header) Edit \<noteq> None" "cert_verify_for c (ed_certified_by editor) header now = Inr cert"
      "editor_transcript core body = Inr t" "verify_pss_sha256 c mont_pow (ec_editor_key cert) (tr_buf t) (ed_signature editor) = Inr ()"
    and edition: "edition = \<lparr>ve_counter = cd_version_counter desc, ve_digest = edition_digest c t, ve_cert = cert,
      ve_session_head = ed_session_head editor\<rparr>"
    using assms(6) by (cases "editor_transcript core body") (auto simp: verify_edition_def ed result_simps)
  have body: "decode_body (hd_container_version header) body = Inr desc" "length body \<le> 65536"
    using decode_verified_frame [OF assms(5)] decode_verified_framed [OF assms(1)] assms(5) by (auto simp: result_simps split: if_splits)
  have "length body < 4294967296" using body(2) by simp
  from editor_transcript_message [OF body(1) ed this ok(5)]
  obtain cut where cut: "signature_cut (ed_signature editor) body cut" "tr_buf t = editor_message core cut" by blast
  moreover have "0 < unat (cd_version_counter desc)" using ok(1) by (simp add: unat_gt_0)
  moreover have "4 \<le> unat (hd_container_version header)" using ok(2) by (simp add: FIRST_EDITING_VERSION_def not_less word_le_nat_alt)
  moreover have "rule (hd_policy header) Edit = RuleAllow" using decoded_policy_allows [OF assms(3)] ok(3) assms(4) by simp
  ultimately show ?thesis
    using ed edition cert_verify_sound [OF ok(4)] ok(6) verify_pss_eq [OF assms(1,2)] by (auto simp: edition_digest_def)
qed


section \<open>Writing editions\<close>

lemma edit_loop_parts:
  assumes "edit_loop c key plan count pos ps leaves payload total_len = Inr (leaves', payload', total_len')"
  shows "\<exists>parts. length parts = length ps \<and> leaves' = leaves @ map fst parts \<and> payload' = payload @ concat (map (\<lambda>x. fst (snd x)) parts) \<and>
     unat total_len' = unat total_len + sum_list (map (\<lambda>x. snd (snd x)) parts) \<and>
     (\<forall>i < length ps. edit_piece c key plan (word_of_nat (pos + i)) (ps ! i) = Inr (parts ! i))"
  using assms
proof (induction ps arbitrary: pos leaves payload total_len)
  case (Cons p ps)
  obtain index leaf frame len total_len1 where step: "u32_of_usize pos = Some index" "edit_piece c key plan index p = Inr (leaf, frame, len)"
      "len \<le> unat (ep_chunk_size plan)" "checked_add total_len (word_of_nat len) = Some total_len1"
      "edit_loop c key plan count (pos + 1) ps (leaves @ [leaf]) (payload @ frame) total_len1 = Inr (leaves', payload', total_len')"
    using Cons.prems by (auto simp: result_simps Let_def)
  obtain parts where parts: "length parts = length ps" "leaves' = leaves @ leaf # map fst parts"
      "payload' = payload @ frame @ concat (map (\<lambda>x. fst (snd x)) parts)"
      "unat total_len' = unat total_len1 + sum_list (map (\<lambda>x. snd (snd x)) parts)"
      "\<forall>i < length ps. edit_piece c key plan (word_of_nat (pos + 1 + i)) (ps ! i) = Inr (parts ! i)"
    using Cons.IH [OF step(5)] by auto
  have "len < usize_limit" using step(3) unsigned_less [of "ep_chunk_size plan", where 'a = nat] by simp
  then have "unat total_len1 = unat total_len + len"
    using step(4) by (simp add: checked_simps unat_of_nat take_bit_nat_eq_self)
  moreover have "index = word_of_nat pos" using step(1) by (simp add: u32_of_usize_def split: if_splits)
  moreover have "edit_piece c key plan (word_of_nat (pos + i)) ((p # ps) ! i) = Inr (((leaf, frame, len) # parts) ! i)"
    if "i < length (p # ps)" for i
    using that step(2) parts(5) calculation(2) by (cases i) simp_all
  ultimately show ?case using parts by (intro exI [of _ "(leaf, frame, len) # parts"]) simp
qed simp

lemma editor_fields_cut:
  "editor_fields e = butlast (editor_fields e) @ [(ED_SIGNATURE, ed_signature e)]"
  "butlast (editor_fields (e\<lparr>ed_signature := sg\<rparr>)) = butlast (editor_fields e)"
  by (simp_all add: editor_fields_def)

lemma content_fields_editor:
  assumes "cd_editor d = Some e"
  shows "content_fields d = content_fields (d\<lparr>cd_editor := None\<rparr>) @ [(CD_EDITOR, enc_fields (editor_fields e))]"
  using assms by (simp add: content_fields_def)

lemma content_cut:
  assumes "content_wf v d" and "cd_editor d = Some e"
  shows "body_without_signature (enc_fields (content_fields d)) =
     Inr (enc_fields (content_fields (d\<lparr>cd_editor := None\<rparr>)) @ le16 CD_EDITOR @ le_bytes 4 (length (enc_fields (editor_fields e))) @
       enc_fields (butlast (editor_fields e)))"
proof -
  let ?pre = "content_fields (d\<lparr>cd_editor := None\<rparr>)"
  have "editor_wf e" using assms by (auto simp: content_wf_def)
  then have ev: "enc_fields (editor_fields e) = enc_fields (butlast (editor_fields e) @ (ED_SIGNATURE, ed_signature e) # [])"
    and asc: "ascending None (butlast (editor_fields e) @ (ED_SIGNATURE, ed_signature e) # [])"
    using editor_fields_cut(1) [of e] editor_fields_ok(1) [of e] by simp_all
  have all: "content_fields d = ?pre @ (CD_EDITOR, enc_fields (editor_fields e)) # []"
    using content_fields_editor [OF assms(2)] by simp
  note ok = content_fields_ok [OF assms(1), unfolded all]
  show ?thesis unfolding all using body_cut [OF ok(1) ev asc] ok(2) by simp
qed

text \<open>What an editor signs does not depend on the signature the record will carry.\<close>

lemma transcript_ignores_signature:
  assumes "content_wf v d" and "cd_editor d = Some e" and "length sg = MODULUS_LEN"
  shows "body_without_signature (enc_fields (content_fields (d\<lparr>cd_editor := Some (e\<lparr>ed_signature := sg\<rparr>)\<rparr>))) =
     body_without_signature (enc_fields (content_fields d))"
    and "content_wf v (d\<lparr>cd_editor := Some (e\<lparr>ed_signature := sg\<rparr>)\<rparr>)"
proof -
  let ?e = "e\<lparr>ed_signature := sg\<rparr>"
  let ?d = "d\<lparr>cd_editor := Some ?e\<rparr>"
  have wf: "editor_wf e" "editor_wf ?e" using assms by (auto simp: content_wf_def editor_wf_def editor_consts)
  show wf': "content_wf v ?d" using assms(1,2) wf by (auto simp: content_wf_def)
  have "length (enc_fields (editor_fields ?e)) = length (enc_fields (editor_fields e))"
    using wf by (simp add: editor_fields_def editor_wf_def)
  then show "body_without_signature (enc_fields (content_fields ?d)) = body_without_signature (enc_fields (content_fields d))"
    using content_cut [OF assms(1,2)] content_cut [OF wf', of ?e] editor_fields_cut(2) [of sg e] by simp
qed

lemma encode_body_editor_bound:
  "encode_body v d = Inr body \<Longrightarrow> cd_editor d = Some e \<Longrightarrow>
     FIRST_EDITING_VERSION \<le> v \<and> length (ed_certified_by e) \<le> MAX_CERTIFIED_BY_LEN"
  by (auto simp: encode_body_def editor_encode_def result_simps split: option.splits)

lemma edit_prepare_parts:
  assumes "digests_32 c" and "\<forall>j. ep_journal_head plan = Some j \<longrightarrow> length (jh_root j) = 32"
    and "edit_prepare c key plan = Inr draft"
  shows "\<exists>parts tree. length parts = length (ep_pieces plan) \<and> build c (map fst parts) = Inr tree \<and>
     un_payload draft = concat (map (\<lambda>x. fst (snd x)) parts) \<and>
     (\<forall>i < length parts. edit_piece c key plan (word_of_nat i) (ep_pieces plan ! i) = Inr (parts ! i)) \<and>
     unat (cd_total_len (un_desc draft)) = sum_list (map (\<lambda>x. snd (snd x)) parts) \<and>
     unat (cd_chunk_count (un_desc draft)) = length parts \<and> cd_tree_root (un_desc draft) = root c tree \<and>
     unat (cd_version_counter (un_desc draft)) = unat (ep_base_counter plan) + 1 \<and>
     check_against_chunk_size (ep_chunk_size plan) (un_desc draft) = Inr () \<and>
     content_wf (ep_container_version plan) (un_desc draft) \<and> FIRST_EDITING_VERSION \<le> ep_container_version plan \<and>
     cd_editor (un_desc draft) = Some (unsigned_editor
       (session_step c (session_start c (ep_file_id plan) (ep_base_counter plan) (ep_base_root plan)) 1 (root c tree)
          (cd_total_len (un_desc draft))) (ep_journal_head plan) (ep_certified_by plan)) \<and>
     editor_transcript (ep_core_hash plan) (enc_fields (content_fields (un_desc draft))) = Inr (un_transcript draft) \<and>
     un_digest draft = edition_digest c (un_transcript draft)"
proof -
  obtain leaves payload total_len tree counter chunk_count body transcript head where
    n: "ep_pieces plan \<noteq> []" and loop: "edit_loop c key plan (length (ep_pieces plan)) 0 (ep_pieces plan) [] [] 0 = Inr (leaves, payload, total_len)"
    and b: "build c leaves = Inr tree" "next_counter (ep_base_counter plan) = Inr counter"
      "u32_of_usize (length (ep_pieces plan)) = Some chunk_count"
    and head: "head = session_step c (session_start c (ep_file_id plan) (ep_base_counter plan) (ep_base_root plan)) 1 (root c tree) total_len"
    and desc: "un_desc draft = \<lparr>cd_total_len = total_len, cd_chunk_count = chunk_count, cd_tree_root = root c tree, cd_version_counter = counter,
         cd_footer_offset = None, cd_editor = Some (unsigned_editor head (ep_journal_head plan) (ep_certified_by plan))\<rparr>"
    and checks: "check_against_chunk_size (ep_chunk_size plan) (un_desc draft) = Inr ()"
      "encode_body (ep_container_version plan) (un_desc draft) = Inr body"
      "editor_transcript (ep_core_hash plan) body = Inr transcript"
    and draft: "un_transcript draft = transcript" "un_digest draft = edition_digest c transcript" "un_payload draft = payload"
    using assms(3)
    by (auto simp: edit_prepare_def Let_def bindR_eq_Inr ensure_eq_Inr ok_or_eq_Inr map_sum_Inr body_bytes_def)
  obtain parts where parts: "length parts = length (ep_pieces plan)" "leaves = map fst parts" "payload = concat (map (\<lambda>x. fst (snd x)) parts)"
      "unat total_len = sum_list (map (\<lambda>x. snd (snd x)) parts)"
      "\<forall>i < length parts. edit_piece c key plan (word_of_nat i) (ep_pieces plan ! i) = Inr (parts ! i)"
    using edit_loop_parts [OF loop] by auto
  have v: "FIRST_EDITING_VERSION \<le> ep_container_version plan" "length (ep_certified_by plan) \<le> MAX_CERTIFIED_BY_LEN"
    using encode_body_editor_bound [OF checks(2)] by (simp_all add: desc unsigned_editor_def)
  have cc: "unat chunk_count = length (ep_pieces plan)" using b(3) by (simp add: checked_simps)
  then have "chunk_count \<noteq> 0" using n by auto
  then have wf: "content_wf (ep_container_version plan) (un_desc draft)"
    using assms(1,2) v unfolding desc
    by (simp add: content_wf_def editor_wf_def unsigned_editor_def editor_consts root_def root_of_def digests_32_def head session_step_def)
  then have "body = enc_fields (content_fields (un_desc draft))" using checks(2) by (simp add: encode_body_eq)
  moreover have "unat counter = unat (ep_base_counter plan) + 1"
    using b(2) by (simp add: next_counter_def ok_or_eq_Inr checked_simps)
  ultimately show ?thesis
    using parts b(1) cc v(1) checks(1,3) draft wf
    by (intro exI [of _ parts] exI [of _ tree]) (simp add: desc head)
qed


text \<open>
  What one piece becomes: a kept frame stands as it was, nonce, ciphertext and tag; a sealed one is a
  nonce and a ciphertext that opens, at its position, to the plaintext, and gives the same leaf.
\<close>

definition edited_frame :: "Crates \<Rightarrow> bytes \<Rightarrow> EditPlan \<Rightarrow> u32 \<Rightarrow> Piece \<Rightarrow> Leaf \<Rightarrow> bytes \<Rightarrow> bool" where
  "edited_frame c key plan index piece leaf frame \<longleftrightarrow>
     (case piece of
        Keep old \<Rightarrow> frame = old \<and> (\<exists>nonce ct tag. old = nonce @ ct @ tag \<and> length nonce = 24 \<and> length tag = 16 \<and>
          leaf = leaf_of c index nonce tag ct)
      | Seal plaintext seed \<Rightarrow> (\<exists>nonce sealed. frame = nonce @ sealed \<and> length nonce = 24 \<and>
          (\<forall>buf. length plaintext \<le> sb_capacity buf \<longrightarrow>
             (\<exists>out. open_chunk c key (ep_aead plan) (ep_file_id plan) index nonce sealed buf = (Inr leaf, out) \<and>
                sb_as_slice out = plaintext))))"

lemma edit_piece_frame:
  assumes "aead_correct c" and "hkdf_total c" and "edit_piece c key plan index piece = Inr (leaf, frame, len)"
  shows "edited_frame c key plan index piece leaf frame"
proof (cases piece)
  case (Keep old)
  obtain rear ct tag where "split_first_chunk AEAD_NONCE_LEN old = Some (take 24 old, rear)" "split_last_chunk AEAD_TAG_LEN rear = Some (ct, tag)"
    "leaf = leaf_of c index (take 24 old) tag ct" "frame = old" "24 \<le> length old" "rear = drop 24 old"
    using assms(3) Keep by (auto simp: edit_piece_def result_simps split_first_chunk_def AEAD_NONCE_LEN_def split: if_splits)
  moreover from this have "old = take 24 old @ ct @ tag" "length tag = 16"
    by (simp_all add: split_last_chunk_eq AEAD_TAG_LEN_def) (metis append_take_drop_id)
  moreover have "length (take 24 old) = 24" using calculation(5) by simp
  ultimately show ?thesis unfolding edited_frame_def Keep Piece.case by metis
next
  case (Seal plaintext seed)
  then obtain nonce framed where s: "seal_chunk_hedged c key (ep_aead plan) (ep_file_id plan) index seed plaintext = Inr (nonce, leaf, framed)"
    "frame = nonce @ framed" using assms(3) by (auto simp: edit_piece_def bindR_eq_Inr map_sum_Inr)
  then have n: "length nonce = 24" using hedged_nonce_length [OF assms(2)] by (auto simp: seal_chunk_hedged_Inr AEAD_NONCE_LEN_def)
  have "sealed_chunk c key (ep_aead plan) (ep_file_id plan) index plaintext (nonce, leaf, framed)"
    using s(1) by (auto simp: sealed_chunk_def)
  from sealed_chunk_opens [OF assms(1) this, unfolded fst_conv snd_conv] n s(2) show ?thesis
    unfolding edited_frame_def Seal Piece.case by blast
qed

text \<open>Signing a draft: the area with the signature in place decodes, and the edition is accepted.\<close>

lemma signed_edition_reads:
  assumes "hmac_total c" and "ct_eq_sound c" and "digests_32 c"
    and "content_wf v d" and "cd_editor d = Some e" and "cd_version_counter d \<noteq> 0"
    and "editor_transcript core (enc_fields (content_fields d)) = Inr t"
    and "cert_verify_for c (ed_certified_by e) header now = Inr cert"
    and "hd_container_version header = v" and "pol_actions (hd_policy header) Edit \<noteq> None"
    and "verify_pss_sha256 c mont_pow (ec_editor_key cert) (tr_buf t) signature = Inr ()"
  defines "desc \<equiv> d\<lparr>cd_editor := Some (e\<lparr>ed_signature := signature\<rparr>)\<rparr>"
  shows "\<exists>area body. content_encode c mac_key file_id v desc = Inr area \<and>
     (\<forall>rest. decode_verified_with_body c mac_key file_id v (area @ rest) = Inr (desc, body, length area)) \<and>
     verify_edition c mont_pow header core desc body now = Inr (Some
       \<lparr>ve_counter = cd_version_counter d, ve_digest = edition_digest c t, ve_cert = cert, ve_session_head = ed_session_head e\<rparr>)"
proof -
  have len: "length signature = MODULUS_LEN" using assms(11) verify_pss_eq [OF assms(2,3)] by (auto simp: MODULUS_LEN_def)
  note sign = transcript_ignores_signature [OF assms(4,5) len, folded desc_def]
  obtain area where area: "content_encode c mac_key file_id v desc = Inr area"
    "\<forall>rest. decode_verified_with_body c mac_key file_id v (area @ rest) = Inr (desc, enc_fields (content_fields desc), length area)"
    using content_decode_with_body [OF assms(1,2) sign(2)] by blast
  have "editor_transcript core (enc_fields (content_fields desc)) = Inr t"
    using assms(7) sign(1) by (simp add: editor_transcript_def)
  moreover have "FIRST_EDITING_VERSION \<le> v" using assms(4,5) by (simp add: content_wf_def)
  ultimately have "verify_edition c mont_pow header core desc (enc_fields (content_fields desc)) now = Inr (Some
       \<lparr>ve_counter = cd_version_counter d, ve_digest = edition_digest c t, ve_cert = cert, ve_session_head = ed_session_head e\<rparr>)"
    using assms(6,8-11) by (auto simp: verify_edition_def desc_def not_less)
  with area show ?thesis by blast
qed

text \<open>
  C6.  An edition that is written is an edition that is read.  Let \<open>edit_prepare\<close> return a draft, let
  the certificate in the plan hold for the file, whose format is the plan's and whose policy allows
  editing, and let a signature of the draft's message pass under the certified key.  Then
  \<open>edit_finish\<close> produces an area that, whatever follows it, decodes under the same key to the new
  description, and \<open>verify_edition\<close> accepts it: with the counter one above the base, the digest
  announced in the draft and the certified editor.  The payload is the frames one after the other,
  each kept as it was or opening to the new plaintext, and the root in the description is that of
  the tree over their leaves.
\<close>

theorem edition_written_verifies:
  assumes "hmac_total c" and "ct_eq_sound c" and "digests_32 c" and "aead_correct c" and "hkdf_total c"
    and "\<forall>j. ep_journal_head plan = Some j \<longrightarrow> length (jh_root j) = 32"
    and "edit_prepare c key plan = Inr draft"
    and "cert_verify_for c (ep_certified_by plan) header now = Inr cert"
    and "hd_container_version header = ep_container_version plan" and "pol_actions (hd_policy header) Edit \<noteq> None"
    and "verify_pss_sha256 c mont_pow (ec_editor_key cert) (tr_buf (un_transcript draft)) signature = Inr ()"
  shows "\<exists>desc area tree leaves frames.
     edit_finish c draft signature mac_key file_id (ep_container_version plan) = Inr (desc, area, concat frames) \<and>
     unat (cd_version_counter desc) = unat (ep_base_counter plan) + 1 \<and>
     (\<forall>rest. \<exists>body. decode_verified_with_body c mac_key file_id (ep_container_version plan) (area @ rest) = Inr (desc, body, length area) \<and>
        verify_edition c mont_pow header (ep_core_hash plan) desc body now = Inr (Some
          \<lparr>ve_counter = cd_version_counter desc, ve_digest = un_digest draft, ve_cert = cert,
           ve_session_head = session_step c (session_start c (ep_file_id plan) (ep_base_counter plan) (ep_base_root plan)) 1
             (cd_tree_root desc) (cd_total_len desc)\<rparr>)) \<and>
     length leaves = length (ep_pieces plan) \<and> length frames = length (ep_pieces plan) \<and>
     build c leaves = Inr tree \<and> cd_tree_root desc = root c tree \<and>
     (\<forall>i < length (ep_pieces plan). edited_frame c key plan (word_of_nat i) (ep_pieces plan ! i) (leaves ! i) (frames ! i))"
proof -
  obtain parts tree where parts: "length parts = length (ep_pieces plan)" "build c (map fst parts) = Inr tree"
     "un_payload draft = concat (map (\<lambda>x. fst (snd x)) parts)"
     "\<forall>i < length parts. edit_piece c key plan (word_of_nat i) (ep_pieces plan ! i) = Inr (parts ! i)"
    and d: "cd_tree_root (un_desc draft) = root c tree" "unat (cd_version_counter (un_desc draft)) = unat (ep_base_counter plan) + 1"
     "content_wf (ep_container_version plan) (un_desc draft)" "FIRST_EDITING_VERSION \<le> ep_container_version plan"
     "cd_editor (un_desc draft) = Some (unsigned_editor
       (session_step c (session_start c (ep_file_id plan) (ep_base_counter plan) (ep_base_root plan)) 1 (root c tree)
          (cd_total_len (un_desc draft))) (ep_journal_head plan) (ep_certified_by plan))"
     "editor_transcript (ep_core_hash plan) (enc_fields (content_fields (un_desc draft))) = Inr (un_transcript draft)"
     "un_digest draft = edition_digest c (un_transcript draft)"
    using edit_prepare_parts [OF assms(3,6,7)] by blast
  define e where "e = the (cd_editor (un_desc draft))"
  define desc where "desc = (un_desc draft)\<lparr>cd_editor := Some (e\<lparr>ed_signature := signature\<rparr>)\<rparr>"
  have e: "cd_editor (un_desc draft) = Some e" "cd_version_counter (un_desc draft) \<noteq> 0" "ed_certified_by e = ep_certified_by plan"
      "ed_session_head e = session_step c (session_start c (ep_file_id plan) (ep_base_counter plan) (ep_base_root plan)) 1
        (cd_tree_root desc) (cd_total_len desc)"
    using d(1,2,5) by (auto simp: e_def unsigned_editor_def desc_def)
  have desc: "cd_tree_root desc = root c tree" "cd_version_counter desc = cd_version_counter (un_desc draft)"
    using d(1) by (simp_all add: desc_def)
  obtain area body where area: "content_encode c mac_key file_id (ep_container_version plan) desc = Inr area"
    "\<forall>rest. decode_verified_with_body c mac_key file_id (ep_container_version plan) (area @ rest) = Inr (desc, body, length area)"
    and ver: "verify_edition c mont_pow header (ep_core_hash plan) desc body now = Inr (Some
          \<lparr>ve_counter = cd_version_counter desc, ve_digest = un_digest draft, ve_cert = cert,
           ve_session_head = session_step c (session_start c (ep_file_id plan) (ep_base_counter plan) (ep_base_root plan)) 1
             (cd_tree_root desc) (cd_total_len desc)\<rparr>)"
    using signed_edition_reads [OF assms(1-3) d(3) e(1,2) d(6) assms(8) [folded e(3)] assms(9-11), folded desc_def]
    unfolding desc(2) d(7) e(4) [symmetric] by blast
  have frames: "edited_frame c key plan (word_of_nat i) (ep_pieces plan ! i) (map fst parts ! i) (map (\<lambda>x. fst (snd x)) parts ! i)"
    if "i < length (ep_pieces plan)" for i
    using that parts(1,4) edit_piece_frame [OF assms(4,5), of key plan "word_of_nat i" "ep_pieces plan ! i"] by (cases "parts ! i") auto
  have fin: "edit_finish c draft signature mac_key file_id (ep_container_version plan) =
      Inr (desc, area, concat (map (\<lambda>x. fst (snd x)) parts))"
    using area(1) e(1) parts(3) by (simp add: edit_finish_def Let_def desc_def)
  have read: "\<forall>rest. \<exists>body. decode_verified_with_body c mac_key file_id (ep_container_version plan) (area @ rest) = Inr (desc, body, length area) \<and>
      verify_edition c mont_pow header (ep_core_hash plan) desc body now = Inr (Some
          \<lparr>ve_counter = cd_version_counter desc, ve_digest = un_digest draft, ve_cert = cert,
           ve_session_head = session_step c (session_start c (ep_file_id plan) (ep_base_counter plan) (ep_base_root plan)) 1
             (cd_tree_root desc) (cd_total_len desc)\<rparr>)"
    using area(2) ver by blast
  show ?thesis
    by (intro exI [of _ desc], intro exI [of _ area], intro exI [of _ tree], intro exI [of _ "map fst parts"],
        intro exI [of _ "map (\<lambda>x. fst (snd x)) parts"])
      (use fin read parts(1,2) frames desc(1) d(2) in \<open>auto simp: desc(2) simp del: nth_map\<close>)
qed


text \<open>A file, an editor's certificate and a plan on which the statements above are run.\<close>

definition demo_edit_header :: Header where
  "demo_edit_header = demo_header\<lparr>hd_policy := allow Edit demo_policy\<rparr>"

definition demo_cert :: EditorCert where
  "demo_cert = \<lparr>ec_file_id = hd_file_id demo_header, ec_device = replicate 32 2, ec_editor_key = demo_modulus, ec_not_after = 1000,
     ec_issuer = hd_author_key demo_header, ec_signature = replicate 32 0 @ hd_author_key demo_header\<rparr>"

definition demo_cert_bytes :: bytes where
  "demo_cert_bytes = enc_fields (cert_fields demo_cert @ [(CERT_T_SIGNATURE, ec_signature demo_cert)])"

definition demo_edit_plan :: EditPlan where
  "demo_edit_plan = \<lparr>ep_file_id = hd_file_id demo_header, ep_aead = XChaCha20Poly1305, ep_chunk_size = 4096, ep_container_version = 5,
     ep_core_hash = replicate 32 8, ep_base_counter = 0, ep_base_root = replicate 32 3, ep_certified_by = demo_cert_bytes,
     ep_journal_head = None, ep_pieces = [Seal [1, 2, 3] (replicate 32 4)]\<rparr>"

lemma demo_cert_ok: "cert_wf demo_cert" "length demo_cert_bytes = 451"
  "cert_verify_for demo_crates demo_cert_bytes demo_edit_header (Some 5) = Inr demo_cert"
proof -
  show wf: "cert_wf demo_cert" by (simp add: cert_wf_def demo_cert_def demo_header_def MODULUS_LEN_def demo_modulus_ok)
  show "length demo_cert_bytes = 451" using cert_fields_ok(2) [OF wf] by (simp add: demo_cert_bytes_def)
  show "cert_verify_for demo_crates demo_cert_bytes demo_edit_header (Some 5) = Inr demo_cert"
    using cert_decode_eq [OF wf]
    by (simp add: cert_verify_for_def demo_cert_bytes_def demo_edit_header_def sign_verify_def demo_crates_def)
      (simp add: demo_cert_def demo_header_def)
qed

lemma demo_prepares: "\<exists>draft. edit_prepare demo_crates key demo_edit_plan = Inr draft"
proof -
  obtain nonce leaf out where sealed: "seal_chunk_hedged demo_crates key XChaCha20Poly1305 (replicate 16 7) 0 (replicate 32 4) [1, 2, 3] = Inr (nonce, leaf, out)"
    using seal_chunk_hedged_total [OF demo_crates_more_laws(2) demo_aead_total demo_crates_more_laws(1), of "replicate 16 7" "[1, 2, 3]" key 0 "replicate 32 4"] by auto
  define tree where "tree = \<lparr>levels = build_levels demo_crates [leaf_digest leaf]\<rparr>"
  have loop: "edit_loop demo_crates key demo_edit_plan 1 0 [Seal [1, 2, 3] (replicate 32 4)] [] [] 0 = Inr ([leaf], nonce @ out, 3)"
    using sealed by (simp add: edit_piece_def demo_edit_plan_def demo_header_def u32_of_usize_def Let_def checked_add_def)
  let ?head = "session_step demo_crates (session_start demo_crates (replicate 16 7) 0 (replicate 32 3)) 1 (root demo_crates tree) 3"
  let ?d = "\<lparr>cd_total_len = 3, cd_chunk_count = 1, cd_tree_root = root demo_crates tree, cd_version_counter = 1, cd_footer_offset = None,
    cd_editor = Some (unsigned_editor ?head None demo_cert_bytes)\<rparr>"
  have wf: "content_wf 5 ?d"
    using demo_crates_laws(3) demo_cert_ok(2)
    by (simp add: content_wf_def editor_wf_def unsigned_editor_def editor_consts root_def root_of_def digests_32_def session_step_def
        FIRST_EDITING_VERSION_def)
  obtain t where "editor_transcript (replicate 32 8) (enc_fields (content_fields ?d)) = Inr t"
    using content_cut [OF wf] by (simp add: editor_transcript_def)
  moreover have "check_against_chunk_size 4096 ?d = Inr ()"
  proof -
    have "\<exists>l. layout_new 4096 1 3 0 = Inr l" by (simp add: layout_new_eq_Inr layout_ok_def chunks_fit_def chunk_size_4096)
    then show ?thesis by (auto simp: check_against_chunk_size_def)
  qed
  ultimately show ?thesis
    using loop encode_body_eq [OF wf]
    by (simp add: edit_prepare_def demo_edit_plan_def demo_header_def Let_def build_def tree_def next_counter_def checked_add_def u32_of_usize_def body_bytes_def)
qed


lemma demo_edit_allowed: "hd_container_version demo_edit_header = 5" "pol_actions (hd_policy demo_edit_header) Edit \<noteq> None"
  by (simp_all add: demo_edit_header_def demo_header_def allow_def)

theorem edition_written_verifies_witness:
  "\<exists>draft signature desc area body edition. edit_prepare demo_crates [7] demo_edit_plan = Inr draft \<and>
     edit_finish demo_crates draft signature [8] (replicate 16 7) 5 = Inr (desc, area, un_payload draft) \<and>
     decode_verified_with_body demo_crates [8] (replicate 16 7) 5 (area @ [1]) = Inr (desc, body, length area) \<and>
     verify_edition demo_crates (\<lambda>s e n. s) demo_edit_header (replicate 32 8) desc body (Some 5) = Inr (Some edition) \<and>
     unat (ve_counter edition) = 1 \<and> ve_digest edition = un_digest draft"
proof -
  obtain draft where draft: "edit_prepare demo_crates [7] demo_edit_plan = Inr draft" using demo_prepares by blast
  have plan: "ep_journal_head demo_edit_plan = None" "ep_certified_by demo_edit_plan = demo_cert_bytes" "ep_container_version demo_edit_plan = 5"
    "ep_core_hash demo_edit_plan = replicate 32 8" "ep_base_counter demo_edit_plan = 0"
    by (simp_all add: demo_edit_plan_def)
  define signature where "signature = pss_encode demo_crates (tr_buf (un_transcript draft)) (replicate 32 9)"
  have "ec_editor_key demo_cert = demo_modulus" by (simp add: demo_cert_def)
  then have sig: "verify_pss_sha256 demo_crates (\<lambda>s e n. s) (ec_editor_key demo_cert) (tr_buf (un_transcript draft)) signature = Inr ()"
    using demo_pss_verifies by (simp add: signature_def)
  have pay: "edit_finish c draft s k f v = Inr (desc, area, p) \<Longrightarrow> p = un_payload draft" for c s k f v desc area p
    by (auto simp: edit_finish_def Let_def bindR_eq_Inr)
  note cert = demo_cert_ok(3) [folded plan(2)] and version = demo_edit_allowed(1) [folded plan(3)]
  have "\<forall>j. ep_journal_head demo_edit_plan = Some j \<longrightarrow> length (jh_root j) = 32" by (simp add: plan)
  from edition_written_verifies [OF demo_crates_laws(2,1,3) demo_crates_more_laws(2,1) this draft cert version demo_edit_allowed(2) sig,
      of "[8]" "replicate 16 7"]
  obtain desc area p where fin: "edit_finish demo_crates draft signature [8] (replicate 16 7) 5 = Inr (desc, area, p)"
      "unat (cd_version_counter desc) = 1"
    and read: "\<forall>rest. \<exists>body. decode_verified_with_body demo_crates [8] (replicate 16 7) 5 (area @ rest) = Inr (desc, body, length area) \<and>
        (\<exists>edition. verify_edition demo_crates (\<lambda>s e n. s) demo_edit_header (replicate 32 8) desc body (Some 5) = Inr (Some edition) \<and>
           ve_counter edition = cd_version_counter desc \<and> ve_digest edition = un_digest draft)"
    unfolding plan by fastforce
  from read [rule_format, of "[1]"] fin pay [OF fin(1)] draft show ?thesis by metis
qed


definition demo_edition :: ContentDesc where
  "demo_edition = \<lparr>cd_total_len = 3, cd_chunk_count = 1, cd_tree_root = replicate 32 1, cd_version_counter = 1, cd_footer_offset = None,
     cd_editor = Some (unsigned_editor (replicate 32 2) None demo_cert_bytes)\<rparr>"

lemma demo_edition_wf: "content_wf 5 demo_edition" "cd_editor demo_edition = Some (unsigned_editor (replicate 32 2) None demo_cert_bytes)"
  using demo_cert_ok(2)
  by (simp_all add: content_wf_def editor_wf_def unsigned_editor_def editor_consts demo_edition_def FIRST_EDITING_VERSION_def)

theorem edition_accepted_authentic_witness:
  "\<exists>area desc body read edition editor. decode_verified_with_body demo_crates [8] (hd_file_id demo_edit_header) 5 area = Inr (desc, body, read) \<and>
     verify_edition demo_crates (\<lambda>s e n. s) demo_edit_header (replicate 32 8) desc body (Some 5) = Inr (Some edition) \<and>
     rule (hd_policy demo_edit_header) Edit = RuleAllow \<and>
     cd_editor desc = Some editor \<and> certified demo_crates (ed_certified_by editor) demo_edit_header (Some 5) (ve_cert edition)"
proof -
  let ?e = "unsigned_editor (replicate 32 2) None demo_cert_bytes"
  obtain t where t: "editor_transcript (replicate 32 8) (enc_fields (content_fields demo_edition)) = Inr t"
    using content_cut [OF demo_edition_wf] by (simp add: editor_transcript_def)
  have facts: "cd_version_counter demo_edition \<noteq> 0" "ed_certified_by ?e = demo_cert_bytes" "ec_editor_key demo_cert = demo_modulus"
    by (simp_all add: demo_edition_def unsigned_editor_def demo_cert_def)
  have cert: "cert_verify_for demo_crates (ed_certified_by ?e) demo_edit_header (Some 5) = Inr demo_cert"
    using demo_cert_ok(3) facts(2) by simp
  have sig: "verify_pss_sha256 demo_crates (\<lambda>s e n. s) (ec_editor_key demo_cert) (tr_buf t)
      (pss_encode demo_crates (tr_buf t) (replicate 32 9)) = Inr ()"
    using demo_pss_verifies facts(3) by simp
  obtain area body desc edition where r: "decode_verified_with_body demo_crates [8] (hd_file_id demo_edit_header) 5 (area @ []) = Inr (desc, body, length area)"
    "verify_edition demo_crates (\<lambda>s e n. s) demo_edit_header (replicate 32 8) desc body (Some 5) = Inr (Some edition)"
    using signed_edition_reads [OF demo_crates_laws(2,1,3) demo_edition_wf facts(1) t cert demo_edit_allowed sig,
        of "[8]" "hd_file_id demo_edit_header"] by blast
  have "policy_wf 5 (allow Edit demo_policy)" by (auto simp: policy_wf_def normal_policy_def demo_defs split: if_splits)
  then obtain hbs ph where "header_decode hbs = Inr ph" "demo_edit_header = ph_header ph"
    using demo_header_with_decodes unfolding demo_edit_header_def by metis
  moreover have "hd_container_version demo_edit_header = 5" by (rule demo_edit_allowed)
  ultimately show ?thesis
    using edition_accepted_authentic [OF demo_crates_laws(1,3) _ _ r(1) [folded \<open>hd_container_version demo_edit_header = 5\<close>] r(2)] r by blast
qed

text \<open>
  C7.  An editor's signature covers the whole description.  If two bodies decode to descriptions
  with editors and what the editor signs of them (the body less the signature's record) is the
  same, then the descriptions agree in everything, lengths, chunk count, root, counter, footer and
  the editor's record, but the signature itself.
\<close>

theorem editor_message_binds:
  assumes "decode_body version body = Inr desc" and "cd_editor desc = Some editor" and "length body < 2 ^ 64"
    and "decode_body version body' = Inr desc'" and "cd_editor desc' = Some editor'" and "length body' < 2 ^ 64"
    and "body_without_signature body = body_without_signature body'"
  shows "desc' = desc\<lparr>cd_editor := Some (editor\<lparr>ed_signature := ed_signature editor'\<rparr>)\<rparr>"
  using message_determines_desc [OF assms(1,2) _ assms(4,5) _ assms(7)] assms(3,6) by simp

theorem editor_message_binds_witness:
  "let e = unsigned_editor (replicate 32 2) None demo_cert_bytes;
       d = demo_edition\<lparr>cd_editor := Some (e\<lparr>ed_signature := replicate 256 1\<rparr>)\<rparr>;
       b = enc_fields (content_fields demo_edition); b' = enc_fields (content_fields d)
   in decode_body 5 b = Inr demo_edition \<and> decode_body 5 b' = Inr d \<and> body_without_signature b = body_without_signature b' \<and>
      d = demo_edition\<lparr>cd_editor := Some (e\<lparr>ed_signature := replicate 256 1\<rparr>)\<rparr>"
proof -
  let ?e = "unsigned_editor (replicate 32 2) None demo_cert_bytes"
  let ?d = "demo_edition\<lparr>cd_editor := Some (?e\<lparr>ed_signature := replicate 256 1\<rparr>)\<rparr>"
  have len: "length (replicate 256 (1 :: byte)) = MODULUS_LEN" by (simp add: MODULUS_LEN_def)
  note sign = transcript_ignores_signature [OF demo_edition_wf len]
  note dec = decode_body_eq [OF demo_edition_wf(1)] decode_body_eq [OF sign(2)]
  have "length (enc_fields (content_fields demo_edition)) < 2 ^ 64" "length (enc_fields (content_fields ?d)) < 2 ^ 64"
    using content_fields_ok(2) [OF demo_edition_wf(1)] content_fields_ok(2) [OF sign(2)] by simp_all
  from editor_message_binds [OF dec(1) demo_edition_wf(2) this(1) dec(2) _ this(2) sign(1) [symmetric]] dec sign(1)
  show ?thesis by (simp add: Let_def)
qed

end
