(* ===== verification/OC_Consistency.thy ===== *)
theory OC_Consistency
  imports OC_Merkle
begin

text \<open>
  Consistency proofs of \<^verbatim>\<open>oc-crypto/src/merkle.rs\<close> are sound: \<open>verify_consistency\<close> accepts a proof between
  two trees only if the leaves of the old one are the first leaves of the new one, or two of the
  messages hashed on the way collide.  The loop of the verifier climbs the levels of the new tree
  with the node that ends the old one; \<open>loop_sound\<close> states what its two accumulators are there.
\<close>

section \<open>Levels and their beginnings\<close>

lemma pair_up_take: "k mod 2 = 0 \<Longrightarrow> k \<le> length xs \<Longrightarrow> pair_up c (take k xs) = take (k div 2) (pair_up c xs)"
proof -
  assume k: "k mod 2 = 0" "k \<le> length xs"
  have "pair_up c xs = pair_up c (take k xs) @ pair_up c (drop k xs)"
    using pair_up_append [of "take k xs" c "drop k xs"] k by (simp add: even_iff_mod_2_eq_zero)
  moreover have "length (pair_up c (take k xs)) = k div 2" using k by (auto elim: evenE simp: even_iff_mod_2_eq_zero [symmetric])
  ultimately show ?thesis by simp
qed

text \<open>The apex above a level does not depend on whether its one node is passed up again.\<close>

lemma apex_pair_up: "xs \<noteq> [] \<Longrightarrow> apex_of c (pair_up c xs) = apex_of c xs"
proof (cases "length xs > 1")
  case False
  moreover assume "xs \<noteq> []"
  ultimately have "pair_up c xs = xs" by (cases xs; cases "tl xs") auto
  then show ?thesis by simp
qed (simp add: level_steps(3))

lemma tree_messages_pair_up: "set (tree_messages c (pair_up c xs)) \<subseteq> set (tree_messages c xs)"
proof (cases "length xs > 1")
  case True
  then show ?thesis by (simp add: tree_messages.simps [of c xs])
next
  case False
  then have "pair_up c xs = xs" by (cases xs; cases "tl xs") auto
  then show ?thesis by simp
qed

section \<open>The loop of the verifier\<close>

text \<open>The messages the loop hashes for the accumulator of the new tree.\<close>

fun loop_messages :: "Crates \<Rightarrow> bytes list \<Rightarrow> nat \<Rightarrow> nat \<Rightarrow> bytes \<Rightarrow> bytes list" where
  "loop_messages c [] fnode snode new_acc = []"
| "loop_messages c (s # rest) fnode snode new_acc =
     (if snode = 0 then []
      else if fnode mod 2 = 1 \<or> fnode = snode then
        node_message s new_acc #
        (let (fnode, snode) = skip_even fnode snode in loop_messages c rest (fnode div 2) (snode div 2) (node_of c s new_acc))
      else node_message new_acc s # loop_messages c rest (fnode div 2) (snode div 2) (node_of c new_acc s))"

lemma skip_even_promoted: "f mod 2 = 0 \<Longrightarrow> f \<noteq> 0 \<Longrightarrow> skip_even f s = skip_even (f div 2) (s div 2)"
  by (subst skip_even.simps) simp

lemma skip_even_odd: "f mod 2 = 1 \<Longrightarrow> skip_even f s = (f, s)"
  by (subst skip_even.simps) simp

text \<open>A last node without a partner is passed up unchanged, in both trees.\<close>

lemma loop_promoted:
  assumes "f mod 2 = 0" and "f \<noteq> 0"
  shows "consistency_loop c p f f old new = (if p = [] then Some (f, f, old, new) else consistency_loop c p (f div 2) (f div 2) old new)"
    and "loop_messages c p f f new = loop_messages c p (f div 2) (f div 2) new"
  using assms by (cases p; auto simp: skip_even_promoted [OF assms])+


text \<open>The end of the old tree at a level: the nodes the trees share, and the old last node.\<close>

lemma old_level_odd:
  assumes "f mod 2 = 1" and "f < length xs"
  shows "pair_up c (take f xs @ [a]) = take (f div 2) (pair_up c xs) @ [node_of c (xs ! (f - 1)) a]"
proof -
  have f: "(f - 1) mod 2 = 0" "f = f - 1 + 1" "(f - 1) div 2 = f div 2" using assms(1) by presburger+
  have "take f xs = take (f - 1) xs @ [xs ! (f - 1)]"
    using assms(2) f(2) take_Suc_conv_app_nth [of "f - 1" xs] by simp
  then have "pair_up c (take f xs @ [a]) = pair_up c (take (f - 1) xs @ [xs ! (f - 1), a])" by simp
  also have "\<dots> = pair_up c (take (f - 1) xs) @ pair_up c [xs ! (f - 1), a]"
    using f(1) assms(2) by (intro pair_up_append) (simp add: even_iff_mod_2_eq_zero)
  also have "pair_up c (take (f - 1) xs) = take (f div 2) (pair_up c xs)"
    using pair_up_take [OF f(1), of xs c] assms(2) f(3) by simp
  finally show ?thesis by simp
qed

lemma old_level_even:
  assumes "f mod 2 = 0" and "f < length xs"
  shows "pair_up c (take f xs @ [a]) = take (f div 2) (pair_up c xs) @ [a]"
  using pair_up_append [of "take f xs" c "[a]"] pair_up_take [of f xs c] assms by (simp add: even_iff_mod_2_eq_zero)

text \<open>Two hashed pairs with one digest are the same pair, or a collision.\<close>

lemma node_of_inj:
  assumes "node_of c a b = node_of c a' b'" and "length a = 32" and "length a' = 32"
    and "node_message a b \<in> set ms" and "node_message a' b' \<in> set ns"
  shows "a = a' \<and> b = b' \<or> collision c ms ns"
proof (cases "node_message a b = node_message a' b'")
  case True
  then show ?thesis using assms(2,3) by (simp add: node_message_eq)
next
  case False
  then show ?thesis using assms(1,4,5) by (auto simp: collision_def node_of_message)
qed

lemma loop_sound:
  assumes "consistency_loop c p f (length xs - 1) old new = Some (f', 0, old', apex_of c xs)"
    and "f < length xs" and "digests_32 c" and "\<forall>x \<in> set xs. length x = 32" and "\<forall>x \<in> set p. length x = 32" and "length new = 32"
  shows "new = xs ! f \<and> old' = apex_of c (take f xs @ [old]) \<or>
     collision c (tree_messages c xs) (loop_messages c p f (length xs - 1) new)"
  using assms
proof (induction c xs arbitrary: p f old new rule: build_levels.induct)
  case (1 c xs)
  note pr = "1.prems"
  show ?case
  proof (cases "length xs > 1")
    case False
    then obtain x where x: "xs = [x]" "f = 0" using pr(2) by (cases xs) auto
    then have "p = []" using pr(1) by (cases p) auto
    then show ?thesis using pr(1) x by (simp add: level_steps(4))
  next
    case True
    let ?ys = "pair_up c xs" and ?s = "length xs - 1"
    have half: "f div 2 < length ?ys" "length ?ys - 1 = ?s div 2"
      using half_less [OF pr(2)] True by (simp_all only: length_pair_up)
    have ys32: "\<forall>x \<in> set ?ys. length x = 32" by (rule pair_up_32 [OF pr(3,4)])
    have tm: "tree_messages c xs = level_messages xs @ tree_messages c ?ys" using True by (simp add: tree_messages.simps [of c xs])
    have IH: "b = ?ys ! (f div 2) \<and> old' = apex_of c (take (f div 2) ?ys @ [a]) \<or>
        collision c (tree_messages c ?ys) (loop_messages c q (f div 2) (?s div 2) b)"
      if "consistency_loop c q (f div 2) (?s div 2) a b = Some (f', 0, old', apex_of c xs)" "\<forall>x \<in> set q. length x = 32" "length b = 32" for q a b
      using "1.IH" [OF True, of q "f div 2" a b] that half pr(3) ys32 by (simp add: level_steps(3) [OF True])
    have "?s \<noteq> 0" using True by simp
    have "p \<noteq> []" using pr(1) \<open>?s \<noteq> 0\<close> by auto
    then obtain sib rest where p: "p = sib # rest" by (cases p) auto
    have s32: "length sib = 32" "\<forall>x \<in> set rest. length x = 32" using pr(5) by (simp_all add: p)
    have promoted_iff: "length xs mod 2 = 1 \<and> f + 1 = length xs \<longleftrightarrow> f mod 2 = 0 \<and> f = ?s" using True by presburger
    consider (odd) "f mod 2 = 1" | (last) "f mod 2 = 0" "f = ?s" | (even) "f mod 2 = 0" "f \<noteq> ?s" by (cases "f mod 2 = 1"; cases "f = ?s") auto
    then show ?thesis
    proof cases
      case last
      have "f \<noteq> 0" using last \<open>?s \<noteq> 0\<close> by simp
      note pm = loop_promoted [OF last(1) this]
      have "consistency_loop c p (f div 2) (?s div 2) old new = Some (f', 0, old', apex_of c xs)"
        using pr(1) pm(1) [of c p old new] \<open>p \<noteq> []\<close> last(2) by simp
      moreover have "loop_messages c p f ?s new = loop_messages c p (f div 2) (?s div 2) new" using pm(2) last(2) by simp
      moreover have "?ys ! (f div 2) = xs ! f" using nth_pair_up [OF pr(2), of c] promoted_iff last by simp
      moreover have "apex_of c (take (f div 2) ?ys @ [old]) = apex_of c (take f xs @ [old])"
        using old_level_even [OF last(1) pr(2), of c old] apex_pair_up [of "take f xs @ [old]" c] by simp
      ultimately show ?thesis using IH [of p old new] pr(5,6) tm by (auto intro: collision_mono)
    next
      case odd
      have sk: "skip_even f ?s = (f, ?s)" by (rule skip_even_odd [OF odd])
      have "consistency_loop c rest (f div 2) (?s div 2) (node_of c sib old) (node_of c sib new) = Some (f', 0, old', apex_of c xs)"
        using pr(1) odd \<open>?s \<noteq> 0\<close> by (simp add: p sk [simplified])
      from IH [OF this s32(2)] have "node_of c sib new = ?ys ! (f div 2) \<and> old' = apex_of c (take (f div 2) ?ys @ [node_of c sib old]) \<or>
          collision c (tree_messages c ?ys) (loop_messages c rest (f div 2) (?s div 2) (node_of c sib new))"
        using pr(3) by (simp add: length_node_of)
      moreover have ms: "loop_messages c p f ?s new = node_message sib new # loop_messages c rest (f div 2) (?s div 2) (node_of c sib new)"
        using odd \<open>?s \<noteq> 0\<close> by (simp add: p sk [simplified])
      moreover have "sib = xs ! (f - 1) \<and> new = xs ! f \<or> collision c (tree_messages c xs) (loop_messages c p f ?s new)"
        if eq: "node_of c sib new = ?ys ! (f div 2)"
      proof -
        have P: "\<not> (length xs mod 2 = 1 \<and> f + 1 = length xs)" using odd by presburger
        have "node_of c (xs ! (f - 1)) (xs ! f) = node_of c sib new"
          using parent_of_siblings [OF pr(2) P, of c] eq odd by (simp add: sibling_def)
        moreover have "node_message (xs ! (f - 1)) (xs ! f) \<in> set (tree_messages c xs)"
          using level_message_at [OF pr(2) P] odd tm by (simp add: sibling_def)
        moreover have "length (xs ! (f - 1)) = 32" using pr(2,4) by simp
        moreover have "node_message sib new \<in> set (loop_messages c p f ?s new)" unfolding ms by simp
        ultimately show ?thesis using node_of_inj [of c "xs ! (f - 1)" "xs ! f" sib new, OF _ _ s32(1)] by blast
      qed
      moreover have "apex_of c (take (f div 2) ?ys @ [node_of c (xs ! (f - 1)) old]) = apex_of c (take f xs @ [old])"
        using old_level_odd [OF odd pr(2), of c old] apex_pair_up [of "take f xs @ [old]" c] by simp
      ultimately show ?thesis using tm by (auto intro: collision_mono)
    next
      case even
      have lt: "f + 1 < length xs" using even pr(2) True by linarith
      have "consistency_loop c rest (f div 2) (?s div 2) old (node_of c new sib) = Some (f', 0, old', apex_of c xs)"
        using pr(1) even \<open>?s \<noteq> 0\<close> by (simp add: p)
      from IH [OF this s32(2)] have "node_of c new sib = ?ys ! (f div 2) \<and> old' = apex_of c (take (f div 2) ?ys @ [old]) \<or>
          collision c (tree_messages c ?ys) (loop_messages c rest (f div 2) (?s div 2) (node_of c new sib))"
        using pr(3) by (simp add: length_node_of)
      moreover have ms: "loop_messages c p f ?s new = node_message new sib # loop_messages c rest (f div 2) (?s div 2) (node_of c new sib)"
        using even \<open>?s \<noteq> 0\<close> by (simp add: p)
      moreover have "new = xs ! f \<or> collision c (tree_messages c xs) (loop_messages c p f ?s new)"
        if eq: "node_of c new sib = ?ys ! (f div 2)"
      proof -
        have P: "\<not> (length xs mod 2 = 1 \<and> f + 1 = length xs)" using lt by simp
        have "node_of c (xs ! f) (xs ! (f + 1)) = node_of c new sib"
          using parent_of_siblings [OF pr(2) P, of c] eq even by (simp add: sibling_def)
        moreover have "node_message (xs ! f) (xs ! (f + 1)) \<in> set (tree_messages c xs)"
          using level_message_at [OF pr(2) P] even tm by (simp add: sibling_def)
        moreover have "length (xs ! f) = 32" using pr(2,4) by simp
        moreover have "node_message new sib \<in> set (loop_messages c p f ?s new)" unfolding ms by simp
        ultimately show ?thesis using node_of_inj [of c "xs ! f" "xs ! (f + 1)" new sib, OF _ _ pr(6)] by blast
      qed
      moreover have "apex_of c (take (f div 2) ?ys @ [old]) = apex_of c (take f xs @ [old])"
        using old_level_even [OF even(1) pr(2), of c old] apex_pair_up [of "take f xs @ [old]" c] by simp
      ultimately show ?thesis using tm by (auto intro: collision_mono)
    qed
  qed
qed


section \<open>Prefixes\<close>

text \<open>While the old tree's last index is odd, both trees are read one level higher.\<close>

lemma skip_odd_levels:
  assumes "f < length xs" and "skip_odd f (length xs - 1) = (f', s')" and "digests_32 c" and "\<forall>x \<in> set xs. length x = 32"
  shows "\<exists>ys. length ys - 1 = s' \<and> f' < length ys \<and> apex_of c ys = apex_of c xs \<and>
     apex_of c (take (f' + 1) ys) = apex_of c (take (f + 1) xs) \<and> set (tree_messages c ys) \<subseteq> set (tree_messages c xs) \<and>
     (\<forall>x \<in> set ys. length x = 32)"
  using assms
proof (induction f "length xs - 1" arbitrary: xs rule: skip_odd.induct)
  case (1 f xs)
  show ?case
  proof (cases "f mod 2 = 1")
    case False
    then show ?thesis using "1.prems" by (intro exI [of _ xs]) (auto simp: skip_odd.simps [of f])
  next
    case True
    let ?ys = "pair_up c xs"
    have half: "f div 2 < length ?ys" "(length xs - 1) div 2 = length ?ys - 1"
      using half_less [OF "1.prems"(1)] by (simp_all only: length_pair_up)
    have ys32: "\<forall>x \<in> set ?ys. length x = 32" by (rule pair_up_32 [OF "1.prems"(3,4)])
    have "skip_odd (f div 2) (length ?ys - 1) = (f', s')"
      using "1.prems"(2) True half(2) by (simp add: skip_odd.simps [of f])
    from "1.hyps" [OF True half(2) half(1) this "1.prems"(3) ys32] obtain zs where zs: "length zs - 1 = s'" "f' < length zs"
      "apex_of c zs = apex_of c ?ys" "apex_of c (take (f' + 1) zs) = apex_of c (take (f div 2 + 1) ?ys)"
      "set (tree_messages c zs) \<subseteq> set (tree_messages c ?ys)" "\<forall>x \<in> set zs. length x = 32" by blast
    have even: "(f + 1) mod 2 = 0" "(f + 1) div 2 = f div 2 + 1" using True by presburger+
    have "xs \<noteq> []" using "1.prems"(1) by auto
    then have "apex_of c ?ys = apex_of c xs" "apex_of c (take (f div 2 + 1) ?ys) = apex_of c (take (f + 1) xs)"
      using apex_pair_up [of xs c] apex_pair_up [of "take (f + 1) xs" c] pair_up_take [OF even(1), of xs c] "1.prems"(1) even(2) by simp_all
    with zs tree_messages_pair_up [of c xs] show ?thesis by (intro exI [of _ zs]) auto
  qed
qed

text \<open>Two trees of one size with one apex have the same leaves, or a collision.\<close>

lemma apex_inj:
  assumes "apex_of c xs = apex_of c ys" and "length xs = length ys" and "xs \<noteq> []" and "digests_32 c"
    and "\<forall>x \<in> set xs. length x = 32" and "\<forall>x \<in> set ys. length x = 32"
  shows "xs = ys \<or> collision c (tree_messages c xs) (tree_messages c ys)"
  using assms
proof (induction c xs arbitrary: ys rule: build_levels.induct)
  case (1 c xs)
  note pr = "1.prems"
  show ?case
  proof (cases "length xs > 1")
    case False
    then obtain x y where "xs = [x]" "ys = [y]" using pr(2,3) by (cases xs; cases ys) auto
    then show ?thesis using pr(1) by (simp add: level_steps(4))
  next
    case True
    then have T': "length ys > 1" using pr(2) by simp
    have tm: "tree_messages c xs = level_messages xs @ tree_messages c (pair_up c xs)"
      "tree_messages c ys = level_messages ys @ tree_messages c (pair_up c ys)"
      using True T' by (simp_all add: tree_messages.simps [of c xs] tree_messages.simps [of c ys])
    have "pair_up c xs \<noteq> []" using True by (simp flip: length_0_conv)
    from "1.IH" [OF True _ _ this pr(4) pair_up_32 [OF pr(4,5)] pair_up_32 [OF pr(4,6)]] pr(1,2)
    have "pair_up c xs = pair_up c ys \<or> collision c (tree_messages c (pair_up c xs)) (tree_messages c (pair_up c ys))"
      by (simp add: level_steps(3) [OF True] level_steps(3) [OF T'])
    moreover have "xs = ys \<or> collision c (level_messages xs) (level_messages ys)" if "pair_up c xs = pair_up c ys"
      using that pr(2,5,6)
    proof (induction c xs arbitrary: ys rule: pair_up.induct)
      case (1 c l r rest)
      obtain l' r' rest' where ys: "ys = l' # r' # rest'" using "1.prems"(2) by (cases ys; cases "tl ys") auto
      have "rest = rest' \<or> collision c (level_messages rest) (level_messages rest')"
        using "1.IH" [of rest'] "1.prems" by (simp add: ys)
      moreover have "l = l' \<and> r = r' \<or> collision c (level_messages (l # r # rest)) (level_messages ys)"
        using "1.prems" by (intro node_of_inj) (simp_all add: ys)
      ultimately show ?case by (auto simp: ys intro: collision_mono)
    next
      case (2 c l)
      then show ?case by (cases ys; cases "tl ys") auto
    qed simp
    ultimately show ?thesis unfolding tm by (auto intro: collision_mono)
  qed
qed

text \<open>All that is hashed when a consistency proof between two trees is verified.\<close>

definition consistency_messages :: "Crates \<Rightarrow> bytes list \<Rightarrow> bytes list \<Rightarrow> bytes list \<Rightarrow> bytes list" where
  "consistency_messages c old new p =
     tree_messages c old @ tree_messages c new @ tree_messages c (take (length old) new) @
     (let (f, s) = skip_odd (length old - 1) (length new - 1) in
      loop_messages c (tl p) f s (hd p) @
      (case consistency_loop c (tl p) f s (hd p) (hd p) of
         None \<Rightarrow> []
       | Some (_, _, old_acc, new_acc) \<Rightarrow> [root_message (word_of_nat (length old)) old_acc, root_message (word_of_nat (length new)) new_acc])) @
     [root_message (word_of_nat (length old)) (apex_of c old), root_message (word_of_nat (length new)) (apex_of c new)]"

lemma root_of_inj:
  assumes "root_of c n a = root_of c n b" and "root_message n a \<in> set ms" and "root_message n b \<in> set ms"
  shows "a = b \<or> collision c ms ms"
proof (cases "a = b")
  case False
  then have "root_message n a \<noteq> root_message n b" by (simp add: root_message_eq)
  then show ?thesis using assms unfolding collision_def root_of_message by blast
qed simp

lemma consistency_sound:
  assumes "ct_eq_sound c" and "digests_32 c" and "old \<noteq> []" and "length new < 4294967296"
    and "\<forall>x \<in> set old. length x = 32" and "\<forall>x \<in> set new. length x = 32" and "\<forall>x \<in> set p. length x = 32"
    and "verify_consistency c (word_of_nat (length old)) (root_of c (word_of_nat (length old)) (apex_of c old))
      (word_of_nat (length new)) (root_of c (word_of_nat (length new)) (apex_of c new)) p"
    and "length old < 4294967296"
  shows "old = take (length old) new \<and> length old \<le> length new \<or>
     collision c (consistency_messages c old new p) (consistency_messages c old new p)"
proof -
  let ?m = "word_of_nat (length old) :: u32" and ?n = "word_of_nat (length new) :: u32"
  let ?ms = "consistency_messages c old new p"
  have u: "unat ?m = length old" "unat ?n = length new" using assms(4,9) by (simp_all add: unat_of_nat take_bit_nat_eq_self)
  have le: "length old \<le> length new" using assms(8) u by (auto simp: verify_consistency_def word_less_nat_alt split: if_splits)
  have ct: "digest_eq_ct c x y \<longleftrightarrow> x = y" if "length x = 32" "length y = 32" for x y
    using assms(1) that by (simp add: digest_eq_ct_def ct_eq_sound_def)
  have r32: "length (root_of c k a) = 32" for k a using assms(2) by (simp add: root_of_def digests_32_def)
  have coll: "collision c a b \<Longrightarrow> set a \<subseteq> set ?ms \<Longrightarrow> set b \<subseteq> set ?ms \<Longrightarrow> collision c ?ms ?ms" for a b by (rule collision_mono)
  have roots: "root_message ?m (apex_of c old) \<in> set ?ms" "root_message ?n (apex_of c new) \<in> set ?ms"
    by (simp_all add: consistency_messages_def)
  have trees: "set (tree_messages c old) \<subseteq> set ?ms" "set (tree_messages c new) \<subseteq> set ?ms"
    "set (tree_messages c (take (length old) new)) \<subseteq> set ?ms" by (auto simp: consistency_messages_def)
  show ?thesis
  proof (cases "length old = length new")
    case True
    then have "root_of c ?m (apex_of c old) = root_of c ?m (apex_of c new)"
      using assms(8) u r32 by (auto simp: verify_consistency_def ct split: if_splits)
    then have "apex_of c old = apex_of c new \<or> collision c ?ms ?ms" using root_of_inj roots True by metis
    moreover have "old = new \<or> collision c ?ms ?ms" if "apex_of c old = apex_of c new"
      using apex_inj [OF that True assms(3,2,5,6)] coll trees by blast
    ultimately show ?thesis using True by auto
  next
    case False
    then have lt: "?m \<noteq> ?n" "\<not> ?m > ?n" "?m \<noteq> 0" using le u assms(3) by (auto simp: word_less_nat_alt dest: arg_cong [where f = unat])
    obtain first rest where p: "p = first # rest" using assms(8) lt by (cases p) (auto simp: verify_consistency_def)
    obtain f s where sk: "skip_odd (length old - 1) (length new - 1) = (f, s)" by (cases "skip_odd (length old - 1) (length new - 1)")
    have pred: "checked_sub (word_of_nat k :: u32) 1 = Some (word_of_nat (k - 1)) \<and> unat (word_of_nat (k - 1) :: u32) = k - 1"
      if "0 < k" "k < 4294967296" for k
      using that by (cases k) (simp_all add: checked_sub_eq_Some unat_of_nat take_bit_nat_eq_self del: of_nat_Suc)
    have "0 < length old" "0 < length new" using assms(3) le by auto
    note subs = pred [OF this(1) assms(9)] pred [OF this(2) assms(4)]
    have "case consistency_loop c rest f s first first of None \<Rightarrow> False
        | Some (f', s', old_acc, new_acc) \<Rightarrow> s' = 0 \<and> digest_eq_ct c (root_of c ?m old_acc) (root_of c ?m (apex_of c old)) \<and>
            digest_eq_ct c (root_of c ?n new_acc) (root_of c ?n (apex_of c new))"
      using assms(8) lt
      by (simp add: verify_consistency_def p subs [unfolded One_nat_def] sk [unfolded One_nat_def] Let_def split: option.splits prod.splits)
    then obtain f' old_acc new_acc where loop: "consistency_loop c rest f s first first = Some (f', 0, old_acc, new_acc)"
      and ok: "root_of c ?m old_acc = root_of c ?m (apex_of c old)" "root_of c ?n new_acc = root_of c ?n (apex_of c new)"
      using r32 by (auto simp: ct split: option.splits)
    have accs: "root_message ?m old_acc \<in> set ?ms" "root_message ?n new_acc \<in> set ?ms"
      "set (loop_messages c rest f s first) \<subseteq> set ?ms"
      by (auto simp: consistency_messages_def sk [unfolded One_nat_def] p loop)
    have eqs: "old_acc = apex_of c old \<or> collision c ?ms ?ms" "new_acc = apex_of c new \<or> collision c ?ms ?ms"
      using root_of_inj [OF ok(1) accs(1) roots(1)] root_of_inj [OF ok(2) accs(2) roots(2)] by auto
    have "length old - 1 < length new" using le assms(3) by (cases old) auto
    from skip_odd_levels [OF this sk assms(2,6)] obtain ys where ys: "length ys - 1 = s" "f < length ys"
      "apex_of c ys = apex_of c new" "apex_of c (take (f + 1) ys) = apex_of c (take (length old) new)"
      "set (tree_messages c ys) \<subseteq> set (tree_messages c new)" "\<forall>x \<in> set ys. length x = 32"
      using assms(3) by auto
    have "old_acc = apex_of c (take (length old) new) \<or> collision c ?ms ?ms" if "new_acc = apex_of c new"
    proof -
      have "first = ys ! f \<and> old_acc = apex_of c (take f ys @ [first]) \<or> collision c (tree_messages c ys) (loop_messages c rest f (length ys - 1) first)"
        using loop_sound [of c rest f ys first first f' old_acc] loop that ys(1,2,3,6) assms(2,7) by (simp add: p)
      moreover have "collision c (tree_messages c ys) (loop_messages c rest f (length ys - 1) first) \<Longrightarrow> collision c ?ms ?ms"
        by (erule coll) (use ys(1,5) accs(3) trees(2) in auto)
      moreover have "take f ys @ [ys ! f] = take (f + 1) ys" using take_Suc_conv_app_nth [OF ys(2)] by simp
      ultimately show ?thesis using ys(4) by auto
    qed
    moreover have "old = take (length old) new \<or> collision c ?ms ?ms" if "apex_of c old = apex_of c (take (length old) new)"
    proof -
      have "\<forall>x \<in> set (take (length old) new). length x = 32" using assms(6) by (auto dest: in_set_takeD)
      from apex_inj [OF that _ assms(3,2,5) this] le coll trees(1,3) show ?thesis by auto
    qed
    ultimately show ?thesis using eqs le by metis
  qed
qed

lemma consistent_trees:
  assumes "ct_eq_sound c" and "digests_32 c" and "build c old = Inr t" and "build c new = Inr u"
    and "\<forall>l \<in> set old. length (leaf_digest l) = 32" and "\<forall>l \<in> set new. length (leaf_digest l) = 32"
    and "\<forall>x \<in> set p. length x = 32"
    and "verify_consistency c (leaf_count t) (root c t) (leaf_count u) (root c u) p"
  defines "ms \<equiv> consistency_messages c (map leaf_digest old) (map leaf_digest new) p"
  shows "old = take (length old) new \<and> length old \<le> length new \<or> collision c ms ms"
proof -
  let ?old = "map leaf_digest old" and ?new = "map leaf_digest new"
  have small: "old \<noteq> []" "length old < 4294967296" "length new < 4294967296" using assms(3,4) by (simp_all add: build_Inr)
  note t = built_tree [OF assms(3)] and u = built_tree [OF assms(4)]
  have counts: "leaf_count t = word_of_nat (length ?old)" "leaf_count u = word_of_nat (length ?new)"
    using t(1) u(1) by (simp_all add: word_unat_eq_iff small unat_of_nat take_bit_nat_eq_self)
  have "?old = take (length ?old) ?new \<and> length ?old \<le> length ?new \<or> collision c ms ms"
    unfolding ms_def using assms(5-8) small
    by (intro consistency_sound [OF assms(1,2)]) (auto simp: counts root_def t(2) u(2))
  moreover have "old = take (length old) new" if "?old = take (length ?old) ?new"
  proof -
    have "inj leaf_digest" by (rule injI) (simp add: Leaf.expand)
    moreover have "map leaf_digest old = map leaf_digest (take (length old) new)" using that by (simp add: take_map)
    ultimately show ?thesis by (metis inj_map_eq_map)
  qed
  ultimately show ?thesis by auto
qed

end
