(* ===== verification/OC_Witness.thy ===== *)
theory OC_Witness
  imports OC_Consistency OC_Order
begin

text \<open>
  Witnessed heads of the server's journals (\<^verbatim>\<open>oc-protocol/src/witness.rs\<close>): signed heads, views with
  their consistency proofs, the comparison of a new head with a retained one, and heads that a
  witness has cosigned.  A verdict that a head is the same or an extension is shown to mean that
  the old list of leaves is a prefix of the new one; signatures are shown to bind the kind of
  journal, the server, the head and the time.
\<close>

section \<open>Heads\<close>

definition PUBLIC_KEY_LEN :: nat where "PUBLIC_KEY_LEN = 32"

definition SIGNED_HEAD_LEN :: nat where "SIGNED_HEAD_LEN = 8 + 32 + SIGNATURE_LEN"

definition COSIGNED_LEN :: nat where "COSIGNED_LEN = SIGNED_HEAD_LEN + 8 + PUBLIC_KEY_LEN + SIGNATURE_LEN"

definition MAX_PATH :: nat where "MAX_PATH = 128"

datatype Log = Journal | Directory

fun log_u8 :: "Log \<Rightarrow> byte" where
  "log_u8 Journal = 1"
| "log_u8 Directory = 2"

fun head_label :: "Log \<Rightarrow> Label" where
  "head_label Journal = AUDIT_HEAD"
| "head_label Directory = DIRECTORY_HEAD"

definition log_from_u8 :: "byte \<Rightarrow> FormatError + Log" where
  "log_from_u8 v =
     (if v = 1 then Inr Journal else if v = 2 then Inr Directory else Inl (UnknownCriticalField (ucast v)))"

fun log_name :: "Log \<Rightarrow> string" where
  "log_name Journal = ''journal''"
| "log_name Directory = ''directory''"

definition log_parse :: "string \<Rightarrow> Log option" where
  "log_parse name =
     (if name = ''journal'' then Some Journal else if name = ''directory'' then Some Directory else None)"

definition head_transcript :: "Log \<Rightarrow> u64 \<Rightarrow> bytes \<Rightarrow> Transcript" where
  "head_transcript log count root_bytes = tr_fixed root_bytes (tr_u64be count (transcript_new (head_label log)))"

record SignedHead =
  sh_size :: u64
  sh_root :: bytes
  sh_sig :: bytes

definition signed_head_encode :: "SignedHead \<Rightarrow> bytes" where
  "signed_head_encode h = le64 (sh_size h) @ sh_root h @ sh_sig h"

definition signed_head_decode :: "bytes \<Rightarrow> FormatError + SignedHead" where
  "signed_head_decode bs =
     bindR (ensure (length bs = SIGNED_HEAD_LEN) (BadFieldLength 0 (length bs))) (\<lambda>_.
     let count = take 8 bs; rest = drop 8 bs in
     Inr \<lparr>sh_size = of_le count, sh_root = take 32 rest, sh_sig = drop 32 rest\<rparr>)"

definition head_signed_by :: "Crates \<Rightarrow> SignedHead \<Rightarrow> Log \<Rightarrow> bytes \<Rightarrow> bool" where
  "head_signed_by c h log server_key =
     is_ok (sign_verify c server_key (head_transcript log (sh_size h) (sh_root h)) (sh_sig h))"

section \<open>Views\<close>

record WitnessView =
  wv_head :: SignedHead
  wv_since :: u64
  wv_path :: "bytes list"

definition view_check :: "WitnessView \<Rightarrow> FormatError + unit" where
  "view_check v =
     (let len = saturating_mul_usize (length (wv_path v)) 32 in
      ensure (\<not> (length (wv_path v) > MAX_PATH \<or> (wv_since v = 0 \<and> wv_path v \<noteq> []) \<or> wv_since v > sh_size (wv_head v)))
        (BadFieldLength 0 len))"

definition view_encode :: "WitnessView \<Rightarrow> FormatError + bytes" where
  "view_encode v =
     bindR (view_check v) (\<lambda>_.
     Inr (signed_head_encode (wv_head v) @ le64 (wv_since v) @ concat (wv_path v)))"

definition view_decode :: "bytes \<Rightarrow> FormatError + WitnessView" where
  "view_decode bs =
     (let bad = BadFieldLength 0 (length bs) in
      bindR (ok_or bad (split_at_checked bs SIGNED_HEAD_LEN)) (\<lambda>(head, rest).
      bindR (ok_or bad (split_at_checked rest 8)) (\<lambda>(since, path).
      bindR (ensure (length path mod 32 = 0) bad) (\<lambda>_.
      bindR (map_err bad (mapR (exact_len 32 0) (chunks_32 path))) (\<lambda>nodes.
      bindR (signed_head_decode head) (\<lambda>h.
      let view = \<lparr>wv_head = h, wv_since = of_le since, wv_path = nodes\<rparr> in
      bindR (view_check view) (\<lambda>_.
      Inr view)))))))"

section \<open>Comparing heads\<close>

datatype Relation = Same | Extends | Rollback | Fork | Unprovable

definition relate :: "Crates \<Rightarrow> u64 \<Rightarrow> bytes \<Rightarrow> u64 \<Rightarrow> bytes \<Rightarrow> bytes list \<Rightarrow> Relation" where
  "relate c old_size old_root new_size new_root path =
     (if new_size < old_size then Rollback
      else if new_size = old_size then
        (if digest_eq_ct c old_root new_root \<and> path = [] then Same else Fork)
      else case (u32_of_u64 old_size, u32_of_u64 new_size) of
        (Some old, Some new) \<Rightarrow>
          (if verify_consistency c old old_root new new_root path then Extends else Fork)
      | _ \<Rightarrow> Unprovable)"

section \<open>Cosigned heads\<close>

definition cosign_transcript :: "Log \<Rightarrow> bytes \<Rightarrow> u64 \<Rightarrow> bytes \<Rightarrow> i64 \<Rightarrow> Transcript" where
  "cosign_transcript log server_key count root_bytes at =
     tr_fixed (be_bytes 8 (unat at))
       (tr_fixed root_bytes
         (tr_u64be count
           (tr_fixed server_key
             (tr_u8 (log_u8 log) (transcript_new WITNESS_COSIGN)))))"

record Cosigned =
  cs_head :: SignedHead
  cs_at :: i64
  cs_witness :: bytes
  cs_sig :: bytes

datatype CosignedError = CosignedServerSignature | OtherWitness | WitnessSignature

definition cosigned_encode :: "Cosigned \<Rightarrow> bytes" where
  "cosigned_encode x = signed_head_encode (cs_head x) @ le64 (cs_at x) @ cs_witness x @ cs_sig x"

definition cosigned_decode :: "bytes \<Rightarrow> FormatError + Cosigned" where
  "cosigned_decode bs =
     (let bad = BadFieldLength 0 (length bs) in
      bindR (ensure (length bs = COSIGNED_LEN) bad) (\<lambda>_.
      bindR (ok_or bad (split_at_checked bs SIGNED_HEAD_LEN)) (\<lambda>(head, rest).
      bindR (ok_or bad (split_at_checked rest 8)) (\<lambda>(at, rest).
      bindR (ok_or bad (split_at_checked rest PUBLIC_KEY_LEN)) (\<lambda>(witness, sig).
      bindR (signed_head_decode head) (\<lambda>h.
      bindR (map_err bad (exact_len SIGNATURE_LEN 0 sig)) (\<lambda>sig.
      Inr \<lparr>cs_head = h, cs_at = of_le at, cs_witness = witness, cs_sig = sig\<rparr>)))))))"

definition cosigned_verify :: "Crates \<Rightarrow> Cosigned \<Rightarrow> Log \<Rightarrow> bytes \<Rightarrow> bytes \<Rightarrow> CosignedError + unit" where
  "cosigned_verify c x log server_key witness_key =
     bindR (ensure (head_signed_by c (cs_head x) log server_key) CosignedServerSignature) (\<lambda>_.
     bindR (ensure (digest_eq_ct c (cs_witness x) witness_key) OtherWitness) (\<lambda>_.
     let transcript = cosign_transcript log server_key (sh_size (cs_head x)) (sh_root (cs_head x)) (cs_at x) in
     map_err WitnessSignature (sign_verify c witness_key transcript (cs_sig x))))"

section \<open>Codecs\<close>

lemma log_codes: "log_from_u8 (log_u8 l) = Inr l" "log_parse (log_name l) = Some l" "log_u8 l = log_u8 m \<longleftrightarrow> l = m"
  by (cases l; cases m; simp add: log_from_u8_def log_parse_def)+

lemma log_from_u8_Inr: "log_from_u8 v = Inr l \<longleftrightarrow> v = log_u8 l"
  by (cases l) (auto simp: log_from_u8_def)

lemma head_lens: "SIGNED_HEAD_LEN = 104" "COSIGNED_LEN = 208" "PUBLIC_KEY_LEN = 32"
  by (simp_all add: SIGNED_HEAD_LEN_def COSIGNED_LEN_def PUBLIC_KEY_LEN_def SIGNATURE_LEN_def)

definition head_wf :: "SignedHead \<Rightarrow> bool" where
  "head_wf h \<longleftrightarrow> length (sh_root h) = 32 \<and> length (sh_sig h) = 64"

lemma signed_head_length: "head_wf h \<Longrightarrow> length (signed_head_encode h) = 104"
  by (simp add: signed_head_encode_def head_wf_def)

lemma signed_head_decode_Inr: "signed_head_decode bs = Inr h \<longleftrightarrow> head_wf h \<and> bs = signed_head_encode h"
proof
  assume "signed_head_decode bs = Inr h"
  then have len: "length bs = 104" and h: "h = \<lparr>sh_size = of_le (take 8 bs), sh_root = take 32 (drop 8 bs), sh_sig = drop 40 bs\<rparr>"
    by (auto simp: signed_head_decode_def bindR_eq_Inr ensure_eq_Inr head_lens Let_def)
  have "take 8 bs @ take 32 (drop 8 bs) @ drop 32 (drop 8 bs) = bs" by (simp only: append_take_drop_id)
  with len show "head_wf h \<and> bs = signed_head_encode h"
    by (simp add: h head_wf_def signed_head_encode_def le_bytes_of_le64)
next
  assume "head_wf h \<and> bs = signed_head_encode h"
  then show "signed_head_decode bs = Inr h"
    by (simp add: signed_head_decode_def head_lens signed_head_length Let_def) (simp add: signed_head_encode_def head_wf_def)
qed

definition view_wf :: "WitnessView \<Rightarrow> bool" where
  "view_wf v \<longleftrightarrow> head_wf (wv_head v) \<and> (\<forall>n \<in> set (wv_path v). length n = 32)"

text \<open>A byte string in whole chunks of 32 bytes is one list of nodes.\<close>

lemma concat_chunks_32: "concat (chunks_32 bs) = bs"
  by (induction bs rule: chunks_32.induct) (subst chunks_32.simps, simp)

lemma chunks_32_lengths: "32 dvd length bs \<Longrightarrow> \<forall>x \<in> set (chunks_32 bs). length x = 32"
proof (induction bs rule: chunks_32.induct)
  case (1 bs)
  show ?case
  proof (cases "bs = []")
    case False
    then have len: "32 \<le> length bs" using 1(2) by (intro dvd_imp_le) simp_all
    then have "length (take 32 bs) = 32" by simp
    moreover have "32 dvd length (drop 32 bs)" using len 1(2) by (simp add: dvd_diff_nat)
    note 1(1) [OF False this]
    moreover have "chunks_32 bs = take 32 bs # chunks_32 (drop 32 bs)" using False by (subst chunks_32.simps) simp
    ultimately show ?thesis by simp
  qed (simp add: chunks_32.simps)
qed

lemma nodes_of_chunks:
  assumes "32 dvd length bs"
  shows "mapR (exact_len 32 t) (chunks_32 bs) = Inr ns \<longleftrightarrow> (\<forall>n \<in> set ns. length n = 32) \<and> bs = concat ns"
proof -
  note ok = chunks_32_lengths [OF assms]
  have "mapR (exact_len 32 t) (chunks_32 bs) = Inr ns \<longleftrightarrow> ns = chunks_32 bs"
    unfolding mapR_exact_32 [OF ok] by auto
  then show ?thesis using ok concat_chunks_32 [of bs] chunks_32_concat [of ns] by metis
qed

lemma split_at_parts: "split_at_checked bs k = Some (a, b) \<longleftrightarrow> bs = a @ b \<and> length a = k"
  by (auto simp: split_at_checked_eq_Some)

lemma view_decode_Inr: "view_decode bs = Inr v \<longleftrightarrow> view_wf v \<and> view_encode v = Inr bs"
proof
  assume "view_decode bs = Inr v"
  then obtain head since path nodes h where
    split: "bs = head @ since @ path" "length since = 8" "32 dvd length path"
    and parts: "mapR (exact_len 32 0) (chunks_32 path) = Inr nodes" "signed_head_decode head = Inr h"
    and v: "v = \<lparr>wv_head = h, wv_since = of_le since, wv_path = nodes\<rparr>" "view_check v = Inr ()"
    by (auto simp: view_decode_def Let_def bindR_eq_Inr ok_or_eq_Inr split_at_parts map_err_eq_Inr ensure_eq_Inr)
  then show "view_wf v \<and> view_encode v = Inr bs"
    using nodes_of_chunks [OF split(3)] by (auto simp: view_encode_def view_wf_def signed_head_decode_Inr le_bytes_of_le64)
next
  assume v: "view_wf v \<and> view_encode v = Inr bs"
  then have path: "32 dvd length (concat (wv_path v))" by (subst concat_32) (simp_all add: view_wf_def)
  have nodes: "mapR (exact_len 32 0) (chunks_32 (concat (wv_path v))) = Inr (wv_path v)"
    using v by (simp add: nodes_of_chunks [OF path] view_wf_def)
  from v have "bs = signed_head_encode (wv_head v) @ le64 (wv_since v) @ concat (wv_path v)" "view_check v = Inr ()"
    "length (signed_head_encode (wv_head v)) = SIGNED_HEAD_LEN" "signed_head_decode (signed_head_encode (wv_head v)) = Inr (wv_head v)"
    by (auto simp: view_encode_def view_wf_def bindR_eq_Inr signed_head_decode_Inr head_lens signed_head_length)
  then show "view_decode bs = Inr v"
    using path nodes by (cases v) (simp add: view_decode_def Let_def del: length_concat)
qed

definition cosigned_wf :: "Cosigned \<Rightarrow> bool" where
  "cosigned_wf x \<longleftrightarrow> head_wf (cs_head x) \<and> length (cs_witness x) = 32 \<and> length (cs_sig x) = 64"

lemma cosigned_decode_Inr: "cosigned_decode bs = Inr x \<longleftrightarrow> cosigned_wf x \<and> bs = cosigned_encode x"
proof
  assume "cosigned_decode bs = Inr x"
  then show "cosigned_wf x \<and> bs = cosigned_encode x"
    by (auto simp: cosigned_decode_def Let_def bindR_eq_Inr ok_or_eq_Inr split_at_parts map_err_eq_Inr ensure_eq_Inr
        cosigned_wf_def cosigned_encode_def signed_head_decode_Inr head_lens SIGNATURE_LEN_def le_bytes_of_le64)
next
  assume x: "cosigned_wf x \<and> bs = cosigned_encode x"
  then have "signed_head_decode (signed_head_encode (cs_head x)) = Inr (cs_head x)"
    "length (signed_head_encode (cs_head x)) = 104"
    by (simp_all add: cosigned_wf_def signed_head_decode_Inr signed_head_length)
  with x show "cosigned_decode bs = Inr x"
    by (cases x) (simp add: cosigned_decode_def cosigned_encode_def cosigned_wf_def head_lens SIGNATURE_LEN_def exact_len_def)
qed

interpretation view_codec: codec view_encode view_decode view_wf
  by unfold_locales (simp add: view_decode_Inr)

interpretation signed_head_codec: total_codec "\<lambda>h. Inr (signed_head_encode h)" signed_head_decode head_wf
  by unfold_locales (auto simp: signed_head_decode_Inr)

interpretation cosigned_codec: total_codec "\<lambda>x. Inr (cosigned_encode x)" cosigned_decode cosigned_wf
  by unfold_locales (auto simp: cosigned_decode_Inr)

section \<open>What the signatures bind\<close>

lemma labelled_eq:
  assumes "l \<in> set LABEL_ALL" and "m \<in> set LABEL_ALL" and "l @ 0 # a = m @ 0 # b"
  shows "l = m \<and> a = b"
proof -
  from assms(3) have "prefix l m \<or> prefix m l" by (metis prefix_def prefix_same_cases)
  with assms show ?thesis using labels_prefix_free by (metis append_same_eq list.inject same_append_eq)
qed

lemma head_label_registered: "head_label log \<in> set LABEL_ALL" "WITNESS_COSIGN \<in> set LABEL_ALL"
  by (cases log) (simp_all add: LABEL_ALL_def)

lemma head_label_inj: "head_label l = head_label m \<longleftrightarrow> l = m"
  by (cases l; cases m) (simp_all add: label_defs)

lemma head_transcript_buf: "tr_buf (head_transcript log n r) = head_label log @ 0 # be_bytes 8 (unat n) @ r"
  by (simp add: head_transcript_def transcript_defs)

lemma cosign_transcript_buf:
  "tr_buf (cosign_transcript log key n r at) =
     WITNESS_COSIGN @ 0 # log_u8 log # key @ be_bytes 8 (unat n) @ r @ be_bytes 8 (unat at)"
  by (simp add: cosign_transcript_def transcript_defs)

lemma head_transcript_inj:
  "tr_buf (head_transcript l n r) = tr_buf (head_transcript m k s) \<longleftrightarrow> l = m \<and> n = k \<and> r = s"
proof
  assume "tr_buf (head_transcript l n r) = tr_buf (head_transcript m k s)"
  from labelled_eq [OF head_label_registered(1,1) this [unfolded head_transcript_buf]]
  show "l = m \<and> n = k \<and> r = s" by (auto simp: head_label_inj)
qed simp

lemma cosign_transcript_inj:
  assumes "length key = length key'" and "length r = length s"
  shows "tr_buf (cosign_transcript l key n r at) = tr_buf (cosign_transcript m key' k s at') \<longleftrightarrow>
    l = m \<and> key = key' \<and> n = k \<and> r = s \<and> at = at'"
  using assms by (auto simp: cosign_transcript_buf log_codes)

lemma cosign_not_head: "tr_buf (cosign_transcript l key n r at) \<noteq> tr_buf (head_transcript m k s)"
proof
  assume "tr_buf (cosign_transcript l key n r at) = tr_buf (head_transcript m k s)"
  from labelled_eq [OF head_label_registered(2,1) this [unfolded head_transcript_buf cosign_transcript_buf]]
  show False by (cases m) (simp_all add: label_defs)
qed

lemma cosigned_verify_Inr:
  "cosigned_verify c x log server_key witness_key = Inr () \<longleftrightarrow>
     ed25519_key_ok c server_key \<and>
     ed25519_verify_strict c server_key (tr_buf (head_transcript log (sh_size (cs_head x)) (sh_root (cs_head x)))) (sh_sig (cs_head x)) \<and>
     ct_eq c (cs_witness x) witness_key \<and> ed25519_key_ok c witness_key \<and>
     ed25519_verify_strict c witness_key
       (tr_buf (cosign_transcript log server_key (sh_size (cs_head x)) (sh_root (cs_head x)) (cs_at x))) (cs_sig x)"
  by (auto simp: cosigned_verify_def head_signed_by_def is_ok_def bindR_eq_Inr ensure_eq_Inr map_err_eq_Inr sign_verify_eq_Inr
      digest_eq_ct_def Let_def split: sum.splits) (metis sign_verify_eq_Inr sum.distinct(1) Inl_Inr_False)

section \<open>What a verdict means\<close>

lemma same_root_same_leaves:
  fixes p :: "bytes list"
  assumes "ct_eq_sound c" and "digests_32 c" and "build c old = Inr t" and "build c new = Inr u"
    and "\<forall>l \<in> set old. length (leaf_digest l) = 32" and "\<forall>l \<in> set new. length (leaf_digest l) = 32"
    and "leaf_count t = leaf_count u" and "digest_eq_ct c (root c t) (root c u)"
  defines "ms \<equiv> consistency_messages c (map leaf_digest old) (map leaf_digest new) p"
  shows "old = new \<or> collision c ms ms"
proof -
  let ?old = "map leaf_digest old" and ?new = "map leaf_digest new"
  note t = built_tree [OF assms(3)] and u = built_tree [OF assms(4)]
  have small: "old \<noteq> []" "length old < 4294967296" using assms(3) by (simp_all add: build_Inr)
  have len: "length old = length new" using assms(7) t(1) u(1) by simp
  have counts: "leaf_count t = word_of_nat (length ?old)" "leaf_count u = word_of_nat (length ?new)"
    using t(1) u(1) small len by (simp_all add: word_unat_eq_iff unat_of_nat take_bit_nat_eq_self)
  have "root_of c (leaf_count t) (apex_of c ?old) = root_of c (leaf_count t) (apex_of c ?new)"
    using assms(1,2,7,8) by (auto simp: ct_eq_sound_def digest_eq_ct_def root_def root_of_def digests_32_def t(2) u(2))
  moreover have "root_message (leaf_count t) (apex_of c ?old) \<in> set ms" "root_message (leaf_count t) (apex_of c ?new) \<in> set ms"
    using counts assms(7) by (simp_all add: ms_def consistency_messages_def)
  ultimately have "apex_of c ?old = apex_of c ?new \<or> collision c ms ms" by (rule root_of_inj)
  moreover have "?old = ?new \<or> collision c ms ms" if "apex_of c ?old = apex_of c ?new"
  proof -
    have "?old = ?new \<or> collision c (tree_messages c ?old) (tree_messages c ?new)"
      using that len small(1) assms(2,5,6) by (intro apex_inj) simp_all
    then show ?thesis by (auto simp: ms_def consistency_messages_def intro: collision_mono)
  qed
  moreover have "inj leaf_digest" by (rule injI) (simp add: Leaf.expand)
  ultimately show ?thesis by (metis inj_map_eq_map)
qed

definition u64_count :: "MerkleTree \<Rightarrow> u64" where
  "u64_count t = u64_of_u32 (leaf_count t)"

lemma u32_of_count: "u32_of_u64 (u64_count t) = Some (leaf_count t)"
  by (simp add: u64_count_def checked_simps)

lemma u64_count_less: "u64_count t < u64_count u \<longleftrightarrow> leaf_count t < leaf_count u" "u64_count t = u64_count u \<longleftrightarrow> leaf_count t = leaf_count u"
  by (simp_all add: u64_count_def word_less_nat_alt word_unat_eq_iff)

lemma append_only:
  fixes p :: "bytes list"
  assumes "ct_eq_sound c" and "digests_32 c" and "build c old = Inr t" and "build c new = Inr u"
    and "\<forall>l \<in> set old. length (leaf_digest l) = 32" and "\<forall>l \<in> set new. length (leaf_digest l) = 32"
    and "\<forall>x \<in> set p. length x = 32"
    and "relate c (u64_count t) (root c t) (u64_count u) (root c u) p \<in> {Same, Extends}"
  defines "ms \<equiv> consistency_messages c (map leaf_digest old) (map leaf_digest new) p"
  shows "prefix old new \<or> collision c ms ms"
proof (cases "leaf_count t = leaf_count u")
  case True
  then have "digest_eq_ct c (root c t) (root c u)"
    using assms(8) by (auto simp: relate_def u64_count_less split: if_splits)
  from same_root_same_leaves [OF assms(1-6) True this, of p] show ?thesis by (auto simp: ms_def)
next
  case False
  then have "verify_consistency c (leaf_count t) (root c t) (leaf_count u) (root c u) p"
    using assms(8) by (auto simp: relate_def u64_count_less u32_of_count split: if_splits)
  from consistent_trees [OF assms(1-7) this] show ?thesis by (auto simp: ms_def intro: take_is_prefix) (metis take_is_prefix)
qed

section \<open>Properties\<close>

text \<open>
  C13.  The journal is append-only as far as a witness can be told.  When the comparison of a new
  head with the retained one says that it is the same or that it extends it, the leaves behind
  the retained head are the first leaves behind the new one, unless two of the messages hashed
  by the two trees and the proof collide; and a new head of fewer leaves is always called a
  rollback, whatever proof comes with it.
\<close>

theorem witness_append_only:
  assumes "ct_eq_sound c" and "digests_32 c" and "build c old = Inr t" and "build c new = Inr u"
    and "\<forall>l \<in> set old. length (leaf_digest l) = 32" and "\<forall>l \<in> set new. length (leaf_digest l) = 32"
    and "\<forall>x \<in> set p. length x = 32"
  shows "(relate c (u64_count t) (root c t) (u64_count u) (root c u) p \<in> {Same, Extends} \<longrightarrow>
      prefix old new \<or>
      (let ms = consistency_messages c (map leaf_digest old) (map leaf_digest new) p in collision c ms ms)) \<and>
    (length new < length old \<longrightarrow> relate c (u64_count t) (root c t) (u64_count u) (root c u) p = Rollback)"
proof (intro conjI impI)
  assume "relate c (u64_count t) (root c t) (u64_count u) (root c u) p \<in> {Same, Extends}"
  from append_only [OF assms this]
  show "prefix old new \<or> (let ms = consistency_messages c (map leaf_digest old) (map leaf_digest new) p in collision c ms ms)"
    by (simp add: Let_def)
next
  assume "length new < length old"
  then have "leaf_count u < leaf_count t" using built_tree(1) [OF assms(3)] built_tree(1) [OF assms(4)] by (simp add: word_less_nat_alt)
  then show "relate c (u64_count t) (root c t) (u64_count u) (root c u) p = Rollback" by (simp add: relate_def u64_count_less)
qed

definition demo_journal :: "bytes list" where
  "demo_journal = [replicate 32 1, replicate 32 2]"

lemma demo_extension:
  assumes "build demo_crates [Leaf (replicate 32 1)] = Inr t" and "build demo_crates (map Leaf demo_journal) = Inr u"
  shows "relate demo_crates (u64_count t) (root demo_crates t) (u64_count u) (root demo_crates u) demo_journal = Extends"
proof -
  note t = built_tree [OF assms(1)] and u = built_tree [OF assms(2)]
  have counts: "leaf_count t = 1" "leaf_count u = 2"
    using t(1) u(1) by (simp_all add: word_unat_eq_iff demo_journal_def)
  have "apex t = replicate 32 1" "apex u = node_of demo_crates (replicate 32 1) (replicate 32 2)"
    using t(2) u(2) by (simp_all add: demo_journal_def level_steps)
  then have "verify_consistency demo_crates 1 (root demo_crates t) 2 (root demo_crates u) demo_journal"
    by (simp add: verify_consistency_def demo_journal_def checked_sub_def skip_odd.simps root_def counts digest_eq_ct_def demo_crates_def)
  then show ?thesis by (simp add: relate_def u64_count_less u32_of_count counts)
qed

theorem witness_append_only_witness:
  "\<exists>t u. build demo_crates [Leaf (replicate 32 1)] = Inr t \<and> build demo_crates (map Leaf demo_journal) = Inr u \<and>
     relate demo_crates (u64_count t) (root demo_crates t) (u64_count u) (root demo_crates u) demo_journal = Extends \<and>
     relate demo_crates (u64_count u) (root demo_crates u) (u64_count t) (root demo_crates t) [] = Rollback \<and>
     (prefix [Leaf (replicate 32 1)] (map Leaf demo_journal) \<or>
      (let ms = consistency_messages demo_crates (map leaf_digest [Leaf (replicate 32 1)]) (map leaf_digest (map Leaf demo_journal)) demo_journal
       in collision demo_crates ms ms))"
proof -
  obtain t u where b: "build demo_crates [Leaf (replicate 32 1)] = Inr t" "build demo_crates (map Leaf demo_journal) = Inr u"
    by (simp add: build_Inr demo_journal_def)
  have "length (map Leaf demo_journal) > length [Leaf (replicate 32 1)]"
    and l: "\<forall>l \<in> set [Leaf (replicate 32 1)]. length (leaf_digest l) = 32" "\<forall>l \<in> set (map Leaf demo_journal). length (leaf_digest l) = 32"
    "\<forall>x \<in> set demo_journal. length x = 32" "\<forall>x \<in> set ([] :: bytes list). length x = 32"
    by (simp_all add: demo_journal_def)
  then show ?thesis
    using b demo_extension [OF b] witness_append_only [OF demo_crates_laws(1,3) b l(1,2,3)]
      witness_append_only [OF demo_crates_laws(1,3) b(2,1) l(2,1,4)]
    by blast
qed

text \<open>
  C16.  A cosigned head means what it says.  It is accepted exactly when the server's key signed
  this head of this journal, the key it names is the trusted witness key, and that key signed the
  journal kind, the server's key, the head and the time; no two statements that differ in any of
  these are signed under the same bytes, and a witness's statement is never the bytes of a head.
\<close>

theorem cosigned_binds:
  assumes "ct_eq_sound c" and "length (cs_witness x) = length witness_key"
    and "length server_key = length server_key'" and "length r = length r'"
  shows "(cosigned_verify c x log server_key witness_key = Inr () \<longleftrightarrow>
      ed25519_key_ok c server_key \<and>
      ed25519_verify_strict c server_key (tr_buf (head_transcript log (sh_size (cs_head x)) (sh_root (cs_head x)))) (sh_sig (cs_head x)) \<and>
      cs_witness x = witness_key \<and> ed25519_key_ok c witness_key \<and>
      ed25519_verify_strict c witness_key
        (tr_buf (cosign_transcript log server_key (sh_size (cs_head x)) (sh_root (cs_head x)) (cs_at x))) (cs_sig x)) \<and>
    (tr_buf (cosign_transcript l server_key n r at) = tr_buf (cosign_transcript l' server_key' n' r' at') \<longleftrightarrow>
      (l, server_key, n, r, at) = (l', server_key', n', r', at')) \<and>
    (tr_buf (head_transcript l n r) = tr_buf (head_transcript l' n' r') \<longleftrightarrow> (l, n, r) = (l', n', r')) \<and>
    tr_buf (cosign_transcript l server_key n r at) \<noteq> tr_buf (head_transcript l' n' r')"
  using assms cosign_transcript_inj [OF assms(3,4)]
  by (simp add: cosigned_verify_Inr ct_eq_sound_def head_transcript_inj cosign_not_head)

definition demo_cosigned :: Cosigned where
  "demo_cosigned =
     \<lparr>cs_head = \<lparr>sh_size = 1, sh_root = replicate 32 5, sh_sig = replicate 32 0 @ replicate 32 6\<rparr>,
      cs_at = 7, cs_witness = replicate 32 8, cs_sig = replicate 32 0 @ replicate 32 8\<rparr>"

theorem cosigned_binds_witness:
  "cosigned_verify demo_crates demo_cosigned Journal (replicate 32 6) (replicate 32 8) = Inr () \<and>
   tr_buf (cosign_transcript Journal (replicate 32 6) 1 (replicate 32 5) 7) \<noteq>
     tr_buf (cosign_transcript Directory (replicate 32 6) 1 (replicate 32 5) 7) \<and>
   tr_buf (head_transcript Journal 1 (replicate 32 5)) \<noteq> tr_buf (head_transcript Directory 1 (replicate 32 5))"
  using cosigned_binds [OF demo_crates_laws(1), of demo_cosigned "replicate 32 8" "replicate 32 6" "replicate 32 6"
    "replicate 32 5" "replicate 32 5" Journal Journal 1 7 Directory 1 7]
  by (simp add: demo_cosigned_def demo_crates_def)

end
