(* ===== verification/OC_Canonical.thy ===== *)
theory OC_Canonical
  imports OC_Document
begin

text \<open>
  Decoders that compare what they read with its canonical encoding.  Such a decoder records the
  unknown optional fields it skips (\<^verbatim>\<open>oc-protocol/src/unknown.rs\<close>), cuts them out of the body and
  demands that the rest is, byte for byte, what the encoder writes for the decoded value.  The
  locale \<open>canonical_reader\<close> states what the loop has to record; with it, cutting is shown to leave exactly
  the fields with critical tags, so that an accepted body is the canonical one with unknown
  optional fields added and nothing else.
\<close>

section \<open>Cutting fields out\<close>

definition span_of :: "Field \<Rightarrow> nat \<times> nat" where
  "span_of f = (fld_start f - 6, fld_end f)"

lemma skipped_see_Inr:
  assumes "FIELD_PREFIX_LEN \<le> fld_start f"
  shows "skipped_see f s = Inr s' \<longleftrightarrow> CRIT_TAG_MAX < fld_tag f \<and> s' = s\<lparr>sk_spans := sk_spans s @ [span_of f]\<rparr>"
  using assms by (auto simp: skipped_see_def bindR_eq_Inr refuse_if_critical_Inr ok_or_eq_Inr span_of_def FIELD_PREFIX_LEN_def)

lemma strip_from_fields:
  assumes "start \<le> length pre"
  shows "strip_from (pre @ enc_fields fs) start (map span_of (filter (\<lambda>f. P (fld_tag f)) (fields_at (length pre) fs))) =
     drop start pre @ enc_fields (filter (\<lambda>tv. \<not> P (fst tv)) fs)"
  using assms
proof (induction fs arbitrary: pre start)
  case Nil
  then show ?case by (simp add: get_range_def slice_def)
next
  case (Cons tv fs)
  obtain t v where tv: "tv = (t, v)" by (cases tv)
  have len: "length (pre @ enc_field tv) = length pre + 6 + length v" by (simp add: tv enc_field_def)
  have at: "fields_at (length pre) (tv # fs) =
      \<lparr>fld_tag = t, fld_value = v, fld_start = length pre + 6, fld_end = length pre + 6 + length v\<rparr> #
      fields_at (length (pre @ enc_field tv)) fs"
    by (simp only: tv fields_at.simps len [unfolded tv])
  have body: "pre @ enc_fields (tv # fs) = (pre @ enc_field tv) @ enc_fields fs" by simp
  show ?case
  proof (cases "P t")
    case True
    have keep: "get_range ((pre @ enc_field tv) @ enc_fields fs) start (length pre) = Some (drop start pre)"
      using Cons.prems by (simp add: get_range_def slice_def)
    show ?thesis
      unfolding at body using True keep Cons.IH [of "length (pre @ enc_field tv)" "pre @ enc_field tv"]
      by (simp add: span_of_def tv len [unfolded tv] add.assoc)
  next
    case False
    then show ?thesis
      unfolding at body using Cons.IH [of start "pre @ enc_field tv"] Cons.prems by (simp add: tv)
  qed
qed

lemma strip_fields:
  "skipped_strip \<lparr>sk_spans = map span_of (filter (\<lambda>f. P (fld_tag f)) (fields_at 0 fs))\<rparr> (enc_fields fs) =
     enc_fields (filter (\<lambda>tv. \<not> P (fst tv)) fs)"
proof (cases "filter (\<lambda>f. P (fld_tag f)) (fields_at 0 fs) = []")
  case True
  have "filter (\<lambda>f. P (fld_tag f)) (fields_at n fs) = [] \<Longrightarrow> filter (\<lambda>tv. \<not> P (fst tv)) fs = fs" for n
    by (induction n fs rule: fields_at.induct) (auto split: if_splits)
  with True show ?thesis by (simp add: skipped_strip_def)
next
  case False
  then show ?thesis using strip_from_fields [of 0 "[]" fs P] by (simp add: skipped_strip_def)
qed

lemma enc_fields_determine:
  assumes "ascending None fs" and "ascending None gs" and "enc_fields fs = enc_fields gs"
  shows "fs = gs"
proof -
  let ?step = "\<lambda>t v s. Inr (s @ [(t, v)]) :: FormatError + (u16 \<times> bytes) list"
  have "run_fields ?step hs s = Inr (s @ hs)" for hs s
    by (induction hs arbitrary: s) (auto simp: run_fields_def)
  then have "tlv_values ?step (enc_fields hs) [] = Inr hs" if "ascending None hs" for hs
    using that by simp
  with assms show ?thesis by (metis sum.inject(2))
qed

section \<open>The contract\<close>

locale canonical_reader =
  fixes step :: "Field \<Rightarrow> 's \<Rightarrow> FormatError + 's"
    and start :: 's
    and skipped :: "'s \<Rightarrow> Skipped"
    and inv :: "'s \<Rightarrow> bool"
  assumes starts_empty: "sk_spans (skipped start) = []" and start_inv: "inv start"
    and step_inv: "inv s \<Longrightarrow> step f s = Inr s' \<Longrightarrow> inv s'"
    and step_skips: "inv s \<Longrightarrow> FIELD_PREFIX_LEN \<le> fld_start f \<Longrightarrow> step f s = Inr s' \<Longrightarrow>
      sk_spans (skipped s') = sk_spans (skipped s) @ (if CRIT_TAG_MAX < fld_tag f then [span_of f] else [])"
begin

lemma fold_skips:
  "foldR step (fields_at n fs) s = Inr s' \<Longrightarrow> inv s \<Longrightarrow>
   sk_spans (skipped s') = sk_spans (skipped s) @ map span_of (filter (\<lambda>f. CRIT_TAG_MAX < fld_tag f) (fields_at n fs))"
proof (induction n fs arbitrary: s rule: fields_at.induct)
  case (2 n t v fs)
  let ?f = "\<lparr>fld_tag = t, fld_value = v, fld_start = n + 6, fld_end = n + 6 + length v\<rparr>"
  from "2.prems"(1) obtain s1 where s1: "step ?f s = Inr s1" "foldR step (fields_at (n + 6 + length v) fs) s1 = Inr s'"
    by (auto simp: bindR_eq_Inr)
  have "FIELD_PREFIX_LEN \<le> fld_start ?f" by (simp add: FIELD_PREFIX_LEN_def)
  from step_skips [OF "2.prems"(2) this s1(1)] "2.IH" [OF s1(2) step_inv [OF "2.prems"(2) s1(1)]] show ?case by simp
qed simp

lemma read_strip:
  assumes "tlv_loop step (reader_new bs) start = Inr s"
  shows "\<exists>fs. bs = enc_fields fs \<and> ascending None fs \<and> foldR step (fields_at 0 fs) start = Inr s \<and>
     skipped_strip (skipped s) bs = enc_fields (filter (\<lambda>tv. \<not> CRIT_TAG_MAX < fst tv) fs)"
proof -
  obtain fs where fs: "bs = enc_fields fs" "ascending None fs" "foldR step (fields_at 0 fs) start = Inr s"
    using tlv_loop_Inr [OF assms] by blast
  have "skipped s = \<lparr>sk_spans = map span_of (filter (\<lambda>f. CRIT_TAG_MAX < fld_tag f) (fields_at 0 fs))\<rparr>"
    using fold_skips [OF fs(3) start_inv] starts_empty by (cases "skipped s") simp
  with fs show ?thesis using strip_fields [of "\<lambda>t. CRIT_TAG_MAX < t" fs] by auto
qed

lemma read_inv:
  assumes "tlv_loop step (reader_new bs) start = Inr s"
  shows "inv s"
proof -
  obtain fs where "foldR step (fields_at 0 fs) start = Inr s" using tlv_loop_Inr [OF assms] by blast
  then show ?thesis by (rule foldR_invariant [of _ _ _ _ inv]) (use start_inv step_inv in blast)+
qed

text \<open>What is left after cutting is the canonical encoding: the body carries its fields.\<close>

lemma accepted_carries:
  assumes "tlv_loop step (reader_new bs) start = Inr s" and "write_fields fs0 = Inr (skipped_strip (skipped s) bs)"
    and "\<forall>tv \<in> set fs0. fst tv \<le> CRIT_TAG_MAX"
  shows "carries (map fst fs0) fs0 bs"
proof -
  obtain fs where fs: "bs = enc_fields fs" "ascending None fs"
    "skipped_strip (skipped s) bs = enc_fields (filter (\<lambda>tv. \<not> CRIT_TAG_MAX < fst tv) fs)"
    using read_strip [OF assms(1)] by blast
  then have eq: "filter (\<lambda>tv. \<not> CRIT_TAG_MAX < fst tv) fs = fs0"
    using assms(2) ascending_filter [OF fs(2)] by (intro enc_fields_determine) (auto simp: write_fields_eq_Inr)
  have "filter (\<lambda>tv. fst tv \<in> set (map fst fs0)) fs = filter (\<lambda>tv. \<not> CRIT_TAG_MAX < fst tv) fs"
    using assms(3) unfolding eq [symmetric] by (intro filter_cong) (auto simp: image_iff not_less)
  with eq fs(1,2) show ?thesis unfolding carries_def by (intro exI [of _ fs]) (force simp: not_less)
qed

end

lemma tlv_loop_own:
  "ascending None fs \<Longrightarrow> tlv_loop step (reader_new (enc_fields fs)) s = foldR step (fields_at 0 fs) s"
  by (intro tlv_loop_enc enc_fields_fit)

end
