(* ===== verification/OC_Directory.thy ===== *)
theory OC_Directory
  imports OC_Canonical OC_Witness OC_Kdf OC_Access
begin

text \<open>
  The key directory (\<^verbatim>\<open>oc-protocol/src/directory.rs\<close>): records that bind a member's public key, their
  codec, which skips unknown optional fields and compares the rest with the canonical encoding,
  the leaves of the directory's tree, lookups with inclusion proofs, and pages of records.  A
  \<^verbatim>\<open>String\<close> is its UTF-8 bytes.  An accepted lookup is shown to be an entry of the log whose head the
  server signed.
\<close>

section \<open>Records\<close>

definition MAX_TENANT :: nat where "MAX_TENANT = 64"
definition MAX_NAME_CHARS :: nat where "MAX_NAME_CHARS = 128"
definition MAX_ORIGIN_CHARS :: nat where "MAX_ORIGIN_CHARS = 512"
definition MAX_RECORD_LEN :: nat where "MAX_RECORD_LEN = 8 * 1024"
definition MAX_PAGE :: nat where "MAX_PAGE = 256"
definition MAX_INCLUSION_PATH :: nat where "MAX_INCLUSION_PATH = 64"

abbreviation (input) DR_TENANT :: u16 where "DR_TENANT \<equiv> 1"
abbreviation (input) DR_NAME :: u16 where "DR_NAME \<equiv> 2"
abbreviation (input) DR_KEM :: u16 where "DR_KEM \<equiv> 3"
abbreviation (input) DR_PUBLIC :: u16 where "DR_PUBLIC \<equiv> 4"
abbreviation (input) DR_FPR :: u16 where "DR_FPR \<equiv> 5"
abbreviation (input) DR_VERSION :: u16 where "DR_VERSION \<equiv> 6"
abbreviation (input) DR_STATE :: u16 where "DR_STATE \<equiv> 7"
abbreviation (input) DR_ORIGIN :: u16 where "DR_ORIGIN \<equiv> 8"
abbreviation (input) DR_AT :: u16 where "DR_AT \<equiv> 9"

datatype KeyState = Active | Withdrawn

fun key_state_u8 :: "KeyState \<Rightarrow> byte" where
  "key_state_u8 Active = 0"
| "key_state_u8 Withdrawn = 1"

record DirRecord =
  dr_tenant :: bytes
  dr_name :: bytes
  dr_kem :: KemAlg
  dr_public :: bytes
  dr_fpr :: bytes
  dr_version :: u64
  dr_state :: KeyState
  dr_origin :: bytes
  dr_at :: i64

definition check_tenant :: "bytes \<Rightarrow> FormatError + unit" where
  "check_tenant tenant =
     ensure (tenant \<noteq> [] \<and> length tenant \<le> MAX_TENANT \<and>
         list_all (\<lambda>b. (97 \<le> b \<and> b \<le> 122) \<or> (48 \<le> b \<and> b \<le> 57) \<or> b = 46 \<or> b = 45 \<or> b = 95) tenant)
       (BadFieldLength DR_TENANT (length tenant))"

text \<open>\<^verbatim>\<open>char::is_whitespace\<close>, which \<^verbatim>\<open>str::trim\<close> removes: a text of nothing else trims to nothing.\<close>

definition is_whitespace :: "codepoint \<Rightarrow> bool" where
  "is_whitespace ch \<longleftrightarrow>
     (0x9 \<le> ch \<and> ch \<le> 0xD) \<or> ch \<in> {0x20, 0x85, 0xA0, 0x1680, 0x2028, 0x2029, 0x202F, 0x205F, 0x3000} \<or>
     (0x2000 \<le> ch \<and> ch \<le> 0x200A)"

definition check_text :: "bytes \<Rightarrow> nat \<Rightarrow> u16 \<Rightarrow> FormatError + unit" where
  "check_text txt max_chars tag =
     bindR (ensure (\<not> (list_all is_whitespace (utf8_chars txt) \<or> length (utf8_chars txt) > max_chars))
       (BadFieldLength tag (length txt))) (\<lambda>_.
     case find is_display_unsafe (utf8_chars txt) of
       Some ch \<Rightarrow> Inl (BadNoteChar tag (word_of_nat ch))
     | None \<Rightarrow> Inr ())"

definition dir_record_check :: "Crates \<Rightarrow> DirRecord \<Rightarrow> FormatError + unit" where
  "dir_record_check c r =
     bindR (check_tenant (dr_tenant r)) (\<lambda>_.
     bindR (check_text (dr_name r) MAX_NAME_CHARS DR_NAME) (\<lambda>_.
     bindR (check_text (dr_origin r) MAX_ORIGIN_CHARS DR_ORIGIN) (\<lambda>_.
     bindR (ensure (\<not> dr_version r = 0) (BadFieldLength DR_VERSION 0)) (\<lambda>_.
     bindR (map_err (BadFieldLength DR_PUBLIC (length (dr_public r))) (device_fpr c (dr_kem r) (dr_public r))) (\<lambda>fpr.
     ensure (digest_eq_ct c fpr (dr_fpr r)) (BadFieldLength DR_FPR (length (dr_fpr r))))))))"

definition dir_record_new ::
    "Crates \<Rightarrow> bytes \<Rightarrow> bytes \<Rightarrow> KemAlg \<Rightarrow> bytes \<Rightarrow> u64 \<Rightarrow> KeyState \<Rightarrow> bytes \<Rightarrow> i64 \<Rightarrow> FormatError + DirRecord" where
  "dir_record_new c tenant name kem public version state origin at =
     bindR (map_err (BadFieldLength DR_PUBLIC (length public)) (device_fpr c kem public)) (\<lambda>fpr.
     let r = \<lparr>dr_tenant = tenant, dr_name = name, dr_kem = kem, dr_public = public, dr_fpr = fpr,
              dr_version = version, dr_state = state, dr_origin = origin, dr_at = at\<rparr> in
     bindR (dir_record_check c r) (\<lambda>_.
     Inr r))"

definition dir_record_fields :: "DirRecord \<Rightarrow> (u16 \<times> bytes) list" where
  "dir_record_fields r =
     [(DR_TENANT, dr_tenant r), (DR_NAME, dr_name r), (DR_KEM, [kem_u8 (dr_kem r)]), (DR_PUBLIC, dr_public r),
      (DR_FPR, dr_fpr r), (DR_VERSION, le64 (dr_version r)), (DR_STATE, [key_state_u8 (dr_state r)]),
      (DR_ORIGIN, dr_origin r), (DR_AT, le64 (dr_at r))]"

definition dir_record_encode :: "Crates \<Rightarrow> DirRecord \<Rightarrow> FormatError + bytes" where
  "dir_record_encode c r =
     bindR (dir_record_check c r) (\<lambda>_.
     bindR (write_fields (dir_record_fields r)) (\<lambda>bs.
     bindR (ensure (\<not> length bs > MAX_RECORD_LEN) (BadFieldLength 0 (length bs))) (\<lambda>_.
     Inr bs)))"

text \<open>The locals of the decoding loop: nine slots, the next tag of the table, the skipped fields.\<close>

record DirDecode =
  dd_skipped :: Skipped
  dd_fields :: "bytes option list"
  dd_expected :: u16

definition dir_decode_start :: DirDecode where
  "dir_decode_start = \<lparr>dd_skipped = skipped_default, dd_fields = replicate 9 None, dd_expected = DR_TENANT\<rparr>"

definition dir_decode_step :: "Field \<Rightarrow> DirDecode \<Rightarrow> FormatError + DirDecode" where
  "dir_decode_step field s =
     (if fld_tag field \<noteq> dd_expected s then
        bindR (skipped_see field (dd_skipped s)) (\<lambda>skipped.
        Inr (s\<lparr>dd_skipped := skipped\<rparr>))
      else
        let slot = unat (fld_tag field) - 1 in
        bindR (ensure (slot < length (dd_fields s)) (UnknownCriticalField (fld_tag field))) (\<lambda>_.
        Inr (s\<lparr>dd_fields := (dd_fields s)[slot := Some (fld_value field)],
               dd_expected := saturating_add (dd_expected s) 1\<rparr>)))"

definition dd_get :: "DirDecode \<Rightarrow> u16 \<Rightarrow> FormatError + bytes" where
  "dd_get s t =
     ok_or (MissingField t) (case get_at (dd_fields s) (unat t - 1) of Some v \<Rightarrow> v | None \<Rightarrow> None)"

definition dd_text :: "DirDecode \<Rightarrow> u16 \<Rightarrow> FormatError + bytes" where
  "dd_text s t = bindR (dd_get s t) (\<lambda>v. ok_or (NotUtf8 t) (from_utf8 v))"

definition dd_byte :: "DirDecode \<Rightarrow> u16 \<Rightarrow> FormatError + byte" where
  "dd_byte s t = bindR (dd_get s t) (one_byte t)"

definition dd_eight :: "DirDecode \<Rightarrow> u16 \<Rightarrow> FormatError + bytes" where
  "dd_eight s t = bindR (dd_get s t) (exact_len 8 t)"

definition dir_decode_finish :: "Crates \<Rightarrow> bytes \<Rightarrow> DirDecode \<Rightarrow> FormatError + DirRecord" where
  "dir_decode_finish c bs s =
     bindR (dd_byte s DR_KEM) (\<lambda>kem_byte.
     bindR (map_err (UnknownCriticalField DR_KEM) (kem_from_u8 kem_byte)) (\<lambda>kem.
     bindR (dd_byte s DR_STATE) (\<lambda>state_byte.
     bindR (if state_byte = 0 then Inr Active else if state_byte = 1 then Inr Withdrawn
            else Inl (BadFieldLength DR_STATE 1)) (\<lambda>state.
     bindR (dd_get s DR_FPR) (\<lambda>fpr_bytes.
     bindR (dd_text s DR_TENANT) (\<lambda>tenant.
     bindR (dd_text s DR_NAME) (\<lambda>name.
     bindR (dd_get s DR_PUBLIC) (\<lambda>public.
     bindR (exact_len 32 DR_FPR fpr_bytes) (\<lambda>fpr.
     bindR (dd_eight s DR_VERSION) (\<lambda>version.
     bindR (dd_text s DR_ORIGIN) (\<lambda>origin.
     bindR (dd_eight s DR_AT) (\<lambda>at.
     let r = \<lparr>dr_tenant = tenant, dr_name = name, dr_kem = kem, dr_public = public, dr_fpr = fpr,
              dr_version = of_le version, dr_state = state, dr_origin = origin, dr_at = of_le at\<rparr> in
     bindR (dir_record_check c r) (\<lambda>_.
     bindR (dir_record_encode c r) (\<lambda>canonical.
     bindR (ensure (\<not> canonical \<noteq> skipped_strip (dd_skipped s) bs) (BadFieldLength 0 (length bs))) (\<lambda>_.
     Inr r)))))))))))))))"

definition dir_record_decode :: "Crates \<Rightarrow> bytes \<Rightarrow> FormatError + DirRecord" where
  "dir_record_decode c bs =
     bindR (ensure (\<not> length bs > MAX_RECORD_LEN) (BadFieldLength 0 (length bs))) (\<lambda>_.
     bindR (tlv_loop dir_decode_step (reader_new bs) dir_decode_start) (dir_decode_finish c bs))"

definition dir_record_leaf :: "Crates \<Rightarrow> bytes \<Rightarrow> Leaf" where
  "dir_record_leaf c bs =
     Leaf (sha256_digest c (tr_buf (tail_after_declared_length bs (transcript_new DIRECTORY_ENTRY))))"

section \<open>Lookups\<close>

definition encode_lookup_request :: "bytes \<Rightarrow> bytes \<Rightarrow> u64 \<Rightarrow> FormatError + bytes" where
  "encode_lookup_request tenant name count =
     bindR (check_tenant tenant) (\<lambda>_.
     bindR (check_text name MAX_NAME_CHARS DR_NAME) (\<lambda>_.
     bindR (ensure (length tenant < 256) (BadFieldLength DR_TENANT (length tenant))) (\<lambda>_.
     bindR (ok_or (BadFieldLength DR_NAME (length name)) (u16_of_usize (length name))) (\<lambda>name_len.
     Inr ([word_of_nat (length tenant)] @ tenant @ le16 name_len @ name @ le64 count)))))"

definition decode_lookup_request :: "bytes \<Rightarrow> FormatError + (bytes \<times> bytes \<times> u64)" where
  "decode_lookup_request bs =
     (let whole = BadFieldLength 0 (length bs) in
      bindR (ok_or whole (case bs of b # rest \<Rightarrow> Some (b, rest) | [] \<Rightarrow> None)) (\<lambda>(tenant_len, rest).
      bindR (ok_or whole (split_at_checked rest (unat tenant_len))) (\<lambda>(tenant, rest).
      bindR (ok_or whole (split_at_checked rest 2)) (\<lambda>(name_len, rest).
      bindR (ok_or whole (split_at_checked rest (le_nat name_len))) (\<lambda>(name, rest).
      bindR (map_err whole (exact_len 8 0 rest)) (\<lambda>count.
      bindR (ok_or (NotUtf8 DR_TENANT) (from_utf8 tenant)) (\<lambda>tenant.
      bindR (ok_or (NotUtf8 DR_NAME) (from_utf8 name)) (\<lambda>name.
      bindR (check_tenant tenant) (\<lambda>_.
      bindR (check_text name MAX_NAME_CHARS DR_NAME) (\<lambda>_.
      Inr (tenant, name, of_le count)))))))))))"

record Lookup =
  lk_head :: SignedHead
  lk_index :: u64
  lk_record :: bytes
  lk_path :: "bytes list"

datatype LookupError = LookupServerSignature | LookupMalformed | OtherEntry | NotIncluded

definition lookup_encode :: "Lookup \<Rightarrow> FormatError + bytes" where
  "lookup_encode l =
     bindR (ensure (\<not> (length (lk_record l) > MAX_RECORD_LEN \<or> length (lk_path l) > MAX_INCLUSION_PATH))
       (BadFieldLength 0 (length (lk_record l)))) (\<lambda>_.
     bindR (ok_or (BadFieldLength 0 (length (lk_record l))) (u32_of_usize (length (lk_record l)))) (\<lambda>len.
     Inr (signed_head_encode (lk_head l) @ le64 (lk_index l) @ le32 len @ lk_record l @ concat (lk_path l))))"

definition lookup_decode :: "bytes \<Rightarrow> FormatError + Lookup" where
  "lookup_decode bs =
     (let whole = BadFieldLength 0 (length bs) in
      bindR (ok_or whole (split_at_checked bs SIGNED_HEAD_LEN)) (\<lambda>(head, rest).
      bindR (ok_or whole (split_at_checked rest 8)) (\<lambda>(index, rest).
      bindR (ok_or whole (split_at_checked rest 4)) (\<lambda>(len, rest).
      let len = le_nat len in
      bindR (ensure (\<not> (len = 0 \<or> len > MAX_RECORD_LEN)) whole) (\<lambda>_.
      bindR (ok_or whole (split_at_checked rest len)) (\<lambda>(rec, path).
      bindR (ensure (\<not> (length path mod 32 \<noteq> 0 \<or> length path div 32 > MAX_INCLUSION_PATH)) whole) (\<lambda>_.
      bindR (map_err whole (mapR (exact_len 32 0) (chunks_32 path))) (\<lambda>nodes.
      bindR (signed_head_decode head) (\<lambda>h.
      Inr \<lparr>lk_head = h, lk_index = of_le index, lk_record = rec, lk_path = nodes\<rparr>)))))))))"

definition lookup_verify :: "Crates \<Rightarrow> Lookup \<Rightarrow> bytes \<Rightarrow> bytes \<Rightarrow> bytes \<Rightarrow> LookupError + DirRecord" where
  "lookup_verify c l server_key tenant name =
     bindR (ensure (head_signed_by c (lk_head l) Directory server_key) LookupServerSignature) (\<lambda>_.
     case (u32_of_u64 (lk_index l), u32_of_u64 (sh_size (lk_head l))) of
       (Some index, Some count) \<Rightarrow>
         bindR (ensure (verify_proof c (sh_root (lk_head l)) index count (dir_record_leaf c (lk_record l)) (lk_path l))
           NotIncluded) (\<lambda>_.
         bindR (map_err LookupMalformed (dir_record_decode c (lk_record l))) (\<lambda>r.
         bindR (ensure (\<not> (dr_tenant r \<noteq> tenant \<or> dr_name r \<noteq> name)) OtherEntry) (\<lambda>_.
         Inr r)))
     | _ \<Rightarrow> Inl NotIncluded)"

section \<open>Pages\<close>

definition encode_page :: "bytes list \<Rightarrow> FormatError + bytes" where
  "encode_page recs =
     bindR (ensure (\<not> length recs > MAX_PAGE) (BadFieldLength 0 (length recs))) (\<lambda>_.
     foldR (\<lambda>rec out.
       bindR (ensure (\<not> (rec = [] \<or> length rec > MAX_RECORD_LEN)) (BadFieldLength 0 (length rec))) (\<lambda>_.
       bindR (ok_or (BadFieldLength 0 (length rec)) (u32_of_usize (length rec))) (\<lambda>len.
       Inr (out @ le32 len @ rec)))) recs [])"

function decode_page_loop :: "Crates \<Rightarrow> bytes \<Rightarrow> bytes list \<Rightarrow> FormatError + bytes list" where
  "decode_page_loop c rest out =
     (if rest = [] then Inr out
      else
        (case split_at_checked rest 4 of
           None \<Rightarrow> Inl (BadFieldLength 0 (length rest))
         | Some (len, tail) \<Rightarrow>
             (case split_at_checked tail (le_nat len) of
                None \<Rightarrow> Inl (BadFieldLength 0 (length tail))
              | Some (rec, tail) \<Rightarrow>
                  bindR (dir_record_decode c rec) (\<lambda>_.
                  let out = out @ [rec] in
                  if length out > MAX_PAGE then Inl (BadFieldLength 0 (length out))
                  else decode_page_loop c tail out))))"
  by pat_completeness auto
termination
  by (relation "measure (\<lambda>(c, rest, out). length rest)") (auto simp: split_at_checked_eq_Some)

declare decode_page_loop.simps [simp del]

definition decode_page :: "Crates \<Rightarrow> bytes \<Rightarrow> FormatError + bytes list" where
  "decode_page c bs = decode_page_loop c bs []"

section \<open>Checks\<close>

lemma check_tenant_Inr:
  "check_tenant tenant = Inr () \<longleftrightarrow>
     tenant \<noteq> [] \<and> length tenant \<le> 64 \<and>
     (\<forall>b \<in> set tenant. (97 \<le> b \<and> b \<le> 122) \<or> (48 \<le> b \<and> b \<le> 57) \<or> b = 46 \<or> b = 45 \<or> b = 95)"
  by (simp add: check_tenant_def ensure_eq_Inr MAX_TENANT_def list_all_iff)

lemma check_text_Inr:
  "check_text txt n t = Inr () \<longleftrightarrow>
     (\<exists>ch \<in> set (utf8_chars txt). \<not> is_whitespace ch) \<and> length (utf8_chars txt) \<le> n \<and>
     (\<forall>ch \<in> set (utf8_chars txt). \<not> is_display_unsafe ch)"
  by (auto simp: check_text_def bindR_eq_Inr ensure_eq_Inr list_all_iff find_None_iff find_Some_iff not_less split: option.splits)

lemma tenant_utf8: "check_tenant tenant = Inr () \<Longrightarrow> utf8_valid tenant"
  by (rule utf8_valid_ascii) (auto simp: check_tenant_Inr list_all_iff word_le_nat_alt)

lemma dir_record_check_Inr:
  assumes "ct_eq_sound c" and "digests_32 c" and "length (dr_fpr r) = 32"
  shows "dir_record_check c r = Inr () \<longleftrightarrow>
     check_tenant (dr_tenant r) = Inr () \<and> check_text (dr_name r) MAX_NAME_CHARS DR_NAME = Inr () \<and>
     check_text (dr_origin r) MAX_ORIGIN_CHARS DR_ORIGIN = Inr () \<and> dr_version r \<noteq> 0 \<and>
     device_fpr c (dr_kem r) (dr_public r) = Inr (dr_fpr r)"
proof -
  have "ct_eq c fpr (dr_fpr r) \<longleftrightarrow> fpr = dr_fpr r" if "device_fpr c (dr_kem r) (dr_public r) = Inr fpr" for fpr
    using assms device_fpr_length [OF assms(2) that] by (simp add: ct_eq_sound_def)
  then show ?thesis
    by (auto simp: dir_record_check_def bindR_eq_Inr ensure_eq_Inr map_err_eq_Inr digest_eq_ct_def)
qed

definition dir_record_wf :: "DirRecord \<Rightarrow> bool" where
  "dir_record_wf r \<longleftrightarrow> length (dr_fpr r) = 32 \<and> utf8_valid (dr_name r) \<and> utf8_valid (dr_origin r)"

text \<open>The encoder writes the nine fields of the table, or refuses.\<close>

lemma dir_record_encode_Inr:
  "dir_record_encode c r = Inr bs \<longleftrightarrow>
     dir_record_check c r = Inr () \<and> write_fields (dir_record_fields r) = Inr bs \<and> length bs \<le> 8192"
  by (auto simp: dir_record_encode_def bindR_eq_Inr ensure_eq_Inr MAX_RECORD_LEN_def)

section \<open>The decoder\<close>

definition dir_decode_inv :: "DirDecode \<Rightarrow> bool" where
  "dir_decode_inv s \<longleftrightarrow> length (dd_fields s) = 9"

interpretation dir_reader: canonical_reader dir_decode_step dir_decode_start dd_skipped dir_decode_inv
proof (unfold_locales, goal_cases)
  case (3 s f s')
  then show ?case
    by (auto simp: dir_decode_step_def dir_decode_inv_def bindR_eq_Inr Let_def split: if_splits)
next
  case (4 s f s')
  then have "unat (fld_tag f) - 1 < 9 \<Longrightarrow> \<not> CRIT_TAG_MAX < fld_tag f"
    by (simp add: word_less_nat_alt CRIT_TAG_MAX_def)
  with 4 show ?case
    by (auto simp: dir_decode_step_def dir_decode_inv_def bindR_eq_Inr skipped_see_Inr ensure_eq_Inr Let_def split: if_splits)
qed (simp_all add: dir_decode_start_def skipped_default_def dir_decode_inv_def)

lemma dir_record_fields_tags: "\<forall>tv \<in> set (dir_record_fields r). fst tv \<le> CRIT_TAG_MAX"
  by (simp add: dir_record_fields_def CRIT_TAG_MAX_def)

lemma dir_record_decoded:
  assumes "dir_record_decode c bs = Inr r"
  shows "length bs \<le> 8192" and "dir_record_wf r" and "dir_record_check c r = Inr ()"
    and "carries (map fst (dir_record_fields r)) (dir_record_fields r) bs"
proof -
  obtain s where s: "tlv_loop dir_decode_step (reader_new bs) dir_decode_start = Inr s" "dir_decode_finish c bs s = Inr r"
    and len: "length bs \<le> 8192"
    using assms by (auto simp: dir_record_decode_def bindR_eq_Inr ensure_eq_Inr MAX_RECORD_LEN_def)
  from s(2) have ok: "dir_record_wf r" "dir_record_check c r = Inr ()"
    and enc: "dir_record_encode c r = Inr (skipped_strip (dd_skipped s) bs)"
    by (auto simp: dir_decode_finish_def dir_record_wf_def dd_text_def bindR_eq_Inr ok_or_eq_Inr from_utf8_def ensure_eq_Inr Let_def split: if_splits)
  show "length bs \<le> 8192" "dir_record_wf r" "dir_record_check c r = Inr ()" by (fact len ok)+
  show "carries (map fst (dir_record_fields r)) (dir_record_fields r) bs"
    using enc by (intro dir_reader.accepted_carries [OF s(1) _ dir_record_fields_tags]) (simp add: dir_record_encode_Inr)
qed

text \<open>The fields of the table fill the slots from the left.\<close>

lemma dir_fill_slots:
  assumes "map fst fs = map word_of_nat [length pre + 1..<length pre + length fs + 1]" and "length pre + length fs \<le> 9"
  shows "foldR dir_decode_step (fields_at n fs)
      \<lparr>dd_skipped = sk, dd_fields = map Some pre @ replicate (length fs) None, dd_expected = word_of_nat (length pre + 1)\<rparr> =
    Inr \<lparr>dd_skipped = sk, dd_fields = map Some (pre @ map snd fs), dd_expected = word_of_nat (length pre + length fs + 1)\<rparr>"
  using assms
proof (induction fs arbitrary: n pre)
  case (Cons tv fs)
  obtain t v where tv: "tv = (t, v)" by (cases tv)
  have t: "t = word_of_nat (length pre + 1)" and rest: "map fst fs = map word_of_nat [length (pre @ [v]) + 1..<length (pre @ [v]) + length fs + 1]"
    using Cons.prems(1) by (simp_all add: tv upt_conv_Cons del: upt_Suc)
  have small: "unat (word_of_nat (length pre + 1) :: u16) = length pre + 1"
    using Cons.prems(2) by (simp add: unat_of_nat take_bit_nat_eq_self del: of_nat_Suc of_nat_add)
  have "saturating_add (word_of_nat (length pre + 1)) 1 = (word_of_nat (length pre + 2) :: u16)"
    using Cons.prems(2) small
    by (intro word_unat_eq_iff [THEN iffD2]) (simp add: checked_simps unat_of_nat take_bit_nat_eq_self del: of_nat_Suc of_nat_add)
  then have "dir_decode_step \<lparr>fld_tag = t, fld_value = v, fld_start = n + 6, fld_end = n + 6 + length v\<rparr>
      \<lparr>dd_skipped = sk, dd_fields = map Some pre @ replicate (length (tv # fs)) None, dd_expected = word_of_nat (length pre + 1)\<rparr> =
    Inr \<lparr>dd_skipped = sk, dd_fields = map Some (pre @ [v]) @ replicate (length fs) None, dd_expected = word_of_nat (length (pre @ [v]) + 1)\<rparr>"
    using small by (simp add: dir_decode_step_def t Let_def list_update_append)
  with Cons.IH [OF rest] Cons.prems(2) show ?case by (simp add: tv)
qed simp

lemma key_state_u8_eq: "key_state_u8 a = 0 \<longleftrightarrow> a = Active" "key_state_u8 a = 1 \<longleftrightarrow> a = Withdrawn"
  by (cases a; simp)+

lemma dir_record_round_trip:
  assumes "dir_record_wf r" and "dir_record_encode c r = Inr bs"
  shows "dir_record_decode c bs = Inr r"
proof -
  let ?fs = "dir_record_fields r"
  from assms(2) have enc: "dir_record_check c r = Inr ()" "ascending None ?fs" "bs = enc_fields ?fs" "length bs \<le> 8192"
    by (auto simp: dir_record_encode_Inr write_fields_eq_Inr)
  let ?s = "\<lparr>dd_skipped = skipped_default, dd_fields = map (\<lambda>tv. Some (snd tv)) ?fs, dd_expected = 10\<rparr>"
  have "tlv_loop dir_decode_step (reader_new bs) dir_decode_start = Inr ?s"
  proof -
    have nine: "[1..<10] = [1, 2, 3, 4, 5, 6, 7, 8, 9 :: nat]" by (simp add: upt_rec)
    then have "map fst ?fs = map word_of_nat [length ([] :: bytes list) + 1..<length ([] :: bytes list) + length ?fs + 1]"
      and len: "length ?fs = 9" by (simp_all add: dir_record_fields_def del: upt_rec_numeral)
    from dir_fill_slots [OF this(1), of 0 skipped_default] len show ?thesis
      unfolding enc(3) tlv_loop_own [OF enc(2)] dir_decode_start_def by (simp add: comp_def)
  qed
  moreover have "dir_decode_finish c bs ?s = Inr r"
    using assms enc(1) tenant_utf8 [of "dr_tenant r"] key_state_u8_eq [of "dr_state r"]
    by (cases r; cases "dr_state r")
      (auto simp: dir_decode_finish_def dd_byte_def dd_text_def dd_eight_def dd_get_def dir_record_fields_def get_at_def
        dir_record_wf_def from_utf8_def exact_len_def skipped_strip_def skipped_default_def dir_record_check_def
        bindR_eq_Inr Let_def)
  ultimately show ?thesis using enc(4) by (simp add: dir_record_decode_def MAX_RECORD_LEN_def)
qed

interpretation dir_record_codec: codec "dir_record_encode c" "dir_record_decode c" dir_record_wf for c
  by unfold_locales (rule dir_record_round_trip)

section \<open>Requests, answers and pages\<close>

lemma lookup_request_exact:
  "decode_lookup_request bs = Inr (tenant, name, count) \<longleftrightarrow> utf8_valid name \<and> encode_lookup_request tenant name count = Inr bs"
proof
  assume "decode_lookup_request bs = Inr (tenant, name, count)"
  then obtain b nl where bs: "bs = b # tenant @ nl @ name @ le64 count" and len: "length tenant = unat b" "length nl = 2" "length name = le_nat nl"
    and ok: "utf8_valid name" "check_tenant tenant = Inr ()" "check_text name MAX_NAME_CHARS DR_NAME = Inr ()"
    by (auto simp: decode_lookup_request_def Let_def bindR_eq_Inr ok_or_eq_Inr split_at_parts map_err_eq_Inr from_utf8_def
        le_bytes_of_le64 split: list.splits if_splits)
  have nl: "le_bytes 2 (le_nat nl) = nl" using le_bytes_le_nat [OF len(2)] .
  have "le_nat nl < 65536" using le_nat_less [of nl] len(2) by simp
  then have "u16_of_usize (length name) = Some (word_of_nat (length name))" "unat (word_of_nat (length name) :: u16) = length name"
    using len(3) by (simp_all add: u16_of_usize_def unat_of_nat take_bit_nat_eq_self)
  moreover have "length tenant < 256" unfolding len(1) by (rule order_less_le_trans [OF unsigned_less]) simp
  moreover have "word_of_nat (length tenant) = b" using len(1) by simp
  ultimately show "utf8_valid name \<and> encode_lookup_request tenant name count = Inr bs"
    using ok bs nl len(3) by (simp add: encode_lookup_request_def)
next
  assume a: "utf8_valid name \<and> encode_lookup_request tenant name count = Inr bs"
  then obtain nl where t: "check_tenant tenant = Inr ()" "length tenant < 256" and n: "check_text name MAX_NAME_CHARS DR_NAME = Inr ()"
    "u16_of_usize (length name) = Some nl" and bs: "bs = word_of_nat (length tenant) # tenant @ le16 nl @ name @ le64 count"
    by (auto simp: encode_lookup_request_def bindR_eq_Inr ensure_eq_Inr ok_or_eq_Inr)
  have "unat nl = length name" using n(2) by (auto simp: u16_of_usize_def unat_of_nat take_bit_nat_eq_self split: if_splits)
  moreover have "unat nl < 65536" by (rule order_less_le_trans [OF unsigned_less]) simp
  moreover have "unat (word_of_nat (length tenant) :: byte) = length tenant" using t(2) by (simp add: unat_of_nat take_bit_nat_eq_self)
  ultimately show "decode_lookup_request bs = Inr (tenant, name, count)"
    using a t(1) n(1) tenant_utf8 [OF t(1)]
    by (simp add: bs decode_lookup_request_def le_nat_le_bytes from_utf8_def exact_len_def)
qed

definition lookup_wf :: "Lookup \<Rightarrow> bool" where
  "lookup_wf l \<longleftrightarrow> head_wf (lk_head l) \<and> lk_record l \<noteq> [] \<and> (\<forall>n \<in> set (lk_path l). length n = 32)"

lemma lookup_encode_Inr:
  "lookup_encode l = Inr bs \<longleftrightarrow> length (lk_record l) \<le> 8192 \<and> length (lk_path l) \<le> 64 \<and>
     bs = signed_head_encode (lk_head l) @ le64 (lk_index l) @ le_bytes 4 (length (lk_record l)) @ lk_record l @ concat (lk_path l)"
  by (auto simp: lookup_encode_def bindR_eq_Inr ensure_eq_Inr ok_or_eq_Inr checked_simps MAX_RECORD_LEN_def MAX_INCLUSION_PATH_def
      u32_of_usize_def unat_of_nat take_bit_nat_eq_self)

lemma lookup_decode_Inr: "lookup_decode bs = Inr l \<longleftrightarrow> lookup_wf l \<and> lookup_encode l = Inr bs"
proof
  assume "lookup_decode bs = Inr l"
  then obtain head index len rec path h nodes where
    bs: "bs = head @ index @ len @ rec @ path" and lens: "length index = 8" "length len = 4" "length rec = le_nat len"
    "0 < le_nat len" "le_nat len \<le> 8192" "32 dvd length path" "length path div 32 \<le> 64"
    and parts: "mapR (exact_len 32 0) (chunks_32 path) = Inr nodes" "signed_head_decode head = Inr h"
    and l: "l = \<lparr>lk_head = h, lk_index = of_le index, lk_record = rec, lk_path = nodes\<rparr>"
    by (auto simp: lookup_decode_def Let_def bindR_eq_Inr ok_or_eq_Inr split_at_parts map_err_eq_Inr ensure_eq_Inr
        MAX_RECORD_LEN_def MAX_INCLUSION_PATH_def mod_eq_0_iff_dvd)
  note nodes = nodes_of_chunks [OF lens(6), THEN iffD1, OF parts(1)]
  then have "length nodes \<le> 64" using lens(7) concat_32 [of nodes] by simp
  with bs lens(1-5) parts(2) l nodes le_bytes_le_nat [OF lens(2)] show "lookup_wf l \<and> lookup_encode l = Inr bs"
    by (auto simp: lookup_wf_def lookup_encode_Inr signed_head_decode_Inr le_bytes_of_le64)
next
  assume l: "lookup_wf l \<and> lookup_encode l = Inr bs"
  then have path: "32 dvd length (concat (lk_path l))" "length (concat (lk_path l)) div 32 \<le> 64"
    by (subst concat_32, simp_all add: lookup_wf_def lookup_encode_Inr)+
  have nodes: "mapR (exact_len 32 0) (chunks_32 (concat (lk_path l))) = Inr (lk_path l)"
    using l by (simp add: nodes_of_chunks [OF path(1)] lookup_wf_def)
  from l have "bs = signed_head_encode (lk_head l) @ le64 (lk_index l) @ le_bytes 4 (length (lk_record l)) @ lk_record l @ concat (lk_path l)"
    "length (lk_record l) \<le> 8192" "0 < length (lk_record l)"
    "length (signed_head_encode (lk_head l)) = SIGNED_HEAD_LEN" "signed_head_decode (signed_head_encode (lk_head l)) = Inr (lk_head l)"
    by (auto simp: lookup_encode_Inr lookup_wf_def signed_head_decode_Inr head_lens signed_head_length)
  then show "lookup_decode bs = Inr l"
    using path nodes
    by (cases l) (simp add: lookup_decode_def Let_def le_nat_le_bytes MAX_RECORD_LEN_def MAX_INCLUSION_PATH_def del: length_concat)
qed

interpretation lookup_codec: codec lookup_encode lookup_decode lookup_wf
  by unfold_locales (simp add: lookup_decode_Inr)

lemma record_length_u32:
  "length (rec :: bytes) \<le> 8192 \<Longrightarrow> u32_of_usize (length rec) = Some (word_of_nat (length rec))"
  "length (rec :: bytes) \<le> 8192 \<Longrightarrow> unat (word_of_nat (length rec) :: u32) = length rec"
  by (simp_all add: u32_of_usize_def unat_of_nat take_bit_nat_eq_self)

lemma encode_page_Inr:
  "encode_page recs = Inr bs \<longleftrightarrow> length recs \<le> 256 \<and> (\<forall>rec \<in> set recs. rec \<noteq> [] \<and> length rec \<le> 8192) \<and> bs = enc_stream recs"
proof -
  let ?put = "\<lambda>rec out.
       bindR (ensure (\<not> (rec = [] \<or> length rec > MAX_RECORD_LEN)) (BadFieldLength 0 (length rec))) (\<lambda>_.
       bindR (ok_or (BadFieldLength 0 (length rec)) (u32_of_usize (length rec))) (\<lambda>len.
       Inr (out @ le32 len @ rec)))"
  have put: "?put rec out = Inr out' \<longleftrightarrow> rec \<noteq> [] \<and> length rec \<le> 8192 \<and> out' = out @ le_bytes 4 (length rec) @ rec" for rec out out'
    by (cases "length rec \<le> 8192") (auto simp: ensure_eq_Inr bindR_eq_Inr MAX_RECORD_LEN_def record_length_u32)
  have puts: "foldR ?put recs out = Inr bs \<longleftrightarrow>
     (\<forall>rec \<in> set recs. rec \<noteq> [] \<and> length rec \<le> 8192) \<and> bs = out @ enc_stream recs" for out
  proof (induction recs arbitrary: out)
    case (Cons rec recs)
    have "foldR ?put (rec # recs) out = Inr bs \<longleftrightarrow> (\<exists>out'. ?put rec out = Inr out' \<and> foldR ?put recs out' = Inr bs)"
      unfolding foldR.simps bindR_eq_Inr ..
    also have "\<dots> \<longleftrightarrow> (rec \<noteq> [] \<and> length rec \<le> 8192 \<and> (\<forall>rec \<in> set recs. rec \<noteq> [] \<and> length rec \<le> 8192) \<and>
      bs = (out @ le_bytes 4 (length rec) @ rec) @ enc_stream recs)"
      unfolding put Cons.IH by blast
    finally show ?case by (simp only: list.set ball_simps enc_stream_simps append_assoc conj_assoc)
  qed auto
  show ?thesis unfolding encode_page_def bind_unit_eq_Inr ensure_eq_Inr MAX_PAGE_def puts by (simp add: not_less)
qed

lemma decoded_not_empty: "dir_record_decode c rec = Inr r \<Longrightarrow> rec \<noteq> []"
proof
  assume "dir_record_decode c rec = Inr r" and "rec = []"
  from dir_record_decoded(4) [OF this(1)] obtain fs where fs: "enc_fields fs = []"
    "filter (\<lambda>tv. fst tv \<in> set (map fst (dir_record_fields r))) fs = dir_record_fields r"
    unfolding carries_def \<open>rec = []\<close> by (auto dest: sym [of "[]"])
  have "dir_record_fields r \<noteq> []" by (simp add: dir_record_fields_def)
  moreover have "length (enc_fields fs) = 0" using fs(1) by simp
  then have "fs = []" by (cases fs) (simp_all add: enc_field_def)
  ultimately show False using fs(2) by simp
qed

lemma decode_page_loop_Inr:
  "decode_page_loop c rest out = Inr recs \<longleftrightarrow>
     (\<exists>new. recs = out @ new \<and> rest = enc_stream new \<and> (\<forall>rec \<in> set new. length rec < 4294967296 \<and> is_ok (dir_record_decode c rec)) \<and>
        (new = [] \<or> length recs \<le> 256))"
proof (induction c rest out arbitrary: recs rule: decode_page_loop.induct)
  case (1 c rest out)
  show ?case
  proof (cases "next_item rest")
    case None
    then have "rest \<noteq> [] \<Longrightarrow> decode_page_loop c rest out \<noteq> Inr recs"
      by (auto simp: decode_page_loop.simps [of c rest] next_item_def split: option.splits)
    moreover have "rest = [] \<Longrightarrow> decode_page_loop c rest out = Inr out" by (simp add: decode_page_loop.simps)
    moreover have "rest = enc_stream new \<Longrightarrow> \<forall>rec \<in> set new. length rec < 4294967296 \<Longrightarrow> new = []" for new
      using None by (cases new) auto
    ultimately show ?thesis by (cases "rest = []") auto
  next
    case (Some it)
    then obtain x tail where it: "next_item rest = Some (x, tail)" by (cases it) auto
    note d = next_itemD [OF it]
    obtain len rest' where sp: "split_at_checked rest 4 = Some (len, rest')" "split_at_checked rest' (le_nat len) = Some (x, tail)"
      using it by (auto simp: next_item_def split: option.splits)
    have ne: "rest \<noteq> []" using d(3) by auto
    have step: "decode_page_loop c rest out =
      bindR (dir_record_decode c x) (\<lambda>_. if length (out @ [x]) > MAX_PAGE then Inl (BadFieldLength 0 (length (out @ [x])))
        else decode_page_loop c tail (out @ [x]))"
      using ne by (subst decode_page_loop.simps) (simp add: sp Let_def)
    have new: "rest = enc_stream new \<longleftrightarrow> (\<exists>new'. new = x # new' \<and> tail = enc_stream new')" if "\<forall>rec \<in> set new. length rec < 4294967296" for new
    proof (cases new)
      case (Cons y new')
      then have nf: "next_item (enc_stream new) = Some (y, enc_stream new')" using that by simp
      show ?thesis
      proof
        assume "rest = enc_stream new"
        with it nf Cons show "\<exists>new'. new = x # new' \<and> tail = enc_stream new'" by simp
      next
        assume "\<exists>new'. new = x # new' \<and> tail = enc_stream new'"
        then show "rest = enc_stream new" unfolding d(1) by auto
      qed
    qed (use ne in simp)
    show ?thesis (is "?l \<longleftrightarrow> ?r")
    proof
      assume ?l
      then obtain r where r: "dir_record_decode c x = Inr r" "length (out @ [x]) \<le> MAX_PAGE" "decode_page_loop c tail (out @ [x]) = Inr recs"
        by (auto simp: step bindR_eq_Inr split: if_splits)
      from "1.IH" [OF ne sp(1) refl sp(2) refl r(1) refl, of recs] r(2,3) obtain new where
        "recs = (out @ [x]) @ new" "tail = enc_stream new" "\<forall>rec \<in> set new. length rec < 4294967296 \<and> is_ok (dir_record_decode c rec)"
        "new = [] \<or> length recs \<le> 256" by auto
      moreover from this have "length recs \<le> 256" using r(2) by (auto simp: MAX_PAGE_def)
      ultimately show ?r using r(1) d(1,2) by (intro exI [of _ "x # new"]) (simp add: is_ok_def)
    next
      assume ?r
      then obtain new where a: "recs = out @ new" "rest = enc_stream new"
        "\<forall>rec \<in> set new. length rec < 4294967296 \<and> is_ok (dir_record_decode c rec)" "new = [] \<or> length recs \<le> 256" by blast
      then obtain new' where n: "new = x # new'" "tail = enc_stream new'" using new [of new] by auto
      then obtain r where r: "dir_record_decode c x = Inr r" using a(3) by (auto simp: is_ok_def split: sum.splits)
      from a n have le: "\<not> length (out @ [x]) > MAX_PAGE" by (simp add: MAX_PAGE_def)
      from "1.IH" [OF ne sp(1) refl sp(2) refl r refl le, of recs] a n le r show ?l unfolding step by auto
    qed
  qed
qed

lemma decode_page_exact:
  "decode_page c bs = Inr recs \<longleftrightarrow> encode_page recs = Inr bs \<and> (\<forall>rec \<in> set recs. is_ok (dir_record_decode c rec))"
proof -
  have "rec \<noteq> [] \<and> length rec \<le> 8192" if "is_ok (dir_record_decode c rec)" for rec
    using that decoded_not_empty dir_record_decoded(1) by (auto simp: is_ok_def split: sum.splits)
  then show ?thesis
    unfolding decode_page_def decode_page_loop_Inr encode_page_Inr by auto force+
qed

section \<open>Properties\<close>

definition entry_message :: "bytes \<Rightarrow> bytes" where
  "entry_message bs = DIRECTORY_ENTRY @ [0] @ bs"

definition entry_collision :: "Crates \<Rightarrow> bytes list \<Rightarrow> bytes \<Rightarrow> bool" where
  "entry_collision c entries bs \<longleftrightarrow>
     (\<exists>e \<in> set entries. e \<noteq> bs \<and> sha256_digest c (entry_message e) = sha256_digest c (entry_message bs))"

text \<open>Two different messages with one digest, one hashed by the tree and the other by the proof.\<close>

definition path_collision :: "Crates \<Rightarrow> MerkleTree \<Rightarrow> bytes list \<Rightarrow> nat \<Rightarrow> nat \<Rightarrow> bytes \<Rightarrow> bytes list \<Rightarrow> bool" where
  "path_collision c t digests count index d p \<longleftrightarrow>
     (\<exists>a u. verify_path c p count index d 0 = Some (a, u) \<and>
        collision c (root_message (leaf_count t) (apex t) # tree_messages c digests)
          (root_message (word_of_nat count) a # path_messages c p count index d 0))"

lemma dir_record_leaf_message: "dir_record_leaf c bs = Leaf (sha256_digest c (entry_message bs))"
  by (simp add: dir_record_leaf_def entry_message_def transcript_defs)

lemma lookup_verify_Inr:
  "lookup_verify c l key tenant name = Inr r \<longleftrightarrow>
     head_signed_by c (lk_head l) Directory key \<and>
     (\<exists>index count. u32_of_u64 (lk_index l) = Some index \<and> u32_of_u64 (sh_size (lk_head l)) = Some count \<and>
        verify_proof c (sh_root (lk_head l)) index count (dir_record_leaf c (lk_record l)) (lk_path l)) \<and>
     dir_record_decode c (lk_record l) = Inr r \<and> dr_tenant r = tenant \<and> dr_name r = name"
  by (auto simp: lookup_verify_def bindR_eq_Inr ensure_eq_Inr map_err_eq_Inr split: option.splits)

text \<open>
  C14.  A directory answer is what the log says.  When a lookup is accepted under the server's key,
  and its head is the root over a list of entries, then the head was signed as a directory head,
  the record is about the tenant and the member that were asked for and its fingerprint is the
  one of its public key, and the record's bytes are the entry at the stated index of a log of
  exactly the stated size, and carry the record's nine fields, in order, and no other
  field that a reader must understand; or a collision of one of the two hash functions is exhibited.
\<close>

theorem lookup_authentic:
  assumes "ct_eq_sound c" and "digests_32 c" and "build c (map (dir_record_leaf c) entries) = Inr t"
    and "sh_root (lk_head l) = root c t" and "\<forall>s \<in> set (lk_path l). length s = 32"
    and "lookup_verify c l key tenant name = Inr r"
  shows "head_signed_by c (lk_head l) Directory key \<and> dr_tenant r = tenant \<and> dr_name r = name \<and>
    device_fpr c (dr_kem r) (dr_public r) = Inr (dr_fpr r) \<and>
    carries (map fst (dir_record_fields r)) (dir_record_fields r) (lk_record l) \<and>
    ((unat (sh_size (lk_head l)) = length entries \<and> unat (lk_index l) < length entries \<and>
        entries ! unat (lk_index l) = lk_record l) \<or>
      entry_collision c entries (lk_record l) \<or>
      path_collision c t (map (leaf_digest \<circ> dir_record_leaf c) entries) (unat (sh_size (lk_head l))) (unat (lk_index l))
        (leaf_digest (dir_record_leaf c (lk_record l))) (lk_path l))"
proof -
  let ?leaf = "dir_record_leaf c (lk_record l)" and ?leaves = "map (dir_record_leaf c) entries"
  from assms(6) obtain index count where v: "head_signed_by c (lk_head l) Directory key" "unat index = unat (lk_index l)"
    "unat count = unat (sh_size (lk_head l))" "verify_proof c (root c t) index count ?leaf (lk_path l)"
    and dec: "dir_record_decode c (lk_record l) = Inr r" "dr_tenant r = tenant" "dr_name r = name"
    by (auto simp: lookup_verify_Inr assms(4) checked_simps)
  note d = dir_record_decoded [OF dec(1)]
  have "length (leaf_digest (dir_record_leaf c x)) = 32" for x using assms(2) by (simp add: dir_record_leaf_def digests_32_def)
  then have "(count = leaf_count t \<and> unat index < length ?leaves \<and> ?leaf = ?leaves ! unat index) \<or>
      path_collision c t (map leaf_digest ?leaves) (unat count) (unat index) (leaf_digest ?leaf) (lk_path l)"
    using inclusion_sound [OF assms(1-3) v(4) _ _ assms(5)] by (simp add: path_collision_def)
  moreover have "unat (leaf_count t) = length entries" using built_tree(1) [OF assms(3)] by simp
  moreover have "entries ! unat (lk_index l) = lk_record l \<or> entry_collision c entries (lk_record l)"
    if "unat index < length entries" and "?leaf = ?leaves ! unat index"
    using that v(2) nth_mem [OF that(1)] by (auto simp: entry_collision_def dir_record_leaf_message)
  moreover have "device_fpr c (dr_kem r) (dr_public r) = Inr (dr_fpr r)"
    using dir_record_check_Inr [OF assms(1,2)] d(2,3) by (simp add: dir_record_wf_def)
  ultimately show ?thesis unfolding map_map [symmetric] using v(1-3) dec(2,3) d(4) by (metis length_map)
qed

text \<open>
  C15.  Every record in the log can be looked up.  For an entry that decodes, in a log whose head
  the server signed, the inclusion proof exists and the lookup with it is accepted for the
  record's tenant and name, and refused as another entry for every other pair.
\<close>

theorem lookup_answered:
  assumes "ct_eq_sound c" and "build c (map (dir_record_leaf c) entries) = Inr t" and "unat index < length entries"
    and "dir_record_decode c (entries ! unat index) = Inr r"
    and "head_signed_by c \<lparr>sh_size = u64_count t, sh_root = root c t, sh_sig = sig\<rparr> Directory key"
  shows "\<exists>p. merkle_proof t index = Inr p \<and>
    (\<forall>tenant name. lookup_verify c
        \<lparr>lk_head = \<lparr>sh_size = u64_count t, sh_root = root c t, sh_sig = sig\<rparr>,
         lk_index = u64_of_u32 index, lk_record = entries ! unat index, lk_path = p\<rparr> key tenant name =
      (if tenant = dr_tenant r \<and> name = dr_name r then Inr r else Inl OtherEntry))"
proof -
  let ?leaves = "map (dir_record_leaf c) entries"
  obtain p where p: "merkle_proof t index = Inr p" "verify_proof c (root c t) index (leaf_count t) (?leaves ! unat index) p"
    using merkle_proof_complete [OF assms(1,2)] assms(3) by auto
  moreover have "u32_of_u64 (u64_of_u32 index) = Some index" by (simp add: checked_simps)
  ultimately show ?thesis
    using assms(3-5) by (intro exI [of _ p]) (auto simp: lookup_verify_def u32_of_count ensure_def)
qed

definition demo_record :: DirRecord where
  "demo_record = \<lparr>dr_tenant = [97], dr_name = [98], dr_kem = X25519HkdfSha256, dr_public = replicate 32 9,
     dr_fpr = replicate 32 9, dr_version = 1, dr_state = Active, dr_origin = [99], dr_at = 0\<rparr>"

definition demo_record_bytes :: bytes where
  "demo_record_bytes = enc_fields (dir_record_fields demo_record)"

lemma demo_record_decodes: "dir_record_decode demo_crates demo_record_bytes = Inr demo_record"
proof (rule dir_record_codec.dec_enc)
  show "dir_record_wf demo_record" by (simp add: dir_record_wf_def demo_record_def)
  have "dir_record_check demo_crates demo_record = Inr ()"
    by (subst dir_record_check_Inr [OF demo_crates_laws(1,3)])
      (simp_all add: demo_record_def check_tenant_Inr check_text_Inr is_whitespace_def is_display_unsafe_def BIDI_def INVISIBLE_def SEPARATORS_def is_control_def TAG_FIRST_def TAG_LAST_def MAX_NAME_CHARS_def MAX_ORIGIN_CHARS_def)
  moreover have "ascending None (dir_record_fields demo_record)" by (simp add: dir_record_fields_def demo_record_def)
  moreover have "length demo_record_bytes \<le> 8192"
    by (simp add: demo_record_bytes_def dir_record_fields_def demo_record_def enc_field_def)
  ultimately show "dir_record_encode demo_crates demo_record = Inr demo_record_bytes"
    by (simp add: dir_record_encode_Inr demo_record_bytes_def)
qed

lemma demo_head_signed:
  "head_signed_by demo_crates \<lparr>sh_size = n, sh_root = r, sh_sig = replicate 32 0 @ replicate 32 6\<rparr> log (replicate 32 6)"
  by (simp add: head_signed_by_def sign_verify_def demo_crates_def)

lemma demo_log_build: "\<exists>t. build demo_crates (map (dir_record_leaf demo_crates) [[1], demo_record_bytes]) = Inr t"
  by (simp add: build_Inr)

theorem lookup_answered_witness:
  "\<exists>t p. build demo_crates (map (dir_record_leaf demo_crates) [[1], demo_record_bytes]) = Inr t \<and> merkle_proof t 1 = Inr p \<and>
     lookup_verify demo_crates
        \<lparr>lk_head = \<lparr>sh_size = u64_count t, sh_root = root demo_crates t, sh_sig = replicate 32 0 @ replicate 32 6\<rparr>,
         lk_index = u64_of_u32 1, lk_record = demo_record_bytes, lk_path = p\<rparr> (replicate 32 6) [97] [98] = Inr demo_record"
proof -
  obtain t where t: "build demo_crates (map (dir_record_leaf demo_crates) [[1], demo_record_bytes]) = Inr t"
    using demo_log_build by blast
  have "unat (1 :: u32) < length [[1], demo_record_bytes]" "dir_record_decode demo_crates ([[1], demo_record_bytes] ! unat (1 :: u32)) = Inr demo_record"
    using demo_record_decodes by simp_all
  from lookup_answered [OF demo_crates_laws(1) t this demo_head_signed] t show ?thesis
    by (auto simp: demo_record_def dest: spec [of _ "[97]"] spec [of _ "[98]"])
qed

theorem lookup_authentic_witness:
  "\<exists>t p. build demo_crates (map (dir_record_leaf demo_crates) [demo_record_bytes]) = Inr t \<and>
     (let l = \<lparr>lk_head = \<lparr>sh_size = 1, sh_root = root demo_crates t, sh_sig = replicate 32 0 @ replicate 32 6\<rparr>,
         lk_index = 0, lk_record = demo_record_bytes, lk_path = p\<rparr> in
      lookup_verify demo_crates l (replicate 32 6) [97] [98] = Inr demo_record \<and>
      device_fpr demo_crates X25519HkdfSha256 (replicate 32 9) = Inr (dr_fpr demo_record))"
proof -
  obtain t where t: "build demo_crates (map (dir_record_leaf demo_crates) [demo_record_bytes]) = Inr t"
    by (simp add: build_Inr)
  define l where "l = \<lparr>lk_head = \<lparr>sh_size = 1, sh_root = root demo_crates t, sh_sig = replicate 32 0 @ replicate 32 6\<rparr>,
    lk_index = 0, lk_record = demo_record_bytes, lk_path = []\<rparr>"
  have one: "leaf_count t = 1" using built_tree(1) [OF t] by (simp add: word_unat_eq_iff)
  have "verify_proof demo_crates (root demo_crates t) 0 1 (dir_record_leaf demo_crates demo_record_bytes) []"
    using built_tree(2) [OF t]
    by (simp add: verify_proof_def verify_path_steps level_steps digest_eq_ct_def root_def one) (simp add: demo_crates_def)
  moreover have "u32_of_u64 0 = Some 0" "u32_of_u64 1 = Some 1" by (simp_all add: checked_simps)
  ultimately have v: "lookup_verify demo_crates l (replicate 32 6) [97] [98] = Inr demo_record"
    by (simp add: lookup_verify_def l_def demo_head_signed demo_record_decodes) (simp add: demo_record_def)
  from lookup_authentic [OF demo_crates_laws(1,3) t _ _ v] v t show ?thesis
    unfolding Let_def by (intro exI [of _ t] exI [of _ "[]"]) (simp add: l_def [symmetric], simp add: l_def demo_record_def)
qed

end
