(* ===== verification/OC_Control.thy ===== *)
theory OC_Control
  imports OC_Directory OC_Rsa "HOL-Library.List_Lexorder"
begin

text \<open>
  Control of an authority server (\<^verbatim>\<open>oc-protocol/src/control.rs\<close>): bindings, which say what a server is
  in one epoch and which roster of keys governs it, their continuity, requests signed by several
  keys, receipts, transfers to a next epoch, and \<open>verify_chain\<close>, which follows transfers from a
  binding that the container's header anchors.  All four documents are TLV bodies compared with
  their canonical encoding.  The chain is shown to be a chain: every accepted step was signed by
  at least the threshold of distinct keys of the roster before it.

  The Russian texts of \<^verbatim>\<open>ChainError::Broken\<close> are the constructors of \<open>ChainBreak\<close>, and an error that
  the code carries as its displayed text is carried as the error.
\<close>

section \<open>Limits and small values\<close>

definition CONTROL_VERSION :: byte where "CONTROL_VERSION = 1"
definition CONTROL_MAX_URLS :: nat where "CONTROL_MAX_URLS = 8"
definition CONTROL_MAX_URL_LEN :: nat where "CONTROL_MAX_URL_LEN = 256"
definition MAX_PINS :: nat where "MAX_PINS = 8"
definition MAX_ROSTER :: nat where "MAX_ROSTER = 16"
definition MAX_SIGNERS :: nat where "MAX_SIGNERS = 16"
definition MAX_REQUEST_LIFETIME :: int where "MAX_REQUEST_LIFETIME = 86400"
definition MAX_REASON_CHARS :: nat where "MAX_REASON_CHARS = 512"
definition MAX_DOCUMENT_LEN :: nat where "MAX_DOCUMENT_LEN = 64 * 1024"

datatype Durability = Local | Mirrored | Witnessed

fun durability_u8 :: "Durability \<Rightarrow> byte" where
  "durability_u8 Local = 0"
| "durability_u8 Mirrored = 1"
| "durability_u8 Witnessed = 2"

definition durability_from_u8 :: "byte \<Rightarrow> Durability option" where
  "durability_from_u8 v =
     (if v = 0 then Some Local else if v = 1 then Some Mirrored else if v = 2 then Some Witnessed else None)"

datatype Recovery = Undeclared | Package | NotRecoverable

fun recovery_u8 :: "Recovery \<Rightarrow> byte" where
  "recovery_u8 Undeclared = 0"
| "recovery_u8 Package = 1"
| "recovery_u8 NotRecoverable = 2"

definition recovery_from_u8 :: "byte \<Rightarrow> Recovery option" where
  "recovery_from_u8 v =
     (if v = 0 then Some Undeclared else if v = 1 then Some Package else if v = 2 then Some NotRecoverable else None)"

datatype ServerStatus = Serving | Stopped | ArchiveOnly | Transferred

fun status_u8 :: "ServerStatus \<Rightarrow> byte" where
  "status_u8 Serving = 0"
| "status_u8 Stopped = 1"
| "status_u8 ArchiveOnly = 2"
| "status_u8 Transferred = 3"

definition status_from_u8 :: "byte \<Rightarrow> ServerStatus option" where
  "status_from_u8 v =
     (if v = 0 then Some Serving else if v = 1 then Some Stopped else if v = 2 then Some ArchiveOnly
      else if v = 3 then Some Transferred else None)"

definition control_check_tenant :: "bytes \<Rightarrow> u16 \<Rightarrow> FormatError + unit" where
  "control_check_tenant tenant tag =
     ensure (tenant \<noteq> [] \<and> length tenant \<le> MAX_TENANT \<and>
         list_all (\<lambda>b. (97 \<le> b \<and> b \<le> 122) \<or> (48 \<le> b \<and> b \<le> 57) \<or> b = 46 \<or> b = 45 \<or> b = 95) tenant)
       (BadFieldLength tag (length tenant))"

definition check_url :: "bytes \<Rightarrow> u16 \<Rightarrow> FormatError + unit" where
  "check_url url tag =
     ensure (url \<noteq> [] \<and> length url \<le> CONTROL_MAX_URL_LEN \<and> list_all (\<lambda>b. 33 \<le> b \<and> b \<le> 126) url)
       (BadFieldLength tag (length url))"

definition check_reason :: "bytes \<Rightarrow> u16 \<Rightarrow> FormatError + unit" where
  "check_reason txt tag =
     bindR (ensure (\<not> length (utf8_chars txt) > MAX_REASON_CHARS) (BadFieldLength tag (length txt))) (\<lambda>_.
     case find is_display_unsafe (utf8_chars txt) of
       Some ch \<Rightarrow> Inl (BadNoteChar tag (word_of_nat ch))
     | None \<Rightarrow> Inr ())"

definition encode_urls :: "bytes list \<Rightarrow> u16 \<Rightarrow> FormatError + bytes" where
  "encode_urls urls tag =
     bindR (ensure (\<not> (urls = [] \<or> length urls > CONTROL_MAX_URLS)) (BadFieldLength tag (length urls))) (\<lambda>_.
     foldR (\<lambda>url out.
       bindR (check_url url tag) (\<lambda>_.
       bindR (ok_or (BadFieldLength tag (length url)) (u16_of_usize (length url))) (\<lambda>len.
       Inr (out @ le16 len @ url)))) urls [])"

function decode_urls_loop :: "u16 \<Rightarrow> bytes \<Rightarrow> bytes list \<Rightarrow> FormatError + bytes list" where
  "decode_urls_loop tag rest urls =
     (if rest = [] then Inr urls
      else if length urls \<ge> CONTROL_MAX_URLS then Inl (BadFieldLength tag (length rest))
      else
        (case split_at_checked rest 2 of
           None \<Rightarrow> Inl (BadFieldLength tag (length rest))
         | Some (len, tail) \<Rightarrow>
             (case split_at_checked tail (le_nat len) of
                None \<Rightarrow> Inl (BadFieldLength tag (length tail))
              | Some (url, tail) \<Rightarrow>
                  bindR (ok_or (BadFieldLength tag (le_nat len)) (from_utf8 url)) (\<lambda>url.
                  bindR (check_url url tag) (\<lambda>_.
                  bindR (ensure (\<not> url \<in> set urls) (BadFieldLength tag (le_nat len))) (\<lambda>_.
                  decode_urls_loop tag tail (urls @ [url])))))))"
  by pat_completeness auto
termination
  by (relation "measure (\<lambda>(tag, rest, urls). length rest)") (auto simp: split_at_checked_eq_Some)

declare decode_urls_loop.simps [simp del]

definition decode_urls :: "bytes \<Rightarrow> u16 \<Rightarrow> FormatError + bytes list" where
  "decode_urls bs tag =
     bindR (decode_urls_loop tag bs []) (\<lambda>urls.
     bindR (ensure (urls \<noteq> []) (BadFieldLength tag 0)) (\<lambda>_.
     Inr urls))"

text \<open>Keys stand strictly ascending: no two neighbours, \<^verbatim>\<open>windows(2)\<close>, in another order.\<close>

definition out_of_order :: "bytes list \<Rightarrow> bool" where
  "out_of_order keys = list_ex (\<lambda>(a, b). a \<ge> b) (zip keys (tl keys))"

definition encode_keys :: "bytes list \<Rightarrow> nat \<Rightarrow> u16 \<Rightarrow> FormatError + bytes" where
  "encode_keys keys m tag =
     bindR (ensure (\<not> (length keys > m \<or> out_of_order keys)) (BadFieldLength tag (length keys))) (\<lambda>_.
     Inr (concat keys))"

definition decode_keys :: "bytes \<Rightarrow> nat \<Rightarrow> u16 \<Rightarrow> FormatError + bytes list" where
  "decode_keys bs m tag =
     bindR (ensure (length bs mod 32 = 0) (BadFieldLength tag (length bs))) (\<lambda>_.
     bindR (map_err (BadFieldLength tag (length bs)) (mapR (exact_len 32 tag) (chunks_32 bs))) (\<lambda>keys.
     bindR (ensure (\<not> (length keys > m \<or> out_of_order keys)) (BadFieldLength tag (length bs))) (\<lambda>_.
     Inr keys)))"

definition split_signed :: "bytes \<Rightarrow> FormatError + (bytes \<times> bytes)" where
  "split_signed bs =
     bindR (ensure (\<not> length bs > MAX_DOCUMENT_LEN) (BadFieldLength 0 (length bs))) (\<lambda>_.
     ok_or (BadFieldLength 0 (length bs)) (split_at_checked bs SIGNATURE_LEN))"

definition control_digest :: "Crates \<Rightarrow> bytes \<Rightarrow> bytes" where
  "control_digest c bs = sha256_digest c bs"

section \<open>Bindings\<close>

abbreviation (input) BT_VERSION :: u16 where "BT_VERSION \<equiv> 1"
abbreviation (input) BT_TENANT :: u16 where "BT_TENANT \<equiv> 2"
abbreviation (input) BT_AUTHORITY_ID :: u16 where "BT_AUTHORITY_ID \<equiv> 3"
abbreviation (input) BT_EPOCH :: u16 where "BT_EPOCH \<equiv> 4"
abbreviation (input) BT_REVISION :: u16 where "BT_REVISION \<equiv> 5"
abbreviation (input) BT_LEASE_PUBLIC :: u16 where "BT_LEASE_PUBLIC \<equiv> 6"
abbreviation (input) BT_SEALING_PUBLIC :: u16 where "BT_SEALING_PUBLIC \<equiv> 7"
abbreviation (input) BT_URLS :: u16 where "BT_URLS \<equiv> 8"
abbreviation (input) BT_PINS :: u16 where "BT_PINS \<equiv> 9"
abbreviation (input) BT_DURABILITY :: u16 where "BT_DURABILITY \<equiv> 10"
abbreviation (input) BT_RECOVERY :: u16 where "BT_RECOVERY \<equiv> 11"
abbreviation (input) BT_STATUS :: u16 where "BT_STATUS \<equiv> 12"
abbreviation (input) BT_ROSTER :: u16 where "BT_ROSTER \<equiv> 13"
abbreviation (input) BT_THRESHOLD :: u16 where "BT_THRESHOLD \<equiv> 14"
abbreviation (input) BT_OPERATION_ID :: u16 where "BT_OPERATION_ID \<equiv> 15"
abbreviation (input) BT_PREVIOUS :: u16 where "BT_PREVIOUS \<equiv> 16"
abbreviation (input) BT_ISSUED_AT :: u16 where "BT_ISSUED_AT \<equiv> 17"
abbreviation (input) BT_EXPIRES_AT :: u16 where "BT_EXPIRES_AT \<equiv> 18"

record AuthorityBinding =
  ab_tenant :: bytes
  ab_authority_id :: bytes
  ab_epoch :: u64
  ab_revision :: u64
  ab_lease_public :: bytes
  ab_sealing_public :: bytes
  ab_urls :: "bytes list"
  ab_pins :: "bytes list"
  ab_durability :: Durability
  ab_recovery :: Recovery
  ab_status :: ServerStatus
  ab_roster :: "bytes list"
  ab_threshold :: byte
  ab_operation_id :: bytes
  ab_previous :: bytes
  ab_issued_at :: i64
  ab_expires_at :: i64

definition binding_check :: "AuthorityBinding \<Rightarrow> FormatError + unit" where
  "binding_check b =
     bindR (control_check_tenant (ab_tenant b) BT_TENANT) (\<lambda>_.
     bindR (ensure (\<not> length (ab_pins b) > MAX_PINS) (BadFieldLength BT_PINS (length (ab_pins b)))) (\<lambda>_.
     let quorum_ok = (if ab_roster b = [] then ab_threshold b = 0
                      else ab_threshold b \<ge> 1 \<and> unat (ab_threshold b) \<le> length (ab_roster b)) in
     bindR (ensure quorum_ok (BadFieldLength BT_THRESHOLD (unat (ab_threshold b)))) (\<lambda>_.
     bindR (ensure (\<not> sint (ab_expires_at b) \<le> sint (ab_issued_at b)) (BadFieldLength BT_EXPIRES_AT 8)) (\<lambda>_.
     bindR (ensure (\<not> (ab_revision b = 0 \<and> (ab_previous b \<noteq> replicate 32 0 \<or> ab_operation_id b \<noteq> replicate 16 0)))
       (BadFieldLength BT_PREVIOUS 32)) (\<lambda>_.
     ensure (\<not> (ab_revision b > 0 \<and> ab_previous b = replicate 32 0)) (BadFieldLength BT_PREVIOUS 32))))))"

definition authority_binding_fields :: "AuthorityBinding \<Rightarrow> bytes \<Rightarrow> bytes \<Rightarrow> bytes \<Rightarrow> (u16 \<times> bytes) list" where
  "authority_binding_fields b urls pins roster =
     [(BT_VERSION, [CONTROL_VERSION]), (BT_TENANT, ab_tenant b), (BT_AUTHORITY_ID, ab_authority_id b),
      (BT_EPOCH, le64 (ab_epoch b)), (BT_REVISION, le64 (ab_revision b)), (BT_LEASE_PUBLIC, ab_lease_public b),
      (BT_SEALING_PUBLIC, ab_sealing_public b), (BT_URLS, urls), (BT_PINS, pins),
      (BT_DURABILITY, [durability_u8 (ab_durability b)]), (BT_RECOVERY, [recovery_u8 (ab_recovery b)]),
      (BT_STATUS, [status_u8 (ab_status b)]), (BT_ROSTER, roster), (BT_THRESHOLD, [ab_threshold b]),
      (BT_OPERATION_ID, ab_operation_id b), (BT_PREVIOUS, ab_previous b), (BT_ISSUED_AT, le64 (ab_issued_at b)),
      (BT_EXPIRES_AT, le64 (ab_expires_at b))]"

definition binding_body :: "AuthorityBinding \<Rightarrow> FormatError + bytes" where
  "binding_body b =
     bindR (binding_check b) (\<lambda>_.
     bindR (put_all (take 7 (authority_binding_fields b [] [] [])) writer_new) (\<lambda>w.
     bindR (encode_urls (ab_urls b) BT_URLS) (\<lambda>urls.
     bindR (put BT_URLS urls w) (\<lambda>w.
     bindR (encode_keys (ab_pins b) MAX_PINS BT_PINS) (\<lambda>pins.
     bindR (put BT_PINS pins w) (\<lambda>w.
     bindR (put_all (take 3 (drop 9 (authority_binding_fields b [] [] []))) w) (\<lambda>w.
     bindR (encode_keys (ab_roster b) MAX_ROSTER BT_ROSTER) (\<lambda>roster.
     bindR (put BT_ROSTER roster w) (\<lambda>w.
     bindR (put_all (drop 13 (authority_binding_fields b [] [] [])) w) (\<lambda>w.
     Inr (finish w)))))))))))"

definition binding_sign :: "AuthorityBinding \<Rightarrow> Signer \<Rightarrow> FormatError + bytes" where
  "binding_sign b signer =
     bindR (ensure (\<not> sg_public_key signer \<noteq> ab_lease_public b) (BadFieldLength BT_LEASE_PUBLIC PUBLIC_KEY_LEN)) (\<lambda>_.
     bindR (binding_body b) (\<lambda>body.
     bindR (map_err BadHeaderSignature (sg_sign signer (body_transcript AUTHORITY_BINDING body))) (\<lambda>sig.
     Inr (sig @ body))))"

record BindingDecode =
  bd_skipped :: Skipped
  bd_version :: "byte option"
  bd_tenant :: "bytes option"
  bd_authority_id :: "bytes option"
  bd_epoch :: "u64 option"
  bd_revision :: "u64 option"
  bd_lease :: "bytes option"
  bd_sealing :: "bytes option"
  bd_urls :: "bytes list option"
  bd_pins :: "bytes list option"
  bd_durability :: "Durability option"
  bd_recovery :: "Recovery option"
  bd_status :: "ServerStatus option"
  bd_roster :: "bytes list option"
  bd_threshold :: "byte option"
  bd_operation_id :: "bytes option"
  bd_previous :: "bytes option"
  bd_issued_at :: "i64 option"
  bd_expires_at :: "i64 option"

definition binding_start :: BindingDecode where
  "binding_start = \<lparr>bd_skipped = skipped_default, bd_version = None, bd_tenant = None, bd_authority_id = None, bd_epoch = None, bd_revision = None, bd_lease = None, bd_sealing = None, bd_urls = None, bd_pins = None, bd_durability = None, bd_recovery = None, bd_status = None, bd_roster = None, bd_threshold = None, bd_operation_id = None, bd_previous = None, bd_issued_at = None, bd_expires_at = None\<rparr>"

definition binding_step :: "Field \<Rightarrow> BindingDecode \<Rightarrow> FormatError + BindingDecode" where
  "binding_step f s =
     (let tag = fld_tag f; v = fld_value f in
      if tag = BT_VERSION then bindR (one_byte tag v) (\<lambda>x. Inr (s\<lparr>bd_version := Some x\<rparr>))
      else if tag = BT_TENANT then bindR (ok_or (BadFieldLength tag (length v)) (from_utf8 v)) (\<lambda>x. Inr (s\<lparr>bd_tenant := Some x\<rparr>))
      else if tag = BT_AUTHORITY_ID then bindR (exact_len 16 tag v) (\<lambda>x. Inr (s\<lparr>bd_authority_id := Some x\<rparr>))
      else if tag = BT_EPOCH then bindR (u64_le tag v) (\<lambda>x. Inr (s\<lparr>bd_epoch := Some x\<rparr>))
      else if tag = BT_REVISION then bindR (u64_le tag v) (\<lambda>x. Inr (s\<lparr>bd_revision := Some x\<rparr>))
      else if tag = BT_LEASE_PUBLIC then bindR (exact_len 32 tag v) (\<lambda>x. Inr (s\<lparr>bd_lease := Some x\<rparr>))
      else if tag = BT_SEALING_PUBLIC then bindR (exact_len 32 tag v) (\<lambda>x. Inr (s\<lparr>bd_sealing := Some x\<rparr>))
      else if tag = BT_URLS then bindR (decode_urls v tag) (\<lambda>x. Inr (s\<lparr>bd_urls := Some x\<rparr>))
      else if tag = BT_PINS then bindR (decode_keys v MAX_PINS tag) (\<lambda>x. Inr (s\<lparr>bd_pins := Some x\<rparr>))
      else if tag = BT_DURABILITY then bindR (bindR (one_byte tag v) (\<lambda>b. ok_or (BadFieldLength tag 1) (durability_from_u8 b))) (\<lambda>x. Inr (s\<lparr>bd_durability := Some x\<rparr>))
      else if tag = BT_RECOVERY then bindR (bindR (one_byte tag v) (\<lambda>b. ok_or (BadFieldLength tag 1) (recovery_from_u8 b))) (\<lambda>x. Inr (s\<lparr>bd_recovery := Some x\<rparr>))
      else if tag = BT_STATUS then bindR (bindR (one_byte tag v) (\<lambda>b. ok_or (BadFieldLength tag 1) (status_from_u8 b))) (\<lambda>x. Inr (s\<lparr>bd_status := Some x\<rparr>))
      else if tag = BT_ROSTER then bindR (decode_keys v MAX_ROSTER tag) (\<lambda>x. Inr (s\<lparr>bd_roster := Some x\<rparr>))
      else if tag = BT_THRESHOLD then bindR (one_byte tag v) (\<lambda>x. Inr (s\<lparr>bd_threshold := Some x\<rparr>))
      else if tag = BT_OPERATION_ID then bindR (exact_len 16 tag v) (\<lambda>x. Inr (s\<lparr>bd_operation_id := Some x\<rparr>))
      else if tag = BT_PREVIOUS then bindR (exact_len 32 tag v) (\<lambda>x. Inr (s\<lparr>bd_previous := Some x\<rparr>))
      else if tag = BT_ISSUED_AT then bindR (u64_le tag v) (\<lambda>x. Inr (s\<lparr>bd_issued_at := Some x\<rparr>))
      else if tag = BT_EXPIRES_AT then bindR (u64_le tag v) (\<lambda>x. Inr (s\<lparr>bd_expires_at := Some x\<rparr>))
      else bindR (skipped_see f (bd_skipped s)) (\<lambda>x. Inr (s\<lparr>bd_skipped := x\<rparr>)))"

definition binding_finish :: "bytes \<Rightarrow> BindingDecode \<Rightarrow> FormatError + AuthorityBinding" where
  "binding_finish body s =
     bindR (ensure (\<not> bd_version s \<noteq> Some CONTROL_VERSION) (BadFieldLength BT_VERSION 1)) (\<lambda>_.
     bindR (ok_or (MissingField BT_TENANT) (bd_tenant s)) (\<lambda>tenant.
     bindR (ok_or (MissingField BT_AUTHORITY_ID) (bd_authority_id s)) (\<lambda>authority_id.
     bindR (ok_or (MissingField BT_EPOCH) (bd_epoch s)) (\<lambda>epoch.
     bindR (ok_or (MissingField BT_REVISION) (bd_revision s)) (\<lambda>revision.
     bindR (ok_or (MissingField BT_LEASE_PUBLIC) (bd_lease s)) (\<lambda>lease.
     bindR (ok_or (MissingField BT_SEALING_PUBLIC) (bd_sealing s)) (\<lambda>sealing.
     bindR (ok_or (MissingField BT_URLS) (bd_urls s)) (\<lambda>urls.
     bindR (ok_or (MissingField BT_PINS) (bd_pins s)) (\<lambda>pins.
     bindR (ok_or (MissingField BT_DURABILITY) (bd_durability s)) (\<lambda>durability.
     bindR (ok_or (MissingField BT_RECOVERY) (bd_recovery s)) (\<lambda>recovery.
     bindR (ok_or (MissingField BT_STATUS) (bd_status s)) (\<lambda>status.
     bindR (ok_or (MissingField BT_ROSTER) (bd_roster s)) (\<lambda>roster.
     bindR (ok_or (MissingField BT_THRESHOLD) (bd_threshold s)) (\<lambda>threshold.
     bindR (ok_or (MissingField BT_OPERATION_ID) (bd_operation_id s)) (\<lambda>operation_id.
     bindR (ok_or (MissingField BT_PREVIOUS) (bd_previous s)) (\<lambda>previous.
     bindR (ok_or (MissingField BT_ISSUED_AT) (bd_issued_at s)) (\<lambda>issued_at.
     bindR (ok_or (MissingField BT_EXPIRES_AT) (bd_expires_at s)) (\<lambda>expires_at.
     let b = \<lparr>ab_tenant = tenant, ab_authority_id = authority_id, ab_epoch = epoch, ab_revision = revision,
              ab_lease_public = lease, ab_sealing_public = sealing, ab_urls = urls, ab_pins = pins,
              ab_durability = durability, ab_recovery = recovery, ab_status = status, ab_roster = roster,
              ab_threshold = threshold, ab_operation_id = operation_id, ab_previous = previous,
              ab_issued_at = issued_at, ab_expires_at = expires_at\<rparr> in
     bindR (binding_check b) (\<lambda>_.
     bindR (binding_body b) (\<lambda>canonical.
     bindR (ensure (\<not> canonical \<noteq> skipped_strip (bd_skipped s) body) (BadFieldLength 0 (length body))) (\<lambda>_.
     Inr b)))))))))))))))))))))"

definition binding_peek :: "bytes \<Rightarrow> FormatError + AuthorityBinding" where
  "binding_peek bs =
     bindR (split_signed bs) (\<lambda>(_, body).
     bindR (tlv_loop binding_step (reader_new body) binding_start) (binding_finish body))"

definition binding_open :: "Crates \<Rightarrow> bytes \<Rightarrow> bytes \<Rightarrow> FormatError + AuthorityBinding" where
  "binding_open c bs anchor =
     bindR (split_signed bs) (\<lambda>(sig, body).
     bindR (map_err BadHeaderSignature (sign_verify c anchor (body_transcript AUTHORITY_BINDING body) sig)) (\<lambda>_.
     bindR (binding_peek bs) (\<lambda>b.
     bindR (ensure (public_key_eq c (ab_lease_public b) anchor) (BadFieldLength BT_LEASE_PUBLIC PUBLIC_KEY_LEN)) (\<lambda>_.
     Inr b))))"

definition names_url :: "AuthorityBinding \<Rightarrow> bytes \<Rightarrow> bool" where
  "names_url b url = list_ex (\<lambda>u. u = url) (ab_urls b)"

datatype Continuity = SameBinding | Newer bool | BindingRollback | BindingFork | Unrelated

definition continuity :: "Crates \<Rightarrow> AuthorityBinding \<Rightarrow> bytes \<Rightarrow> AuthorityBinding \<Rightarrow> bytes \<Rightarrow> Continuity" where
  "continuity c seen seen_bytes new new_bytes =
     (if ab_authority_id seen \<noteq> ab_authority_id new \<or> ab_tenant seen \<noteq> ab_tenant new \<or> ab_epoch seen \<noteq> ab_epoch new
      then Unrelated
      else if ab_revision new < ab_revision seen then BindingRollback
      else if ab_revision new = ab_revision seen then
        (if digest_eq_ct c (control_digest c seen_bytes) (control_digest c new_bytes) then SameBinding else BindingFork)
      else
        let adjacent = (checked_add (ab_revision seen) 1 = Some (ab_revision new)) in
        if adjacent \<and> \<not> digest_eq_ct c (ab_previous new) (control_digest c seen_bytes) then BindingFork else Newer adjacent)"

section \<open>Requests\<close>

abbreviation (input) CR_VERSION :: u16 where "CR_VERSION \<equiv> 1"
abbreviation (input) CR_TENANT :: u16 where "CR_TENANT \<equiv> 2"
abbreviation (input) CR_AUTHORITY_ID :: u16 where "CR_AUTHORITY_ID \<equiv> 3"
abbreviation (input) CR_EPOCH :: u16 where "CR_EPOCH \<equiv> 4"
abbreviation (input) CR_OPERATION_ID :: u16 where "CR_OPERATION_ID \<equiv> 5"
abbreviation (input) CR_SCOPE :: u16 where "CR_SCOPE \<equiv> 6"
abbreviation (input) CR_EXPECTED_REVISION :: u16 where "CR_EXPECTED_REVISION \<equiv> 7"
abbreviation (input) CR_ISSUED_AT :: u16 where "CR_ISSUED_AT \<equiv> 8"
abbreviation (input) CR_EXPIRES_AT :: u16 where "CR_EXPIRES_AT \<equiv> 9"
abbreviation (input) CR_PAYLOAD_KIND :: u16 where "CR_PAYLOAD_KIND \<equiv> 10"
abbreviation (input) CR_PAYLOAD :: u16 where "CR_PAYLOAD \<equiv> 11"

definition SCOPE_AUTHORITY :: byte where "SCOPE_AUTHORITY = 1"

datatype ControlPayload =
    SetEndpoints "bytes list" "bytes list"
  | SetDurability Durability
  | SetRoster "bytes list" byte
  | SetRecovery Recovery
  | Decommission ServerStatus bytes
  | AddAuthor bytes
  | RemoveAuthor bytes

fun payload_kind :: "ControlPayload \<Rightarrow> byte" where
  "payload_kind (SetEndpoints _ _) = 1"
| "payload_kind (SetDurability _) = 2"
| "payload_kind (SetRoster _ _) = 3"
| "payload_kind (SetRecovery _) = 4"
| "payload_kind (Decommission _ _) = 5"
| "payload_kind (AddAuthor _) = 6"
| "payload_kind (RemoveAuthor _) = 7"

definition payload_encode :: "ControlPayload \<Rightarrow> FormatError + bytes" where
  "payload_encode p =
     (case p of
        SetEndpoints urls pins \<Rightarrow>
          bindR (encode_urls urls 1) (\<lambda>urls.
          bindR (put 1 urls writer_new) (\<lambda>w.
          bindR (encode_keys pins MAX_PINS 2) (\<lambda>pins.
          bindR (put 2 pins w) (\<lambda>w.
          Inr (finish w)))))
      | SetDurability d \<Rightarrow> write_fields [(1, [durability_u8 d])]
      | SetRoster keys threshold \<Rightarrow>
          bindR (encode_keys keys MAX_ROSTER 1) (\<lambda>keys.
          write_fields [(1, keys), (2, [threshold])])
      | SetRecovery r \<Rightarrow> write_fields [(1, [recovery_u8 r])]
      | Decommission status reason \<Rightarrow>
          bindR (ensure (status = Stopped \<or> status = ArchiveOnly) (BadFieldLength 1 1)) (\<lambda>_.
          bindR (check_reason reason 2) (\<lambda>_.
          write_fields [(1, [status_u8 status]), (2, reason)]))
      | AddAuthor key \<Rightarrow> write_fields [(1, key)]
      | RemoveAuthor key \<Rightarrow> write_fields [(1, key)])"

record PayloadDecode =
  py_skipped :: Skipped
  py_first :: "bytes option"
  py_second :: "bytes option"

definition payload_start :: PayloadDecode where
  "payload_start = \<lparr>py_skipped = skipped_default, py_first = None, py_second = None\<rparr>"

definition payload_step :: "Field \<Rightarrow> PayloadDecode \<Rightarrow> FormatError + PayloadDecode" where
  "payload_step f s =
     (if fld_tag f = 1 then Inr (s\<lparr>py_first := Some (fld_value f)\<rparr>)
      else if fld_tag f = 2 then Inr (s\<lparr>py_second := Some (fld_value f)\<rparr>)
      else bindR (skipped_see f (py_skipped s)) (\<lambda>x. Inr (s\<lparr>py_skipped := x\<rparr>)))"

definition payload_of :: "byte \<Rightarrow> bytes \<Rightarrow> bytes option \<Rightarrow> FormatError + ControlPayload" where
  "payload_of kind one second =
     (if kind = 1 \<and> second \<noteq> None then
        bindR (decode_urls one 1) (\<lambda>urls.
        bindR (decode_keys (the second) MAX_PINS 2) (\<lambda>pins.
        Inr (SetEndpoints urls pins)))
      else if kind = 2 \<and> second = None then
        bindR (one_byte 1 one) (\<lambda>b. bindR (ok_or (BadFieldLength 1 1) (durability_from_u8 b)) (\<lambda>d. Inr (SetDurability d)))
      else if kind = 3 \<and> second \<noteq> None then
        bindR (decode_keys one MAX_ROSTER 1) (\<lambda>keys.
        bindR (one_byte 2 (the second)) (\<lambda>threshold.
        Inr (SetRoster keys threshold)))
      else if kind = 4 \<and> second = None then
        bindR (one_byte 1 one) (\<lambda>b. bindR (ok_or (BadFieldLength 1 1) (recovery_from_u8 b)) (\<lambda>r. Inr (SetRecovery r)))
      else if kind = 5 \<and> second \<noteq> None then
        bindR (one_byte 1 one) (\<lambda>b.
        bindR (ok_or (BadFieldLength 1 1) (status_from_u8 b)) (\<lambda>status.
        bindR (ensure (status = Stopped \<or> status = ArchiveOnly) (BadFieldLength 1 1)) (\<lambda>_.
        bindR (ok_or (BadFieldLength 2 (length (the second))) (from_utf8 (the second))) (\<lambda>reason.
        bindR (check_reason reason 2) (\<lambda>_.
        Inr (Decommission status reason))))))
      else if kind = 6 \<and> second = None then bindR (exact_len 32 1 one) (\<lambda>key. Inr (AddAuthor key))
      else if kind = 7 \<and> second = None then bindR (exact_len 32 1 one) (\<lambda>key. Inr (RemoveAuthor key))
      else if 1 \<le> kind \<and> kind \<le> 7 then Inl (BadFieldLength 2 (case second of Some v \<Rightarrow> length v | None \<Rightarrow> 0))
      else Inl (BadFieldLength CR_PAYLOAD_KIND 1))"

definition payload_decode :: "byte \<Rightarrow> bytes \<Rightarrow> FormatError + ControlPayload" where
  "payload_decode kind body =
     bindR (tlv_loop payload_step (reader_new body) payload_start) (\<lambda>s.
     bindR (ok_or (MissingField 1) (py_first s)) (\<lambda>one.
     bindR (payload_of kind one (py_second s)) (\<lambda>payload.
     bindR (payload_encode payload) (\<lambda>canonical.
     bindR (ensure (\<not> canonical \<noteq> skipped_strip (py_skipped s) body) (BadFieldLength CR_PAYLOAD (length body))) (\<lambda>_.
     Inr payload)))))"

record ControlRequest =
  cq_tenant :: bytes
  cq_authority_id :: bytes
  cq_epoch :: u64
  cq_operation_id :: bytes
  cq_expected_revision :: u64
  cq_issued_at :: i64
  cq_expires_at :: i64
  cq_payload :: ControlPayload

record SignedRequest =
  sq_request :: ControlRequest
  sq_body_hash :: bytes
  sq_signers :: "bytes list"

definition checked_sub_i64 :: "i64 \<Rightarrow> i64 \<Rightarrow> int option" where
  "checked_sub_i64 a b = (let d = sint a - sint b in if d = clamp_i64 d then Some d else None)"

definition control_request_fields :: "ControlRequest \<Rightarrow> bytes \<Rightarrow> (u16 \<times> bytes) list" where
  "control_request_fields r payload =
     [(CR_VERSION, [CONTROL_VERSION]), (CR_TENANT, cq_tenant r), (CR_AUTHORITY_ID, cq_authority_id r),
      (CR_EPOCH, le64 (cq_epoch r)), (CR_OPERATION_ID, cq_operation_id r), (CR_SCOPE, [SCOPE_AUTHORITY]),
      (CR_EXPECTED_REVISION, le64 (cq_expected_revision r)), (CR_ISSUED_AT, le64 (cq_issued_at r)),
      (CR_EXPIRES_AT, le64 (cq_expires_at r)), (CR_PAYLOAD_KIND, [payload_kind (cq_payload r)]), (CR_PAYLOAD, payload)]"

definition control_request_body :: "ControlRequest \<Rightarrow> FormatError + bytes" where
  "control_request_body r =
     bindR (control_check_tenant (cq_tenant r) CR_TENANT) (\<lambda>_.
     bindR (ok_or (BadFieldLength CR_EXPIRES_AT 8) (checked_sub_i64 (cq_expires_at r) (cq_issued_at r))) (\<lambda>lifetime.
     bindR (ensure (\<not> (lifetime \<le> 0 \<or> lifetime > MAX_REQUEST_LIFETIME)) (BadFieldLength CR_EXPIRES_AT 8)) (\<lambda>_.
     bindR (put_all (take 10 (control_request_fields r [])) writer_new) (\<lambda>w.
     bindR (payload_encode (cq_payload r)) (\<lambda>payload.
     bindR (put CR_PAYLOAD payload w) (\<lambda>w.
     Inr (finish w)))))))"

record ControlRequestDecode =
  rq_skipped :: Skipped
  rq_version :: "byte option"
  rq_tenant :: "bytes option"
  rq_authority_id :: "bytes option"
  rq_epoch :: "u64 option"
  rq_operation_id :: "bytes option"
  rq_scope :: "byte option"
  rq_expected :: "u64 option"
  rq_issued_at :: "i64 option"
  rq_expires_at :: "i64 option"
  rq_kind :: "byte option"
  rq_payload :: "bytes option"

definition control_request_start :: ControlRequestDecode where
  "control_request_start = \<lparr>rq_skipped = skipped_default, rq_version = None, rq_tenant = None, rq_authority_id = None, rq_epoch = None, rq_operation_id = None, rq_scope = None, rq_expected = None, rq_issued_at = None, rq_expires_at = None, rq_kind = None, rq_payload = None\<rparr>"

definition control_request_step :: "Field \<Rightarrow> ControlRequestDecode \<Rightarrow> FormatError + ControlRequestDecode" where
  "control_request_step f s =
     (let tag = fld_tag f; v = fld_value f in
      if tag = CR_VERSION then bindR (one_byte tag v) (\<lambda>x. Inr (s\<lparr>rq_version := Some x\<rparr>))
      else if tag = CR_TENANT then bindR (ok_or (BadFieldLength tag (length v)) (from_utf8 v)) (\<lambda>x. Inr (s\<lparr>rq_tenant := Some x\<rparr>))
      else if tag = CR_AUTHORITY_ID then bindR (exact_len 16 tag v) (\<lambda>x. Inr (s\<lparr>rq_authority_id := Some x\<rparr>))
      else if tag = CR_EPOCH then bindR (u64_le tag v) (\<lambda>x. Inr (s\<lparr>rq_epoch := Some x\<rparr>))
      else if tag = CR_OPERATION_ID then bindR (exact_len 16 tag v) (\<lambda>x. Inr (s\<lparr>rq_operation_id := Some x\<rparr>))
      else if tag = CR_SCOPE then bindR (one_byte tag v) (\<lambda>x. Inr (s\<lparr>rq_scope := Some x\<rparr>))
      else if tag = CR_EXPECTED_REVISION then bindR (u64_le tag v) (\<lambda>x. Inr (s\<lparr>rq_expected := Some x\<rparr>))
      else if tag = CR_ISSUED_AT then bindR (u64_le tag v) (\<lambda>x. Inr (s\<lparr>rq_issued_at := Some x\<rparr>))
      else if tag = CR_EXPIRES_AT then bindR (u64_le tag v) (\<lambda>x. Inr (s\<lparr>rq_expires_at := Some x\<rparr>))
      else if tag = CR_PAYLOAD_KIND then bindR (one_byte tag v) (\<lambda>x. Inr (s\<lparr>rq_kind := Some x\<rparr>))
      else if tag = CR_PAYLOAD then bindR (Inr v) (\<lambda>x. Inr (s\<lparr>rq_payload := Some x\<rparr>))
      else bindR (skipped_see f (rq_skipped s)) (\<lambda>x. Inr (s\<lparr>rq_skipped := x\<rparr>)))"

definition control_request_finish :: "bytes \<Rightarrow> ControlRequestDecode \<Rightarrow> FormatError + ControlRequest" where
  "control_request_finish body s =
     bindR (ensure (\<not> rq_version s \<noteq> Some CONTROL_VERSION) (BadFieldLength CR_VERSION 1)) (\<lambda>_.
     bindR (ensure (\<not> rq_scope s \<noteq> Some SCOPE_AUTHORITY) (BadFieldLength CR_SCOPE 1)) (\<lambda>_.
     bindR (ok_or (MissingField CR_PAYLOAD_KIND) (rq_kind s)) (\<lambda>kind.
     bindR (ok_or (MissingField CR_TENANT) (rq_tenant s)) (\<lambda>tenant.
     bindR (ok_or (MissingField CR_AUTHORITY_ID) (rq_authority_id s)) (\<lambda>authority_id.
     bindR (ok_or (MissingField CR_EPOCH) (rq_epoch s)) (\<lambda>epoch.
     bindR (ok_or (MissingField CR_OPERATION_ID) (rq_operation_id s)) (\<lambda>operation_id.
     bindR (ok_or (MissingField CR_EXPECTED_REVISION) (rq_expected s)) (\<lambda>expected.
     bindR (ok_or (MissingField CR_ISSUED_AT) (rq_issued_at s)) (\<lambda>issued_at.
     bindR (ok_or (MissingField CR_EXPIRES_AT) (rq_expires_at s)) (\<lambda>expires_at.
     bindR (ok_or (MissingField CR_PAYLOAD) (rq_payload s)) (\<lambda>payload_bytes.
     bindR (payload_decode kind payload_bytes) (\<lambda>payload.
     let r = \<lparr>cq_tenant = tenant, cq_authority_id = authority_id, cq_epoch = epoch, cq_operation_id = operation_id,
              cq_expected_revision = expected, cq_issued_at = issued_at, cq_expires_at = expires_at, cq_payload = payload\<rparr> in
     bindR (control_request_body r) (\<lambda>canonical.
     bindR (ensure (\<not> canonical \<noteq> skipped_strip (rq_skipped s) body) (BadFieldLength 0 (length body))) (\<lambda>_.
     Inr r))))))))))))))"

definition control_request_decode_body :: "bytes \<Rightarrow> FormatError + ControlRequest" where
  "control_request_decode_body body =
     bindR (tlv_loop control_request_step (reader_new body) control_request_start) (control_request_finish body)"

definition sign_body :: "bytes \<Rightarrow> Signer \<Rightarrow> FormatError + (bytes \<times> bytes)" where
  "sign_body body signer =
     bindR (map_err BadHeaderSignature (sg_sign signer (body_transcript CONTROL_REQUEST body))) (\<lambda>sig.
     Inr (sg_public_key signer, sig))"

definition assemble_signed :: "bytes \<Rightarrow> (bytes \<times> bytes) list \<Rightarrow> FormatError + bytes" where
  "assemble_signed body signatures =
     (let ordered = sort_key fst signatures in
      bindR (ensure (\<not> (ordered = [] \<or> length ordered > MAX_SIGNERS \<or>
          list_ex (\<lambda>(a, b). fst a = fst b) (zip ordered (tl ordered)))) (BadFieldLength 0 (length ordered))) (\<lambda>_.
      bindR (ensure (length ordered < 256) (BadFieldLength 0 (length ordered))) (\<lambda>_.
      Inr ([word_of_nat (length ordered)] @ concat (map (\<lambda>(key, sig). key @ sig) ordered) @ body))))"

definition control_request_sign :: "ControlRequest \<Rightarrow> Signer \<Rightarrow> FormatError + bytes" where
  "control_request_sign r signer =
     bindR (control_request_body r) (\<lambda>body.
     bindR (control_request_body r) (\<lambda>again.
     bindR (sign_body again signer) (\<lambda>signature.
     assemble_signed body [signature])))"

primrec split_signatures :: "nat \<Rightarrow> bytes \<Rightarrow> FormatError + ((bytes \<times> bytes) list \<times> bytes)" where
  "split_signatures 0 rest = Inr ([], rest)"
| "split_signatures (Suc n) rest =
     bindR (ok_or (BadFieldLength 0 (length rest)) (split_at_checked rest PUBLIC_KEY_LEN)) (\<lambda>(key, tail).
     bindR (ok_or (BadFieldLength 0 (length tail)) (split_at_checked tail SIGNATURE_LEN)) (\<lambda>(sig, tail).
     bindR (split_signatures n tail) (\<lambda>(signatures, rest).
     Inr ((key, sig) # signatures, rest))))"

definition split_request :: "bytes \<Rightarrow> FormatError + ((bytes \<times> bytes) list \<times> bytes)" where
  "split_request bs =
     bindR (ensure (\<not> length bs > MAX_DOCUMENT_LEN) (BadFieldLength 0 (length bs))) (\<lambda>_.
     bindR (ok_or (BadFieldLength 0 0) (case bs of b # rest \<Rightarrow> Some (b, rest) | [] \<Rightarrow> None)) (\<lambda>(b, rest).
     let count = unat b in
     bindR (ensure (\<not> (count = 0 \<or> count > MAX_SIGNERS)) (BadFieldLength 0 count)) (\<lambda>_.
     bindR (split_signatures count rest) (\<lambda>(signatures, rest).
     bindR (ensure (\<not> out_of_order (map fst signatures)) (BadFieldLength 0 count)) (\<lambda>_.
     Inr (signatures, rest))))))"

definition open_request :: "Crates \<Rightarrow> bytes \<Rightarrow> FormatError + SignedRequest" where
  "open_request c bs =
     bindR (split_request bs) (\<lambda>(signatures, body).
     let t = body_transcript CONTROL_REQUEST body in
     bindR (foldR (\<lambda>(key, sig) _. map_err BadHeaderSignature (sign_verify c key t sig)) signatures ()) (\<lambda>_.
     bindR (control_request_decode_body body) (\<lambda>r.
     Inr \<lparr>sq_request = r, sq_body_hash = sha256_digest c body, sq_signers = map fst signatures\<rparr>)))"

definition cosign :: "Crates \<Rightarrow> bytes \<Rightarrow> Signer \<Rightarrow> FormatError + bytes" where
  "cosign c bs signer =
     bindR (split_request bs) (\<lambda>(signatures, body).
     bindR (open_request c bs) (\<lambda>_.
     bindR (ensure (\<not> list_ex (\<lambda>(k, _). k = sg_public_key signer) signatures) (BadFieldLength 0 (length signatures))) (\<lambda>_.
     bindR (sign_body body signer) (\<lambda>signature.
     assemble_signed body (signatures @ [signature])))))"

section \<open>Receipts\<close>

abbreviation (input) RC_VERSION :: u16 where "RC_VERSION \<equiv> 1"
abbreviation (input) RC_REQUEST_HASH :: u16 where "RC_REQUEST_HASH \<equiv> 2"
abbreviation (input) RC_OPERATION_ID :: u16 where "RC_OPERATION_ID \<equiv> 3"
abbreviation (input) RC_OUTCOME :: u16 where "RC_OUTCOME \<equiv> 4"
abbreviation (input) RC_REVISION :: u16 where "RC_REVISION \<equiv> 5"
abbreviation (input) RC_COMMIT :: u16 where "RC_COMMIT \<equiv> 6"
abbreviation (input) RC_EPOCH :: u16 where "RC_EPOCH \<equiv> 7"
abbreviation (input) RC_DURABILITY :: u16 where "RC_DURABILITY \<equiv> 8"
abbreviation (input) RC_REASON :: u16 where "RC_REASON \<equiv> 9"
abbreviation (input) RC_AT :: u16 where "RC_AT \<equiv> 10"

datatype Outcome = Committed | Rejected | PendingDurability | IdConflict | StaleRevision

fun outcome_u8 :: "Outcome \<Rightarrow> byte" where
  "outcome_u8 Committed = 1"
| "outcome_u8 Rejected = 2"
| "outcome_u8 PendingDurability = 3"
| "outcome_u8 IdConflict = 4"
| "outcome_u8 StaleRevision = 5"

definition outcome_from_u8 :: "byte \<Rightarrow> Outcome option" where
  "outcome_from_u8 v =
     (if v = 1 then Some Committed else if v = 2 then Some Rejected else if v = 3 then Some PendingDurability
      else if v = 4 then Some IdConflict else if v = 5 then Some StaleRevision else None)"

record Receipt =
  rp_request_hash :: bytes
  rp_operation_id :: bytes
  rp_outcome :: Outcome
  rp_revision :: u64
  rp_commit :: bytes
  rp_epoch :: u64
  rp_durability :: Durability
  rp_reason :: bytes
  rp_at :: i64

definition receipt_fields :: "Receipt \<Rightarrow> (u16 \<times> bytes) list" where
  "receipt_fields r =
     [(RC_VERSION, [CONTROL_VERSION]), (RC_REQUEST_HASH, rp_request_hash r), (RC_OPERATION_ID, rp_operation_id r),
      (RC_OUTCOME, [outcome_u8 (rp_outcome r)]), (RC_REVISION, le64 (rp_revision r)), (RC_COMMIT, rp_commit r),
      (RC_EPOCH, le64 (rp_epoch r)), (RC_DURABILITY, [durability_u8 (rp_durability r)]), (RC_REASON, rp_reason r),
      (RC_AT, le64 (rp_at r))]"

definition receipt_body :: "Receipt \<Rightarrow> FormatError + bytes" where
  "receipt_body r = bindR (check_reason (rp_reason r) RC_REASON) (\<lambda>_. write_fields (receipt_fields r))"

definition receipt_sign :: "Receipt \<Rightarrow> Signer \<Rightarrow> FormatError + bytes" where
  "receipt_sign r signer =
     bindR (receipt_body r) (\<lambda>body.
     bindR (map_err BadHeaderSignature (sg_sign signer (body_transcript OPERATION_RECEIPT body))) (\<lambda>sig.
     Inr (sig @ body)))"

record ReceiptDecode =
  rd_skipped :: Skipped
  rd_version :: "byte option"
  rd_hash :: "bytes option"
  rd_op :: "bytes option"
  rd_outcome :: "Outcome option"
  rd_revision :: "u64 option"
  rd_commit :: "bytes option"
  rd_epoch :: "u64 option"
  rd_durability :: "Durability option"
  rd_reason :: "bytes option"
  rd_at :: "i64 option"

definition receipt_start :: ReceiptDecode where
  "receipt_start = \<lparr>rd_skipped = skipped_default, rd_version = None, rd_hash = None, rd_op = None, rd_outcome = None, rd_revision = None, rd_commit = None, rd_epoch = None, rd_durability = None, rd_reason = None, rd_at = None\<rparr>"

definition receipt_step :: "Field \<Rightarrow> ReceiptDecode \<Rightarrow> FormatError + ReceiptDecode" where
  "receipt_step f s =
     (let tag = fld_tag f; v = fld_value f in
      if tag = RC_VERSION then bindR (one_byte tag v) (\<lambda>x. Inr (s\<lparr>rd_version := Some x\<rparr>))
      else if tag = RC_REQUEST_HASH then bindR (exact_len 32 tag v) (\<lambda>x. Inr (s\<lparr>rd_hash := Some x\<rparr>))
      else if tag = RC_OPERATION_ID then bindR (exact_len 16 tag v) (\<lambda>x. Inr (s\<lparr>rd_op := Some x\<rparr>))
      else if tag = RC_OUTCOME then bindR (bindR (one_byte tag v) (\<lambda>b. ok_or (BadFieldLength tag 1) (outcome_from_u8 b))) (\<lambda>x. Inr (s\<lparr>rd_outcome := Some x\<rparr>))
      else if tag = RC_REVISION then bindR (u64_le tag v) (\<lambda>x. Inr (s\<lparr>rd_revision := Some x\<rparr>))
      else if tag = RC_COMMIT then bindR (exact_len 32 tag v) (\<lambda>x. Inr (s\<lparr>rd_commit := Some x\<rparr>))
      else if tag = RC_EPOCH then bindR (u64_le tag v) (\<lambda>x. Inr (s\<lparr>rd_epoch := Some x\<rparr>))
      else if tag = RC_DURABILITY then bindR (bindR (one_byte tag v) (\<lambda>b. ok_or (BadFieldLength tag 1) (durability_from_u8 b))) (\<lambda>x. Inr (s\<lparr>rd_durability := Some x\<rparr>))
      else if tag = RC_REASON then bindR (ok_or (BadFieldLength tag (length v)) (from_utf8 v)) (\<lambda>x. Inr (s\<lparr>rd_reason := Some x\<rparr>))
      else if tag = RC_AT then bindR (u64_le tag v) (\<lambda>x. Inr (s\<lparr>rd_at := Some x\<rparr>))
      else bindR (skipped_see f (rd_skipped s)) (\<lambda>x. Inr (s\<lparr>rd_skipped := x\<rparr>)))"

definition receipt_finish :: "bytes \<Rightarrow> ReceiptDecode \<Rightarrow> FormatError + Receipt" where
  "receipt_finish body s =
     bindR (ensure (\<not> rd_version s \<noteq> Some CONTROL_VERSION) (BadFieldLength RC_VERSION 1)) (\<lambda>_.
     bindR (ok_or (MissingField RC_REQUEST_HASH) (rd_hash s)) (\<lambda>hash.
     bindR (ok_or (MissingField RC_OPERATION_ID) (rd_op s)) (\<lambda>op.
     bindR (ok_or (MissingField RC_OUTCOME) (rd_outcome s)) (\<lambda>outcome.
     bindR (ok_or (MissingField RC_REVISION) (rd_revision s)) (\<lambda>revision.
     bindR (ok_or (MissingField RC_COMMIT) (rd_commit s)) (\<lambda>commit.
     bindR (ok_or (MissingField RC_EPOCH) (rd_epoch s)) (\<lambda>epoch.
     bindR (ok_or (MissingField RC_DURABILITY) (rd_durability s)) (\<lambda>durability.
     bindR (ok_or (MissingField RC_REASON) (rd_reason s)) (\<lambda>reason.
     bindR (ok_or (MissingField RC_AT) (rd_at s)) (\<lambda>at.
     let r = \<lparr>rp_request_hash = hash, rp_operation_id = op, rp_outcome = outcome, rp_revision = revision,
              rp_commit = commit, rp_epoch = epoch, rp_durability = durability, rp_reason = reason, rp_at = at\<rparr> in
     bindR (receipt_body r) (\<lambda>canonical.
     bindR (ensure (\<not> canonical \<noteq> skipped_strip (rd_skipped s) body) (BadFieldLength 0 (length body))) (\<lambda>_.
     Inr r))))))))))))"

definition receipt_open :: "Crates \<Rightarrow> bytes \<Rightarrow> bytes \<Rightarrow> FormatError + Receipt" where
  "receipt_open c bs lease_public =
     bindR (split_signed bs) (\<lambda>(sig, body).
     bindR (map_err BadHeaderSignature (sign_verify c lease_public (body_transcript OPERATION_RECEIPT body) sig)) (\<lambda>_.
     bindR (tlv_loop receipt_step (reader_new body) receipt_start) (receipt_finish body)))"

section \<open>Transfers\<close>

abbreviation (input) TF_VERSION :: u16 where "TF_VERSION \<equiv> 1"
abbreviation (input) TF_AUTHORITY_ID :: u16 where "TF_AUTHORITY_ID \<equiv> 2"
abbreviation (input) TF_FROM_EPOCH :: u16 where "TF_FROM_EPOCH \<equiv> 3"
abbreviation (input) TF_TO_EPOCH :: u16 where "TF_TO_EPOCH \<equiv> 4"
abbreviation (input) TF_FROM_LEASE :: u16 where "TF_FROM_LEASE \<equiv> 5"
abbreviation (input) TF_TRANSITION_AT :: u16 where "TF_TRANSITION_AT \<equiv> 6"
abbreviation (input) TF_OLD_LEASES :: u16 where "TF_OLD_LEASES \<equiv> 7"
abbreviation (input) TF_ISSUED_AT :: u16 where "TF_ISSUED_AT \<equiv> 8"
abbreviation (input) TF_EXPIRES_AT :: u16 where "TF_EXPIRES_AT \<equiv> 9"
abbreviation (input) TF_BINDING :: u16 where "TF_BINDING \<equiv> 10"

datatype OldLeases = Honour | RejectAfterTransition

fun old_leases_u8 :: "OldLeases \<Rightarrow> byte" where
  "old_leases_u8 Honour = 0"
| "old_leases_u8 RejectAfterTransition = 1"

definition old_leases_from_u8 :: "byte \<Rightarrow> OldLeases option" where
  "old_leases_from_u8 v = (if v = 0 then Some Honour else if v = 1 then Some RejectAfterTransition else None)"

record Transfer =
  tf_authority_id :: bytes
  tf_from_epoch :: u64
  tf_to_epoch :: u64
  tf_from_lease :: bytes
  tf_transition_at :: i64
  tf_old_leases :: OldLeases
  tf_issued_at :: i64
  tf_expires_at :: i64
  tf_binding :: bytes

definition transfer_fields :: "Transfer \<Rightarrow> (u16 \<times> bytes) list" where
  "transfer_fields x =
     [(TF_VERSION, [CONTROL_VERSION]), (TF_AUTHORITY_ID, tf_authority_id x), (TF_FROM_EPOCH, le64 (tf_from_epoch x)),
      (TF_TO_EPOCH, le64 (tf_to_epoch x)), (TF_FROM_LEASE, tf_from_lease x), (TF_TRANSITION_AT, le64 (tf_transition_at x)),
      (TF_OLD_LEASES, [old_leases_u8 (tf_old_leases x)]), (TF_ISSUED_AT, le64 (tf_issued_at x)),
      (TF_EXPIRES_AT, le64 (tf_expires_at x)), (TF_BINDING, tf_binding x)]"

definition transfer_body :: "Transfer \<Rightarrow> FormatError + bytes" where
  "transfer_body x =
     bindR (ok_or (BadFieldLength TF_TO_EPOCH 8) (checked_add (tf_from_epoch x) 1)) (\<lambda>next_epoch.
     bindR (ensure (\<not> tf_to_epoch x \<noteq> next_epoch) (BadFieldLength TF_TO_EPOCH 8)) (\<lambda>_.
     bindR (ensure (\<not> sint (tf_expires_at x) \<le> sint (tf_issued_at x)) (BadFieldLength TF_EXPIRES_AT 8)) (\<lambda>_.
     bindR (ensure (\<not> (tf_binding x = [] \<or> length (tf_binding x) > MAX_DOCUMENT_LEN))
       (BadFieldLength TF_BINDING (length (tf_binding x)))) (\<lambda>_.
     write_fields (transfer_fields x)))))"

definition transfer_sign :: "Transfer \<Rightarrow> Signer \<Rightarrow> FormatError + bytes" where
  "transfer_sign x signer =
     bindR (transfer_body x) (\<lambda>body.
     bindR (map_err BadHeaderSignature (sg_sign signer (body_transcript AUTHORITY_TRANSFER body))) (\<lambda>sig.
     assemble_signed body [(sg_public_key signer, sig)]))"

record TransferDecode =
  td_skipped :: Skipped
  td_version :: "byte option"
  td_id :: "bytes option"
  td_from :: "u64 option"
  td_to :: "u64 option"
  td_key :: "bytes option"
  td_at :: "i64 option"
  td_old :: "OldLeases option"
  td_issued :: "i64 option"
  td_expires :: "i64 option"
  td_binding :: "bytes option"

definition transfer_start :: TransferDecode where
  "transfer_start = \<lparr>td_skipped = skipped_default, td_version = None, td_id = None, td_from = None, td_to = None, td_key = None, td_at = None, td_old = None, td_issued = None, td_expires = None, td_binding = None\<rparr>"

definition transfer_step :: "Field \<Rightarrow> TransferDecode \<Rightarrow> FormatError + TransferDecode" where
  "transfer_step f s =
     (let tag = fld_tag f; v = fld_value f in
      if tag = TF_VERSION then bindR (one_byte tag v) (\<lambda>x. Inr (s\<lparr>td_version := Some x\<rparr>))
      else if tag = TF_AUTHORITY_ID then bindR (exact_len 16 tag v) (\<lambda>x. Inr (s\<lparr>td_id := Some x\<rparr>))
      else if tag = TF_FROM_EPOCH then bindR (u64_le tag v) (\<lambda>x. Inr (s\<lparr>td_from := Some x\<rparr>))
      else if tag = TF_TO_EPOCH then bindR (u64_le tag v) (\<lambda>x. Inr (s\<lparr>td_to := Some x\<rparr>))
      else if tag = TF_FROM_LEASE then bindR (exact_len 32 tag v) (\<lambda>x. Inr (s\<lparr>td_key := Some x\<rparr>))
      else if tag = TF_TRANSITION_AT then bindR (u64_le tag v) (\<lambda>x. Inr (s\<lparr>td_at := Some x\<rparr>))
      else if tag = TF_OLD_LEASES then bindR (bindR (one_byte tag v) (\<lambda>b. ok_or (BadFieldLength tag 1) (old_leases_from_u8 b))) (\<lambda>x. Inr (s\<lparr>td_old := Some x\<rparr>))
      else if tag = TF_ISSUED_AT then bindR (u64_le tag v) (\<lambda>x. Inr (s\<lparr>td_issued := Some x\<rparr>))
      else if tag = TF_EXPIRES_AT then bindR (u64_le tag v) (\<lambda>x. Inr (s\<lparr>td_expires := Some x\<rparr>))
      else if tag = TF_BINDING then bindR (Inr v) (\<lambda>x. Inr (s\<lparr>td_binding := Some x\<rparr>))
      else bindR (skipped_see f (td_skipped s)) (\<lambda>x. Inr (s\<lparr>td_skipped := x\<rparr>)))"

definition transfer_finish :: "bytes \<Rightarrow> TransferDecode \<Rightarrow> FormatError + Transfer" where
  "transfer_finish body s =
     bindR (ensure (\<not> td_version s \<noteq> Some CONTROL_VERSION) (BadFieldLength TF_VERSION 1)) (\<lambda>_.
     bindR (ok_or (MissingField TF_AUTHORITY_ID) (td_id s)) (\<lambda>id.
     bindR (ok_or (MissingField TF_FROM_EPOCH) (td_from s)) (\<lambda>from_epoch.
     bindR (ok_or (MissingField TF_TO_EPOCH) (td_to s)) (\<lambda>to.
     bindR (ok_or (MissingField TF_FROM_LEASE) (td_key s)) (\<lambda>key.
     bindR (ok_or (MissingField TF_TRANSITION_AT) (td_at s)) (\<lambda>at.
     bindR (ok_or (MissingField TF_OLD_LEASES) (td_old s)) (\<lambda>old.
     bindR (ok_or (MissingField TF_ISSUED_AT) (td_issued s)) (\<lambda>issued.
     bindR (ok_or (MissingField TF_EXPIRES_AT) (td_expires s)) (\<lambda>expires.
     bindR (ok_or (MissingField TF_BINDING) (td_binding s)) (\<lambda>binding.
     let x = \<lparr>tf_authority_id = id, tf_from_epoch = from_epoch, tf_to_epoch = to, tf_from_lease = key,
              tf_transition_at = at, tf_old_leases = old, tf_issued_at = issued, tf_expires_at = expires,
              tf_binding = binding\<rparr> in
     bindR (transfer_body x) (\<lambda>canonical.
     bindR (ensure (\<not> canonical \<noteq> skipped_strip (td_skipped s) body) (BadFieldLength 0 (length body))) (\<lambda>_.
     Inr x))))))))))))"

definition transfer_decode_body :: "bytes \<Rightarrow> FormatError + Transfer" where
  "transfer_decode_body body =
     bindR (tlv_loop transfer_step (reader_new body) transfer_start) (transfer_finish body)"

definition open_transfer :: "Crates \<Rightarrow> bytes \<Rightarrow> FormatError + (Transfer \<times> bytes list)" where
  "open_transfer c bs =
     bindR (split_request bs) (\<lambda>(signatures, body).
     let t = body_transcript AUTHORITY_TRANSFER body in
     bindR (foldR (\<lambda>(key, sig) _. map_err BadHeaderSignature (sign_verify c key t sig)) signatures ()) (\<lambda>_.
     bindR (transfer_decode_body body) (\<lambda>x.
     Inr (x, map fst signatures))))"

definition cosign_transfer :: "Crates \<Rightarrow> bytes \<Rightarrow> Signer \<Rightarrow> FormatError + bytes" where
  "cosign_transfer c bs signer =
     bindR (split_request bs) (\<lambda>(signatures, body).
     bindR (open_transfer c bs) (\<lambda>_.
     bindR (ensure (\<not> list_ex (\<lambda>(k, _). k = sg_public_key signer) signatures) (BadFieldLength 0 (length signatures))) (\<lambda>_.
     bindR (map_err BadHeaderSignature (sg_sign signer (body_transcript AUTHORITY_TRANSFER body))) (\<lambda>sig.
     assemble_signed body (signatures @ [(sg_public_key signer, sig)])))))"

section \<open>Chains\<close>

record Effective =
  ef_binding :: AuthorityBinding
  ef_bytes :: bytes
  ef_transition_at :: "i64 option"
  ef_old_leases :: "OldLeases option"
  ef_previous_keys :: "bytes list"

datatype ChainBreak = IdentityChanged | NotFromCurrentEpoch | OtherFormerKey | NotSelfSigned | OtherBinding

datatype ChainError =
    NotAnchored
  | NotAuthorized byte byte
  | Broken ChainBreak
  | ChainMalformed FormatError
  | ChainExpired i64 i64

definition transfer_chain_step :: "Crates \<Rightarrow> i64 \<Rightarrow> bytes \<Rightarrow> Effective \<Rightarrow> ChainError + Effective" where
  "transfer_chain_step c now signed_bytes e =
     (let b = ef_binding e in
      bindR (map_sum ChainMalformed id (open_transfer c signed_bytes)) (\<lambda>(x, signers).
      bindR (ensure (\<not> tf_authority_id x \<noteq> ab_authority_id b) (Broken IdentityChanged)) (\<lambda>_.
      bindR (ensure (\<not> tf_from_epoch x \<noteq> ab_epoch b) (Broken NotFromCurrentEpoch)) (\<lambda>_.
      bindR (ensure (public_key_eq c (tf_from_lease x) (ab_lease_public b)) (Broken OtherFormerKey)) (\<lambda>_.
      bindR (ensure (\<not> sint (tf_expires_at x) < sint now) (ChainExpired (tf_expires_at x) now)) (\<lambda>_.
      let count = length (filter (\<lambda>key. key \<in> set (ab_roster b)) signers);
          have_keys = (if count < 256 then word_of_nat count else 255) in
      bindR (ensure (\<not> (ab_roster b = [] \<or> ab_threshold b = 0 \<or> have_keys < ab_threshold b))
        (NotAuthorized have_keys (ab_threshold b))) (\<lambda>_.
      bindR (map_sum ChainMalformed id (binding_peek (tf_binding x))) (\<lambda>next_peek.
      bindR (map_sum (\<lambda>err. case err of BadHeaderSignature \<Rightarrow> Broken NotSelfSigned | other \<Rightarrow> ChainMalformed other) id
        (binding_open c (tf_binding x) (ab_lease_public next_peek))) (\<lambda>next_binding.
      bindR (ensure (\<not> (ab_epoch next_binding \<noteq> tf_to_epoch x \<or> ab_authority_id next_binding \<noteq> tf_authority_id x))
        (Broken OtherBinding)) (\<lambda>_.
      Inr \<lparr>ef_binding = next_binding, ef_bytes = tf_binding x, ef_transition_at = Some (tf_transition_at x),
           ef_old_leases = Some (tf_old_leases x), ef_previous_keys = ef_previous_keys e @ [ab_lease_public b]\<rparr>))))))))))"

definition verify_chain :: "Crates \<Rightarrow> bytes \<Rightarrow> bytes list \<Rightarrow> bytes \<Rightarrow> i64 \<Rightarrow> ChainError + Effective" where
  "verify_chain c first transfers anchor now =
     bindR (map_sum (\<lambda>err. case err of BadHeaderSignature \<Rightarrow> NotAnchored | other \<Rightarrow> ChainMalformed other) id
       (binding_open c first anchor)) (\<lambda>b.
     foldR (transfer_chain_step c now) transfers
       \<lparr>ef_binding = b, ef_bytes = first, ef_transition_at = None, ef_old_leases = None, ef_previous_keys = []\<rparr>)"

section \<open>Small values\<close>

lemma control_codes:
  "durability_from_u8 v = Some d \<longleftrightarrow> v = durability_u8 d"
  "recovery_from_u8 v = Some r \<longleftrightarrow> v = recovery_u8 r"
  "status_from_u8 v = Some s \<longleftrightarrow> v = status_u8 s"
  "outcome_from_u8 v = Some k \<longleftrightarrow> v = outcome_u8 k"
  "old_leases_from_u8 v = Some l \<longleftrightarrow> v = old_leases_u8 l"
  by (cases d; auto simp: durability_from_u8_def)
    (cases r; auto simp: recovery_from_u8_def; fail | cases s; auto simp: status_from_u8_def; fail |
      cases k; auto simp: outcome_from_u8_def; fail | cases l; auto simp: old_leases_from_u8_def; fail)+

lemma control_tenant_eq: "control_check_tenant tenant t = Inr () \<longleftrightarrow> check_tenant tenant = Inr ()"
  by (simp add: control_check_tenant_def check_tenant_def ensure_eq_Inr)

lemma check_url_Inr: "check_url url t = Inr u \<longleftrightarrow> url \<noteq> [] \<and> length url \<le> 256 \<and> (\<forall>b \<in> set url. 33 \<le> b \<and> b \<le> 126)"
  by (simp add: check_url_def ensure_eq_Inr CONTROL_MAX_URL_LEN_def list_all_iff)

lemma url_utf8: "check_url url t = Inr u \<Longrightarrow> utf8_valid url"
  by (rule utf8_valid_ascii) (auto simp: check_url_Inr list_all_iff word_le_nat_alt)

lemma out_of_order_sorted: "\<not> out_of_order keys \<longleftrightarrow> sorted_wrt (<) keys"
proof (induction keys)
  case (Cons k keys)
  then show ?case by (cases keys) (auto simp: out_of_order_def not_le intro: less_trans)
qed (simp add: out_of_order_def)

lemma encode_keys_Inr: "encode_keys keys m t = Inr bs \<longleftrightarrow> length keys \<le> m \<and> sorted_wrt (<) keys \<and> bs = concat keys"
  by (auto simp: encode_keys_def bindR_eq_Inr ensure_eq_Inr out_of_order_sorted)

lemma decode_keys_Inr:
  "decode_keys bs m t = Inr keys \<longleftrightarrow> (\<forall>k \<in> set keys. length k = 32) \<and> encode_keys keys m t = Inr bs"
proof (cases "32 dvd length bs")
  case True
  then show ?thesis
    by (auto simp: decode_keys_def bindR_eq_Inr ensure_eq_Inr map_err_eq_Inr nodes_of_chunks encode_keys_Inr out_of_order_sorted)
next
  case False
  moreover have "\<forall>k \<in> set keys. length k = 32 \<Longrightarrow> 32 dvd length (concat keys)" by (subst concat_32) simp_all
  ultimately show ?thesis by (auto simp: decode_keys_def encode_keys_Inr bindR_eq_Inr ensure_eq_Inr mod_eq_0_iff_dvd)
qed

subsection \<open>Addresses\<close>

definition enc_urls :: "bytes list \<Rightarrow> bytes" where
  "enc_urls urls = concat (map (\<lambda>u. le_bytes 2 (length u) @ u) urls)"

lemma enc_urls_simps [simp]:
  "enc_urls [] = []" "enc_urls (u # us) = le_bytes 2 (length u) @ u @ enc_urls us"
  "enc_urls (us @ vs) = enc_urls us @ enc_urls vs"
  by (simp_all add: enc_urls_def)

lemma url_length_u16:
  "length (u :: bytes) \<le> 256 \<Longrightarrow> u16_of_usize (length u) = Some (word_of_nat (length u))"
  "length (u :: bytes) \<le> 256 \<Longrightarrow> unat (word_of_nat (length u) :: u16) = length u"
  by (simp_all add: u16_of_usize_def unat_of_nat take_bit_nat_eq_self)

lemma encode_urls_Inr:
  "encode_urls urls t = Inr bs \<longleftrightarrow>
     urls \<noteq> [] \<and> length urls \<le> 8 \<and> (\<forall>u \<in> set urls. check_url u t = Inr ()) \<and> bs = enc_urls urls"
proof -
  let ?put = "\<lambda>url out.
       bindR (check_url url t) (\<lambda>_.
       bindR (ok_or (BadFieldLength t (length url)) (u16_of_usize (length url))) (\<lambda>len.
       Inr (out @ le16 len @ url)))"
  have put: "?put u out = Inr out' \<longleftrightarrow> check_url u t = Inr () \<and> out' = out @ le_bytes 2 (length u) @ u" for u out out'
  proof (cases "check_url u t = Inr ()")
    case True
    then have "length u \<le> 256" by (simp add: check_url_Inr)
    with True show ?thesis by (auto simp: url_length_u16)
  qed (auto simp: bindR_eq_Inr)
  have puts: "foldR ?put urls out = Inr bs \<longleftrightarrow> (\<forall>u \<in> set urls. check_url u t = Inr ()) \<and> bs = out @ enc_urls urls" for out
  proof (induction urls arbitrary: out)
    case (Cons u urls)
    have "foldR ?put (u # urls) out = Inr bs \<longleftrightarrow> (\<exists>out'. ?put u out = Inr out' \<and> foldR ?put urls out' = Inr bs)"
      unfolding foldR.simps bindR_eq_Inr ..
    also have "\<dots> \<longleftrightarrow> (check_url u t = Inr () \<and> (\<forall>u \<in> set urls. check_url u t = Inr ()) \<and>
      bs = (out @ le_bytes 2 (length u) @ u) @ enc_urls urls)"
      unfolding put Cons.IH by blast
    finally show ?case by (simp only: list.set ball_simps enc_urls_simps append_assoc conj_assoc)
  qed auto
  show ?thesis unfolding encode_urls_def bind_unit_eq_Inr ensure_eq_Inr CONTROL_MAX_URLS_def puts by (auto simp: not_less)
qed

lemma decode_urls_loop_step:
  assumes "length u < 65536"
  shows "decode_urls_loop t (le_bytes 2 (length u) @ u @ rest) urls =
     (if length urls \<ge> 8 then Inl (BadFieldLength t (2 + length u + length rest))
      else bindR (ok_or (BadFieldLength t (length u)) (from_utf8 u)) (\<lambda>u.
        bindR (check_url u t) (\<lambda>_.
        bindR (ensure (\<not> u \<in> set urls) (BadFieldLength t (length u))) (\<lambda>_.
        decode_urls_loop t rest (urls @ [u])))))"
proof -
  have ne: "le_bytes 2 (length u) @ u @ rest \<noteq> []" by (metis append_is_Nil_conv length_le_bytes list.size(3) zero_neq_numeral)
  have nat: "le_nat (le_bytes 2 (length u)) = length u" using assms by (simp add: le_nat_le_bytes)
  show ?thesis
    by (subst decode_urls_loop.simps)
      (auto simp: ne [simplified] nat from_utf8_def CONTROL_MAX_URLS_def simp del: append_is_Nil_conv)
qed

lemma decode_urls_loop_Inr:
  "decode_urls_loop t rest urls = Inr all \<longleftrightarrow>
     (\<exists>new. all = urls @ new \<and> rest = enc_urls new \<and> (\<forall>u \<in> set new. check_url u t = Inr ()) \<and>
        distinct new \<and> set urls \<inter> set new = {} \<and> (new = [] \<or> length all \<le> 8))"
proof
  assume "decode_urls_loop t rest urls = Inr all"
  then show "\<exists>new. all = urls @ new \<and> rest = enc_urls new \<and> (\<forall>u \<in> set new. check_url u t = Inr ()) \<and>
        distinct new \<and> set urls \<inter> set new = {} \<and> (new = [] \<or> length all \<le> 8)"
  proof (induction t rest urls rule: decode_urls_loop.induct)
    case (1 t rest urls)
    show ?case
    proof (cases "rest = []")
      case True
      with "1.prems" show ?thesis by (intro exI [of _ "[]"]) (simp add: decode_urls_loop.simps)
    next
      case False
      with "1.prems" have room: "length urls < 8" by (auto simp: decode_urls_loop.simps [of t rest] CONTROL_MAX_URLS_def split: if_splits)
      from "1.prems" False room obtain len tail u rest' where sp: "split_at_checked rest 2 = Some (len, tail)"
        "split_at_checked tail (le_nat len) = Some (u, rest')" and ok: "utf8_valid u" "check_url u t = Inr ()" "u \<notin> set urls"
        "decode_urls_loop t rest' (urls @ [u]) = Inr all"
        by (auto simp: decode_urls_loop.simps [of t rest] CONTROL_MAX_URLS_def bindR_eq_Inr ok_or_eq_Inr ensure_eq_Inr from_utf8_def
            split: if_splits option.splits)
      then have r: "rest = len @ u @ rest'" "length len = 2" "length u = le_nat len" by (auto simp: split_at_parts)
      have "\<not> CONTROL_MAX_URLS \<le> length urls" using room by (simp add: CONTROL_MAX_URLS_def)
      from "1.IH" [OF False this sp(1) refl sp(2) refl, of u "()" "()"] ok obtain new where new: "all = (urls @ [u]) @ new" "rest' = enc_urls new"
        "\<forall>u \<in> set new. check_url u t = Inr ()" "distinct new" "set (urls @ [u]) \<inter> set new = {}" "new = [] \<or> length all \<le> 8"
        by (auto simp: from_utf8_def)
      have "le_bytes 2 (length u) = len" using le_bytes_le_nat [OF r(2)] r(3) by simp
      with new r(1) ok(2,3) room show ?thesis by (intro exI [of _ "u # new"]) auto
    qed
  qed
next
  assume "\<exists>new. all = urls @ new \<and> rest = enc_urls new \<and> (\<forall>u \<in> set new. check_url u t = Inr ()) \<and>
        distinct new \<and> set urls \<inter> set new = {} \<and> (new = [] \<or> length all \<le> 8)"
  then obtain new where a: "all = urls @ new" "rest = enc_urls new" "\<forall>u \<in> set new. check_url u t = Inr ()"
    "distinct new" "set urls \<inter> set new = {}" "new = [] \<or> length all \<le> 8" by blast
  from a(3-6) show "decode_urls_loop t rest urls = Inr all" unfolding a(1,2)
  proof (induction new arbitrary: urls)
    case (Cons u new)
    have "length u < 65536" "utf8_valid u" using Cons.prems(1) url_utf8 by (auto simp: check_url_Inr)
    with Cons.prems Cons.IH [of "urls @ [u]"] show ?case by (auto simp: decode_urls_loop_step from_utf8_def)
  qed (simp add: decode_urls_loop.simps)
qed

text \<open>The decoder of addresses accepts what the encoder writes, except that it refuses a repeated address.\<close>

lemma decode_urls_Inr: "decode_urls bs t = Inr urls \<longleftrightarrow> encode_urls urls t = Inr bs \<and> distinct urls"
  unfolding decode_urls_def bindR_eq_Inr ensure_eq_Inr decode_urls_loop_Inr encode_urls_Inr by auto

section \<open>Bodies and what the decoders accept\<close>

lemma binding_body_Inr:
  "binding_body b = Inr bs \<longleftrightarrow> binding_check b = Inr () \<and>
     (\<exists>urls pins roster. encode_urls (ab_urls b) BT_URLS = Inr urls \<and> encode_keys (ab_pins b) MAX_PINS BT_PINS = Inr pins \<and>
        encode_keys (ab_roster b) MAX_ROSTER BT_ROSTER = Inr roster \<and> write_fields (authority_binding_fields b urls pins roster) = Inr bs)"
proof -
  have parts: "authority_binding_fields b urls pins roster =
      take 7 (authority_binding_fields b [] [] []) @ [(BT_URLS, urls)] @ [(BT_PINS, pins)] @ take 3 (drop 9 (authority_binding_fields b [] [] [])) @
      [(BT_ROSTER, roster)] @ drop 13 (authority_binding_fields b [] [] [])" for urls pins roster
    by (simp add: authority_binding_fields_def)
  have written: "write_fields (authority_binding_fields b urls pins roster) =
      bindR (put_all (take 7 (authority_binding_fields b [] [] [])) writer_new) (\<lambda>w. bindR (put BT_URLS urls w) (\<lambda>w. bindR (put BT_PINS pins w) (\<lambda>w.
      bindR (put_all (take 3 (drop 9 (authority_binding_fields b [] [] []))) w) (\<lambda>w. bindR (put BT_ROSTER roster w) (\<lambda>w.
      bindR (put_all (drop 13 (authority_binding_fields b [] [] [])) w) (\<lambda>w. Inr (finish w)))))))" for urls pins roster
    unfolding write_fields_def by (subst parts) (simp only: put_all_append bindR_assoc put_all_one)
  show ?thesis unfolding binding_body_def written bind_unit_eq_Inr unfolding bindR_eq_Inr by blast
qed

lemma control_request_body_Inr:
  "control_request_body r = Inr bs \<longleftrightarrow> control_check_tenant (cq_tenant r) CR_TENANT = Inr () \<and>
     sint (cq_issued_at r) < sint (cq_expires_at r) \<and> sint (cq_expires_at r) \<le> sint (cq_issued_at r) + 86400 \<and>
     (\<exists>payload. payload_encode (cq_payload r) = Inr payload \<and> write_fields (control_request_fields r payload) = Inr bs)"
proof -
  have parts: "control_request_fields r payload = take 10 (control_request_fields r []) @ [(CR_PAYLOAD, payload)]" for payload
    by (simp add: control_request_fields_def)
  have life: "(\<exists>d. checked_sub_i64 (cq_expires_at r) (cq_issued_at r) = Some d \<and> \<not> (d \<le> 0 \<or> d > MAX_REQUEST_LIFETIME)) \<longleftrightarrow>
      sint (cq_issued_at r) < sint (cq_expires_at r) \<and> sint (cq_expires_at r) \<le> sint (cq_issued_at r) + 86400"
    by (auto simp: checked_sub_i64_def MAX_REQUEST_LIFETIME_def clamp_i64_def Let_def)
  have written: "write_fields (control_request_fields r payload) =
      bindR (put_all (take 10 (control_request_fields r [])) writer_new) (\<lambda>w. bindR (put CR_PAYLOAD payload w) (\<lambda>w. Inr (finish w)))" for payload
    unfolding write_fields_def by (subst parts) (simp only: put_all_append bindR_assoc put_all_one)
  show ?thesis
    unfolding control_request_body_def written bind_unit_eq_Inr unfolding bindR_eq_Inr ok_or_eq_Inr ensure_eq_Inr using life by blast
qed

lemma receipt_body_Inr: "receipt_body r = Inr bs \<longleftrightarrow> check_reason (rp_reason r) RC_REASON = Inr () \<and> write_fields (receipt_fields r) = Inr bs"
  by (simp add: receipt_body_def bind_unit_eq_Inr)

lemma transfer_body_Inr:
  "transfer_body x = Inr bs \<longleftrightarrow> unat (tf_to_epoch x) = unat (tf_from_epoch x) + 1 \<and>
     sint (tf_issued_at x) < sint (tf_expires_at x) \<and> tf_binding x \<noteq> [] \<and> length (tf_binding x) \<le> 65536 \<and>
     write_fields (transfer_fields x) = Inr bs"
  by (auto simp: transfer_body_def bindR_eq_Inr ok_or_eq_Inr ensure_eq_Inr checked_simps MAX_DOCUMENT_LEN_def not_le not_less)

text \<open>Each of the four loops keeps the fields it skips.\<close>

lemmas reader_simps = bindR_eq_Inr skipped_see_Inr ensure_eq_Inr Let_def CRIT_TAG_MAX_def

definition authority_binding_inv :: "BindingDecode \<Rightarrow> bool" where
  "authority_binding_inv s \<longleftrightarrow> (\<forall>us. bd_urls s = Some us \<longrightarrow> distinct us)"

interpretation binding_reader: canonical_reader binding_step binding_start bd_skipped authority_binding_inv
proof (unfold_locales, goal_cases)
  case (3 s f s')
  then show ?case by (auto simp: authority_binding_inv_def binding_step_def reader_simps decode_urls_Inr split: if_splits)
next
  case (4 s f s')
  then show ?case by (auto simp: binding_step_def reader_simps split: if_splits)
qed (simp_all add: binding_start_def skipped_default_def authority_binding_inv_def)

interpretation request_reader: canonical_reader control_request_step control_request_start rq_skipped "\<lambda>_. True"
  by unfold_locales (auto simp: control_request_step_def control_request_start_def skipped_default_def reader_simps split: if_splits)

interpretation receipt_reader: canonical_reader receipt_step receipt_start rd_skipped "\<lambda>_. True"
  by unfold_locales (auto simp: receipt_step_def receipt_start_def skipped_default_def reader_simps split: if_splits)

interpretation transfer_reader: canonical_reader transfer_step transfer_start td_skipped "\<lambda>_. True"
  by unfold_locales (auto simp: transfer_step_def transfer_start_def skipped_default_def reader_simps split: if_splits)

interpretation payload_reader: canonical_reader payload_step payload_start py_skipped "\<lambda>_. True"
  by unfold_locales (auto simp: payload_step_def payload_start_def skipped_default_def reader_simps split: if_splits)

lemma control_tags:
  "\<forall>tv \<in> set (authority_binding_fields b urls pins roster). fst tv \<le> CRIT_TAG_MAX"
  "\<forall>tv \<in> set (control_request_fields r payload). fst tv \<le> CRIT_TAG_MAX"
  "\<forall>tv \<in> set (receipt_fields q). fst tv \<le> CRIT_TAG_MAX"
  "\<forall>tv \<in> set (transfer_fields x). fst tv \<le> CRIT_TAG_MAX"
  by (simp_all add: authority_binding_fields_def control_request_fields_def receipt_fields_def transfer_fields_def CRIT_TAG_MAX_def)

lemma split_signed_Inr: "split_signed bs = Inr (sig, body) \<longleftrightarrow> length bs \<le> 65536 \<and> bs = sig @ body \<and> length sig = 64"
  by (auto simp: split_signed_def bindR_eq_Inr ensure_eq_Inr ok_or_eq_Inr split_at_parts MAX_DOCUMENT_LEN_def SIGNATURE_LEN_def not_less)

definition says_binding :: "bytes \<Rightarrow> AuthorityBinding \<Rightarrow> bool" where
  "says_binding body b \<longleftrightarrow> binding_check b = Inr () \<and>
     (\<exists>urls pins roster. encode_urls (ab_urls b) BT_URLS = Inr urls \<and> encode_keys (ab_pins b) MAX_PINS BT_PINS = Inr pins \<and>
        encode_keys (ab_roster b) MAX_ROSTER BT_ROSTER = Inr roster \<and>
        carries (map fst (authority_binding_fields b urls pins roster)) (authority_binding_fields b urls pins roster) body)"

lemma binding_peek_says:
  assumes "binding_peek bs = Inr b"
  shows "\<exists>sig body. length bs \<le> 65536 \<and> bs = sig @ body \<and> length sig = 64 \<and> says_binding body b \<and> distinct (ab_urls b)"
proof -
  from assms obtain sig body s where sp: "split_signed bs = Inr (sig, body)"
    and s: "tlv_loop binding_step (reader_new body) binding_start = Inr s" "binding_finish body s = Inr b"
    by (auto simp: binding_peek_def bindR_eq_Inr)
  from s(2) have "binding_check b = Inr ()" and enc: "binding_body b = Inr (skipped_strip (bd_skipped s) body)"
    by (auto simp: binding_finish_def bindR_eq_Inr ensure_eq_Inr Let_def)
  then have "says_binding body b"
    unfolding says_binding_def binding_body_Inr using binding_reader.accepted_carries [OF s(1) _ control_tags(1)] by blast
  moreover have "distinct (ab_urls b)"
    using binding_reader.read_inv [OF s(1)] s(2) by (auto simp: binding_finish_def bindR_eq_Inr ok_or_eq_Inr Let_def authority_binding_inv_def)
  ultimately show ?thesis using sp by (auto simp: split_signed_Inr)
qed

definition says_transfer :: "bytes \<Rightarrow> Transfer \<Rightarrow> bool" where
  "says_transfer body x \<longleftrightarrow> unat (tf_to_epoch x) = unat (tf_from_epoch x) + 1 \<and> sint (tf_issued_at x) < sint (tf_expires_at x) \<and>
     carries (map fst (transfer_fields x)) (transfer_fields x) body"

lemma transfer_decode_says: "transfer_decode_body body = Inr x \<Longrightarrow> says_transfer body x"
proof -
  assume "transfer_decode_body body = Inr x"
  then obtain s where s: "tlv_loop transfer_step (reader_new body) transfer_start = Inr s" "transfer_finish body s = Inr x"
    by (auto simp: transfer_decode_body_def bindR_eq_Inr)
  from s(2) have "transfer_body x = Inr (skipped_strip (td_skipped s) body)"
    by (auto simp: transfer_finish_def bindR_eq_Inr ensure_eq_Inr Let_def)
  then show ?thesis
    unfolding says_transfer_def transfer_body_Inr using transfer_reader.accepted_carries [OF s(1) _ control_tags(4)] by blast
qed

definition says_request :: "bytes \<Rightarrow> ControlRequest \<Rightarrow> bool" where
  "says_request body r \<longleftrightarrow> check_tenant (cq_tenant r) = Inr () \<and>
     sint (cq_issued_at r) < sint (cq_expires_at r) \<and> sint (cq_expires_at r) \<le> sint (cq_issued_at r) + 86400 \<and>
     (\<exists>payload. payload_encode (cq_payload r) = Inr payload \<and>
        carries (map fst (control_request_fields r payload)) (control_request_fields r payload) body)"

lemma request_decode_says: "control_request_decode_body body = Inr r \<Longrightarrow> says_request body r"
proof -
  assume "control_request_decode_body body = Inr r"
  then obtain s where s: "tlv_loop control_request_step (reader_new body) control_request_start = Inr s" "control_request_finish body s = Inr r"
    by (auto simp: control_request_decode_body_def bindR_eq_Inr)
  from s(2) have "control_request_body r = Inr (skipped_strip (rq_skipped s) body)"
    by (auto simp: control_request_finish_def bindR_eq_Inr ensure_eq_Inr Let_def)
  then show ?thesis
    unfolding says_request_def control_request_body_Inr control_tenant_eq using request_reader.accepted_carries [OF s(1) _ control_tags(2)] by blast
qed

section \<open>Several signatures over one body\<close>

definition frame_signed :: "(bytes \<times> bytes) list \<Rightarrow> bytes \<Rightarrow> bytes" where
  "frame_signed sigs body = [word_of_nat (length sigs)] @ concat (map (\<lambda>(key, sig). key @ sig) sigs) @ body"

definition sigs_wf :: "(bytes \<times> bytes) list \<Rightarrow> bool" where
  "sigs_wf sigs \<longleftrightarrow> (\<forall>(key, sig) \<in> set sigs. length key = 32 \<and> length sig = 64)"

lemma split_signatures_Inr:
  "split_signatures n rest = Inr (sigs, body) \<longleftrightarrow>
     length sigs = n \<and> sigs_wf sigs \<and> rest = concat (map (\<lambda>(key, sig). key @ sig) sigs) @ body"
proof (induction n arbitrary: rest sigs)
  case (Suc n)
  have "split_signatures (Suc n) rest = Inr (sigs, body) \<longleftrightarrow>
      (\<exists>key sig tail more. rest = key @ sig @ tail \<and> length key = 32 \<and> length sig = 64 \<and>
         split_signatures n tail = Inr (more, body) \<and> sigs = (key, sig) # more)"
    by (fastforce simp: bindR_eq_Inr ok_or_eq_Inr split_at_parts head_lens SIGNATURE_LEN_def)
  then show ?case unfolding Suc.IH by (cases sigs) (auto simp: sigs_wf_def)
qed (auto simp: sigs_wf_def)

lemma split_request_Inr:
  "split_request bs = Inr (sigs, body) \<longleftrightarrow>
     length bs \<le> 65536 \<and> sigs \<noteq> [] \<and> length sigs \<le> 16 \<and> sigs_wf sigs \<and> sorted_wrt (<) (map fst sigs) \<and>
     bs = frame_signed sigs body"
proof -
  have count: "unat (word_of_nat n :: byte) = n" if "n \<le> 16" for n
    using that by (simp add: unat_of_nat take_bit_nat_eq_self)
  show ?thesis (is "?l \<longleftrightarrow> ?r")
  proof
    assume ?l
    then show ?r
      by (auto simp: split_request_def bindR_eq_Inr ok_or_eq_Inr ensure_eq_Inr Let_def split_signatures_Inr out_of_order_sorted
          frame_signed_def MAX_DOCUMENT_LEN_def MAX_SIGNERS_def split: list.splits)
  next
    assume ?r
    then show ?l
      by (auto simp: split_request_def frame_signed_def split_signatures_Inr [THEN iffD2] count out_of_order_sorted
          MAX_DOCUMENT_LEN_def MAX_SIGNERS_def Let_def)
  qed
qed

lemma neighbours_distinct:
  assumes "sorted xs"
  shows "list_ex (\<lambda>(a, b). a = b) (zip xs (tl xs)) \<longleftrightarrow> \<not> distinct xs"
  using assms
proof (induction xs)
  case (Cons x xs)
  then show ?case by (cases xs) auto
qed simp

lemma assemble_signed_Inr:
  "assemble_signed body sigs = Inr bs \<longleftrightarrow>
     sigs \<noteq> [] \<and> length sigs \<le> 16 \<and> distinct (map fst sigs) \<and> bs = frame_signed (sort_key fst sigs) body"
proof -
  let ?o = "sort_key fst sigs"
  have "list_ex (\<lambda>(a, b). fst a = fst b) (zip ?o (tl ?o)) \<longleftrightarrow> list_ex (\<lambda>(a, b). a = b) (zip (map fst ?o) (tl (map fst ?o)))"
    by (simp add: map_tl [symmetric] zip_map_map list_ex_iff case_prod_unfold)
  also have "\<dots> \<longleftrightarrow> \<not> distinct (map fst ?o)" by (rule neighbours_distinct) simp
  also have "distinct (map fst ?o) \<longleftrightarrow> distinct (map fst sigs)"
    by (simp add: distinct_map)
  finally have nb: "list_ex (\<lambda>(a, b). fst a = fst b) (zip ?o (tl ?o)) \<longleftrightarrow> \<not> distinct (map fst sigs)" .
  have "?o = [] \<longleftrightarrow> sigs = []" by (metis length_0_conv length_sort)
  then show ?thesis
    by (auto simp: assemble_signed_def Let_def bindR_eq_Inr ensure_eq_Inr nb MAX_SIGNERS_def frame_signed_def)
qed

lemma sorted_keys_strict: "distinct (map fst sigs) \<Longrightarrow> sorted_wrt (<) (map fst (sort_key fst sigs))"
proof -
  assume "distinct (map fst sigs)"
  then have "distinct (map fst (sort_key fst sigs))" by (simp add: distinct_map)
  then show ?thesis by (simp add: strict_sorted_iff)
qed

text \<open>What was assembled splits into the same signatures, in the order of their keys.\<close>

lemma assembled_splits:
  assumes "assemble_signed body sigs = Inr bs" and "sigs_wf sigs" and "length bs \<le> 65536"
  shows "split_request bs = Inr (sort_key fst sigs, body)"
proof -
  from assms(1) have a: "sigs \<noteq> []" "length sigs \<le> 16" "distinct (map fst sigs)" "bs = frame_signed (sort_key fst sigs) body"
    by (auto simp: assemble_signed_Inr)
  have "sort_key fst sigs \<noteq> []" using a(1) by (metis length_0_conv length_sort)
  with a assms(2,3) sorted_keys_strict [OF a(3)] show ?thesis by (simp add: split_request_Inr sigs_wf_def)
qed

definition all_signed :: "Crates \<Rightarrow> Label \<Rightarrow> (bytes \<times> bytes) list \<Rightarrow> bytes \<Rightarrow> bool" where
  "all_signed c label sigs body \<longleftrightarrow> (\<forall>(key, sig) \<in> set sigs. signed_by c label key body sig)"

lemma fold_signatures_Inr:
  "foldR (\<lambda>(key, sig) _. map_err BadHeaderSignature (sign_verify c key (body_transcript label body) sig)) sigs () = Inr u \<longleftrightarrow>
     all_signed c label sigs body"
  by (induction sigs) (auto simp: all_signed_def bind_unit_eq_Inr map_err_eq_Inr sign_verify_eq_Inr signed_by_def)

lemma open_transfer_Inr:
  "open_transfer c bs = Inr (x, signers) \<longleftrightarrow>
     (\<exists>sigs body. split_request bs = Inr (sigs, body) \<and> all_signed c AUTHORITY_TRANSFER sigs body \<and>
        transfer_decode_body body = Inr x \<and> signers = map fst sigs)"
  by (auto simp: open_transfer_def bindR_eq_Inr Let_def fold_signatures_Inr)

lemma open_request_Inr:
  "open_request c bs = Inr q \<longleftrightarrow>
     (\<exists>sigs body r. split_request bs = Inr (sigs, body) \<and> all_signed c CONTROL_REQUEST sigs body \<and>
        control_request_decode_body body = Inr r \<and>
        q = \<lparr>sq_request = r, sq_body_hash = sha256_digest c body, sq_signers = map fst sigs\<rparr>)"
  by (auto simp: open_request_def bindR_eq_Inr Let_def fold_signatures_Inr)

section \<open>Succession\<close>

text \<open>
  What it takes for a server to become the next one: a document that at least a threshold of
  distinct keys of the present roster have signed, each over the same body, that names the
  present identity, epoch and key, has not expired, and carries whole the next binding, which
  its own key has signed and which has the same identity and the next epoch.
\<close>

definition quorum :: "AuthorityBinding \<Rightarrow> bytes set \<Rightarrow> bool" where
  "quorum b keys \<longleftrightarrow> 1 \<le> unat (ab_threshold b) \<and> unat (ab_threshold b) \<le> card (keys \<inter> set (ab_roster b))"

definition own_binding :: "Crates \<Rightarrow> bytes \<Rightarrow> AuthorityBinding \<Rightarrow> bool" where
  "own_binding c bs b \<longleftrightarrow>
     (\<exists>sig body. bs = sig @ body \<and> length sig = 64 \<and> signed_by c AUTHORITY_BINDING (ab_lease_public b) body sig \<and>
        says_binding body b)"

definition hands_on :: "Crates \<Rightarrow> i64 \<Rightarrow> AuthorityBinding \<Rightarrow> bytes \<Rightarrow> AuthorityBinding \<Rightarrow> bool" where
  "hands_on c now b bs b' \<longleftrightarrow>
     (\<exists>sigs body x. bs = frame_signed sigs body \<and> all_signed c AUTHORITY_TRANSFER sigs body \<and> quorum b (fst ` set sigs) \<and>
        says_transfer body x \<and> tf_authority_id x = ab_authority_id b \<and> tf_from_epoch x = ab_epoch b \<and>
        tf_from_lease x = ab_lease_public b \<and> sint now \<le> sint (tf_expires_at x) \<and>
        own_binding c (tf_binding x) b' \<and> ab_authority_id b' = ab_authority_id b \<and> ab_epoch b' = tf_to_epoch x)"

inductive succession :: "Crates \<Rightarrow> i64 \<Rightarrow> AuthorityBinding \<Rightarrow> bytes list \<Rightarrow> AuthorityBinding \<Rightarrow> bytes list \<Rightarrow> bool"
  for c now b where
  succession_start: "succession c now b [] b []"
| succession_step: "succession c now b transfers b' keys \<Longrightarrow> hands_on c now b' bs b'' \<Longrightarrow>
    succession c now b (transfers @ [bs]) b'' (keys @ [ab_lease_public b'])"

lemma binding_open_Inr:
  assumes "ct_eq_sound c" and "binding_open c bs anchor = Inr b"
  shows "own_binding c bs b" and "ab_lease_public b = anchor" and "binding_peek bs = Inr b"
proof -
  from assms(2) obtain sig body where sp: "split_signed bs = Inr (sig, body)" "signed_by c AUTHORITY_BINDING anchor body sig"
    and b: "binding_peek bs = Inr b" "public_key_eq c (ab_lease_public b) anchor"
    by (auto simp: binding_open_def bindR_eq_Inr map_err_eq_Inr sign_verify_eq_Inr ensure_eq_Inr signed_by_def)
  show key: "ab_lease_public b = anchor" using b(2) assms(1) by (auto simp: public_key_eq_def ct_eq_sound_def split: if_splits)
  show "binding_peek bs = Inr b" by (fact b(1))
  from binding_peek_says [OF b(1)] sp(1) have "says_binding body b" by (auto simp: split_signed_Inr)
  with sp show "own_binding c bs b"
    unfolding own_binding_def key by (intro exI [of _ sig] exI [of _ body]) (simp add: split_signed_Inr)
qed

lemma quorum_counted:
  assumes "distinct signers" and "length signers \<le> 16" and "ab_threshold b \<noteq> 0"
    and "ab_threshold b \<le> (if length (filter (\<lambda>key. key \<in> set (ab_roster b)) signers) < 256
            then word_of_nat (length (filter (\<lambda>key. key \<in> set (ab_roster b)) signers)) else 255)"
  shows "quorum b (set signers)"
proof -
  let ?n = "length (filter (\<lambda>key. key \<in> set (ab_roster b)) signers)"
  have "?n \<le> 16" using assms(2) length_filter_le [of _ signers] by (rule order_trans [rotated])
  then have "unat (ab_threshold b) \<le> ?n"
    using assms(4) by (auto simp: not_less word_le_nat_alt unat_of_nat take_bit_nat_eq_self)
  also have "?n = card (set signers \<inter> set (ab_roster b))"
    using assms(1) by (metis distinct_card distinct_filter set_filter Int_def Collect_conj_eq Collect_mem_eq)
  finally have "unat (ab_threshold b) \<le> card (set signers \<inter> set (ab_roster b))" .
  moreover have "1 \<le> unat (ab_threshold b)" using assms(3) by (simp add: Suc_le_eq unat_gt_0)
  ultimately show ?thesis by (simp add: quorum_def)
qed

lemma chain_step_hands_on:
  assumes "ct_eq_sound c" and "transfer_chain_step c now bs e = Inr e'"
  shows "hands_on c now (ef_binding e) bs (ef_binding e')"
    and "ef_previous_keys e' = ef_previous_keys e @ [ab_lease_public (ef_binding e)]"
proof -
  let ?b = "ef_binding e"
  from assms(2) obtain x signers key n where op: "open_transfer c bs = Inr (x, signers)"
    and same: "tf_authority_id x = ab_authority_id ?b" "tf_from_epoch x = ab_epoch ?b" "public_key_eq c (tf_from_lease x) (ab_lease_public ?b)"
    "sint now \<le> sint (tf_expires_at x)"
    and have_quorum: "ab_roster ?b \<noteq> []" "ab_threshold ?b \<noteq> 0"
      "ab_threshold ?b \<le> (if length (filter (\<lambda>key. key \<in> set (ab_roster ?b)) signers) < 256
            then word_of_nat (length (filter (\<lambda>key. key \<in> set (ab_roster ?b)) signers)) else 255)"
    and nb: "binding_open c (tf_binding x) key = Inr n" "ab_epoch n = tf_to_epoch x" "ab_authority_id n = tf_authority_id x"
    and e': "ef_binding e' = n" "ef_previous_keys e' = ef_previous_keys e @ [ab_lease_public ?b]"
    by (auto simp: transfer_chain_step_def Let_def bindR_eq_Inr ensure_eq_Inr map_sum_Inr not_less split del: if_split)
  from op obtain sigs body where sp: "split_request bs = Inr (sigs, body)" "all_signed c AUTHORITY_TRANSFER sigs body"
    "transfer_decode_body body = Inr x" "signers = map fst sigs" by (auto simp: open_transfer_Inr)
  have framed: "bs = frame_signed sigs body" "length sigs \<le> 16" "distinct (map fst sigs)"
    using sp(1) by (auto simp: split_request_Inr strict_sorted_iff)
  have "quorum ?b (fst ` set sigs)" using quorum_counted [OF _ _ have_quorum(2,3)] framed(2,3) sp(4) by simp
  moreover have "tf_from_lease x = ab_lease_public ?b"
    using same(3) assms(1) by (auto simp: public_key_eq_def ct_eq_sound_def split: if_splits)
  moreover have "own_binding c (tf_binding x) n" using binding_open_Inr [OF assms(1) nb(1)] by simp
  ultimately show "hands_on c now ?b bs (ef_binding e')"
    unfolding hands_on_def using framed(1) sp(2) transfer_decode_says [OF sp(3)] same nb(2,3) e'(1)
    by (intro exI [of _ sigs] exI [of _ body] exI [of _ x]) simp
  show "ef_previous_keys e' = ef_previous_keys e @ [ab_lease_public ?b]" by (fact e'(2))
qed

lemma chain_fold_succession:
  assumes "ct_eq_sound c" and "foldR (transfer_chain_step c now) transfers e = Inr e'"
    and "succession c now b before (ef_binding e) (ef_previous_keys e)"
  shows "succession c now b (before @ transfers) (ef_binding e') (ef_previous_keys e')"
  using assms(2,3)
proof (induction transfers arbitrary: e before)
  case (Cons bs transfers)
  from Cons.prems(1) obtain e1 where e1: "transfer_chain_step c now bs e = Inr e1" "foldR (transfer_chain_step c now) transfers e1 = Inr e'"
    by (auto simp: bindR_eq_Inr)
  note step = chain_step_hands_on [OF assms(1) e1(1)]
  from succession_step [OF Cons.prems(2) step(1)] Cons.IH [OF e1(2), of "before @ [bs]"] step(2) show ?case by simp
qed simp

lemma succession_epochs:
  assumes "succession c now b transfers b' keys"
  shows "unat (ab_epoch b') = unat (ab_epoch b) + length transfers" and "ab_authority_id b' = ab_authority_id b"
    and "length keys = length transfers" and "hd (keys @ [ab_lease_public b']) = ab_lease_public b"
  using assms by (induction rule: succession.induct) (auto simp: hands_on_def says_transfer_def hd_append)

section \<open>What was written is read back\<close>

definition binding_wf :: "AuthorityBinding \<Rightarrow> bool" where
  "binding_wf b \<longleftrightarrow> length (ab_authority_id b) = 16 \<and> length (ab_lease_public b) = 32 \<and> length (ab_sealing_public b) = 32 \<and>
     (\<forall>k \<in> set (ab_pins b). length k = 32) \<and> (\<forall>k \<in> set (ab_roster b). length k = 32) \<and>
     length (ab_operation_id b) = 16 \<and> length (ab_previous b) = 32 \<and> distinct (ab_urls b)"

lemma binding_steps:
  "utf8_valid v \<Longrightarrow> binding_step \<lparr>fld_tag = BT_TENANT, fld_value = v, fld_start = i, fld_end = j\<rparr> s = Inr (s\<lparr>bd_tenant := Some v\<rparr>)"
  "binding_step \<lparr>fld_tag = BT_VERSION, fld_value = [b], fld_start = i, fld_end = j\<rparr> s = Inr (s\<lparr>bd_version := Some b\<rparr>)"
  "length v = 16 \<Longrightarrow> binding_step \<lparr>fld_tag = BT_AUTHORITY_ID, fld_value = v, fld_start = i, fld_end = j\<rparr> s = Inr (s\<lparr>bd_authority_id := Some v\<rparr>)"
  "binding_step \<lparr>fld_tag = BT_EPOCH, fld_value = le64 w, fld_start = i, fld_end = j\<rparr> s = Inr (s\<lparr>bd_epoch := Some w\<rparr>)"
  "binding_step \<lparr>fld_tag = BT_REVISION, fld_value = le64 w, fld_start = i, fld_end = j\<rparr> s = Inr (s\<lparr>bd_revision := Some w\<rparr>)"
  "length v = 32 \<Longrightarrow> binding_step \<lparr>fld_tag = BT_LEASE_PUBLIC, fld_value = v, fld_start = i, fld_end = j\<rparr> s = Inr (s\<lparr>bd_lease := Some v\<rparr>)"
  "length v = 32 \<Longrightarrow> binding_step \<lparr>fld_tag = BT_SEALING_PUBLIC, fld_value = v, fld_start = i, fld_end = j\<rparr> s = Inr (s\<lparr>bd_sealing := Some v\<rparr>)"
  "decode_urls v BT_URLS = Inr us \<Longrightarrow> binding_step \<lparr>fld_tag = BT_URLS, fld_value = v, fld_start = i, fld_end = j\<rparr> s = Inr (s\<lparr>bd_urls := Some us\<rparr>)"
  "decode_keys v MAX_PINS BT_PINS = Inr ks \<Longrightarrow> binding_step \<lparr>fld_tag = BT_PINS, fld_value = v, fld_start = i, fld_end = j\<rparr> s = Inr (s\<lparr>bd_pins := Some ks\<rparr>)"
  "binding_step \<lparr>fld_tag = BT_DURABILITY, fld_value = [durability_u8 d], fld_start = i, fld_end = j\<rparr> s = Inr (s\<lparr>bd_durability := Some d\<rparr>)"
  "binding_step \<lparr>fld_tag = BT_RECOVERY, fld_value = [recovery_u8 r], fld_start = i, fld_end = j\<rparr> s = Inr (s\<lparr>bd_recovery := Some r\<rparr>)"
  "binding_step \<lparr>fld_tag = BT_STATUS, fld_value = [status_u8 k], fld_start = i, fld_end = j\<rparr> s = Inr (s\<lparr>bd_status := Some k\<rparr>)"
  "decode_keys v MAX_ROSTER BT_ROSTER = Inr ks \<Longrightarrow> binding_step \<lparr>fld_tag = BT_ROSTER, fld_value = v, fld_start = i, fld_end = j\<rparr> s = Inr (s\<lparr>bd_roster := Some ks\<rparr>)"
  "binding_step \<lparr>fld_tag = BT_THRESHOLD, fld_value = [b], fld_start = i, fld_end = j\<rparr> s = Inr (s\<lparr>bd_threshold := Some b\<rparr>)"
  "length v = 16 \<Longrightarrow> binding_step \<lparr>fld_tag = BT_OPERATION_ID, fld_value = v, fld_start = i, fld_end = j\<rparr> s = Inr (s\<lparr>bd_operation_id := Some v\<rparr>)"
  "length v = 32 \<Longrightarrow> binding_step \<lparr>fld_tag = BT_PREVIOUS, fld_value = v, fld_start = i, fld_end = j\<rparr> s = Inr (s\<lparr>bd_previous := Some v\<rparr>)"
  "binding_step \<lparr>fld_tag = BT_ISSUED_AT, fld_value = le64 w, fld_start = i, fld_end = j\<rparr> s = Inr (s\<lparr>bd_issued_at := Some w\<rparr>)"
  "binding_step \<lparr>fld_tag = BT_EXPIRES_AT, fld_value = le64 w, fld_start = i, fld_end = j\<rparr> s = Inr (s\<lparr>bd_expires_at := Some w\<rparr>)"
  by (simp_all add: binding_step_def from_utf8_def exact_len_def control_codes [THEN iffD2])

lemma binding_own:
  assumes "binding_wf b" and "binding_body b = Inr body"
  shows "bindR (tlv_loop binding_step (reader_new body) binding_start) (binding_finish body) = Inr b"
proof -
  from assms(2) obtain urls pins roster where ck: "binding_check b = Inr ()"
    and e: "encode_urls (ab_urls b) BT_URLS = Inr urls" "encode_keys (ab_pins b) MAX_PINS BT_PINS = Inr pins"
      "encode_keys (ab_roster b) MAX_ROSTER BT_ROSTER = Inr roster"
    and body: "ascending None (authority_binding_fields b urls pins roster)" "body = enc_fields (authority_binding_fields b urls pins roster)"
    by (auto simp: binding_body_Inr write_fields_eq_Inr)
  have d: "decode_urls urls BT_URLS = Inr (ab_urls b)" "decode_keys pins MAX_PINS BT_PINS = Inr (ab_pins b)"
    "decode_keys roster MAX_ROSTER BT_ROSTER = Inr (ab_roster b)"
    using e assms(1) by (simp_all add: decode_urls_Inr decode_keys_Inr binding_wf_def)
  have t: "utf8_valid (ab_tenant b)"
    using ck tenant_utf8 by (auto simp: binding_check_def bindR_eq_Inr control_tenant_eq)
  have "tlv_loop binding_step (reader_new body) binding_start =
      Inr \<lparr>bd_skipped = skipped_default, bd_version = Some CONTROL_VERSION, bd_tenant = Some (ab_tenant b),
        bd_authority_id = Some (ab_authority_id b), bd_epoch = Some (ab_epoch b), bd_revision = Some (ab_revision b),
        bd_lease = Some (ab_lease_public b), bd_sealing = Some (ab_sealing_public b), bd_urls = Some (ab_urls b),
        bd_pins = Some (ab_pins b), bd_durability = Some (ab_durability b), bd_recovery = Some (ab_recovery b),
        bd_status = Some (ab_status b), bd_roster = Some (ab_roster b), bd_threshold = Some (ab_threshold b),
        bd_operation_id = Some (ab_operation_id b), bd_previous = Some (ab_previous b), bd_issued_at = Some (ab_issued_at b),
        bd_expires_at = Some (ab_expires_at b)\<rparr>"
    unfolding body(2) tlv_loop_own [OF body(1)]
    using assms(1) d t by (simp add: authority_binding_fields_def binding_steps binding_wf_def binding_start_def)
  then show ?thesis
    using ck assms(2) by (cases b) (simp add: binding_finish_def skipped_default_def skipped_strip_def Let_def)
qed

lemma binding_issued_opens:
  assumes "ct_eq_sound c" and "binding_wf b" and "binding_body b = Inr body" and "length sig = 64"
    and "signed_by c AUTHORITY_BINDING (ab_lease_public b) body sig" and "length body \<le> 65472"
  shows "binding_peek (sig @ body) = Inr b" and "binding_open c (sig @ body) (ab_lease_public b) = Inr b"
proof -
  have sp: "split_signed (sig @ body) = Inr (sig, body)" using assms(4,6) by (simp add: split_signed_Inr)
  show peek: "binding_peek (sig @ body) = Inr b" using sp binding_own [OF assms(2,3)] by (simp add: binding_peek_def)
  have "sign_verify c (ab_lease_public b) (body_transcript AUTHORITY_BINDING body) sig = Inr ()"
    using assms(5) by (simp add: sign_verify_eq_Inr signed_by_def)
  moreover have "public_key_eq c (ab_lease_public b) (ab_lease_public b)" using assms(1) by (simp add: public_key_eq_def ct_eq_sound_def)
  ultimately show "binding_open c (sig @ body) (ab_lease_public b) = Inr b" using sp peek by (simp add: binding_open_def)
qed

definition transfer_wf :: "Transfer \<Rightarrow> bool" where
  "transfer_wf x \<longleftrightarrow> length (tf_authority_id x) = 16 \<and> length (tf_from_lease x) = 32"

lemma transfer_own:
  assumes "transfer_wf x" and "transfer_body x = Inr body"
  shows "transfer_decode_body body = Inr x"
proof -
  from assms(2) have body: "ascending None (transfer_fields x)" "body = enc_fields (transfer_fields x)"
    by (auto simp: transfer_body_Inr write_fields_eq_Inr)
  have "tlv_loop transfer_step (reader_new body) transfer_start =
      Inr \<lparr>td_skipped = skipped_default, td_version = Some CONTROL_VERSION, td_id = Some (tf_authority_id x),
        td_from = Some (tf_from_epoch x), td_to = Some (tf_to_epoch x), td_key = Some (tf_from_lease x),
        td_at = Some (tf_transition_at x), td_old = Some (tf_old_leases x), td_issued = Some (tf_issued_at x),
        td_expires = Some (tf_expires_at x), td_binding = Some (tf_binding x)\<rparr>"
    unfolding body(2) tlv_loop_own [OF body(1)]
    using assms(1) by (simp add: transfer_fields_def transfer_step_def transfer_start_def transfer_wf_def exact_len_def control_codes [THEN iffD2])
  then show ?thesis
    using assms(2) by (cases x) (simp add: transfer_decode_body_def transfer_finish_def skipped_default_def skipped_strip_def Let_def)
qed

interpretation transfer_codec: codec transfer_body transfer_decode_body transfer_wf
  by unfold_locales (rule transfer_own)

definition receipt_wf :: "Receipt \<Rightarrow> bool" where
  "receipt_wf r \<longleftrightarrow> length (rp_request_hash r) = 32 \<and> length (rp_operation_id r) = 16 \<and> length (rp_commit r) = 32 \<and> utf8_valid (rp_reason r)"

lemma receipt_own:
  assumes "receipt_wf r" and "receipt_body r = Inr body"
  shows "bindR (tlv_loop receipt_step (reader_new body) receipt_start) (receipt_finish body) = Inr r"
proof -
  from assms(2) have body: "ascending None (receipt_fields r)" "body = enc_fields (receipt_fields r)"
    by (auto simp: receipt_body_Inr write_fields_eq_Inr)
  have "tlv_loop receipt_step (reader_new body) receipt_start =
      Inr \<lparr>rd_skipped = skipped_default, rd_version = Some CONTROL_VERSION, rd_hash = Some (rp_request_hash r),
        rd_op = Some (rp_operation_id r), rd_outcome = Some (rp_outcome r), rd_revision = Some (rp_revision r),
        rd_commit = Some (rp_commit r), rd_epoch = Some (rp_epoch r), rd_durability = Some (rp_durability r),
        rd_reason = Some (rp_reason r), rd_at = Some (rp_at r)\<rparr>"
    unfolding body(2) tlv_loop_own [OF body(1)]
    using assms(1)
    by (simp add: receipt_fields_def receipt_step_def receipt_start_def receipt_wf_def exact_len_def from_utf8_def control_codes [THEN iffD2])
  then show ?thesis
    using assms(2) by (cases r) (simp add: receipt_finish_def skipped_default_def skipped_strip_def Let_def)
qed

lemma receipt_issued_opens:
  assumes "receipt_wf r" and "receipt_body r = Inr body" and "length sig = 64" and "signed_by c OPERATION_RECEIPT key body sig"
    and "length body \<le> 65472"
  shows "receipt_open c (sig @ body) key = Inr r"
proof -
  have "split_signed (sig @ body) = Inr (sig, body)" using assms(3,5) by (simp add: split_signed_Inr)
  moreover have "sign_verify c key (body_transcript OPERATION_RECEIPT body) sig = Inr ()"
    using assms(4) by (simp add: sign_verify_eq_Inr signed_by_def)
  ultimately show ?thesis using receipt_own [OF assms(1,2)] by (simp add: receipt_open_def)
qed

fun payload_wf :: "ControlPayload \<Rightarrow> bool" where
  "payload_wf (SetEndpoints urls pins) \<longleftrightarrow> distinct urls \<and> (\<forall>k \<in> set pins. length k = 32)"
| "payload_wf (SetRoster keys threshold) \<longleftrightarrow> (\<forall>k \<in> set keys. length k = 32)"
| "payload_wf (Decommission status reason) \<longleftrightarrow> utf8_valid reason"
| "payload_wf (AddAuthor key) \<longleftrightarrow> length key = 32"
| "payload_wf (RemoveAuthor key) \<longleftrightarrow> length key = 32"
| "payload_wf _ \<longleftrightarrow> True"

text \<open>The one or two fields of a payload.\<close>

definition payload_fields :: "ControlPayload \<Rightarrow> bytes \<Rightarrow> bytes option \<Rightarrow> bool" where
  "payload_fields p one second \<longleftrightarrow>
     (case p of
        SetEndpoints urls pins \<Rightarrow> encode_urls urls 1 = Inr one \<and> (\<exists>v. second = Some v \<and> encode_keys pins MAX_PINS 2 = Inr v)
      | SetDurability d \<Rightarrow> one = [durability_u8 d] \<and> second = None
      | SetRoster keys threshold \<Rightarrow> encode_keys keys MAX_ROSTER 1 = Inr one \<and> second = Some [threshold]
      | SetRecovery r \<Rightarrow> one = [recovery_u8 r] \<and> second = None
      | Decommission status reason \<Rightarrow>
          (status = Stopped \<or> status = ArchiveOnly) \<and> check_reason reason 2 = Inr () \<and> one = [status_u8 status] \<and> second = Some reason
      | AddAuthor key \<Rightarrow> one = key \<and> second = None
      | RemoveAuthor key \<Rightarrow> one = key \<and> second = None)"

lemma payload_encode_Inr:
  "payload_encode p = Inr bs \<longleftrightarrow> (\<exists>one second. payload_fields p one second \<and> write_fields ((1, one) # opt_field 2 second) = Inr bs)"
proof (cases p)
  case (SetEndpoints urls pins)
  have w: "write_fields [(1, one), (2, v)] = bindR (put 1 one writer_new) (\<lambda>w. bindR (put 2 v w) (\<lambda>w. Inr (finish w)))" for one v
    by (simp add: write_fields_def bindR_assoc)
  show ?thesis by (auto simp: SetEndpoints payload_encode_def payload_fields_def w bindR_eq_Inr)
qed (auto simp: payload_encode_def payload_fields_def bind_unit_eq_Inr bindR_eq_Inr ensure_eq_Inr)

lemma payload_of_fields:
  assumes "payload_wf p" and "payload_fields p one second"
  shows "payload_of (payload_kind p) one second = Inr p"
  using assms
  by (cases p)
    (auto simp: payload_fields_def payload_of_def decode_urls_Inr [THEN iffD2] decode_keys_Inr [THEN iffD2] control_codes [THEN iffD2]
      from_utf8_def exact_len_def)

lemma payload_own:
  assumes "payload_wf p" and "payload_encode p = Inr bs"
  shows "payload_decode (payload_kind p) bs = Inr p"
proof -
  from assms(2) obtain one second where f: "payload_fields p one second" "ascending None ((1, one) # opt_field 2 second)"
    "bs = enc_fields ((1, one) # opt_field 2 second)"
    by (auto simp: payload_encode_Inr write_fields_eq_Inr)
  have "tlv_loop payload_step (reader_new bs) payload_start = Inr \<lparr>py_skipped = skipped_default, py_first = Some one, py_second = second\<rparr>"
    unfolding f(3) tlv_loop_own [OF f(2)] by (cases second) (simp_all add: payload_step_def payload_start_def)
  then show ?thesis
    using payload_of_fields [OF assms(1) f(1)] assms(2)
    by (simp add: payload_decode_def skipped_default_def skipped_strip_def)
qed

definition control_request_wf :: "ControlRequest \<Rightarrow> bool" where
  "control_request_wf r \<longleftrightarrow> length (cq_authority_id r) = 16 \<and> length (cq_operation_id r) = 16 \<and> payload_wf (cq_payload r)"

lemma control_request_own:
  assumes "control_request_wf r" and "control_request_body r = Inr body"
  shows "control_request_decode_body body = Inr r"
proof -
  from assms(2) obtain payload where t: "check_tenant (cq_tenant r) = Inr ()" and p: "payload_encode (cq_payload r) = Inr payload"
    and body: "ascending None (control_request_fields r payload)" "body = enc_fields (control_request_fields r payload)"
    by (auto simp: control_request_body_Inr write_fields_eq_Inr control_tenant_eq)
  have "tlv_loop control_request_step (reader_new body) control_request_start =
      Inr \<lparr>rq_skipped = skipped_default, rq_version = Some CONTROL_VERSION, rq_tenant = Some (cq_tenant r),
        rq_authority_id = Some (cq_authority_id r), rq_epoch = Some (cq_epoch r), rq_operation_id = Some (cq_operation_id r),
        rq_scope = Some SCOPE_AUTHORITY, rq_expected = Some (cq_expected_revision r), rq_issued_at = Some (cq_issued_at r),
        rq_expires_at = Some (cq_expires_at r), rq_kind = Some (payload_kind (cq_payload r)), rq_payload = Some payload\<rparr>"
    unfolding body(2) tlv_loop_own [OF body(1)]
    using assms(1) tenant_utf8 [OF t]
    by (simp add: control_request_fields_def control_request_step_def control_request_start_def control_request_wf_def exact_len_def from_utf8_def)
  then show ?thesis
    using assms payload_own [OF _ p]
    by (cases r) (simp add: control_request_decode_body_def control_request_finish_def control_request_wf_def skipped_default_def skipped_strip_def Let_def)
qed

interpretation control_request_codec: codec control_request_body control_request_decode_body control_request_wf
  by unfold_locales (rule control_request_own)

section \<open>Properties\<close>

text \<open>
  C12.  A chain of transfers is only accepted when it is authorised link by link.  Whenever
  \<open>verify_chain\<close> accepts, its first document was signed by the anchor, which is the key it names;
  every further binding was handed on by the one before it, that is by a document signed by a
  quorum of the previous roster; the identity never changes, the epoch advances by exactly one
  per transfer, without wrapping round, and the list of previous keys begins with the anchor.
\<close>

theorem chain_authorised:
  assumes "ct_eq_sound c" and "verify_chain c first transfers anchor now = Inr e"
  shows "\<exists>b. own_binding c first b \<and> ab_lease_public b = anchor \<and>
     succession c now b transfers (ef_binding e) (ef_previous_keys e) \<and>
     ab_authority_id (ef_binding e) = ab_authority_id b \<and>
     unat (ab_epoch (ef_binding e)) = unat (ab_epoch b) + length transfers \<and>
     hd (ef_previous_keys e @ [ab_lease_public (ef_binding e)]) = anchor"
proof -
  from assms(2) obtain b where b: "binding_open c first anchor = Inr b"
    and run: "foldR (transfer_chain_step c now) transfers
       \<lparr>ef_binding = b, ef_bytes = first, ef_transition_at = None, ef_old_leases = None, ef_previous_keys = []\<rparr> = Inr e"
    by (auto simp: verify_chain_def bindR_eq_Inr map_sum_Inr)
  have s: "succession c now b transfers (ef_binding e) (ef_previous_keys e)"
    using chain_fold_succession [OF assms(1) run, of b "[]"] succession_start by simp
  show ?thesis using binding_open_Inr [OF assms(1) b] s succession_epochs [OF s] by blast
qed

definition demo_binding :: AuthorityBinding where
  "demo_binding = \<lparr>ab_tenant = [97], ab_authority_id = replicate 16 1, ab_epoch = 0, ab_revision = 0,
     ab_lease_public = replicate 32 6, ab_sealing_public = replicate 32 2, ab_urls = [[120]], ab_pins = [],
     ab_durability = Local, ab_recovery = Undeclared, ab_status = Serving, ab_roster = [replicate 32 8], ab_threshold = 1,
     ab_operation_id = replicate 16 0, ab_previous = replicate 32 0, ab_issued_at = 0, ab_expires_at = 1\<rparr>"

definition demo_next :: AuthorityBinding where
  "demo_next = demo_binding\<lparr>ab_epoch := 1, ab_lease_public := replicate 32 7\<rparr>"

abbreviation (input) demo_signature :: "bytes \<Rightarrow> bytes" where
  "demo_signature key \<equiv> replicate 32 0 @ key"

definition demo_binding_body :: "AuthorityBinding \<Rightarrow> bytes" where
  "demo_binding_body b = enc_fields (authority_binding_fields b (enc_urls (ab_urls b)) (concat (ab_pins b)) (concat (ab_roster b)))"

lemma demo_bindings:
  assumes "b = demo_binding \<or> b = demo_next"
  shows "binding_wf b" and "binding_body b = Inr (demo_binding_body b)" and "length (demo_binding_body b) \<le> 65472"
    and "length (ab_lease_public b) = 32"
proof -
  show "binding_wf b" "length (ab_lease_public b) = 32"
    using assms by (auto simp: demo_binding_def demo_next_def binding_wf_def)
  have "binding_check b = Inr ()"
    using assms by (auto simp: binding_check_def control_tenant_eq [THEN iffD2] check_tenant_Inr demo_binding_def demo_next_def MAX_PINS_def)
  moreover have "ascending None (authority_binding_fields b (enc_urls (ab_urls b)) (concat (ab_pins b)) (concat (ab_roster b)))"
    using assms by (auto simp: authority_binding_fields_def demo_binding_def demo_next_def)
  ultimately show "binding_body b = Inr (demo_binding_body b)"
    using assms by (auto simp: binding_body_Inr demo_binding_body_def encode_urls_Inr encode_keys_Inr check_url_Inr
        demo_binding_def demo_next_def MAX_PINS_def MAX_ROSTER_def)
  show "length (demo_binding_body b) \<le> 65472"
    using assms by (auto simp: demo_binding_body_def authority_binding_fields_def enc_field_def demo_binding_def demo_next_def)
qed

definition demo_transfer :: Transfer where
  "demo_transfer = \<lparr>tf_authority_id = replicate 16 1, tf_from_epoch = 0, tf_to_epoch = 1, tf_from_lease = replicate 32 6,
     tf_transition_at = 5, tf_old_leases = Honour, tf_issued_at = 0, tf_expires_at = 9,
     tf_binding = demo_signature (replicate 32 7) @ demo_binding_body demo_next\<rparr>"

definition demo_transfer_bytes :: bytes where
  "demo_transfer_bytes = frame_signed [(replicate 32 8, demo_signature (replicate 32 8))] (enc_fields (transfer_fields demo_transfer))"

lemma demo_transfer_opens: "open_transfer demo_crates demo_transfer_bytes = Inr (demo_transfer, [replicate 32 8])"
proof -
  let ?body = "enc_fields (transfer_fields demo_transfer)"
  have small: "length (demo_binding_body demo_next) \<le> 1000"
    by (simp add: demo_binding_body_def authority_binding_fields_def enc_field_def demo_binding_def demo_next_def)
  have "ascending None (transfer_fields demo_transfer)" using small by (simp add: transfer_fields_def demo_transfer_def)
  then have body: "transfer_body demo_transfer = Inr ?body"
    using small by (simp add: transfer_body_Inr demo_transfer_def)
  have "transfer_wf demo_transfer" by (simp add: transfer_wf_def demo_transfer_def)
  note dec = transfer_own [OF this body]
  have "length ?body \<le> 2000" using small by (simp add: transfer_fields_def demo_transfer_def enc_field_def)
  then have "split_request demo_transfer_bytes = Inr ([(replicate 32 8, demo_signature (replicate 32 8))], ?body)"
    by (simp add: split_request_Inr demo_transfer_bytes_def sigs_wf_def frame_signed_def)
  moreover have "all_signed demo_crates AUTHORITY_TRANSFER [(replicate 32 8, demo_signature (replicate 32 8))] ?body"
    by (simp add: all_signed_def demo_signed)
  ultimately show ?thesis using dec by (auto simp: open_transfer_Inr)
qed

lemma demo_binding_opens:
  assumes "b = demo_binding \<or> b = demo_next"
  shows "binding_peek (demo_signature (ab_lease_public b) @ demo_binding_body b) = Inr b"
    and "binding_open demo_crates (demo_signature (ab_lease_public b) @ demo_binding_body b) (ab_lease_public b) = Inr b"
  using binding_issued_opens [OF demo_crates_laws(1) demo_bindings(1,2) [OF assms], of "demo_signature (ab_lease_public b)"]
    demo_bindings(3,4) [OF assms] by (simp_all add: demo_signed)

theorem chain_authorised_witness:
  "\<exists>e. verify_chain demo_crates (demo_signature (replicate 32 6) @ demo_binding_body demo_binding) [demo_transfer_bytes]
      (replicate 32 6) 3 = Inr e \<and> ef_binding e = demo_next \<and> ef_previous_keys e = [replicate 32 6] \<and>
     unat (ab_epoch (ef_binding e)) = 1"
proof -
  let ?first = "demo_signature (replicate 32 6) @ demo_binding_body demo_binding"
  have b: "binding_open demo_crates ?first (replicate 32 6) = Inr demo_binding"
    using demo_binding_opens(2) [of demo_binding] by (simp add: demo_binding_def)
  have n: "binding_peek (tf_binding demo_transfer) = Inr demo_next" "binding_open demo_crates (tf_binding demo_transfer) (ab_lease_public demo_next) = Inr demo_next"
    using demo_binding_opens [of demo_next] by (simp_all add: demo_transfer_def demo_next_def)
  have f: "ab_authority_id demo_binding = replicate 16 1" "ab_epoch demo_binding = 0" "ab_lease_public demo_binding = replicate 32 6"
    "ab_roster demo_binding = [replicate 32 8]" "ab_threshold demo_binding = 1" "ab_epoch demo_next = 1" "ab_authority_id demo_next = replicate 16 1"
    by (simp_all add: demo_binding_def demo_next_def)
  have x: "tf_authority_id demo_transfer = replicate 16 1" "tf_from_epoch demo_transfer = 0" "tf_to_epoch demo_transfer = 1"
    "tf_from_lease demo_transfer = replicate 32 6" "tf_expires_at demo_transfer = 9"
    by (simp_all add: demo_transfer_def)
  have "public_key_eq demo_crates (replicate 32 6) (replicate 32 6)" by (simp add: public_key_eq_def demo_crates_def)
  then obtain e where e': "transfer_chain_step demo_crates 3 demo_transfer_bytes \<lparr>ef_binding = demo_binding, ef_bytes = ?first,
      ef_transition_at = None, ef_old_leases = None, ef_previous_keys = []\<rparr> = Inr e"
    and e: "ef_binding e = demo_next" "ef_previous_keys e = [replicate 32 6]"
    by (simp add: transfer_chain_step_def demo_transfer_opens f x n Let_def)
  have e: "verify_chain demo_crates ?first [demo_transfer_bytes] (replicate 32 6) 3 = Inr e"
    "ef_binding e = demo_next" "ef_previous_keys e = [replicate 32 6]"
    unfolding verify_chain_def b using e by (simp_all add: e' [simplified])
  from chain_authorised [OF demo_crates_laws(1) e(1)] e show ?thesis by (auto simp: f)
qed

text \<open>A signer whose signatures are of the right length and verify under the key it names.\<close>

definition honest_signer :: "Crates \<Rightarrow> Signer \<Rightarrow> bool" where
  "honest_signer c signer \<longleftrightarrow> length (sg_public_key signer) = 32 \<and>
     (\<forall>t sig. sg_sign signer t = Inr sig \<longrightarrow> length sig = 64 \<and> sign_verify c (sg_public_key signer) t sig = Inr ())"

lemma sign_body_signed:
  assumes "honest_signer c signer" and "sign_body body signer = Inr (key, sig)"
  shows "key = sg_public_key signer" "length key = 32" "length sig = 64" "signed_by c CONTROL_REQUEST key body sig"
  using assms by (auto simp: sign_body_def honest_signer_def bindR_eq_Inr map_err_eq_Inr sign_verify_eq_Inr signed_by_def)

text \<open>
  C17.  Cosigning adds one signature and changes nothing else.  When an honest signer cosigns a
  request that is accepted, the new document is accepted too (as long as it stays within the size
  of a document), for the same request and the same digest of the body; the signer's key was not
  among the signers and now is, and no other key came or went.
\<close>

theorem cosign_adds_one:
  assumes "honest_signer c signer" and "cosign c bs signer = Inr bs'" and "length bs' \<le> 65536"
  shows "\<exists>q q'. open_request c bs = Inr q \<and> open_request c bs' = Inr q' \<and> sq_request q' = sq_request q \<and>
     sq_body_hash q' = sq_body_hash q \<and> sg_public_key signer \<notin> set (sq_signers q) \<and>
     set (sq_signers q') = insert (sg_public_key signer) (set (sq_signers q)) \<and> distinct (sq_signers q')"
proof -
  from assms(2) obtain sigs body q key sig where sp: "split_request bs = Inr (sigs, body)" and q: "open_request c bs = Inr q"
    and new: "sg_public_key signer \<notin> fst ` set sigs" and s: "sign_body body signer = Inr (key, sig)"
    and a: "assemble_signed body (sigs @ [(key, sig)]) = Inr bs'"
    by (force simp: cosign_def bindR_eq_Inr ensure_eq_Inr list_ex_iff)
  note k = sign_body_signed [OF assms(1) s]
  from q sp obtain r where r: "all_signed c CONTROL_REQUEST sigs body" "control_request_decode_body body = Inr r"
    "q = \<lparr>sq_request = r, sq_body_hash = sha256_digest c body, sq_signers = map fst sigs\<rparr>"
    by (auto simp: open_request_Inr)
  let ?all = "sort_key fst (sigs @ [(key, sig)])"
  have wf: "sigs_wf (sigs @ [(key, sig)])" using sp k(2,3) by (auto simp: split_request_Inr sigs_wf_def)
  have sp': "split_request bs' = Inr (?all, body)" by (rule assembled_splits [OF a wf assms(3)])
  have set: "set ?all = insert (key, sig) (set sigs)" by simp
  have "all_signed c CONTROL_REQUEST ?all body" using r(1) k(4) unfolding all_signed_def set by simp
  then have "open_request c bs' = Inr \<lparr>sq_request = r, sq_body_hash = sha256_digest c body, sq_signers = map fst ?all\<rparr>"
    using sp' r(2) by (auto simp: open_request_Inr simp del: sort_key_simps)
  moreover have "distinct (map fst ?all)" using sp' by (simp add: split_request_Inr strict_sorted_iff del: map_append)
  ultimately show ?thesis using q r(3) new k(1) by (simp del: sort_key_simps)
qed

definition demo_control_request :: ControlRequest where
  "demo_control_request = \<lparr>cq_tenant = [97], cq_authority_id = replicate 16 1, cq_epoch = 0, cq_operation_id = replicate 16 2,
     cq_expected_revision = 0, cq_issued_at = 0, cq_expires_at = 60, cq_payload = SetDurability Witnessed\<rparr>"

definition demo_signer :: "bytes \<Rightarrow> Signer" where
  "demo_signer key = \<lparr>sg_alg = Ed25519, sg_public_key = key, sg_sign = (\<lambda>t. Inr (demo_signature key))\<rparr>"

lemma demo_signer_honest: "length key = 32 \<Longrightarrow> honest_signer demo_crates (demo_signer key)"
  by (simp add: honest_signer_def demo_signer_def sign_verify_def demo_crates_def)

definition demo_control_request_body :: bytes where
  "demo_control_request_body = enc_fields (control_request_fields demo_control_request (enc_fields [(1, [2])]))"

lemma demo_request_decodes: "control_request_decode_body demo_control_request_body = Inr demo_control_request" and demo_request_short: "length demo_control_request_body \<le> 1000"
proof -
  have "payload_encode (SetDurability Witnessed) = Inr (enc_fields [(1, [2])])" by (simp add: payload_encode_def)
  then have "control_request_body demo_control_request = Inr demo_control_request_body"
    by (simp add: control_request_body_Inr demo_control_request_def demo_control_request_body_def control_tenant_eq check_tenant_Inr control_request_fields_def)
  moreover have "control_request_wf demo_control_request" by (simp add: control_request_wf_def demo_control_request_def)
  ultimately show "control_request_decode_body demo_control_request_body = Inr demo_control_request" by (rule control_request_own [rotated])
  show "length demo_control_request_body \<le> 1000" by (simp add: demo_control_request_body_def control_request_fields_def demo_control_request_def enc_field_def)
qed

theorem cosign_adds_one_witness:
  "\<exists>bs'. cosign demo_crates (frame_signed [(replicate 32 3, demo_signature (replicate 32 3))] demo_control_request_body) (demo_signer (replicate 32 4)) = Inr bs' \<and>
     (\<exists>q'. open_request demo_crates bs' = Inr q' \<and> sq_request q' = demo_control_request \<and>
        set (sq_signers q') = {replicate 32 3, replicate 32 4})"
proof -
  let ?sigs = "[(replicate 32 3, demo_signature (replicate 32 3))]" and ?signer = "demo_signer (replicate 32 4)"
  let ?bs = "frame_signed ?sigs demo_control_request_body"
  have sp: "split_request ?bs = Inr (?sigs, demo_control_request_body)"
    using demo_request_short by (simp add: split_request_Inr sigs_wf_def frame_signed_def)
  have opened: "open_request demo_crates ?bs = Inr \<lparr>sq_request = demo_control_request, sq_body_hash = sha256_digest demo_crates demo_control_request_body, sq_signers = [replicate 32 3]\<rparr>"
    using sp demo_request_decodes by (auto simp: open_request_Inr all_signed_def demo_signed)
  let ?new = "(replicate 32 4, demo_signature (replicate 32 4))"
  obtain bs' where a: "assemble_signed demo_control_request_body (?sigs @ [?new]) = Inr bs'"
    by (simp add: assemble_signed_Inr replicate_eq_replicate)
  have "sign_body demo_control_request_body ?signer = Inr ?new" by (simp add: sign_body_def demo_signer_def)
  then have co: "cosign demo_crates ?bs ?signer = Inr bs'"
    using a by (simp add: cosign_def sp opened [unfolded append_assoc] demo_signer_def opened replicate_eq_replicate)
  have len: "length bs' \<le> 65536" using a demo_request_short by (auto simp: assemble_signed_Inr frame_signed_def)
  have "length (replicate 32 4 :: bytes) = 32" by simp
  from cosign_adds_one [OF demo_signer_honest [OF this] co len] opened co show ?thesis
    by (auto simp: demo_signer_def)
qed

lemma enc_urls_inj:
  assumes "enc_urls us = enc_urls vs" and "\<forall>u \<in> set us. length u < 65536" and "\<forall>u \<in> set vs. length u < 65536"
  shows "us = vs"
  using assms
proof (induction us arbitrary: vs)
  case (Cons u us)
  have "enc_urls (u # us) \<noteq> []" by (simp, metis length_le_bytes list.size(3) zero_neq_numeral)
  with Cons.prems(1) obtain v vs' where vs: "vs = v # vs'" by (cases vs) auto
  have eq: "le_bytes 2 (length u) @ u @ enc_urls us = le_bytes 2 (length v) @ v @ enc_urls vs'" using Cons.prems(1) by (simp add: vs)
  then have "le_bytes 2 (length u) = le_bytes 2 (length v)" and rest: "u @ enc_urls us = v @ enc_urls vs'" by (simp_all add: append_eq_append_conv)
  from arg_cong [OF this(1), of le_nat] have "length u = length v" using Cons.prems(2,3) by (simp add: vs le_nat_le_bytes)
  with rest have "u = v" "enc_urls us = enc_urls vs'" by simp_all
  with Cons show ?case by (simp add: vs)
next
  case Nil
  then show ?case by (cases vs) (simp_all, metis length_le_bytes list.size(3) zero_neq_numeral)
qed

lemma carries_own:
  assumes "carries known fs body" and "body = enc_fields gs" and "ascending None gs" and "\<forall>tv \<in> set gs. fst tv \<in> set known"
  shows "gs = fs"
proof -
  obtain hs where hs: "body = enc_fields hs" "ascending None hs" "filter (\<lambda>tv. fst tv \<in> set known) hs = fs"
    using assms(1) by (auto simp: carries_def)
  then have "gs = hs" using assms(2,3) by (intro enc_fields_determine) simp_all
  with hs(3) assms(4) show ?thesis by (simp add: filter_id_conv)
qed

text \<open>
  C39.  An address written twice makes a binding that can be signed and that nobody can read: the
  encoder does not look for repeated addresses and the decoder refuses them.
\<close>

theorem repeated_url_unreadable:
  assumes "binding_body b = Inr body" and "\<not> distinct (ab_urls b)" and "length sig = 64"
  shows "\<exists>err. binding_peek (sig @ body) = Inl err"
proof (rule ccontr)
  assume "\<nexists>err. binding_peek (sig @ body) = Inl err"
  then obtain b' where b': "binding_peek (sig @ body) = Inr b'" by (cases "binding_peek (sig @ body)") auto
  from assms(1) obtain urls pins roster where b: "encode_urls (ab_urls b) BT_URLS = Inr urls"
    "ascending None (authority_binding_fields b urls pins roster)" "body = enc_fields (authority_binding_fields b urls pins roster)"
    by (auto simp: binding_body_Inr write_fields_eq_Inr)
  from binding_peek_says [OF b'] assms(3) obtain urls' pins' roster' where d: "distinct (ab_urls b')" "encode_urls (ab_urls b') BT_URLS = Inr urls'"
    "carries (map fst (authority_binding_fields b' urls' pins' roster')) (authority_binding_fields b' urls' pins' roster') body"
    by (auto simp: says_binding_def)
  have "authority_binding_fields b urls pins roster = authority_binding_fields b' urls' pins' roster'"
    by (rule carries_own [OF d(3) b(3,2)]) (simp add: authority_binding_fields_def)
  then have "urls = urls'" by (simp add: authority_binding_fields_def)
  then have "ab_urls b = ab_urls b'" using b(1) d(2) by (intro enc_urls_inj) (auto simp: encode_urls_Inr check_url_Inr)
  with d(1) assms(2) show False by simp
qed

definition demo_twice :: AuthorityBinding where
  "demo_twice = demo_binding\<lparr>ab_urls := [[120], [120]]\<rparr>"

theorem repeated_url_unreadable_witness:
  "\<exists>bs err. binding_sign demo_twice (demo_signer (replicate 32 6)) = Inr bs \<and> binding_peek bs = Inl err"
proof -
  let ?fs = "authority_binding_fields demo_twice (enc_urls (ab_urls demo_twice)) (concat (ab_pins demo_twice)) (concat (ab_roster demo_twice))"
  have "binding_check demo_twice = Inr ()"
    by (simp add: binding_check_def control_tenant_eq [THEN iffD2] check_tenant_Inr demo_binding_def demo_twice_def MAX_PINS_def)
  moreover have "ascending None ?fs" by (simp add: authority_binding_fields_def demo_binding_def demo_twice_def)
  ultimately have body: "binding_body demo_twice = Inr (enc_fields ?fs)"
    by (auto simp: binding_body_Inr encode_urls_Inr encode_keys_Inr check_url_Inr demo_binding_def demo_twice_def MAX_PINS_def MAX_ROSTER_def)
  then have "binding_sign demo_twice (demo_signer (replicate 32 6)) = Inr (demo_signature (replicate 32 6) @ enc_fields ?fs)"
    by (simp add: binding_sign_def demo_signer_def) (simp add: demo_twice_def demo_binding_def)
  moreover have "\<not> distinct (ab_urls demo_twice)" "length (demo_signature (replicate 32 6)) = 64" by (simp_all add: demo_twice_def)
  from repeated_url_unreadable [OF body this] obtain err where "binding_peek (demo_signature (replicate 32 6) @ enc_fields ?fs) = Inl err" ..
  ultimately show ?thesis by blast
qed

text \<open>The encoding of a payload followed by one more field.\<close>

lemma payload_extended:
  assumes "payload_encode p = Inr canonical" and "CRIT_TAG_MAX < t" and "length v < 4294967296"
  obtains one second where "payload_fields p one second" "ascending None ((1, one) # opt_field 2 second @ [(t, v)])"
    "canonical = enc_fields ((1, one) # opt_field 2 second)"
    "canonical @ enc_field (t, v) = enc_fields ((1, one) # opt_field 2 second @ [(t, v)])"
proof -
  from assms(1) obtain one second where f: "payload_fields p one second" "ascending None ((1, one) # opt_field 2 second)"
    "canonical = enc_fields ((1, one) # opt_field 2 second)"
    by (auto simp: payload_encode_Inr write_fields_eq_Inr)
  have "1 < t" "2 < t" using assms(2) by (simp_all add: CRIT_TAG_MAX_def word_less_nat_alt)
  then have "ascending None ((1, one) # opt_field 2 second @ [(t, v)])" using f(2) assms(3) by (cases second) auto
  with that f show ?thesis by simp
qed

lemma payload_extended_decodes:
  assumes "payload_wf p" and "payload_encode p = Inr canonical" and "CRIT_TAG_MAX < t" and "length v < 4294967296"
  shows "payload_decode (payload_kind p) (canonical @ enc_field (t, v)) = Inr p"
proof -
  obtain one second where f: "payload_fields p one second" "ascending None ((1, one) # opt_field 2 second @ [(t, v)])"
    "canonical = enc_fields ((1, one) # opt_field 2 second)"
    "canonical @ enc_field (t, v) = enc_fields ((1, one) # opt_field 2 second @ [(t, v)])"
    by (rule payload_extended [OF assms(2-4)])
  let ?fs = "(1, one) # opt_field 2 second @ [(t, v)]"
  let ?spans = "map span_of (filter (\<lambda>f. CRIT_TAG_MAX < fld_tag f) (fields_at 0 ?fs))"
  have t: "t \<noteq> 1" "t \<noteq> 2" "\<not> CRIT_TAG_MAX < 1" "\<not> CRIT_TAG_MAX < 2" using assms(3) by (auto simp: CRIT_TAG_MAX_def)
  have "tlv_loop payload_step (reader_new (enc_fields ?fs)) payload_start =
      Inr \<lparr>py_skipped = \<lparr>sk_spans = ?spans\<rparr>, py_first = Some one, py_second = second\<rparr>"
    unfolding tlv_loop_own [OF f(2)] using assms(3) t
    by (cases second)
      (simp_all add: payload_step_def payload_start_def skipped_default_def skipped_see_def refuse_if_critical_optional
        span_of_def FIELD_PREFIX_LEN_def)
  moreover have "skipped_strip \<lparr>sk_spans = ?spans\<rparr> (enc_fields ?fs) = canonical"
    unfolding strip_fields f(3) using assms(3) t by (cases second) simp_all
  ultimately show ?thesis
    using payload_of_fields [OF assms(1) f(1)] assms(2) by (simp add: payload_decode_def f(4))
qed

lemma payload_extended_not_canonical:
  assumes "payload_encode p = Inr canonical" and "CRIT_TAG_MAX < t" and "length v < 4294967296"
  shows "payload_encode q \<noteq> Inr (canonical @ enc_field (t, v))"
proof
  assume q: "payload_encode q = Inr (canonical @ enc_field (t, v))"
  obtain one second where f: "ascending None ((1, one) # opt_field 2 second @ [(t, v)])"
    "canonical @ enc_field (t, v) = enc_fields ((1, one) # opt_field 2 second @ [(t, v)])"
    by (rule payload_extended [OF assms])
  from q obtain one' second' where e: "ascending None ((1, one') # opt_field 2 second')"
    "canonical @ enc_field (t, v) = enc_fields ((1, one') # opt_field 2 second')"
    by (auto simp: payload_encode_Inr write_fields_eq_Inr)
  have "(1, one) # opt_field 2 second @ [(t, v)] = (1, one') # opt_field 2 second'"
    by (rule enc_fields_determine) (use e f in simp_all)
  then have "(t, v) \<in> set ((1, one') # opt_field 2 second')" by (metis append_Cons in_set_conv_decomp)
  then show False using assms(2) by (cases second') (auto simp: CRIT_TAG_MAX_def)
qed

text \<open>
  C40.  An unknown optional field at the end of a request's payload makes the request unreadable,
  although the payload's own decoder skips it.  For every well-formed payload that can be written,
  its encoding followed by any field of the optional range is decoded to that payload, and every
  request body that carries those bytes as its payload is refused: the comparison of the whole
  request with its canonical encoding writes the payload anew, without the field.
\<close>

theorem payload_extras_refused:
  assumes "payload_wf p" and "payload_encode p = Inr canonical" and "CRIT_TAG_MAX < t" and "length v < 4294967296"
  shows "payload_decode (payload_kind p) (canonical @ enc_field (t, v)) = Inr p \<and>
     (\<forall>fs. ascending None fs \<longrightarrow> map_of fs CR_PAYLOAD = Some (canonical @ enc_field (t, v)) \<longrightarrow>
        (\<exists>err. control_request_decode_body (enc_fields fs) = Inl err))"
proof (intro conjI allI impI)
  show "payload_decode (payload_kind p) (canonical @ enc_field (t, v)) = Inr p"
    by (rule payload_extended_decodes [OF assms])
  fix fs assume asc: "ascending None fs" and pay: "map_of fs CR_PAYLOAD = Some (canonical @ enc_field (t, v))"
  show "\<exists>err. control_request_decode_body (enc_fields fs) = Inl err"
  proof (rule ccontr)
    assume "\<nexists>err. control_request_decode_body (enc_fields fs) = Inl err"
    then obtain r where "control_request_decode_body (enc_fields fs) = Inr r" by (cases "control_request_decode_body (enc_fields fs)") auto
    from request_decode_says [OF this] obtain own hs where p: "payload_encode (cq_payload r) = Inr own"
      and hs: "enc_fields fs = enc_fields hs" "ascending None hs"
        "filter (\<lambda>tv. fst tv \<in> set (map fst (control_request_fields r own))) hs = control_request_fields r own"
      unfolding says_request_def carries_def by blast
    have "(CR_PAYLOAD, own) \<in> set (control_request_fields r own)" by (simp add: control_request_fields_def)
    moreover have "set (control_request_fields r own) \<subseteq> set hs" using hs(3) by (metis filter_is_subset)
    moreover have "fs = hs" using hs(1,2) asc by (intro enc_fields_determine)
    ultimately have "map_of fs CR_PAYLOAD = Some own" using ascending_map_of [OF asc] by blast
    with pay p payload_extended_not_canonical [OF assms(2-4)] show False by simp
  qed
qed

theorem payload_extras_refused_witness:
  "let extended = enc_fields [(1, [2])] @ enc_field (0x8000, []) in
   payload_decode 2 extended = Inr (SetDurability Witnessed) \<and>
   (\<exists>err. control_request_decode_body (enc_fields (control_request_fields demo_control_request extended)) = Inl err)"
proof -
  let ?extended = "enc_fields [(1, [2])] @ enc_field (0x8000, [])"
  have enc: "payload_encode (SetDurability Witnessed) = Inr (enc_fields [(1, [2])])" by (simp add: payload_encode_def)
  have "ascending None (control_request_fields demo_control_request ?extended)"
    "map_of (control_request_fields demo_control_request ?extended) CR_PAYLOAD = Some ?extended"
    by (simp_all add: control_request_fields_def demo_control_request_def enc_field_def)
  with payload_extras_refused [of "SetDurability Witnessed", OF _ enc, where t = "0x8000" and v = "[]"] show ?thesis
    by (simp add: CRIT_TAG_MAX_def Let_def)
qed

end
