(* ===== verification/OC_Replica.thy ===== *)
theory OC_Replica
  imports OC_Witness OC_Rsa
begin

text \<open>
  Replication of a server's state (\<^verbatim>\<open>oc-protocol/src/replica.rs\<close>): the pushes of a leading server, each a
  whole state with its digest, and the acknowledgements of a replica.  Both are TLV bodies behind a
  signature; what is accepted is characterised exactly.
\<close>

section \<open>Pushes\<close>

definition REPLICA_VERSION :: byte where "REPLICA_VERSION = 1"
definition MAX_STATE :: nat where "MAX_STATE = 2 * 1024 * 1024"

abbreviation (input) PU_VERSION :: u16 where "PU_VERSION \<equiv> 1"
abbreviation (input) PU_AUTHORITY_ID :: u16 where "PU_AUTHORITY_ID \<equiv> 2"
abbreviation (input) PU_EPOCH :: u16 where "PU_EPOCH \<equiv> 3"
abbreviation (input) PU_SEQ :: u16 where "PU_SEQ \<equiv> 4"
abbreviation (input) PU_PREVIOUS :: u16 where "PU_PREVIOUS \<equiv> 5"
abbreviation (input) PU_STATE_HASH :: u16 where "PU_STATE_HASH \<equiv> 6"
abbreviation (input) PU_SNAPSHOT :: u16 where "PU_SNAPSHOT \<equiv> 7"
abbreviation (input) PU_AT :: u16 where "PU_AT \<equiv> 8"
abbreviation (input) PU_STATE :: u16 where "PU_STATE \<equiv> 9"

record Push =
  pu_authority_id :: bytes
  pu_epoch :: u64
  pu_seq :: u64
  pu_previous :: bytes
  pu_state_hash :: bytes
  pu_snapshot :: bool
  pu_at :: i64
  pu_state :: bytes

definition push_fields :: "Push \<Rightarrow> (u16 \<times> bytes) list" where
  "push_fields p =
     [(PU_VERSION, [REPLICA_VERSION]), (PU_AUTHORITY_ID, pu_authority_id p), (PU_EPOCH, le64 (pu_epoch p)),
      (PU_SEQ, le64 (pu_seq p)), (PU_PREVIOUS, pu_previous p), (PU_STATE_HASH, pu_state_hash p),
      (PU_SNAPSHOT, [bool_byte (pu_snapshot p)]), (PU_AT, le64 (pu_at p)), (PU_STATE, pu_state p)]"

definition push_body :: "Crates \<Rightarrow> Push \<Rightarrow> FormatError + bytes" where
  "push_body c p =
     bindR (ensure (\<not> length (pu_state p) > MAX_STATE) (BadFieldLength PU_STATE (length (pu_state p)))) (\<lambda>_.
     bindR (ensure (digest_eq_ct c (sha256_digest c (pu_state p)) (pu_state_hash p))
       (BadFieldLength PU_STATE_HASH (length (pu_state p)))) (\<lambda>_.
     write_fields (push_fields p)))"

definition push_sign :: "Crates \<Rightarrow> Push \<Rightarrow> Signer \<Rightarrow> FormatError + bytes" where
  "push_sign c p signer =
     bindR (push_body c p) (\<lambda>body.
     bindR (map_err BadHeaderSignature (sg_sign signer (body_transcript REPLICA_PUSH body))) (\<lambda>sig.
     Inr (sig @ body)))"

definition snapshot_value :: "u16 \<Rightarrow> bytes \<Rightarrow> FormatError + bool" where
  "snapshot_value tag value = bindR (one_byte tag value) (flag_byte tag)"

record PushDecoder =
  pq_version :: "byte option"
  pq_id :: "bytes option"
  pq_epoch :: "u64 option"
  pq_seq :: "u64 option"
  pq_previous :: "bytes option"
  pq_hash :: "bytes option"
  pq_snapshot :: "bool option"
  pq_at :: "i64 option"
  pq_state :: "bytes option"

definition push_decode_start :: PushDecoder where
  "push_decode_start = \<lparr>pq_version = None, pq_id = None, pq_epoch = None, pq_seq = None, pq_previous = None, pq_hash = None, pq_snapshot = None, pq_at = None, pq_state = None\<rparr>"

definition push_step :: "u16 \<Rightarrow> bytes \<Rightarrow> PushDecoder \<Rightarrow> FormatError + PushDecoder" where
  "push_step tag value d =
     (if tag = PU_VERSION then bindR (one_byte tag value) (\<lambda>x. Inr (d\<lparr>pq_version := Some x\<rparr>))
      else if tag = PU_AUTHORITY_ID then bindR (exact_len 16 tag value) (\<lambda>x. Inr (d\<lparr>pq_id := Some x\<rparr>))
      else if tag = PU_EPOCH then bindR (u64_le tag value) (\<lambda>x. Inr (d\<lparr>pq_epoch := Some x\<rparr>))
      else if tag = PU_SEQ then bindR (u64_le tag value) (\<lambda>x. Inr (d\<lparr>pq_seq := Some x\<rparr>))
      else if tag = PU_PREVIOUS then bindR (exact_len 32 tag value) (\<lambda>x. Inr (d\<lparr>pq_previous := Some x\<rparr>))
      else if tag = PU_STATE_HASH then bindR (exact_len 32 tag value) (\<lambda>x. Inr (d\<lparr>pq_hash := Some x\<rparr>))
      else if tag = PU_SNAPSHOT then bindR (snapshot_value tag value) (\<lambda>x. Inr (d\<lparr>pq_snapshot := Some x\<rparr>))
      else if tag = PU_AT then bindR (u64_le tag value) (\<lambda>x. Inr (d\<lparr>pq_at := Some x\<rparr>))
      else if tag = PU_STATE then bindR (bindR (ensure (\<not> length value > MAX_STATE) (BadFieldLength tag (length value))) (\<lambda>_. Inr value)) (\<lambda>x. Inr (d\<lparr>pq_state := Some x\<rparr>))
      else bindR (refuse_if_critical tag) (\<lambda>_. Inr d))"

definition push_finish :: "Crates \<Rightarrow> PushDecoder \<Rightarrow> FormatError + Push" where
  "push_finish c d =
     bindR (ensure (\<not> pq_version d \<noteq> Some REPLICA_VERSION) (BadFieldLength PU_VERSION 1)) (\<lambda>_.
     bindR (ok_or (MissingField PU_AUTHORITY_ID) (pq_id d)) (\<lambda>id.
     bindR (ok_or (MissingField PU_EPOCH) (pq_epoch d)) (\<lambda>epoch.
     bindR (ok_or (MissingField PU_SEQ) (pq_seq d)) (\<lambda>seq.
     bindR (ok_or (MissingField PU_PREVIOUS) (pq_previous d)) (\<lambda>previous.
     bindR (ok_or (MissingField PU_STATE_HASH) (pq_hash d)) (\<lambda>hash.
     bindR (ok_or (MissingField PU_SNAPSHOT) (pq_snapshot d)) (\<lambda>snapshot.
     bindR (ok_or (MissingField PU_AT) (pq_at d)) (\<lambda>at.
     bindR (ok_or (MissingField PU_STATE) (pq_state d)) (\<lambda>state.
     let p = \<lparr>pu_authority_id = id, pu_epoch = epoch, pu_seq = seq, pu_previous = previous, pu_state_hash = hash,
              pu_snapshot = snapshot, pu_at = at, pu_state = state\<rparr> in
     bindR (ensure (digest_eq_ct c (sha256_digest c (pu_state p)) (pu_state_hash p))
       (BadFieldLength PU_STATE_HASH (length (pu_state p)))) (\<lambda>_.
     Inr p))))))))))"

text \<open>The envelope of both documents: a short input is a bad length, not a bad signature.\<close>

definition replica_split :: "Crates \<Rightarrow> Label \<Rightarrow> bytes \<Rightarrow> bytes \<Rightarrow> FormatError + bytes" where
  "replica_split c label bs key =
     bindR (ok_or (BadFieldLength 0 (length bs)) (split_at_checked bs SIGNATURE_LEN)) (\<lambda>(sig, body).
     bindR (map_err BadHeaderSignature (sign_verify c key (body_transcript label body) sig)) (\<lambda>_.
     Inr body))"

definition push_open :: "Crates \<Rightarrow> bytes \<Rightarrow> bytes \<Rightarrow> FormatError + Push" where
  "push_open c bs authority =
     bindR (replica_split c REPLICA_PUSH bs authority) (\<lambda>body.
     bindR (tlv_values push_step body push_decode_start) (push_finish c))"

section \<open>Acknowledgements\<close>

abbreviation (input) AC_VERSION :: u16 where "AC_VERSION \<equiv> 1"
abbreviation (input) AC_AUTHORITY_ID :: u16 where "AC_AUTHORITY_ID \<equiv> 2"
abbreviation (input) AC_EPOCH :: u16 where "AC_EPOCH \<equiv> 3"
abbreviation (input) AC_SEQ :: u16 where "AC_SEQ \<equiv> 4"
abbreviation (input) AC_STATE_HASH :: u16 where "AC_STATE_HASH \<equiv> 5"
abbreviation (input) AC_REPLICA :: u16 where "AC_REPLICA \<equiv> 6"
abbreviation (input) AC_AT :: u16 where "AC_AT \<equiv> 7"

record Ack =
  ac_authority_id :: bytes
  ac_epoch :: u64
  ac_seq :: u64
  ac_state_hash :: bytes
  ac_replica :: bytes
  ac_at :: i64

definition ack_fields :: "Ack \<Rightarrow> (u16 \<times> bytes) list" where
  "ack_fields a =
     [(AC_VERSION, [REPLICA_VERSION]), (AC_AUTHORITY_ID, ac_authority_id a), (AC_EPOCH, le64 (ac_epoch a)),
      (AC_SEQ, le64 (ac_seq a)), (AC_STATE_HASH, ac_state_hash a), (AC_REPLICA, ac_replica a), (AC_AT, le64 (ac_at a))]"

definition ack_body :: "Ack \<Rightarrow> FormatError + bytes" where
  "ack_body a = write_fields (ack_fields a)"

definition ack_sign :: "Ack \<Rightarrow> Signer \<Rightarrow> FormatError + bytes" where
  "ack_sign a signer =
     bindR (ensure (\<not> sg_public_key signer \<noteq> ac_replica a) (BadFieldLength AC_REPLICA PUBLIC_KEY_LEN)) (\<lambda>_.
     bindR (ack_body a) (\<lambda>body.
     bindR (map_err BadHeaderSignature (sg_sign signer (body_transcript REPLICA_ACK body))) (\<lambda>sig.
     Inr (sig @ body))))"

record AckDecoder =
  aq_version :: "byte option"
  aq_id :: "bytes option"
  aq_epoch :: "u64 option"
  aq_seq :: "u64 option"
  aq_hash :: "bytes option"
  aq_who :: "bytes option"
  aq_at :: "i64 option"

definition ack_decode_start :: AckDecoder where
  "ack_decode_start = \<lparr>aq_version = None, aq_id = None, aq_epoch = None, aq_seq = None, aq_hash = None, aq_who = None, aq_at = None\<rparr>"

definition ack_step :: "u16 \<Rightarrow> bytes \<Rightarrow> AckDecoder \<Rightarrow> FormatError + AckDecoder" where
  "ack_step tag value d =
     (if tag = AC_VERSION then bindR (one_byte tag value) (\<lambda>x. Inr (d\<lparr>aq_version := Some x\<rparr>))
      else if tag = AC_AUTHORITY_ID then bindR (exact_len 16 tag value) (\<lambda>x. Inr (d\<lparr>aq_id := Some x\<rparr>))
      else if tag = AC_EPOCH then bindR (u64_le tag value) (\<lambda>x. Inr (d\<lparr>aq_epoch := Some x\<rparr>))
      else if tag = AC_SEQ then bindR (u64_le tag value) (\<lambda>x. Inr (d\<lparr>aq_seq := Some x\<rparr>))
      else if tag = AC_STATE_HASH then bindR (exact_len 32 tag value) (\<lambda>x. Inr (d\<lparr>aq_hash := Some x\<rparr>))
      else if tag = AC_REPLICA then bindR (exact_len 32 tag value) (\<lambda>x. Inr (d\<lparr>aq_who := Some x\<rparr>))
      else if tag = AC_AT then bindR (u64_le tag value) (\<lambda>x. Inr (d\<lparr>aq_at := Some x\<rparr>))
      else bindR (refuse_if_critical tag) (\<lambda>_. Inr d))"

definition ack_finish :: "Crates \<Rightarrow> bytes \<Rightarrow> AckDecoder \<Rightarrow> FormatError + Ack" where
  "ack_finish c replica d =
     bindR (ensure (\<not> aq_version d \<noteq> Some REPLICA_VERSION) (BadFieldLength AC_VERSION 1)) (\<lambda>_.
     bindR (ok_or (MissingField AC_AUTHORITY_ID) (aq_id d)) (\<lambda>id.
     bindR (ok_or (MissingField AC_EPOCH) (aq_epoch d)) (\<lambda>epoch.
     bindR (ok_or (MissingField AC_SEQ) (aq_seq d)) (\<lambda>seq.
     bindR (ok_or (MissingField AC_STATE_HASH) (aq_hash d)) (\<lambda>hash.
     bindR (ok_or (MissingField AC_REPLICA) (aq_who d)) (\<lambda>who.
     bindR (ok_or (MissingField AC_AT) (aq_at d)) (\<lambda>at.
     let a = \<lparr>ac_authority_id = id, ac_epoch = epoch, ac_seq = seq, ac_state_hash = hash, ac_replica = who, ac_at = at\<rparr> in
     bindR (ensure (public_key_eq c (ac_replica a) replica) (BadFieldLength AC_REPLICA PUBLIC_KEY_LEN)) (\<lambda>_.
     Inr a))))))))"

definition ack_open :: "Crates \<Rightarrow> bytes \<Rightarrow> bytes \<Rightarrow> FormatError + Ack" where
  "ack_open c bs replica =
     bindR (replica_split c REPLICA_ACK bs replica) (\<lambda>body.
     bindR (tlv_values ack_step body ack_decode_start) (ack_finish c replica))"

section \<open>Refusals\<close>

datatype Refusal = SnapshotRequired | HistoryConflict | OtherScope

fun refusal_u8 :: "Refusal \<Rightarrow> byte" where
  "refusal_u8 SnapshotRequired = 1"
| "refusal_u8 HistoryConflict = 2"
| "refusal_u8 OtherScope = 3"

definition refusal_from_u8 :: "byte \<Rightarrow> Refusal option" where
  "refusal_from_u8 v =
     (if v = 1 then Some SnapshotRequired else if v = 2 then Some HistoryConflict else if v = 3 then Some OtherScope else None)"

section \<open>What is accepted\<close>

lemma refusal_code: "refusal_from_u8 v = Some r \<longleftrightarrow> v = refusal_u8 r"
  by (cases r) (auto simp: refusal_from_u8_def)

lemma snapshot_value_Inr: "snapshot_value t v = Inr y \<longleftrightarrow> v = [bool_byte y]"
  by (auto simp: snapshot_value_def bindR_eq_Inr value_parsers_Inr)

lemma replica_split_Inr:
  "replica_split c label bs key = Inr body \<longleftrightarrow> (\<exists>sig. bs = sig @ body \<and> length sig = 64 \<and> signed_by c label key body sig)"
  by (auto simp: replica_split_def bindR_eq_Inr ok_or_eq_Inr split_at_parts map_err_eq_Inr sign_verify_eq_Inr signed_by_def SIGNATURE_LEN_def)

definition push_tags :: "u16 list" where
  "push_tags = [PU_VERSION, PU_AUTHORITY_ID, PU_EPOCH, PU_SEQ, PU_PREVIOUS, PU_STATE_HASH, PU_SNAPSHOT, PU_AT, PU_STATE]"

definition push_get :: "u16 \<Rightarrow> PushDecoder \<Rightarrow> bytes option" where
  "push_get tag d =
     (if tag = PU_VERSION then map_option (\<lambda>b. [b]) (pq_version d)
      else if tag = PU_AUTHORITY_ID then pq_id d
      else if tag = PU_EPOCH then map_option (\<lambda>w. le64 w) (pq_epoch d)
      else if tag = PU_SEQ then map_option (\<lambda>w. le64 w) (pq_seq d)
      else if tag = PU_PREVIOUS then pq_previous d
      else if tag = PU_STATE_HASH then pq_hash d
      else if tag = PU_SNAPSHOT then map_option (\<lambda>b. [bool_byte b]) (pq_snapshot d)
      else if tag = PU_AT then map_option (\<lambda>w. le64 w) (pq_at d)
      else if tag = PU_STATE then pq_state d
      else None)"

lemma push_get_upd:
  "push_get u (d\<lparr>pq_version := pqversion\<rparr>) = (if u = PU_VERSION then map_option (\<lambda>b. [b]) pqversion else push_get u d)"
  "push_get u (d\<lparr>pq_id := pqid\<rparr>) = (if u = PU_AUTHORITY_ID then pqid else push_get u d)"
  "push_get u (d\<lparr>pq_epoch := pqepoch\<rparr>) = (if u = PU_EPOCH then map_option (\<lambda>w. le64 w) pqepoch else push_get u d)"
  "push_get u (d\<lparr>pq_seq := pqseq\<rparr>) = (if u = PU_SEQ then map_option (\<lambda>w. le64 w) pqseq else push_get u d)"
  "push_get u (d\<lparr>pq_previous := pqprevious\<rparr>) = (if u = PU_PREVIOUS then pqprevious else push_get u d)"
  "push_get u (d\<lparr>pq_hash := pqhash\<rparr>) = (if u = PU_STATE_HASH then pqhash else push_get u d)"
  "push_get u (d\<lparr>pq_snapshot := pqsnapshot\<rparr>) = (if u = PU_SNAPSHOT then map_option (\<lambda>b. [bool_byte b]) pqsnapshot else push_get u d)"
  "push_get u (d\<lparr>pq_at := pqat\<rparr>) = (if u = PU_AT then map_option (\<lambda>w. le64 w) pqat else push_get u d)"
  "push_get u (d\<lparr>pq_state := pqstate\<rparr>) = (if u = PU_STATE then pqstate else push_get u d)"
  by (simp_all add: push_get_def)

interpretation push_reader: field_decoder push_step push_decode_start push_tags "[]" push_get
proof
  fix t v s s' u
  assume step: "push_step t v s = Inr s'"
  show "push_get u s' = (if u = t \<and> t \<in> set push_tags then Some v else push_get u s)"
    using step by (auto simp: push_step_def push_tags_def push_get_upd bindR_eq_Inr ensure_eq_Inr value_parsers_Inr snapshot_value_Inr split: if_splits)
  show "t \<in> set push_tags \<or> t \<in> set [] \<or> CRIT_TAG_MAX < t"
    using step by (auto simp: push_step_def push_tags_def bindR_eq_Inr refuse_if_critical_Inr split: if_splits)
qed (simp_all add: push_tags_def push_decode_start_def push_get_def push_step_def refuse_if_critical_optional)

definition push_state :: "Push \<Rightarrow> PushDecoder" where
  "push_state p =
     \<lparr>pq_version = Some REPLICA_VERSION, pq_id = Some (pu_authority_id p), pq_epoch = Some (pu_epoch p), pq_seq = Some (pu_seq p),
      pq_previous = Some (pu_previous p), pq_hash = Some (pu_state_hash p), pq_snapshot = Some (pu_snapshot p),
      pq_at = Some (pu_at p), pq_state = Some (pu_state p)\<rparr>"

definition push_wf :: "Push \<Rightarrow> bool" where
  "push_wf p \<longleftrightarrow> length (pu_authority_id p) = 16 \<and> length (pu_previous p) = 32 \<and> length (pu_state_hash p) = 32"

lemma push_finish_Inr:
  "push_finish c d = Inr p \<longleftrightarrow> d = push_state p \<and> ct_eq c (sha256_digest c (pu_state p)) (pu_state_hash p)"
  by (cases d, cases p) (auto simp: push_finish_def push_state_def bindR_eq_Inr ok_or_eq_Inr ensure_eq_Inr digest_eq_ct_def Let_def)

lemma push_values_Inr:
  "tlv_values push_step body push_decode_start = Inr (push_state p) \<longleftrightarrow>
     (push_wf p \<and> length (pu_state p) \<le> 2097152) \<and> carries push_tags (push_fields p) body"
  by (rule push_reader.accepts_exactly)
    (simp_all add: push_tags_def push_get_def push_state_def push_fields_def push_step_def push_decode_start_def bindR_eq_Inr
      exact_len_def push_wf_def MAX_STATE_def ensure_eq_Inr not_less snapshot_value_Inr [THEN iffD2], blast?)

lemma push_open_Inr:
  assumes "ct_eq_sound c" and "digests_32 c"
  shows "push_open c bs key = Inr p \<longleftrightarrow>
     (\<exists>sig body. bs = sig @ body \<and> length sig = 64 \<and> signed_by c REPLICA_PUSH key body sig \<and>
        carries push_tags (push_fields p) body) \<and>
     push_wf p \<and> length (pu_state p) \<le> 2097152 \<and> pu_state_hash p = sha256_digest c (pu_state p)"
proof -
  have eq: "push_wf p \<Longrightarrow> ct_eq c (sha256_digest c (pu_state p)) (pu_state_hash p) \<longleftrightarrow> pu_state_hash p = sha256_digest c (pu_state p)"
    using assms by (auto simp: ct_eq_sound_def digests_32_def push_wf_def)
  show ?thesis
    unfolding push_open_def bindR_eq_Inr replica_split_Inr push_finish_Inr
    using push_values_Inr [of _ p] eq by blast
qed

lemma push_body_Inr:
  assumes "ct_eq_sound c" and "digests_32 c" and "push_wf p"
  shows "push_body c p = Inr body \<longleftrightarrow>
     length (pu_state p) \<le> 2097152 \<and> pu_state_hash p = sha256_digest c (pu_state p) \<and> body = enc_fields (push_fields p)"
proof -
  have "ascending None (push_fields p)" if "length (pu_state p) \<le> 2097152"
    using that assms(3) by (simp add: push_fields_def push_wf_def)
  moreover have "ct_eq c (sha256_digest c (pu_state p)) (pu_state_hash p) \<longleftrightarrow> pu_state_hash p = sha256_digest c (pu_state p)"
    using assms by (auto simp: ct_eq_sound_def digests_32_def push_wf_def)
  ultimately show ?thesis
    by (auto simp: push_body_def bind_unit_eq_Inr ensure_eq_Inr digest_eq_ct_def MAX_STATE_def write_fields_eq_Inr not_less)
qed

definition ack_tags :: "u16 list" where
  "ack_tags = [AC_VERSION, AC_AUTHORITY_ID, AC_EPOCH, AC_SEQ, AC_STATE_HASH, AC_REPLICA, AC_AT]"

definition ack_get :: "u16 \<Rightarrow> AckDecoder \<Rightarrow> bytes option" where
  "ack_get tag d =
     (if tag = AC_VERSION then map_option (\<lambda>b. [b]) (aq_version d)
      else if tag = AC_AUTHORITY_ID then aq_id d
      else if tag = AC_EPOCH then map_option (\<lambda>w. le64 w) (aq_epoch d)
      else if tag = AC_SEQ then map_option (\<lambda>w. le64 w) (aq_seq d)
      else if tag = AC_STATE_HASH then aq_hash d
      else if tag = AC_REPLICA then aq_who d
      else if tag = AC_AT then map_option (\<lambda>w. le64 w) (aq_at d)
      else None)"

lemma ack_get_upd:
  "ack_get u (d\<lparr>aq_version := aqversion\<rparr>) = (if u = AC_VERSION then map_option (\<lambda>b. [b]) aqversion else ack_get u d)"
  "ack_get u (d\<lparr>aq_id := aqid\<rparr>) = (if u = AC_AUTHORITY_ID then aqid else ack_get u d)"
  "ack_get u (d\<lparr>aq_epoch := aqepoch\<rparr>) = (if u = AC_EPOCH then map_option (\<lambda>w. le64 w) aqepoch else ack_get u d)"
  "ack_get u (d\<lparr>aq_seq := aqseq\<rparr>) = (if u = AC_SEQ then map_option (\<lambda>w. le64 w) aqseq else ack_get u d)"
  "ack_get u (d\<lparr>aq_hash := aqhash\<rparr>) = (if u = AC_STATE_HASH then aqhash else ack_get u d)"
  "ack_get u (d\<lparr>aq_who := aqwho\<rparr>) = (if u = AC_REPLICA then aqwho else ack_get u d)"
  "ack_get u (d\<lparr>aq_at := aqat\<rparr>) = (if u = AC_AT then map_option (\<lambda>w. le64 w) aqat else ack_get u d)"
  by (simp_all add: ack_get_def)

interpretation ack_reader: field_decoder ack_step ack_decode_start ack_tags "[]" ack_get
proof
  fix t v s s' u
  assume step: "ack_step t v s = Inr s'"
  show "ack_get u s' = (if u = t \<and> t \<in> set ack_tags then Some v else ack_get u s)"
    using step by (auto simp: ack_step_def ack_tags_def ack_get_upd bindR_eq_Inr value_parsers_Inr split: if_splits)
  show "t \<in> set ack_tags \<or> t \<in> set [] \<or> CRIT_TAG_MAX < t"
    using step by (auto simp: ack_step_def ack_tags_def bindR_eq_Inr refuse_if_critical_Inr split: if_splits)
qed (simp_all add: ack_tags_def ack_decode_start_def ack_get_def ack_step_def refuse_if_critical_optional)

definition ack_state :: "Ack \<Rightarrow> AckDecoder" where
  "ack_state a =
     \<lparr>aq_version = Some REPLICA_VERSION, aq_id = Some (ac_authority_id a), aq_epoch = Some (ac_epoch a), aq_seq = Some (ac_seq a),
      aq_hash = Some (ac_state_hash a), aq_who = Some (ac_replica a), aq_at = Some (ac_at a)\<rparr>"

definition ack_wf :: "Ack \<Rightarrow> bool" where
  "ack_wf a \<longleftrightarrow> length (ac_authority_id a) = 16 \<and> length (ac_state_hash a) = 32 \<and> length (ac_replica a) = 32"

lemma ack_finish_Inr: "ack_finish c key d = Inr a \<longleftrightarrow> d = ack_state a \<and> public_key_eq c (ac_replica a) key"
  by (cases d, cases a) (auto simp: ack_finish_def ack_state_def bindR_eq_Inr ok_or_eq_Inr ensure_eq_Inr Let_def)

lemma ack_values_Inr:
  "tlv_values ack_step body ack_decode_start = Inr (ack_state a) \<longleftrightarrow> ack_wf a \<and> carries ack_tags (ack_fields a) body"
  by (rule ack_reader.accepts_exactly)
    (auto simp: ack_tags_def ack_get_def ack_state_def ack_fields_def ack_step_def ack_decode_start_def bindR_eq_Inr
      exact_len_def ack_wf_def)

lemma ack_open_Inr:
  assumes "ct_eq_sound c"
  shows "ack_open c bs key = Inr a \<longleftrightarrow>
     (\<exists>sig body. bs = sig @ body \<and> length sig = 64 \<and> signed_by c REPLICA_ACK key body sig \<and>
        carries ack_tags (ack_fields a) body) \<and> ack_wf a \<and> ac_replica a = key"
proof -
  have "public_key_eq c x key \<longleftrightarrow> x = key" for x using assms by (auto simp: public_key_eq_def ct_eq_sound_def)
  then show ?thesis
    unfolding ack_open_def bindR_eq_Inr replica_split_Inr ack_finish_Inr using ack_values_Inr [of _ a] by blast
qed

section \<open>Properties\<close>

text \<open>
  C18.  Pushes and acknowledgements are accepted exactly when they are genuine and whole.  A push
  opens under a key if and only if that key signed its body as a push, the body carries the
  push's fields and no other field that a reader must understand, and the state it carries has the
  digest it states and the allowed size; an acknowledgement opens if and only if the replica's key
  signed its body as an acknowledgement and the body names that very key.
\<close>

theorem replica_documents_exact:
  assumes "ct_eq_sound c" and "digests_32 c"
  shows "(push_open c bs key = Inr p \<longleftrightarrow>
      (\<exists>sig body. bs = sig @ body \<and> length sig = 64 \<and> signed_by c REPLICA_PUSH key body sig \<and>
         carries push_tags (push_fields p) body) \<and>
      push_wf p \<and> length (pu_state p) \<le> 2097152 \<and> pu_state_hash p = sha256_digest c (pu_state p)) \<and>
    (ack_open c bs key = Inr a \<longleftrightarrow>
      (\<exists>sig body. bs = sig @ body \<and> length sig = 64 \<and> signed_by c REPLICA_ACK key body sig \<and>
         carries ack_tags (ack_fields a) body) \<and> ack_wf a \<and> ac_replica a = key)"
  using assms by (intro conjI push_open_Inr ack_open_Inr)

definition demo_push :: Push where
  "demo_push = \<lparr>pu_authority_id = replicate 16 1, pu_epoch = 2, pu_seq = 3, pu_previous = replicate 32 0,
     pu_state_hash = sha256_digest demo_crates [5], pu_snapshot = True, pu_at = 4, pu_state = [5]\<rparr>"

theorem replica_documents_exact_witness:
  "push_open demo_crates (replicate 32 0 @ replicate 32 6 @ enc_fields (push_fields demo_push)) (replicate 32 6) = Inr demo_push"
proof -
  have wf: "push_wf demo_push" using demo_crates_laws(3) by (simp add: push_wf_def demo_push_def digests_32_def)
  have "ascending None (push_fields demo_push)" using wf by (simp add: push_fields_def push_wf_def) (simp add: demo_push_def)
  then have "carries push_tags (push_fields demo_push) (enc_fields (push_fields demo_push))"
    by (rule carries_self) (simp add: push_fields_def push_tags_def)
  moreover have "signed_by demo_crates REPLICA_PUSH (replicate 32 6) body (replicate 32 0 @ replicate 32 6)" for body
    by (rule demo_signed) simp
  ultimately have "\<exists>sig body. replicate 32 0 @ replicate 32 6 @ enc_fields (push_fields demo_push) = sig @ body \<and> length sig = 64 \<and>
      signed_by demo_crates REPLICA_PUSH (replicate 32 6) body sig \<and> carries push_tags (push_fields demo_push) body"
    by (intro exI [of _ "replicate 32 0 @ replicate 32 6"] exI [of _ "enc_fields (push_fields demo_push)"]) simp
  moreover have "length (pu_state demo_push) \<le> 2097152" "pu_state_hash demo_push = sha256_digest demo_crates (pu_state demo_push)"
    by (simp_all add: demo_push_def)
  ultimately show ?thesis using replica_documents_exact [OF demo_crates_laws(1,3)] wf by blast
qed

end
