(* ===== verification/OC_Evidence.thy ===== *)
theory OC_Evidence
  imports OC_Rsa OC_Lease OC_Witness
begin

text \<open>
  Attestation documents of a device key (\<^verbatim>\<open>oc-protocol/src/attestation.rs\<close>): the evidence a device
  presents, with its optional certificates, and the layout of a credential.  The structures of the
  TPM inside are opaque here as they are in the code.
\<close>

section \<open>Evidence\<close>

definition MAX_PUBLIC :: nat where "MAX_PUBLIC = 1026"
definition MAX_CERTIFICATE :: nat where "MAX_CERTIFICATE = 8 * 1024"
definition MAX_INTERMEDIATES :: nat where "MAX_INTERMEDIATES = 2"
definition MAX_ATTEST :: nat where "MAX_ATTEST = 1024"
definition MAX_SIGNATURE :: nat where "MAX_SIGNATURE = 600"
definition MAX_CREDENTIAL :: nat where "MAX_CREDENTIAL = 2 + 132 + 2 + 512"
definition ATTEST_SECRET_LEN :: nat where "ATTEST_SECRET_LEN = 32"
definition MAX_DOCUMENT :: nat where "MAX_DOCUMENT = unat MAX_HEADER_LEN"

abbreviation (input) EV_EK_PUBLIC :: u16 where "EV_EK_PUBLIC \<equiv> 1"
abbreviation (input) EV_EK_CERTIFICATE :: u16 where "EV_EK_CERTIFICATE \<equiv> 2"
abbreviation (input) EV_INTERMEDIATES :: u16 where "EV_INTERMEDIATES \<equiv> 3"
abbreviation (input) EV_IDENTITY_PUBLIC :: u16 where "EV_IDENTITY_PUBLIC \<equiv> 4"
abbreviation (input) EV_ATTEST :: u16 where "EV_ATTEST \<equiv> 5"
abbreviation (input) EV_SIGNATURE :: u16 where "EV_SIGNATURE \<equiv> 6"
abbreviation (input) EV_DEVICE_PUBLIC :: u16 where "EV_DEVICE_PUBLIC \<equiv> 7"

record Evidence =
  ev_ek_public :: bytes
  ev_ek_certificate :: "bytes option"
  ev_intermediates :: "bytes list"
  ev_identity_public :: bytes
  ev_attest :: bytes
  ev_signature :: bytes
  ev_device_public :: bytes

definition bounded :: "u16 \<Rightarrow> bytes \<Rightarrow> nat \<Rightarrow> FormatError + bytes" where
  "bounded tag value limit =
     bindR (ensure (\<not> (value = [] \<or> length value > limit)) (BadFieldLength tag (length value))) (\<lambda>_.
     Inr value)"

text \<open>The intermediate certificates, each behind its length in big-endian order.\<close>

definition encode_intermediates :: "bytes list \<Rightarrow> FormatError + bytes" where
  "encode_intermediates certs =
     bindR (ensure (\<not> length certs > MAX_INTERMEDIATES) (BadFieldLength EV_INTERMEDIATES (length certs))) (\<lambda>_.
     foldR (\<lambda>cert chain.
       bindR (bounded EV_INTERMEDIATES cert MAX_CERTIFICATE) (\<lambda>cert.
       bindR (ok_or (BadFieldLength EV_INTERMEDIATES (length cert)) (u16_of_usize (length cert))) (\<lambda>len.
       Inr (chain @ be_bytes 2 (unat len) @ cert)))) certs [])"

definition encode_evidence :: "Evidence \<Rightarrow> FormatError + bytes" where
  "encode_evidence e =
     bindR (bounded EV_EK_PUBLIC (ev_ek_public e) MAX_PUBLIC) (\<lambda>ek.
     bindR (put EV_EK_PUBLIC ek writer_new) (\<lambda>w.
     bindR (case ev_ek_certificate e of
              None \<Rightarrow> Inr w
            | Some cert \<Rightarrow> bindR (bounded EV_EK_CERTIFICATE cert MAX_CERTIFICATE) (\<lambda>cert. put EV_EK_CERTIFICATE cert w)) (\<lambda>w.
     bindR (if ev_intermediates e = [] then Inr w
            else bindR (encode_intermediates (ev_intermediates e)) (\<lambda>chain. put EV_INTERMEDIATES chain w)) (\<lambda>w.
     bindR (bounded EV_IDENTITY_PUBLIC (ev_identity_public e) MAX_PUBLIC) (\<lambda>ident.
     bindR (put EV_IDENTITY_PUBLIC ident w) (\<lambda>w.
     bindR (bounded EV_ATTEST (ev_attest e) MAX_ATTEST) (\<lambda>attest.
     bindR (put EV_ATTEST attest w) (\<lambda>w.
     bindR (bounded EV_SIGNATURE (ev_signature e) MAX_SIGNATURE) (\<lambda>sig.
     bindR (put EV_SIGNATURE sig w) (\<lambda>w.
     bindR (bounded EV_DEVICE_PUBLIC (ev_device_public e) MAX_PUBLIC) (\<lambda>device.
     bindR (put EV_DEVICE_PUBLIC device w) (\<lambda>w.
     Inr (finish w)))))))))))))"

function intermediates_loop :: "u16 \<Rightarrow> nat \<Rightarrow> bytes \<Rightarrow> bytes list \<Rightarrow> FormatError + bytes list" where
  "intermediates_loop tag len rest certs =
     (if rest = [] then Inr certs
      else if length certs \<ge> MAX_INTERMEDIATES then Inl (BadFieldLength tag len)
      else
        (case split_at_checked rest 2 of
           None \<Rightarrow> Inl (BadFieldLength tag len)
         | Some (head, tail) \<Rightarrow>
             (case split_at_checked tail (be_nat head) of
                None \<Rightarrow> Inl (BadFieldLength tag len)
              | Some (cert, tail) \<Rightarrow>
                  bindR (bounded tag cert MAX_CERTIFICATE) (\<lambda>cert.
                  intermediates_loop tag len tail (certs @ [cert])))))"
  by pat_completeness auto
termination
  by (relation "measure (\<lambda>(tag, len, rest, certs). length rest)") (auto simp: split_at_checked_eq_Some)

declare intermediates_loop.simps [simp del]

record EvidenceDecoder =
  vd_ek_public :: "bytes option"
  vd_ek_certificate :: "bytes option"
  vd_intermediates :: "bytes list"
  vd_identity_public :: "bytes option"
  vd_attest :: "bytes option"
  vd_signature :: "bytes option"
  vd_device_public :: "bytes option"

definition evidence_decode_start :: EvidenceDecoder where
  "evidence_decode_start =
     \<lparr>vd_ek_public = None, vd_ek_certificate = None, vd_intermediates = [], vd_identity_public = None,
      vd_attest = None, vd_signature = None, vd_device_public = None\<rparr>"

definition evidence_step :: "u16 \<Rightarrow> bytes \<Rightarrow> EvidenceDecoder \<Rightarrow> FormatError + EvidenceDecoder" where
  "evidence_step tag value d =
     (if tag = EV_EK_PUBLIC then bindR (bounded tag value MAX_PUBLIC) (\<lambda>x. Inr (d\<lparr>vd_ek_public := Some x\<rparr>))
      else if tag = EV_EK_CERTIFICATE then
        bindR (bounded tag value MAX_CERTIFICATE) (\<lambda>x. Inr (d\<lparr>vd_ek_certificate := Some x\<rparr>))
      else if tag = EV_INTERMEDIATES then
        bindR (ensure (value \<noteq> []) (BadFieldLength tag 0)) (\<lambda>_.
        bindR (intermediates_loop tag (length value) value (vd_intermediates d)) (\<lambda>certs.
        Inr (d\<lparr>vd_intermediates := certs\<rparr>)))
      else if tag = EV_IDENTITY_PUBLIC then
        bindR (bounded tag value MAX_PUBLIC) (\<lambda>x. Inr (d\<lparr>vd_identity_public := Some x\<rparr>))
      else if tag = EV_ATTEST then bindR (bounded tag value MAX_ATTEST) (\<lambda>x. Inr (d\<lparr>vd_attest := Some x\<rparr>))
      else if tag = EV_SIGNATURE then bindR (bounded tag value MAX_SIGNATURE) (\<lambda>x. Inr (d\<lparr>vd_signature := Some x\<rparr>))
      else if tag = EV_DEVICE_PUBLIC then
        bindR (bounded tag value MAX_PUBLIC) (\<lambda>x. Inr (d\<lparr>vd_device_public := Some x\<rparr>))
      else bindR (refuse_if_critical tag) (\<lambda>_. Inr d))"

definition evidence_finish :: "EvidenceDecoder \<Rightarrow> FormatError + Evidence" where
  "evidence_finish d =
     bindR (ok_or (MissingField EV_EK_PUBLIC) (vd_ek_public d)) (\<lambda>ek.
     bindR (ok_or (MissingField EV_IDENTITY_PUBLIC) (vd_identity_public d)) (\<lambda>ident.
     bindR (ok_or (MissingField EV_ATTEST) (vd_attest d)) (\<lambda>attest.
     bindR (ok_or (MissingField EV_SIGNATURE) (vd_signature d)) (\<lambda>sig.
     bindR (ok_or (MissingField EV_DEVICE_PUBLIC) (vd_device_public d)) (\<lambda>device.
     Inr \<lparr>ev_ek_public = ek, ev_ek_certificate = vd_ek_certificate d, ev_intermediates = vd_intermediates d,
          ev_identity_public = ident, ev_attest = attest, ev_signature = sig, ev_device_public = device\<rparr>)))))"

definition decode_evidence :: "bytes \<Rightarrow> FormatError + Evidence" where
  "decode_evidence bs =
     bindR (ensure (\<not> length bs > MAX_DOCUMENT) OffsetOverflow) (\<lambda>_.
     bindR (tlv_values evidence_step bs evidence_decode_start) evidence_finish)"

definition check_credential :: "bytes \<Rightarrow> FormatError + unit" where
  "check_credential bs =
     (let bad = BadFieldLength 0 (length bs) in
      bindR (ensure (\<not> (bs = [] \<or> length bs > MAX_CREDENTIAL)) bad) (\<lambda>_.
      bindR (ok_or bad (split_at_checked bs 2)) (\<lambda>(first, rest).
      bindR (ok_or bad (split_at_checked rest (be_nat first))) (\<lambda>(_, rest).
      bindR (ok_or bad (split_at_checked rest 2)) (\<lambda>(second, rest).
      ensure (\<not> length rest \<noteq> be_nat second) bad)))))"

section \<open>What is accepted\<close>

lemma bounded_Inr: "bounded t v n = Inr x \<longleftrightarrow> v = x \<and> x \<noteq> [] \<and> length x \<le> n"
  by (auto simp: bounded_def bindR_eq_Inr ensure_eq_Inr)

lemma be_nat_be_bytes [simp]: "be_nat (be_bytes n x) = x mod 256 ^ n"
  by (simp add: be_nat_def be_bytes_def le_nat_le_bytes)

lemma be_bytes_be_nat [simp]: "length v = n \<Longrightarrow> be_bytes n (be_nat v) = v"
  using le_bytes_le_nat [of "rev v" n] by (simp add: be_nat_def be_bytes_def)

definition cert_bytes :: "bytes list \<Rightarrow> bytes" where
  "cert_bytes certs = concat (map (\<lambda>cert. be_bytes 2 (length cert) @ cert) certs)"

lemma cert_bytes_simps [simp]:
  "cert_bytes [] = []" "cert_bytes (x # xs) = be_bytes 2 (length x) @ x @ cert_bytes xs"
  by (simp_all add: cert_bytes_def)

lemma cert_bytes_eq_Nil [simp]: "cert_bytes xs = [] \<longleftrightarrow> xs = []"
proof (cases xs)
  case (Cons x ys)
  have "length (be_bytes 2 (length x)) \<noteq> 0" by simp
  then show ?thesis unfolding Cons cert_bytes_simps by (metis append_is_Nil_conv list.distinct(1) list.size(3))
qed simp

abbreviation (input) certs_ok :: "bytes list \<Rightarrow> bool" where
  "certs_ok certs \<equiv> (\<forall>cert \<in> set certs. cert \<noteq> [] \<and> length cert \<le> 8192)"

lemma encode_intermediates_Inr:
  "encode_intermediates certs = Inr bs \<longleftrightarrow> length certs \<le> 2 \<and> certs_ok certs \<and> bs = cert_bytes certs"
proof -
  let ?put = "\<lambda>cert chain.
       bindR (bounded EV_INTERMEDIATES cert MAX_CERTIFICATE) (\<lambda>cert.
       bindR (ok_or (BadFieldLength EV_INTERMEDIATES (length cert)) (u16_of_usize (length cert))) (\<lambda>len.
       Inr (chain @ be_bytes 2 (unat len) @ cert)))"
  have put: "?put cert out = Inr out' \<longleftrightarrow> cert \<noteq> [] \<and> length cert \<le> 8192 \<and> out' = out @ be_bytes 2 (length cert) @ cert" for cert out out'
    by (cases "length cert \<le> 8192")
      (auto simp: bindR_eq_Inr bounded_Inr MAX_CERTIFICATE_def ok_or_eq_Inr u16_of_usize_def unat_of_nat take_bit_nat_eq_self)
  have puts: "foldR ?put certs out = Inr bs \<longleftrightarrow> certs_ok certs \<and> bs = out @ cert_bytes certs" for out
  proof (induction certs arbitrary: out)
    case (Cons cert certs)
    have "foldR ?put (cert # certs) out = Inr bs \<longleftrightarrow> (\<exists>out'. ?put cert out = Inr out' \<and> foldR ?put certs out' = Inr bs)"
      unfolding foldR.simps bindR_eq_Inr ..
    also have "\<dots> \<longleftrightarrow> cert \<noteq> [] \<and> length cert \<le> 8192 \<and> certs_ok certs \<and>
        bs = (out @ be_bytes 2 (length cert) @ cert) @ cert_bytes certs"
      unfolding put Cons.IH by blast
    finally show ?case by (simp only: list.set ball_simps cert_bytes_simps append_assoc conj_assoc)
  qed auto
  show ?thesis unfolding encode_intermediates_def bind_unit_eq_Inr ensure_eq_Inr MAX_INTERMEDIATES_def puts by (simp add: not_less)
qed

lemma intermediates_loop_Inr:
  "intermediates_loop tag len rest certs = Inr out \<longleftrightarrow>
     (\<exists>new. out = certs @ new \<and> rest = cert_bytes new \<and> certs_ok new \<and> (new = [] \<or> length out \<le> 2))"
proof (induction tag len rest certs arbitrary: out rule: intermediates_loop.induct)
  case (1 tag len rest certs)
  have one: "split_at_checked (cert_bytes (x # new)) 2 = Some (be_bytes 2 (length x), x @ cert_bytes new)" for x new by simp
  show ?case (is "?l \<longleftrightarrow> ?r")
  proof (cases "rest = [] \<or> MAX_INTERMEDIATES \<le> length certs")
    case True
    then show ?thesis
      by (subst intermediates_loop.simps) (auto simp: MAX_INTERMEDIATES_def cert_bytes_eq_Nil [THEN iffD1, OF sym]
          length_greater_0_conv [symmetric] simp del: length_greater_0_conv)
  next
    case False
    then have room: "rest \<noteq> []" "\<not> MAX_INTERMEDIATES \<le> length certs" by auto
    show ?thesis
    proof
      assume ?l
      then obtain head tail cert tail' where sp: "split_at_checked rest 2 = Some (head, tail)"
        "split_at_checked tail (be_nat head) = Some (cert, tail')" and b: "bounded tag cert MAX_CERTIFICATE = Inr cert"
        and more: "intermediates_loop tag len tail' (certs @ [cert]) = Inr out"
        using room by (subst (asm) intermediates_loop.simps) (auto simp: bindR_eq_Inr bounded_Inr split: option.splits)
      from "1.IH" [OF room sp(1) refl sp(2) refl b] more obtain new where
        "out = (certs @ [cert]) @ new" "tail' = cert_bytes new" "certs_ok new" "new = [] \<or> length out \<le> 2" by blast
      moreover have "rest = be_bytes 2 (length cert) @ cert @ tail'"
        using sp by (auto simp: split_at_parts)
      ultimately show ?r using b room(2)
        by (intro exI [of _ "cert # new"]) (auto simp: bounded_Inr MAX_CERTIFICATE_def MAX_INTERMEDIATES_def)
    next
      assume ?r
      then obtain new where n: "out = certs @ new" "rest = cert_bytes new" "certs_ok new" "new = [] \<or> length out \<le> 2" by blast
      with room(1) obtain x new' where new: "new = x # new'" by (cases new) auto
      have x: "bounded tag x MAX_CERTIFICATE = Inr x" "be_nat (be_bytes 2 (length x)) = length x"
        using n(3) new by (auto simp: bounded_Inr MAX_CERTIFICATE_def)
      have sp: "split_at_checked rest 2 = Some (be_bytes 2 (length x), x @ cert_bytes new')"
        "split_at_checked (x @ cert_bytes new') (be_nat (be_bytes 2 (length x))) = Some (x, cert_bytes new')"
        using n(2) new x(2) by simp_all
      have "intermediates_loop tag len (cert_bytes new') (certs @ [x]) = Inr out"
        using "1.IH" [OF room sp(1) refl sp(2) refl x(1), of out] n new by auto
      then show ?l using room sp x(1) by (subst intermediates_loop.simps) simp
    qed
  qed
qed

text \<open>
  The tags of a document ascend, so the certificates are read at most once and a step may as well
  start from none.
\<close>

definition fresh_step :: "u16 \<Rightarrow> bytes \<Rightarrow> EvidenceDecoder \<Rightarrow> FormatError + EvidenceDecoder" where
  "fresh_step tag value d = evidence_step tag value (if tag = EV_INTERMEDIATES then d\<lparr>vd_intermediates := []\<rparr> else d)"

lemma evidence_step_certs: "evidence_step t v d = Inr d' \<Longrightarrow> t \<noteq> EV_INTERMEDIATES \<Longrightarrow> vd_intermediates d' = vd_intermediates d"
  by (auto simp: evidence_step_def bindR_eq_Inr split: if_splits)

lemma fresh_run:
  assumes "distinct (map fst fs)" and "vd_intermediates d = [] \<or> EV_INTERMEDIATES \<notin> fst ` set fs"
  shows "run_fields evidence_step fs d = run_fields fresh_step fs d"
  using assms
proof (induction fs arbitrary: d)
  case (Cons tv fs)
  obtain t v where tv: "tv = (t, v)" by (cases tv)
  have same: "fresh_step t v d = evidence_step t v d"
    using Cons.prems(2) by (cases d) (auto simp: fresh_step_def tv)
  have rest: "run_fields evidence_step fs d' = run_fields fresh_step fs d'" if "evidence_step t v d = Inr d'" for d'
    using Cons.IH [of d'] Cons.prems evidence_step_certs [OF that] by (cases "t = EV_INTERMEDIATES") (auto simp: tv)
  show ?case by (cases "evidence_step t v d") (simp_all add: tv same rest)
qed simp

lemma evidence_values: "tlv_values evidence_step bs evidence_decode_start = Inr d \<longleftrightarrow> tlv_values fresh_step bs evidence_decode_start = Inr d"
proof -
  have run: "run_fields evidence_step fs evidence_decode_start = run_fields fresh_step fs evidence_decode_start" if "ascending None fs" for fs
    using that ascending_distinct by (intro fresh_run) (auto simp: evidence_decode_start_def)
  show ?thesis
  proof
    assume "tlv_values evidence_step bs evidence_decode_start = Inr d"
    from tlv_values_Inr [OF this] run show "tlv_values fresh_step bs evidence_decode_start = Inr d" by auto
  next
    assume "tlv_values fresh_step bs evidence_decode_start = Inr d"
    from tlv_values_Inr [OF this] run show "tlv_values evidence_step bs evidence_decode_start = Inr d" by auto
  qed
qed

abbreviation (input) within :: "nat \<Rightarrow> bytes \<Rightarrow> bool" where
  "within n v \<equiv> v \<noteq> [] \<and> length v \<le> n"

definition evidence_tags :: "u16 list" where
  "evidence_tags = [EV_EK_PUBLIC, EV_EK_CERTIFICATE, EV_INTERMEDIATES, EV_IDENTITY_PUBLIC, EV_ATTEST, EV_SIGNATURE, EV_DEVICE_PUBLIC]"

definition evidence_get :: "u16 \<Rightarrow> EvidenceDecoder \<Rightarrow> bytes option" where
  "evidence_get tag d =
     (if tag = EV_EK_PUBLIC then vd_ek_public d
      else if tag = EV_EK_CERTIFICATE then vd_ek_certificate d
      else if tag = EV_INTERMEDIATES then (if vd_intermediates d = [] then None else Some (cert_bytes (vd_intermediates d)))
      else if tag = EV_IDENTITY_PUBLIC then vd_identity_public d
      else if tag = EV_ATTEST then vd_attest d
      else if tag = EV_SIGNATURE then vd_signature d
      else if tag = EV_DEVICE_PUBLIC then vd_device_public d
      else None)"

lemma evidence_get_upd:
  "evidence_get u (d\<lparr>vd_ek_public := x1\<rparr>) = (if u = EV_EK_PUBLIC then x1 else evidence_get u d)"
  "evidence_get u (d\<lparr>vd_ek_certificate := x2\<rparr>) = (if u = EV_EK_CERTIFICATE then x2 else evidence_get u d)"
  "evidence_get u (d\<lparr>vd_intermediates := x3\<rparr>) =
     (if u = EV_INTERMEDIATES then (if x3 = [] then None else Some (cert_bytes x3)) else evidence_get u d)"
  "evidence_get u (d\<lparr>vd_identity_public := x4\<rparr>) = (if u = EV_IDENTITY_PUBLIC then x4 else evidence_get u d)"
  "evidence_get u (d\<lparr>vd_attest := x5\<rparr>) = (if u = EV_ATTEST then x5 else evidence_get u d)"
  "evidence_get u (d\<lparr>vd_signature := x6\<rparr>) = (if u = EV_SIGNATURE then x6 else evidence_get u d)"
  "evidence_get u (d\<lparr>vd_device_public := x7\<rparr>) = (if u = EV_DEVICE_PUBLIC then x7 else evidence_get u d)"
  by (simp_all add: evidence_get_def)

lemma fresh_step_cases:
  "fresh_step t v d = Inr d' \<longleftrightarrow>
     (if t = EV_EK_PUBLIC then within 1026 v \<and> d' = d\<lparr>vd_ek_public := Some v\<rparr>
      else if t = EV_EK_CERTIFICATE then within 8192 v \<and> d' = d\<lparr>vd_ek_certificate := Some v\<rparr>
      else if t = EV_INTERMEDIATES then
        (\<exists>certs. certs \<noteq> [] \<and> v = cert_bytes certs \<and> certs_ok certs \<and> length certs \<le> 2 \<and> d' = d\<lparr>vd_intermediates := certs\<rparr>)
      else if t = EV_IDENTITY_PUBLIC then within 1026 v \<and> d' = d\<lparr>vd_identity_public := Some v\<rparr>
      else if t = EV_ATTEST then within 1024 v \<and> d' = d\<lparr>vd_attest := Some v\<rparr>
      else if t = EV_SIGNATURE then within 600 v \<and> d' = d\<lparr>vd_signature := Some v\<rparr>
      else if t = EV_DEVICE_PUBLIC then within 1026 v \<and> d' = d\<lparr>vd_device_public := Some v\<rparr>
      else CRIT_TAG_MAX < t \<and> d' = d)"
proof (cases "t = EV_INTERMEDIATES")
  case True
  show ?thesis
    unfolding fresh_step_def evidence_step_def True by (auto simp: bindR_eq_Inr ensure_eq_Inr intermediates_loop_Inr)
next
  case False
  then show ?thesis
    by (simp add: fresh_step_def evidence_step_def bindR_eq_Inr bounded_Inr refuse_if_critical_Inr MAX_PUBLIC_def
        MAX_CERTIFICATE_def MAX_ATTEST_def MAX_SIGNATURE_def) blast
qed

interpretation evidence_reader: field_decoder fresh_step evidence_decode_start evidence_tags "[]" evidence_get
proof
  fix t v s s' u
  assume step: "fresh_step t v s = Inr s'"
  show "evidence_get u s' = (if u = t \<and> t \<in> set evidence_tags then Some v else evidence_get u s)"
    using step by (auto simp: fresh_step_cases evidence_tags_def evidence_get_upd split: if_splits)
  show "t \<in> set evidence_tags \<or> t \<in> set [] \<or> CRIT_TAG_MAX < t"
    using step by (auto simp: fresh_step_cases evidence_tags_def split: if_splits)
qed (simp_all add: evidence_tags_def evidence_decode_start_def evidence_get_def fresh_step_cases)

definition evidence_fields :: "Evidence \<Rightarrow> (u16 \<times> bytes) list" where
  "evidence_fields e =
     [(EV_EK_PUBLIC, ev_ek_public e)] @ opt_field EV_EK_CERTIFICATE (ev_ek_certificate e) @
     opt_field EV_INTERMEDIATES (if ev_intermediates e = [] then None else Some (cert_bytes (ev_intermediates e))) @
     [(EV_IDENTITY_PUBLIC, ev_identity_public e), (EV_ATTEST, ev_attest e), (EV_SIGNATURE, ev_signature e),
      (EV_DEVICE_PUBLIC, ev_device_public e)]"

definition evidence_wf :: "Evidence \<Rightarrow> bool" where
  "evidence_wf e \<longleftrightarrow>
     within 1026 (ev_ek_public e) \<and> (\<forall>cert. ev_ek_certificate e = Some cert \<longrightarrow> within 8192 cert) \<and>
     length (ev_intermediates e) \<le> 2 \<and> certs_ok (ev_intermediates e) \<and>
     within 1026 (ev_identity_public e) \<and> within 1024 (ev_attest e) \<and> within 600 (ev_signature e) \<and>
     within 1026 (ev_device_public e)"

definition evidence_state :: "Evidence \<Rightarrow> EvidenceDecoder" where
  "evidence_state e =
     \<lparr>vd_ek_public = Some (ev_ek_public e), vd_ek_certificate = ev_ek_certificate e, vd_intermediates = ev_intermediates e,
      vd_identity_public = Some (ev_identity_public e), vd_attest = Some (ev_attest e), vd_signature = Some (ev_signature e),
      vd_device_public = Some (ev_device_public e)\<rparr>"

lemma evidence_finish_Inr: "evidence_finish d = Inr e \<longleftrightarrow> d = evidence_state e"
  by (cases d, cases e) (auto simp: evidence_finish_def evidence_state_def bindR_eq_Inr ok_or_eq_Inr)

lemma evidence_run: "run_fields fresh_step (evidence_fields e) evidence_decode_start = Inr (evidence_state e) \<longleftrightarrow> evidence_wf e"
  by (cases "ev_ek_certificate e"; cases "ev_intermediates e = []")
    (auto simp: evidence_fields_def evidence_decode_start_def evidence_state_def evidence_wf_def bindR_eq_Inr fresh_step_cases)

lemma decode_evidence_Inr:
  "decode_evidence bs = Inr e \<longleftrightarrow> length bs \<le> 1048576 \<and> evidence_wf e \<and> carries evidence_tags (evidence_fields e) bs"
proof -
  have "tlv_values fresh_step bs evidence_decode_start = Inr (evidence_state e) \<longleftrightarrow> evidence_wf e \<and> carries evidence_tags (evidence_fields e) bs"
    by (rule evidence_reader.accepts_exactly [OF refl _ evidence_run])
      (simp add: evidence_tags_def evidence_get_def evidence_state_def evidence_fields_def)
  then show ?thesis
    by (auto simp: decode_evidence_def bindR_eq_Inr ensure_eq_Inr evidence_values evidence_finish_Inr MAX_DOCUMENT_def MAX_HEADER_LEN_def)
qed

lemma cert_bytes_length: "certs_ok certs \<Longrightarrow> length (cert_bytes certs) \<le> length certs * 8194"
  by (induction certs) auto

lemma evidence_fields_ok:
  assumes "evidence_wf e"
  shows "ascending None (evidence_fields e)" and "length (enc_fields (evidence_fields e)) \<le> 1048576"
proof -
  have c: "length (cert_bytes (ev_intermediates e)) \<le> 16388"
    using cert_bytes_length [of "ev_intermediates e"] assms by (simp add: evidence_wf_def)
  show "ascending None (evidence_fields e)"
    using assms c by (cases "ev_ek_certificate e") (auto simp: evidence_fields_def evidence_wf_def)
  show "length (enc_fields (evidence_fields e)) \<le> 1048576"
    using assms c by (cases "ev_ek_certificate e") (auto simp: evidence_fields_def evidence_wf_def)
qed

lemma encode_evidence_wf:
  assumes "evidence_wf e"
  shows "encode_evidence e = Inr (enc_fields (evidence_fields e))"
proof -
  have "encode_intermediates (ev_intermediates e) = Inr (cert_bytes (ev_intermediates e))"
    using assms by (simp add: encode_intermediates_Inr evidence_wf_def)
  moreover have "bounded t v n = Inr v" if "within n v" for t v n using that by (simp add: bounded_Inr)
  ultimately have "encode_evidence e = write_fields (evidence_fields e)"
    using assms
    by (cases "ev_ek_certificate e")
      (simp_all add: encode_evidence_def write_fields_def evidence_fields_def evidence_wf_def MAX_PUBLIC_def MAX_CERTIFICATE_def
        MAX_ATTEST_def MAX_SIGNATURE_def bindR_assoc)
  then show ?thesis using evidence_fields_ok(1) [OF assms] by simp
qed

interpretation evidence_codec: total_codec encode_evidence decode_evidence evidence_wf
proof
  have self: "decode_evidence (enc_fields (evidence_fields e)) = Inr e" if "evidence_wf e" for e
    using that evidence_fields_ok [OF that] carries_self [OF evidence_fields_ok(1) [OF that], of evidence_tags]
    by (cases "ev_ek_certificate e") (auto simp: decode_evidence_Inr evidence_fields_def evidence_tags_def)
  show "\<And>x bs. evidence_wf x \<Longrightarrow> encode_evidence x = Inr bs \<Longrightarrow> decode_evidence bs = Inr x"
    using self by (auto simp: encode_evidence_wf)
  show "\<And>x. evidence_wf x \<Longrightarrow> \<exists>bs. encode_evidence x = Inr bs" by (simp add: encode_evidence_wf)
qed

text \<open>A credential is two length-prefixed blocks and nothing more.\<close>

lemma check_credential_Inr:
  "check_credential bs = Inr () \<longleftrightarrow>
     (\<exists>a b. bs = be_bytes 2 (length a) @ a @ be_bytes 2 (length b) @ b \<and> length a < 65536 \<and> length b < 65536) \<and> length bs \<le> 648"
proof
  assume "check_credential bs = Inr ()"
  then obtain first rest a second b where p: "bs = first @ rest" "length first = 2" "rest = a @ second @ b" "length a = be_nat first"
    "length second = 2" "length b = be_nat second" "length bs \<le> 648"
    by (auto simp: check_credential_def Let_def bindR_eq_Inr ok_or_eq_Inr ensure_eq_Inr split_at_parts MAX_CREDENTIAL_def)
  have "be_nat v < 65536" if "length v = 2" for v using le_nat_less [of "rev v"] that by (simp add: be_nat_def)
  then show "(\<exists>a b. bs = be_bytes 2 (length a) @ a @ be_bytes 2 (length b) @ b \<and> length a < 65536 \<and> length b < 65536) \<and> length bs \<le> 648"
    using p by (intro conjI exI [of _ a] exI [of _ b]) simp_all
next
  assume "(\<exists>a b. bs = be_bytes 2 (length a) @ a @ be_bytes 2 (length b) @ b \<and> length a < 65536 \<and> length b < 65536) \<and> length bs \<le> 648"
  moreover have "be_bytes 2 n \<noteq> []" for n using length_be_bytes [of 2 n] by force
  ultimately show "check_credential bs = Inr ()"
    by (auto simp: check_credential_def Let_def ensure_eq_Inr bindR_eq_Inr MAX_CREDENTIAL_def)
qed

section \<open>Properties\<close>

text \<open>
  C38.  Attestation documents are read exactly as they are laid out.  Bytes decode to evidence if and
  only if they are a document of at most a mebibyte that carries exactly the fields of that evidence
  and no other field a reader must understand, with every field present and within its limit and at
  most two intermediate certificates; evidence within these limits can always be written and is read
  back unchanged.  A credential passes the check if and only if it is two blocks, each behind its
  length, and nothing more, of at most 648 bytes.
\<close>

theorem attestation_documents_exact:
  "(decode_evidence bs = Inr e \<longleftrightarrow>
      length bs \<le> 1048576 \<and> evidence_wf e \<and> carries evidence_tags (evidence_fields e) bs) \<and>
   (evidence_wf e \<longrightarrow> bindR (encode_evidence e) decode_evidence = Inr e) \<and>
   (check_credential cred = Inr () \<longleftrightarrow>
      (\<exists>a b. cred = be_bytes 2 (length a) @ a @ be_bytes 2 (length b) @ b \<and> length a < 65536 \<and> length b < 65536) \<and>
      length cred \<le> 648)"
  using decode_evidence_Inr evidence_codec.round_trip check_credential_Inr by blast

definition demo_evidence :: Evidence where
  "demo_evidence =
     \<lparr>ev_ek_public = [1, 2], ev_ek_certificate = None, ev_intermediates = [[3], [4, 5]], ev_identity_public = [6],
      ev_attest = [7], ev_signature = [8], ev_device_public = [9]\<rparr>"

theorem attestation_documents_exact_witness:
  "bindR (encode_evidence demo_evidence) decode_evidence = Inr demo_evidence \<and> check_credential [0, 1, 5, 0, 2, 6, 7] = Inr ()"
proof
  have "evidence_wf demo_evidence" by (simp add: evidence_wf_def demo_evidence_def)
  then show "bindR (encode_evidence demo_evidence) decode_evidence = Inr demo_evidence"
    using attestation_documents_exact by blast
  have "[0, 1, 5, 0, 2, 6, 7] = be_bytes 2 (length [5 :: byte]) @ [5] @ be_bytes 2 (length [6, 7 :: byte]) @ [6, 7]"
    by (simp add: be_bytes_def numeral_2_eq_2)
  then show "check_credential [0, 1, 5, 0, 2, 6, 7] = Inr ()"
    using attestation_documents_exact [of "[]" demo_evidence "[0, 1, 5, 0, 2, 6, 7]"] by fastforce
qed

end
