(* ===== verification/OC_Activation.thy ===== *)
theory OC_Activation
  imports OC_Evidence OC_Directory OC_Agent OC_Access
begin

text \<open>
  The documents a device and its server exchange during activation
  (\<^verbatim>\<open>oc-protocol/src/activation.rs\<close>): the greeting, the challenge and its proof, the request for a
  lease with the slot it opens, the answer, and the small fixed layouts of the other messages.  The
  envelope that numbers them is in \<open>OC_Envelope\<close>.
\<close>

section \<open>Sealed slots and clocks\<close>

record SlotBlob =
  slb_enc :: bytes
  slb_nonce :: bytes
  slb_ct :: bytes

definition slot_blob_encode :: "SlotBlob \<Rightarrow> FormatError + bytes" where
  "slot_blob_encode slot =
     bindR (ok_or OffsetOverflow (u32_of_usize (length (slb_enc slot)))) (\<lambda>enc_len.
     bindR (ok_or OffsetOverflow (u32_of_usize (length (slb_ct slot)))) (\<lambda>ct_len.
     Inr (le32 enc_len @ slb_enc slot @ slb_nonce slot @ le32 ct_len @ slb_ct slot)))"

definition read_len :: "bytes \<Rightarrow> nat \<Rightarrow> FormatError + nat" where
  "read_len bs at =
     bindR (ok_or OffsetOverflow (checked_add_usize at 4)) (\<lambda>to.
     bindR (ok_or OffsetOverflow (get_range bs at to)) (\<lambda>raw.
     Inr (le_nat raw)))"

definition slot_blob_decode :: "bytes \<Rightarrow> FormatError + SlotBlob" where
  "slot_blob_decode bs =
     bindR (read_len bs 0) (\<lambda>enc_len.
     bindR (ok_or OffsetOverflow (checked_add_usize 4 enc_len)) (\<lambda>enc_to.
     bindR (ok_or OffsetOverflow (get_range bs 4 enc_to)) (\<lambda>enc.
     bindR (ok_or OffsetOverflow (checked_add_usize enc_to 24)) (\<lambda>nonce_to.
     bindR (ok_or OffsetOverflow (get_range bs enc_to nonce_to)) (\<lambda>nonce.
     bindR (read_len bs nonce_to) (\<lambda>ct_len.
     bindR (ok_or OffsetOverflow (checked_add_usize nonce_to 4)) (\<lambda>ct_from.
     bindR (ok_or OffsetOverflow (checked_add_usize ct_from ct_len)) (\<lambda>ct_to.
     bindR (ok_or OffsetOverflow (get_range bs ct_from ct_to)) (\<lambda>ct.
     bindR (ensure (\<not> ct_to \<noteq> length bs) OffsetOverflow) (\<lambda>_.
     Inr \<lparr>slb_enc = enc, slb_nonce = nonce, slb_ct = ct\<rparr>))))))))))"

record ClockReport =
  clk_reset_count :: u32
  clk_clock_ms :: u64
  clk_read_at :: i64

definition clock_bytes :: "ClockReport \<Rightarrow> bytes" where
  "clock_bytes c = le32 (clk_reset_count c) @ le64 (clk_clock_ms c) @ le64 (clk_read_at c)"

definition clock_value :: "u16 \<Rightarrow> bytes \<Rightarrow> FormatError + ClockReport" where
  "clock_value tag value =
     (let bad = BadFieldLength tag (length value) in
      bindR (ok_or bad (get_range value 0 4)) (\<lambda>reset.
      bindR (ok_or bad (get_range value 4 12)) (\<lambda>ms.
      bindR (ok_or bad (get_range value 12 20)) (\<lambda>at.
      bindR (ensure (\<not> length value \<noteq> 20) bad) (\<lambda>_.
      Inr \<lparr>clk_reset_count = of_le reset, clk_clock_ms = of_le ms, clk_read_at = of_le at\<rparr>)))))"

definition nonempty :: "u16 \<Rightarrow> bytes \<Rightarrow> FormatError + bytes" where
  "nonempty tag value = (if value = [] then Inl (BadFieldLength tag (length value)) else Inr value)"

section \<open>The greeting\<close>

abbreviation (input) HL_DEVICE_FPR :: u16 where "HL_DEVICE_FPR \<equiv> 1"
abbreviation (input) HL_DEVICE_PUBLIC :: u16 where "HL_DEVICE_PUBLIC \<equiv> 2"
abbreviation (input) HL_DEVICE_TPM :: u16 where "HL_DEVICE_TPM \<equiv> 3"
abbreviation (input) HL_DEVICE_HYBRID_KEM :: u16 where "HL_DEVICE_HYBRID_KEM \<equiv> 4"
abbreviation (input) HL_DEVICE_HYBRID_PUBLIC :: u16 where "HL_DEVICE_HYBRID_PUBLIC \<equiv> 5"

record Hello =
  hl_device_fpr :: bytes
  hl_device_public :: bytes
  hl_device_tpm :: "bytes option"
  hl_device_hybrid :: "(byte \<times> bytes) option"

definition hello_fields :: "Hello \<Rightarrow> (u16 \<times> bytes) list" where
  "hello_fields h =
     [(HL_DEVICE_FPR, hl_device_fpr h), (HL_DEVICE_PUBLIC, hl_device_public h)] @
     opt_field HL_DEVICE_TPM (hl_device_tpm h) @
     (case hl_device_hybrid h of
        None \<Rightarrow> []
      | Some (kem, public) \<Rightarrow> [(HL_DEVICE_HYBRID_KEM, [kem]), (HL_DEVICE_HYBRID_PUBLIC, public)])"

definition encode_hello :: "Hello \<Rightarrow> FormatError + bytes" where
  "encode_hello h = write_fields (hello_fields h)"

record HelloDecoder =
  hq_fpr :: "bytes option"
  hq_public :: "bytes option"
  hq_tpm :: "bytes option"
  hq_hybrid_kem :: "byte option"
  hq_hybrid_public :: "bytes option"

definition hello_decode_start :: HelloDecoder where
  "hello_decode_start = \<lparr>hq_fpr = None, hq_public = None, hq_tpm = None, hq_hybrid_kem = None, hq_hybrid_public = None\<rparr>"

definition hello_step :: "u16 \<Rightarrow> bytes \<Rightarrow> HelloDecoder \<Rightarrow> FormatError + HelloDecoder" where
  "hello_step tag value d =
     (if tag = HL_DEVICE_FPR then bindR (exact_len 32 tag value) (\<lambda>x. Inr (d\<lparr>hq_fpr := Some x\<rparr>))
      else if tag = HL_DEVICE_PUBLIC then bindR (exact_len 32 tag value) (\<lambda>x. Inr (d\<lparr>hq_public := Some x\<rparr>))
      else if tag = HL_DEVICE_TPM then bindR (exact_len 65 tag value) (\<lambda>x. Inr (d\<lparr>hq_tpm := Some x\<rparr>))
      else if tag = HL_DEVICE_HYBRID_KEM then bindR (one_byte tag value) (\<lambda>x. Inr (d\<lparr>hq_hybrid_kem := Some x\<rparr>))
      else if tag = HL_DEVICE_HYBRID_PUBLIC then bindR (Inr value) (\<lambda>x. Inr (d\<lparr>hq_hybrid_public := Some x\<rparr>))
      else bindR (refuse_if_critical tag) (\<lambda>_. Inr d))"

definition hello_hybrid :: "byte option \<Rightarrow> bytes option \<Rightarrow> FormatError + (byte \<times> bytes) option" where
  "hello_hybrid hybrid_kem hybrid_public =
     (case (hybrid_kem, hybrid_public) of
        (Some kem, Some public) \<Rightarrow>
          bindR (if kem = 4 then Inr XWING_PUBLIC_KEY_LEN
                 else if kem = 5 then Inr MLKEM_P256_PUBLIC_KEY_LEN
                 else Inl (BadFieldLength HL_DEVICE_HYBRID_KEM 1)) (\<lambda>expected.
          bindR (ensure (\<not> length public \<noteq> expected) (BadFieldLength HL_DEVICE_HYBRID_PUBLIC (length public))) (\<lambda>_.
          Inr (Some (kem, public))))
      | (None, None) \<Rightarrow> Inr None
      | (Some _, None) \<Rightarrow> Inl (MissingField HL_DEVICE_HYBRID_PUBLIC)
      | (None, Some _) \<Rightarrow> Inl (MissingField HL_DEVICE_HYBRID_KEM))"

definition hello_finish :: "HelloDecoder \<Rightarrow> FormatError + Hello" where
  "hello_finish d =
     bindR (hello_hybrid (hq_hybrid_kem d) (hq_hybrid_public d)) (\<lambda>hybrid.
     bindR (ok_or (MissingField HL_DEVICE_FPR) (hq_fpr d)) (\<lambda>fpr.
     bindR (ok_or (MissingField HL_DEVICE_PUBLIC) (hq_public d)) (\<lambda>public.
     Inr \<lparr>hl_device_fpr = fpr, hl_device_public = public, hl_device_tpm = hq_tpm d, hl_device_hybrid = hybrid\<rparr>)))"

definition decode_hello :: "bytes \<Rightarrow> FormatError + Hello" where
  "decode_hello bs = bindR (tlv_values hello_step bs hello_decode_start) hello_finish"

section \<open>Challenge and proof\<close>

abbreviation (input) CH_SOFTWARE :: u16 where "CH_SOFTWARE \<equiv> 1"
abbreviation (input) CH_HARDWARE :: u16 where "CH_HARDWARE \<equiv> 2"
abbreviation (input) CH_HYBRID :: u16 where "CH_HYBRID \<equiv> 3"

record Challenge =
  ch_software :: SlotBlob
  ch_hardware :: "SlotBlob option"
  ch_hybrid :: "SlotBlob option"

definition put_slot :: "u16 \<Rightarrow> SlotBlob option \<Rightarrow> TlvWriter \<Rightarrow> FormatError + TlvWriter" where
  "put_slot tag slot w =
     (case slot of
        None \<Rightarrow> Inr w
      | Some slot \<Rightarrow> bindR (slot_blob_encode slot) (\<lambda>bs. put tag bs w))"

definition encode_challenge :: "Challenge \<Rightarrow> FormatError + bytes" where
  "encode_challenge ch =
     bindR (put_slot CH_SOFTWARE (Some (ch_software ch)) writer_new) (\<lambda>w.
     bindR (put_slot CH_HARDWARE (ch_hardware ch) w) (\<lambda>w.
     bindR (put_slot CH_HYBRID (ch_hybrid ch) w) (\<lambda>w.
     Inr (finish w))))"

record ChallengeDecoder =
  cq_software :: "SlotBlob option"
  cq_hardware :: "SlotBlob option"
  cq_hybrid :: "SlotBlob option"

definition challenge_decode_start :: ChallengeDecoder where
  "challenge_decode_start = \<lparr>cq_software = None, cq_hardware = None, cq_hybrid = None\<rparr>"

definition challenge_step :: "u16 \<Rightarrow> bytes \<Rightarrow> ChallengeDecoder \<Rightarrow> FormatError + ChallengeDecoder" where
  "challenge_step tag value d =
     (if tag = CH_SOFTWARE then bindR (slot_blob_decode value) (\<lambda>x. Inr (d\<lparr>cq_software := Some x\<rparr>))
      else if tag = CH_HARDWARE then bindR (slot_blob_decode value) (\<lambda>x. Inr (d\<lparr>cq_hardware := Some x\<rparr>))
      else if tag = CH_HYBRID then bindR (slot_blob_decode value) (\<lambda>x. Inr (d\<lparr>cq_hybrid := Some x\<rparr>))
      else bindR (refuse_if_critical tag) (\<lambda>_. Inr d))"

definition challenge_finish :: "ChallengeDecoder \<Rightarrow> FormatError + Challenge" where
  "challenge_finish d =
     bindR (ok_or (MissingField CH_SOFTWARE) (cq_software d)) (\<lambda>software.
     Inr \<lparr>ch_software = software, ch_hardware = cq_hardware d, ch_hybrid = cq_hybrid d\<rparr>)"

definition decode_challenge :: "bytes \<Rightarrow> FormatError + Challenge" where
  "decode_challenge bs = bindR (tlv_values challenge_step bs challenge_decode_start) challenge_finish"

abbreviation (input) PR_ECHO :: u16 where "PR_ECHO \<equiv> 1"

record Proof =
  pf_echo :: bytes

definition encode_proof :: "Proof \<Rightarrow> FormatError + bytes" where
  "encode_proof p = write_fields [(PR_ECHO, pf_echo p)]"

record ProofDecoder =
  eq_echo :: "bytes option"

definition proof_decode_start :: ProofDecoder where
  "proof_decode_start = \<lparr>eq_echo = None\<rparr>"

definition proof_step :: "u16 \<Rightarrow> bytes \<Rightarrow> ProofDecoder \<Rightarrow> FormatError + ProofDecoder" where
  "proof_step tag value d =
     (if tag = PR_ECHO then bindR (exact_len 32 tag value) (\<lambda>x. Inr (d\<lparr>eq_echo := Some x\<rparr>))
      else bindR (refuse_if_critical tag) (\<lambda>_. Inr d))"

definition proof_finish :: "ProofDecoder \<Rightarrow> FormatError + Proof" where
  "proof_finish d = bindR (ok_or (MissingField PR_ECHO) (eq_echo d)) (\<lambda>echo. Inr \<lparr>pf_echo = echo\<rparr>)"

definition decode_proof :: "bytes \<Rightarrow> FormatError + Proof" where
  "decode_proof bs = bindR (tlv_values proof_step bs proof_decode_start) proof_finish"

section \<open>The request for a lease\<close>

abbreviation (input) RQ_FILE_ID :: u16 where "RQ_FILE_ID \<equiv> 1"
abbreviation (input) RQ_POLICY_HASH :: u16 where "RQ_POLICY_HASH \<equiv> 2"
abbreviation (input) RQ_DEVICE_FPR :: u16 where "RQ_DEVICE_FPR \<equiv> 3"
abbreviation (input) RQ_DEVICE_KEM :: u16 where "RQ_DEVICE_KEM \<equiv> 4"
abbreviation (input) RQ_DEVICE_PUBLIC :: u16 where "RQ_DEVICE_PUBLIC \<equiv> 5"
abbreviation (input) RQ_SERVER_SLOT :: u16 where "RQ_SERVER_SLOT \<equiv> 6"
abbreviation (input) RQ_LEASE_SECONDS :: u16 where "RQ_LEASE_SECONDS \<equiv> 7"
abbreviation (input) RQ_DEVICE_CLOCK :: u16 where "RQ_DEVICE_CLOCK \<equiv> 8"
abbreviation (input) RQ_OPERATION_ID :: u16 where "RQ_OPERATION_ID \<equiv> 9"

record ActivateReq =
  ar_file_id :: bytes
  ar_policy_hash :: bytes
  ar_device_fpr :: bytes
  ar_device_kem :: byte
  ar_device_public :: bytes
  ar_server_slot :: SlotBlob
  ar_lease_seconds :: i64
  ar_device_clock :: "ClockReport option"
  ar_operation_id :: "bytes option"

definition encode_req :: "ActivateReq \<Rightarrow> FormatError + bytes" where
  "encode_req r =
     bindR (put RQ_FILE_ID (ar_file_id r) writer_new) (\<lambda>w.
     bindR (put RQ_POLICY_HASH (ar_policy_hash r) w) (\<lambda>w.
     bindR (put RQ_DEVICE_FPR (ar_device_fpr r) w) (\<lambda>w.
     bindR (put RQ_DEVICE_KEM [ar_device_kem r] w) (\<lambda>w.
     bindR (put RQ_DEVICE_PUBLIC (ar_device_public r) w) (\<lambda>w.
     bindR (put_slot RQ_SERVER_SLOT (Some (ar_server_slot r)) w) (\<lambda>w.
     bindR (put RQ_LEASE_SECONDS (le64 (ar_lease_seconds r)) w) (\<lambda>w.
     bindR (put_opt RQ_DEVICE_CLOCK (map_option clock_bytes (ar_device_clock r)) w) (\<lambda>w.
     bindR (put_opt RQ_OPERATION_ID (ar_operation_id r) w) (\<lambda>w.
     Inr (finish w))))))))))"

record ActivateReqDecoder =
  rq_file_id :: "bytes option"
  rq_policy_hash :: "bytes option"
  rq_device_fpr :: "bytes option"
  rq_device_kem :: "byte option"
  rq_device_public :: "bytes option"
  rq_slot :: "SlotBlob option"
  rq_lease_seconds :: "i64 option"
  rq_device_clock :: "ClockReport option"
  rq_operation_id :: "bytes option"

definition activate_req_decode_start :: ActivateReqDecoder where
  "activate_req_decode_start = \<lparr>rq_file_id = None, rq_policy_hash = None, rq_device_fpr = None, rq_device_kem = None, rq_device_public = None, rq_slot = None, rq_lease_seconds = None, rq_device_clock = None, rq_operation_id = None\<rparr>"

definition activate_req_step :: "u16 \<Rightarrow> bytes \<Rightarrow> ActivateReqDecoder \<Rightarrow> FormatError + ActivateReqDecoder" where
  "activate_req_step tag value d =
     (if tag = RQ_FILE_ID then bindR (exact_len 16 tag value) (\<lambda>x. Inr (d\<lparr>rq_file_id := Some x\<rparr>))
      else if tag = RQ_POLICY_HASH then bindR (exact_len 32 tag value) (\<lambda>x. Inr (d\<lparr>rq_policy_hash := Some x\<rparr>))
      else if tag = RQ_DEVICE_FPR then bindR (exact_len 32 tag value) (\<lambda>x. Inr (d\<lparr>rq_device_fpr := Some x\<rparr>))
      else if tag = RQ_DEVICE_KEM then bindR (one_byte tag value) (\<lambda>x. Inr (d\<lparr>rq_device_kem := Some x\<rparr>))
      else if tag = RQ_DEVICE_PUBLIC then bindR (nonempty tag value) (\<lambda>x. Inr (d\<lparr>rq_device_public := Some x\<rparr>))
      else if tag = RQ_SERVER_SLOT then bindR (slot_blob_decode value) (\<lambda>x. Inr (d\<lparr>rq_slot := Some x\<rparr>))
      else if tag = RQ_LEASE_SECONDS then bindR (u64_le tag value) (\<lambda>x. Inr (d\<lparr>rq_lease_seconds := Some x\<rparr>))
      else if tag = RQ_DEVICE_CLOCK then bindR (clock_value tag value) (\<lambda>x. Inr (d\<lparr>rq_device_clock := Some x\<rparr>))
      else if tag = RQ_OPERATION_ID then bindR (exact_len 32 tag value) (\<lambda>x. Inr (d\<lparr>rq_operation_id := Some x\<rparr>))
      else bindR (refuse_if_critical tag) (\<lambda>_. Inr d))"

definition activate_req_finish :: "ActivateReqDecoder \<Rightarrow> FormatError + ActivateReq" where
  "activate_req_finish d =
     bindR (ok_or (MissingField RQ_FILE_ID) (rq_file_id d)) (\<lambda>file_id.
     bindR (ok_or (MissingField RQ_POLICY_HASH) (rq_policy_hash d)) (\<lambda>hash.
     bindR (ok_or (MissingField RQ_DEVICE_FPR) (rq_device_fpr d)) (\<lambda>fpr.
     bindR (ok_or (MissingField RQ_DEVICE_KEM) (rq_device_kem d)) (\<lambda>kem.
     bindR (ok_or (MissingField RQ_DEVICE_PUBLIC) (rq_device_public d)) (\<lambda>public.
     bindR (ok_or (MissingField RQ_SERVER_SLOT) (rq_slot d)) (\<lambda>slot.
     bindR (ok_or (MissingField RQ_LEASE_SECONDS) (rq_lease_seconds d)) (\<lambda>seconds.
     Inr \<lparr>ar_file_id = file_id, ar_policy_hash = hash, ar_device_fpr = fpr, ar_device_kem = kem,
          ar_device_public = public, ar_server_slot = slot, ar_lease_seconds = seconds,
          ar_device_clock = rq_device_clock d, ar_operation_id = rq_operation_id d\<rparr>)))))))"

definition decode_req :: "bytes \<Rightarrow> FormatError + ActivateReq" where
  "decode_req bs =
     bindR (ensure (\<not> length bs > MAX_DOCUMENT) OffsetOverflow) (\<lambda>_.
     bindR (tlv_values activate_req_step bs activate_req_decode_start) activate_req_finish)"

section \<open>The answers\<close>

abbreviation (input) GR_SHARE :: u16 where "GR_SHARE \<equiv> 1"
abbreviation (input) GR_LEASE :: u16 where "GR_LEASE \<equiv> 2"
abbreviation (input) GR_OPERATION_ID :: u16 where "GR_OPERATION_ID \<equiv> 3"

record LeaseGrant =
  lg_share :: bytes
  lg_lease :: bytes
  lg_operation_id :: "bytes option"

definition lease_grant_fields :: "LeaseGrant \<Rightarrow> (u16 \<times> bytes) list" where
  "lease_grant_fields g =
     [(GR_SHARE, lg_share g), (GR_LEASE, lg_lease g)] @ opt_field GR_OPERATION_ID (lg_operation_id g)"

definition encode_lease_grant :: "LeaseGrant \<Rightarrow> FormatError + bytes" where
  "encode_lease_grant g = write_fields (lease_grant_fields g)"

record LeaseGrantDecoder =
  gq_share :: "bytes option"
  gq_lease :: "bytes option"
  gq_operation_id :: "bytes option"

definition lease_grant_decode_start :: LeaseGrantDecoder where
  "lease_grant_decode_start = \<lparr>gq_share = None, gq_lease = None, gq_operation_id = None\<rparr>"

definition lease_grant_step :: "u16 \<Rightarrow> bytes \<Rightarrow> LeaseGrantDecoder \<Rightarrow> FormatError + LeaseGrantDecoder" where
  "lease_grant_step tag value d =
     (if tag = GR_SHARE then bindR (Inr value) (\<lambda>x. Inr (d\<lparr>gq_share := Some x\<rparr>))
      else if tag = GR_LEASE then bindR (Inr value) (\<lambda>x. Inr (d\<lparr>gq_lease := Some x\<rparr>))
      else if tag = GR_OPERATION_ID then bindR (exact_len 32 tag value) (\<lambda>x. Inr (d\<lparr>gq_operation_id := Some x\<rparr>))
      else bindR (refuse_if_critical tag) (\<lambda>_. Inr d))"

definition lease_grant_finish :: "LeaseGrantDecoder \<Rightarrow> FormatError + LeaseGrant" where
  "lease_grant_finish d =
     bindR (ok_or (MissingField GR_SHARE) (gq_share d)) (\<lambda>share.
     bindR (ok_or (MissingField GR_LEASE) (gq_lease d)) (\<lambda>lease.
     Inr \<lparr>lg_share = share, lg_lease = lease, lg_operation_id = gq_operation_id d\<rparr>))"

definition decode_lease_grant :: "bytes \<Rightarrow> FormatError + LeaseGrant" where
  "decode_lease_grant bs =
     bindR (ensure (\<not> length bs > MAX_DOCUMENT) OffsetOverflow) (\<lambda>_.
     bindR (tlv_values lease_grant_step bs lease_grant_decode_start) lease_grant_finish)"

abbreviation (input) DN_TEXT :: u16 where "DN_TEXT \<equiv> 1"
abbreviation (input) DN_OPERATION_ID :: u16 where "DN_OPERATION_ID \<equiv> 2"

record Deny =
  dn_text :: bytes
  dn_operation_id :: "bytes option"

definition deny_text_only :: "bytes \<Rightarrow> Deny" where
  "deny_text_only text = \<lparr>dn_text = text, dn_operation_id = None\<rparr>"

definition deny_fields :: "Deny \<Rightarrow> (u16 \<times> bytes) list" where
  "deny_fields x = [(DN_TEXT, dn_text x)] @ opt_field DN_OPERATION_ID (dn_operation_id x)"

definition encode_deny :: "Deny \<Rightarrow> FormatError + bytes" where
  "encode_deny x = write_fields (deny_fields x)"

definition deny_text :: "bytes \<Rightarrow> FormatError + bytes" where
  "deny_text value = ok_or (BadFieldLength DN_TEXT (length value)) (from_utf8 value)"

record DenyDecoder =
  dq_text :: "bytes option"
  dq_operation_id :: "bytes option"

definition deny_decode_start :: DenyDecoder where
  "deny_decode_start = \<lparr>dq_text = None, dq_operation_id = None\<rparr>"

definition deny_step :: "u16 \<Rightarrow> bytes \<Rightarrow> DenyDecoder \<Rightarrow> FormatError + DenyDecoder" where
  "deny_step tag value d =
     (if tag = DN_TEXT then bindR (deny_text value) (\<lambda>x. Inr (d\<lparr>dq_text := Some x\<rparr>))
      else if tag = DN_OPERATION_ID then bindR (exact_len 32 tag value) (\<lambda>x. Inr (d\<lparr>dq_operation_id := Some x\<rparr>))
      else bindR (refuse_if_critical tag) (\<lambda>_. Inr d))"

definition deny_finish :: "DenyDecoder \<Rightarrow> FormatError + Deny" where
  "deny_finish d =
     bindR (ok_or (MissingField DN_TEXT) (dq_text d)) (\<lambda>text.
     Inr \<lparr>dn_text = text, dn_operation_id = dq_operation_id d\<rparr>)"

definition decode_deny :: "bytes \<Rightarrow> FormatError + Deny" where
  "decode_deny bs =
     bindR (ensure (\<not> length bs > MAX_DOCUMENT) OffsetOverflow) (\<lambda>_.
     bindR (tlv_values deny_step bs deny_decode_start) deny_finish)"

section \<open>Chains of grants\<close>

definition MAX_CHAIN_DOCUMENTS :: nat where
  "MAX_CHAIN_DOCUMENTS = saturating_add_usize 1 (unat MAX_GRANT_DEPTH)"

definition join_chain :: "bytes list \<Rightarrow> FormatError + bytes" where
  "join_chain docs =
     bindR (ensure (\<not> (docs = [] \<or> length docs > MAX_CHAIN_DOCUMENTS)) (BadFieldLength 0 (length docs))) (\<lambda>_.
     foldR (\<lambda>doc body.
       bindR (ensure (\<not> (doc = [] \<or> length doc > MAX_DOCUMENT)) (BadFieldLength 0 (length doc))) (\<lambda>_.
       bindR (ok_or OffsetOverflow (u32_of_usize (length doc))) (\<lambda>len.
       Inr (body @ le32 len @ doc)))) docs [])"

function split_chain_loop :: "bytes \<Rightarrow> bytes list \<Rightarrow> FormatError + bytes list" where
  "split_chain_loop rest out =
     (if rest = [] then Inr out
      else if length out \<ge> MAX_CHAIN_DOCUMENTS then Inl (BadFieldLength 0 (saturating_add_usize (length out) 1))
      else
        (case split_at_checked rest 4 of
           None \<Rightarrow> Inl (BadFieldLength 0 (length rest))
         | Some (head, tail) \<Rightarrow>
             if le_nat head = 0 \<or> le_nat head > MAX_DOCUMENT then Inl (BadFieldLength 0 (le_nat head))
             else
               (case split_at_checked tail (le_nat head) of
                  None \<Rightarrow> Inl (BadFieldLength 0 (le_nat head))
                | Some (doc, after) \<Rightarrow> split_chain_loop after (out @ [doc]))))"
  by pat_completeness auto
termination
  by (relation "measure (\<lambda>(rest, out). length rest)") (auto simp: split_at_checked_eq_Some)

declare split_chain_loop.simps [simp del]

definition split_chain :: "bytes \<Rightarrow> FormatError + bytes list" where
  "split_chain body =
     bindR (split_chain_loop body []) (\<lambda>out.
     bindR (ensure (out \<noteq> []) (BadFieldLength 0 0)) (\<lambda>_.
     Inr out))"

abbreviation (input) CT_DOCUMENTS :: u16 where "CT_DOCUMENTS \<equiv> 1"
abbreviation (input) CT_LEASE_VERIFY_KEY :: u16 where "CT_LEASE_VERIFY_KEY \<equiv> 0x8001"
abbreviation (input) CT_ACTION_GRANT :: u16 where "CT_ACTION_GRANT \<equiv> 0x8002"

definition encode_chain_reply :: "bytes \<Rightarrow> bytes option \<Rightarrow> bytes option \<Rightarrow> FormatError + bytes" where
  "encode_chain_reply documents lease_verify_key action_grant =
     bindR (split_chain documents) (\<lambda>_.
     bindR (put CT_DOCUMENTS documents writer_new) (\<lambda>w.
     bindR (put_opt CT_LEASE_VERIFY_KEY lease_verify_key w) (\<lambda>w.
     bindR (case action_grant of
              None \<Rightarrow> Inr w
            | Some bs \<Rightarrow> if bs \<noteq> [] then put CT_ACTION_GRANT bs w else Inr w) (\<lambda>w.
     Inr (finish w)))))"

definition action_grant_value :: "bytes \<Rightarrow> FormatError + bytes" where
  "action_grant_value value = (if value = [] then Inl (BadFieldLength CT_ACTION_GRANT 0) else Inr value)"

record ChainReplyDecoder =
  kq_documents :: "bytes option"
  kq_key :: "bytes option"
  kq_actions :: "bytes option"

definition chain_reply_decode_start :: ChainReplyDecoder where
  "chain_reply_decode_start = \<lparr>kq_documents = None, kq_key = None, kq_actions = None\<rparr>"

definition chain_reply_step :: "u16 \<Rightarrow> bytes \<Rightarrow> ChainReplyDecoder \<Rightarrow> FormatError + ChainReplyDecoder" where
  "chain_reply_step tag value d =
     (if tag = CT_DOCUMENTS then bindR (bindR (split_chain value) (\<lambda>_. Inr value)) (\<lambda>x. Inr (d\<lparr>kq_documents := Some x\<rparr>))
      else if tag = CT_LEASE_VERIFY_KEY then bindR (exact_len 32 tag value) (\<lambda>x. Inr (d\<lparr>kq_key := Some x\<rparr>))
      else if tag = CT_ACTION_GRANT then bindR (action_grant_value value) (\<lambda>x. Inr (d\<lparr>kq_actions := Some x\<rparr>))
      else bindR (refuse_if_critical tag) (\<lambda>_. Inr d))"

definition chain_reply_finish :: "ChainReplyDecoder \<Rightarrow> FormatError + (bytes \<times> bytes option \<times> bytes option)" where
  "chain_reply_finish d =
     bindR (ok_or (MissingField CT_DOCUMENTS) (kq_documents d)) (\<lambda>documents.
     Inr (documents, kq_key d, kq_actions d))"

definition decode_chain_reply :: "bytes \<Rightarrow> FormatError + (bytes \<times> bytes option \<times> bytes option)" where
  "decode_chain_reply body = bindR (tlv_values chain_reply_step body chain_reply_decode_start) chain_reply_finish"

section \<open>Slots, clocks and values\<close>

definition slot_bytes :: "SlotBlob \<Rightarrow> bytes" where
  "slot_bytes s = le_bytes 4 (length (slb_enc s)) @ slb_enc s @ slb_nonce s @ le_bytes 4 (length (slb_ct s)) @ slb_ct s"

definition slot_blob_wf :: "SlotBlob \<Rightarrow> bool" where
  "slot_blob_wf s \<longleftrightarrow> length (slb_nonce s) = 24 \<and> length (slb_enc s) < 4294967296 \<and> length (slb_ct s) < 4294967296"

lemma slot_blob_encode_Inr:
  "slot_blob_encode s = Inr bs \<longleftrightarrow> length (slb_enc s) < 4294967296 \<and> length (slb_ct s) < 4294967296 \<and> bs = slot_bytes s"
  by (auto simp: slot_blob_encode_def bindR_eq_Inr ok_or_eq_Inr u32_of_usize_def slot_bytes_def unat_of_nat take_bit_nat_eq_self
      split: if_splits)

lemma get_range_after:
  assumes "get_range (a @ c) n k = Some b" and "length a = n"
  shows "\<exists>c'. c = b @ c' \<and> k = n + length b"
  using assms by (intro exI [of _ "drop (k - n) c"]) (auto simp: get_range_def split: if_splits)

lemma read_len_after:
  assumes "read_len (a @ c) n = Inr m" and "length a = n"
  shows "\<exists>raw c'. c = raw @ c' \<and> length raw = 4 \<and> m = le_nat raw"
proof -
  from assms(1) obtain to raw where "get_range (a @ c) n to = Some raw" "to = n + 4" "m = le_nat raw"
    by (auto simp: read_len_def bindR_eq_Inr ok_or_eq_Inr checked_add_usize_def split: if_splits)
  with get_range_after [OF this(1) assms(2)] show ?thesis by auto
qed

lemma slot_blob_decode_Inr: "slot_blob_decode bs = Inr s \<longleftrightarrow> slot_blob_wf s \<and> bs = slot_bytes s"
proof
  assume "slot_blob_decode bs = Inr s"
  then obtain enc_len nonce_to ct_len enc nonce ct where
    r: "read_len bs 0 = Inr enc_len" "get_range bs 4 (4 + enc_len) = Some enc"
      "get_range bs (4 + enc_len) nonce_to = Some nonce" "nonce_to = 4 + enc_len + 24" "read_len bs nonce_to = Inr ct_len"
      "get_range bs (nonce_to + 4) (nonce_to + 4 + ct_len) = Some ct" "nonce_to + 4 + ct_len = length bs"
    and s: "s = \<lparr>slb_enc = enc, slb_nonce = nonce, slb_ct = ct\<rparr>"
    by (auto simp: slot_blob_decode_def bindR_eq_Inr ok_or_eq_Inr ensure_eq_Inr checked_add_usize_def simp del: add_2_eq_Suc' split: if_splits)
  obtain raw c1 where 1: "bs = raw @ c1" "length raw = 4" "enc_len = le_nat raw" using read_len_after [of "[]" bs 0 enc_len] r(1) by auto
  obtain c2 where 2: "c1 = enc @ c2" "length enc = enc_len" using get_range_after [of raw c1 4 "4 + enc_len" enc] r(2) 1 by auto
  obtain c3 where 3: "c2 = nonce @ c3" "length nonce = 24" using get_range_after [of "raw @ enc" c2 "4 + enc_len" nonce_to nonce] r(3,4) 1 2 by auto
  obtain raw' c4 where 4: "c3 = raw' @ c4" "length raw' = 4" "ct_len = le_nat raw'"
    using read_len_after [of "raw @ enc @ nonce" c3 nonce_to ct_len] r(4,5) 1 2 3 by auto
  obtain c5 where 5: "c4 = ct @ c5" "length ct = ct_len"
    using get_range_after [of "raw @ enc @ nonce @ raw'" c4 "nonce_to + 4" "nonce_to + 4 + ct_len" ct] r(4,6) 1 2 3 4 by auto
  have "c5 = []" using r(4,7) 1 2 3 4 5 by simp
  moreover have "le_bytes 4 (le_nat raw) = raw" "le_bytes 4 (le_nat raw') = raw'" using 1 4 by (simp_all add: le_bytes_le_nat)
  moreover have "le_nat raw < 4294967296" "le_nat raw' < 4294967296" using le_nat_less [of raw] le_nat_less [of raw'] 1 4 by simp_all
  ultimately show "slot_blob_wf s \<and> bs = slot_bytes s" using 1 2 3 4 5 by (simp add: s slot_blob_wf_def slot_bytes_def)
next
  assume s: "slot_blob_wf s \<and> bs = slot_bytes s"
  obtain enc nonce ct where [simp]: "s = \<lparr>slb_enc = enc, slb_nonce = nonce, slb_ct = ct\<rparr>" by (cases s)
  show "slot_blob_decode bs = Inr s"
    using s by (simp add: slot_blob_decode_def slot_blob_wf_def slot_bytes_def read_len_def checked_add_usize_def get_range_def le_nat_le_bytes)
qed

lemma clock_value_Inr: "clock_value t v = Inr c \<longleftrightarrow> v = clock_bytes c"
proof
  assume "clock_value t v = Inr c"
  then have v: "length v = 20" and c: "c = \<lparr>clk_reset_count = of_le (take 4 v), clk_clock_ms = of_le (take 8 (drop 4 v)), clk_read_at = of_le (drop 12 v)\<rparr>"
    by (auto simp: clock_value_def Let_def bindR_eq_Inr ok_or_eq_Inr ensure_eq_Inr get_range_def split: if_splits)
  have "drop 4 v = take 8 (drop 4 v) @ drop 12 v" using append_take_drop_id [of 8 "drop 4 v"] by simp
  then have "v = take 4 v @ take 8 (drop 4 v) @ drop 12 v" by (metis append_take_drop_id)
  then show "v = clock_bytes c" using v by (simp add: c clock_bytes_def le_bytes_of_le32 le_bytes_of_le64)
next
  assume "v = clock_bytes c"
  then show "clock_value t v = Inr c" by (cases c) (simp add: clock_value_def Let_def clock_bytes_def get_range_def)
qed

lemma activation_values:
  "slot_blob_decode v = Inr s \<longleftrightarrow> slot_blob_wf s \<and> v = slot_bytes s"
  "clock_value t v = Inr c \<longleftrightarrow> v = clock_bytes c"
  "nonempty t v = Inr x \<longleftrightarrow> v = x \<and> x \<noteq> []"
  "deny_text v = Inr x \<longleftrightarrow> v = x \<and> utf8_valid x"
  "action_grant_value v = Inr x \<longleftrightarrow> v = x \<and> x \<noteq> []"
  by (auto simp: slot_blob_decode_Inr clock_value_Inr nonempty_def deny_text_def action_grant_value_def ok_or_eq_Inr from_utf8_def
      split: if_splits)

lemma values_read:
  "slot_blob_wf s \<Longrightarrow> slot_blob_decode (slot_bytes s) = Inr s" "clock_value t (clock_bytes c) = Inr c" "x \<noteq> [] \<Longrightarrow> nonempty t x = Inr x"
  by (simp_all add: activation_values)

lemma clock_bytes_length [simp]: "length (clock_bytes c) = 20"
  by (simp add: clock_bytes_def)

lemma slot_bytes_length [simp]: "length (slot_bytes s) = 8 + length (slb_enc s) + length (slb_nonce s) + length (slb_ct s)"
  by (simp add: slot_bytes_def)

text \<open>What a body carries fits into the body.\<close>

lemma enc_fields_filter: "length (enc_fields (filter P fs)) \<le> length (enc_fields fs)"
  by (induction fs) auto

lemma carries_fits: "carries known fs body \<Longrightarrow> ascending None fs \<and> length (enc_fields fs) \<le> length body"
  using enc_fields_filter ascending_filter by (fastforce simp: carries_def)

section \<open>Which greetings are accepted\<close>

definition hello_tags :: "u16 list" where
  "hello_tags = [HL_DEVICE_FPR, HL_DEVICE_PUBLIC, HL_DEVICE_TPM, HL_DEVICE_HYBRID_KEM, HL_DEVICE_HYBRID_PUBLIC]"

definition hello_get :: "u16 \<Rightarrow> HelloDecoder \<Rightarrow> bytes option" where
  "hello_get tag d =
     (if tag = HL_DEVICE_FPR then hq_fpr d
      else if tag = HL_DEVICE_PUBLIC then hq_public d
      else if tag = HL_DEVICE_TPM then hq_tpm d
      else if tag = HL_DEVICE_HYBRID_KEM then map_option (\<lambda>b. [b]) (hq_hybrid_kem d)
      else if tag = HL_DEVICE_HYBRID_PUBLIC then hq_hybrid_public d
      else None)"

lemma hello_get_upd:
  "hello_get u (d\<lparr>hq_fpr := hqfpr\<rparr>) = (if u = HL_DEVICE_FPR then hqfpr else hello_get u d)"
  "hello_get u (d\<lparr>hq_public := hqpublic\<rparr>) = (if u = HL_DEVICE_PUBLIC then hqpublic else hello_get u d)"
  "hello_get u (d\<lparr>hq_tpm := hqtpm\<rparr>) = (if u = HL_DEVICE_TPM then hqtpm else hello_get u d)"
  "hello_get u (d\<lparr>hq_hybrid_kem := hqhybrid_kem\<rparr>) = (if u = HL_DEVICE_HYBRID_KEM then map_option (\<lambda>b. [b]) hqhybrid_kem else hello_get u d)"
  "hello_get u (d\<lparr>hq_hybrid_public := hqhybrid_public\<rparr>) = (if u = HL_DEVICE_HYBRID_PUBLIC then hqhybrid_public else hello_get u d)"
  by (simp_all add: hello_get_def)

interpretation hello_reader: field_decoder hello_step hello_decode_start hello_tags "[]" hello_get
proof
  fix t v s s' u
  assume step: "hello_step t v s = Inr s'"
  show "hello_get u s' = (if u = t \<and> t \<in> set hello_tags then Some v else hello_get u s)"
    using step by (auto simp: hello_step_def hello_tags_def hello_get_upd bindR_eq_Inr value_parsers_Inr activation_values split: if_splits)
  show "t \<in> set hello_tags \<or> t \<in> set [] \<or> CRIT_TAG_MAX < t"
    using step by (auto simp: hello_step_def hello_tags_def bindR_eq_Inr refuse_if_critical_Inr split: if_splits)
qed (simp_all add: hello_tags_def hello_decode_start_def hello_get_def hello_step_def refuse_if_critical_optional)

abbreviation (input) hybrid_ok :: "byte \<Rightarrow> bytes \<Rightarrow> bool" where
  "hybrid_ok kem public \<equiv> kem = 4 \<and> length public = 1216 \<or> kem = 5 \<and> length public = 1249"

definition hello_wf :: "Hello \<Rightarrow> bool" where
  "hello_wf h \<longleftrightarrow>
     length (hl_device_fpr h) = 32 \<and> length (hl_device_public h) = 32 \<and>
     (\<forall>tpm. hl_device_tpm h = Some tpm \<longrightarrow> length tpm = 65) \<and>
     (\<forall>kem public. hl_device_hybrid h = Some (kem, public) \<longrightarrow> hybrid_ok kem public)"

definition hello_state :: "Hello \<Rightarrow> HelloDecoder" where
  "hello_state h =
     \<lparr>hq_fpr = Some (hl_device_fpr h), hq_public = Some (hl_device_public h), hq_tpm = hl_device_tpm h,
      hq_hybrid_kem = map_option fst (hl_device_hybrid h), hq_hybrid_public = map_option snd (hl_device_hybrid h)\<rparr>"

lemma hello_hybrid_Inr:
  "hello_hybrid k p = Inr h \<longleftrightarrow> k = map_option fst h \<and> p = map_option snd h \<and> (\<forall>kem public. h = Some (kem, public) \<longrightarrow> hybrid_ok kem public)"
  by (cases k; cases p; cases h)
    (auto simp: hello_hybrid_def bindR_eq_Inr ensure_eq_Inr XWING_PUBLIC_KEY_LEN_def MLKEM_P256_PUBLIC_KEY_LEN_def split: if_splits)

lemma hello_finish_Inr:
  "hello_finish d = Inr h \<longleftrightarrow> d = hello_state h \<and> (\<forall>kem public. hl_device_hybrid h = Some (kem, public) \<longrightarrow> hybrid_ok kem public)"
  by (cases d, cases h) (auto simp: hello_finish_def hello_state_def bindR_eq_Inr ok_or_eq_Inr hello_hybrid_Inr)

lemma hello_run:
  "run_fields hello_step (hello_fields h) hello_decode_start = Inr (hello_state h) \<longleftrightarrow>
     length (hl_device_fpr h) = 32 \<and> length (hl_device_public h) = 32 \<and> (\<forall>tpm. hl_device_tpm h = Some tpm \<longrightarrow> length tpm = 65)"
  by (cases "hl_device_tpm h"; cases "hl_device_hybrid h")
    (auto simp: hello_fields_def hello_step_def hello_decode_start_def hello_state_def bindR_eq_Inr)

lemma decode_hello_Inr: "decode_hello bs = Inr h \<longleftrightarrow> hello_wf h \<and> carries hello_tags (hello_fields h) bs"
proof -
  have "tlv_values hello_step bs hello_decode_start = Inr (hello_state h) \<longleftrightarrow>
     (length (hl_device_fpr h) = 32 \<and> length (hl_device_public h) = 32 \<and> (\<forall>tpm. hl_device_tpm h = Some tpm \<longrightarrow> length tpm = 65)) \<and>
     carries hello_tags (hello_fields h) bs"
    by (rule hello_reader.accepts_exactly [OF refl _ hello_run], cases "hl_device_hybrid h")
      (auto simp: hello_tags_def hello_get_def hello_state_def hello_fields_def)
  then show ?thesis by (auto simp: decode_hello_def bindR_eq_Inr hello_finish_Inr hello_wf_def)
qed

interpretation hello_codec: total_codec encode_hello decode_hello hello_wf
proof
  have asc: "ascending None (hello_fields h)" "\<forall>(t, v) \<in> set (hello_fields h). t \<in> set hello_tags" if "hello_wf h" for h
    using that by (cases "hl_device_tpm h"; cases "hl_device_hybrid h"; auto simp: hello_fields_def hello_wf_def hello_tags_def)+
  then have enc: "encode_hello h = Inr (enc_fields (hello_fields h))" if "hello_wf h" for h using that by (simp add: encode_hello_def)
  show "hello_wf h \<Longrightarrow> encode_hello h = Inr bs \<Longrightarrow> decode_hello bs = Inr h" for h bs
    using enc carries_self [OF asc] by (auto simp: decode_hello_Inr)
  show "hello_wf h \<Longrightarrow> \<exists>bs. encode_hello h = Inr bs" for h by (simp add: enc)
qed

section \<open>Which challenges and proofs are accepted\<close>

definition challenge_tags :: "u16 list" where
  "challenge_tags = [CH_SOFTWARE, CH_HARDWARE, CH_HYBRID]"

definition challenge_get :: "u16 \<Rightarrow> ChallengeDecoder \<Rightarrow> bytes option" where
  "challenge_get tag d =
     (if tag = CH_SOFTWARE then map_option (slot_bytes) (cq_software d)
      else if tag = CH_HARDWARE then map_option (slot_bytes) (cq_hardware d)
      else if tag = CH_HYBRID then map_option (slot_bytes) (cq_hybrid d)
      else None)"

lemma challenge_get_upd:
  "challenge_get u (d\<lparr>cq_software := cqsoftware\<rparr>) = (if u = CH_SOFTWARE then map_option (slot_bytes) cqsoftware else challenge_get u d)"
  "challenge_get u (d\<lparr>cq_hardware := cqhardware\<rparr>) = (if u = CH_HARDWARE then map_option (slot_bytes) cqhardware else challenge_get u d)"
  "challenge_get u (d\<lparr>cq_hybrid := cqhybrid\<rparr>) = (if u = CH_HYBRID then map_option (slot_bytes) cqhybrid else challenge_get u d)"
  by (simp_all add: challenge_get_def)

interpretation challenge_reader: field_decoder challenge_step challenge_decode_start challenge_tags "[]" challenge_get
proof
  fix t v s s' u
  assume step: "challenge_step t v s = Inr s'"
  show "challenge_get u s' = (if u = t \<and> t \<in> set challenge_tags then Some v else challenge_get u s)"
    using step by (auto simp: challenge_step_def challenge_tags_def challenge_get_upd bindR_eq_Inr value_parsers_Inr activation_values split: if_splits)
  show "t \<in> set challenge_tags \<or> t \<in> set [] \<or> CRIT_TAG_MAX < t"
    using step by (auto simp: challenge_step_def challenge_tags_def bindR_eq_Inr refuse_if_critical_Inr split: if_splits)
qed (simp_all add: challenge_tags_def challenge_decode_start_def challenge_get_def challenge_step_def refuse_if_critical_optional)

definition slot_blob_fits :: "SlotBlob \<Rightarrow> bool" where
  "slot_blob_fits s \<longleftrightarrow> length (slb_nonce s) = 24 \<and> length (slot_bytes s) < 4294967296"

lemma slot_blob_fits_wf: "slot_blob_fits s \<Longrightarrow> slot_blob_wf s"
  by (auto simp: slot_blob_fits_def slot_blob_wf_def)

lemma put_slot_fits: "(\<And>s. slot = Some s \<Longrightarrow> slot_blob_fits s) \<Longrightarrow> put_slot t slot w = put_all (opt_field t (map_option slot_bytes slot)) w"
  by (cases slot) (auto simp: put_slot_def put_all_one slot_blob_fits_def slot_blob_encode_Inr [THEN iffD2] simp del: put_all_simps(2))

lemma put_slot_Some: "slot_blob_fits s \<Longrightarrow> put_slot t (Some s) w = put t (slot_bytes s) w"
  using put_slot_fits [of "Some s"] by (simp add: put_all_one del: put_all_simps(2))

definition challenge_fields :: "Challenge \<Rightarrow> (u16 \<times> bytes) list" where
  "challenge_fields ch =
     [(CH_SOFTWARE, slot_bytes (ch_software ch))] @ opt_field CH_HARDWARE (map_option slot_bytes (ch_hardware ch)) @
     opt_field CH_HYBRID (map_option slot_bytes (ch_hybrid ch))"

definition challenge_wf :: "Challenge \<Rightarrow> bool" where
  "challenge_wf ch \<longleftrightarrow>
     slot_blob_fits (ch_software ch) \<and> (\<forall>s. ch_hardware ch = Some s \<longrightarrow> slot_blob_fits s) \<and> (\<forall>s. ch_hybrid ch = Some s \<longrightarrow> slot_blob_fits s)"

definition challenge_state :: "Challenge \<Rightarrow> ChallengeDecoder" where
  "challenge_state ch = \<lparr>cq_software = Some (ch_software ch), cq_hardware = ch_hardware ch, cq_hybrid = ch_hybrid ch\<rparr>"

lemma challenge_finish_Inr: "challenge_finish d = Inr ch \<longleftrightarrow> d = challenge_state ch"
  by (cases d, cases ch) (auto simp: challenge_finish_def challenge_state_def bindR_eq_Inr ok_or_eq_Inr)

lemma challenge_run:
  "run_fields challenge_step (challenge_fields ch) challenge_decode_start = Inr (challenge_state ch) \<longleftrightarrow>
     slot_blob_wf (ch_software ch) \<and> (\<forall>s. ch_hardware ch = Some s \<longrightarrow> slot_blob_wf s) \<and> (\<forall>s. ch_hybrid ch = Some s \<longrightarrow> slot_blob_wf s)"
  (is "?run \<longleftrightarrow> ?wf")
proof
  show "?run \<Longrightarrow> ?wf"
    by (cases "ch_hardware ch"; cases "ch_hybrid ch")
      (auto simp: challenge_fields_def challenge_step_def challenge_decode_start_def challenge_state_def bindR_eq_Inr activation_values)
  show "?wf \<Longrightarrow> ?run"
    by (cases "ch_hardware ch"; cases "ch_hybrid ch")
      (simp_all add: challenge_fields_def challenge_step_def challenge_decode_start_def challenge_state_def values_read)
qed

lemma decode_challenge_Inr: "decode_challenge bs = Inr ch \<longleftrightarrow> challenge_wf ch \<and> carries challenge_tags (challenge_fields ch) bs"
proof -
  have "tlv_values challenge_step bs challenge_decode_start = Inr (challenge_state ch) \<longleftrightarrow>
     (slot_blob_wf (ch_software ch) \<and> (\<forall>s. ch_hardware ch = Some s \<longrightarrow> slot_blob_wf s) \<and> (\<forall>s. ch_hybrid ch = Some s \<longrightarrow> slot_blob_wf s)) \<and>
     carries challenge_tags (challenge_fields ch) bs"
    by (rule challenge_reader.accepts_exactly [OF refl _ challenge_run])
      (simp add: challenge_tags_def challenge_get_def challenge_state_def challenge_fields_def)
  moreover have "challenge_wf ch \<longleftrightarrow>
     slot_blob_wf (ch_software ch) \<and> (\<forall>s. ch_hardware ch = Some s \<longrightarrow> slot_blob_wf s) \<and> (\<forall>s. ch_hybrid ch = Some s \<longrightarrow> slot_blob_wf s)"
    if "carries challenge_tags (challenge_fields ch) bs"
    using carries_fits [OF that]
    by (cases "ch_hardware ch"; cases "ch_hybrid ch")
      (auto simp: challenge_fields_def challenge_wf_def slot_blob_fits_def slot_blob_wf_def simp del: enc_fields_simps)
  ultimately show ?thesis by (auto simp: decode_challenge_def bindR_eq_Inr challenge_finish_Inr)
qed

interpretation challenge_codec: total_codec encode_challenge decode_challenge challenge_wf
proof
  have asc: "ascending None (challenge_fields ch)" "\<forall>(t, v) \<in> set (challenge_fields ch). t \<in> set challenge_tags" if "challenge_wf ch" for ch
    using that by (cases "ch_hardware ch"; cases "ch_hybrid ch"; auto simp: challenge_fields_def challenge_wf_def challenge_tags_def slot_blob_fits_def)+
  have enc: "encode_challenge ch = Inr (enc_fields (challenge_fields ch))" if "challenge_wf ch" for ch
  proof -
    have "encode_challenge ch = write_fields (challenge_fields ch)"
      using that by (simp add: encode_challenge_def write_fields_def challenge_fields_def challenge_wf_def put_slot_Some put_slot_fits put_all_append bindR_assoc)
    then show ?thesis using asc(1) [OF that] by simp
  qed
  show "challenge_wf ch \<Longrightarrow> encode_challenge ch = Inr bs \<Longrightarrow> decode_challenge bs = Inr ch" for ch bs
    using enc carries_self [OF asc] by (auto simp: decode_challenge_Inr)
  show "challenge_wf ch \<Longrightarrow> \<exists>bs. encode_challenge ch = Inr bs" for ch by (simp add: enc)
qed

definition proof_tags :: "u16 list" where
  "proof_tags = [PR_ECHO]"

definition proof_get :: "u16 \<Rightarrow> ProofDecoder \<Rightarrow> bytes option" where
  "proof_get tag d =
     (if tag = PR_ECHO then eq_echo d
      else None)"

lemma proof_get_upd:
  "proof_get u (d\<lparr>eq_echo := eqecho\<rparr>) = (if u = PR_ECHO then eqecho else proof_get u d)"
  by (simp_all add: proof_get_def)

interpretation proof_reader: field_decoder proof_step proof_decode_start proof_tags "[]" proof_get
proof
  fix t v s s' u
  assume step: "proof_step t v s = Inr s'"
  show "proof_get u s' = (if u = t \<and> t \<in> set proof_tags then Some v else proof_get u s)"
    using step by (auto simp: proof_step_def proof_tags_def proof_get_upd bindR_eq_Inr value_parsers_Inr activation_values split: if_splits)
  show "t \<in> set proof_tags \<or> t \<in> set [] \<or> CRIT_TAG_MAX < t"
    using step by (auto simp: proof_step_def proof_tags_def bindR_eq_Inr refuse_if_critical_Inr split: if_splits)
qed (simp_all add: proof_tags_def proof_decode_start_def proof_get_def proof_step_def refuse_if_critical_optional)

definition proof_wf :: "Proof \<Rightarrow> bool" where
  "proof_wf p \<longleftrightarrow> length (pf_echo p) = 32"

lemma decode_proof_Inr: "decode_proof bs = Inr p \<longleftrightarrow> proof_wf p \<and> carries proof_tags [(PR_ECHO, pf_echo p)] bs"
proof -
  have "tlv_values proof_step bs proof_decode_start = Inr \<lparr>eq_echo = Some (pf_echo p)\<rparr> \<longleftrightarrow>
     proof_wf p \<and> carries proof_tags [(PR_ECHO, pf_echo p)] bs"
    by (rule proof_reader.accepts_exactly)
      (auto simp: proof_tags_def proof_get_def proof_step_def proof_decode_start_def proof_wf_def bindR_eq_Inr)
  moreover have "proof_finish d = Inr p \<longleftrightarrow> d = \<lparr>eq_echo = Some (pf_echo p)\<rparr>" for d
    by (cases d, cases p) (auto simp: proof_finish_def bindR_eq_Inr ok_or_eq_Inr)
  ultimately show ?thesis by (auto simp: decode_proof_def bindR_eq_Inr)
qed

interpretation proof_codec: total_codec encode_proof decode_proof proof_wf
proof
  show "proof_wf p \<Longrightarrow> encode_proof p = Inr bs \<Longrightarrow> decode_proof bs = Inr p" for p bs
    using carries_self [of "[(PR_ECHO, pf_echo p)]" proof_tags]
    by (auto simp: decode_proof_Inr encode_proof_def write_fields_eq_Inr proof_tags_def simp del: enc_fields_simps)
  show "proof_wf p \<Longrightarrow> \<exists>bs. encode_proof p = Inr bs" for p by (simp add: encode_proof_def proof_wf_def)
qed

section \<open>Which requests for a lease are accepted\<close>

definition activate_req_tags :: "u16 list" where
  "activate_req_tags = [RQ_FILE_ID, RQ_POLICY_HASH, RQ_DEVICE_FPR, RQ_DEVICE_KEM, RQ_DEVICE_PUBLIC, RQ_SERVER_SLOT, RQ_LEASE_SECONDS, RQ_DEVICE_CLOCK, RQ_OPERATION_ID]"

definition activate_req_get :: "u16 \<Rightarrow> ActivateReqDecoder \<Rightarrow> bytes option" where
  "activate_req_get tag d =
     (if tag = RQ_FILE_ID then rq_file_id d
      else if tag = RQ_POLICY_HASH then rq_policy_hash d
      else if tag = RQ_DEVICE_FPR then rq_device_fpr d
      else if tag = RQ_DEVICE_KEM then map_option (\<lambda>b. [b]) (rq_device_kem d)
      else if tag = RQ_DEVICE_PUBLIC then rq_device_public d
      else if tag = RQ_SERVER_SLOT then map_option (slot_bytes) (rq_slot d)
      else if tag = RQ_LEASE_SECONDS then map_option (\<lambda>w. le64 w) (rq_lease_seconds d)
      else if tag = RQ_DEVICE_CLOCK then map_option (clock_bytes) (rq_device_clock d)
      else if tag = RQ_OPERATION_ID then rq_operation_id d
      else None)"

lemma activate_req_get_upd:
  "activate_req_get u (d\<lparr>rq_file_id := rqfile_id\<rparr>) = (if u = RQ_FILE_ID then rqfile_id else activate_req_get u d)"
  "activate_req_get u (d\<lparr>rq_policy_hash := rqpolicy_hash\<rparr>) = (if u = RQ_POLICY_HASH then rqpolicy_hash else activate_req_get u d)"
  "activate_req_get u (d\<lparr>rq_device_fpr := rqdevice_fpr\<rparr>) = (if u = RQ_DEVICE_FPR then rqdevice_fpr else activate_req_get u d)"
  "activate_req_get u (d\<lparr>rq_device_kem := rqdevice_kem\<rparr>) = (if u = RQ_DEVICE_KEM then map_option (\<lambda>b. [b]) rqdevice_kem else activate_req_get u d)"
  "activate_req_get u (d\<lparr>rq_device_public := rqdevice_public\<rparr>) = (if u = RQ_DEVICE_PUBLIC then rqdevice_public else activate_req_get u d)"
  "activate_req_get u (d\<lparr>rq_slot := rqslot\<rparr>) = (if u = RQ_SERVER_SLOT then map_option (slot_bytes) rqslot else activate_req_get u d)"
  "activate_req_get u (d\<lparr>rq_lease_seconds := rqlease_seconds\<rparr>) = (if u = RQ_LEASE_SECONDS then map_option (\<lambda>w. le64 w) rqlease_seconds else activate_req_get u d)"
  "activate_req_get u (d\<lparr>rq_device_clock := rqdevice_clock\<rparr>) = (if u = RQ_DEVICE_CLOCK then map_option (clock_bytes) rqdevice_clock else activate_req_get u d)"
  "activate_req_get u (d\<lparr>rq_operation_id := rqoperation_id\<rparr>) = (if u = RQ_OPERATION_ID then rqoperation_id else activate_req_get u d)"
  by (simp_all add: activate_req_get_def)

interpretation activate_req_reader: field_decoder activate_req_step activate_req_decode_start activate_req_tags "[]" activate_req_get
proof
  fix t v s s' u
  assume step: "activate_req_step t v s = Inr s'"
  show "activate_req_get u s' = (if u = t \<and> t \<in> set activate_req_tags then Some v else activate_req_get u s)"
    using step by (auto simp: activate_req_step_def activate_req_tags_def activate_req_get_upd bindR_eq_Inr value_parsers_Inr activation_values split: if_splits)
  show "t \<in> set activate_req_tags \<or> t \<in> set [] \<or> CRIT_TAG_MAX < t"
    using step by (auto simp: activate_req_step_def activate_req_tags_def bindR_eq_Inr refuse_if_critical_Inr split: if_splits)
qed (simp_all add: activate_req_tags_def activate_req_decode_start_def activate_req_get_def activate_req_step_def refuse_if_critical_optional)

definition activate_req_fields :: "ActivateReq \<Rightarrow> (u16 \<times> bytes) list" where
  "activate_req_fields r =
     [(RQ_FILE_ID, ar_file_id r), (RQ_POLICY_HASH, ar_policy_hash r), (RQ_DEVICE_FPR, ar_device_fpr r), (RQ_DEVICE_KEM, [ar_device_kem r]),
      (RQ_DEVICE_PUBLIC, ar_device_public r), (RQ_SERVER_SLOT, slot_bytes (ar_server_slot r)), (RQ_LEASE_SECONDS, le64 (ar_lease_seconds r))] @
     opt_field RQ_DEVICE_CLOCK (map_option clock_bytes (ar_device_clock r)) @ opt_field RQ_OPERATION_ID (ar_operation_id r)"

definition activate_req_wf :: "ActivateReq \<Rightarrow> bool" where
  "activate_req_wf r \<longleftrightarrow>
     length (ar_file_id r) = 16 \<and> length (ar_policy_hash r) = 32 \<and> length (ar_device_fpr r) = 32 \<and> ar_device_public r \<noteq> [] \<and>
     length (slb_nonce (ar_server_slot r)) = 24 \<and> (\<forall>id. ar_operation_id r = Some id \<longrightarrow> length id = 32) \<and>
     length (enc_fields (activate_req_fields r)) \<le> 1048576"

definition activate_req_state :: "ActivateReq \<Rightarrow> ActivateReqDecoder" where
  "activate_req_state r =
     \<lparr>rq_file_id = Some (ar_file_id r), rq_policy_hash = Some (ar_policy_hash r), rq_device_fpr = Some (ar_device_fpr r),
      rq_device_kem = Some (ar_device_kem r), rq_device_public = Some (ar_device_public r), rq_slot = Some (ar_server_slot r),
      rq_lease_seconds = Some (ar_lease_seconds r), rq_device_clock = ar_device_clock r, rq_operation_id = ar_operation_id r\<rparr>"

lemma activate_req_finish_Inr: "activate_req_finish d = Inr r \<longleftrightarrow> d = activate_req_state r"
  by (cases d, cases r) (auto simp: activate_req_finish_def activate_req_state_def bindR_eq_Inr ok_or_eq_Inr)

lemma activate_req_run:
  "run_fields activate_req_step (activate_req_fields r) activate_req_decode_start = Inr (activate_req_state r) \<longleftrightarrow>
     length (ar_file_id r) = 16 \<and> length (ar_policy_hash r) = 32 \<and> length (ar_device_fpr r) = 32 \<and> ar_device_public r \<noteq> [] \<and>
     slot_blob_wf (ar_server_slot r) \<and> (\<forall>id. ar_operation_id r = Some id \<longrightarrow> length id = 32)"
  (is "?run \<longleftrightarrow> ?wf")
proof
  show "?run \<Longrightarrow> ?wf"
    by (cases "ar_device_clock r"; cases "ar_operation_id r")
      (auto simp: activate_req_fields_def activate_req_step_def activate_req_decode_start_def activate_req_state_def
        bindR_eq_Inr activation_values)
  show "?wf \<Longrightarrow> ?run"
    by (cases "ar_device_clock r"; cases "ar_operation_id r")
      (simp_all add: activate_req_fields_def activate_req_step_def activate_req_decode_start_def activate_req_state_def
        values_read exact_len_def)
qed

lemma decode_req_Inr:
  "decode_req bs = Inr r \<longleftrightarrow> length bs \<le> 1048576 \<and> activate_req_wf r \<and> carries activate_req_tags (activate_req_fields r) bs"
proof -
  have "tlv_values activate_req_step bs activate_req_decode_start = Inr (activate_req_state r) \<longleftrightarrow>
     (length (ar_file_id r) = 16 \<and> length (ar_policy_hash r) = 32 \<and> length (ar_device_fpr r) = 32 \<and> ar_device_public r \<noteq> [] \<and>
     slot_blob_wf (ar_server_slot r) \<and> (\<forall>id. ar_operation_id r = Some id \<longrightarrow> length id = 32)) \<and>
     carries activate_req_tags (activate_req_fields r) bs"
    by (rule activate_req_reader.accepts_exactly [OF refl _ activate_req_run])
      (simp add: activate_req_tags_def activate_req_get_def activate_req_state_def activate_req_fields_def)
  moreover have "slot_blob_wf (ar_server_slot r) \<longleftrightarrow> length (slb_nonce (ar_server_slot r)) = 24"
    if "length (enc_fields (activate_req_fields r)) \<le> 1048576"
    using that by (auto simp: activate_req_fields_def slot_blob_wf_def)
  moreover have "length (enc_fields (activate_req_fields r)) \<le> length bs" if "carries activate_req_tags (activate_req_fields r) bs"
    using carries_fits [OF that] by blast
  ultimately show ?thesis
    unfolding decode_req_def bindR_eq_Inr ensure_eq_Inr activate_req_finish_Inr activate_req_wf_def MAX_DOCUMENT_def MAX_HEADER_LEN_def
    by (auto dest: le_trans)
qed

interpretation activate_req_codec: total_codec encode_req decode_req activate_req_wf
proof
  have asc: "ascending None (activate_req_fields r)" "\<forall>(t, v) \<in> set (activate_req_fields r). t \<in> set activate_req_tags"
    if "activate_req_wf r" for r
    using that by (cases "ar_device_clock r"; cases "ar_operation_id r"; auto simp: activate_req_fields_def activate_req_wf_def activate_req_tags_def)+
  have enc: "encode_req r = Inr (enc_fields (activate_req_fields r))" if "activate_req_wf r" for r
  proof -
    have "slot_blob_fits (ar_server_slot r)"
      using that by (auto simp: activate_req_wf_def slot_blob_fits_def activate_req_fields_def)
    then have "encode_req r = write_fields (activate_req_fields r)"
      by (simp add: encode_req_def write_fields_def activate_req_fields_def put_slot_Some put_opt_all put_all_append bindR_assoc)
    then show ?thesis using asc(1) [OF that] by simp
  qed
  show "activate_req_wf r \<Longrightarrow> encode_req r = Inr bs \<Longrightarrow> decode_req bs = Inr r" for r bs
    using enc carries_self [OF asc] by (auto simp: decode_req_Inr activate_req_wf_def)
  show "activate_req_wf r \<Longrightarrow> \<exists>bs. encode_req r = Inr bs" for r by (simp add: enc)
qed

section \<open>Which answers are accepted\<close>

definition lease_grant_tags :: "u16 list" where
  "lease_grant_tags = [GR_SHARE, GR_LEASE, GR_OPERATION_ID]"

definition lease_grant_get :: "u16 \<Rightarrow> LeaseGrantDecoder \<Rightarrow> bytes option" where
  "lease_grant_get tag d =
     (if tag = GR_SHARE then gq_share d
      else if tag = GR_LEASE then gq_lease d
      else if tag = GR_OPERATION_ID then gq_operation_id d
      else None)"

lemma lease_grant_get_upd:
  "lease_grant_get u (d\<lparr>gq_share := gqshare\<rparr>) = (if u = GR_SHARE then gqshare else lease_grant_get u d)"
  "lease_grant_get u (d\<lparr>gq_lease := gqlease\<rparr>) = (if u = GR_LEASE then gqlease else lease_grant_get u d)"
  "lease_grant_get u (d\<lparr>gq_operation_id := gqoperation_id\<rparr>) = (if u = GR_OPERATION_ID then gqoperation_id else lease_grant_get u d)"
  by (simp_all add: lease_grant_get_def)

interpretation lease_grant_reader: field_decoder lease_grant_step lease_grant_decode_start lease_grant_tags "[]" lease_grant_get
proof
  fix t v s s' u
  assume step: "lease_grant_step t v s = Inr s'"
  show "lease_grant_get u s' = (if u = t \<and> t \<in> set lease_grant_tags then Some v else lease_grant_get u s)"
    using step by (auto simp: lease_grant_step_def lease_grant_tags_def lease_grant_get_upd bindR_eq_Inr value_parsers_Inr activation_values split: if_splits)
  show "t \<in> set lease_grant_tags \<or> t \<in> set [] \<or> CRIT_TAG_MAX < t"
    using step by (auto simp: lease_grant_step_def lease_grant_tags_def bindR_eq_Inr refuse_if_critical_Inr split: if_splits)
qed (simp_all add: lease_grant_tags_def lease_grant_decode_start_def lease_grant_get_def lease_grant_step_def refuse_if_critical_optional)

definition lease_grant_wf :: "LeaseGrant \<Rightarrow> bool" where
  "lease_grant_wf g \<longleftrightarrow>
     (\<forall>id. lg_operation_id g = Some id \<longrightarrow> length id = 32) \<and> length (enc_fields (lease_grant_fields g)) \<le> 1048576"

lemma decode_lease_grant_Inr:
  "decode_lease_grant bs = Inr g \<longleftrightarrow>
     length bs \<le> 1048576 \<and> lease_grant_wf g \<and> carries lease_grant_tags (lease_grant_fields g) bs"
proof -
  let ?s = "\<lparr>gq_share = Some (lg_share g), gq_lease = Some (lg_lease g), gq_operation_id = lg_operation_id g\<rparr>"
  have run: "run_fields lease_grant_step (lease_grant_fields g) lease_grant_decode_start = Inr ?s \<longleftrightarrow>
     (\<forall>id. lg_operation_id g = Some id \<longrightarrow> length id = 32)"
    by (cases "lg_operation_id g") (auto simp: lease_grant_fields_def lease_grant_step_def lease_grant_decode_start_def bindR_eq_Inr)
  have "tlv_values lease_grant_step bs lease_grant_decode_start = Inr ?s \<longleftrightarrow>
     (\<forall>id. lg_operation_id g = Some id \<longrightarrow> length id = 32) \<and> carries lease_grant_tags (lease_grant_fields g) bs"
    by (rule lease_grant_reader.accepts_exactly [OF refl _ run]) (simp add: lease_grant_tags_def lease_grant_get_def lease_grant_fields_def)
  moreover have "lease_grant_finish d = Inr g \<longleftrightarrow> d = ?s" for d
    by (cases d, cases g) (auto simp: lease_grant_finish_def bindR_eq_Inr ok_or_eq_Inr)
  moreover have "length (enc_fields (lease_grant_fields g)) \<le> length bs" if "carries lease_grant_tags (lease_grant_fields g) bs"
    using carries_fits [OF that] by blast
  ultimately show ?thesis
    unfolding decode_lease_grant_def bindR_eq_Inr ensure_eq_Inr lease_grant_wf_def MAX_DOCUMENT_def MAX_HEADER_LEN_def
    by (auto dest: le_trans)
qed

interpretation lease_grant_codec: total_codec encode_lease_grant decode_lease_grant lease_grant_wf
proof
  have asc: "ascending None (lease_grant_fields g)" "\<forall>(t, v) \<in> set (lease_grant_fields g). t \<in> set lease_grant_tags"
    if "lease_grant_wf g" for g
    using that by (cases "lg_operation_id g"; auto simp: lease_grant_fields_def lease_grant_wf_def lease_grant_tags_def)+
  then have enc: "encode_lease_grant g = Inr (enc_fields (lease_grant_fields g))" if "lease_grant_wf g" for g
    using that by (simp add: encode_lease_grant_def)
  show "lease_grant_wf g \<Longrightarrow> encode_lease_grant g = Inr bs \<Longrightarrow> decode_lease_grant bs = Inr g" for g bs
    using enc carries_self [OF asc] by (auto simp: decode_lease_grant_Inr lease_grant_wf_def)
  show "lease_grant_wf g \<Longrightarrow> \<exists>bs. encode_lease_grant g = Inr bs" for g by (simp add: enc)
qed

definition deny_tags :: "u16 list" where
  "deny_tags = [DN_TEXT, DN_OPERATION_ID]"

definition deny_get :: "u16 \<Rightarrow> DenyDecoder \<Rightarrow> bytes option" where
  "deny_get tag d =
     (if tag = DN_TEXT then dq_text d
      else if tag = DN_OPERATION_ID then dq_operation_id d
      else None)"

lemma deny_get_upd:
  "deny_get u (d\<lparr>dq_text := dqtext\<rparr>) = (if u = DN_TEXT then dqtext else deny_get u d)"
  "deny_get u (d\<lparr>dq_operation_id := dqoperation_id\<rparr>) = (if u = DN_OPERATION_ID then dqoperation_id else deny_get u d)"
  by (simp_all add: deny_get_def)

interpretation deny_reader: field_decoder deny_step deny_decode_start deny_tags "[]" deny_get
proof
  fix t v s s' u
  assume step: "deny_step t v s = Inr s'"
  show "deny_get u s' = (if u = t \<and> t \<in> set deny_tags then Some v else deny_get u s)"
    using step by (auto simp: deny_step_def deny_tags_def deny_get_upd bindR_eq_Inr value_parsers_Inr activation_values split: if_splits)
  show "t \<in> set deny_tags \<or> t \<in> set [] \<or> CRIT_TAG_MAX < t"
    using step by (auto simp: deny_step_def deny_tags_def bindR_eq_Inr refuse_if_critical_Inr split: if_splits)
qed (simp_all add: deny_tags_def deny_decode_start_def deny_get_def deny_step_def refuse_if_critical_optional)

definition deny_wf :: "Deny \<Rightarrow> bool" where
  "deny_wf x \<longleftrightarrow>
     utf8_valid (dn_text x) \<and> (\<forall>id. dn_operation_id x = Some id \<longrightarrow> length id = 32) \<and> length (enc_fields (deny_fields x)) \<le> 1048576"

lemma decode_deny_Inr:
  "decode_deny bs = Inr x \<longleftrightarrow> length bs \<le> 1048576 \<and> deny_wf x \<and> carries deny_tags (deny_fields x) bs"
proof -
  let ?s = "\<lparr>dq_text = Some (dn_text x), dq_operation_id = dn_operation_id x\<rparr>"
  have run: "run_fields deny_step (deny_fields x) deny_decode_start = Inr ?s \<longleftrightarrow>
     utf8_valid (dn_text x) \<and> (\<forall>id. dn_operation_id x = Some id \<longrightarrow> length id = 32)"
    by (cases "dn_operation_id x") (auto simp: deny_fields_def deny_step_def deny_decode_start_def bindR_eq_Inr activation_values)
  have "tlv_values deny_step bs deny_decode_start = Inr ?s \<longleftrightarrow>
     (utf8_valid (dn_text x) \<and> (\<forall>id. dn_operation_id x = Some id \<longrightarrow> length id = 32)) \<and> carries deny_tags (deny_fields x) bs"
    by (rule deny_reader.accepts_exactly [OF refl _ run]) (simp add: deny_tags_def deny_get_def deny_fields_def)
  moreover have "deny_finish d = Inr x \<longleftrightarrow> d = ?s" for d
    by (cases d, cases x) (auto simp: deny_finish_def bindR_eq_Inr ok_or_eq_Inr)
  moreover have "length (enc_fields (deny_fields x)) \<le> length bs" if "carries deny_tags (deny_fields x) bs"
    using carries_fits [OF that] by blast
  ultimately show ?thesis
    unfolding decode_deny_def bindR_eq_Inr ensure_eq_Inr deny_wf_def MAX_DOCUMENT_def MAX_HEADER_LEN_def
    by (auto dest: le_trans)
qed

interpretation deny_codec: total_codec encode_deny decode_deny deny_wf
proof
  have asc: "ascending None (deny_fields x)" "\<forall>(t, v) \<in> set (deny_fields x). t \<in> set deny_tags" if "deny_wf x" for x
    using that by (cases "dn_operation_id x"; auto simp: deny_fields_def deny_wf_def deny_tags_def)+
  then have enc: "encode_deny x = Inr (enc_fields (deny_fields x))" if "deny_wf x" for x
    using that by (simp add: encode_deny_def)
  show "deny_wf x \<Longrightarrow> encode_deny x = Inr bs \<Longrightarrow> decode_deny bs = Inr x" for x bs
    using enc carries_self [OF asc] by (auto simp: decode_deny_Inr deny_wf_def)
  show "deny_wf x \<Longrightarrow> \<exists>bs. encode_deny x = Inr bs" for x by (simp add: enc)
qed

section \<open>Which chains are accepted\<close>

lemma foldR_stream:
  assumes "\<And>x out out'. put_item x out = Inr out' \<longleftrightarrow> P x \<and> out' = out @ le_bytes 4 (length x) @ x"
  shows "foldR put_item xs out = Inr bs \<longleftrightarrow> (\<forall>x \<in> set xs. P x) \<and> bs = out @ enc_stream xs"
proof (induction xs arbitrary: out)
  case (Cons x xs)
  have "foldR put_item (x # xs) out = Inr bs \<longleftrightarrow> (\<exists>out'. put_item x out = Inr out' \<and> foldR put_item xs out' = Inr bs)"
    unfolding foldR.simps bindR_eq_Inr ..
  then show ?case unfolding assms Cons.IH by auto
qed auto

abbreviation (input) document_ok :: "bytes \<Rightarrow> bool" where
  "document_ok doc \<equiv> doc \<noteq> [] \<and> length doc \<le> 1048576"

lemma MAX_CHAIN_DOCUMENTS_5: "MAX_CHAIN_DOCUMENTS = 5"
  by (simp add: MAX_CHAIN_DOCUMENTS_def saturating_add_usize_def MAX_GRANT_DEPTH_def)

lemma MAX_DOCUMENT_value: "MAX_DOCUMENT = 1048576"
  by (simp add: MAX_DOCUMENT_def MAX_HEADER_LEN_def)

lemma join_chain_Inr:
  "join_chain docs = Inr body \<longleftrightarrow> docs \<noteq> [] \<and> length docs \<le> 5 \<and> (\<forall>doc \<in> set docs. document_ok doc) \<and> body = enc_stream docs"
proof -
  have item: "bindR (ensure (\<not> (doc = [] \<or> length doc > MAX_DOCUMENT)) (BadFieldLength 0 (length doc))) (\<lambda>_.
       bindR (ok_or OffsetOverflow (u32_of_usize (length doc))) (\<lambda>len. Inr (out @ le32 len @ doc))) = Inr out' \<longleftrightarrow>
     document_ok doc \<and> out' = out @ le_bytes 4 (length doc) @ doc" for doc out out'
    by (cases "length doc \<le> 1048576")
      (auto simp: bindR_eq_Inr ensure_eq_Inr ok_or_eq_Inr MAX_DOCUMENT_value u32_of_usize_def unat_of_nat take_bit_nat_eq_self)
  show ?thesis
    unfolding join_chain_def bind_unit_eq_Inr ensure_eq_Inr foldR_stream [OF item] MAX_CHAIN_DOCUMENTS_5 by (auto simp: not_less)
qed

lemma split_chain_loop_Inr:
  "split_chain_loop rest out = Inr docs \<longleftrightarrow>
     (\<exists>new. docs = out @ new \<and> rest = enc_stream new \<and> (\<forall>doc \<in> set new. document_ok doc) \<and> (new = [] \<or> length docs \<le> 5))"
proof (induction rest out arbitrary: docs rule: split_chain_loop.induct)
  case (1 rest out)
  show ?case (is "?l \<longleftrightarrow> ?r")
  proof (cases "rest = [] \<or> MAX_CHAIN_DOCUMENTS \<le> length out")
    case True
    then show ?thesis
      by (subst split_chain_loop.simps) (auto simp: MAX_CHAIN_DOCUMENTS_5 length_greater_0_conv [symmetric] simp del: length_greater_0_conv)
  next
    case False
    then have room: "rest \<noteq> []" "\<not> MAX_CHAIN_DOCUMENTS \<le> length out" by auto
    show ?thesis
    proof
      assume ?l
      then obtain head tail doc after where sp: "split_at_checked rest 4 = Some (head, tail)"
        "split_at_checked tail (le_nat head) = Some (doc, after)" and ok: "\<not> (le_nat head = 0 \<or> le_nat head > MAX_DOCUMENT)"
        and more: "split_chain_loop after (out @ [doc]) = Inr docs"
        using room by (subst (asm) split_chain_loop.simps) (auto split: option.splits if_splits)
      from "1.IH" [OF room sp(1) refl ok sp(2) refl] more obtain new where
        "docs = (out @ [doc]) @ new" "after = enc_stream new" "\<forall>doc \<in> set new. document_ok doc" "new = [] \<or> length docs \<le> 5" by blast
      moreover have "rest = le_bytes 4 (length doc) @ doc @ after" "length doc = le_nat head"
        using sp by (auto simp: split_at_parts le_bytes_le_nat)
      ultimately show ?r using ok room(2)
        by (intro exI [of _ "doc # new"]) (auto simp: MAX_DOCUMENT_value MAX_CHAIN_DOCUMENTS_5)
    next
      assume ?r
      then obtain new where n: "docs = out @ new" "rest = enc_stream new" "\<forall>doc \<in> set new. document_ok doc" "new = [] \<or> length docs \<le> 5" by blast
      with room(1) obtain x new' where new: "new = x # new'" by (cases new) auto
      have x: "document_ok x" using n(3) new by simp
      have len: "le_nat (le_bytes 4 (length x)) = length x" using x by (simp add: le_nat_le_bytes)
      have sp: "split_at_checked rest 4 = Some (le_bytes 4 (length x), x @ enc_stream new')"
        "split_at_checked (x @ enc_stream new') (le_nat (le_bytes 4 (length x))) = Some (x, enc_stream new')"
        using n(2) new len by simp_all
      have ok: "\<not> (le_nat (le_bytes 4 (length x)) = 0 \<or> le_nat (le_bytes 4 (length x)) > MAX_DOCUMENT)"
        using x by (simp add: len MAX_DOCUMENT_value)
      have "split_chain_loop (enc_stream new') (out @ [x]) = Inr docs"
        using "1.IH" [OF room sp(1) refl ok sp(2) refl, of docs] n new by auto
      then show ?l using room sp ok by (subst split_chain_loop.simps) simp
    qed
  qed
qed

lemma split_chain_Inr: "split_chain body = Inr docs \<longleftrightarrow> join_chain docs = Inr body"
  unfolding split_chain_def bindR_eq_Inr split_chain_loop_Inr join_chain_Inr ensure_eq_Inr by auto

definition chain_reply_tags :: "u16 list" where
  "chain_reply_tags = [CT_DOCUMENTS, CT_LEASE_VERIFY_KEY, CT_ACTION_GRANT]"

definition chain_reply_get :: "u16 \<Rightarrow> ChainReplyDecoder \<Rightarrow> bytes option" where
  "chain_reply_get tag d =
     (if tag = CT_DOCUMENTS then kq_documents d
      else if tag = CT_LEASE_VERIFY_KEY then kq_key d
      else if tag = CT_ACTION_GRANT then kq_actions d
      else None)"

lemma chain_reply_get_upd:
  "chain_reply_get u (d\<lparr>kq_documents := kqdocuments\<rparr>) = (if u = CT_DOCUMENTS then kqdocuments else chain_reply_get u d)"
  "chain_reply_get u (d\<lparr>kq_key := kqkey\<rparr>) = (if u = CT_LEASE_VERIFY_KEY then kqkey else chain_reply_get u d)"
  "chain_reply_get u (d\<lparr>kq_actions := kqactions\<rparr>) = (if u = CT_ACTION_GRANT then kqactions else chain_reply_get u d)"
  by (simp_all add: chain_reply_get_def)

interpretation chain_reply_reader: field_decoder chain_reply_step chain_reply_decode_start chain_reply_tags "[]" chain_reply_get
proof
  fix t v s s' u
  assume step: "chain_reply_step t v s = Inr s'"
  show "chain_reply_get u s' = (if u = t \<and> t \<in> set chain_reply_tags then Some v else chain_reply_get u s)"
    using step by (auto simp: chain_reply_step_def chain_reply_tags_def chain_reply_get_upd bindR_eq_Inr value_parsers_Inr activation_values split: if_splits)
  show "t \<in> set chain_reply_tags \<or> t \<in> set [] \<or> CRIT_TAG_MAX < t"
    using step by (auto simp: chain_reply_step_def chain_reply_tags_def bindR_eq_Inr refuse_if_critical_Inr split: if_splits)
qed (simp_all add: chain_reply_tags_def chain_reply_decode_start_def chain_reply_get_def chain_reply_step_def refuse_if_critical_optional)

definition chain_reply_fields :: "bytes \<times> bytes option \<times> bytes option \<Rightarrow> (u16 \<times> bytes) list" where
  "chain_reply_fields = (\<lambda>(documents, key, actions).
     [(CT_DOCUMENTS, documents)] @ opt_field CT_LEASE_VERIFY_KEY key @ opt_field CT_ACTION_GRANT actions)"

definition chain_reply_wf :: "bytes \<times> bytes option \<times> bytes option \<Rightarrow> bool" where
  "chain_reply_wf = (\<lambda>(documents, key, actions).
     is_ok (split_chain documents) \<and> (\<forall>k. key = Some k \<longrightarrow> length k = 32) \<and>
     (\<forall>a. actions = Some a \<longrightarrow> a \<noteq> [] \<and> length a < 4294967296))"

lemma is_ok_split_chain: "is_ok (split_chain v) \<longleftrightarrow> (\<exists>docs. split_chain v = Inr docs)"
  by (auto simp: is_ok_def split: sum.splits)

lemma chain_length: "is_ok (split_chain body) \<Longrightarrow> length body < 4294967296"
proof -
  have *: "\<forall>doc \<in> set docs. length doc \<le> 1048576 \<Longrightarrow> length (enc_stream docs) \<le> length docs * 1048580" for docs
    by (induction docs) auto
  assume "is_ok (split_chain body)"
  then obtain docs where "length docs \<le> 5" "\<forall>doc \<in> set docs. document_ok doc" "body = enc_stream docs"
    by (auto simp: is_ok_split_chain split_chain_Inr join_chain_Inr)
  with * [of docs] show ?thesis by simp
qed

lemma decode_chain_reply_Inr:
  "decode_chain_reply bs = Inr x \<longleftrightarrow> chain_reply_wf x \<and> carries chain_reply_tags (chain_reply_fields x) bs"
proof -
  obtain documents key actions where x: "x = (documents, key, actions)" by (cases x)
  let ?s = "\<lparr>kq_documents = Some documents, kq_key = key, kq_actions = actions\<rparr>"
  let ?P = "is_ok (split_chain documents) \<and> (\<forall>k. key = Some k \<longrightarrow> length k = 32) \<and> (\<forall>a. actions = Some a \<longrightarrow> a \<noteq> [])"
  have run: "run_fields chain_reply_step (chain_reply_fields x) chain_reply_decode_start = Inr ?s \<longleftrightarrow> ?P"
    by (cases key; cases actions)
      (auto simp: x chain_reply_fields_def chain_reply_step_def chain_reply_decode_start_def bindR_eq_Inr activation_values is_ok_split_chain)
  have "tlv_values chain_reply_step bs chain_reply_decode_start = Inr ?s \<longleftrightarrow> ?P \<and> carries chain_reply_tags (chain_reply_fields x) bs"
    by (rule chain_reply_reader.accepts_exactly [OF refl _ run]) (simp add: x chain_reply_tags_def chain_reply_get_def chain_reply_fields_def)
  moreover have "chain_reply_finish d = Inr x \<longleftrightarrow> d = ?s" for d
    by (cases d) (auto simp: x chain_reply_finish_def bindR_eq_Inr ok_or_eq_Inr)
  moreover have "\<forall>a. actions = Some a \<longrightarrow> length a < 4294967296" if "carries chain_reply_tags (chain_reply_fields x) bs"
    using carries_fits [OF that] by (cases key; cases actions) (auto simp: x chain_reply_fields_def)
  ultimately show ?thesis
    unfolding decode_chain_reply_def bindR_eq_Inr by (auto simp: x chain_reply_wf_def)
qed

lemma chain_reply_fields_ok:
  assumes "chain_reply_wf x"
  shows "ascending None (chain_reply_fields x)" and "\<forall>(t, v) \<in> set (chain_reply_fields x). t \<in> set chain_reply_tags"
  using assms chain_length by (cases "fst (snd x)"; cases "snd (snd x)"; cases x; force simp: chain_reply_fields_def chain_reply_wf_def chain_reply_tags_def)+

lemma encode_chain_reply_wf:
  assumes "chain_reply_wf (documents, key, actions)"
  shows "encode_chain_reply documents key actions = Inr (enc_fields (chain_reply_fields (documents, key, actions)))"
proof -
  have "encode_chain_reply documents key actions = write_fields (chain_reply_fields (documents, key, actions))"
    using assms
    by (cases actions) (auto simp: encode_chain_reply_def write_fields_def chain_reply_fields_def chain_reply_wf_def put_opt_all put_all_append
        bindR_assoc is_ok_split_chain)
  then show ?thesis using chain_reply_fields_ok(1) [OF assms] by simp
qed

interpretation chain_reply_codec: total_codec "\<lambda>(documents, key, actions). encode_chain_reply documents key actions" decode_chain_reply chain_reply_wf
proof
  show "chain_reply_wf x \<Longrightarrow> (case x of (documents, key, actions) \<Rightarrow> encode_chain_reply documents key actions) = Inr bs \<Longrightarrow> decode_chain_reply bs = Inr x" for x bs
    using carries_self [OF chain_reply_fields_ok] by (cases x) (auto simp: encode_chain_reply_wf decode_chain_reply_Inr)
  show "chain_reply_wf x \<Longrightarrow> \<exists>bs. (case x of (documents, key, actions) \<Rightarrow> encode_chain_reply documents key actions) = Inr bs" for x
    by (cases x) (auto simp: encode_chain_reply_wf)
qed

end
