(* ===== verification/OC_Envelope.thy ===== *)
theory OC_Envelope
  imports OC_Activation OC_Replica
begin

text \<open>
  The envelope of the protocol (\<^verbatim>\<open>oc-protocol/src/activation.rs\<close>): every request and every response
  is one byte that names its kind and a body.  The bodies are the documents of \<open>OC_Activation\<close>,
  \<open>OC_Evidence\<close>, \<open>OC_Directory\<close>, \<open>OC_Witness\<close> and \<open>OC_Access\<close>, small fixed layouts, or signed documents
  that are handed on unread.
\<close>

section \<open>Kinds\<close>

abbreviation (input) KIND_HELLO :: byte where "KIND_HELLO \<equiv> 1"
abbreviation (input) KIND_PROVE :: byte where "KIND_PROVE \<equiv> 2"
abbreviation (input) KIND_ACTIVATE :: byte where "KIND_ACTIVATE \<equiv> 3"
abbreviation (input) KIND_CHALLENGE :: byte where "KIND_CHALLENGE \<equiv> 4"
abbreviation (input) KIND_PROVEN :: byte where "KIND_PROVEN \<equiv> 5"
abbreviation (input) KIND_GRANTED :: byte where "KIND_GRANTED \<equiv> 6"
abbreviation (input) KIND_DENIED :: byte where "KIND_DENIED \<equiv> 7"
abbreviation (input) KIND_ASK :: byte where "KIND_ASK \<equiv> 8"
abbreviation (input) KIND_COLLECT :: byte where "KIND_COLLECT \<equiv> 9"
abbreviation (input) KIND_DECIDE :: byte where "KIND_DECIDE \<equiv> 10"
abbreviation (input) KIND_ASKED :: byte where "KIND_ASKED \<equiv> 11"
abbreviation (input) KIND_DECIDED :: byte where "KIND_DECIDED \<equiv> 12"
abbreviation (input) KIND_WAITING :: byte where "KIND_WAITING \<equiv> 13"
abbreviation (input) KIND_ACCEPTED :: byte where "KIND_ACCEPTED \<equiv> 14"
abbreviation (input) KIND_REQUESTS :: byte where "KIND_REQUESTS \<equiv> 15"
abbreviation (input) KIND_QUEUE :: byte where "KIND_QUEUE \<equiv> 16"
abbreviation (input) KIND_WATCH :: byte where "KIND_WATCH \<equiv> 17"
abbreviation (input) KIND_NOTICE :: byte where "KIND_NOTICE \<equiv> 18"
abbreviation (input) KIND_REVOCATION_REQ :: byte where "KIND_REVOCATION_REQ \<equiv> 19"
abbreviation (input) KIND_REVOCATION :: byte where "KIND_REVOCATION \<equiv> 20"
abbreviation (input) KIND_NOT_REVOKED :: byte where "KIND_NOT_REVOKED \<equiv> 21"
abbreviation (input) KIND_RENEW :: byte where "KIND_RENEW \<equiv> 22"
abbreviation (input) KIND_REGISTER :: byte where "KIND_REGISTER \<equiv> 23"
abbreviation (input) KIND_REVOKE :: byte where "KIND_REVOKE \<equiv> 24"
abbreviation (input) KIND_ORDER :: byte where "KIND_ORDER \<equiv> 25"
abbreviation (input) KIND_ENDORSE :: byte where "KIND_ENDORSE \<equiv> 26"
abbreviation (input) KIND_STANDING_REQ :: byte where "KIND_STANDING_REQ \<equiv> 27"
abbreviation (input) KIND_WATCH_AUTHOR :: byte where "KIND_WATCH_AUTHOR \<equiv> 30"
abbreviation (input) KIND_ENDORSED :: byte where "KIND_ENDORSED \<equiv> 28"
abbreviation (input) KIND_STANDING :: byte where "KIND_STANDING \<equiv> 29"
abbreviation (input) KIND_ATTEST_OPEN :: byte where "KIND_ATTEST_OPEN \<equiv> 31"
abbreviation (input) KIND_ATTEST_EVIDENCE :: byte where "KIND_ATTEST_EVIDENCE \<equiv> 32"
abbreviation (input) KIND_ATTEST_SECRET :: byte where "KIND_ATTEST_SECRET \<equiv> 33"
abbreviation (input) KIND_ATTEST_NONCE :: byte where "KIND_ATTEST_NONCE \<equiv> 34"
abbreviation (input) KIND_ATTEST_CREDENTIAL :: byte where "KIND_ATTEST_CREDENTIAL \<equiv> 35"
abbreviation (input) KIND_ATTESTED :: byte where "KIND_ATTESTED \<equiv> 36"
abbreviation (input) KIND_REGISTER_EDITION :: byte where "KIND_REGISTER_EDITION \<equiv> 37"
abbreviation (input) KIND_JOURNAL_VIEW_REQ :: byte where "KIND_JOURNAL_VIEW_REQ \<equiv> 38"
abbreviation (input) KIND_LOG_VIEW :: byte where "KIND_LOG_VIEW \<equiv> 39"
abbreviation (input) KIND_DIRECTORY_VIEW_REQ :: byte where "KIND_DIRECTORY_VIEW_REQ \<equiv> 40"
abbreviation (input) KIND_DIRECTORY_LOOKUP_REQ :: byte where "KIND_DIRECTORY_LOOKUP_REQ \<equiv> 41"
abbreviation (input) KIND_DIRECTORY_ENTRY :: byte where "KIND_DIRECTORY_ENTRY \<equiv> 42"
abbreviation (input) KIND_DIRECTORY_RECORDS_REQ :: byte where "KIND_DIRECTORY_RECORDS_REQ \<equiv> 43"
abbreviation (input) KIND_DIRECTORY_RECORDS :: byte where "KIND_DIRECTORY_RECORDS \<equiv> 44"
abbreviation (input) KIND_CONTROL :: byte where "KIND_CONTROL \<equiv> 45"
abbreviation (input) KIND_RECEIPT :: byte where "KIND_RECEIPT \<equiv> 46"
abbreviation (input) KIND_BINDING_REQ :: byte where "KIND_BINDING_REQ \<equiv> 47"
abbreviation (input) KIND_BINDING :: byte where "KIND_BINDING \<equiv> 48"
abbreviation (input) KIND_REPLICA_PUSH :: byte where "KIND_REPLICA_PUSH \<equiv> 49"
abbreviation (input) KIND_REPLICA_ACK :: byte where "KIND_REPLICA_ACK \<equiv> 50"
abbreviation (input) KIND_PUT_GRANT :: byte where "KIND_PUT_GRANT \<equiv> 51"
abbreviation (input) KIND_PUT_DELEGATION :: byte where "KIND_PUT_DELEGATION \<equiv> 52"
abbreviation (input) KIND_FETCH_CHAIN :: byte where "KIND_FETCH_CHAIN \<equiv> 53"
abbreviation (input) KIND_CHAIN_STORED :: byte where "KIND_CHAIN_STORED \<equiv> 54"
abbreviation (input) KIND_CHAIN :: byte where "KIND_CHAIN \<equiv> 55"
abbreviation (input) KIND_NO_CHAIN :: byte where "KIND_NO_CHAIN \<equiv> 56"
abbreviation (input) KIND_PUT_ACTION_GRANT :: byte where "KIND_PUT_ACTION_GRANT \<equiv> 57"
abbreviation (input) KIND_REQUEST_ACTION :: byte where "KIND_REQUEST_ACTION \<equiv> 58"
abbreviation (input) KIND_REPORT_ACTION :: byte where "KIND_REPORT_ACTION \<equiv> 59"
abbreviation (input) KIND_ACTION_REQUESTS :: byte where "KIND_ACTION_REQUESTS \<equiv> 60"
abbreviation (input) KIND_DECIDE_ACTION :: byte where "KIND_DECIDE_ACTION \<equiv> 61"
abbreviation (input) KIND_ACTION_GRANTED :: byte where "KIND_ACTION_GRANTED \<equiv> 62"
abbreviation (input) KIND_ACTION_PENDING :: byte where "KIND_ACTION_PENDING \<equiv> 63"
abbreviation (input) KIND_ACTION_REFUSED :: byte where "KIND_ACTION_REFUSED \<equiv> 64"
abbreviation (input) KIND_ACTION_QUEUE :: byte where "KIND_ACTION_QUEUE \<equiv> 65"

section \<open>Small bodies\<close>

definition envelope_split_kind :: "bytes \<Rightarrow> FormatError + (byte \<times> bytes)" where
  "envelope_split_kind bs =
     bindR (ok_or (MissingField 0) (get_at bs 0)) (\<lambda>kind.
     bindR (ok_or (MissingField 0) (get_range bs 1 (length bs))) (\<lambda>body.
     Inr (kind, body)))"

definition no_body :: "bytes \<Rightarrow> FormatError + unit" where
  "no_body body = (if body = [] then Inr () else Inl (BadFieldLength 0 (length body)))"

definition opaque :: "bytes \<Rightarrow> FormatError + bytes" where
  "opaque bs =
     (if bs = [] \<or> length bs > MAX_DOCUMENT then Inl (BadFieldLength 0 (length bs)) else Inr bs)"

definition view_request :: "u64 \<Rightarrow> u64 \<Rightarrow> bytes" where
  "view_request since until = le64 since @ le64 until"

definition decode_view_request :: "bytes \<Rightarrow> FormatError + (u64 \<times> u64)" where
  "decode_view_request body =
     bindR (exact_len 16 0 body) (\<lambda>raw.
     Inr (of_le (take 8 raw), of_le (drop 8 raw)))"

definition NOTICE_HEARTBEAT :: byte where "NOTICE_HEARTBEAT = 0"
definition NOTICE_EVENT :: byte where "NOTICE_EVENT = 4"
definition NOTICE_EVENT_LEN :: nat where "NOTICE_EVENT_LEN = 8 + 1 + 16 + 1 + 32"
definition MAX_WATCH_FILES :: nat where "MAX_WATCH_FILES = 32"
definition COLLECT_LEN :: nat where "COLLECT_LEN = 48"
definition REQUEST_MAC_LEN :: nat where "REQUEST_MAC_LEN = 32"
definition MAX_REFUSAL :: nat where "MAX_REFUSAL = 1024"

datatype Notice =
    Heartbeat
  | JournalEvent u64 byte bytes "bytes option"

fun encode_notice :: "Notice \<Rightarrow> bytes" where
  "encode_notice Heartbeat = [NOTICE_HEARTBEAT]"
| "encode_notice (JournalEvent seq event file_id fpr_of_device) =
     [NOTICE_EVENT] @ le64 seq @ [event] @ file_id @
     (case fpr_of_device of Some fpr \<Rightarrow> [1] @ fpr | None \<Rightarrow> [0] @ replicate 32 0)"

definition decode_notice :: "bytes \<Rightarrow> FormatError + Notice" where
  "decode_notice bs =
     bindR (envelope_split_kind bs) (\<lambda>(kind, body).
     let bad = BadFieldLength 0 (length body) in
     if kind = NOTICE_HEARTBEAT then bindR (no_body body) (\<lambda>_. Inr Heartbeat)
     else if kind = NOTICE_EVENT then
       bindR (ensure (\<not> length body \<noteq> NOTICE_EVENT_LEN) bad) (\<lambda>_.
       bindR (ok_or bad (get_range body 0 8)) (\<lambda>seq.
       bindR (ok_or bad (get_at body 8)) (\<lambda>event.
       bindR (ok_or bad (get_range body 9 25)) (\<lambda>file_id.
       bindR (ok_or bad (get_at body 25)) (\<lambda>has.
       bindR (ok_or bad (get_range body 26 58)) (\<lambda>fpr.
       bindR (if has = 0 then Inr None else if has = 1 then Inr (Some fpr) else Inl bad) (\<lambda>fpr_of_device.
       Inr (JournalEvent (of_le seq) event file_id fpr_of_device))))))))
     else Inl (UnknownCriticalField (ucast kind)))"

record CollectReq =
  co_file_id :: bytes
  co_device_fpr :: bytes

definition encode_collect :: "CollectReq \<Rightarrow> bytes" where
  "encode_collect c = co_file_id c @ co_device_fpr c"

definition decode_collect :: "bytes \<Rightarrow> FormatError + CollectReq" where
  "decode_collect bs =
     (let bad = BadFieldLength 0 (length bs) in
      bindR (ensure (\<not> length bs \<noteq> COLLECT_LEN) bad) (\<lambda>_.
      bindR (ok_or bad (get_range bs 0 16)) (\<lambda>file_id.
      bindR (ok_or bad (get_range bs 16 COLLECT_LEN)) (\<lambda>fpr_of_device.
      Inr \<lparr>co_file_id = file_id, co_device_fpr = fpr_of_device\<rparr>))))"

definition encode_watch :: "bytes list \<Rightarrow> u64 \<Rightarrow> FormatError + bytes" where
  "encode_watch files since =
     bindR (ensure (\<not> (files = [] \<or> length files > MAX_WATCH_FILES)) (BadFieldLength 0 (length files))) (\<lambda>_.
     bindR (ok_or (BadFieldLength 0 (length files)) (if length files < 256 then Some (word_of_nat (length files)) else None)) (\<lambda>count.
     Inr (le64 since @ [count] @ concat files)))"

text \<open>\<^verbatim>\<open>chunks_exact(16)\<close>.\<close>

fun chunks_exact_16 :: "bytes \<Rightarrow> bytes list" where
  "chunks_exact_16 bs = (if length bs < 16 then [] else take 16 bs # chunks_exact_16 (drop 16 bs))"

declare chunks_exact_16.simps [simp del]

definition encode_endorse :: "bytes \<Rightarrow> bytes \<Rightarrow> FormatError + bytes" where
  "encode_endorse signer order = bindR (opaque order) (\<lambda>body. Inr (signer @ body))"

definition decode_endorse :: "bytes \<Rightarrow> FormatError + (bytes \<times> bytes)" where
  "decode_endorse body =
     bindR (ok_or (BadFieldLength 0 (length body)) (split_at_checked body 32)) (\<lambda>(signer, rest).
     bindR (opaque rest) (\<lambda>order.
     Inr (signer, order)))"

definition encode_register :: "bytes \<Rightarrow> bytes \<Rightarrow> FormatError + bytes" where
  "encode_register header order =
     bindR (ensure (\<not> (header = [] \<or> length header > MAX_DOCUMENT)) (BadFieldLength 0 (length header))) (\<lambda>_.
     bindR (opaque order) (\<lambda>order.
     bindR (ok_or (BadFieldLength 0 (length header)) (u32_of_usize (length header))) (\<lambda>len.
     Inr (le32 len @ header @ order))))"

definition decode_register :: "bytes \<Rightarrow> FormatError + (bytes \<times> bytes)" where
  "decode_register body =
     bindR (ok_or (Truncated 4 (length body)) (split_at_checked body 4)) (\<lambda>(head, rest).
     let len = le_nat head in
     bindR (ensure (\<not> (len = 0 \<or> len > MAX_DOCUMENT)) (BadFieldLength 0 len)) (\<lambda>_.
     bindR (ok_or (Truncated (saturating_add_usize len 4) (length body)) (split_at_checked rest len))
       (\<lambda>(header, order).
     bindR (opaque order) (\<lambda>order.
     Inr (header, order)))))"

definition encode_report :: "u64 \<Rightarrow> bool \<Rightarrow> bytes \<Rightarrow> bytes" where
  "encode_report seq ok digest = le64 seq @ [bool_byte ok] @ digest"

definition check_refusal :: "bytes \<Rightarrow> FormatError + unit" where
  "check_refusal why =
     bindR (ensure (\<not> (why = [] \<or> length why > MAX_REFUSAL)) (BadFieldLength 0 (length why))) (\<lambda>_.
     case find is_display_unsafe (utf8_chars why) of
       Some ch \<Rightarrow> Inl (BadNoteChar 0 (word_of_nat ch))
     | None \<Rightarrow> Inr ())"

section \<open>Requests\<close>

datatype Request =
    ReqHello Hello
  | ReqProve Proof
  | ReqActivate ActivateReq
  | ReqAsk AskAccess
  | ReqRequests bytes
  | ReqCollect CollectReq
  | ReqWatch "bytes list" u64
  | ReqWatchAuthor u64 bytes
  | ReqRevocation bytes
  | ReqRenew ActivateReq
  | ReqRegister bytes bytes
  | ReqRevoke bytes
  | ReqDecide bytes
  | ReqOrder bytes
  | ReqEndorse bytes bytes
  | ReqStanding bytes
  | ReqAttestOpen
  | ReqAttestEvidence Evidence
  | ReqAttestSecret bytes
  | ReqRegisterEdition bytes
  | ReqJournalView u64 u64
  | ReqDirectoryView u64 u64
  | ReqDirectoryLookup bytes bytes u64
  | ReqDirectoryRecords u64 u32
  | ReqControl bytes
  | ReqBinding
  | ReqReplicaPush bytes
  | ReqPutGrant bytes
  | ReqPutDelegation bytes
  | ReqFetchChain bytes
  | ReqPutActionGrant bytes
  | ReqRequestAction bytes
  | ReqReportAction u64 bool bytes
  | ReqActionRequests bytes
  | ReqDecideAction bytes

text \<open>A kind and a body that may fail to be written.\<close>

abbreviation (input) kinded :: "byte \<Rightarrow> FormatError + bytes \<Rightarrow> FormatError + (byte \<times> bytes)" where
  "kinded kind body \<equiv> bindR body (\<lambda>body. Inr (kind, body))"

fun request_parts :: "Request \<Rightarrow> FormatError + (byte \<times> bytes)" where
  "request_parts (ReqHello h) = kinded KIND_HELLO (encode_hello h)"
| "request_parts (ReqProve p) = kinded KIND_PROVE (encode_proof p)"
| "request_parts (ReqActivate a) = kinded KIND_ACTIVATE (encode_req a)"
| "request_parts (ReqAsk ask) = kinded KIND_ASK (encode_ask ask)"
| "request_parts (ReqRequests file_id) = Inr (KIND_REQUESTS, file_id)"
| "request_parts (ReqCollect c) = Inr (KIND_COLLECT, encode_collect c)"
| "request_parts (ReqDecide doc) = kinded KIND_DECIDE (opaque doc)"
| "request_parts (ReqWatch files since) = kinded KIND_WATCH (encode_watch files since)"
| "request_parts (ReqWatchAuthor since prov) =
     (if length prov \<le> SIGNATURE_LEN \<or> length prov > MAX_DOCUMENT then Inl (BadFieldLength 0 (length prov))
      else Inr (KIND_WATCH_AUTHOR, le64 since @ prov))"
| "request_parts (ReqRevocation file_id) = Inr (KIND_REVOCATION_REQ, file_id)"
| "request_parts (ReqRenew a) = kinded KIND_RENEW (encode_req a)"
| "request_parts (ReqRegister header order) = kinded KIND_REGISTER (encode_register header order)"
| "request_parts (ReqRevoke order) = kinded KIND_REVOKE (opaque order)"
| "request_parts (ReqOrder order) = kinded KIND_ORDER (opaque order)"
| "request_parts (ReqEndorse signer order) = kinded KIND_ENDORSE (encode_endorse signer order)"
| "request_parts (ReqStanding file_id) = Inr (KIND_STANDING_REQ, file_id)"
| "request_parts ReqAttestOpen = Inr (KIND_ATTEST_OPEN, [])"
| "request_parts (ReqAttestEvidence e) = kinded KIND_ATTEST_EVIDENCE (encode_evidence e)"
| "request_parts (ReqAttestSecret secret) = Inr (KIND_ATTEST_SECRET, secret)"
| "request_parts (ReqRegisterEdition claim) = kinded KIND_REGISTER_EDITION (opaque claim)"
| "request_parts (ReqJournalView since until) = Inr (KIND_JOURNAL_VIEW_REQ, view_request since until)"
| "request_parts (ReqDirectoryView since until) = Inr (KIND_DIRECTORY_VIEW_REQ, view_request since until)"
| "request_parts (ReqDirectoryLookup tenant name count) =
     kinded KIND_DIRECTORY_LOOKUP_REQ (encode_lookup_request tenant name count)"
| "request_parts (ReqDirectoryRecords start count) = Inr (KIND_DIRECTORY_RECORDS_REQ, le64 start @ le32 count)"
| "request_parts (ReqControl intent) = kinded KIND_CONTROL (opaque intent)"
| "request_parts ReqBinding = Inr (KIND_BINDING_REQ, [])"
| "request_parts (ReqReplicaPush push) = kinded KIND_REPLICA_PUSH (opaque push)"
| "request_parts (ReqPutGrant grant) = kinded KIND_PUT_GRANT (opaque grant)"
| "request_parts (ReqPutDelegation link) = kinded KIND_PUT_DELEGATION (opaque link)"
| "request_parts (ReqFetchChain holder_fpr) = Inr (KIND_FETCH_CHAIN, holder_fpr)"
| "request_parts (ReqPutActionGrant grant) = kinded KIND_PUT_ACTION_GRANT (opaque grant)"
| "request_parts (ReqRequestAction ask) = kinded KIND_REQUEST_ACTION (opaque ask)"
| "request_parts (ReqReportAction seq ok digest) = Inr (KIND_REPORT_ACTION, encode_report seq ok digest)"
| "request_parts (ReqActionRequests grant_id) = Inr (KIND_ACTION_REQUESTS, grant_id)"
| "request_parts (ReqDecideAction doc) = kinded KIND_DECIDE_ACTION (opaque doc)"

definition envelope_encode_request :: "Request \<Rightarrow> FormatError + bytes" where
  "envelope_encode_request request = bindR (request_parts request) (\<lambda>(kind, body). Inr (kind # body))"

definition decode_watch :: "bytes \<Rightarrow> FormatError + Request" where
  "decode_watch body =
     (let bad = BadFieldLength 0 (length body) in
      bindR (ok_or bad (get_range body 0 8)) (\<lambda>since.
      bindR (ok_or bad (get_at body 8)) (\<lambda>count.
      bindR (ensure (\<not> (unat count = 0 \<or> unat count > MAX_WATCH_FILES)) bad) (\<lambda>_.
      bindR (ok_or bad (get_range body 9 (length body))) (\<lambda>rest.
      bindR (ensure (\<not> length rest \<noteq> saturating_mul_usize (unat count) 16) bad) (\<lambda>_.
      bindR (map_err bad (mapR (exact_len 16 0) (chunks_exact_16 rest))) (\<lambda>files.
      Inr (ReqWatch files (of_le since)))))))))"

definition decode_report :: "bytes \<Rightarrow> FormatError + Request" where
  "decode_report body =
     (let bad = BadFieldLength 0 (length body) in
      bindR (ok_or bad (get_range body 0 8)) (\<lambda>seq.
      bindR (if get_at body 8 = Some 0 then Inr False else if get_at body 8 = Some 1 then Inr True else Inl bad) (\<lambda>ok.
      bindR (ok_or bad (get_range body 9 (length body))) (\<lambda>rest.
      bindR (map_err bad (exact_len 32 0 rest)) (\<lambda>digest.
      Inr (ReqReportAction (of_le seq) ok digest))))))"

definition decode_records_request :: "bytes \<Rightarrow> FormatError + Request" where
  "decode_records_request body =
     bindR (exact_len 12 0 body) (\<lambda>raw.
     let count = of_le (drop 8 raw) :: u32 in
     bindR (ensure (\<not> (count = 0 \<or> unat count > MAX_PAGE)) (BadFieldLength 0 (length body))) (\<lambda>_.
     Inr (ReqDirectoryRecords (of_le (take 8 raw)) count)))"

definition decode_watch_author :: "bytes \<Rightarrow> FormatError + Request" where
  "decode_watch_author body =
     bindR (ok_or (BadFieldLength 0 (length body)) (split_at_checked body 8)) (\<lambda>(since, prov).
     bindR (ensure (\<not> (length prov \<le> SIGNATURE_LEN \<or> length prov > MAX_DOCUMENT)) (BadFieldLength 0 (length prov))) (\<lambda>_.
     Inr (ReqWatchAuthor (of_le since) prov)))"

definition envelope_decode_request :: "bytes \<Rightarrow> FormatError + Request" where
  "envelope_decode_request bs =
     bindR (envelope_split_kind bs) (\<lambda>(kind, body).
     if kind = KIND_HELLO then map_sum id ReqHello (decode_hello body)
     else if kind = KIND_PROVE then map_sum id ReqProve (decode_proof body)
     else if kind = KIND_ACTIVATE then map_sum id ReqActivate (decode_req body)
     else if kind = KIND_RENEW then map_sum id ReqRenew (decode_req body)
     else if kind = KIND_REGISTER then map_sum id (\<lambda>(header, order). ReqRegister header order) (decode_register body)
     else if kind = KIND_REVOKE then map_sum id ReqRevoke (opaque body)
     else if kind = KIND_ORDER then map_sum id ReqOrder (opaque body)
     else if kind = KIND_REGISTER_EDITION then map_sum id ReqRegisterEdition (opaque body)
     else if kind = KIND_JOURNAL_VIEW_REQ then map_sum id (\<lambda>(since, until). ReqJournalView since until) (decode_view_request body)
     else if kind = KIND_DIRECTORY_VIEW_REQ then map_sum id (\<lambda>(since, until). ReqDirectoryView since until) (decode_view_request body)
     else if kind = KIND_CONTROL then map_sum id ReqControl (opaque body)
     else if kind = KIND_BINDING_REQ then map_sum id (\<lambda>_. ReqBinding) (no_body body)
     else if kind = KIND_REPLICA_PUSH then map_sum id ReqReplicaPush (opaque body)
     else if kind = KIND_DIRECTORY_LOOKUP_REQ then
       map_sum id (\<lambda>(tenant, name, count). ReqDirectoryLookup tenant name count) (decode_lookup_request body)
     else if kind = KIND_DIRECTORY_RECORDS_REQ then decode_records_request body
     else if kind = KIND_ENDORSE then map_sum id (\<lambda>(signer, order). ReqEndorse signer order) (decode_endorse body)
     else if kind = KIND_STANDING_REQ then map_sum id ReqStanding (exact_len 16 0 body)
     else if kind = KIND_ASK then map_sum id ReqAsk (decode_ask body)
     else if kind = KIND_REQUESTS then map_sum id ReqRequests (exact_len 16 0 body)
     else if kind = KIND_COLLECT then map_sum id ReqCollect (decode_collect body)
     else if kind = KIND_DECIDE then map_sum id ReqDecide (opaque body)
     else if kind = KIND_WATCH then decode_watch body
     else if kind = KIND_WATCH_AUTHOR then decode_watch_author body
     else if kind = KIND_ATTEST_OPEN then map_sum id (\<lambda>_. ReqAttestOpen) (no_body body)
     else if kind = KIND_ATTEST_EVIDENCE then map_sum id ReqAttestEvidence (decode_evidence body)
     else if kind = KIND_ATTEST_SECRET then map_sum id ReqAttestSecret (exact_len ATTEST_SECRET_LEN 0 body)
     else if kind = KIND_REVOCATION_REQ then map_sum id ReqRevocation (exact_len 16 0 body)
     else if kind = KIND_PUT_GRANT then map_sum id ReqPutGrant (opaque body)
     else if kind = KIND_PUT_DELEGATION then map_sum id ReqPutDelegation (opaque body)
     else if kind = KIND_FETCH_CHAIN then map_sum id ReqFetchChain (exact_len 32 0 body)
     else if kind = KIND_PUT_ACTION_GRANT then map_sum id ReqPutActionGrant (opaque body)
     else if kind = KIND_REQUEST_ACTION then map_sum id ReqRequestAction (opaque body)
     else if kind = KIND_REPORT_ACTION then decode_report body
     else if kind = KIND_ACTION_REQUESTS then map_sum id ReqActionRequests (exact_len 16 0 body)
     else if kind = KIND_DECIDE_ACTION then map_sum id ReqDecideAction (opaque body)
     else Inl (UnknownCriticalField (ucast kind)))"

definition is_session_sealed :: "byte \<Rightarrow> bool" where
  "is_session_sealed kind \<longleftrightarrow>
     kind = KIND_ACTIVATE \<or> kind = KIND_RENEW \<or> kind = KIND_ATTEST_OPEN \<or> kind = KIND_ATTEST_EVIDENCE \<or> kind = KIND_ATTEST_SECRET"

definition split_request_mac :: "bytes \<Rightarrow> FormatError + (bytes \<times> bytes)" where
  "split_request_mac framed =
     bindR (ok_or (Truncated 33 (length framed))
       (if REQUEST_MAC_LEN \<le> length framed \<and> length framed - REQUEST_MAC_LEN > 0
        then Some (length framed - REQUEST_MAC_LEN) else None)) (\<lambda>len.
     Inr (take len framed, drop len framed))"

section \<open>Responses\<close>

datatype Response =
    RespChallenge Challenge
  | RespProven
  | RespGranted LeaseGrant
  | RespDenied Deny
  | RespAsked u64
  | RespQueue bytes
  | RespDecided bytes
  | RespWaiting
  | RespAccepted
  | RespNotice Notice
  | RespRevocation bytes
  | RespNotRevoked
  | RespStanding bytes
  | RespEndorsed byte byte
  | RespAttestNonce bytes
  | RespAttestCredential bytes
  | RespAttested byte
  | RespLogView WitnessView
  | RespDirectoryEntry Lookup
  | RespDirectoryRecords "bytes list"
  | RespReceipt bytes
  | RespBinding bytes
  | RespReplicaAck bytes
  | RespChainStored
  | RespChain bytes "bytes option" "bytes option"
  | RespNoChain
  | RespActionGranted bytes
  | RespActionPending u64
  | RespActionRefused bytes
  | RespActionQueue bytes

fun response_parts :: "Response \<Rightarrow> FormatError + (byte \<times> bytes)" where
  "response_parts (RespChallenge c) = kinded KIND_CHALLENGE (encode_challenge c)"
| "response_parts RespProven = Inr (KIND_PROVEN, [])"
| "response_parts (RespGranted g) = kinded KIND_GRANTED (encode_lease_grant g)"
| "response_parts (RespDenied d) = kinded KIND_DENIED (encode_deny d)"
| "response_parts (RespAsked seq) = Inr (KIND_ASKED, le64 seq)"
| "response_parts (RespQueue bs) = Inr (KIND_QUEUE, bs)"
| "response_parts (RespDecided doc) = kinded KIND_DECIDED (opaque doc)"
| "response_parts RespWaiting = Inr (KIND_WAITING, [])"
| "response_parts RespAccepted = Inr (KIND_ACCEPTED, [])"
| "response_parts (RespNotice notice) = Inr (KIND_NOTICE, encode_notice notice)"
| "response_parts (RespRevocation bs) = kinded KIND_REVOCATION (opaque bs)"
| "response_parts RespNotRevoked = Inr (KIND_NOT_REVOKED, [])"
| "response_parts (RespStanding bs) = kinded KIND_STANDING (opaque bs)"
| "response_parts (RespEndorsed have_votes need) = Inr (KIND_ENDORSED, [have_votes, need])"
| "response_parts (RespAttestNonce nonce) = Inr (KIND_ATTEST_NONCE, nonce)"
| "response_parts (RespAttestCredential bs) = bindR (check_credential bs) (\<lambda>_. Inr (KIND_ATTEST_CREDENTIAL, bs))"
| "response_parts (RespAttested basis) = Inr (KIND_ATTESTED, [basis])"
| "response_parts (RespLogView view) = kinded KIND_LOG_VIEW (view_encode view)"
| "response_parts (RespDirectoryEntry lookup) = kinded KIND_DIRECTORY_ENTRY (lookup_encode lookup)"
| "response_parts (RespDirectoryRecords recs) = kinded KIND_DIRECTORY_RECORDS (encode_page recs)"
| "response_parts (RespReceipt bs) = kinded KIND_RECEIPT (opaque bs)"
| "response_parts (RespBinding bs) = kinded KIND_BINDING (opaque bs)"
| "response_parts (RespReplicaAck bs) = kinded KIND_REPLICA_ACK (opaque bs)"
| "response_parts RespChainStored = Inr (KIND_CHAIN_STORED, [])"
| "response_parts (RespChain documents key actions) = kinded KIND_CHAIN (encode_chain_reply documents key actions)"
| "response_parts RespNoChain = Inr (KIND_NO_CHAIN, [])"
| "response_parts (RespActionGranted lease) = kinded KIND_ACTION_GRANTED (opaque lease)"
| "response_parts (RespActionPending seq) = Inr (KIND_ACTION_PENDING, le64 seq)"
| "response_parts (RespActionRefused why) = bindR (check_refusal why) (\<lambda>_. Inr (KIND_ACTION_REFUSED, why))"
| "response_parts (RespActionQueue body) = Inr (KIND_ACTION_QUEUE, body)"

definition encode_response :: "Response \<Rightarrow> FormatError + bytes" where
  "encode_response response = bindR (response_parts response) (\<lambda>(kind, body). Inr (kind # body))"

definition decode_attested_reply :: "bytes \<Rightarrow> FormatError + Response" where
  "decode_attested_reply body =
     (case body of
        [basis] \<Rightarrow>
          if basis = BASIS_VENDOR_CERTIFICATE \<or> basis = BASIS_ENROLLED_EK then Inr (RespAttested basis)
          else Inl (BadFieldLength 0 (length body))
      | _ \<Rightarrow> Inl (BadFieldLength 0 (length body)))"

definition decode_endorsed :: "bytes \<Rightarrow> FormatError + Response" where
  "decode_endorsed body =
     (case body of
        [have_votes, need] \<Rightarrow> Inr (RespEndorsed have_votes need)
      | _ \<Rightarrow> Inl (BadFieldLength 0 (length body)))"

definition decode_refused :: "bytes \<Rightarrow> FormatError + Response" where
  "decode_refused body =
     bindR (ok_or (NotUtf8 0) (from_utf8 body)) (\<lambda>why.
     bindR (check_refusal why) (\<lambda>_.
     Inr (RespActionRefused why)))"

definition decode_response :: "Crates \<Rightarrow> bytes \<Rightarrow> FormatError + Response" where
  "decode_response c bs =
     bindR (envelope_split_kind bs) (\<lambda>(kind, body).
     if kind = KIND_CHALLENGE then map_sum id RespChallenge (decode_challenge body)
     else if kind = KIND_PROVEN then map_sum id (\<lambda>_. RespProven) (no_body body)
     else if kind = KIND_GRANTED then map_sum id RespGranted (decode_lease_grant body)
     else if kind = KIND_DENIED then map_sum id RespDenied (decode_deny body)
     else if kind = KIND_QUEUE then Inr (RespQueue body)
     else if kind = KIND_ASKED then map_sum id RespAsked (u64_le 0 body)
     else if kind = KIND_DECIDED then map_sum id RespDecided (opaque body)
     else if kind = KIND_WAITING then map_sum id (\<lambda>_. RespWaiting) (no_body body)
     else if kind = KIND_ACCEPTED then map_sum id (\<lambda>_. RespAccepted) (no_body body)
     else if kind = KIND_NOTICE then map_sum id RespNotice (decode_notice body)
     else if kind = KIND_REVOCATION then map_sum id RespRevocation (opaque body)
     else if kind = KIND_NOT_REVOKED then map_sum id (\<lambda>_. RespNotRevoked) (no_body body)
     else if kind = KIND_STANDING then map_sum id RespStanding (opaque body)
     else if kind = KIND_LOG_VIEW then map_sum id RespLogView (view_decode body)
     else if kind = KIND_DIRECTORY_ENTRY then map_sum id RespDirectoryEntry (lookup_decode body)
     else if kind = KIND_DIRECTORY_RECORDS then map_sum id RespDirectoryRecords (decode_page c body)
     else if kind = KIND_RECEIPT then map_sum id RespReceipt (opaque body)
     else if kind = KIND_BINDING then map_sum id RespBinding (opaque body)
     else if kind = KIND_REPLICA_ACK then map_sum id RespReplicaAck (opaque body)
     else if kind = KIND_CHAIN_STORED then map_sum id (\<lambda>_. RespChainStored) (no_body body)
     else if kind = KIND_CHAIN then
       map_sum id (\<lambda>(documents, key, actions). RespChain documents key actions) (decode_chain_reply body)
     else if kind = KIND_NO_CHAIN then map_sum id (\<lambda>_. RespNoChain) (no_body body)
     else if kind = KIND_ACTION_GRANTED then map_sum id RespActionGranted (opaque body)
     else if kind = KIND_ACTION_PENDING then map_sum id RespActionPending (u64_le 0 body)
     else if kind = KIND_ACTION_REFUSED then decode_refused body
     else if kind = KIND_ACTION_QUEUE then Inr (RespActionQueue body)
     else if kind = KIND_ATTEST_NONCE then map_sum id RespAttestNonce (exact_len ATTEST_SECRET_LEN 0 body)
     else if kind = KIND_ATTEST_CREDENTIAL then map_sum id (\<lambda>_. RespAttestCredential body) (check_credential body)
     else if kind = KIND_ATTESTED then decode_attested_reply body
     else if kind = KIND_ENDORSED then decode_endorsed body
     else Inl (UnknownCriticalField (ucast kind)))"

section \<open>Which small bodies are accepted\<close>

lemma split_kind_Inr: "envelope_split_kind bs = Inr (k, body) \<longleftrightarrow> bs = k # body"
  by (cases bs) (auto simp: envelope_split_kind_def get_at_def get_range_def)

lemma split_kind [simp]: "envelope_split_kind (kind # body) = Inr (kind, body)"
  by (simp add: split_kind_Inr)

lemma no_body_Inr: "no_body body = Inr u \<longleftrightarrow> body = []"
  by (simp add: no_body_def)

lemma opaque_Inr: "opaque bs = Inr x \<longleftrightarrow> bs = x \<and> document_ok x"
  by (auto simp: opaque_def MAX_DOCUMENT_value)

lemma decode_view_request_Inr: "decode_view_request body = Inr (a, b) \<longleftrightarrow> body = view_request a b"
proof
  assume "decode_view_request body = Inr (a, b)"
  then have "length body = 16" "a = of_le (take 8 body)" "b = of_le (drop 8 body)"
    by (auto simp: decode_view_request_def bindR_eq_Inr)
  then show "body = view_request a b" by (simp add: view_request_def le_bytes_of_le64)
qed (simp add: decode_view_request_def view_request_def exact_len_def)

lemma decode_collect_Inr:
  "decode_collect bs = Inr c \<longleftrightarrow> length (co_file_id c) = 16 \<and> length (co_device_fpr c) = 32 \<and> bs = encode_collect c"
proof
  assume "decode_collect bs = Inr c"
  then have "length bs = 48" "c = \<lparr>co_file_id = take 16 bs, co_device_fpr = drop 16 bs\<rparr>"
    by (auto simp: decode_collect_def Let_def bindR_eq_Inr ok_or_eq_Inr ensure_eq_Inr get_range_def COLLECT_LEN_def split: if_splits)
  then show "length (co_file_id c) = 16 \<and> length (co_device_fpr c) = 32 \<and> bs = encode_collect c" by (simp add: encode_collect_def)
next
  assume "length (co_file_id c) = 16 \<and> length (co_device_fpr c) = 32 \<and> bs = encode_collect c"
  then show "decode_collect bs = Inr c"
    by (cases c) (simp add: decode_collect_def Let_def encode_collect_def get_range_def COLLECT_LEN_def)
qed

lemma decode_endorse_Inr: "decode_endorse body = Inr (signer, order) \<longleftrightarrow> length signer = 32 \<and> encode_endorse signer order = Inr body"
  by (auto simp: decode_endorse_def encode_endorse_def bindR_eq_Inr ok_or_eq_Inr split_at_parts opaque_Inr)

lemma encode_register_Inr:
  "encode_register header order = Inr body \<longleftrightarrow>
     document_ok header \<and> document_ok order \<and> body = le_bytes 4 (length header) @ header @ order"
  by (cases "length header \<le> 1048576")
    (auto simp: encode_register_def bindR_eq_Inr ensure_eq_Inr ok_or_eq_Inr opaque_Inr MAX_DOCUMENT_value u32_of_usize_def unat_of_nat take_bit_nat_eq_self)

lemma decode_register_Inr: "decode_register body = Inr (header, order) \<longleftrightarrow> encode_register header order = Inr body"
proof
  assume "decode_register body = Inr (header, order)"
  then obtain head where "body = head @ header @ order" "length head = 4" "length header = le_nat head" "le_nat head \<noteq> 0"
    "le_nat head \<le> 1048576" "document_ok order"
    by (auto simp: decode_register_def Let_def bindR_eq_Inr ok_or_eq_Inr ensure_eq_Inr split_at_parts opaque_Inr MAX_DOCUMENT_value)
  then show "encode_register header order = Inr body" by (auto simp: encode_register_Inr le_bytes_le_nat)
next
  assume "encode_register header order = Inr body"
  then show "decode_register body = Inr (header, order)"
    by (auto simp: encode_register_Inr decode_register_def Let_def le_nat_le_bytes ensure_eq_Inr MAX_DOCUMENT_value opaque_Inr bindR_eq_Inr)
qed

lemma decode_report_Inr:
  "decode_report body = Inr r \<longleftrightarrow> (\<exists>seq ok digest. r = ReqReportAction seq ok digest \<and> length digest = 32 \<and> body = encode_report seq ok digest)"
proof
  assume "decode_report body = Inr r"
  then obtain ok where r: "length body = 41" "body ! 8 = bool_byte ok" "r = ReqReportAction (of_le (take 8 body)) ok (drop 9 body)"
    by (auto simp: decode_report_def Let_def bindR_eq_Inr ok_or_eq_Inr map_err_eq_Inr get_range_def get_at_def split: if_splits)
  have "body = take 8 body @ body ! 8 # drop 9 body" using id_take_nth_drop [of 8 body] r(1) by simp
  then have "body = encode_report (of_le (take 8 body)) ok (drop 9 body)" using r by (simp add: encode_report_def le_bytes_of_le64)
  with r show "\<exists>seq ok digest. r = ReqReportAction seq ok digest \<and> length digest = 32 \<and> body = encode_report seq ok digest" by auto
next
  assume "\<exists>seq ok digest. r = ReqReportAction seq ok digest \<and> length digest = 32 \<and> body = encode_report seq ok digest"
  then show "decode_report body = Inr r"
    by (auto simp: decode_report_def Let_def encode_report_def get_range_def get_at_def nth_append exact_len_def split: if_splits)
qed

lemma decode_records_request_Inr:
  "decode_records_request body = Inr r \<longleftrightarrow>
     (\<exists>start count. r = ReqDirectoryRecords start count \<and> 0 < count \<and> unat count \<le> 256 \<and> body = le64 start @ le32 count)"
proof
  assume "decode_records_request body = Inr r"
  then have b: "length body = 12" "r = ReqDirectoryRecords (of_le (take 8 body)) (of_le (drop 8 body))"
    "(of_le (drop 8 body) :: u32) \<noteq> 0" "unat (of_le (drop 8 body) :: u32) \<le> 256"
    by (auto simp: decode_records_request_def Let_def bindR_eq_Inr ensure_eq_Inr MAX_PAGE_def)
  then show "\<exists>start count. r = ReqDirectoryRecords start count \<and> 0 < count \<and> unat count \<le> 256 \<and> body = le64 start @ le32 count"
    by (intro exI [of _ "of_le (take 8 body)"] exI [of _ "of_le (drop 8 body)"])
      (simp add: le_bytes_of_le64 le_bytes_of_le32 word_neq_0_conv)
qed (auto simp: decode_records_request_def Let_def exact_len_def MAX_PAGE_def word_neq_0_conv [symmetric])

lemma decode_watch_author_Inr:
  "decode_watch_author body = Inr r \<longleftrightarrow>
     (\<exists>since prov. r = ReqWatchAuthor since prov \<and> 64 < length prov \<and> length prov \<le> 1048576 \<and> body = le64 since @ prov)"
proof
  assume "decode_watch_author body = Inr r"
  then obtain since prov where "body = since @ prov" "length since = 8" "r = ReqWatchAuthor (of_le since) prov" "64 < length prov" "length prov \<le> 1048576"
    by (auto simp: decode_watch_author_def bindR_eq_Inr ok_or_eq_Inr split_at_parts ensure_eq_Inr SIGNATURE_LEN_def MAX_DOCUMENT_value)
  then show "\<exists>since prov. r = ReqWatchAuthor since prov \<and> 64 < length prov \<and> length prov \<le> 1048576 \<and> body = le64 since @ prov"
    by (intro exI [of _ "of_le since"] exI [of _ prov]) (simp add: le_bytes_of_le64)
qed (auto simp: decode_watch_author_def SIGNATURE_LEN_def MAX_DOCUMENT_value)

lemma chunks_exact_16_concat: "\<forall>f \<in> set files. length f = 16 \<Longrightarrow> chunks_exact_16 (concat files) = files"
  by (induction files) (simp_all add: chunks_exact_16.simps [of "_ @ _"] chunks_exact_16.simps [of "[]"])

lemma chunks_exact_16_parts:
  "length bs = n * 16 \<Longrightarrow> concat (chunks_exact_16 bs) = bs \<and> length (chunks_exact_16 bs) = n \<and> (\<forall>f \<in> set (chunks_exact_16 bs). length f = 16)"
proof (induction n arbitrary: bs)
  case (Suc n)
  then have "chunks_exact_16 bs = take 16 bs # chunks_exact_16 (drop 16 bs)" by (subst chunks_exact_16.simps) simp
  with Suc.IH [of "drop 16 bs"] Suc.prems show ?case by simp
qed (simp add: chunks_exact_16.simps)

lemma mapR_exact: "mapR (exact_len n t) xs = Inr ys \<longleftrightarrow> ys = xs \<and> (\<forall>x \<in> set xs. length x = n)"
  by (induction xs arbitrary: ys) (auto simp: bindR_eq_Inr)

lemma concat_16: "\<forall>f \<in> set files. length f = 16 \<Longrightarrow> length (concat files) = 16 * length files"
  by (induction files) auto

lemma encode_watch_Inr:
  "encode_watch files since = Inr body \<longleftrightarrow>
     files \<noteq> [] \<and> length files \<le> 32 \<and> body = le64 since @ [word_of_nat (length files)] @ concat files"
  by (auto simp: encode_watch_def bindR_eq_Inr ensure_eq_Inr ok_or_eq_Inr MAX_WATCH_FILES_def split: if_splits)

lemma decode_watch_Inr:
  "decode_watch body = Inr r \<longleftrightarrow>
     (\<exists>files since. r = ReqWatch files since \<and> (\<forall>f \<in> set files. length f = 16) \<and> encode_watch files since = Inr body)"
proof
  assume "decode_watch body = Inr r"
  then obtain since count rest files where p: "8 < length body" "since = take 8 body" "count = body ! 8" "rest = drop 9 body"
    "0 < unat count" "unat count \<le> 32" "length rest = unat count * 16" "mapR (exact_len 16 0) (chunks_exact_16 rest) = Inr files"
    "r = ReqWatch files (of_le since)"
    by (auto simp: decode_watch_def Let_def bindR_eq_Inr ok_or_eq_Inr map_err_eq_Inr ensure_eq_Inr get_range_def get_at_def
        MAX_WATCH_FILES_def saturating_mul_usize_def split: if_splits)
  have "body = take 8 body @ body ! 8 # drop 9 body" using id_take_nth_drop [of 8 body] p(1) by simp
  moreover have "files = chunks_exact_16 rest" "concat files = rest" "length files = unat count" "\<forall>f \<in> set files. length f = 16"
    using p(8) chunks_exact_16_parts [OF p(7)] by (auto simp: mapR_exact)
  ultimately show "\<exists>files since. r = ReqWatch files since \<and> (\<forall>f \<in> set files. length f = 16) \<and> encode_watch files since = Inr body"
    using p by (intro exI [of _ files] exI [of _ "of_le since"]) (auto simp: encode_watch_Inr le_bytes_of_le64)
next
  assume "\<exists>files since. r = ReqWatch files since \<and> (\<forall>f \<in> set files. length f = 16) \<and> encode_watch files since = Inr body"
  then obtain files since where p: "r = ReqWatch files since" "\<forall>f \<in> set files. length f = 16" "files \<noteq> []" "length files \<le> 32"
    "body = le64 since @ [word_of_nat (length files)] @ concat files" by (auto simp: encode_watch_Inr)
  have "unat (word_of_nat (length files) :: byte) = length files" using p(4) by (simp add: unat_of_nat take_bit_nat_eq_self)
  then show "decode_watch body = Inr r"
    using p concat_16 [OF p(2)] chunks_exact_16_concat [OF p(2)] mapR_exact [of 16 0 files files]
    by (simp add: decode_watch_def Let_def get_range_def get_at_def nth_append MAX_WATCH_FILES_def saturating_mul_usize_def del: length_concat)
qed

fun notice_wf :: "Notice \<Rightarrow> bool" where
  "notice_wf Heartbeat = True"
| "notice_wf (JournalEvent seq event file_id fpr) = (length file_id = 16 \<and> (\<forall>f. fpr = Some f \<longrightarrow> length f = 32))"

lemma decode_notice_encode: "notice_wf n \<Longrightarrow> decode_notice (encode_notice n) = Inr n"
proof (cases n)
  case (JournalEvent seq event file_id fpr)
  moreover assume "notice_wf n"
  ultimately show ?thesis
    by (cases fpr) (auto simp: decode_notice_def Let_def split_kind_Inr bindR_eq_Inr NOTICE_EVENT_LEN_def NOTICE_EVENT_def NOTICE_HEARTBEAT_def
        get_range_def get_at_def nth_append ensure_eq_Inr)
qed (simp add: decode_notice_def split_kind_Inr bindR_eq_Inr no_body_Inr)

lemma decode_notice_wf: "decode_notice bs = Inr n \<Longrightarrow> notice_wf n"
  by (auto simp: decode_notice_def Let_def bindR_eq_Inr ok_or_eq_Inr ensure_eq_Inr get_range_def get_at_def NOTICE_EVENT_LEN_def split: if_splits)

text \<open>Requests for access, by the rules of the queue.\<close>

definition ask_tags :: "u16 list" where
  "ask_tags = [AT_FILE_ID, AT_DEVICE_FPR, AT_DEVICE_PUBLIC, AT_DEVICE_KEM, AT_NOTE]"

definition ask_get :: "u16 \<Rightarrow> AskDecoder \<Rightarrow> bytes option" where
  "ask_get tag d =
     (if tag = AT_FILE_ID then ak_file_id d
      else if tag = AT_DEVICE_FPR then ak_fpr d
      else if tag = AT_DEVICE_PUBLIC then ak_public d
      else if tag = AT_DEVICE_KEM then map_option (\<lambda>b. [b]) (ak_kem d)
      else if tag = AT_NOTE then ak_note d
      else None)"

interpretation ask_reader: field_decoder ask_step ask_decode_start ask_tags "[]" ask_get
proof
  fix t v s s' u
  assume step: "ask_step t v s = Inr s'"
  show "ask_get u s' = (if u = t \<and> t \<in> set ask_tags then Some v else ask_get u s)"
    using step by (auto simp: ask_step_def ask_tags_def ask_get_def bindR_eq_Inr value_parsers_Inr note_value_Inr split: if_splits)
  show "t \<in> set ask_tags \<or> t \<in> set [] \<or> CRIT_TAG_MAX < t"
    using step by (auto simp: ask_step_def ask_tags_def bindR_eq_Inr refuse_if_critical_Inr split: if_splits)
qed (simp_all add: ask_tags_def ask_decode_start_def ask_get_def ask_step_def refuse_if_critical_optional)

lemma decode_ask_wf:
  assumes "decode_ask bs = Inr a"
  shows "ask_wf a"
proof -
  let ?fs = "[(AT_FILE_ID, aa_file_id a), (AT_DEVICE_FPR, aa_device_fpr a), (AT_DEVICE_PUBLIC, aa_device_public a),
    (AT_DEVICE_KEM, [aa_device_kem a]), (AT_NOTE, aa_note a)]"
  let ?s = "\<lparr>ak_file_id = Some (aa_file_id a), ak_fpr = Some (aa_device_fpr a), ak_public = Some (aa_device_public a),
    ak_kem = Some (aa_device_kem a), ak_note = Some (aa_note a)\<rparr>"
  let ?P = "length (aa_file_id a) = 16 \<and> length (aa_device_fpr a) = 32 \<and> note_ok (aa_note a)"
  have "ask_finish d = Inr a \<longleftrightarrow> d = ?s" for d
    by (cases d, cases a) (auto simp: ask_finish_def bindR_eq_Inr ok_or_eq_Inr)
  with assms have "tlv_values ask_step bs ask_decode_start = Inr ?s" by (auto simp: decode_ask_def bindR_eq_Inr)
  moreover have "tlv_values ask_step bs ask_decode_start = Inr ?s \<longleftrightarrow> ?P \<and> carries ask_tags ?fs bs"
    by (rule ask_reader.accepts_exactly)
      (auto simp: ask_tags_def ask_get_def ask_step_def ask_decode_start_def bindR_eq_Inr note_value_ok exact_len_def)
  ultimately show ?thesis using carries_fits [of ask_tags ?fs bs] by (simp add: ask_wf_def)
qed

section \<open>Every request\<close>

definition lookup_request_ok :: "bytes \<Rightarrow> bytes \<Rightarrow> bool" where
  "lookup_request_ok tenant name \<longleftrightarrow>
     tenant \<noteq> [] \<and> length tenant \<le> 64 \<and>
     (\<forall>b \<in> set tenant. (97 \<le> b \<and> b \<le> 122) \<or> (48 \<le> b \<and> b \<le> 57) \<or> b = 46 \<or> b = 45 \<or> b = 95) \<and>
     utf8_valid name \<and> length name < 65536 \<and> length (utf8_chars name) \<le> MAX_NAME_CHARS \<and>
     (\<exists>ch \<in> set (utf8_chars name). \<not> is_whitespace ch) \<and> (\<forall>ch \<in> set (utf8_chars name). \<not> is_display_unsafe ch)"

lemma lookup_request_encodes:
  "lookup_request_ok tenant name \<longleftrightarrow> utf8_valid name \<and> (\<exists>body. encode_lookup_request tenant name count = Inr body)"
  by (auto simp: lookup_request_ok_def encode_lookup_request_def bindR_eq_Inr ensure_eq_Inr ok_or_eq_Inr check_tenant_Inr
      check_text_Inr u16_of_usize_def split: if_splits)

fun enveloped_request_wf :: "Request \<Rightarrow> bool" where
  "enveloped_request_wf (ReqHello h) = hello_wf h"
| "enveloped_request_wf (ReqProve p) = proof_wf p"
| "enveloped_request_wf (ReqActivate a) = activate_req_wf a"
| "enveloped_request_wf (ReqAsk ask) = ask_wf ask"
| "enveloped_request_wf (ReqRequests file_id) = (length file_id = 16)"
| "enveloped_request_wf (ReqCollect c) = (length (co_file_id c) = 16 \<and> length (co_device_fpr c) = 32)"
| "enveloped_request_wf (ReqWatch files since) = (files \<noteq> [] \<and> length files \<le> 32 \<and> (\<forall>f \<in> set files. length f = 16))"
| "enveloped_request_wf (ReqWatchAuthor since prov) = (64 < length prov \<and> length prov \<le> 1048576)"
| "enveloped_request_wf (ReqRevocation file_id) = (length file_id = 16)"
| "enveloped_request_wf (ReqRenew a) = activate_req_wf a"
| "enveloped_request_wf (ReqRegister header order) = (document_ok header \<and> document_ok order)"
| "enveloped_request_wf (ReqRevoke doc) = document_ok doc"
| "enveloped_request_wf (ReqDecide doc) = document_ok doc"
| "enveloped_request_wf (ReqOrder doc) = document_ok doc"
| "enveloped_request_wf (ReqEndorse signer order) = (length signer = 32 \<and> document_ok order)"
| "enveloped_request_wf (ReqStanding file_id) = (length file_id = 16)"
| "enveloped_request_wf ReqAttestOpen = True"
| "enveloped_request_wf (ReqAttestEvidence e) = evidence_wf e"
| "enveloped_request_wf (ReqAttestSecret secret) = (length secret = 32)"
| "enveloped_request_wf (ReqRegisterEdition doc) = document_ok doc"
| "enveloped_request_wf (ReqJournalView since until) = True"
| "enveloped_request_wf (ReqDirectoryView since until) = True"
| "enveloped_request_wf (ReqDirectoryLookup tenant name count) = lookup_request_ok tenant name"
| "enveloped_request_wf (ReqDirectoryRecords start count) = (0 < count \<and> unat count \<le> 256)"
| "enveloped_request_wf (ReqControl doc) = document_ok doc"
| "enveloped_request_wf ReqBinding = True"
| "enveloped_request_wf (ReqReplicaPush doc) = document_ok doc"
| "enveloped_request_wf (ReqPutGrant doc) = document_ok doc"
| "enveloped_request_wf (ReqPutDelegation doc) = document_ok doc"
| "enveloped_request_wf (ReqFetchChain holder) = (length holder = 32)"
| "enveloped_request_wf (ReqPutActionGrant doc) = document_ok doc"
| "enveloped_request_wf (ReqRequestAction doc) = document_ok doc"
| "enveloped_request_wf (ReqReportAction seq ok digest) = (length digest = 32)"
| "enveloped_request_wf (ReqActionRequests grant_id) = (length grant_id = 16)"
| "enveloped_request_wf (ReqDecideAction doc) = document_ok doc"

lemma map_sum_id_Inr: "map_sum id f x = Inr y \<longleftrightarrow> (\<exists>z. x = Inr z \<and> y = f z)"
  by (cases x) auto

lemma is_okI: "x = Inr y \<Longrightarrow> is_ok x" by (simp add: is_ok_def)

lemma is_okE: "is_ok x \<Longrightarrow> (\<And>y. x = Inr y \<Longrightarrow> thesis) \<Longrightarrow> thesis" by (cases x) (auto simp: is_ok_def)

text \<open>What a reader may take a body for, by its kind.\<close>

lemma envelope_decode_request_Cons:
  "envelope_decode_request bs = Inr r \<longleftrightarrow> (\<exists>kind body. bs = kind # body \<and> envelope_decode_request (kind # body) = Inr r)"
  by (cases bs) (auto simp: envelope_decode_request_def envelope_split_kind_def get_at_def)

lemmas request_bodies =
  decode_hello_Inr decode_proof_Inr decode_req_Inr decode_evidence_Inr decode_register_Inr decode_view_request_Inr
  decode_endorse_Inr decode_collect_Inr lookup_request_exact no_body_Inr opaque_Inr decode_watch_Inr decode_watch_author_Inr
  decode_report_Inr decode_records_request_Inr

lemma envelope_decode_request_wf:
  assumes "envelope_decode_request bs = Inr r"
  shows "enveloped_request_wf r"
proof -
  obtain kind body where bs: "bs = kind # body" using assms envelope_decode_request_Cons by blast
  have lookup: "lookup_request_ok tenant name"
    if "utf8_valid name" "encode_lookup_request tenant name count = Inr body" for tenant name count body
    using lookup_request_encodes [of tenant name count] that by blast
  show ?thesis
    using assms
    by (auto simp: bs envelope_decode_request_def map_sum_id_Inr request_bodies ATTEST_SECRET_LEN_def encode_register_Inr encode_endorse_def
        bindR_eq_Inr encode_watch_Inr decode_ask_wf lookup split: if_splits)
qed

lemma envelope_decode_request_kinds:
  "envelope_decode_request (KIND_HELLO # body) = map_sum id ReqHello (decode_hello body)"
  "envelope_decode_request (KIND_PROVE # body) = map_sum id ReqProve (decode_proof body)"
  "envelope_decode_request (KIND_ACTIVATE # body) = map_sum id ReqActivate (decode_req body)"
  "envelope_decode_request (KIND_RENEW # body) = map_sum id ReqRenew (decode_req body)"
  "envelope_decode_request (KIND_REGISTER # body) = map_sum id (\<lambda>(header, order). ReqRegister header order) (decode_register body)"
  "envelope_decode_request (KIND_REVOKE # body) = map_sum id ReqRevoke (opaque body)"
  "envelope_decode_request (KIND_ORDER # body) = map_sum id ReqOrder (opaque body)"
  "envelope_decode_request (KIND_REGISTER_EDITION # body) = map_sum id ReqRegisterEdition (opaque body)"
  "envelope_decode_request (KIND_JOURNAL_VIEW_REQ # body) = map_sum id (\<lambda>(since, until). ReqJournalView since until) (decode_view_request body)"
  "envelope_decode_request (KIND_DIRECTORY_VIEW_REQ # body) = map_sum id (\<lambda>(since, until). ReqDirectoryView since until) (decode_view_request body)"
  "envelope_decode_request (KIND_CONTROL # body) = map_sum id ReqControl (opaque body)"
  "envelope_decode_request (KIND_BINDING_REQ # body) = map_sum id (\<lambda>_. ReqBinding) (no_body body)"
  "envelope_decode_request (KIND_REPLICA_PUSH # body) = map_sum id ReqReplicaPush (opaque body)"
  "envelope_decode_request (KIND_DIRECTORY_LOOKUP_REQ # body) = map_sum id (\<lambda>(tenant, name, count). ReqDirectoryLookup tenant name count) (decode_lookup_request body)"
  "envelope_decode_request (KIND_DIRECTORY_RECORDS_REQ # body) = decode_records_request body"
  "envelope_decode_request (KIND_ENDORSE # body) = map_sum id (\<lambda>(signer, order). ReqEndorse signer order) (decode_endorse body)"
  "envelope_decode_request (KIND_STANDING_REQ # body) = map_sum id ReqStanding (exact_len 16 0 body)"
  "envelope_decode_request (KIND_ASK # body) = map_sum id ReqAsk (decode_ask body)"
  "envelope_decode_request (KIND_REQUESTS # body) = map_sum id ReqRequests (exact_len 16 0 body)"
  "envelope_decode_request (KIND_COLLECT # body) = map_sum id ReqCollect (decode_collect body)"
  "envelope_decode_request (KIND_DECIDE # body) = map_sum id ReqDecide (opaque body)"
  "envelope_decode_request (KIND_WATCH # body) = decode_watch body"
  "envelope_decode_request (KIND_WATCH_AUTHOR # body) = decode_watch_author body"
  "envelope_decode_request (KIND_ATTEST_OPEN # body) = map_sum id (\<lambda>_. ReqAttestOpen) (no_body body)"
  "envelope_decode_request (KIND_ATTEST_EVIDENCE # body) = map_sum id ReqAttestEvidence (decode_evidence body)"
  "envelope_decode_request (KIND_ATTEST_SECRET # body) = map_sum id ReqAttestSecret (exact_len ATTEST_SECRET_LEN 0 body)"
  "envelope_decode_request (KIND_REVOCATION_REQ # body) = map_sum id ReqRevocation (exact_len 16 0 body)"
  "envelope_decode_request (KIND_PUT_GRANT # body) = map_sum id ReqPutGrant (opaque body)"
  "envelope_decode_request (KIND_PUT_DELEGATION # body) = map_sum id ReqPutDelegation (opaque body)"
  "envelope_decode_request (KIND_FETCH_CHAIN # body) = map_sum id ReqFetchChain (exact_len 32 0 body)"
  "envelope_decode_request (KIND_PUT_ACTION_GRANT # body) = map_sum id ReqPutActionGrant (opaque body)"
  "envelope_decode_request (KIND_REQUEST_ACTION # body) = map_sum id ReqRequestAction (opaque body)"
  "envelope_decode_request (KIND_REPORT_ACTION # body) = decode_report body"
  "envelope_decode_request (KIND_ACTION_REQUESTS # body) = map_sum id ReqActionRequests (exact_len 16 0 body)"
  "envelope_decode_request (KIND_DECIDE_ACTION # body) = map_sum id ReqDecideAction (opaque body) "
  by (simp_all add: envelope_decode_request_def split_kind)

lemma envelope_encode_request_Inr: "envelope_encode_request r = Inr bs \<longleftrightarrow> (\<exists>kind body. request_parts r = Inr (kind, body) \<and> bs = kind # body)"
  by (auto simp: envelope_encode_request_def bindR_eq_Inr)

lemma request_documents:
  "document_ok d \<Longrightarrow> opaque d = Inr d"
  "hello_wf h \<Longrightarrow> \<exists>b. encode_hello h = Inr b \<and> decode_hello b = Inr h"
  "proof_wf p \<Longrightarrow> \<exists>b. encode_proof p = Inr b \<and> decode_proof b = Inr p"
  "activate_req_wf a \<Longrightarrow> \<exists>b. encode_req a = Inr b \<and> decode_req b = Inr a"
  "evidence_wf e \<Longrightarrow> \<exists>b. encode_evidence e = Inr b \<and> decode_evidence b = Inr e"
  using hello_codec.enc_total hello_codec.dec_enc proof_codec.enc_total proof_codec.dec_enc activate_req_codec.enc_total
    activate_req_codec.dec_enc evidence_codec.enc_total evidence_codec.dec_enc by (metis opaque_Inr)+

lemma request_parts_read:
  assumes "enveloped_request_wf r"
  shows "\<exists>kind body. request_parts r = Inr (kind, body) \<and> envelope_decode_request (kind # body) = Inr r"
  using assms
proof (cases r)
  case (ReqHello h)
  with assms request_documents(2) [of h] show ?thesis by (auto simp: envelope_decode_request_kinds)
next
  case (ReqProve p)
  with assms request_documents(3) [of p] show ?thesis by (auto simp: envelope_decode_request_kinds)
next
  case (ReqActivate a)
  with assms request_documents(4) [of a] show ?thesis by (auto simp: envelope_decode_request_kinds)
next
  case (ReqRenew a)
  with assms request_documents(4) [of a] show ?thesis by (auto simp: envelope_decode_request_kinds)
next
  case (ReqAttestEvidence e)
  with assms request_documents(5) [of e] show ?thesis by (auto simp: envelope_decode_request_kinds)
next
  case (ReqAsk a)
  with assms decode_encode_ask [of a] show ?thesis by (auto simp: envelope_decode_request_kinds)
next
  case (ReqWatch files since)
  with assms obtain body where "encode_watch files since = Inr body" by (auto simp: encode_watch_Inr)
  with ReqWatch assms show ?thesis by (simp add: envelope_decode_request_kinds decode_watch_Inr)
next
  case (ReqDirectoryLookup tenant name count)
  with assms obtain body where "encode_lookup_request tenant name count = Inr body" "utf8_valid name"
    using lookup_request_encodes [of tenant name count] by auto
  with ReqDirectoryLookup lookup_request_exact [of body tenant name count] show ?thesis by (simp add: envelope_decode_request_kinds)
next
  case (ReqRegister header order)
  with assms obtain body where "encode_register header order = Inr body" by (auto simp: encode_register_Inr)
  with ReqRegister decode_register_Inr [of body header order] show ?thesis by (simp add: envelope_decode_request_kinds)
next
  case (ReqEndorse signer order)
  with assms obtain body where "encode_endorse signer order = Inr body" by (auto simp: encode_endorse_def request_documents(1))
  with ReqEndorse assms decode_endorse_Inr [of body signer order] show ?thesis by (simp add: envelope_decode_request_kinds)
next
  case (ReqCollect c)
  with assms decode_collect_Inr [of "encode_collect c" c] show ?thesis by (simp add: envelope_decode_request_kinds)
next
  case (ReqJournalView since until)
  with decode_view_request_Inr [of "view_request since until" since until] show ?thesis by (simp add: envelope_decode_request_kinds)
next
  case (ReqDirectoryView since until)
  with decode_view_request_Inr [of "view_request since until" since until] show ?thesis by (simp add: envelope_decode_request_kinds)
next
  case (ReqWatchAuthor since prov)
  with assms show ?thesis by (simp add: envelope_decode_request_kinds decode_watch_author_Inr SIGNATURE_LEN_def MAX_DOCUMENT_value)
qed (simp_all add: envelope_decode_request_kinds request_documents(1) no_body_def exact_len_def ATTEST_SECRET_LEN_def decode_report_Inr
    decode_records_request_Inr)

section \<open>Every response\<close>

lemma check_refusal_Inr:
  "check_refusal why = Inr () \<longleftrightarrow> why \<noteq> [] \<and> length why \<le> 1024 \<and> (\<forall>ch \<in> set (utf8_chars why). \<not> is_display_unsafe ch)"
  by (auto simp: check_refusal_def bindR_eq_Inr ensure_eq_Inr MAX_REFUSAL_def find_None_iff find_Some_iff split: option.splits)

fun response_wf :: "Crates \<Rightarrow> Response \<Rightarrow> bool" where
  "response_wf c (RespChallenge ch) = challenge_wf ch"
| "response_wf c RespProven = True"
| "response_wf c (RespGranted g) = lease_grant_wf g"
| "response_wf c (RespDenied d) = deny_wf d"
| "response_wf c (RespAsked seq) = True"
| "response_wf c (RespQueue bs) = True"
| "response_wf c (RespDecided doc) = document_ok doc"
| "response_wf c RespWaiting = True"
| "response_wf c RespAccepted = True"
| "response_wf c (RespNotice n) = notice_wf n"
| "response_wf c (RespRevocation doc) = document_ok doc"
| "response_wf c RespNotRevoked = True"
| "response_wf c (RespStanding doc) = document_ok doc"
| "response_wf c (RespEndorsed have_votes need) = True"
| "response_wf c (RespAttestNonce nonce) = (length nonce = 32)"
| "response_wf c (RespAttestCredential cred) = is_ok (check_credential cred)"
| "response_wf c (RespAttested basis) = (basis = 1 \<or> basis = 2)"
| "response_wf c (RespLogView v) = (view_wf v \<and> is_ok (view_encode v))"
| "response_wf c (RespDirectoryEntry l) = (lookup_wf l \<and> is_ok (lookup_encode l))"
| "response_wf c (RespDirectoryRecords recs) = (is_ok (encode_page recs) \<and> (\<forall>rec \<in> set recs. is_ok (dir_record_decode c rec)))"
| "response_wf c (RespReceipt doc) = document_ok doc"
| "response_wf c (RespBinding doc) = document_ok doc"
| "response_wf c (RespReplicaAck doc) = document_ok doc"
| "response_wf c RespChainStored = True"
| "response_wf c (RespChain documents key actions) = chain_reply_wf (documents, key, actions)"
| "response_wf c RespNoChain = True"
| "response_wf c (RespActionGranted doc) = document_ok doc"
| "response_wf c (RespActionPending seq) = True"
| "response_wf c (RespActionRefused why) = (utf8_valid why \<and> is_ok (check_refusal why))"
| "response_wf c (RespActionQueue bs) = True"

lemma decode_response_Cons:
  "decode_response c bs = Inr r \<longleftrightarrow> (\<exists>kind body. bs = kind # body \<and> decode_response c (kind # body) = Inr r)"
  by (cases bs) (auto simp: decode_response_def envelope_split_kind_def get_at_def)

lemma decode_attested_reply_Inr: "decode_attested_reply body = Inr r \<longleftrightarrow> (\<exists>basis. (basis = 1 \<or> basis = 2) \<and> body = [basis] \<and> r = RespAttested basis)"
  by (auto simp: decode_attested_reply_def BASIS_VENDOR_CERTIFICATE_def BASIS_ENROLLED_EK_def split: list.splits if_splits)

lemma decode_endorsed_Inr: "decode_endorsed body = Inr r \<longleftrightarrow> (\<exists>a b. body = [a, b] \<and> r = RespEndorsed a b)"
  by (auto simp: decode_endorsed_def split: list.splits)

lemma decode_refused_Inr:
  "decode_refused body = Inr r \<longleftrightarrow> utf8_valid body \<and> check_refusal body = Inr () \<and> r = RespActionRefused body"
  by (auto simp: decode_refused_def bindR_eq_Inr ok_or_eq_Inr from_utf8_def)

lemmas response_bodies =
  decode_challenge_Inr decode_lease_grant_Inr decode_deny_Inr view_decode_Inr lookup_decode_Inr decode_page_exact
  decode_chain_reply_Inr no_body_Inr opaque_Inr decode_attested_reply_Inr decode_endorsed_Inr decode_refused_Inr

lemma decode_response_wf:
  assumes "decode_response c bs = Inr r"
  shows "response_wf c r"
proof -
  obtain kind body where bs: "bs = kind # body" using assms decode_response_Cons by blast
  show ?thesis
    using assms
    by (auto simp: bs decode_response_def map_sum_id_Inr response_bodies ATTEST_SECRET_LEN_def decode_notice_wf is_okI split: if_splits)
qed

lemma decode_response_kinds:
  "decode_response c (KIND_CHALLENGE # body) = map_sum id RespChallenge (decode_challenge body)"
  "decode_response c (KIND_PROVEN # body) = map_sum id (\<lambda>_. RespProven) (no_body body)"
  "decode_response c (KIND_GRANTED # body) = map_sum id RespGranted (decode_lease_grant body)"
  "decode_response c (KIND_DENIED # body) = map_sum id RespDenied (decode_deny body)"
  "decode_response c (KIND_QUEUE # body) = Inr (RespQueue body)"
  "decode_response c (KIND_ASKED # body) = map_sum id RespAsked (u64_le 0 body)"
  "decode_response c (KIND_DECIDED # body) = map_sum id RespDecided (opaque body)"
  "decode_response c (KIND_WAITING # body) = map_sum id (\<lambda>_. RespWaiting) (no_body body)"
  "decode_response c (KIND_ACCEPTED # body) = map_sum id (\<lambda>_. RespAccepted) (no_body body)"
  "decode_response c (KIND_NOTICE # body) = map_sum id RespNotice (decode_notice body)"
  "decode_response c (KIND_REVOCATION # body) = map_sum id RespRevocation (opaque body)"
  "decode_response c (KIND_NOT_REVOKED # body) = map_sum id (\<lambda>_. RespNotRevoked) (no_body body)"
  "decode_response c (KIND_STANDING # body) = map_sum id RespStanding (opaque body)"
  "decode_response c (KIND_LOG_VIEW # body) = map_sum id RespLogView (view_decode body)"
  "decode_response c (KIND_DIRECTORY_ENTRY # body) = map_sum id RespDirectoryEntry (lookup_decode body)"
  "decode_response c (KIND_DIRECTORY_RECORDS # body) = map_sum id RespDirectoryRecords (decode_page c body)"
  "decode_response c (KIND_RECEIPT # body) = map_sum id RespReceipt (opaque body)"
  "decode_response c (KIND_BINDING # body) = map_sum id RespBinding (opaque body)"
  "decode_response c (KIND_REPLICA_ACK # body) = map_sum id RespReplicaAck (opaque body)"
  "decode_response c (KIND_CHAIN_STORED # body) = map_sum id (\<lambda>_. RespChainStored) (no_body body)"
  "decode_response c (KIND_CHAIN # body) = map_sum id (\<lambda>(documents, key, actions). RespChain documents key actions) (decode_chain_reply body)"
  "decode_response c (KIND_NO_CHAIN # body) = map_sum id (\<lambda>_. RespNoChain) (no_body body)"
  "decode_response c (KIND_ACTION_GRANTED # body) = map_sum id RespActionGranted (opaque body)"
  "decode_response c (KIND_ACTION_PENDING # body) = map_sum id RespActionPending (u64_le 0 body)"
  "decode_response c (KIND_ACTION_REFUSED # body) = decode_refused body"
  "decode_response c (KIND_ACTION_QUEUE # body) = Inr (RespActionQueue body)"
  "decode_response c (KIND_ATTEST_NONCE # body) = map_sum id RespAttestNonce (exact_len ATTEST_SECRET_LEN 0 body)"
  "decode_response c (KIND_ATTEST_CREDENTIAL # body) = map_sum id (\<lambda>_. RespAttestCredential body) (check_credential body)"
  "decode_response c (KIND_ATTESTED # body) = decode_attested_reply body"
  "decode_response c (KIND_ENDORSED # body) = decode_endorsed body "
  by (simp_all add: decode_response_def split_kind)

lemma encode_response_Inr: "encode_response r = Inr bs \<longleftrightarrow> (\<exists>kind body. response_parts r = Inr (kind, body) \<and> bs = kind # body)"
  by (auto simp: encode_response_def bindR_eq_Inr)

lemma response_documents:
  "challenge_wf ch \<Longrightarrow> \<exists>b. encode_challenge ch = Inr b \<and> decode_challenge b = Inr ch"
  "lease_grant_wf g \<Longrightarrow> \<exists>b. encode_lease_grant g = Inr b \<and> decode_lease_grant b = Inr g"
  "deny_wf d \<Longrightarrow> \<exists>b. encode_deny d = Inr b \<and> decode_deny b = Inr d"
  using challenge_codec.enc_total challenge_codec.dec_enc lease_grant_codec.enc_total lease_grant_codec.dec_enc
    deny_codec.enc_total deny_codec.dec_enc by metis+

lemma response_parts_read:
  assumes "response_wf c r"
  shows "\<exists>kind body. response_parts r = Inr (kind, body) \<and> decode_response c (kind # body) = Inr r"
  using assms
proof (cases r)
  case (RespChallenge ch)
  with assms response_documents(1) [of ch] show ?thesis by (auto simp: decode_response_kinds)
next
  case (RespGranted g)
  with assms response_documents(2) [of g] show ?thesis by (auto simp: decode_response_kinds)
next
  case (RespDenied d)
  with assms response_documents(3) [of d] show ?thesis by (auto simp: decode_response_kinds)
next
  case (RespLogView v)
  with assms obtain body where "view_encode v = Inr body" "view_decode body = Inr v" by (auto simp: view_decode_Inr elim: is_okE)
  with RespLogView show ?thesis by (simp add: decode_response_kinds)
next
  case (RespDirectoryEntry l)
  with assms obtain body where "lookup_encode l = Inr body" "lookup_decode body = Inr l" by (auto simp: lookup_decode_Inr elim: is_okE)
  with RespDirectoryEntry show ?thesis by (simp add: decode_response_kinds)
next
  case (RespDirectoryRecords recs)
  with assms obtain body where "encode_page recs = Inr body" "decode_page c body = Inr recs" by (auto simp: decode_page_exact elim: is_okE)
  with RespDirectoryRecords show ?thesis by (simp add: decode_response_kinds)
next
  case (RespChain documents key actions)
  with assms chain_reply_codec.dec_enc [of "(documents, key, actions)"] show ?thesis
    by (simp add: decode_response_kinds encode_chain_reply_wf)
next
  case (RespNotice n)
  with assms decode_notice_encode [of n] show ?thesis by (simp add: decode_response_kinds)
next
  case (RespAttestCredential cred)
  with assms obtain u where "check_credential cred = Inr u" by (auto elim: is_okE)
  with RespAttestCredential show ?thesis by (simp add: decode_response_kinds)
next
  case (RespActionRefused why)
  with assms obtain u where "check_refusal why = Inr u" by (auto elim: is_okE)
  with RespActionRefused assms show ?thesis by (simp add: decode_response_kinds decode_refused_Inr)
qed (simp_all add: decode_response_kinds request_documents(1) no_body_def exact_len_def ATTEST_SECRET_LEN_def decode_attested_reply_Inr
    decode_endorsed_Inr)

section \<open>Properties\<close>

text \<open>
  Every response is carried faithfully.  For each of the thirty kinds, the responses a client
  can be made to read are exactly the well-formed ones, a page of the directory only with records
  that parse; each can be written, and reading what was written yields the same response.
\<close>

theorem responses_carried:
  "((\<exists>bs. decode_response c bs = Inr r) \<longleftrightarrow> response_wf c r) \<and>
   (response_wf c r \<longrightarrow> bindR (encode_response r) (decode_response c) = Inr r)"
proof -
  have "bindR (encode_response r) (decode_response c) = Inr r" if "response_wf c r"
    using response_parts_read [OF that] by (auto simp: encode_response_def)
  then show ?thesis using decode_response_wf response_parts_read by blast
qed

theorem responses_carried_witness:
  "bindR (encode_response (RespNotice (JournalEvent 3 9 (replicate 16 1) None))) (decode_response demo_crates) =
     Inr (RespNotice (JournalEvent 3 9 (replicate 16 1) None))"
proof -
  have "response_wf demo_crates (RespNotice (JournalEvent 3 9 (replicate 16 1) None))" by simp
  then show ?thesis using responses_carried by blast
qed

fun in_session :: "Request \<Rightarrow> bool" where
  "in_session (ReqActivate a) = True"
| "in_session (ReqRenew a) = True"
| "in_session ReqAttestOpen = True"
| "in_session (ReqAttestEvidence e) = True"
| "in_session (ReqAttestSecret secret) = True"
| "in_session _ = False"

definition request_kinds :: "byte set" where
  "request_kinds = {1, 2, 3, 8, 9, 10, 15, 17, 19, 22, 23, 24, 25, 26, 27, 30, 31, 32, 33, 37, 38, 40, 41, 43, 45, 47, 49, 51, 52, 53, 57, 58, 59, 60, 61}"

lemma request_kind:
  assumes "envelope_decode_request (kind # body) = Inr r"
  shows "kind \<in> request_kinds" and "is_session_sealed kind \<longleftrightarrow> in_session r"
proof -
  show "kind \<in> request_kinds"
    using assms by (auto simp: envelope_decode_request_def request_kinds_def split: if_splits)
  show "is_session_sealed kind \<longleftrightarrow> in_session r"
    using assms by (auto simp: envelope_decode_request_def is_session_sealed_def map_sum_id_Inr decode_watch_Inr decode_watch_author_Inr
        decode_report_Inr decode_records_request_Inr split: if_splits)
qed

lemma response_kind: "decode_response c (kind # body) = Inr r \<Longrightarrow> kind \<notin> request_kinds"
  by (auto simp: decode_response_def request_kinds_def split: if_splits)

lemma split_request_mac_Inr:
  "split_request_mac framed = Inr (body, mac) \<longleftrightarrow> framed = body @ mac \<and> body \<noteq> [] \<and> length mac = 32"
proof
  assume "split_request_mac framed = Inr (body, mac)"
  then show "framed = body @ mac \<and> body \<noteq> [] \<and> length mac = 32"
    by (auto simp: split_request_mac_def bindR_eq_Inr ok_or_eq_Inr REQUEST_MAC_LEN_def split: if_splits)
next
  assume "framed = body @ mac \<and> body \<noteq> [] \<and> length mac = 32"
  then show "split_request_mac framed = Inr (body, mac)" by (simp add: split_request_mac_def REQUEST_MAC_LEN_def)
qed

text \<open>
  C37.  Every request is carried faithfully and has one reading.  For each of the thirty-five kinds,
  the requests a server can be made to read are exactly the well-formed ones: identifiers of their
  exact length, documents that are neither empty nor larger than a mebibyte, lists within their
  limits, the name of a lookup readable text.  Each of these can be written, and reading what was
  written yields the same request, kind included.  What is read as a request can never be read as a
  response, and whether it must come under the authentication code of a session is decided by its
  first byte exactly as by its meaning, so that no request for a lease and no step of an
  attestation passes as one that needs no code.
\<close>

theorem requests_carried:
  "((\<exists>bs. envelope_decode_request bs = Inr r) \<longleftrightarrow> enveloped_request_wf r) \<and>
   (enveloped_request_wf r \<longrightarrow> bindR (envelope_encode_request r) envelope_decode_request = Inr r) \<and>
   (\<forall>bs. envelope_decode_request bs = Inr r \<longrightarrow>
      (\<forall>c s. decode_response c bs \<noteq> Inr s) \<and> (is_session_sealed (hd bs) \<longleftrightarrow> in_session r))"
proof -
  have "bindR (envelope_encode_request r) envelope_decode_request = Inr r" if "enveloped_request_wf r"
    using request_parts_read [OF that] by (auto simp: envelope_encode_request_def)
  moreover have "(\<forall>c s. decode_response c bs \<noteq> Inr s) \<and> (is_session_sealed (hd bs) \<longleftrightarrow> in_session r)"
    if read: "envelope_decode_request bs = Inr r" for bs
  proof -
    obtain kind body where "bs = kind # body" using read envelope_decode_request_Cons by blast
    then show ?thesis using request_kind [of kind body r] response_kind [of _ kind body] read by auto
  qed
  ultimately show ?thesis using envelope_decode_request_wf request_parts_read by blast
qed

theorem requests_carried_witness:
  "bindR (envelope_encode_request (ReqWatch [replicate 16 1, replicate 16 2] 7)) envelope_decode_request = Inr (ReqWatch [replicate 16 1, replicate 16 2] 7) \<and>
   envelope_decode_request [31] = Inr ReqAttestOpen \<and> is_session_sealed 31 \<and> (\<nexists>s. decode_response demo_crates [31] = Inr s)"
proof -
  have "enveloped_request_wf (ReqWatch [replicate 16 1, replicate 16 2] 7)" "envelope_decode_request [31] = Inr ReqAttestOpen"
    by (simp_all add: envelope_decode_request_kinds no_body_def)
  then show ?thesis
    using requests_carried [of "ReqWatch [replicate 16 1, replicate 16 2] 7"] requests_carried [of ReqAttestOpen] by fastforce
qed

text \<open>
  A snapshot of more than a mebibyte cannot be sent to a replica.  A push whose state is larger
  than \<open>MAX_DOCUMENT\<close> but within \<open>MAX_STATE\<close> is a genuine document that the replica's reader accepts,
  yet neither side of the envelope lets it pass.
\<close>

theorem large_push_not_carried:
  assumes "ct_eq_sound c" and "digests_32 c" and "push_wf p"
    and "1048576 < length (pu_state p)" and "length (pu_state p) \<le> 2097152" and "pu_state_hash p = sha256_digest c (pu_state p)"
    and "length sig = 64" and "signed_by c REPLICA_PUSH key (enc_fields (push_fields p)) sig"
  shows "push_body c p = Inr (enc_fields (push_fields p)) \<and>
    push_open c (sig @ enc_fields (push_fields p)) key = Inr p \<and>
    envelope_encode_request (ReqReplicaPush (sig @ enc_fields (push_fields p))) =
      Inl (BadFieldLength 0 (length (sig @ enc_fields (push_fields p)))) \<and>
    envelope_decode_request (KIND_REPLICA_PUSH # sig @ enc_fields (push_fields p)) =
      Inl (BadFieldLength 0 (length (sig @ enc_fields (push_fields p))))"
proof -
  have "carries push_tags (push_fields p) (enc_fields (push_fields p))"
    using assms(3,5) by (intro carries_self) (simp_all add: push_fields_def push_wf_def push_tags_def)
  then have "push_open c (sig @ enc_fields (push_fields p)) key = Inr p"
    using push_open_Inr [OF assms(1,2)] assms(3,5-8) by blast
  moreover have "length (sig @ enc_fields (push_fields p)) > MAX_DOCUMENT"
    using assms(4) by (simp add: push_fields_def MAX_DOCUMENT_value)
  ultimately show ?thesis
    using push_body_Inr [OF assms(1-3)] assms(5,6) by (simp add: envelope_encode_request_def envelope_decode_request_kinds opaque_def)
qed

definition demo_large_push :: Push where
  "demo_large_push = \<lparr>pu_authority_id = replicate 16 1, pu_epoch = 2, pu_seq = 3, pu_previous = replicate 32 0,
     pu_state_hash = sha256_digest demo_crates (replicate 1048577 0), pu_snapshot = True, pu_at = 4, pu_state = replicate 1048577 0\<rparr>"

theorem large_push_not_carried_witness:
  "\<exists>bs. push_open demo_crates bs (replicate 32 6) = Inr demo_large_push \<and> \<not> is_ok (envelope_encode_request (ReqReplicaPush bs))"
proof -
  have "push_wf demo_large_push" using demo_crates_laws(3) by (simp add: push_wf_def demo_large_push_def digests_32_def)
  moreover have "signed_by demo_crates REPLICA_PUSH (replicate 32 6) body (replicate 32 0 @ replicate 32 6)" for body
    by (rule demo_signed) simp
  ultimately show ?thesis
    using large_push_not_carried [OF demo_crates_laws(1,3), of demo_large_push "replicate 32 0 @ replicate 32 6" "replicate 32 6"]
    by (auto simp: demo_large_push_def is_ok_def)
qed

end
