(* ===== verification/Spec2Isabelle.thy ===== *)
theory Spec2Isabelle
  imports OC_Policy OC_Tlv OC_Layout OC_Policy_Codec OC_Crypto OC_Content OC_Text
    OC_Header OC_Header_Valid OC_Verify OC_Merkle OC_Document OC_Lease OC_Access OC_Action
    OC_Action_Wire OC_Kdf OC_Agent OC_Aead OC_Seal OC_Rule OC_Order OC_Engine
    OC_Rsa OC_Edit OC_Consistency OC_Witness OC_Canonical OC_Directory OC_Control OC_Replica
    OC_Evidence OC_Activation OC_Envelope
begin

text \<open>
  A verification development for OpenCrate, a container format for protected documents with
  its access policy, cryptographic bindings and protocol messages (\<^verbatim>\<open>src/crates\<close>).

  \<^bold>\<open>The program.\<close>  A container is a prologue (magic, length, header, author signature), an
  authenticated content description, encrypted chunks and an optional footer.  A reader splits
  the prologue, verifies the author's signature and parses the header
  (\<^verbatim>\<open>oc-format\<close>), authenticates the content description with a MAC (\<^verbatim>\<open>oc-crypto\<close>), locates
  the chunks, checks each against a Merkle tree, and asks the policy (\<^verbatim>\<open>oc-policy\<close>) whether an
  action is permitted under the lease it holds.  Leases, orders and their signatures are
  \<^verbatim>\<open>oc-protocol\<close>; \<^verbatim>\<open>oc-engine\<close> combines the crates.

  \<^bold>\<open>Theories and sources.\<close>
  \<^item> \<open>OC_Prelude\<close>: machine integers, results with early return, checked and saturating
    arithmetic, little- and big-endian bytes.
  \<^item> \<open>OC_Policy\<close>: \<^verbatim>\<open>oc-policy/src/lib.rs\<close>.  \<open>evaluate\<close> is the chain of checks of the function
    of that name, \<open>intersect\<close> the composition of an author's and a server's policy.  The lemmas
    show what an allowed action rests on, that composition is a meet, when it narrows, and what
    a denial says.
  \<^item> \<open>OC_Tlv\<close>: \<^verbatim>\<open>oc-format/src/tlv.rs\<close> and \<^verbatim>\<open>frame.rs\<close>.  The locale \<open>codec\<close> is the contract of
    every encoder and decoder pair: what is written is read back, hence encodings are
    injective.  \<open>tlv_loop\<close> is the decoders' \<^verbatim>\<open>while let\<close> loop.
  \<^item> \<open>OC_Layout\<close>: \<^verbatim>\<open>oc-format/src/lib.rs\<close>: limits, prologue, chunk arithmetic.
  \<^item> \<open>OC_Policy_Codec\<close>: \<^verbatim>\<open>oc-format/src/policy_codec.rs\<close>: policies as bytes, fail closed.
  \<^item> \<open>OC_Crypto\<close>: \<^verbatim>\<open>oc-crypto/src/lib.rs\<close>, \<^verbatim>\<open>transcript.rs\<close>, \<^verbatim>\<open>mac.rs\<close> and the verifying half of
    \<^verbatim>\<open>sign.rs\<close>.  Hash, HMAC, constant-time comparison and Ed25519 are third-party code: they are
    the fields of a record \<open>Crates\<close> that every definition which uses them takes as an argument,
    and what is relied on of them is named (\<open>ct_eq_sound\<close>, \<open>hmac_total\<close>, \<open>digests_32\<close>).
  \<^item> \<open>OC_Content\<close>: \<^verbatim>\<open>oc-format/src/content.rs\<close> and \<^verbatim>\<open>footer.rs\<close>.
  \<^item> \<open>OC_Text\<close>: \<^verbatim>\<open>oc-format/src/text.rs\<close> and \<^verbatim>\<open>encoding.rs\<close>.
  \<^item> \<open>OC_Header\<close> and \<open>OC_Header_Valid\<close>: \<^verbatim>\<open>oc-format/src/header.rs\<close>; the second holds the
    invariant of decoded headers and what the core and policy hashes cover.
  \<^item> \<open>OC_Verify\<close>: \<^verbatim>\<open>oc-format/src/verify.rs\<close>, the one entry point that hands out headers.
  \<^item> \<open>OC_Merkle\<close>: \<^verbatim>\<open>oc-crypto/src/merkle.rs\<close>: the tree over the chunks; proofs verify exactly for
    the leaves of the tree unless the hash collides, and an update equals a rebuild.
  \<^item> \<open>OC_Kdf\<close>: \<^verbatim>\<open>oc-crypto/src/kdf.rs\<close>: every derived key and fingerprint.
  \<^item> \<open>OC_Aead\<close>: \<^verbatim>\<open>oc-crypto/src/secret.rs\<close>, \<^verbatim>\<open>aead.rs\<close>, \<^verbatim>\<open>wrap.rs\<close> and \<^verbatim>\<open>stream.rs\<close>: chunks, the
    wrapped content key, and the loop that seals a stream; what was sealed opens, and a failed
    opening leaves a wiped buffer.
  \<^item> \<open>OC_Seal\<close>: \<^verbatim>\<open>oc-crypto/src/seal.rs\<close>, \<^verbatim>\<open>agreement.rs\<close>, \<^verbatim>\<open>xwing.rs\<close> and \<^verbatim>\<open>mlkem_p256.rs\<close>.  The
    locales \<open>key_agreement\<close> and \<open>key_encapsulation\<close> are the contracts of the mechanisms.
  \<^item> \<open>OC_Document\<close>: what the signed records of \<^verbatim>\<open>oc-protocol\<close> share (\<^verbatim>\<open>unknown.rs\<close>): the locale
    \<open>strict_decoder\<close> for a decoder that reads ascending fields once, \<open>signed_record\<close> for a body
    with a signature over its transcript.
  \<^item> \<open>OC_Lease\<close>, \<open>OC_Access\<close>: \<^verbatim>\<open>oc-protocol/src/lease.rs\<close>, \<^verbatim>\<open>revocation.rs\<close>, \<^verbatim>\<open>access.rs\<close>.
  \<^item> \<open>OC_Action\<close>, \<open>OC_Action_Wire\<close>: \<^verbatim>\<open>oc-protocol/src/action.rs\<close>: rules for the actions of an
    agent, their narrowing, and the records that carry them.
  \<^item> \<open>OC_Agent\<close>: \<^verbatim>\<open>oc-protocol/src/agent.rs\<close>: grants, delegations and the check of a chain.
  \<^item> \<open>OC_Rule\<close>, \<open>OC_Order\<close>: \<^verbatim>\<open>oc-protocol/src/attribute_rule.rs\<close> and \<^verbatim>\<open>order.rs\<close>: rules over the
    attributes of a person, and the orders of an author with what each kind may carry.
  \<^item> \<open>OC_Engine\<close>: \<^verbatim>\<open>oc-engine/src/lib.rs\<close>: packing.  What \<open>assemble\<close> writes is accepted by the
    readers of \<open>OC_Verify\<close> and \<open>OC_Content\<close>, and every planned recipient opens the content key.
  \<^item> \<open>OC_Rsa\<close>: \<^verbatim>\<open>oc-crypto/src/rsa.rs\<close> and \<^verbatim>\<open>tpm.rs\<close> over a modular power as a parameter, and the
    signers of \<^verbatim>\<open>sign.rs\<close>; verification is equivalent to the encoding of the standard.
  \<^item> \<open>OC_Edit\<close>: \<^verbatim>\<open>oc-format/src/edit.rs\<close> and \<^verbatim>\<open>oc-engine/src/edit.rs\<close>: editor certificates, the
    signed editor message, writing and verifying an edition.
  \<^item> \<open>OC_Consistency\<close>: consistency proofs of \<^verbatim>\<open>oc-crypto/src/merkle.rs\<close>: an accepted proof shows
    that the smaller tree is a prefix of the larger one unless the hash collides.
  \<^item> \<open>OC_Witness\<close>: \<^verbatim>\<open>oc-protocol/src/witness.rs\<close>: signed heads and the relation of two heads, on
    top of \<open>OC_Consistency\<close>.
  \<^item> \<open>OC_Canonical\<close>: the locale \<open>canonical_reader\<close> for the documents which are compared with their
    own encoding after the skipped fields are cut out.
  \<^item> \<open>OC_Directory\<close>: \<^verbatim>\<open>oc-protocol/src/directory.rs\<close>: records of keys, and lookups that prove an
    entry against a signed head.
  \<^item> \<open>OC_Control\<close>: \<^verbatim>\<open>oc-protocol/src/control.rs\<close>: the bindings of an authority, requests under
    several signatures, receipts and transfers; the relation \<open>succession\<close> says what a chain of
    transfers establishes, and \<open>verify_chain\<close> is shown to accept nothing else.
  \<^item> \<open>OC_Replica\<close>: \<^verbatim>\<open>oc-protocol/src/replica.rs\<close>: snapshots pushed to a replica and their
    acknowledgements.
  \<^item> \<open>OC_Evidence\<close>: \<^verbatim>\<open>oc-protocol/src/attestation.rs\<close>: the evidence a device presents about its
    key and the layout of a credential, both characterised exactly.
  \<^item> \<open>OC_Activation\<close>: \<^verbatim>\<open>oc-protocol/src/activation.rs\<close>: the documents of an activation, that is the
    greeting, the challenge and its proof, the request for a lease with the slot it opens, and
    the answers; for each, which values a reader can be made to accept.
  \<^item> \<open>OC_Envelope\<close>: the numbered requests and responses of the same file.  Requests and responses
    are carried without change, no body is both, and a snapshot larger than a document may be
    does not fit into the envelope.

  \<^bold>\<open>Conventions.\<close>  Integers of fixed width are words of that width, \<^verbatim>\<open>i64\<close> is read by the signed
  value of a 64-bit word, \<^verbatim>\<open>usize\<close> is a natural number with an explicit limit of \<open>2 ^ 64\<close>; a
  \<^verbatim>\<open>Result\<close> is a sum with the error on the left, every early return a branch; byte arrays of a
  fixed length are byte lists with their length checked where the code checks it.  Every loop is
  a total recursive function; no fuel is used.

  \<^bold>\<open>Not modelled.\<close>  The standing of a file (\<^verbatim>\<open>oc-protocol/src/standing.rs\<close>) and the engine's local
  wire format (\<^verbatim>\<open>oc-engine/src/wire.rs\<close>): they carry the documents above without deciding over
  them.  The primitives of third-party crates, random generation and key storage; formatting of
  errors for display; zeroisation of secrets (it has no observable result).
\<close>

end
